(* ===== verification/Prelude.thy ===== *)
theory Prelude
  imports Main "HOL-Library.AList" "HOL-Library.Sublist"
begin

text \<open>
  Shared ground of the development: the fragment of the JavaScript standard library that the
  modelled TypeScript uses (string search, \<open>trim\<close>, \<open>split\<close>, \<open>Array.prototype.splice\<close>, the
  insertion-ordered \<open>Map\<close>), with the lemmas every component needs about it, the lemma
  collections, and two interfaces as locales: a keyed record store, and an event machine whose state
  covers a ledger.

  Strings are \<open>char list\<close>s. The modelled code compares code units with ASCII characters only, so
  a model character stands for one code unit. A \<open>Map\<close> is an association list in insertion order:
  \<open>Map.set\<close> replaces the value of a present key in place and appends a new key at the end, which is
  \<^const>\<open>AList.update\<close>; \<open>Map.delete\<close> is \<^const>\<open>AList.delete\<close>; \<open>Map.get\<close> is \<^const>\<open>map_of\<close>.
\<close>

named_theorems transitions \<open>the transition functions of the refresh state machines\<close>
named_theorems store_ops \<open>the operations of the scoped snapshot store\<close>

type_synonym ('k, 'v) js_map = "('k \<times> 'v) list"
type_synonym timer = nat
type_synonym task = nat
type_synonym millis = nat

section \<open>Strings\<close>

definition js_space :: "char \<Rightarrow> bool" where
  "js_space c \<longleftrightarrow> (of_char c :: nat) \<in> {9, 10, 11, 12, 13, 32, 160}"

definition trim :: "string \<Rightarrow> string" where
  "trim s = rev (dropWhile js_space (rev (dropWhile js_space s)))"

fun index_of :: "'a \<Rightarrow> 'a list \<Rightarrow> nat option" where
  "index_of c [] = None"
| "index_of c (x # xs) = (if x = c then Some 0 else map_option Suc (index_of c xs))"

fun js_split :: "'a \<Rightarrow> 'a list \<Rightarrow> 'a list list" where
  "js_split c [] = [[]]"
| "js_split c (x # xs) =
     (if x = c then [] # js_split c xs
      else (case js_split c xs of [] \<Rightarrow> [[x]] | p # ps \<Rightarrow> (x # p) # ps))"

fun js_join :: "'a list \<Rightarrow> 'a list list \<Rightarrow> 'a list" where
  "js_join sep [] = []"
| "js_join sep [p] = p"
| "js_join sep (p # q # ps) = p @ sep @ js_join sep (q # ps)"

definition starts_with :: "'a list \<Rightarrow> 'a list \<Rightarrow> bool" where
  "starts_with p s \<longleftrightarrow> take (length p) s = p"

text \<open>\<open>xs.splice(i, 0, x)\<close> for an index as JavaScript reads it: a negative one counts from the
  end, and either end clamps.\<close>

definition splice_index :: "nat \<Rightarrow> int \<Rightarrow> nat" where
  "splice_index n i = (if i < 0 then nat (max 0 (int n + i)) else min n (nat i))"

definition splice_insert :: "'a list \<Rightarrow> int \<Rightarrow> 'a \<Rightarrow> 'a list" where
  "splice_insert xs i x = (let k = splice_index (length xs) i in take k xs @ x # drop k xs)"

section \<open>Lemmas on strings and lists\<close>

lemma index_of_None_iff [simp]: "index_of c xs = None \<longleftrightarrow> c \<notin> set xs"
  by (induction xs) auto

lemma index_of_absent [simp]: "c \<notin> set xs \<Longrightarrow> index_of c xs = None"
  by simp

lemma index_of_SomeD:
  "index_of c xs = Some i \<Longrightarrow> i < length xs \<and> xs ! i = c \<and> c \<notin> set (take i xs)"
  by (induction xs arbitrary: i) (auto split: if_splits)

lemma index_of_append_first [simp]: "c \<notin> set xs \<Longrightarrow> index_of c (xs @ c # ys) = Some (length xs)"
  by (induction xs) auto

lemma index_of_split:
  assumes "index_of c xs = Some i"
  shows "xs = take i xs @ c # drop (Suc i) xs"
  using index_of_SomeD [OF assms] by (metis id_take_nth_drop)

lemma starts_with_append [simp]: "starts_with p (p @ s)"
  by (simp add: starts_with_def)

lemma starts_with_drop: "starts_with p s \<Longrightarrow> p @ drop (length p) s = s"
  unfolding starts_with_def by (metis append_take_drop_id)

lemma starts_with_iff: "starts_with p s \<longleftrightarrow> (\<exists>t. s = p @ t)"
  by (metis starts_with_append starts_with_drop)

lemma js_split_not_Nil [simp]: "js_split c xs \<noteq> []"
  by (induction xs) (auto split: list.splits)

lemma js_split_join: "js_join [c] (js_split c xs) = xs"
proof (induction xs)
  case (Cons x xs)
  obtain p ps where "js_split c xs = p # ps"
    by (cases "js_split c xs") auto
  with Cons show ?case by (cases ps) auto
qed simp

lemma js_split_no_sep: "c \<notin> set xs \<Longrightarrow> js_split c xs = [xs]"
  by (induction xs) auto

lemma js_split_append: "c \<notin> set xs \<Longrightarrow> js_split c (xs @ c # ys) = xs # js_split c ys"
  by (induction xs) auto

lemma js_split_of_join:
  assumes "ps \<noteq> []" and "\<And>p. p \<in> set ps \<Longrightarrow> c \<notin> set p"
  shows "js_split c (js_join [c] ps) = ps"
  using assms
proof (induction "[c]" ps rule: js_join.induct)
  case (3 p q ps)
  then show ?case by (simp add: js_split_append)
qed (auto simp: js_split_no_sep)

lemma trim_idem [simp]: "trim (trim s) = trim s"
proof -
  have "dropWhile js_space (trim s) = trim s"
  proof (cases "trim s")
    case (Cons c t)
    have "\<exists>z. dropWhile js_space s = trim s @ z"
      unfolding trim_def
      by (metis rev_append rev_rev_ident takeWhile_dropWhile_id)
    with Cons have "\<not> js_space c"
      by (metis append_Cons hd_dropWhile list.discI list.sel(1))
    with Cons show ?thesis by simp
  qed simp
  then show ?thesis
    unfolding trim_def by simp
qed

lemma trim_Nil [simp]: "trim [] = []"
  by (simp add: trim_def)

lemma trim_fixed_iff:
  "trim s = s \<longleftrightarrow> s = [] \<or> \<not> js_space (hd s) \<and> \<not> js_space (last s)"
proof
  assume t: "trim s = s"
  show "s = [] \<or> \<not> js_space (hd s) \<and> \<not> js_space (last s)"
  proof (cases "s = []")
    case False
    have len: "length (dropWhile js_space s) \<ge> length s"
      using t unfolding trim_def
      by (metis length_dropWhile_le length_rev)
    then have d: "dropWhile js_space s = s"
      by (metis append_eq_append_conv append_self_conv2 length_dropWhile_le nle_le
          takeWhile_dropWhile_id)
    then have "dropWhile js_space (rev s) = rev s"
      using t unfolding trim_def by (metis rev_swap)
    with d False show ?thesis
      by (metis hd_dropWhile hd_rev rev_is_Nil_conv)
  qed simp
next
  assume "s = [] \<or> \<not> js_space (hd s) \<and> \<not> js_space (last s)"
  then show "trim s = s"
  proof
    assume h: "\<not> js_space (hd s) \<and> \<not> js_space (last s)"
    show ?thesis
    proof (cases "s = []")
      case False
      have "dropWhile js_space s = s" using h False by (cases s) auto
      moreover have "dropWhile js_space (rev s) = rev s"
        using h False by (cases "rev s") (auto simp flip: hd_rev)
      ultimately show ?thesis by (simp add: trim_def)
    qed simp
  qed simp
qed

lemma splice_insert_set [simp]: "set (splice_insert xs i x) = insert x (set xs)"
proof -
  let ?k = "splice_index (length xs) i"
  have "set (splice_insert xs i x) = insert x (set (take ?k xs @ drop ?k xs))"
    unfolding splice_insert_def Let_def by (simp del: append_take_drop_id)
  then show ?thesis by simp
qed

lemma splice_insert_distinct [simp]:
  "distinct (splice_insert xs i x) \<longleftrightarrow> distinct xs \<and> x \<notin> set xs"
proof -
  let ?k = "splice_index (length xs) i"
  have "distinct (splice_insert xs i x) \<longleftrightarrow> distinct (x # (take ?k xs @ drop ?k xs))"
    unfolding splice_insert_def Let_def by (auto simp del: append_take_drop_id)
  then show ?thesis by auto
qed

lemma splice_insert_length [simp]: "length (splice_insert xs i x) = Suc (length xs)"
  by (simp add: splice_insert_def Let_def)

lemma splice_insert_filter: "x \<notin> set xs \<Longrightarrow> filter (\<lambda>y. y \<noteq> x) (splice_insert xs i x) = xs"
proof -
  assume x: "x \<notin> set xs"
  have "filter (\<lambda>y. y \<noteq> x) ys = ys" if "set ys \<subseteq> set xs" for ys
    using that x by (auto simp: filter_id_conv)
  then show ?thesis
    unfolding splice_insert_def Let_def by (simp add: set_take_subset set_drop_subset)
qed

lemma option_eq_by_Some: "(\<And>x. a = Some x \<longleftrightarrow> b = Some x) \<Longrightarrow> a = b"
  by (cases a; cases b) auto

section \<open>Lemmas on maps in insertion order\<close>

lemma update_fst_set: "fst ` set (AList.update k v m) = insert k (fst ` set m)"
  by (induction m) auto

lemma delete_fst_set: "fst ` set (AList.delete k m) = fst ` set m - {k}"
  by (auto simp: AList.delete_eq)

lemma map_of_delete: "map_of (AList.delete k m) = (map_of m)(k := None)"
  by (rule delete_conv')

lemma map_of_update: "map_of (AList.update k v m) = (map_of m)(k \<mapsto> v)"
  by (rule update_conv')

lemma map_of_in_set:
  "distinct (map fst m) \<Longrightarrow> map_of m k = Some v \<longleftrightarrow> (k, v) \<in> set m"
  by (metis map_of_SomeD map_of_is_SomeI)

lemma delete_absent [simp]: "k \<notin> fst ` set m \<Longrightarrow> AList.delete k m = m"
  by (force simp: AList.delete_eq filter_id_conv)

lemmas js_map_simps = map_of_update map_of_delete update_fst_set delete_fst_set

text \<open>A sweep that rewrites the records \<open>h\<close> selects and collects what \<open>h\<close> returns for them: the
  loop the source writes as \<open>Array.from(map.values()).forEach(\<dots> push \<dots> store \<dots>)\<close>.\<close>

definition collect_sweep ::
    "('s \<Rightarrow> 'v \<Rightarrow> 's) \<Rightarrow> ('v \<Rightarrow> 'x option) \<Rightarrow> ('v \<Rightarrow> 'v) \<Rightarrow> 'v list \<Rightarrow> 's \<Rightarrow> 's \<times> 'x list" where
  "collect_sweep put h f vs s =
     fold (\<lambda>v (s, out). case h v of Some x \<Rightarrow> (put s (f v), out @ [x]) | None \<Rightarrow> (s, out)) vs (s, [])"

lemma collect_sweep_eq:
  "collect_sweep put h f vs s =
     (fold (\<lambda>v s. put s (f v)) (filter (\<lambda>v. h v \<noteq> None) vs) s, List.map_filter h vs)"
proof -
  have "fold (\<lambda>v (s, out). case h v of Some x \<Rightarrow> (put s (f v), out @ [x]) | None \<Rightarrow> (s, out)) vs (s, out) =
      (fold (\<lambda>v s. put s (f v)) (filter (\<lambda>v. h v \<noteq> None) vs) s, out @ List.map_filter h vs)" for out
    by (induction vs arbitrary: s out) (auto simp: List.map_filter_simps split: option.split)
  then show ?thesis by (simp add: collect_sweep_def)
qed

section \<open>The interface of a keyed record store\<close>

text \<open>
  Several components keep one record per key behind a \<open>get\<close>/\<open>store\<close> pair: the cluster runtime
  (one record per domain and scope) and the snapshot store (one snapshot per domain and scope).
  Storing decides by itself whether the record is worth
  keeping: \<open>norm\<close> is what a lookup finds afterwards. A client sweeps the store with a list of
  records it read before; the lemmas below say what a sweep leaves behind.
\<close>

locale keyed_store =
  fixes lookup :: "'s \<Rightarrow> 'k \<Rightarrow> 'v option"
    and put :: "'s \<Rightarrow> 'v \<Rightarrow> 's"
    and key_of :: "'v \<Rightarrow> 'k"
    and norm :: "'v \<Rightarrow> 'v option"
    and inv :: "'s \<Rightarrow> bool"
  assumes lookup_put: "inv s \<Longrightarrow> lookup (put s v) = (lookup s)(key_of v := norm v)"
    and inv_put: "inv s \<Longrightarrow> inv (put s v)"
begin

lemma inv_sweep: "inv s \<Longrightarrow> inv (fold (\<lambda>v s. put s (f v)) vs s)"
  by (induction vs arbitrary: s) (auto intro: inv_put)

lemma lookup_sweep_other:
  assumes "inv s" and "k \<notin> key_of ` set vs" and "\<And>v. v \<in> set vs \<Longrightarrow> key_of (f v) = key_of v"
  shows "lookup (fold (\<lambda>v s. put s (f v)) vs s) k = lookup s k"
  using assms by (induction vs arbitrary: s) (auto simp: lookup_put inv_put)

lemma lookup_sweep:
  assumes "inv s" and "distinct (map key_of vs)"
    and "\<And>v. v \<in> set vs \<Longrightarrow> key_of (f v) = key_of v" and "v \<in> set vs"
  shows "lookup (fold (\<lambda>v s. put s (f v)) vs s) (key_of v) = norm (f v)"
  using assms
proof (induction vs arbitrary: s)
  case (Cons w vs)
  show ?case
  proof (cases "v = w")
    case True
    have "key_of w \<notin> key_of ` set vs" using Cons.prems(2) by auto
    then have "lookup (fold (\<lambda>v s. put s (f v)) vs (put s (f w))) (key_of w)
        = lookup (put s (f w)) (key_of w)"
      using Cons.prems(1,3) by (intro lookup_sweep_other) (auto simp: inv_put)
    with True Cons.prems(1,3) show ?thesis by (simp add: lookup_put)
  next
    case False
    with Cons show ?thesis by (auto simp: inv_put)
  qed
qed simp

text \<open>A sweep over records that are all in the store, each once: the selected ones are replaced,
  the others stay.\<close>

lemma lookup_collect_sweep:
  assumes "inv s" and "distinct (map key_of vs)"
    and "\<And>v. v \<in> set vs \<Longrightarrow> key_of (f v) = key_of v" and "v \<in> set vs"
    and "\<And>v. v \<in> set vs \<Longrightarrow> lookup s (key_of v) = Some v"
  shows "lookup (fst (collect_sweep put h f vs s)) (key_of v) =
    (if h v = None then Some v else norm (f v))"
proof -
  define sel where "sel = filter (\<lambda>v. h v \<noteq> None) vs"
  have sub: "set sel \<subseteq> set vs" and dist: "distinct (map key_of sel)"
    using assms(2) by (auto simp: sel_def distinct_map intro: inj_on_subset)
  have run: "fst (collect_sweep put h f vs s) = fold (\<lambda>v s. put s (f v)) sel s"
    by (simp add: collect_sweep_eq sel_def)
  show ?thesis
  proof (cases "h v = None")
    case True
    have "w = v" if "w \<in> set vs" and "key_of v = key_of w" for w
      using that assms(2,4) unfolding distinct_map inj_on_def by metis
    then have "key_of v \<notin> key_of ` set sel"
      using True unfolding sel_def by fastforce
    then have "lookup (fold (\<lambda>v s. put s (f v)) sel s) (key_of v) = lookup s (key_of v)"
      using assms(3) sub by (intro lookup_sweep_other [OF assms(1)]) auto
    with True run assms(5) [OF assms(4)] show ?thesis by simp
  next
    case False
    then have "v \<in> set sel" using assms(4) by (simp add: sel_def)
    then have "lookup (fold (\<lambda>v s. put s (f v)) sel s) (key_of v) = norm (f v)"
      using assms(3) sub by (intro lookup_sweep [OF assms(1) dist]) auto
    with False run show ?thesis by auto
  qed
qed

lemma lookup_collect_sweep_other:
  assumes "inv s" and "\<And>v. v \<in> set vs \<Longrightarrow> key_of (f v) = key_of v" and "k \<notin> key_of ` set vs"
  shows "lookup (fst (collect_sweep put h f vs s)) k = lookup s k"
  unfolding collect_sweep_eq fst_conv using assms(2,3)
  by (intro lookup_sweep_other [OF assms(1)]) auto

lemma lookup_put_commute:
  assumes "inv s" and "key_of v \<noteq> key_of w"
  shows "lookup (put (put s v) w) = lookup (put (put s w) v)"
  using assms by (simp add: lookup_put inv_put fun_upd_twist)

lemma lookup_put_twice:
  assumes "inv s" and "key_of v = key_of w"
  shows "lookup (put (put s v) w) = lookup (put s w)"
  using assms by (simp add: lookup_put inv_put)

end

text \<open>A store that also forgets a key on request.\<close>

locale keyed_store_del = keyed_store +
  fixes del :: "'s \<Rightarrow> 'k \<Rightarrow> 's"
  assumes lookup_del: "inv s \<Longrightarrow> lookup (del s k) = (lookup s)(k := None)"
    and inv_del: "inv s \<Longrightarrow> inv (del s k)"
begin

lemma inv_del_sweep: "inv s \<Longrightarrow> inv (fold (\<lambda>k s. del s k) ks s)"
  by (induction ks arbitrary: s) (auto intro: inv_del)

lemma lookup_del_sweep:
  assumes "inv s"
  shows "lookup (fold (\<lambda>k s. del s k) ks s) = (\<lambda>k. if k \<in> set ks then None else lookup s k)"
  using assms by (induction ks arbitrary: s) (auto simp: lookup_del inv_del fun_eq_iff)

lemma lookup_put_del:
  assumes "inv s"
  shows "lookup (del (put s v) (key_of v)) = lookup (del s (key_of v))"
  using assms by (simp add: lookup_del lookup_put inv_put)

end

section \<open>The interface of an event machine watched by a ledger\<close>

text \<open>
  A machine makes steps on events; a ledger watches them and keeps what the machine owes its
  environment. The machine honours the ledger when its own state covers what is owed after every step.
\<close>

definition run_ledger ::
    "('s \<Rightarrow> 'e \<Rightarrow> 's) \<Rightarrow> ('s \<Rightarrow> 'e \<Rightarrow> 'l \<Rightarrow> 'l) \<Rightarrow> 's \<Rightarrow> 'l \<Rightarrow> 'e list \<Rightarrow> 's \<times> 'l" where
  "run_ledger step note s l events = foldl (\<lambda>(s, l) e. (step s e, note s e l)) (s, l) events"

lemma run_ledger_state: "fst (run_ledger step note s l events) = foldl step s events"
proof -
  have "fst (foldl (\<lambda>(s, l) e. (step s e, note s e l)) (s, l) events) = foldl step s events"
    by (induction events arbitrary: s l) auto
  then show ?thesis by (simp add: run_ledger_def)
qed

locale covered_ledger =
  fixes step :: "'s \<Rightarrow> 'e \<Rightarrow> 's"
    and note_step :: "'s \<Rightarrow> 'e \<Rightarrow> 'l \<Rightarrow> 'l"
    and inv :: "'s \<Rightarrow> bool"
    and covers :: "'s \<Rightarrow> 'l \<Rightarrow> bool"
  assumes inv_step: "inv s \<Longrightarrow> inv (step s e)"
    and covers_step: "inv s \<Longrightarrow> covers s l \<Longrightarrow> covers (step s e) (note_step s e l)"
begin

lemma inv_run: "inv s \<Longrightarrow> inv (foldl step s events)"
  by (induction events arbitrary: s) (auto intro: inv_step)

lemma covers_run:
  assumes "inv s" and "covers s l"
  shows "covers (foldl step s events) (snd (run_ledger step note_step s l events))"
  using assms
proof (induction events rule: rev_induct)
  case (snoc e events)
  then show ?case
    using covers_step [OF inv_run [OF snoc.prems(1), of events]]
      run_ledger_state [of step note_step s l events]
    by (simp add: run_ledger_def case_prod_beta)
qed (simp add: run_ledger_def)

end

section \<open>Distinct values in first order\<close>

text \<open>\<open>Array.from(new Set(xs))\<close>.\<close>

fun unique_list :: "'a list \<Rightarrow> 'a list" where
  "unique_list [] = []"
| "unique_list (x # xs) = x # filter (\<lambda>y. y \<noteq> x) (unique_list xs)"

lemma unique_list_set [simp]: "set (unique_list xs) = set xs"
  by (induction xs) auto

lemma unique_list_distinct [simp]: "distinct (unique_list xs)"
  by (induction xs) auto

lemma unique_list_id: "distinct xs \<Longrightarrow> unique_list xs = xs"
proof (induction xs)
  case (Cons x xs)
  then have "filter (\<lambda>y. y \<noteq> x) xs = xs" by (auto simp: filter_id_conv)
  with Cons show ?case by simp
qed simp

section \<open>Truthiness and numbers as text\<close>

text \<open>\<open>value || undefined\<close> for a string that may be missing.\<close>

definition truthy :: "string option \<Rightarrow> string option" where
  "truthy s = (if s = Some [] then None else s)"

fun decimal :: "nat \<Rightarrow> string" where
  "decimal n = (if n < 10 then [char_of (48 + n)] else decimal (n div 10) @ [char_of (48 + n mod 10)])"

section \<open>Calls that may run out of fuel\<close>

text \<open>
  A group of functions that call each other is given fuel, and a call that exhausts it is \<open>None\<close>. A loop over a
  list runs its body once per element. \<open>returns_with m Q\<close> says that the call returns and that its
  result satisfies \<open>Q\<close>, so a proof of it is a proof of termination as well.
\<close>

fun for_each :: "('a \<Rightarrow> 's \<Rightarrow> 's option) \<Rightarrow> 'a list \<Rightarrow> 's \<Rightarrow> 's option" where
  "for_each f [] s = Some s"
| "for_each f (x # xs) s = (case f x s of None \<Rightarrow> None | Some t \<Rightarrow> for_each f xs t)"

definition returns_with :: "'s option \<Rightarrow> ('s \<Rightarrow> bool) \<Rightarrow> bool" where
  "returns_with m Q \<longleftrightarrow> (\<exists>t. m = Some t \<and> Q t)"

lemma returns_with_Some [simp]: "returns_with (Some t) Q \<longleftrightarrow> Q t"
  by (simp add: returns_with_def)

lemma returns_with_mono: "returns_with m P \<Longrightarrow> (\<And>t. P t \<Longrightarrow> Q t) \<Longrightarrow> returns_with m Q"
  by (auto simp: returns_with_def)

lemma returns_with_bind:
  "returns_with m P \<Longrightarrow> (\<And>t. P t \<Longrightarrow> returns_with (f t) Q) \<Longrightarrow>
     returns_with (case m of None \<Rightarrow> None | Some t \<Rightarrow> f t) Q"
  by (auto simp: returns_with_def)

lemma returns_with_map:
  "returns_with m (\<lambda>t. Q (f t)) \<Longrightarrow> returns_with (map_option f m) Q"
  by (auto simp: returns_with_def)

lemma for_each_returns:
  assumes "\<And>x t. x \<in> set xs \<Longrightarrow> P t \<Longrightarrow> returns_with (f x t) P" and "P s"
  shows "returns_with (for_each f xs s) P"
  using assms by (induction xs arbitrary: s) (auto intro!: returns_with_bind)

end
