(* ===== verification/Scope_Codec.thy ===== *)
theory Scope_Codec
  imports Prelude
begin

text \<open>
  The refresh scope codec: \<open>core/refresh/clusterScope.ts\<close>, \<open>core/refresh/scopeSelector.ts\<close> and
  \<open>core/refresh/scopeNormalization.ts\<close>. A scope is a string \<open><clusterId>|<tail>\<close>; the tail's
  grammar is a property of the refresh domain. Decoding is a chain of partial decoders, so every
  \<open>throw\<close> of the source is a value of \<open>scope_error\<close> and every \<open>null\<close> is \<open>None\<close>.

  Shown here: names survive escaping; a decoded scope prints back to the text it came from (only
  canonical encodings decode); a scope built from well-formed parts decodes to those parts; the
  builder emits only what decodes.
\<close>

section \<open>Data\<close>

record scope_object =
  so_namespace :: string
  so_group :: string
  so_version :: string
  so_kind :: string
  so_name :: string

datatype scope_selector =
    Cluster
  | Namespace string
  | AllNamespaces
  | Node string
  | Workload scope_object
  | Object scope_object
  | HelmRelease string string

datatype selector_kind =
  KCluster | KNamespace | KAllNamespaces | KNode | KWorkload | KObject | KHelmRelease

datatype query_kind = QNone | QTypedTable | QObjectMap | QCatalog

record scope_grammar =
  selectors :: "selector_kind list"
  query_mode :: query_kind

record refresh_scope =
  rs_cluster :: string
  rs_selector :: scope_selector
  rs_query :: string

datatype scope_error =
    UnknownDomain
  | ClusterIdRequired
  | NoClusterPrefix
  | CatalogLeadingDelimiter
  | QueryNotAccepted
  | EmptyQuery
  | NoSelectorMatches

section \<open>Cluster prefix\<close>

definition parseClusterScope :: "string \<Rightarrow> string \<times> string" where
  "parseClusterScope value =
     (let trimmed = trim value
      in case index_of CHR ''|'' trimmed of
           None \<Rightarrow> ('''', trimmed)
         | Some i \<Rightarrow>
             if i \<le> 0 then ('''', trimmed)
             else (trim (take i trimmed), trim (drop (i + 1) trimmed)))"

section \<open>Domain grammars\<close>

definition refresh_domain_policies :: "(string \<times> scope_grammar) list" where
  "refresh_domain_policies =
    [(''namespaces'', \<lparr>selectors = [KCluster], query_mode = QNone\<rparr>),
     (''namespace-metrics'', \<lparr>selectors = [KCluster], query_mode = QNone\<rparr>),
     (''cluster-overview'', \<lparr>selectors = [KCluster], query_mode = QNone\<rparr>),
     (''cluster-identities'', \<lparr>selectors = [KCluster], query_mode = QTypedTable\<rparr>),
     (''cluster-attention'', \<lparr>selectors = [KCluster], query_mode = QTypedTable\<rparr>),
     (''catalog'', \<lparr>selectors = [KCluster], query_mode = QCatalog\<rparr>),
     (''catalog-diff'', \<lparr>selectors = [KCluster], query_mode = QCatalog\<rparr>),
     (''nodes'', \<lparr>selectors = [KCluster], query_mode = QTypedTable\<rparr>),
     (''cluster-config'', \<lparr>selectors = [KCluster], query_mode = QTypedTable\<rparr>),
     (''cluster-crds'', \<lparr>selectors = [KCluster], query_mode = QTypedTable\<rparr>),
     (''cluster-events'', \<lparr>selectors = [KCluster], query_mode = QTypedTable\<rparr>),
     (''cluster-rbac'', \<lparr>selectors = [KCluster], query_mode = QTypedTable\<rparr>),
     (''cluster-storage'', \<lparr>selectors = [KCluster], query_mode = QTypedTable\<rparr>),
     (''namespace-workloads'', \<lparr>selectors = [KNamespace, KAllNamespaces], query_mode = QTypedTable\<rparr>),
     (''namespace-autoscaling'', \<lparr>selectors = [KNamespace, KAllNamespaces], query_mode = QTypedTable\<rparr>),
     (''namespace-config'', \<lparr>selectors = [KNamespace, KAllNamespaces], query_mode = QTypedTable\<rparr>),
     (''namespace-events'', \<lparr>selectors = [KNamespace, KAllNamespaces], query_mode = QTypedTable\<rparr>),
     (''namespace-helm'', \<lparr>selectors = [KNamespace, KAllNamespaces], query_mode = QTypedTable\<rparr>),
     (''namespace-network'', \<lparr>selectors = [KNamespace, KAllNamespaces], query_mode = QTypedTable\<rparr>),
     (''namespace-quotas'', \<lparr>selectors = [KNamespace, KAllNamespaces], query_mode = QTypedTable\<rparr>),
     (''namespace-rbac'', \<lparr>selectors = [KNamespace, KAllNamespaces], query_mode = QTypedTable\<rparr>),
     (''namespace-storage'', \<lparr>selectors = [KNamespace, KAllNamespaces], query_mode = QTypedTable\<rparr>),
     (''pods'', \<lparr>selectors = [KNamespace, KAllNamespaces, KNode, KWorkload], query_mode = QTypedTable\<rparr>),
     (''object-details'', \<lparr>selectors = [KObject], query_mode = QNone\<rparr>),
     (''object-yaml'', \<lparr>selectors = [KObject], query_mode = QNone\<rparr>),
     (''object-helm-manifest'', \<lparr>selectors = [KHelmRelease], query_mode = QNone\<rparr>),
     (''object-helm-values'', \<lparr>selectors = [KHelmRelease], query_mode = QNone\<rparr>),
     (''object-events'', \<lparr>selectors = [KObject], query_mode = QNone\<rparr>),
     (''object-map'', \<lparr>selectors = [KObject, KNamespace], query_mode = QObjectMap\<rparr>),
     (''object-maintenance'', \<lparr>selectors = [KCluster, KNode], query_mode = QNone\<rparr>),
     (''container-logs'', \<lparr>selectors = [KObject], query_mode = QNone\<rparr>)]"

definition grammarFor :: "string \<Rightarrow> scope_error + scope_grammar" where
  "grammarFor domain =
     (case map_of refresh_domain_policies domain of
        None \<Rightarrow> Inl UnknownDomain
      | Some grammar \<Rightarrow> Inr grammar)"

text \<open>The selector kinds a domain's scopes may use.\<close>

definition domainScopeSelectors :: "string \<Rightarrow> scope_error + selector_kind list" where
  "domainScopeSelectors d = (case grammarFor d of Inl e \<Rightarrow> Inl e | Inr g \<Rightarrow> Inr (selectors g))"

definition hasOneShotQuery :: "refresh_scope \<Rightarrow> bool" where
  "hasOneShotQuery scope \<longleftrightarrow> rs_query scope \<noteq> ''''"

definition selectorForNamespaceSelection :: "string \<Rightarrow> scope_selector" where
  "selectorForNamespaceSelection selection =
     (if selection = ''namespace:all'' then AllNamespaces else Namespace selection)"

section \<open>Encoding\<close>

definition namespaceToken :: "string \<Rightarrow> string" where
  "namespaceToken ns = (if ns = '''' then ''__cluster__'' else ns)"

definition namespaceFromToken :: "string \<Rightarrow> string" where
  "namespaceFromToken token = (if token = ''__cluster__'' then '''' else token)"

definition replace_char :: "char \<Rightarrow> string \<Rightarrow> string \<Rightarrow> string" where
  "replace_char c r s = concat (map (\<lambda>x. if x = c then r else [x]) s)"

definition escapeObjectName :: "string \<Rightarrow> string" where
  "escapeObjectName name = replace_char CHR ''?'' ''%3F'' (replace_char CHR ''%'' ''%25'' name)"

fun replace_tokens :: "string \<Rightarrow> string" where
  "replace_tokens [] = []"
| "replace_tokens (c # s) =
     (if starts_with ''%25'' (c # s) then CHR ''%'' # replace_tokens (drop 2 s)
      else if starts_with ''%3F'' (c # s) then CHR ''?'' # replace_tokens (drop 2 s)
      else c # replace_tokens s)"

definition unescapeObjectName :: "string \<Rightarrow> string option" where
  "unescapeObjectName value =
     (let name = replace_tokens value
      in if escapeObjectName name = value then Some name else None)"

fun encodeScopeSelector :: "scope_selector \<Rightarrow> string" where
  "encodeScopeSelector Cluster = ''''"
| "encodeScopeSelector (Namespace ns) = ''namespace:'' @ ns"
| "encodeScopeSelector AllNamespaces = ''namespace:all''"
| "encodeScopeSelector (Node n) = ''node:'' @ n"
| "encodeScopeSelector (Workload ob) =
     ''workload:'' @ js_join '':'' [so_namespace ob, so_group ob, so_version ob, so_kind ob, so_name ob]"
| "encodeScopeSelector (Object ob) =
     namespaceToken (so_namespace ob) @ '':'' @ so_group ob @ ''/'' @ so_version ob @ '':'' @
     so_kind ob @ '':'' @ escapeObjectName (so_name ob)"
| "encodeScopeSelector (HelmRelease ns name) = namespaceToken ns @ '':'' @ name"

definition encodeTail :: "scope_grammar \<Rightarrow> scope_selector \<Rightarrow> string \<Rightarrow> string" where
  "encodeTail grammar selector query =
     (if query_mode grammar = QCatalog then query
      else let encoded = encodeScopeSelector selector
           in if query \<noteq> '''' then encoded @ ''?'' @ query else encoded)"

section \<open>Decoding\<close>

definition splitQuery :: "string \<Rightarrow> query_kind \<Rightarrow> scope_error + string \<times> string" where
  "splitQuery tail mode =
     (if mode = QCatalog then
        (if starts_with ''?'' tail then Inl CatalogLeadingDelimiter else Inr ('''', tail))
      else
        (case index_of CHR ''?'' tail of
           None \<Rightarrow> Inr (tail, '''')
         | Some delimiter \<Rightarrow>
             if mode = QNone then Inl QueryNotAccepted
             else let query = drop (delimiter + 1) tail
                  in if query = '''' then Inl EmptyQuery else Inr (take delimiter tail, query)))"

definition singleSegmentAfter :: "string \<Rightarrow> string \<Rightarrow> string option" where
  "singleSegmentAfter value p =
     (if \<not> starts_with p value then None
      else let segment = drop (length p) value
           in if segment \<noteq> '''' \<and> CHR '':'' \<notin> set segment then Some segment else None)"

definition dns_alnum :: "char \<Rightarrow> bool" where
  "dns_alnum c \<longleftrightarrow>
     (let n = (of_char c :: nat) in (97 \<le> n \<and> n \<le> 122) \<or> (48 \<le> n \<and> n \<le> 57))"

definition isNamespaceName :: "string \<Rightarrow> bool" where
  "isNamespaceName value \<longleftrightarrow>
     length value \<le> 63 \<and> value \<noteq> [] \<and> dns_alnum (hd value) \<and> dns_alnum (last value) \<and>
     list_all (\<lambda>c. c = CHR ''-'' \<or> dns_alnum c) value"

definition decodeNamespace :: "string \<Rightarrow> scope_selector option" where
  "decodeNamespace value =
     (if \<not> starts_with ''namespace:'' value \<or> value = ''namespace:all'' then None
      else let ns = drop (length ''namespace:'') value
           in if isNamespaceName ns then Some (Namespace ns) else None)"

definition decodeNode :: "string \<Rightarrow> scope_selector option" where
  "decodeNode value = map_option Node (singleSegmentAfter value ''node:'')"

definition decodeWorkload :: "string \<Rightarrow> scope_selector option" where
  "decodeWorkload value =
     (if \<not> starts_with ''workload:'' value then None
      else case js_split CHR '':'' (drop (length ''workload:'') value) of
             [ns, g, v, k, n] \<Rightarrow>
               if ns = '''' \<or> g = '''' \<or> v = '''' \<or> k = '''' \<or> n = '''' then None
               else Some (Workload \<lparr>so_namespace = ns, so_group = g, so_version = v,
                                     so_kind = k, so_name = n\<rparr>)
           | _ \<Rightarrow> None)"

fun split_colons_loop :: "string \<Rightarrow> nat \<Rightarrow> string list" where
  "split_colons_loop rest 0 = [rest]"
| "split_colons_loop rest (Suc n) =
     (case index_of CHR '':'' rest of
        None \<Rightarrow> [rest]
      | Some i \<Rightarrow> take i rest # split_colons_loop (drop (i + 1) rest) n)"

definition splitColons :: "string \<Rightarrow> nat \<Rightarrow> string list" where
  "splitColons value count = split_colons_loop value (count - 1)"

definition decodeObject :: "string \<Rightarrow> scope_selector option" where
  "decodeObject value =
     (case splitColons value 4 of
        [ns, groupVersion, k, encodedName] \<Rightarrow>
          (case js_split CHR ''/'' groupVersion of
             [g, v] \<Rightarrow>
               if ns = '''' then None
               else (case unescapeObjectName encodedName of
                       None \<Rightarrow> None
                     | Some name \<Rightarrow>
                         if v = '''' \<or> k = '''' \<or> name = '''' then None
                         else Some (Object \<lparr>so_namespace = namespaceFromToken ns, so_group = g,
                                             so_version = v, so_kind = k, so_name = name\<rparr>))
           | _ \<Rightarrow> None)
      | _ \<Rightarrow> None)"

definition decodeHelmRelease :: "string \<Rightarrow> scope_selector option" where
  "decodeHelmRelease value =
     (case splitColons value 2 of
        [ns, name] \<Rightarrow>
          if ns = '''' \<or> name = '''' then None else Some (HelmRelease (namespaceFromToken ns) name)
      | _ \<Rightarrow> None)"

fun selectorDecoders :: "selector_kind \<Rightarrow> string \<Rightarrow> scope_selector option" where
  "selectorDecoders KCluster value = (if value = '''' then Some Cluster else None)"
| "selectorDecoders KNamespace value = decodeNamespace value"
| "selectorDecoders KAllNamespaces value =
     (if value = ''namespace:all'' then Some AllNamespaces else None)"
| "selectorDecoders KNode value = decodeNode value"
| "selectorDecoders KWorkload value = decodeWorkload value"
| "selectorDecoders KObject value = decodeObject value"
| "selectorDecoders KHelmRelease value = decodeHelmRelease value"

fun first_selector :: "selector_kind list \<Rightarrow> string \<Rightarrow> scope_selector option" where
  "first_selector [] value = None"
| "first_selector (k # ks) value =
     (case selectorDecoders k value of
        Some selector \<Rightarrow> Some selector
      | None \<Rightarrow> first_selector ks value)"

definition parseRefreshScope :: "string \<Rightarrow> string \<Rightarrow> scope_error + refresh_scope" where
  "parseRefreshScope domain raw =
     (case grammarFor domain of
        Inl e \<Rightarrow> Inl e
      | Inr grammar \<Rightarrow>
          (case parseClusterScope raw of
             (clusterId, tail) \<Rightarrow>
               if clusterId = '''' then Inl NoClusterPrefix
               else (case splitQuery tail (query_mode grammar) of
                       Inl e \<Rightarrow> Inl e
                     | Inr (selectorTail, query) \<Rightarrow>
                         (case first_selector (selectors grammar) selectorTail of
                            Some selector \<Rightarrow>
                              Inr \<lparr>rs_cluster = clusterId, rs_selector = selector, rs_query = query\<rparr>
                          | None \<Rightarrow> Inl NoSelectorMatches))))"

definition tryParseRefreshScope :: "string \<Rightarrow> string \<Rightarrow> refresh_scope option" where
  "tryParseRefreshScope domain raw =
     (case parseRefreshScope domain raw of Inl _ \<Rightarrow> None | Inr scope \<Rightarrow> Some scope)"

definition buildRefreshScope ::
    "string \<Rightarrow> string \<Rightarrow> scope_selector \<Rightarrow> string \<Rightarrow> scope_error + string" where
  "buildRefreshScope domain cluster selector query =
     (let clusterId = trim cluster
      in if clusterId = '''' then Inl ClusterIdRequired
         else (case grammarFor domain of
                 Inl e \<Rightarrow> Inl e
               | Inr grammar \<Rightarrow>
                   let raw = clusterId @ ''|'' @ encodeTail grammar selector query
                   in (case parseRefreshScope domain raw of
                         Inl e \<Rightarrow> Inl e
                       | Inr _ \<Rightarrow> Inr raw)))"

definition buildClusterRefreshScope :: "string \<Rightarrow> string option \<Rightarrow> scope_error + string" where
  "buildClusterRefreshScope domain clusterId =
     (case clusterId of
        None \<Rightarrow> Inr ''''
      | Some c \<Rightarrow> let cid = trim c
                  in if cid = '''' then Inr '''' else buildRefreshScope domain cid Cluster '''')"

definition normalizeRefreshDomainScope :: "string \<Rightarrow> string option \<Rightarrow> scope_error + string option" where
  "normalizeRefreshDomainScope domain value =
     (let trimmed = (case value of None \<Rightarrow> '''' | Some v \<Rightarrow> trim v)
      in if trimmed = '''' then Inr None
         else (case parseRefreshScope domain trimmed of
                 Inl e \<Rightarrow> Inl e
               | Inr _ \<Rightarrow> Inr (Some trimmed)))"

section \<open>Well-formed parts\<close>

text \<open>What the callers of the builder supply: a namespace is a DNS label other than the reserved
  word \<open>all\<close>, fields that are separated by colons or slashes contain none, mandatory fields are
  not empty.\<close>

fun kind_of :: "scope_selector \<Rightarrow> selector_kind" where
  "kind_of Cluster = KCluster"
| "kind_of (Namespace _) = KNamespace"
| "kind_of AllNamespaces = KAllNamespaces"
| "kind_of (Node _) = KNode"
| "kind_of (Workload _) = KWorkload"
| "kind_of (Object _) = KObject"
| "kind_of (HelmRelease _ _) = KHelmRelease"

definition segment :: "string \<Rightarrow> bool" where
  "segment s \<longleftrightarrow> s \<noteq> '''' \<and> CHR '':'' \<notin> set s"

fun wf_selector :: "scope_selector \<Rightarrow> bool" where
  "wf_selector Cluster = True"
| "wf_selector (Namespace ns) = (isNamespaceName ns \<and> ns \<noteq> ''all'')"
| "wf_selector AllNamespaces = True"
| "wf_selector (Node n) = segment n"
| "wf_selector (Workload ob) =
     (segment (so_namespace ob) \<and> segment (so_group ob) \<and> segment (so_version ob) \<and>
      segment (so_kind ob) \<and> segment (so_name ob))"
| "wf_selector (Object ob) =
     (CHR '':'' \<notin> set (so_namespace ob) \<and> so_namespace ob \<noteq> ''__cluster__'' \<and>
      CHR '':'' \<notin> set (so_group ob) \<and> CHR ''/'' \<notin> set (so_group ob) \<and>
      segment (so_version ob) \<and> CHR ''/'' \<notin> set (so_version ob) \<and>
      segment (so_kind ob) \<and> so_name ob \<noteq> '''')"
| "wf_selector (HelmRelease ns name) =
     (CHR '':'' \<notin> set ns \<and> ns \<noteq> ''__cluster__'' \<and> name \<noteq> '''')"

definition wf_query :: "scope_grammar \<Rightarrow> scope_selector \<Rightarrow> string \<Rightarrow> bool" where
  "wf_query grammar selector query \<longleftrightarrow>
     (if query_mode grammar = QCatalog then selector = Cluster \<and> \<not> starts_with ''?'' query
      else CHR ''?'' \<notin> set (encodeScopeSelector selector) \<and>
           (query = '''' \<or> query_mode grammar \<noteq> QNone))"

definition wf_cluster :: "string \<Rightarrow> bool" where
  "wf_cluster c \<longleftrightarrow> c \<noteq> '''' \<and> trim c = c \<and> CHR ''|'' \<notin> set c"

definition printScope :: "scope_grammar \<Rightarrow> refresh_scope \<Rightarrow> string" where
  "printScope grammar scope =
     rs_cluster scope @ ''|'' @ encodeTail grammar (rs_selector scope) (rs_query scope)"

section \<open>Object names\<close>

lemma escape_Nil [simp]: "escapeObjectName [] = []"
  by (simp add: escapeObjectName_def replace_char_def)

lemma escape_Cons [simp]:
  "escapeObjectName (c # s) =
     (if c = CHR ''%'' then ''%25'' else if c = CHR ''?'' then ''%3F'' else [c]) @ escapeObjectName s"
  by (simp add: escapeObjectName_def replace_char_def)

lemma replace_tokens_escape: "replace_tokens (escapeObjectName name) = name"
  by (induction name) (auto simp: starts_with_def)

lemma unescape_escape [simp]: "unescapeObjectName (escapeObjectName name) = Some name"
  by (simp add: unescapeObjectName_def replace_tokens_escape Let_def)

lemma unescape_SomeD: "unescapeObjectName value = Some name \<Longrightarrow> escapeObjectName name = value"
  by (auto simp: unescapeObjectName_def Let_def split: if_splits)

lemma escape_no_delimiter [simp]: "CHR ''?'' \<notin> set (escapeObjectName name)"
  by (induction name) auto

section \<open>Every decoder accepts canonical text only\<close>

lemma namespaceToken_of_token [simp]: "token \<noteq> '''' \<Longrightarrow> namespaceToken (namespaceFromToken token) = token"
  by (simp add: namespaceToken_def namespaceFromToken_def)

lemma namespaceFromToken_token [simp]: "ns \<noteq> ''__cluster__'' \<Longrightarrow> namespaceFromToken (namespaceToken ns) = ns"
  by (simp add: namespaceToken_def namespaceFromToken_def)

lemma split_colons_loop_join: "js_join '':'' (split_colons_loop v n) = v"
proof (induction v n rule: split_colons_loop.induct)
  case (2 rest n)
  show ?case
  proof (cases "index_of CHR '':'' rest")
    case (Some i)
    have ne: "split_colons_loop (drop (i + 1) rest) n \<noteq> []"
      by (cases n) (auto split: option.splits)
    then obtain p ps where "split_colons_loop (drop (i + 1) rest) n = p # ps"
      by (cases "split_colons_loop (drop (i + 1) rest) n") auto
    with "2.IH" [OF Some] Some index_of_split [OF Some] show ?thesis
      by simp
  qed simp
qed simp

lemma splitColons_join: "js_join '':'' (splitColons v n) = v"
  by (simp add: splitColons_def split_colons_loop_join)

lemma decodeObject_canonical:
  assumes "decodeObject v = Some sel"
  shows "encodeScopeSelector sel = v"
proof -
  obtain ns gv k en where parts: "splitColons v 4 = [ns, gv, k, en]"
    using assms by (auto simp: decodeObject_def split: list.splits)
  obtain g ver where gv: "js_split CHR ''/'' gv = [g, ver]"
    using assms parts by (auto simp: decodeObject_def split: list.splits)
  obtain name where name: "unescapeObjectName en = Some name" and ns: "ns \<noteq> ''''"
    and sel: "sel = Object \<lparr>so_namespace = namespaceFromToken ns, so_group = g,
        so_version = ver, so_kind = k, so_name = name\<rparr>"
    using assms parts gv by (auto simp: decodeObject_def split: option.splits if_splits)
  have "gv = g @ ''/'' @ ver"
    using js_split_join [of "CHR ''/''" gv] gv by simp
  moreover have "v = ns @ '':'' @ gv @ '':'' @ k @ '':'' @ en"
    using splitColons_join [of v 4] parts by simp
  ultimately show ?thesis
    using sel ns unescape_SomeD [OF name] by simp
qed

lemma decodeHelmRelease_canonical:
  assumes "decodeHelmRelease v = Some sel"
  shows "encodeScopeSelector sel = v"
proof -
  obtain ns name where parts: "splitColons v 2 = [ns, name]" and "ns \<noteq> ''''"
    and "sel = HelmRelease (namespaceFromToken ns) name"
    using assms by (auto simp: decodeHelmRelease_def split: list.splits if_splits)
  then show ?thesis using splitColons_join [of v 2] by simp
qed

lemma decodeWorkload_canonical:
  assumes "decodeWorkload v = Some sel"
  shows "encodeScopeSelector sel = v"
proof -
  let ?rest = "drop (length ''workload:'') v"
  obtain ns g ver k n where parts: "js_split CHR '':'' ?rest = [ns, g, ver, k, n]"
    and start: "starts_with ''workload:'' v"
    using assms unfolding decodeWorkload_def by (auto split: list.splits if_splits)
  have "sel = Workload \<lparr>so_namespace = ns, so_group = g, so_version = ver, so_kind = k, so_name = n\<rparr>"
    using assms parts start by (auto simp: decodeWorkload_def split: if_splits)
  moreover have "?rest = js_join '':'' [ns, g, ver, k, n]"
    using js_split_join [of "CHR '':''" ?rest] parts by simp
  ultimately show ?thesis
    using starts_with_drop [OF start] by simp
qed

lemma selectorDecoders_canonical:
  "selectorDecoders k v = Some sel \<Longrightarrow> encodeScopeSelector sel = v"
proof (cases k)
  case KNamespace
  then show "selectorDecoders k v = Some sel \<Longrightarrow> encodeScopeSelector sel = v"
    by (auto simp: decodeNamespace_def Let_def split: if_splits dest: starts_with_drop)
next
  case KNode
  then show "selectorDecoders k v = Some sel \<Longrightarrow> encodeScopeSelector sel = v"
    by (auto simp: decodeNode_def singleSegmentAfter_def Let_def split: if_splits
        dest: starts_with_drop)
qed (auto simp: decodeObject_canonical decodeHelmRelease_canonical decodeWorkload_canonical
      split: if_splits)

lemma first_selector_SomeD:
  "first_selector ks v = Some sel \<Longrightarrow> \<exists>k \<in> set ks. selectorDecoders k v = Some sel"
  by (induction ks) (auto split: option.splits)

lemma first_selector_canonical: "first_selector ks v = Some sel \<Longrightarrow> encodeScopeSelector sel = v"
  using first_selector_SomeD selectorDecoders_canonical by blast

lemma splitQuery_canonical:
  assumes "splitQuery tail (query_mode g) = Inr (st, q)" and "encodeScopeSelector sel = st"
  shows "encodeTail g sel q = tail"
  using assms
  by (auto simp: splitQuery_def encodeTail_def Let_def dest: index_of_split
      split: if_splits option.splits)

section \<open>The cluster prefix\<close>

lemma set_trim: "set (trim s) \<subseteq> set s"
  unfolding trim_def by (auto dest!: set_dropWhileD)

lemma parseClusterScope_parts:
  assumes "parseClusterScope raw = (c, t)" and "c \<noteq> ''''"
  shows "trim c = c" "trim t = t" "CHR ''|'' \<notin> set c"
  using assms set_trim index_of_SomeD
  by (fastforce simp: parseClusterScope_def Let_def split: option.splits if_splits)+

lemma trim_scope:
  assumes "c \<noteq> ''''" and "trim c = c" and "trim t = t"
  shows "trim (c @ ''|'' @ t) = c @ ''|'' @ t"
proof -
  have "\<not> js_space CHR ''|''" by (simp add: js_space_def)
  with assms show ?thesis
    using trim_fixed_iff [of c] trim_fixed_iff [of t] trim_fixed_iff [of "c @ ''|'' @ t"]
    by (cases "t = []") auto
qed

lemma parseClusterScope_print:
  assumes "wf_cluster c" and "trim t = t"
  shows "parseClusterScope (c @ ''|'' @ t) = (c, t)"
proof -
  have c: "c \<noteq> ''''" "trim c = c" "CHR ''|'' \<notin> set c"
    using assms(1) by (auto simp: wf_cluster_def)
  have "trim (c @ ''|'' @ t) = c @ ''|'' @ t"
    using trim_scope [OF c(1,2) assms(2)] .
  moreover have "index_of CHR ''|'' (c @ ''|'' @ t) = Some (length c)"
    using c(3) by simp
  ultimately show ?thesis
    using c assms(2) by (simp add: parseClusterScope_def)
qed

lemma wf_cluster_parsed: "parseClusterScope raw = (c, t) \<Longrightarrow> c \<noteq> '''' \<Longrightarrow> wf_cluster c"
  using parseClusterScope_parts by (auto simp: wf_cluster_def)

section \<open>Printing a decoded scope\<close>

lemma parseRefreshScope_SomeD:
  assumes "parseRefreshScope d raw = Inr sc"
  obtains g c t st where "grammarFor d = Inr g" and "parseClusterScope raw = (c, t)" and "c \<noteq> ''''"
    and "splitQuery t (query_mode g) = Inr (st, rs_query sc)"
    and "first_selector (selectors g) st = Some (rs_selector sc)" and "rs_cluster sc = c"
  using assms
  by (auto simp: parseRefreshScope_def split: sum.splits prod.splits option.splits if_splits)

lemma parseRefreshScope_cong:
  assumes "parseClusterScope raw = parseClusterScope raw'"
  shows "parseRefreshScope d raw = parseRefreshScope d raw'"
  unfolding parseRefreshScope_def assms ..

lemma print_parsed:
  assumes "parseRefreshScope d raw = Inr sc" and "grammarFor d = Inr g"
  shows "printScope g sc = fst (parseClusterScope raw) @ ''|'' @ snd (parseClusterScope raw)"
    and "parseRefreshScope d (printScope g sc) = Inr sc"
proof -
  from assms obtain c t st where p: "parseClusterScope raw = (c, t)" "c \<noteq> ''''"
      "splitQuery t (query_mode g) = Inr (st, rs_query sc)"
      "first_selector (selectors g) st = Some (rs_selector sc)" "rs_cluster sc = c"
    by (metis parseRefreshScope_SomeD sum.inject(2))
  have enc: "encodeTail g (rs_selector sc) (rs_query sc) = t"
    using splitQuery_canonical [OF p(3)] first_selector_canonical [OF p(4)] by blast
  then show eq: "printScope g sc = fst (parseClusterScope raw) @ ''|'' @ snd (parseClusterScope raw)"
    using p by (simp add: printScope_def)
  have "parseClusterScope (c @ ''|'' @ t) = (c, t)"
    using parseClusterScope_print [OF wf_cluster_parsed [OF p(1,2)]]
      parseClusterScope_parts(2) [OF p(1,2)] by blast
  then show "parseRefreshScope d (printScope g sc) = Inr sc"
    using assms(1) eq p(1) parseRefreshScope_cong [of "printScope g sc" raw d] by simp
qed

section \<open>Decoding a printed selector\<close>

lemma split_colons_loop_parts:
  "CHR '':'' \<notin> set p \<Longrightarrow> split_colons_loop (p @ '':'' @ s) (Suc n) = p # split_colons_loop s n"
  by simp

lemma splitColons_object:
  assumes "CHR '':'' \<notin> set a" "CHR '':'' \<notin> set b" "CHR '':'' \<notin> set c"
  shows "splitColons (a @ '':'' @ b @ '':'' @ c @ '':'' @ d) 4 = [a, b, c, d]"
  using assms by (simp add: splitColons_def eval_nat_numeral)

lemma splitColons_release:
  assumes "CHR '':'' \<notin> set a"
  shows "splitColons (a @ CHR '':'' # d) 2 = [a, d]"
  using assms by (simp add: splitColons_def eval_nat_numeral)

lemma namespaceToken_segment [simp]: "CHR '':'' \<notin> set ns \<Longrightarrow> CHR '':'' \<notin> set (namespaceToken ns)"
  by (simp add: namespaceToken_def)

lemma namespaceToken_not_Nil [simp]: "namespaceToken ns \<noteq> ''''"
  by (simp add: namespaceToken_def)

lemma colon_not_dns: "\<not> (CHR '':'' = CHR ''-'' \<or> dns_alnum CHR '':'')"
  by (simp add: dns_alnum_def)

lemma isNamespaceName_no_colon: "isNamespaceName ns \<Longrightarrow> CHR '':'' \<notin> set ns"
  unfolding isNamespaceName_def list_all_iff using colon_not_dns by blast

lemma decode_encoded_object:
  assumes "wf_selector (Object ob)"
  shows "decodeObject (encodeScopeSelector (Object ob)) = Some (Object ob)"
proof -
  let ?gv = "so_group ob @ ''/'' @ so_version ob"
  have "encodeScopeSelector (Object ob) = namespaceToken (so_namespace ob) @ '':'' @ ?gv @ '':'' @
      so_kind ob @ '':'' @ escapeObjectName (so_name ob)"
    by simp
  moreover have "splitColons \<dots> 4 =
      [namespaceToken (so_namespace ob), ?gv, so_kind ob, escapeObjectName (so_name ob)]"
    using assms by (intro splitColons_object) (auto simp: segment_def)
  moreover have "js_split CHR ''/'' ?gv = [so_group ob, so_version ob]"
    using assms by (simp add: js_split_append js_split_no_sep)
  ultimately show ?thesis
    using assms unfolding decodeObject_def by (simp add: segment_def)
qed

lemma decode_encoded_workload:
  assumes "wf_selector (Workload ob)"
  shows "decodeWorkload (encodeScopeSelector (Workload ob)) = Some (Workload ob)"
proof -
  let ?ps = "[so_namespace ob, so_group ob, so_version ob, so_kind ob, so_name ob]"
  have "js_split CHR '':'' (js_join '':'' ?ps) = ?ps"
    using assms by (intro js_split_of_join) (auto simp: segment_def)
  moreover have "starts_with ''workload:'' (encodeScopeSelector (Workload ob))"
    unfolding encodeScopeSelector.simps by (rule starts_with_append)
  ultimately show ?thesis
    using assms by (simp add: decodeWorkload_def segment_def del: js_join.simps)
qed

lemma decode_encoded:
  assumes "wf_selector sel"
  shows "selectorDecoders (kind_of sel) (encodeScopeSelector sel) = Some sel"
proof (cases sel)
  case (Workload ob)
  with assms decode_encoded_workload show ?thesis by simp
next
  case (Object ob)
  with assms decode_encoded_object show ?thesis by simp
next
  case (HelmRelease ns name)
  with assms show ?thesis
    by (simp add: decodeHelmRelease_def splitColons_release)
qed (use assms in \<open>auto simp: decodeNamespace_def decodeNode_def singleSegmentAfter_def
    segment_def starts_with_def Let_def\<close>)

text \<open>The grammars that list several selectors list ones whose encodings differ, so the order of
  the decoders does not matter for well-formed selectors.\<close>

definition distinguishable :: "(selector_kind \<times> selector_kind) set" where
  "distinguishable =
     {(KNamespace, KAllNamespaces), (KNamespace, KNode), (KNamespace, KWorkload),
      (KAllNamespaces, KNode), (KAllNamespaces, KWorkload), (KNode, KWorkload),
      (KObject, KNamespace), (KCluster, KNode)}"

lemma earlier_decoder_refuses:
  assumes "(k, kind_of sel) \<in> distinguishable" and "wf_selector sel"
  shows "selectorDecoders k (encodeScopeSelector sel) = None"
proof (cases sel)
  case (Namespace ns)
  then have "CHR '':'' \<notin> set ns" using assms(2) isNamespaceName_no_colon by simp
  then have "splitColons (''namespace'' @ '':'' @ ns) 4 = [''namespace'', ns]"
    by (simp add: splitColons_def eval_nat_numeral)
  with Namespace assms(1) show ?thesis
    by (auto simp: distinguishable_def decodeObject_def)
qed (use assms in \<open>auto simp: distinguishable_def decodeNamespace_def decodeNode_def
    singleSegmentAfter_def starts_with_def\<close>)

lemma first_selector_encoded:
  assumes "ks = ks1 @ kind_of sel # ks2" and "\<forall>k \<in> set ks1. (k, kind_of sel) \<in> distinguishable"
    and "wf_selector sel"
  shows "first_selector ks (encodeScopeSelector sel) = Some sel"
  using assms
  by (induction ks1 arbitrary: ks) (auto simp: decode_encoded earlier_decoder_refuses)

definition ordered_selectors :: "selector_kind list \<Rightarrow> bool" where
  "ordered_selectors ks = sorted_wrt (\<lambda>k k'. (k, k') \<in> distinguishable) ks"

lemma policies_ordered:
  "list_all (\<lambda>(d, g). ordered_selectors (selectors g)) refresh_domain_policies"
  by (simp add: refresh_domain_policies_def ordered_selectors_def distinguishable_def)

lemma grammarFor_ordered: "grammarFor d = Inr g \<Longrightarrow> ordered_selectors (selectors g)"
  using policies_ordered
  by (auto simp: grammarFor_def list_all_iff split: option.splits dest!: map_of_SomeD)

lemma policies_catalog:
  "list_all (\<lambda>(d, g). query_mode g = QCatalog \<longrightarrow> selectors g = [KCluster]) refresh_domain_policies"
  by (simp add: refresh_domain_policies_def)

lemma grammarFor_catalog: "grammarFor d = Inr g \<Longrightarrow> query_mode g = QCatalog \<Longrightarrow> selectors g = [KCluster]"
  using policies_catalog
  by (auto simp: grammarFor_def list_all_iff split: option.splits dest!: map_of_SomeD)

lemma splitQuery_encodeTail:
  assumes "wf_query g sel q"
  shows "splitQuery (encodeTail g sel q) (query_mode g) =
    Inr (if query_mode g = QCatalog then '''' else encodeScopeSelector sel, q)"
  using assms by (auto simp: wf_query_def splitQuery_def encodeTail_def Let_def)

lemma parse_printed:
  assumes "grammarFor d = Inr g" and "kind_of sel \<in> set (selectors g)" and "wf_selector sel"
    and "wf_query g sel q" and "wf_cluster c" and "trim (encodeTail g sel q) = encodeTail g sel q"
  shows "parseRefreshScope d (printScope g \<lparr>rs_cluster = c, rs_selector = sel, rs_query = q\<rparr>) =
    Inr \<lparr>rs_cluster = c, rs_selector = sel, rs_query = q\<rparr>"
proof -
  obtain ks1 ks2 where ks: "selectors g = ks1 @ kind_of sel # ks2"
    using assms(2) by (meson split_list)
  have "\<forall>k \<in> set ks1. (k, kind_of sel) \<in> distinguishable"
    using grammarFor_ordered [OF assms(1)] ks by (auto simp: ordered_selectors_def sorted_wrt_append)
  with ks have first: "first_selector (selectors g) (encodeScopeSelector sel) = Some sel"
    using first_selector_encoded assms(3) by blast
  have "query_mode g = QCatalog \<Longrightarrow> encodeScopeSelector sel = ''''"
    using assms(4) by (simp add: wf_query_def)
  with first splitQuery_encodeTail [OF assms(4)] parseClusterScope_print [OF assms(5,6)] assms(1,5)
  show ?thesis
    by (auto simp: parseRefreshScope_def printScope_def wf_cluster_def)
qed

section \<open>Properties\<close>

text \<open>C12: building a scope from well-formed parts that the domain's grammar accepts succeeds, and
  decoding the built text gives exactly those parts back: cluster, selector and query. Object names
  may contain any character, the delimiters \<open>:\<close>, \<open>?\<close> and \<open>%\<close> included.\<close>

theorem build_then_parse:
  assumes "grammarFor d = Inr g" and "kind_of sel \<in> set (selectors g)" and "wf_selector sel"
    and "wf_query g sel q" and "wf_cluster c" and "trim (encodeTail g sel q) = encodeTail g sel q"
  shows "\<exists>raw. buildRefreshScope d c sel q = Inr raw \<and>
    parseRefreshScope d raw = Inr \<lparr>rs_cluster = c, rs_selector = sel, rs_query = q\<rparr>"
  using parse_printed [OF assms] assms(1,5)
  by (auto simp: buildRefreshScope_def printScope_def wf_cluster_def Let_def)

theorem build_then_parse_witness:
  "\<exists>raw. buildRefreshScope ''object-yaml'' ''cfg:ctx''
      (Object \<lparr>so_namespace = '''', so_group = ''rbac'', so_version = ''v1'', so_kind = ''ClusterRole'',
               so_name = ''system:node?50%''\<rparr>) '''' = Inr raw \<and>
    parseRefreshScope ''object-yaml'' raw = Inr \<lparr>rs_cluster = ''cfg:ctx'',
      rs_selector = Object \<lparr>so_namespace = '''', so_group = ''rbac'', so_version = ''v1'',
        so_kind = ''ClusterRole'', so_name = ''system:node?50%''\<rparr>, rs_query = ''''\<rparr>"
  by (rule build_then_parse [where g = "\<lparr>selectors = [KObject], query_mode = QNone\<rparr>"])
    (simp_all add: grammarFor_def refresh_domain_policies_def segment_def wf_query_def
      wf_cluster_def trim_def js_space_def encodeTail_def namespaceToken_def)

lemma trim_lead: "\<forall>c \<in> set u. js_space c \<Longrightarrow> trim (u @ x) = trim x"
  by (simp add: trim_def dropWhile_append2)

lemma trim_trail:
  assumes "\<forall>c \<in> set v. js_space c"
  shows "trim (x @ v) = trim x"
proof (cases "\<forall>c \<in> set x. js_space c")
  case True
  with assms have "dropWhile js_space (x @ v) = []" "dropWhile js_space x = []"
    unfolding dropWhile_eq_Nil_conv using True assms by auto
  then show ?thesis by (simp only: trim_def)
next
  case False
  then have "dropWhile js_space (x @ v) = dropWhile js_space x @ v" by (auto simp: dropWhile_append1)
  moreover have "dropWhile js_space (rev v @ y) = dropWhile js_space y" for y
    using assms by (intro dropWhile_append2) auto
  ultimately show ?thesis by (simp add: trim_def)
qed

lemma trim_inside: "\<exists>u v. s = u @ trim s @ v \<and> (\<forall>c \<in> set u. js_space c) \<and> (\<forall>c \<in> set v. js_space c)"
proof -
  let ?t = "dropWhile js_space s"
  have "s = takeWhile js_space s @ ?t" by simp
  moreover have "?t = trim s @ rev (takeWhile js_space (rev ?t))"
    unfolding trim_def by (metis rev_append rev_rev_ident takeWhile_dropWhile_id)
  moreover have "\<forall>c \<in> set (rev (takeWhile js_space (rev ?t))). js_space c" by (auto dest: set_takeWhileD)
  moreover have "\<forall>c \<in> set (takeWhile js_space s). js_space c" by (auto dest: set_takeWhileD)
  ultimately show ?thesis by metis
qed

lemma parsed_halves:
  assumes "parseClusterScope raw = (c, t)" and "c \<noteq> []"
  obtains a b where "raw = a @ ''|'' @ b" "CHR ''|'' \<notin> set a" "c = trim a" "t = trim b"
proof -
  obtain i where i: "index_of CHR ''|'' (trim raw) = Some i" and
      parts: "c = trim (take i (trim raw))" "t = trim (drop (i + 1) (trim raw))"
    using assms by (auto simp: parseClusterScope_def Let_def split: option.splits if_splits)
  from trim_inside [of raw] obtain u v where raw: "raw = u @ trim raw @ v" and
      sp: "\<forall>c \<in> set u. js_space c" "\<forall>c \<in> set v. js_space c" by blast
  have bar: "\<not> js_space CHR ''|''" by (simp add: js_space_def)
  have split: "trim raw = take i (trim raw) @ ''|'' @ drop (i + 1) (trim raw)" "CHR ''|'' \<notin> set (take i (trim raw))"
    using index_of_SomeD [OF i] index_of_split [OF i] by simp_all
  let ?a = "u @ take i (trim raw)" and ?b = "drop (i + 1) (trim raw) @ v"
  show thesis
  proof (rule that)
    have "raw = u @ (take i (trim raw) @ ''|'' @ drop (i + 1) (trim raw)) @ v" using raw split(1) by metis
    then show "raw = ?a @ ''|'' @ ?b" by simp
    show "CHR ''|'' \<notin> set ?a" using split(2) sp(1) bar by auto
  qed (use parts trim_lead [OF sp(1)] trim_trail [OF sp(2)] in simp_all)
qed

text \<open>C13: up to the white space around its two halves, only canonical text decodes. A text that decodes is two halves
  around its first bar; printing the decoded parts gives these halves trimmed and joined again, and that text decodes to
  the same scope. So a decoded text without such white space is printed back as it was, and two texts that decode to
  one scope differ in that white space only.\<close>

theorem parse_then_build:
  assumes "parseRefreshScope d raw = Inr sc"
  shows "\<exists>cluster tail. raw = cluster @ ''|'' @ tail \<and> CHR ''|'' \<notin> set cluster \<and>
    buildRefreshScope d (rs_cluster sc) (rs_selector sc) (rs_query sc) = Inr (trim cluster @ ''|'' @ trim tail) \<and>
    parseRefreshScope d (trim cluster @ ''|'' @ trim tail) = Inr sc"
proof -
  obtain g c t where g: "grammarFor d = Inr g" and p: "parseClusterScope raw = (c, t)" "c \<noteq> []"
      "rs_cluster sc = c"
    using assms by (rule parseRefreshScope_SomeD) blast
  have "wf_cluster (rs_cluster sc)" using wf_cluster_parsed p by blast
  with print_parsed [OF assms g] g p have "buildRefreshScope d (rs_cluster sc) (rs_selector sc) (rs_query sc) =
      Inr (c @ ''|'' @ t)" "parseRefreshScope d (c @ ''|'' @ t) = Inr sc"
    by (auto simp: buildRefreshScope_def printScope_def wf_cluster_def Let_def)
  moreover obtain a b where "raw = a @ ''|'' @ b" "CHR ''|'' \<notin> set a" "c = trim a" "t = trim b"
    using p(1,2) by (rule parsed_halves)
  ultimately show ?thesis by blast
qed

theorem parse_then_build_witness:
  "buildRefreshScope ''pods'' ''c1'' (Namespace ''web'') ''limit=50'' = Inr ''c1|namespace:web?limit=50''"
proof -
  let ?raw = "'' c1 |namespace:web?limit=50''"
  have p: "parseClusterScope ?raw = (''c1'', ''namespace:web?limit=50'')"
    by (simp add: parseClusterScope_def trim_def js_space_def)
  have "parseRefreshScope ''pods'' ?raw =
      Inr \<lparr>rs_cluster = ''c1'', rs_selector = Namespace ''web'', rs_query = ''limit=50''\<rparr>"
    unfolding parseRefreshScope_def p
    by (simp add: grammarFor_def refresh_domain_policies_def splitQuery_def decodeNamespace_def
        starts_with_def isNamespaceName_def dns_alnum_def)
  from parse_then_build [OF this] obtain cluster tail where
      raw: "?raw = cluster @ CHR ''|'' # tail" "CHR ''|'' \<notin> set cluster" and
      built: "buildRefreshScope ''pods'' ''c1'' (Namespace ''web'') ''limit=50'' = Inr (trim cluster @ ''|'' @ trim tail)"
    by auto
  have "js_split CHR ''|'' ?raw = cluster # js_split CHR ''|'' tail"
    using raw(2) unfolding raw(1) by (rule js_split_append)
  then have "cluster = '' c1 ''" by simp
  with raw(1) have "tail = ''namespace:web?limit=50''" by simp
  with built \<open>cluster = '' c1 ''\<close> show ?thesis by (simp add: trim_def js_space_def)
qed

lemma normalize_SomeD:
  "normalizeRefreshDomainScope d (Some v) = Inr (Some s) \<Longrightarrow>
     s = trim v \<and> s \<noteq> '''' \<and> (\<exists>sc. parseRefreshScope d s = Inr sc)"
  by (auto simp: normalizeRefreshDomainScope_def Let_def split: if_splits sum.splits)

text \<open>A scope enters refresh state only after it decoded: a value that normalizes is its own
  normal form, belongs to a cluster, and the builder reproduces the scope it denotes.\<close>

theorem normalized_scope_is_stable:
  assumes "normalizeRefreshDomainScope d (Some v) = Inr (Some s)"
  shows "normalizeRefreshDomainScope d (Some s) = Inr (Some s) \<and>
    (\<exists>sc. parseRefreshScope d s = Inr sc \<and> wf_cluster (rs_cluster sc) \<and>
      parseRefreshScope d (fst (parseClusterScope s) @ ''|'' @ snd (parseClusterScope s)) = Inr sc)"
proof -
  obtain sc where s: "s = trim v" "s \<noteq> ''''" and sc: "parseRefreshScope d s = Inr sc"
    using normalize_SomeD [OF assms] by blast
  obtain g c t where g: "grammarFor d = Inr g" and "parseClusterScope s = (c, t)" "c \<noteq> ''''"
      "rs_cluster sc = c"
    using sc by (rule parseRefreshScope_SomeD) blast
  then have "wf_cluster (rs_cluster sc)" using wf_cluster_parsed by blast
  moreover have "normalizeRefreshDomainScope d (Some s) = Inr (Some s)"
    using s sc by (simp add: normalizeRefreshDomainScope_def Let_def)
  ultimately show ?thesis
    using sc print_parsed [OF sc g] by auto
qed

theorem normalized_scope_is_stable_witness:
  "normalizeRefreshDomainScope ''nodes'' (Some ''c1|'') = Inr (Some ''c1|'') \<and>
    (\<exists>sc. parseRefreshScope ''nodes'' ''c1|'' = Inr sc \<and> wf_cluster (rs_cluster sc) \<and>
      parseRefreshScope ''nodes'' (fst (parseClusterScope ''c1|'') @ ''|'' @ snd (parseClusterScope ''c1|''))
        = Inr sc)"
  by (rule normalized_scope_is_stable [where v = "'' c1|''"])
    (simp add: normalizeRefreshDomainScope_def parseRefreshScope_def parseClusterScope_def
      grammarFor_def refresh_domain_policies_def splitQuery_def trim_def js_space_def)

text \<open>The namespace called \<open>all\<close> is a legal namespace name, but the scope built for it is the
  scope of all namespaces: its text decodes to the all-namespaces selector.\<close>

theorem namespace_all_reads_as_all_namespaces:
  assumes "wf_cluster c"
  shows "isNamespaceName ''all'' \<and>
    (\<exists>raw. buildRefreshScope ''pods'' c (Namespace ''all'') '''' = Inr raw \<and>
      parseRefreshScope ''pods'' raw =
        Inr \<lparr>rs_cluster = c, rs_selector = AllNamespaces, rs_query = ''''\<rparr>)"
proof -
  let ?g = "\<lparr>selectors = [KNamespace, KAllNamespaces, KNode, KWorkload], query_mode = QTypedTable\<rparr>"
  have g: "grammarFor ''pods'' = Inr ?g"
    by (simp add: grammarFor_def refresh_domain_policies_def)
  have tail: "encodeTail ?g AllNamespaces '''' = ''namespace:all''"
    "encodeTail ?g (Namespace ''all'') '''' = ''namespace:all''"
    by (simp_all add: encodeTail_def)
  have "parseRefreshScope ''pods''
      (printScope ?g \<lparr>rs_cluster = c, rs_selector = AllNamespaces, rs_query = ''''\<rparr>) =
    Inr \<lparr>rs_cluster = c, rs_selector = AllNamespaces, rs_query = ''''\<rparr>"
    by (rule parse_printed [OF g])
      (simp_all add: assms tail wf_query_def trim_def js_space_def)
  moreover have "isNamespaceName ''all''"
    by (simp add: isNamespaceName_def dns_alnum_def)
  ultimately show ?thesis
    using assms g tail by (auto simp: buildRefreshScope_def printScope_def wf_cluster_def Let_def)
qed

theorem namespace_all_reads_as_all_namespaces_witness:
  "isNamespaceName ''all'' \<and>
    (\<exists>raw. buildRefreshScope ''pods'' ''c1'' (Namespace ''all'') '''' = Inr raw \<and>
      parseRefreshScope ''pods'' raw =
        Inr \<lparr>rs_cluster = ''c1'', rs_selector = AllNamespaces, rs_query = ''''\<rparr>)"
  by (rule namespace_all_reads_as_all_namespaces)
    (simp add: wf_cluster_def trim_def js_space_def)

end
