(* ===== verification/Refresh_Intent.thy ===== *)
theory Refresh_Intent
  imports Prelude
begin

text \<open>
  Why a refresh read happens: \<open>core/refresh/refreshIntent.ts\<close>. A read carries one intent; merged
  work carries a set of them and replays with the strongest one the pause allows.
\<close>

datatype refresh_intent = Startup | Foreground | Background | StreamSignal | User

definition runsWhilePaused :: "refresh_intent \<Rightarrow> bool" where
  "runsWhilePaused intent \<longleftrightarrow> intent \<in> {Foreground, User}"

definition intent_precedence :: "refresh_intent list" where
  "intent_precedence = [User, StreamSignal, Foreground, Startup, Background]"

definition strongestIntent :: "refresh_intent list \<Rightarrow> refresh_intent option" where
  "strongestIntent intents = find (\<lambda>intent. intent \<in> set intents) intent_precedence"

text \<open>The precedence as an order: \<open>rank\<close> is the position in the list.\<close>

fun intent_rank :: "refresh_intent \<Rightarrow> nat" where
  "intent_rank User = 0"
| "intent_rank StreamSignal = 1"
| "intent_rank Foreground = 2"
| "intent_rank Startup = 3"
| "intent_rank Background = 4"

instantiation refresh_intent :: linorder
begin

definition less_eq_refresh_intent :: "refresh_intent \<Rightarrow> refresh_intent \<Rightarrow> bool" where
  "less_eq_refresh_intent a b \<longleftrightarrow> intent_rank b \<le> intent_rank a"

definition less_refresh_intent :: "refresh_intent \<Rightarrow> refresh_intent \<Rightarrow> bool" where
  "less_refresh_intent a b \<longleftrightarrow> intent_rank b < intent_rank a"

instance
proof
  fix a b :: refresh_intent
  show "a \<le> b \<Longrightarrow> b \<le> a \<Longrightarrow> a = b"
    by (cases a; cases b) (simp_all add: less_eq_refresh_intent_def)
qed (auto simp: less_eq_refresh_intent_def less_refresh_intent_def)

end

lemma strongestIntent_None [simp]: "strongestIntent intents = None \<longleftrightarrow> intents = []"
proof
  assume none: "strongestIntent intents = None"
  have "i \<in> set intent_precedence" for i
    by (cases i) (simp_all add: intent_precedence_def)
  then have "i \<notin> set intents" for i
    using none unfolding strongestIntent_def find_None_iff by blast
  then show "intents = []" by (cases intents) auto
qed (simp add: strongestIntent_def find_None_iff)

lemma strongestIntent_Max:
  assumes "intents \<noteq> []"
  shows "strongestIntent intents = Some (Max (set intents))"
proof -
  have "i \<le> j" if "i \<in> set intents" and "strongestIntent intents = Some j" for i j
    by (cases i; cases j)
      (use that in \<open>auto simp: strongestIntent_def intent_precedence_def
        less_eq_refresh_intent_def split: if_splits\<close>)
  moreover obtain j where j: "strongestIntent intents = Some j"
    using assms strongestIntent_None by (cases "strongestIntent intents") auto
  moreover from j have "j \<in> set intents"
    by (auto simp: strongestIntent_def find_Some_iff)
  ultimately show ?thesis
    by (metis List.finite_set Max_eqI)
qed

end
