(* ===== verification/Scoped_Machines.thy ===== *)
theory Scoped_Machines
  imports Refresh_Intent
begin

text \<open>
  The discriminated state machines of one refresh scope, \<open>core/refresh/refreshRuntime.ts\<close> lines
  1 to 488: fetch ownership, activation leases, cluster readiness, permission epoch, cluster auth
  and stream lifecycle, each a \<open>datatype\<close> of states, a \<open>datatype\<close> of events and the transition
  function of the source. Promises, timers, abort controllers and cleanup callbacks are opaque
  identities (numbers): the machines only compare them.
\<close>

section \<open>Fetch ownership\<close>

record in_flight_request =
  rq_controller :: nat
  rq_intent :: refresh_intent
  rq_coalesce :: bool
  rq_id :: nat
  rq_cleanup :: "nat option"
  rq_completion :: "task option"
  rq_context :: nat
  rq_domain :: string
  rq_scope :: "string option"

datatype scoped_fetch_state =
    FetchIdle
  | Fetching (fetch_request: in_flight_request) (fetch_trailing: bool)

datatype scoped_fetch_event =
    FetchStarted in_flight_request
  | StreamSignalReceived
  | FetchSettled nat
  | FetchCancelled nat

fun transitionScopedFetchState ::
    "scoped_fetch_state \<Rightarrow> scoped_fetch_event \<Rightarrow> scoped_fetch_state" where
  "transitionScopedFetchState st (FetchStarted request) = Fetching request False"
| "transitionScopedFetchState st StreamSignalReceived =
     (case st of
        FetchIdle \<Rightarrow> st
      | Fetching request trailing \<Rightarrow> if trailing then st else Fetching request True)"
| "transitionScopedFetchState st (FetchSettled requestId) =
     (case st of
        FetchIdle \<Rightarrow> st
      | Fetching request _ \<Rightarrow> if rq_id request \<noteq> requestId then st else FetchIdle)"
| "transitionScopedFetchState st (FetchCancelled requestId) =
     (case st of
        FetchIdle \<Rightarrow> st
      | Fetching request _ \<Rightarrow> if rq_id request \<noteq> requestId then st else FetchIdle)"

section \<open>Activation leases\<close>

datatype refresh_demand = QueryDemand | SnapshotDemand

record demand_counts =
  dc_query :: nat
  dc_snapshot :: nat

datatype scoped_activation_state =
    Untracked
  | Disabled
  | Enabled (act_demands: demand_counts) (act_reset: bool)

datatype scoped_activation_event =
    DisableRequested
  | LeaseAcquired refresh_demand
  | LeaseReleased refresh_demand
  | ResetRequested

fun demand_count :: "demand_counts \<Rightarrow> refresh_demand \<Rightarrow> nat" where
  "demand_count c QueryDemand = dc_query c"
| "demand_count c SnapshotDemand = dc_snapshot c"

fun set_demand :: "demand_counts \<Rightarrow> refresh_demand \<Rightarrow> nat \<Rightarrow> demand_counts" where
  "set_demand c QueryDemand n = c\<lparr>dc_query := n\<rparr>"
| "set_demand c SnapshotDemand n = c\<lparr>dc_snapshot := n\<rparr>"

definition no_scoped_demand :: demand_counts where
  "no_scoped_demand = \<lparr>dc_query = 0, dc_snapshot = 0\<rparr>"

definition totalDemand :: "demand_counts \<Rightarrow> nat" where
  "totalDemand demands = dc_query demands + dc_snapshot demands"

fun demandsFor :: "scoped_activation_state \<Rightarrow> demand_counts" where
  "demandsFor (Enabled demands _) = demands"
| "demandsFor _ = no_scoped_demand"

fun is_enabled :: "scoped_activation_state \<Rightarrow> bool" where
  "is_enabled (Enabled _ _) = True"
| "is_enabled _ = False"

fun resetOnRelease :: "scoped_activation_state \<Rightarrow> bool" where
  "resetOnRelease (Enabled _ r) = r"
| "resetOnRelease _ = False"

definition disableScope :: "scoped_activation_state \<Rightarrow> scoped_activation_state" where
  "disableScope st =
     (case st of
        Disabled \<Rightarrow> st
      | Enabled demands r \<Rightarrow> if totalDemand demands > 0 then st else Disabled
      | Untracked \<Rightarrow> Disabled)"

definition acquireScopeLease ::
    "scoped_activation_state \<Rightarrow> refresh_demand \<Rightarrow> scoped_activation_state" where
  "acquireScopeLease st demand =
     (let demands = demandsFor st;
          nextDemands = set_demand demands demand (demand_count demands demand + 1)
      in Enabled nextDemands (resetOnRelease st))"

definition releaseScopeLease ::
    "scoped_activation_state \<Rightarrow> refresh_demand \<Rightarrow> scoped_activation_state" where
  "releaseScopeLease st demand =
     (case st of
        Enabled demands r \<Rightarrow>
          if demand_count demands demand = 0 then st
          else Enabled (set_demand demands demand (demand_count demands demand - 1)) r
      | _ \<Rightarrow> st)"

definition requestResetOnRelease :: "scoped_activation_state \<Rightarrow> scoped_activation_state" where
  "requestResetOnRelease st =
     (case st of
        Enabled demands r \<Rightarrow> if totalDemand demands > 0 \<and> \<not> r then Enabled demands True else st
      | _ \<Rightarrow> st)"

fun transitionScopedActivationState ::
    "scoped_activation_state \<Rightarrow> scoped_activation_event \<Rightarrow> scoped_activation_state" where
  "transitionScopedActivationState st DisableRequested = disableScope st"
| "transitionScopedActivationState st (LeaseAcquired demand) = acquireScopeLease st demand"
| "transitionScopedActivationState st (LeaseReleased demand) = releaseScopeLease st demand"
| "transitionScopedActivationState st ResetRequested = requestResetOnRelease st"

section \<open>Cluster readiness\<close>

record readiness_request =
  rd_coalesce :: bool
  rd_domain :: string
  rd_scope :: string
  rd_intents :: "refresh_intent list"
  rd_query_reconcile :: bool

datatype scoped_readiness_state = ReadinessReady | ReadinessWaiting readiness_request

datatype scoped_readiness_event = RequestDeferred readiness_request | ClusterReady

fun transitionScopedReadinessState ::
    "scoped_readiness_state \<Rightarrow> scoped_readiness_event \<Rightarrow> scoped_readiness_state" where
  "transitionScopedReadinessState ReadinessReady (RequestDeferred request) = ReadinessWaiting request"
| "transitionScopedReadinessState (ReadinessWaiting held) (RequestDeferred request) =
     ReadinessWaiting (held\<lparr>
       rd_coalesce := rd_coalesce held \<or> rd_coalesce request,
       rd_intents := unique_list (rd_intents held @ rd_intents request),
       rd_query_reconcile := rd_query_reconcile held \<or> rd_query_reconcile request\<rparr>)"
| "transitionScopedReadinessState st ClusterReady = ReadinessReady"

section \<open>Permission epoch and cluster auth\<close>

datatype scoped_permission_state = PermissionUnknown | PermissionAllowed | PermissionDenied

datatype scoped_permission_event = AllowPermission | DenyPermission | ResetPermissionEpoch

fun transitionScopedPermissionState ::
    "scoped_permission_state \<Rightarrow> scoped_permission_event \<Rightarrow> scoped_permission_state" where
  "transitionScopedPermissionState _ AllowPermission = PermissionAllowed"
| "transitionScopedPermissionState _ DenyPermission = PermissionDenied"
| "transitionScopedPermissionState _ ResetPermissionEpoch = PermissionUnknown"

datatype cluster_auth_state = AuthAvailable | AuthFailed

datatype cluster_auth_event = FailAuth | RecoverAuth

fun transitionClusterAuthState :: "cluster_auth_state \<Rightarrow> cluster_auth_event \<Rightarrow> cluster_auth_state" where
  "transitionClusterAuthState _ FailAuth = AuthFailed"
| "transitionClusterAuthState _ RecoverAuth = AuthAvailable"

section \<open>Stream lifecycle\<close>

datatype stream_policy = StreamAllowed | StreamBlocked

datatype stream_initialization = InitIdle | InitScheduled task

datatype stream_connection =
    ConnInactive
  | ConnStarting (conn_task: task) (conn_cancelled: bool)
  | ConnActive (conn_cancelled: bool)

datatype health_status = HealthHealthy | HealthDegraded | HealthUnhealthy

record health_payload =
  hp_domain :: string
  hp_scope :: string
  hp_status :: health_status
  hp_reason :: string
  hp_connected :: bool
  hp_last_message :: "millis option"
  hp_last_delivery :: "millis option"

datatype stream_health = HealthUnknown | HealthKnown health_payload

datatype start_retry = RetryIdle (retry_failures: nat) | RetryScheduled (retry_failures: nat) timer

record scoped_stream_state =
  ss_policy :: stream_policy
  ss_initialization :: stream_initialization
  ss_connection :: stream_connection
  ss_health :: stream_health
  ss_retry :: start_retry

datatype scoped_stream_event =
    BlockStream
  | ClearStreamBlock
  | ScheduleInitialization task
  | ClearInitialization "task option"
  | BeginStart task
  | CancelStart
  | ClearCancellation
  | FinishStart task
  | FailStart task
  | StopStream
  | ReceiveHealth health_payload
  | ClearHealth
  | ClearAsync
  | ClearAll bool
  | ResetTransient
  | ScheduleStartRetry timer
  | TakeStartRetry
  | ResetStartRetry

definition inactiveStreamState :: scoped_stream_state where
  "inactiveStreamState =
     \<lparr>ss_policy = StreamAllowed, ss_initialization = InitIdle, ss_connection = ConnInactive,
      ss_health = HealthUnknown, ss_retry = RetryIdle 0\<rparr>"

definition blockStream :: "scoped_stream_state \<Rightarrow> scoped_stream_state" where
  "blockStream st =
     (if ss_policy st = StreamBlocked \<and> ss_initialization st = InitIdle then st
      else st\<lparr>ss_policy := StreamBlocked, ss_initialization := InitIdle\<rparr>)"

definition clearStreamBlock :: "scoped_stream_state \<Rightarrow> scoped_stream_state" where
  "clearStreamBlock st =
     (if ss_policy st = StreamAllowed then st else st\<lparr>ss_policy := StreamAllowed\<rparr>)"

definition scheduleStreamInitialization :: "scoped_stream_state \<Rightarrow> task \<Rightarrow> scoped_stream_state" where
  "scheduleStreamInitialization st t = st\<lparr>ss_initialization := InitScheduled t\<rparr>"

definition clearStreamInitialization ::
    "scoped_stream_state \<Rightarrow> task option \<Rightarrow> scoped_stream_state" where
  "clearStreamInitialization st t =
     (case ss_initialization st of
        InitIdle \<Rightarrow> st
      | InitScheduled current \<Rightarrow>
          if t \<noteq> None \<and> Some current \<noteq> t then st else st\<lparr>ss_initialization := InitIdle\<rparr>)"

definition beginStreamStart :: "scoped_stream_state \<Rightarrow> task \<Rightarrow> scoped_stream_state" where
  "beginStreamStart st t =
     (if ss_policy st = StreamBlocked then st else st\<lparr>ss_connection := ConnStarting t False\<rparr>)"

definition requestStreamCancellation :: "scoped_stream_state \<Rightarrow> scoped_stream_state" where
  "requestStreamCancellation st =
     (case ss_connection st of
        ConnInactive \<Rightarrow> st
      | ConnStarting t c \<Rightarrow> if c then st else st\<lparr>ss_connection := ConnStarting t True\<rparr>
      | ConnActive c \<Rightarrow> if c then st else st\<lparr>ss_connection := ConnActive True\<rparr>)"

definition clearStreamCancellation :: "scoped_stream_state \<Rightarrow> scoped_stream_state" where
  "clearStreamCancellation st =
     (case ss_connection st of
        ConnInactive \<Rightarrow> st
      | ConnStarting t c \<Rightarrow> if \<not> c then st else st\<lparr>ss_connection := ConnStarting t False\<rparr>
      | ConnActive c \<Rightarrow> if \<not> c then st else st\<lparr>ss_connection := ConnActive False\<rparr>)"

definition finishStreamStart :: "scoped_stream_state \<Rightarrow> task \<Rightarrow> scoped_stream_state" where
  "finishStreamStart st t =
     (case ss_connection st of
        ConnStarting current c \<Rightarrow>
          if current \<noteq> t \<or> c then st else st\<lparr>ss_connection := ConnActive False\<rparr>
      | _ \<Rightarrow> st)"

definition failStreamStart :: "scoped_stream_state \<Rightarrow> task \<Rightarrow> scoped_stream_state" where
  "failStreamStart st t =
     (case ss_connection st of
        ConnStarting current c \<Rightarrow> if current \<noteq> t then st else st\<lparr>ss_connection := ConnInactive\<rparr>
      | _ \<Rightarrow> st)"

definition stopActiveStream :: "scoped_stream_state \<Rightarrow> scoped_stream_state" where
  "stopActiveStream st =
     (case ss_connection st of ConnActive _ \<Rightarrow> st\<lparr>ss_connection := ConnInactive\<rparr> | _ \<Rightarrow> st)"

definition receiveStreamHealth :: "scoped_stream_state \<Rightarrow> health_payload \<Rightarrow> scoped_stream_state" where
  "receiveStreamHealth st payload = st\<lparr>ss_health := HealthKnown payload\<rparr>"

definition clear_stream_health :: "scoped_stream_state \<Rightarrow> scoped_stream_state" where
  "clear_stream_health st =
     (if ss_health st = HealthUnknown then st else st\<lparr>ss_health := HealthUnknown\<rparr>)"

fun clearAsyncConnection :: "stream_connection \<Rightarrow> stream_connection" where
  "clearAsyncConnection (ConnStarting _ _) = ConnInactive"
| "clearAsyncConnection (ConnActive _) = ConnActive False"
| "clearAsyncConnection ConnInactive = ConnInactive"

definition clearAsyncStreamState :: "scoped_stream_state \<Rightarrow> scoped_stream_state" where
  "clearAsyncStreamState st =
     st\<lparr>ss_initialization := InitIdle, ss_connection := clearAsyncConnection (ss_connection st)\<rparr>"

definition clearAllStreamState :: "scoped_stream_state \<Rightarrow> bool \<Rightarrow> scoped_stream_state" where
  "clearAllStreamState st reset =
     st\<lparr>ss_initialization := (if reset then InitIdle else ss_initialization st),
        ss_connection := ConnInactive\<rparr>"

definition resetTransientStreamState :: "scoped_stream_state \<Rightarrow> scoped_stream_state" where
  "resetTransientStreamState st =
     \<lparr>ss_policy = StreamAllowed, ss_initialization = InitIdle,
      ss_connection = (case ss_connection st of ConnActive _ \<Rightarrow> ConnActive False | _ \<Rightarrow> ConnInactive),
      ss_health = HealthUnknown, ss_retry = ss_retry st\<rparr>"

definition scheduleStartRetry :: "scoped_stream_state \<Rightarrow> timer \<Rightarrow> scoped_stream_state" where
  "scheduleStartRetry st timer =
     st\<lparr>ss_retry := RetryScheduled (retry_failures (ss_retry st) + 1) timer\<rparr>"

definition takeStartRetry :: "scoped_stream_state \<Rightarrow> scoped_stream_state" where
  "takeStartRetry st =
     (case ss_retry st of
        RetryIdle _ \<Rightarrow> st
      | RetryScheduled failures _ \<Rightarrow> st\<lparr>ss_retry := RetryIdle failures\<rparr>)"

definition resetStartRetry :: "scoped_stream_state \<Rightarrow> scoped_stream_state" where
  "resetStartRetry st = (if ss_retry st = RetryIdle 0 then st else st\<lparr>ss_retry := RetryIdle 0\<rparr>)"

fun transitionScopedStreamState ::
    "scoped_stream_state \<Rightarrow> scoped_stream_event \<Rightarrow> scoped_stream_state" where
  "transitionScopedStreamState st BlockStream = blockStream st"
| "transitionScopedStreamState st ClearStreamBlock = clearStreamBlock st"
| "transitionScopedStreamState st (ScheduleInitialization t) = scheduleStreamInitialization st t"
| "transitionScopedStreamState st (ClearInitialization t) = clearStreamInitialization st t"
| "transitionScopedStreamState st (BeginStart t) = beginStreamStart st t"
| "transitionScopedStreamState st CancelStart = requestStreamCancellation st"
| "transitionScopedStreamState st ClearCancellation = clearStreamCancellation st"
| "transitionScopedStreamState st (FinishStart t) = finishStreamStart st t"
| "transitionScopedStreamState st (FailStart t) = failStreamStart st t"
| "transitionScopedStreamState st StopStream = stopActiveStream st"
| "transitionScopedStreamState st (ReceiveHealth payload) = receiveStreamHealth st payload"
| "transitionScopedStreamState st ClearHealth = clear_stream_health st"
| "transitionScopedStreamState st ClearAsync = clearAsyncStreamState st"
| "transitionScopedStreamState st (ClearAll reset) = clearAllStreamState st reset"
| "transitionScopedStreamState st ResetTransient = resetTransientStreamState st"
| "transitionScopedStreamState st (ScheduleStartRetry timer) = scheduleStartRetry st timer"
| "transitionScopedStreamState st TakeStartRetry = takeStartRetry st"
| "transitionScopedStreamState st ResetStartRetry = resetStartRetry st"

lemmas [transitions] =
  disableScope_def acquireScopeLease_def releaseScopeLease_def requestResetOnRelease_def
  blockStream_def clearStreamBlock_def scheduleStreamInitialization_def
  clearStreamInitialization_def beginStreamStart_def requestStreamCancellation_def
  clearStreamCancellation_def finishStreamStart_def failStreamStart_def stopActiveStream_def
  receiveStreamHealth_def clear_stream_health_def clearAsyncStreamState_def
  clearAllStreamState_def resetTransientStreamState_def scheduleStartRetry_def takeStartRetry_def
  resetStartRetry_def

end
