(* ===== verification/Refresh_Runtime.thy ===== *)
theory Refresh_Runtime
  imports Scoped_Machines
begin

text \<open>
  One cluster's refresh runtime: the class \<open>ClusterRefreshRuntime\<close> of
  \<open>core/refresh/refreshRuntime.ts\<close>. Its state is one record per domain and scope, kept in a \<open>Map\<close>
  under the key \<open><domain>::<scope>\<close>, and the cluster's auth state. Every method is one definition;
  a method that writes returns the new runtime, with its result when it has one. \<open>Date.now()\<close> is an
  argument.

  The methods compare states by object identity before they write. A transition that returns a new
  object with an old value writes the value that is already there, so the model compares values.
  The one method whose result depends on identity is \<open>finishStreamingStart\<close>: for a scope that has
  no stored record both of its reads create a fresh object, which never is identical to the other.
\<close>

section \<open>The runtime's state\<close>

datatype reconciliation = ReconClean | ReconPending (recon_failures: nat) (recon_retry_at: millis)

datatype polling = PollIdle | PollScheduled timer

record scoped_refresh_state =
  sr_domain :: string
  sr_scope :: "string option"
  sr_reconciliation :: reconciliation
  sr_activation :: scoped_activation_state
  sr_polling :: polling
  sr_fetch :: scoped_fetch_state
  sr_readiness :: scoped_readiness_state
  sr_permission :: scoped_permission_state
  sr_stream :: scoped_stream_state

record cluster_runtime =
  cr_cluster :: string
  cr_states :: "(string, scoped_refresh_state) js_map"
  cr_auth :: cluster_auth_state

definition makeInFlightKey :: "string \<Rightarrow> string option \<Rightarrow> string" where
  "makeInFlightKey domain scope =
     domain @ ''::'' @ (case scope of None \<Rightarrow> ''*'' | Some s \<Rightarrow> s)"

definition new_runtime :: "string \<Rightarrow> cluster_runtime" where
  "new_runtime clusterId = \<lparr>cr_cluster = clusterId, cr_states = [], cr_auth = AuthAvailable\<rparr>"

definition initial_scope_state :: "string \<Rightarrow> string option \<Rightarrow> scoped_refresh_state" where
  "initial_scope_state domain scope =
     \<lparr>sr_domain = domain, sr_scope = scope, sr_reconciliation = ReconClean,
      sr_activation = Untracked, sr_polling = PollIdle, sr_fetch = FetchIdle,
      sr_readiness = ReadinessReady, sr_permission = PermissionUnknown,
      sr_stream = inactiveStreamState\<rparr>"

definition getScopeState ::
    "cluster_runtime \<Rightarrow> string \<Rightarrow> string option \<Rightarrow> scoped_refresh_state" where
  "getScopeState rt domain scope =
     (case map_of (cr_states rt) (makeInFlightKey domain scope) of
        Some st \<Rightarrow> st
      | None \<Rightarrow> initial_scope_state domain scope)"

text \<open>The condition under which storing a record deletes it instead. The start-retry state is not
  part of it, as in the source.\<close>

definition droppable :: "scoped_refresh_state \<Rightarrow> bool" where
  "droppable st \<longleftrightarrow>
     sr_reconciliation st = ReconClean \<and> sr_activation st = Untracked \<and> sr_polling st = PollIdle \<and>
     sr_fetch st = FetchIdle \<and> sr_readiness st = ReadinessReady \<and>
     sr_permission st = PermissionUnknown \<and> ss_policy (sr_stream st) = StreamAllowed \<and>
     ss_initialization (sr_stream st) = InitIdle \<and> ss_connection (sr_stream st) = ConnInactive \<and>
     ss_health (sr_stream st) = HealthUnknown"

definition state_key :: "scoped_refresh_state \<Rightarrow> string" where
  "state_key st = makeInFlightKey (sr_domain st) (sr_scope st)"

definition storeScopeState :: "cluster_runtime \<Rightarrow> scoped_refresh_state \<Rightarrow> cluster_runtime" where
  "storeScopeState rt st =
     (let key = makeInFlightKey (sr_domain st) (sr_scope st)
      in if droppable st then rt\<lparr>cr_states := AList.delete key (cr_states rt)\<rparr>
         else rt\<lparr>cr_states := AList.update key st (cr_states rt)\<rparr>)"

definition state_values :: "cluster_runtime \<Rightarrow> scoped_refresh_state list" where
  "state_values rt = map snd (cr_states rt)"

section \<open>Activation and leases\<close>

definition applyActivationEvent ::
    "cluster_runtime \<Rightarrow> string \<Rightarrow> string \<Rightarrow> scoped_activation_event \<Rightarrow>
     cluster_runtime \<times> scoped_activation_state \<times> scoped_activation_state" where
  "applyActivationEvent rt domain scope event =
     (let st = getScopeState rt domain (Some scope);
          next = transitionScopedActivationState (sr_activation st) event
      in (if next \<noteq> sr_activation st then storeScopeState rt (st\<lparr>sr_activation := next\<rparr>) else rt,
          sr_activation st, next))"

definition deleteDomain :: "cluster_runtime \<Rightarrow> string \<Rightarrow> cluster_runtime" where
  "deleteDomain rt domain =
     rt\<lparr>cr_states := fold (\<lambda>(key, st) m. if sr_domain st = domain then AList.delete key m else m)
          (cr_states rt) (cr_states rt)\<rparr>"

definition getKnownScopes :: "cluster_runtime \<Rightarrow> string \<Rightarrow> string list" where
  "getKnownScopes rt domain =
     List.map_filter (\<lambda>st. if sr_domain st = domain \<and> sr_activation st \<noteq> Untracked
                            then sr_scope st else None) (state_values rt)"

definition getEnabledScopes :: "cluster_runtime \<Rightarrow> string \<Rightarrow> string list" where
  "getEnabledScopes rt domain =
     List.map_filter (\<lambda>st. if sr_domain st = domain \<and> is_enabled (sr_activation st)
                            then sr_scope st else None) (state_values rt)"

definition hasEnabledScopedSources :: "cluster_runtime \<Rightarrow> string \<Rightarrow> bool" where
  "hasEnabledScopedSources rt domain \<longleftrightarrow>
     list_ex (\<lambda>st. sr_domain st = domain \<and> is_enabled (sr_activation st)) (state_values rt)"

definition isScopedDomainEnabled :: "cluster_runtime \<Rightarrow> string \<Rightarrow> string \<Rightarrow> bool" where
  "isScopedDomainEnabled rt domain scope \<longleftrightarrow>
     (case sr_activation (getScopeState rt domain (Some scope)) of
        Untracked \<Rightarrow> True | Enabled _ _ \<Rightarrow> True | Disabled \<Rightarrow> False)"

text \<open>The result pair is the source's \<open>{ previous, changed }\<close>.\<close>

definition disableScopedDomain ::
    "cluster_runtime \<Rightarrow> string \<Rightarrow> string \<Rightarrow> cluster_runtime \<times> bool option \<times> bool" where
  "disableScopedDomain rt domain scope =
     (case applyActivationEvent rt domain scope DisableRequested of
        (rt', previous, next) \<Rightarrow>
          let previousEnabled = (if previous = Untracked then None else Some (is_enabled previous));
              nextEnabled = is_enabled next
          in (rt', previousEnabled, previousEnabled \<noteq> Some nextEnabled))"

definition getScopedLeaseCount ::
    "cluster_runtime \<Rightarrow> string \<Rightarrow> string \<Rightarrow> refresh_demand option \<Rightarrow> nat" where
  "getScopedLeaseCount rt domain scope demand =
     (let counts = demandsFor (sr_activation (getScopeState rt domain (Some scope)))
      in case demand of
           Some d \<Rightarrow> demand_count counts d
         | None \<Rightarrow> dc_query counts + dc_snapshot counts)"

definition hasScopedLease :: "cluster_runtime \<Rightarrow> string \<Rightarrow> string \<Rightarrow> bool" where
  "hasScopedLease rt domain scope \<longleftrightarrow> getScopedLeaseCount rt domain scope None > 0"

definition hasScopedDemand :: "cluster_runtime \<Rightarrow> string \<Rightarrow> string \<Rightarrow> refresh_demand \<Rightarrow> bool" where
  "hasScopedDemand rt domain scope demand \<longleftrightarrow> getScopedLeaseCount rt domain scope (Some demand) > 0"

record acquire_result =
  aq_count :: nat
  aq_first :: bool
  aq_changed :: bool

definition acquireScopedLease ::
    "cluster_runtime \<Rightarrow> string \<Rightarrow> string \<Rightarrow> refresh_demand \<Rightarrow> cluster_runtime \<times> acquire_result" where
  "acquireScopedLease rt domain scope demand =
     (let before = sr_activation (getScopeState rt domain (Some scope));
          previousTotal = totalDemand (demandsFor before)
      in case applyActivationEvent rt domain scope (LeaseAcquired demand) of
           (rt', _, next) \<Rightarrow>
             (rt', \<lparr>aq_count = totalDemand (demandsFor next), aq_first = (previousTotal = 0),
                    aq_changed = (\<not> is_enabled before \<and> is_enabled next)\<rparr>))"

record release_result =
  rl_count :: nat
  rl_last :: bool
  rl_had :: bool
  rl_reset :: bool

definition releaseScopedLease ::
    "cluster_runtime \<Rightarrow> string \<Rightarrow> string \<Rightarrow> refresh_demand \<Rightarrow> cluster_runtime \<times> release_result" where
  "releaseScopedLease rt domain scope demand =
     (let before = sr_activation (getScopeState rt domain (Some scope));
          counts = demandsFor before
      in if demand_count counts demand \<le> 0
         then (rt, \<lparr>rl_count = 0, rl_last = False, rl_had = False, rl_reset = False\<rparr>)
         else let previousTotal = totalDemand counts
              in case applyActivationEvent rt domain scope (LeaseReleased demand) of
                   (rt', _, next) \<Rightarrow>
                     let nextTotal = totalDemand (demandsFor next)
                     in if nextTotal = 0
                        then (rt', \<lparr>rl_count = 0, rl_last = (previousTotal = 1), rl_had = True,
                                    rl_reset = resetOnRelease before\<rparr>)
                        else (rt', \<lparr>rl_count = nextTotal, rl_last = False, rl_had = True,
                                    rl_reset = False\<rparr>))"

definition deferResetUntilReleased ::
    "cluster_runtime \<Rightarrow> string \<Rightarrow> string \<Rightarrow> cluster_runtime \<times> bool" where
  "deferResetUntilReleased rt domain scope =
     (if \<not> hasScopedLease rt domain scope then (rt, False)
      else (fst (applyActivationEvent rt domain scope ResetRequested), True))"

definition getLeasedScopes :: "cluster_runtime \<Rightarrow> (string \<times> string) list" where
  "getLeasedScopes rt =
     List.map_filter (\<lambda>st. case sr_scope st of
         Some scope \<Rightarrow> if totalDemand (demandsFor (sr_activation st)) > 0
                       then Some (sr_domain st, scope) else None
       | None \<Rightarrow> None) (state_values rt)"

section \<open>Poll timers\<close>

definition setPollTimer ::
    "cluster_runtime \<Rightarrow> string \<Rightarrow> string \<Rightarrow> timer \<Rightarrow> cluster_runtime" where
  "setPollTimer rt domain scope timer =
     storeScopeState rt ((getScopeState rt domain (Some scope))\<lparr>sr_polling := PollScheduled timer\<rparr>)"

definition takePollTimer ::
    "cluster_runtime \<Rightarrow> string \<Rightarrow> string \<Rightarrow> cluster_runtime \<times> timer option" where
  "takePollTimer rt domain scope =
     (let st = getScopeState rt domain (Some scope)
      in case sr_polling st of
           PollIdle \<Rightarrow> (rt, None)
         | PollScheduled timer \<Rightarrow> (storeScopeState rt (st\<lparr>sr_polling := PollIdle\<rparr>), Some timer))"

definition isPollScheduled :: "cluster_runtime \<Rightarrow> string \<Rightarrow> string \<Rightarrow> bool" where
  "isPollScheduled rt domain scope \<longleftrightarrow>
     sr_polling (getScopeState rt domain (Some scope)) \<noteq> PollIdle"

definition poll_timer_of :: "scoped_refresh_state \<Rightarrow> timer option" where
  "poll_timer_of st =
     (case (sr_polling st, sr_scope st) of (PollScheduled t, Some _) \<Rightarrow> Some t | _ \<Rightarrow> None)"

definition takeAllPollTimers :: "cluster_runtime \<Rightarrow> cluster_runtime \<times> timer list" where
  "takeAllPollTimers rt =
     fold (\<lambda>st (rt', timers).
         case poll_timer_of st of
           Some t \<Rightarrow> (storeScopeState rt' (st\<lparr>sr_polling := PollIdle\<rparr>), timers @ [t])
         | None \<Rightarrow> (rt', timers))
       (state_values rt) (rt, [])"

definition scopedDomains :: "cluster_runtime \<Rightarrow> (string \<times> string) list" where
  "scopedDomains rt =
     List.map_filter (\<lambda>st. case sr_scope st of
         Some scope \<Rightarrow> if sr_activation st \<noteq> Untracked then Some (sr_domain st, scope) else None
       | None \<Rightarrow> None) (state_values rt)"

section \<open>Deferred readiness\<close>

definition deferUntilClusterReady :: "cluster_runtime \<Rightarrow> readiness_request \<Rightarrow> cluster_runtime" where
  "deferUntilClusterReady rt request =
     (let st = getScopeState rt (rd_domain request) (Some (rd_scope request));
          readiness = transitionScopedReadinessState (sr_readiness st) (RequestDeferred request)
      in storeScopeState rt (st\<lparr>sr_readiness := readiness\<rparr>))"

definition takeDeferredReadinessRequests ::
    "cluster_runtime \<Rightarrow> cluster_runtime \<times> readiness_request list" where
  "takeDeferredReadinessRequests rt =
     fold (\<lambda>st (rt', requests).
         case sr_readiness st of
           ReadinessReady \<Rightarrow> (rt', requests)
         | ReadinessWaiting request \<Rightarrow>
             (storeScopeState rt'
                (st\<lparr>sr_readiness := transitionScopedReadinessState (sr_readiness st) ClusterReady\<rparr>),
              requests @ [request]))
       (state_values rt) (rt, [])"

definition getDeferredReadinessRequests :: "cluster_runtime \<Rightarrow> readiness_request list" where
  "getDeferredReadinessRequests rt =
     List.map_filter (\<lambda>st. case sr_readiness st of
         ReadinessWaiting request \<Rightarrow> Some request | ReadinessReady \<Rightarrow> None) (state_values rt)"

section \<open>Reconciliation\<close>

definition needsReconciliation :: "cluster_runtime \<Rightarrow> string \<Rightarrow> string \<Rightarrow> bool" where
  "needsReconciliation rt domain scope \<longleftrightarrow>
     sr_reconciliation (getScopeState rt domain (Some scope)) \<noteq> ReconClean"

definition canRetryReconciliation ::
    "cluster_runtime \<Rightarrow> string \<Rightarrow> string \<Rightarrow> millis \<Rightarrow> bool" where
  "canRetryReconciliation rt domain scope now \<longleftrightarrow>
     (case sr_reconciliation (getScopeState rt domain (Some scope)) of
        ReconClean \<Rightarrow> True
      | ReconPending _ retryAt \<Rightarrow> retryAt \<le> now)"

definition reconciliation_delay :: "nat \<Rightarrow> millis" where
  "reconciliation_delay failures =
     (if failures = 1 then 0 else min 60000 (1000 * 2 ^ min (failures - 2) 6))"

definition markReconciliationFailed ::
    "cluster_runtime \<Rightarrow> string \<Rightarrow> string \<Rightarrow> millis \<Rightarrow> cluster_runtime" where
  "markReconciliationFailed rt domain scope now =
     (let st = getScopeState rt domain (Some scope);
          failures = (case sr_reconciliation st of
                        ReconPending f _ \<Rightarrow> f + 1 | ReconClean \<Rightarrow> 1)
      in storeScopeState rt
           (st\<lparr>sr_reconciliation := ReconPending failures (now + reconciliation_delay failures)\<rparr>))"

definition markReconciliationPending ::
    "cluster_runtime \<Rightarrow> string \<Rightarrow> string \<Rightarrow> millis \<Rightarrow> cluster_runtime" where
  "markReconciliationPending rt domain scope now =
     (let st = getScopeState rt domain (Some scope)
      in case sr_reconciliation st of
           ReconPending _ _ \<Rightarrow> rt
         | ReconClean \<Rightarrow> storeScopeState rt (st\<lparr>sr_reconciliation := ReconPending 0 now\<rparr>))"

definition markReconciled :: "cluster_runtime \<Rightarrow> string \<Rightarrow> string \<Rightarrow> cluster_runtime" where
  "markReconciled rt domain scope =
     storeScopeState rt ((getScopeState rt domain (Some scope))\<lparr>sr_reconciliation := ReconClean\<rparr>)"

section \<open>Permission epoch and auth\<close>

definition isPermissionDenied :: "cluster_runtime \<Rightarrow> string \<Rightarrow> string \<Rightarrow> bool" where
  "isPermissionDenied rt domain scope \<longleftrightarrow>
     sr_permission (getScopeState rt domain (Some scope)) = PermissionDenied"

definition applyPermissionEvent ::
    "cluster_runtime \<Rightarrow> string \<Rightarrow> string \<Rightarrow> scoped_permission_event \<Rightarrow> cluster_runtime" where
  "applyPermissionEvent rt domain scope event =
     (let st = getScopeState rt domain (Some scope);
          permission = transitionScopedPermissionState (sr_permission st) event
      in if permission \<noteq> sr_permission st
         then storeScopeState rt (st\<lparr>sr_permission := permission\<rparr>) else rt)"

definition markPermissionDenied :: "cluster_runtime \<Rightarrow> string \<Rightarrow> string \<Rightarrow> cluster_runtime" where
  "markPermissionDenied rt domain scope = applyPermissionEvent rt domain scope DenyPermission"

definition markPermissionAllowed :: "cluster_runtime \<Rightarrow> string \<Rightarrow> string \<Rightarrow> cluster_runtime" where
  "markPermissionAllowed rt domain scope = applyPermissionEvent rt domain scope AllowPermission"

definition resetPermissionEpoch :: "cluster_runtime \<Rightarrow> cluster_runtime \<times> (string \<times> string) list" where
  "resetPermissionEpoch rt =
     fold (\<lambda>st (rt', reset).
         case sr_scope st of
           None \<Rightarrow> (rt', reset)
         | Some scope \<Rightarrow>
             if sr_permission st = PermissionUnknown then (rt', reset)
             else (storeScopeState rt'
                     (st\<lparr>sr_permission :=
                          transitionScopedPermissionState (sr_permission st) ResetPermissionEpoch\<rparr>),
                   reset @ [(sr_domain st, scope)]))
       (state_values rt) (rt, [])"

definition isAuthAvailable :: "cluster_runtime \<Rightarrow> bool" where
  "isAuthAvailable rt \<longleftrightarrow> cr_auth rt = AuthAvailable"

definition applyAuthEvent :: "cluster_runtime \<Rightarrow> cluster_auth_event \<Rightarrow> cluster_runtime \<times> bool" where
  "applyAuthEvent rt event =
     (let next = transitionClusterAuthState (cr_auth rt) event
      in if next = cr_auth rt then (rt, False) else (rt\<lparr>cr_auth := next\<rparr>, True))"

definition markAuthFailed :: "cluster_runtime \<Rightarrow> cluster_runtime \<times> bool" where
  "markAuthFailed rt = applyAuthEvent rt FailAuth"

definition markAuthRecovered :: "cluster_runtime \<Rightarrow> cluster_runtime \<times> bool" where
  "markAuthRecovered rt = applyAuthEvent rt RecoverAuth"

section \<open>Fetch ownership\<close>

definition applyFetchEvent ::
    "cluster_runtime \<Rightarrow> string \<Rightarrow> string option \<Rightarrow> scoped_fetch_event \<Rightarrow>
     cluster_runtime \<times> scoped_fetch_state" where
  "applyFetchEvent rt domain scope event =
     (let st = getScopeState rt domain scope;
          next = transitionScopedFetchState (sr_fetch st) event
      in (if next \<noteq> sr_fetch st then storeScopeState rt (st\<lparr>sr_fetch := next\<rparr>) else rt, next))"

text \<open>The tracked request: the request and whether a trailing signal is latched.\<close>

fun trackedRequest :: "scoped_fetch_state \<Rightarrow> (in_flight_request \<times> bool) option" where
  "trackedRequest FetchIdle = None"
| "trackedRequest (Fetching request trailing) = Some (request, trailing)"

definition getInFlight ::
    "cluster_runtime \<Rightarrow> string \<Rightarrow> string option \<Rightarrow> (in_flight_request \<times> bool) option" where
  "getInFlight rt domain scope = trackedRequest (sr_fetch (getScopeState rt domain scope))"

definition setInFlight :: "cluster_runtime \<Rightarrow> in_flight_request \<Rightarrow> cluster_runtime \<times> string" where
  "setInFlight rt request =
     (fst (applyFetchEvent rt (rq_domain request) (rq_scope request) (FetchStarted request)),
      makeInFlightKey (rq_domain request) (rq_scope request))"

definition latchTrailingStreamSignal ::
    "cluster_runtime \<Rightarrow> string \<Rightarrow> string option \<Rightarrow> cluster_runtime" where
  "latchTrailingStreamSignal rt domain scope =
     fst (applyFetchEvent rt domain scope StreamSignalReceived)"

definition settleInFlight ::
    "cluster_runtime \<Rightarrow> string \<Rightarrow> string option \<Rightarrow> nat \<Rightarrow>
     cluster_runtime \<times> (in_flight_request \<times> bool) option" where
  "settleInFlight rt domain scope requestId =
     (let previous = sr_fetch (getScopeState rt domain scope);
          tracked = trackedRequest previous
      in case applyFetchEvent rt domain scope (FetchSettled requestId) of
           (rt', next) \<Rightarrow> (rt', if next = previous then None else tracked))"

text \<open>\<open>teardownInFlight\<close> also aborts the request's controller and runs its cleanup; the identities
  of both are the second component of the result.\<close>

definition teardownInFlight ::
    "cluster_runtime \<Rightarrow> string \<Rightarrow> nat \<Rightarrow>
     cluster_runtime \<times> (in_flight_request \<times> bool) option" where
  "teardownInFlight rt key requestId =
     (case map_of (cr_states rt) key of
        None \<Rightarrow> (rt, None)
      | Some st \<Rightarrow>
          let previous = sr_fetch st;
              tracked = trackedRequest previous
          in case applyFetchEvent rt (sr_domain st) (sr_scope st) (FetchCancelled requestId) of
               (rt', next) \<Rightarrow>
                 if next = previous then (rt', None) else (rt', tracked))"

definition inFlightRequests :: "cluster_runtime \<Rightarrow> ((in_flight_request \<times> bool) \<times> string) list" where
  "inFlightRequests rt =
     List.map_filter (\<lambda>(key, st). map_option (\<lambda>request. (request, key)) (trackedRequest (sr_fetch st)))
       (cr_states rt)"

section \<open>Streams\<close>

definition applyStreamEvent ::
    "cluster_runtime \<Rightarrow> string \<Rightarrow> string \<Rightarrow> scoped_stream_event \<Rightarrow>
     cluster_runtime \<times> scoped_stream_state" where
  "applyStreamEvent rt domain scope event =
     (let st = getScopeState rt domain (Some scope);
          stream = transitionScopedStreamState (sr_stream st) event
      in (if stream \<noteq> sr_stream st then storeScopeState rt (st\<lparr>sr_stream := stream\<rparr>) else rt, stream))"

text \<open>\<open>forEachStreamState\<close> with a callback that applies one event to the scope it is given.\<close>

definition forEachStreamState :: "cluster_runtime \<Rightarrow> scoped_stream_event \<Rightarrow> cluster_runtime" where
  "forEachStreamState rt event =
     fold (\<lambda>st rt'. case sr_scope st of
         None \<Rightarrow> rt'
       | Some scope \<Rightarrow> fst (applyStreamEvent rt' (sr_domain st) scope event))
       (state_values rt) rt"

definition isStreamingBlocked :: "cluster_runtime \<Rightarrow> string \<Rightarrow> string \<Rightarrow> bool" where
  "isStreamingBlocked rt domain scope \<longleftrightarrow>
     ss_policy (sr_stream (getScopeState rt domain (Some scope))) = StreamBlocked"

definition blockStreaming :: "cluster_runtime \<Rightarrow> string \<Rightarrow> string \<Rightarrow> cluster_runtime \<times> bool" where
  "blockStreaming rt domain scope =
     (let st = getScopeState rt domain (Some scope)
      in if ss_policy (sr_stream st) = StreamBlocked then (rt, False)
         else (storeScopeState rt
                 (st\<lparr>sr_stream := transitionScopedStreamState (sr_stream st) BlockStream\<rparr>), True))"

definition clearBlockedStreaming :: "cluster_runtime \<Rightarrow> cluster_runtime" where
  "clearBlockedStreaming rt = forEachStreamState rt ClearStreamBlock"

definition connection_of :: "cluster_runtime \<Rightarrow> string \<Rightarrow> string \<Rightarrow> stream_connection" where
  "connection_of rt domain scope = ss_connection (sr_stream (getScopeState rt domain (Some scope)))"

definition isStreamingActive :: "cluster_runtime \<Rightarrow> string \<Rightarrow> string \<Rightarrow> bool" where
  "isStreamingActive rt domain scope \<longleftrightarrow>
     (case connection_of rt domain scope of ConnActive _ \<Rightarrow> True | _ \<Rightarrow> False)"

definition hasPendingStreaming :: "cluster_runtime \<Rightarrow> string \<Rightarrow> string \<Rightarrow> bool" where
  "hasPendingStreaming rt domain scope \<longleftrightarrow>
     (case connection_of rt domain scope of ConnStarting _ _ \<Rightarrow> True | _ \<Rightarrow> False)"

definition isStreamingStartingOrActive :: "cluster_runtime \<Rightarrow> string \<Rightarrow> string \<Rightarrow> bool" where
  "isStreamingStartingOrActive rt domain scope \<longleftrightarrow> connection_of rt domain scope \<noteq> ConnInactive"

definition getStreamingScopes :: "cluster_runtime \<Rightarrow> (string \<times> string) list" where
  "getStreamingScopes rt =
     List.map_filter (\<lambda>st. if ss_connection (sr_stream st) = ConnInactive then None
                            else map_option (Pair (sr_domain st)) (sr_scope st)) (state_values rt)"

definition hasStreamingReady :: "cluster_runtime \<Rightarrow> string \<Rightarrow> string \<Rightarrow> bool" where
  "hasStreamingReady rt domain scope \<longleftrightarrow>
     ss_initialization (sr_stream (getScopeState rt domain (Some scope))) \<noteq> InitIdle"

definition hasStreamingBookkeeping :: "cluster_runtime \<Rightarrow> string \<Rightarrow> string \<Rightarrow> bool" where
  "hasStreamingBookkeeping rt domain scope \<longleftrightarrow>
     connection_of rt domain scope \<noteq> ConnInactive \<or> hasStreamingReady rt domain scope"

definition setStreamingReady :: "cluster_runtime \<Rightarrow> string \<Rightarrow> string \<Rightarrow> task \<Rightarrow> cluster_runtime" where
  "setStreamingReady rt domain scope t =
     fst (applyStreamEvent rt domain scope (ScheduleInitialization t))"

definition clearStreamingReady ::
    "cluster_runtime \<Rightarrow> string \<Rightarrow> string \<Rightarrow> task option \<Rightarrow> cluster_runtime" where
  "clearStreamingReady rt domain scope t =
     fst (applyStreamEvent rt domain scope (ClearInitialization t))"

definition beginStreamingStart :: "cluster_runtime \<Rightarrow> string \<Rightarrow> string \<Rightarrow> task \<Rightarrow> cluster_runtime" where
  "beginStreamingStart rt domain scope t = fst (applyStreamEvent rt domain scope (BeginStart t))"

text \<open>The result compares the stream objects of two reads by identity. A stored record yields one
  object, which changes exactly when the transition applies; without a record the two reads create
  two objects, and the result is true.\<close>

definition finishStreamingStart ::
    "cluster_runtime \<Rightarrow> string \<Rightarrow> string \<Rightarrow> task \<Rightarrow> cluster_runtime \<times> bool" where
  "finishStreamingStart rt domain scope t =
     (let previous = sr_stream (getScopeState rt domain (Some scope))
      in case applyStreamEvent rt domain scope (FinishStart t) of
           (rt', next) \<Rightarrow>
             (rt', map_of (cr_states rt) (makeInFlightKey domain (Some scope)) = None
                   \<or> next \<noteq> previous))"

definition failStreamingStart :: "cluster_runtime \<Rightarrow> string \<Rightarrow> string \<Rightarrow> task \<Rightarrow> cluster_runtime" where
  "failStreamingStart rt domain scope t = fst (applyStreamEvent rt domain scope (FailStart t))"

definition cancelStreamingStart ::
    "cluster_runtime \<Rightarrow> string \<Rightarrow> string \<Rightarrow> cluster_runtime \<times> task option" where
  "cancelStreamingStart rt domain scope =
     (let pending = (case connection_of rt domain scope of
                       ConnStarting t _ \<Rightarrow> Some t | _ \<Rightarrow> None);
          rt1 = fst (applyStreamEvent rt domain scope CancelStart)
      in (clearStreamingReady rt1 domain scope None, pending))"

definition isStreamingCancelled :: "cluster_runtime \<Rightarrow> string \<Rightarrow> string \<Rightarrow> bool" where
  "isStreamingCancelled rt domain scope \<longleftrightarrow>
     (case connection_of rt domain scope of
        ConnInactive \<Rightarrow> False | ConnStarting _ c \<Rightarrow> c | ConnActive c \<Rightarrow> c)"

definition clearStreamingCancelled :: "cluster_runtime \<Rightarrow> string \<Rightarrow> string \<Rightarrow> cluster_runtime" where
  "clearStreamingCancelled rt domain scope = fst (applyStreamEvent rt domain scope ClearCancellation)"

definition markStreamingStopped :: "cluster_runtime \<Rightarrow> string \<Rightarrow> string \<Rightarrow> cluster_runtime" where
  "markStreamingStopped rt domain scope = fst (applyStreamEvent rt domain scope StopStream)"

definition clearStreamHealth :: "cluster_runtime \<Rightarrow> string \<Rightarrow> string \<Rightarrow> cluster_runtime" where
  "clearStreamHealth rt domain scope = fst (applyStreamEvent rt domain scope ClearHealth)"

definition getStreamHealth :: "cluster_runtime \<Rightarrow> string \<Rightarrow> string \<Rightarrow> health_payload option" where
  "getStreamHealth rt domain scope =
     (case ss_health (sr_stream (getScopeState rt domain (Some scope))) of
        HealthKnown payload \<Rightarrow> Some payload | HealthUnknown \<Rightarrow> None)"

definition setStreamHealth ::
    "cluster_runtime \<Rightarrow> string \<Rightarrow> string \<Rightarrow> health_payload \<Rightarrow>
     cluster_runtime \<times> health_payload option" where
  "setStreamHealth rt domain scope payload =
     (fst (applyStreamEvent rt domain scope (ReceiveHealth payload)),
      getStreamHealth rt domain scope)"

definition clearAllStreamHealth :: "cluster_runtime \<Rightarrow> cluster_runtime" where
  "clearAllStreamHealth rt = forEachStreamState rt ClearHealth"

definition clearAsyncStreamingBookkeeping :: "cluster_runtime \<Rightarrow> cluster_runtime" where
  "clearAsyncStreamingBookkeeping rt = forEachStreamState rt ClearAsync"

definition clearAllStreaming :: "cluster_runtime \<Rightarrow> bool \<Rightarrow> cluster_runtime" where
  "clearAllStreaming rt reset = forEachStreamState rt (ClearAll reset)"

definition retry_timer :: "start_retry \<Rightarrow> timer option" where
  "retry_timer r = (case r of RetryScheduled _ t \<Rightarrow> Some t | RetryIdle _ \<Rightarrow> None)"

definition getStreamStartFailures :: "cluster_runtime \<Rightarrow> string \<Rightarrow> string \<Rightarrow> nat" where
  "getStreamStartFailures rt domain scope =
     retry_failures (ss_retry (sr_stream (getScopeState rt domain (Some scope))))"

definition setStreamStartRetry ::
    "cluster_runtime \<Rightarrow> string \<Rightarrow> string \<Rightarrow> timer \<Rightarrow> cluster_runtime" where
  "setStreamStartRetry rt domain scope timer =
     fst (applyStreamEvent rt domain scope (ScheduleStartRetry timer))"

definition takeStreamStartRetry ::
    "cluster_runtime \<Rightarrow> string \<Rightarrow> string \<Rightarrow> cluster_runtime \<times> timer option" where
  "takeStreamStartRetry rt domain scope =
     (let retry = ss_retry (sr_stream (getScopeState rt domain (Some scope)))
      in (fst (applyStreamEvent rt domain scope TakeStartRetry), retry_timer retry))"

definition resetStreamStartRetry ::
    "cluster_runtime \<Rightarrow> string \<Rightarrow> string \<Rightarrow> cluster_runtime \<times> timer option" where
  "resetStreamStartRetry rt domain scope =
     (let retry = ss_retry (sr_stream (getScopeState rt domain (Some scope)))
      in (fst (applyStreamEvent rt domain scope ResetStartRetry), retry_timer retry))"

definition resetAllStreamStartRetries :: "cluster_runtime \<Rightarrow> cluster_runtime \<times> timer list" where
  "resetAllStreamStartRetries rt =
     fold (\<lambda>st (rt', timers).
         case sr_scope st of
           None \<Rightarrow> (rt', timers)
         | Some scope \<Rightarrow>
             (case resetStreamStartRetry rt' (sr_domain st) scope of
                (rt'', timer) \<Rightarrow>
                  (rt'', case timer of None \<Rightarrow> timers | Some t \<Rightarrow> timers @ [t])))
       (state_values rt) (rt, [])"

definition resetTransientState :: "cluster_runtime \<Rightarrow> cluster_runtime" where
  "resetTransientState rt = forEachStreamState rt ResetTransient"

definition resetAllState :: "cluster_runtime \<Rightarrow> cluster_runtime" where
  "resetAllState rt = rt\<lparr>cr_states := [], cr_auth := AuthAvailable\<rparr>"

section \<open>Whether a read runs or the stream already covers it\<close>

datatype fetch_mode = FetchSnapshot | FetchSkip

record fetch_decision_input =
  fi_should_stream :: bool
  fi_manual :: bool
  fi_stream_signal :: bool
  fi_healthy :: bool
  fi_has_data :: bool

definition resolveStreamingFetchMode :: "fetch_decision_input \<Rightarrow> fetch_mode \<times> bool" where
  "resolveStreamingFetchMode input =
     (if fi_manual input \<or> \<not> fi_should_stream input then (FetchSnapshot, False)
      else if \<not> fi_has_data input then (FetchSnapshot, False)
      else if fi_stream_signal input then (FetchSnapshot, False)
      else if fi_healthy input then (FetchSkip, False)
      else (FetchSnapshot, True))"

end
