(* ===== verification/Runtime_Records.thy ===== *)
theory Runtime_Records
  imports Refresh_Runtime
begin

text \<open>
  The record store of a cluster runtime: keys identify domain and scope, the invariant of the
  runtime, the store as an instance of the keyed-store interface, and every writing operation as
  one modification of one record. The later theories about leases, fetches, streams and polls rest
  on these facts only.
\<close>

section \<open>Keys\<close>

text \<open>A domain name has no colon, and a scope is never the literal \<open>*\<close> that stands for no scope:
  the refresh domains are the names of the policy table, and scopes carry a cluster prefix.\<close>

definition valid_ref :: "string \<Rightarrow> string option \<Rightarrow> bool" where
  "valid_ref domain scope \<longleftrightarrow> CHR '':'' \<notin> set domain \<and> scope \<noteq> Some ''*''"

lemma makeInFlightKey_domain:
  "CHR '':'' \<notin> set domain \<Longrightarrow> takeWhile (\<lambda>c. c \<noteq> CHR '':'') (makeInFlightKey domain scope) = domain"
  by (simp add: makeInFlightKey_def takeWhile_append)

lemma makeInFlightKey_inj:
  assumes "valid_ref d s" and "valid_ref d' s'"
  shows "makeInFlightKey d s = makeInFlightKey d' s' \<longleftrightarrow> d = d' \<and> s = s'"
proof
  assume eq: "makeInFlightKey d s = makeInFlightKey d' s'"
  then have "d = d'"
    using assms makeInFlightKey_domain [of d s] makeInFlightKey_domain [of d' s']
    by (simp add: valid_ref_def)
  with eq assms show "d = d' \<and> s = s'"
    by (auto simp: makeInFlightKey_def valid_ref_def split: option.splits)
qed simp

section \<open>The invariant\<close>

text \<open>A record belongs to its key and to the requests it holds.\<close>

definition owns_requests :: "scoped_refresh_state \<Rightarrow> bool" where
  "owns_requests st \<longleftrightarrow>
     (case sr_fetch st of
        FetchIdle \<Rightarrow> True
      | Fetching r _ \<Rightarrow> rq_domain r = sr_domain st \<and> rq_scope r = sr_scope st) \<and>
     (case sr_readiness st of
        ReadinessReady \<Rightarrow> True
      | ReadinessWaiting r \<Rightarrow>
          rd_domain r = sr_domain st \<and> Some (rd_scope r) = sr_scope st \<and> distinct (rd_intents r))"

definition record_ok :: "scoped_refresh_state \<Rightarrow> bool" where
  "record_ok st \<longleftrightarrow> valid_ref (sr_domain st) (sr_scope st) \<and> owns_requests st"

definition runtime_inv :: "cluster_runtime \<Rightarrow> bool" where
  "runtime_inv rt \<longleftrightarrow>
     distinct (map fst (cr_states rt)) \<and>
     (\<forall>(key, st) \<in> set (cr_states rt). key = state_key st \<and> record_ok st \<and> \<not> droppable st)"

definition runtime_lookup :: "cluster_runtime \<Rightarrow> string \<Rightarrow> scoped_refresh_state option" where
  "runtime_lookup rt key = map_of (cr_states rt) key"

definition kept_record :: "scoped_refresh_state \<Rightarrow> scoped_refresh_state option" where
  "kept_record st = (if droppable st then None else Some st)"

definition distinct_keys :: "cluster_runtime \<Rightarrow> bool" where
  "distinct_keys rt \<longleftrightarrow> distinct (map fst (cr_states rt))"

definition forget_key :: "cluster_runtime \<Rightarrow> string \<Rightarrow> cluster_runtime" where
  "forget_key rt key = rt\<lparr>cr_states := AList.delete key (cr_states rt)\<rparr>"

interpretation scopes: keyed_store_del runtime_lookup storeScopeState state_key kept_record
  distinct_keys forget_key
  by unfold_locales
    (auto simp: runtime_lookup_def storeScopeState_def state_key_def kept_record_def
      distinct_keys_def forget_key_def Let_def js_map_simps fun_eq_iff
      intro: distinct_update distinct_delete)

lemma runtime_inv_distinct [simp]: "runtime_inv rt \<Longrightarrow> distinct_keys rt"
  by (simp add: runtime_inv_def distinct_keys_def)

lemma new_runtime_inv [simp]: "runtime_inv (new_runtime c)"
  by (simp add: new_runtime_def runtime_inv_def)

lemma runtime_lookup_ok:
  assumes "runtime_inv rt" and "runtime_lookup rt key = Some st"
  shows "key = state_key st" "record_ok st" "\<not> droppable st"
  using assms by (auto simp: runtime_inv_def runtime_lookup_def dest!: map_of_SomeD)

lemma initial_scope_state_simps [simp]:
  "sr_domain (initial_scope_state d s) = d" "sr_scope (initial_scope_state d s) = s"
  "sr_reconciliation (initial_scope_state d s) = ReconClean"
  "sr_activation (initial_scope_state d s) = Untracked"
  "sr_polling (initial_scope_state d s) = PollIdle" "sr_fetch (initial_scope_state d s) = FetchIdle"
  "sr_readiness (initial_scope_state d s) = ReadinessReady"
  "sr_permission (initial_scope_state d s) = PermissionUnknown"
  "sr_stream (initial_scope_state d s) = inactiveStreamState"
  by (simp_all add: initial_scope_state_def)

lemma inactiveStreamState_simps [simp]:
  "ss_policy inactiveStreamState = StreamAllowed" "ss_initialization inactiveStreamState = InitIdle"
  "ss_connection inactiveStreamState = ConnInactive" "ss_health inactiveStreamState = HealthUnknown"
  "ss_retry inactiveStreamState = RetryIdle 0"
  by (simp_all add: inactiveStreamState_def)

lemma droppable_initial [simp]: "droppable (initial_scope_state d s)"
  by (simp add: droppable_def)

lemma record_ok_initial [simp]: "record_ok (initial_scope_state d s) \<longleftrightarrow> valid_ref d s"
  by (simp add: record_ok_def owns_requests_def)

section \<open>Reading and writing one record\<close>

lemma getScopeState_lookup:
  "getScopeState rt d s = (case runtime_lookup rt (makeInFlightKey d s) of
     Some st \<Rightarrow> st | None \<Rightarrow> initial_scope_state d s)"
  by (simp add: getScopeState_def runtime_lookup_def)

lemma getScopeState_ref:
  assumes "runtime_inv rt" and "valid_ref d s"
  shows "sr_domain (getScopeState rt d s) = d" "sr_scope (getScopeState rt d s) = s"
    "record_ok (getScopeState rt d s)"
proof -
  have "sr_domain (getScopeState rt d s) = d \<and> sr_scope (getScopeState rt d s) = s \<and>
      record_ok (getScopeState rt d s)"
  proof (cases "runtime_lookup rt (makeInFlightKey d s)")
    case None
    with assms(2) show ?thesis by (simp add: getScopeState_lookup)
  next
    case (Some st)
    with assms runtime_lookup_ok [OF assms(1) Some] show ?thesis
      by (simp add: getScopeState_lookup state_key_def record_ok_def makeInFlightKey_inj)
  qed
  then show "sr_domain (getScopeState rt d s) = d" "sr_scope (getScopeState rt d s) = s"
    "record_ok (getScopeState rt d s)" by simp_all
qed

text \<open>What a read returns after a record was stored: the record, unless storing it dropped it.\<close>

definition after_store :: "scoped_refresh_state \<Rightarrow> scoped_refresh_state" where
  "after_store st = (if droppable st then initial_scope_state (sr_domain st) (sr_scope st) else st)"

lemma getScopeState_store:
  assumes "runtime_inv rt" and "valid_ref d s" and "valid_ref (sr_domain st) (sr_scope st)"
  shows "getScopeState (storeScopeState rt st) d s =
    (if d = sr_domain st \<and> s = sr_scope st then after_store st else getScopeState rt d s)"
  using assms
  by (auto simp: getScopeState_lookup scopes.lookup_put state_key_def makeInFlightKey_inj
      kept_record_def after_store_def)

lemma storeScopeState_inv:
  assumes "runtime_inv rt" and "record_ok st"
  shows "runtime_inv (storeScopeState rt st)"
proof -
  have "distinct_keys (storeScopeState rt st)"
    using assms(1) by (simp add: scopes.inv_put)
  moreover have "key = state_key v \<and> record_ok v \<and> \<not> droppable v"
    if "runtime_lookup (storeScopeState rt st) key = Some v" for key v
    using that assms runtime_lookup_ok [OF assms(1), of key]
    by (auto simp: scopes.lookup_put kept_record_def split: if_splits)
  ultimately show ?thesis
    by (auto simp: runtime_inv_def distinct_keys_def runtime_lookup_def map_of_in_set)
qed

lemma storeScopeState_same:
  assumes "runtime_inv rt" and "valid_ref d s"
  shows "storeScopeState rt (getScopeState rt d s) = rt"
proof (cases "runtime_lookup rt (makeInFlightKey d s)")
  case None
  then have "AList.delete (makeInFlightKey d s) (cr_states rt) = cr_states rt"
    by (simp add: runtime_lookup_def map_of_eq_None_iff)
  with None show ?thesis
    by (simp add: getScopeState_lookup storeScopeState_def Let_def)
next
  case (Some st)
  have "AList.update (makeInFlightKey d s) st (cr_states rt) = cr_states rt"
    using Some by (simp add: runtime_lookup_def update_triv)
  with Some runtime_lookup_ok [OF assms(1) Some] show ?thesis
    by (simp add: getScopeState_lookup storeScopeState_def Let_def state_key_def)
qed

section \<open>Every writing operation modifies one record\<close>

definition modify ::
    "cluster_runtime \<Rightarrow> string \<Rightarrow> string option \<Rightarrow> (scoped_refresh_state \<Rightarrow> scoped_refresh_state) \<Rightarrow>
     cluster_runtime" where
  "modify rt d s f = storeScopeState rt (f (getScopeState rt d s))"

text \<open>The modifications an operation makes keep the record's identity and its requests' owner.\<close>

definition local_update :: "(scoped_refresh_state \<Rightarrow> scoped_refresh_state) \<Rightarrow> bool" where
  "local_update f \<longleftrightarrow>
     (\<forall>st. sr_domain (f st) = sr_domain st \<and> sr_scope (f st) = sr_scope st)"

lemma getScopeState_modify:
  assumes "runtime_inv rt" and "valid_ref d s" and "valid_ref d' s'" and "local_update f"
  shows "getScopeState (modify rt d s f) d' s' =
    (if d' = d \<and> s' = s then after_store (f (getScopeState rt d s)) else getScopeState rt d' s')"
  using assms getScopeState_ref [OF assms(1,2)]
  by (simp add: modify_def getScopeState_store local_update_def)

lemma modify_inv:
  assumes "runtime_inv rt" and "valid_ref d s" and "local_update f"
    and "record_ok (getScopeState rt d s) \<Longrightarrow> owns_requests (f (getScopeState rt d s))"
  shows "runtime_inv (modify rt d s f)"
proof -
  have "record_ok (f (getScopeState rt d s))"
    using assms getScopeState_ref [OF assms(1,2)] by (simp add: record_ok_def local_update_def)
  with assms(1) show ?thesis
    by (simp add: modify_def storeScopeState_inv)
qed

lemma modify_unchanged:
  assumes "runtime_inv rt" and "valid_ref d s" and "f (getScopeState rt d s) = getScopeState rt d s"
  shows "modify rt d s f = rt"
  using assms by (simp add: modify_def storeScopeState_same)

lemma store_if_changed:
  assumes "runtime_inv rt" and "valid_ref d s"
  shows "(if f (getScopeState rt d s) \<noteq> getScopeState rt d s
          then storeScopeState rt (f (getScopeState rt d s)) else rt) = modify rt d s f"
  using assms by (auto simp: modify_def storeScopeState_same)

lemma modify_auth [simp]: "cr_auth (modify rt d s f) = cr_auth rt"
  by (simp add: modify_def storeScopeState_def Let_def)

lemma modify_cluster [simp]: "cr_cluster (modify rt d s f) = cr_cluster rt"
  by (simp add: modify_def storeScopeState_def Let_def)

lemma local_update_fields [simp]:
  "local_update (\<lambda>st. st\<lparr>sr_reconciliation := fr st\<rparr>)"
  "local_update (\<lambda>st. st\<lparr>sr_activation := fa st\<rparr>)"
  "local_update (\<lambda>st. st\<lparr>sr_polling := fp st\<rparr>)"
  "local_update (\<lambda>st. st\<lparr>sr_fetch := ff st\<rparr>)"
  "local_update (\<lambda>st. st\<lparr>sr_readiness := fd st\<rparr>)"
  "local_update (\<lambda>st. st\<lparr>sr_permission := fm st\<rparr>)"
  "local_update (\<lambda>st. st\<lparr>sr_stream := fs st\<rparr>)"
  by (simp_all add: local_update_def)

lemma field_update_same [simp]:
  "st\<lparr>sr_reconciliation := r\<rparr> = st \<longleftrightarrow> r = sr_reconciliation st"
  "st\<lparr>sr_activation := a\<rparr> = st \<longleftrightarrow> a = sr_activation st"
  "st\<lparr>sr_polling := p\<rparr> = st \<longleftrightarrow> p = sr_polling st"
  "st\<lparr>sr_fetch := f\<rparr> = st \<longleftrightarrow> f = sr_fetch st"
  "st\<lparr>sr_readiness := d\<rparr> = st \<longleftrightarrow> d = sr_readiness st"
  "st\<lparr>sr_permission := m\<rparr> = st \<longleftrightarrow> m = sr_permission st"
  "st\<lparr>sr_stream := s\<rparr> = st \<longleftrightarrow> s = sr_stream st"
  by (cases st; auto)+

lemma applyActivationEvent_modify:
  assumes "runtime_inv rt" and "valid_ref d (Some s)"
  shows "applyActivationEvent rt d s e =
    (modify rt d (Some s)
       (\<lambda>st. st\<lparr>sr_activation := transitionScopedActivationState (sr_activation st) e\<rparr>),
     sr_activation (getScopeState rt d (Some s)),
     transitionScopedActivationState (sr_activation (getScopeState rt d (Some s))) e)"
  by (simp add: applyActivationEvent_def Let_def flip: store_if_changed [OF assms])

lemma applyFetchEvent_modify:
  assumes "runtime_inv rt" and "valid_ref d s"
  shows "applyFetchEvent rt d s e =
    (modify rt d s (\<lambda>st. st\<lparr>sr_fetch := transitionScopedFetchState (sr_fetch st) e\<rparr>),
     transitionScopedFetchState (sr_fetch (getScopeState rt d s)) e)"
  by (simp add: applyFetchEvent_def Let_def flip: store_if_changed [OF assms])

lemma applyStreamEvent_modify:
  assumes "runtime_inv rt" and "valid_ref d (Some s)"
  shows "applyStreamEvent rt d s e =
    (modify rt d (Some s) (\<lambda>st. st\<lparr>sr_stream := transitionScopedStreamState (sr_stream st) e\<rparr>),
     transitionScopedStreamState (sr_stream (getScopeState rt d (Some s))) e)"
  by (simp add: applyStreamEvent_def Let_def flip: store_if_changed [OF assms])

lemma applyPermissionEvent_modify:
  assumes "runtime_inv rt" and "valid_ref d (Some s)"
  shows "applyPermissionEvent rt d s e =
    modify rt d (Some s)
      (\<lambda>st. st\<lparr>sr_permission := transitionScopedPermissionState (sr_permission st) e\<rparr>)"
  by (simp add: applyPermissionEvent_def Let_def flip: store_if_changed [OF assms])

lemmas apply_events = applyActivationEvent_modify applyFetchEvent_modify applyStreamEvent_modify
  applyPermissionEvent_modify

lemma owns_requests_update [simp]:
  "owns_requests (st\<lparr>sr_reconciliation := r\<rparr>) = owns_requests st"
  "owns_requests (st\<lparr>sr_activation := a\<rparr>) = owns_requests st"
  "owns_requests (st\<lparr>sr_polling := p\<rparr>) = owns_requests st"
  "owns_requests (st\<lparr>sr_permission := m\<rparr>) = owns_requests st"
  "owns_requests (st\<lparr>sr_stream := s\<rparr>) = owns_requests st"
  by (simp_all add: owns_requests_def split: scoped_fetch_state.split scoped_readiness_state.split)

lemma record_ok_update [simp]:
  "record_ok (st\<lparr>sr_reconciliation := r\<rparr>) = record_ok st"
  "record_ok (st\<lparr>sr_activation := a\<rparr>) = record_ok st"
  "record_ok (st\<lparr>sr_polling := p\<rparr>) = record_ok st"
  "record_ok (st\<lparr>sr_permission := m\<rparr>) = record_ok st"
  "record_ok (st\<lparr>sr_stream := s\<rparr>) = record_ok st"
  by (simp_all add: record_ok_def)

lemma record_ok_owns [simp]: "record_ok st \<Longrightarrow> owns_requests st"
  by (simp add: record_ok_def)

lemma after_store_fields:
  "sr_reconciliation (after_store st) = sr_reconciliation st"
  "sr_activation (after_store st) = sr_activation st"
  "sr_polling (after_store st) = sr_polling st"
  "sr_fetch (after_store st) = sr_fetch st"
  "sr_readiness (after_store st) = sr_readiness st"
  "sr_permission (after_store st) = sr_permission st"
  "ss_policy (sr_stream (after_store st)) = ss_policy (sr_stream st)"
  "ss_initialization (sr_stream (after_store st)) = ss_initialization (sr_stream st)"
  "ss_connection (sr_stream (after_store st)) = ss_connection (sr_stream st)"
  "ss_health (sr_stream (after_store st)) = ss_health (sr_stream st)"
  by (auto simp: after_store_def droppable_def)

text \<open>Storing loses nothing but the retry count of a record that is droppable otherwise.\<close>

lemma after_store_same: "\<not> droppable st \<or> ss_retry (sr_stream st) = RetryIdle 0 \<Longrightarrow> after_store st = st"
  by (auto simp: after_store_def droppable_def initial_scope_state_def inactiveStreamState_def)

lemma modify_outside:
  assumes "runtime_inv rt" and "valid_ref d s" and "valid_ref d' s'" and "local_update f"
    and "(d', s') \<noteq> (d, s)"
  shows "getScopeState (modify rt d s f) d' s' = getScopeState rt d' s'"
  using assms by (auto simp: getScopeState_modify)

lemma modify_at:
  assumes "runtime_inv rt" and "valid_ref d s" and "local_update f"
  shows "getScopeState (modify rt d s f) d s = after_store (f (getScopeState rt d s))"
  using assms by (simp add: getScopeState_modify)

end
