(* ===== verification/Runtime_Leases.thy ===== *)
theory Runtime_Leases
  imports Runtime_Records
begin

text \<open>
  Leases: the runtime's per-scope counters implement a multiset of leases. A consumer acquires a
  lease on a domain and scope, of one of two demands; the first holder enables the scope, the last
  release reports itself, and a held scope cannot be disabled.
\<close>

section \<open>The abstract contract\<close>

text \<open>How many leases each domain, scope and demand has.\<close>

type_synonym lease_table = "string \<times> string \<Rightarrow> refresh_demand \<Rightarrow> nat"

definition lease_total :: "lease_table \<Rightarrow> string \<times> string \<Rightarrow> nat" where
  "lease_total L ds = L ds QueryDemand + L ds SnapshotDemand"

definition lease_add :: "lease_table \<Rightarrow> string \<times> string \<Rightarrow> refresh_demand \<Rightarrow> lease_table" where
  "lease_add L ds q = L(ds := (L ds)(q := L ds q + 1))"

definition lease_sub :: "lease_table \<Rightarrow> string \<times> string \<Rightarrow> refresh_demand \<Rightarrow> lease_table" where
  "lease_sub L ds q = L(ds := (L ds)(q := L ds q - 1))"

datatype lease_op = Acquire string string refresh_demand | Release string string refresh_demand

text \<open>One operation on the table, with the edge it reports: the first holder for an acquisition,
  the last holder for a release.\<close>

fun lease_spec :: "lease_table \<Rightarrow> lease_op \<Rightarrow> lease_table \<times> bool" where
  "lease_spec L (Acquire d s q) = (lease_add L (d, s) q, lease_total L (d, s) = 0)"
| "lease_spec L (Release d s q) =
     (lease_sub L (d, s) q, L (d, s) q > 0 \<and> lease_total L (d, s) = 1)"

fun lease_spec_run :: "lease_table \<Rightarrow> lease_op list \<Rightarrow> lease_table \<times> bool list" where
  "lease_spec_run L [] = (L, [])"
| "lease_spec_run L (op # ops) =
     (case lease_spec L op of (L', edge) \<Rightarrow>
        (case lease_spec_run L' ops of (L'', edges) \<Rightarrow> (L'', edge # edges)))"

section \<open>The runtime's leases\<close>

definition leases_of :: "cluster_runtime \<Rightarrow> lease_table" where
  "leases_of rt = (\<lambda>(d, s) q.
     if valid_ref d (Some s) then getScopedLeaseCount rt d s (Some q) else 0)"

fun lease_step :: "cluster_runtime \<Rightarrow> lease_op \<Rightarrow> cluster_runtime \<times> bool" where
  "lease_step rt (Acquire d s q) =
     (case acquireScopedLease rt d s q of (rt', r) \<Rightarrow> (rt', aq_first r))"
| "lease_step rt (Release d s q) =
     (case releaseScopedLease rt d s q of (rt', r) \<Rightarrow> (rt', rl_last r))"

fun lease_run :: "cluster_runtime \<Rightarrow> lease_op list \<Rightarrow> cluster_runtime \<times> bool list" where
  "lease_run rt [] = (rt, [])"
| "lease_run rt (op # ops) =
     (case lease_step rt op of (rt', edge) \<Rightarrow>
        (case lease_run rt' ops of (rt'', edges) \<Rightarrow> (rt'', edge # edges)))"

fun lease_op_valid :: "lease_op \<Rightarrow> bool" where
  "lease_op_valid (Acquire d s q) = valid_ref d (Some s)"
| "lease_op_valid (Release d s q) = valid_ref d (Some s)"

section \<open>Counting\<close>

lemma demand_count_set [simp]:
  "demand_count (set_demand c q n) q' = (if q' = q then n else demand_count c q')"
  by (cases q; cases q') simp_all

lemma totalDemand_counts: "totalDemand c = demand_count c QueryDemand + demand_count c SnapshotDemand"
  by (simp add: totalDemand_def)

lemma no_demand [simp]: "demand_count no_scoped_demand q = 0"
  by (cases q) (simp_all add: no_scoped_demand_def)

lemma lease_total_of:
  assumes "valid_ref d (Some s)"
  shows "lease_total (leases_of rt) (d, s) =
    totalDemand (demandsFor (sr_activation (getScopeState rt d (Some s))))"
  using assms by (simp add: lease_total_def leases_of_def getScopedLeaseCount_def totalDemand_counts Let_def)

lemma demands_acquire: "demandsFor (acquireScopeLease a q) =
    set_demand (demandsFor a) q (demand_count (demandsFor a) q + 1)"
  by (simp add: acquireScopeLease_def Let_def)

lemma demands_release: "demandsFor (releaseScopeLease a q) =
    (if demand_count (demandsFor a) q = 0 then demandsFor a
     else set_demand (demandsFor a) q (demand_count (demandsFor a) q - 1))"
  by (cases a) (simp_all add: releaseScopeLease_def)

text \<open>What an activation event does to the lease table.\<close>

lemma leases_after_event:
  assumes "runtime_inv rt" and "valid_ref d (Some s)"
  shows "leases_of (fst (applyActivationEvent rt d s e)) = (leases_of rt)((d, s) :=
    demand_count (demandsFor (transitionScopedActivationState
      (sr_activation (getScopeState rt d (Some s))) e)))"
  using assms
  by (auto simp: leases_of_def getScopedLeaseCount_def applyActivationEvent_modify
      getScopeState_modify after_store_fields Let_def fun_eq_iff)

lemma event_inv:
  assumes "runtime_inv rt" and "valid_ref d (Some s)"
  shows "runtime_inv (fst (applyActivationEvent rt d s e))"
  using assms by (simp add: applyActivationEvent_modify modify_inv)

lemma acquireScopedLease_inv:
  "runtime_inv rt \<Longrightarrow> valid_ref d (Some s) \<Longrightarrow> runtime_inv (fst (acquireScopedLease rt d s q))"
  using event_inv [of rt d s "LeaseAcquired q"]
  by (cases "applyActivationEvent rt d s (LeaseAcquired q)") (simp add: acquireScopedLease_def Let_def)

lemma releaseScopedLease_inv:
  "runtime_inv rt \<Longrightarrow> valid_ref d (Some s) \<Longrightarrow> runtime_inv (fst (releaseScopedLease rt d s q))"
  using event_inv [of rt d s "LeaseReleased q"]
  by (cases "applyActivationEvent rt d s (LeaseReleased q)") (simp add: releaseScopedLease_def Let_def)

lemma leases_at: "valid_ref d (Some s) \<Longrightarrow> leases_of rt (d, s) =
    demand_count (demandsFor (sr_activation (getScopeState rt d (Some s))))"
  by (auto simp: leases_of_def getScopedLeaseCount_def fun_eq_iff)

lemma acquire_refines:
  assumes "runtime_inv rt" and "valid_ref d (Some s)"
  shows "leases_of (fst (acquireScopedLease rt d s q)) = lease_add (leases_of rt) (d, s) q"
    and "aq_first (snd (acquireScopedLease rt d s q)) \<longleftrightarrow> lease_total (leases_of rt) (d, s) = 0"
    and "aq_count (snd (acquireScopedLease rt d s q)) = lease_total (leases_of rt) (d, s) + 1"
proof -
  let ?a = "sr_activation (getScopeState rt d (Some s))"
  have ev: "applyActivationEvent rt d s (LeaseAcquired q) =
      (fst (applyActivationEvent rt d s (LeaseAcquired q)), ?a, acquireScopeLease ?a q)"
    using assms by (simp add: applyActivationEvent_modify)
  have fst: "fst (acquireScopedLease rt d s q) = fst (applyActivationEvent rt d s (LeaseAcquired q))"
    by (subst acquireScopedLease_def, subst ev) (simp add: Let_def)
  then show "leases_of (fst (acquireScopedLease rt d s q)) = lease_add (leases_of rt) (d, s) q"
    using assms
    by (auto simp: leases_after_event lease_add_def demands_acquire leases_at fun_eq_iff)
  show "aq_first (snd (acquireScopedLease rt d s q)) \<longleftrightarrow> lease_total (leases_of rt) (d, s) = 0"
    using assms(2) by (subst acquireScopedLease_def, subst ev) (simp add: lease_total_of Let_def)
  show "aq_count (snd (acquireScopedLease rt d s q)) = lease_total (leases_of rt) (d, s) + 1"
    using assms(2) by (subst acquireScopedLease_def, subst ev, cases q)
      (simp_all add: lease_total_of Let_def demands_acquire totalDemand_counts)
qed

lemma release_refines:
  assumes "runtime_inv rt" and "valid_ref d (Some s)"
  shows "leases_of (fst (releaseScopedLease rt d s q)) = lease_sub (leases_of rt) (d, s) q"
    and "rl_last (snd (releaseScopedLease rt d s q)) \<longleftrightarrow>
      leases_of rt (d, s) q > 0 \<and> lease_total (leases_of rt) (d, s) = 1"
proof -
  let ?a = "sr_activation (getScopeState rt d (Some s))"
  have ev: "applyActivationEvent rt d s (LeaseReleased q) =
      (fst (applyActivationEvent rt d s (LeaseReleased q)), ?a, releaseScopeLease ?a q)"
    using assms by (simp add: applyActivationEvent_modify)
  have step: "releaseScopedLease rt d s q =
      (if demand_count (demandsFor ?a) q = 0
       then (rt, \<lparr>rl_count = 0, rl_last = False, rl_had = False, rl_reset = False\<rparr>)
       else if totalDemand (demandsFor ?a) = 1
       then (fst (applyActivationEvent rt d s (LeaseReleased q)),
             \<lparr>rl_count = 0, rl_last = True, rl_had = True, rl_reset = resetOnRelease ?a\<rparr>)
       else (fst (applyActivationEvent rt d s (LeaseReleased q)),
             \<lparr>rl_count = totalDemand (demandsFor ?a) - 1, rl_last = False, rl_had = True,
              rl_reset = False\<rparr>))"
    unfolding releaseScopedLease_def
    by (subst ev, cases q) (auto simp: Let_def demands_release totalDemand_counts)
  show "leases_of (fst (releaseScopedLease rt d s q)) = lease_sub (leases_of rt) (d, s) q"
    using assms unfolding step
    by (auto simp: leases_after_event lease_sub_def demands_release leases_at fun_eq_iff)
  show "rl_last (snd (releaseScopedLease rt d s q)) \<longleftrightarrow>
      leases_of rt (d, s) q > 0 \<and> lease_total (leases_of rt) (d, s) = 1"
    unfolding step using assms(2) by (simp add: leases_at lease_total_of)
qed

lemma lease_step_refines:
  assumes "runtime_inv rt" and "lease_op_valid op"
  shows "runtime_inv (fst (lease_step rt op)) \<and>
    lease_spec (leases_of rt) op = (leases_of (fst (lease_step rt op)), snd (lease_step rt op))"
proof (cases op)
  case (Acquire d s q)
  with assms acquire_refines [of rt d s q] acquireScopedLease_inv [of rt d s q] show ?thesis
    by (auto split: prod.splits)
next
  case (Release d s q)
  with assms release_refines [of rt d s q] releaseScopedLease_inv [of rt d s q] show ?thesis
    by (auto split: prod.splits)
qed

section \<open>Properties\<close>

text \<open>C28: the runtime's lease bookkeeping refines a table of lease counts. For every sequence of
  acquisitions and releases, over any scopes and demands, running it on the runtime leaves exactly
  the counts the table has, never drives a count below zero, and reports the same edges: an
  acquisition reports the first holder when no lease of either demand was held on the scope, and a
  release reports the last holder when it took the only one.\<close>

theorem leases_refine_table:
  assumes "runtime_inv rt" and "\<forall>op \<in> set ops. lease_op_valid op"
  shows "lease_spec_run (leases_of rt) ops =
      (leases_of (fst (lease_run rt ops)), snd (lease_run rt ops)) \<and>
    runtime_inv (fst (lease_run rt ops))"
  using assms
proof (induction ops arbitrary: rt)
  case (Cons op ops)
  obtain rt' edge where step: "lease_step rt op = (rt', edge)" by fastforce
  then have "runtime_inv rt'" and "lease_spec (leases_of rt) op = (leases_of rt', edge)"
    using lease_step_refines [OF Cons.prems(1), of op] Cons.prems(2) by simp_all
  with step Cons.IH [of rt'] Cons.prems show ?case by (cases "lease_run rt' ops") simp
qed simp

theorem leases_refine_table_witness:
  "lease_spec_run (leases_of (new_runtime ''c''))
       [Acquire ''pods'' ''c|namespace:web'' SnapshotDemand,
        Acquire ''pods'' ''c|namespace:web'' QueryDemand,
        Release ''pods'' ''c|namespace:web'' SnapshotDemand,
        Release ''pods'' ''c|namespace:web'' QueryDemand] =
     (leases_of (fst (lease_run (new_runtime ''c'')
       [Acquire ''pods'' ''c|namespace:web'' SnapshotDemand,
        Acquire ''pods'' ''c|namespace:web'' QueryDemand,
        Release ''pods'' ''c|namespace:web'' SnapshotDemand,
        Release ''pods'' ''c|namespace:web'' QueryDemand])), [True, False, False, True])"
proof -
  let ?ops = "[Acquire ''pods'' ''c|namespace:web'' SnapshotDemand,
        Acquire ''pods'' ''c|namespace:web'' QueryDemand,
        Release ''pods'' ''c|namespace:web'' SnapshotDemand,
        Release ''pods'' ''c|namespace:web'' QueryDemand]"
  have "snd (lease_spec_run (leases_of (new_runtime ''c'')) ?ops) = [True, False, False, True]"
    by (simp add: leases_of_def getScopedLeaseCount_def getScopeState_def new_runtime_def
        no_scoped_demand_def lease_total_def lease_add_def lease_sub_def valid_ref_def)
  moreover have "lease_spec_run (leases_of (new_runtime ''c'')) ?ops =
      (leases_of (fst (lease_run (new_runtime ''c'') ?ops)), snd (lease_run (new_runtime ''c'') ?ops))"
    using leases_refine_table [of "new_runtime ''c''" ?ops] by (simp add: valid_ref_def)
  ultimately show ?thesis by (metis snd_conv)
qed

end
