(* ===== verification/Runtime_Sweeps.thy ===== *)
theory Runtime_Sweeps
  imports Runtime_Leases
begin

text \<open>
  The runtime's sweeps over all its records: taking every poll timer, taking every deferred
  readiness request, starting a new permission epoch, applying one stream event everywhere, and
  forgetting a domain. Each is reduced to what a later read of one scope returns.
\<close>

section \<open>Records of the runtime\<close>

lemma state_values_ok:
  assumes "runtime_inv rt" and "st \<in> set (state_values rt)"
  shows "record_ok st" "\<not> droppable st" "valid_ref (sr_domain st) (sr_scope st)"
    "runtime_lookup rt (state_key st) = Some st" "getScopeState rt (sr_domain st) (sr_scope st) = st"
proof -
  obtain key where mem: "(key, st) \<in> set (cr_states rt)"
    using assms(2) by (auto simp: state_values_def)
  with assms(1) have key: "key = state_key st" "record_ok st" "\<not> droppable st"
    and dist: "distinct (map fst (cr_states rt))"
    by (auto simp: runtime_inv_def)
  then show "record_ok st" "\<not> droppable st" "valid_ref (sr_domain st) (sr_scope st)"
    by (simp_all add: record_ok_def)
  show look: "runtime_lookup rt (state_key st) = Some st"
    using mem key dist by (simp add: runtime_lookup_def map_of_in_set)
  show "getScopeState rt (sr_domain st) (sr_scope st) = st"
    using look by (simp add: getScopeState_lookup state_key_def)
qed

lemma state_values_keys:
  assumes "runtime_inv rt"
  shows "distinct (map state_key (state_values rt))"
proof -
  have "map state_key (state_values rt) = map fst (cr_states rt)"
    using assms by (auto simp: state_values_def runtime_inv_def)
  with assms show ?thesis by (simp add: runtime_inv_def)
qed

text \<open>A scope has a stored record or reads as the initial one.\<close>

lemma getScopeState_cases:
  assumes "runtime_inv rt" and "valid_ref d s"
  obtains (stored) st where "st \<in> set (state_values rt)" and "sr_domain st = d" and "sr_scope st = s"
      and "getScopeState rt d s = st"
    | (absent) "getScopeState rt d s = initial_scope_state d s"
      and "makeInFlightKey d s \<notin> state_key ` set (state_values rt)"
      and "runtime_lookup rt (makeInFlightKey d s) = None"
proof (cases "runtime_lookup rt (makeInFlightKey d s)")
  case None
  have "makeInFlightKey d s \<notin> state_key ` set (state_values rt)"
    using None state_values_ok(4) [OF assms(1)] by (metis imageE option.distinct(1))
  with None show ?thesis by (intro absent) (simp_all add: getScopeState_lookup)
next
  case (Some st)
  then have "st \<in> set (state_values rt)"
    by (force simp: runtime_lookup_def state_values_def dest: map_of_SomeD)
  moreover have "getScopeState rt d s = st" using Some by (simp add: getScopeState_lookup)
  ultimately show ?thesis
    using stored getScopeState_ref [OF assms] by blast
qed

section \<open>Collecting sweeps\<close>

lemma collect_sweep_inv:
  assumes "runtime_inv rt" and "\<And>st. st \<in> set vs \<Longrightarrow> h st \<noteq> None \<Longrightarrow> record_ok (f st)"
  shows "runtime_inv (fst (collect_sweep storeScopeState h f vs rt))"
proof -
  have "runtime_inv (fold (\<lambda>v s. storeScopeState s (f v)) ws rt)"
    if "runtime_inv rt" and "\<And>st. st \<in> set ws \<Longrightarrow> record_ok (f st)" for ws rt
    using that by (induction ws arbitrary: rt) (auto simp: storeScopeState_inv)
  from this [OF assms(1), of "filter (\<lambda>v. h v \<noteq> None) vs"] assms(2) show ?thesis
    by (simp add: collect_sweep_eq)
qed

lemma collect_sweep_read:
  assumes inv: "runtime_inv rt" and ref: "valid_ref d s" and loc: "local_update f"
    and init: "h (initial_scope_state d s) = None"
  shows "getScopeState (fst (collect_sweep storeScopeState h f (state_values rt) rt)) d s =
    (let st = getScopeState rt d s in if h st = None then st else after_store (f st))"
proof -
  let ?rt = "fst (collect_sweep storeScopeState h f (state_values rt) rt)"
  have key: "state_key (f st) = state_key st" for st
    using loc by (simp add: state_key_def local_update_def)
  from inv ref show ?thesis
  proof (cases rule: getScopeState_cases)
    case (stored st)
    have "runtime_lookup ?rt (state_key st) = (if h st = None then Some st else kept_record (f st))"
      using inv stored(1) key
      by (intro scopes.lookup_collect_sweep) (simp_all add: state_values_ok state_values_keys)
    with stored loc show ?thesis
      by (auto simp: getScopeState_lookup state_key_def kept_record_def after_store_def
          local_update_def)
  next
    case absent
    have "runtime_lookup ?rt (makeInFlightKey d s) = runtime_lookup rt (makeInFlightKey d s)"
      using inv absent(2) key by (intro scopes.lookup_collect_sweep_other) simp_all
    with absent init show ?thesis by (simp add: getScopeState_lookup)
  qed
qed

lemma takeAllPollTimers_sweep:
  "takeAllPollTimers rt =
     collect_sweep storeScopeState poll_timer_of (\<lambda>st. st\<lparr>sr_polling := PollIdle\<rparr>) (state_values rt) rt"
proof -
  have "(\<lambda>st (rt', timers). case poll_timer_of st of
            Some t \<Rightarrow> (storeScopeState rt' (st\<lparr>sr_polling := PollIdle\<rparr>), timers @ [t])
          | None \<Rightarrow> (rt', timers)) =
        (\<lambda>v (s, out). case poll_timer_of v of
            None \<Rightarrow> (s, out) | Some x \<Rightarrow> (storeScopeState s (v\<lparr>sr_polling := PollIdle\<rparr>), out @ [x]))"
    by (auto simp: fun_eq_iff split: option.split)
  then show ?thesis by (simp only: takeAllPollTimers_def collect_sweep_def)
qed

definition waiting_request :: "scoped_refresh_state \<Rightarrow> readiness_request option" where
  "waiting_request st =
     (case sr_readiness st of ReadinessWaiting request \<Rightarrow> Some request | ReadinessReady \<Rightarrow> None)"

lemma takeDeferredReadinessRequests_sweep:
  "takeDeferredReadinessRequests rt =
     collect_sweep storeScopeState waiting_request (\<lambda>st. st\<lparr>sr_readiness := ReadinessReady\<rparr>)
       (state_values rt) rt"
proof -
  have "(\<lambda>st (rt', requests). case sr_readiness st of
           ReadinessReady \<Rightarrow> (rt', requests)
         | ReadinessWaiting request \<Rightarrow>
             (storeScopeState rt'
                (st\<lparr>sr_readiness := transitionScopedReadinessState (sr_readiness st) ClusterReady\<rparr>),
              requests @ [request])) =
       (\<lambda>v (s, out). case waiting_request v of
            None \<Rightarrow> (s, out)
          | Some x \<Rightarrow> (storeScopeState s (v\<lparr>sr_readiness := ReadinessReady\<rparr>), out @ [x]))"
    by (auto simp: fun_eq_iff waiting_request_def split: scoped_readiness_state.split)
  then show ?thesis by (simp only: takeDeferredReadinessRequests_def collect_sweep_def)
qed

definition permission_recorded :: "scoped_refresh_state \<Rightarrow> (string \<times> string) option" where
  "permission_recorded st =
     (if sr_permission st = PermissionUnknown then None else map_option (Pair (sr_domain st)) (sr_scope st))"

lemma resetPermissionEpoch_sweep:
  "resetPermissionEpoch rt =
     collect_sweep storeScopeState permission_recorded (\<lambda>st. st\<lparr>sr_permission := PermissionUnknown\<rparr>)
       (state_values rt) rt"
proof -
  have "(\<lambda>st (rt', reset). case sr_scope st of
           None \<Rightarrow> (rt', reset)
         | Some scope \<Rightarrow>
             if sr_permission st = PermissionUnknown then (rt', reset)
             else (storeScopeState rt'
                     (st\<lparr>sr_permission :=
                          transitionScopedPermissionState (sr_permission st) ResetPermissionEpoch\<rparr>),
                   reset @ [(sr_domain st, scope)])) =
       (\<lambda>v (s, out). case permission_recorded v of
            None \<Rightarrow> (s, out)
          | Some x \<Rightarrow> (storeScopeState s (v\<lparr>sr_permission := PermissionUnknown\<rparr>), out @ [x]))"
    by (auto simp: fun_eq_iff permission_recorded_def split: option.split)
  then show ?thesis by (simp only: resetPermissionEpoch_def collect_sweep_def)
qed

lemmas sweeps = takeAllPollTimers_sweep takeDeferredReadinessRequests_sweep resetPermissionEpoch_sweep

section \<open>Stream sweeps\<close>

definition stream_update :: "scoped_stream_event \<Rightarrow> scoped_refresh_state \<Rightarrow> scoped_refresh_state" where
  "stream_update e st = st\<lparr>sr_stream := transitionScopedStreamState (sr_stream st) e\<rparr>"

lemma stream_update_local [simp]: "local_update (stream_update e)"
  by (simp add: local_update_def stream_update_def)

lemma stream_update_inv:
  assumes "runtime_inv rt" and "valid_ref d s"
  shows "runtime_inv (modify rt d s (stream_update e))"
  using assms by (intro modify_inv) (simp_all add: stream_update_def)

lemma modify_sweep:
  fixes f :: "scoped_refresh_state \<Rightarrow> scoped_refresh_state"
  assumes "runtime_inv rt" and "local_update f" and "distinct refs"
    and "\<And>rt d s. runtime_inv rt \<Longrightarrow> valid_ref d s \<Longrightarrow> runtime_inv (modify rt d s f)"
    and "\<And>d s. (d, s) \<in> set refs \<Longrightarrow> valid_ref d s" and "valid_ref d s"
  shows "runtime_inv (fold (\<lambda>(d, s) rt. modify rt d s f) refs rt) \<and>
    getScopeState (fold (\<lambda>(d, s) rt. modify rt d s f) refs rt) d s =
      (if (d, s) \<in> set refs then after_store (f (getScopeState rt d s)) else getScopeState rt d s)"
  using assms(1,3,5)
proof (induction refs arbitrary: rt)
  case (Cons r refs)
  obtain d' s' where r: "r = (d', s')" by fastforce
  with Cons.prems have "valid_ref d' s'" and "runtime_inv (modify rt d' s' f)"
    using assms(4) by auto
  with Cons r assms(2,6) show ?case by (auto simp: getScopeState_modify)
qed simp

definition stream_refs :: "cluster_runtime \<Rightarrow> (string \<times> string option) list" where
  "stream_refs rt =
     map (\<lambda>st. (sr_domain st, sr_scope st)) (filter (\<lambda>st. sr_scope st \<noteq> None) (state_values rt))"

lemma stream_refs_distinct:
  assumes "runtime_inv rt"
  shows "distinct (stream_refs rt)"
proof -
  have "distinct (map state_key (filter (\<lambda>st. sr_scope st \<noteq> None) (state_values rt)))"
    using state_values_keys [OF assms] by (simp add: distinct_map inj_on_def)
  then show ?thesis
    unfolding stream_refs_def state_key_def by (auto simp: distinct_map inj_on_def)
qed

lemma forEachStreamState_modify:
  assumes "runtime_inv rt"
  shows "forEachStreamState rt e = fold (\<lambda>(d, s) rt. modify rt d s (stream_update e)) (stream_refs rt) rt"
proof -
  let ?body = "\<lambda>st rt'. case sr_scope st of
         None \<Rightarrow> rt'
       | Some scope \<Rightarrow> fst (applyStreamEvent rt' (sr_domain st) scope e)"
  have run: "fold ?body vs rt0 = fold (\<lambda>(d, s) rt. modify rt d s (stream_update e))
      (map (\<lambda>st. (sr_domain st, sr_scope st)) (filter (\<lambda>st. sr_scope st \<noteq> None) vs)) rt0"
    if "runtime_inv rt0" and "\<And>st. st \<in> set vs \<Longrightarrow> valid_ref (sr_domain st) (sr_scope st)" for vs rt0
    using that
  proof (induction vs arbitrary: rt0)
    case (Cons st vs)
    show ?case
    proof (cases "sr_scope st")
      case (Some scope)
      then have "valid_ref (sr_domain st) (Some scope)" using Cons.prems(2) [of st] by simp
      then have step: "fst (applyStreamEvent rt0 (sr_domain st) scope e) =
          modify rt0 (sr_domain st) (Some scope) (stream_update e)"
        and inv: "runtime_inv (modify rt0 (sr_domain st) (Some scope) (stream_update e))"
        using Cons.prems(1) by (simp_all add: applyStreamEvent_modify stream_update_def [abs_def]
            stream_update_inv [unfolded stream_update_def [abs_def]])
      from Cons.IH [OF inv] Cons.prems(2) Some step show ?thesis by simp
    qed (use Cons in simp)
  qed simp
  show ?thesis
    unfolding forEachStreamState_def stream_refs_def
    by (rule run [OF assms state_values_ok(3) [OF assms]])
qed

lemma forEachStreamState_inv:
  assumes "runtime_inv rt"
  shows "runtime_inv (forEachStreamState rt e)"
proof -
  have "\<And>d s. (d, s) \<in> set (stream_refs rt) \<Longrightarrow> valid_ref d s"
    using assms by (auto simp: stream_refs_def dest: state_values_ok(3))
  then show ?thesis
    using modify_sweep [of rt "stream_update e" "stream_refs rt" "[]" None] assms
    by (simp add: forEachStreamState_modify stream_refs_distinct stream_update_inv valid_ref_def)
qed

text \<open>Events that do not change a stream at rest reach exactly the scopes that have a record.\<close>

lemma forEachStreamState_read:
  assumes "runtime_inv rt" and "valid_ref d (Some s)"
    and "transitionScopedStreamState inactiveStreamState e = inactiveStreamState"
  shows "getScopeState (forEachStreamState rt e) d (Some s) =
    after_store (stream_update e (getScopeState rt d (Some s)))"
proof -
  have refs: "\<And>d s. (d, s) \<in> set (stream_refs rt) \<Longrightarrow> valid_ref d s"
    using assms(1) by (auto simp: stream_refs_def dest: state_values_ok(3))
  have read: "getScopeState (forEachStreamState rt e) d (Some s) =
      (if (d, Some s) \<in> set (stream_refs rt) then after_store (stream_update e (getScopeState rt d (Some s)))
       else getScopeState rt d (Some s))"
    using modify_sweep [of rt "stream_update e" "stream_refs rt" d "Some s"] assms(1,2) refs
    by (simp add: forEachStreamState_modify stream_refs_distinct stream_update_inv)
  from assms(1,2) show ?thesis
  proof (cases rule: getScopeState_cases)
    case (stored st)
    then have "(d, Some s) \<in> set (stream_refs rt)" by (force simp: stream_refs_def)
    with read show ?thesis by simp
  next
    case absent
    have "stream_update e (initial_scope_state d (Some s)) = initial_scope_state d (Some s)"
      using assms(3) by (simp add: stream_update_def)
    with absent read show ?thesis by (simp add: after_store_def)
  qed
qed

section \<open>Forgetting a domain\<close>

lemma deleteDomain_sweep:
  "deleteDomain rt domain = fold (\<lambda>key rt. forget_key rt key)
     (map fst (filter (\<lambda>(key, st). sr_domain st = domain) (cr_states rt))) rt"
proof -
  have "rt\<lparr>cr_states := fold (\<lambda>(key, st) m. if sr_domain st = domain then AList.delete key m else m)
            kvs (cr_states rt)\<rparr> =
        fold (\<lambda>key rt. forget_key rt key)
          (map fst (filter (\<lambda>(key, st). sr_domain st = domain) kvs)) rt" for kvs rt
  proof (induction kvs arbitrary: rt)
    case (Cons kv kvs)
    from Cons [of "forget_key rt (fst kv)"] Cons [of rt] show ?case
      by (simp add: forget_key_def split_beta)
  qed simp
  then show ?thesis by (simp add: deleteDomain_def)
qed

lemma deleteDomain_lookup:
  assumes "runtime_inv rt"
  shows "runtime_lookup (deleteDomain rt domain) key =
    (case runtime_lookup rt key of
       Some st \<Rightarrow> if sr_domain st = domain then None else Some st | None \<Rightarrow> None)"
proof -
  have "key \<in> set (map fst (filter (\<lambda>(key, st). sr_domain st = domain) (cr_states rt))) \<longleftrightarrow>
      (\<exists>st. runtime_lookup rt key = Some st \<and> sr_domain st = domain)"
  proof -
    have "distinct (map fst (cr_states rt))" using assms by (simp add: runtime_inv_def)
    then have "runtime_lookup rt key = Some st \<longleftrightarrow> (key, st) \<in> set (cr_states rt)" for st
      by (simp add: runtime_lookup_def map_of_in_set)
    then show ?thesis by (auto simp: image_iff)
  qed
  moreover have "runtime_lookup (deleteDomain rt domain) key =
      (if key \<in> set (map fst (filter (\<lambda>(key, st). sr_domain st = domain) (cr_states rt)))
       then None else runtime_lookup rt key)"
    unfolding deleteDomain_sweep using assms by (subst scopes.lookup_del_sweep) simp_all
  ultimately show ?thesis by (auto split: option.split)
qed

lemma deleteDomain_inv:
  assumes "runtime_inv rt"
  shows "runtime_inv (deleteDomain rt domain)"
proof -
  have "distinct_keys (deleteDomain rt domain)"
    unfolding deleteDomain_sweep using assms by (intro scopes.inv_del_sweep) simp
  moreover have "key = state_key st \<and> record_ok st \<and> \<not> droppable st"
    if "runtime_lookup (deleteDomain rt domain) key = Some st" for key st
    using that runtime_lookup_ok [OF assms, of key]
    by (auto simp: deleteDomain_lookup assms split: option.splits if_splits)
  ultimately show ?thesis
    by (auto simp: runtime_inv_def distinct_keys_def runtime_lookup_def map_of_in_set)
qed

lemma deleteDomain_read:
  assumes "runtime_inv rt" and "valid_ref d s"
  shows "getScopeState (deleteDomain rt domain) d s =
    (if d = domain then initial_scope_state d s else getScopeState rt d s)"
  using getScopeState_ref(1) [OF assms] assms(1)
  by (auto simp: getScopeState_lookup deleteDomain_lookup split: option.splits)

end
