(* ===== verification/Runtime_Steps.thy ===== *)
theory Runtime_Steps
  imports Runtime_Sweeps
begin

text \<open>
  The runtime as a state machine: one step is one call of a writing method of
  \<open>ClusterRefreshRuntime\<close>, in any order and with any arguments, and the invariant of the record
  store holds in every reachable state.
\<close>

section \<open>Every operation keeps the invariant\<close>

lemma applyActivationEvent_inv:
  "runtime_inv rt \<Longrightarrow> valid_ref d (Some s) \<Longrightarrow> runtime_inv (fst (applyActivationEvent rt d s e))"
  by (rule event_inv)

lemma disableScopedDomain_inv:
  "runtime_inv rt \<Longrightarrow> valid_ref d (Some s) \<Longrightarrow> runtime_inv (fst (disableScopedDomain rt d s))"
  using event_inv [of rt d s DisableRequested]
  by (cases "applyActivationEvent rt d s DisableRequested") (simp add: disableScopedDomain_def Let_def)

lemma deferResetUntilReleased_inv:
  "runtime_inv rt \<Longrightarrow> valid_ref d (Some s) \<Longrightarrow> runtime_inv (fst (deferResetUntilReleased rt d s))"
  by (simp add: deferResetUntilReleased_def event_inv)

lemma setPollTimer_modify:
  "setPollTimer rt d s t = modify rt d (Some s) (\<lambda>st. st\<lparr>sr_polling := PollScheduled t\<rparr>)"
  by (simp add: setPollTimer_def modify_def)

lemma takePollTimer_modify:
  assumes "runtime_inv rt" and "valid_ref d (Some s)"
  shows "fst (takePollTimer rt d s) = modify rt d (Some s) (\<lambda>st. st\<lparr>sr_polling := PollIdle\<rparr>)"
  using modify_unchanged [OF assms, of "\<lambda>st. st\<lparr>sr_polling := PollIdle\<rparr>"]
  by (simp add: takePollTimer_def Let_def modify_def split: polling.split)

lemma deferUntilClusterReady_modify:
  "deferUntilClusterReady rt r = modify rt (rd_domain r) (Some (rd_scope r))
     (\<lambda>st. st\<lparr>sr_readiness := transitionScopedReadinessState (sr_readiness st) (RequestDeferred r)\<rparr>)"
  by (simp add: deferUntilClusterReady_def modify_def Let_def)

lemma deferUntilClusterReady_inv:
  assumes "runtime_inv rt" and "valid_ref (rd_domain r) (Some (rd_scope r))" and "distinct (rd_intents r)"
  shows "runtime_inv (deferUntilClusterReady rt r)"
  unfolding deferUntilClusterReady_modify
proof (rule modify_inv)
  let ?st = "getScopeState rt (rd_domain r) (Some (rd_scope r))"
  show "owns_requests (?st\<lparr>sr_readiness :=
      transitionScopedReadinessState (sr_readiness ?st) (RequestDeferred r)\<rparr>)" if "record_ok ?st"
    using record_ok_owns [OF that] getScopeState_ref [OF assms(1,2)] assms(3)
    by (cases "sr_readiness ?st")
      (simp_all add: owns_requests_def split: scoped_fetch_state.splits)
qed (use assms in simp_all)

lemma markReconciliationFailed_inv:
  "runtime_inv rt \<Longrightarrow> valid_ref d (Some s) \<Longrightarrow> runtime_inv (markReconciliationFailed rt d s now)"
  by (simp add: markReconciliationFailed_def Let_def storeScopeState_inv getScopeState_ref)

lemma markReconciliationPending_inv:
  "runtime_inv rt \<Longrightarrow> valid_ref d (Some s) \<Longrightarrow> runtime_inv (markReconciliationPending rt d s now)"
  by (simp add: markReconciliationPending_def Let_def storeScopeState_inv getScopeState_ref
      split: reconciliation.split)

lemma markReconciled_inv:
  "runtime_inv rt \<Longrightarrow> valid_ref d (Some s) \<Longrightarrow> runtime_inv (markReconciled rt d s)"
  by (simp add: markReconciled_def storeScopeState_inv getScopeState_ref)

lemma applyPermissionEvent_inv:
  "runtime_inv rt \<Longrightarrow> valid_ref d (Some s) \<Longrightarrow> runtime_inv (applyPermissionEvent rt d s e)"
  by (simp add: applyPermissionEvent_modify modify_inv)

lemma auth_inv: "runtime_inv rt \<Longrightarrow> runtime_inv (fst (applyAuthEvent rt e))"
  by (simp add: applyAuthEvent_def runtime_inv_def Let_def)

lemma applyFetchEvent_inv:
  assumes "runtime_inv rt" and "valid_ref d s"
    and "\<And>r. e = FetchStarted r \<Longrightarrow> rq_domain r = d \<and> rq_scope r = s"
  shows "runtime_inv (fst (applyFetchEvent rt d s e))"
proof -
  let ?st = "getScopeState rt d s"
  have "owns_requests (?st\<lparr>sr_fetch := transitionScopedFetchState (sr_fetch ?st) e\<rparr>)"
    if "record_ok ?st"
    using record_ok_owns [OF that] getScopeState_ref [OF assms(1,2)] assms(3)
    by (cases e; cases "sr_fetch ?st")
      (simp_all add: owns_requests_def split: scoped_readiness_state.splits)
  with assms show ?thesis
    by (simp add: applyFetchEvent_modify modify_inv)
qed

lemma setInFlight_inv:
  "runtime_inv rt \<Longrightarrow> valid_ref (rq_domain r) (rq_scope r) \<Longrightarrow> runtime_inv (fst (setInFlight rt r))"
  by (auto simp: setInFlight_def intro!: applyFetchEvent_inv)

lemma latchTrailingStreamSignal_inv:
  "runtime_inv rt \<Longrightarrow> valid_ref d s \<Longrightarrow> runtime_inv (latchTrailingStreamSignal rt d s)"
  by (auto simp: latchTrailingStreamSignal_def intro!: applyFetchEvent_inv)

lemma settleInFlight_inv:
  "runtime_inv rt \<Longrightarrow> valid_ref d s \<Longrightarrow> runtime_inv (fst (settleInFlight rt d s i))"
  using applyFetchEvent_inv [of rt d s "FetchSettled i"]
  by (cases "applyFetchEvent rt d s (FetchSettled i)") (simp add: settleInFlight_def Let_def)

lemma teardownInFlight_inv:
  assumes "runtime_inv rt"
  shows "runtime_inv (fst (teardownInFlight rt key i))"
proof (cases "map_of (cr_states rt) key")
  case (Some st)
  then have "valid_ref (sr_domain st) (sr_scope st)"
    using runtime_lookup_ok(2) [OF assms, of key st] by (simp add: runtime_lookup_def record_ok_def)
  then have "runtime_inv (fst (applyFetchEvent rt (sr_domain st) (sr_scope st) (FetchCancelled i)))"
    using assms by (intro applyFetchEvent_inv) simp_all
  with Some show ?thesis
    by (cases "applyFetchEvent rt (sr_domain st) (sr_scope st) (FetchCancelled i)")
      (simp add: teardownInFlight_def Let_def)
qed (use assms in \<open>simp add: teardownInFlight_def\<close>)

lemma applyStreamEvent_inv:
  "runtime_inv rt \<Longrightarrow> valid_ref d (Some s) \<Longrightarrow> runtime_inv (fst (applyStreamEvent rt d s e))"
  by (simp add: applyStreamEvent_modify modify_inv)

lemma blockStreaming_modify:
  assumes "runtime_inv rt" and "valid_ref d (Some s)" and "\<not> isStreamingBlocked rt d s"
  shows "fst (blockStreaming rt d s) = modify rt d (Some s) (stream_update BlockStream)"
  using assms by (simp add: blockStreaming_def isStreamingBlocked_def Let_def modify_def stream_update_def)

lemma blockStreaming_inv:
  "runtime_inv rt \<Longrightarrow> valid_ref d (Some s) \<Longrightarrow> runtime_inv (fst (blockStreaming rt d s))"
  using blockStreaming_modify [of rt d s] stream_update_inv [of rt d "Some s"]
  by (cases "isStreamingBlocked rt d s") (simp_all add: blockStreaming_def isStreamingBlocked_def)

lemma cancelStreamingStart_inv:
  "runtime_inv rt \<Longrightarrow> valid_ref d (Some s) \<Longrightarrow> runtime_inv (fst (cancelStreamingStart rt d s))"
  by (simp add: cancelStreamingStart_def clearStreamingReady_def Let_def applyStreamEvent_inv)

lemma finishStreamingStart_inv:
  "runtime_inv rt \<Longrightarrow> valid_ref d (Some s) \<Longrightarrow> runtime_inv (fst (finishStreamingStart rt d s t))"
  using applyStreamEvent_inv [of rt d s "FinishStart t"]
  by (cases "applyStreamEvent rt d s (FinishStart t)") (simp add: finishStreamingStart_def Let_def)

lemma resetAllStreamStartRetries_fst:
  "fst (resetAllStreamStartRetries rt) = forEachStreamState rt ResetStartRetry"
proof -
  let ?body = "\<lambda>st (rt', timers :: timer list). case sr_scope st of
           None \<Rightarrow> (rt', timers)
         | Some scope \<Rightarrow>
             (case resetStreamStartRetry rt' (sr_domain st) scope of
                (rt'', timer) \<Rightarrow> (rt'', case timer of None \<Rightarrow> timers | Some t \<Rightarrow> timers @ [t]))"
  have "fst (fold ?body vs (rt0, ts)) = fold (\<lambda>st rt'. case sr_scope st of
           None \<Rightarrow> rt' | Some scope \<Rightarrow> fst (applyStreamEvent rt' (sr_domain st) scope ResetStartRetry)) vs rt0"
    for vs rt0 ts
    by (induction vs arbitrary: rt0 ts)
      (auto simp: resetStreamStartRetry_def Let_def split: option.split)
  then show ?thesis by (simp add: resetAllStreamStartRetries_def forEachStreamState_def)
qed

lemma sweep_inv:
  assumes "runtime_inv rt"
  shows "runtime_inv (fst (takeAllPollTimers rt))" "runtime_inv (fst (resetPermissionEpoch rt))"
    "runtime_inv (fst (takeDeferredReadinessRequests rt))"
proof -
  have "record_ok (st\<lparr>sr_readiness := ReadinessReady\<rparr>)" if "record_ok st" for st
    using that by (simp add: record_ok_def owns_requests_def split: scoped_fetch_state.splits)
  then show "runtime_inv (fst (takeDeferredReadinessRequests rt))"
    unfolding sweeps using assms by (intro collect_sweep_inv) (simp_all add: state_values_ok)
  show "runtime_inv (fst (takeAllPollTimers rt))" "runtime_inv (fst (resetPermissionEpoch rt))"
    unfolding sweeps using assms by (auto intro!: collect_sweep_inv simp: state_values_ok)
qed

section \<open>The step relation\<close>

inductive runtime_step :: "cluster_runtime \<Rightarrow> cluster_runtime \<Rightarrow> bool" where
  step_disable: "valid_ref d (Some s) \<Longrightarrow> runtime_step rt (fst (disableScopedDomain rt d s))"
| step_acquire: "valid_ref d (Some s) \<Longrightarrow> runtime_step rt (fst (acquireScopedLease rt d s q))"
| step_release: "valid_ref d (Some s) \<Longrightarrow> runtime_step rt (fst (releaseScopedLease rt d s q))"
| step_defer_reset: "valid_ref d (Some s) \<Longrightarrow> runtime_step rt (fst (deferResetUntilReleased rt d s))"
| step_delete_domain: "runtime_step rt (deleteDomain rt d)"
| step_set_poll: "valid_ref d (Some s) \<Longrightarrow> runtime_step rt (setPollTimer rt d s t)"
| step_take_poll: "valid_ref d (Some s) \<Longrightarrow> runtime_step rt (fst (takePollTimer rt d s))"
| step_take_polls: "runtime_step rt (fst (takeAllPollTimers rt))"
| step_defer_ready: "valid_ref (rd_domain r) (Some (rd_scope r)) \<Longrightarrow> distinct (rd_intents r) \<Longrightarrow>
    runtime_step rt (deferUntilClusterReady rt r)"
| step_take_ready: "runtime_step rt (fst (takeDeferredReadinessRequests rt))"
| step_recon_failed: "valid_ref d (Some s) \<Longrightarrow> runtime_step rt (markReconciliationFailed rt d s now)"
| step_recon_pending: "valid_ref d (Some s) \<Longrightarrow> runtime_step rt (markReconciliationPending rt d s now)"
| step_reconciled: "valid_ref d (Some s) \<Longrightarrow> runtime_step rt (markReconciled rt d s)"
| step_denied: "valid_ref d (Some s) \<Longrightarrow> runtime_step rt (markPermissionDenied rt d s)"
| step_allowed: "valid_ref d (Some s) \<Longrightarrow> runtime_step rt (markPermissionAllowed rt d s)"
| step_epoch: "runtime_step rt (fst (resetPermissionEpoch rt))"
| step_auth_failed: "runtime_step rt (fst (markAuthFailed rt))"
| step_auth_recovered: "runtime_step rt (fst (markAuthRecovered rt))"
| step_set_in_flight: "valid_ref (rq_domain r) (rq_scope r) \<Longrightarrow> runtime_step rt (fst (setInFlight rt r))"
| step_latch: "valid_ref d os \<Longrightarrow> runtime_step rt (latchTrailingStreamSignal rt d os)"
| step_settle: "valid_ref d os \<Longrightarrow> runtime_step rt (fst (settleInFlight rt d os i))"
| step_teardown: "runtime_step rt (fst (teardownInFlight rt key i))"
| step_block: "valid_ref d (Some s) \<Longrightarrow> runtime_step rt (fst (blockStreaming rt d s))"
| step_cancel_start: "valid_ref d (Some s) \<Longrightarrow> runtime_step rt (fst (cancelStreamingStart rt d s))"
| step_finish_start: "valid_ref d (Some s) \<Longrightarrow> runtime_step rt (fst (finishStreamingStart rt d s t))"
| step_ready: "valid_ref d (Some s) \<Longrightarrow> runtime_step rt (setStreamingReady rt d s t)"
| step_clear_ready: "valid_ref d (Some s) \<Longrightarrow> runtime_step rt (clearStreamingReady rt d s ot)"
| step_begin_start: "valid_ref d (Some s) \<Longrightarrow> runtime_step rt (beginStreamingStart rt d s t)"
| step_fail_start: "valid_ref d (Some s) \<Longrightarrow> runtime_step rt (failStreamingStart rt d s t)"
| step_clear_cancelled: "valid_ref d (Some s) \<Longrightarrow> runtime_step rt (clearStreamingCancelled rt d s)"
| step_stopped: "valid_ref d (Some s) \<Longrightarrow> runtime_step rt (markStreamingStopped rt d s)"
| step_health: "valid_ref d (Some s) \<Longrightarrow> runtime_step rt (fst (setStreamHealth rt d s p))"
| step_clear_health: "valid_ref d (Some s) \<Longrightarrow> runtime_step rt (clearStreamHealth rt d s)"
| step_set_retry: "valid_ref d (Some s) \<Longrightarrow> runtime_step rt (setStreamStartRetry rt d s t)"
| step_take_retry: "valid_ref d (Some s) \<Longrightarrow> runtime_step rt (fst (takeStreamStartRetry rt d s))"
| step_reset_retry: "valid_ref d (Some s) \<Longrightarrow> runtime_step rt (fst (resetStreamStartRetry rt d s))"
| step_reset_retries: "runtime_step rt (fst (resetAllStreamStartRetries rt))"
| step_unblock: "runtime_step rt (clearBlockedStreaming rt)"
| step_clear_all_health: "runtime_step rt (clearAllStreamHealth rt)"
| step_clear_async: "runtime_step rt (clearAsyncStreamingBookkeeping rt)"
| step_clear_streaming: "runtime_step rt (clearAllStreaming rt b)"
| step_reset_transient: "runtime_step rt (resetTransientState rt)"
| step_reset_all: "runtime_step rt (resetAllState rt)"

inductive runtime_reachable :: "string \<Rightarrow> cluster_runtime \<Rightarrow> bool" for cluster where
  reach_new: "runtime_reachable cluster (new_runtime cluster)"
| reach_step: "runtime_reachable cluster rt \<Longrightarrow> runtime_step rt rt' \<Longrightarrow> runtime_reachable cluster rt'"

lemma runtime_step_inv:
  assumes "runtime_step rt rt'" and "runtime_inv rt"
  shows "runtime_inv rt'"
  using assms
proof cases
  case (step_take_poll d s)
  with assms(2) show ?thesis by (simp add: takePollTimer_modify modify_inv)
next
  case (step_reset_all)
  with assms(2) show ?thesis by (simp add: resetAllState_def runtime_inv_def)
qed (simp_all add: disableScopedDomain_inv acquireScopedLease_inv releaseScopedLease_inv
    deferResetUntilReleased_inv deleteDomain_inv setPollTimer_modify modify_inv sweep_inv
    deferUntilClusterReady_inv markReconciliationFailed_inv markReconciliationPending_inv
    markReconciled_inv markPermissionDenied_def markPermissionAllowed_def applyPermissionEvent_inv
    markAuthFailed_def markAuthRecovered_def auth_inv setInFlight_inv latchTrailingStreamSignal_inv
    settleInFlight_inv teardownInFlight_inv blockStreaming_inv
    cancelStreamingStart_inv finishStreamingStart_inv setStreamingReady_def clearStreamingReady_def
    beginStreamingStart_def failStreamingStart_def clearStreamingCancelled_def
    markStreamingStopped_def setStreamHealth_def clearStreamHealth_def setStreamStartRetry_def
    takeStreamStartRetry_def resetStreamStartRetry_def applyStreamEvent_inv Let_def
    resetAllStreamStartRetries_fst clearBlockedStreaming_def clearAllStreamHealth_def
    clearAsyncStreamingBookkeeping_def clearAllStreaming_def resetTransientState_def
    forEachStreamState_inv)

section \<open>Properties\<close>

text \<open>C29: whatever sequence of method calls a cluster's runtime has gone through, its record store is
  well formed: keys are distinct and each is the key of its record, no record is stored that the
  delete condition covers, a scope's fetch owner and deferred request belong to that scope, and a
  deferred request holds each intent once.\<close>

theorem reachable_runtime_invariant:
  assumes "runtime_reachable cluster rt"
  shows "runtime_inv rt"
  using assms by induction (simp_all add: runtime_step_inv)

theorem reachable_runtime_invariant_witness:
  "runtime_inv (fst (markAuthFailed (fst (acquireScopedLease (new_runtime ''c'') ''pods'' ''c|'' QueryDemand))))"
proof (rule reachable_runtime_invariant)
  have "valid_ref ''pods'' (Some ''c|'')" by (simp add: valid_ref_def)
  then have "runtime_reachable ''c'' (fst (acquireScopedLease (new_runtime ''c'') ''pods'' ''c|'' QueryDemand))"
    by (rule reach_step [OF reach_new step_acquire])
  then show "runtime_reachable ''c''
      (fst (markAuthFailed (fst (acquireScopedLease (new_runtime ''c'') ''pods'' ''c|'' QueryDemand))))"
    by (rule reach_step [OF _ step_auth_failed])
qed

end
