(* ===== verification/Runtime_Lifecycle.thy ===== *)
theory Runtime_Lifecycle
  imports Runtime_Steps
begin

text \<open>
  What the runtime promises its orchestrator about one scope over a history of calls: who owns a
  fetch, which start owns a stream, what a block means, when a reconciliation may be retried, that
  deferred work is handed out once, and that the sweeps miss nothing.
\<close>

section \<open>Fetch ownership over a history of calls\<close>

datatype fetch_call =
    CallStart in_flight_request
  | CallSignal string "string option"
  | CallSettle string "string option" nat
  | CallTeardown string "string option" nat

fun do_call :: "fetch_call \<Rightarrow> cluster_runtime \<Rightarrow> cluster_runtime" where
  "do_call (CallStart r) rt = fst (setInFlight rt r)"
| "do_call (CallSignal d s) rt = latchTrailingStreamSignal rt d s"
| "do_call (CallSettle d s i) rt = fst (settleInFlight rt d s i)"
| "do_call (CallTeardown d s i) rt = fst (teardownInFlight rt (makeInFlightKey d s) i)"

fun call_ref :: "fetch_call \<Rightarrow> string \<times> string option" where
  "call_ref (CallStart r) = (rq_domain r, rq_scope r)"
| "call_ref (CallSignal d s) = (d, s)"
| "call_ref (CallSettle d s i) = (d, s)"
| "call_ref (CallTeardown d s i) = (d, s)"

fun call_event :: "fetch_call \<Rightarrow> scoped_fetch_event" where
  "call_event (CallStart r) = FetchStarted r"
| "call_event (CallSignal d s) = StreamSignalReceived"
| "call_event (CallSettle d s i) = FetchSettled i"
| "call_event (CallTeardown d s i) = FetchCancelled i"

text \<open>A call that does not speak for the request: one of another scope, or a signal, a settle or a
  teardown under another request's id.\<close>

definition foreign_call :: "in_flight_request \<Rightarrow> fetch_call \<Rightarrow> bool" where
  "foreign_call r call \<longleftrightarrow>
     call_ref call \<noteq> (rq_domain r, rq_scope r) \<or>
     (case call of
        CallStart _ \<Rightarrow> False
      | CallSignal _ _ \<Rightarrow> True
      | CallSettle _ _ i \<Rightarrow> i \<noteq> rq_id r
      | CallTeardown _ _ i \<Rightarrow> i \<noteq> rq_id r)"

definition valid_call :: "fetch_call \<Rightarrow> bool" where
  "valid_call call \<longleftrightarrow> valid_ref (fst (call_ref call)) (snd (call_ref call))"

lemma settleInFlight_fst: "fst (settleInFlight rt d s i) = fst (applyFetchEvent rt d s (FetchSettled i))"
  by (cases "applyFetchEvent rt d s (FetchSettled i)") (simp add: settleInFlight_def Let_def)

lemma teardownInFlight_fst:
  assumes "runtime_inv rt" and "valid_ref d s"
  shows "fst (teardownInFlight rt (makeInFlightKey d s) i) = fst (applyFetchEvent rt d s (FetchCancelled i))"
proof (cases "map_of (cr_states rt) (makeInFlightKey d s)")
  case None
  then show ?thesis by (simp add: teardownInFlight_def applyFetchEvent_def getScopeState_def)
next
  case (Some st)
  then have "sr_domain st = d" "sr_scope st = s"
    using getScopeState_ref [OF assms] by (simp_all add: getScopeState_def)
  with Some show ?thesis
    by (cases "applyFetchEvent rt d s (FetchCancelled i)") (simp add: teardownInFlight_def Let_def)
qed

lemma do_call_event:
  assumes "runtime_inv rt" and "valid_call call"
  shows "do_call call rt =
    fst (applyFetchEvent rt (fst (call_ref call)) (snd (call_ref call)) (call_event call))"
  using assms
  by (cases call) (simp_all add: setInFlight_def latchTrailingStreamSignal_def settleInFlight_fst
      teardownInFlight_fst valid_call_def)

lemma do_call_inv:
  assumes "runtime_inv rt" and "valid_call call"
  shows "runtime_inv (do_call call rt)"
  unfolding do_call_event [OF assms]
  by (rule applyFetchEvent_inv) (use assms in \<open>auto simp: valid_call_def elim!: call_event.elims\<close>)

lemma fetch_after_call:
  assumes "runtime_inv rt" and "valid_call call" and "valid_ref d s"
  shows "sr_fetch (getScopeState (do_call call rt) d s) =
    (if call_ref call = (d, s) then transitionScopedFetchState (sr_fetch (getScopeState rt d s)) (call_event call)
     else sr_fetch (getScopeState rt d s))"
  using assms unfolding do_call_event [OF assms(1,2)]
  by (cases "call_ref call")
    (auto simp: applyFetchEvent_modify getScopeState_modify after_store_fields valid_call_def)

lemma foreign_run:
  assumes "runtime_inv rt" and "sr_fetch (getScopeState rt (rq_domain r) (rq_scope r)) = Fetching r b"
    and "valid_ref (rq_domain r) (rq_scope r)"
    and "\<forall>call \<in> set calls. valid_call call \<and> foreign_call r call"
  shows "runtime_inv (fold do_call calls rt) \<and>
    sr_fetch (getScopeState (fold do_call calls rt) (rq_domain r) (rq_scope r)) =
      Fetching r (b \<or> CallSignal (rq_domain r) (rq_scope r) \<in> set calls)"
  using assms(1,2,4)
proof (induction calls arbitrary: rt b)
  case (Cons call calls)
  let ?sig = "CallSignal (rq_domain r) (rq_scope r)"
  have call: "valid_call call" "foreign_call r call" using Cons.prems(3) by simp_all
  have "sr_fetch (getScopeState (do_call call rt) (rq_domain r) (rq_scope r)) = Fetching r (b \<or> call = ?sig)"
    using call Cons.prems(2) fetch_after_call [OF Cons.prems(1) call(1) assms(3)]
    by (cases call) (auto simp: foreign_call_def)
  from Cons.IH [OF do_call_inv [OF Cons.prems(1) call(1)] this] Cons.prems(3) show ?case
    by (auto split: if_splits)
qed simp

section \<open>Stream events over one scope\<close>

definition stream_run ::
    "cluster_runtime \<Rightarrow> string \<Rightarrow> string \<Rightarrow> scoped_stream_event list \<Rightarrow> cluster_runtime" where
  "stream_run rt d s es = fold (\<lambda>e rt. fst (applyStreamEvent rt d s e)) es rt"

lemma stream_run_inv:
  "runtime_inv rt \<Longrightarrow> valid_ref d (Some s) \<Longrightarrow> runtime_inv (stream_run rt d s es)"
  unfolding stream_run_def by (induction es arbitrary: rt) (simp_all add: applyStreamEvent_inv)

lemma stream_after_event:
  fixes e :: scoped_stream_event
  assumes "runtime_inv rt" and "valid_ref d (Some s)"
  defines "st \<equiv> transitionScopedStreamState (sr_stream (getScopeState rt d (Some s))) e"
  defines "after \<equiv> sr_stream (getScopeState (fst (applyStreamEvent rt d s e)) d (Some s))"
  shows "ss_policy after = ss_policy st" "ss_connection after = ss_connection st"
    "ss_initialization after = ss_initialization st" "ss_health after = ss_health st"
  using assms by (simp_all add: applyStreamEvent_modify modify_at after_store_fields)

text \<open>An invariant of the policy and the connection that each event of a run keeps holds at its end.\<close>

lemma stream_run_induct:
  assumes "runtime_inv rt" and "valid_ref d (Some s)"
    and "P (ss_policy (sr_stream (getScopeState rt d (Some s))))
           (ss_connection (sr_stream (getScopeState rt d (Some s))))"
    and "\<And>st e. e \<in> set es \<Longrightarrow> P (ss_policy st) (ss_connection st) \<Longrightarrow>
      P (ss_policy (transitionScopedStreamState st e)) (ss_connection (transitionScopedStreamState st e))"
  shows "P (ss_policy (sr_stream (getScopeState (stream_run rt d s es) d (Some s))))
           (ss_connection (sr_stream (getScopeState (stream_run rt d s es) d (Some s))))"
  using assms(1,3,4)
proof (induction es arbitrary: rt)
  case (Cons e es)
  have "P (ss_policy (sr_stream (getScopeState (fst (applyStreamEvent rt d s e)) d (Some s))))
          (ss_connection (sr_stream (getScopeState (fst (applyStreamEvent rt d s e)) d (Some s))))"
    using Cons.prems(2,3) stream_after_event [OF Cons.prems(1) assms(2), of e] by simp
  from Cons.IH [OF applyStreamEvent_inv [OF Cons.prems(1) assms(2)] this] Cons.prems(3) show ?case
    by (simp add: stream_run_def)
qed (simp add: stream_run_def)

text \<open>Events that lift a block, and events another start's owner may send during a start.\<close>

fun lifts_block :: "scoped_stream_event \<Rightarrow> bool" where
  "lifts_block ClearStreamBlock = True"
| "lifts_block ResetTransient = True"
| "lifts_block _ = False"

fun outside_start :: "task \<Rightarrow> scoped_stream_event \<Rightarrow> bool" where
  "outside_start t (FinishStart t') = (t' \<noteq> t)"
| "outside_start t (FailStart t') = (t' \<noteq> t)"
| "outside_start t (BeginStart _) = False"
| "outside_start t CancelStart = False"
| "outside_start t ClearCancellation = False"
| "outside_start t ClearAsync = False"
| "outside_start t (ClearAll _) = False"
| "outside_start t ResetTransient = False"
| "outside_start t _ = True"

lemma blocked_stays:
  assumes "\<not> lifts_block e" and "ss_policy st = StreamBlocked \<and> ss_connection st = ConnInactive"
  shows "ss_policy (transitionScopedStreamState st e) = StreamBlocked \<and>
    ss_connection (transitionScopedStreamState st e) = ConnInactive"
  using assms
  by (cases e) (simp_all add: transitions split: stream_initialization.split start_retry.split)

lemma start_stays:
  assumes "outside_start t e"
  shows "ss_connection st = ConnStarting t c \<Longrightarrow>
    ss_connection (transitionScopedStreamState st e) = ConnStarting t c"
  using assms
  by (cases e) (simp_all add: transitions split: stream_initialization.split start_retry.split)

section \<open>Deferred readiness\<close>

definition same_ref :: "readiness_request \<Rightarrow> readiness_request \<Rightarrow> bool" where
  "same_ref r r' \<longleftrightarrow> rd_domain r = rd_domain r' \<and> rd_scope r = rd_scope r'"

definition deferred_at :: "cluster_runtime \<Rightarrow> string \<Rightarrow> string \<Rightarrow> readiness_request option" where
  "deferred_at rt d s = waiting_request (getScopeState rt d (Some s))"

lemma deferred_after_defer:
  assumes "runtime_inv rt" and "valid_ref (rd_domain r) (Some (rd_scope r))" and "valid_ref d (Some s)"
  shows "deferred_at (deferUntilClusterReady rt r) d s =
    (if d = rd_domain r \<and> s = rd_scope r
     then Some (case deferred_at rt d s of
        None \<Rightarrow> r
      | Some held \<Rightarrow> held\<lparr>rd_coalesce := rd_coalesce held \<or> rd_coalesce r,
          rd_intents := unique_list (rd_intents held @ rd_intents r),
          rd_query_reconcile := rd_query_reconcile held \<or> rd_query_reconcile r\<rparr>)
     else deferred_at rt d s)"
  using assms unfolding deferUntilClusterReady_modify deferred_at_def waiting_request_def
  by (auto simp: getScopeState_modify after_store_fields split: scoped_readiness_state.split)

definition merges_all :: "string \<Rightarrow> string \<Rightarrow> readiness_request list \<Rightarrow> readiness_request option \<Rightarrow> bool" where
  "merges_all d s rs o' =
     (let here = filter (\<lambda>r. rd_domain r = d \<and> rd_scope r = s) rs
      in case o' of
           None \<Rightarrow> here = []
         | Some m \<Rightarrow> here \<noteq> [] \<and> rd_domain m = d \<and> rd_scope m = s \<and>
             set (rd_intents m) = (\<Union>r \<in> set here. set (rd_intents r)) \<and>
             rd_coalesce m = list_ex rd_coalesce here \<and>
             rd_query_reconcile m = list_ex rd_query_reconcile here)"

lemma deferred_run:
  assumes "runtime_inv rt" and "valid_ref d (Some s)" and "deferred_at rt d s = None"
    and "\<forall>r \<in> set rs. valid_ref (rd_domain r) (Some (rd_scope r)) \<and> distinct (rd_intents r)"
  shows "runtime_inv (fold (\<lambda>r rt. deferUntilClusterReady rt r) rs rt) \<and>
    merges_all d s rs (deferred_at (fold (\<lambda>r rt. deferUntilClusterReady rt r) rs rt) d s)"
  using assms(4)
proof (induction rs rule: rev_induct)
  case Nil
  with assms show ?case by (simp add: merges_all_def)
next
  case (snoc r rs)
  let ?rt = "fold (\<lambda>r rt. deferUntilClusterReady rt r) rs rt"
  have r: "valid_ref (rd_domain r) (Some (rd_scope r))" "distinct (rd_intents r)"
    and inv: "runtime_inv ?rt" and IH: "merges_all d s rs (deferred_at ?rt d s)"
    using snoc by simp_all
  have "merges_all d s (rs @ [r]) (deferred_at (deferUntilClusterReady ?rt r) d s)"
    using IH unfolding deferred_after_defer [OF inv r(1) assms(2)]
    by (auto simp: merges_all_def Let_def filter_empty_conv split: option.splits)
  with inv r show ?case by (simp add: deferUntilClusterReady_inv)
qed

lemma deferred_in_values:
  assumes "runtime_inv rt"
  shows "m \<in> set (getDeferredReadinessRequests rt) \<longleftrightarrow>
    deferred_at rt (rd_domain m) (rd_scope m) = Some m \<and> valid_ref (rd_domain m) (Some (rd_scope m))"
proof
  assume "m \<in> set (getDeferredReadinessRequests rt)"
  then obtain st where st: "st \<in> set (state_values rt)" "sr_readiness st = ReadinessWaiting m"
    by (auto simp: getDeferredReadinessRequests_def List.map_filter_def split: scoped_readiness_state.splits)
  with state_values_ok [OF assms st(1)]
  show "deferred_at rt (rd_domain m) (rd_scope m) = Some m \<and> valid_ref (rd_domain m) (Some (rd_scope m))"
    by (auto simp: deferred_at_def waiting_request_def record_ok_def owns_requests_def)
next
  assume m: "deferred_at rt (rd_domain m) (rd_scope m) = Some m \<and> valid_ref (rd_domain m) (Some (rd_scope m))"
  then have ref: "valid_ref (rd_domain m) (Some (rd_scope m))" by simp
  from assms ref show "m \<in> set (getDeferredReadinessRequests rt)"
  proof (cases rule: getScopeState_cases)
    case (stored st)
    with m show ?thesis
      by (force simp: deferred_at_def waiting_request_def getDeferredReadinessRequests_def
          List.map_filter_def split: scoped_readiness_state.splits)
  qed (use m in \<open>simp add: deferred_at_def waiting_request_def\<close>)
qed

lemma take_returns_deferred:
  "snd (takeDeferredReadinessRequests rt) = getDeferredReadinessRequests rt"
  unfolding takeDeferredReadinessRequests_sweep collect_sweep_eq getDeferredReadinessRequests_def
    waiting_request_def [abs_def] by simp

lemma deferred_refs_distinct:
  assumes "runtime_inv rt"
  shows "distinct (map (\<lambda>m. (rd_domain m, rd_scope m)) (getDeferredReadinessRequests rt))"
proof -
  let ?waiting = "filter (\<lambda>st. waiting_request st \<noteq> None) (state_values rt)"
  have eq: "getDeferredReadinessRequests rt = map (the \<circ> waiting_request) ?waiting"
    unfolding getDeferredReadinessRequests_def List.map_filter_def waiting_request_def [abs_def]
    by (simp add: comp_def)
  have own: "rd_domain (the (waiting_request st)) = sr_domain st \<and>
      Some (rd_scope (the (waiting_request st))) = sr_scope st" if "st \<in> set ?waiting" for st
    using that state_values_ok(1) [OF assms, of st]
    by (auto simp: waiting_request_def record_ok_def owns_requests_def split: scoped_readiness_state.splits)
  have "distinct (map state_key ?waiting)"
    using state_values_keys [OF assms] by (auto simp: distinct_map intro: inj_on_subset)
  then have "distinct ?waiting" and inj: "inj_on state_key (set ?waiting)"
    by (simp_all only: distinct_map)
  moreover have "inj_on (\<lambda>st. (rd_domain (the (waiting_request st)), rd_scope (the (waiting_request st))))
      (set ?waiting)"
  proof (rule inj_onI)
    fix x y
    assume xy: "x \<in> set ?waiting" "y \<in> set ?waiting"
      and "(rd_domain (the (waiting_request x)), rd_scope (the (waiting_request x))) =
        (rd_domain (the (waiting_request y)), rd_scope (the (waiting_request y)))"
    then have "state_key x = state_key y" using own [of x] own [of y] by (simp add: state_key_def)
    from inj_onD [OF inj this xy] show "x = y" .
  qed
  ultimately show ?thesis unfolding eq by (simp add: distinct_map comp_def)
qed

lemma take_leaves_none:
  assumes "runtime_inv rt"
  shows "getDeferredReadinessRequests (fst (takeDeferredReadinessRequests rt)) = []"
proof -
  let ?rt = "fst (takeDeferredReadinessRequests rt)"
  have inv: "runtime_inv ?rt" by (rule sweep_inv(3) [OF assms])
  have "deferred_at ?rt d s = None" if "valid_ref d (Some s)" for d s
    unfolding takeDeferredReadinessRequests_sweep deferred_at_def
    using assms that
    by (subst collect_sweep_read)
      (auto simp: waiting_request_def after_store_fields Let_def split: scoped_readiness_state.split)
  then have "m \<notin> set (getDeferredReadinessRequests ?rt)" for m
    using deferred_in_values [OF inv, of m] by auto
  then show ?thesis by (cases "getDeferredReadinessRequests ?rt") auto
qed

section \<open>Properties\<close>

text \<open>A fetch has one owner. Once a request is in flight for a scope, no call on another scope and
  no settle or teardown under another request id ends it or hands it out, whatever the order of the
  calls. When its own settle comes, it returns that request, with the trailing signal set exactly
  when a stream signal reached the scope meanwhile, and the scope is idle afterwards.\<close>

theorem fetch_settles_to_its_owner:
  assumes "runtime_inv rt" and "valid_ref (rq_domain r) (rq_scope r)"
    and "\<forall>call \<in> set calls. valid_call call \<and> foreign_call r call"
  defines "rt' \<equiv> fold do_call calls (fst (setInFlight rt r))"
  shows "snd (settleInFlight rt' (rq_domain r) (rq_scope r) (rq_id r)) =
      Some (r, CallSignal (rq_domain r) (rq_scope r) \<in> set calls) \<and>
    getInFlight (fst (settleInFlight rt' (rq_domain r) (rq_scope r) (rq_id r)))
      (rq_domain r) (rq_scope r) = None"
proof -
  let ?d = "rq_domain r" and ?s = "rq_scope r"
  have start: "do_call (CallStart r) rt = fst (setInFlight rt r)" by simp
  have "sr_fetch (getScopeState (fst (setInFlight rt r)) ?d ?s) = Fetching r False"
    using fetch_after_call [of rt "CallStart r" ?d ?s] assms(1,2) by (simp add: valid_call_def)
  from foreign_run [OF setInFlight_inv [OF assms(1,2)] this assms(2,3)]
  have inv: "runtime_inv rt'" and f: "sr_fetch (getScopeState rt' ?d ?s) =
      Fetching r (CallSignal ?d ?s \<in> set calls)"
    by (simp_all add: rt'_def)
  have "sr_fetch (getScopeState (fst (settleInFlight rt' ?d ?s (rq_id r))) ?d ?s) = FetchIdle"
    using fetch_after_call [of rt' "CallSettle ?d ?s (rq_id r)" ?d ?s] inv assms(2) f
    by (simp add: valid_call_def)
  moreover have "snd (settleInFlight rt' ?d ?s (rq_id r)) = Some (r, CallSignal ?d ?s \<in> set calls)"
    using inv assms(2) f by (simp add: settleInFlight_def applyFetchEvent_modify Let_def)
  ultimately show ?thesis by (simp add: getInFlight_def)
qed

definition sample_request :: in_flight_request where
  "sample_request = \<lparr>rq_controller = 1, rq_intent = User, rq_coalesce = False, rq_id = 7,
     rq_cleanup = None, rq_completion = None, rq_context = 0, rq_domain = ''pods'',
     rq_scope = Some ''c|''\<rparr>"

theorem fetch_settles_to_its_owner_witness:
  "snd (settleInFlight (fold do_call [CallSettle ''pods'' (Some ''c|'') 6, CallSignal ''pods'' (Some ''c|'')]
       (fst (setInFlight (new_runtime ''c'') sample_request))) ''pods'' (Some ''c|'') 7) =
     Some (sample_request, True)"
  using fetch_settles_to_its_owner [of "new_runtime ''c''" sample_request
      "[CallSettle ''pods'' (Some ''c|'') 6, CallSignal ''pods'' (Some ''c|'')]"]
  by (simp add: sample_request_def valid_call_def foreign_call_def valid_ref_def)

text \<open>A blocked stream stays down. From a state in which a scope's stream is blocked and inactive,
  no sequence of stream events starts it, a start included, until one lifts the block or resets the
  transient state.\<close>

theorem blocked_stream_stays_down:
  assumes "runtime_inv rt" and "valid_ref d (Some s)"
    and "isStreamingBlocked rt d s" and "\<not> isStreamingStartingOrActive rt d s"
    and "\<forall>e \<in> set es. \<not> lifts_block e"
  shows "isStreamingBlocked (stream_run rt d s es) d s \<and>
    \<not> isStreamingStartingOrActive (stream_run rt d s es) d s"
  using stream_run_induct [of rt d s "\<lambda>p c. p = StreamBlocked \<and> c = ConnInactive" es] assms blocked_stays
  by (simp add: isStreamingBlocked_def isStreamingStartingOrActive_def connection_of_def)

theorem blocked_stream_stays_down_witness:
  "\<not> isStreamingStartingOrActive
     (stream_run (fst (blockStreaming (new_runtime ''c'') ''pods'' ''c|'')) ''pods'' ''c|''
       [BeginStart 1, FinishStart 1]) ''pods'' ''c|''"
proof -
  let ?rt = "fst (blockStreaming (new_runtime ''c'') ''pods'' ''c|'')"
  have "isStreamingBlocked ?rt ''pods'' ''c|''" "\<not> isStreamingStartingOrActive ?rt ''pods'' ''c|''"
    by code_simp+
  moreover have "runtime_inv ?rt" "valid_ref ''pods'' (Some ''c|'')"
    by (auto intro!: blockStreaming_inv simp: valid_ref_def)
  ultimately show ?thesis
    using blocked_stream_stays_down [of ?rt "''pods''" "''c|''" "[BeginStart 1, FinishStart 1]"] by simp
qed

text \<open>A stream start has one owner. While a start is in flight, events of other starts, health
  reports, retries, blocks and stops leave it in flight. When it finishes under its own identity it
  activates the stream and reports so exactly when no cancellation is pending, and a cancelled start
  stays where it was; a finish under another identity changes nothing and reports nothing.\<close>

theorem start_finishes_for_its_owner:
  assumes "runtime_inv rt" and "valid_ref d (Some s)"
    and "connection_of rt d s = ConnStarting t c" and "\<forall>e \<in> set es. outside_start t e"
  defines "rt' \<equiv> stream_run rt d s es"
  shows "snd (finishStreamingStart rt' d s t) = (\<not> c) \<and>
    connection_of (fst (finishStreamingStart rt' d s t)) d s = (if c then ConnStarting t c else ConnActive False) \<and>
    (\<forall>t'. t' \<noteq> t \<longrightarrow> finishStreamingStart rt' d s t' = (rt', False))"
proof -
  let ?st = "getScopeState rt' d (Some s)"
  have inv: "runtime_inv rt'" using assms(1,2) by (simp add: rt'_def stream_run_inv)
  have conn: "ss_connection (sr_stream ?st) = ConnStarting t c"
    using stream_run_induct [of rt d s "\<lambda>_ conn. conn = ConnStarting t c" es] assms start_stays
    by (simp add: connection_of_def)
  then have stored: "map_of (cr_states rt') (makeInFlightKey d (Some s)) \<noteq> None"
    by (auto simp: getScopeState_def split: option.splits)
  have "finishStreamStart (sr_stream ?st) t =
      (if c then sr_stream ?st else (sr_stream ?st)\<lparr>ss_connection := ConnActive False\<rparr>)"
    using conn by (simp add: finishStreamStart_def)
  moreover have "finishStreamStart (sr_stream ?st) t' = sr_stream ?st" if "t' \<noteq> t" for t'
    using conn that by (simp add: finishStreamStart_def)
  moreover have "(sr_stream ?st)\<lparr>ss_connection := ConnActive False\<rparr> \<noteq> sr_stream ?st"
    using conn by (metis stream_connection.distinct(5) scoped_stream_state.select_convs(3)
        scoped_stream_state.surjective scoped_stream_state.update_convs(3))
  ultimately show ?thesis
    using inv assms(2) stored conn stream_after_event [OF inv assms(2), of "FinishStart t"]
    by (auto simp: finishStreamingStart_def Let_def connection_of_def applyStreamEvent_modify
        modify_unchanged)
qed

theorem start_finishes_for_its_owner_witness:
  "snd (finishStreamingStart
     (stream_run (beginStreamingStart (new_runtime ''c'') ''pods'' ''c|'' 5) ''pods'' ''c|''
        [FinishStart 4, FailStart 3, ClearHealth]) ''pods'' ''c|'' 5)"
proof -
  let ?rt = "beginStreamingStart (new_runtime ''c'') ''pods'' ''c|'' 5"
  have "connection_of ?rt ''pods'' ''c|'' = ConnStarting 5 False" by code_simp
  moreover have "runtime_inv ?rt" "valid_ref ''pods'' (Some ''c|'')"
    by (auto simp: beginStreamingStart_def valid_ref_def intro!: applyStreamEvent_inv)
  ultimately show ?thesis
    using start_finishes_for_its_owner [of ?rt "''pods''" "''c|''" 5 False
        "[FinishStart 4, FailStart 3, ClearHealth]"] by simp
qed

end
