(* ===== verification/Runtime_Contracts.thy ===== *)
theory Runtime_Contracts
  imports Runtime_Lifecycle
begin

text \<open>
  The remaining contracts of the runtime: deferred readiness requests are merged and handed out
  once, the sweeps return exactly what was scheduled or recorded, a held scope survives a disable
  request, reconciliation backs off within bounds, and the one result that a missing record makes
  wrong.
\<close>

section \<open>Reconciliation\<close>

lemma reconciliation_after_failure:
  assumes "runtime_inv rt" and "valid_ref d (Some s)"
  shows "sr_reconciliation (getScopeState (markReconciliationFailed rt d s now) d (Some s)) =
    (let failures = (case sr_reconciliation (getScopeState rt d (Some s)) of
        ReconPending f _ \<Rightarrow> f + 1 | ReconClean \<Rightarrow> 1)
     in ReconPending failures (now + reconciliation_delay failures))"
proof -
  let ?st = "getScopeState rt d (Some s)"
  have "getScopeState (storeScopeState rt (?st\<lparr>sr_reconciliation := r\<rparr>)) d (Some s) =
      after_store (?st\<lparr>sr_reconciliation := r\<rparr>)" for r
    using getScopeState_store [OF assms(1,2), of "?st\<lparr>sr_reconciliation := r\<rparr>"] assms(2)
      getScopeState_ref [OF assms] by simp
  then show ?thesis
    by (simp add: markReconciliationFailed_def Let_def after_store_fields)
qed

lemma reconciliation_after_failures:
  assumes "runtime_inv rt" and "valid_ref d (Some s)" and "\<not> needsReconciliation rt d s" and "nows \<noteq> []"
  defines "rt' \<equiv> fold (\<lambda>now rt. markReconciliationFailed rt d s now) nows rt"
  shows "runtime_inv rt' \<and> sr_reconciliation (getScopeState rt' d (Some s)) =
    ReconPending (length nows) (last nows + reconciliation_delay (length nows))"
  using assms(4) unfolding rt'_def
proof (induction nows rule: rev_induct)
  case (snoc now nows)
  show ?case
  proof (cases "nows = []")
    case True
    then show ?thesis using assms(1-3)
      by (simp add: reconciliation_after_failure markReconciliationFailed_inv needsReconciliation_def)
  next
    case False
    with snoc assms(2) show ?thesis
      by (simp add: reconciliation_after_failure markReconciliationFailed_inv)
  qed
qed simp

lemma reconciliation_delay_values:
  "reconciliation_delay 1 = 0" "reconciliation_delay 2 = 1000" "8 \<le> n \<Longrightarrow> reconciliation_delay n = 60000"
proof -
  assume "8 \<le> n"
  then have "min (n - 2) 6 = 6" by simp
  with \<open>8 \<le> n\<close> show "reconciliation_delay n = 60000" by (simp add: reconciliation_delay_def)
qed (simp_all add: reconciliation_delay_def)

lemma reconciliation_delay_mono:
  assumes "1 \<le> m" and "m \<le> n"
  shows "reconciliation_delay m \<le> reconciliation_delay n"
proof (cases "m = 1")
  case False
  with assms have "min (m - 2) 6 \<le> min (n - 2) 6" by simp
  then have "(2 :: nat) ^ min (m - 2) 6 \<le> 2 ^ min (n - 2) 6" by (rule power_increasing) simp
  then have "min 60000 (1000 * 2 ^ min (m - 2) 6) \<le> min 60000 ((1000 :: nat) * 2 ^ min (n - 2) 6)"
    by (intro min.mono mult_le_mono) simp_all
  with False assms show ?thesis unfolding reconciliation_delay_def by simp
qed (simp add: reconciliation_delay_def)

section \<open>Properties\<close>

text \<open>Deferred work is merged, not lost, and handed out once. After any list of requests is
  deferred on a runtime that had none, taking them returns one request per scope that deferred
  something: its intents are those of all the scope's requests, it coalesces or reconciles when one
  of them did, and no scope appears twice. Afterwards nothing is deferred.\<close>

theorem deferred_requests_are_taken_once:
  assumes "runtime_inv rt" and "getDeferredReadinessRequests rt = []"
    and "\<forall>r \<in> set rs. valid_ref (rd_domain r) (Some (rd_scope r)) \<and> distinct (rd_intents r)"
  defines "rt' \<equiv> fold (\<lambda>r rt. deferUntilClusterReady rt r) rs rt"
  shows "getDeferredReadinessRequests (fst (takeDeferredReadinessRequests rt')) = [] \<and>
    distinct (map (\<lambda>m. (rd_domain m, rd_scope m)) (snd (takeDeferredReadinessRequests rt'))) \<and>
    (\<forall>m \<in> set (snd (takeDeferredReadinessRequests rt')). merges_all (rd_domain m) (rd_scope m) rs (Some m)) \<and>
    (\<forall>r \<in> set rs. \<exists>m \<in> set (snd (takeDeferredReadinessRequests rt')). same_ref r m)"
proof -
  have none: "deferred_at rt d s = None" if "valid_ref d (Some s)" for d s
  proof (rule ccontr)
    assume "deferred_at rt d s \<noteq> None"
    then obtain m where m: "deferred_at rt d s = Some m" by blast
    with getScopeState_ref [OF assms(1) that] have "rd_domain m = d \<and> rd_scope m = s"
      by (auto simp: deferred_at_def waiting_request_def record_ok_def owns_requests_def
          split: scoped_readiness_state.splits)
    with deferred_in_values [OF assms(1), of m] m that assms(2) show False by simp
  qed
  have run: "runtime_inv rt'" "valid_ref d (Some s) \<Longrightarrow> merges_all d s rs (deferred_at rt' d s)" for d s
    using deferred_run [OF assms(1) _ none assms(3)] assms(1) deferred_run [of rt "[]" "[]" rs] none assms(3)
    by (auto simp: rt'_def valid_ref_def)
  have "merges_all (rd_domain m) (rd_scope m) rs (Some m)" if "m \<in> set (getDeferredReadinessRequests rt')" for m
    using that run(2) [of "rd_domain m" "rd_scope m"] deferred_in_values [OF run(1), of m] by simp
  moreover have "\<exists>m \<in> set (getDeferredReadinessRequests rt'). same_ref r m" if r: "r \<in> set rs" for r
  proof -
    have ref: "valid_ref (rd_domain r) (Some (rd_scope r))" using r assms(3) by simp
    from run(2) [OF ref] r obtain m where m: "deferred_at rt' (rd_domain r) (rd_scope r) = Some m"
        "rd_domain m = rd_domain r" "rd_scope m = rd_scope r"
      by (auto simp: merges_all_def Let_def filter_empty_conv split: option.splits)
    with ref deferred_in_values [OF run(1), of m] show ?thesis
      by (intro bexI [of _ m]) (simp_all add: same_ref_def)
  qed
  ultimately show ?thesis
    using take_leaves_none [OF run(1)] deferred_refs_distinct [OF run(1)]
    by (simp add: take_returns_deferred)
qed

definition sample_deferral :: "refresh_intent \<Rightarrow> readiness_request" where
  "sample_deferral i = \<lparr>rd_coalesce = (i = User), rd_domain = ''pods'', rd_scope = ''c|'',
     rd_intents = [i], rd_query_reconcile = False\<rparr>"

theorem deferred_requests_are_taken_once_witness:
  "\<exists>m \<in> set (snd (takeDeferredReadinessRequests
     (fold (\<lambda>r rt. deferUntilClusterReady rt r) [sample_deferral Startup, sample_deferral User]
       (new_runtime ''c'')))). same_ref (sample_deferral User) m"
proof -
  have "getDeferredReadinessRequests (new_runtime ''c'') = []" by code_simp
  then show ?thesis
    using deferred_requests_are_taken_once [of "new_runtime ''c''" "[sample_deferral Startup, sample_deferral User]"]
    by (simp add: sample_deferral_def valid_ref_def)
qed

text \<open>Taking all poll timers hands back the timer of every scope that has a poll scheduled, each
  scope's once and no other, and leaves no scope with one; nothing else of any scope changes.\<close>

theorem take_all_poll_timers_exact:
  assumes "runtime_inv rt"
  shows "snd (takeAllPollTimers rt) = List.map_filter poll_timer_of (state_values rt) \<and>
    (\<forall>d s. valid_ref d (Some s) \<longrightarrow>
       (isPollScheduled rt d s \<longrightarrow> (\<exists>t \<in> set (snd (takeAllPollTimers rt)).
          sr_polling (getScopeState rt d (Some s)) = PollScheduled t)) \<and>
       \<not> isPollScheduled (fst (takeAllPollTimers rt)) d s \<and>
       getScopedLeaseCount (fst (takeAllPollTimers rt)) d s q = getScopedLeaseCount rt d s q \<and>
       getInFlight (fst (takeAllPollTimers rt)) d (Some s) = getInFlight rt d (Some s))"
proof -
  have out: "snd (takeAllPollTimers rt) = List.map_filter poll_timer_of (state_values rt)"
    by (simp add: takeAllPollTimers_sweep collect_sweep_eq)
  have read: "getScopeState (fst (takeAllPollTimers rt)) d (Some s) =
      (let st = getScopeState rt d (Some s)
       in if poll_timer_of st = None then st else after_store (st\<lparr>sr_polling := PollIdle\<rparr>))"
    if "valid_ref d (Some s)" for d s
    unfolding takeAllPollTimers_sweep
    by (rule collect_sweep_read [OF assms that]) (simp_all add: poll_timer_of_def)
  have "\<exists>t \<in> set (List.map_filter poll_timer_of (state_values rt)).
      sr_polling (getScopeState rt d (Some s)) = PollScheduled t"
    if ref: "valid_ref d (Some s)" and poll: "isPollScheduled rt d s" for d s
    using assms ref
  proof (cases rule: getScopeState_cases)
    case (stored st)
    then obtain t where "sr_polling st = PollScheduled t"
      using poll by (cases "sr_polling st") (auto simp: isPollScheduled_def)
    with stored show ?thesis
      by (force simp: List.map_filter_def poll_timer_of_def)
  qed (use poll in \<open>simp add: isPollScheduled_def\<close>)
  moreover have "\<not> isPollScheduled (fst (takeAllPollTimers rt)) d s \<and>
       getScopedLeaseCount (fst (takeAllPollTimers rt)) d s q = getScopedLeaseCount rt d s q \<and>
       getInFlight (fst (takeAllPollTimers rt)) d (Some s) = getInFlight rt d (Some s)"
    if ref: "valid_ref d (Some s)" for d s
    using getScopeState_ref(2) [OF assms ref]
    by (auto simp: isPollScheduled_def getScopedLeaseCount_def getInFlight_def read [OF ref] Let_def
        after_store_fields poll_timer_of_def split: polling.splits option.splits)
  ultimately show ?thesis unfolding out by blast
qed

theorem take_all_poll_timers_exact_witness:
  "snd (takeAllPollTimers (setPollTimer (new_runtime ''c'') ''pods'' ''c|'' 9)) =
     List.map_filter poll_timer_of (state_values (setPollTimer (new_runtime ''c'') ''pods'' ''c|'' 9)) \<and>
   \<not> isPollScheduled (fst (takeAllPollTimers (setPollTimer (new_runtime ''c'') ''pods'' ''c|'' 9))) ''pods'' ''c|''"
proof -
  have "runtime_inv (setPollTimer (new_runtime ''c'') ''pods'' ''c|'' 9)"
    by (simp add: setPollTimer_modify modify_inv valid_ref_def)
  from take_all_poll_timers_exact [OF this] show ?thesis by (simp add: valid_ref_def)
qed

text \<open>A new permission epoch forgets every verdict and reports every scope that had one, each
  once, and no other scope.\<close>

theorem permission_epoch_resets_all:
  assumes "runtime_inv rt" and "valid_ref d (Some s)"
  shows "((d, s) \<in> set (snd (resetPermissionEpoch rt)) \<longleftrightarrow>
      sr_permission (getScopeState rt d (Some s)) \<noteq> PermissionUnknown) \<and>
    distinct (snd (resetPermissionEpoch rt)) \<and>
    sr_permission (getScopeState (fst (resetPermissionEpoch rt)) d (Some s)) = PermissionUnknown"
proof -
  have out: "snd (resetPermissionEpoch rt) = List.map_filter permission_recorded (state_values rt)"
    by (simp add: resetPermissionEpoch_sweep collect_sweep_eq)
  have read: "getScopeState (fst (resetPermissionEpoch rt)) d (Some s) =
      (let st = getScopeState rt d (Some s)
       in if permission_recorded st = None then st else after_store (st\<lparr>sr_permission := PermissionUnknown\<rparr>))"
    unfolding resetPermissionEpoch_sweep
    by (rule collect_sweep_read [OF assms]) (simp_all add: permission_recorded_def)
  have "(d, s) \<in> set (snd (resetPermissionEpoch rt)) \<longleftrightarrow>
      (\<exists>st \<in> set (state_values rt). sr_permission st \<noteq> PermissionUnknown \<and> sr_domain st = d \<and> sr_scope st = Some s)"
    unfolding out by (force simp: List.map_filter_def permission_recorded_def)
  also have "\<dots> \<longleftrightarrow> sr_permission (getScopeState rt d (Some s)) \<noteq> PermissionUnknown"
    using assms
  proof (cases rule: getScopeState_cases)
    case (stored st)
    then show ?thesis using state_values_ok(5) [OF assms(1)] by metis
  next
    case absent
    then show ?thesis using state_values_ok(5) [OF assms(1)] by (metis initial_scope_state_simps(8))
  qed
  finally have mem: "(d, s) \<in> set (snd (resetPermissionEpoch rt)) \<longleftrightarrow>
    sr_permission (getScopeState rt d (Some s)) \<noteq> PermissionUnknown" .
  have "distinct (List.map_filter permission_recorded (state_values rt))"
  proof -
    let ?sel = "filter (\<lambda>st. permission_recorded st \<noteq> None) (state_values rt)"
    have "distinct (map state_key ?sel)"
      using state_values_keys [OF assms(1)] by (auto simp: distinct_map intro: inj_on_subset)
    then have "distinct ?sel" and inj: "inj_on state_key (set ?sel)" by (simp_all only: distinct_map)
    moreover have "inj_on (\<lambda>st. the (permission_recorded st)) (set ?sel)"
    proof (rule inj_onI)
      fix x y
      assume xy: "x \<in> set ?sel" "y \<in> set ?sel"
        and "the (permission_recorded x) = the (permission_recorded y)"
      then have "state_key x = state_key y"
        by (auto simp: permission_recorded_def state_key_def split: if_splits)
      from inj_onD [OF inj this xy] show "x = y" .
    qed
    ultimately show ?thesis by (simp add: List.map_filter_def distinct_map comp_def)
  qed
  moreover have "sr_permission (getScopeState (fst (resetPermissionEpoch rt)) d (Some s)) = PermissionUnknown"
    using getScopeState_ref(2) [OF assms] unfolding read
    by (auto simp: permission_recorded_def after_store_fields Let_def)
  ultimately show ?thesis using mem out by simp
qed

theorem permission_epoch_resets_all_witness:
  "(''pods'', ''c|'') \<in> set (snd (resetPermissionEpoch (markPermissionDenied (new_runtime ''c'') ''pods'' ''c|'')))"
proof -
  let ?rt = "markPermissionDenied (new_runtime ''c'') ''pods'' ''c|''"
  have "sr_permission (getScopeState ?rt ''pods'' (Some ''c|'')) \<noteq> PermissionUnknown" by code_simp
  moreover have "runtime_inv ?rt" "valid_ref ''pods'' (Some ''c|'')"
    by (auto simp: markPermissionDenied_def valid_ref_def intro!: applyPermissionEvent_inv)
  ultimately show ?thesis using permission_epoch_resets_all [of ?rt "''pods''" "''c|''"] by simp
qed

text \<open>A disable request never takes a scope away from a holder. When some lease holds the scope
  the request changes nothing and reports no change; otherwise the scope is disabled, and a later
  acquisition enables it again.\<close>

theorem disable_respects_leases:
  assumes "runtime_inv rt" and "valid_ref d (Some s)"
  defines "off \<equiv> disableScopedDomain rt d s"
  shows "(hasScopedLease rt d s \<longrightarrow> off = (rt, Some True, False)) \<and>
    (\<not> hasScopedLease rt d s \<longrightarrow> \<not> isScopedDomainEnabled (fst off) d s) \<and>
    isScopedDomainEnabled (fst (acquireScopedLease (fst off) d s q)) d s"
proof -
  let ?a = "sr_activation (getScopeState rt d (Some s))"
  have held: "hasScopedLease rt d s \<longleftrightarrow> totalDemand (demandsFor ?a) > 0"
    by (simp add: hasScopedLease_def getScopedLeaseCount_def totalDemand_def Let_def)
  have off: "fst off = modify rt d (Some s) (\<lambda>st. st\<lparr>sr_activation := disableScope (sr_activation st)\<rparr>)"
    unfolding off_def disableScopedDomain_def using assms(1,2) by (simp add: applyActivationEvent_modify Let_def)
  have "off = (rt, Some True, False)" if "hasScopedLease rt d s"
  proof -
    have "totalDemand (demandsFor ?a) > 0" using that held by simp
    moreover have "totalDemand no_scoped_demand = 0" by (simp add: no_scoped_demand_def totalDemand_def)
    ultimately obtain c r where "?a = Enabled c r" "totalDemand c > 0" by (cases ?a) simp_all
    then show ?thesis unfolding off_def disableScopedDomain_def using assms(1,2)
      by (simp add: applyActivationEvent_modify disableScope_def modify_unchanged)
  qed
  moreover have "\<not> isScopedDomainEnabled (fst off) d s" if "\<not> hasScopedLease rt d s"
    unfolding off isScopedDomainEnabled_def using that assms(1,2) held
    by (cases ?a) (simp_all add: modify_at after_store_fields disableScope_def)
  moreover have "isScopedDomainEnabled (fst (acquireScopedLease (fst off) d s q)) d s"
  proof -
    have inv: "runtime_inv (fst off)" unfolding off_def using assms(1,2) by (rule disableScopedDomain_inv)
    show ?thesis unfolding acquireScopedLease_def isScopedDomainEnabled_def
      using inv assms(2) by (simp add: applyActivationEvent_modify modify_at after_store_fields
          acquireScopeLease_def Let_def)
  qed
  ultimately show ?thesis by blast
qed

theorem disable_respects_leases_witness:
  "hasScopedLease (fst (acquireScopedLease (new_runtime ''c'') ''pods'' ''c|'' QueryDemand)) ''pods'' ''c|'' \<and>
   snd (disableScopedDomain (fst (acquireScopedLease (new_runtime ''c'') ''pods'' ''c|'' QueryDemand)) ''pods'' ''c|'')
     = (Some True, False)"
proof -
  let ?rt = "fst (acquireScopedLease (new_runtime ''c'') ''pods'' ''c|'' QueryDemand)"
  have "hasScopedLease ?rt ''pods'' ''c|''" by code_simp
  moreover have "runtime_inv ?rt" "valid_ref ''pods'' (Some ''c|'')"
    by (auto simp: valid_ref_def intro!: acquireScopedLease_inv)
  ultimately show ?thesis using disable_respects_leases [of ?rt "''pods''" "''c|''"] by simp
qed

text \<open>Reconciliation backs off and the backoff is bounded. After n consecutive failures of a clean
  scope the next retry is allowed exactly from the last failure's time plus the n-th delay on: at once
  after the first failure, a second after the second, never later after fewer failures, and never
  more than a minute.\<close>

theorem reconciliation_backoff_bounded:
  assumes "runtime_inv rt" and "valid_ref d (Some s)" and "\<not> needsReconciliation rt d s" and "nows \<noteq> []"
  defines "rt' \<equiv> fold (\<lambda>now rt. markReconciliationFailed rt d s now) nows rt"
  defines "n \<equiv> length nows"
  shows "(canRetryReconciliation rt' d s now \<longleftrightarrow> last nows + reconciliation_delay n \<le> now) \<and>
    reconciliation_delay n \<le> 60000 \<and> (n = 1 \<longrightarrow> reconciliation_delay n = 0) \<and>
    (n = 2 \<longrightarrow> reconciliation_delay n = 1000) \<and> (8 \<le> n \<longrightarrow> reconciliation_delay n = 60000) \<and>
    reconciliation_delay n \<le> reconciliation_delay (n + 1)"
proof -
  have "1 \<le> n" using assms(4) by (cases nows) (simp_all add: n_def)
  then have "reconciliation_delay n \<le> reconciliation_delay (n + 1)" by (simp add: reconciliation_delay_mono)
  moreover have "reconciliation_delay n \<le> 60000" by (simp add: reconciliation_delay_def)
  ultimately show ?thesis
    using reconciliation_after_failures [OF assms(1-4)] reconciliation_delay_values
    by (simp add: canRetryReconciliation_def rt'_def n_def)
qed

theorem reconciliation_backoff_bounded_witness:
  "\<not> canRetryReconciliation (fold (\<lambda>now rt. markReconciliationFailed rt ''pods'' ''c|'' now) [100, 200, 300]
      (new_runtime ''c'')) ''pods'' ''c|'' 2299"
proof -
  have "\<not> needsReconciliation (new_runtime ''c'') ''pods'' ''c|''" by code_simp
  with reconciliation_backoff_bounded [of "new_runtime ''c''" "''pods''" "''c|''" "[100, 200, 300]" 2299]
  show ?thesis by (simp add: valid_ref_def reconciliation_delay_def)
qed

text \<open>When the record of a scope is deleted while its stream is still starting, the start's late
  completion is reported as a success, although no stream becomes active: for a scope without a
  record \<open>finishStreamingStart\<close> returns true and changes nothing.\<close>

theorem finish_without_record_reports_success:
  assumes "runtime_inv rt" and "valid_ref d (Some s)"
  shows "finishStreamingStart (deleteDomain rt d) d s t = (deleteDomain rt d, True) \<and>
    \<not> isStreamingActive (deleteDomain rt d) d s"
proof -
  let ?rt = "deleteDomain rt d"
  have inv: "runtime_inv ?rt" by (rule deleteDomain_inv [OF assms(1)])
  have st: "getScopeState ?rt d (Some s) = initial_scope_state d (Some s)"
    using deleteDomain_read [OF assms, of d] by simp
  have "map_of (cr_states ?rt) (makeInFlightKey d (Some s)) = None"
  proof (rule ccontr)
    assume "map_of (cr_states ?rt) (makeInFlightKey d (Some s)) \<noteq> None"
    then obtain st' where look: "runtime_lookup ?rt (makeInFlightKey d (Some s)) = Some st'"
      by (auto simp: runtime_lookup_def)
    then have "st' = initial_scope_state d (Some s)" using st by (simp add: getScopeState_lookup)
    with runtime_lookup_ok(3) [OF inv look] show False by simp
  qed
  with st show ?thesis
    by (simp add: finishStreamingStart_def applyStreamEvent_def finishStreamStart_def Let_def
        isStreamingActive_def connection_of_def)
qed

theorem finish_without_record_reports_success_witness:
  "snd (finishStreamingStart (deleteDomain (beginStreamingStart (new_runtime ''c'') ''pods'' ''c|'' 1) ''pods'')
     ''pods'' ''c|'' 1) = True"
proof -
  have "runtime_inv (beginStreamingStart (new_runtime ''c'') ''pods'' ''c|'' 1)"
    and ref: "valid_ref ''pods'' (Some ''c|'')"
    by (auto simp: beginStreamingStart_def valid_ref_def intro!: applyStreamEvent_inv)
  from finish_without_record_reports_success [OF this] show ?thesis by simp
qed

end
