(* ===== verification/Json_Rows.thy ===== *)
theory Json_Rows
  imports Prelude
begin

text \<open>
  Row identity and structural sharing: \<open>shared/utils/resourceRowIdentity.ts\<close> and
  \<open>shared/utils/structuralShareResourceRows.ts\<close>. A row object is its identity (a number), the
  identity and value of its \<open>ref\<close> object, and its other fields as JSON values; two rows are the same
  object when their identities agree. Numbers are tokens compared by \<open>Object.is\<close>.
\<close>

section \<open>JSON values and their deep equality\<close>

datatype json =
    JNull
  | JUndefined
  | JBool bool
  | JNumber int
  | JString string
  | JArray "json list"
  | JObject "(string \<times> json) list"

text \<open>A parsed value: the keys of an object are distinct.\<close>

fun wf_json :: "json \<Rightarrow> bool" where
  "wf_json (JArray xs) = (\<forall>x \<in> set xs. wf_json x)"
| "wf_json (JObject kvs) = (distinct (map fst kvs) \<and> (\<forall>kv \<in> set kvs. wf_json (snd kv)))"
| "wf_json _ = True"

lemma zip_size [termination_simp]: "(a, b) \<in> set (zip xs ys) \<Longrightarrow> size a < Suc (size_list size xs)"
  using set_zip_leftD [of a b xs ys] size_list_estimation' [of a xs "size a" size] by simp

text \<open>\<open>enumerableValuesEqual\<close>. The source's first test, \<open>Object.is\<close>, holds for equal primitives; for
  one object compared with itself it agrees with the comparison below, which is reflexive.\<close>

fun enumerableValuesEqual :: "json \<Rightarrow> json \<Rightarrow> bool" where
  "enumerableValuesEqual (JArray xs) right =
     (case right of
        JArray ys \<Rightarrow>
          length xs = length ys \<and> (\<forall>xy \<in> set (zip xs ys). enumerableValuesEqual (fst xy) (snd xy))
      | _ \<Rightarrow> False)"
| "enumerableValuesEqual (JObject ls) right =
     (case right of
        JObject rs \<Rightarrow>
          length ls = length rs \<and>
          (\<forall>kv \<in> set ls. case map_of rs (fst kv) of
             None \<Rightarrow> False
           | Some r \<Rightarrow> enumerableValuesEqual (snd kv) r)
      | _ \<Rightarrow> False)"
| "enumerableValuesEqual left right = (left = right)"

section \<open>Row keys\<close>

definition valueOrEmpty :: "string option \<Rightarrow> string" where
  "valueOrEmpty value = (case value of None \<Rightarrow> [] | Some v \<Rightarrow> v)"

definition buildKindedNamespacedRowKey ::
    "string option \<Rightarrow> string option \<Rightarrow> string option \<Rightarrow> string option \<Rightarrow> string" where
  "buildKindedNamespacedRowKey clusterId namespace kind name =
     valueOrEmpty clusterId @ ''::'' @ valueOrEmpty namespace @ ''::'' @ valueOrEmpty kind @ ''::'' @
     valueOrEmpty name"

definition buildVersionedNamespacedRowKey ::
    "string option \<Rightarrow> string option \<Rightarrow> string option \<Rightarrow> string option \<Rightarrow> string option \<Rightarrow>
     string option \<Rightarrow> string" where
  "buildVersionedNamespacedRowKey clusterId namespace grp version kind name =
     valueOrEmpty clusterId @ ''::'' @ valueOrEmpty namespace @ ''::'' @ valueOrEmpty grp @ ''::'' @
     valueOrEmpty version @ ''::'' @ valueOrEmpty kind @ ''::'' @ valueOrEmpty name"

definition buildHelmReleaseRowKey ::
    "string option \<Rightarrow> string option \<Rightarrow> string option \<Rightarrow> string" where
  "buildHelmReleaseRowKey clusterId namespace name =
     valueOrEmpty clusterId @ ''::'' @ valueOrEmpty namespace @ ''::'' @ valueOrEmpty name"

definition buildClusterNameRowKey :: "string option \<Rightarrow> string option \<Rightarrow> string" where
  "buildClusterNameRowKey clusterId name = valueOrEmpty clusterId @ ''::'' @ valueOrEmpty name"

definition buildCatalogResourceRowKey ::
    "string option \<Rightarrow> string option \<Rightarrow> string option \<Rightarrow> string option \<Rightarrow> string option \<Rightarrow>
     string option \<Rightarrow> string" where
  "buildCatalogResourceRowKey clusterId grp version resource namespace name =
     valueOrEmpty clusterId @ ''::'' @ valueOrEmpty grp @ ''::'' @ valueOrEmpty version @ ''::'' @
     valueOrEmpty resource @ ''::'' @ valueOrEmpty namespace @ ''::'' @ valueOrEmpty name"

section \<open>Rows with a canonical reference\<close>

record canonical_ref =
  cf_cluster :: string
  cf_group :: string
  cf_version :: string
  cf_kind :: string
  cf_resource :: string
  cf_namespace :: "string option"
  cf_name :: string
  cf_uid :: "string option"

record resource_row =
  rr_id :: nat
  rr_ref_id :: nat
  rr_ref :: canonical_ref
  rr_fields :: "(string \<times> json) list"

definition optional_field :: "string \<Rightarrow> string option \<Rightarrow> (string \<times> json) list" where
  "optional_field key value = (case value of None \<Rightarrow> [] | Some v \<Rightarrow> [(key, JString v)])"

definition ref_json :: "canonical_ref \<Rightarrow> json" where
  "ref_json ref = JObject
     ([(''clusterId'', JString (cf_cluster ref)), (''group'', JString (cf_group ref)),
       (''version'', JString (cf_version ref)), (''kind'', JString (cf_kind ref)),
       (''resource'', JString (cf_resource ref)), (''name'', JString (cf_name ref))] @
      optional_field ''namespace'' (cf_namespace ref) @ optional_field ''uid'' (cf_uid ref))"

definition row_value :: "resource_row \<Rightarrow> json" where
  "row_value row = JObject ((''ref'', ref_json (rr_ref row)) # rr_fields row)"

definition canonicalRefKey :: "canonical_ref \<Rightarrow> string" where
  "canonicalRefKey ref = js_join [CHR 0x00]
     [cf_cluster ref, cf_group ref, cf_version ref, cf_kind ref, cf_resource ref,
      valueOrEmpty (cf_namespace ref), cf_name ref]"

definition canonicalRefsEqual :: "canonical_ref \<Rightarrow> canonical_ref \<Rightarrow> bool" where
  "canonicalRefsEqual left right \<longleftrightarrow>
     cf_cluster left = cf_cluster right \<and> cf_group left = cf_group right \<and>
     cf_version left = cf_version right \<and> cf_kind left = cf_kind right \<and>
     cf_resource left = cf_resource right \<and> cf_namespace left = cf_namespace right \<and>
     cf_name left = cf_name right \<and> cf_uid left = cf_uid right"

datatype sharing_mode = RefOnly | RowAndRef

text \<open>The result is an array: the one given as incoming, the previous one, or a new one.\<close>

datatype array_identity = IncomingArray | PreviousArray | FreshArray

text \<open>The previous rows by key; a key that occurs twice is marked with \<open>null\<close>.\<close>

definition previous_by_key :: "resource_row list \<Rightarrow> (string, resource_row option) js_map" where
  "previous_by_key previous =
     fold (\<lambda>row m. let key = canonicalRefKey (rr_ref row)
                   in AList.update key (if map_of m key \<noteq> None then None else Some row) m)
       previous []"

text \<open>The row of the previous list this one may be shared with: none once its key was consumed.\<close>

definition share_candidate ::
    "(string, resource_row option) js_map \<Rightarrow> string list \<Rightarrow> resource_row \<Rightarrow> resource_row option" where
  "share_candidate byKey consumed row =
     (let key = canonicalRefKey (rr_ref row)
      in if key \<in> set consumed then None
         else case map_of byKey key of
                Some (Some candidate) \<Rightarrow>
                  if canonicalRefsEqual (rr_ref candidate) (rr_ref row) then Some candidate else None
              | _ \<Rightarrow> None)"

fun share_refs ::
    "(string, resource_row option) js_map \<Rightarrow> string list \<Rightarrow> resource_row list \<Rightarrow> resource_row list" where
  "share_refs byKey consumed [] = []"
| "share_refs byKey consumed (row # rows) =
     (case share_candidate byKey consumed row of
        Some candidate \<Rightarrow> row\<lparr>rr_ref := rr_ref candidate, rr_ref_id := rr_ref_id candidate\<rparr>
      | None \<Rightarrow> row) #
     share_refs byKey (canonicalRefKey (rr_ref row) # consumed) rows"

fun share_rows ::
    "(string, resource_row option) js_map \<Rightarrow> resource_row list \<Rightarrow> string list \<Rightarrow> nat \<Rightarrow>
     resource_row list \<Rightarrow> resource_row list \<times> bool" where
  "share_rows byKey previous consumed index [] = ([], True)"
| "share_rows byKey previous consumed index (row # rows) =
     (case share_rows byKey previous (canonicalRefKey (rr_ref row) # consumed) (Suc index) rows of
        (shared, sameOrder) \<Rightarrow>
          (case share_candidate byKey consumed row of
             None \<Rightarrow> (row # shared, False)
           | Some candidate \<Rightarrow>
               let row' = row\<lparr>rr_ref := rr_ref candidate, rr_ref_id := rr_ref_id candidate\<rparr>
               in if enumerableValuesEqual (row_value candidate) (row_value row')
                  then (candidate # shared,
                        sameOrder \<and> index < length previous \<and> rr_id (previous ! index) = rr_id candidate)
                  else (row' # shared, False)))"

definition structuralShareResourceRows ::
    "resource_row list \<Rightarrow> resource_row list \<Rightarrow> sharing_mode \<Rightarrow> resource_row list \<times> array_identity" where
  "structuralShareResourceRows previous incoming mode =
     (if previous = [] \<or> incoming = [] then (incoming, IncomingArray)
      else let byKey = previous_by_key previous
           in case mode of
                RefOnly \<Rightarrow> (share_refs byKey [] incoming, IncomingArray)
              | RowAndRef \<Rightarrow>
                  (case share_rows byKey previous [] 0 incoming of
                     (shared, same) \<Rightarrow>
                       if length previous = length incoming \<and> same then (previous, PreviousArray)
                       else (shared, FreshArray)))"

section \<open>Deep equality is an equivalence\<close>

lemma deep_refl: "wf_json a \<Longrightarrow> enumerableValuesEqual a a"
proof (induction a)
  case (JArray xs)
  have "\<forall>xy \<in> set (zip xs xs). fst xy = snd xy \<and> fst xy \<in> set xs" by (auto simp: zip_same)
  with JArray show ?case by fastforce
next
  case (JObject kvs)
  have "map_of kvs (fst kv) = Some (snd kv)" if "kv \<in> set kvs" for kv
    using JObject.prems that by simp
  moreover have "enumerableValuesEqual (snd kv) (snd kv)" if "kv \<in> set kvs" for kv
    using JObject that by (auto simp: snds.simps)
  ultimately show ?case by simp
qed simp_all

lemma object_keys_equal:
  assumes "distinct (map fst ls)" and "distinct (map fst rs)" and "length ls = length rs"
    and "\<And>k v. (k, v) \<in> set ls \<Longrightarrow> map_of rs k \<noteq> None"
  shows "fst ` set ls = fst ` set rs"
proof (rule card_subset_eq)
  show "fst ` set ls \<subseteq> fst ` set rs"
    using assms(4) by (force simp: map_of_eq_None_iff)
  have "card (set (map fst ls)) = length ls" "card (set (map fst rs)) = length rs"
    using assms(1,2) by (metis distinct_card length_map)+
  with assms(3) show "card (fst ` set ls) = card (fst ` set rs)" by simp
qed simp

lemma deep_object:
  "enumerableValuesEqual (JObject ls) (JObject rs) \<longleftrightarrow>
     length ls = length rs \<and>
     (\<forall>k v. (k, v) \<in> set ls \<longrightarrow> (\<exists>r. map_of rs k = Some r \<and> enumerableValuesEqual v r))"
  by (force split: option.splits)

lemma deep_array:
  "enumerableValuesEqual (JArray xs) (JArray ys) \<longleftrightarrow>
     length xs = length ys \<and> (\<forall>i < length xs. enumerableValuesEqual (xs ! i) (ys ! i))"
proof -
  have "(\<forall>xy \<in> set (zip xs ys). enumerableValuesEqual (fst xy) (snd xy)) \<longleftrightarrow>
      (\<forall>i < length xs. enumerableValuesEqual (xs ! i) (ys ! i))" if "length xs = length ys"
    using that by (auto simp: all_set_conv_all_nth)
  then show ?thesis by (cases "length xs = length ys") simp_all
qed

lemma deep_sym:
  "wf_json a \<Longrightarrow> wf_json b \<Longrightarrow> enumerableValuesEqual a b \<Longrightarrow> enumerableValuesEqual b a"
proof (induction a arbitrary: b)
  case (JArray xs)
  then obtain ys where b: "b = JArray ys" by (cases b) auto
  with JArray.prems have eq: "length xs = length ys" "\<And>i. i < length xs \<Longrightarrow> enumerableValuesEqual (xs ! i) (ys ! i)"
    by (simp_all add: deep_array del: enumerableValuesEqual.simps)
  have "enumerableValuesEqual (ys ! i) (xs ! i)" if "i < length xs" for i
    using that JArray.prems(1,2) b eq JArray.IH [of "xs ! i" "ys ! i"] by simp
  with b eq(1) show ?case by (simp add: deep_array del: enumerableValuesEqual.simps)
next
  case (JObject ls)
  then obtain rs where b: "b = JObject rs" by (cases b) auto
  with JObject.prems have len: "length ls = length rs"
    and eq: "\<And>k v. (k, v) \<in> set ls \<Longrightarrow> \<exists>r. map_of rs k = Some r \<and> enumerableValuesEqual v r"
    and wf: "distinct (map fst ls)" "distinct (map fst rs)"
    by (auto simp: deep_object simp del: enumerableValuesEqual.simps)
  have keys: "fst ` set ls = fst ` set rs"
    using wf len eq by (intro object_keys_equal) fastforce+
  have "\<exists>v. map_of ls k = Some v \<and> enumerableValuesEqual r v" if r: "(k, r) \<in> set rs" for k r
  proof -
    obtain v where v: "(k, v) \<in> set ls" using keys r by (metis fst_conv image_iff prod.exhaust_sel)
    then have "enumerableValuesEqual v r" using eq [OF v] r wf by simp
    then have "enumerableValuesEqual r v"
      using JObject.IH [of "(k, v)" v r] JObject.prems v r b by (fastforce simp: snds.simps)
    with v wf show ?thesis by auto
  qed
  with len b show ?case by (simp add: deep_object del: enumerableValuesEqual.simps)
qed auto

lemma deep_trans:
  "enumerableValuesEqual a b \<Longrightarrow> enumerableValuesEqual b c \<Longrightarrow> enumerableValuesEqual a c"
proof (induction a arbitrary: b c)
  case (JArray xs)
  from JArray.prems(1) obtain ys where b: "b = JArray ys" by (cases b) simp_all
  with JArray.prems(2) obtain zs where "c = JArray zs" by (cases c) simp_all
  with b have bc: "b = JArray ys" "c = JArray zs" .
  with JArray.prems have eq: "length xs = length ys" "\<And>i. i < length xs \<Longrightarrow> enumerableValuesEqual (xs ! i) (ys ! i)"
      "length ys = length zs" "\<And>i. i < length ys \<Longrightarrow> enumerableValuesEqual (ys ! i) (zs ! i)"
    by (simp_all add: deep_array del: enumerableValuesEqual.simps)
  have "enumerableValuesEqual (xs ! i) (zs ! i)" if "i < length xs" for i
    using that eq JArray.IH [of "xs ! i" "ys ! i" "zs ! i"] by simp
  with bc eq show ?case by (simp add: deep_array del: enumerableValuesEqual.simps)
next
  case (JObject ls)
  from JObject.prems(1) obtain rs where b: "b = JObject rs" by (cases b) simp_all
  with JObject.prems(2) obtain ts where "c = JObject ts" by (cases c) simp_all
  with b have bc: "b = JObject rs" "c = JObject ts" .
  have "\<exists>t. map_of ts k = Some t \<and> enumerableValuesEqual v t" if v: "(k, v) \<in> set ls" for k v
  proof -
    from JObject.prems(1) v bc obtain r where r: "map_of rs k = Some r" "enumerableValuesEqual v r"
      by (auto simp: deep_object simp del: enumerableValuesEqual.simps)
    from JObject.prems(2) map_of_SomeD [OF r(1)] bc obtain t where "map_of ts k = Some t" "enumerableValuesEqual r t"
      by (auto simp: deep_object simp del: enumerableValuesEqual.simps)
    with JObject.IH [of "(k, v)" v r t] v r(2) show ?thesis by (auto simp: snds.simps)
  qed
  with JObject.prems bc show ?case by (simp add: deep_object del: enumerableValuesEqual.simps)
qed auto

section \<open>Sharing keeps the values\<close>

definition same_value :: "resource_row \<Rightarrow> resource_row \<Rightarrow> bool" where
  "same_value a b \<longleftrightarrow> enumerableValuesEqual (row_value a) (row_value b)"

lemma canonicalRefsEqual_iff [simp]: "canonicalRefsEqual a b \<longleftrightarrow> a = b"
  by (cases a; cases b) (auto simp: canonicalRefsEqual_def)

lemma row_value_ref_id [simp]:
  "row_value (row\<lparr>rr_ref_id := i\<rparr>) = row_value row"
  by (simp add: row_value_def)

lemma previous_by_key_append:
  "map_of (previous_by_key (rows @ [row])) key =
     (if key = canonicalRefKey (rr_ref row)
      then Some (if map_of (previous_by_key rows) key \<noteq> None then None else Some row)
      else map_of (previous_by_key rows) key)"
  by (simp add: previous_by_key_def Let_def map_of_update)

lemma same_value_ref_id [simp]:
  "same_value (row\<lparr>rr_ref_id := i\<rparr>) b = same_value row b" "same_value a (row\<lparr>rr_ref_id := i\<rparr>) = same_value a row"
  by (simp_all add: same_value_def)

text \<open>A key is shared with a row of the previous list exactly when that row is the only one with it.\<close>

lemma previous_by_key_row:
  "map_of (previous_by_key previous) key =
     (case filter (\<lambda>row. canonicalRefKey (rr_ref row) = key) previous of
        [] \<Rightarrow> None | [row] \<Rightarrow> Some (Some row) | _ \<Rightarrow> Some None)"
proof (induction previous rule: rev_induct)
  case (snoc row rows)
  then show ?case
    by (auto simp: previous_by_key_append split: list.splits)
qed (simp add: previous_by_key_def)

lemma share_candidate_Some:
  assumes "share_candidate (previous_by_key previous) consumed row = Some c"
  shows "c \<in> set previous" "rr_ref c = rr_ref row" "canonicalRefKey (rr_ref row) \<notin> set consumed"
proof -
  let ?hits = "filter (\<lambda>r. canonicalRefKey (rr_ref r) = canonicalRefKey (rr_ref row)) previous"
  have "?hits = [c] \<and> rr_ref c = rr_ref row \<and> canonicalRefKey (rr_ref row) \<notin> set consumed"
    using assms
    by (auto simp: share_candidate_def Let_def previous_by_key_row split: if_splits option.splits list.splits)
  then show "c \<in> set previous" "rr_ref c = rr_ref row" "canonicalRefKey (rr_ref row) \<notin> set consumed"
    by (auto simp: filter_eq_Cons_iff)
qed

lemma share_refs_value:
  assumes "\<forall>r \<in> set incoming. wf_json (row_value r)"
  shows "list_all2 same_value (share_refs (previous_by_key previous) consumed incoming) incoming"
    and "map rr_id (share_refs (previous_by_key previous) consumed incoming) = map rr_id incoming"
  using assms
proof (induction incoming arbitrary: consumed)
  case (Cons row rows)
  {
    case 1
    with Cons.IH(1) [of "canonicalRefKey (rr_ref row) # consumed"] show ?case
      using share_candidate_Some(2) [of previous consumed row]
      by (cases "share_candidate (previous_by_key previous) consumed row")
        (simp_all add: same_value_def deep_refl)
  next
    case 2
    with Cons.IH(2) [of "canonicalRefKey (rr_ref row) # consumed"] show ?case
      by (auto split: option.split)
  }
qed simp_all

text \<open>What one pass over the incoming rows leaves: each row's value, rows of the previous list each at
  most once, and the order flag.\<close>

lemma share_rows_value:
  assumes "share_rows (previous_by_key previous) previous consumed index incoming = (shared, same)"
    and "\<forall>r \<in> set (previous @ incoming). wf_json (row_value r)"
  shows "list_all2 same_value shared incoming"
  using assms
proof (induction incoming arbitrary: consumed index shared same)
  case (Cons row rows)
  obtain shared' same' where rest: "share_rows (previous_by_key previous) previous
      (canonicalRefKey (rr_ref row) # consumed) (Suc index) rows = (shared', same')" by fastforce
  from Cons.IH [OF rest] Cons.prems(2) have "list_all2 same_value shared' rows" by simp
  moreover have "same_value row row" using Cons.prems(2) by (simp add: same_value_def deep_refl)
  ultimately show ?case
    using Cons.prems(1) rest share_candidate_Some(2) [of previous consumed row]
    by (cases "share_candidate (previous_by_key previous) consumed row")
      (auto simp: Let_def simp flip: same_value_def split: if_splits)
qed simp

lemma share_rows_origin:
  assumes "share_rows (previous_by_key previous) previous consumed index incoming = (shared, same)"
    and "r \<in> set shared"
  shows "rr_id r \<in> rr_id ` set incoming \<or>
    r \<in> set previous \<and> canonicalRefKey (rr_ref r) \<notin> set consumed"
  using assms
proof (induction incoming arbitrary: consumed index shared same)
  case (Cons row rows)
  obtain shared' same' where rest: "share_rows (previous_by_key previous) previous
      (canonicalRefKey (rr_ref row) # consumed) (Suc index) rows = (shared', same')" by fastforce
  show ?case
    using Cons.IH [OF rest] Cons.prems rest share_candidate_Some [of previous consumed row]
    by (cases "share_candidate (previous_by_key previous) consumed row")
      (auto simp: Let_def split: if_splits)
qed simp

lemma share_rows_distinct:
  assumes "share_rows (previous_by_key previous) previous consumed index incoming = (shared, same)"
    and "distinct (map rr_id (previous @ incoming))"
  shows "distinct (map rr_id shared)"
  using assms
proof (induction incoming arbitrary: consumed index shared same)
  case (Cons row rows)
  obtain shared' same' where rest: "share_rows (previous_by_key previous) previous
      (canonicalRefKey (rr_ref row) # consumed) (Suc index) rows = (shared', same')" by fastforce
  have inj: "p = q" if "p \<in> set previous" "q \<in> set previous" "rr_id p = rr_id q" for p q
    using Cons.prems(2) that by (auto simp: distinct_map inj_on_def)
  have origin: "rr_id r \<in> rr_id ` set rows \<or>
      r \<in> set previous \<and> canonicalRefKey (rr_ref r) \<noteq> canonicalRefKey (rr_ref row)" if "r \<in> set shared'" for r
    using share_rows_origin [OF rest that] by auto
  have disj: "rr_id p \<notin> rr_id ` set rows" if "p \<in> set previous" for p
    using Cons.prems(2) that by auto
  have old: "rr_id row \<notin> rr_id ` set rows" "rr_id row \<notin> rr_id ` set previous"
    using Cons.prems(2) by auto
  have "rr_id row \<notin> rr_id ` set shared'"
  proof
    assume "rr_id row \<in> rr_id ` set shared'"
    then obtain r where r: "r \<in> set shared'" "rr_id r = rr_id row" by auto
    with origin [OF r(1)] old show False by (metis image_eqI)
  qed
  moreover have "rr_id c \<notin> rr_id ` set shared'"
    if cand: "share_candidate (previous_by_key previous) consumed row = Some c" for c
  proof
    assume "rr_id c \<in> rr_id ` set shared'"
    then obtain r where r: "r \<in> set shared'" "rr_id r = rr_id c" by auto
    from share_candidate_Some [OF cand] have c: "c \<in> set previous" "rr_ref c = rr_ref row" by simp_all
    from origin [OF r(1)] disj [OF c(1)] r(2)
    have "r \<in> set previous" "canonicalRefKey (rr_ref r) \<noteq> canonicalRefKey (rr_ref row)" by auto
    with inj [of r c] r(2) c show False by simp
  qed
  moreover have "distinct (map rr_id shared')" using Cons.IH [OF rest] Cons.prems(2) by simp
  ultimately show ?case
    using Cons.prems(1) rest by (auto simp: Let_def split: option.splits if_splits)
qed simp

lemma share_rows_same:
  assumes "share_rows (previous_by_key previous) previous consumed index incoming = (shared, True)"
    and "distinct (map rr_id previous)"
  shows "shared = take (length incoming) (drop index previous)"
  using assms
proof (induction incoming arbitrary: consumed index shared)
  case (Cons row rows)
  obtain shared' same' where rest: "share_rows (previous_by_key previous) previous
      (canonicalRefKey (rr_ref row) # consumed) (Suc index) rows = (shared', same')" by fastforce
  with Cons.prems(1) obtain c where c: "share_candidate (previous_by_key previous) consumed row = Some c"
      "shared = c # shared'" "same'" "index < length previous" "rr_id (previous ! index) = rr_id c"
    by (auto simp: Let_def split: option.splits if_splits)
  have "previous ! index = c"
    using Cons.prems(2) c(4,5) share_candidate_Some(1) [OF c(1)] by (auto simp: distinct_map inj_on_def)
  moreover have "shared' = take (length rows) (drop (Suc index) previous)"
    using Cons.IH [of "canonicalRefKey (rr_ref row) # consumed" "Suc index" shared'] rest c(3) Cons.prems(2)
    by simp
  ultimately show ?case using c(2,4) by (simp add: Cons_nth_drop_Suc [symmetric])
qed simp

text \<open>Rows equal to the previous ones, in the same order, all find themselves again.\<close>

lemma share_rows_unchanged:
  assumes "list_all2 (\<lambda>p i. rr_ref p = rr_ref i \<and> same_value p i) (drop index previous) incoming"
    and "distinct (map (canonicalRefKey \<circ> rr_ref) previous)"
    and "set consumed = (canonicalRefKey \<circ> rr_ref) ` set (take index previous)"
  shows "share_rows (previous_by_key previous) previous consumed index incoming = (drop index previous, True)"
  using assms(1,3)
proof (induction incoming arbitrary: consumed index rule: list.induct)
  case (Cons row rows)
  then obtain p ps where drop: "drop index previous = p # ps" by (cases "drop index previous") auto
  then have p: "index < length previous" "previous ! index = p" "ps = drop (Suc index) previous"
    by (metis drop_all leI list.distinct(1), metis nth_via_drop, metis drop_Suc list.sel(3) tl_drop)
  with Cons.prems drop have row: "rr_ref p = rr_ref row" "same_value p row"
    and rest: "list_all2 (\<lambda>p i. rr_ref p = rr_ref i \<and> same_value p i) (drop (Suc index) previous) rows"
    by simp_all
  let ?key = "canonicalRefKey \<circ> rr_ref"
  have split: "previous = take index previous @ p # drop (Suc index) previous"
    using p by (metis id_take_nth_drop)
  then have out: "?key p \<notin> ?key ` set (take index previous)" "?key p \<notin> ?key ` set (drop (Suc index) previous)"
    using assms(2) by (metis distinct.simps(2) distinct_append list.set_map list.simps(9) map_append not_distinct_conv_prefix,
        metis distinct.simps(2) distinct_append list.set_map list.simps(9) map_append)
  have "filter (\<lambda>r. canonicalRefKey (rr_ref r) = ?key p) (take index previous) = []"
    "filter (\<lambda>r. canonicalRefKey (rr_ref r) = ?key p) (drop (Suc index) previous) = []"
    using out by (auto simp: filter_empty_conv image_iff)
  then have "filter (\<lambda>r. canonicalRefKey (rr_ref r) = ?key p) previous = [p]"
    by (subst split) simp
  moreover have "?key p \<notin> set consumed" using out Cons.prems(2) by simp
  ultimately have cand: "share_candidate (previous_by_key previous) consumed row = Some p"
    using row(1) by (simp add: share_candidate_def Let_def previous_by_key_row)
  have "set (?key row # consumed) = ?key ` set (take (Suc index) previous)"
    using Cons.prems(2) p row(1) by (simp add: take_Suc_conv_app_nth)
  from Cons.IH [OF rest this] cand row p drop show ?case
    by (simp add: Let_def same_value_def)
qed simp

section \<open>Properties\<close>

text \<open>Deep equality of parsed values is an equivalence relation, although the object case compares
  in one direction only (equal key counts, and every left key present on the right).\<close>

theorem deep_equality_equivalence:
  assumes "wf_json a" and "wf_json b"
  shows "enumerableValuesEqual a a \<and>
    (enumerableValuesEqual a b \<longrightarrow> enumerableValuesEqual b a) \<and>
    (enumerableValuesEqual a b \<and> enumerableValuesEqual b c \<longrightarrow> enumerableValuesEqual a c)"
  using assms deep_refl deep_sym deep_trans by blast

theorem deep_equality_equivalence_witness:
  "enumerableValuesEqual (JObject [(''b'', JNull), (''a'', JArray [JBool True])])
     (JObject [(''a'', JArray [JBool True]), (''b'', JNull)])"
  using deep_equality_equivalence [of "JObject [(''a'', JArray [JBool True]), (''b'', JNull)]"
      "JObject [(''b'', JNull), (''a'', JArray [JBool True])]"] by simp

text \<open>Structural sharing never changes what a table shows. In either mode the result has, position
  by position, the values of the incoming rows, and no row object appears in it twice.\<close>

theorem sharing_keeps_values:
  assumes "distinct (map rr_id (previous @ incoming))"
    and "\<forall>r \<in> set (previous @ incoming). wf_json (row_value r)"
  shows "list_all2 same_value (fst (structuralShareResourceRows previous incoming mode)) incoming \<and>
    distinct (map rr_id (fst (structuralShareResourceRows previous incoming mode)))"
proof -
  have refl: "list_all2 same_value incoming incoming"
    using assms(2) by (auto simp: list_all2_same same_value_def deep_refl)
  obtain shared same where run: "share_rows (previous_by_key previous) previous [] 0 incoming = (shared, same)"
    by fastforce
  have vals: "list_all2 same_value shared incoming" by (rule share_rows_value [OF run assms(2)])
  have "shared = previous" if "same" and "length previous = length incoming"
    using share_rows_same [of previous "[]" 0 incoming shared] run that assms(1) by simp
  with vals share_rows_distinct [OF run assms(1)] refl assms run show ?thesis
    by (cases mode) (auto simp: structuralShareResourceRows_def Let_def share_refs_value)
qed

definition sample_row :: "nat \<Rightarrow> string \<Rightarrow> resource_row" where
  "sample_row i n = \<lparr>rr_id = i, rr_ref_id = i,
     rr_ref = \<lparr>cf_cluster = ''c'', cf_group = [], cf_version = ''v1'', cf_kind = ''Pod'',
       cf_resource = ''pods'', cf_namespace = Some ''web'', cf_name = n, cf_uid = None\<rparr>,
     rr_fields = [(''status'', JString ''Running'')]\<rparr>"

theorem sharing_keeps_values_witness:
  "list_all2 same_value
     (fst (structuralShareResourceRows [sample_row 1 ''a'', sample_row 2 ''b''] [sample_row 3 ''b''] RowAndRef))
     [sample_row 3 ''b'']"
  using sharing_keeps_values [of "[sample_row 1 ''a'', sample_row 2 ''b'']" "[sample_row 3 ''b'']" RowAndRef]
  by (simp add: sample_row_def row_value_def ref_json_def optional_field_def)

text \<open>An unchanged table keeps its array. When the incoming rows are the previous ones by reference
  and value, in the same order, and the references are distinct, sharing returns the previous array
  itself.\<close>

theorem unchanged_rows_keep_array:
  assumes "list_all2 (\<lambda>p i. rr_ref p = rr_ref i \<and> same_value p i) previous incoming"
    and "distinct (map (canonicalRefKey \<circ> rr_ref) previous)" and "previous \<noteq> []"
  shows "structuralShareResourceRows previous incoming RowAndRef = (previous, PreviousArray)"
proof -
  have "share_rows (previous_by_key previous) previous [] 0 incoming = (previous, True)"
    using share_rows_unchanged [of 0 previous incoming "[]"] assms by simp
  moreover have "length previous = length incoming" by (rule list_all2_lengthD [OF assms(1)])
  ultimately show ?thesis using assms(3) by (auto simp: structuralShareResourceRows_def)
qed

theorem unchanged_rows_keep_array_witness:
  "structuralShareResourceRows [sample_row 1 ''a'', sample_row 2 ''b''] [sample_row 3 ''a'', sample_row 4 ''b'']
     RowAndRef = ([sample_row 1 ''a'', sample_row 2 ''b''], PreviousArray)"
  by (rule unchanged_rows_keep_array)
    (simp_all add: sample_row_def same_value_def row_value_def ref_json_def optional_field_def
      canonicalRefKey_def valueOrEmpty_def)

end
