(* ===== verification/Error_Status.thy ===== *)
theory Error_Status
  imports Json_Rows
begin

text \<open>
  The typed status of a backend error and the failure a refresh domain shows: \<open>utils/errorStatus.ts\<close>,
  \<open>core/refresh/permissionErrors.ts\<close> and \<open>core/refresh/refreshFailure.ts\<close>. A wire value is a JSON value: a field that
  is absent reads as \<open>undefined\<close>, and reading a field of a value that is no object does too. The text fields of an
  error status (\<open>message\<close>, the members of \<open>details\<close>) are strings or absent, as their type declares. A thrown value is an
  \<open>Error\<close> with the properties the code reads, or any other value; causes form no cycle.
\<close>

section \<open>Reading wire values\<close>

fun js_field :: "json \<Rightarrow> string \<Rightarrow> json" where
  "js_field (JObject kvs) name = (case map_of kvs name of None \<Rightarrow> JUndefined | Some v \<Rightarrow> v)"
| "js_field _ name = JUndefined"

fun js_nullish :: "json \<Rightarrow> bool" where
  "js_nullish JNull = True"
| "js_nullish JUndefined = True"
| "js_nullish _ = False"

fun js_string :: "json \<Rightarrow> string option" where
  "js_string (JString s) = Some s"
| "js_string _ = None"

text \<open>\<open>value?.trim() || undefined\<close> for a value that is a string or nullish.\<close>

definition trimmed_or_none :: "json \<Rightarrow> string option" where
  "trimmed_or_none value = truthy (map_option trim (js_string value))"

definition js_lower :: "char \<Rightarrow> char" where
  "js_lower c =
     (let n = (of_char c :: nat)
      in if 65 \<le> n \<and> n \<le> 90 \<or> 192 \<le> n \<and> n \<le> 222 \<and> n \<noteq> 215 then char_of (n + 32) else c)"

definition toLowerCase :: "string \<Rightarrow> string" where
  "toLowerCase s = map js_lower s"

section \<open>Error status\<close>

definition error_status_reasons :: "string list" where
  "error_status_reasons =
     [''Unauthorized'', ''Forbidden'', ''NotFound'', ''AlreadyExists'', ''Conflict'', ''Gone'', ''Invalid'',
      ''BadRequest'', ''Timeout'', ''ServerTimeout'', ''TooManyRequests'', ''InternalError'', ''ServiceUnavailable'',
      ''CredentialsRejected'', ''ClusterUnreachable'', ''ClusterNotReady'', ''RefreshUnavailable'',
      ''DeadlineExceeded'', ''Canceled'', ''Unknown'']"

definition error_status_categories :: "string list" where
  "error_status_categories =
     [''NETWORK'', ''AUTHENTICATION'', ''PERMISSION'', ''NOT_FOUND'', ''VALIDATION'', ''CONFLICT'', ''TIMEOUT'',
      ''RATE_LIMIT'', ''SERVER_ERROR'', ''UNKNOWN'']"

fun is_number :: "json \<Rightarrow> bool" where
  "is_number (JNumber _) = True"
| "is_number _ = False"

fun is_boolean :: "json \<Rightarrow> bool" where
  "is_boolean (JBool _) = True"
| "is_boolean _ = False"

definition isErrorStatus :: "json \<Rightarrow> bool" where
  "isErrorStatus value \<longleftrightarrow>
     js_field value ''kind'' = JString ''Status'' \<and> is_number (js_field value ''code'') \<and>
     js_string (js_field value ''message'') \<noteq> None \<and> is_boolean (js_field value ''retryable'') \<and>
     is_boolean (js_field value ''expected'') \<and>
     (case js_string (js_field value ''reason'') of None \<Rightarrow> False | Some r \<Rightarrow> r \<in> set error_status_reasons) \<and>
     (case js_string (js_field value ''category'') of None \<Rightarrow> False | Some c \<Rightarrow> c \<in> set error_status_categories)"

definition is_forbidden :: "json option \<Rightarrow> bool" where
  "is_forbidden status = (case status of None \<Rightarrow> False | Some s \<Rightarrow> js_field s ''reason'' = JString ''Forbidden'')"

definition permissionDeniedBaseMessage :: "json \<Rightarrow> string" where
  "permissionDeniedBaseMessage status =
     (case trimmed_or_none (js_field status ''message'') of None \<Rightarrow> ''Permission denied'' | Some m \<Rightarrow> m)"

definition detail_text :: "json \<Rightarrow> string \<Rightarrow> string option" where
  "detail_text status name = trimmed_or_none (js_field (js_field status ''details'') name)"

definition permissionDeniedDetailParts :: "json \<Rightarrow> string \<Rightarrow> string list" where
  "permissionDeniedDetailParts status base =
     (let domain = detail_text status ''domain''; resource = detail_text status ''resource'';
          kind = detail_text status ''kind''; name = detail_text status ''name''
      in (case domain of
            Some d \<Rightarrow> if sublist (''domain '' @ toLowerCase d) (toLowerCase base) then [] else [''domain '' @ d]
          | None \<Rightarrow> []) @
         (case resource of
            Some r \<Rightarrow> if sublist r base then [] else [''resource '' @ r]
          | None \<Rightarrow> []) @
         (case (domain, resource, kind) of
            (None, None, Some k) \<Rightarrow>
              let label = (case name of Some n \<Rightarrow> k @ ''/'' @ n | None \<Rightarrow> k)
              in if sublist label base then [] else [''resource '' @ label]
          | _ \<Rightarrow> []))"

definition formatPermissionDeniedStatus :: "json \<Rightarrow> string" where
  "formatPermissionDeniedStatus status =
     (let base = permissionDeniedBaseMessage status; detailParts = permissionDeniedDetailParts status base
      in if detailParts = [] then base else base @ '' ('' @ js_join '', '' detailParts @ '')'')"

definition resolvePermissionDeniedMessage :: "string option \<Rightarrow> json option \<Rightarrow> string option" where
  "resolvePermissionDeniedMessage fallback status =
     (case status of
        Some s \<Rightarrow> if is_forbidden status then Some (formatPermissionDeniedStatus s) else fallback
      | None \<Rightarrow> fallback)"

section \<open>Thrown values and refresh failures\<close>

datatype thrown =
    ThrownError string string json "thrown option"
  | ThrownValue json

function json_status_of :: "json \<Rightarrow> json option" where
  "json_status_of value =
     (case value of
        JObject _ \<Rightarrow>
          if isErrorStatus value then Some value
          else if isErrorStatus (js_field value ''status'') then Some (js_field value ''status'')
          else json_status_of (js_field value ''cause'')
      | _ \<Rightarrow> None)"
  by pat_completeness auto

lemma js_field_smaller: "size (js_field (JObject kvs) name) < size (JObject kvs)"
proof (cases "map_of kvs name")
  case (Some v)
  from map_of_SomeD [OF this] have "size v \<le> size_list (size_prod (\<lambda>_. 0) size) kvs"
    by (induction kvs) auto
  with Some show ?thesis by simp
qed simp

termination json_status_of
  by (relation "measure size") (simp_all only: in_measure wf_measure js_field_smaller)

primrec errorStatusOf :: "thrown \<Rightarrow> json option" and cause_status :: "thrown option \<Rightarrow> json option" where
  "errorStatusOf (ThrownError name message status c) = (if isErrorStatus status then Some status else cause_status c)"
| "errorStatusOf (ThrownValue value) = json_status_of value"
| "cause_status None = None"
| "cause_status (Some t) = errorStatusOf t"

definition isSnapshotPermissionDenied :: "thrown \<Rightarrow> bool" where
  "isSnapshotPermissionDenied t = is_forbidden (errorStatusOf t)"

datatype refresh_failure =
    BackendFailure json
  | LocalFailure string string
  | DeniedFailure string

definition localFailure :: "string \<Rightarrow> refresh_failure" where
  "localFailure message = LocalFailure message ''Error''"

text \<open>\<open>String(value)\<close> of a value without methods of its own.\<close>

fun js_to_string :: "json \<Rightarrow> string" where
  "js_to_string JNull = ''null''"
| "js_to_string JUndefined = ''undefined''"
| "js_to_string (JBool b) = (if b then ''true'' else ''false'')"
| "js_to_string (JNumber i) = (if i < 0 then ''-'' else []) @ decimal (nat \<bar>i\<bar>)"
| "js_to_string (JString s) = s"
| "js_to_string (JArray xs) = js_join '','' (map (\<lambda>x. if js_nullish x then [] else js_to_string x) xs)"
| "js_to_string (JObject _) = ''[object Object]''"

definition refreshFailureOf :: "thrown \<Rightarrow> refresh_failure" where
  "refreshFailureOf t =
     (case errorStatusOf t of
        Some status \<Rightarrow> BackendFailure status
      | None \<Rightarrow>
          (case t of
             ThrownError name message status c \<Rightarrow> LocalFailure message name
           | ThrownValue value \<Rightarrow> LocalFailure (js_to_string value) ''Error''))"

fun failureMessage :: "refresh_failure \<Rightarrow> string" where
  "failureMessage (BackendFailure status) =
     (case resolvePermissionDeniedMessage (js_string (js_field status ''message'')) (Some status) of
        None \<Rightarrow> [] | Some m \<Rightarrow> m)"
| "failureMessage (LocalFailure message name) = message"
| "failureMessage (DeniedFailure message) = message"

fun is_denied_failure :: "refresh_failure \<Rightarrow> bool" where
  "is_denied_failure (DeniedFailure message) = True"
| "is_denied_failure (BackendFailure status) = is_forbidden (Some status)"
| "is_denied_failure (LocalFailure message name) = False"

definition permissionDeniedFailure :: "refresh_failure option \<Rightarrow> refresh_failure" where
  "permissionDeniedFailure stored =
     (case stored of
        Some f \<Rightarrow> if is_denied_failure f then f else DeniedFailure ''Insufficient permissions''
      | None \<Rightarrow> DeniedFailure ''Insufficient permissions'')"

text \<open>Whatever a read throws, the failure kept for the view says denied exactly when the read was refused.\<close>

lemma failure_denied_iff: "is_denied_failure (refreshFailureOf t) \<longleftrightarrow> isSnapshotPermissionDenied t"
  by (cases t) (simp_all add: refreshFailureOf_def isSnapshotPermissionDenied_def is_forbidden_def split: option.split)

lemma denied_stays_denied: "is_denied_failure (permissionDeniedFailure stored)"
  by (simp add: permissionDeniedFailure_def split: option.split)

end
