(* ===== verification/Refresh_Store.thy ===== *)
theory Refresh_Store
  imports Scope_Codec Error_Status
begin

text \<open>
  The snapshot store, \<open>core/refresh/store.ts\<close>: one snapshot per domain and scope, published to
  subscribers. The module's \<open>state\<close> variable and its \<open>listeners\<close> set are a record; a publication
  appends to the trace \<open>st_notified\<close> one entry per listener with the state that listener can read.
  Scope and domain names are not numerals, so the own keys of a JavaScript object are in insertion
  order and \<open>Object.entries\<close> is the association list. An updater returns \<open>None\<close> where the source's
  returns its argument itself, the case the store does not publish.
\<close>

section \<open>State\<close>

datatype domain_status = StatusIdle | StatusLoading | StatusInitialising | StatusUpdating | StatusReady | StatusError

text \<open>Of the statistics, those the frontend computes itself; the rest are sent by the backend and only displayed.\<close>

record snapshot_stats =
  ss_items :: nat
  ss_duration :: nat
  ss_total :: "nat option"
  ss_truncated :: "bool option"

record 'p domain_snapshot =
  ds_status :: domain_status
  ds_data :: "'p option"
  ds_stats :: "snapshot_stats option"
  ds_version :: "nat option"
  ds_source_version :: "string option"
  ds_source_versions :: "(string, string) js_map option"
  ds_signal_versions :: "(string, string) js_map option"
  ds_permission_denied :: bool
  ds_checksum :: "string option"
  ds_etag :: "string option"
  ds_stream_revision :: "nat option"
  ds_stream_acknowledged :: "nat option"
  ds_query_reconcile :: "nat option"
  ds_last_updated :: "millis option"
  ds_last_manual :: "millis option"
  ds_last_auto :: "millis option"
  ds_error :: "refresh_failure option"
  ds_is_manual :: bool
  ds_dropped_auto :: nat
  ds_scope :: "string option"

type_synonym 'p domain_map = "(string, 'p domain_snapshot) js_map"
type_synonym 'p store_view = "(string, 'p domain_map) js_map \<times> (string, 'p domain_map) js_map"

record 'p refresh_store =
  st_scoped :: "(string, 'p domain_map) js_map"
  st_entries :: "(string, 'p domain_map) js_map"
  st_pending :: int
  st_listeners :: "nat list"
  st_notified :: "(nat \<times> 'p store_view) list"

definition empty_scoped_state :: "'p domain_snapshot" where
  "empty_scoped_state =
     \<lparr>ds_status = StatusIdle, ds_data = None, ds_stats = None, ds_version = None,
      ds_source_version = None, ds_source_versions = None, ds_signal_versions = None,
      ds_permission_denied = False, ds_checksum = None, ds_etag = None, ds_stream_revision = None,
      ds_stream_acknowledged = None, ds_query_reconcile = None, ds_last_updated = None,
      ds_last_manual = None, ds_last_auto = None, ds_error = None, ds_is_manual = False,
      ds_dropped_auto = 0, ds_scope = None\<rparr>"

definition empty_refresh_state :: "'p refresh_store" where
  "empty_refresh_state =
     \<lparr>st_scoped = [], st_entries = [], st_pending = 0, st_listeners = [], st_notified = []\<rparr>"

section \<open>Operations\<close>

definition publishState :: "'p refresh_store \<Rightarrow> 'p refresh_store" where
  "publishState st =
     st\<lparr>st_notified := st_notified st @ map (\<lambda>l. (l, st_scoped st, st_entries st)) (st_listeners st)\<rparr>"

definition subscribe :: "'p refresh_store \<Rightarrow> nat \<Rightarrow> 'p refresh_store" where
  "subscribe st listener =
     (if listener \<in> set (st_listeners st) then st
      else st\<lparr>st_listeners := st_listeners st @ [listener]\<rparr>)"

definition unsubscribe :: "'p refresh_store \<Rightarrow> nat \<Rightarrow> 'p refresh_store" where
  "unsubscribe st listener = st\<lparr>st_listeners := filter (\<lambda>l. l \<noteq> listener) (st_listeners st)\<rparr>"

definition getScopedDomainState :: "'p refresh_store \<Rightarrow> string \<Rightarrow> string \<Rightarrow> 'p domain_snapshot" where
  "getScopedDomainState st domain scope =
     (case map_of (st_scoped st) domain of
        None \<Rightarrow> empty_scoped_state
      | Some domainMap \<Rightarrow>
          (case map_of domainMap scope of None \<Rightarrow> empty_scoped_state | Some snapshot \<Rightarrow> snapshot))"

definition getScopedDomainStates :: "'p refresh_store \<Rightarrow> string \<Rightarrow> 'p domain_map" where
  "getScopedDomainStates st domain =
     (case map_of (st_scoped st) domain of None \<Rightarrow> [] | Some domainMap \<Rightarrow> domainMap)"

definition getScopedDomainEntries :: "'p refresh_store \<Rightarrow> string \<Rightarrow> 'p domain_map" where
  "getScopedDomainEntries st domain =
     (case map_of (st_entries st) domain of None \<Rightarrow> [] | Some entries \<Rightarrow> entries)"

definition publishScopedDomainStates ::
    "'p refresh_store \<Rightarrow> string \<Rightarrow> 'p domain_map \<Rightarrow> 'p refresh_store" where
  "publishScopedDomainStates st domain nextMap =
     (if nextMap = [] then
        publishState (st\<lparr>st_scoped := AList.delete domain (st_scoped st),
                         st_entries := AList.delete domain (st_entries st)\<rparr>)
      else
        publishState (st\<lparr>st_scoped := AList.update domain nextMap (st_scoped st),
                         st_entries := AList.update domain nextMap (st_entries st)\<rparr>))"

definition setScopedDomainState ::
    "'p refresh_store \<Rightarrow> string \<Rightarrow> string \<Rightarrow> ('p domain_snapshot \<Rightarrow> 'p domain_snapshot option) \<Rightarrow>
     'p refresh_store" where
  "setScopedDomainState st domain scope updater =
     (let currentMap = getScopedDomainStates st domain;
          previousState = (case map_of currentMap scope of
                             None \<Rightarrow> empty_scoped_state | Some snapshot \<Rightarrow> snapshot)
      in case updater previousState of
           None \<Rightarrow> st
         | Some nextState \<Rightarrow>
             publishScopedDomainStates st domain (AList.update scope nextState currentMap))"

definition resetScopedDomainState :: "'p refresh_store \<Rightarrow> string \<Rightarrow> string \<Rightarrow> 'p refresh_store" where
  "resetScopedDomainState st domain scope =
     (case map_of (st_scoped st) domain of
        None \<Rightarrow> st
      | Some currentMap \<Rightarrow>
          if map_of currentMap scope = None then st
          else publishScopedDomainStates st domain (AList.delete scope currentMap))"

definition resetAllScopedDomainStates :: "'p refresh_store \<Rightarrow> string \<Rightarrow> 'p refresh_store" where
  "resetAllScopedDomainStates st domain =
     (if map_of (st_scoped st) domain = None then st else publishScopedDomainStates st domain [])"

definition denied_scopes :: "'p refresh_store \<Rightarrow> string \<Rightarrow> (string \<times> string) list" where
  "denied_scopes st clusterId =
     concat (map (\<lambda>(domain, scopes).
         map (\<lambda>(scope, snapshot). (domain, scope))
           (filter (\<lambda>(scope, snapshot).
               ds_permission_denied snapshot \<and> fst (parseClusterScope scope) = clusterId) scopes))
       (st_scoped st))"

definition resetPermissionDeniedScopedDomainStates :: "'p refresh_store \<Rightarrow> string \<Rightarrow> 'p refresh_store" where
  "resetPermissionDeniedScopedDomainStates st clusterId =
     (if trim clusterId = [] then st
      else fold (\<lambda>(domain, scope) st. resetScopedDomainState st domain scope) (denied_scopes st clusterId) st)"

definition markPendingRequest :: "'p refresh_store \<Rightarrow> int \<Rightarrow> 'p refresh_store" where
  "markPendingRequest st delta =
     publishState (st\<lparr>st_pending := max 0 (st_pending st + delta)\<rparr>)"

lemmas [store_ops] = publishState_def publishScopedDomainStates_def setScopedDomainState_def
  resetScopedDomainState_def resetAllScopedDomainStates_def getScopedDomainState_def
  getScopedDomainStates_def getScopedDomainEntries_def

section \<open>Invariant and the keyed-store interface\<close>

text \<open>A view is consistent when both cached forms agree, keys are distinct and no domain is kept
  empty.\<close>

definition view_ok :: "'p store_view \<Rightarrow> bool" where
  "view_ok v \<longleftrightarrow> snd v = fst v \<and> distinct (map fst (fst v)) \<and>
     (\<forall>(d, m) \<in> set (fst v). m \<noteq> [] \<and> distinct (map fst m))"

definition store_inv :: "'p refresh_store \<Rightarrow> bool" where
  "store_inv st \<longleftrightarrow> view_ok (st_scoped st, st_entries st) \<and> 0 \<le> st_pending st \<and>
     distinct (st_listeners st) \<and> (\<forall>(l, v) \<in> set (st_notified st). view_ok v)"

definition store_lookup ::
    "'p refresh_store \<Rightarrow> string \<times> string \<Rightarrow> ((string \<times> string) \<times> 'p domain_snapshot) option" where
  "store_lookup st ds =
     map_option (Pair ds) (case map_of (st_scoped st) (fst ds) of None \<Rightarrow> None | Some m \<Rightarrow> map_of m (snd ds))"

definition store_put ::
    "'p refresh_store \<Rightarrow> (string \<times> string) \<times> 'p domain_snapshot \<Rightarrow> 'p refresh_store" where
  "store_put st v = setScopedDomainState st (fst (fst v)) (snd (fst v)) (\<lambda>_. Some (snd v))"

definition store_del :: "'p refresh_store \<Rightarrow> string \<times> string \<Rightarrow> 'p refresh_store" where
  "store_del st ds = resetScopedDomainState st (fst ds) (snd ds)"

lemma in_update:
  "kv \<in> set (AList.update k v m) \<Longrightarrow> kv = (k, v) \<or> kv \<in> set m"
  by (induction m) (auto split: if_splits)

lemma in_delete: "kv \<in> set (AList.delete k m) \<Longrightarrow> kv \<in> set m"
  by (auto simp: AList.delete_eq)

lemma publishState_inv: "store_inv st \<Longrightarrow> store_inv (publishState st)"
  by (auto simp: store_inv_def publishState_def)

lemma publish_inv:
  assumes "store_inv st" and "distinct (map fst m)"
  shows "store_inv (publishScopedDomainStates st d m)"
proof -
  have "store_inv (st\<lparr>st_scoped := AList.delete d (st_scoped st), st_entries := AList.delete d (st_entries st)\<rparr>)"
    using assms(1) by (auto simp: store_inv_def view_ok_def intro: distinct_delete dest!: in_delete)
  moreover have "store_inv (st\<lparr>st_scoped := AList.update d m (st_scoped st), st_entries := AList.update d m (st_entries st)\<rparr>)"
    if "m \<noteq> []"
    using assms that by (auto simp: store_inv_def view_ok_def intro: distinct_update dest!: in_update)
  ultimately show ?thesis by (simp add: publishScopedDomainStates_def publishState_inv)
qed

lemma states_distinct: "store_inv st \<Longrightarrow> distinct (map fst (getScopedDomainStates st d))"
  by (auto simp: store_inv_def view_ok_def getScopedDomainStates_def split: option.split dest!: map_of_SomeD)

lemma setScopedDomainState_inv: "store_inv st \<Longrightarrow> store_inv (setScopedDomainState st d s u)"
  by (auto simp: setScopedDomainState_def Let_def intro!: publish_inv distinct_update states_distinct
      split: option.split)

lemma resetScopedDomainState_inv: "store_inv st \<Longrightarrow> store_inv (resetScopedDomainState st d s)"
  using states_distinct [of st d]
  by (auto simp: resetScopedDomainState_def getScopedDomainStates_def intro!: publish_inv distinct_delete
      split: option.splits)

lemma scoped_publish:
  "map_of (st_scoped (publishScopedDomainStates st d m)) d' =
     (if d' = d then (if m = [] then None else Some m) else map_of (st_scoped st) d')"
  by (simp add: publishScopedDomainStates_def publishState_def js_map_simps)

lemma update_not_empty [simp]: "AList.update k v m \<noteq> []"
  by (cases m) auto

lemma delete_empty: "AList.delete k m = [] \<Longrightarrow> k' \<noteq> k \<Longrightarrow> map_of m k' = None"
  using map_of_delete [of k m] by (metis fun_upd_other map_of.simps(1))

interpretation snapshots: keyed_store_del store_lookup store_put fst Some store_inv store_del
proof
  fix st :: "'p refresh_store" and v ds
  assume inv: "store_inv st"
  show "store_lookup (store_put st v) = (store_lookup st)(fst v := Some v)"
    by (cases v) (auto simp: store_lookup_def store_put_def setScopedDomainState_def Let_def scoped_publish
        js_map_simps getScopedDomainStates_def fun_eq_iff split: option.split)
  show "store_lookup (store_del st ds) = (store_lookup st)(ds := None)"
    by (cases ds) (auto simp: store_lookup_def store_del_def resetScopedDomainState_def scoped_publish
        js_map_simps fun_eq_iff split: option.split dest: delete_empty)
  show "store_inv (store_put st v)" "store_inv (store_del st ds)"
    using inv by (simp_all add: store_put_def store_del_def setScopedDomainState_inv resetScopedDomainState_inv)
qed

lemma getScopedDomainState_lookup:
  "getScopedDomainState st d s =
     (case store_lookup st (d, s) of None \<Rightarrow> empty_scoped_state | Some v \<Rightarrow> snd v)"
  by (auto simp: getScopedDomainState_def store_lookup_def split: option.split)

lemma set_is_put:
  "setScopedDomainState st d s u =
     (case u (getScopedDomainState st d s) of None \<Rightarrow> st | Some x \<Rightarrow> store_put st ((d, s), x))"
  by (auto simp: setScopedDomainState_def store_put_def getScopedDomainState_def
      getScopedDomainStates_def Let_def split: option.split)

lemma denied_scopes_iff:
  assumes "store_inv st"
  shows "(d, s) \<in> set (denied_scopes st c) \<longleftrightarrow>
    ds_permission_denied (getScopedDomainState st d s) \<and> fst (parseClusterScope s) = c \<and>
    store_lookup st (d, s) \<noteq> None"
proof -
  have dist: "distinct (map fst (st_scoped st))" "\<And>d m. (d, m) \<in> set (st_scoped st) \<Longrightarrow> distinct (map fst m)"
    using assms by (auto simp: store_inv_def view_ok_def)
  have "(d, s) \<in> set (denied_scopes st c) \<longleftrightarrow>
      (\<exists>m x. (d, m) \<in> set (st_scoped st) \<and> (s, x) \<in> set m \<and> ds_permission_denied x \<and>
        fst (parseClusterScope s) = c)"
    by (force simp: denied_scopes_def)
  also have "\<dots> \<longleftrightarrow> (\<exists>m x. map_of (st_scoped st) d = Some m \<and> map_of m s = Some x \<and>
      ds_permission_denied x \<and> fst (parseClusterScope s) = c)"
    using dist by (metis map_of_in_set)
  also have "\<dots> \<longleftrightarrow> ds_permission_denied (getScopedDomainState st d s) \<and> fst (parseClusterScope s) = c \<and>
      store_lookup st (d, s) \<noteq> None"
    by (auto simp: getScopedDomainState_def store_lookup_def split: option.split)
  finally show ?thesis .
qed

section \<open>The store over a history of calls\<close>

inductive store_step :: "'p refresh_store \<Rightarrow> 'p refresh_store \<Rightarrow> bool" where
  store_set: "store_step st (setScopedDomainState st d s u)"
| store_reset: "store_step st (resetScopedDomainState st d s)"
| store_reset_all: "store_step st (resetAllScopedDomainStates st d)"
| store_reset_denied: "store_step st (resetPermissionDeniedScopedDomainStates st c)"
| store_pending: "store_step st (markPendingRequest st n)"
| store_subscribe: "store_step st (subscribe st l)"
| store_unsubscribe: "store_step st (unsubscribe st l)"

inductive store_reachable :: "'p refresh_store \<Rightarrow> bool" where
  store_start: "store_reachable empty_refresh_state"
| store_next: "store_reachable st \<Longrightarrow> store_step st st' \<Longrightarrow> store_reachable st'"

lemma reset_denied_sweep:
  "resetPermissionDeniedScopedDomainStates st c =
     (if trim c = [] then st else fold (\<lambda>ds st. store_del st ds) (denied_scopes st c) st)"
  by (simp add: resetPermissionDeniedScopedDomainStates_def store_del_def split_def)

lemma store_step_inv: "store_step st st' \<Longrightarrow> store_inv st \<Longrightarrow> store_inv st'"
proof (induction rule: store_step.induct)
  case (store_reset_denied st c)
  then show ?case by (simp add: reset_denied_sweep snapshots.inv_del_sweep)
next
  case (store_pending st n)
  then have "store_inv (st\<lparr>st_pending := max 0 (st_pending st + n)\<rparr>)" by (simp add: store_inv_def)
  then show ?case by (simp add: markPendingRequest_def publishState_inv)
qed (auto simp: setScopedDomainState_inv resetScopedDomainState_inv resetAllScopedDomainStates_def publish_inv,
    auto simp: store_inv_def subscribe_def unsubscribe_def)

section \<open>Properties\<close>

text \<open>C36: subscribers only ever see consistent snapshots. Whatever calls the store has served, in every
  state and at every notification a listener got, the map view and the cached entries view agree,
  each domain and scope occurs once, no empty domain is kept, and the pending counter is not
  negative.\<close>

theorem store_views_consistent:
  fixes st :: "'p refresh_store"
  assumes "store_reachable st"
  shows "store_inv st \<and>
    (\<forall>(l, v) \<in> set (st_notified st). view_ok v) \<and>
    getScopedDomainEntries st d = getScopedDomainStates st d"
proof -
  have "store_inv (empty_refresh_state :: 'p refresh_store)"
    by (simp add: store_inv_def view_ok_def empty_refresh_state_def)
  with assms have "store_inv st" by induction (auto intro: store_step_inv)
  then show ?thesis
    by (simp add: store_inv_def view_ok_def getScopedDomainEntries_def getScopedDomainStates_def)
qed

theorem store_views_consistent_witness:
  "store_inv (markPendingRequest (subscribe (empty_refresh_state :: nat refresh_store) 1) (- 2))"
proof -
  have "store_reachable (subscribe (empty_refresh_state :: nat refresh_store) 1)"
    by (rule store_next [OF store_start store_subscribe])
  then have "store_reachable (markPendingRequest (subscribe (empty_refresh_state :: nat refresh_store) 1) (- 2))"
    by (rule store_next [OF _ store_pending])
  from store_views_consistent [OF this] show ?thesis by simp
qed

text \<open>An update is local. After a scope is set or reset, a read of that scope returns the updater's
  result, or the empty snapshot after a reset, and a read of any other scope or domain is unchanged.\<close>

theorem store_update_is_local:
  assumes "store_inv st"
  shows "getScopedDomainState (setScopedDomainState st d s u) d' s' =
      (if (d', s') = (d, s)
       then (case u (getScopedDomainState st d s) of None \<Rightarrow> getScopedDomainState st d s | Some x \<Rightarrow> x)
       else getScopedDomainState st d' s') \<and>
    getScopedDomainState (resetScopedDomainState st d s) d' s' =
      (if (d', s') = (d, s) then empty_scoped_state else getScopedDomainState st d' s')"
proof -
  have "resetScopedDomainState st d s = store_del st (d, s)" by (simp add: store_del_def)
  with assms show ?thesis
    by (auto simp: getScopedDomainState_lookup set_is_put snapshots.lookup_put snapshots.lookup_del
        split: option.split)
qed

theorem store_update_is_local_witness:
  "getScopedDomainState (setScopedDomainState empty_refresh_state ''pods'' ''c|''
     (\<lambda>s. Some (s\<lparr>ds_data := Some (5 :: nat)\<rparr>))) ''pods'' ''c|'' = empty_scoped_state\<lparr>ds_data := Some 5\<rparr>"
proof -
  have "store_inv (empty_refresh_state :: nat refresh_store)"
    by (simp add: store_inv_def view_ok_def empty_refresh_state_def)
  from store_update_is_local [OF this, of "''pods''" "''c|''" "\<lambda>s. Some (s\<lparr>ds_data := Some 5\<rparr>)" "''pods''" "''c|''"]
  show ?thesis by (simp add: getScopedDomainState_def empty_refresh_state_def)
qed

text \<open>A permission epoch clears exactly its own cluster's denials. Resetting the denied snapshots of
  a cluster empties every scope of that cluster that was denied and leaves every other scope, of
  that cluster or another, as it was.\<close>

theorem denied_reset_is_exact:
  assumes "store_inv st" and "trim c \<noteq> []"
  shows "getScopedDomainState (resetPermissionDeniedScopedDomainStates st c) d s =
    (if ds_permission_denied (getScopedDomainState st d s) \<and> fst (parseClusterScope s) = c
     then empty_scoped_state else getScopedDomainState st d s)"
proof -
  have "store_lookup (resetPermissionDeniedScopedDomainStates st c) (d, s) =
      (if (d, s) \<in> set (denied_scopes st c) then None else store_lookup st (d, s))"
    using assms by (simp add: reset_denied_sweep snapshots.lookup_del_sweep)
  with denied_scopes_iff [OF assms(1), of d s c] show ?thesis
    by (auto simp: getScopedDomainState_lookup split: option.splits)
qed

theorem denied_reset_is_exact_witness:
  "getScopedDomainState (resetPermissionDeniedScopedDomainStates
     (setScopedDomainState (empty_refresh_state :: nat refresh_store) ''pods'' ''c|''
        (\<lambda>s. Some (s\<lparr>ds_permission_denied := True\<rparr>))) ''c'') ''pods'' ''c|'' = empty_scoped_state"
proof -
  let ?st = "setScopedDomainState (empty_refresh_state :: nat refresh_store) ''pods'' ''c|''
        (\<lambda>s. Some (s\<lparr>ds_permission_denied := True\<rparr>))"
  have "store_inv ?st"
    by (rule setScopedDomainState_inv) (simp add: store_inv_def view_ok_def empty_refresh_state_def)
  moreover have "trim ''c'' \<noteq> []" "fst (parseClusterScope ''c|'') = ''c''" by code_simp+
  moreover have "ds_permission_denied (getScopedDomainState ?st ''pods'' ''c|'')" by code_simp
  ultimately show ?thesis using denied_reset_is_exact [of ?st "''c''" "''pods''" "''c|''"] by simp
qed

end
