(* ===== verification/Snapshot_Merge.thy ===== *)
theory Snapshot_Merge
  imports Refresh_Store Json_Rows
begin

text \<open>
  Applying a polled snapshot over the stored one, \<open>core/refresh/snapshotMerge.ts\<close>: rows whose value did
  not change keep their object. A payload is one of the three list payloads the merge descriptors
  know, or any other.
\<close>

section \<open>Merging one list\<close>

text \<open>The rows of the previous list by key; a later row with a key replaces an earlier one, and rows
  with an empty key are left out.\<close>

definition rows_by_key :: "('r \<Rightarrow> string) \<Rightarrow> 'r list \<Rightarrow> (string, 'r) js_map" where
  "rows_by_key keyFor previous =
     fold (\<lambda>item m. let key = keyFor item in if key \<noteq> [] then AList.update key item m else m) previous []"

definition merge_row :: "('r \<Rightarrow> json) \<Rightarrow> ('r \<Rightarrow> string) \<Rightarrow> (string, 'r) js_map \<Rightarrow> 'r \<Rightarrow> 'r option" where
  "merge_row value_of keyFor byKey item =
     (let key = keyFor item
      in if key = [] then None
         else case map_of byKey key of
                Some cached \<Rightarrow>
                  if enumerableValuesEqual (value_of cached) (value_of item) then Some cached else None
              | None \<Rightarrow> None)"

text \<open>The flag says whether a row was reused; without it the source returns the incoming array.\<close>

definition mergeListByKey ::
    "('r \<Rightarrow> json) \<Rightarrow> 'r list \<Rightarrow> 'r list \<Rightarrow> ('r \<Rightarrow> string) \<Rightarrow> 'r list \<times> bool" where
  "mergeListByKey value_of incoming previous keyFor =
     (if incoming = [] \<or> previous = [] then (incoming, False)
      else let byKey = rows_by_key keyFor previous;
               reused = list_ex (\<lambda>item. merge_row value_of keyFor byKey item \<noteq> None) incoming;
               merged = map (\<lambda>item. case merge_row value_of keyFor byKey item of
                                       Some cached \<Rightarrow> cached | None \<Rightarrow> item) incoming
           in (if reused then merged else incoming, reused))"

section \<open>Payloads and descriptors\<close>

record maintenance_row =
  mr_id :: nat
  mr_cluster :: "string option"
  mr_drain :: string
  mr_fields :: "(string \<times> json) list"

definition maintenance_value :: "maintenance_row \<Rightarrow> json" where
  "maintenance_value row =
     JObject (optional_field ''clusterId'' (mr_cluster row) @ [(''id'', JString (mr_drain row))] @ mr_fields row)"

datatype list_payload =
    NamespacesPayload string "resource_row list option"
  | MaintenancePayload string "maintenance_row list option"
  | CatalogPayload string "resource_row list option"
  | OtherPayload json

record ('p, 'r) merge_descriptor =
  md_previous :: "string option \<Rightarrow> 'p option"
  md_rows :: "'p \<Rightarrow> 'r list"
  md_with_rows :: "'p \<Rightarrow> 'r list \<Rightarrow> 'p"
  md_key :: "'r \<Rightarrow> 'p \<Rightarrow> string"

definition mergePollingPayloadWithDescriptor ::
    "('r \<Rightarrow> json) \<Rightarrow> 'p \<Rightarrow> string option \<Rightarrow> ('p, 'r) merge_descriptor \<Rightarrow> 'p" where
  "mergePollingPayloadWithDescriptor value_of payload scope descriptor =
     (case md_previous descriptor scope of
        None \<Rightarrow> payload
      | Some previous \<Rightarrow>
          let previousRows = md_rows descriptor previous
          in if previousRows = [] then payload
             else case mergeListByKey value_of (md_rows descriptor payload) previousRows
                         (\<lambda>entry. md_key descriptor entry payload) of
                    (merged, reused) \<Rightarrow>
                      if reused then md_with_rows descriptor payload merged else payload)"

definition stored_payload ::
    "list_payload refresh_store \<Rightarrow> string \<Rightarrow> string option \<Rightarrow> list_payload option" where
  "stored_payload st domain scope =
     (case scope of
        None \<Rightarrow> None
      | Some s \<Rightarrow> if s = [] then None else ds_data (getScopedDomainState st domain s))"

fun payload_cluster :: "list_payload \<Rightarrow> string" where
  "payload_cluster (NamespacesPayload c _) = c"
| "payload_cluster (MaintenancePayload c _) = c"
| "payload_cluster (CatalogPayload c _) = c"
| "payload_cluster (OtherPayload _) = []"

definition or_empty :: "'a list option \<Rightarrow> 'a list" where
  "or_empty xs = (case xs of None \<Rightarrow> [] | Some ys \<Rightarrow> ys)"

definition namespacesDescriptor :: "list_payload refresh_store \<Rightarrow> (list_payload, resource_row) merge_descriptor" where
  "namespacesDescriptor st =
     \<lparr>md_previous = stored_payload st ''namespaces'',
      md_rows = (\<lambda>p. case p of NamespacesPayload _ rows \<Rightarrow> or_empty rows | _ \<Rightarrow> []),
      md_with_rows = (\<lambda>p rows. case p of NamespacesPayload c _ \<Rightarrow> NamespacesPayload c (Some rows) | _ \<Rightarrow> p),
      md_key = (\<lambda>row p. buildClusterNameRowKey (Some (cf_cluster (rr_ref row))) (Some (cf_name (rr_ref row))))\<rparr>"

definition maintenanceDescriptor ::
    "list_payload refresh_store \<Rightarrow> (list_payload, maintenance_row) merge_descriptor" where
  "maintenanceDescriptor st =
     \<lparr>md_previous = stored_payload st ''object-maintenance'',
      md_rows = (\<lambda>p. case p of MaintenancePayload _ rows \<Rightarrow> or_empty rows | _ \<Rightarrow> []),
      md_with_rows = (\<lambda>p rows. case p of MaintenancePayload c _ \<Rightarrow> MaintenancePayload c (Some rows) | _ \<Rightarrow> p),
      md_key = (\<lambda>row p. buildClusterNameRowKey
         (Some (case mr_cluster row of Some c \<Rightarrow> c | None \<Rightarrow> payload_cluster p)) (Some (mr_drain row)))\<rparr>"

definition catalog_row_key :: "resource_row \<Rightarrow> string" where
  "catalog_row_key row =
     (let ref = rr_ref row; clusterId = Some (cf_cluster ref)
      in case cf_uid ref of
           Some uid \<Rightarrow>
             if uid \<noteq> [] then buildClusterNameRowKey clusterId (Some uid)
             else buildCatalogResourceRowKey clusterId (Some (cf_group ref)) (Some (cf_version ref))
                    (Some (cf_resource ref)) (cf_namespace ref) (Some (cf_name ref))
         | None \<Rightarrow> buildCatalogResourceRowKey clusterId (Some (cf_group ref)) (Some (cf_version ref))
                    (Some (cf_resource ref)) (cf_namespace ref) (Some (cf_name ref)))"

definition catalogDescriptor :: "list_payload refresh_store \<Rightarrow> (list_payload, resource_row) merge_descriptor" where
  "catalogDescriptor st =
     \<lparr>md_previous = stored_payload st ''catalog-diff'',
      md_rows = (\<lambda>p. case p of CatalogPayload _ rows \<Rightarrow> or_empty rows | _ \<Rightarrow> []),
      md_with_rows = (\<lambda>p rows. case p of CatalogPayload c _ \<Rightarrow> CatalogPayload c (Some rows) | _ \<Rightarrow> p),
      md_key = (\<lambda>row p. catalog_row_key row)\<rparr>"

definition mergePollingListPayload ::
    "list_payload refresh_store \<Rightarrow> string \<Rightarrow> list_payload \<Rightarrow> string option \<Rightarrow> list_payload" where
  "mergePollingListPayload st domain payload scope =
     (if domain = ''namespaces'' then
        mergePollingPayloadWithDescriptor row_value payload scope (namespacesDescriptor st)
      else if domain = ''object-maintenance'' then
        mergePollingPayloadWithDescriptor maintenance_value payload scope (maintenanceDescriptor st)
      else if domain = ''catalog-diff'' then
        mergePollingPayloadWithDescriptor row_value payload scope (catalogDescriptor st)
      else payload)"

section \<open>What merging keeps\<close>

lemma rows_by_key_append:
  "map_of (rows_by_key keyFor (previous @ [item])) =
     (if keyFor item = [] then map_of (rows_by_key keyFor previous)
      else (map_of (rows_by_key keyFor previous))(keyFor item \<mapsto> item))"
  by (simp add: rows_by_key_def Let_def map_of_update)

lemma rows_by_key_origin:
  "map_of (rows_by_key keyFor previous) key = Some row \<Longrightarrow> row \<in> set previous \<and> keyFor row = key"
proof (induction previous rule: rev_induct)
  case (snoc item previous)
  then show ?case
    by (simp add: rows_by_key_append split: if_splits)
qed (simp add: rows_by_key_def)

lemma rows_by_key_hit:
  assumes "prev \<in> set previous" and "distinct (map keyFor previous)" and "keyFor prev \<noteq> []"
  shows "map_of (rows_by_key keyFor previous) (keyFor prev) = Some prev"
  using assms
proof (induction previous rule: rev_induct)
  case (snoc x xs)
  show ?case
  proof (cases "prev = x")
    case False
    then have "prev \<in> set xs" and "keyFor x \<noteq> keyFor prev" using snoc.prems by auto
    with snoc show ?thesis by (simp add: rows_by_key_append)
  qed (use snoc.prems in \<open>simp add: rows_by_key_append\<close>)
qed simp

text \<open>Each row of the result has the value of the incoming row at its place, and is that row or a row of
  the previous list under the same key.\<close>

definition merged_row :: "('r \<Rightarrow> json) \<Rightarrow> ('r \<Rightarrow> string) \<Rightarrow> 'r list \<Rightarrow> 'r \<Rightarrow> 'r \<Rightarrow> bool" where
  "merged_row value_of keyFor previous out item \<longleftrightarrow>
     enumerableValuesEqual (value_of out) (value_of item) \<and>
     (out = item \<or> out \<in> set previous \<and> keyFor out = keyFor item)"

lemma mergeListByKey_rows:
  assumes "\<forall>item \<in> set incoming. wf_json (value_of item)"
  shows "list_all2 (merged_row value_of keyFor previous) (fst (mergeListByKey value_of incoming previous keyFor)) incoming"
proof -
  have self: "list_all2 (merged_row value_of keyFor previous) incoming incoming"
    using assms by (auto simp: list_all2_same merged_row_def deep_refl)
  have "merged_row value_of keyFor previous
      (case merge_row value_of keyFor (rows_by_key keyFor previous) item of Some cached \<Rightarrow> cached | None \<Rightarrow> item) item"
    if "item \<in> set incoming" for item
    using that assms
    by (auto simp: merged_row_def merge_row_def Let_def deep_refl dest: rows_by_key_origin split: option.splits if_splits)
  then have "list_all2 (merged_row value_of keyFor previous)
      (map (\<lambda>item. case merge_row value_of keyFor (rows_by_key keyFor previous) item of
         Some cached \<Rightarrow> cached | None \<Rightarrow> item) incoming) incoming"
    by (simp add: list_all2_map1 list_all2_same)
  with self show ?thesis by (simp add: mergeListByKey_def Let_def)
qed

lemma mergeListByKey_reuses:
  assumes "item \<in> set incoming" and "keyFor item \<noteq> []" and "prev \<in> set previous"
    and "keyFor prev = keyFor item" and "enumerableValuesEqual (value_of prev) (value_of item)"
    and "distinct (map keyFor previous)"
  shows "snd (mergeListByKey value_of incoming previous keyFor) \<and>
    prev \<in> set (fst (mergeListByKey value_of incoming previous keyFor))"
proof -
  have "map_of (rows_by_key keyFor previous) (keyFor item) = Some prev"
    using rows_by_key_hit [OF assms(3,6)] assms(2,4) by simp
  then have hit: "merge_row value_of keyFor (rows_by_key keyFor previous) item = Some prev"
    using assms by (simp add: merge_row_def)
  have "list_ex (\<lambda>item. merge_row value_of keyFor (rows_by_key keyFor previous) item \<noteq> None) incoming"
    using hit assms(1) by (auto simp: list_ex_iff)
  moreover have "prev \<in> set (map (\<lambda>item. case merge_row value_of keyFor (rows_by_key keyFor previous) item of
         Some cached \<Rightarrow> cached | None \<Rightarrow> item) incoming)"
    using hit assms(1) by force
  moreover have "incoming \<noteq> []" "previous \<noteq> []" using assms(1,3) by auto
  ultimately show ?thesis by (simp add: mergeListByKey_def Let_def)
qed

text \<open>Two payloads show the same: same kind, same cluster, and the rows agree value by value.\<close>

definition same_rows :: "('r \<Rightarrow> json) \<Rightarrow> 'r list option \<Rightarrow> 'r list option \<Rightarrow> bool" where
  "same_rows value_of a b \<longleftrightarrow>
     list_all2 (\<lambda>x y. enumerableValuesEqual (value_of x) (value_of y)) (or_empty a) (or_empty b)"

fun same_payload :: "list_payload \<Rightarrow> list_payload \<Rightarrow> bool" where
  "same_payload (NamespacesPayload c a) (NamespacesPayload c' b) = (c = c' \<and> same_rows row_value a b)"
| "same_payload (MaintenancePayload c a) (MaintenancePayload c' b) = (c = c' \<and> same_rows maintenance_value a b)"
| "same_payload (CatalogPayload c a) (CatalogPayload c' b) = (c = c' \<and> same_rows row_value a b)"
| "same_payload (OtherPayload a) (OtherPayload b) = (a = b)"
| "same_payload _ _ = False"

fun wf_payload :: "list_payload \<Rightarrow> bool" where
  "wf_payload (NamespacesPayload c a) = (\<forall>r \<in> set (or_empty a). wf_json (row_value r))"
| "wf_payload (MaintenancePayload c a) = (\<forall>r \<in> set (or_empty a). wf_json (maintenance_value r))"
| "wf_payload (CatalogPayload c a) = (\<forall>r \<in> set (or_empty a). wf_json (row_value r))"
| "wf_payload (OtherPayload a) = True"

lemma same_payload_refl: "wf_payload p \<Longrightarrow> same_payload p p"
  by (cases p) (auto simp: same_rows_def list_all2_same deep_refl)

lemma merge_with_descriptor:
  assumes "\<forall>item \<in> set (md_rows desc payload). wf_json (value_of item)"
  shows "mergePollingPayloadWithDescriptor value_of payload scope desc = payload \<or>
    (\<exists>rows. mergePollingPayloadWithDescriptor value_of payload scope desc = md_with_rows desc payload rows \<and>
       list_all2 (\<lambda>x y. enumerableValuesEqual (value_of x) (value_of y)) rows (md_rows desc payload))"
proof (cases "md_previous desc scope")
  case None
  then show ?thesis by (simp add: mergePollingPayloadWithDescriptor_def)
next
  case (Some previous)
  let ?merge = "mergeListByKey value_of (md_rows desc payload) (md_rows desc previous) (\<lambda>entry. md_key desc entry payload)"
  have "list_all2 (\<lambda>x y. enumerableValuesEqual (value_of x) (value_of y)) (fst ?merge) (md_rows desc payload)"
    by (rule list_all2_mono [OF mergeListByKey_rows [OF assms]]) (simp add: merged_row_def)
  moreover obtain rows reused where merge: "?merge = (rows, reused)" by fastforce
  moreover have "mergePollingPayloadWithDescriptor value_of payload scope desc =
      (if md_rows desc previous = [] \<or> \<not> reused then payload else md_with_rows desc payload rows)"
    using Some merge by (simp add: mergePollingPayloadWithDescriptor_def Let_def)
  ultimately show ?thesis by auto
qed

section \<open>Properties\<close>

text \<open>Merging a polled payload over the stored one never shows stale data: for every domain and
  scope, and whatever the store holds, the merged payload has the same kind and cluster, and its rows
  have, position by position, the values of the incoming rows.\<close>

theorem merged_payload_shows_incoming:
  assumes "wf_payload payload"
  shows "same_payload (mergePollingListPayload st domain payload scope) payload"
proof -
  have refl: "same_payload payload payload" by (rule same_payload_refl [OF assms])
  have ns: "same_payload (mergePollingPayloadWithDescriptor row_value payload scope (namespacesDescriptor st)) payload"
    using merge_with_descriptor [of "namespacesDescriptor st" payload row_value scope] assms refl
    by (cases payload) (auto simp: namespacesDescriptor_def same_rows_def or_empty_def)
  have ma: "same_payload (mergePollingPayloadWithDescriptor maintenance_value payload scope (maintenanceDescriptor st)) payload"
    using merge_with_descriptor [of "maintenanceDescriptor st" payload maintenance_value scope] assms refl
    by (cases payload) (auto simp: maintenanceDescriptor_def same_rows_def or_empty_def)
  have ca: "same_payload (mergePollingPayloadWithDescriptor row_value payload scope (catalogDescriptor st)) payload"
    using merge_with_descriptor [of "catalogDescriptor st" payload row_value scope] assms refl
    by (cases payload) (auto simp: catalogDescriptor_def same_rows_def or_empty_def)
  show ?thesis using ns ma ca refl by (simp add: mergePollingListPayload_def)
qed

theorem merged_payload_shows_incoming_witness:
  "same_payload (mergePollingListPayload
      (setScopedDomainState empty_refresh_state ''namespaces'' ''c|''
         (\<lambda>s. Some (s\<lparr>ds_data := Some (NamespacesPayload ''c'' (Some [sample_row 1 ''a'']))\<rparr>)))
      ''namespaces'' (NamespacesPayload ''c'' (Some [sample_row 2 ''a''])) (Some ''c|''))
    (NamespacesPayload ''c'' (Some [sample_row 2 ''a'']))"
  by (rule merged_payload_shows_incoming)
    (simp add: or_empty_def sample_row_def row_value_def ref_json_def optional_field_def)

text \<open>An unchanged row keeps its object. When a row with a non-empty key has the value of the one
  previous row with that key, the merged list holds the previous row's object.\<close>

theorem merge_reuses_unchanged_rows:
  assumes "item \<in> set incoming" and "keyFor item \<noteq> []" and "prev \<in> set previous"
    and "keyFor prev = keyFor item" and "enumerableValuesEqual (value_of prev) (value_of item)"
    and "distinct (map keyFor previous)"
  shows "prev \<in> set (fst (mergeListByKey value_of incoming previous keyFor))"
  using mergeListByKey_reuses [OF assms] by simp

theorem merge_reuses_unchanged_rows_witness:
  "sample_row 1 ''a'' \<in> set (fst (mergeListByKey row_value [sample_row 2 ''a''] [sample_row 1 ''a'', sample_row 3 ''b''] catalog_row_key))"
  by (rule merge_reuses_unchanged_rows [of "sample_row 2 ''a''"])
    (simp_all add: sample_row_def row_value_def ref_json_def optional_field_def catalog_row_key_def Let_def
      buildCatalogResourceRowKey_def valueOrEmpty_def)

end
