(* ===== verification/Cursor_Walk.thy ===== *)
theory Cursor_Walk
  imports Prelude
begin

text \<open>
  The cursor walk behind every "all matching rows" download, \<open>modules/resource-grid/cursorPageWalk.ts\<close>.
  The caller's \<open>fetchPage\<close> is a parameter: a function of the cursor and of the page number, which
  increases with every call, so it may answer differently each time. It rejects (\<open>Inl\<close>), has nothing
  to walk (\<open>None\<close>), or returns a page.
\<close>

section \<open>The walk\<close>

record 'a walk_page =
  wp_items :: "'a list"
  wp_token :: "string option"
  wp_clock :: "string option"

record 'a walk_state =
  ws_collected :: "'a list"
  ws_cursor :: "string option"
  ws_clock :: "string option"
  ws_restarted :: bool
  ws_drifted :: bool

datatype 'a walk_outcome =
    WalkResult "'a list" bool
  | WalkRejected string
  | CursorDidNotAdvance

type_synonym 'a fetch_page = "string option \<Rightarrow> nat \<Rightarrow> string + 'a walk_page option"

datatype clock_verdict = ContinueWalk | RestartWalk

definition max_cursor_walk_pages :: nat where
  "max_cursor_walk_pages = 100000"

definition observeSourceClock ::
    "'a walk_state \<Rightarrow> string option \<Rightarrow> 'a walk_state \<times> clock_verdict" where
  "observeSourceClock st sourceVersion =
     (case sourceVersion of
        None \<Rightarrow> (st, ContinueWalk)
      | Some clock \<Rightarrow>
          if ws_clock st = None then (st\<lparr>ws_clock := Some clock\<rparr>, ContinueWalk)
          else if Some clock = ws_clock st then (st, ContinueWalk)
          else if \<not> ws_restarted st then
            (st\<lparr>ws_restarted := True, ws_collected := [], ws_cursor := None, ws_clock := None\<rparr>, RestartWalk)
          else (st\<lparr>ws_drifted := True, ws_clock := Some clock\<rparr>, ContinueWalk))"

definition createCursorWalkState :: "'a walk_state" where
  "createCursorWalkState =
     \<lparr>ws_collected = [], ws_cursor = None, ws_clock = None, ws_restarted = False, ws_drifted = False\<rparr>"

text \<open>A continue token counts when it is there and not empty.\<close>

definition has_token :: "'a walk_page \<Rightarrow> bool" where
  "has_token page \<longleftrightarrow> wp_token page \<noteq> None \<and> wp_token page \<noteq> Some []"

definition after_loop :: "'a walk_state \<Rightarrow> 'a walk_outcome" where
  "after_loop st =
     (if ws_cursor st \<noteq> None then CursorDidNotAdvance else WalkResult (ws_collected st) (ws_drifted st))"

fun walk_loop :: "'a fetch_page \<Rightarrow> nat \<Rightarrow> nat \<Rightarrow> 'a walk_state \<Rightarrow> 'a walk_outcome" where
  "walk_loop fetchPage 0 page st = after_loop st"
| "walk_loop fetchPage (Suc left) page st =
     (case fetchPage (ws_cursor st) page of
        Inl e \<Rightarrow> WalkRejected e
      | Inr None \<Rightarrow> after_loop st
      | Inr (Some result) \<Rightarrow>
          (case observeSourceClock st (wp_clock result) of
             (st', RestartWalk) \<Rightarrow> walk_loop fetchPage left (page + 1) st'
           | (st', ContinueWalk) \<Rightarrow>
               let collected = ws_collected st' @ wp_items result
               in if \<not> has_token result then WalkResult collected (ws_drifted st')
                  else walk_loop fetchPage left (page + 1)
                         (st'\<lparr>ws_collected := collected, ws_cursor := wp_token result\<rparr>)))"

definition walkQueryCursorPages :: "'a fetch_page \<Rightarrow> 'a walk_outcome" where
  "walkQueryCursorPages fetchPage =
     walk_loop fetchPage max_cursor_walk_pages 0 createCursorWalkState"

section \<open>Runs of pages\<close>

text \<open>The pages served one after the other from a page number and a cursor, each following the token of
  the one before; a complete run ends on a page without a token.\<close>

fun serves :: "'a fetch_page \<Rightarrow> nat \<Rightarrow> string option \<Rightarrow> 'a walk_page list \<Rightarrow> bool" where
  "serves fetchPage k cursor [] = True"
| "serves fetchPage k cursor (p # ps) =
     (fetchPage cursor k = Inr (Some p) \<and> serves fetchPage (Suc k) (wp_token p) ps)"

definition complete_run :: "'a fetch_page \<Rightarrow> nat \<Rightarrow> 'a walk_page list \<Rightarrow> bool" where
  "complete_run fetchPage k ps \<longleftrightarrow>
     ps \<noteq> [] \<and> serves fetchPage k None ps \<and> (\<forall>p \<in> set (butlast ps). has_token p) \<and> \<not> has_token (last ps)"

definition one_clock :: "'a walk_page list \<Rightarrow> bool" where
  "one_clock ps \<longleftrightarrow> (\<forall>p \<in> set ps. \<forall>q \<in> set ps. wp_clock p = None \<or> wp_clock q = None \<or> wp_clock p = wp_clock q)"

lemma serves_snoc:
  "serves f k c (ps @ [p]) \<longleftrightarrow>
     serves f k c ps \<and> f (if ps = [] then c else wp_token (last ps)) (k + length ps) = Inr (Some p)"
proof (induction ps arbitrary: k c)
  case (Cons q qs)
  then show ?case by (cases qs) simp_all
qed simp

text \<open>The first pages of a source whose clock moves: all but the last page carry one clock and a token, and the last
  page carries another clock. The walk restarts after such a run.\<close>

definition drift_run :: "'a fetch_page \<Rightarrow> 'a walk_page list \<Rightarrow> bool" where
  "drift_run fetchPage ps \<longleftrightarrow>
     ps \<noteq> [] \<and> serves fetchPage 0 None ps \<and> (\<forall>p \<in> set (butlast ps). has_token p) \<and> one_clock (butlast ps) \<and>
     wp_clock (last ps) \<noteq> None \<and>
     (\<exists>p \<in> set (butlast ps). wp_clock p \<noteq> None \<and> wp_clock p \<noteq> wp_clock (last ps))"

text \<open>The state of a walk that has collected the pages \<open>ps\<close> since its (re)start at page \<open>j\<close>.\<close>

definition collects :: "'a fetch_page \<Rightarrow> nat \<Rightarrow> 'a walk_page list \<Rightarrow> nat \<Rightarrow> 'a walk_state \<Rightarrow> bool" where
  "collects f j ps k st \<longleftrightarrow>
     serves f j None ps \<and> k = j + length ps \<and> (\<forall>p \<in> set ps. has_token p) \<and>
     ws_collected st = concat (map wp_items ps) \<and>
     ws_cursor st = (if ps = [] then None else wp_token (last ps)) \<and>
     (ws_clock st = None \<longrightarrow> (\<forall>p \<in> set ps. wp_clock p = None)) \<and>
     (ws_clock st \<noteq> None \<longrightarrow> (\<exists>p \<in> set ps. wp_clock p = ws_clock st)) \<and>
     (\<not> ws_drifted st \<longrightarrow> (\<forall>p \<in> set ps. wp_clock p = None \<or> wp_clock p = ws_clock st)) \<and>
     (ps = [] \<longrightarrow> \<not> ws_drifted st) \<and>
     (if ws_restarted st then \<exists>qs. drift_run f qs \<and> j = length qs else j = 0 \<and> \<not> ws_drifted st)"

text \<open>One page: the walk ends, restarts, or collects one more page.\<close>

lemma observe_continue:
  assumes "observeSourceClock st clock = (st', ContinueWalk)"
  shows "ws_collected st' = ws_collected st" "ws_cursor st' = ws_cursor st"
    "ws_clock st' = (if clock = None then ws_clock st else clock)" "ws_restarted st' = ws_restarted st"
    "\<not> ws_drifted st' \<Longrightarrow> \<not> ws_drifted st \<and> (ws_clock st = None \<or> clock = None \<or> clock = ws_clock st)"
    "\<not> ws_restarted st \<Longrightarrow> ws_drifted st' = ws_drifted st"
  using assms by (auto simp: observeSourceClock_def split: option.splits if_splits)

lemma observe_restart:
  assumes "observeSourceClock st clock = (st', RestartWalk)"
  shows "clock \<noteq> None" "ws_clock st \<noteq> None" "clock \<noteq> ws_clock st" "\<not> ws_restarted st"
    "st' = st\<lparr>ws_restarted := True, ws_collected := [], ws_cursor := None, ws_clock := None\<rparr>"
  using assms by (auto simp: observeSourceClock_def split: option.splits if_splits)

lemma collects_restart:
  assumes "collects f j ps k st" and "f (ws_cursor st) k = Inr (Some r)"
    and "observeSourceClock st (wp_clock r) = (st', RestartWalk)"
  shows "collects f (k + 1) [] (k + 1) st'"
proof -
  note obs = observe_restart [OF assms(3)]
  have start: "j = 0" "\<not> ws_drifted st" using assms(1) obs(4) by (auto simp: collects_def)
  have same: "\<forall>p \<in> set ps. wp_clock p = None \<or> wp_clock p = ws_clock st"
    using assms(1) start(2) by (simp add: collects_def)
  obtain p where p: "p \<in> set ps" "wp_clock p = ws_clock st" using assms(1) obs(2) by (auto simp: collects_def)
  have "serves f 0 None (ps @ [r])" using assms(1,2) start(1) by (simp add: collects_def serves_snoc)
  moreover have "one_clock ps" using same unfolding one_clock_def by metis
  moreover have "\<forall>p \<in> set ps. has_token p" using assms(1) by (simp add: collects_def)
  moreover have "\<exists>p \<in> set ps. wp_clock p \<noteq> None \<and> wp_clock p \<noteq> wp_clock r"
    using p obs(2,3) by (intro bexI [OF _ p(1)]) auto
  ultimately have "drift_run f (ps @ [r])" using obs(1) by (simp add: drift_run_def)
  moreover have "k + 1 = length (ps @ [r])" using assms(1) start(1) by (simp add: collects_def)
  ultimately have "\<exists>qs. drift_run f qs \<and> k + 1 = length qs" by blast
  with start(2) obs(5) show ?thesis by (simp add: collects_def)
qed

lemma clock_kept:
  assumes "collects f j ps k st" and "observeSourceClock st (wp_clock r) = (st', ContinueWalk)"
    and "\<not> ws_drifted st'" and "p \<in> set (ps @ [r])" and "wp_clock p \<noteq> None"
  shows "wp_clock p = ws_clock st'"
proof -
  have st: "\<not> ws_drifted st" "ws_clock st = None \<or> wp_clock r = None \<or> wp_clock r = ws_clock st"
    using observe_continue(5) [OF assms(2,3)] by auto
  have ps: "wp_clock q = None \<or> wp_clock q = ws_clock st" if "q \<in> set ps" for q
    using assms(1) st(1) that unfolding collects_def by blast
  show ?thesis
  proof (cases "p = r")
    case True
    with assms(5) observe_continue(3) [OF assms(2)] show ?thesis by auto
  next
    case False
    with assms(4) have mem: "p \<in> set ps" by simp
    with ps [OF mem] assms(5) have p: "wp_clock p = ws_clock st" by simp
    with assms(5) st(2) observe_continue(3) [OF assms(2)] show ?thesis by auto
  qed
qed

lemma collects_more:
  assumes "collects f j ps k st" and "f (ws_cursor st) k = Inr (Some r)"
    and "observeSourceClock st (wp_clock r) = (st', ContinueWalk)" and "has_token r"
  shows "collects f j (ps @ [r]) (k + 1) (st'\<lparr>ws_collected := ws_collected st' @ wp_items r, ws_cursor := wp_token r\<rparr>)"
proof -
  note obs = observe_continue [OF assms(3)]
  have "serves f j None (ps @ [r])" "k + 1 = j + length (ps @ [r])" "\<forall>p \<in> set (ps @ [r]). has_token p"
    "ws_collected st' @ wp_items r = concat (map wp_items (ps @ [r]))"
    using assms(1,2,4) obs(1) by (auto simp: collects_def serves_snoc split: if_splits)
  moreover have "\<forall>p \<in> set (ps @ [r]). wp_clock p = None" if "ws_clock st' = None"
  proof -
    have "wp_clock r = None" "ws_clock st = None" using that obs(3) by (cases "wp_clock r"; simp)+
    moreover have "ws_clock st = None \<longrightarrow> (\<forall>p \<in> set ps. wp_clock p = None)"
      using assms(1) unfolding collects_def by blast
    ultimately show ?thesis by simp
  qed
  moreover have "\<forall>p \<in> set (ps @ [r]). wp_clock p = None \<or> wp_clock p = ws_clock st'" if "\<not> ws_drifted st'"
    using clock_kept [OF assms(1,3) that] by blast
  moreover have "\<exists>p \<in> set (ps @ [r]). wp_clock p = ws_clock st'" if "ws_clock st' \<noteq> None"
    using assms(1) obs(3) that by (auto simp: collects_def split: if_splits)
  moreover have "if ws_restarted st' then \<exists>qs. drift_run f qs \<and> j = length qs else j = 0 \<and> \<not> ws_drifted st'"
    using assms(1) obs(4,6) by (auto simp: collects_def)
  ultimately show ?thesis by (simp add: collects_def)
qed

text \<open>What a walk of at most \<open>m\<close> pages can return.\<close>

definition walk_result_ok :: "'a fetch_page \<Rightarrow> nat \<Rightarrow> 'a list \<Rightarrow> bool \<Rightarrow> bool" where
  "walk_result_ok f m items drifted \<longleftrightarrow>
     (\<exists>j ps. complete_run f j ps \<and> (j = 0 \<or> (\<exists>qs. drift_run f qs \<and> j = length qs)) \<and>
        items = concat (map wp_items ps) \<and> (\<not> drifted \<longrightarrow> one_clock ps)) \<or>
     items = [] \<and> \<not> drifted \<and>
       (f None 0 = Inr None \<or>
        (\<exists>qs. drift_run f qs \<and> (length qs = m \<or> length qs < m \<and> f None (length qs) = Inr None)))"

lemma walk_loop_sound:
  assumes "collects f j ps k st" and "walk_loop f n k st = WalkResult items drifted" and "0 < k + n"
  shows "walk_result_ok f (k + n) items drifted"
  using assms
proof (induction n arbitrary: j ps k st)
  case 0
  then have "ps = []" "items = []" "drifted = ws_drifted st"
    by (auto simp: after_loop_def collects_def has_token_def split: if_splits)
  with 0 show ?case by (auto simp: collects_def walk_result_ok_def split: if_splits)
next
  case (Suc n)
  consider (none) "f (ws_cursor st) k = Inr None" | (page) r where "f (ws_cursor st) k = Inr (Some r)"
    using Suc.prems(2) by (cases "f (ws_cursor st) k") (auto split: sum.splits option.splits)
  then show ?case
  proof cases
    case none
    then have "ws_cursor st = None" "ps = []" "items = []" "drifted = ws_drifted st"
      using Suc.prems by (auto simp: after_loop_def collects_def has_token_def split: if_splits)
    with none Suc.prems(1) show ?thesis by (auto simp: collects_def walk_result_ok_def split: if_splits)
  next
    case (page r)
    obtain st' v where obs: "observeSourceClock st (wp_clock r) = (st', v)" by fastforce
    show ?thesis
    proof (cases v)
      case RestartWalk
      with obs Suc.prems(2) page have "walk_loop f n (k + 1) st' = WalkResult items drifted" by simp
      with Suc.IH [OF collects_restart [OF Suc.prems(1) page]] obs RestartWalk show ?thesis by simp
    next
      case ContinueWalk
      note obs = obs [unfolded ContinueWalk]
      show ?thesis
      proof (cases "has_token r")
        case True
        with obs Suc.prems(2) page have "walk_loop f n (k + 1)
            (st'\<lparr>ws_collected := ws_collected st' @ wp_items r, ws_cursor := wp_token r\<rparr>) = WalkResult items drifted"
          by (simp add: Let_def)
        with Suc.IH [OF collects_more [OF Suc.prems(1) page obs True]] show ?thesis by simp
      next
        case False
        with obs Suc.prems(2) page have res: "items = ws_collected st' @ wp_items r" "drifted = ws_drifted st'"
          by (simp_all add: Let_def)
        have "complete_run f j (ps @ [r])"
          using Suc.prems(1) page False by (auto simp: complete_run_def collects_def serves_snoc split: if_splits)
        moreover have "one_clock (ps @ [r])" if "\<not> drifted"
          using clock_kept [OF Suc.prems(1) obs] that res(2) unfolding one_clock_def by metis
        moreover have "items = concat (map wp_items (ps @ [r]))"
          using res(1) Suc.prems(1) observe_continue(1) [OF obs] by (simp add: collects_def)
        moreover have "j = 0 \<or> (\<exists>qs. drift_run f qs \<and> j = length qs)"
          using Suc.prems(1) by (auto simp: collects_def split: if_splits)
        ultimately show ?thesis unfolding walk_result_ok_def by blast
      qed
    qed
  qed
qed

text \<open>A source that serves a fixed run of pages under one clock is walked from first to last.\<close>

lemma walk_loop_complete:
  assumes "serves f k (ws_cursor st) ps" and "ps \<noteq> []" and "length ps \<le> n"
    and "\<forall>p \<in> set (butlast ps). has_token p" and "\<not> has_token (last ps)"
    and "\<forall>p \<in> set ps. wp_clock p = None \<or> wp_clock p = clock" and "ws_clock st = None \<or> ws_clock st = clock"
  shows "walk_loop f n k st = WalkResult (ws_collected st @ concat (map wp_items ps)) (ws_drifted st)"
  using assms
proof (induction ps arbitrary: n k st)
  case (Cons p ps)
  obtain m where n: "n = Suc m" using Cons.prems(3) by (cases n) auto
  obtain st' where obs: "observeSourceClock st (wp_clock p) = (st', ContinueWalk)"
    using Cons.prems(6,7)
    by (cases "wp_clock p"; cases "ws_clock st") (auto simp: observeSourceClock_def)
  note o = observe_continue [OF obs]
  have drift: "ws_drifted st' = ws_drifted st"
    using obs Cons.prems(6,7) by (auto simp: observeSourceClock_def split: option.splits if_splits)
  show ?case
  proof (cases "ps = []")
    case True
    with Cons.prems n obs o drift show ?thesis by (simp add: Let_def)
  next
    case False
    let ?st = "st'\<lparr>ws_collected := ws_collected st' @ wp_items p, ws_cursor := wp_token p\<rparr>"
    have "walk_loop f m (Suc k) ?st = WalkResult (ws_collected ?st @ concat (map wp_items ps)) (ws_drifted ?st)"
      using Cons.prems False n o(3) by (intro Cons.IH) (auto split: if_splits)
    with Cons.prems False n obs o drift show ?thesis by (simp add: Let_def)
  qed
qed simp

lemma stable_walk:
  assumes "complete_run f 0 ps" and "one_clock ps" and "length ps \<le> max_cursor_walk_pages"
  shows "walkQueryCursorPages f = WalkResult (concat (map wp_items ps)) False"
proof -
  obtain clock where "\<forall>p \<in> set ps. wp_clock p = None \<or> wp_clock p = clock"
    using assms(2) unfolding one_clock_def by metis
  then show ?thesis
    using walk_loop_complete [of f 0 createCursorWalkState ps max_cursor_walk_pages clock] assms
    by (simp add: walkQueryCursorPages_def createCursorWalkState_def complete_run_def)
qed

section \<open>Properties\<close>

text \<open>C35: what a successful walk returns is never part of the rows. Either its rows are exactly those of a complete
  run of pages, from a first page to a page without a token, each following the token of the one before; the run starts with
  the walk, or after the pages that showed the first clock drift, and unless the change flag is set all its pages carry one
  source clock. Or it returns no row at all without the change flag, and then nothing could be walked (no scope for the
  first page, or for the first page after the restart), or the first drift showed on the very last page a walk may fetch.\<close>

theorem walk_never_partial:
  assumes "walkQueryCursorPages f = WalkResult items drifted"
  shows "(\<exists>j ps. complete_run f j ps \<and> (j = 0 \<or> (\<exists>qs. drift_run f qs \<and> j = length qs)) \<and>
      items = concat (map wp_items ps) \<and> (\<not> drifted \<longrightarrow> one_clock ps)) \<or>
    items = [] \<and> \<not> drifted \<and>
      (f None 0 = Inr None \<or>
       (\<exists>qs. drift_run f qs \<and> (length qs = max_cursor_walk_pages \<or>
          length qs < max_cursor_walk_pages \<and> f None (length qs) = Inr None)))"
proof -
  have "collects f 0 [] 0 createCursorWalkState"
    by (simp add: collects_def createCursorWalkState_def)
  from walk_loop_sound [OF this assms [unfolded walkQueryCursorPages_def]] show ?thesis
    unfolding walk_result_ok_def by (simp add: max_cursor_walk_pages_def)
qed

definition two_pages :: "nat fetch_page" where
  "two_pages cursor page = Inr (Some
     (if cursor = None then \<lparr>wp_items = [1, 2], wp_token = Some ''t'', wp_clock = Some ''7''\<rparr>
      else \<lparr>wp_items = [3], wp_token = None, wp_clock = Some ''7''\<rparr>))"

lemma two_pages_walk: "walkQueryCursorPages two_pages = WalkResult [1, 2, 3] False"
  using stable_walk [of two_pages
      "[\<lparr>wp_items = [1, 2], wp_token = Some ''t'', wp_clock = Some ''7''\<rparr>,
        \<lparr>wp_items = [3], wp_token = None, wp_clock = Some ''7''\<rparr>]"]
  by (simp add: complete_run_def one_clock_def two_pages_def has_token_def max_cursor_walk_pages_def)

theorem walk_never_partial_witness:
  "\<exists>j ps. complete_run two_pages j ps \<and> [1, 2, 3] = concat (map wp_items ps) \<and> one_clock ps"
  using walk_never_partial [OF two_pages_walk] by auto

text \<open>A stable source is downloaded whole. When a source serves at most the page limit of pages, all
  under one clock, the walk returns all their rows in order and no change warning.\<close>

theorem walk_returns_stable_source:
  assumes "complete_run f 0 ps" and "one_clock ps" and "length ps \<le> max_cursor_walk_pages"
  shows "walkQueryCursorPages f = WalkResult (concat (map wp_items ps)) False"
  using assms by (rule stable_walk)

theorem walk_returns_stable_source_witness:
  "walkQueryCursorPages two_pages = WalkResult [1, 2, 3] False"
  using walk_returns_stable_source [of two_pages
      "[\<lparr>wp_items = [1, 2], wp_token = Some ''t'', wp_clock = Some ''7''\<rparr>,
        \<lparr>wp_items = [3], wp_token = None, wp_clock = Some ''7''\<rparr>]"]
  by (simp add: complete_run_def one_clock_def two_pages_def has_token_def max_cursor_walk_pages_def)

section \<open>A drift on the last page\<close>

text \<open>Pages that carry tokens and one clock are collected; the first page with another clock restarts the walk.\<close>

lemma walk_loop_drift:
  assumes "serves f k (ws_cursor st) (ps @ [r])" and "\<forall>p \<in> set ps. has_token p"
    and "\<forall>p \<in> set ps. wp_clock p = None \<or> wp_clock p = clock" and "ws_clock st = None \<or> ws_clock st = clock"
    and "ws_clock st \<noteq> None \<or> (\<exists>p \<in> set ps. wp_clock p \<noteq> None)"
    and "wp_clock r \<noteq> None" and "wp_clock r \<noteq> clock" and "\<not> ws_restarted st" and "\<not> ws_drifted st"
    and "n = Suc (length ps)"
  shows "walk_loop f n k st = WalkResult [] False"
  using assms
proof (induction ps arbitrary: n k st)
  case Nil
  then obtain a b where clocks: "ws_clock st = Some a" "wp_clock r = Some b" "a \<noteq> b" by auto
  have "f (ws_cursor st) k = Inr (Some r)" "n = Suc 0" "\<not> ws_restarted st" "\<not> ws_drifted st"
    using Nil.prems by simp_all
  with clocks show ?case by (simp add: observeSourceClock_def after_loop_def)
next
  case (Cons p ps)
  obtain st' where obs: "observeSourceClock st (wp_clock p) = (st', ContinueWalk)"
    using Cons.prems(3,4) by (cases "wp_clock p"; cases "ws_clock st") (auto simp: observeSourceClock_def)
  note o = observe_continue [OF obs]
  let ?st = "st'\<lparr>ws_collected := ws_collected st' @ wp_items p, ws_cursor := wp_token p\<rparr>"
  have "walk_loop f (Suc (length ps)) (Suc k) ?st = WalkResult [] False"
    using Cons.prems o(3,4) o(6) [OF Cons.prems(8)] by (intro Cons.IH) (auto split: if_splits)
  with Cons.prems obs show ?case by (simp add: Let_def)
qed

text \<open>C38: whatever the source, if its clock first moves on the very last page the walk may fetch, the walk succeeds with
  no rows and without the change flag, although every page it fetched was served.\<close>

theorem walk_empty_on_late_drift:
  assumes "drift_run f ps" and "length ps = max_cursor_walk_pages"
  shows "walkQueryCursorPages f = WalkResult [] False"
proof -
  obtain clock where clock: "\<forall>p \<in> set (butlast ps). wp_clock p = None \<or> wp_clock p = clock"
      "\<exists>p \<in> set (butlast ps). wp_clock p \<noteq> None \<and> wp_clock p = clock" "wp_clock (last ps) \<noteq> clock"
    using assms(1) unfolding drift_run_def one_clock_def by metis
  have split: "butlast ps @ [last ps] = ps" using assms(1) by (simp add: drift_run_def)
  have "walk_loop f max_cursor_walk_pages 0 createCursorWalkState = WalkResult [] False"
    using assms clock split
    by (intro walk_loop_drift [of _ _ _ "butlast ps" "last ps" clock])
      (auto simp: drift_run_def createCursorWalkState_def max_cursor_walk_pages_def)
  then show ?thesis by (simp add: walkQueryCursorPages_def)
qed

text \<open>A source whose clock moves exactly on the last page the walk may fetch.\<close>

definition late_drift :: "nat fetch_page" where
  "late_drift cursor page = Inr (Some
     \<lparr>wp_items = [page], wp_token = Some ''t'',
      wp_clock = Some (if page = max_cursor_walk_pages - 1 then ''b'' else ''a'')\<rparr>)"

definition late_page :: "nat \<Rightarrow> nat walk_page" where
  "late_page page = \<lparr>wp_items = [page], wp_token = Some ''t'',
     wp_clock = Some (if page = max_cursor_walk_pages - 1 then ''b'' else ''a'')\<rparr>"

lemma late_serves: "serves late_drift k cursor (map late_page [k..<k + n])"
proof (induction n arbitrary: k cursor)
  case (Suc n)
  have "[k..<k + Suc n] = k # [Suc k..<Suc k + n]" by (simp add: upt_conv_Cons)
  with Suc.IH [of "Suc k"] show ?case by (simp add: late_drift_def late_page_def del: upt_Suc)
qed simp

lemma late_drift_run:
  assumes "m = max_cursor_walk_pages"
  shows "drift_run late_drift (map late_page [0..<m])"
proof -
  obtain l where m: "m = Suc l" "l \<noteq> 0" using assms by (auto simp: max_cursor_walk_pages_def intro: that [of 99999])
  have split: "map late_page [0..<m] = map late_page [0..<l] @ [late_page l]" using m(1) by simp
  have "\<forall>p \<in> set (map late_page [0..<l]). has_token p \<and> wp_clock p = Some ''a''"
    using assms m by (auto simp: late_page_def has_token_def)
  moreover have "wp_clock (late_page l) = Some ''b''" using assms m by (simp add: late_page_def)
  moreover have "late_page 0 \<in> set (map late_page [0..<l])" using m(2) by auto
  moreover have "serves late_drift 0 None (map late_page [0..<l] @ [late_page l])"
    using late_serves [of 0 None m] unfolding split [symmetric] by simp
  ultimately show ?thesis
    unfolding split by (auto simp: drift_run_def one_clock_def simp del: set_map intro!: bexI [of _ "late_page 0"])
qed

theorem walk_empty_on_late_drift_witness:
  "walkQueryCursorPages late_drift = WalkResult [] False"
  by (rule walk_empty_on_late_drift [OF late_drift_run [OF refl]]) simp

end
