(* ===== verification/Metrics_Demand.thy ===== *)
theory Metrics_Demand
  imports Refresh_Runtime "HOL-Library.Char_ord" "HOL-Library.List_Lexorder"
begin

text \<open>
  Metrics demand: \<open>core/refresh/metricsDemandState.ts\<close> and the orchestrator's \<open>metricsDemandClusterIds\<close>,
  \<open>updateMetricsDemand\<close> and \<open>clearMetricsDemandRetry\<close>. The backend collects metrics for the clusters some
  enabled scope needs them for. The frontend sends the set of clusters, one request at a time, and
  retries a failed one with a growing delay. The request's completion and the retry timer are steps
  of the machine of their own, in any order with changes of the demand.
\<close>

section \<open>The demand machine\<close>

datatype metrics_demand_state =
    DemandIdle (applied_key: string) (retry_delay: millis)
  | DemandRequesting (applied_key: string) (request_key: string) (retry_delay: millis)
  | DemandWaiting (applied_key: string) (wait_key: string) (wait_timer: timer) (retry_delay: millis)

datatype metrics_demand_event =
    RequestStarted string
  | RequestSucceeded string "millis option"
  | RequestAbandoned string "millis option"
  | RetryScheduledFor string timer millis
  | RetryFired string
  | RetryCancelled

definition initialMetricsDemandState :: "millis \<Rightarrow> metrics_demand_state" where
  "initialMetricsDemandState initialDelayMs = DemandIdle [] initialDelayMs"

definition or_second :: "millis option \<Rightarrow> millis" where
  "or_second delay = (case delay of None \<Rightarrow> 1000 | Some d \<Rightarrow> d)"

fun transitionMetricsDemandState ::
    "metrics_demand_state \<Rightarrow> metrics_demand_event \<Rightarrow> metrics_demand_state" where
  "transitionMetricsDemandState st (RequestStarted key) =
     (case st of DemandIdle applied delay \<Rightarrow> DemandRequesting applied key delay | _ \<Rightarrow> st)"
| "transitionMetricsDemandState st (RequestSucceeded key initial) =
     (case st of
        DemandRequesting applied request delay \<Rightarrow>
          if request \<noteq> key then st else DemandIdle key (or_second initial)
      | _ \<Rightarrow> st)"
| "transitionMetricsDemandState st (RequestAbandoned key initial) =
     (case st of
        DemandRequesting applied request delay \<Rightarrow>
          if request \<noteq> key then st else DemandIdle applied (or_second initial)
      | _ \<Rightarrow> st)"
| "transitionMetricsDemandState st (RetryScheduledFor key timer maxDelay) =
     (case st of
        DemandRequesting applied request delay \<Rightarrow>
          if request \<noteq> key then st else DemandWaiting applied key timer (min (delay * 2) maxDelay)
      | _ \<Rightarrow> st)"
| "transitionMetricsDemandState st (RetryFired key) =
     (case st of
        DemandWaiting applied wait timer delay \<Rightarrow>
          if wait \<noteq> key then st else DemandIdle applied delay
      | _ \<Rightarrow> st)"
| "transitionMetricsDemandState st RetryCancelled =
     (case st of DemandWaiting applied wait timer delay \<Rightarrow> DemandIdle applied delay | _ \<Rightarrow> st)"

section \<open>The orchestrator's side\<close>

definition metrics_retry_initial :: millis where
  "metrics_retry_initial = 1000"

definition metrics_retry_max :: millis where
  "metrics_retry_max = 30000"

definition metric_demand_domains :: "string list" where
  "metric_demand_domains =
     [''namespace-metrics'', ''cluster-overview'', ''nodes'', ''namespace-workloads'', ''pods'']"

text \<open>The clusters with their runtimes, the machine's state, the requests whose promise is open, and the
  armed timers with their keys and delays.\<close>

record demand_world =
  dw_clusters :: "(string, cluster_runtime) js_map"
  dw_state :: metrics_demand_state
  dw_requests :: "string list"
  dw_timers :: "(timer \<times> string \<times> millis) list"
  dw_next_timer :: timer

definition metricsDemandClusterIds :: "(string, cluster_runtime) js_map \<Rightarrow> string list" where
  "metricsDemandClusterIds clusters =
     sort (map fst (filter (\<lambda>(clusterId, runtime).
        list_ex (\<lambda>domain. hasEnabledScopedSources runtime domain) metric_demand_domains) clusters))"

definition demand_key :: "(string, cluster_runtime) js_map \<Rightarrow> string" where
  "demand_key clusters = js_join [CHR 0x00] (metricsDemandClusterIds clusters)"

definition clearMetricsDemandRetry :: "demand_world \<Rightarrow> demand_world" where
  "clearMetricsDemandRetry w =
     (case dw_state w of
        DemandWaiting _ _ timer _ \<Rightarrow>
          w\<lparr>dw_timers := filter (\<lambda>(t, _). t \<noteq> timer) (dw_timers w),
            dw_state := transitionMetricsDemandState (dw_state w) RetryCancelled\<rparr>
      | _ \<Rightarrow> w)"

definition send_metrics_request :: "demand_world \<Rightarrow> string \<Rightarrow> demand_world" where
  "send_metrics_request w key =
     w\<lparr>dw_state := transitionMetricsDemandState (dw_state w) (RequestStarted key),
       dw_requests := dw_requests w @ [key]\<rparr>"

definition updateMetricsDemand :: "demand_world \<Rightarrow> demand_world" where
  "updateMetricsDemand w =
     (let clusterKey = demand_key (dw_clusters w)
      in if clusterKey = applied_key (dw_state w) then clearMetricsDemandRetry w
         else case dw_state w of
                DemandRequesting _ _ _ \<Rightarrow> w
              | DemandWaiting _ retryKey _ _ \<Rightarrow>
                  if retryKey = clusterKey then w
                  else send_metrics_request (clearMetricsDemandRetry w) clusterKey
              | DemandIdle _ _ \<Rightarrow> send_metrics_request w clusterKey)"

definition metrics_request_succeeded :: "demand_world \<Rightarrow> string \<Rightarrow> demand_world" where
  "metrics_request_succeeded w key =
     updateMetricsDemand (w\<lparr>dw_requests := remove1 key (dw_requests w),
       dw_state := transitionMetricsDemandState (dw_state w)
         (RequestSucceeded key (Some metrics_retry_initial))\<rparr>)"

definition metrics_request_failed :: "demand_world \<Rightarrow> string \<Rightarrow> demand_world" where
  "metrics_request_failed w key =
     (let w1 = w\<lparr>dw_requests := remove1 key (dw_requests w)\<rparr>
      in if demand_key (dw_clusters w1) \<noteq> key
         then updateMetricsDemand (w1\<lparr>dw_state := transitionMetricsDemandState (dw_state w1)
                (RequestAbandoned key (Some metrics_retry_initial))\<rparr>)
         else let timer = dw_next_timer w1
              in w1\<lparr>dw_timers := dw_timers w1 @ [(timer, key, retry_delay (dw_state w1))],
                    dw_next_timer := timer + 1,
                    dw_state := transitionMetricsDemandState (dw_state w1)
                      (RetryScheduledFor key timer metrics_retry_max)\<rparr>)"

definition metrics_retry_fired :: "demand_world \<Rightarrow> timer \<Rightarrow> string \<Rightarrow> demand_world" where
  "metrics_retry_fired w timer key =
     updateMetricsDemand (w\<lparr>dw_timers := filter (\<lambda>(t, _). t \<noteq> timer) (dw_timers w),
       dw_state := transitionMetricsDemandState (dw_state w) (RetryFired key)\<rparr>)"

definition new_demand_world :: demand_world where
  "new_demand_world =
     \<lparr>dw_clusters = [], dw_state = initialMetricsDemandState metrics_retry_initial, dw_requests = [],
      dw_timers = [], dw_next_timer = 0\<rparr>"

text \<open>A step: the demand changes and the orchestrator is told, an open request completes or fails, or an
  armed timer fires.\<close>

inductive demand_step :: "demand_world \<Rightarrow> demand_world \<Rightarrow> bool" where
  demand_changes: "demand_step w (updateMetricsDemand (w\<lparr>dw_clusters := clusters\<rparr>))"
| demand_succeeds: "key \<in> set (dw_requests w) \<Longrightarrow> demand_step w (metrics_request_succeeded w key)"
| demand_fails: "key \<in> set (dw_requests w) \<Longrightarrow> demand_step w (metrics_request_failed w key)"
| demand_retries: "(timer, key, delay) \<in> set (dw_timers w) \<Longrightarrow> demand_step w (metrics_retry_fired w timer key)"

inductive demand_reachable :: "demand_world \<Rightarrow> bool" where
  demand_start: "demand_reachable new_demand_world"
| demand_next: "demand_reachable w \<Longrightarrow> demand_step w w' \<Longrightarrow> demand_reachable w'"

section \<open>The invariant\<close>

text \<open>The state says exactly which request is open and which timer is armed; at rest the applied set is
  the demanded one; delays stay within their bounds.\<close>

definition demand_sync :: "demand_world \<Rightarrow> bool" where
  "demand_sync w \<longleftrightarrow>
     (case dw_state w of
        DemandIdle applied delay \<Rightarrow>
          dw_requests w = [] \<and> dw_timers w = [] \<and> applied = demand_key (dw_clusters w)
      | DemandRequesting applied request delay \<Rightarrow> dw_requests w = [request] \<and> dw_timers w = []
      | DemandWaiting applied wait timer delay \<Rightarrow>
          dw_requests w = [] \<and> wait = demand_key (dw_clusters w) \<and>
          (\<exists>d. dw_timers w = [(timer, wait, d)] \<and> metrics_retry_initial \<le> d \<and> d \<le> metrics_retry_max))"

definition delay_ok :: "metrics_demand_state \<Rightarrow> bool" where
  "delay_ok st \<longleftrightarrow> metrics_retry_initial \<le> retry_delay st \<and> retry_delay st \<le> metrics_retry_max"

text \<open>Before the orchestrator looks at the demand again, the state may be idle or waiting under an old
  key.\<close>

definition demand_pre :: "demand_world \<Rightarrow> bool" where
  "demand_pre w \<longleftrightarrow> delay_ok (dw_state w) \<and>
     (case dw_state w of
        DemandIdle applied delay \<Rightarrow> dw_requests w = [] \<and> dw_timers w = []
      | DemandRequesting applied request delay \<Rightarrow> dw_requests w = [request] \<and> dw_timers w = []
      | DemandWaiting applied wait timer delay \<Rightarrow>
          dw_requests w = [] \<and>
          (\<exists>d. dw_timers w = [(timer, wait, d)] \<and> metrics_retry_initial \<le> d \<and> d \<le> metrics_retry_max))"

definition demand_inv :: "demand_world \<Rightarrow> bool" where
  "demand_inv w \<longleftrightarrow> demand_sync w \<and> delay_ok (dw_state w)"

lemma update_establishes: "demand_pre w \<Longrightarrow> demand_inv (updateMetricsDemand w)"
  by (cases "dw_state w")
    (auto simp: demand_pre_def demand_inv_def demand_sync_def delay_ok_def updateMetricsDemand_def Let_def
      clearMetricsDemandRetry_def send_metrics_request_def)

lemma demand_inv_pre: "demand_inv w \<Longrightarrow> demand_pre (w\<lparr>dw_clusters := clusters\<rparr>)"
  by (cases "dw_state w") (auto simp: demand_pre_def demand_inv_def demand_sync_def)

lemma retry_bounds: "metrics_retry_initial = 1000" "metrics_retry_max = 30000"
  by (simp_all add: metrics_retry_initial_def metrics_retry_max_def)

lemma demand_step_inv: "demand_step w w' \<Longrightarrow> demand_inv w \<Longrightarrow> demand_inv w'"
proof (induction rule: demand_step.induct)
  case (demand_changes w clusters)
  then show ?case by (intro update_establishes demand_inv_pre)
next
  case (demand_succeeds key w)
  then show ?case unfolding metrics_request_succeeded_def
    by (intro update_establishes, cases "dw_state w")
      (auto simp: demand_pre_def demand_inv_def demand_sync_def delay_ok_def or_second_def retry_bounds)
next
  case (demand_fails key w)
  have "demand_pre (w\<lparr>dw_requests := remove1 key (dw_requests w), dw_state := transitionMetricsDemandState (dw_state w)
      (RequestAbandoned key (Some metrics_retry_initial))\<rparr>)"
    using demand_fails by (cases "dw_state w")
      (auto simp: demand_pre_def demand_inv_def demand_sync_def delay_ok_def or_second_def retry_bounds)
  then have abandoned: "demand_inv (metrics_request_failed w key)" if "demand_key (dw_clusters w) \<noteq> key"
    using that update_establishes by (simp add: metrics_request_failed_def Let_def)
  have "demand_inv (metrics_request_failed w key)" if "demand_key (dw_clusters w) = key"
    using that demand_fails by (cases "dw_state w")
      (auto simp: metrics_request_failed_def demand_inv_def demand_sync_def delay_ok_def Let_def retry_bounds)
  with abandoned show ?case by blast
next
  case (demand_retries timer key delay w)
  then show ?case unfolding metrics_retry_fired_def
    by (intro update_establishes, cases "dw_state w")
      (auto simp: demand_pre_def demand_inv_def demand_sync_def delay_ok_def)
qed

lemma demand_reachable_inv: "demand_reachable w \<Longrightarrow> demand_inv w"
proof (induction rule: demand_reachable.induct)
  case demand_start
  show ?case
    by (simp add: demand_inv_def demand_sync_def delay_ok_def new_demand_world_def retry_bounds
        initialMetricsDemandState_def demand_key_def metricsDemandClusterIds_def)
qed (rule demand_step_inv)

text \<open>A cluster is demanded exactly when one of its metric domains has an enabled scope.\<close>

lemma metricsDemandClusterIds_iff:
  "c \<in> set (metricsDemandClusterIds clusters) \<longleftrightarrow>
     (\<exists>runtime domain. (c, runtime) \<in> set clusters \<and> domain \<in> set metric_demand_domains \<and>
        hasEnabledScopedSources runtime domain)"
  by (force simp: metricsDemandClusterIds_def list_ex_iff)

section \<open>Properties\<close>

text \<open>C34: metrics demand never stalls out of date. In every reachable state in which no request is open
  and no retry timer is armed, the set of clusters the backend last accepted is the set the enabled
  scopes demand. At most one request and one timer are pending at a time, never both, and every retry
  waits between one and thirty seconds.\<close>

theorem metrics_demand_converges:
  assumes "demand_reachable w"
  shows "(dw_requests w = [] \<and> dw_timers w = [] \<longrightarrow> applied_key (dw_state w) = demand_key (dw_clusters w)) \<and>
    length (dw_requests w) + length (dw_timers w) \<le> 1 \<and>
    (\<forall>(timer, key, delay) \<in> set (dw_timers w). 1000 \<le> delay \<and> delay \<le> 30000)"
proof -
  have "demand_inv w" by (rule demand_reachable_inv [OF assms])
  then show ?thesis
    by (cases "dw_state w") (auto simp: demand_inv_def demand_sync_def retry_bounds)
qed

definition sample_demand :: demand_world where
  "sample_demand = updateMetricsDemand (new_demand_world\<lparr>dw_clusters :=
     [(''c'', fst (acquireScopedLease (new_runtime ''c'') ''pods'' ''c|'' QueryDemand))]\<rparr>)"

theorem metrics_demand_converges_witness:
  "applied_key (dw_state (metrics_request_succeeded sample_demand ''c'')) =
     demand_key (dw_clusters (metrics_request_succeeded sample_demand ''c''))"
proof -
  have "demand_reachable sample_demand"
    unfolding sample_demand_def by (rule demand_next [OF demand_start demand_changes])
  moreover have "''c'' \<in> set (dw_requests sample_demand)" by code_simp
  ultimately have "demand_reachable (metrics_request_succeeded sample_demand ''c'')"
    by (rule demand_next [OF _ demand_succeeds])
  moreover have "dw_requests (metrics_request_succeeded sample_demand ''c'') = []"
    "dw_timers (metrics_request_succeeded sample_demand ''c'') = []"
    by code_simp+
  ultimately show ?thesis using metrics_demand_converges by blast
qed

end
