(* ===== verification/Stream_Protocol.thy ===== *)
theory Stream_Protocol
  imports Prelude
begin

text \<open>
  The protocol machine of one resource stream subscription, the second half of
  \<open>core/refresh/streaming/resourceStreamProtocol.ts\<close>: its phases, the coalescing of change signals, the
  resync cooldown with its trailing resync, and the health it reports. A transition returns the next state
  and the effects the manager carries out. Sequences and resource versions are big integers; times are
  integers in milliseconds. An optional string counts as absent when it is empty wherever the source tests
  it for truth.
\<close>

section \<open>State\<close>

datatype source_clock = ObjectClock | MetricClock | EventClock | CatalogClock | AttentionClock

datatype reset_reason = ResetReset | ResetComplete

datatype stream_message =
    MsgAcknowledged
  | MsgHeartbeat
  | MsgChanged "source_clock option" "string option" "int option" "int option"
  | MsgReset reset_reason "source_clock option" "string option"
  | MsgError string bool

record confirmed_health =
  ch_epoch :: nat
  ch_delivered :: bool

datatype protocol_phase =
    Connecting "string option"
  | AwaitingAck bool "string option" "confirmed_health option"
  | Synchronized nat bool bool
  | Resyncing string "string option" "confirmed_health option"
  | PermissionBlocked string int
  | Stopping

record pending_changes =
  pc_count :: nat
  pc_versions :: "(source_clock, string) js_map"
  pc_latest :: "string option"

datatype coalescing =
    CoalescingIdle
  | CoalescingWaiting pending_changes
  | CoalescingScheduled timer pending_changes

datatype trailing_resync =
    TrailingIdle
  | TrailingWaiting string
  | TrailingScheduled string timer

record protocol_state =
  ps_phase :: protocol_phase
  ps_last_sequence :: "int option"
  ps_resource_version :: "int option"
  ps_last_message :: "int option"
  ps_last_delivery :: "int option"
  ps_coalescing :: coalescing
  ps_last_resync :: int
  ps_trailing :: trailing_resync

datatype protocol_effect =
    ScheduleFlush
  | CancelFlush timer
  | AdvanceSource "(source_clock, string) js_map" "string option"
  | AdvanceLegacyReset
  | RequestResync string bool "string option"
  | ScheduleTrailingResync int
  | CancelTrailingResync timer
  | PermissionDeniedEffect string
  | MarkResyncing string
  | MarkResyncComplete
  | SendSubscribe

record message_event =
  me_message :: stream_message
  me_now :: int
  me_epoch :: nat
  me_retained :: bool
  me_complete_resync :: bool
  me_max_pending :: nat

record resync_request =
  rq_reason :: string
  rq_now :: int
  rq_force :: bool
  rq_cooldown :: int
  rq_error :: "string option"

datatype protocol_event =
    SubscribeSent bool
  | ConnectionOpened nat
  | ConnectionLost string
  | MessageReceived message_event
  | FlushTimerAttached timer
  | FlushFired timer
  | ResyncRequested resync_request
  | ResyncCompleted
  | TrailingTimerAttached timer
  | TrailingFired timer
  | StopRequested

type_synonym protocol_transition = "protocol_state \<times> protocol_effect list"

definition initialResourceStreamProtocolState :: protocol_state where
  "initialResourceStreamProtocolState =
     \<lparr>ps_phase = Connecting None, ps_last_sequence = None, ps_resource_version = None, ps_last_message = None,
      ps_last_delivery = None, ps_coalescing = CoalescingIdle, ps_last_resync = 0, ps_trailing = TrailingIdle\<rparr>"

section \<open>Helpers\<close>

fun phaseError :: "protocol_phase \<Rightarrow> string option" where
  "phaseError (Connecting e) = e"
| "phaseError (AwaitingAck _ e _) = e"
| "phaseError (Resyncing _ e _) = e"
| "phaseError _ = None"

fun confirmedHealth :: "protocol_phase \<Rightarrow> confirmed_health option" where
  "confirmedHealth (Synchronized epoch delivered _) = Some \<lparr>ch_epoch = epoch, ch_delivered = delivered\<rparr>"
| "confirmedHealth (Resyncing _ _ h) = h"
| "confirmedHealth (AwaitingAck _ _ h) = h"
| "confirmedHealth _ = None"

definition was_delivered :: "protocol_phase \<Rightarrow> bool" where
  "was_delivered phase = (case confirmedHealth phase of None \<Rightarrow> False | Some h \<Rightarrow> ch_delivered h)"

definition preservesConfirmedHealth :: "string \<Rightarrow> bool" where
  "preservesConfirmedHealth reason \<longleftrightarrow> reason = ''initial'' \<or> reason = ''manual refresh''"

fun expectsReset :: "protocol_phase \<Rightarrow> bool" where
  "expectsReset (AwaitingAck r _ _) = r"
| "expectsReset (Synchronized _ _ r) = r"
| "expectsReset _ = False"

definition synchronizedPhase :: "protocol_phase \<Rightarrow> nat \<Rightarrow> bool \<Rightarrow> protocol_phase" where
  "synchronizedPhase phase epoch delivered = Synchronized epoch delivered (expectsReset phase)"

fun is_terminal :: "protocol_phase \<Rightarrow> bool" where
  "is_terminal (PermissionBlocked _ _) = True"
| "is_terminal Stopping = True"
| "is_terminal _ = False"

fun is_resyncing :: "protocol_phase \<Rightarrow> bool" where
  "is_resyncing (Resyncing _ _ _) = True"
| "is_resyncing _ = False"

fun sourceEffect :: "source_clock option \<Rightarrow> string option \<Rightarrow> protocol_effect option" where
  "sourceEffect (Some source) (Some version) =
     (if version = [] then None else Some (AdvanceSource [(source, version)] (Some version)))"
| "sourceEffect _ _ = None"

fun pendingChanges :: "coalescing \<Rightarrow> pending_changes" where
  "pendingChanges CoalescingIdle = \<lparr>pc_count = 0, pc_versions = [], pc_latest = None\<rparr>"
| "pendingChanges (CoalescingWaiting p) = p\<lparr>pc_latest := truthy (pc_latest p)\<rparr>"
| "pendingChanges (CoalescingScheduled _ p) = p\<lparr>pc_latest := truthy (pc_latest p)\<rparr>"

definition appendChange :: "coalescing \<Rightarrow> source_clock option \<Rightarrow> string option \<Rightarrow> pending_changes" where
  "appendChange coalescing source version =
     (let pending = pendingChanges coalescing;
          versions = (case (source, truthy version) of
                        (Some s, Some v) \<Rightarrow> AList.update s v (pc_versions pending)
                      | _ \<Rightarrow> pc_versions pending);
          latest = (case truthy version of Some v \<Rightarrow> Some v | None \<Rightarrow> pc_latest pending)
      in \<lparr>pc_count = pc_count pending + 1, pc_versions = versions, pc_latest = truthy latest\<rparr>)"

text \<open>\<open>{ ...state.coalescing, ...pending }\<close>: an absent \<open>latest\<close> keeps the old one.\<close>

fun merge_pending :: "coalescing \<Rightarrow> pending_changes \<Rightarrow> coalescing" where
  "merge_pending CoalescingIdle p = CoalescingIdle"
| "merge_pending (CoalescingWaiting old) p =
     CoalescingWaiting (p\<lparr>pc_latest := (case pc_latest p of None \<Rightarrow> pc_latest old | Some l \<Rightarrow> Some l)\<rparr>)"
| "merge_pending (CoalescingScheduled t old) p =
     CoalescingScheduled t (p\<lparr>pc_latest := (case pc_latest p of None \<Rightarrow> pc_latest old | Some l \<Rightarrow> Some l)\<rparr>)"

fun cancelFlushEffect :: "coalescing \<Rightarrow> protocol_effect list" where
  "cancelFlushEffect (CoalescingScheduled t _) = [CancelFlush t]"
| "cancelFlushEffect _ = []"

definition advancePendingEffect :: "coalescing \<Rightarrow> bool \<Rightarrow> protocol_effect list" where
  "advancePendingEffect coalescing includeEmpty =
     (if \<not> includeEmpty \<and> pc_count (pendingChanges coalescing) = 0 then []
      else [AdvanceSource (pc_versions (pendingChanges coalescing)) (pc_latest (pendingChanges coalescing))])"

section \<open>Messages\<close>

definition is_duplicate :: "protocol_state \<Rightarrow> int option \<Rightarrow> bool" where
  "is_duplicate st sequence =
     (case (sequence, ps_last_sequence st) of (Some s, Some l) \<Rightarrow> s \<le> l | _ \<Rightarrow> False)"

definition newer_version :: "int option \<Rightarrow> int option \<Rightarrow> int option" where
  "newer_version old new =
     (case new of
        None \<Rightarrow> old
      | Some v \<Rightarrow> (case old of None \<Rightarrow> Some v | Some o' \<Rightarrow> if v > o' then Some v else Some o'))"

definition receiveChanged ::
    "protocol_state \<Rightarrow> message_event \<Rightarrow> source_clock option \<Rightarrow> string option \<Rightarrow> int option \<Rightarrow> int option \<Rightarrow>
       protocol_transition" where
  "receiveChanged st event source version sequence resourceVersion =
     (if is_resyncing (ps_phase st) \<or> is_terminal (ps_phase st) \<or> is_duplicate st sequence
      then (st\<lparr>ps_last_message := Some (me_now event)\<rparr>, [])
      else
        let nextBase = st\<lparr>
              ps_phase := synchronizedPhase (ps_phase st) (me_epoch event) True,
              ps_last_sequence := (case sequence of None \<Rightarrow> ps_last_sequence st | Some s \<Rightarrow> Some s),
              ps_resource_version := newer_version (ps_resource_version st) resourceVersion,
              ps_last_message := Some (me_now event), ps_last_delivery := Some (me_now event)\<rparr>
        in if me_complete_resync event
           then (nextBase, [RequestResync ''complete-only update'' False None])
           else let pending = appendChange (ps_coalescing st) source version
                in if pc_count pending > me_max_pending event
                   then (nextBase\<lparr>ps_coalescing := CoalescingIdle\<rparr>,
                         cancelFlushEffect (ps_coalescing st) @ [RequestResync ''update backlog overflow'' True None])
                   else if ps_coalescing st = CoalescingIdle
                   then (nextBase\<lparr>ps_coalescing := CoalescingWaiting pending\<rparr>, [ScheduleFlush])
                   else (nextBase\<lparr>ps_coalescing := merge_pending (ps_coalescing st) pending\<rparr>, []))"

definition receiveReset ::
    "protocol_state \<Rightarrow> message_event \<Rightarrow> reset_reason \<Rightarrow> source_clock option \<Rightarrow> string option \<Rightarrow> protocol_transition" where
  "receiveReset st event reason source version =
     (let effects = [case sourceEffect source version of Some e \<Rightarrow> e | None \<Rightarrow> AdvanceLegacyReset];
          initialReset = (reason = ResetReset \<and> expectsReset (ps_phase st));
          phase = (if initialReset then Synchronized (me_epoch event) (was_delivered (ps_phase st)) False
                   else ps_phase st);
          next_state = st\<lparr>ps_phase := phase, ps_last_message := Some (me_now event)\<rparr>
      in if initialReset then (next_state, if me_retained event then effects else [])
         else (next_state, effects @
           [RequestResync (case reason of ResetReset \<Rightarrow> ''reset'' | ResetComplete \<Rightarrow> ''complete'') False None]))"

definition receiveMessage :: "protocol_state \<Rightarrow> message_event \<Rightarrow> protocol_transition" where
  "receiveMessage st event =
     (let withActivity = st\<lparr>ps_last_message := Some (me_now event)\<rparr>
      in if ps_phase st = Stopping then (st, [])
         else if is_terminal (ps_phase st) then (withActivity, [])
         else case me_message event of
           MsgChanged source version sequence resourceVersion \<Rightarrow>
             receiveChanged st event source version sequence resourceVersion
         | MsgReset reason source version \<Rightarrow> receiveReset st event reason source version
         | MsgHeartbeat \<Rightarrow> (withActivity, [])
         | MsgAcknowledged \<Rightarrow>
             (withActivity\<lparr>ps_phase := Synchronized (me_epoch event) (was_delivered (ps_phase st))
                (expectsReset (ps_phase st))\<rparr>, [])
         | MsgError reason permissionDenied \<Rightarrow>
             if permissionDenied
             then (withActivity\<lparr>ps_phase := PermissionBlocked reason (me_now event)\<rparr>, [PermissionDeniedEffect reason])
             else (withActivity\<lparr>ps_phase := Connecting (Some reason)\<rparr>, [RequestResync reason False (Some reason)]))"

section \<open>Connection, flush and resync events\<close>

definition subscribeSent :: "protocol_state \<Rightarrow> bool \<Rightarrow> protocol_transition" where
  "subscribeSent st expects =
     (if is_terminal (ps_phase st) then (st, [])
      else (st\<lparr>ps_phase := AwaitingAck expects (truthy (phaseError (ps_phase st))) (confirmedHealth (ps_phase st))\<rparr>, []))"

definition connectionOpened :: "protocol_state \<Rightarrow> protocol_transition" where
  "connectionOpened st =
     (if is_terminal (ps_phase st) then (st, [])
      else if ps_last_sequence st \<noteq> None
      then (st\<lparr>ps_phase := AwaitingAck False (truthy (phaseError (ps_phase st))) None\<rparr>, [MarkResyncComplete, SendSubscribe])
      else (st, [RequestResync (if ps_last_message st = None then ''initial'' else ''reconnect'') True
                   (truthy (phaseError (ps_phase st)))]))"

definition connectionLost :: "protocol_state \<Rightarrow> string \<Rightarrow> protocol_transition" where
  "connectionLost st reason =
     (if is_terminal (ps_phase st) then (st, [])
      else (st\<lparr>ps_phase := Connecting (truthy (phaseError (ps_phase st)))\<rparr>,
            MarkResyncing reason # (if ps_last_sequence st = None then [RequestResync reason False None] else [])))"

definition attachFlushTimer :: "protocol_state \<Rightarrow> timer \<Rightarrow> protocol_transition" where
  "attachFlushTimer st timer =
     (case ps_coalescing st of
        CoalescingWaiting p \<Rightarrow> (st\<lparr>ps_coalescing := CoalescingScheduled timer p\<rparr>, [])
      | _ \<Rightarrow> (st, []))"

definition flushPendingChanges :: "protocol_state \<Rightarrow> timer \<Rightarrow> protocol_transition" where
  "flushPendingChanges st timer =
     (case ps_coalescing st of
        CoalescingScheduled t p \<Rightarrow>
          if t \<noteq> timer then (st, [])
          else (st\<lparr>ps_coalescing := CoalescingIdle\<rparr>, advancePendingEffect (ps_coalescing st) False)
      | _ \<Rightarrow> (st, []))"

fun cancelTrailingResyncEffect :: "trailing_resync \<Rightarrow> protocol_effect list" where
  "cancelTrailingResyncEffect (TrailingScheduled _ t) = [CancelTrailingResync t]"
| "cancelTrailingResyncEffect _ = []"

definition inResyncCooldown :: "protocol_state \<Rightarrow> resync_request \<Rightarrow> bool" where
  "inResyncCooldown st event \<longleftrightarrow>
     \<not> rq_force event \<and> ps_last_resync st > 0 \<and> rq_now event - ps_last_resync st < rq_cooldown event"

definition latchTrailingResync :: "protocol_state \<Rightarrow> resync_request \<Rightarrow> protocol_transition" where
  "latchTrailingResync st event =
     (if ps_trailing st \<noteq> TrailingIdle then (st, [])
      else (st\<lparr>ps_trailing := TrailingWaiting (rq_reason event)\<rparr>,
            [ScheduleTrailingResync (max 0 (ps_last_resync st + rq_cooldown event - rq_now event))]))"

definition requestResync :: "protocol_state \<Rightarrow> resync_request \<Rightarrow> protocol_transition" where
  "requestResync st event =
     (if is_terminal (ps_phase st) then (st, [])
      else if is_resyncing (ps_phase st) \<or> inResyncCooldown st event then latchTrailingResync st event
      else
        let preserved = (if preservesConfirmedHealth (rq_reason event) then confirmedHealth (ps_phase st) else None);
            errorReason = (case rq_error event of Some e \<Rightarrow> Some e | None \<Rightarrow> phaseError (ps_phase st))
        in (st\<lparr>ps_phase := Resyncing (rq_reason event) (truthy errorReason) preserved,
               ps_last_sequence := None, ps_coalescing := CoalescingIdle, ps_last_resync := rq_now event,
               ps_trailing := TrailingIdle\<rparr>,
            cancelFlushEffect (ps_coalescing st) @ cancelTrailingResyncEffect (ps_trailing st) @
            advancePendingEffect (ps_coalescing st) True @
            (if rq_reason event = ''initial'' then [] else [MarkResyncing (rq_reason event)])))"

definition attachTrailingResyncTimer :: "protocol_state \<Rightarrow> timer \<Rightarrow> protocol_transition" where
  "attachTrailingResyncTimer st timer =
     (case ps_trailing st of
        TrailingWaiting reason \<Rightarrow> (st\<lparr>ps_trailing := TrailingScheduled reason timer\<rparr>, [])
      | _ \<Rightarrow> (st, []))"

definition fireTrailingResync :: "protocol_state \<Rightarrow> timer \<Rightarrow> protocol_transition" where
  "fireTrailingResync st timer =
     (case ps_trailing st of
        TrailingScheduled reason t \<Rightarrow>
          if t \<noteq> timer then (st, [])
          else (st\<lparr>ps_trailing := TrailingIdle\<rparr>, [RequestResync reason False None])
      | _ \<Rightarrow> (st, []))"

definition completeResync :: "protocol_state \<Rightarrow> protocol_transition" where
  "completeResync st =
     (case ps_phase st of
        Resyncing _ errorReason preserved \<Rightarrow>
          (st\<lparr>ps_phase := AwaitingAck True (truthy errorReason) preserved\<rparr>, [MarkResyncComplete, SendSubscribe])
      | _ \<Rightarrow> (st, []))"

definition stopProtocol :: "protocol_state \<Rightarrow> protocol_transition" where
  "stopProtocol st =
     (st\<lparr>ps_phase := Stopping, ps_coalescing := CoalescingIdle, ps_trailing := TrailingIdle\<rparr>,
      cancelFlushEffect (ps_coalescing st) @ cancelTrailingResyncEffect (ps_trailing st))"

fun transitionResourceStreamProtocol :: "protocol_state \<Rightarrow> protocol_event \<Rightarrow> protocol_transition" where
  "transitionResourceStreamProtocol st (SubscribeSent expects) = subscribeSent st expects"
| "transitionResourceStreamProtocol st (ConnectionOpened epoch) = connectionOpened st"
| "transitionResourceStreamProtocol st (ConnectionLost reason) = connectionLost st reason"
| "transitionResourceStreamProtocol st (MessageReceived event) = receiveMessage st event"
| "transitionResourceStreamProtocol st (FlushTimerAttached timer) = attachFlushTimer st timer"
| "transitionResourceStreamProtocol st (FlushFired timer) = flushPendingChanges st timer"
| "transitionResourceStreamProtocol st (ResyncRequested event) = requestResync st event"
| "transitionResourceStreamProtocol st ResyncCompleted = completeResync st"
| "transitionResourceStreamProtocol st (TrailingTimerAttached timer) = attachTrailingResyncTimer st timer"
| "transitionResourceStreamProtocol st (TrailingFired timer) = fireTrailingResync st timer"
| "transitionResourceStreamProtocol st StopRequested = stopProtocol st"

section \<open>Health\<close>

datatype stream_status = HealthyStream | DegradedStream | UnhealthyStream

definition pendingProtocolHealth ::
    "string option \<Rightarrow> confirmed_health option \<Rightarrow> string \<Rightarrow> stream_status \<times> string" where
  "pendingProtocolHealth errorReason preserved waitingReason =
     (case preserved of
        Some h \<Rightarrow> (HealthyStream, if ch_delivered h then ''delivering'' else ''synchronized'')
      | None \<Rightarrow> (case truthy errorReason of
                   Some e \<Rightarrow> (UnhealthyStream, e) | None \<Rightarrow> (DegradedStream, waitingReason)))"

definition computeResourceStreamProtocolHealth :: "protocol_state \<Rightarrow> bool \<Rightarrow> string \<Rightarrow> stream_status \<times> string" where
  "computeResourceStreamProtocolHealth st connected connectionError =
     (if \<not> connected
      then (UnhealthyStream, if connectionError = [] then ''stream disconnected'' else connectionError)
      else case ps_phase st of
        PermissionBlocked reason _ \<Rightarrow> (UnhealthyStream, reason)
      | Resyncing _ e h \<Rightarrow> pendingProtocolHealth e h ''resyncing''
      | AwaitingAck _ e h \<Rightarrow> pendingProtocolHealth e h ''awaiting updates''
      | Connecting e \<Rightarrow> pendingProtocolHealth e None ''awaiting updates''
      | Synchronized _ delivered _ \<Rightarrow> (HealthyStream, if delivered then ''delivering'' else ''synchronized'')
      | Stopping \<Rightarrow> (UnhealthyStream, ''inactive''))"

end
