(* ===== verification/Stream_Contracts.thy ===== *)
theory Stream_Contracts
  imports Stream_Protocol
begin

text \<open>
  What the protocol machine guarantees over any sequence of events: no accepted change signal is lost, and
  a resync that cannot start is owed until it does. Both are stated against small ledgers that watch events
  and effects only; the machine's own bookkeeping is then shown to cover them.
\<close>

section \<open>Runs\<close>

definition protocol_step :: "protocol_state \<Rightarrow> protocol_event \<Rightarrow> protocol_state" where
  "protocol_step st e = fst (transitionResourceStreamProtocol st e)"

definition protocol_run :: "protocol_event list \<Rightarrow> protocol_state" where
  "protocol_run events = foldl protocol_step initialResourceStreamProtocolState events"

lemmas protocol_ops = subscribeSent_def connectionOpened_def connectionLost_def attachFlushTimer_def
  completeResync_def attachTrailingResyncTimer_def fireTrailingResync_def stopProtocol_def

section \<open>Change signals\<close>

text \<open>The change a message announces, if the subscription takes it: it is live, not in a resync, and the message is
  not a repetition.\<close>

fun accepted_change :: "protocol_state \<Rightarrow> protocol_event \<Rightarrow> (source_clock \<times> string) option" where
  "accepted_change st (MessageReceived event) =
     (case me_message event of
        MsgChanged (Some source) (Some version) sequence _ \<Rightarrow>
          if version = [] \<or> is_terminal (ps_phase st) \<or> is_resyncing (ps_phase st) \<or> is_duplicate st sequence
          then None else Some (source, version)
      | _ \<Rightarrow> None)"
| "accepted_change st _ = None"

text \<open>An effect that reports a source version settles it; a requested resync rereads everything.\<close>

fun settle_effect :: "protocol_effect \<Rightarrow> (source_clock \<rightharpoonup> string) \<Rightarrow> (source_clock \<rightharpoonup> string)" where
  "settle_effect (AdvanceSource versions _) u = (\<lambda>s. if u s = map_of versions s then None else u s)"
| "settle_effect (RequestResync _ _ _) u = Map.empty"
| "settle_effect _ u = u"

definition unreported_step ::
    "protocol_state \<Rightarrow> protocol_event \<Rightarrow> (source_clock \<rightharpoonup> string) \<Rightarrow> (source_clock \<rightharpoonup> string)" where
  "unreported_step st e u =
     (if e = StopRequested then Map.empty
      else fold settle_effect (snd (transitionResourceStreamProtocol st e))
             (case accepted_change st e of None \<Rightarrow> u | Some (s, v) \<Rightarrow> u(s \<mapsto> v)))"

text \<open>The latest accepted change per source that neither a report nor a resync request has settled.\<close>

definition unreported :: "protocol_event list \<Rightarrow> (source_clock \<rightharpoonup> string)" where
  "unreported events =
     snd (run_ledger protocol_step unreported_step initialResourceStreamProtocolState Map.empty events)"

definition pending_versions :: "protocol_state \<Rightarrow> (source_clock \<rightharpoonup> string)" where
  "pending_versions st = map_of (pc_versions (pendingChanges (ps_coalescing st)))"

lemma settle_shrinks: "settle_effect e u \<subseteq>\<^sub>m u"
  by (cases e) (auto simp: map_le_def)

lemma fold_settle_shrinks: "fold settle_effect es u \<subseteq>\<^sub>m u"
proof (induction es arbitrary: u)
  case (Cons e es)
  from Cons [of "settle_effect e u"] settle_shrinks [of e u] show ?case by (auto intro: map_le_trans)
qed simp

definition settles_all :: "protocol_effect list \<Rightarrow> (source_clock \<rightharpoonup> string) \<Rightarrow> bool" where
  "settles_all es u \<longleftrightarrow>
     (\<exists>r f x. RequestResync r f x \<in> set es) \<or> (\<exists>m l. AdvanceSource m l \<in> set es \<and> u \<subseteq>\<^sub>m map_of m)"

lemma fold_settle_empty [simp]: "fold settle_effect es Map.empty = Map.empty"
proof -
  have "settle_effect e Map.empty = Map.empty" for e by (cases e) auto
  then show ?thesis by (induction es) auto
qed

lemma settles_all_fold: "settles_all es u \<Longrightarrow> fold settle_effect es u = Map.empty"
proof (induction es arbitrary: u)
  case Nil
  then show ?case by (simp add: settles_all_def)
next
  case (Cons e es)
  show ?case
  proof (cases "settles_all es (settle_effect e u)")
    case True
    then show ?thesis using Cons.IH by simp
  next
    case False
    have "settle_effect e u = Map.empty"
    proof (cases "\<exists>m l. e = AdvanceSource m l \<and> u \<subseteq>\<^sub>m map_of m")
      case True
      then show ?thesis by (auto simp: map_le_def fun_eq_iff)
    next
      case no: False
      with False Cons.prems settle_shrinks [of e u] show ?thesis
        unfolding settles_all_def by (metis map_le_trans set_ConsD settle_effect.simps(2))
    qed
    then show ?thesis by simp
  qed
qed

definition with_change :: "(source_clock \<times> string) option \<Rightarrow> (source_clock \<rightharpoonup> string) \<Rightarrow> (source_clock \<rightharpoonup> string)" where
  "with_change c u = (case c of None \<Rightarrow> u | Some (s, v) \<Rightarrow> u(s \<mapsto> v))"

lemma pending_append:
  "map_of (pc_versions (appendChange c source version)) =
     with_change (case (source, truthy version) of (Some s, Some v) \<Rightarrow> Some (s, v) | _ \<Rightarrow> None)
       (map_of (pc_versions (pendingChanges c)))"
  by (auto simp: appendChange_def with_change_def Let_def map_of_update split: option.splits)

lemma pending_merge:
  "c \<noteq> CoalescingIdle \<Longrightarrow> pc_versions (pendingChanges (merge_pending c p)) = pc_versions p"
  by (cases c) auto

text \<open>Every step either keeps what is pending, with the change it takes, or settles all of it.\<close>

lemma changed_covers:
  fixes st event source version sequence rv
  defines "r \<equiv> receiveChanged st event source version sequence rv"
  assumes "\<not> is_terminal (ps_phase st)" "\<not> is_resyncing (ps_phase st)" "\<not> is_duplicate st sequence"
  shows "with_change (case (source, truthy version) of (Some s, Some v) \<Rightarrow> Some (s, v) | _ \<Rightarrow> None) (pending_versions st)
      \<subseteq>\<^sub>m pending_versions (fst r) \<or> (\<exists>a b c. RequestResync a b c \<in> set (snd r))"
  using assms(2-) unfolding r_def receiveChanged_def
  by (auto simp: pending_versions_def pending_merge pending_append Let_def)

lemma resync_covers:
  "pending_versions st \<subseteq>\<^sub>m pending_versions (fst (requestResync st e)) \<or>
   (\<exists>m l. AdvanceSource m l \<in> set (snd (requestResync st e)) \<and> pending_versions st \<subseteq>\<^sub>m map_of m)"
  by (auto simp: requestResync_def latchTrailingResync_def pending_versions_def advancePendingEffect_def Let_def)

definition counted :: "protocol_state \<Rightarrow> bool" where
  "counted st \<longleftrightarrow> ps_coalescing st = CoalescingIdle \<or> pc_count (pendingChanges (ps_coalescing st)) > 0"

lemma flush_covers:
  "counted st \<Longrightarrow> pending_versions st \<subseteq>\<^sub>m pending_versions (fst (flushPendingChanges st t)) \<or>
   (\<exists>m l. AdvanceSource m l \<in> set (snd (flushPendingChanges st t)) \<and> pending_versions st \<subseteq>\<^sub>m map_of m)"
  by (cases "ps_coalescing st")
    (auto simp: flushPendingChanges_def pending_versions_def advancePendingEffect_def counted_def)

lemma step_counted:
  assumes "counted st"
  shows "counted (protocol_step st e)"
proof -
  have append: "pc_count (appendChange c s v) > 0" for c s v by (simp add: appendChange_def Let_def)
  have merge: "c \<noteq> CoalescingIdle \<Longrightarrow> pc_count (pendingChanges (merge_pending c p)) = pc_count p" for c p
    by (cases c) auto
  have msg: "counted st \<Longrightarrow> counted (fst (receiveMessage st m))" for m
    using append
    by (cases "me_message m") (auto simp: merge receiveMessage_def receiveChanged_def receiveReset_def counted_def Let_def)
  show ?thesis
    using assms msg [unfolded counted_def]
    by (cases e) (auto simp: protocol_step_def protocol_ops flushPendingChanges_def requestResync_def latchTrailingResync_def Let_def counted_def
        split: coalescing.split protocol_phase.split trailing_resync.split)
qed

lemma message_covers:
  "with_change (accepted_change st (MessageReceived m)) (pending_versions st) \<subseteq>\<^sub>m pending_versions (fst (receiveMessage st m)) \<or>
   (\<exists>a b c. RequestResync a b c \<in> set (snd (receiveMessage st m)))"
proof (cases "me_message m")
  case (MsgChanged source version sequence rv)
  show ?thesis
  proof (cases "is_terminal (ps_phase st) \<or> is_resyncing (ps_phase st) \<or> is_duplicate st sequence")
    case True
    then have "accepted_change st (MessageReceived m) = None"
      using MsgChanged by (auto split: option.splits)
    moreover have "ps_coalescing (fst (receiveMessage st m)) = ps_coalescing st"
      using True MsgChanged by (auto simp: receiveMessage_def receiveChanged_def Let_def)
    ultimately show ?thesis by (simp add: with_change_def pending_versions_def)
  next
    case False
    then have "accepted_change st (MessageReceived m) =
        (case (source, truthy version) of (Some s, Some v) \<Rightarrow> Some (s, v) | _ \<Rightarrow> None)"
      using MsgChanged by (auto simp: truthy_def split: option.splits)
    moreover have "receiveMessage st m = receiveChanged st m source version sequence rv"
      using False MsgChanged by (auto simp: receiveMessage_def Let_def)
    ultimately show ?thesis using changed_covers False by metis
  qed
qed (auto simp: receiveMessage_def receiveReset_def with_change_def pending_versions_def Let_def)

lemma step_covers:
  assumes "counted st" "e \<noteq> StopRequested"
  shows "with_change (accepted_change st e) (pending_versions st) \<subseteq>\<^sub>m pending_versions (fst (transitionResourceStreamProtocol st e)) \<or>
    settles_all (snd (transitionResourceStreamProtocol st e)) (with_change (accepted_change st e) (pending_versions st))"
proof (cases e)
  case (MessageReceived m)
  then show ?thesis using message_covers [of st m] by (auto simp: settles_all_def)
next
  case (FlushFired t)
  then show ?thesis using flush_covers [OF assms(1), of t] by (auto simp: settles_all_def with_change_def)
next
  case (ResyncRequested r)
  then show ?thesis using resync_covers [of st r] by (auto simp: settles_all_def with_change_def)
qed (use assms(2) in \<open>auto simp: with_change_def pending_versions_def protocol_ops
    split: coalescing.split protocol_phase.split trailing_resync.split\<close>)

lemma with_change_mono: "u \<subseteq>\<^sub>m p \<Longrightarrow> with_change c u \<subseteq>\<^sub>m with_change c p"
  by (auto simp: with_change_def map_le_def split: option.split)

lemma settles_all_mono: "settles_all es p \<Longrightarrow> u \<subseteq>\<^sub>m p \<Longrightarrow> settles_all es u"
  unfolding settles_all_def by (blast intro: map_le_trans)

lemma unreported_step_covered:
  assumes "counted st" "u \<subseteq>\<^sub>m pending_versions st"
  shows "unreported_step st e u \<subseteq>\<^sub>m pending_versions (protocol_step st e)"
proof (cases "e = StopRequested")
  case False
  let ?u = "with_change (accepted_change st e) u"
  have u: "?u \<subseteq>\<^sub>m with_change (accepted_change st e) (pending_versions st)" using assms(2) with_change_mono by blast
  have "unreported_step st e u = fold settle_effect (snd (transitionResourceStreamProtocol st e)) ?u"
    using False by (auto simp: unreported_step_def with_change_def)
  with step_covers [OF assms(1) False] u show ?thesis
    using settles_all_fold [OF settles_all_mono, OF _ u]
    by (auto simp: protocol_step_def intro: map_le_trans fold_settle_shrinks)
qed (simp add: unreported_step_def)

interpretation signals: covered_ledger protocol_step unreported_step counted "\<lambda>st u. u \<subseteq>\<^sub>m pending_versions st"
  by unfold_locales (simp_all add: step_counted unreported_step_covered)

lemma initial_counted: "counted initialResourceStreamProtocolState"
  by (simp add: counted_def initialResourceStreamProtocolState_def)

text \<open>C18: No change signal is lost. Whatever messages, timers, resyncs and connection changes a subscription sees,
  the latest change it took from each source is still pending to be reported, unless it has been reported,
  or a resync that rereads everything has been asked for, or the subscription was stopped. In particular
  nothing is unreported once the coalescing is idle.\<close>

theorem changes_are_not_lost:
  "unreported events \<subseteq>\<^sub>m pending_versions (protocol_run events) \<and>
   (ps_coalescing (protocol_run events) = CoalescingIdle \<longrightarrow> unreported events = Map.empty)"
  using signals.covers_run [OF initial_counted map_le_empty, of events]
  by (auto simp: unreported_def protocol_run_def pending_versions_def map_le_def fun_eq_iff)

definition sample_change :: "string \<Rightarrow> int \<Rightarrow> protocol_event" where
  "sample_change version sequence = MessageReceived \<lparr>
     me_message = MsgChanged (Some ObjectClock) (Some version) (Some sequence) None, me_now = 5, me_epoch = 1,
     me_retained = True, me_complete_resync = False, me_max_pending = 100\<rparr>"

theorem changes_are_not_lost_witness:
  "unreported [sample_change ''7'' 1, FlushTimerAttached 3, sample_change ''8'' 2, FlushFired 3] = Map.empty \<and>
   pending_versions (protocol_run [sample_change ''7'' 1, FlushTimerAttached 3, sample_change ''8'' 2]) ObjectClock = Some ''8''"
proof -
  have "ps_coalescing (protocol_run [sample_change ''7'' 1, FlushTimerAttached 3, sample_change ''8'' 2, FlushFired 3]) =
      CoalescingIdle"
    "pending_versions (protocol_run [sample_change ''7'' 1, FlushTimerAttached 3, sample_change ''8'' 2]) ObjectClock = Some ''8''"
    by code_simp+
  with changes_are_not_lost show ?thesis by blast
qed

section \<open>Resyncs\<close>

text \<open>Whether a requested resync is outstanding: it was asked for while the subscription was live, and since then no
  resync started, none was handed back to be asked for again, and the subscription was not stopped.\<close>

definition owed_step :: "protocol_state \<Rightarrow> protocol_event \<Rightarrow> bool \<Rightarrow> bool" where
  "owed_step st e owed =
     (let r = transitionResourceStreamProtocol st e;
          asked = (case e of ResyncRequested _ \<Rightarrow> \<not> is_terminal (ps_phase st) | _ \<Rightarrow> False);
          started = is_resyncing (ps_phase (fst r)) \<and> \<not> is_resyncing (ps_phase st);
          handed_back = list_ex (\<lambda>x. case x of RequestResync _ _ _ \<Rightarrow> True | _ \<Rightarrow> False) (snd r)
      in (owed \<or> asked) \<and> \<not> started \<and> \<not> handed_back \<and> e \<noteq> StopRequested)"

definition resync_owed :: "protocol_event list \<Rightarrow> bool" where
  "resync_owed events =
     snd (run_ledger protocol_step owed_step initialResourceStreamProtocolState False events)"

text \<open>A latched resync only goes away when it is started, handed back or stopped.\<close>

lemma message_keeps_trailing: "ps_trailing (fst (receiveMessage st m)) = ps_trailing st"
  by (cases "me_message m") (auto simp: receiveMessage_def receiveChanged_def receiveReset_def Let_def)

lemma step_owed:
  assumes "owed \<longrightarrow> ps_trailing st \<noteq> TrailingIdle" "owed_step st e owed"
  shows "ps_trailing (protocol_step st e) \<noteq> TrailingIdle"
proof (cases e)
  case (ResyncRequested r)
  with assms show ?thesis
    by (auto simp: protocol_step_def owed_step_def requestResync_def latchTrailingResync_def Let_def split: if_splits)
next
  case (MessageReceived m)
  with assms show ?thesis by (auto simp: protocol_step_def owed_step_def message_keeps_trailing)
next
  case (TrailingFired t)
  with assms show ?thesis
    by (auto simp: protocol_step_def owed_step_def fireTrailingResync_def Let_def split: trailing_resync.splits if_splits)
qed (use assms in \<open>auto simp: protocol_step_def owed_step_def protocol_ops flushPendingChanges_def Let_def
    split: coalescing.split protocol_phase.split trailing_resync.split\<close>)

interpretation resyncs: covered_ledger protocol_step owed_step "\<lambda>_. True"
    "\<lambda>st owed. owed \<longrightarrow> ps_trailing st \<noteq> TrailingIdle"
  by unfold_locales (use step_owed in \<open>blast+\<close>)

text \<open>C19: A resync is owed, never dropped. Over any sequence of events, as long as a resync that was asked for has
  neither started nor been handed back to be asked for again, a trailing resync is latched for it; a request
  that has to wait arms a timer for the rest of the cooldown.\<close>

theorem resync_is_never_dropped:
  "(resync_owed events \<longrightarrow> ps_trailing (protocol_run events) \<noteq> TrailingIdle) \<and>
   (\<not> is_terminal (ps_phase (protocol_run events)) \<longrightarrow>
    ps_trailing (protocol_run events) = TrailingIdle \<longrightarrow>
    is_resyncing (ps_phase (protocol_run events)) \<or> inResyncCooldown (protocol_run events) r \<longrightarrow>
    snd (transitionResourceStreamProtocol (protocol_run events) (ResyncRequested r)) =
      [ScheduleTrailingResync (max 0 (ps_last_resync (protocol_run events) + rq_cooldown r - rq_now r))])"
proof
  show "resync_owed events \<longrightarrow> ps_trailing (protocol_run events) \<noteq> TrailingIdle"
    using resyncs.covers_run [where s = initialResourceStreamProtocolState and l = False and events = events]
    by (simp add: resync_owed_def protocol_run_def)
qed (simp add: requestResync_def latchTrailingResync_def)

definition sample_resync :: "string \<Rightarrow> int \<Rightarrow> protocol_event" where
  "sample_resync reason now = ResyncRequested
     \<lparr>rq_reason = reason, rq_now = now, rq_force = False, rq_cooldown = 1000, rq_error = None\<rparr>"

theorem resync_is_never_dropped_witness:
  "ps_trailing (protocol_run [sample_resync ''initial'' 10, ResyncCompleted, sample_resync ''gap'' 20]) \<noteq> TrailingIdle"
proof -
  have "resync_owed [sample_resync ''initial'' 10, ResyncCompleted, sample_resync ''gap'' 20]" by code_simp
  then show ?thesis using resync_is_never_dropped by blast
qed

end
