(* ===== verification/Stream_Domains.thy ===== *)
theory Stream_Domains
  imports Scope_Codec Stream_Protocol Error_Status
begin

text \<open>
  The domains that ring over the resource stream and the messages the stream delivers:
  \<open>core/refresh/streaming/resourceStreamDomains.ts\<close>, the normalization of a wire message in
  \<open>resourceStreamProtocol.ts\<close>. A wire message is the JSON value that arrived. Numbers on the wire are integers.
\<close>

section \<open>Domain descriptors\<close>

text \<open>What the domain contract says of the streamed domains: the resource tables, the clocks of every domain, and the
  domains that only ever resync completely.\<close>

definition contract_resource_stream_domains :: "string list" where
  "contract_resource_stream_domains =
     [''pods'', ''namespace-workloads'', ''namespace-config'', ''namespace-network'', ''namespace-rbac'',
      ''namespace-helm'', ''namespace-autoscaling'', ''namespace-quotas'', ''namespace-storage'', ''cluster-rbac'',
      ''cluster-storage'', ''cluster-config'', ''cluster-crds'', ''nodes'']"

definition contract_source_clocks :: "(string \<times> source_clock list) list" where
  "contract_source_clocks =
     [(''namespaces'', [ObjectClock]), (''namespace-metrics'', [MetricClock]), (''cluster-overview'', [MetricClock]),
      (''cluster-identities'', [ObjectClock]), (''cluster-attention'', [AttentionClock]), (''catalog'', [CatalogClock]),
      (''catalog-diff'', []), (''nodes'', [ObjectClock, MetricClock]), (''cluster-config'', [ObjectClock]),
      (''cluster-crds'', [ObjectClock]), (''cluster-events'', [EventClock]), (''cluster-rbac'', [ObjectClock]),
      (''cluster-storage'', [ObjectClock]), (''namespace-workloads'', [ObjectClock, MetricClock]),
      (''namespace-autoscaling'', [ObjectClock]), (''namespace-config'', [ObjectClock]),
      (''namespace-events'', [EventClock]), (''namespace-helm'', [ObjectClock]), (''namespace-network'', [ObjectClock]),
      (''namespace-quotas'', [ObjectClock]), (''namespace-rbac'', [ObjectClock]), (''namespace-storage'', [ObjectClock]),
      (''pods'', [ObjectClock, MetricClock]), (''object-details'', [ObjectClock]), (''object-yaml'', []),
      (''object-helm-manifest'', []), (''object-helm-values'', []), (''object-events'', [EventClock]),
      (''object-map'', []), (''object-maintenance'', []), (''container-logs'', [])]"

definition contract_complete_resync :: "string list" where
  "contract_complete_resync = [''namespace-helm'']"

text \<open>A descriptor is a domain with its \<open>pollingContinuesWhileStreaming\<close> flag.\<close>

definition doorbellDomainDescriptors :: "(string \<times> bool) list" where
  "doorbellDomainDescriptors =
     map (\<lambda>domain. (domain, False)) contract_resource_stream_domains @
     [(''catalog'', False), (''cluster-events'', False), (''namespace-events'', False), (''namespaces'', False),
      (''namespace-metrics'', False), (''object-events'', False), (''cluster-overview'', True),
      (''object-details'', True), (''cluster-attention'', False), (''cluster-identities'', False)]"

definition isResourceStreamDomain :: "string \<Rightarrow> bool" where
  "isResourceStreamDomain domain \<longleftrightarrow> domain \<in> set contract_resource_stream_domains"

definition doorbellPollingContinues :: "string \<Rightarrow> bool" where
  "doorbellPollingContinues domain \<longleftrightarrow> map_of doorbellDomainDescriptors domain = Some True"

definition isSupportedDomain :: "string \<Rightarrow> bool" where
  "isSupportedDomain value \<longleftrightarrow> map_of doorbellDomainDescriptors value \<noteq> None"

definition sourceClocksByDomain :: "(string \<times> source_clock list) list" where
  "sourceClocksByDomain = filter (\<lambda>entry. isSupportedDomain (fst entry)) contract_source_clocks"

definition doorbellSourceClocks :: "string \<Rightarrow> source_clock list" where
  "doorbellSourceClocks domain = (case map_of sourceClocksByDomain domain of None \<Rightarrow> [] | Some clocks \<Rightarrow> clocks)"

lemma doorbellSourceClocks_lookup [code]:
  "doorbellSourceClocks domain =
     (if isSupportedDomain domain
      then (case map_of contract_source_clocks domain of None \<Rightarrow> [] | Some clocks \<Rightarrow> clocks) else [])"
proof -
  have "map_of (filter (\<lambda>entry. isSupportedDomain (fst entry)) m) domain =
      (if isSupportedDomain domain then map_of m domain else None)" for m :: "(string \<times> source_clock list) list"
    by (induction m) auto
  then show ?thesis by (simp add: doorbellSourceClocks_def sourceClocksByDomain_def)
qed

definition domainSupportsSourceClock :: "string \<Rightarrow> source_clock \<Rightarrow> bool" where
  "domainSupportsSourceClock domain source \<longleftrightarrow> source \<in> set (doorbellSourceClocks domain)"

definition isClusterScopedDomain :: "string \<Rightarrow> bool" where
  "isClusterScopedDomain domain \<longleftrightarrow>
     (case domainScopeSelectors domain of Inl _ \<Rightarrow> False | Inr kinds \<Rightarrow> kinds = [KCluster])"

definition isCompleteResyncStreamDomain :: "string \<Rightarrow> bool" where
  "isCompleteResyncStreamDomain domain \<longleftrightarrow>
     domain \<in> set (filter isSupportedDomain contract_complete_resync)"

fun clock_name :: "source_clock \<Rightarrow> string" where
  "clock_name ObjectClock = ''object''"
| "clock_name MetricClock = ''metric''"
| "clock_name EventClock = ''event''"
| "clock_name CatalogClock = ''catalog''"
| "clock_name AttentionClock = ''attention''"

definition isResourceStreamSourceClock :: "json \<Rightarrow> source_clock option" where
  "isResourceStreamSourceClock value =
     map_of (map (\<lambda>clock. (JString (clock_name clock), clock))
       [ObjectClock, MetricClock, EventClock, CatalogClock, AttentionClock]) value"

section \<open>Numbers on the wire\<close>

definition digit_value :: "char \<Rightarrow> nat option" where
  "digit_value c =
     (let n = (of_char c :: nat)
      in if 48 \<le> n \<and> n \<le> 57 then Some (n - 48)
         else if 97 \<le> n \<and> n \<le> 102 then Some (n - 87)
         else if 65 \<le> n \<and> n \<le> 70 then Some (n - 55)
         else None)"

definition digits_in :: "nat \<Rightarrow> string \<Rightarrow> int option" where
  "digits_in base s =
     (if s = [] \<or> (\<exists>c \<in> set s. case digit_value c of None \<Rightarrow> True | Some d \<Rightarrow> base \<le> d) then None
      else Some (foldl (\<lambda>acc c. acc * int base + (case digit_value c of None \<Rightarrow> 0 | Some d \<Rightarrow> int d)) 0 s))"

text \<open>\<open>BigInt(text)\<close>, \<open>None\<close> where it throws: a signed decimal, or an unsigned literal with a radix prefix; the empty
  text is zero.\<close>

definition parse_big_int :: "string \<Rightarrow> int option" where
  "parse_big_int text =
     (let s = trim text; two = take 2 s; rest = drop 2 s
      in if s = [] then Some 0
         else if two \<in> {''0x'', ''0X''} then digits_in 16 rest
         else if two \<in> {''0o'', ''0O''} then digits_in 8 rest
         else if two \<in> {''0b'', ''0B''} then digits_in 2 rest
         else if hd s = CHR ''-'' then map_option uminus (digits_in 10 (tl s))
         else if hd s = CHR ''+'' then digits_in 10 (tl s)
         else digits_in 10 s)"

definition max_safe_integer :: int where
  "max_safe_integer = 2 ^ 53 - 1"

fun parsePositiveInteger :: "json \<Rightarrow> int option" where
  "parsePositiveInteger (JNumber i) = (if i \<le> max_safe_integer \<and> 0 < i then Some i else None)"
| "parsePositiveInteger (JString s) =
     (if trim s = [] then None
      else case parse_big_int (trim s) of
             None \<Rightarrow> None
           | Some parsed \<Rightarrow> if 0 < parsed then Some parsed else None)"
| "parsePositiveInteger _ = None"

section \<open>Normalizing a wire message\<close>

definition message_types :: "string list" where
  "message_types =
     [''REQUEST'', ''CANCEL'', ''ACK'', ''ERROR'', ''HEARTBEAT'', ''RESET'', ''COMPLETE'', ''ADDED'', ''MODIFIED'',
      ''DELETED'']"

definition stream_signals :: "string list" where
  "stream_signals = [''changed'', ''reset'', ''error'']"

definition hasMessageType :: "json \<Rightarrow> bool" where
  "hasMessageType value = (case js_string value of None \<Rightarrow> False | Some s \<Rightarrow> s \<in> set message_types)"

definition hasSignalType :: "json \<Rightarrow> bool" where
  "hasSignalType value = (case js_string value of None \<Rightarrow> False | Some s \<Rightarrow> s \<in> set stream_signals)"

definition normalizeScope :: "string \<Rightarrow> json \<Rightarrow> string \<Rightarrow> string option" where
  "normalizeScope domain scope clusterId =
     (case scope of
        JString s \<Rightarrow>
          (let (cluster, rest) = parseClusterScope s
           in if cluster \<noteq> [] \<and> cluster \<noteq> clusterId then None
              else if rest \<noteq> [] \<or> isClusterScopedDomain domain then Some rest else None)
      | _ \<Rightarrow> if js_nullish scope \<and> isClusterScopedDomain domain then Some [] else None)"

definition canonicalSource :: "string \<Rightarrow> json \<Rightarrow> source_clock option" where
  "canonicalSource domain source =
     (case isResourceStreamSourceClock source of
        Some clock \<Rightarrow> if domainSupportsSourceClock domain clock then Some clock else None
      | None \<Rightarrow> None)"

definition legacySignal :: "json \<Rightarrow> string option" where
  "legacySignal type =
     (if type \<in> {JString ''ADDED'', JString ''MODIFIED'', JString ''DELETED''} then Some ''changed''
      else if type \<in> {JString ''RESET'', JString ''COMPLETE''} then Some ''reset''
      else if type = JString ''ERROR'' then Some ''error''
      else None)"

definition resolveModernSignal :: "json \<Rightarrow> string \<Rightarrow> string option" where
  "resolveModernSignal wire domain =
     (if trimmed_or_none (js_field wire ''version'') \<noteq> None \<and>
         canonicalSource domain (js_field wire ''source'') \<noteq> None \<and> hasSignalType (js_field wire ''signal'')
      then js_string (js_field wire ''signal'') else None)"

definition canonicalMessage :: "json \<Rightarrow> string \<Rightarrow> string option \<Rightarrow> stream_message option" where
  "canonicalMessage wire domain modernSignal =
     (let source = canonicalSource domain (js_field wire ''source'');
          version = trimmed_or_none (js_field wire ''version'');
          sequence = parsePositiveInteger (js_field wire ''sequence'');
          resourceVersion = parsePositiveInteger (js_field wire ''resourceVersion'');
          errorStatus = (if isErrorStatus (js_field wire ''errorDetails'') then Some (js_field wire ''errorDetails'')
                         else None);
          errorReason = (case truthy (resolvePermissionDeniedMessage (js_string (js_field wire ''error'')) errorStatus) of
                           None \<Rightarrow> ''stream error'' | Some r \<Rightarrow> r);
          signal = (case modernSignal of Some s \<Rightarrow> Some s | None \<Rightarrow> legacySignal (js_field wire ''type''))
      in if signal = Some ''changed'' then Some (MsgChanged source version sequence resourceVersion)
         else if signal = Some ''reset''
         then Some (MsgReset (if js_field wire ''type'' = JString ''COMPLETE'' then ResetComplete else ResetReset)
                source version)
         else if signal = Some ''error'' then Some (MsgError errorReason (is_forbidden errorStatus))
         else if js_field wire ''type'' = JString ''ACK'' then Some MsgAcknowledged
         else if js_field wire ''type'' = JString ''HEARTBEAT'' then Some MsgHeartbeat
         else None)"

record normalized_message =
  nm_cluster :: string
  nm_cluster_name :: "string option"
  nm_domain :: string
  nm_scope :: string
  nm_message :: stream_message

definition text_or_nullish :: "json \<Rightarrow> bool" where
  "text_or_nullish value \<longleftrightarrow> js_nullish value \<or> js_string value \<noteq> None"

definition normalizeResourceStreamProtocolMessage :: "json \<Rightarrow> normalized_message option" where
  "normalizeResourceStreamProtocolMessage wire =
     (case js_string (js_field wire ''domain'') of
        None \<Rightarrow> None
      | Some domain \<Rightarrow>
          if \<not> isSupportedDomain domain then None
          else
            let clusterId = (case js_string (js_field wire ''clusterId'') of None \<Rightarrow> [] | Some c \<Rightarrow> trim c)
            in if clusterId = [] then None
               else if \<not> text_or_nullish (js_field wire ''version'') \<or> \<not> text_or_nullish (js_field wire ''clusterName'')
               then None
               else case normalizeScope domain (js_field wire ''scope'') clusterId of
                 None \<Rightarrow> None
               | Some scope \<Rightarrow>
                   if isResourceStreamSourceClock (js_field wire ''source'') \<noteq> None \<and>
                      canonicalSource domain (js_field wire ''source'') = None
                   then None
                   else
                     let signal = resolveModernSignal wire domain
                     in if signal = None \<and> \<not> hasMessageType (js_field wire ''type'') then None
                        else case canonicalMessage wire domain signal of
                          None \<Rightarrow> None
                        | Some message \<Rightarrow>
                            Some \<lparr>nm_cluster = clusterId,
                                  nm_cluster_name = trimmed_or_none (js_field wire ''clusterName''),
                                  nm_domain = domain, nm_scope = scope, nm_message = message\<rparr>)"

end
