(* ===== verification/Stream_Manager.thy ===== *)
theory Stream_Manager
  imports Refresh_Store Stream_Domains
begin

text \<open>
  The resource stream manager: \<open>resourceStreamManager.ts\<close>, \<open>resourceStreamSubscriptions.ts\<close>,
  \<open>resourceStreamConnection.ts\<close>, \<open>resourceStreamHealth.ts\<close>, \<open>streamVisibilityController.ts\<close> and the part of
  \<open>streamErrorNotifier.ts\<close> it uses, all in \<open>core/refresh/streaming\<close>.

  Subscriptions and connections are objects that timers and sockets keep hold of after the manager has replaced them,
  so they live in lists indexed by an object number and the tables hold numbers. An armed timer is an entry of
  \<open>mg_timers\<close>; it may fire at any moment and in any order. Sockets belong to the desktop runtime: an environment
  record says, for one synchronous call, what the clock shows, whether opening a socket throws, which
  sockets report that they are open, and what \<open>JSON.parse\<close> makes of a text. Events on the application's bus, messages on a socket and closed sockets
  are appended to traces.

  The functions from \<open>applyProtocolEvent\<close> to \<open>handleConnectionError\<close> call each other, to a bounded depth:
  \<open>run_call\<close> carries fuel and returns \<open>None\<close> when it runs out.
\<close>

section \<open>State\<close>

record stream_subscription =
  sb_key :: string
  sb_domain :: string
  sb_store_scope :: string
  sb_leased :: bool
  sb_normalized_scope :: string
  sb_cluster :: string
  sb_cluster_name :: "string option"
  sb_protocol :: protocol_state

record subscription_scope =
  us_cluster :: string
  us_normalized_scope :: string
  us_store_scope :: string

datatype client_message =
    RequestMessage string string string "string option" "string option"
  | CancelMessage string string string

record resource_connection =
  cn_socket :: "nat option"
  cn_attempt :: nat
  cn_closed :: bool
  cn_paused :: bool
  cn_reconnect :: "timer option"
  cn_pending :: "client_message list"

record stream_health_payload =
  hp_domain :: string
  hp_scope :: string
  hp_status :: stream_status
  hp_reason :: string
  hp_connected :: bool
  hp_last_message :: "int option"
  hp_last_delivery :: "int option"

record stream_telemetry =
  tl_cluster :: string
  tl_domain :: string
  tl_resyncs :: nat
  tl_fallbacks :: nat
  tl_last_resync :: "millis option"
  tl_last_resync_reason :: "string option"
  tl_last_fallback :: "millis option"
  tl_last_fallback_reason :: "string option"

datatype timer_action =
    FlushTimer nat
  | TrailingTimer nat
  | UnsubscribeTimer nat bool
  | ReconnectTimer nat

datatype bus_event =
    StreamHealthEvent stream_health_payload
  | StreamSignalEvent string string
  | StreamDeniedEvent string string string

record 'p stream_manager =
  mg_objects :: "stream_subscription list"
  mg_table :: "(string, nat) js_map"
  mg_pending :: "(string, timer) js_map"
  mg_timers :: "(timer, timer_action) js_map"
  mg_next_timer :: timer
  mg_connections :: "resource_connection list"
  mg_sockets :: "nat list"
  mg_connection :: "nat option"
  mg_connected :: bool
  mg_epoch :: nat
  mg_last_error :: string
  mg_health :: "(string, stream_health_payload) js_map"
  mg_errors :: "(string, string) js_map"
  mg_legacy :: nat
  mg_suspended :: bool
  mg_telemetry :: "(string, stream_telemetry) js_map"
  mg_store :: "'p refresh_store"
  mg_events :: "bus_event list"
  mg_sent :: "(nat \<times> client_message) list"
  mg_closed :: "nat list"

record call_env =
  ce_now :: millis
  ce_open_error :: "string option"
  ce_ready :: "nat \<Rightarrow> bool"
  ce_parse :: "string \<Rightarrow> json option"

definition initial_manager :: "'p refresh_store \<Rightarrow> 'p stream_manager" where
  "initial_manager store =
     \<lparr>mg_objects = [], mg_table = [], mg_pending = [], mg_timers = [], mg_next_timer = 1, mg_connections = [],
      mg_sockets = [], mg_connection = None, mg_connected = False, mg_epoch = 0, mg_last_error = [], mg_health = [],
      mg_errors = [], mg_legacy = 0, mg_suspended = False, mg_telemetry = [], mg_store = store, mg_events = [],
      mg_sent = [], mg_closed = []\<rparr>"

section \<open>Timers\<close>

definition set_timeout :: "timer_action \<Rightarrow> 'p stream_manager \<Rightarrow> 'p stream_manager" where
  "set_timeout action s =
     s\<lparr>mg_timers := mg_timers s @ [(mg_next_timer s, action)], mg_next_timer := mg_next_timer s + 1\<rparr>"

definition clear_timeout :: "timer \<Rightarrow> 'p stream_manager \<Rightarrow> 'p stream_manager" where
  "clear_timeout t s = s\<lparr>mg_timers := AList.delete t (mg_timers s)\<rparr>"

section \<open>Subscriptions\<close>

definition resourceStreamSubscriptionKey :: "string \<Rightarrow> string \<Rightarrow> string \<Rightarrow> string" where
  "resourceStreamSubscriptionKey clusterId domain scope = clusterId @ ''::'' @ domain @ ''::'' @ scope"

datatype subscription_error = ScopeError scope_error | QueryScopeRefused

definition resolveResourceStreamSubscriptionScope ::
    "string \<Rightarrow> string \<Rightarrow> subscription_error + subscription_scope" where
  "resolveResourceStreamSubscriptionScope domain scope =
     (case parseRefreshScope domain scope of
        Inl e \<Rightarrow> Inl (ScopeError e)
      | Inr decoded \<Rightarrow>
          if hasOneShotQuery decoded then Inl QueryScopeRefused
          else (case buildRefreshScope domain (rs_cluster decoded) (rs_selector decoded) '''' of
                  Inl e \<Rightarrow> Inl (ScopeError e)
                | Inr storeScope \<Rightarrow>
                    Inr \<lparr>us_cluster = rs_cluster decoded,
                         us_normalized_scope = encodeScopeSelector (rs_selector decoded),
                         us_store_scope = storeScope\<rparr>))"

definition tryResolveSubscriptionScope :: "string \<Rightarrow> string \<Rightarrow> subscription_scope option" where
  "tryResolveSubscriptionScope domain scope =
     (case resolveResourceStreamSubscriptionScope domain scope of Inl _ \<Rightarrow> None | Inr r \<Rightarrow> Some r)"

definition sub_of :: "'p stream_manager \<Rightarrow> nat \<Rightarrow> stream_subscription" where
  "sub_of s oid = mg_objects s ! oid"

definition put_sub :: "nat \<Rightarrow> stream_subscription \<Rightarrow> 'p stream_manager \<Rightarrow> 'p stream_manager" where
  "put_sub oid sub s = s\<lparr>mg_objects := (mg_objects s)[oid := sub]\<rparr>"

definition new_sub :: "stream_subscription \<Rightarrow> 'p stream_manager \<Rightarrow> 'p stream_manager" where
  "new_sub sub s =
     s\<lparr>mg_objects := mg_objects s @ [sub],
        mg_table := AList.update (sb_key sub) (length (mg_objects s)) (mg_table s)\<rparr>"

definition put_protocol :: "nat \<Rightarrow> protocol_state \<Rightarrow> 'p stream_manager \<Rightarrow> 'p stream_manager" where
  "put_protocol oid st s = put_sub oid ((sub_of s oid)\<lparr>sb_protocol := st\<rparr>) s"

definition hasPendingUnsubscribe :: "'p stream_manager \<Rightarrow> nat \<Rightarrow> bool" where
  "hasPendingUnsubscribe s oid \<longleftrightarrow> map_of (mg_pending s) (sb_key (sub_of s oid)) \<noteq> None"

definition cancelPendingUnsubscribe :: "nat \<Rightarrow> 'p stream_manager \<Rightarrow> 'p stream_manager" where
  "cancelPendingUnsubscribe oid s =
     (let key = sb_key (sub_of s oid)
      in case map_of (mg_pending s) key of
           None \<Rightarrow> s
         | Some timerId \<Rightarrow> (clear_timeout timerId s)\<lparr>mg_pending := AList.delete key (mg_pending s)\<rparr>)"

definition getForScope :: "'p stream_manager \<Rightarrow> string \<Rightarrow> string \<Rightarrow> nat option" where
  "getForScope s domain scope =
     (case tryResolveSubscriptionScope domain scope of
        None \<Rightarrow> None
      | Some r \<Rightarrow>
          (case map_of (mg_table s) (resourceStreamSubscriptionKey (us_cluster r) domain (us_normalized_scope r)) of
             None \<Rightarrow> None
           | Some oid \<Rightarrow> if sb_leased (sub_of s oid) then Some oid else None))"

definition release :: "'p stream_manager \<Rightarrow> string \<Rightarrow> string \<Rightarrow> 'p stream_manager \<times> nat option" where
  "release s domain scope =
     (case getForScope s domain scope of
        None \<Rightarrow> (s, None)
      | Some oid \<Rightarrow> (put_sub oid ((sub_of s oid)\<lparr>sb_leased := False\<rparr>) s, Some oid))"

fun is_permission_blocked :: "protocol_phase \<Rightarrow> bool" where
  "is_permission_blocked (PermissionBlocked _ _) = True"
| "is_permission_blocked _ = False"

definition ensureResolved ::
    "string \<Rightarrow> subscription_scope \<Rightarrow> 'p stream_manager \<Rightarrow> 'p stream_manager \<times> nat" where
  "ensureResolved domain r s =
     (let key = resourceStreamSubscriptionKey (us_cluster r) domain (us_normalized_scope r)
      in case map_of (mg_table s) key of
           Some oid \<Rightarrow>
             (let replaceBlockedOwner = (hasPendingUnsubscribe s oid \<and>
                    is_permission_blocked (ps_phase (sb_protocol (sub_of s oid))));
                  s1 = cancelPendingUnsubscribe oid (put_sub oid ((sub_of s oid)\<lparr>sb_leased := True\<rparr>) s)
              in if replaceBlockedOwner
                 then (new_sub ((sub_of s1 oid)\<lparr>sb_protocol := initialResourceStreamProtocolState\<rparr>) s1,
                       length (mg_objects s1))
                 else (s1, oid))
         | None \<Rightarrow>
             (new_sub \<lparr>sb_key = key, sb_domain = domain, sb_store_scope = us_store_scope r, sb_leased = True,
                       sb_normalized_scope = us_normalized_scope r, sb_cluster = us_cluster r, sb_cluster_name = None,
                       sb_protocol = initialResourceStreamProtocolState\<rparr> s,
              length (mg_objects s)))"

text \<open>\<open>value ? value.toString() : undefined\<close> for a big integer.\<close>

definition big_int_token :: "int option \<Rightarrow> string option" where
  "big_int_token value =
     (case value of
        None \<Rightarrow> None
      | Some i \<Rightarrow> if i = 0 then None else Some ((if i < 0 then ''-'' else []) @ decimal (nat \<bar>i\<bar>)))"

definition buildRequestMessage :: "stream_subscription \<Rightarrow> client_message" where
  "buildRequestMessage sub =
     RequestMessage (sb_cluster sub) (sb_domain sub) (sb_store_scope sub)
       (big_int_token (ps_resource_version (sb_protocol sub))) (big_int_token (ps_last_sequence (sb_protocol sub)))"

definition buildCancelMessage :: "stream_subscription \<Rightarrow> client_message" where
  "buildCancelMessage sub = CancelMessage (sb_cluster sub) (sb_domain sub) (sb_store_scope sub)"

definition clear_subscriptions :: "'p stream_manager \<Rightarrow> 'p stream_manager" where
  "clear_subscriptions s =
     (fold clear_timeout (map snd (mg_pending s)) s)\<lparr>mg_table := [], mg_pending := []\<rparr>"

definition table_values :: "'p stream_manager \<Rightarrow> nat list" where
  "table_values s = map snd (mg_table s)"

section \<open>Health\<close>

fun stream_health_order :: "stream_status \<Rightarrow> nat" where
  "stream_health_order HealthyStream = 0"
| "stream_health_order DegradedStream = 1"
| "stream_health_order UnhealthyStream = 2"

definition health_key :: "string \<Rightarrow> string \<Rightarrow> string" where
  "health_key domain scope = domain @ ''::'' @ scope"

definition health_status :: "'p stream_manager \<Rightarrow> string \<Rightarrow> string \<Rightarrow> stream_status" where
  "health_status s domain scope =
     (case map_of (mg_health s) (health_key domain scope) of None \<Rightarrow> UnhealthyStream | Some h \<Rightarrow> hp_status h)"

definition health_snapshot :: "'p stream_manager \<Rightarrow> string \<Rightarrow> string \<Rightarrow> stream_health_payload option" where
  "health_snapshot s domain scope =
     (if isSupportedDomain domain then map_of (mg_health s) (health_key domain scope) else None)"

definition health_set :: "stream_health_payload \<Rightarrow> 'p stream_manager \<Rightarrow> 'p stream_manager" where
  "health_set h s =
     (let key = health_key (hp_domain h) (hp_scope h);
          s1 = s\<lparr>mg_health := AList.update key h (mg_health s)\<rparr>
      in case map_of (mg_health s) key of
           Some p \<Rightarrow>
             if hp_status p = hp_status h \<and> hp_reason p = hp_reason h \<and> hp_connected p = hp_connected h then s1
             else s1\<lparr>mg_events := mg_events s @ [StreamHealthEvent h]\<rparr>
         | None \<Rightarrow> s1\<lparr>mg_events := mg_events s @ [StreamHealthEvent h]\<rparr>)"

definition computeSubscriptionHealth :: "'p stream_manager \<Rightarrow> stream_subscription \<Rightarrow> stream_status \<times> string" where
  "computeSubscriptionHealth s sub =
     computeResourceStreamProtocolHealth (sb_protocol sub) (mg_connected s) (mg_last_error s)"

definition or_zero :: "int option \<Rightarrow> int" where
  "or_zero t = (case t of None \<Rightarrow> 0 | Some v \<Rightarrow> v)"

definition nonzero :: "int \<Rightarrow> int option" where
  "nonzero t = (if t = 0 then None else Some t)"

definition scope_subscriptions :: "'p stream_manager \<Rightarrow> string \<Rightarrow> string \<Rightarrow> stream_subscription list" where
  "scope_subscriptions s domain scope =
     filter (\<lambda>sub. sb_domain sub = domain \<and> sb_leased sub \<and> sb_store_scope sub = scope)
       (map (sub_of s) (table_values s))"

definition worse_health :: "stream_status \<times> string \<Rightarrow> stream_status \<times> string \<Rightarrow> stream_status \<times> string" where
  "worse_health health current =
     (if stream_health_order (fst current) < stream_health_order (fst health) then health else current)"

definition aggregateHealth :: "'p stream_manager \<Rightarrow> string \<Rightarrow> string \<Rightarrow> stream_health_payload" where
  "aggregateHealth s domain scope =
     (let subs = scope_subscriptions s domain scope
      in if subs = [] then
           \<lparr>hp_domain = domain, hp_scope = scope, hp_status = UnhealthyStream, hp_reason = ''inactive'',
            hp_connected = mg_connected s, hp_last_message = None, hp_last_delivery = None\<rparr>
         else
           let health = fold (\<lambda>sub. worse_health (computeSubscriptionHealth s sub)) subs (HealthyStream, ''delivering'');
               lastMessageAt = fold (\<lambda>sub t. max t (or_zero (ps_last_message (sb_protocol sub)))) subs 0;
               lastDeliveryAt = fold (\<lambda>sub t. max t (or_zero (ps_last_delivery (sb_protocol sub)))) subs 0
           in \<lparr>hp_domain = domain, hp_scope = scope, hp_status = fst health, hp_reason = snd health,
               hp_connected = mg_connected s, hp_last_message = nonzero lastMessageAt,
               hp_last_delivery = nonzero lastDeliveryAt\<rparr>)"

definition updateHealthForSubscription :: "nat \<Rightarrow> 'p stream_manager \<Rightarrow> 'p stream_manager" where
  "updateHealthForSubscription oid s =
     health_set (aggregateHealth s (sb_domain (sub_of s oid)) (sb_store_scope (sub_of s oid))) s"

definition updateAllHealth :: "'p stream_manager \<Rightarrow> 'p stream_manager" where
  "updateAllHealth s = fold updateHealthForSubscription (table_values s) s"

definition markConnectionOpen :: "'p stream_manager \<Rightarrow> 'p stream_manager" where
  "markConnectionOpen s =
     updateAllHealth (s\<lparr>mg_connected := True, mg_epoch := mg_epoch s + 1, mg_last_error := []\<rparr>)"

definition markConnectionError :: "string \<Rightarrow> 'p stream_manager \<Rightarrow> 'p stream_manager" where
  "markConnectionError message s = updateAllHealth (s\<lparr>mg_connected := False, mg_last_error := message\<rparr>)"

section \<open>Errors, telemetry and the snapshot store\<close>

definition notification_key :: "string \<Rightarrow> string \<Rightarrow> string" where
  "notification_key domain scope = domain @ ''::'' @ scope"

definition clearStreamError :: "string \<Rightarrow> 'p stream_manager \<Rightarrow> 'p stream_manager" where
  "clearStreamError clusterId s =
     s\<lparr>mg_errors := AList.delete (notification_key ''resource-stream'' clusterId) (mg_errors s)\<rparr>"

definition ensureStreamTelemetry :: "'p stream_manager \<Rightarrow> nat \<Rightarrow> stream_telemetry" where
  "ensureStreamTelemetry s oid =
     (case map_of (mg_telemetry s) (sb_key (sub_of s oid)) of
        Some stats \<Rightarrow> stats
      | None \<Rightarrow>
          \<lparr>tl_cluster = sb_cluster (sub_of s oid), tl_domain = sb_domain (sub_of s oid), tl_resyncs = 0,
           tl_fallbacks = 0, tl_last_resync = None, tl_last_resync_reason = None, tl_last_fallback = None,
           tl_last_fallback_reason = None\<rparr>)"

definition put_telemetry :: "nat \<Rightarrow> stream_telemetry \<Rightarrow> 'p stream_manager \<Rightarrow> 'p stream_manager" where
  "put_telemetry oid stats s =
     s\<lparr>mg_telemetry := AList.update (sb_key (sub_of s oid)) stats (mg_telemetry s)\<rparr>"

definition shouldTrackResync :: "string \<Rightarrow> bool" where
  "shouldTrackResync reason \<longleftrightarrow> reason \<noteq> ''initial'' \<and> reason \<noteq> ''manual refresh''"

definition recordResync :: "call_env \<Rightarrow> nat \<Rightarrow> string \<Rightarrow> 'p stream_manager \<Rightarrow> 'p stream_manager" where
  "recordResync env oid reason s =
     (if \<not> shouldTrackResync reason then s
      else let stats = ensureStreamTelemetry s oid
           in put_telemetry oid (stats\<lparr>tl_resyncs := tl_resyncs stats + 1, tl_last_resync := Some (ce_now env),
                tl_last_resync_reason := Some reason\<rparr>) s)"

definition recordStreamFallback ::
    "call_env \<Rightarrow> string \<Rightarrow> string \<Rightarrow> string \<Rightarrow> 'p stream_manager \<Rightarrow> 'p stream_manager" where
  "recordStreamFallback env domain scope reason s =
     (case getForScope s domain scope of
        None \<Rightarrow> s
      | Some oid \<Rightarrow>
          let stats = ensureStreamTelemetry s oid
          in put_telemetry oid (stats\<lparr>tl_fallbacks := tl_fallbacks stats + 1, tl_last_fallback := Some (ce_now env),
               tl_last_fallback_reason := Some reason\<rparr>) s)"

text \<open>The counters of all subscriptions, folded into one summary or one per cluster and domain.\<close>

record telemetry_summary =
  su_resyncs :: nat
  su_fallbacks :: nat
  su_last_resync :: "millis option"
  su_last_resync_reason :: "string option"
  su_last_fallback :: "millis option"
  su_last_fallback_reason :: "string option"

definition empty_summary :: telemetry_summary where
  "empty_summary = \<lparr>su_resyncs = 0, su_fallbacks = 0, su_last_resync = None, su_last_resync_reason = None,
     su_last_fallback = None, su_last_fallback_reason = None\<rparr>"

definition later_than :: "millis option \<Rightarrow> millis option \<Rightarrow> bool" where
  "later_than a b \<longleftrightarrow> (case a of None \<Rightarrow> False | Some n \<Rightarrow> n \<noteq> 0 \<and> (case b of None \<Rightarrow> 0 | Some k \<Rightarrow> k) < n)"

definition accumulateStreamTelemetry :: "telemetry_summary \<Rightarrow> stream_telemetry \<Rightarrow> telemetry_summary" where
  "accumulateStreamTelemetry summary stats =
     (let s1 = summary\<lparr>su_resyncs := su_resyncs summary + tl_resyncs stats,
                 su_fallbacks := su_fallbacks summary + tl_fallbacks stats\<rparr>;
          s2 = (if later_than (tl_last_resync stats) (su_last_resync s1)
                then s1\<lparr>su_last_resync := tl_last_resync stats, su_last_resync_reason := tl_last_resync_reason stats\<rparr>
                else s1)
      in if later_than (tl_last_fallback stats) (su_last_fallback s2)
         then s2\<lparr>su_last_fallback := tl_last_fallback stats, su_last_fallback_reason := tl_last_fallback_reason stats\<rparr>
         else s2)"

definition getTelemetrySummary :: "'p stream_manager \<Rightarrow> telemetry_summary" where
  "getTelemetrySummary s = foldl accumulateStreamTelemetry empty_summary (map snd (mg_telemetry s))"

definition add_to_summary ::
    "(string, telemetry_summary) js_map \<Rightarrow> stream_telemetry \<Rightarrow> (string, telemetry_summary) js_map" where
  "add_to_summary summaries stats =
     (let key = tl_cluster stats @ ''::'' @ tl_domain stats;
          summary = (case map_of summaries key of None \<Rightarrow> empty_summary | Some x \<Rightarrow> x)
      in AList.update key (accumulateStreamTelemetry summary stats) summaries)"

definition getTelemetrySummaryByClusterDomain :: "'p stream_manager \<Rightarrow> (string, telemetry_summary) js_map" where
  "getTelemetrySummaryByClusterDomain s = foldl add_to_summary [] (map snd (mg_telemetry s))"

definition hasRetainedData :: "'p stream_manager \<Rightarrow> nat \<Rightarrow> bool" where
  "hasRetainedData s oid \<longleftrightarrow>
     ds_data (getScopedDomainState (mg_store s) (sb_domain (sub_of s oid)) (sb_store_scope (sub_of s oid))) \<noteq> None"

definition update_snapshot ::
    "nat \<Rightarrow> ('p domain_snapshot \<Rightarrow> 'p domain_snapshot) \<Rightarrow> 'p stream_manager \<Rightarrow> 'p stream_manager" where
  "update_snapshot oid f s =
     s\<lparr>mg_store := setScopedDomainState (mg_store s) (sb_domain (sub_of s oid)) (sb_store_scope (sub_of s oid))
         (\<lambda>previous. Some (f previous))\<rparr>"

definition advancesDeclaredClock ::
    "string \<Rightarrow> (string, string) js_map option \<Rightarrow> (source_clock, string) js_map \<Rightarrow> bool" where
  "advancesDeclaredClock domain previous next_versions \<longleftrightarrow>
     list_ex (\<lambda>clock. map_of next_versions clock \<noteq> None \<and>
         map_of next_versions clock \<noteq> (case previous of None \<Rightarrow> None | Some p \<Rightarrow> map_of p (clock_name clock)))
       (doorbellSourceClocks domain)"

definition merge_signals ::
    "(string, string) js_map option \<Rightarrow> (source_clock, string) js_map \<Rightarrow> (string, string) js_map" where
  "merge_signals previous versions =
     fold (\<lambda>(clock, version). AList.update (clock_name clock) version) versions
       (case previous of None \<Rightarrow> [] | Some p \<Rightarrow> p)"

definition bumpSourceVersionOnly ::
    "call_env \<Rightarrow> nat \<Rightarrow> (source_clock, string) js_map \<Rightarrow> string option \<Rightarrow> 'p stream_manager \<Rightarrow>
     'p stream_manager" where
  "bumpSourceVersionOnly env oid sourceVersions latest s =
     (let domain = sb_domain (sub_of s oid); scope = sb_store_scope (sub_of s oid);
          advanced = advancesDeclaredClock domain
            (ds_signal_versions (getScopedDomainState (mg_store s) domain scope)) sourceVersions;
          s1 = update_snapshot oid (\<lambda>previous. previous\<lparr>
                 ds_status := StatusReady,
                 ds_source_version := (case latest of None \<Rightarrow> ds_source_version previous | Some v \<Rightarrow> Some v),
                 ds_signal_versions := Some (merge_signals (ds_signal_versions previous) sourceVersions),
                 ds_stream_revision := Some ((case ds_stream_revision previous of None \<Rightarrow> 0 | Some r \<Rightarrow> r) + 1),
                 ds_last_updated := Some (ce_now env), ds_last_auto := Some (ce_now env), ds_error := None,
                 ds_is_manual := False, ds_scope := Some scope\<rparr>) s;
          s2 = (if advanced then s1\<lparr>mg_events := mg_events s1 @ [StreamSignalEvent domain scope]\<rparr> else s1)
      in clearStreamError (sb_cluster (sub_of s oid)) s2)"

definition legacyResyncSource :: "string \<Rightarrow> source_clock option" where
  "legacyResyncSource domain =
     (if domainSupportsSourceClock domain ObjectClock then Some ObjectClock
      else case doorbellSourceClocks domain of [] \<Rightarrow> None | clock # _ \<Rightarrow> Some clock)"

definition bumpLegacyResyncSourceVersion :: "call_env \<Rightarrow> nat \<Rightarrow> 'p stream_manager \<Rightarrow> 'p stream_manager" where
  "bumpLegacyResyncSourceVersion env oid s =
     (case legacyResyncSource (sb_domain (sub_of s oid)) of
        None \<Rightarrow> s
      | Some source \<Rightarrow>
          let counter = mg_legacy s + 1; version = clock_name source @ '':resync:'' @ decimal counter
          in bumpSourceVersionOnly env oid [(source, version)] (Some version) (s\<lparr>mg_legacy := counter\<rparr>))"

definition markResyncComplete :: "call_env \<Rightarrow> nat \<Rightarrow> 'p stream_manager \<Rightarrow> 'p stream_manager" where
  "markResyncComplete env oid s =
     clearStreamError (sb_cluster (sub_of s oid))
       (update_snapshot oid (\<lambda>previous. previous\<lparr>
          ds_status := (if ds_data previous \<noteq> None then StatusReady else StatusIdle), ds_error := None,
          ds_last_updated := (case ds_last_updated previous of None \<Rightarrow> Some (ce_now env) | Some t \<Rightarrow> Some t),
          ds_last_auto := Some (ce_now env), ds_scope := Some (sb_store_scope (sub_of s oid))\<rparr>) s)"

definition markResyncing :: "nat \<Rightarrow> 'p stream_manager \<Rightarrow> 'p stream_manager" where
  "markResyncing oid s =
     update_snapshot oid (\<lambda>previous. previous\<lparr>
       ds_status := (if ds_data previous \<noteq> None then StatusUpdating else StatusInitialising),
       ds_error := Some (localFailure ''Stream resyncing''), ds_scope := Some (sb_store_scope (sub_of s oid))\<rparr>) s"

section \<open>The connection\<close>

definition conn_of :: "'p stream_manager \<Rightarrow> nat \<Rightarrow> resource_connection" where
  "conn_of s cid = mg_connections s ! cid"

definition put_conn :: "nat \<Rightarrow> resource_connection \<Rightarrow> 'p stream_manager \<Rightarrow> 'p stream_manager" where
  "put_conn cid c s = s\<lparr>mg_connections := (mg_connections s)[cid := c]\<rparr>"

definition new_connection :: resource_connection where
  "new_connection = \<lparr>cn_socket = None, cn_attempt = 0, cn_closed = False, cn_paused = False, cn_reconnect = None,
                     cn_pending = []\<rparr>"

definition send :: "call_env \<Rightarrow> nat \<Rightarrow> client_message \<Rightarrow> 'p stream_manager \<Rightarrow> 'p stream_manager" where
  "send env cid message s =
     (case cn_socket (conn_of s cid) of
        Some sid \<Rightarrow>
          if ce_ready env sid then s\<lparr>mg_sent := mg_sent s @ [(sid, message)]\<rparr>
          else put_conn cid ((conn_of s cid)\<lparr>cn_pending := cn_pending (conn_of s cid) @ [message]\<rparr>) s
      | None \<Rightarrow> put_conn cid ((conn_of s cid)\<lparr>cn_pending := cn_pending (conn_of s cid) @ [message]\<rparr>) s)"

definition clearReconnect :: "nat \<Rightarrow> 'p stream_manager \<Rightarrow> 'p stream_manager" where
  "clearReconnect cid s =
     (case cn_reconnect (conn_of s cid) of
        None \<Rightarrow> s
      | Some t \<Rightarrow> put_conn cid ((conn_of s cid)\<lparr>cn_reconnect := None\<rparr>) (clear_timeout t s))"

definition scheduleReconnect :: "nat \<Rightarrow> 'p stream_manager \<Rightarrow> 'p stream_manager" where
  "scheduleReconnect cid s =
     (if cn_closed (conn_of s cid) \<or> cn_paused (conn_of s cid) then s
      else let s1 = clearReconnect cid s; c = conn_of s1 cid
           in set_timeout (ReconnectTimer cid)
                (put_conn cid (c\<lparr>cn_attempt := cn_attempt c + 1, cn_reconnect := Some (mg_next_timer s1)\<rparr>) s1))"

definition close_socket :: "nat \<Rightarrow> 'p stream_manager \<Rightarrow> 'p stream_manager" where
  "close_socket cid s =
     (case cn_socket (conn_of s cid) of
        None \<Rightarrow> s
      | Some sid \<Rightarrow> put_conn cid ((conn_of s cid)\<lparr>cn_socket := None\<rparr>) (s\<lparr>mg_closed := mg_closed s @ [sid]\<rparr>))"

definition pause :: "nat \<Rightarrow> 'p stream_manager \<Rightarrow> 'p stream_manager" where
  "pause cid s = close_socket cid (clearReconnect cid (put_conn cid ((conn_of s cid)\<lparr>cn_paused := True\<rparr>) s))"

definition close :: "nat \<Rightarrow> 'p stream_manager \<Rightarrow> 'p stream_manager" where
  "close cid s = close_socket cid (clearReconnect cid (put_conn cid ((conn_of s cid)\<lparr>cn_closed := True\<rparr>) s))"

definition open_socket :: "nat \<Rightarrow> 'p stream_manager \<Rightarrow> 'p stream_manager" where
  "open_socket cid s =
     put_conn cid ((conn_of s cid)\<lparr>cn_socket := Some (length (mg_sockets s))\<rparr>)
       (s\<lparr>mg_sockets := mg_sockets s @ [cid]\<rparr>)"

definition add_connection :: "'p stream_manager \<Rightarrow> 'p stream_manager" where
  "add_connection s =
     s\<lparr>mg_connections := mg_connections s @ [new_connection], mg_connection := Some (length (mg_connections s))\<rparr>"

section \<open>Calls between subscriptions and the connection\<close>

definition UPDATE_QUEUE_LIMIT :: nat where
  "UPDATE_QUEUE_LIMIT = 1000"

definition RESYNC_COOLDOWN_MS :: int where
  "RESYNC_COOLDOWN_MS = 1000"

definition resync_event :: "call_env \<Rightarrow> string \<Rightarrow> bool \<Rightarrow> string option \<Rightarrow> protocol_event" where
  "resync_event env reason force errorReason =
     ResyncRequested \<lparr>rq_reason = reason, rq_now = int (ce_now env), rq_force = force,
       rq_cooldown = RESYNC_COOLDOWN_MS, rq_error = truthy errorReason\<rparr>"

text \<open>The manager, its connection and the protocol call each other. A call is a value; every function below takes as
  \<open>invoke\<close> the way to make the calls its source makes, and \<open>run_call\<close> closes the circle.\<close>

datatype manager_call =
    ApplyEvent nat protocol_event
  | RunEffect nat protocol_effect
  | Resync nat string bool "string option"
  | Subscribe nat
  | Connect nat
  | ConnectionFailed nat string
  | ConnectionError string

type_synonym 'p invoke = "manager_call \<Rightarrow> 'p stream_manager \<Rightarrow> 'p stream_manager option"

definition applyProtocolEvent ::
    "'p invoke \<Rightarrow> nat \<Rightarrow> protocol_event \<Rightarrow> 'p stream_manager \<Rightarrow> 'p stream_manager option" where
  "applyProtocolEvent invoke oid event s =
     (let result = transitionResourceStreamProtocol (sb_protocol (sub_of s oid)) event
      in map_option (updateHealthForSubscription oid)
           (for_each (\<lambda>effect. invoke (RunEffect oid effect)) (snd result) (put_protocol oid (fst result) s)))"

definition runProtocolEffect ::
    "'p invoke \<Rightarrow> call_env \<Rightarrow> nat \<Rightarrow> protocol_effect \<Rightarrow> 'p stream_manager \<Rightarrow> 'p stream_manager option" where
  "runProtocolEffect invoke env oid effect s =
     (case effect of
        ScheduleFlush \<Rightarrow>
          invoke (ApplyEvent oid (FlushTimerAttached (mg_next_timer s))) (set_timeout (FlushTimer oid) s)
      | CancelFlush timer \<Rightarrow> Some (clear_timeout timer s)
      | CancelTrailingResync timer \<Rightarrow> Some (clear_timeout timer s)
      | AdvanceSource sourceVersions latest \<Rightarrow> Some (bumpSourceVersionOnly env oid sourceVersions latest s)
      | AdvanceLegacyReset \<Rightarrow> Some (bumpLegacyResyncSourceVersion env oid s)
      | RequestResync reason force errorReason \<Rightarrow> invoke (Resync oid reason force errorReason) s
      | ScheduleTrailingResync delay \<Rightarrow>
          invoke (ApplyEvent oid (TrailingTimerAttached (mg_next_timer s))) (set_timeout (TrailingTimer oid) s)
      | PermissionDeniedEffect reason \<Rightarrow>
          Some (s\<lparr>mg_events := mg_events s @
            [StreamDeniedEvent (sb_domain (sub_of s oid)) (sb_store_scope (sub_of s oid)) reason]\<rparr>)
      | MarkResyncing reason \<Rightarrow> Some (markResyncing oid s)
      | MarkResyncComplete \<Rightarrow> Some (markResyncComplete env oid s)
      | SendSubscribe \<Rightarrow> invoke (Subscribe oid) s)"

definition resyncSubscription ::
    "'p invoke \<Rightarrow> call_env \<Rightarrow> nat \<Rightarrow> string \<Rightarrow> bool \<Rightarrow> string option \<Rightarrow> 'p stream_manager \<Rightarrow>
     'p stream_manager option" where
  "resyncSubscription invoke env oid reason force errorReason s =
     (if hasPendingUnsubscribe s oid then Some s
      else let previous = sb_protocol (sub_of s oid);
               event = resync_event env reason force errorReason;
               started = fst (transitionResourceStreamProtocol previous event)
           in case invoke (ApplyEvent oid event) s of
                None \<Rightarrow> None
              | Some s1 \<Rightarrow>
                  if started = previous \<or> \<not> is_resyncing (ps_phase started) then Some s1
                  else invoke (ApplyEvent oid ResyncCompleted) (recordResync env oid reason s1))"

definition getConnection ::
    "'p invoke \<Rightarrow> 'p stream_manager \<Rightarrow> ('p stream_manager \<times> nat) option" where
  "getConnection invoke s =
     (case mg_connection s of
        Some cid \<Rightarrow> Some (s, cid)
      | None \<Rightarrow> map_option (\<lambda>s1. (s1, length (mg_connections s)))
          (invoke (Connect (length (mg_connections s))) (add_connection s)))"

definition subscribe_stream ::
    "'p invoke \<Rightarrow> call_env \<Rightarrow> nat \<Rightarrow> 'p stream_manager \<Rightarrow> 'p stream_manager option" where
  "subscribe_stream invoke env oid s =
     (if hasPendingUnsubscribe s oid then Some s
      else case getConnection invoke s of
             None \<Rightarrow> None
           | Some (s1, cid) \<Rightarrow>
               let sub = sub_of s1 oid
               in invoke (ApplyEvent oid (SubscribeSent (big_int_token (ps_last_sequence (sb_protocol sub)) = None)))
                    (send env cid (buildRequestMessage sub) s1))"

definition connect ::
    "'p invoke \<Rightarrow> call_env \<Rightarrow> nat \<Rightarrow> 'p stream_manager \<Rightarrow> 'p stream_manager option" where
  "connect invoke env cid s =
     (if cn_closed (conn_of s cid) \<or> cn_paused (conn_of s cid) then Some s
      else case ce_open_error env of
             None \<Rightarrow> Some (open_socket cid s)
           | Some message \<Rightarrow> map_option (scheduleReconnect cid) (invoke (ConnectionFailed cid message) s))"

definition handleError :: "'p invoke \<Rightarrow> nat \<Rightarrow> string \<Rightarrow> 'p stream_manager \<Rightarrow> 'p stream_manager option" where
  "handleError invoke cid message s =
     (if cn_closed (conn_of s cid) \<or> cn_paused (conn_of s cid) then Some s
      else map_option (scheduleReconnect cid) (invoke (ConnectionError message) s))"

definition handleConnectionError :: "'p invoke \<Rightarrow> string \<Rightarrow> 'p stream_manager \<Rightarrow> 'p stream_manager option" where
  "handleConnectionError invoke message s =
     for_each (\<lambda>oid. invoke (ApplyEvent oid (ConnectionLost message))) (table_values s) (markConnectionError message s)"

primrec run_call :: "nat \<Rightarrow> call_env \<Rightarrow> 'p invoke" where
  "run_call 0 env call s = None"
| "run_call (Suc n) env call s =
     (case call of
        ApplyEvent oid event \<Rightarrow> applyProtocolEvent (run_call n env) oid event s
      | RunEffect oid effect \<Rightarrow> runProtocolEffect (run_call n env) env oid effect s
      | Resync oid reason force errorReason \<Rightarrow> resyncSubscription (run_call n env) env oid reason force errorReason s
      | Subscribe oid \<Rightarrow> subscribe_stream (run_call n env) env oid s
      | Connect cid \<Rightarrow> connect (run_call n env) env cid s
      | ConnectionFailed cid message \<Rightarrow> handleError (run_call n env) cid message s
      | ConnectionError message \<Rightarrow> handleConnectionError (run_call n env) message s)"

text \<open>The deepest chain of calls, from an opened connection through a resync, a subscription that has to
  open the connection, the failure of that, and the resyncs this failure starts, stays below this depth.\<close>

definition call_depth :: nat where
  "call_depth = 20"

definition make_call :: "call_env \<Rightarrow> 'p invoke" where
  "make_call = run_call call_depth"

section \<open>Operations\<close>

definition handleConnectionOpen :: "call_env \<Rightarrow> 'p stream_manager \<Rightarrow> 'p stream_manager option" where
  "handleConnectionOpen env s =
     (let s1 = (markConnectionOpen s)\<lparr>mg_errors := []\<rparr>
      in for_each (\<lambda>oid. make_call env (ApplyEvent oid (ConnectionOpened (mg_epoch s1)))) (table_values s1) s1)"

definition handleOpen :: "call_env \<Rightarrow> nat \<Rightarrow> 'p stream_manager \<Rightarrow> 'p stream_manager option" where
  "handleOpen env cid s =
     map_option (\<lambda>s1. fold (send env cid) (cn_pending (conn_of s1 cid))
                        (put_conn cid ((conn_of s1 cid)\<lparr>cn_pending := []\<rparr>) s1))
       (handleConnectionOpen env (put_conn cid ((conn_of s cid)\<lparr>cn_attempt := 0\<rparr>) s))"

definition captureSubscriptionClusterName ::
    "nat \<Rightarrow> normalized_message \<Rightarrow> 'p stream_manager \<Rightarrow> 'p stream_manager" where
  "captureSubscriptionClusterName oid normalized s =
     (case nm_cluster_name normalized of
        Some name \<Rightarrow>
          if sb_cluster_name (sub_of s oid) \<noteq> Some name
          then put_sub oid ((sub_of s oid)\<lparr>sb_cluster_name := Some name\<rparr>) s else s
      | None \<Rightarrow> s)"

definition resolveSubscriptionMessage :: "'p stream_manager \<Rightarrow> json \<Rightarrow> (normalized_message \<times> nat) option" where
  "resolveSubscriptionMessage s parsed =
     (case normalizeResourceStreamProtocolMessage parsed of
        None \<Rightarrow> None
      | Some normalized \<Rightarrow>
          map_option (Pair normalized) (map_of (mg_table s)
            (resourceStreamSubscriptionKey (nm_cluster normalized) (nm_domain normalized) (nm_scope normalized))))"

definition received_event :: "call_env \<Rightarrow> 'p stream_manager \<Rightarrow> nat \<Rightarrow> stream_message \<Rightarrow> protocol_event" where
  "received_event env s oid message =
     MessageReceived \<lparr>me_message = message, me_now = int (ce_now env), me_epoch = mg_epoch s,
       me_retained = hasRetainedData s oid, me_complete_resync = isCompleteResyncStreamDomain (sb_domain (sub_of s oid)),
       me_max_pending = UPDATE_QUEUE_LIMIT\<rparr>"

fun parseMessage :: "call_env \<Rightarrow> json \<Rightarrow> json option" where
  "parseMessage env (JObject kvs) = Some (JObject kvs)"
| "parseMessage env (JString raw) = ce_parse env raw"
| "parseMessage env _ = None"

definition js_falsy :: "json \<Rightarrow> bool" where
  "js_falsy value \<longleftrightarrow> value \<in> {JNull, JUndefined, JBool False, JNumber 0, JString []}"

definition handleMessage :: "call_env \<Rightarrow> json \<Rightarrow> 'p stream_manager \<Rightarrow> 'p stream_manager option" where
  "handleMessage env raw s =
     (case parseMessage env raw of
        None \<Rightarrow> Some s
      | Some parsed \<Rightarrow>
          if js_falsy parsed then Some s
          else case resolveSubscriptionMessage s parsed of
            None \<Rightarrow> Some s
          | Some (normalized, oid) \<Rightarrow>
              let s1 = captureSubscriptionClusterName oid normalized s
              in make_call env (ApplyEvent oid (received_event env s1 oid (nm_message normalized))) s1)"

definition ensureSubscription ::
    "string \<Rightarrow> string \<Rightarrow> 'p stream_manager \<Rightarrow> subscription_error + 'p stream_manager \<times> nat" where
  "ensureSubscription domain scope s =
     (case resolveResourceStreamSubscriptionScope domain scope of
        Inl e \<Rightarrow> Inl e
      | Inr r \<Rightarrow> let (s1, oid) = ensureResolved domain r s in Inr (updateHealthForSubscription oid s1, oid))"

definition start ::
    "call_env \<Rightarrow> string \<Rightarrow> string \<Rightarrow> 'p stream_manager \<Rightarrow> subscription_error + 'p stream_manager option" where
  "start env domain scope s =
     (case ensureSubscription domain scope s of
        Inl e \<Rightarrow> Inl e
      | Inr (s1, oid) \<Rightarrow> Inr (make_call env (Resync oid ''initial'' False None) s1))"

definition refreshOnce ::
    "call_env \<Rightarrow> string \<Rightarrow> string \<Rightarrow> 'p stream_manager \<Rightarrow> subscription_error + 'p stream_manager option" where
  "refreshOnce env domain scope s =
     (case ensureSubscription domain scope s of
        Inl e \<Rightarrow> Inl e
      | Inr (s1, oid) \<Rightarrow> Inr (make_call env (Resync oid ''manual refresh'' True None) s1))"

definition unsubscribe_stream :: "call_env \<Rightarrow> nat \<Rightarrow> bool \<Rightarrow> 'p stream_manager \<Rightarrow> 'p stream_manager option" where
  "unsubscribe_stream env oid reset s =
     map_option
       (\<lambda>s1. let s2 = (case mg_connection s1 of
                         Some cid \<Rightarrow> send env cid (buildCancelMessage (sub_of s1 oid)) s1 | None \<Rightarrow> s1);
                 s3 = updateHealthForSubscription oid
                        (s2\<lparr>mg_table := AList.delete (sb_key (sub_of s2 oid)) (mg_table s2)\<rparr>);
                 s4 = (if reset then clearStreamError (sb_cluster (sub_of s3 oid)) s3 else s3)
             in case mg_connection s4 of
                  Some cid \<Rightarrow>
                    if mg_table s4 = []
                    then markConnectionError ''stream stopped'' ((close cid s4)\<lparr>mg_connection := None\<rparr>)
                    else s4
                | None \<Rightarrow> s4)
       (make_call env (ApplyEvent oid StopRequested) (cancelPendingUnsubscribe oid s))"

definition scheduleUnsubscribe :: "call_env \<Rightarrow> nat \<Rightarrow> bool \<Rightarrow> 'p stream_manager \<Rightarrow> 'p stream_manager option" where
  "scheduleUnsubscribe env oid reset s =
     (if reset then unsubscribe_stream env oid reset s
      else if hasPendingUnsubscribe s oid then Some s
      else Some ((set_timeout (UnsubscribeTimer oid reset) s)
        \<lparr>mg_pending := AList.update (sb_key (sub_of s oid)) (mg_next_timer s) (mg_pending s)\<rparr>))"

definition stop :: "call_env \<Rightarrow> string \<Rightarrow> string \<Rightarrow> bool \<Rightarrow> 'p stream_manager \<Rightarrow> 'p stream_manager option" where
  "stop env domain scope reset s =
     (case release s domain scope of
        (s1, None) \<Rightarrow> Some s1
      | (s1, Some oid) \<Rightarrow> scheduleUnsubscribe env oid reset s1)"

definition stopCluster :: "call_env \<Rightarrow> string \<Rightarrow> 'p stream_manager \<Rightarrow> 'p stream_manager option" where
  "stopCluster env clusterId s =
     for_each (\<lambda>oid. unsubscribe_stream env oid True)
       (filter (\<lambda>oid. sb_cluster (sub_of s oid) = trim clusterId) (table_values s)) s"

definition stopAll :: "call_env \<Rightarrow> bool \<Rightarrow> 'p stream_manager \<Rightarrow> 'p stream_manager option" where
  "stopAll env reset s =
     map_option
       (\<lambda>s1. let s2 = clear_subscriptions s1;
                 s3 = (case mg_connection s2 of Some cid \<Rightarrow> close cid s2 | None \<Rightarrow> s2)
             in s3\<lparr>mg_connection := None, mg_connected := False, mg_epoch := 0, mg_last_error := [], mg_health := [],
                   mg_errors := [], mg_telemetry := []\<rparr>)
       (for_each (\<lambda>oid. unsubscribe_stream env oid reset) (table_values s) s)"

definition suspendForVisibility :: "'p stream_manager \<Rightarrow> 'p stream_manager" where
  "suspendForVisibility s =
     (if mg_suspended s then s
      else let s1 = s\<lparr>mg_suspended := True\<rparr>
           in if table_values s1 = [] then s1
              else let s2 = markConnectionError ''visibility hidden'' s1
                   in case mg_connection s2 of Some cid \<Rightarrow> pause cid s2 | None \<Rightarrow> s2)"

definition resume_connection :: "call_env \<Rightarrow> nat \<Rightarrow> 'p stream_manager \<Rightarrow> 'p stream_manager option" where
  "resume_connection env cid s =
     (if \<not> cn_paused (conn_of s cid) then Some s
      else make_call env (Connect cid) (put_conn cid ((conn_of s cid)\<lparr>cn_paused := False, cn_closed := False\<rparr>) s))"

definition resumeFromVisibility :: "call_env \<Rightarrow> 'p stream_manager \<Rightarrow> 'p stream_manager option" where
  "resumeFromVisibility env s =
     (case (case mg_connection s of Some cid \<Rightarrow> resume_connection env cid s | None \<Rightarrow> Some s) of
        None \<Rightarrow> None
      | Some s1 \<Rightarrow>
          if \<not> mg_suspended s1 then Some s1
          else for_each (\<lambda>oid. make_call env (Resync oid ''visibility resume'' False None))
                 (table_values s1) (s1\<lparr>mg_suspended := False\<rparr>))"

definition fire_timer :: "call_env \<Rightarrow> timer \<Rightarrow> timer_action \<Rightarrow> 'p stream_manager \<Rightarrow> 'p stream_manager option" where
  "fire_timer env t action s =
     (let s1 = clear_timeout t s
      in case action of
           FlushTimer oid \<Rightarrow> make_call env (ApplyEvent oid (FlushFired t)) s1
         | TrailingTimer oid \<Rightarrow> make_call env (ApplyEvent oid (TrailingFired t)) s1
         | UnsubscribeTimer oid reset \<Rightarrow>
             unsubscribe_stream env oid reset
               (s1\<lparr>mg_pending := AList.delete (sb_key (sub_of s1 oid)) (mg_pending s1)\<rparr>)
         | ReconnectTimer cid \<Rightarrow>
             make_call env (Connect cid) (put_conn cid ((conn_of s1 cid)\<lparr>cn_reconnect := None\<rparr>) s1))"

section \<open>Steps\<close>

text \<open>What can happen to the manager: calls of its consumers, events of the application, timers, and whatever the sockets
  it ever opened deliver, late events of abandoned sockets included. Other components write the snapshot store between
  two steps. A call that throws leaves the manager as it was.\<close>

datatype 'p manager_op =
    StartOp string string
  | RefreshOnceOp string string
  | StopOp string string bool
  | FallbackOp string string string
  | TimerOp timer
  | SocketOpenedOp nat
  | SocketMessageOp json
  | SocketFailedOp nat string
  | HiddenOp
  | VisibleOp
  | ClusterPrunedOp string
  | StopAllOp bool
  | StoreWrittenOp "'p refresh_store"

definition or_unchanged ::
    "'p stream_manager \<Rightarrow> subscription_error + 'p stream_manager option \<Rightarrow> 'p stream_manager option" where
  "or_unchanged s r = (case r of Inl _ \<Rightarrow> Some s | Inr m \<Rightarrow> m)"

definition manager_step :: "call_env \<Rightarrow> 'p manager_op \<Rightarrow> 'p stream_manager \<Rightarrow> 'p stream_manager option" where
  "manager_step env op s =
     (case op of
        StartOp domain scope \<Rightarrow> or_unchanged s (start env domain scope s)
      | RefreshOnceOp domain scope \<Rightarrow> or_unchanged s (refreshOnce env domain scope s)
      | StopOp domain scope reset \<Rightarrow> stop env domain scope reset s
      | FallbackOp domain scope reason \<Rightarrow> Some (recordStreamFallback env domain scope reason s)
      | TimerOp t \<Rightarrow> (case map_of (mg_timers s) t of None \<Rightarrow> Some s | Some action \<Rightarrow> fire_timer env t action s)
      | SocketOpenedOp sid \<Rightarrow> handleOpen env (mg_sockets s ! sid) s
      | SocketMessageOp raw \<Rightarrow> handleMessage env raw s
      | SocketFailedOp sid message \<Rightarrow> make_call env (ConnectionFailed (mg_sockets s ! sid) message) s
      | HiddenOp \<Rightarrow> Some (suspendForVisibility s)
      | VisibleOp \<Rightarrow> resumeFromVisibility env s
      | ClusterPrunedOp clusterId \<Rightarrow> stopCluster env clusterId s
      | StopAllOp reset \<Rightarrow> stopAll env reset s
      | StoreWrittenOp store \<Rightarrow> Some (s\<lparr>mg_store := store\<rparr>))"

text \<open>The operations the types and the runtime allow: domains are doorbell domains and events come from sockets that were
  opened.\<close>

fun manager_op_ok :: "'p stream_manager \<Rightarrow> 'p manager_op \<Rightarrow> bool" where
  "manager_op_ok s (StartOp domain scope) = isSupportedDomain domain"
| "manager_op_ok s (RefreshOnceOp domain scope) = isSupportedDomain domain"
| "manager_op_ok s (SocketOpenedOp sid) = (sid < length (mg_sockets s))"
| "manager_op_ok s (SocketFailedOp sid message) = (sid < length (mg_sockets s))"
| "manager_op_ok s (StoreWrittenOp store) = store_inv store"
| "manager_op_ok s _ = True"

inductive manager_reachable :: "'p stream_manager \<Rightarrow> bool" where
  manager_init: "store_inv store \<Longrightarrow> manager_reachable (initial_manager store)"
| manager_next: "manager_reachable s \<Longrightarrow> manager_op_ok s op \<Longrightarrow> manager_step env op s = Some s' \<Longrightarrow> manager_reachable s'"

end
