(* ===== verification/Stream_Manager_Inv.thy ===== *)
theory Stream_Manager_Inv
  imports Stream_Manager
begin

text \<open>
  The invariant of the stream manager and what its elementary operations keep of it. A subscription object is
  settled when its protocol waits for nothing that is not armed: no resync is half done, and a change signal
  or a resync it still owes has its timer. Its health is fresh when the health store shows what the
  aggregation would compute now. While calls are running, some objects are on the call stack: the invariant
  \<open>manager_inv X\<close> exempts the health of the objects in \<open>X\<close>, and \<open>manager_window\<close> the protocol of one object, whose
  remaining effects still have to run.
\<close>

declare map_of_eq_Some_iff [simp del] Some_eq_map_of_iff [simp del]

section \<open>Definitions\<close>

definition sub_ok :: "stream_subscription \<Rightarrow> bool" where
  "sub_ok sub \<longleftrightarrow> wf_cluster (sb_cluster sub) \<and> isSupportedDomain (sb_domain sub) \<and>
     sb_key sub = resourceStreamSubscriptionKey (sb_cluster sub) (sb_domain sub) (sb_normalized_scope sub) \<and>
     sb_store_scope sub = sb_cluster sub @ ''|'' @ sb_normalized_scope sub \<and>
     trim (sb_normalized_scope sub) = sb_normalized_scope sub \<and>
     (sb_normalized_scope sub \<noteq> [] \<or> isClusterScopedDomain (sb_domain sub))"

definition table_ok :: "'p stream_manager \<Rightarrow> bool" where
  "table_ok s \<longleftrightarrow> (\<forall>sub \<in> set (mg_objects s). sub_ok sub) \<and> distinct (map fst (mg_table s)) \<and>
     (\<forall>(k, oid) \<in> set (mg_table s). oid < length (mg_objects s) \<and> sb_key (sub_of s oid) = k)"

fun action_ok :: "'p stream_manager \<Rightarrow> timer \<Rightarrow> timer_action \<Rightarrow> bool" where
  "action_ok s t (FlushTimer oid) = (oid < length (mg_objects s))"
| "action_ok s t (TrailingTimer oid) = (oid < length (mg_objects s))"
| "action_ok s t (UnsubscribeTimer oid reset) =
     (oid < length (mg_objects s) \<and> map_of (mg_pending s) (sb_key (sub_of s oid)) = Some t)"
| "action_ok s t (ReconnectTimer cid) = (cid < length (mg_connections s))"

definition timers_ok :: "'p stream_manager \<Rightarrow> bool" where
  "timers_ok s \<longleftrightarrow> distinct (map fst (mg_timers s)) \<and> (\<forall>t \<in> fst ` set (mg_timers s). t < mg_next_timer s) \<and>
     (\<forall>t a. map_of (mg_timers s) t = Some a \<longrightarrow> action_ok s t a)"

definition pending_ok :: "'p stream_manager \<Rightarrow> bool" where
  "pending_ok s \<longleftrightarrow> (\<forall>k t. map_of (mg_pending s) k = Some t \<longrightarrow>
     (\<exists>oid reset. map_of (mg_timers s) t = Some (UnsubscribeTimer oid reset) \<and> map_of (mg_table s) k = Some oid \<and>
        \<not> sb_leased (sub_of s oid)))"

definition conns_ok :: "'p stream_manager \<Rightarrow> bool" where
  "conns_ok s \<longleftrightarrow> (\<forall>cid. mg_connection s = Some cid \<longrightarrow> cid < length (mg_connections s)) \<and>
     (\<forall>cid \<in> set (mg_sockets s). cid < length (mg_connections s)) \<and>
     (\<forall>cid < length (mg_connections s). \<forall>t. cn_reconnect (conn_of s cid) = Some t \<longrightarrow>
        map_of (mg_timers s) t = Some (ReconnectTimer cid))"

definition manager_wf :: "'p stream_manager \<Rightarrow> bool" where
  "manager_wf s \<longleftrightarrow> table_ok s \<and> timers_ok s \<and> pending_ok s \<and> conns_ok s \<and> store_inv (mg_store s)"

text \<open>The protocol state is settled once the effects \<open>es\<close> have been carried out.\<close>

definition carried :: "(timer \<rightharpoonup> timer_action) \<Rightarrow> nat \<Rightarrow> protocol_state \<Rightarrow> protocol_effect list \<Rightarrow> bool" where
  "carried tm oid st es \<longleftrightarrow>
     (case ps_coalescing st of
        CoalescingIdle \<Rightarrow> True
      | CoalescingWaiting _ \<Rightarrow> ScheduleFlush \<in> set es
      | CoalescingScheduled t _ \<Rightarrow> tm t = Some (FlushTimer oid) \<and> CancelFlush t \<notin> set es) \<and>
     (case ps_trailing st of
        TrailingIdle \<Rightarrow> True
      | TrailingWaiting _ \<Rightarrow> \<exists>d. ScheduleTrailingResync d \<in> set es
      | TrailingScheduled _ t \<Rightarrow> tm t = Some (TrailingTimer oid) \<and> CancelTrailingResync t \<notin> set es) \<and>
     (\<forall>t. CancelFlush t \<in> set es \<longrightarrow> tm t \<in> {None, Some (FlushTimer oid)}) \<and>
     (\<forall>t. CancelTrailingResync t \<in> set es \<longrightarrow> tm t \<in> {None, Some (TrailingTimer oid)}) \<and>
     distinct (map fst (pc_versions (pendingChanges (ps_coalescing st))))"

definition settled :: "'p stream_manager \<Rightarrow> nat \<Rightarrow> bool" where
  "settled s oid \<longleftrightarrow> carried (map_of (mg_timers s)) oid (sb_protocol (sub_of s oid)) [] \<and>
     \<not> is_resyncing (ps_phase (sb_protocol (sub_of s oid)))"

definition fresh :: "'p stream_manager \<Rightarrow> nat \<Rightarrow> bool" where
  "fresh s oid \<longleftrightarrow>
     (let sub = sub_of s oid
      in map_of (mg_table s) (sb_key sub) = Some oid \<and> sb_leased sub \<longrightarrow>
         map_of (mg_health s) (health_key (sb_domain sub) (sb_store_scope sub)) =
           Some (aggregateHealth s (sb_domain sub) (sb_store_scope sub)))"

definition manager_inv :: "nat set \<Rightarrow> 'p stream_manager \<Rightarrow> bool" where
  "manager_inv X s \<longleftrightarrow> manager_wf s \<and>
     (\<forall>oid < length (mg_objects s). settled s oid \<and> (oid \<in> X \<or> fresh s oid))"

definition manager_window :: "nat set \<Rightarrow> nat \<Rightarrow> protocol_effect list \<Rightarrow> 'p stream_manager \<Rightarrow> bool" where
  "manager_window X oid es s \<longleftrightarrow> manager_wf s \<and> oid < length (mg_objects s) \<and>
     carried (map_of (mg_timers s)) oid (sb_protocol (sub_of s oid)) es \<and>
     (\<forall>o' < length (mg_objects s). o' \<noteq> oid \<longrightarrow> settled s o' \<and> (o' \<in> X \<or> fresh s o'))"

lemmas wf_defs = manager_wf_def table_ok_def timers_ok_def pending_ok_def conns_ok_def

lemma wf_table: "manager_wf s \<Longrightarrow> table_ok s"
  by (simp add: manager_wf_def)

lemma manager_inv_mono: "manager_inv X s \<Longrightarrow> X \<subseteq> Y \<Longrightarrow> manager_inv Y s"
  by (auto simp: manager_inv_def)

lemma window_of_inv: "manager_inv X s \<Longrightarrow> oid < length (mg_objects s) \<Longrightarrow> manager_window X oid [] s"
  by (auto simp: manager_inv_def manager_window_def settled_def)

lemma inv_of_window:
  "manager_window X oid [] s \<Longrightarrow> \<not> is_resyncing (ps_phase (sb_protocol (sub_of s oid))) \<Longrightarrow> manager_inv (insert oid X) s"
  by (auto simp: manager_inv_def manager_window_def settled_def)

section \<open>What the invariant reads\<close>

text \<open>Everything but the store, the traces, the telemetry and the error notices.\<close>

definition core where
  "core s = (mg_objects s, mg_table s, mg_pending s, mg_timers s, mg_next_timer s,
     (mg_connections s, mg_sockets s, mg_connection s, mg_connected s, mg_last_error s, mg_health s))"

lemma core_sub_of: "core s = core t \<Longrightarrow> sub_of s = sub_of t"
  by (simp add: core_def sub_of_def fun_eq_iff)

lemma aggregateHealth_cong:
  assumes "mg_table s = mg_table t" and "mg_objects s = mg_objects t" and "mg_connected s = mg_connected t"
    and "mg_last_error s = mg_last_error t"
  shows "aggregateHealth s d sc = aggregateHealth t d sc"
proof -
  have "sub_of s = sub_of t" "computeSubscriptionHealth s = computeSubscriptionHealth t"
    using assms by (simp_all add: sub_of_def computeSubscriptionHealth_def fun_eq_iff)
  then show ?thesis
    using assms by (simp add: aggregateHealth_def scope_subscriptions_def table_values_def Let_def)
qed

lemma action_ok_cong:
  assumes "core s = core t"
  shows "action_ok s tm a = action_ok t tm a"
  using assms core_sub_of [OF assms] by (cases a) (auto simp: core_def)

lemma conn_of_cong: "mg_connections s = mg_connections t \<Longrightarrow> conn_of s = conn_of t"
  by (simp add: conn_of_def fun_eq_iff)

lemma wf_cong:
  assumes "core s = core t" and "store_inv (mg_store t)"
  shows "manager_wf s \<Longrightarrow> manager_wf t"
  using assms core_sub_of [OF assms(1)] action_ok_cong [OF assms(1)] conn_of_cong [of s t]
  by (simp add: wf_defs core_def)

lemma settled_cong: "core s = core t \<Longrightarrow> settled s oid = settled t oid"
  using core_sub_of [of s t] by (simp add: settled_def core_def)

lemma fresh_cong: "core s = core t \<Longrightarrow> fresh s oid = fresh t oid"
  using core_sub_of [of s t] aggregateHealth_cong [of s t] by (simp add: fresh_def core_def)

lemma inv_cong:
  assumes "manager_inv X s" and "core s = core t" and "store_inv (mg_store t)"
  shows "manager_inv X t"
  using assms wf_cong [OF assms(2,3)] settled_cong [OF assms(2)] fresh_cong [OF assms(2)]
  by (simp add: manager_inv_def core_def)

lemma window_cong:
  assumes "manager_window X oid es s" and "core s = core t" and "store_inv (mg_store t)"
  shows "manager_window X oid es t"
  using assms wf_cong [OF assms(2,3)] settled_cong [OF assms(2)] fresh_cong [OF assms(2)] core_sub_of [OF assms(2)]
  by (simp add: manager_window_def core_def)

lemma core_events [simp]: "core (s\<lparr>mg_events := es\<rparr>) = core s" "core (s\<lparr>mg_errors := er\<rparr>) = core s"
    "core (s\<lparr>mg_sent := ms\<rparr>) = core s" "core (s\<lparr>mg_store := st\<rparr>) = core s" "core (s\<lparr>mg_suspended := b\<rparr>) = core s"
    "core (s\<lparr>mg_telemetry := tele\<rparr>) = core s" "core (s\<lparr>mg_epoch := ep\<rparr>) = core s"
    "core (s\<lparr>mg_legacy := lg\<rparr>) = core s"
  by (simp_all add: core_def)

lemma core_update_snapshot: "core (update_snapshot oid f s) = core s"
  by (simp add: core_def update_snapshot_def)

lemma store_update_snapshot: "store_inv (mg_store s) \<Longrightarrow> store_inv (mg_store (update_snapshot oid f s))"
  by (simp add: update_snapshot_def setScopedDomainState_inv)

lemma core_bump [simp]: "core (bumpSourceVersionOnly env oid v l s) = core s"
  by (simp add: bumpSourceVersionOnly_def clearStreamError_def Let_def core_def update_snapshot_def)

lemma store_bump: "store_inv (mg_store s) \<Longrightarrow> store_inv (mg_store (bumpSourceVersionOnly env oid v l s))"
  by (simp add: bumpSourceVersionOnly_def clearStreamError_def Let_def store_update_snapshot)

lemma core_legacy [simp]: "core (bumpLegacyResyncSourceVersion env oid s) = core s"
  by (cases "legacyResyncSource (sb_domain (sub_of s oid))") (simp_all add: bumpLegacyResyncSourceVersion_def Let_def)

lemma store_legacy: "store_inv (mg_store s) \<Longrightarrow> store_inv (mg_store (bumpLegacyResyncSourceVersion env oid s))"
  by (simp add: bumpLegacyResyncSourceVersion_def Let_def store_bump split: option.split)

lemma core_marks [simp]: "core (markResyncing oid s) = core s" "core (markResyncComplete env oid s) = core s"
  by (simp_all add: markResyncing_def markResyncComplete_def clearStreamError_def core_def update_snapshot_def)

lemma store_marks:
  "store_inv (mg_store s) \<Longrightarrow> store_inv (mg_store (markResyncing oid s))"
  "store_inv (mg_store s) \<Longrightarrow> store_inv (mg_store (markResyncComplete env oid s))"
  by (simp_all add: markResyncing_def markResyncComplete_def clearStreamError_def store_update_snapshot)

lemma core_recordResync [simp]: "core (recordResync env oid reason s) = core s"
  by (simp add: recordResync_def put_telemetry_def Let_def core_def)

lemma store_recordResync [simp]: "mg_store (recordResync env oid reason s) = mg_store s"
  by (simp add: recordResync_def put_telemetry_def Let_def)

lemma core_clearStreamError [simp]: "core (clearStreamError c s) = core s" "mg_store (clearStreamError c s) = mg_store s"
  by (simp_all add: clearStreamError_def core_def)

section \<open>Timers\<close>

lemma timers_set_timeout:
  assumes "timers_ok s"
  shows "map_of (mg_timers (set_timeout a s)) = (map_of (mg_timers s))(mg_next_timer s \<mapsto> a)"
proof -
  have "map_of (mg_timers s) (mg_next_timer s) = None"
    using assms by (auto simp: timers_ok_def map_of_eq_None_iff)
  then show ?thesis by (auto simp: set_timeout_def fun_eq_iff map_add_def split: option.split)
qed

lemma timers_clear_timeout [simp]: "map_of (mg_timers (clear_timeout t s)) = (map_of (mg_timers s))(t := None)"
  by (simp add: clear_timeout_def map_of_delete)

lemma clear_timeout_fields [simp]:
  "mg_objects (clear_timeout t s) = mg_objects s" "mg_table (clear_timeout t s) = mg_table s"
  "mg_pending (clear_timeout t s) = mg_pending s" "mg_connections (clear_timeout t s) = mg_connections s"
  "mg_connection (clear_timeout t s) = mg_connection s" "mg_sockets (clear_timeout t s) = mg_sockets s"
  "mg_health (clear_timeout t s) = mg_health s" "mg_store (clear_timeout t s) = mg_store s"
  "mg_connected (clear_timeout t s) = mg_connected s" "mg_last_error (clear_timeout t s) = mg_last_error s"
  "mg_next_timer (clear_timeout t s) = mg_next_timer s" "sub_of (clear_timeout t s) = sub_of s"
  "conn_of (clear_timeout t s) = conn_of s"
  by (simp_all add: clear_timeout_def sub_of_def conn_of_def fun_eq_iff)

lemma set_timeout_fields [simp]:
  "mg_objects (set_timeout a s) = mg_objects s" "mg_table (set_timeout a s) = mg_table s"
  "mg_pending (set_timeout a s) = mg_pending s" "mg_connections (set_timeout a s) = mg_connections s"
  "mg_connection (set_timeout a s) = mg_connection s" "mg_sockets (set_timeout a s) = mg_sockets s"
  "mg_health (set_timeout a s) = mg_health s" "mg_store (set_timeout a s) = mg_store s"
  "mg_connected (set_timeout a s) = mg_connected s" "mg_last_error (set_timeout a s) = mg_last_error s"
  "mg_next_timer (set_timeout a s) = mg_next_timer s + 1" "sub_of (set_timeout a s) = sub_of s"
  "conn_of (set_timeout a s) = conn_of s"
  by (simp_all add: set_timeout_def sub_of_def conn_of_def fun_eq_iff)

lemma fresh_timeouts [simp]: "fresh (clear_timeout t s) oid = fresh s oid" "fresh (set_timeout a s) oid = fresh s oid"
  using aggregateHealth_cong [of "clear_timeout t s" s] aggregateHealth_cong [of "set_timeout a s" s]
  by (simp_all add: fresh_def)

lemma action_ok_clear_timeout [simp]: "action_ok (clear_timeout b s) t a = action_ok s t a"
  by (cases a) simp_all

text \<open>A timer that belongs to no pending unsubscribe and to no reconnect may be dropped.\<close>

lemma wf_clear_timeout:
  assumes "manager_wf s" and "map_of (mg_timers s) t \<in> {None, Some (FlushTimer oid), Some (TrailingTimer oid)}"
  shows "manager_wf (clear_timeout t s)"
proof -
  have "distinct (map fst (mg_timers (clear_timeout t s)))"
    "\<forall>t' \<in> fst ` set (mg_timers (clear_timeout t s)). t' < mg_next_timer s"
    using assms(1) by (auto simp: manager_wf_def timers_ok_def distinct_delete clear_timeout_def delete_fst_set)
  then have "timers_ok (clear_timeout t s)"
    using assms(1) by (simp add: manager_wf_def timers_ok_def)
  moreover have "pending_ok (clear_timeout t s)" "conns_ok (clear_timeout t s)"
    using assms by (fastforce simp: wf_defs)+
  ultimately show ?thesis using assms(1) by (simp add: manager_wf_def table_ok_def)
qed

lemma action_ok_set_timeout [simp]: "action_ok (set_timeout b s) t a = action_ok s t a"
  by (cases a) simp_all

lemma wf_set_timeout:
  assumes "manager_wf s" and "oid < length (mg_objects s)" and "a \<in> {FlushTimer oid, TrailingTimer oid}"
  shows "manager_wf (set_timeout a s)"
proof -
  have t: "timers_ok s" using assms(1) by (simp add: manager_wf_def)
  have new: "map_of (mg_timers s) (mg_next_timer s) = None"
    using t by (auto simp: timers_ok_def map_of_eq_None_iff)
  have "distinct (map fst (mg_timers (set_timeout a s)))"
    "\<forall>t \<in> fst ` set (mg_timers (set_timeout a s)). t < mg_next_timer (set_timeout a s)"
    using t by (auto simp: set_timeout_def timers_ok_def)
  then have "timers_ok (set_timeout a s)"
    using t assms(2,3) by (auto simp: timers_ok_def timers_set_timeout [OF t])
  moreover have "pending_ok (set_timeout a s)" "conns_ok (set_timeout a s)"
    using assms(1) new by (fastforce simp: manager_wf_def pending_ok_def conns_ok_def timers_set_timeout [OF t])+
  ultimately show ?thesis using assms(1) by (simp add: manager_wf_def table_ok_def)
qed

lemma carried_timers:
  assumes "carried tm oid st []" and "\<And>t a. tm t = Some a \<Longrightarrow> a \<in> {FlushTimer oid, TrailingTimer oid} \<Longrightarrow> tm' t = Some a"
  shows "carried tm' oid st []"
  using assms by (auto simp: carried_def split: coalescing.splits trailing_resync.splits)

lemma settled_clear_timeout:
  assumes "settled s o'" and "o' \<noteq> oid"
    and "map_of (mg_timers s) t \<in> {None, Some (FlushTimer oid), Some (TrailingTimer oid)}"
  shows "settled (clear_timeout t s) o'"
  using assms unfolding settled_def by (auto elim!: carried_timers)

lemma settled_set_timeout:
  assumes "settled s o'" and "timers_ok s"
  shows "settled (set_timeout a s) o'"
  using assms by (auto simp: settled_def timers_set_timeout timers_ok_def elim!: carried_timers dest!: map_of_SomeD)

section \<open>Subscription objects\<close>

lemma put_protocol_fields [simp]:
  "mg_table (put_protocol oid st s) = mg_table s" "mg_pending (put_protocol oid st s) = mg_pending s"
  "mg_timers (put_protocol oid st s) = mg_timers s" "mg_next_timer (put_protocol oid st s) = mg_next_timer s"
  "mg_connections (put_protocol oid st s) = mg_connections s" "mg_connection (put_protocol oid st s) = mg_connection s"
  "mg_sockets (put_protocol oid st s) = mg_sockets s" "mg_health (put_protocol oid st s) = mg_health s"
  "mg_store (put_protocol oid st s) = mg_store s" "conn_of (put_protocol oid st s) = conn_of s"
  "length (mg_objects (put_protocol oid st s)) = length (mg_objects s)"
  "mg_connected (put_protocol oid st s) = mg_connected s" "mg_last_error (put_protocol oid st s) = mg_last_error s"
  by (simp_all add: put_protocol_def put_sub_def conn_of_def fun_eq_iff)

lemma sub_of_put_protocol:
  "oid < length (mg_objects s) \<Longrightarrow>
     sub_of (put_protocol oid st s) o' = (if o' = oid then (sub_of s oid)\<lparr>sb_protocol := st\<rparr> else sub_of s o')"
  by (simp add: put_protocol_def put_sub_def sub_of_def nth_list_update)

lemma put_protocol_static [simp]:
  "sb_key (sub_of (put_protocol oid st s) o') = sb_key (sub_of s o')"
  "sb_domain (sub_of (put_protocol oid st s) o') = sb_domain (sub_of s o')"
  "sb_store_scope (sub_of (put_protocol oid st s) o') = sb_store_scope (sub_of s o')"
  "sb_leased (sub_of (put_protocol oid st s) o') = sb_leased (sub_of s o')"
  "sb_cluster (sub_of (put_protocol oid st s) o') = sb_cluster (sub_of s o')"
  by (cases "oid < length (mg_objects s)";
      simp add: put_protocol_def put_sub_def sub_of_def nth_list_update list_update_beyond)+

lemma action_ok_put_protocol [simp]: "action_ok (put_protocol oid st s) t a = action_ok s t a"
  by (cases a) simp_all

lemma objects_ok_update: "\<forall>x \<in> set xs. P x \<Longrightarrow> P y \<Longrightarrow> \<forall>x \<in> set (xs[i := y]). P x"
  using set_update_subset_insert [of xs i y] by auto

lemma wf_put_protocol: "manager_wf s \<Longrightarrow> oid < length (mg_objects s) \<Longrightarrow> manager_wf (put_protocol oid st s)"
proof -
  assume s: "manager_wf s" "oid < length (mg_objects s)"
  have "\<forall>sub \<in> set (mg_objects (put_protocol oid st s)). sub_ok sub"
    unfolding put_protocol_def put_sub_def
    using s by (simp, intro objects_ok_update) (auto simp: wf_defs sub_of_def sub_ok_def)
  with s(1) show ?thesis by (simp add: wf_defs)
qed

lemma settled_put_protocol: "settled s o' \<Longrightarrow> o' \<noteq> oid \<Longrightarrow> oid < length (mg_objects s) \<Longrightarrow> settled (put_protocol oid st s) o'"
  by (simp add: settled_def sub_of_put_protocol)

lemma first_delimiter:
  "xs @ c # ys = xs' @ c # ys' \<Longrightarrow> c \<notin> set xs \<Longrightarrow> c \<notin> set xs' \<Longrightarrow> xs = xs' \<and> ys = ys'"
proof (induction xs arbitrary: xs')
  case Nil
  then show ?case by (cases xs') auto
next
  case (Cons x xs)
  then show ?case by (cases xs') auto
qed

text \<open>A scope determines its subscription: two table entries for one domain and store scope are one.\<close>

lemma scope_parts:
  assumes "sub_ok a" and "sub_ok b" and "sb_domain a = sb_domain b" and "sb_store_scope a = sb_store_scope b"
  shows "sb_key a = sb_key b"
proof -
  have "sb_cluster a = sb_cluster b \<and> sb_normalized_scope a = sb_normalized_scope b"
  proof -
    have p: "CHR ''|'' \<notin> set (sb_cluster a)" "CHR ''|'' \<notin> set (sb_cluster b)"
      using assms(1,2) by (auto simp: sub_ok_def wf_cluster_def)
    have "sb_cluster a @ CHR ''|'' # sb_normalized_scope a = sb_cluster b @ CHR ''|'' # sb_normalized_scope b"
      using assms by (simp add: sub_ok_def)
    then show ?thesis using first_delimiter p by metis
  qed
  with assms show ?thesis by (simp add: sub_ok_def)
qed

lemma table_unique:
  assumes "table_ok s" and "map_of (mg_table s) k = Some a" and "map_of (mg_table s) k' = Some b"
    and "sb_domain (sub_of s a) = sb_domain (sub_of s b)" and "sb_store_scope (sub_of s a) = sb_store_scope (sub_of s b)"
  shows "a = b"
proof -
  have in_range: "a < length (mg_objects s)" "b < length (mg_objects s)" "sb_key (sub_of s a) = k" "sb_key (sub_of s b) = k'"
    using assms(1-3) by (auto simp: table_ok_def dest!: map_of_SomeD)
  then have "sub_ok (sub_of s a)" "sub_ok (sub_of s b)"
    using assms(1) by (auto simp: table_ok_def sub_of_def)
  from scope_parts [OF this assms(4,5)] in_range assms(2,3) show ?thesis by simp
qed

section \<open>Health\<close>

lemma aggregateHealth_scope:
  assumes "scope_subscriptions s d sc = scope_subscriptions t d sc" and "mg_connected s = mg_connected t"
    and "mg_last_error s = mg_last_error t"
  shows "aggregateHealth s d sc = aggregateHealth t d sc"
proof -
  have "computeSubscriptionHealth s = computeSubscriptionHealth t"
    using assms by (simp add: computeSubscriptionHealth_def fun_eq_iff)
  then show ?thesis using assms by (simp add: aggregateHealth_def Let_def)
qed

lemma filter_map_cong:
  "(\<And>v. v \<in> set vs \<Longrightarrow> P (f v) \<or> P (g v) \<Longrightarrow> f v = g v) \<Longrightarrow> filter P (map f vs) = filter P (map g vs)"
proof (induction vs)
  case (Cons v vs)
  then have rec: "filter P (map f vs) = filter P (map g vs)" by auto
  from Cons.prems [of v] have "P (f v) \<or> P (g v) \<Longrightarrow> f v = g v" by simp
  with rec show ?case by auto
qed simp

lemma table_value_lookup: "table_ok s \<Longrightarrow> v \<in> set (table_values s) \<longleftrightarrow> (\<exists>k. map_of (mg_table s) k = Some v)"
  using map_of_in_set [of "mg_table s"] by (auto simp: table_ok_def table_values_def intro: rev_image_eqI)

lemma table_value_range: "table_ok s \<Longrightarrow> v \<in> set (table_values s) \<Longrightarrow> v < length (mg_objects s)"
  by (auto simp: table_ok_def table_values_def)

lemma table_lookup_key: "table_ok s \<Longrightarrow> map_of (mg_table s) k = Some v \<Longrightarrow> sb_key (sub_of s v) = k \<and> v < length (mg_objects s)"
  by (auto simp: table_ok_def dest!: map_of_SomeD)

text \<open>Changing one object leaves the aggregated health of every other scope in the table.\<close>

lemma aggregate_other:
  assumes "table_ok s" and "mg_table t = mg_table s" and "\<And>v. v \<noteq> oid \<Longrightarrow> sub_of t v = sub_of s v"
    and "sb_domain (sub_of t oid) = sb_domain (sub_of s oid)"
    and "sb_store_scope (sub_of t oid) = sb_store_scope (sub_of s oid)"
    and "map_of (mg_table s) k = Some o'" and "o' \<noteq> oid"
    and "mg_connected t = mg_connected s" and "mg_last_error t = mg_last_error s"
  shows "aggregateHealth t (sb_domain (sub_of s o')) (sb_store_scope (sub_of s o')) =
    aggregateHealth s (sb_domain (sub_of s o')) (sb_store_scope (sub_of s o'))"
proof (rule aggregateHealth_scope)
  let ?P = "\<lambda>sub. sb_domain sub = sb_domain (sub_of s o') \<and> sb_leased sub \<and> sb_store_scope sub = sb_store_scope (sub_of s o')"
  have "sub_of t v = sub_of s v" if v_in: "v \<in> set (table_values s)" and v_P: "?P (sub_of t v) \<or> ?P (sub_of s v)" for v
  proof (rule ccontr)
    assume "sub_of t v \<noteq> sub_of s v"
    then have v: "v = oid" using assms(3) by blast
    obtain k' where "map_of (mg_table s) k' = Some v" using v_in table_value_lookup [OF assms(1)] by blast
    moreover have "sb_domain (sub_of s v) = sb_domain (sub_of s o') \<and> sb_store_scope (sub_of s v) = sb_store_scope (sub_of s o')"
      using v_P unfolding v assms(4) assms(5) by blast
    ultimately have "v = o'" using table_unique [OF assms(1) _ assms(6), of k' v] by blast
    with v assms(7) show False by simp
  qed
  then show "scope_subscriptions t (sb_domain (sub_of s o')) (sb_store_scope (sub_of s o')) =
      scope_subscriptions s (sb_domain (sub_of s o')) (sb_store_scope (sub_of s o'))"
    unfolding scope_subscriptions_def table_values_def assms(2) by (intro filter_map_cong) blast
qed (use assms in simp_all)

lemma fresh_put_protocol:
  assumes "table_ok s" and "oid < length (mg_objects s)" and "o' \<noteq> oid" and "fresh s o'"
  shows "fresh (put_protocol oid st s) o'"
proof -
  have "aggregateHealth (put_protocol oid st s) (sb_domain (sub_of s o')) (sb_store_scope (sub_of s o')) =
      aggregateHealth s (sb_domain (sub_of s o')) (sb_store_scope (sub_of s o'))"
    if "map_of (mg_table s) k = Some o'" for k
    by (rule aggregate_other [OF assms(1) _ _ _ _ that assms(3)]) (use assms(2) in \<open>simp_all add: sub_of_put_protocol\<close>)
  with assms(4) show ?thesis by (auto simp: fresh_def Let_def)
qed

lemma health_set_fields [simp]:
  "mg_objects (health_set h s) = mg_objects s" "mg_table (health_set h s) = mg_table s"
  "mg_pending (health_set h s) = mg_pending s" "mg_timers (health_set h s) = mg_timers s"
  "mg_next_timer (health_set h s) = mg_next_timer s" "mg_connections (health_set h s) = mg_connections s"
  "mg_sockets (health_set h s) = mg_sockets s" "mg_connection (health_set h s) = mg_connection s"
  "mg_connected (health_set h s) = mg_connected s" "mg_last_error (health_set h s) = mg_last_error s"
  "mg_store (health_set h s) = mg_store s"
  "map_of (mg_health (health_set h s)) = (map_of (mg_health s))(health_key (hp_domain h) (hp_scope h) \<mapsto> h)"
  by (auto simp: health_set_def Let_def map_of_update split: option.split)

lemma update_health_fields [simp]:
  "mg_objects (updateHealthForSubscription oid s) = mg_objects s" "mg_table (updateHealthForSubscription oid s) = mg_table s"
  "mg_pending (updateHealthForSubscription oid s) = mg_pending s" "mg_timers (updateHealthForSubscription oid s) = mg_timers s"
  "mg_next_timer (updateHealthForSubscription oid s) = mg_next_timer s"
  "mg_connections (updateHealthForSubscription oid s) = mg_connections s"
  "mg_sockets (updateHealthForSubscription oid s) = mg_sockets s"
  "mg_connection (updateHealthForSubscription oid s) = mg_connection s"
  "mg_connected (updateHealthForSubscription oid s) = mg_connected s"
  "mg_last_error (updateHealthForSubscription oid s) = mg_last_error s"
  "mg_store (updateHealthForSubscription oid s) = mg_store s"
  "sub_of (updateHealthForSubscription oid s) = sub_of s" "conn_of (updateHealthForSubscription oid s) = conn_of s"
  by (simp_all add: updateHealthForSubscription_def sub_of_def conn_of_def fun_eq_iff)

lemma action_ok_update_health [simp]: "action_ok (updateHealthForSubscription oid s) t a = action_ok s t a"
  by (cases a) simp_all

lemma wf_update_health [simp]: "manager_wf (updateHealthForSubscription oid s) = manager_wf s"
  by (simp add: wf_defs)

lemma settled_update_health [simp]: "settled (updateHealthForSubscription oid s) o' = settled s o'"
  by (simp add: settled_def)

lemma supported_domain_no_colon: "isSupportedDomain d \<Longrightarrow> CHR '':'' \<notin> set d"
proof -
  have "\<forall>e \<in> set doorbellDomainDescriptors. CHR '':'' \<notin> set (fst e)" by code_simp
  then show "isSupportedDomain d \<Longrightarrow> ?thesis" by (auto simp: isSupportedDomain_def dest!: map_of_SomeD)
qed

lemma health_key_inject:
  assumes "isSupportedDomain d" and "isSupportedDomain d'" and "health_key d sc = health_key d' sc'"
  shows "d = d' \<and> sc = sc'"
  using first_delimiter [of d "CHR '':''" "CHR '':'' # sc" d' "CHR '':'' # sc'"]
    assms supported_domain_no_colon by (auto simp: health_key_def)

lemma aggregate_fields [simp]: "hp_domain (aggregateHealth s d sc) = d" "hp_scope (aggregateHealth s d sc) = sc"
  by (simp_all add: aggregateHealth_def Let_def)

lemma fresh_update_health:
  assumes "table_ok s" and "oid < length (mg_objects s)" and "o' < length (mg_objects s)" and "o' = oid \<or> fresh s o'"
  shows "fresh (updateHealthForSubscription oid s) o'"
proof -
  let ?t = "updateHealthForSubscription oid s"
  have agg: "aggregateHealth ?t d sc = aggregateHealth s d sc" for d sc
    by (rule aggregateHealth_cong) simp_all
  have h: "map_of (mg_health ?t) = (map_of (mg_health s))
      (health_key (sb_domain (sub_of s oid)) (sb_store_scope (sub_of s oid)) \<mapsto>
        aggregateHealth s (sb_domain (sub_of s oid)) (sb_store_scope (sub_of s oid)))"
    by (simp add: updateHealthForSubscription_def)
  have "isSupportedDomain (sb_domain (sub_of s oid))" "isSupportedDomain (sb_domain (sub_of s o'))"
    using assms(1-3) by (auto simp: table_ok_def sub_of_def sub_ok_def)
  then have same: "sb_domain (sub_of s o') = sb_domain (sub_of s oid) \<and> sb_store_scope (sub_of s o') = sb_store_scope (sub_of s oid)"
    if "health_key (sb_domain (sub_of s o')) (sb_store_scope (sub_of s o')) =
      health_key (sb_domain (sub_of s oid)) (sb_store_scope (sub_of s oid))"
    using that health_key_inject by blast
  show ?thesis
  proof (cases "health_key (sb_domain (sub_of s o')) (sb_store_scope (sub_of s o')) =
      health_key (sb_domain (sub_of s oid)) (sb_store_scope (sub_of s oid))")
    case True
    with same [OF True] show ?thesis by (simp add: fresh_def Let_def agg h)
  next
    case False
    with assms(4) show ?thesis by (auto simp: fresh_def Let_def agg h)
  qed
qed

lemma update_health_closes:
  assumes "manager_window X oid [] s"
  shows "manager_window X oid [] (updateHealthForSubscription oid s)" and "fresh (updateHealthForSubscription oid s) oid"
  using assms fresh_update_health [of s oid] wf_table by (auto simp: manager_window_def)

lemma update_health_inv:
  assumes "manager_inv X s" and "oid < length (mg_objects s)"
  shows "manager_inv (X - {oid}) (updateHealthForSubscription oid s)"
  using assms fresh_update_health [of s oid] wf_table by (auto simp: manager_inv_def)

lemma update_all_aux:
  assumes "manager_wf s" and "\<forall>o' < length (mg_objects s). settled s o'" and "set xs \<subseteq> {..<length (mg_objects s)}"
    and "\<forall>o' < length (mg_objects s). o' \<notin> Y \<longrightarrow> fresh s o'"
  shows "manager_inv (Y - set xs) (fold updateHealthForSubscription xs s) \<and>
    mg_objects (fold updateHealthForSubscription xs s) = mg_objects s \<and>
    mg_table (fold updateHealthForSubscription xs s) = mg_table s \<and>
    mg_connection (fold updateHealthForSubscription xs s) = mg_connection s"
  using assms
proof (induction xs arbitrary: s Y)
  case Nil
  then show ?case by (auto simp: manager_inv_def)
next
  case (Cons x xs)
  let ?u = "updateHealthForSubscription x s"
  have ok: "table_ok s" and x: "x < length (mg_objects s)" using Cons.prems wf_table by auto
  have "\<forall>o' < length (mg_objects ?u). o' \<notin> Y - {x} \<longrightarrow> fresh ?u o'"
    using fresh_update_health [OF ok x] Cons.prems(4) by simp blast
  with Cons.prems Cons.IH [of ?u "Y - {x}"] show ?case by (simp add: Diff_insert2 [symmetric])
qed

lemma update_all_inv:
  assumes "manager_wf s" and "\<forall>o' < length (mg_objects s). settled s o'"
  shows "manager_inv {} (updateAllHealth s) \<and> mg_objects (updateAllHealth s) = mg_objects s \<and>
    mg_table (updateAllHealth s) = mg_table s \<and> mg_connection (updateAllHealth s) = mg_connection s"
proof -
  have ok: "table_ok s" using assms(1) by (simp add: manager_wf_def)
  have "\<forall>o' < length (mg_objects s). o' \<notin> set (table_values s) \<longrightarrow> fresh s o'"
    using table_value_lookup [OF ok] by (auto simp: fresh_def Let_def)
  with assms table_value_range [OF ok] update_all_aux [of s "table_values s" "set (table_values s)"] show ?thesis
    by (auto simp: updateAllHealth_def)
qed

lemma action_ok_connected [simp]: "action_ok (s\<lparr>mg_connected := b, mg_last_error := e\<rparr>) t a = action_ok s t a"
  by (cases a) (simp_all add: sub_of_def)

lemma status_fields [simp]:
  "sub_of (s\<lparr>mg_connected := b, mg_last_error := e\<rparr>) = sub_of s"
  "conn_of (s\<lparr>mg_connected := b, mg_last_error := e\<rparr>) = conn_of s"
  by (simp_all add: sub_of_def conn_of_def fun_eq_iff)

lemma status_inv:
  assumes "manager_inv X s"
  shows "manager_wf (s\<lparr>mg_connected := b, mg_last_error := e\<rparr>)"
    and "\<forall>o' < length (mg_objects s). settled (s\<lparr>mg_connected := b, mg_last_error := e\<rparr>) o'"
  using assms by (simp_all add: manager_inv_def settled_def wf_defs)

lemma markConnectionError_inv:
  assumes "manager_inv X s"
  shows "manager_inv {} (markConnectionError m s) \<and> mg_objects (markConnectionError m s) = mg_objects s \<and>
    mg_table (markConnectionError m s) = mg_table s \<and> mg_connection (markConnectionError m s) = mg_connection s"
  using update_all_inv [of "s\<lparr>mg_connected := False, mg_last_error := m\<rparr>"] status_inv [OF assms]
  by (simp add: markConnectionError_def)

lemma markConnectionOpen_inv:
  assumes "manager_inv X s"
  shows "manager_inv {} (markConnectionOpen s) \<and> mg_objects (markConnectionOpen s) = mg_objects s \<and>
    mg_table (markConnectionOpen s) = mg_table s \<and> mg_connection (markConnectionOpen s) = mg_connection s"
proof -
  have inv: "manager_inv X (s\<lparr>mg_epoch := mg_epoch s + 1\<rparr>)"
    using assms by (rule inv_cong) (use assms in \<open>simp_all add: manager_inv_def manager_wf_def\<close>)
  have eq: "s\<lparr>mg_connected := True, mg_epoch := mg_epoch s + 1, mg_last_error := []\<rparr> =
      (s\<lparr>mg_epoch := mg_epoch s + 1\<rparr>)\<lparr>mg_connected := True, mg_last_error := []\<rparr>"
    by simp
  show ?thesis
    using update_all_inv [of "(s\<lparr>mg_epoch := mg_epoch s + 1\<rparr>)\<lparr>mg_connected := True, mg_last_error := []\<rparr>"]
      status_inv [OF inv] unfolding markConnectionOpen_def eq by simp
qed

end
