(* ===== verification/Stream_Connection_Inv.thy ===== *)
theory Stream_Connection_Inv
  imports Stream_Manager_Inv
begin

text \<open>
  What the operations of the connection keep of the manager's invariant: they change connections, sockets and
  reconnect timers, and nothing a subscription relies on.
\<close>

section \<open>The connection\<close>

text \<open>Operations of the connection touch connections, sockets and reconnect timers only.\<close>

definition conn_change :: "'p stream_manager \<Rightarrow> 'p stream_manager \<Rightarrow> bool" where
  "conn_change s t \<longleftrightarrow> mg_objects t = mg_objects s \<and> mg_table t = mg_table s \<and> mg_pending t = mg_pending s \<and>
     mg_connected t = mg_connected s \<and> mg_last_error t = mg_last_error s \<and> mg_health t = mg_health s \<and>
     mg_store t = mg_store s \<and> length (mg_connections s) \<le> length (mg_connections t) \<and>
     (\<forall>tm a. (\<forall>cid. a \<noteq> ReconnectTimer cid) \<longrightarrow>
        (map_of (mg_timers t) tm = Some a \<longleftrightarrow> map_of (mg_timers s) tm = Some a))"

definition timers_fresh :: "'p stream_manager \<Rightarrow> bool" where
  "timers_fresh s \<longleftrightarrow> distinct (map fst (mg_timers s)) \<and> (\<forall>t \<in> fst ` set (mg_timers s). t < mg_next_timer s) \<and>
     (\<forall>t cid. map_of (mg_timers s) t = Some (ReconnectTimer cid) \<longrightarrow> cid < length (mg_connections s))"

lemma conn_change_refl [simp]: "conn_change s s"
  by (simp add: conn_change_def)

lemma conn_change_trans: "conn_change s t \<Longrightarrow> conn_change t u \<Longrightarrow> conn_change s u"
  by (simp add: conn_change_def)

lemma conn_change_sub_of: "conn_change s t \<Longrightarrow> sub_of t = sub_of s"
  by (simp add: conn_change_def sub_of_def fun_eq_iff)

lemma conn_change_inv:
  assumes "manager_inv X s" and "conn_change s t" and "timers_fresh t" and "conns_ok t"
  shows "manager_inv X t"
proof -
  note sub = conn_change_sub_of [OF assms(2)]
  have wf: "manager_wf s" using assms(1) by (simp add: manager_inv_def)
  have corr: "map_of (mg_timers t) tm = Some a \<longleftrightarrow> map_of (mg_timers s) tm = Some a"
    if "\<forall>cid. a \<noteq> ReconnectTimer cid" for tm a
    using assms(2) that by (simp add: conn_change_def)
  have "action_ok t tm a" if a: "map_of (mg_timers t) tm = Some a" for tm a
  proof (cases "\<exists>cid. a = ReconnectTimer cid")
    case True
    then show ?thesis using a assms(3) by (auto simp: timers_fresh_def)
  next
    case False
    then have "action_ok s tm a" using a corr wf by (auto simp: manager_wf_def timers_ok_def)
    with False show ?thesis using assms(2) sub by (cases a) (auto simp: conn_change_def)
  qed
  moreover have "table_ok t" "pending_ok t"
    using wf assms(2) sub corr by (auto simp: manager_wf_def table_ok_def pending_ok_def conn_change_def)
  ultimately have "manager_wf t"
    using assms(2-4) wf by (simp add: manager_wf_def timers_ok_def timers_fresh_def conn_change_def)
  moreover have "settled s oid \<Longrightarrow> settled t oid" for oid
    unfolding settled_def sub by (auto elim!: carried_timers simp: corr)
  moreover have "fresh t oid = fresh s oid" for oid
    using assms(2) aggregateHealth_cong [of t s] sub by (simp add: fresh_def conn_change_def)
  ultimately show ?thesis using assms(1,2) by (simp add: manager_inv_def conn_change_def)
qed

definition conn_wf :: "'p stream_manager \<Rightarrow> bool" where
  "conn_wf s \<longleftrightarrow> timers_fresh s \<and> conns_ok s"

lemma inv_conn_wf:
  assumes "manager_inv X s"
  shows "conn_wf s"
proof -
  have wf: "timers_ok s" "conns_ok s" using assms by (simp_all add: manager_inv_def manager_wf_def)
  have "cid < length (mg_connections s)" if "map_of (mg_timers s) t = Some (ReconnectTimer cid)" for t cid
    using wf(1) that unfolding timers_ok_def by (metis action_ok.simps(4))
  with wf show ?thesis by (simp add: timers_ok_def timers_fresh_def conn_wf_def)
qed

lemma conn_wf_cong:
  assumes "conn_wf s" and "mg_timers t = mg_timers s" and "mg_next_timer t = mg_next_timer s"
    and "mg_connections t = mg_connections s" and "mg_connection t = mg_connection s"
    and "set (mg_sockets t) \<subseteq> {..<length (mg_connections s)}"
  shows "conn_wf t"
proof -
  have c: "conn_of t = conn_of s" using assms(4) by (simp add: conn_of_def fun_eq_iff)
  have sock: "\<forall>cid \<in> set (mg_sockets t). cid < length (mg_connections s)" using assms(6) by auto
  show ?thesis
    using assms(1) sock unfolding conn_wf_def timers_fresh_def conns_ok_def assms(2-5) c
    by (elim conjE) (intro conjI; assumption)
qed

lemma conn_wf_sockets: "conn_wf s \<Longrightarrow> set (mg_sockets s) \<subseteq> {..<length (mg_connections s)}"
  by (auto simp: conn_wf_def conns_ok_def)

lemma conn_wf_trace:
  assumes "conn_wf s"
  shows "conn_wf (s\<lparr>mg_sent := x\<rparr>)" "conn_wf (s\<lparr>mg_closed := y\<rparr>)"
    "conn_change s (s\<lparr>mg_sent := x\<rparr>)" "conn_change s (s\<lparr>mg_closed := y\<rparr>)"
    "conn_of (s\<lparr>mg_closed := y\<rparr>) = conn_of s"
proof -
  show "conn_wf (s\<lparr>mg_sent := x\<rparr>)" by (rule conn_wf_cong [OF assms]) (simp_all add: conn_wf_sockets [OF assms])
  show "conn_wf (s\<lparr>mg_closed := y\<rparr>)" by (rule conn_wf_cong [OF assms]) (simp_all add: conn_wf_sockets [OF assms])
qed (simp_all add: conn_change_def conn_of_def fun_eq_iff)

lemma put_conn_fields [simp]:
  "mg_objects (put_conn cid c s) = mg_objects s" "mg_table (put_conn cid c s) = mg_table s"
  "mg_pending (put_conn cid c s) = mg_pending s" "mg_timers (put_conn cid c s) = mg_timers s"
  "mg_next_timer (put_conn cid c s) = mg_next_timer s" "mg_sockets (put_conn cid c s) = mg_sockets s"
  "mg_connection (put_conn cid c s) = mg_connection s" "mg_connected (put_conn cid c s) = mg_connected s"
  "mg_last_error (put_conn cid c s) = mg_last_error s" "mg_health (put_conn cid c s) = mg_health s"
  "mg_store (put_conn cid c s) = mg_store s" "sub_of (put_conn cid c s) = sub_of s"
  "length (mg_connections (put_conn cid c s)) = length (mg_connections s)"
  by (simp_all add: put_conn_def sub_of_def fun_eq_iff)

lemma conn_of_put_conn:
  "cid < length (mg_connections s) \<Longrightarrow> conn_of (put_conn cid c s) d = (if d = cid then c else conn_of s d)"
  by (simp add: put_conn_def conn_of_def nth_list_update)

lemma put_conn_keeps:
  assumes "conn_wf s" and "cid < length (mg_connections s)"
    and "cn_reconnect c = cn_reconnect (conn_of s cid) \<or> cn_reconnect c = None"
  shows "conn_wf (put_conn cid c s) \<and> conn_change s (put_conn cid c s) \<and>
    mg_connection (put_conn cid c s) = mg_connection s"
proof -
  have "cn_reconnect (conn_of (put_conn cid c s) d) \<in> {None, cn_reconnect (conn_of s d)}" for d
    using assms(2,3) by (auto simp: conn_of_put_conn)
  then have "conns_ok (put_conn cid c s)"
    using assms(1) unfolding conn_wf_def conns_ok_def by simp (metis option.distinct(1))
  with assms(1) show ?thesis by (simp add: conn_wf_def timers_fresh_def conn_change_def)
qed

lemma send_keeps:
  assumes "conn_wf s" and "cid < length (mg_connections s)"
  shows "conn_wf (send env cid m s) \<and> conn_change s (send env cid m s) \<and> mg_connection (send env cid m s) = mg_connection s"
  using put_conn_keeps [OF assms, of "(conn_of s cid)\<lparr>cn_pending := cn_pending (conn_of s cid) @ [m]\<rparr>"]
    conn_wf_trace [OF assms(1)] by (simp add: send_def split: option.split)

lemma clearReconnect_keeps:
  assumes "conn_wf s" and "cid < length (mg_connections s)"
  shows "conn_wf (clearReconnect cid s) \<and> conn_change s (clearReconnect cid s) \<and>
    mg_connection (clearReconnect cid s) = mg_connection s \<and> mg_sockets (clearReconnect cid s) = mg_sockets s \<and>
    length (mg_connections (clearReconnect cid s)) = length (mg_connections s) \<and>
    cn_reconnect (conn_of (clearReconnect cid s) cid) = None"
proof (cases "cn_reconnect (conn_of s cid)")
  case None
  then show ?thesis using assms by (simp add: clearReconnect_def)
next
  case (Some t)
  let ?u = "put_conn cid ((conn_of s cid)\<lparr>cn_reconnect := None\<rparr>) (clear_timeout t s)"
  have t: "map_of (mg_timers s) t = Some (ReconnectTimer cid)"
    using assms Some by (auto simp: conn_wf_def conns_ok_def)
  have "distinct (map fst (mg_timers ?u))" "\<forall>t' \<in> fst ` set (mg_timers ?u). t' < mg_next_timer ?u"
    using assms(1) by (auto simp: conn_wf_def timers_fresh_def distinct_delete clear_timeout_def delete_fst_set)
  then have "timers_fresh ?u"
    using assms(1) by (simp add: conn_wf_def timers_fresh_def)
  moreover have "map_of (mg_timers ?u) t' = Some (ReconnectTimer d)"
    if "d < length (mg_connections s)" "cn_reconnect (conn_of ?u d) = Some t'" for d t'
  proof -
    have "d \<noteq> cid" "cn_reconnect (conn_of s d) = Some t'" using that assms(2) by (auto simp: conn_of_put_conn split: if_splits)
    then show ?thesis using that(1) t assms(1) by (auto simp: conn_wf_def conns_ok_def)
  qed
  then have "conns_ok ?u" using assms(1) by (simp add: conn_wf_def conns_ok_def)
  moreover have "conn_change s ?u"
    using t by (auto simp: conn_change_def)
  ultimately show ?thesis
    using Some assms(2) by (simp add: clearReconnect_def conn_wf_def conn_of_put_conn)
qed

lemma scheduleReconnect_keeps:
  assumes "conn_wf s" and "cid < length (mg_connections s)"
  shows "conn_wf (scheduleReconnect cid s) \<and> conn_change s (scheduleReconnect cid s) \<and>
    mg_connection (scheduleReconnect cid s) = mg_connection s"
proof -
  let ?s = "clearReconnect cid s"
  let ?c = "(conn_of ?s cid)\<lparr>cn_attempt := cn_attempt (conn_of ?s cid) + 1, cn_reconnect := Some (mg_next_timer ?s)\<rparr>"
  let ?u = "set_timeout (ReconnectTimer cid) (put_conn cid ?c ?s)"
  note keeps = clearReconnect_keeps [OF assms]
  have new: "map_of (mg_timers ?s) (mg_next_timer ?s) = None"
    using keeps by (auto simp: conn_wf_def timers_fresh_def map_of_eq_None_iff)
  then have timers: "map_of (mg_timers ?u) = (map_of (mg_timers ?s))(mg_next_timer ?s \<mapsto> ReconnectTimer cid)"
    by (auto simp: set_timeout_def fun_eq_iff map_add_def split: option.split)
  have cid: "cid < length (mg_connections ?s)" using keeps assms(2) by simp
  have "distinct (map fst (mg_timers ?u))" "\<forall>t \<in> fst ` set (mg_timers ?u). t < mg_next_timer ?u"
    using keeps by (auto simp: set_timeout_def conn_wf_def timers_fresh_def)
  moreover have "d < length (mg_connections ?u)" if "map_of (mg_timers ?u) t = Some (ReconnectTimer d)" for t d
    using that [unfolded timers] keeps cid by (auto simp: conn_wf_def timers_fresh_def split: if_splits)
  ultimately have tf: "timers_fresh ?u" unfolding timers_fresh_def by blast
  have "map_of (mg_timers ?u) t = Some (ReconnectTimer d)"
    if "d < length (mg_connections ?s)" "cn_reconnect (conn_of ?u d) = Some t" for d t
  proof (cases "d = cid")
    case True
    then have "t = mg_next_timer ?s" using that(2) cid by (simp add: conn_of_put_conn)
    with True show ?thesis unfolding timers by simp
  next
    case False
    then have "map_of (mg_timers ?s) t = Some (ReconnectTimer d)"
      using that keeps cid by (auto simp: conn_wf_def conns_ok_def conn_of_put_conn)
    with new show ?thesis unfolding timers by auto
  qed
  moreover have "conns_ok ?s" using keeps by (simp add: conn_wf_def)
  ultimately have "conns_ok ?u" unfolding conns_ok_def by simp
  moreover have "conn_change ?s ?u" using new unfolding conn_change_def timers by auto
  ultimately show ?thesis
    using tf assms keeps conn_change_trans [of s ?s ?u] by (auto simp: scheduleReconnect_def Let_def conn_wf_def)
qed

lemma close_socket_keeps:
  assumes "conn_wf s" and "cid < length (mg_connections s)"
  shows "conn_wf (close_socket cid s) \<and> conn_change s (close_socket cid s) \<and>
    mg_connection (close_socket cid s) = mg_connection s"
proof (cases "cn_socket (conn_of s cid)")
  case None
  then show ?thesis using assms by (simp add: close_socket_def)
next
  case (Some sid)
  let ?t = "s\<lparr>mg_closed := mg_closed s @ [sid]\<rparr>"
  note trace = conn_wf_trace [OF assms(1)]
  have "conn_wf (put_conn cid ((conn_of s cid)\<lparr>cn_socket := None\<rparr>) ?t) \<and>
      conn_change ?t (put_conn cid ((conn_of s cid)\<lparr>cn_socket := None\<rparr>) ?t)"
    by (intro conjI; insert put_conn_keeps [of ?t cid "(conn_of s cid)\<lparr>cn_socket := None\<rparr>"] assms(2) trace(2,5))
      simp_all
  with Some trace conn_change_trans [of s ?t] show ?thesis by (simp add: close_socket_def)
qed

lemma hang_up_keeps:
  assumes "conn_wf s" and "cid < length (mg_connections s)" and "cn_reconnect c = cn_reconnect (conn_of s cid)"
  shows "conn_wf (close_socket cid (clearReconnect cid (put_conn cid c s))) \<and>
    conn_change s (close_socket cid (clearReconnect cid (put_conn cid c s))) \<and>
    mg_connection (close_socket cid (clearReconnect cid (put_conn cid c s))) = mg_connection s"
proof -
  let ?a = "put_conn cid c s" and ?b = "clearReconnect cid (put_conn cid c s)"
  have a: "conn_wf ?a" "conn_change s ?a" "mg_connection ?a = mg_connection s" "cid < length (mg_connections ?a)"
    using put_conn_keeps [OF assms(1,2), of c] assms(2,3) by simp_all
  have b: "conn_wf ?b" "conn_change ?a ?b" "mg_connection ?b = mg_connection ?a" "cid < length (mg_connections ?b)"
    using clearReconnect_keeps [OF a(1,4)] assms(2) by simp_all
  show ?thesis
    using close_socket_keeps [OF b(1,4)] conn_change_trans [OF conn_change_trans [OF a(2) b(2)]] a(3) b(3) by simp
qed

lemma open_socket_keeps:
  assumes "conn_wf s" and "cid < length (mg_connections s)"
  shows "conn_wf (open_socket cid s) \<and> conn_change s (open_socket cid s) \<and> mg_connection (open_socket cid s) = mg_connection s"
proof -
  let ?t = "s\<lparr>mg_sockets := mg_sockets s @ [cid]\<rparr>"
  have t: "conn_wf ?t" using conn_wf_sockets [OF assms(1)] assms(2) by (intro conn_wf_cong [OF assms(1)]) auto
  have "conn_change s ?t" "conn_of ?t = conn_of s" by (simp_all add: conn_change_def conn_of_def fun_eq_iff)
  with put_conn_keeps [OF t, of cid "(conn_of s cid)\<lparr>cn_socket := Some (length (mg_sockets s))\<rparr>"] assms(2)
    conn_change_trans [of s ?t] show ?thesis
    by (simp add: open_socket_def)
qed

lemma add_connection_keeps:
  assumes "conn_wf s"
  shows "conn_wf (add_connection s) \<and> conn_change s (add_connection s)"
proof -
  have len: "length (mg_connections (add_connection s)) = Suc (length (mg_connections s))"
    by (simp add: add_connection_def)
  have "conn_of (add_connection s) cid = (if cid < length (mg_connections s) then conn_of s cid else new_connection)"
    if "cid < Suc (length (mg_connections s))" for cid
    using that by (auto simp: add_connection_def conn_of_def nth_append less_Suc_eq)
  then have "conns_ok (add_connection s)"
    using assms len
    by (auto simp: conn_wf_def conns_ok_def add_connection_def new_connection_def less_Suc_eq split: if_splits)
  moreover have "timers_fresh (add_connection s)"
    using assms by (auto simp: conn_wf_def timers_fresh_def add_connection_def less_Suc_eq)
  ultimately show ?thesis by (simp add: conn_wf_def conn_change_def add_connection_def)
qed

end
