(* ===== verification/Stream_Manager_Calls.thy ===== *)
theory Stream_Manager_Calls
  imports Stream_Connection_Inv
begin

text \<open>
  The calls between the manager, its subscriptions and the connection return, and keep the invariant. The
  proof follows the two levels of the call graph: a subscription on an existing connection calls back
  into the protocol only once, and a subscription that has to open the connection may run the handler of a
  failed connection, whose resyncs find the connection already there. Both levels are instances of one locale.
\<close>

section \<open>What a transition asks for\<close>

fun plain :: "protocol_effect \<Rightarrow> bool" where
  "plain ScheduleFlush = False"
| "plain (ScheduleTrailingResync _) = False"
| "plain (RequestResync _ _ _) = False"
| "plain SendSubscribe = False"
| "plain _ = True"

fun calls_back :: "protocol_effect \<Rightarrow> bool" where
  "calls_back (RequestResync _ _ _) = True"
| "calls_back SendSubscribe = True"
| "calls_back _ = False"

text \<open>Only the last effect of a transition is more than bookkeeping.\<close>

definition script :: "protocol_effect list \<Rightarrow> bool" where
  "script es \<longleftrightarrow> list_all plain (butlast es)"

fun attaches :: "protocol_event \<Rightarrow> bool" where
  "attaches (FlushTimerAttached _) = True"
| "attaches (TrailingTimerAttached _) = True"
| "attaches _ = False"

fun asks_resync :: "protocol_event \<Rightarrow> bool" where
  "asks_resync (ResyncRequested _) = True"
| "asks_resync _ = False"

lemma carried_same [simp]:
  "carried tm oid (st\<lparr>ps_phase := ph\<rparr>) es = carried tm oid st es"
  "carried tm oid (st\<lparr>ps_last_message := m\<rparr>) es = carried tm oid st es"
  "carried tm oid (st\<lparr>ps_last_delivery := m\<rparr>) es = carried tm oid st es"
  "carried tm oid (st\<lparr>ps_last_sequence := q\<rparr>) es = carried tm oid st es"
  "carried tm oid (st\<lparr>ps_resource_version := q\<rparr>) es = carried tm oid st es"
  "carried tm oid (st\<lparr>ps_last_resync := r\<rparr>) es = carried tm oid st es"
  by (simp_all add: carried_def)

lemma carried_pop:
  assumes "carried tm oid st (e # es)" and "e \<noteq> ScheduleFlush" and "\<And>d. e \<noteq> ScheduleTrailingResync d"
  shows "carried tm oid st es"
  using assms by (auto simp: carried_def split: coalescing.splits trailing_resync.splits)

lemma carried_cancel:
  assumes "carried tm oid st (e # es)" and "e = CancelFlush t \<or> e = CancelTrailingResync t"
  shows "carried (tm(t := None)) oid st es"
  using assms by (auto simp: carried_def split: coalescing.splits trailing_resync.splits)

lemma carried_effects:
  assumes "carried tm oid st []" and "\<forall>e \<in> set es. (\<forall>t. e \<noteq> CancelFlush t) \<and> (\<forall>t. e \<noteq> CancelTrailingResync t)"
  shows "carried tm oid st es"
  using assms by (auto simp: carried_def split: coalescing.splits trailing_resync.splits)

lemma append_distinct:
  "distinct (map fst (pc_versions (pendingChanges c))) \<Longrightarrow> distinct (map fst (pc_versions (appendChange c source version)))"
  by (simp add: appendChange_def Let_def distinct_update split: option.split)

lemma changed_carried:
  assumes "carried tm oid p []"
  shows "carried tm oid (fst (receiveChanged p ev source version sequence rv)) (snd (receiveChanged p ev source version sequence rv))
    \<and> script (snd (receiveChanged p ev source version sequence rv))"
  using assms
  by (cases "ps_coalescing p")
    (auto simp: receiveChanged_def Let_def script_def carried_def append_distinct split: trailing_resync.splits)

lemma reset_carried:
  assumes "carried tm oid p []"
  shows "carried tm oid (fst (receiveReset p ev reason source version)) (snd (receiveReset p ev reason source version))
    \<and> script (snd (receiveReset p ev reason source version))"
proof -
  have "sourceEffect source version = Some e \<Longrightarrow> plain e \<and> (\<forall>t. e \<noteq> CancelFlush t) \<and> (\<forall>t. e \<noteq> CancelTrailingResync t)" for e
    by (cases source; cases version) (auto split: if_splits)
  then show ?thesis
    using assms by (auto simp: receiveReset_def Let_def script_def intro!: carried_effects split: option.split)
qed

lemma message_carried:
  assumes "carried tm oid p []"
  shows "carried tm oid (fst (receiveMessage p ev)) (snd (receiveMessage p ev)) \<and> script (snd (receiveMessage p ev))"
  using assms changed_carried [OF assms] reset_carried [OF assms]
  by (auto simp: receiveMessage_def Let_def script_def intro: carried_effects split: stream_message.split)

lemma resync_carried:
  assumes "carried tm oid p []"
  shows "carried tm oid (fst (requestResync p ev)) (snd (requestResync p ev)) \<and> script (snd (requestResync p ev)) \<and>
    (\<forall>e \<in> set (snd (requestResync p ev)). \<not> calls_back e)"
  using assms
  by (cases "ps_coalescing p"; cases "ps_trailing p")
    (auto simp: requestResync_def latchTrailingResync_def advancePendingEffect_def Let_def script_def carried_def)

lemma transition_carried:
  assumes "carried tm oid p []" and "\<not> attaches e"
  shows "carried tm oid (fst (transitionResourceStreamProtocol p e)) (snd (transitionResourceStreamProtocol p e)) \<and>
    script (snd (transitionResourceStreamProtocol p e))"
  using assms message_carried [OF assms(1)] resync_carried [OF assms(1)]
proof (cases e)
  case (FlushFired t)
  then show ?thesis using assms
    by (cases "ps_coalescing p")
      (auto simp: flushPendingChanges_def advancePendingEffect_def script_def carried_def split: trailing_resync.splits)
next
  case (TrailingFired t)
  then show ?thesis using assms
    by (cases "ps_trailing p") (auto simp: fireTrailingResync_def script_def carried_def split: coalescing.splits)
next
  case StopRequested
  then show ?thesis using assms
    by (cases "ps_coalescing p"; cases "ps_trailing p") (auto simp: stopProtocol_def script_def carried_def)
qed (auto simp: subscribeSent_def connectionOpened_def connectionLost_def completeResync_def script_def
      intro!: carried_effects split: protocol_phase.split)

lemma transition_quiet:
  assumes "\<not> is_resyncing (ps_phase p)" and "\<not> asks_resync e"
  shows "\<not> is_resyncing (ps_phase (fst (transitionResourceStreamProtocol p e)))"
  using assms
  by (cases e)
    (auto simp: subscribeSent_def connectionOpened_def connectionLost_def completeResync_def stopProtocol_def
      attachFlushTimer_def attachTrailingResyncTimer_def flushPendingChanges_def fireTrailingResync_def
      receiveMessage_def receiveChanged_def receiveReset_def synchronizedPhase_def Let_def
      split: protocol_phase.split coalescing.split trailing_resync.split stream_message.split)

lemma completed_quiet: "\<not> is_resyncing (ps_phase (fst (transitionResourceStreamProtocol p ResyncCompleted)))"
  by (auto simp: completeResync_def split: protocol_phase.split)

lemma started_cases:
  assumes "\<not> is_resyncing (ps_phase p)"
    and "fst (transitionResourceStreamProtocol p (ResyncRequested r)) = p \<or>
      \<not> is_resyncing (ps_phase (fst (transitionResourceStreamProtocol p (ResyncRequested r))))"
  shows "\<not> is_resyncing (ps_phase (fst (transitionResourceStreamProtocol p (ResyncRequested r))))"
  using assms by auto

text \<open>A timer is gone from the armed timers when its callback runs.\<close>

lemma fired_carried:
  assumes "carried tm oid p []"
    and "e = FlushFired t \<and> tm t = Some (FlushTimer oid) \<or> e = TrailingFired t \<and> tm t = Some (TrailingTimer oid)"
  shows "carried (tm(t := None)) oid (fst (transitionResourceStreamProtocol p e)) (snd (transitionResourceStreamProtocol p e)) \<and>
    script (snd (transitionResourceStreamProtocol p e))"
  using assms
  by (cases "ps_coalescing p"; cases "ps_trailing p")
    (auto simp: flushPendingChanges_def advancePendingEffect_def fireTrailingResync_def script_def carried_def
      split: if_splits)

section \<open>Running one effect\<close>

definition shape :: "'p stream_manager \<Rightarrow> 'p stream_manager \<Rightarrow> bool" where
  "shape s t \<longleftrightarrow> length (mg_objects t) = length (mg_objects s) \<and> mg_table t = mg_table s \<and>
     mg_pending t = mg_pending s \<and> length (mg_connections s) \<le> length (mg_connections t)"

definition others_ok :: "nat set \<Rightarrow> nat \<Rightarrow> 'p stream_manager \<Rightarrow> bool" where
  "others_ok X oid s \<longleftrightarrow> manager_wf s \<and> oid < length (mg_objects s) \<and>
     (\<forall>o' < length (mg_objects s). o' \<noteq> oid \<longrightarrow> settled s o' \<and> (o' \<in> X \<or> fresh s o'))"

definition keeps_inv ::
    "('p stream_manager \<Rightarrow> bool) \<Rightarrow> nat set \<Rightarrow> 'p stream_manager \<Rightarrow> 'p stream_manager \<Rightarrow> bool" where
  "keeps_inv C X s t \<longleftrightarrow> manager_inv X t \<and> C t \<and> shape s t"

definition busy :: "'p stream_manager \<Rightarrow> nat \<Rightarrow> bool" where
  "busy s oid \<longleftrightarrow> is_resyncing (ps_phase (sb_protocol (sub_of s oid)))"

lemma shape_refl [simp]: "shape s s"
  by (simp add: shape_def)

lemma shape_trans: "shape s t \<Longrightarrow> shape t u \<Longrightarrow> shape s u"
  by (simp add: shape_def)

lemma shape_core: "core t = core s \<Longrightarrow> shape s t"
  by (simp add: shape_def core_def)

lemma window_iff:
  "manager_window X oid es s \<longleftrightarrow>
     others_ok X oid s \<and> carried (map_of (mg_timers s)) oid (sb_protocol (sub_of s oid)) es"
  by (auto simp: manager_window_def others_ok_def)

lemma others_of_inv: "manager_inv X s \<Longrightarrow> oid < length (mg_objects s) \<Longrightarrow> others_ok X oid s"
  by (simp add: manager_inv_def others_ok_def)

lemma update_all_connections:
  "mg_connections (fold updateHealthForSubscription xs s) = mg_connections s"
  "mg_pending (fold updateHealthForSubscription xs s) = mg_pending s"
  by (induction xs arbitrary: s) simp_all

lemma window_insert [simp]: "manager_window (insert oid X) oid es s = manager_window X oid es s"
  by (auto simp: manager_window_def)

lemma inv_gives_window:
  assumes "manager_inv (insert oid X) s" and "oid < length (mg_objects s)"
  shows "manager_window X oid [] s \<and> \<not> busy s oid"
  using window_of_inv [OF assms] assms by (simp add: manager_inv_def settled_def busy_def)

lemma keeps_inv_mono: "keeps_inv C X t u \<Longrightarrow> shape s t \<Longrightarrow> X \<subseteq> Y \<Longrightarrow> keeps_inv C Y s u"
  using manager_inv_mono shape_trans unfolding keeps_inv_def by blast

lemma keeps_inv_window:
  "keeps_inv C (insert oid X) s t \<Longrightarrow> oid < length (mg_objects s) \<Longrightarrow>
     manager_window X oid [] t \<and> \<not> busy t oid \<and> C t \<and> shape s t"
  using inv_gives_window [of oid X t] by (simp add: keeps_inv_def shape_def)

lemma settled_inv:
  assumes "manager_window X oid [] s" and "fresh s oid" and "\<not> busy s oid"
  shows "manager_inv (X - {oid}) s"
  using assms by (auto simp: manager_window_def manager_inv_def settled_def busy_def)

lemma window_put_protocol:
  assumes "others_ok X oid s" and "carried (map_of (mg_timers s)) oid st es"
  shows "manager_window X oid es (put_protocol oid st s)"
  using assms wf_put_protocol [of s oid st] settled_put_protocol [of s _ oid st]
    fresh_put_protocol [of s oid _ st] wf_table [of s]
  by (auto simp: manager_window_def others_ok_def sub_of_put_protocol)

lemma window_core:
  assumes "manager_window X oid (e # es) s" and "e \<noteq> ScheduleFlush" and "\<And>d. e \<noteq> ScheduleTrailingResync d"
    and "core t = core s" and "store_inv (mg_store t)"
  shows "manager_window X oid es t \<and> shape s t \<and> mg_connection t = mg_connection s \<and> sub_of t = sub_of s"
proof -
  have "manager_window X oid es s"
    using assms(1) carried_pop [OF _ assms(2,3)] by (auto simp: manager_window_def)
  from window_cong [OF this assms(4) [symmetric] assms(5)] show ?thesis
    using assms(4) core_sub_of [OF assms(4)] shape_core [OF assms(4)] by (simp add: core_def)
qed

lemma window_cancel:
  assumes "manager_window X oid (e # es) s" and "e = CancelFlush t \<or> e = CancelTrailingResync t"
  shows "manager_window X oid es (clear_timeout t s)"
proof -
  have t: "map_of (mg_timers s) t \<in> {None, Some (FlushTimer oid), Some (TrailingTimer oid)}"
    using assms by (auto simp: manager_window_def carried_def)
  show ?thesis
    using assms(1) carried_cancel [OF _ assms(2)] wf_clear_timeout [OF _ t] settled_clear_timeout [OF _ _ t]
    by (auto simp: manager_window_def)
qed

lemma plain_run:
  assumes "plain e" and "manager_window X oid (e # es) s"
  shows "returns_with (run_call (Suc n) env (RunEffect oid e) s)
    (\<lambda>t. manager_window X oid es t \<and> shape s t \<and> mg_connection t = mg_connection s \<and> sub_of t = sub_of s)"
proof -
  have store: "store_inv (mg_store s)" using assms(2) by (simp add: manager_window_def manager_wf_def)
  note core = window_core [OF assms(2)]
  show ?thesis
  proof (cases e)
    case (CancelFlush t)
    then show ?thesis using window_cancel [OF assms(2), of t] by (simp add: runProtocolEffect_def shape_def)
  next
    case (CancelTrailingResync t)
    then show ?thesis using window_cancel [OF assms(2), of t] by (simp add: runProtocolEffect_def shape_def)
  next
    case (AdvanceSource v l)
    then show ?thesis using core [OF _ _ core_bump store_bump [OF store]] by (simp add: runProtocolEffect_def)
  next
    case AdvanceLegacyReset
    then show ?thesis using core [OF _ _ core_legacy store_legacy [OF store]] by (simp add: runProtocolEffect_def)
  next
    case (PermissionDeniedEffect r)
    then show ?thesis using core [OF _ _ core_events(1)] store by (simp add: runProtocolEffect_def)
  next
    case (MarkResyncing r)
    then show ?thesis using core [OF _ _ core_marks(1) store_marks(1) [OF store]] by (simp add: runProtocolEffect_def)
  next
    case MarkResyncComplete
    then show ?thesis using core [OF _ _ core_marks(2) store_marks(2) [OF store]] by (simp add: runProtocolEffect_def)
  qed (use assms(1) in simp_all)
qed

text \<open>Arming a timer and attaching it to the protocol state settles the effect that asked for it.\<close>

lemma attach_run:
  assumes "manager_window X oid [e] s" and "e = ScheduleFlush \<and> a = FlushTimer oid \<or>
      (\<exists>d. e = ScheduleTrailingResync d) \<and> a = TrailingTimer oid"
    and "ev = (if e = ScheduleFlush then FlushTimerAttached (mg_next_timer s) else TrailingTimerAttached (mg_next_timer s))"
  shows "returns_with (run_call (Suc n) env (ApplyEvent oid ev) (set_timeout a s))
    (\<lambda>t. manager_window X oid [] t \<and> shape s t \<and> mg_connection t = mg_connection s \<and> busy t oid = busy s oid)"
proof -
  let ?u = "set_timeout a s" and ?tr = "transitionResourceStreamProtocol (sb_protocol (sub_of s oid)) ev"
  have wf: "manager_wf s" "oid < length (mg_objects s)" and tm: "timers_ok s"
    using assms(1) by (simp_all add: manager_window_def manager_wf_def)
  have a: "a \<in> {FlushTimer oid, TrailingTimer oid}" using assms(2) by auto
  have new: "map_of (mg_timers s) (mg_next_timer s) = None"
    using tm by (auto simp: timers_ok_def map_of_eq_None_iff)
  have others: "others_ok X oid ?u"
    using assms(1) wf_set_timeout [OF wf a] settled_set_timeout [OF _ tm, of _ a]
    by (auto simp: manager_window_def others_ok_def)
  have "carried (map_of (mg_timers s)) oid (sb_protocol (sub_of s oid)) [e]"
    using assms(1) by (simp add: manager_window_def)
  then have "carried (map_of (mg_timers ?u)) oid (fst ?tr) [] \<and> snd ?tr = [] \<and>
      ps_phase (fst ?tr) = ps_phase (sb_protocol (sub_of s oid))"
    using assms(2,3) new
    by (auto simp: timers_set_timeout [OF tm] carried_def attachFlushTimer_def attachTrailingResyncTimer_def
        split: coalescing.splits trailing_resync.splits)
  moreover from this window_put_protocol [OF others, of "fst ?tr" "[]"]
  have "manager_window X oid [] (put_protocol oid (fst ?tr) ?u)" by simp
  ultimately show ?thesis
    using update_health_closes(1) wf(2)
    by (simp add: applyProtocolEvent_def Let_def shape_def busy_def sub_of_put_protocol)
qed

lemma schedule_run:
  assumes "manager_window X oid [e] s" and "e = ScheduleFlush \<or> (\<exists>d. e = ScheduleTrailingResync d)"
  shows "returns_with (run_call (Suc (Suc n)) env (RunEffect oid e) s)
    (\<lambda>t. manager_window X oid [] t \<and> shape s t \<and> mg_connection t = mg_connection s \<and> busy t oid = busy s oid)"
  using assms(2)
proof
  assume "e = ScheduleFlush"
  then show ?thesis using attach_run [OF assms(1), of "FlushTimer oid"]
    by (auto simp add: runProtocolEffect_def)
next
  assume "\<exists>d. e = ScheduleTrailingResync d"
  then show ?thesis using attach_run [OF assms(1), of "TrailingTimer oid"]
    by (auto simp add: runProtocolEffect_def)
qed

section \<open>Running an event\<close>

declare run_call.simps(2) [simp del]

lemma run_call_cases:
  "run_call (Suc n) env (ApplyEvent oid event) s = applyProtocolEvent (run_call n env) oid event s"
  "run_call (Suc n) env (RunEffect oid effect) s = runProtocolEffect (run_call n env) env oid effect s"
  "run_call (Suc n) env (Resync oid reason force err) s = resyncSubscription (run_call n env) env oid reason force err s"
  "run_call (Suc n) env (Subscribe oid) s = subscribe_stream (run_call n env) env oid s"
  "run_call (Suc n) env (Connect cid) s = connect (run_call n env) env cid s"
  "run_call (Suc n) env (ConnectionFailed cid message) s = handleError (run_call n env) cid message s"
  "run_call (Suc n) env (ConnectionError message) s = handleConnectionError (run_call n env) message s"
  by (simp_all add: run_call.simps(2))

lemma plain_or:
  "plain e \<or> e = ScheduleFlush \<or> (\<exists>d. e = ScheduleTrailingResync d) \<or> calls_back e"
  by (cases e) auto

text \<open>The interface a running event relies on: with enough fuel a subscription returns and keeps the invariant, under a
  condition \<open>C\<close> on the manager's connection.\<close>

locale subscribe_contract =
  fixes N :: nat
    and C :: "'p stream_manager \<Rightarrow> bool"
    and env :: call_env
  assumes C_connection: "C s \<Longrightarrow> mg_connection t = mg_connection s \<Longrightarrow> C t"
    and subscribe: "N \<le> n \<Longrightarrow> manager_inv X s \<Longrightarrow> C s \<Longrightarrow> oid < length (mg_objects s) \<Longrightarrow>
      returns_with (run_call n env (Subscribe oid) s) (keeps_inv C X s)"
begin

lemma effects_run:
  assumes "manager_window X oid es s" and "script es" and "C s" and "2 \<le> n"
    and "\<And>e t. e \<in> set es \<Longrightarrow> calls_back e \<Longrightarrow> manager_inv (insert oid X) t \<Longrightarrow> C t \<Longrightarrow> oid < length (mg_objects t) \<Longrightarrow>
      returns_with (run_call n env (RunEffect oid e) t) (keeps_inv C (insert oid X) t)"
    and "\<exists>e \<in> set es. calls_back e \<Longrightarrow> \<not> busy s oid"
  shows "returns_with (for_each (\<lambda>e. run_call n env (RunEffect oid e)) es s)
    (\<lambda>t. manager_window X oid [] t \<and> C t \<and> shape s t \<and> (\<not> busy s oid \<longrightarrow> \<not> busy t oid))"
  using assms
proof (induction es arbitrary: s)
  case Nil
  then show ?case by simp
next
  case (Cons e es)
  obtain m where m: "n = Suc (Suc m)" using Cons.prems(4) by (metis add_2_eq_Suc less_eqE)
  let ?Q = "\<lambda>t. manager_window X oid es t \<and> C t \<and> shape s t \<and> (\<not> busy s oid \<longrightarrow> \<not> busy t oid)"
  have step: "returns_with (run_call n env (RunEffect oid e) s) ?Q"
  proof (cases "plain e")
    case True
    have "returns_with (run_call n env (RunEffect oid e) s)
        (\<lambda>t. manager_window X oid es t \<and> shape s t \<and> mg_connection t = mg_connection s \<and> sub_of t = sub_of s)"
      unfolding m by (rule plain_run [OF True Cons.prems(1)])
    then show ?thesis
      by (rule returns_with_mono) (use Cons.prems(3) C_connection in \<open>auto simp: busy_def\<close>)
  next
    case False
    then have es: "es = []" using Cons.prems(2) by (auto simp: script_def split: if_splits)
    show ?thesis
    proof (cases "calls_back e")
      case True
      then have quiet: "\<not> busy s oid" using Cons.prems(6) by auto
      have oid: "oid < length (mg_objects s)" using Cons.prems(1) by (simp add: manager_window_def)
      have "manager_window X oid [] s"
        using Cons.prems(1) carried_pop [of _ oid _ e "[]"] True es by (cases e) (auto simp: manager_window_def)
      from inv_of_window [OF this] quiet have "manager_inv (insert oid X) s" by (simp add: busy_def)
      then have "returns_with (run_call n env (RunEffect oid e) s) (keeps_inv C (insert oid X) s)"
        using Cons.prems(5) [OF _ True _ Cons.prems(3) oid] by simp
      then show ?thesis
        unfolding es by (rule returns_with_mono) (use keeps_inv_window oid in blast)
    next
      case False
      then have e: "e = ScheduleFlush \<or> (\<exists>d. e = ScheduleTrailingResync d)" using plain_or \<open>\<not> plain e\<close> by blast
      have "manager_window X oid [e] s" using Cons.prems(1) es by simp
      from schedule_run [OF this e, of m env] show ?thesis
        unfolding m es by (rule returns_with_mono) (use Cons.prems(3) C_connection in auto)
    qed
  qed
  have rest: "script es" using Cons.prems(2) by (cases es) (auto simp: script_def)
  have "returns_with (for_each (\<lambda>e. run_call n env (RunEffect oid e)) es t)
      (\<lambda>u. manager_window X oid [] u \<and> C u \<and> shape s u \<and> (\<not> busy s oid \<longrightarrow> \<not> busy u oid))" if t: "?Q t" for t
  proof -
    have "\<not> busy t oid" if "\<exists>e \<in> set es. calls_back e" using that t Cons.prems(6) by auto
    with t have "returns_with (for_each (\<lambda>e. run_call n env (RunEffect oid e)) es t)
        (\<lambda>u. manager_window X oid [] u \<and> C u \<and> shape t u \<and> (\<not> busy t oid \<longrightarrow> \<not> busy u oid))"
      using rest Cons.prems(4,5) by (intro Cons.IH) auto
    then show ?thesis by (rule returns_with_mono) (use t shape_trans in blast)
  qed
  from returns_with_bind [OF step this] show ?case by simp
qed

lemma apply_run:
  fixes event :: protocol_event and s :: "'p stream_manager" and oid :: nat
  defines "r \<equiv> transitionResourceStreamProtocol (sb_protocol (sub_of s oid)) event"
  assumes "others_ok X oid s" and "carried (map_of (mg_timers s)) oid (fst r) (snd r)" and "script (snd r)" and "C s"
    and "2 \<le> n" and "\<And>e t. e \<in> set (snd r) \<Longrightarrow> calls_back e \<Longrightarrow> manager_inv (insert oid X) t \<Longrightarrow> C t \<Longrightarrow>
      oid < length (mg_objects t) \<Longrightarrow> returns_with (run_call n env (RunEffect oid e) t) (keeps_inv C (insert oid X) t)"
    and "\<exists>e \<in> set (snd r). calls_back e \<Longrightarrow> \<not> is_resyncing (ps_phase (fst r))"
  shows "returns_with (run_call (Suc n) env (ApplyEvent oid event) s)
    (\<lambda>t. manager_window X oid [] t \<and> fresh t oid \<and> C t \<and> shape s t \<and> (\<not> is_resyncing (ps_phase (fst r)) \<longrightarrow> \<not> busy t oid))"
proof -
  let ?u = "put_protocol oid (fst r) s"
  have oid: "oid < length (mg_objects s)" using assms(2) by (simp add: others_ok_def)
  have busy: "busy ?u oid = is_resyncing (ps_phase (fst r))" using oid by (simp add: busy_def sub_of_put_protocol)
  have "returns_with (for_each (\<lambda>e. run_call n env (RunEffect oid e)) (snd r) ?u)
    (\<lambda>t. manager_window X oid [] t \<and> C t \<and> shape ?u t \<and> (\<not> busy ?u oid \<longrightarrow> \<not> busy t oid))"
    using window_put_protocol [OF assms(2,3)] assms(4-8) C_connection [OF assms(5), of ?u] busy
    by (intro effects_run) auto
  then show ?thesis
    unfolding run_call_cases applyProtocolEvent_def r_def [symmetric] Let_def
    by (intro returns_with_map, elim returns_with_mono)
      (use update_health_closes C_connection in \<open>auto simp: busy shape_def\<close>, simp_all add: busy_def)
qed

lemma send_subscribe_run:
  assumes "N < n" and "manager_inv X s" and "C s" and "oid < length (mg_objects s)"
  shows "returns_with (run_call n env (RunEffect oid SendSubscribe) s) (keeps_inv C X s)"
  using assms subscribe [of "n - 1" X s oid] by (cases n) (simp_all add: run_call_cases runProtocolEffect_def)

lemma completed_effects:
  "calls_back e \<Longrightarrow> e \<in> set (snd (transitionResourceStreamProtocol p ResyncCompleted)) \<Longrightarrow> e = SendSubscribe"
  by (auto simp: completeResync_def split: protocol_phase.splits)

lemma resync_completed_run:
  assumes "N + 1 < n" and "2 < n" and "manager_window X oid [] s" and "C s"
  shows "returns_with (run_call n env (ApplyEvent oid ResyncCompleted) s) (keeps_inv C (X - {oid}) s)"
proof -
  obtain m where m: "n = Suc m" using assms(1) by (cases n) auto
  have w: "others_ok X oid s" "carried (map_of (mg_timers s)) oid (sb_protocol (sub_of s oid)) []"
    using assms(3) by (simp_all add: window_iff)
  have "returns_with (run_call (Suc m) env (ApplyEvent oid ResyncCompleted) s)
    (\<lambda>t. manager_window X oid [] t \<and> fresh t oid \<and> C t \<and> shape s t \<and>
      (\<not> is_resyncing (ps_phase (fst (transitionResourceStreamProtocol (sb_protocol (sub_of s oid)) ResyncCompleted))) \<longrightarrow>
        \<not> busy t oid))"
    using transition_carried [OF w(2), of ResyncCompleted] w(1) assms(1,2,4) m completed_quiet
      completed_effects send_subscribe_run
    by (intro apply_run) (simp_all del: transitionResourceStreamProtocol.simps, blast)
  then show ?thesis
    unfolding m by (rule returns_with_mono) (use settled_inv completed_quiet in \<open>auto simp: keeps_inv_def\<close>)
qed

lemma resync_run:
  assumes "N + 2 < n" and "3 < n" and "manager_inv X s" and "C s" and "oid < length (mg_objects s)"
  shows "returns_with (run_call n env (Resync oid reason force err) s) (keeps_inv C X s)"
proof -
  obtain m where m: "n = Suc (Suc m)" using assms(2) by (cases n; cases "n - 1") auto
  let ?p = "sb_protocol (sub_of s oid)" and ?e = "resync_event env reason force err"
  let ?r = "transitionResourceStreamProtocol ?p ?e"
  have w: "others_ok X oid s" "carried (map_of (mg_timers s)) oid ?p []"
    using window_of_inv [OF assms(3,5)] by (simp_all add: window_iff)
  have quiet: "\<not> is_resyncing (ps_phase ?p)" using assms(3,5) by (simp add: manager_inv_def settled_def)
  have none: "\<not> calls_back e" if "e \<in> set (snd ?r)" for e
    using resync_carried [OF w(2)] that by (simp add: resync_event_def)
  have "returns_with (run_call (Suc m) env (ApplyEvent oid ?e) s)
    (\<lambda>t. manager_window X oid [] t \<and> fresh t oid \<and> C t \<and> shape s t \<and> (\<not> is_resyncing (ps_phase (fst ?r)) \<longrightarrow> \<not> busy t oid))"
    using transition_carried [OF w(2), of ?e] w(1) assms(2,4) m none
    by (intro apply_run) (auto simp: resync_event_def)
  moreover have "returns_with (if fst ?r = ?p \<or> \<not> is_resyncing (ps_phase (fst ?r)) then Some t
      else run_call (Suc m) env (ApplyEvent oid ResyncCompleted) (recordResync env oid reason t)) (keeps_inv C X s)"
    if t: "manager_window X oid [] t \<and> fresh t oid \<and> C t \<and> shape s t \<and> (\<not> is_resyncing (ps_phase (fst ?r)) \<longrightarrow> \<not> busy t oid)"
    for t
  proof (cases "fst ?r = ?p \<or> \<not> is_resyncing (ps_phase (fst ?r))")
    case True
    then have "\<not> busy t oid" using t quiet by auto
    with t settled_inv [of X oid t] have "manager_inv X t" by (blast intro: manager_inv_mono)
    with True t show ?thesis by (simp add: keeps_inv_def)
  next
    case False
    let ?u = "recordResync env oid reason t"
    have "manager_window X oid [] ?u"
      by (rule window_cong [of X oid "[]" t]) (use t in \<open>simp_all add: manager_window_def manager_wf_def\<close>)
    moreover have "C ?u" using t C_connection [of t ?u] core_recordResync [of env oid reason t] by (simp add: core_def)
    ultimately have "returns_with (run_call (Suc m) env (ApplyEvent oid ResyncCompleted) ?u) (keeps_inv C (X - {oid}) ?u)"
      using assms(1,2) m by (intro resync_completed_run) auto
    then have "returns_with (run_call (Suc m) env (ApplyEvent oid ResyncCompleted) ?u) (keeps_inv C X s)"
      by (rule returns_with_mono, elim keeps_inv_mono)
        (use t shape_core [OF core_recordResync, of t env oid reason] shape_trans in blast)+
    with False show ?thesis by simp
  qed
  ultimately have "returns_with (case run_call (Suc m) env (ApplyEvent oid ?e) s of None \<Rightarrow> None
      | Some t \<Rightarrow> if fst ?r = ?p \<or> \<not> is_resyncing (ps_phase (fst ?r)) then Some t
          else run_call (Suc m) env (ApplyEvent oid ResyncCompleted) (recordResync env oid reason t)) (keeps_inv C X s)"
    by (rule returns_with_bind)
  with assms(3,4) show ?thesis
    unfolding m run_call_cases(3) resyncSubscription_def Let_def by (simp add: keeps_inv_def)
qed

text \<open>Every event that neither attaches a timer nor asks for the resync itself settles its subscription.\<close>

lemma event_run:
  fixes event :: protocol_event and s :: "'p stream_manager" and oid :: nat
  defines "r \<equiv> transitionResourceStreamProtocol (sb_protocol (sub_of s oid)) event"
  assumes "N + 4 < n" and "5 < n" and "others_ok X oid s" and "carried (map_of (mg_timers s)) oid (fst r) (snd r)"
    and "script (snd r)" and "C s" and "\<not> is_resyncing (ps_phase (fst r))"
  shows "returns_with (run_call n env (ApplyEvent oid event) s) (keeps_inv C (X - {oid}) s)"
proof -
  obtain m where m: "n = Suc m" using assms(2) by (cases n) auto
  have call: "returns_with (run_call m env (RunEffect oid e) t) (keeps_inv C (insert oid X) t)"
    if e: "calls_back e" and t: "manager_inv (insert oid X) t" "C t" "oid < length (mg_objects t)" for e t
  proof (cases e)
    case (RequestResync reason force err)
    obtain k where k: "m = Suc k" using assms(3) m by (cases m) auto
    show ?thesis
      unfolding RequestResync k run_call_cases runProtocolEffect_def protocol_effect.case
      by (rule resync_run) (use t assms(2,3) m k in simp_all)
  next
    case SendSubscribe
    then show ?thesis using t assms(2) m by (simp add: send_subscribe_run)
  qed (use e in simp_all)
  have "returns_with (run_call (Suc m) env (ApplyEvent oid event) s)
    (\<lambda>t. manager_window X oid [] t \<and> fresh t oid \<and> C t \<and> shape s t \<and> (\<not> is_resyncing (ps_phase (fst r)) \<longrightarrow> \<not> busy t oid))"
    unfolding r_def by (rule apply_run) (use assms m call in \<open>simp_all add: r_def\<close>)
  then show ?thesis
    unfolding m by (rule returns_with_mono) (use settled_inv assms(8) in \<open>auto simp: keeps_inv_def\<close>)
qed

lemma quiet_event_run:
  assumes "N + 4 < n" and "5 < n" and "manager_inv X s" and "oid < length (mg_objects s)" and "C s"
    and "\<not> attaches event" and "\<not> asks_resync event"
  shows "returns_with (run_call n env (ApplyEvent oid event) s) (keeps_inv C (X - {oid}) s)"
proof -
  have w: "carried (map_of (mg_timers s)) oid (sb_protocol (sub_of s oid)) []"
      "\<not> is_resyncing (ps_phase (sb_protocol (sub_of s oid)))"
    using assms(3,4) by (simp_all add: manager_inv_def settled_def)
  show ?thesis
    by (rule event_run [OF assms(1,2) others_of_inv [OF assms(3,4)]])
      (use transition_carried [OF w(1) assms(6)] transition_quiet [OF w(2) assms(7)] assms(5) in simp_all)
qed

lemma connection_error_run:
  assumes "N + 5 < n" and "6 < n" and "manager_inv X s" and "C s"
  shows "returns_with (run_call n env (ConnectionError message) s) (keeps_inv C {} s)"
proof -
  obtain m where m: "n = Suc m" using assms(1) by (cases n) auto
  let ?u = "markConnectionError message s"
  have u: "manager_inv {} ?u" "mg_objects ?u = mg_objects s" "mg_table ?u = mg_table s" "C ?u"
    using markConnectionError_inv [OF assms(3), of message] C_connection [OF assms(4), of ?u] by simp_all
  have conns: "mg_connections ?u = mg_connections s" "mg_pending ?u = mg_pending s"
    by (simp_all add: markConnectionError_def updateAllHealth_def update_all_connections)
  have ok: "table_ok s" using assms(3) by (simp add: manager_inv_def manager_wf_def)
  have "returns_with (for_each (\<lambda>oid. run_call m env (ApplyEvent oid (ConnectionLost message))) (table_values s) ?u)
      (keeps_inv C {} s)"
  proof (rule for_each_returns)
    fix oid t assume o: "oid \<in> set (table_values s)" and t: "keeps_inv C {} s t"
    have "oid < length (mg_objects t)" using table_value_range [OF ok o] t by (simp add: keeps_inv_def shape_def)
    then have "returns_with (run_call m env (ApplyEvent oid (ConnectionLost message)) t) (keeps_inv C ({} - {oid}) t)"
      using t assms(1,2) m by (intro quiet_event_run) (simp_all add: keeps_inv_def)
    then show "returns_with (run_call m env (ApplyEvent oid (ConnectionLost message)) t) (keeps_inv C {} s)"
      by (rule returns_with_mono) (use t shape_trans in \<open>auto simp: keeps_inv_def\<close>)
  qed (use u conns in \<open>simp add: keeps_inv_def shape_def\<close>)
  then show ?thesis unfolding m run_call_cases handleConnectionError_def .
qed

lemma schedule_reconnect_inv:
  assumes "keeps_inv C X s t" and "cid < length (mg_connections s)"
  shows "keeps_inv C X s (scheduleReconnect cid t)"
proof -
  have "cid < length (mg_connections t)" "conn_wf t"
    using assms inv_conn_wf by (auto simp: keeps_inv_def shape_def)
  from scheduleReconnect_keeps [OF this(2,1)] assms(1) conn_change_inv [of X t] C_connection [of t]
  show ?thesis by (auto simp: keeps_inv_def shape_def conn_wf_def conn_change_def)
qed

lemma connection_failed_run:
  assumes "N + 6 < n" and "7 < n" and "manager_inv X s" and "C s" and "cid < length (mg_connections s)"
  shows "returns_with (run_call n env (ConnectionFailed cid message) s) (keeps_inv C X s)"
proof -
  obtain m where m: "n = Suc m" using assms(1) by (cases n) auto
  have c: "returns_with (run_call m env (ConnectionError message) s) (keeps_inv C {} s)"
    by (rule connection_error_run) (use assms m in simp_all)
  have "returns_with (map_option (scheduleReconnect cid) (run_call m env (ConnectionError message) s)) (keeps_inv C X s)"
    by (intro returns_with_map, rule returns_with_mono [OF c],
        rule schedule_reconnect_inv [OF keeps_inv_mono [OF _ shape_refl empty_subsetI] assms(5)])
  then show ?thesis
    using assms(3,4) by (simp add: m run_call_cases handleError_def keeps_inv_def)
qed

lemma connect_run:
  assumes "N + 7 < n" and "8 < n" and "manager_inv X s" and "C s" and "cid < length (mg_connections s)"
  shows "returns_with (run_call n env (Connect cid) s) (keeps_inv C X s)"
proof -
  obtain m where m: "n = Suc m" using assms(1) by (cases n) auto
  have "keeps_inv C X s (open_socket cid s)"
    using open_socket_keeps [OF inv_conn_wf [OF assms(3)] assms(5)] conn_change_inv [OF assms(3)]
      C_connection [OF assms(4)] by (auto simp: keeps_inv_def shape_def conn_wf_def conn_change_def)
  moreover have "returns_with (map_option (scheduleReconnect cid) (run_call m env (ConnectionFailed cid message) s))
      (keeps_inv C X s)" for message
    by (intro returns_with_map, rule returns_with_mono [OF connection_failed_run [of m X s cid message]])
      (use assms m schedule_reconnect_inv in auto)
  ultimately show ?thesis
    using assms(3,4) by (simp add: m run_call_cases connect_def keeps_inv_def split: option.split)
qed

end

section \<open>The two levels\<close>

definition has_connection :: "'p stream_manager \<Rightarrow> bool" where
  "has_connection s \<longleftrightarrow> mg_connection s \<noteq> None"

lemma subscribe_sent_run:
  assumes "manager_inv X s" and "oid < length (mg_objects s)"
  shows "returns_with (run_call (Suc n) env (ApplyEvent oid (SubscribeSent b)) s)
    (\<lambda>t. manager_inv X t \<and> shape s t \<and> mg_connection t = mg_connection s)"
proof -
  let ?p = "sb_protocol (sub_of s oid)" and ?e = "SubscribeSent b"
  let ?u = "put_protocol oid (fst (transitionResourceStreamProtocol ?p ?e)) s"
  have none: "snd (transitionResourceStreamProtocol ?p ?e) = []" by (simp add: subscribeSent_def)
  have w: "carried (map_of (mg_timers s)) oid ?p []" "\<not> is_resyncing (ps_phase ?p)"
    using assms by (simp_all add: manager_inv_def settled_def)
  have "manager_window X oid [] ?u"
    using window_put_protocol [OF others_of_inv [OF assms]] transition_carried [OF w(1), of ?e] none by simp
  moreover have "\<not> busy ?u oid"
    using transition_quiet [OF w(2), of ?e] assms(2) by (simp add: busy_def sub_of_put_protocol)
  ultimately have "manager_inv (X - {oid}) (updateHealthForSubscription oid ?u)"
    using settled_inv [of X oid "updateHealthForSubscription oid ?u"] update_health_closes [of X oid ?u]
    by (simp add: busy_def)
  then show ?thesis
    using manager_inv_mono [of "X - {oid}"] none
    by (auto simp: run_call_cases applyProtocolEvent_def Let_def shape_def)
qed

text \<open>Sending a request over a connection that is there.\<close>

lemma request_run:
  assumes "manager_inv X s" and "oid < length (mg_objects s)" and "cid < length (mg_connections s)"
  shows "returns_with (run_call (Suc n) env (ApplyEvent oid (SubscribeSent b)) (send env cid m s))
    (\<lambda>t. manager_inv X t \<and> shape s t \<and> mg_connection t = mg_connection s)"
proof -
  let ?u = "send env cid m s"
  have u: "manager_inv X ?u" "conn_change s ?u" "mg_connection ?u = mg_connection s"
    using send_keeps [OF inv_conn_wf [OF assms(1)] assms(3), of env m] conn_change_inv [OF assms(1)]
    by (auto simp: conn_wf_def)
  then have "oid < length (mg_objects ?u)" using assms(2) by (simp add: conn_change_def)
  from subscribe_sent_run [OF u(1) this, of n env b] show ?thesis
    by (rule returns_with_mono) (use u in \<open>auto simp: shape_def conn_change_def\<close>)
qed

lemma subscribe_connected:
  assumes "2 \<le> n" and "manager_inv X s" and "has_connection s" and "oid < length (mg_objects s)"
  shows "returns_with (run_call n env (Subscribe oid) s) (keeps_inv has_connection X s)"
proof -
  obtain m where m: "n = Suc (Suc m)" using assms(1) by (metis add_2_eq_Suc less_eqE)
  obtain cid where cid: "mg_connection s = Some cid" using assms(3) by (auto simp: has_connection_def)
  then have "cid < length (mg_connections s)" using assms(2) by (simp add: manager_inv_def manager_wf_def conns_ok_def)
  note request = request_run [OF assms(2,4) this]
  show ?thesis
    unfolding m run_call_cases(4) subscribe_stream_def getConnection_def
    using returns_with_mono [OF request] assms(2,3) cid
    by (auto simp: keeps_inv_def has_connection_def Let_def)
qed

interpretation connected: subscribe_contract 2 has_connection env for env
  by unfold_locales (auto simp: has_connection_def intro: subscribe_connected)

lemma open_connection_run:
  assumes "10 \<le> n" and "manager_inv X s" and "mg_connection s = None"
  shows "returns_with (run_call n env (Connect (length (mg_connections s))) (add_connection s))
    (\<lambda>t. manager_inv X t \<and> has_connection t \<and> shape s t \<and> length (mg_connections s) < length (mg_connections t))"
proof -
  let ?u = "add_connection s"
  have u: "manager_inv X ?u" "conn_change s ?u"
    using add_connection_keeps [OF inv_conn_wf [OF assms(2)]] conn_change_inv [OF assms(2)] by (auto simp: conn_wf_def)
  have len: "length (mg_connections ?u) = Suc (length (mg_connections s))" "has_connection ?u"
    by (simp_all add: add_connection_def has_connection_def)
  have "returns_with (run_call n env (Connect (length (mg_connections s))) ?u) (keeps_inv has_connection X ?u)"
    using assms(1) u len by (intro connected.connect_run) simp_all
  then show ?thesis
    by (rule returns_with_mono) (use u len in \<open>auto simp: keeps_inv_def shape_def conn_change_def\<close>)
qed

lemma subscribe_any:
  assumes "11 \<le> n" and "manager_inv X s" and "oid < length (mg_objects s)"
  shows "returns_with (run_call n env (Subscribe oid) s) (keeps_inv (\<lambda>_. True) X s)"
proof (cases "mg_connection s")
  case (Some cid)
  then have "returns_with (run_call n env (Subscribe oid) s) (keeps_inv has_connection X s)"
    using assms by (intro subscribe_connected) (auto simp: has_connection_def)
  then show ?thesis by (rule returns_with_mono) (simp add: keeps_inv_def)
next
  case None
  obtain m where m: "n = Suc (Suc m)" using assms(1) by (cases n; cases "n - 1") auto
  let ?cid = "length (mg_connections s)"
  have c: "returns_with (run_call (Suc m) env (Connect ?cid) (add_connection s))
      (\<lambda>t. manager_inv X t \<and> has_connection t \<and> shape s t \<and> ?cid < length (mg_connections t))"
    using assms(1) m by (intro open_connection_run [OF _ assms(2) None]) simp
  have "returns_with (case run_call (Suc m) env (Connect ?cid) (add_connection s) of None \<Rightarrow> None
      | Some t \<Rightarrow> run_call (Suc m) env
          (ApplyEvent oid (SubscribeSent (big_int_token (ps_last_sequence (sb_protocol (sub_of t oid))) = None)))
          (send env ?cid (buildRequestMessage (sub_of t oid)) t)) (keeps_inv (\<lambda>_. True) X s)"
  proof (rule returns_with_bind [OF c])
    fix t assume t: "manager_inv X t \<and> has_connection t \<and> shape s t \<and> ?cid < length (mg_connections t)"
    then have "oid < length (mg_objects t)" using assms(3) by (simp add: shape_def)
    from request_run [OF _ this, of X ?cid m env] t
    show "returns_with (run_call (Suc m) env
          (ApplyEvent oid (SubscribeSent (big_int_token (ps_last_sequence (sb_protocol (sub_of t oid))) = None)))
          (send env ?cid (buildRequestMessage (sub_of t oid)) t)) (keeps_inv (\<lambda>_. True) X s)"
      by (elim conjE) (rule returns_with_mono, assumption+, auto simp: keeps_inv_def intro: shape_trans)
  qed
  then show ?thesis
    unfolding m run_call_cases(4) subscribe_stream_def getConnection_def None
    using assms(2)
    by (cases "run_call (Suc m) env (Connect ?cid) (add_connection s)") (auto simp: keeps_inv_def Let_def)
qed

interpretation calls: subscribe_contract 11 "\<lambda>_. True" env for env
  by unfold_locales (auto intro: subscribe_any)

end
