(* ===== verification/Stream_Manager_Ops.thy ===== *)
theory Stream_Manager_Ops
  imports Stream_Manager_Calls
begin

text \<open>
  Every operation of the manager returns and keeps its invariant. The operations that change the table of
  subscriptions are treated by what they do to one key; the rest follows from the calls.
\<close>

section \<open>Changing one object\<close>

text \<open>Replacing an object by one with the same identity.\<close>

lemma sub_of_put_sub:
  "oid < length (mg_objects s) \<Longrightarrow> sub_of (put_sub oid sub s) o' = (if o' = oid then sub else sub_of s o')"
  by (simp add: put_sub_def sub_of_def nth_list_update)

lemma put_sub_fields [simp]:
  "mg_table (put_sub oid sub s) = mg_table s" "mg_pending (put_sub oid sub s) = mg_pending s"
  "mg_timers (put_sub oid sub s) = mg_timers s" "mg_next_timer (put_sub oid sub s) = mg_next_timer s"
  "mg_connections (put_sub oid sub s) = mg_connections s" "mg_connection (put_sub oid sub s) = mg_connection s"
  "mg_sockets (put_sub oid sub s) = mg_sockets s" "mg_health (put_sub oid sub s) = mg_health s"
  "mg_store (put_sub oid sub s) = mg_store s" "conn_of (put_sub oid sub s) = conn_of s"
  "length (mg_objects (put_sub oid sub s)) = length (mg_objects s)"
  "mg_connected (put_sub oid sub s) = mg_connected s" "mg_last_error (put_sub oid sub s) = mg_last_error s"
  by (simp_all add: put_sub_def conn_of_def fun_eq_iff)

definition same_identity :: "stream_subscription \<Rightarrow> stream_subscription \<Rightarrow> bool" where
  "same_identity a b \<longleftrightarrow> sb_key a = sb_key b \<and> sb_domain a = sb_domain b \<and> sb_store_scope a = sb_store_scope b \<and>
     sb_normalized_scope a = sb_normalized_scope b \<and> sb_cluster a = sb_cluster b"

lemma pending_owner:
  assumes "manager_wf s" and "map_of (mg_pending s) k = Some t"
  obtains oid reset where "map_of (mg_timers s) t = Some (UnsubscribeTimer oid reset)"
    and "map_of (mg_table s) k = Some oid" and "\<not> sb_leased (sub_of s oid)"
  using assms unfolding manager_wf_def pending_ok_def by blast

lemma inv_wf: "manager_inv X s \<Longrightarrow> manager_wf s"
  by (simp add: manager_inv_def)

lemma put_sub_inv:
  assumes "manager_inv X s" and "oid < length (mg_objects s)" and "same_identity sub (sub_of s oid)"
    and "sb_protocol sub = sb_protocol (sub_of s oid)"
    and "sb_leased sub \<Longrightarrow> map_of (mg_pending s) (sb_key sub) = None"
  shows "manager_inv (insert oid X) (put_sub oid sub s)"
proof -
  let ?t = "put_sub oid sub s"
  note sub = sub_of_put_sub [OF assms(2)]
  have wf: "manager_wf s" and ok: "table_ok s" using assms(1) by (auto simp: manager_inv_def manager_wf_def)
  have key: "sb_key (sub_of ?t o') = sb_key (sub_of s o')" for o'
    using assms(3) by (simp add: sub same_identity_def)
  have "\<forall>x \<in> set (mg_objects ?t). sub_ok x"
    unfolding put_sub_def using ok assms(2,3)
    by (simp, intro objects_ok_update) (auto simp: table_ok_def sub_of_def same_identity_def sub_ok_def)
  then have "table_ok ?t" using ok key by (simp add: table_ok_def)
  moreover have "action_ok ?t t a = action_ok s t a" for t a by (cases a) (simp_all add: key)
  moreover have "pending_ok ?t"
    unfolding pending_ok_def put_sub_fields
  proof (intro allI impI)
    fix k t assume k: "map_of (mg_pending s) k = Some t"
    then obtain o' reset where o': "map_of (mg_timers s) t = Some (UnsubscribeTimer o' reset)"
        "map_of (mg_table s) k = Some o'" "\<not> sb_leased (sub_of s o')"
      using pending_owner [OF wf] by blast
    then have "\<not> sb_leased (sub_of ?t o')"
      using assms(3,5) k table_lookup_key [OF ok o'(2)] by (auto simp: sub same_identity_def)
    with o' show "\<exists>oid reset. map_of (mg_timers s) t = Some (UnsubscribeTimer oid reset) \<and>
        map_of (mg_table s) k = Some oid \<and> \<not> sb_leased (sub_of ?t oid)" by blast
  qed
  ultimately have "manager_wf ?t" using wf by (simp add: manager_wf_def timers_ok_def conns_ok_def)
  moreover have "settled s o' \<Longrightarrow> settled ?t o'" for o'
    using assms(4) by (auto simp: settled_def sub)
  moreover have "fresh ?t o'" if "fresh s o'" "o' \<noteq> oid" for o'
  proof -
    have "aggregateHealth ?t (sb_domain (sub_of s o')) (sb_store_scope (sub_of s o')) =
        aggregateHealth s (sb_domain (sub_of s o')) (sb_store_scope (sub_of s o'))"
      if "map_of (mg_table s) k = Some o'" for k
      by (rule aggregate_other [OF ok _ _ _ _ that \<open>o' \<noteq> oid\<close>])
        (use assms(3) in \<open>simp_all add: sub same_identity_def\<close>)
    with that show ?thesis by (auto simp: fresh_def Let_def sub)
  qed
  ultimately show ?thesis using assms(1) by (auto simp: manager_inv_def)
qed

lemma fresh_unleased: "\<not> sb_leased (sub_of s oid) \<Longrightarrow> fresh s oid"
  by (simp add: fresh_def Let_def)

lemma fresh_unlisted: "map_of (mg_table s) (sb_key (sub_of s oid)) \<noteq> Some oid \<Longrightarrow> fresh s oid"
  by (simp add: fresh_def Let_def)

lemma inv_drop: "manager_inv (insert oid X) s \<Longrightarrow> fresh s oid \<Longrightarrow> manager_inv X s"
  by (auto simp: manager_inv_def)

section \<open>Pending unsubscribes\<close>

lemma drop_timer_inv:
  assumes "manager_inv X s" and "map_of (mg_timers s) t = Some (UnsubscribeTimer oid reset)"
    and "k = sb_key (sub_of s oid)"
  shows "manager_inv X ((clear_timeout t s)\<lparr>mg_pending := AList.delete k (mg_pending s)\<rparr>)"
    (is "manager_inv X ?u")
proof -
  have wf: "manager_wf s" using assms(1) by (simp add: manager_inv_def)
  then have pend: "map_of (mg_pending s) k = Some t"
    using assms(2,3) unfolding manager_wf_def timers_ok_def by (metis action_ok.simps(3))
  have sub [simp]: "sub_of ?u = sub_of s" "conn_of ?u = conn_of s"
    by (simp_all add: sub_of_def conn_of_def clear_timeout_def fun_eq_iff)
  have timers: "map_of (mg_timers ?u) = (map_of (mg_timers s))(t := None)" by (simp add: clear_timeout_def map_of_delete)
  have "distinct (map fst (mg_timers ?u))" "\<forall>t' \<in> fst ` set (mg_timers ?u). t' < mg_next_timer ?u"
    using wf by (auto simp: manager_wf_def timers_ok_def distinct_delete clear_timeout_def delete_fst_set)
  moreover have "action_ok ?u t' a" if "map_of (mg_timers ?u) t' = Some a" for t' a
  proof -
    have a: "t' \<noteq> t" "action_ok s t' a" using that wf by (auto simp: timers manager_wf_def timers_ok_def split: if_splits)
    then show ?thesis using pend by (cases a) (auto simp: map_of_delete)
  qed
  ultimately have "timers_ok ?u" by (simp add: timers_ok_def)
  moreover have "pending_ok ?u"
    using wf pend assms(2) unfolding manager_wf_def pending_ok_def
    by (auto simp: timers map_of_delete) (metis option.inject timer_action.inject(3) wf wf_table table_lookup_key assms(3))
  moreover have "conns_ok ?u"
    using wf assms(2) unfolding manager_wf_def conns_ok_def by (auto simp: timers)
  ultimately have "manager_wf ?u" using wf by (simp add: manager_wf_def table_ok_def)
  moreover have "settled s o' \<Longrightarrow> settled ?u o'" for o'
    unfolding settled_def timers sub by (auto elim!: carried_timers simp: assms(2))
  moreover have "fresh ?u o' = fresh s o'" for o'
    using aggregateHealth_cong [of ?u s] by (simp add: fresh_def)
  ultimately show ?thesis using assms(1) by (simp add: manager_inv_def)
qed

lemma cancel_pending_inv:
  assumes "manager_inv X s" and "oid < length (mg_objects s)"
  shows "manager_inv X (cancelPendingUnsubscribe oid s) \<and>
    map_of (mg_pending (cancelPendingUnsubscribe oid s)) (sb_key (sub_of s oid)) = None \<and>
    mg_objects (cancelPendingUnsubscribe oid s) = mg_objects s \<and> mg_table (cancelPendingUnsubscribe oid s) = mg_table s"
proof (cases "map_of (mg_pending s) (sb_key (sub_of s oid))")
  case None
  then show ?thesis using assms by (simp add: cancelPendingUnsubscribe_def)
next
  case (Some t)
  then obtain o' reset where o': "map_of (mg_timers s) t = Some (UnsubscribeTimer o' reset)"
      "map_of (mg_table s) (sb_key (sub_of s oid)) = Some o'"
    using pending_owner [OF inv_wf [OF assms(1)]] by blast
  have "sb_key (sub_of s oid) = sb_key (sub_of s o')"
    using assms(1) table_lookup_key [OF _ o'(2)] by (simp add: manager_inv_def manager_wf_def)
  from drop_timer_inv [OF assms(1) o'(1) this] Some show ?thesis
    by (simp add: cancelPendingUnsubscribe_def map_of_delete)
qed

section \<open>Adding and removing table entries\<close>

lemma new_sub_fields [simp]:
  "mg_pending (new_sub sub s) = mg_pending s" "mg_timers (new_sub sub s) = mg_timers s"
  "mg_next_timer (new_sub sub s) = mg_next_timer s" "mg_connections (new_sub sub s) = mg_connections s"
  "mg_connection (new_sub sub s) = mg_connection s" "mg_sockets (new_sub sub s) = mg_sockets s"
  "mg_health (new_sub sub s) = mg_health s" "mg_store (new_sub sub s) = mg_store s" "conn_of (new_sub sub s) = conn_of s"
  "length (mg_objects (new_sub sub s)) = Suc (length (mg_objects s))"
  "mg_table (new_sub sub s) = AList.update (sb_key sub) (length (mg_objects s)) (mg_table s)"
  "mg_connected (new_sub sub s) = mg_connected s" "mg_last_error (new_sub sub s) = mg_last_error s"
  by (simp_all add: new_sub_def conn_of_def fun_eq_iff)

lemma sub_of_new_sub:
  "sub_of (new_sub sub s) (length (mg_objects s)) = sub"
  "o' < length (mg_objects s) \<Longrightarrow> sub_of (new_sub sub s) o' = sub_of s o'"
  by (simp_all add: sub_of_def new_sub_def nth_append)

lemma scope_subscriptions_filter:
  "scope_subscriptions s d sc =
     map (sub_of s) (filter (\<lambda>v. sb_domain (sub_of s v) = d \<and> sb_leased (sub_of s v) \<and> sb_store_scope (sub_of s v) = sc)
       (table_values s))"
  by (simp add: scope_subscriptions_def filter_map comp_def)

lemma scope_subscriptions_table:
  assumes "\<And>v. v \<in> set (table_values s) \<Longrightarrow> sub_of t v = sub_of s v"
    and "filter (\<lambda>v. sb_domain (sub_of t v) = d \<and> sb_leased (sub_of t v) \<and> sb_store_scope (sub_of t v) = sc) (table_values t) =
      filter (\<lambda>v. sb_domain (sub_of t v) = d \<and> sb_leased (sub_of t v) \<and> sb_store_scope (sub_of t v) = sc) (table_values s)"
  shows "scope_subscriptions t d sc = scope_subscriptions s d sc"
  unfolding scope_subscriptions_filter assms(2) using assms(1) by (auto intro!: map_cong filter_cong)

lemma update_values:
  "distinct (map fst m) \<Longrightarrow> \<not> Q v \<Longrightarrow> (\<And>w. map_of m k = Some w \<Longrightarrow> \<not> Q w) \<Longrightarrow>
     filter Q (map snd (AList.update k v m)) = filter Q (map snd m)"
  by (induction m) auto

lemma delete_values:
  "(\<And>w. (k, w) \<in> set m \<Longrightarrow> \<not> Q w) \<Longrightarrow> filter Q (map snd (AList.delete k m)) = filter Q (map snd m)"
  by (induction m) auto

text \<open>The scope of a listed subscription is not that of an entry under another key.\<close>

lemma other_scope:
  assumes "table_ok s" and "map_of (mg_table s) k' = Some o'" and "k' \<noteq> sb_key sub" and "sub_ok sub"
  shows "\<not> (sb_domain sub = sb_domain (sub_of s o') \<and> sb_store_scope sub = sb_store_scope (sub_of s o'))"
proof -
  have o': "sb_key (sub_of s o') = k'" "sub_ok (sub_of s o')"
    using table_lookup_key [OF assms(1,2)] assms(1) by (auto simp: table_ok_def sub_of_def)
  then show ?thesis using scope_parts [OF assms(4) o'(2)] assms(3) by auto
qed

lemma aggregate_new_sub:
  assumes "table_ok s" and "sub_ok sub" and "map_of (mg_table s) k' = Some o'" and "k' \<noteq> sb_key sub"
  shows "aggregateHealth (new_sub sub s) (sb_domain (sub_of s o')) (sb_store_scope (sub_of s o')) =
    aggregateHealth s (sb_domain (sub_of s o')) (sb_store_scope (sub_of s o'))"
proof (rule aggregateHealth_scope)
  let ?d = "sb_domain (sub_of s o')" and ?sc = "sb_store_scope (sub_of s o')" and ?t = "new_sub sub s"
  define P where "P v \<longleftrightarrow> sb_domain (sub_of ?t v) = ?d \<and> sb_leased (sub_of ?t v) \<and> sb_store_scope (sub_of ?t v) = ?sc" for v
  have new: "\<not> P (length (mg_objects s))"
    using other_scope [OF assms(1,3,4,2)] by (auto simp: P_def sub_of_new_sub)
  have old: "\<not> P w" if w: "map_of (mg_table s) (sb_key sub) = Some w" for w
  proof -
    have "sb_key (sub_of s w) = sb_key sub" "sub_ok (sub_of s w)" "w < length (mg_objects s)"
      using table_lookup_key [OF assms(1) w] assms(1) by (auto simp: table_ok_def sub_of_def)
    with other_scope [OF assms(1,3), of "sub_of s w"] assms(4) show ?thesis by (auto simp: P_def sub_of_new_sub)
  qed
  have "distinct (map fst (mg_table s))" using assms(1) by (simp add: table_ok_def)
  then have "filter P (table_values ?t) = filter P (table_values s)"
    unfolding table_values_def new_sub_fields by (intro update_values new old)
  then show "scope_subscriptions ?t ?d ?sc = scope_subscriptions s ?d ?sc"
    using table_value_range [OF assms(1)] sub_of_new_sub(2)
    by (intro scope_subscriptions_table) (auto simp: P_def [abs_def])
qed simp_all

lemma new_sub_inv:
  assumes "manager_inv X s" and "sub_ok sub" and "sb_protocol sub = initialResourceStreamProtocolState"
    and "map_of (mg_pending s) (sb_key sub) = None"
  shows "manager_inv (insert (length (mg_objects s)) (X - {o'. map_of (mg_table s) (sb_key sub) = Some o'})) (new_sub sub s)"
proof -
  let ?t = "new_sub sub s" and ?n = "length (mg_objects s)"
  have wf: "manager_wf s" and ok: "table_ok s" using assms(1) by (auto simp: manager_inv_def manager_wf_def)
  note old = sub_of_new_sub(2) [of _ s sub]
  have "table_ok ?t"
    using ok assms(2) old
    by (auto simp: table_ok_def distinct_update sub_of_new_sub new_sub_def [of sub s] less_Suc_eq dest!: in_update)
      (auto simp: sub_of_def nth_append)
  moreover have "action_ok ?t t a" if "action_ok s t a" for t a
    using that old by (cases a) auto
  moreover have "pending_ok ?t"
    unfolding pending_ok_def new_sub_fields
  proof (intro allI impI)
    fix k t assume k: "map_of (mg_pending s) k = Some t"
    then obtain o' reset where o': "map_of (mg_timers s) t = Some (UnsubscribeTimer o' reset)"
        "map_of (mg_table s) k = Some o'" "\<not> sb_leased (sub_of s o')"
      using pending_owner [OF wf] by blast
    moreover have "k \<noteq> sb_key sub" using k assms(4) by auto
    ultimately show "\<exists>oid reset. map_of (mg_timers s) t = Some (UnsubscribeTimer oid reset) \<and>
        map_of (AList.update (sb_key sub) ?n (mg_table s)) k = Some oid \<and> \<not> sb_leased (sub_of ?t oid)"
      using table_lookup_key [OF ok o'(2)] old by (auto simp: map_of_update)
  qed
  ultimately have "manager_wf ?t" using wf by (auto simp: manager_wf_def timers_ok_def conns_ok_def)
  moreover have "settled ?t ?n"
    using assms(3) by (simp add: settled_def sub_of_new_sub carried_def initialResourceStreamProtocolState_def)
  moreover have "settled ?t o'" if "o' < ?n" for o'
    using assms(1) that old by (simp add: settled_def manager_inv_def)
  moreover have "fresh ?t o'" if "o' < ?n" "o' \<notin> X \<or> map_of (mg_table s) (sb_key sub) = Some o'" for o'
  proof (cases "map_of (mg_table ?t) (sb_key (sub_of s o')) = Some o'")
    case True
    then have k: "sb_key (sub_of s o') \<noteq> sb_key sub" "map_of (mg_table s) (sb_key (sub_of s o')) = Some o'"
      using that(1) by (auto simp: map_of_update split: if_splits)
    then have "o' \<notin> X" using that(2) table_lookup_key [OF ok, of "sb_key sub" o'] by blast
    then have "fresh s o'" using that(1) assms(1) by (auto simp: manager_inv_def)
    with k aggregate_new_sub [OF ok assms(2) k(2,1)] that(1) old show ?thesis by (simp add: fresh_def Let_def)
  next
    case False
    with that(1) old show ?thesis by (intro fresh_unlisted) simp
  qed
  ultimately show ?thesis by (auto simp: manager_inv_def less_Suc_eq)
qed

text \<open>Removing the entry of a subscription that no pending unsubscribe refers to.\<close>

definition drop_entry :: "string \<Rightarrow> 'p stream_manager \<Rightarrow> 'p stream_manager" where
  "drop_entry k s = s\<lparr>mg_table := AList.delete k (mg_table s)\<rparr>"

lemma drop_entry_fields [simp]:
  "mg_objects (drop_entry k s) = mg_objects s" "mg_table (drop_entry k s) = AList.delete k (mg_table s)"
  "mg_pending (drop_entry k s) = mg_pending s" "mg_timers (drop_entry k s) = mg_timers s"
  "mg_next_timer (drop_entry k s) = mg_next_timer s" "mg_connections (drop_entry k s) = mg_connections s"
  "mg_connection (drop_entry k s) = mg_connection s" "mg_sockets (drop_entry k s) = mg_sockets s"
  "mg_health (drop_entry k s) = mg_health s" "mg_store (drop_entry k s) = mg_store s"
  "sub_of (drop_entry k s) = sub_of s" "conn_of (drop_entry k s) = conn_of s"
  "mg_connected (drop_entry k s) = mg_connected s" "mg_last_error (drop_entry k s) = mg_last_error s"
  by (simp_all add: drop_entry_def sub_of_def conn_of_def fun_eq_iff)

lemma drop_entry_inv:
  assumes "manager_inv X s" and "map_of (mg_pending s) k = None"
  shows "manager_inv X (drop_entry k s)"
proof -
  let ?t = "drop_entry k s"
  have wf: "manager_wf s" and ok: "table_ok s" using assms(1) by (auto simp: manager_inv_def manager_wf_def)
  have "table_ok ?t" using ok by (auto simp: table_ok_def distinct_delete dest!: in_delete)
  moreover have "action_ok ?t t a = action_ok s t a" for t a by (cases a) simp_all
  moreover have "pending_ok ?t"
    using wf assms(2) unfolding manager_wf_def pending_ok_def by (fastforce simp: map_of_delete)
  ultimately have "manager_wf ?t" using wf by (simp add: manager_wf_def timers_ok_def conns_ok_def)
  moreover have "settled ?t o' = settled s o'" for o' by (simp add: settled_def)
  moreover have "fresh ?t o'" if "fresh s o'" for o'
  proof (cases "map_of (mg_table ?t) (sb_key (sub_of s o')) = Some o'")
    case True
    then have o': "sb_key (sub_of s o') \<noteq> k" "map_of (mg_table s) (sb_key (sub_of s o')) = Some o'"
      by (auto simp: map_of_delete split: if_splits)
    have "\<not> (sb_domain (sub_of s w) = sb_domain (sub_of s o') \<and> sb_store_scope (sub_of s w) = sb_store_scope (sub_of s o'))"
      if w: "(k, w) \<in> set (mg_table s)" for w
    proof -
      have "sb_key (sub_of s w) = k" "sub_ok (sub_of s w)" using w ok by (auto simp: table_ok_def sub_of_def)
      with other_scope [OF ok o'(2), of "sub_of s w"] o'(1) show ?thesis by auto
    qed
    then have "scope_subscriptions ?t (sb_domain (sub_of s o')) (sb_store_scope (sub_of s o')) =
        scope_subscriptions s (sb_domain (sub_of s o')) (sb_store_scope (sub_of s o'))"
      by (intro scope_subscriptions_table) (auto simp: table_values_def intro!: delete_values)
    then have "aggregateHealth ?t (sb_domain (sub_of s o')) (sb_store_scope (sub_of s o')) =
        aggregateHealth s (sb_domain (sub_of s o')) (sb_store_scope (sub_of s o'))"
      by (rule aggregateHealth_scope) simp_all
    with o' that show ?thesis by (simp add: fresh_def Let_def)
  qed (simp add: fresh_unlisted)
  ultimately show ?thesis using assms(1) by (auto simp: manager_inv_def)
qed

section \<open>Starting\<close>

lemma cluster_decoder: "selectorDecoders k v = Some Cluster \<Longrightarrow> k = KCluster"
  by (cases k) (auto simp: decodeNamespace_def decodeNode_def decodeWorkload_def decodeObject_def decodeHelmRelease_def
      Let_def split: if_splits list.splits option.splits)

lemma encode_empty: "encodeScopeSelector sel = [] \<Longrightarrow> sel = Cluster"
  by (cases sel) auto

lemma supported_selectors:
  assumes "isSupportedDomain d" and "grammarFor d = Inr g"
  shows "KCluster \<notin> set (selectors g) \<or> selectors g = [KCluster]"
proof -
  have "\<forall>e \<in> set doorbellDomainDescriptors. case grammarFor (fst e) of
      Inl _ \<Rightarrow> True | Inr g \<Rightarrow> KCluster \<notin> set (selectors g) \<or> selectors g = [KCluster]"
    by code_simp
  with assms show ?thesis by (fastforce simp: isSupportedDomain_def dest!: map_of_SomeD)
qed

lemma resolved_scope:
  assumes "resolveResourceStreamSubscriptionScope domain scope = Inr r"
  shows "wf_cluster (us_cluster r)" and "us_store_scope r = us_cluster r @ ''|'' @ us_normalized_scope r"
    and "trim (us_normalized_scope r) = us_normalized_scope r"
    and "isSupportedDomain domain \<Longrightarrow> us_normalized_scope r \<noteq> [] \<or> isClusterScopedDomain domain"
proof -
  obtain decoded where d: "parseRefreshScope domain scope = Inr decoded" "rs_query decoded = ''''"
      "buildRefreshScope domain (rs_cluster decoded) (rs_selector decoded) '''' = Inr (us_store_scope r)"
      "us_cluster r = rs_cluster decoded" "us_normalized_scope r = encodeScopeSelector (rs_selector decoded)"
    using assms
    by (auto simp: resolveResourceStreamSubscriptionScope_def hasOneShotQuery_def split: sum.splits if_splits)
  obtain g c t st where p: "grammarFor domain = Inr g" "parseClusterScope scope = (c, t)" "c \<noteq> ''''"
      "first_selector (selectors g) st = Some (rs_selector decoded)" "rs_cluster decoded = c"
      "splitQuery t (query_mode g) = Inr (st, rs_query decoded)"
    using d(1) by (rule parseRefreshScope_SomeD)
  show cluster: "wf_cluster (us_cluster r)" using wf_cluster_parsed p d(4) by simp
  have sel: "encodeScopeSelector (rs_selector decoded) = st" using first_selector_canonical [OF p(4)] .
  have tail: "encodeTail g (rs_selector decoded) '''' = st"
  proof (cases "query_mode g = QCatalog")
    case True
    then have "rs_selector decoded = Cluster"
      using grammarFor_catalog [OF p(1)] p(4) by (auto split: if_splits)
    then show ?thesis using sel by (simp add: encodeTail_def)
  qed (simp add: encodeTail_def sel)
  show "us_store_scope r = us_cluster r @ ''|'' @ us_normalized_scope r"
    using cluster d p(1) tail sel by (auto simp: buildRefreshScope_def wf_cluster_def Let_def split: sum.splits if_splits)
  have "encodeTail g (rs_selector decoded) '''' = t"
    using splitQuery_canonical [OF p(6)] sel d(2) by simp
  with tail sel d(5) parseClusterScope_parts(2) [OF p(2,3)] show "trim (us_normalized_scope r) = us_normalized_scope r" by simp
  assume "isSupportedDomain domain"
  then have "KCluster \<notin> set (selectors g) \<or> selectors g = [KCluster]" using supported_selectors p(1) by blast
  then show "us_normalized_scope r \<noteq> [] \<or> isClusterScopedDomain domain"
  proof
    assume "KCluster \<notin> set (selectors g)"
    then have "rs_selector decoded \<noteq> Cluster" using first_selector_SomeD [OF p(4)] by (auto dest!: cluster_decoder)
    then show ?thesis using d(5) encode_empty by auto
  next
    assume "selectors g = [KCluster]"
    then show ?thesis using p(1) by (simp add: isClusterScopedDomain_def domainScopeSelectors_def)
  qed
qed

lemma ensure_resolved_inv:
  assumes "manager_inv {} s" and "isSupportedDomain domain"
    and "resolveResourceStreamSubscriptionScope domain scope = Inr r" and "ensureResolved domain r s = (t, oid)"
  shows "manager_inv {oid} t \<and> oid < length (mg_objects t)"
proof -
  let ?k = "resourceStreamSubscriptionKey (us_cluster r) domain (us_normalized_scope r)"
  note scope = resolved_scope [OF assms(3)]
  have ok: "table_ok s" using assms(1) by (simp add: manager_inv_def manager_wf_def)
  show ?thesis
  proof (cases "map_of (mg_table s) ?k")
    case None
    have pend: "map_of (mg_pending s) ?k = None"
      using inv_wf [OF assms(1)] None unfolding manager_wf_def pending_ok_def by (metis not_None_eq)
    show ?thesis
      using assms(2,4) None new_sub_inv [OF assms(1), of "\<lparr>sb_key = ?k, sb_domain = domain, sb_store_scope = us_store_scope r,
          sb_leased = True, sb_normalized_scope = us_normalized_scope r, sb_cluster = us_cluster r,
          sb_cluster_name = None, sb_protocol = initialResourceStreamProtocolState\<rparr>"] pend scope
      by (auto simp: ensureResolved_def Let_def sub_ok_def)
  next
    case (Some o')
    have o': "sb_key (sub_of s o') = ?k" "o' < length (mg_objects s)" using table_lookup_key [OF ok Some] by auto
    let ?sub = "(sub_of s o')\<lparr>sb_leased := True\<rparr>"
    let ?s1 = "cancelPendingUnsubscribe o' (put_sub o' ?sub s)"
    let ?c = "cancelPendingUnsubscribe o' s"
    have swap: "?s1 = put_sub o' ?sub ?c"
      using o' by (cases "map_of (mg_pending s) ?k")
        (simp_all add: cancelPendingUnsubscribe_def sub_of_put_sub Let_def, simp add: put_sub_def clear_timeout_def)
    have c: "manager_inv {} ?c" "map_of (mg_pending ?c) ?k = None" "mg_objects ?c = mg_objects s" "mg_table ?c = mg_table s"
      using cancel_pending_inv [OF assms(1) o'(2)] o'(1) by simp_all
    then have sub: "sub_of ?c = sub_of s" by (simp add: sub_of_def fun_eq_iff)
    have s1: "manager_inv {o'} ?s1"
      unfolding swap using put_sub_inv [OF c(1), of o' ?sub] c o' sub by (simp add: same_identity_def)
    have s1_fields: "mg_objects ?s1 = (mg_objects s)[o' := ?sub]" "mg_table ?s1 = mg_table s" "map_of (mg_pending ?s1) ?k = None"
      "sub_of ?s1 o' = ?sub"
      unfolding swap using c o'(2) by (simp_all add: put_sub_def sub_of_def)
    have "sub_ok ?sub" using ok o'(2) by (auto simp: table_ok_def sub_of_def sub_ok_def)
    then have "manager_inv {length (mg_objects ?s1)} (new_sub (?sub\<lparr>sb_protocol := initialResourceStreamProtocolState\<rparr>) ?s1)"
      using new_sub_inv [OF s1, of "?sub\<lparr>sb_protocol := initialResourceStreamProtocolState\<rparr>"] s1_fields o'(1) Some
      by (simp add: sub_ok_def)
    with assms(4) Some s1 s1_fields o'(2) show ?thesis
      by (auto simp: ensureResolved_def Let_def split: if_splits)
  qed
qed

lemma ensure_inv:
  assumes "manager_inv {} s" and "isSupportedDomain domain" and "ensureSubscription domain scope s = Inr (t, oid)"
  shows "manager_inv {} t \<and> oid < length (mg_objects t)"
proof -
  obtain r where r: "resolveResourceStreamSubscriptionScope domain scope = Inr r"
    using assms(3) by (auto simp: ensureSubscription_def split: sum.splits)
  obtain u where u: "ensureResolved domain r s = (u, oid)" "t = updateHealthForSubscription oid u"
    using assms(3) r by (auto simp: ensureSubscription_def split: prod.splits)
  from ensure_resolved_inv [OF assms(1,2) r u(1)] update_health_inv [of "{oid}" u oid] u(2) show ?thesis by simp
qed

lemma start_run:
  assumes "manager_inv {} s" and "isSupportedDomain domain"
  shows "returns_with (or_unchanged s (start env domain scope s)) (manager_inv {})"
    and "returns_with (or_unchanged s (refreshOnce env domain scope s)) (manager_inv {})"
proof -
  have "returns_with (make_call env (Resync oid reason force None) t) (manager_inv {})"
    if "ensureSubscription domain scope s = Inr (t, oid)" for t oid reason force
    using calls.resync_run [of call_depth "{}" t oid env reason force None] ensure_inv [OF assms that]
    by (auto simp: make_call_def call_depth_def keeps_inv_def elim: returns_with_mono)
  then show "returns_with (or_unchanged s (start env domain scope s)) (manager_inv {})"
    and "returns_with (or_unchanged s (refreshOnce env domain scope s)) (manager_inv {})"
    using assms(1) by (auto simp: or_unchanged_def start_def refreshOnce_def split: sum.split prod.split)
qed

section \<open>Stopping\<close>

lemma inv_conn_op:
  assumes "manager_inv X s" and "conn_wf t \<and> conn_change s t \<and> mg_connection t = mg_connection s"
  shows "manager_inv X t \<and> mg_objects t = mg_objects s \<and> mg_table t = mg_table s \<and> mg_pending t = mg_pending s \<and>
    mg_connection t = mg_connection s \<and> length (mg_connections s) \<le> length (mg_connections t)"
  using assms conn_change_inv [OF assms(1)] by (auto simp: conn_wf_def conn_change_def)

lemma inv_connection_range: "manager_inv X s \<Longrightarrow> mg_connection s = Some cid \<Longrightarrow> cid < length (mg_connections s)"
  by (simp add: manager_inv_def manager_wf_def conns_ok_def)

lemma close_keeps:
  assumes "conn_wf s" and "cid < length (mg_connections s)"
  shows "conn_wf (close cid s) \<and> conn_change s (close cid s) \<and> mg_connection (close cid s) = mg_connection s"
    and "conn_wf (pause cid s) \<and> conn_change s (pause cid s) \<and> mg_connection (pause cid s) = mg_connection s"
  using hang_up_keeps [OF assms] by (simp_all add: close_def pause_def)

lemma forget_connection_inv: "manager_inv X s \<Longrightarrow> manager_inv X (s\<lparr>mg_connection := None\<rparr>)"
proof -
  assume s: "manager_inv X s"
  let ?t = "s\<lparr>mg_connection := None\<rparr>"
  have c: "conn_of ?t = conn_of s" by (simp add: conn_of_def fun_eq_iff)
  have ok: "conns_ok s" "timers_fresh s" using inv_conn_wf [OF s] by (simp_all add: conn_wf_def)
  have "conns_ok ?t" using ok(1) unfolding conns_ok_def c by simp
  moreover have "timers_fresh ?t" using ok(2) unfolding timers_fresh_def by simp
  ultimately show ?thesis by (intro conn_change_inv [OF s]) (simp_all add: conn_change_def)
qed

text \<open>What \<open>unsubscribe\<close> does once the protocol has stopped.\<close>

definition after_stop :: "call_env \<Rightarrow> nat \<Rightarrow> bool \<Rightarrow> 'p stream_manager \<Rightarrow> 'p stream_manager" where
  "after_stop env oid reset s1 =
     (let s2 = (case mg_connection s1 of
                  Some cid \<Rightarrow> send env cid (buildCancelMessage (sub_of s1 oid)) s1 | None \<Rightarrow> s1);
          s3 = updateHealthForSubscription oid (drop_entry (sb_key (sub_of s2 oid)) s2);
          s4 = (if reset then clearStreamError (sb_cluster (sub_of s3 oid)) s3 else s3)
      in case mg_connection s4 of
           Some cid \<Rightarrow>
             if mg_table s4 = []
             then markConnectionError ''stream stopped'' ((close cid s4)\<lparr>mg_connection := None\<rparr>)
             else s4
         | None \<Rightarrow> s4)"

lemma unsubscribe_after_stop:
  "unsubscribe_stream env oid reset s =
     map_option (after_stop env oid reset) (make_call env (ApplyEvent oid StopRequested) (cancelPendingUnsubscribe oid s))"
  unfolding unsubscribe_stream_def after_stop_def drop_entry_def ..

lemma after_stop_inv:
  assumes "manager_inv {} s" and "oid < length (mg_objects s)" and "map_of (mg_pending s) (sb_key (sub_of s oid)) = None"
  shows "manager_inv {} (after_stop env oid reset s) \<and>
    mg_table (after_stop env oid reset s) = AList.delete (sb_key (sub_of s oid)) (mg_table s)"
proof -
  let ?k = "sb_key (sub_of s oid)"
  define s2 where "s2 = (case mg_connection s of Some cid \<Rightarrow> send env cid (buildCancelMessage (sub_of s oid)) s | None \<Rightarrow> s)"
  have s2: "manager_inv {} s2" "mg_objects s2 = mg_objects s" "mg_table s2 = mg_table s" "mg_pending s2 = mg_pending s"
    using assms(1) inv_conn_op [OF assms(1) send_keeps [OF inv_conn_wf [OF assms(1)] inv_connection_range [OF assms(1)]]]
    by (auto simp: s2_def split: option.split)
  have k: "sb_key (sub_of s2 oid) = ?k" using s2(2) by (simp add: sub_of_def)
  define s3 where "s3 = updateHealthForSubscription oid (drop_entry ?k s2)"
  have s3: "manager_inv {} s3" "mg_table s3 = AList.delete ?k (mg_table s)"
    using update_health_inv [OF drop_entry_inv [OF s2(1), of ?k], of oid] assms(2,3) s2 by (simp_all add: s3_def)
  define s4 where "s4 = (if reset then clearStreamError (sb_cluster (sub_of s3 oid)) s3 else s3)"
  have core: "core s4 = core s3" "mg_store s4 = mg_store s3" by (simp_all add: s4_def)
  have s4: "manager_inv {} s4" "mg_table s4 = AList.delete ?k (mg_table s)"
    using inv_cong [OF s3(1) core(1) [symmetric]] s3 core by (simp_all add: manager_inv_def manager_wf_def core_def)
  have closed: "manager_inv {} ((close cid s4)\<lparr>mg_connection := None\<rparr>)" "mg_table (close cid s4) = mg_table s4"
    if "mg_connection s4 = Some cid" for cid
    using inv_conn_op [OF s4(1) close_keeps(1) [OF inv_conn_wf [OF s4(1)] inv_connection_range [OF s4(1) that]]]
      forget_connection_inv by auto
  have eq: "after_stop env oid reset s = (case mg_connection s4 of
      Some cid \<Rightarrow> if mg_table s4 = [] then markConnectionError ''stream stopped'' ((close cid s4)\<lparr>mg_connection := None\<rparr>) else s4
    | None \<Rightarrow> s4)"
    unfolding after_stop_def Let_def s2_def [symmetric] k s3_def [symmetric] s4_def [symmetric] ..
  show ?thesis
  proof (cases "mg_connection s4")
    case (Some cid)
    then show ?thesis
      unfolding eq using s4 closed [OF Some] markConnectionError_inv [OF closed(1) [OF Some], of "''stream stopped''"] by simp
  qed (use eq s4 in simp)
qed

lemma delete_entry_values:
  assumes "table_ok s" and "map_of (mg_table s) k = Some oid"
  shows "snd ` set (AList.delete k (mg_table s)) = snd ` set (mg_table s) - {oid}"
proof -
  have d: "distinct (map fst (mg_table s))" using assms(1) by (simp add: table_ok_def)
  have one: "k' = k \<longleftrightarrow> v = oid" if "(k', v) \<in> set (mg_table s)" for k' v
  proof -
    have m: "map_of (mg_table s) k' = Some v" using map_of_in_set [OF d] that by blast
    have "v = oid" if "k' = k" using m assms(2) that by simp
    moreover have "k' = k" if "v = oid" using table_lookup_key [OF assms(1) m] table_lookup_key [OF assms] that by blast
    ultimately show ?thesis by blast
  qed
  have "set (AList.delete k (mg_table s)) = {e \<in> set (mg_table s). snd e \<noteq> oid}"
  proof (rule set_eqI)
    fix e :: "string \<times> nat"
    show "e \<in> set (AList.delete k (mg_table s)) \<longleftrightarrow> e \<in> {e \<in> set (mg_table s). snd e \<noteq> oid}"
      using one [of "fst e" "snd e"] by (cases e) (auto simp: AList.delete_eq)
  qed
  then show ?thesis by auto
qed

lemma unsubscribe_run:
  assumes "manager_inv {} s" and "oid \<in> set (table_values s)"
  shows "returns_with (unsubscribe_stream env oid reset s)
    (\<lambda>t. manager_inv {} t \<and> set (table_values t) = set (table_values s) - {oid})"
proof -
  have ok: "table_ok s" using assms(1) by (simp add: manager_inv_def manager_wf_def)
  obtain k where k: "map_of (mg_table s) k = Some oid" using table_value_lookup [OF ok] assms(2) by blast
  note o = table_lookup_key [OF ok k]
  let ?c = "cancelPendingUnsubscribe oid s"
  have c: "manager_inv {} ?c" "map_of (mg_pending ?c) k = None" "mg_objects ?c = mg_objects s" "mg_table ?c = mg_table s"
    using cancel_pending_inv [OF assms(1)] o by auto
  have "returns_with (make_call env (ApplyEvent oid StopRequested) ?c) (keeps_inv (\<lambda>_. True) ({} - {oid}) ?c)"
    unfolding make_call_def by (rule calls.quiet_event_run) (use c o in \<open>simp_all add: call_depth_def\<close>)
  then have "returns_with (map_option (after_stop env oid reset) (make_call env (ApplyEvent oid StopRequested) ?c))
      (\<lambda>t. manager_inv {} t \<and> mg_table t = AList.delete k (mg_table s))"
  proof (intro returns_with_map, elim returns_with_mono)
    fix t assume "keeps_inv (\<lambda>_. True) ({} - {oid}) ?c t"
    then have t: "manager_inv {} t" "mg_table t = mg_table s" "mg_pending t = mg_pending ?c" "oid < length (mg_objects t)"
      using c o by (simp_all add: keeps_inv_def shape_def)
    have "sb_key (sub_of t oid) = k"
      using t(1,2) k table_lookup_key [of t k oid] by (simp add: manager_inv_def manager_wf_def)
    with after_stop_inv [OF t(1,4)] t c
    show "manager_inv {} (after_stop env oid reset t) \<and> mg_table (after_stop env oid reset t) = AList.delete k (mg_table s)"
      by simp
  qed
  moreover have "snd ` set (AList.delete k (mg_table s)) = snd ` set (mg_table s) - {oid}"
    using delete_entry_values [OF ok k] .
  ultimately show ?thesis
    unfolding unsubscribe_after_stop by (elim returns_with_mono) (simp add: table_values_def)
qed

lemma unsubscribe_all_run:
  fixes s :: "'p stream_manager"
  assumes "manager_inv {} s" and "distinct vs" and "set vs \<subseteq> set (table_values s)"
  shows "returns_with (for_each (\<lambda>oid. unsubscribe_stream env oid reset) vs s)
    (\<lambda>t. manager_inv {} t \<and> set (table_values t) = set (table_values s) - set vs)"
  using assms
proof (induction vs arbitrary: s)
  case (Cons v vs)
  have "returns_with (unsubscribe_stream env v reset s)
      (\<lambda>t. manager_inv {} t \<and> set (table_values t) = set (table_values s) - {v})"
    using Cons.prems by (intro unsubscribe_run) auto
  then have "returns_with (case unsubscribe_stream env v reset s of None \<Rightarrow> None
      | Some t \<Rightarrow> for_each (\<lambda>oid. unsubscribe_stream env oid reset) vs t)
    (\<lambda>t. manager_inv {} t \<and> set (table_values t) = set (table_values s) - set (v # vs))"
  proof (rule returns_with_bind)
    fix t :: "'p stream_manager" assume t: "manager_inv {} t \<and> set (table_values t) = set (table_values s) - {v}"
    with Cons.prems Cons.IH [of t]
    have "returns_with (for_each (\<lambda>oid. unsubscribe_stream env oid reset) vs t)
        (\<lambda>u. manager_inv {} u \<and> set (table_values u) = set (table_values t) - set vs)" by auto
    then show "returns_with (for_each (\<lambda>oid. unsubscribe_stream env oid reset) vs t)
        (\<lambda>u. manager_inv {} u \<and> set (table_values u) = set (table_values s) - set (v # vs))"
      by (rule returns_with_mono) (use t in auto)
  qed
  then show ?case by simp
qed simp

lemma table_values_distinct:
  assumes "table_ok s"
  shows "distinct (table_values s)"
proof -
  have d: "distinct (map fst (mg_table s))" using assms by (simp add: table_ok_def)
  have "k = k'" if "(k, v) \<in> set (mg_table s)" "(k', v) \<in> set (mg_table s)" for k k' v
    using table_lookup_key [OF assms, of k v] table_lookup_key [OF assms, of k' v] map_of_in_set [OF d] that by simp
  then have "inj_on snd (set (mg_table s))" by (auto simp: inj_on_def)
  with d show ?thesis by (simp add: table_values_def distinct_map)
qed

lemma schedule_unsubscribe_run:
  assumes "manager_inv {} s" and "oid \<in> set (table_values s)" and "\<not> sb_leased (sub_of s oid)"
  shows "returns_with (scheduleUnsubscribe env oid reset s) (manager_inv {})"
proof -
  have wf: "manager_wf s" and ok: "table_ok s" and tm: "timers_ok s"
    using assms(1) by (auto simp: manager_inv_def manager_wf_def)
  let ?k = "sb_key (sub_of s oid)" and ?n = "mg_next_timer s"
  let ?t = "(set_timeout (UnsubscribeTimer oid False) s)\<lparr>mg_pending := AList.update ?k ?n (mg_pending s)\<rparr>"
  obtain k where "map_of (mg_table s) k = Some oid" using table_value_lookup [OF ok] assms(2) by blast
  with table_lookup_key [OF ok this] have o: "map_of (mg_table s) ?k = Some oid" "oid < length (mg_objects s)" by auto
  have "manager_inv {} ?t" if none: "map_of (mg_pending s) ?k = None"
  proof -
    have [simp]: "sub_of ?t = sub_of s" "conn_of ?t = conn_of s"
      by (simp_all add: sub_of_def conn_of_def set_timeout_def fun_eq_iff)
    have new: "map_of (mg_timers s) ?n = None" using tm by (auto simp: timers_ok_def map_of_eq_None_iff)
    have timers: "map_of (mg_timers ?t) = (map_of (mg_timers s))(?n \<mapsto> UnsubscribeTimer oid False)"
      using timers_set_timeout [OF tm] by simp
    have "distinct (map fst (mg_timers ?t))" "\<forall>t \<in> fst ` set (mg_timers ?t). t < mg_next_timer ?t"
      using tm by (auto simp: set_timeout_def timers_ok_def)
    moreover have "action_ok ?t t a" if "map_of (mg_timers ?t) t = Some a" for t a
    proof (cases "t = ?n")
      case True
      then have "a = UnsubscribeTimer oid False" using that unfolding timers by simp
      with True o(2) show ?thesis by (simp add: map_of_update)
    next
      case False
      then have "action_ok s t a" using that tm unfolding timers by (simp add: timers_ok_def)
      with none show ?thesis by (cases a) (auto simp: map_of_update)
    qed
    ultimately have "timers_ok ?t" unfolding timers_ok_def by blast
    moreover have "pending_ok ?t"
      unfolding pending_ok_def timers
    proof (intro allI impI)
      fix k' t assume k': "map_of (mg_pending ?t) k' = Some t"
      show "\<exists>oid' reset. ((map_of (mg_timers s))(?n \<mapsto> UnsubscribeTimer oid False)) t = Some (UnsubscribeTimer oid' reset) \<and>
          map_of (mg_table ?t) k' = Some oid' \<and> \<not> sb_leased (sub_of ?t oid')"
      proof (cases "k' = ?k")
        case True
        then show ?thesis using k' o(1) assms(3) by (auto simp: map_of_update)
      next
        case False
        then have "map_of (mg_pending s) k' = Some t" using k' by (simp add: map_of_update)
        then obtain o' r where "map_of (mg_timers s) t = Some (UnsubscribeTimer o' r)" "map_of (mg_table s) k' = Some o'"
            "\<not> sb_leased (sub_of s o')"
          using pending_owner [OF wf] by blast
        with new show ?thesis by auto
      qed
    qed
    moreover have "conns_ok s" using wf by (simp add: manager_wf_def)
    then have "conns_ok ?t" unfolding conns_ok_def timers using new by auto
    ultimately have "manager_wf ?t" using wf by (simp add: manager_wf_def table_ok_def)
    moreover have "settled s o' \<Longrightarrow> settled ?t o'" for o'
      unfolding settled_def timers using new by (auto elim!: carried_timers)
    moreover have "fresh ?t o' = fresh s o'" for o'
      using aggregateHealth_cong [of ?t s] by (simp add: fresh_def)
    ultimately show ?thesis using assms(1) by (simp add: manager_inv_def)
  qed
  moreover have "returns_with (unsubscribe_stream env oid reset s) (manager_inv {})"
    using unsubscribe_run [OF assms(1,2)] by (rule returns_with_mono) simp
  ultimately show ?thesis
    using assms(1) by (cases reset) (simp_all add: scheduleUnsubscribe_def hasPendingUnsubscribe_def)
qed

lemma stop_run:
  assumes "manager_inv {} s"
  shows "returns_with (stop env domain scope reset s) (manager_inv {})"
proof (cases "getForScope s domain scope")
  case None
  then show ?thesis using assms by (simp add: stop_def release_def)
next
  case (Some oid)
  have ok: "table_ok s" using assms by (simp add: manager_inv_def manager_wf_def)
  obtain k where k: "map_of (mg_table s) k = Some oid"
    using Some by (auto simp: getForScope_def split: option.splits if_splits)
  let ?sub = "(sub_of s oid)\<lparr>sb_leased := False\<rparr>"
  have o: "oid < length (mg_objects s)" using table_lookup_key [OF ok k] by simp
  have "manager_inv {oid} (put_sub oid ?sub s)"
    using put_sub_inv [OF assms o, of ?sub] by (simp add: same_identity_def)
  then have "manager_inv {} (put_sub oid ?sub s)"
    by (rule inv_drop) (use o in \<open>simp add: fresh_unleased sub_of_put_sub\<close>)
  then have "returns_with (scheduleUnsubscribe env oid reset (put_sub oid ?sub s)) (manager_inv {})"
    by (rule schedule_unsubscribe_run)
      (use table_value_lookup [OF ok] k o in \<open>auto simp: sub_of_put_sub table_values_def\<close>)
  with Some show ?thesis by (simp add: stop_def release_def)
qed

lemma stop_cluster_run:
  assumes "manager_inv {} s"
  shows "returns_with (stopCluster env clusterId s)
    (\<lambda>t. manager_inv {} t \<and> set (table_values t) = {oid \<in> set (table_values s). sb_cluster (sub_of s oid) \<noteq> trim clusterId})"
proof -
  have "table_ok s" using assms by (simp add: manager_inv_def manager_wf_def)
  from table_values_distinct [OF this]
  have "returns_with (stopCluster env clusterId s) (\<lambda>t. manager_inv {} t \<and> set (table_values t) =
      set (table_values s) - set (filter (\<lambda>oid. sb_cluster (sub_of s oid) = trim clusterId) (table_values s)))"
    unfolding stopCluster_def by (intro unsubscribe_all_run [OF assms]) auto
  then show ?thesis by (rule returns_with_mono) auto
qed

text \<open>What \<open>stopAll\<close> does once every subscription is gone.\<close>

definition after_stop_all :: "'p stream_manager \<Rightarrow> 'p stream_manager" where
  "after_stop_all s1 =
     (let s2 = clear_subscriptions s1;
          s3 = (case mg_connection s2 of Some cid \<Rightarrow> close cid s2 | None \<Rightarrow> s2)
      in s3\<lparr>mg_connection := None, mg_connected := False, mg_epoch := 0, mg_last_error := [], mg_health := [],
            mg_errors := [], mg_telemetry := []\<rparr>)"

lemma after_stop_all_inv:
  assumes "manager_inv {} t" and "mg_table t = []"
  shows "manager_inv {} (after_stop_all t) \<and> mg_table (after_stop_all t) = [] \<and> mg_connection (after_stop_all t) = None"
proof -
  have none: "map_of (mg_pending t) k = None" for k
    using inv_wf [OF assms(1)] assms(2) unfolding manager_wf_def pending_ok_def by (cases "map_of (mg_pending t) k") auto
  have "map_of (mg_pending t) = Map.empty" by (rule ext) (rule none)
  then have "mg_pending t = []" by simp
  then have clear: "clear_subscriptions t = t" using assms(2) by (simp add: clear_subscriptions_def)
  define u where "u = (case mg_connection t of Some cid \<Rightarrow> close cid t | None \<Rightarrow> t)"
  have u: "manager_inv {} u" "mg_table u = []"
    using assms inv_conn_op [OF assms(1) close_keeps(1) [OF inv_conn_wf [OF assms(1)] inv_connection_range [OF assms(1)]]]
    by (auto simp: u_def split: option.split)
  let ?r = "u\<lparr>mg_connection := None, mg_connected := False, mg_epoch := 0, mg_last_error := [], mg_health := [],
    mg_errors := [], mg_telemetry := []\<rparr>"
  let ?v = "u\<lparr>mg_connection := None\<rparr>"
  have v: "manager_wf ?v" "\<forall>oid < length (mg_objects u). settled ?v oid"
    using forget_connection_inv [OF u(1)] by (simp_all add: manager_inv_def)
  have same: "sub_of ?r = sub_of ?v" "conn_of ?r = conn_of ?v" by (simp_all add: sub_of_def conn_of_def fun_eq_iff)
  have action: "action_ok ?r tm a = action_ok ?v tm a" for tm a by (cases a) (simp_all add: same)
  have "table_ok ?r" "pending_ok ?r" "conns_ok ?r" "timers_ok ?r"
    using v(1) unfolding manager_wf_def table_ok_def pending_ok_def conns_ok_def timers_ok_def action same by simp_all
  then have "manager_wf ?r" using v(1) by (simp add: manager_wf_def)
  moreover have "settled ?r oid = settled ?v oid" "fresh ?r oid" for oid
    using u(2) by (simp_all add: settled_def fresh_def same)
  ultimately have "manager_inv {} ?r" using v(2) by (simp add: manager_inv_def)
  then show ?thesis unfolding after_stop_all_def Let_def clear u_def [symmetric] using u(2) by simp
qed

lemma stop_all_run:
  assumes "manager_inv {} s"
  shows "returns_with (stopAll env reset s) (\<lambda>t. manager_inv {} t \<and> mg_table t = [] \<and> mg_connection t = None)"
proof -
  have "table_ok s" using assms by (simp add: manager_inv_def manager_wf_def)
  from unsubscribe_all_run [OF assms table_values_distinct [OF this] subset_refl, of env reset]
  have "returns_with (map_option after_stop_all (for_each (\<lambda>oid. unsubscribe_stream env oid reset) (table_values s) s))
      (\<lambda>t. manager_inv {} t \<and> mg_table t = [] \<and> mg_connection t = None)"
    by (intro returns_with_map, elim returns_with_mono) (use after_stop_all_inv in \<open>auto simp: table_values_def\<close>)
  then show ?thesis unfolding stopAll_def after_stop_all_def .
qed

section \<open>Events of sockets, timers and the application\<close>

lemma event_step:
  assumes "manager_inv X s" and "X \<subseteq> {oid}" and "oid < length (mg_objects s)" and "\<not> attaches event" and "\<not> asks_resync event"
  shows "returns_with (make_call env (ApplyEvent oid event) s) (\<lambda>t. manager_inv {} t \<and> shape s t)"
proof -
  have "returns_with (make_call env (ApplyEvent oid event) s) (keeps_inv (\<lambda>_. True) (X - {oid}) s)"
    unfolding make_call_def by (rule calls.quiet_event_run) (use assms in \<open>simp_all add: call_depth_def\<close>)
  moreover have "X - {oid} = {}" using assms(2) by auto
  ultimately show ?thesis by (auto elim!: returns_with_mono simp: keeps_inv_def)
qed

lemma each_listed:
  assumes "manager_inv {} s" and "shape s t" and "manager_inv {} t"
    and "\<And>oid u. manager_inv {} u \<Longrightarrow> oid < length (mg_objects u) \<Longrightarrow>
      returns_with (f oid u) (\<lambda>v. manager_inv {} v \<and> shape u v)"
  shows "returns_with (for_each f (table_values s) t) (\<lambda>u. manager_inv {} u \<and> shape s u)"
proof (rule for_each_returns)
  fix oid u assume o: "oid \<in> set (table_values s)" and u: "manager_inv {} u \<and> shape s u"
  have "table_ok s" using assms(1) by (simp add: manager_inv_def manager_wf_def)
  from table_value_range [OF this o] u have "oid < length (mg_objects u)" by (simp add: shape_def)
  from assms(4) [OF _ this] u show "returns_with (f oid u) (\<lambda>v. manager_inv {} v \<and> shape s v)"
    by (auto elim: returns_with_mono intro: shape_trans)
qed (use assms in simp)

lemma connection_open_run:
  assumes "manager_inv {} s"
  shows "returns_with (handleConnectionOpen env s) (\<lambda>t. manager_inv {} t \<and> length (mg_connections s) \<le> length (mg_connections t))"
proof -
  define s1 where "s1 = (markConnectionOpen s)\<lparr>mg_errors := []\<rparr>"
  have "manager_inv {} (markConnectionOpen s)" using markConnectionOpen_inv [OF assms] by simp
  then have s1: "manager_inv {} s1"
    by (rule inv_cong) (use \<open>manager_inv {} (markConnectionOpen s)\<close> in
        \<open>simp_all add: s1_def manager_inv_def manager_wf_def\<close>)
  have conns: "mg_connections s1 = mg_connections s"
    by (simp add: s1_def markConnectionOpen_def updateAllHealth_def update_all_connections)
  have "returns_with (for_each (\<lambda>oid. make_call env (ApplyEvent oid (ConnectionOpened (mg_epoch s1)))) (table_values s1) s1)
      (\<lambda>u. manager_inv {} u \<and> shape s1 u)"
    by (rule each_listed [OF s1 shape_refl s1]) (simp add: event_step)
  then show ?thesis
    unfolding handleConnectionOpen_def s1_def [symmetric] Let_def
    by (rule returns_with_mono) (use conns in \<open>auto simp: shape_def\<close>)
qed

lemma send_all_inv:
  assumes "manager_inv {} s" and "cid < length (mg_connections s)"
  shows "manager_inv {} (fold (send env cid) ms s)"
  using assms
proof (induction ms arbitrary: s)
  case (Cons m ms)
  then show ?case
    using inv_conn_op [OF Cons.prems(1) send_keeps [OF inv_conn_wf [OF Cons.prems(1)] Cons.prems(2), of env m]]
    by (auto intro!: Cons.IH)
qed simp

lemma put_conn_inv:
  assumes "manager_inv {} s" and "cid < length (mg_connections s)" and "cn_reconnect c = cn_reconnect (conn_of s cid)"
  shows "manager_inv {} (put_conn cid c s)"
  using inv_conn_op [OF assms(1) put_conn_keeps [OF inv_conn_wf [OF assms(1)] assms(2)], of c] assms(3) by simp

lemma open_run:
  assumes "manager_inv {} s" and "cid < length (mg_connections s)"
  shows "returns_with (handleOpen env cid s) (manager_inv {})"
proof -
  let ?s0 = "put_conn cid ((conn_of s cid)\<lparr>cn_attempt := 0\<rparr>) s"
  have "manager_inv {} ?s0" using put_conn_inv [OF assms] by simp
  from connection_open_run [OF this, of env] show ?thesis
    unfolding handleOpen_def
  proof (intro returns_with_map, elim returns_with_mono)
    fix t assume t: "manager_inv {} t \<and> length (mg_connections ?s0) \<le> length (mg_connections t)"
    then have "manager_inv {} t" "cid < length (mg_connections t)" using assms(2) by simp_all
    from send_all_inv [of "put_conn cid ((conn_of t cid)\<lparr>cn_pending := []\<rparr>) t" cid env "cn_pending (conn_of t cid)"]
      put_conn_inv [OF this, of "(conn_of t cid)\<lparr>cn_pending := []\<rparr>"] this(2)
    show "manager_inv {} (fold (send env cid) (cn_pending (conn_of t cid)) (put_conn cid ((conn_of t cid)\<lparr>cn_pending := []\<rparr>) t))"
      by simp
  qed
qed

lemma capture_name_inv:
  assumes "manager_inv {} s" and "oid \<in> set (table_values s)"
  shows "manager_inv {oid} (captureSubscriptionClusterName oid normalized s) \<and>
    length (mg_objects (captureSubscriptionClusterName oid normalized s)) = length (mg_objects s)"
proof -
  have ok: "table_ok s" using assms by (simp add: manager_inv_def manager_wf_def)
  obtain k where k: "map_of (mg_table s) k = Some oid" using table_value_lookup [OF ok] assms(2) by blast
  note o = table_lookup_key [OF ok k]
  have none: "map_of (mg_pending s) (sb_key (sub_of s oid)) = None" if "sb_leased (sub_of s oid)"
  proof (rule ccontr)
    assume "map_of (mg_pending s) (sb_key (sub_of s oid)) \<noteq> None"
    then obtain t where "map_of (mg_pending s) (sb_key (sub_of s oid)) = Some t" by auto
    then obtain o' where "map_of (mg_table s) (sb_key (sub_of s oid)) = Some o'" "\<not> sb_leased (sub_of s o')"
      using pending_owner [OF inv_wf [OF assms(1)]] by blast
    with k o that show False by simp
  qed
  have "manager_inv {oid} (put_sub oid ((sub_of s oid)\<lparr>sb_cluster_name := n\<rparr>) s)" for n
    using put_sub_inv [OF assms(1), of oid "(sub_of s oid)\<lparr>sb_cluster_name := n\<rparr>"] o none by (simp add: same_identity_def)
  then show ?thesis
    using manager_inv_mono [OF assms(1), of "{oid}"] by (simp add: captureSubscriptionClusterName_def split: option.split)
qed

lemma message_run:
  assumes "manager_inv {} s"
  shows "returns_with (handleMessage env raw s) (manager_inv {})"
proof -
  have ok: "table_ok s" using assms by (simp add: manager_inv_def manager_wf_def)
  have deliver: "returns_with (make_call env (ApplyEvent oid (received_event env s1 oid m)) s1) (manager_inv {})"
    if k: "map_of (mg_table s) k = Some oid" and s1: "s1 = captureSubscriptionClusterName oid normalized s"
    for k oid normalized m s1
  proof -
    have "oid \<in> set (table_values s)" "oid < length (mg_objects s)"
      using table_value_lookup [OF ok] table_lookup_key [OF ok k] k by auto
    with capture_name_inv [OF assms this(1), of normalized]
    have "returns_with (make_call env (ApplyEvent oid (received_event env s1 oid m)) s1) (\<lambda>t. manager_inv {} t \<and> shape s1 t)"
      unfolding s1 by (intro event_step [where X = "{oid}"]) (simp_all add: received_event_def)
    then show ?thesis by (rule returns_with_mono) simp
  qed
  show ?thesis
  proof (cases "parseMessage env raw")
    case None
    then show ?thesis using assms by (simp add: handleMessage_def)
  next
    case (Some parsed)
    show ?thesis
    proof (cases "js_falsy parsed \<or> resolveSubscriptionMessage s parsed = None")
      case True
      then show ?thesis using assms Some by (auto simp: handleMessage_def)
    next
      case False
      then obtain normalized oid where r: "resolveSubscriptionMessage s parsed = Some (normalized, oid)" by auto
      then obtain k where "map_of (mg_table s) k = Some oid"
        by (auto simp: resolveSubscriptionMessage_def split: option.splits)
      from deliver [OF this refl, of normalized "nm_message normalized"] False r Some show ?thesis
        by (simp add: handleMessage_def Let_def)
    qed
  qed
qed

lemma failed_run:
  assumes "manager_inv {} s" and "cid < length (mg_connections s)"
  shows "returns_with (make_call env (ConnectionFailed cid message) s) (manager_inv {})"
    and "returns_with (make_call env (Connect cid) s) (\<lambda>t. manager_inv {} t \<and> shape s t)"
proof -
  have "returns_with (make_call env (ConnectionFailed cid message) s) (keeps_inv (\<lambda>_. True) {} s)"
    unfolding make_call_def by (rule calls.connection_failed_run) (use assms in \<open>simp_all add: call_depth_def\<close>)
  then show "returns_with (make_call env (ConnectionFailed cid message) s) (manager_inv {})"
    by (rule returns_with_mono) (simp add: keeps_inv_def)
  have "returns_with (make_call env (Connect cid) s) (keeps_inv (\<lambda>_. True) {} s)"
    unfolding make_call_def by (rule calls.connect_run) (use assms in \<open>simp_all add: call_depth_def\<close>)
  then show "returns_with (make_call env (Connect cid) s) (\<lambda>t. manager_inv {} t \<and> shape s t)"
    by (rule returns_with_mono) (simp add: keeps_inv_def)
qed

lemma resync_step:
  assumes "manager_inv {} s" and "oid < length (mg_objects s)"
  shows "returns_with (make_call env (Resync oid reason force err) s) (\<lambda>t. manager_inv {} t \<and> shape s t)"
proof -
  have "returns_with (make_call env (Resync oid reason force err) s) (keeps_inv (\<lambda>_. True) {} s)"
    unfolding make_call_def by (rule calls.resync_run) (use assms in \<open>simp_all add: call_depth_def\<close>)
  then show ?thesis by (rule returns_with_mono) (simp add: keeps_inv_def)
qed

lemma suspend_inv:
  assumes "manager_inv {} s"
  shows "manager_inv {} (suspendForVisibility s)"
proof -
  have s1: "manager_inv {} (s\<lparr>mg_suspended := True\<rparr>)"
    by (rule inv_cong [OF assms]) (use assms in \<open>simp_all add: manager_inv_def manager_wf_def\<close>)
  let ?s2 = "markConnectionError ''visibility hidden'' (s\<lparr>mg_suspended := True\<rparr>)"
  have s2: "manager_inv {} ?s2" using markConnectionError_inv [OF s1] by blast
  have "manager_inv {} (pause cid ?s2)" if "mg_connection ?s2 = Some cid" for cid
    using inv_conn_op [OF s2 close_keeps(2) [OF inv_conn_wf [OF s2] inv_connection_range [OF s2 that]]] by simp
  with assms s1 s2 show ?thesis
    by (auto simp: suspendForVisibility_def Let_def split: option.split)
qed

lemma resume_run:
  assumes "manager_inv {} s"
  shows "returns_with (resumeFromVisibility env s) (manager_inv {})"
proof -
  have "returns_with (case mg_connection s of Some cid \<Rightarrow> resume_connection env cid s | None \<Rightarrow> Some s) (manager_inv {})"
  proof (cases "mg_connection s")
    case (Some cid)
    note cid = inv_connection_range [OF assms Some]
    let ?u = "put_conn cid ((conn_of s cid)\<lparr>cn_paused := False, cn_closed := False\<rparr>) s"
    have "manager_inv {} ?u" using put_conn_inv [OF assms cid] by simp
    from failed_run(2) [OF this, of cid env] cid have "returns_with (make_call env (Connect cid) ?u) (manager_inv {})"
      by (auto elim: returns_with_mono)
    with Some assms show ?thesis by (simp add: resume_connection_def)
  qed (use assms in simp)
  then show ?thesis
    unfolding resumeFromVisibility_def
  proof (rule returns_with_bind)
    fix t :: "'a stream_manager" assume t: "manager_inv {} t"
    let ?u = "t\<lparr>mg_suspended := False\<rparr>"
    have u: "manager_inv {} ?u"
      by (rule inv_cong [OF t]) (use t in \<open>simp_all add: manager_inv_def manager_wf_def\<close>)
    have "returns_with (for_each (\<lambda>oid. make_call env (Resync oid ''visibility resume'' False None)) (table_values t) ?u)
        (\<lambda>v. manager_inv {} v \<and> shape t v)"
      by (rule each_listed [OF t shape_core u]) (simp_all add: resync_step)
    then have "returns_with (for_each (\<lambda>oid. make_call env (Resync oid ''visibility resume'' False None)) (table_values t) ?u)
        (manager_inv {})" by (rule returns_with_mono) simp
    with t show "returns_with (if \<not> mg_suspended t then Some t
        else for_each (\<lambda>oid. make_call env (Resync oid ''visibility resume'' False None)) (table_values t) ?u) (manager_inv {})"
      by simp
  qed
qed

lemma protocol_timer_run:
  assumes "manager_inv {} s" and "map_of (mg_timers s) t = Some a"
    and "a = FlushTimer oid \<and> event = FlushFired t \<or> a = TrailingTimer oid \<and> event = TrailingFired t"
  shows "returns_with (make_call env (ApplyEvent oid event) (clear_timeout t s)) (manager_inv {})"
proof -
  let ?u = "clear_timeout t s" and ?p = "sb_protocol (sub_of s oid)"
  have wf: "manager_wf s" using assms(1) by (rule inv_wf)
  have "action_ok s t a" using wf assms(2) by (auto simp: manager_wf_def timers_ok_def)
  then have o: "oid < length (mg_objects s)" using assms(3) by auto
  have t: "map_of (mg_timers s) t \<in> {None, Some (FlushTimer oid), Some (TrailingTimer oid)}" using assms(2,3) by auto
  have others: "others_ok {} oid ?u"
    using assms(1) o wf_clear_timeout [OF wf t] settled_clear_timeout [OF _ _ t] by (auto simp: others_ok_def manager_inv_def)
  have p: "carried (map_of (mg_timers s)) oid ?p []" "\<not> is_resyncing (ps_phase ?p)"
    using assms(1) o by (auto simp: manager_inv_def settled_def)
  have c: "carried (map_of (mg_timers ?u)) oid (fst (transitionResourceStreamProtocol ?p event)) (snd (transitionResourceStreamProtocol ?p event))
      \<and> script (snd (transitionResourceStreamProtocol ?p event))"
    using fired_carried [OF p(1), of event t] assms(2,3) by auto
  have q: "\<not> is_resyncing (ps_phase (fst (transitionResourceStreamProtocol ?p event)))"
    using transition_quiet [OF p(2), of event] assms(3) by auto
  have "returns_with (make_call env (ApplyEvent oid event) ?u) (keeps_inv (\<lambda>_. True) ({} - {oid}) ?u)"
    unfolding make_call_def by (rule calls.event_run [OF _ _ others]) (use c q in \<open>simp_all add: call_depth_def\<close>)
  then show ?thesis by (rule returns_with_mono) (simp add: keeps_inv_def)
qed

lemma reconnect_timer_inv:
  assumes "manager_inv {} s" and "map_of (mg_timers s) t = Some (ReconnectTimer cid)"
  shows "manager_inv {} (put_conn cid ((conn_of s cid)\<lparr>cn_reconnect := None\<rparr>) (clear_timeout t s)) \<and>
    cid < length (mg_connections s)"
    (is "manager_inv {} ?u \<and> _")
proof -
  have wf: "conn_wf s" using inv_conn_wf [OF assms(1)] .
  then have cid: "cid < length (mg_connections s)" using assms(2) by (auto simp: conn_wf_def timers_fresh_def)
  have timers: "map_of (mg_timers ?u) = (map_of (mg_timers s))(t := None)" by simp
  have "distinct (map fst (mg_timers ?u))" "\<forall>t' \<in> fst ` set (mg_timers ?u). t' < mg_next_timer ?u"
    using wf by (auto simp: conn_wf_def timers_fresh_def distinct_delete clear_timeout_def delete_fst_set)
  then have "timers_fresh ?u" using wf by (simp add: conn_wf_def timers_fresh_def)
  moreover have "map_of (mg_timers ?u) t' = Some (ReconnectTimer d)"
    if "d < length (mg_connections s)" "cn_reconnect (conn_of ?u d) = Some t'" for d t'
  proof -
    have "d \<noteq> cid" "cn_reconnect (conn_of s d) = Some t'" using that cid by (auto simp: conn_of_put_conn split: if_splits)
    moreover from this that(1) wf have "map_of (mg_timers s) t' = Some (ReconnectTimer d)"
      by (auto simp: conn_wf_def conns_ok_def)
    ultimately show ?thesis using assms(2) by auto
  qed
  then have "conns_ok ?u" using wf by (simp add: conn_wf_def conns_ok_def)
  moreover have "conn_change s ?u" using assms(2) by (auto simp: conn_change_def)
  ultimately show ?thesis using conn_change_inv [OF assms(1)] cid by blast
qed

lemma timer_run:
  assumes "manager_inv {} s" and "map_of (mg_timers s) t = Some action"
  shows "returns_with (fire_timer env t action s) (manager_inv {})"
proof (cases action)
  case (FlushTimer oid)
  then show ?thesis using protocol_timer_run [OF assms, of oid "FlushFired t" env] by (simp add: fire_timer_def Let_def)
next
  case (TrailingTimer oid)
  then show ?thesis using protocol_timer_run [OF assms, of oid "TrailingFired t" env] by (simp add: fire_timer_def Let_def)
next
  case (UnsubscribeTimer oid reset)
  let ?u = "(clear_timeout t s)\<lparr>mg_pending := AList.delete (sb_key (sub_of s oid)) (mg_pending s)\<rparr>"
  have wf: "manager_wf s" using assms(1) by (rule inv_wf)
  have "map_of (mg_pending s) (sb_key (sub_of s oid)) = Some t"
    using wf assms(2) UnsubscribeTimer unfolding manager_wf_def timers_ok_def by (metis action_ok.simps(3))
  then obtain o' r where "map_of (mg_timers s) t = Some (UnsubscribeTimer o' r)" "map_of (mg_table s) (sb_key (sub_of s oid)) = Some o'"
    using pending_owner [OF wf] by blast
  then have "oid \<in> set (table_values s)"
    using assms(2) UnsubscribeTimer table_value_lookup [OF wf_table [OF wf]] by auto
  moreover have "manager_inv {} ?u"
    using drop_timer_inv [OF assms(1), of t oid reset] assms(2) UnsubscribeTimer by simp
  ultimately have "returns_with (unsubscribe_stream env oid reset ?u) (manager_inv {})"
    using unsubscribe_run [of ?u oid env reset] by (auto simp: table_values_def elim: returns_with_mono)
  then show ?thesis using UnsubscribeTimer by (simp add: fire_timer_def Let_def)
next
  case (ReconnectTimer cid)
  let ?u = "put_conn cid ((conn_of s cid)\<lparr>cn_reconnect := None\<rparr>) (clear_timeout t s)"
  have u: "manager_inv {} ?u" "cid < length (mg_connections ?u)"
    using reconnect_timer_inv [OF assms(1), of t cid] assms(2) ReconnectTimer by auto
  have "returns_with (make_call env (Connect cid) ?u) (manager_inv {})"
    using failed_run(2) [OF u] by (rule returns_with_mono) simp
  then show ?thesis using ReconnectTimer by (simp add: fire_timer_def Let_def)
qed

section \<open>Every step returns and keeps the invariant\<close>

lemma initial_manager_inv: "store_inv store \<Longrightarrow> manager_inv {} (initial_manager store)"
  by (simp add: manager_inv_def wf_defs initial_manager_def)

lemma step_run:
  assumes "manager_inv {} s" and "manager_op_ok s op"
  shows "returns_with (manager_step env op s) (manager_inv {})"
proof (cases op)
  case (TimerOp t)
  then show ?thesis
    using assms(1) timer_run [OF assms(1)] by (simp add: manager_step_def split: option.split)
next
  case (SocketOpenedOp sid)
  then have "mg_sockets s ! sid < length (mg_connections s)"
    using assms inv_conn_wf [OF assms(1)] by (simp add: conn_wf_def conns_ok_def)
  then show ?thesis using SocketOpenedOp open_run [OF assms(1)] by (simp add: manager_step_def)
next
  case (SocketFailedOp sid m)
  then have "mg_sockets s ! sid < length (mg_connections s)"
    using assms inv_conn_wf [OF assms(1)] by (simp add: conn_wf_def conns_ok_def)
  then show ?thesis using SocketFailedOp failed_run(1) [OF assms(1)] by (simp add: manager_step_def)
next
  case (ClusterPrunedOp c)
  then show ?thesis
    using stop_cluster_run [OF assms(1), of env c] by (auto simp: manager_step_def elim: returns_with_mono)
next
  case (StopAllOp reset)
  then show ?thesis
    using stop_all_run [OF assms(1), of env reset] by (auto simp: manager_step_def elim: returns_with_mono)
next
  case (FallbackOp domain scope reason)
  have "core (recordStreamFallback env domain scope reason s) = core s \<and>
      mg_store (recordStreamFallback env domain scope reason s) = mg_store s"
    by (simp add: recordStreamFallback_def put_telemetry_def Let_def core_def split: option.split)
  then show ?thesis
    using FallbackOp inv_cong [OF assms(1), of "recordStreamFallback env domain scope reason s"] assms(1)
    by (simp add: manager_step_def manager_inv_def manager_wf_def)
next
  case (StoreWrittenOp store)
  then show ?thesis
    using inv_cong [OF assms(1), of "s\<lparr>mg_store := store\<rparr>"] assms(2) by (simp add: manager_step_def)
qed (use assms start_run stop_run message_run suspend_inv resume_run in \<open>auto simp: manager_step_def\<close>)

lemma reachable_inv: "manager_reachable s \<Longrightarrow> manager_inv {} s"
proof (induction rule: manager_reachable.induct)
  case (manager_next s op env s')
  from step_run [OF manager_next.IH manager_next.hyps(2), of env] manager_next.hyps(3) show ?case by simp
qed (rule initial_manager_inv)

end
