(* ===== verification/Stream_Manager_Contracts.thy ===== *)
theory Stream_Manager_Contracts
  imports Stream_Manager_Ops
begin

text \<open>
  What the stream manager guarantees in every reachable state: its calls return, work that a subscription still owes
  has its timer, the health it shows is current, a flush reaches the snapshot store, what the server echoes
  reaches the subscription that asked for it, and a closed cluster leaves nothing behind.
\<close>

section \<open>Traces\<close>

fun run_ops :: "call_env \<Rightarrow> 'p manager_op list \<Rightarrow> 'p stream_manager \<Rightarrow> 'p stream_manager option" where
  "run_ops env [] s = Some s"
| "run_ops env (op # ops) s =
     (if manager_op_ok s op
      then (case manager_step env op s of None \<Rightarrow> None | Some t \<Rightarrow> run_ops env ops t)
      else None)"

lemma run_ops_reachable: "manager_reachable s \<Longrightarrow> run_ops env ops s = Some t \<Longrightarrow> manager_reachable t"
  by (induction ops arbitrary: s) (auto split: if_splits option.splits intro: manager_next)

text \<open>A concrete run: a stream of nodes is started and its first change signal arrives.\<close>

definition demo_env :: call_env where
  "demo_env = \<lparr>ce_now = 1, ce_open_error = None, ce_ready = (\<lambda>_. True), ce_parse = (\<lambda>_. None)\<rparr>"

definition demo_change :: json where
  "demo_change = JObject [(''type'', JString ''MODIFIED''), (''clusterId'', JString ''c''), (''domain'', JString ''nodes''),
     (''scope'', JString ''c|''), (''source'', JString ''object''), (''version'', JString ''7'')]"

definition demo_initial :: "nat stream_manager" where
  "demo_initial = initial_manager empty_refresh_state"

definition demo_run :: "nat stream_manager option" where
  "demo_run = run_ops demo_env [StartOp ''nodes'' ''c|'', SocketMessageOp demo_change] demo_initial"

definition demo :: "nat stream_manager" where
  "demo = the demo_run"

lemma empty_store_ok: "store_inv empty_refresh_state"
  by (simp add: store_inv_def view_ok_def empty_refresh_state_def)

lemma demo_initial_reachable: "manager_reachable demo_initial"
  unfolding demo_initial_def by (rule manager_init [OF empty_store_ok])

lemma demo_facts:
  "case demo_run of None \<Rightarrow> False | Some s \<Rightarrow>
     length (mg_objects s) = 1 \<and> map_of (mg_table s) ''c::nodes::'' = Some 0 \<and> mg_timers s = [(1, FlushTimer 0)] \<and>
     sb_cluster (sub_of s 0) = ''c'' \<and> sb_normalized_scope (sub_of s 0) = [] \<and>
     sb_domain (sub_of s 0) = ''nodes'' \<and> sb_store_scope (sub_of s 0) = ''c|'' \<and> sb_leased (sub_of s 0) \<and>
     ps_coalescing (sb_protocol (sub_of s 0)) =
       CoalescingScheduled 1 \<lparr>pc_count = 1, pc_versions = [(ObjectClock, ''7'')], pc_latest = Some ''7''\<rparr>"
  by code_simp

lemma demo_run: "demo_run = Some demo"
proof -
  have "demo_run \<noteq> None" using demo_facts by (rule contrapos_pn) simp
  then show ?thesis by (auto simp: demo_def)
qed

lemma demo_reachable: "manager_reachable demo"
  using run_ops_reachable [OF demo_initial_reachable] demo_run unfolding demo_run_def by blast

lemmas demo_state = demo_facts [unfolded demo_run, simplified]

section \<open>Calls return\<close>

text \<open>C20: in every reachable state every operation the types and the runtime allow returns: the calls between
  the manager, its subscriptions and the connection never recurse past the fixed depth, whatever the clock shows, whether or
  not opening a socket throws, and however many subscriptions there are.\<close>

theorem manager_calls_return:
  assumes "manager_reachable s" and "manager_op_ok s op"
  shows "\<exists>s'. manager_step env op s = Some s'"
  using step_run [OF reachable_inv [OF assms(1)] assms(2), of env] by (auto simp: returns_with_def)

theorem manager_calls_return_witness:
  "\<exists>s'. manager_step (demo_env\<lparr>ce_open_error := Some ''refused''\<rparr>) (StartOp ''nodes'' ''d|'') demo_initial = Some s'"
  by (rule manager_calls_return [OF demo_initial_reachable]) (simp, code_simp)

section \<open>Owed work\<close>

text \<open>C21: in every reachable state, and for every subscription object including those already replaced or
  stopped, no resync is left half done, change signals that were not reported yet have an armed flush timer, and a resync
  that was put off has an armed timer; both timers belong to that very object.\<close>

theorem owed_work_is_armed:
  assumes "manager_reachable s" and "oid < length (mg_objects s)"
  defines "p \<equiv> sb_protocol (sub_of s oid)"
  shows "\<not> is_resyncing (ps_phase p) \<and>
    (ps_coalescing p \<noteq> CoalescingIdle \<longrightarrow>
      (\<exists>t pending. ps_coalescing p = CoalescingScheduled t pending \<and> map_of (mg_timers s) t = Some (FlushTimer oid))) \<and>
    (ps_trailing p \<noteq> TrailingIdle \<longrightarrow>
      (\<exists>reason t. ps_trailing p = TrailingScheduled reason t \<and> map_of (mg_timers s) t = Some (TrailingTimer oid)))"
proof -
  have "settled s oid" using reachable_inv [OF assms(1)] assms(2) by (simp add: manager_inv_def)
  then show ?thesis
    unfolding settled_def carried_def p_def by (auto split: coalescing.splits trailing_resync.splits)
qed

theorem owed_work_is_armed_witness:
  "\<exists>t pending. ps_coalescing (sb_protocol (sub_of demo 0)) = CoalescingScheduled t pending \<and>
     map_of (mg_timers demo) t = Some (FlushTimer 0)"
  using owed_work_is_armed [OF demo_reachable, of 0] demo_state by simp

section \<open>Health\<close>

lemma filter_single: "distinct xs \<Longrightarrow> x \<in> set xs \<Longrightarrow> filter (\<lambda>v. v = x) xs = [x]"
proof (induction xs)
  case (Cons y ys)
  have "x \<notin> set zs \<Longrightarrow> filter (\<lambda>v. v = x) zs = []" for zs by (induction zs) auto
  with Cons show ?case by auto
qed simp

lemma scope_subscription_single:
  assumes "table_ok s" and "map_of (mg_table s) k = Some oid" and "sb_leased (sub_of s oid)"
  shows "scope_subscriptions s (sb_domain (sub_of s oid)) (sb_store_scope (sub_of s oid)) = [sub_of s oid]"
proof -
  let ?P = "\<lambda>v. sb_domain (sub_of s v) = sb_domain (sub_of s oid) \<and> sb_leased (sub_of s v) \<and>
      sb_store_scope (sub_of s v) = sb_store_scope (sub_of s oid)"
  have "?P v \<longleftrightarrow> v = oid" if v: "v \<in> set (table_values s)" for v
  proof -
    obtain k' where "map_of (mg_table s) k' = Some v" using v table_value_lookup [OF assms(1)] by blast
    from table_unique [OF assms(1) this assms(2)] assms(3) show ?thesis by auto
  qed
  then have "filter ?P (table_values s) = filter (\<lambda>v. v = oid) (table_values s)" by (intro filter_cong) auto
  also have "\<dots> = [oid]"
    using table_values_distinct [OF assms(1)] table_value_lookup [OF assms(1), of oid] assms(2)
    by (auto intro: filter_single)
  finally show ?thesis unfolding scope_subscriptions_filter by simp
qed

text \<open>C22: for every subscription that a consumer holds, the health status the manager answers is the one its
  protocol state and the connection have at that moment; in particular a scope is called healthy only while the connection is
  open.\<close>

theorem shown_health_is_current:
  assumes "manager_reachable s" and "map_of (mg_table s) k = Some oid" and "sb_leased (sub_of s oid)"
  defines "sub \<equiv> sub_of s oid"
  shows "health_status s (sb_domain sub) (sb_store_scope sub) = fst (computeSubscriptionHealth s sub) \<and>
    (health_status s (sb_domain sub) (sb_store_scope sub) = HealthyStream \<longrightarrow> mg_connected s)"
proof -
  have inv: "manager_inv {} s" using reachable_inv [OF assms(1)] .
  then have ok: "table_ok s" by (simp add: manager_inv_def manager_wf_def)
  note key = table_lookup_key [OF ok assms(2)]
  then have "fresh s oid" using inv by (simp add: manager_inv_def)
  then have "map_of (mg_health s) (health_key (sb_domain sub) (sb_store_scope sub)) =
      Some (aggregateHealth s (sb_domain sub) (sb_store_scope sub))"
    using key assms(2,3) by (simp add: fresh_def sub_def Let_def)
  moreover have "scope_subscriptions s (sb_domain sub) (sb_store_scope sub) = [sub]"
    unfolding sub_def by (rule scope_subscription_single [OF ok assms(2,3)])
  moreover have "fst (worse_health h (HealthyStream, r)) = fst h" for h r
    by (cases "fst h") (simp_all add: worse_health_def)
  ultimately have "health_status s (sb_domain sub) (sb_store_scope sub) = fst (computeSubscriptionHealth s sub)"
    by (simp add: health_status_def aggregateHealth_def Let_def)
  moreover have "fst (computeSubscriptionHealth s sub) = HealthyStream \<longrightarrow> mg_connected s"
    by (simp add: computeSubscriptionHealth_def computeResourceStreamProtocolHealth_def)
  ultimately show ?thesis by simp
qed

theorem shown_health_is_current_witness:
  "health_status demo ''nodes'' ''c|'' = fst (computeSubscriptionHealth demo (sub_of demo 0))"
  using shown_health_is_current [OF demo_reachable, of "''c::nodes::''" 0] demo_state by simp

section \<open>A flush reaches the snapshot store\<close>

definition signal_version :: "'p stream_manager \<Rightarrow> nat \<Rightarrow> source_clock \<Rightarrow> string option" where
  "signal_version s oid clock =
     (case ds_signal_versions (getScopedDomainState (mg_store s) (sb_domain (sub_of s oid)) (sb_store_scope (sub_of s oid))) of
        None \<Rightarrow> None | Some versions \<Rightarrow> map_of versions (clock_name clock))"

lemma clock_name_inject: "clock_name a = clock_name b \<Longrightarrow> a = b"
  by (cases a; cases b) simp_all

lemma merge_signals_lookup:
  assumes "distinct (map fst versions)"
  shows "map_of (merge_signals previous versions) (clock_name clock) =
    (case map_of versions clock of
       Some v \<Rightarrow> Some v
     | None \<Rightarrow> (case previous of None \<Rightarrow> None | Some p \<Rightarrow> map_of p (clock_name clock)))"
proof -
  have "map_of (fold (\<lambda>(clock, version). AList.update (clock_name clock) version) versions m) (clock_name clock) =
      (case map_of versions clock of Some v \<Rightarrow> Some v | None \<Rightarrow> map_of m (clock_name clock))" for m
    using assms
  proof (induction versions arbitrary: m)
    case (Cons cv versions)
    obtain c v where cv: "cv = (c, v)" by (cases cv)
    have "map_of versions c = None" using Cons.prems cv by (simp add: map_of_eq_None_iff)
    with Cons cv clock_name_inject [of clock c] show ?case
      by (cases "clock = c") (auto simp: map_of_update split: option.split)
  qed simp
  then show ?thesis by (simp add: merge_signals_def split: option.split)
qed

lemma update_snapshot_read:
  "getScopedDomainState (mg_store (update_snapshot oid f s)) (sb_domain (sub_of s oid)) (sb_store_scope (sub_of s oid)) =
     f (getScopedDomainState (mg_store s) (sb_domain (sub_of s oid)) (sb_store_scope (sub_of s oid)))"
proof -
  have "AList.update k v m \<noteq> []" for k v and m :: "(string \<times> 'a domain_snapshot) list"
    by (cases m) auto
  then show ?thesis
    by (simp add: update_snapshot_def setScopedDomainState_def Let_def publishScopedDomainStates_def publishState_def
        getScopedDomainState_def getScopedDomainStates_def map_of_update split: option.split)
qed

lemma flush_result:
  assumes "oid < length (mg_objects s)" and "ps_coalescing (sb_protocol (sub_of s oid)) = CoalescingScheduled t p"
    and "0 < pc_count p"
  shows "fire_timer env t (FlushTimer oid) s =
    Some (updateHealthForSubscription oid (bumpSourceVersionOnly env oid (pc_versions p) (truthy (pc_latest p))
      (put_protocol oid ((sb_protocol (sub_of s oid))\<lparr>ps_coalescing := CoalescingIdle\<rparr>) (clear_timeout t s))))"
  using assms
  by (simp add: fire_timer_def Let_def make_call_def call_depth_def numeral_eq_Suc run_call_cases applyProtocolEvent_def
      flushPendingChanges_def advancePendingEffect_def runProtocolEffect_def)

lemma bump_signal_version:
  assumes "distinct (map fst versions)"
  shows "signal_version (bumpSourceVersionOnly env oid versions latest s) oid clock =
    (case map_of versions clock of Some v \<Rightarrow> Some v | None \<Rightarrow> signal_version s oid clock)"
proof -
  have "sub_of (bumpSourceVersionOnly env oid versions latest s) = sub_of s" using core_sub_of [OF core_bump] .
  then show ?thesis
    unfolding signal_version_def
    by (simp add: bumpSourceVersionOnly_def clearStreamError_def Let_def update_snapshot_read merge_signals_lookup [OF assms])
qed

lemma bump_events:
  "mg_events (bumpSourceVersionOnly env oid versions latest s) =
     mg_events s @ (if advancesDeclaredClock (sb_domain (sub_of s oid))
        (ds_signal_versions (getScopedDomainState (mg_store s) (sb_domain (sub_of s oid)) (sb_store_scope (sub_of s oid)))) versions
      then [StreamSignalEvent (sb_domain (sub_of s oid)) (sb_store_scope (sub_of s oid))] else [])"
  by (simp add: bumpSourceVersionOnly_def clearStreamError_def Let_def update_snapshot_def)

lemma health_events: "\<exists>xs. mg_events (updateHealthForSubscription oid s) = mg_events s @ xs"
  by (auto simp: updateHealthForSubscription_def health_set_def Let_def split: option.split)

lemma advances_iff:
  "advancesDeclaredClock domain previous versions \<longleftrightarrow>
     (\<exists>clock \<in> set (doorbellSourceClocks domain). \<exists>v. map_of versions clock = Some v \<and>
        (case previous of None \<Rightarrow> None | Some p \<Rightarrow> map_of p (clock_name clock)) \<noteq> Some v)"
proof -
  have "P \<longleftrightarrow> Q" if "\<And>clock. f clock \<longleftrightarrow> g clock" "P \<longleftrightarrow> (\<exists>clock\<in>A. f clock)" "Q \<longleftrightarrow> (\<exists>clock\<in>A. g clock)"
    for P Q and f g :: "source_clock \<Rightarrow> bool" and A using that by simp
  note step = this
  show ?thesis
    by (rule step [OF _ advancesDeclaredClock_def [unfolded list_ex_iff] refl]) (simp split: option.split; metis)
qed

text \<open>When the flush timer of a subscription with unreported change signals fires, the snapshot of its scope carries,
  for every clock, the version last announced, clocks without an announcement keep theirs, the subscription owes nothing
  more, and a signal is published whenever one of the domain's clocks moved.\<close>

theorem flush_reports_pending_versions:
  assumes "manager_reachable s" and "oid < length (mg_objects s)"
    and "ps_coalescing (sb_protocol (sub_of s oid)) = CoalescingScheduled t p" and "0 < pc_count p"
  shows "\<exists>s'. fire_timer env t (FlushTimer oid) s = Some s' \<and>
    (\<forall>clock. signal_version s' oid clock =
      (case map_of (pc_versions p) clock of Some v \<Rightarrow> Some v | None \<Rightarrow> signal_version s oid clock)) \<and>
    ps_coalescing (sb_protocol (sub_of s' oid)) = CoalescingIdle \<and>
    ((\<exists>clock \<in> set (doorbellSourceClocks (sb_domain (sub_of s oid))). signal_version s' oid clock \<noteq> signal_version s oid clock) \<longrightarrow>
      StreamSignalEvent (sb_domain (sub_of s oid)) (sb_store_scope (sub_of s oid)) \<in> set (drop (length (mg_events s)) (mg_events s')))"
proof -
  have "settled s oid" using reachable_inv [OF assms(1)] assms(2) by (simp add: manager_inv_def)
  then have d: "distinct (map fst (pc_versions p))" using assms(3) by (simp add: settled_def carried_def)
  let ?u = "put_protocol oid ((sb_protocol (sub_of s oid))\<lparr>ps_coalescing := CoalescingIdle\<rparr>) (clear_timeout t s)"
  let ?v = "bumpSourceVersionOnly env oid (pc_versions p) (truthy (pc_latest p)) ?u"
  let ?s = "updateHealthForSubscription oid ?v"
  have u: "signal_version ?u oid = signal_version s oid" by (simp add: signal_version_def fun_eq_iff)
  have e: "mg_events ?u = mg_events s" by (simp add: put_protocol_def put_sub_def clear_timeout_def)
  have read: "signal_version ?s oid clock = (case map_of (pc_versions p) clock of Some v \<Rightarrow> Some v | None \<Rightarrow> signal_version s oid clock)" for clock
  proof -
    have "signal_version ?s oid clock = signal_version ?v oid clock" by (simp add: signal_version_def)
    also note bump_signal_version [OF d]
    finally show ?thesis unfolding u .
  qed
  have sub: "sub_of ?v = sub_of ?u" using core_sub_of [OF core_bump] .
  have idle: "ps_coalescing (sb_protocol (sub_of ?s oid)) = CoalescingIdle"
    using assms(2) by (simp add: sub sub_of_put_protocol)
  have signal: "StreamSignalEvent (sb_domain (sub_of s oid)) (sb_store_scope (sub_of s oid)) \<in> set (drop (length (mg_events s)) (mg_events ?s))"
    if c: "clock \<in> set (doorbellSourceClocks (sb_domain (sub_of s oid)))" and changed: "signal_version ?s oid clock \<noteq> signal_version s oid clock" for clock
  proof -
    obtain v where v: "map_of (pc_versions p) clock = Some v" "signal_version s oid clock \<noteq> Some v"
      using changed unfolding read by (auto split: option.splits)
    have "advancesDeclaredClock (sb_domain (sub_of ?u oid)) (ds_signal_versions (getScopedDomainState (mg_store ?u)
        (sb_domain (sub_of ?u oid)) (sb_store_scope (sub_of ?u oid)))) (pc_versions p)"
      using c v unfolding advances_iff signal_version_def by auto
    then have "mg_events ?v = mg_events s @ [StreamSignalEvent (sb_domain (sub_of s oid)) (sb_store_scope (sub_of s oid))]"
      using bump_events [of env oid "pc_versions p" "truthy (pc_latest p)" ?u] e by simp
    with health_events [of oid ?v] show ?thesis by auto
  qed
  have "fire_timer env t (FlushTimer oid) s = Some ?s" using flush_result [OF assms(2-4)] .
  with read idle signal show ?thesis by blast
qed

theorem flush_reports_pending_versions_witness:
  "\<exists>s'. fire_timer demo_env 1 (FlushTimer 0) demo = Some s' \<and> signal_version s' 0 ObjectClock = Some ''7''"
  using flush_reports_pending_versions [OF demo_reachable, of 0 1
      "\<lparr>pc_count = 1, pc_versions = [(ObjectClock, ''7'')], pc_latest = Some ''7''\<rparr>" demo_env] demo_state
  by auto

section \<open>Routing\<close>

text \<open>Every server type has a canonical message.\<close>

lemma canonicalMessage_total:
  assumes "js_field wire ''type'' = JString ty" and "ty \<in> set message_types - {''REQUEST'', ''CANCEL''}"
  shows "\<exists>message. canonicalMessage wire domain (resolveModernSignal wire domain) = Some message"
proof -
  define signal where "signal = (case resolveModernSignal wire domain of Some s \<Rightarrow> Some s | None \<Rightarrow> legacySignal (js_field wire ''type''))"
  have modern: "resolveModernSignal wire domain \<in> insert None (Some ` set stream_signals)"
    by (simp add: resolveModernSignal_def hasSignalType_def split: option.split)
  have legacy: "legacySignal (JString ty) \<in> Some ` set stream_signals" if "ty \<noteq> ''ACK''" "ty \<noteq> ''HEARTBEAT''"
    using assms(2) that by (simp add: message_types_def legacySignal_def stream_signals_def) (elim disjE; simp)
  have "ty \<in> {''ACK'', ''HEARTBEAT''} \<or> signal \<in> Some ` set stream_signals"
    using modern legacy assms(1) by (cases "resolveModernSignal wire domain") (auto simp: signal_def)
  then show ?thesis
    using assms(1) by (auto simp: canonicalMessage_def Let_def signal_def [symmetric] stream_signals_def)
qed

text \<open>A server message that names a subscription the way its request did (the cluster, the domain and the store scope that
  \<open>buildRequestMessage\<close> sends), with a type the server may send, reaches exactly that subscription.\<close>

theorem server_echo_is_routed:
  assumes "manager_reachable s" and "map_of (mg_table s) k = Some oid"
    and "buildRequestMessage (sub_of s oid) = RequestMessage cluster domain scope rv sq"
    and "js_field wire ''clusterId'' = JString cluster" and "js_field wire ''domain'' = JString domain"
    and "js_field wire ''scope'' = JString scope"
    and "js_string (js_field wire ''type'') = Some ty" and "ty \<in> set message_types - {''REQUEST'', ''CANCEL''}"
    and "text_or_nullish (js_field wire ''version'')" and "text_or_nullish (js_field wire ''clusterName'')"
    and "\<forall>clock. isResourceStreamSourceClock (js_field wire ''source'') = Some clock \<longrightarrow> domainSupportsSourceClock domain clock"
  shows "\<exists>message. canonicalMessage wire domain (resolveModernSignal wire domain) = Some message \<and>
    resolveSubscriptionMessage s wire =
      Some (\<lparr>nm_cluster = cluster, nm_cluster_name = trimmed_or_none (js_field wire ''clusterName''), nm_domain = domain,
             nm_scope = sb_normalized_scope (sub_of s oid), nm_message = message\<rparr>, oid)"
proof -
  have table: "table_ok s" using reachable_inv [OF assms(1)] by (simp add: manager_inv_def manager_wf_def)
  have key: "sb_key (sub_of s oid) = k" and "oid < length (mg_objects s)" using table_lookup_key [OF table assms(2)] by simp_all
  then have ok: "sub_ok (sub_of s oid)" using table by (simp add: table_ok_def sub_of_def)
  have parts: "cluster = sb_cluster (sub_of s oid)" "domain = sb_domain (sub_of s oid)" "scope = sb_store_scope (sub_of s oid)"
    using assms(3) by (simp_all add: buildRequestMessage_def)
  have cluster: "wf_cluster cluster" and c: "trim cluster = cluster" "cluster \<noteq> []"
    using ok parts by (auto simp: sub_ok_def wf_cluster_def)
  have scope: "normalizeScope domain (JString scope) cluster = Some (sb_normalized_scope (sub_of s oid))"
    using ok parts parseClusterScope_print [OF cluster] by (auto simp: normalizeScope_def sub_ok_def)
  have type: "js_field wire ''type'' = JString ty" using assms(7) by (cases "js_field wire ''type''") simp_all
  have source: "isResourceStreamSourceClock (js_field wire ''source'') = None \<or> canonicalSource domain (js_field wire ''source'') \<noteq> None"
    using assms(11) by (cases "isResourceStreamSourceClock (js_field wire ''source'')") (simp_all add: canonicalSource_def)
  obtain message where message: "canonicalMessage wire domain (resolveModernSignal wire domain) = Some message"
    using canonicalMessage_total [OF type assms(8)] by blast
  show ?thesis
    using message assms ok parts key c scope source type
    by (simp add: resolveSubscriptionMessage_def normalizeResourceStreamProtocolMessage_def sub_ok_def hasMessageType_def)
qed


theorem server_echo_is_routed_witness:
  "\<exists>normalized. resolveSubscriptionMessage demo demo_change = Some (normalized, 0)"
proof -
  have clock: "domainSupportsSourceClock ''nodes'' ObjectClock" by code_simp
  show ?thesis
    using server_echo_is_routed [OF demo_reachable, of "''c::nodes::''" 0 "''c''" "''nodes''" "''c|''"
        "big_int_token (ps_resource_version (sb_protocol (sub_of demo 0)))"
        "big_int_token (ps_last_sequence (sb_protocol (sub_of demo 0)))" demo_change "''MODIFIED''"] demo_state clock
    by (auto simp: buildRequestMessage_def demo_change_def message_types_def text_or_nullish_def isResourceStreamSourceClock_def)
qed

section \<open>Closing a cluster\<close>

text \<open>When a cluster is closed its streams stop at once: the call returns, exactly the subscriptions of the other
  clusters remain, and every unsubscribe that is still put off belongs to one of those.\<close>

theorem pruned_cluster_leaves_nothing:
  assumes "manager_reachable s"
  shows "\<exists>t. stopCluster env clusterId s = Some t \<and>
    set (table_values t) = {oid \<in> set (table_values s). sb_cluster (sub_of s oid) \<noteq> trim clusterId} \<and>
    (\<forall>k \<in> fst ` set (mg_pending t). \<exists>oid. map_of (mg_table t) k = Some oid \<and> oid \<in> set (table_values s) \<and>
       sb_cluster (sub_of s oid) \<noteq> trim clusterId)"
proof -
  obtain t where t: "stopCluster env clusterId s = Some t" "manager_inv {} t"
      "set (table_values t) = {oid \<in> set (table_values s). sb_cluster (sub_of s oid) \<noteq> trim clusterId}"
    using stop_cluster_run [OF reachable_inv [OF assms], of env clusterId] by (auto simp: returns_with_def)
  have "\<exists>oid. map_of (mg_table t) k = Some oid" if k: "k \<in> fst ` set (mg_pending t)" for k
  proof -
    obtain i where "map_of (mg_pending t) k = Some i" using k by (cases "map_of (mg_pending t) k") (auto simp: map_of_eq_None_iff)
    moreover have "pending_ok t" using t(2) by (simp add: manager_inv_def manager_wf_def)
    ultimately show ?thesis unfolding pending_ok_def by blast
  qed
  moreover have "oid \<in> set (table_values t)" if "map_of (mg_table t) k = Some oid" for k oid
    using map_of_SomeD [OF that] by (force simp: table_values_def)
  ultimately show ?thesis using t by blast
qed

theorem pruned_cluster_leaves_nothing_witness:
  "\<exists>t. stopCluster demo_env '' c '' demo = Some t \<and> table_values t = []"
proof -
  have c: "trim '' c '' = ''c''" by code_simp
  have table: "table_ok demo" using reachable_inv [OF demo_reachable] by (simp add: manager_inv_def manager_wf_def)
  have "oid < length (mg_objects demo)" if "oid \<in> set (table_values demo)" for oid
    using that table_value_lookup [OF table, of oid] table_lookup_key [OF table] by blast
  then have one: "oid = 0" if "oid \<in> set (table_values demo)" for oid using that demo_state by simp
  obtain t where t: "stopCluster demo_env '' c '' demo = Some t"
      "set (table_values t) = {oid \<in> set (table_values demo). sb_cluster (sub_of demo oid) \<noteq> trim '' c ''}"
    using pruned_cluster_leaves_nothing [OF demo_reachable, of demo_env "'' c ''"] by blast
  have "set (table_values t) = {}" using one demo_state unfolding t(2) c by auto
  then show ?thesis using t(1) by simp
qed

section \<open>Telemetry\<close>

lemma accumulate_counts [simp]:
  "su_resyncs (accumulateStreamTelemetry summary stats) = su_resyncs summary + tl_resyncs stats"
  "su_fallbacks (accumulateStreamTelemetry summary stats) = su_fallbacks summary + tl_fallbacks stats"
  by (simp_all add: accumulateStreamTelemetry_def Let_def)

lemma sum_update:
  fixes f :: "'v \<Rightarrow> nat"
  assumes "f v = (case map_of m k of None \<Rightarrow> 0 | Some x \<Rightarrow> f x) + d"
  shows "sum_list (map (f \<circ> snd) (AList.update k v m)) = sum_list (map (f \<circ> snd) m) + d"
  using assms by (induction m) auto

lemma add_to_summary_counts:
  "sum_list (map (su_resyncs \<circ> snd) (add_to_summary m stats)) = sum_list (map (su_resyncs \<circ> snd) m) + tl_resyncs stats"
  "sum_list (map (su_fallbacks \<circ> snd) (add_to_summary m stats)) = sum_list (map (su_fallbacks \<circ> snd) m) + tl_fallbacks stats"
  unfolding add_to_summary_def Let_def by (rule sum_update; simp add: empty_summary_def split: option.split)+

text \<open>The rows of the diagnostics view add up to the overall summary: no resync and no fallback is counted twice or lost.\<close>

lemma telemetry_rows_add_up:
  "sum_list (map (su_resyncs \<circ> snd) (getTelemetrySummaryByClusterDomain s)) = su_resyncs (getTelemetrySummary s)"
  "sum_list (map (su_fallbacks \<circ> snd) (getTelemetrySummaryByClusterDomain s)) = su_fallbacks (getTelemetrySummary s)"
proof -
  have "sum_list (map (su_resyncs \<circ> snd) (foldl add_to_summary m xs)) + su_resyncs a =
      sum_list (map (su_resyncs \<circ> snd) m) + su_resyncs (foldl accumulateStreamTelemetry a xs)"
    "sum_list (map (su_fallbacks \<circ> snd) (foldl add_to_summary m xs)) + su_fallbacks a =
      sum_list (map (su_fallbacks \<circ> snd) m) + su_fallbacks (foldl accumulateStreamTelemetry a xs)" for m a xs
    by (induction xs arbitrary: m a rule: rev_induct) (simp_all add: add_to_summary_counts)
  from this [of "[]" _ empty_summary]
  show "sum_list (map (su_resyncs \<circ> snd) (getTelemetrySummaryByClusterDomain s)) = su_resyncs (getTelemetrySummary s)"
    "sum_list (map (su_fallbacks \<circ> snd) (getTelemetrySummaryByClusterDomain s)) = su_fallbacks (getTelemetrySummary s)"
    by (simp_all add: getTelemetrySummaryByClusterDomain_def getTelemetrySummary_def empty_summary_def)
qed

section \<open>A late close event\<close>

text \<open>What the connections are to the sockets. Calls that neither connect nor report a failed connection leave all of it.\<close>

definition links where
  "links s = (mg_connection s, mg_sockets s, mg_closed s,
     map (\<lambda>c. (cn_socket c, cn_closed c, cn_paused c)) (mg_connections s))"

fun inner_call :: "manager_call \<Rightarrow> bool" where
  "inner_call (Connect cid) = False"
| "inner_call (ConnectionFailed cid message) = False"
| "inner_call call = True"

lemma links_put_conn:
  assumes "cn_socket c = cn_socket (conn_of s cid)" "cn_closed c = cn_closed (conn_of s cid)" "cn_paused c = cn_paused (conn_of s cid)"
  shows "links (put_conn cid c s) = links s"
proof -
  let ?f = "\<lambda>c. (cn_socket c, cn_closed c, cn_paused c)"
  have "?f c = ?f (mg_connections s ! cid)" using assms by (simp add: conn_of_def)
  then have "map ?f ((mg_connections s)[cid := c]) = map ?f ((mg_connections s)[cid := mg_connections s ! cid])"
    by (simp only: map_update)
  then show ?thesis by (simp add: links_def put_conn_def)
qed

lemma links_quiet [simp]:
  "links (put_protocol oid st s) = links s" "links (set_timeout a s) = links s" "links (clear_timeout t s) = links s"
  "links (updateHealthForSubscription oid s) = links s" "links (update_snapshot oid f s) = links s"
  "links (clearStreamError c s) = links s" "links (s\<lparr>mg_events := es\<rparr>) = links s" "links (s\<lparr>mg_legacy := k\<rparr>) = links s"
  "links (s\<lparr>mg_connected := b, mg_last_error := e\<rparr>) = links s" "links (put_telemetry oid st' s) = links s"
  "links (s\<lparr>mg_sent := sent\<rparr>) = links s"
  by (simp_all add: links_def put_protocol_def put_sub_def set_timeout_def clear_timeout_def health_set_def Let_def
      updateHealthForSubscription_def update_snapshot_def clearStreamError_def put_telemetry_def split: option.split)

lemma links_marks [simp]:
  fixes s :: "'p stream_manager"
  shows
  "links (bumpSourceVersionOnly env oid versions latest s) = links s"
  "links (bumpLegacyResyncSourceVersion env oid s) = links s" "links (markResyncing oid s) = links s"
  "links (markResyncComplete env oid s) = links s" "links (recordResync env oid reason s) = links s"
proof -
  show bump: "links (bumpSourceVersionOnly env oid versions latest s) = links s" for s :: "'p stream_manager" and versions latest
    by (simp add: bumpSourceVersionOnly_def Let_def)
  show "links (bumpLegacyResyncSourceVersion env oid s) = links s"
    by (simp add: bumpLegacyResyncSourceVersion_def bump Let_def split: option.split)
  show "links (markResyncing oid s) = links s" "links (markResyncComplete env oid s) = links s"
    by (simp_all add: markResyncing_def markResyncComplete_def)
  show "links (recordResync env oid reason s) = links s" by (simp add: recordResync_def Let_def)
qed

lemma links_markError [simp]:
  fixes s :: "'p stream_manager"
  shows "links (markConnectionError message s) = links s"
proof -
  have "links (fold updateHealthForSubscription oids t) = links t" for oids and t :: "'p stream_manager"
    by (induction oids arbitrary: t) simp_all
  then show ?thesis by (simp add: markConnectionError_def updateAllHealth_def)
qed

lemma links_send [simp]: "links (send env cid message s) = links s"
  by (simp add: send_def links_put_conn split: option.split)

lemma links_for_each:
  assumes "for_each f xs s = Some t" and "\<And>x u v. f x u = Some v \<Longrightarrow> links u = links s \<Longrightarrow> links v = links s"
  shows "links t = links s"
proof -
  have "for_each f xs u = Some t \<Longrightarrow> links u = links s \<Longrightarrow> links t = links s" for u
    by (induction xs arbitrary: u) (auto split: option.splits dest: assms(2))
  with assms(1) show ?thesis by blast
qed

lemma connection_links: "links s = links t \<Longrightarrow> mg_connection s = mg_connection t"
  by (simp add: links_def)

lemma call_links:
  fixes s t :: "'p stream_manager"
  assumes "run_call n env call s = Some t" and "inner_call call" and "mg_connection s = Some cid"
  shows "links t = links s"
  using assms
proof (induction n arbitrary: call s t)
  case (Suc n)
  have keep: "links v = links s" if "run_call n env c u = Some v" "inner_call c" "links u = links s" for c and u v :: "'p stream_manager"
    using Suc.IH [OF that(1,2)] connection_links [OF that(3)] Suc.prems(3) that(3) by simp
  show ?case
  proof (cases call)
    case (ApplyEvent oid event)
    with Suc.prems(1) show ?thesis
      by (auto simp: run_call_cases applyProtocolEvent_def Let_def dest!: links_for_each) (erule keep; simp)
  next
    case (RunEffect oid effect)
    with Suc.prems(1) show ?thesis
      by (cases effect) (auto simp: run_call_cases runProtocolEffect_def dest: keep)
  next
    case (Resync oid reason force err)
    show ?thesis
    proof (cases "run_call n env (ApplyEvent oid (resync_event env reason force err)) s")
      case None
      with Resync Suc.prems(1) show ?thesis by (simp add: run_call_cases resyncSubscription_def Let_def split: if_splits)
    next
      case (Some s1)
      then have s1: "links s1 = links s" using keep by simp
      have completed: "links v = links s"
        if "run_call n env (ApplyEvent oid ResyncCompleted) (recordResync env oid reason s1) = Some v" for v
        using keep [OF that] s1 by simp
      from Resync Some Suc.prems(1) s1 show ?thesis
        by (auto simp: run_call_cases resyncSubscription_def Let_def dest: completed split: if_splits)
    qed
  next
    case (Subscribe oid)
    with Suc.prems(1,3) show ?thesis
      by (auto simp: run_call_cases subscribe_stream_def getConnection_def Let_def dest: keep split: if_splits)
  next
    case (ConnectionError message)
    with Suc.prems(1) show ?thesis
      by (auto simp: run_call_cases handleConnectionError_def dest!: links_for_each) (erule keep; simp)
  qed (use Suc.prems(2) in simp_all)
qed simp

text \<open>The connections that hold a socket.\<close>

definition socket_holders :: "'p stream_manager \<Rightarrow> nat \<Rightarrow> nat list" where
  "socket_holders s sid = filter (\<lambda>cid. cn_socket (conn_of s cid) = Some sid) [0..<length (mg_connections s)]"

lemma links_conn:
  assumes "links t = links s" and "cid < length (mg_connections s)"
  shows "cn_socket (conn_of t cid) = cn_socket (conn_of s cid)" "cn_closed (conn_of t cid) = cn_closed (conn_of s cid)"
    "cn_paused (conn_of t cid) = cn_paused (conn_of s cid)" "length (mg_connections t) = length (mg_connections s)"
    "mg_sockets t = mg_sockets s" "mg_closed t = mg_closed s"
proof -
  let ?f = "\<lambda>c. (cn_socket c, cn_closed c, cn_paused c)"
  have same: "map ?f (mg_connections t) = map ?f (mg_connections s)" "mg_sockets t = mg_sockets s" "mg_closed t = mg_closed s"
    using assms(1) by (simp_all add: links_def)
  from same(1) have len: "length (mg_connections t) = length (mg_connections s)" by (rule map_eq_imp_length_eq)
  from same(1) have "map ?f (mg_connections t) ! cid = map ?f (mg_connections s) ! cid" by (rule arg_cong)
  then have "?f (conn_of t cid) = ?f (conn_of s cid)" using assms(2) len by (simp add: conn_of_def)
  with same len show "cn_socket (conn_of t cid) = cn_socket (conn_of s cid)" "cn_closed (conn_of t cid) = cn_closed (conn_of s cid)"
    "cn_paused (conn_of t cid) = cn_paused (conn_of s cid)" "length (mg_connections t) = length (mg_connections s)"
    "mg_sockets t = mg_sockets s" "mg_closed t = mg_closed s" by simp_all
qed

lemma links_scheduleReconnect: "links (scheduleReconnect cid s) = links s"
proof -
  have "links (clearReconnect cid s) = links s"
    using links_put_conn [of "(conn_of s cid)\<lparr>cn_reconnect := None\<rparr>" "clear_timeout _ s" cid]
    by (simp add: clearReconnect_def split: option.split)
  then show ?thesis by (simp add: scheduleReconnect_def Let_def links_put_conn)
qed

lemma reconnect_armed:
  assumes "conn_wf s" and "cid < length (mg_connections s)" and "\<not> cn_closed (conn_of s cid)" "\<not> cn_paused (conn_of s cid)"
  shows "map_of (mg_timers (scheduleReconnect cid s)) (mg_next_timer (clearReconnect cid s)) = Some (ReconnectTimer cid)"
proof -
  have "map_of (mg_timers (clearReconnect cid s)) (mg_next_timer (clearReconnect cid s)) = None"
    using clearReconnect_keeps [OF assms(1,2)] by (auto simp: conn_wf_def timers_fresh_def map_of_eq_None_iff)
  with assms(3,4) show ?thesis by (simp add: scheduleReconnect_def Let_def set_timeout_def map_add_def)
qed

text \<open>A reconnect timer that fires on a connection that has a socket gives it another one, and closes none.\<close>

lemma reconnect_replaces:
  fixes s :: "'p stream_manager"
  assumes "cid < length (mg_connections s)" and "\<not> cn_closed (conn_of s cid)" "\<not> cn_paused (conn_of s cid)"
    and "map_of (mg_timers s) t = Some (ReconnectTimer cid)" and "ce_open_error env = None"
  shows "\<exists>u. manager_step env (TimerOp t) s = Some u \<and> mg_sockets u = mg_sockets s @ [cid] \<and> mg_closed u = mg_closed s \<and>
    length (mg_connections u) = length (mg_connections s) \<and>
    (\<forall>d. cn_socket (conn_of u d) = (if d = cid then Some (length (mg_sockets s)) else cn_socket (conn_of s d)))"
proof -
  let ?s = "put_conn cid ((conn_of s cid)\<lparr>cn_reconnect := None\<rparr>) (clear_timeout t s)"
  have conn: "conn_of ?s d = (if d = cid then (conn_of s cid)\<lparr>cn_reconnect := None\<rparr> else conn_of s d)" for d
    using assms(1) by (simp add: conn_of_put_conn)
  have sockets: "conn_of (u\<lparr>mg_sockets := x\<rparr>) = conn_of u" for u :: "'p stream_manager" and x
    by (simp add: conn_of_def fun_eq_iff)
  have closed: "mg_closed ?s = mg_closed s" by (simp add: put_conn_def clear_timeout_def)
  have "manager_step env (TimerOp t) s = Some (open_socket cid ?s)"
    using assms conn
    by (simp add: manager_step_def fire_timer_def Let_def make_call_def call_depth_def numeral_eq_Suc run_call_cases connect_def)
  moreover have "conn_of (open_socket cid ?s) d =
      (if d = cid then (conn_of ?s cid)\<lparr>cn_socket := Some (length (mg_sockets s))\<rparr> else conn_of ?s d)" for d
    using assms(1) sockets by (simp add: open_socket_def conn_of_put_conn)
  moreover have "mg_closed (open_socket cid ?s) = mg_closed s"
    using closed by (simp add: open_socket_def put_conn_def)
  moreover have "mg_sockets (open_socket cid ?s) = mg_sockets s @ [cid]"
    "length (mg_connections (open_socket cid ?s)) = length (mg_connections s)"
    by (simp_all add: open_socket_def)
  ultimately show ?thesis using conn by simp
qed

text \<open>C40: the event handlers of a socket are not tied to it. Take any reachable state in which the manager's connection
  is neither closed nor paused and is the only one to hold an open socket. When the close event of another socket, which
  this connection had opened and closed before, arrives now, the connection takes it for a failure of the open one: it arms
  a reconnect, and when that fires and opening works, a further socket is opened and held. The socket the connection
  had was not closed, and no connection holds it any more.\<close>

theorem late_close_leaks_a_socket:
  assumes "manager_reachable s" and "sid < length (mg_sockets s)" and "sid \<in> set (mg_closed s)"
    and "mg_connection s = Some (mg_sockets s ! sid)"
    and "\<not> cn_closed (conn_of s (mg_sockets s ! sid))" "\<not> cn_paused (conn_of s (mg_sockets s ! sid))"
    and "socket_holders s live = [mg_sockets s ! sid]" and "live < length (mg_sockets s)" and "live \<notin> set (mg_closed s)"
    and "ce_open_error env' = None"
  shows "\<exists>s1 t s2. manager_step env (SocketFailedOp sid message) s = Some s1 \<and>
    map_of (mg_timers s1) t = Some (ReconnectTimer (mg_sockets s ! sid)) \<and>
    manager_step env' (TimerOp t) s1 = Some s2 \<and>
    mg_sockets s2 = mg_sockets s @ [mg_sockets s ! sid] \<and> socket_holders s2 (length (mg_sockets s)) \<noteq> [] \<and>
    socket_holders s2 live = [] \<and> live \<notin> set (mg_closed s2)"
proof -
  let ?cid = "mg_sockets s ! sid"
  have inv: "manager_inv {} s" by (rule reachable_inv [OF assms(1)])
  have cid: "?cid < length (mg_connections s)" by (rule inv_connection_range [OF inv assms(4)])
  obtain r where r: "run_call 19 env (ConnectionError message) s = Some r" "manager_inv {} r"
    using calls.connection_error_run [of 19 "{}" s env message] inv by (auto simp: returns_with_def keeps_inv_def)
  let ?s1 = "scheduleReconnect ?cid r" and ?t = "mg_next_timer (clearReconnect ?cid r)"
  have s1: "manager_step env (SocketFailedOp sid message) s = Some ?s1"
    using r(1) assms(5,6)
    by (simp add: manager_step_def make_call_def call_depth_def run_call_cases handleError_def numeral_eq_Suc)
  have links: "links r = links s" "links ?s1 = links s"
    using call_links [OF r(1) _ assms(4)] links_scheduleReconnect [of ?cid r] by simp_all
  note conn = links_conn [OF links(2)] and same = links_conn [OF links(2) cid] and before = links_conn [OF links(1) cid]
  have t: "map_of (mg_timers ?s1) ?t = Some (ReconnectTimer ?cid)"
    using cid assms(5,6) before by (intro reconnect_armed [OF inv_conn_wf [OF r(2)]]) simp_all
  obtain s2 where s2: "manager_step env' (TimerOp ?t) ?s1 = Some s2" "mg_sockets s2 = mg_sockets ?s1 @ [?cid]"
      "mg_closed s2 = mg_closed ?s1" "length (mg_connections s2) = length (mg_connections ?s1)"
      "\<And>d. cn_socket (conn_of s2 d) = (if d = ?cid then Some (length (mg_sockets ?s1)) else cn_socket (conn_of ?s1 d))"
    using reconnect_replaces [of ?cid ?s1 ?t env'] cid same assms(5,6,10) t by auto
  have one: "d = ?cid \<longleftrightarrow> cn_socket (conn_of s d) = Some live" if "d < length (mg_connections s)" for d
  proof -
    have "d \<in> set (socket_holders s live) \<longleftrightarrow> d = ?cid" unfolding assms(7) by simp
    with that show ?thesis by (simp add: socket_holders_def)
  qed
  have "cn_socket (conn_of s2 d) \<noteq> Some live" if "d < length (mg_connections s2)" for d
    using that conn [of d] one [of d] s2(4,5) same(4,5) assms(8) by auto
  then have none: "socket_holders s2 live = []" by (simp add: socket_holders_def filter_empty_conv)
  have "?cid \<in> set (socket_holders s2 (length (mg_sockets s)))"
    using cid same s2(4,5) by (simp add: socket_holders_def)
  with none s1 t s2 same assms(9) show ?thesis by (auto intro!: exI)
qed

definition resumed_run :: "nat stream_manager option" where
  "resumed_run = run_ops demo_env [StartOp ''nodes'' ''c|'', SocketOpenedOp 0, HiddenOp, VisibleOp, SocketOpenedOp 1] demo_initial"

lemma resumed_facts:
  "case resumed_run of None \<Rightarrow> False | Some s \<Rightarrow>
     mg_sockets s = [0, 0] \<and> mg_closed s = [0] \<and> mg_connection s = Some 0 \<and> \<not> cn_closed (conn_of s 0) \<and>
     \<not> cn_paused (conn_of s 0) \<and> socket_holders s 1 = [0]"
  by code_simp

theorem late_close_leaks_a_socket_witness:
  "\<exists>s s1 t s2. resumed_run = Some s \<and> manager_step demo_env (SocketFailedOp 0 ''closed'') s = Some s1 \<and>
     manager_step demo_env (TimerOp t) s1 = Some s2 \<and> mg_sockets s2 = [0, 0, 0] \<and> socket_holders s2 1 = [] \<and>
     1 \<notin> set (mg_closed s2)"
proof -
  obtain s where s: "resumed_run = Some s" using resumed_facts by (cases resumed_run) simp_all
  have reachable: "manager_reachable s" using run_ops_reachable [OF demo_initial_reachable s [unfolded resumed_run_def]] .
  have facts: "mg_sockets s = [0, 0]" "mg_closed s = [0]" "mg_connection s = Some 0" "\<not> cn_closed (conn_of s 0)"
    "\<not> cn_paused (conn_of s 0)" "socket_holders s 1 = [0]"
    using resumed_facts unfolding s by simp_all
  have open_works: "ce_open_error demo_env = None" by (simp add: demo_env_def)
  show ?thesis
    using late_close_leaks_a_socket [OF reachable, of 0 1 demo_env demo_env "''closed''"] facts open_works s by simp blast
qed

end
