(* ===== verification/Log_Buffer.thy ===== *)
theory Log_Buffer
  imports Error_Status "HOL-Library.Word" "HOL-Library.List_Lexorder"
begin

text \<open>
  The buffer of one log view: \<open>LogBuffer\<close>, \<open>HeldValues\<close> and the resume points of
  \<open>core/refresh/streaming/containerLogsStreamManager.ts\<close>. It keeps the entries in timestamp order within a count and a byte
  limit. A log line is its list of UTF-16 units, and sort keys are compared unit by unit as JavaScript compares strings.
  The numbers \<open>bytes\<close> and \<open>received\<close> are integers, so that a wrong count would show. The array that \<open>values\<close> hands
  out has a number of its own: a view renders again when it changes. \<open>selectionKey\<close> is the pair that the source turns into
  JSON text. Warnings and issues are validated wire values.
\<close>

section \<open>Text\<close>

type_synonym utf16 = "16 word list"

definition utf16_units :: "string \<Rightarrow> utf16" where
  "utf16_units s = map (\<lambda>c. word_of_int (of_char c)) s"

text \<open>\<open>codePointAt(0)\<close> of a non-empty text.\<close>

fun codePointAt :: "utf16 \<Rightarrow> int" where
  "codePointAt [] = 0"
| "codePointAt [u] = uint u"
| "codePointAt (u # v # us) =
     (if 0xD800 \<le> uint u \<and> uint u < 0xDC00 \<and> 0xDC00 \<le> uint v \<and> uint v < 0xE000
      then (uint u - 0xD800) * 0x400 + (uint v - 0xDC00) + 0x10000
      else uint u)"

function utf8Length :: "utf16 \<Rightarrow> nat" where
  "utf8Length [] = 0"
| "utf8Length (u # us) =
     (let code = codePointAt (u # us)
      in if code < 0x80 then 1 + utf8Length us
         else if code < 0x800 then 2 + utf8Length us
         else if code < 0x10000 then 3 + utf8Length us
         else 4 + utf8Length (drop 1 us))"
  by pat_completeness auto
termination by (relation "measure length") auto

section \<open>Entries and sort keys\<close>

record wire_entry =
  we_timestamp :: string
  we_pod :: string
  we_container :: string
  we_line :: utf16
  we_is_init :: bool
  we_is_ephemeral :: "bool option"

record log_entry =
  le_wire :: wire_entry
  le_seq :: nat

definition ephemeral :: "wire_entry \<Rightarrow> bool" where
  "ephemeral e \<longleftrightarrow> we_is_ephemeral e = Some True"

definition is_digit :: "char \<Rightarrow> bool" where
  "is_digit c \<longleftrightarrow> 48 \<le> (of_char c :: nat) \<and> (of_char c :: nat) \<le> 57"

text \<open>A pattern stands for a digit with \<open>d\<close> and for itself with any other character.\<close>

definition follows :: "string \<Rightarrow> string \<Rightarrow> bool" where
  "follows pat s \<longleftrightarrow> list_all2 (\<lambda>p c. if p = CHR ''d'' then is_digit c else c = p) pat s"

definition matches_seconds :: "string \<Rightarrow> bool" where
  "matches_seconds s \<longleftrightarrow> follows ''dddd-dd-ddTdd:dd:dd'' s"

text \<open>\<open>TIMESTAMP_PATTERN\<close>: the groups of a match, the fraction empty where it is missing.\<close>

definition match_timestamp :: "string \<Rightarrow> (string \<times> string) option" where
  "match_timestamp t =
     (let seconds = take 19 t; rest = drop 19 t
      in if \<not> matches_seconds seconds then None
         else if rest = ''Z'' then Some (seconds, [])
         else if 3 \<le> length rest \<and> length rest \<le> 11 \<and> hd rest = CHR ''.'' \<and> last rest = CHR ''Z'' \<and>
           list_all is_digit (butlast (tl rest)) then Some (seconds, butlast (tl rest))
         else None)"

definition UNTIMED_KEY :: utf16 where
  "UNTIMED_KEY = [0xFFFF]"

definition timestampKey :: "string \<Rightarrow> utf16" where
  "timestampKey t =
     (case match_timestamp t of
        Some (seconds, fraction) \<Rightarrow>
          utf16_units (seconds @ ''.'' @ fraction @ replicate (9 - length fraction) CHR ''0'')
      | None \<Rightarrow> UNTIMED_KEY)"

definition entry_key :: "log_entry \<Rightarrow> utf16" where
  "entry_key e = timestampKey (we_timestamp (le_wire e))"

definition line_bytes :: "log_entry \<Rightarrow> nat" where
  "line_bytes e = utf8Length (we_line (le_wire e))"

function upper_bound_loop :: "'k::linorder list \<Rightarrow> 'k \<Rightarrow> nat \<Rightarrow> nat \<Rightarrow> nat" where
  "upper_bound_loop keys key low high =
     (if low < high then
        let middle = (low + high) div 2
        in if keys ! middle \<le> key then upper_bound_loop keys key (middle + 1) high
           else upper_bound_loop keys key low middle
      else low)"
  by pat_completeness auto
termination by (relation "measure (\<lambda>(keys, key, low, high). high - low)") auto

definition upperBound :: "'k::linorder list \<Rightarrow> 'k \<Rightarrow> nat" where
  "upperBound keys key = upper_bound_loop keys key 0 (length keys)"

section \<open>Resume points\<close>

definition RESUME_MAX_LINES :: nat where
  "RESUME_MAX_LINES = 64"

definition RESUME_MAX_BYTES :: nat where
  "RESUME_MAX_BYTES = 64 * 1024"

record resume_run =
  rr_newest :: log_entry
  rr_key :: utf16
  rr_lines :: "utf16 list"
  rr_bytes :: nat
  rr_closed :: bool

record resume_point =
  rp_pod :: string
  rp_container :: string
  rp_is_init :: bool
  rp_is_ephemeral :: bool
  rp_timestamp :: string
  rp_lines :: "utf16 list"

definition js_bool :: "bool \<Rightarrow> string" where
  "js_bool b = (if b then ''true'' else ''false'')"

definition containerIdentity :: "wire_entry \<Rightarrow> string" where
  "containerIdentity e =
     we_pod e @ ''/'' @ we_container e @ ''/'' @ js_bool (we_is_init e) @ ''/'' @ js_bool (ephemeral e)"

definition extendRun :: "resume_run \<Rightarrow> log_entry \<Rightarrow> utf16 \<Rightarrow> resume_run" where
  "extendRun run e key =
     (let bytes = line_bytes e
      in if key \<noteq> rr_key run \<or> RESUME_MAX_LINES \<le> length (rr_lines run) \<or> RESUME_MAX_BYTES < rr_bytes run + bytes
         then run\<lparr>rr_closed := True\<rparr>
         else run\<lparr>rr_lines := rr_lines run @ [we_line (le_wire e)], rr_bytes := rr_bytes run + bytes\<rparr>)"

definition toResumePoint :: "resume_run \<Rightarrow> resume_point" where
  "toResumePoint run =
     (let e = le_wire (rr_newest run)
      in \<lparr>rp_pod = we_pod e, rp_container = we_container e, rp_is_init = we_is_init e,
          rp_is_ephemeral = ephemeral e, rp_timestamp = we_timestamp e, rp_lines = rev (rr_lines run)\<rparr>)"

definition resume_step ::
    "(string, resume_run) js_map \<Rightarrow> log_entry \<times> utf16 \<Rightarrow> (string, resume_run) js_map" where
  "resume_step runs p =
     (let (e, key) = p; k = containerIdentity (le_wire e)
      in if key = UNTIMED_KEY then runs
         else case map_of runs k of
           None \<Rightarrow>
             AList.update k \<lparr>rr_newest = e, rr_key = key, rr_lines = [we_line (le_wire e)], rr_bytes = line_bytes e,
               rr_closed = False\<rparr> runs
         | Some run \<Rightarrow> if rr_closed run then runs else AList.update k (extendRun run e key) runs)"

definition resumePointsFor :: "log_entry list \<Rightarrow> utf16 list \<Rightarrow> resume_point list" where
  "resumePointsFor entries keys = map (toResumePoint \<circ> snd) (foldl resume_step [] (rev (zip entries keys)))"

section \<open>Held values\<close>

record 'v held_values =
  hv_counts :: "(string, 'v \<times> int) js_map"
  hv_list :: "'v list"
  hv_changed :: bool
  hv_array :: nat

definition no_held_values :: "'v held_values" where
  "no_held_values = \<lparr>hv_counts = [], hv_list = [], hv_changed = False, hv_array = 0\<rparr>"

definition read_values :: "'v held_values \<Rightarrow> 'v held_values" where
  "read_values h =
     (if hv_changed h
      then h\<lparr>hv_list := map (fst \<circ> snd) (hv_counts h), hv_changed := False, hv_array := hv_array h + 1\<rparr>
      else h)"

definition holds :: "'v held_values \<Rightarrow> string \<Rightarrow> bool" where
  "holds h key \<longleftrightarrow> map_of (hv_counts h) key \<noteq> None"

definition count_value ::
    "(log_entry \<Rightarrow> string) \<Rightarrow> (log_entry \<Rightarrow> 'v) \<Rightarrow> log_entry \<Rightarrow> int \<Rightarrow> 'v held_values \<Rightarrow> 'v held_values" where
  "count_value keyOf valueOf e delta h =
     (let key = keyOf e;
          held = map_of (hv_counts h) key;
          n = (case held of None \<Rightarrow> 0 | Some (v, c) \<Rightarrow> c) + delta
      in if 0 < n
         then h\<lparr>hv_changed := hv_changed h \<or> held = None,
                hv_counts := AList.update key (case held of None \<Rightarrow> valueOf e | Some (v, c) \<Rightarrow> v, n) (hv_counts h)\<rparr>
         else if held \<noteq> None then h\<lparr>hv_counts := AList.delete key (hv_counts h), hv_changed := True\<rparr>
         else h)"

definition clear_values :: "'v held_values \<Rightarrow> 'v held_values" where
  "clear_values h = h\<lparr>hv_counts := [], hv_changed := True\<rparr>"

record pod_container =
  pc_name :: string
  pc_is_init :: bool
  pc_is_ephemeral :: bool

definition podOf :: "log_entry \<Rightarrow> string" where
  "podOf e = we_pod (le_wire e)"

definition containerKeyOf :: "log_entry \<Rightarrow> string" where
  "containerKeyOf e =
     we_container (le_wire e) @ ''|'' @ js_bool (we_is_init (le_wire e)) @ ''|'' @ js_bool (ephemeral (le_wire e))"

definition containerOf :: "log_entry \<Rightarrow> pod_container" where
  "containerOf e =
     \<lparr>pc_name = we_container (le_wire e), pc_is_init = we_is_init (le_wire e), pc_is_ephemeral = ephemeral (le_wire e)\<rparr>"

section \<open>The buffer\<close>

type_synonym log_selection = "string list \<times> bool"

record log_request =
  lr_scope :: string
  lr_filters :: "string list"
  lr_match_none :: bool
  lr_max_entries :: nat
  lr_max_bytes :: nat
  lr_resume :: "resume_point list"

definition selectionKey :: "log_request \<Rightarrow> log_selection" where
  "selectionKey request = (lr_filters request, lr_match_none request)"

record buffer_basis =
  bb_selection :: log_selection
  bb_max_entries :: nat

record log_buffer =
  lb_entries :: "log_entry list"
  lb_keys :: "utf16 list"
  lb_bytes :: int
  lb_received :: int
  lb_warnings :: "json list"
  lb_issues :: "json list"
  lb_basis :: "buffer_basis option"
  lb_pods :: "string held_values"
  lb_containers :: "pod_container held_values"

definition new_log_buffer :: log_buffer where
  "new_log_buffer =
     \<lparr>lb_entries = [], lb_keys = [], lb_bytes = 0, lb_received = 0, lb_warnings = [], lb_issues = [], lb_basis = None,
      lb_pods = no_held_values, lb_containers = no_held_values\<rparr>"

definition sameEntryContent :: "log_entry list \<Rightarrow> wire_entry list \<Rightarrow> bool" where
  "sameEntryContent left right \<longleftrightarrow>
     list_all2 (\<lambda>l r. let e = le_wire l
        in we_timestamp e = we_timestamp r \<and> we_pod e = we_pod r \<and> we_container e = we_container r \<and>
           we_line e = we_line r \<and> we_is_init e = we_is_init r \<and> ephemeral e = ephemeral r) left right"

definition countHeld :: "log_entry \<Rightarrow> int \<Rightarrow> log_buffer \<Rightarrow> log_buffer" where
  "countHeld e delta b =
     b\<lparr>lb_pods := count_value podOf podOf e delta (lb_pods b),
       lb_containers := count_value containerKeyOf containerOf e delta (lb_containers b)\<rparr>"

definition recountHeld :: "log_buffer \<Rightarrow> log_buffer" where
  "recountHeld b =
     foldl (\<lambda>b e. countHeld e 1 b)
       (b\<lparr>lb_pods := clear_values (lb_pods b), lb_containers := clear_values (lb_containers b)\<rparr>) (lb_entries b)"

definition drop_entry_of_pod ::
    "string set \<Rightarrow> log_buffer \<times> log_entry list \<times> utf16 list \<Rightarrow> log_entry \<times> utf16 \<Rightarrow>
     log_buffer \<times> log_entry list \<times> utf16 list" where
  "drop_entry_of_pod gone acc p =
     (let (b, entries, keys) = acc; (e, key) = p
      in if we_pod (le_wire e) \<in> gone
         then (countHeld e (- 1) (b\<lparr>lb_bytes := lb_bytes b - int (line_bytes e), lb_received := lb_received b - 1\<rparr>),
               entries, keys)
         else (b, entries @ [e], keys @ [key]))"

definition dropPods :: "string list \<Rightarrow> log_buffer \<Rightarrow> log_buffer" where
  "dropPods pods b =
     (let gone = filter (holds (lb_pods b)) pods
      in if gone = [] then b
         else let (b1, entries, keys) =
                foldl (drop_entry_of_pod (set gone)) (b, [], []) (zip (lb_entries b) (lb_keys b))
              in b1\<lparr>lb_entries := entries, lb_keys := keys\<rparr>)"

definition setBasis :: "log_request option \<Rightarrow> log_buffer \<Rightarrow> log_buffer" where
  "setBasis request b =
     b\<lparr>lb_basis := map_option (\<lambda>r. \<lparr>bb_selection = selectionKey r, bb_max_entries = lr_max_entries r\<rparr>) request\<rparr>"

definition limitBasis :: "nat \<Rightarrow> log_buffer \<Rightarrow> log_buffer" where
  "limitBasis maxEntries b =
     b\<lparr>lb_basis := map_option (\<lambda>basis. basis\<lparr>bb_max_entries := min (bb_max_entries basis) maxEntries\<rparr>) (lb_basis b)\<rparr>"

definition resumePoints :: "log_request \<Rightarrow> log_buffer \<Rightarrow> resume_point list" where
  "resumePoints request b =
     (case lb_basis b of
        None \<Rightarrow> []
      | Some basis \<Rightarrow>
          if bb_selection basis \<noteq> selectionKey request \<or> bb_max_entries basis < lr_max_entries request then []
          else resumePointsFor (lb_entries b) (lb_keys b))"

text \<open>\<open>{ ...entry, _seq: nextSeq() }\<close> for each entry, from a counter that was last \<open>seq\<close>.\<close>

primrec numbered_from :: "nat \<Rightarrow> wire_entry list \<Rightarrow> log_entry list" where
  "numbered_from seq [] = []"
| "numbered_from seq (w # ws) = \<lparr>le_wire = w, le_seq = seq + 1\<rparr> # numbered_from (seq + 1) ws"

definition replace_entries :: "wire_entry list \<Rightarrow> int \<Rightarrow> nat \<Rightarrow> log_buffer \<Rightarrow> log_buffer \<times> nat" where
  "replace_entries incoming trimmed seq b =
     (let same = sameEntryContent (lb_entries b) incoming;
          entries = (if same then lb_entries b else numbered_from seq incoming);
          b1 = b\<lparr>lb_entries := entries, lb_keys := map entry_key entries,
                 lb_bytes := int (sum_list (map line_bytes entries)), lb_received := int (length entries) + trimmed\<rparr>
      in (recountHeld b1, if same then seq else seq + length incoming))"

text \<open>The inner loop of \<open>insert\<close>: held entries that sort no later than the next new one are copied.\<close>

function copy_held ::
    "log_entry list \<Rightarrow> utf16 list \<Rightarrow> utf16 \<Rightarrow> nat \<times> log_entry list \<times> utf16 list \<Rightarrow> nat \<times> log_entry list \<times> utf16 list" where
  "copy_held held_entries held_keys key (held, entries, keys) =
     (if held < length held_keys \<and> held_keys ! held \<le> key
      then copy_held held_entries held_keys key
             (held + 1, entries @ [held_entries ! held], keys @ [held_keys ! held])
      else (held, entries, keys))"
  by pat_completeness auto
termination by (relation "measure (\<lambda>(he, hk, key, held, _). length hk - held)") auto

primrec insert_added ::
    "log_entry list \<Rightarrow> utf16 list \<Rightarrow> log_entry list \<Rightarrow> nat \<times> log_entry list \<times> utf16 list \<Rightarrow> log_buffer \<Rightarrow>
     (nat \<times> log_entry list \<times> utf16 list) \<times> log_buffer" where
  "insert_added he hk [] acc b = (acc, b)"
| "insert_added he hk (e # es) acc b =
     (let (held, entries, keys) = copy_held he hk (entry_key e) acc
      in insert_added he hk es (held, entries @ [e], keys @ [entry_key e])
           (countHeld e 1 (b\<lparr>lb_bytes := lb_bytes b + int (line_bytes e)\<rparr>)))"

definition insert_entries :: "wire_entry list \<Rightarrow> nat \<Rightarrow> log_buffer \<Rightarrow> log_buffer \<times> nat" where
  "insert_entries incoming seq b =
     (if incoming = [] then (b, seq)
      else
        let added = sort_key entry_key (numbered_from seq incoming);
            held = upperBound (lb_keys b) (entry_key (hd added));
            ((held1, entries, keys), b1) =
              insert_added (lb_entries b) (lb_keys b) added (held, take held (lb_entries b), take held (lb_keys b)) b
        in (b1\<lparr>lb_entries := entries @ drop held1 (lb_entries b), lb_keys := keys @ drop held1 (lb_keys b),
               lb_received := lb_received b1 + int (length incoming)\<rparr>,
            seq + length incoming))"

definition continueWith :: "wire_entry list \<Rightarrow> int \<Rightarrow> nat \<Rightarrow> log_buffer \<Rightarrow> log_buffer \<times> nat" where
  "continueWith incoming trimmed seq b =
     (let (b1, seq1) = insert_entries incoming seq b
      in (b1\<lparr>lb_received := lb_received b1 + trimmed\<rparr>, seq1))"

function evict_loop :: "log_entry list \<Rightarrow> nat \<Rightarrow> nat \<Rightarrow> int \<Rightarrow> nat \<times> int" where
  "evict_loop entries maxBytes n bytes =
     (if int maxBytes < bytes \<and> n < length entries
      then evict_loop entries maxBytes (n + 1) (bytes - int (line_bytes (entries ! n)))
      else (n, bytes))"
  by pat_completeness auto
termination by (relation "measure (\<lambda>(es, m, n, _). length es - n)") auto

definition evict :: "nat \<Rightarrow> nat \<Rightarrow> log_buffer \<Rightarrow> log_buffer" where
  "evict maxEntries maxBytes b =
     (let over = length (lb_entries b) - maxEntries;
          (n, bytes) = evict_loop (lb_entries b) maxBytes over
            (lb_bytes b - int (sum_list (map line_bytes (take over (lb_entries b)))))
      in if n = 0 then b
         else (foldl (\<lambda>b e. countHeld e (- 1) b) b (take n (lb_entries b)))
                \<lparr>lb_entries := drop n (lb_entries b), lb_keys := drop n (lb_keys b), lb_bytes := bytes\<rparr>)"

definition truncation :: "log_buffer \<Rightarrow> (nat \<times> int) option" where
  "truncation b =
     (if int (length (lb_entries b)) < lb_received b then Some (length (lb_entries b), lb_received b) else None)"

end
