(* ===== verification/Log_Protocol.thy ===== *)
theory Log_Protocol
  imports Log_Buffer
begin

text \<open>
  The container-logs protocol, \<open>core/refresh/streaming/containerLogsStreamProtocol.ts\<close>: the validation of a frame and the
  transition function that turns connection events and frames into effects. A frame that passed validation is read into
  the record \<open>log_frame\<close>, in which a list that may be absent or null is an option. Lines are the UTF-16 units of the
  text in the frame.
\<close>

section \<open>Frame validation\<close>

fun is_record :: "json \<Rightarrow> bool" where
  "is_record (JObject _) = True"
| "is_record _ = False"

definition isString :: "json \<Rightarrow> bool" where
  "isString value \<longleftrightarrow> js_string value \<noteq> None"

definition isOptional :: "json \<Rightarrow> (json \<Rightarrow> bool) \<Rightarrow> bool" where
  "isOptional value type \<longleftrightarrow> value = JUndefined \<or> type value"

definition WARNING_KINDS :: "string list" where
  "WARNING_KINDS = [''targetLimit'', ''dropped'']"

definition LIMIT_SCOPES :: "string list" where
  "LIMIT_SCOPES = [''perTab'', ''global'']"

definition ISSUE_STATES :: "string list" where
  "ISSUE_STATES = [''unavailable'', ''forbidden'', ''failed'']"

definition isOneOf :: "json \<Rightarrow> string list \<Rightarrow> bool" where
  "isOneOf value allowed = (case js_string value of None \<Rightarrow> False | Some s \<Rightarrow> s \<in> set allowed)"

definition isValidEntry :: "json \<Rightarrow> bool" where
  "isValidEntry value \<longleftrightarrow>
     is_record value \<and> isString (js_field value ''timestamp'') \<and> isString (js_field value ''pod'') \<and>
     isString (js_field value ''container'') \<and> isString (js_field value ''line'') \<and>
     is_boolean (js_field value ''isInit'') \<and> isOptional (js_field value ''isEphemeral'') is_boolean"

definition isContainerLogsWarning :: "json \<Rightarrow> bool" where
  "isContainerLogsWarning value \<longleftrightarrow>
     is_record value \<and> isOneOf (js_field value ''kind'') WARNING_KINDS \<and>
     (js_field value ''scope'' = JUndefined \<or> isOneOf (js_field value ''scope'') LIMIT_SCOPES) \<and>
     isOptional (js_field value ''hidden'') is_number \<and> isOptional (js_field value ''limit'') is_number \<and>
     isOptional (js_field value ''count'') is_number"

definition isContainerLogsTargetIssue :: "json \<Rightarrow> bool" where
  "isContainerLogsTargetIssue value \<longleftrightarrow>
     is_record value \<and> isString (js_field value ''pod'') \<and> isString (js_field value ''container'') \<and>
     isOptional (js_field value ''isInit'') is_boolean \<and> isOptional (js_field value ''isEphemeral'') is_boolean \<and>
     isOneOf (js_field value ''state'') ISSUE_STATES \<and> isString (js_field value ''reason'')"

fun isValidList :: "json \<Rightarrow> (json \<Rightarrow> bool) \<Rightarrow> bool" where
  "isValidList JUndefined isValid = True"
| "isValidList JNull isValid = True"
| "isValidList (JArray items) isValid = list_all isValid items"
| "isValidList _ isValid = False"

definition hasValidEnvelope :: "json \<Rightarrow> bool" where
  "hasValidEnvelope value \<longleftrightarrow>
     isString (js_field value ''domain'') \<and> isString (js_field value ''scope'') \<and>
     is_number (js_field value ''sequence'') \<and> is_number (js_field value ''generatedAt'')"

definition hasValidFlags :: "json \<Rightarrow> bool" where
  "hasValidFlags value \<longleftrightarrow>
     isOptional (js_field value ''reset'') is_boolean \<and> isOptional (js_field value ''resumed'') is_boolean \<and>
     isOptional (js_field value ''snapshotComplete'') is_boolean \<and> isOptional (js_field value ''trimmed'') is_number \<and>
     isOptional (js_field value ''error'') isString \<and> isOptional (js_field value ''reconnect'') is_boolean \<and>
     (js_field value ''errorDetails'' = JUndefined \<or> isErrorStatus (js_field value ''errorDetails''))"

definition hasValidLists :: "json \<Rightarrow> bool" where
  "hasValidLists value \<longleftrightarrow>
     isValidList (js_field value ''entries'') isValidEntry \<and> isValidList (js_field value ''removedPods'') isString \<and>
     isValidList (js_field value ''warnings'') isContainerLogsWarning \<and>
     isValidList (js_field value ''issues'') isContainerLogsTargetIssue"

definition parseContainerLogsFrame :: "json \<Rightarrow> json option" where
  "parseContainerLogsFrame data =
     (if is_record data \<and> hasValidEnvelope data \<and> hasValidFlags data \<and> hasValidLists data then Some data else None)"

section \<open>Reading a valid frame\<close>

record log_frame =
  lf_domain :: string
  lf_scope :: string
  lf_reset :: bool
  lf_resumed :: bool
  lf_removed_pods :: "string list option"
  lf_complete :: bool
  lf_trimmed :: int
  lf_entries :: "wire_entry list option"
  lf_warnings :: "json list option"
  lf_issues :: "json list option"
  lf_error :: "string option"
  lf_error_details :: "json option"
  lf_reconnect :: bool

definition text_of :: "json \<Rightarrow> string" where
  "text_of value = (case js_string value of None \<Rightarrow> [] | Some s \<Rightarrow> s)"

definition is_true :: "json \<Rightarrow> bool" where
  "is_true value \<longleftrightarrow> value = JBool True"

fun items_of :: "json \<Rightarrow> json list option" where
  "items_of (JArray items) = Some items"
| "items_of _ = None"

definition entry_of :: "json \<Rightarrow> wire_entry" where
  "entry_of value =
     \<lparr>we_timestamp = text_of (js_field value ''timestamp''), we_pod = text_of (js_field value ''pod''),
      we_container = text_of (js_field value ''container''), we_line = utf16_units (text_of (js_field value ''line'')),
      we_is_init = is_true (js_field value ''isInit''),
      we_is_ephemeral = (case js_field value ''isEphemeral'' of JBool b \<Rightarrow> Some b | _ \<Rightarrow> None)\<rparr>"

text \<open>\<open>value ?? []\<close> where the value is not undefined.\<close>

definition present_items :: "json \<Rightarrow> json list option" where
  "present_items value =
     (if value = JUndefined then None else Some (case items_of value of None \<Rightarrow> [] | Some items \<Rightarrow> items))"

definition frame_of :: "json \<Rightarrow> log_frame" where
  "frame_of value =
     \<lparr>lf_domain = text_of (js_field value ''domain''), lf_scope = text_of (js_field value ''scope''),
      lf_reset = is_true (js_field value ''reset''), lf_resumed = is_true (js_field value ''resumed''),
      lf_removed_pods = map_option (map text_of) (items_of (js_field value ''removedPods'')),
      lf_complete = is_true (js_field value ''snapshotComplete''),
      lf_trimmed = (case js_field value ''trimmed'' of JNumber i \<Rightarrow> i | _ \<Rightarrow> 0),
      lf_entries = map_option (map entry_of) (items_of (js_field value ''entries'')),
      lf_warnings = present_items (js_field value ''warnings''), lf_issues = present_items (js_field value ''issues''),
      lf_error = js_string (js_field value ''error''),
      lf_error_details = (if js_field value ''errorDetails'' = JUndefined then None
                          else Some (js_field value ''errorDetails'')),
      lf_reconnect = is_true (js_field value ''reconnect'')\<rparr>"

section \<open>The protocol\<close>

datatype log_phase =
    LogConnecting
  | LogAwaitingSnapshot
  | LogLive
  | LogReconnecting nat string
  | LogFailed string "json option"
  | LogStopping

record staged_snapshot =
  sg_resumed :: bool
  sg_removed_pods :: "string list"
  sg_entries :: "wire_entry list"
  sg_warnings :: "json list"
  sg_issues :: "json list"

record log_protocol =
  lp_phase :: log_phase
  lp_attempt :: nat
  lp_staged :: "staged_snapshot option"

datatype log_event =
    LogConnectionOpened
  | LogFrameReceived log_frame
  | LogConnectionLost string
  | LogStopRequested

datatype log_effect =
    SendLogRequest
  | ApplySnapshot "wire_entry list" bool "string list" int "json list" "json list"
  | AppendEntries "wire_entry list"
  | RemovePods "string list"
  | ReplaceWarnings "json list"
  | ReplaceIssues "json list"
  | ScheduleLogReconnect nat
  | CloseLogConnection

type_synonym log_transition = "log_protocol \<times> log_effect list"

definition initialContainerLogsProtocolState :: log_protocol where
  "initialContainerLogsProtocolState = \<lparr>lp_phase = LogConnecting, lp_attempt = 0, lp_staged = None\<rparr>"

fun isFinished :: "log_phase \<Rightarrow> bool" where
  "isFinished (LogFailed _ _) = True"
| "isFinished LogStopping = True"
| "isFinished _ = False"

definition reconnect_log :: "log_protocol \<Rightarrow> string \<Rightarrow> log_transition" where
  "reconnect_log st reason =
     (\<lparr>lp_phase = LogReconnecting (lp_attempt st + 1) reason, lp_attempt = lp_attempt st + 1, lp_staged = None\<rparr>,
      [CloseLogConnection, ScheduleLogReconnect (lp_attempt st)])"

definition receiveError :: "log_protocol \<Rightarrow> log_frame \<Rightarrow> log_transition" where
  "receiveError st frame =
     (let reason = (case truthy (resolvePermissionDeniedMessage (lf_error frame) (lf_error_details frame)) of
                      None \<Rightarrow> ''Log stream failed'' | Some m \<Rightarrow> m)
      in if lf_reconnect frame then reconnect_log st reason
         else (st\<lparr>lp_phase := LogFailed reason (lf_error_details frame), lp_staged := None\<rparr>, [CloseLogConnection]))"

definition or_no_items :: "'a list option \<Rightarrow> 'a list" where
  "or_no_items xs = (case xs of None \<Rightarrow> [] | Some ys \<Rightarrow> ys)"

definition stageFrame :: "staged_snapshot \<Rightarrow> log_frame \<Rightarrow> staged_snapshot" where
  "stageFrame staged frame =
     \<lparr>sg_resumed = (if lf_reset frame then lf_resumed frame else sg_resumed staged),
      sg_removed_pods = (if lf_reset frame then or_no_items (lf_removed_pods frame) else sg_removed_pods staged),
      sg_entries = sg_entries staged @ or_no_items (lf_entries frame),
      sg_warnings = (case lf_warnings frame of Some w \<Rightarrow> w | None \<Rightarrow> sg_warnings staged),
      sg_issues = (case lf_issues frame of Some w \<Rightarrow> w | None \<Rightarrow> sg_issues staged)\<rparr>"

definition EMPTY_STAGE :: staged_snapshot where
  "EMPTY_STAGE = \<lparr>sg_resumed = False, sg_removed_pods = [], sg_entries = [], sg_warnings = [], sg_issues = []\<rparr>"

definition receiveSnapshotFrame :: "log_protocol \<Rightarrow> log_frame \<Rightarrow> log_transition" where
  "receiveSnapshotFrame st frame =
     (let staged = stageFrame (if lf_reset frame then EMPTY_STAGE
                               else case lp_staged st of None \<Rightarrow> EMPTY_STAGE | Some s \<Rightarrow> s) frame
      in if \<not> lf_complete frame then (st\<lparr>lp_staged := Some staged\<rparr>, [])
         else (\<lparr>lp_phase = LogLive, lp_attempt = 0, lp_staged = None\<rparr>,
               [ApplySnapshot (sg_entries staged) (sg_resumed staged) (sg_removed_pods staged) (lf_trimmed frame)
                  (sg_warnings staged) (sg_issues staged)]))"

definition receiveLiveFrame :: "log_protocol \<Rightarrow> log_frame \<Rightarrow> log_transition" where
  "receiveLiveFrame st frame =
     (st,
      (if or_no_items (lf_entries frame) \<noteq> [] then [AppendEntries (or_no_items (lf_entries frame))] else []) @
      (if or_no_items (lf_removed_pods frame) \<noteq> [] then [RemovePods (or_no_items (lf_removed_pods frame))] else []) @
      (case lf_warnings frame of None \<Rightarrow> [] | Some w \<Rightarrow> [ReplaceWarnings w]) @
      (case lf_issues frame of None \<Rightarrow> [] | Some w \<Rightarrow> [ReplaceIssues w]))"

definition receiveFrame :: "log_protocol \<Rightarrow> log_frame \<Rightarrow> log_transition" where
  "receiveFrame st frame =
     (if isFinished (lp_phase st) then (st, [])
      else if truthy (lf_error frame) \<noteq> None then receiveError st frame
      else if lf_reset frame \<or> lp_staged st \<noteq> None then receiveSnapshotFrame st frame
      else if lp_phase st = LogLive then receiveLiveFrame st frame
      else (st, []))"

fun transitionContainerLogsProtocol :: "log_protocol \<Rightarrow> log_event \<Rightarrow> log_transition" where
  "transitionContainerLogsProtocol st LogConnectionOpened =
     (if isFinished (lp_phase st) then (st, [])
      else (st\<lparr>lp_phase := LogAwaitingSnapshot, lp_staged := None\<rparr>, [SendLogRequest]))"
| "transitionContainerLogsProtocol st (LogFrameReceived frame) = receiveFrame st frame"
| "transitionContainerLogsProtocol st (LogConnectionLost reason) =
     (if isFinished (lp_phase st) then (st, []) else reconnect_log st reason)"
| "transitionContainerLogsProtocol st LogStopRequested =
     (st\<lparr>lp_phase := LogStopping, lp_staged := None\<rparr>, [CloseLogConnection])"

end
