(* ===== verification/Log_Manager.thy ===== *)
theory Log_Manager
  imports Log_Protocol Refresh_Store
begin

text \<open>
  The container-logs manager, \<open>core/refresh/streaming/containerLogsStreamManager.ts\<close>, with its connections, the source
  selections of \<open>containerLogsStreamScopeParams.ts\<close> and the entries of the snapshot store it writes. Connections and
  sockets are objects behind numbers, so that replaced ones stay in the model; a socket delivers events while its handlers are
  attached. The clock and whether opening a socket throws are inputs of each operation (\<open>log_env\<close>). The delay of a
  reconnect is left out: an armed timer may fire at any later step. Every delivered error is an entry of \<open>lm_reports\<close>.
\<close>

section \<open>Source selections\<close>

record scope_params =
  sp_filters :: "string list"
  sp_match_none :: bool

definition no_params :: scope_params where
  "no_params = \<lparr>sp_filters = [], sp_match_none = False\<rparr>"

definition normalize_params :: "scope_params \<Rightarrow> scope_params" where
  "normalize_params params =
     \<lparr>sp_filters = unique_list (filter (\<lambda>value. value \<noteq> []) (map trim (sp_filters params))),
      sp_match_none = sp_match_none params\<rparr>"

type_synonym params_cache = "(string, scope_params) js_map"

definition getContainerLogsStreamScopeParams :: "params_cache \<Rightarrow> string \<Rightarrow> scope_params option" where
  "getContainerLogsStreamScopeParams cache scope = map_of cache scope"

text \<open>The new cache, and whether the selection changed.\<close>

definition setContainerLogsStreamScopeParams ::
    "params_cache \<Rightarrow> string \<Rightarrow> scope_params \<Rightarrow> params_cache \<times> bool" where
  "setContainerLogsStreamScopeParams cache scope params =
     (let normalized = normalize_params params;
          previous = (case map_of cache scope of None \<Rightarrow> no_params | Some p \<Rightarrow> p)
      in if normalized = no_params then (AList.delete scope cache, previous \<noteq> no_params)
         else if previous = normalized then (cache, False)
         else (AList.update scope normalized cache, True))"

definition clearContainerLogsStreamScopeParams :: "params_cache \<Rightarrow> string \<Rightarrow> params_cache" where
  "clearContainerLogsStreamScopeParams cache scope = AList.delete scope cache"

section \<open>State\<close>

record log_connection =
  lc_scope :: string
  lc_socket :: "nat option"
  lc_retry :: "timer option"
  lc_protocol :: log_protocol
  lc_sent :: "log_request option"

record logs_payload =
  pl_entries :: "log_entry list"
  pl_sequence :: nat
  pl_generated :: millis
  pl_resets :: nat
  pl_error :: "string option"
  pl_phase :: log_phase
  pl_warnings :: "json list"
  pl_issues :: "json list"
  pl_truncation :: "(nat \<times> int) option"
  pl_pods :: "string list"
  pl_containers :: "pod_container list"

record log_manager =
  lm_objects :: "log_connection list"
  lm_table :: "(string, nat) js_map"
  lm_buffers :: "(string, log_buffer) js_map"
  lm_seq :: nat
  lm_notified :: "(string, string) js_map"
  lm_suspended :: bool
  lm_max_entries :: nat
  lm_max_bytes :: nat
  lm_fixed :: "nat option"
  lm_params :: params_cache
  lm_timers :: "(timer, nat) js_map"
  lm_next_timer :: timer
  lm_sockets :: "nat list"
  lm_attached :: "nat list"
  lm_closed :: "nat list"
  lm_sent :: "(nat \<times> log_request) list"
  lm_reports :: "(string \<times> string \<times> json option) list"
  lm_store :: "logs_payload refresh_store"

record log_env =
  le_now :: millis
  le_open_error :: "string option"

definition DOMAIN_NAME :: string where
  "DOMAIN_NAME = ''container-logs''"

definition CONTAINER_LOGS_MAX_BYTES :: nat where
  "CONTAINER_LOGS_MAX_BYTES = 64 * 1024 * 1024"

definition new_log_manager :: "nat option \<Rightarrow> nat option \<Rightarrow> nat \<Rightarrow> logs_payload refresh_store \<Rightarrow> log_manager" where
  "new_log_manager maxEntries maxBytes preferred store =
     \<lparr>lm_objects = [], lm_table = [], lm_buffers = [], lm_seq = 0, lm_notified = [], lm_suspended = False,
      lm_max_entries = (case maxEntries of Some n \<Rightarrow> n | None \<Rightarrow> preferred),
      lm_max_bytes = (case maxBytes of Some n \<Rightarrow> n | None \<Rightarrow> CONTAINER_LOGS_MAX_BYTES), lm_fixed = maxEntries,
      lm_params = [], lm_timers = [], lm_next_timer = 1, lm_sockets = [], lm_attached = [], lm_closed = [],
      lm_sent = [], lm_reports = [], lm_store = store\<rparr>"

definition log_conn :: "log_manager \<Rightarrow> nat \<Rightarrow> log_connection" where
  "log_conn s cid = lm_objects s ! cid"

definition put_log_conn :: "nat \<Rightarrow> log_connection \<Rightarrow> log_manager \<Rightarrow> log_manager" where
  "put_log_conn cid c s = s\<lparr>lm_objects := (lm_objects s)[cid := c]\<rparr>"

definition put_buffer :: "string \<Rightarrow> log_buffer \<Rightarrow> log_manager \<Rightarrow> log_manager" where
  "put_buffer scope b s = s\<lparr>lm_buffers := AList.update scope b (lm_buffers s)\<rparr>"

section \<open>The view of a buffer\<close>

fun phaseFailure :: "log_phase \<Rightarrow> refresh_failure option" where
  "phaseFailure (LogFailed reason failure) =
     Some (case failure of Some status \<Rightarrow> BackendFailure status | None \<Rightarrow> localFailure reason)"
| "phaseFailure _ = None"

fun statusFor :: "log_phase \<Rightarrow> bool \<Rightarrow> domain_status" where
  "statusFor LogLive hasEntries = StatusReady"
| "statusFor LogStopping hasEntries = StatusReady"
| "statusFor (LogFailed _ _) hasEntries = StatusError"
| "statusFor _ hasEntries = (if hasEntries then StatusUpdating else StatusLoading)"

definition buildStats :: "log_buffer \<Rightarrow> snapshot_stats" where
  "buildStats b =
     \<lparr>ss_items = length (lb_entries b), ss_duration = 0,
      ss_total = map_option (\<lambda>(shown, received). nat received) (truncation b),
      ss_truncated = Some (truncation b \<noteq> None)\<rparr>"

fun failed_reason :: "log_phase \<Rightarrow> string option" where
  "failed_reason (LogFailed reason failure) = Some reason"
| "failed_reason _ = None"

definition payload_of ::
    "log_env \<Rightarrow> log_buffer \<Rightarrow> log_phase \<Rightarrow> bool \<Rightarrow> logs_payload option \<Rightarrow> logs_payload" where
  "payload_of env b phase applied previous =
     \<lparr>pl_entries = lb_entries b,
      pl_sequence = (case previous of None \<Rightarrow> 0 | Some p \<Rightarrow> pl_sequence p) + (if applied then 1 else 0),
      pl_generated = le_now env,
      pl_resets = (case previous of None \<Rightarrow> 0 | Some p \<Rightarrow> pl_resets p) + (if applied then 1 else 0),
      pl_error = failed_reason phase, pl_phase = phase, pl_warnings = lb_warnings b, pl_issues = lb_issues b,
      pl_truncation = truncation b, pl_pods = hv_list (lb_pods b), pl_containers = hv_list (lb_containers b)\<rparr>"

definition commit ::
    "log_env \<Rightarrow> string \<Rightarrow> log_phase option \<Rightarrow> bool \<Rightarrow> log_manager \<Rightarrow> log_manager" where
  "commit env scope new_phase applied s =
     (case map_of (lm_buffers s) scope of
        None \<Rightarrow> s
      | Some b0 \<Rightarrow>
          let b = b0\<lparr>lb_pods := read_values (lb_pods b0), lb_containers := read_values (lb_containers b0)\<rparr>
          in (put_buffer scope b s)\<lparr>lm_store := setScopedDomainState (lm_store s) DOMAIN_NAME scope (\<lambda>previous.
               let phase = (case new_phase of
                              Some p \<Rightarrow> p
                            | None \<Rightarrow> (case ds_data previous of Some d \<Rightarrow> pl_phase d | None \<Rightarrow> LogConnecting))
               in Some (previous\<lparr>
                    ds_status := statusFor phase (lb_entries b \<noteq> []),
                    ds_data := Some (payload_of env b phase applied (ds_data previous)),
                    ds_stats := Some (buildStats b), ds_error := phaseFailure phase,
                    ds_last_updated := Some (le_now env), ds_last_auto := Some (le_now env),
                    ds_is_manual := False, ds_scope := Some scope\<rparr>))\<rparr>)"

definition markIdle :: "string \<Rightarrow> log_manager \<Rightarrow> log_manager" where
  "markIdle scope s =
     s\<lparr>lm_store := setScopedDomainState (lm_store s) DOMAIN_NAME scope (\<lambda>previous.
        let failed = (case ds_data previous of Some d \<Rightarrow> failed_reason (pl_phase d) \<noteq> None | None \<Rightarrow> False)
        in Some (previous\<lparr>
             ds_status := (if ds_status previous = StatusReady \<or> failed then ds_status previous else StatusIdle),
             ds_data := (case ds_data previous of
                           Some d \<Rightarrow> Some (if failed then d else d\<lparr>pl_phase := LogStopping\<rparr>) | None \<Rightarrow> None),
             ds_stats := (case map_of (lm_buffers s) scope of
                            Some b \<Rightarrow> Some (buildStats b) | None \<Rightarrow> ds_stats previous),
             ds_scope := Some scope\<rparr>))\<rparr>"

definition bufferFor :: "string \<Rightarrow> log_manager \<Rightarrow> log_manager" where
  "bufferFor scope s = (if map_of (lm_buffers s) scope = None then put_buffer scope new_log_buffer s else s)"

definition commitPhase :: "log_env \<Rightarrow> string \<Rightarrow> log_phase \<Rightarrow> log_manager \<Rightarrow> log_manager" where
  "commitPhase env scope phase s = commit env scope (Some phase) False (bufferFor scope s)"

definition buffer_at :: "log_manager \<Rightarrow> string \<Rightarrow> log_buffer" where
  "buffer_at s scope = (case map_of (lm_buffers s) scope of None \<Rightarrow> new_log_buffer | Some b \<Rightarrow> b)"

section \<open>Errors\<close>

definition log_error_key :: "string \<Rightarrow> string" where
  "log_error_key scope = DOMAIN_NAME @ ''::'' @ scope"

definition notify_log_error :: "string \<Rightarrow> string \<Rightarrow> json option \<Rightarrow> log_manager \<Rightarrow> log_manager" where
  "notify_log_error scope message status s =
     (if map_of (lm_notified s) (log_error_key scope) = Some message then s
      else s\<lparr>lm_notified := AList.update (log_error_key scope) message (lm_notified s),
             lm_reports := lm_reports s @ [(scope, message, status)]\<rparr>)"

definition clear_log_error :: "string \<Rightarrow> log_manager \<Rightarrow> log_manager" where
  "clear_log_error scope s = s\<lparr>lm_notified := AList.delete (log_error_key scope) (lm_notified s)\<rparr>"

fun notifyPhase :: "string \<Rightarrow> log_phase \<Rightarrow> log_manager \<Rightarrow> log_manager" where
  "notifyPhase scope (LogFailed reason failure) s =
     notify_log_error (if scope = [] then ''global'' else scope) reason failure s"
| "notifyPhase scope LogLive s = clear_log_error scope s"
| "notifyPhase scope _ s = s"

section \<open>Effects\<close>

definition buildRequest :: "log_manager \<Rightarrow> string \<Rightarrow> log_request" where
  "buildRequest s scope =
     (let params = (case getContainerLogsStreamScopeParams (lm_params s) scope of None \<Rightarrow> no_params | Some p \<Rightarrow> p);
          request = \<lparr>lr_scope = scope, lr_filters = sp_filters params, lr_match_none = sp_match_none params,
                     lr_max_entries = lm_max_entries s, lr_max_bytes = lm_max_bytes s, lr_resume = []\<rparr>
      in request\<lparr>lr_resume := (case map_of (lm_buffers s) scope of None \<Rightarrow> [] | Some b \<Rightarrow> resumePoints request b)\<rparr>)"

fun applyDataEffect ::
    "nat \<Rightarrow> log_request option \<Rightarrow> log_buffer \<times> nat \<times> bool \<Rightarrow> log_effect \<Rightarrow> log_buffer \<times> nat \<times> bool" where
  "applyDataEffect maxEntries request (b, seq, applied) (ApplySnapshot entries resumed removedPods trimmed warnings issues) =
     (let (b1, seq1) = (if resumed
                        then (let (c, n) = continueWith entries trimmed seq b in (dropPods removedPods c, n))
                        else replace_entries entries trimmed seq b)
      in ((limitBasis maxEntries (setBasis request b1))\<lparr>lb_warnings := warnings, lb_issues := issues\<rparr>, seq1, True))"
| "applyDataEffect maxEntries request (b, seq, applied) (AppendEntries entries) =
     (let (b1, seq1) = insert_entries entries seq b in (b1, seq1, applied))"
| "applyDataEffect maxEntries request (b, seq, applied) (RemovePods pods) = (dropPods pods b, seq, applied)"
| "applyDataEffect maxEntries request (b, seq, applied) (ReplaceWarnings warnings) =
     (b\<lparr>lb_warnings := warnings\<rparr>, seq, applied)"
| "applyDataEffect maxEntries request (b, seq, applied) (ReplaceIssues issues) = (b\<lparr>lb_issues := issues\<rparr>, seq, applied)"
| "applyDataEffect maxEntries request acc _ = acc"

definition applyTransition ::
    "log_env \<Rightarrow> nat \<Rightarrow> log_phase \<Rightarrow> log_effect list \<Rightarrow> log_manager \<Rightarrow> log_manager" where
  "applyTransition env cid phase effects s =
     (let scope = lc_scope (log_conn s cid)
      in if map_of (lm_table s) scope \<noteq> Some cid then s
         else
           let s1 = bufferFor scope s;
               (b, seq, applied) = foldl (applyDataEffect (lm_max_entries s1) (lc_sent (log_conn s1 cid)))
                 (buffer_at s1 scope, lm_seq s1, False) effects;
               s2 = (put_buffer scope (evict (lm_max_entries s1) (lm_max_bytes s1) b) s1)\<lparr>lm_seq := seq\<rparr>;
               s3 = (if phase \<noteq> LogStopping then commit env scope (Some phase) applied s2 else s2)
           in notifyPhase scope phase s3)"

definition clearRetryTimer :: "nat \<Rightarrow> log_manager \<Rightarrow> log_manager" where
  "clearRetryTimer cid s =
     (case lc_retry (log_conn s cid) of
        None \<Rightarrow> s
      | Some t \<Rightarrow> put_log_conn cid ((log_conn s cid)\<lparr>lc_retry := None\<rparr>) (s\<lparr>lm_timers := AList.delete t (lm_timers s)\<rparr>))"

definition closeStream :: "nat \<Rightarrow> log_manager \<Rightarrow> log_manager" where
  "closeStream cid s =
     (case lc_socket (log_conn s cid) of
        None \<Rightarrow> s
      | Some sid \<Rightarrow>
          put_log_conn cid ((log_conn s cid)\<lparr>lc_socket := None\<rparr>)
            (s\<lparr>lm_attached := filter (\<lambda>x. x \<noteq> sid) (lm_attached s), lm_closed := lm_closed s @ [sid]\<rparr>))"

definition scheduleLogReconnect :: "nat \<Rightarrow> log_manager \<Rightarrow> log_manager" where
  "scheduleLogReconnect cid s =
     (let s1 = clearRetryTimer cid s
      in put_log_conn cid ((log_conn s1 cid)\<lparr>lc_retry := Some (lm_next_timer s1)\<rparr>)
           (s1\<lparr>lm_timers := lm_timers s1 @ [(lm_next_timer s1, cid)], lm_next_timer := lm_next_timer s1 + 1\<rparr>))"

fun applyConnectionEffect :: "nat \<Rightarrow> log_manager \<Rightarrow> log_effect \<Rightarrow> log_manager" where
  "applyConnectionEffect cid s SendLogRequest =
     (let request = buildRequest s (lc_scope (log_conn s cid));
          s1 = put_log_conn cid ((log_conn s cid)\<lparr>lc_sent := Some request\<rparr>) s
      in case lc_socket (log_conn s1 cid) of
           None \<Rightarrow> s1
         | Some sid \<Rightarrow> s1\<lparr>lm_sent := lm_sent s1 @ [(sid, request)]\<rparr>)"
| "applyConnectionEffect cid s CloseLogConnection = closeStream cid (clearRetryTimer cid s)"
| "applyConnectionEffect cid s (ScheduleLogReconnect attempt) = scheduleLogReconnect cid s"
| "applyConnectionEffect cid s _ = s"

definition dispatch :: "log_env \<Rightarrow> nat \<Rightarrow> log_event \<Rightarrow> log_manager \<Rightarrow> log_manager" where
  "dispatch env cid event s =
     (let (st, effects) = transitionContainerLogsProtocol (lc_protocol (log_conn s cid)) event;
          s1 = put_log_conn cid ((log_conn s cid)\<lparr>lc_protocol := st\<rparr>) s;
          s2 = foldl (applyConnectionEffect cid) s1 effects
      in applyTransition env cid (lp_phase st) effects s2)"

definition openStream :: "log_env \<Rightarrow> nat \<Rightarrow> log_manager \<Rightarrow> log_manager" where
  "openStream env cid s =
     (case le_open_error env of
        Some reason \<Rightarrow> dispatch env cid (LogConnectionLost reason) s
      | None \<Rightarrow>
          let sid = length (lm_sockets s); s1 = s\<lparr>lm_sockets := lm_sockets s @ [cid]\<rparr>
          in if isFinished (lp_phase (lc_protocol (log_conn s cid)))
             then s1\<lparr>lm_closed := lm_closed s1 @ [sid]\<rparr>
             else put_log_conn cid ((log_conn s cid)\<lparr>lc_socket := Some sid\<rparr>)
                    (s1\<lparr>lm_attached := lm_attached s1 @ [sid]\<rparr>))"

section \<open>Operations\<close>

definition stop_logs :: "log_env \<Rightarrow> string \<Rightarrow> bool \<Rightarrow> log_manager \<Rightarrow> log_manager" where
  "stop_logs env scope reset s =
     (let s1 = (case map_of (lm_table s) scope of
                  None \<Rightarrow> s
                | Some cid \<Rightarrow> dispatch env cid LogStopRequested (s\<lparr>lm_table := AList.delete scope (lm_table s)\<rparr>))
      in if reset
         then clear_log_error scope
                (s1\<lparr>lm_buffers := AList.delete scope (lm_buffers s1),
                    lm_store := resetScopedDomainState (lm_store s1) DOMAIN_NAME scope\<rparr>)
         else markIdle scope s1)"

definition startStream :: "log_env \<Rightarrow> string \<Rightarrow> log_manager \<Rightarrow> log_manager" where
  "startStream env scope s =
     (let s1 = stop_logs env scope False s;
          cid = length (lm_objects s1);
          c = \<lparr>lc_scope = scope, lc_socket = None, lc_retry = None, lc_protocol = initialContainerLogsProtocolState,
               lc_sent = None\<rparr>;
          s2 = s1\<lparr>lm_objects := lm_objects s1 @ [c], lm_table := AList.update scope cid (lm_table s1)\<rparr>
      in openStream env cid (commitPhase env scope (lp_phase (lc_protocol c)) s2))"

definition stopAll_logs :: "log_env \<Rightarrow> bool \<Rightarrow> log_manager \<Rightarrow> log_manager" where
  "stopAll_logs env reset s =
     foldl (\<lambda>s scope. stop_logs env scope reset s) s
       (unique_list (map fst (lm_table s) @ (if reset then map fst (lm_buffers s) else [])))"

definition suspend_logs :: "log_env \<Rightarrow> log_manager \<Rightarrow> log_manager" where
  "suspend_logs env s =
     (if lm_suspended s then s
      else foldl (\<lambda>s (scope, cid). markIdle scope (dispatch env cid LogStopRequested s))
             (s\<lparr>lm_suspended := True\<rparr>) (lm_table s))"

definition resume_logs :: "log_env \<Rightarrow> log_manager \<Rightarrow> log_manager" where
  "resume_logs env s =
     (if \<not> lm_suspended s then s
      else foldl (\<lambda>s scope. startStream env scope s) (s\<lparr>lm_suspended := False\<rparr>) (map fst (lm_table s)))"

definition limit_buffer :: "log_env \<Rightarrow> log_manager \<Rightarrow> string \<Rightarrow> log_manager" where
  "limit_buffer env s scope =
     commit env scope None False
       (put_buffer scope (limitBasis (lm_max_entries s) (evict (lm_max_entries s) (lm_max_bytes s) (buffer_at s scope))) s)"

definition setMaxEntries :: "log_env \<Rightarrow> nat \<Rightarrow> log_manager \<Rightarrow> log_manager" where
  "setMaxEntries env newSize s =
     (if lm_fixed s \<noteq> None \<or> newSize = lm_max_entries s then s
      else foldl (limit_buffer env) (s\<lparr>lm_max_entries := newSize\<rparr>) (map fst (lm_buffers s)))"

definition handle_log_message :: "log_env \<Rightarrow> nat \<Rightarrow> json \<Rightarrow> log_manager \<Rightarrow> log_manager" where
  "handle_log_message env cid data s =
     (case parseContainerLogsFrame data of
        None \<Rightarrow> dispatch env cid (LogConnectionLost ''Invalid container logs stream payload'') s
      | Some value \<Rightarrow>
          let frame = frame_of value
          in if lf_scope frame \<noteq> lc_scope (log_conn s cid) \<or> lf_domain frame \<noteq> DOMAIN_NAME then s
             else dispatch env cid (LogFrameReceived frame) s)"

definition fire_retry :: "log_env \<Rightarrow> nat \<Rightarrow> log_manager \<Rightarrow> log_manager" where
  "fire_retry env cid s =
     (let s1 = put_log_conn cid ((log_conn s cid)\<lparr>lc_retry := None\<rparr>) s
      in if isFinished (lp_phase (lc_protocol (log_conn s1 cid))) then s1 else openStream env cid s1)"

section \<open>Steps\<close>

datatype log_op =
    StartLogs string
  | StopLogs string bool
  | StopAllLogs bool
  | LogsHidden
  | LogsVisible
  | BufferSizeChanged nat
  | LogParamsSet string scope_params
  | LogParamsCleared string
  | LogSocketOpened nat
  | LogSocketMessage nat json
  | LogSocketLost nat
  | RetryFired timer
  | LogScopeReset string

text \<open>Sockets without handlers deliver nothing, and a cleared timer does not fire. \<open>LogScopeReset\<close> is the orchestrator
  dropping a scope from the store.\<close>

definition on_socket :: "log_manager \<Rightarrow> nat \<Rightarrow> (nat \<Rightarrow> log_manager) \<Rightarrow> log_manager" where
  "on_socket s sid f = (if sid \<in> set (lm_attached s) then f (lm_sockets s ! sid) else s)"

fun log_step :: "log_env \<Rightarrow> log_op \<Rightarrow> log_manager \<Rightarrow> log_manager" where
  "log_step env (StartLogs scope) s = startStream env scope s"
| "log_step env (StopLogs scope reset) s = stop_logs env scope reset s"
| "log_step env (StopAllLogs reset) s = stopAll_logs env reset s"
| "log_step env LogsHidden s = suspend_logs env s"
| "log_step env LogsVisible s = resume_logs env s"
| "log_step env (BufferSizeChanged newSize) s = setMaxEntries env newSize s"
| "log_step env (LogParamsSet scope params) s =
     s\<lparr>lm_params := fst (setContainerLogsStreamScopeParams (lm_params s) scope params)\<rparr>"
| "log_step env (LogParamsCleared scope) s =
     s\<lparr>lm_params := clearContainerLogsStreamScopeParams (lm_params s) scope\<rparr>"
| "log_step env (LogSocketOpened sid) s = on_socket s sid (\<lambda>cid. dispatch env cid LogConnectionOpened s)"
| "log_step env (LogSocketMessage sid data) s = on_socket s sid (\<lambda>cid. handle_log_message env cid data s)"
| "log_step env (LogSocketLost sid) s =
     on_socket s sid (\<lambda>cid. dispatch env cid (LogConnectionLost ''Container logs stream connection lost'') s)"
| "log_step env (RetryFired t) s =
     (case map_of (lm_timers s) t of
        None \<Rightarrow> s | Some cid \<Rightarrow> fire_retry env cid (s\<lparr>lm_timers := AList.delete t (lm_timers s)\<rparr>))"
| "log_step env (LogScopeReset scope) s =
     s\<lparr>lm_store := resetScopedDomainState (lm_store s) DOMAIN_NAME scope\<rparr>"

text \<open>What the backend promises of a snapshot: its entries come in the order of their keys unless it resumes a buffer, and
  the number of entries it left out is not negative.\<close>

fun snapshot_ok :: "log_effect \<Rightarrow> bool" where
  "snapshot_ok (ApplySnapshot entries resumed removedPods trimmed warnings issues) =
     (0 \<le> trimmed \<and> (resumed \<or> sorted (map (timestampKey \<circ> we_timestamp) entries)))"
| "snapshot_ok _ = True"

fun log_op_ok :: "log_manager \<Rightarrow> log_op \<Rightarrow> bool" where
  "log_op_ok s (LogSocketMessage sid data) =
     (sid \<in> set (lm_attached s) \<longrightarrow>
        list_all snapshot_ok (snd (receiveFrame (lc_protocol (log_conn s (lm_sockets s ! sid))) (frame_of data))))"
| "log_op_ok s _ = True"

inductive log_reachable :: "log_manager \<Rightarrow> bool" where
  log_init: "store_inv store \<Longrightarrow> log_reachable (new_log_manager maxEntries maxBytes preferred store)"
| log_next: "log_reachable s \<Longrightarrow> log_op_ok s op \<Longrightarrow> log_reachable (log_step env op s)"

end
