(* ===== verification/Log_Order.thy ===== *)
theory Log_Order
  imports Log_Buffer "HOL-Library.Multiset"
begin

text \<open>
  Order in the log buffer: the binary search finds the first later key, and inserting a batch gives the list that a stable
  sort of all entries by timestamp gives.
\<close>

section \<open>Binary search\<close>

declare upper_bound_loop.simps [simp del]

lemma upper_bound_loop_prefix:
  fixes keys :: "'k::linorder list"
  assumes "sorted keys" and "low \<le> high" and "high \<le> length keys"
    and "\<forall>i < low. keys ! i \<le> key" and "\<forall>i. high \<le> i \<and> i < length keys \<longrightarrow> key < keys ! i"
  shows "upper_bound_loop keys key low high \<le> length keys \<and>
    (\<forall>i < upper_bound_loop keys key low high. keys ! i \<le> key) \<and>
    (\<forall>i. upper_bound_loop keys key low high \<le> i \<and> i < length keys \<longrightarrow> key < keys ! i)"
  using assms
proof (induction keys key low high rule: upper_bound_loop.induct)
  case (1 keys key low high)
  let ?m = "(low + high) div 2"
  show ?case
  proof (cases "low < high")
    case True
    then have m: "low \<le> ?m" "?m < high" by auto
    show ?thesis
    proof (cases "keys ! ?m \<le> key")
      case below: True
      have "\<forall>i < ?m + 1. keys ! i \<le> key"
      proof (intro allI impI)
        fix i assume "i < ?m + 1"
        then have "keys ! i \<le> keys ! ?m" using m "1.prems"(1,3) by (intro sorted_nth_mono) auto
        with below show "keys ! i \<le> key" by simp
      qed
      moreover have eq: "upper_bound_loop keys key low high = upper_bound_loop keys key (?m + 1) high"
        using True below by (subst upper_bound_loop.simps) (simp add: Let_def)
      ultimately show ?thesis
        unfolding eq by (intro "1.IH"(1) [OF True refl below "1.prems"(1) _ "1.prems"(3)] "1.prems"(5)) (use m in auto)
    next
      case above: False
      have "\<forall>i. ?m \<le> i \<and> i < length keys \<longrightarrow> key < keys ! i"
      proof (intro allI impI)
        fix i assume i: "?m \<le> i \<and> i < length keys"
        then have "keys ! ?m \<le> keys ! i" using "1.prems"(1) by (intro sorted_nth_mono) auto
        with above show "key < keys ! i" by simp
      qed
      moreover have eq: "upper_bound_loop keys key low high = upper_bound_loop keys key low ?m"
        using True above by (subst upper_bound_loop.simps) (simp add: Let_def)
      ultimately show ?thesis
        unfolding eq by (intro "1.IH"(2) [OF True refl above "1.prems"(1) m(1) _ "1.prems"(4)]) (use m "1.prems"(3) in auto)
    qed
  next
    case False
    then show ?thesis using "1.prems" by (subst (1 2 3) upper_bound_loop.simps) auto
  qed
qed

lemma upperBound_takeWhile:
  fixes keys :: "'k::linorder list"
  assumes "sorted keys"
  shows "upperBound keys key = length (takeWhile (\<lambda>k. k \<le> key) keys)"
proof -
  let ?n = "upperBound keys key"
  have n: "?n \<le> length keys" "\<forall>i < ?n. keys ! i \<le> key" "\<forall>i. ?n \<le> i \<and> i < length keys \<longrightarrow> key < keys ! i"
  proof -
    have "\<forall>i < (0::nat). keys ! i \<le> key" "\<forall>i. length keys \<le> i \<and> i < length keys \<longrightarrow> key < keys ! i" by auto
    from upper_bound_loop_prefix [OF assms le0 le_refl this]
    show "?n \<le> length keys" "\<forall>i < ?n. keys ! i \<le> key" "\<forall>i. ?n \<le> i \<and> i < length keys \<longrightarrow> key < keys ! i"
      unfolding upperBound_def by blast+
  qed
  have "takeWhile (\<lambda>k. k \<le> key) keys = take ?n keys"
    using n by (intro takeWhile_eq_take_P_nth) (auto simp: not_le)
  then show ?thesis using n(1) by simp
qed

section \<open>Merging\<close>

fun stable_merge :: "('a \<Rightarrow> 'k::linorder) \<Rightarrow> 'a list \<Rightarrow> 'a list \<Rightarrow> 'a list" where
  "stable_merge f [] ys = ys"
| "stable_merge f (x # xs) [] = x # xs"
| "stable_merge f (x # xs) (y # ys) =
     (if f x \<le> f y then x # stable_merge f xs (y # ys) else y # stable_merge f (x # xs) ys)"

lemma stable_merge_Nil [simp]: "stable_merge f xs [] = xs"
  by (cases xs) simp_all

lemma mset_stable_merge [simp]: "mset (stable_merge f xs ys) = mset xs + mset ys"
  by (induction f xs ys rule: stable_merge.induct) auto

lemma set_stable_merge [simp]: "set (stable_merge f xs ys) = set xs \<union> set ys"
  by (metis mset_stable_merge set_mset_mset set_mset_union)

lemma sorted_stable_merge:
  "sorted (map f xs) \<Longrightarrow> sorted (map f ys) \<Longrightarrow> sorted (map f (stable_merge f xs ys))"
  by (induction f xs ys rule: stable_merge.induct) (auto simp: not_le intro: order_trans less_imp_le less_le_trans)

lemma filter_stable_merge:
  "sorted (map f xs) \<Longrightarrow> filter (\<lambda>x. k = f x) (stable_merge f xs ys) = filter (\<lambda>x. k = f x) xs @ filter (\<lambda>x. k = f x) ys"
proof (induction f xs ys rule: stable_merge.induct)
  case (3 f x xs y ys)
  have "filter (\<lambda>x. k = f x) (x # xs) = []" if "k < f x" using that "3.prems" by (auto simp: filter_empty_conv)
  then show ?case using 3 by (auto simp: not_le)
qed simp_all

lemma stable_merge_sort:
  assumes "sorted (map f xs)"
  shows "stable_merge f xs (sort_key f ys) = sort_key f (xs @ ys)"
proof (rule properties_for_sort_key [symmetric])
  have "filter (\<lambda>x. k = f x) (sort_key f ys) = filter (\<lambda>x. k = f x) ys" for k
    using sort_key_stable [of f k ys] by (simp add: eq_commute [of k])
  then show "filter (\<lambda>x. f k = f x) (stable_merge f xs (sort_key f ys)) = filter (\<lambda>x. f k = f x) (xs @ ys)" for k
    using filter_stable_merge [OF assms, of "f k" "sort_key f ys"] by simp
qed (use assms sorted_stable_merge [OF assms] in \<open>simp_all\<close>)

lemma takeWhile_dropWhile_Nil [simp]: "takeWhile P (dropWhile P xs) = []"
  by (induction xs) simp_all

lemma stable_merge_step:
  "stable_merge f xs (y # ys) = takeWhile (\<lambda>x. f x \<le> f y) xs @ y # stable_merge f (dropWhile (\<lambda>x. f x \<le> f y) xs) ys"
  by (induction xs) auto

section \<open>The insertion loops\<close>

declare copy_held.simps [simp del]

lemma copy_held_takeWhile:
  assumes "held \<le> length hk" and "length he = length hk"
  shows "copy_held he hk key (held, entries, keys) =
    (let n = length (takeWhile (\<lambda>k. k \<le> key) (drop held hk))
     in (held + n, entries @ take n (drop held he), keys @ take n (drop held hk)))"
  using assms
proof (induction he hk key "(held, entries, keys)" arbitrary: held entries keys rule: copy_held.induct)
  case (1 he hk key held entries keys)
  show ?case
  proof (cases "held < length hk \<and> hk ! held \<le> key")
    case True
    then have "drop held hk = hk ! held # drop (Suc held) hk" "drop held he = he ! held # drop (Suc held) he"
      using "1.prems" by (simp_all add: Cons_nth_drop_Suc)
    then show ?thesis using "1.hyps" [OF True] "1.prems" True by (subst copy_held.simps) (simp add: Let_def)
  next
    case False
    then have "takeWhile (\<lambda>k. k \<le> key) (drop held hk) = []"
      using "1.prems" by (cases "held < length hk") (auto simp: Cons_nth_drop_Suc [symmetric])
    then show ?thesis using False by (subst copy_held.simps) (auto simp: Let_def)
  qed
qed

lemma takeWhile_keys:
  "length (takeWhile (\<lambda>k. k \<le> key) (map f xs)) = length (takeWhile (\<lambda>x. f x \<le> key) xs)"
  by (simp add: takeWhile_map o_def)

lemma insert_added_merge:
  assumes "held \<le> length he" and "sorted (map entry_key (drop held he))"
  shows "\<exists>held' es'. fst (insert_added he (map entry_key he) added (held, es, map entry_key es) b) = (held', es', map entry_key es') \<and>
    es' @ drop held' he = es @ stable_merge entry_key (drop held he) added"
  using assms
proof (induction added arbitrary: held es b)
  case (Cons e added)
  define n where "n = length (takeWhile (\<lambda>x. entry_key x \<le> entry_key e) (drop held he))"
  have n: "take n (drop held he) = takeWhile (\<lambda>x. entry_key x \<le> entry_key e) (drop held he)"
    "drop (held + n) he = dropWhile (\<lambda>x. entry_key x \<le> entry_key e) (drop held he)"
    unfolding n_def by (simp_all add: takeWhile_eq_take [symmetric] dropWhile_eq_drop add.commute)
  have "n \<le> length (drop held he)" unfolding n_def by (rule length_takeWhile_le)
  then have le: "held + n \<le> length he" using Cons.prems(1) by simp
  have copied: "copy_held he (map entry_key he) (entry_key e) (held, es, map entry_key es) =
      (held + n, es @ take n (drop held he), map entry_key (es @ take n (drop held he)))"
    using Cons.prems by (simp add: copy_held_takeWhile Let_def drop_map takeWhile_keys n_def take_map)
  have "sorted (map entry_key (drop (held + n) he))"
    using Cons.prems(2) sorted_wrt_drop [of "(\<le>)" "map entry_key (drop held he)" n] by (simp add: drop_map add.commute)
  from Cons.IH [OF le this, of "es @ take n (drop held he) @ [e]"
      "countHeld e 1 (b\<lparr>lb_bytes := lb_bytes b + int (line_bytes e)\<rparr>)"]
  show ?case using copied by (simp add: stable_merge_step n(1) [symmetric] n(2) [symmetric])
qed auto

lemma insert_added_counts:
  "snd (insert_added he hk added acc b) =
     foldl (\<lambda>b e. countHeld e 1 (b\<lparr>lb_bytes := lb_bytes b + int (line_bytes e)\<rparr>)) b added"
  by (induction added arbitrary: acc b) (auto split: prod.split)

lemma numbered_from_Nil [simp]: "numbered_from seq ws = [] \<longleftrightarrow> ws = []"
  by (cases ws) simp_all

lemma length_numbered_from [simp]: "length (numbered_from seq ws) = length ws"
  by (induction ws arbitrary: seq) simp_all

text \<open>The entries after an insertion, and what happened to the counters.\<close>

lemma insert_entries_sorts:
  fixes incoming :: "wire_entry list" and seq :: nat
  assumes "lb_keys b = map entry_key (lb_entries b)" and "sorted (lb_keys b)"
  defines "all \<equiv> sort_key entry_key (lb_entries b @ numbered_from seq incoming)"
    and "added \<equiv> sort_key entry_key (numbered_from seq incoming)"
  shows "fst (insert_entries incoming seq b) =
    (foldl (\<lambda>b e. countHeld e 1 (b\<lparr>lb_bytes := lb_bytes b + int (line_bytes e)\<rparr>)) b added)
      \<lparr>lb_entries := all, lb_keys := map entry_key all,
       lb_received := lb_received b + int (length incoming)\<rparr>"
proof (cases "incoming = []")
  case True
  then show ?thesis using assms by (simp add: insert_entries_def sorted_sort_id sort_key_id_if_sorted)
next
  case False
  let ?hd = "entry_key (hd added)"
  define held where "held = upperBound (lb_keys b) ?hd"
  have held: "held = length (takeWhile (\<lambda>k. k \<le> ?hd) (lb_keys b))"
    unfolding held_def by (rule upperBound_takeWhile [OF assms(2)])
  then have h: "held = length (takeWhile (\<lambda>e. entry_key e \<le> ?hd) (lb_entries b))"
    using assms(1) by (simp add: takeWhile_keys)
  then have le: "held \<le> length (lb_entries b)" by (simp add: length_takeWhile_le)
  have srt: "sorted (map entry_key (lb_entries b))" using assms(1,2) by simp
  have "sorted (map entry_key (drop held (lb_entries b)))"
    using srt by (simp add: drop_map [symmetric] sorted_wrt_drop)
  from insert_added_merge [OF le this, of added "take held (lb_entries b)" b]
  obtain held' es' where i: "fst (insert_added (lb_entries b) (lb_keys b) added
        (held, take held (lb_entries b), take held (lb_keys b)) b) = (held', es', map entry_key es')"
      and es': "es' @ drop held' (lb_entries b) =
        take held (lb_entries b) @ stable_merge entry_key (drop held (lb_entries b)) added"
    using assms(1) by (auto simp: take_map)
  have "length added = length incoming" by (simp add: added_def)
  then have "added \<noteq> []" using False by auto
  then obtain y ys where y: "added = y # ys" by (cases added) simp_all
  have "take held (lb_entries b) = takeWhile (\<lambda>e. entry_key e \<le> ?hd) (lb_entries b)"
    "drop held (lb_entries b) = dropWhile (\<lambda>e. entry_key e \<le> ?hd) (lb_entries b)"
    unfolding h by (simp_all add: takeWhile_eq_take [symmetric] dropWhile_eq_drop)
  then have "take held (lb_entries b) @ stable_merge entry_key (drop held (lb_entries b)) added =
      stable_merge entry_key (lb_entries b) added"
    unfolding y by (simp add: stable_merge_step [of _ "lb_entries b"] stable_merge_step takeWhile_dropWhile_id)
  also have "\<dots> = all" unfolding all_def added_def by (rule stable_merge_sort [OF srt])
  finally have all: "es' @ drop held' (lb_entries b) = all" using es' by simp
  then have keys: "map entry_key es' @ drop held' (lb_keys b) = map entry_key all"
    using assms(1) by (simp add: drop_map flip: map_append)
  have "lb_received (foldl (\<lambda>b e. countHeld e 1 (b\<lparr>lb_bytes := lb_bytes b + int (line_bytes e)\<rparr>)) c xs) = lb_received c" for c xs
    by (induction xs arbitrary: c) (simp_all add: countHeld_def)
  then show ?thesis
    using False i all keys insert_added_counts [of "lb_entries b" "lb_keys b" added "(held, take held (lb_entries b), take held (lb_keys b))" b]
    by (simp add: insert_entries_def Let_def added_def [symmetric] held_def [symmetric] split: prod.split) auto
qed

end
