(* ===== verification/Log_Counts.thy ===== *)
theory Log_Counts
  imports Log_Order
begin

text \<open>
  The counters of the log buffer. \<open>held_index\<close> is the contract of a \<open>HeldValues\<close>: its key function determines the
  value, and then it holds exactly the values of the entries counted into it. The pods and the containers of a buffer are
  its two instances. With it every operation keeps \<open>buffer_ok\<close>: keys, bytes, counters and the received total belong to
  the entries held.
\<close>

section \<open>Held values\<close>

declare map_of_eq_Some_iff [simp del] Some_eq_map_of_iff [simp del]

locale held_index =
  fixes keyOf :: "log_entry \<Rightarrow> string" and valueOf :: "log_entry \<Rightarrow> 'v"
  assumes key_value: "keyOf a = keyOf b \<Longrightarrow> valueOf a = valueOf b"
begin

definition key_ok :: "string \<Rightarrow> ('v \<times> int) option \<Rightarrow> log_entry multiset \<Rightarrow> bool" where
  "key_ok k held M \<longleftrightarrow>
     (case held of
        None \<Rightarrow> \<forall>e \<in># M. keyOf e \<noteq> k
      | Some (v, n) \<Rightarrow> n = int (size {#e \<in># M. keyOf e = k#}) \<and> 0 < n \<and> (\<forall>e \<in># M. keyOf e = k \<longrightarrow> valueOf e = v))"

definition held_ok :: "'v held_values \<Rightarrow> log_entry multiset \<Rightarrow> bool" where
  "held_ok h M \<longleftrightarrow> distinct (map fst (hv_counts h)) \<and> (\<forall>k. key_ok k (map_of (hv_counts h) k) M) \<and>
     (hv_changed h \<or> hv_list h = map (fst \<circ> snd) (hv_counts h))"

lemma no_such_entry: "{#x \<in># M. keyOf x = k#} = {#} \<longleftrightarrow> (\<forall>x \<in># M. keyOf x \<noteq> k)"
  by (auto simp: multiset_eq_iff simp flip: count_greater_zero_iff)

lemma key_ok_exists: "key_ok k (Some (v, n)) M \<Longrightarrow> \<exists>e \<in># M. keyOf e = k \<and> valueOf e = v"
proof -
  assume ok: "key_ok k (Some (v, n)) M"
  then have "0 < size {#e \<in># M. keyOf e = k#}" unfolding key_ok_def by simp
  then have "{#e \<in># M. keyOf e = k#} \<noteq> {#}" by (metis nonempty_has_size)
  then have "\<exists>e \<in># M. keyOf e = k" unfolding no_such_entry by blast
  with ok show ?thesis unfolding key_ok_def by auto
qed

lemma key_ok_other: "k \<noteq> keyOf e \<Longrightarrow> key_ok k held (add_mset e M) = key_ok k held M"
  by (auto simp: key_ok_def split: option.split)

lemma held_ok_empty: "held_ok no_held_values {#}"
  by (simp add: held_ok_def key_ok_def no_held_values_def)

lemma held_ok_clear: "held_ok (clear_values h) {#}"
  by (simp add: held_ok_def key_ok_def clear_values_def)

lemma values_update:
  "map_of m k = Some (v, c) \<Longrightarrow> map (fst \<circ> snd) (AList.update k (v, n) m) = map (fst \<circ> snd) m"
  by (induction m) auto

lemma held_lookup:
  assumes "held_ok h M" and "e \<in># M"
  shows "map_of (hv_counts h) (keyOf e) = Some (valueOf e, int (size {#x \<in># M. keyOf x = keyOf e#}))"
proof -
  have "key_ok (keyOf e) (map_of (hv_counts h) (keyOf e)) M" using assms(1) by (simp add: held_ok_def)
  then show ?thesis using assms(2) by (auto simp: key_ok_def split: option.splits)
qed

lemma held_ok_put:
  assumes "held_ok h M" and "key_ok (keyOf e) (Some (v, n)) M'" and "map_of (hv_counts h) (keyOf e) = Some (v, c)"
    and "\<And>k held. k \<noteq> keyOf e \<Longrightarrow> key_ok k held M' = key_ok k held M"
  shows "held_ok (h\<lparr>hv_counts := AList.update (keyOf e) (v, n) (hv_counts h)\<rparr>) M'"
  using assms by (simp add: held_ok_def map_of_update distinct_update values_update)

lemma held_ok_add:
  assumes ok: "held_ok h M"
  shows "held_ok (count_value keyOf valueOf e 1 h) (add_mset e M)"
proof -
  have this_key: "key_ok (keyOf e) (map_of (hv_counts h) (keyOf e)) M" using ok by (simp add: held_ok_def)
  show ?thesis
  proof (cases "map_of (hv_counts h) (keyOf e)")
    case None
    then have "\<forall>x \<in># M. keyOf x \<noteq> keyOf e" using this_key by (simp add: key_ok_def)
    then have "key_ok (keyOf e) (Some (valueOf e, 1)) (add_mset e M)" by (simp add: key_ok_def no_such_entry)
    moreover have "count_value keyOf valueOf e 1 h =
        h\<lparr>hv_changed := True, hv_counts := AList.update (keyOf e) (valueOf e, 1) (hv_counts h)\<rparr>"
      using None by (simp add: count_value_def Let_def)
    ultimately show ?thesis using ok by (simp add: held_ok_def map_of_update distinct_update key_ok_other)
  next
    case (Some p)
    then obtain v n where vn: "map_of (hv_counts h) (keyOf e) = Some (v, n)" by (cases p) auto
    then have old: "n = int (size {#x \<in># M. keyOf x = keyOf e#})" "0 < n" "\<forall>x \<in># M. keyOf x = keyOf e \<longrightarrow> valueOf x = v"
      using this_key by (simp_all add: key_ok_def)
    obtain x where x: "keyOf x = keyOf e" "valueOf x = v" using key_ok_exists this_key vn by metis
    have "valueOf e = v" using key_value [OF x(1)] x(2) by simp
    with old have "key_ok (keyOf e) (Some (v, n + 1)) (add_mset e M)" by (simp add: key_ok_def)
    moreover have "count_value keyOf valueOf e 1 h = h\<lparr>hv_counts := AList.update (keyOf e) (v, n + 1) (hv_counts h)\<rparr>"
      using vn old(2) by (simp add: count_value_def Let_def)
    ultimately show ?thesis using held_ok_put [OF ok _ vn] key_ok_other by auto
  qed
qed

lemma held_ok_remove:
  assumes ok: "held_ok h (add_mset e M)"
  shows "held_ok (count_value keyOf valueOf e (- 1) h) M"
proof -
  let ?m = "int (size {#x \<in># M. keyOf x = keyOf e#})"
  have look: "map_of (hv_counts h) (keyOf e) = Some (valueOf e, ?m + 1)"
    using held_lookup [OF ok, of e] by simp
  show ?thesis
  proof (cases "?m = 0")
    case True
    then have "key_ok (keyOf e) None M" by (simp add: key_ok_def no_such_entry)
    moreover have "count_value keyOf valueOf e (- 1) h = h\<lparr>hv_counts := AList.delete (keyOf e) (hv_counts h), hv_changed := True\<rparr>"
      using look True by (simp add: count_value_def Let_def)
    moreover have "key_ok k (map_of (hv_counts h) k) M" if "k \<noteq> keyOf e" for k
    proof -
      have "key_ok k (map_of (hv_counts h) k) (add_mset e M)" using ok by (simp only: held_ok_def)
      then show ?thesis unfolding key_ok_other [OF that] .
    qed
    ultimately show ?thesis using ok by (simp add: held_ok_def map_of_delete distinct_delete)
  next
    case False
    have "key_ok (keyOf e) (map_of (hv_counts h) (keyOf e)) (add_mset e M)" using ok by (simp add: held_ok_def)
    moreover have "0 < ?m" using False by linarith
    ultimately have "key_ok (keyOf e) (Some (valueOf e, ?m)) M" using look by (simp add: key_ok_def)
    moreover have "count_value keyOf valueOf e (- 1) h = h\<lparr>hv_counts := AList.update (keyOf e) (valueOf e, ?m) (hv_counts h)\<rparr>"
      using look False by (auto simp: count_value_def Let_def)
    ultimately show ?thesis using held_ok_put [OF ok _ look] key_ok_other by auto
  qed
qed

lemma held_ok_add_all:
  "held_ok h M \<Longrightarrow> held_ok (foldl (\<lambda>h e. count_value keyOf valueOf e 1 h) h es) (M + mset es)"
proof (induction es arbitrary: h M)
  case (Cons e es)
  from Cons.IH [OF held_ok_add [OF Cons.prems]] show ?case by simp
qed simp

lemma held_ok_remove_all:
  "held_ok h (M + mset es) \<Longrightarrow> held_ok (foldl (\<lambda>h e. count_value keyOf valueOf e (- 1) h) h es) M"
proof (induction es arbitrary: h)
  case (Cons e es)
  then have "held_ok h (add_mset e (M + mset es))" by simp
  from held_ok_remove [OF this] show ?case using Cons.IH by simp
qed simp

text \<open>What a reader gets: each value once, and the array of the last read when no value came or went.\<close>

lemma read_values_set:
  assumes "held_ok h M"
  shows "set (hv_list (read_values h)) = valueOf ` set_mset M"
proof (rule set_eqI)
  fix v
  have d: "distinct (map fst (hv_counts h))" using assms by (simp add: held_ok_def)
  have "hv_list (read_values h) = map (fst \<circ> snd) (hv_counts h)"
    using assms by (auto simp: held_ok_def read_values_def)
  then have "v \<in> set (hv_list (read_values h)) \<longleftrightarrow> (\<exists>k n. (k, v, n) \<in> set (hv_counts h))" by force
  also have "\<dots> \<longleftrightarrow> (\<exists>k n. map_of (hv_counts h) k = Some (v, n))" using d by (simp add: map_of_eq_Some_iff)
  also have "\<dots> \<longleftrightarrow> v \<in> valueOf ` set_mset M"
  proof
    assume "\<exists>k n. map_of (hv_counts h) k = Some (v, n)"
    then obtain k n where kn: "map_of (hv_counts h) k = Some (v, n)" by blast
    then have "key_ok k (Some (v, n)) M" using assms unfolding held_ok_def by metis
    then show "v \<in> valueOf ` set_mset M" using key_ok_exists by blast
  next
    assume "v \<in> valueOf ` set_mset M"
    then show "\<exists>k n. map_of (hv_counts h) k = Some (v, n)" using held_lookup [OF assms] by blast
  qed
  finally show "v \<in> set (hv_list (read_values h)) \<longleftrightarrow> v \<in> valueOf ` set_mset M" .
qed

lemma read_values_stable:
  assumes "holds h (keyOf e)" and "held_ok h M"
  shows "hv_array (read_values (count_value keyOf valueOf e 1 h)) = hv_array (read_values h)"
    and "hv_list (read_values (count_value keyOf valueOf e 1 h)) = hv_list (read_values h)"
proof -
  obtain v n where vn: "map_of (hv_counts h) (keyOf e) = Some (v, n)" using assms(1) by (auto simp: holds_def)
  have "key_ok (keyOf e) (map_of (hv_counts h) (keyOf e)) M" using assms(2) by (simp add: held_ok_def)
  then have "0 < n" using vn by (simp add: key_ok_def)
  then have "count_value keyOf valueOf e 1 h = h\<lparr>hv_counts := AList.update (keyOf e) (v, n + 1) (hv_counts h)\<rparr>"
    using vn by (simp add: count_value_def Let_def)
  then show "hv_array (read_values (count_value keyOf valueOf e 1 h)) = hv_array (read_values h)"
    "hv_list (read_values (count_value keyOf valueOf e 1 h)) = hv_list (read_values h)"
    using vn by (simp_all add: read_values_def values_update)
qed

end

text \<open>The key of a container names it: the two flags are read off the end of the key.\<close>

lemma js_bool_inject [simp]: "js_bool a = js_bool b \<longleftrightarrow> a = b"
  by (simp add: js_bool_def)

lemma flag_suffix: "xs @ CHR ''|'' # js_bool a = ys @ CHR ''|'' # js_bool b \<Longrightarrow> xs = ys \<and> a = b"
  by (cases a; cases b) (auto simp: js_bool_def)

lemma containerKeyOf_inject: "containerKeyOf a = containerKeyOf b \<Longrightarrow> containerOf a = containerOf b"
proof -
  assume eq: "containerKeyOf a = containerKeyOf b"
  then have "(we_container (le_wire a) @ CHR ''|'' # js_bool (we_is_init (le_wire a))) @ CHR ''|'' # js_bool (ephemeral (le_wire a)) =
      (we_container (le_wire b) @ CHR ''|'' # js_bool (we_is_init (le_wire b))) @ CHR ''|'' # js_bool (ephemeral (le_wire b))"
    by (simp add: containerKeyOf_def)
  from flag_suffix [OF this] flag_suffix show ?thesis by (auto simp: containerOf_def)
qed

interpretation pods: held_index podOf podOf
  by unfold_locales simp

interpretation containers: held_index containerKeyOf containerOf
  by unfold_locales (rule containerKeyOf_inject)

section \<open>Every operation keeps the counters\<close>

definition counts_ok :: "log_buffer \<Rightarrow> log_entry multiset \<Rightarrow> bool" where
  "counts_ok b M \<longleftrightarrow> pods.held_ok (lb_pods b) M \<and> containers.held_ok (lb_containers b) M"

definition buffer_ok :: "log_buffer \<Rightarrow> bool" where
  "buffer_ok b \<longleftrightarrow>
     lb_keys b = map entry_key (lb_entries b) \<and> lb_bytes b = int (sum_list (map line_bytes (lb_entries b))) \<and>
     int (length (lb_entries b)) \<le> lb_received b \<and> counts_ok b (mset (lb_entries b))"

lemma countHeld_fields [simp]:
  "lb_entries (countHeld e d b) = lb_entries b" "lb_keys (countHeld e d b) = lb_keys b"
  "lb_bytes (countHeld e d b) = lb_bytes b" "lb_received (countHeld e d b) = lb_received b"
  "lb_warnings (countHeld e d b) = lb_warnings b" "lb_issues (countHeld e d b) = lb_issues b"
  "lb_basis (countHeld e d b) = lb_basis b"
  by (simp_all add: countHeld_def)

lemma counts_ok_update [simp]:
  "counts_ok (b\<lparr>lb_entries := es\<rparr>) M = counts_ok b M" "counts_ok (b\<lparr>lb_keys := ks\<rparr>) M = counts_ok b M"
  "counts_ok (b\<lparr>lb_bytes := n\<rparr>) M = counts_ok b M" "counts_ok (b\<lparr>lb_received := r\<rparr>) M = counts_ok b M"
  "counts_ok (b\<lparr>lb_basis := bb\<rparr>) M = counts_ok b M" "counts_ok (b\<lparr>lb_warnings := w\<rparr>) M = counts_ok b M"
  "counts_ok (b\<lparr>lb_issues := w\<rparr>) M = counts_ok b M"
  by (simp_all add: counts_ok_def)

lemma counts_ok_add: "counts_ok b M \<Longrightarrow> counts_ok (countHeld e 1 b) (add_mset e M)"
  by (simp add: counts_ok_def countHeld_def pods.held_ok_add containers.held_ok_add)

lemma counts_ok_remove: "counts_ok b (add_mset e M) \<Longrightarrow> counts_ok (countHeld e (- 1) b) M"
  by (simp add: counts_ok_def countHeld_def pods.held_ok_remove containers.held_ok_remove)

lemma new_buffer_ok: "buffer_ok new_log_buffer"
  by (simp add: buffer_ok_def counts_ok_def new_log_buffer_def pods.held_ok_empty containers.held_ok_empty)

lemma count_all_fields [simp]:
  "lb_entries (foldl (\<lambda>b e. countHeld e d b) b es) = lb_entries b"
  "lb_keys (foldl (\<lambda>b e. countHeld e d b) b es) = lb_keys b"
  "lb_bytes (foldl (\<lambda>b e. countHeld e d b) b es) = lb_bytes b"
  "lb_received (foldl (\<lambda>b e. countHeld e d b) b es) = lb_received b"
  "lb_warnings (foldl (\<lambda>b e. countHeld e d b) b es) = lb_warnings b"
  "lb_issues (foldl (\<lambda>b e. countHeld e d b) b es) = lb_issues b"
  "lb_basis (foldl (\<lambda>b e. countHeld e d b) b es) = lb_basis b"
  by (induction es arbitrary: b) simp_all

lemma add_all: "counts_ok b M \<Longrightarrow> counts_ok (foldl (\<lambda>b e. countHeld e 1 b) b es) (M + mset es)"
proof (induction es arbitrary: b M)
  case (Cons e es)
  from Cons.IH [OF counts_ok_add [OF Cons.prems]] show ?case by simp
qed simp

lemma add_all_bytes:
  assumes "counts_ok b M"
  defines "add \<equiv> (\<lambda>b e. countHeld e 1 (b\<lparr>lb_bytes := lb_bytes b + int (line_bytes e)\<rparr>))"
  shows "counts_ok (foldl add b es) (M + mset es)"
    "lb_bytes (foldl add b es) = lb_bytes b + int (sum_list (map line_bytes es))"
  using assms(1)
proof (induction es arbitrary: b M)
  case (Cons e es)
  { case 1
    then have "counts_ok (add b e) (add_mset e M)" unfolding add_def by (intro counts_ok_add) simp
    from Cons.IH(1) [OF this] show ?case by simp
  next
    case 2
    then have "counts_ok (add b e) (add_mset e M)" unfolding add_def by (intro counts_ok_add) simp
    from Cons.IH(2) [OF this] show ?case by (simp add: add_def) }
qed simp_all

lemma remove_all: "counts_ok b (M + mset es) \<Longrightarrow> counts_ok (foldl (\<lambda>b e. countHeld e (- 1) b) b es) M"
proof (induction es arbitrary: b)
  case (Cons e es)
  have "counts_ok (countHeld e (- 1) b) (M + mset es)" using Cons.prems by (intro counts_ok_remove) simp
  from Cons.IH [OF this] show ?case by simp
qed simp

lemma recount_ok: "counts_ok (recountHeld b) (mset (lb_entries b))"
proof -
  have "counts_ok (b\<lparr>lb_pods := clear_values (lb_pods b), lb_containers := clear_values (lb_containers b)\<rparr>) {#}"
    by (simp add: counts_ok_def pods.held_ok_clear containers.held_ok_clear)
  from add_all [OF this, of "lb_entries b"] show ?thesis by (simp add: recountHeld_def)
qed

lemma recount_fields [simp]:
  "lb_entries (recountHeld b) = lb_entries b" "lb_keys (recountHeld b) = lb_keys b"
  "lb_bytes (recountHeld b) = lb_bytes b" "lb_received (recountHeld b) = lb_received b"
  "lb_basis (recountHeld b) = lb_basis b"
  by (simp_all add: recountHeld_def)

lemma replace_ok: "0 \<le> trimmed \<Longrightarrow> buffer_ok (fst (replace_entries incoming trimmed seq b))"
proof -
  assume "0 \<le> trimmed"
  define b1 where "b1 es = b\<lparr>lb_entries := es, lb_keys := map entry_key es, lb_bytes := int (sum_list (map line_bytes es)),
      lb_received := int (length es) + trimmed\<rparr>" for es
  with \<open>0 \<le> trimmed\<close> have "buffer_ok (recountHeld (b1 es))" for es
    using recount_ok [of "b1 es"] by (simp add: buffer_ok_def b1_def)
  then show ?thesis by (simp add: replace_entries_def Let_def b1_def)
qed

lemma replace_entries_result:
  "map le_wire (lb_entries (fst (replace_entries incoming trimmed seq b))) =
     (if sameEntryContent (lb_entries b) incoming then map le_wire (lb_entries b) else incoming)"
proof -
  have "map le_wire (numbered_from n ws) = ws" for n ws by (induction ws arbitrary: n) simp_all
  then show ?thesis by (simp add: replace_entries_def Let_def)
qed

lemma mset_numbered_sorted: "mset (sort_key entry_key (numbered_from seq ws)) = mset (numbered_from seq ws)"
  by simp

lemma sum_list_perm: "mset xs = mset ys \<Longrightarrow> sum_list (map f xs) = sum_list (map (f :: 'a \<Rightarrow> nat) ys)"
  by (metis mset_map sum_mset_sum_list)

lemma insert_ok:
  assumes ok: "buffer_ok b" and srt: "sorted (lb_keys b)"
  shows "buffer_ok (fst (insert_entries incoming seq b))"
    and "lb_entries (fst (insert_entries incoming seq b)) = sort_key entry_key (lb_entries b @ numbered_from seq incoming)"
proof -
  have keys: "lb_keys b = map entry_key (lb_entries b)" using ok by (simp add: buffer_ok_def)
  define added where "added = sort_key entry_key (numbered_from seq incoming)"
  define all where "all = sort_key entry_key (lb_entries b @ numbered_from seq incoming)"
  define c where "c = foldl (\<lambda>b e. countHeld e 1 (b\<lparr>lb_bytes := lb_bytes b + int (line_bytes e)\<rparr>)) b added"
  have eq: "fst (insert_entries incoming seq b) = c\<lparr>lb_entries := all, lb_keys := map entry_key all,
      lb_received := lb_received b + int (length incoming)\<rparr>"
    unfolding c_def added_def all_def by (rule insert_entries_sorts [OF keys srt])
  have c: "counts_ok c (mset (lb_entries b) + mset added)" "lb_bytes c = lb_bytes b + int (sum_list (map line_bytes added))"
    unfolding c_def using ok add_all_bytes [of b "mset (lb_entries b)" added] by (simp_all add: buffer_ok_def)
  have perm: "mset all = mset (lb_entries b) + mset added" by (simp add: all_def added_def)
  have "length all = length (lb_entries b) + length incoming" by (simp add: all_def)
  moreover have "sum_list (map line_bytes all) = sum_list (map line_bytes (lb_entries b @ added))"
    using perm by (intro sum_list_perm) simp
  ultimately show "buffer_ok (fst (insert_entries incoming seq b))"
    unfolding eq using ok c perm by (simp add: buffer_ok_def)
  show "lb_entries (fst (insert_entries incoming seq b)) = sort_key entry_key (lb_entries b @ numbered_from seq incoming)"
    unfolding eq by (simp add: all_def)
qed

lemma continue_ok:
  assumes "buffer_ok b" and "sorted (lb_keys b)" and "0 \<le> trimmed"
  shows "buffer_ok (fst (continueWith incoming trimmed seq b))"
    and "lb_entries (fst (continueWith incoming trimmed seq b)) = sort_key entry_key (lb_entries b @ numbered_from seq incoming)"
proof -
  obtain b1 seq1 where p: "insert_entries incoming seq b = (b1, seq1)" by fastforce
  show "buffer_ok (fst (continueWith incoming trimmed seq b))"
    "lb_entries (fst (continueWith incoming trimmed seq b)) = sort_key entry_key (lb_entries b @ numbered_from seq incoming)"
    using insert_ok [OF assms(1,2), of incoming seq] assms(3) p by (auto simp add: continueWith_def buffer_ok_def)
qed

lemma drop_fold:
  assumes "counts_ok b (M + mset es)"
  shows "\<exists>b'. foldl (drop_entry_of_pod gone) (b, as, map entry_key as) (zip es (map entry_key es)) =
      (b', as @ filter (\<lambda>e. podOf e \<notin> gone) es, map entry_key (as @ filter (\<lambda>e. podOf e \<notin> gone) es)) \<and>
    counts_ok b' (M + mset (filter (\<lambda>e. podOf e \<notin> gone) es)) \<and>
    lb_bytes b' = lb_bytes b - int (sum_list (map line_bytes (filter (\<lambda>e. podOf e \<in> gone) es))) \<and>
    lb_received b' = lb_received b - int (length (filter (\<lambda>e. podOf e \<in> gone) es)) \<and> lb_basis b' = lb_basis b"
  using assms
proof (induction es arbitrary: b as M)
  case (Cons e es)
  show ?case
  proof (cases "podOf e \<in> gone")
    case True
    let ?b = "countHeld e (- 1) (b\<lparr>lb_bytes := lb_bytes b - int (line_bytes e), lb_received := lb_received b - 1\<rparr>)"
    have "counts_ok ?b (M + mset es)" using Cons.prems by (intro counts_ok_remove) simp
    from Cons.IH [OF this, of as] True show ?thesis by (auto simp: drop_entry_of_pod_def podOf_def)
  next
    case False
    have "counts_ok b (add_mset e M + mset es)" using Cons.prems by simp
    from Cons.IH [OF this, of "as @ [e]"] False show ?thesis by (auto simp: drop_entry_of_pod_def podOf_def)
  qed
qed simp

lemma holds_pod: "counts_ok b (mset es) \<Longrightarrow> holds (lb_pods b) pod \<longleftrightarrow> pod \<in> podOf ` set es"
proof -
  assume "counts_ok b (mset es)"
  then have "pods.key_ok pod (map_of (hv_counts (lb_pods b)) pod) (mset es)" by (simp add: counts_ok_def pods.held_ok_def)
  then show ?thesis
    unfolding holds_def using pods.key_ok_exists [of pod _ _ "mset es"]
    by (cases "map_of (hv_counts (lb_pods b)) pod") (force simp: pods.key_ok_def)+
qed

lemma split_length: "length (filter (\<lambda>x. \<not> P x) xs) + length (filter P xs) = length xs"
  by (induction xs) auto

lemma split_sum:
  fixes f :: "'a \<Rightarrow> nat"
  shows "sum_list (map f (filter (\<lambda>x. \<not> P x) xs)) + sum_list (map f (filter P xs)) = sum_list (map f xs)"
  by (induction xs) auto

lemma drop_pods_ok:
  assumes ok: "buffer_ok b"
  shows "buffer_ok (dropPods ps b)" and "lb_entries (dropPods ps b) = filter (\<lambda>e. podOf e \<notin> set ps) (lb_entries b)"
    and "lb_received (dropPods ps b) - int (length (lb_entries (dropPods ps b))) =
         lb_received b - int (length (lb_entries b))"
proof -
  let ?gone = "filter (holds (lb_pods b)) ps"
  have counts: "counts_ok b ({#} + mset (lb_entries b))" and keys: "lb_keys b = map entry_key (lb_entries b)"
    using ok by (simp_all add: buffer_ok_def)
  have gone: "podOf e \<in> set ?gone \<longleftrightarrow> podOf e \<in> set ps" if "e \<in> set (lb_entries b)" for e
    using that counts holds_pod [of b "lb_entries b" "podOf e"] by auto
  then have kept: "filter (\<lambda>e. podOf e \<notin> set ?gone) (lb_entries b) = filter (\<lambda>e. podOf e \<notin> set ps) (lb_entries b)"
    by (intro filter_cong) auto
  have split: "length (lb_entries b) = length (filter (\<lambda>e. podOf e \<notin> set ?gone) (lb_entries b)) +
        length (filter (\<lambda>e. podOf e \<in> set ?gone) (lb_entries b))"
      "sum_list (map line_bytes (lb_entries b)) = sum_list (map line_bytes (filter (\<lambda>e. podOf e \<notin> set ?gone) (lb_entries b))) +
        sum_list (map line_bytes (filter (\<lambda>e. podOf e \<in> set ?gone) (lb_entries b)))"
    using split_length [of "\<lambda>e. podOf e \<in> set ?gone" "lb_entries b"]
      split_sum [of line_bytes "\<lambda>e. podOf e \<in> set ?gone" "lb_entries b"] by (simp_all only:)
  obtain b' where b': "foldl (drop_entry_of_pod (set ?gone)) (b, [], []) (zip (lb_entries b) (lb_keys b)) =
      (b', filter (\<lambda>e. podOf e \<notin> set ?gone) (lb_entries b), map entry_key (filter (\<lambda>e. podOf e \<notin> set ?gone) (lb_entries b)))"
    "counts_ok b' (mset (filter (\<lambda>e. podOf e \<notin> set ?gone) (lb_entries b)))"
    "lb_bytes b' = lb_bytes b - int (sum_list (map line_bytes (filter (\<lambda>e. podOf e \<in> set ?gone) (lb_entries b))))"
    "lb_received b' = lb_received b - int (length (filter (\<lambda>e. podOf e \<in> set ?gone) (lb_entries b)))"
    using drop_fold [OF counts, of "set ?gone" "[]"] keys by auto
  show "buffer_ok (dropPods ps b)"
    using ok b' split by (simp add: dropPods_def Let_def buffer_ok_def)
  show "lb_entries (dropPods ps b) = filter (\<lambda>e. podOf e \<notin> set ps) (lb_entries b)"
    using b'(1) kept by (auto simp: dropPods_def Let_def filter_empty_conv)
  show "lb_received (dropPods ps b) - int (length (lb_entries (dropPods ps b))) = lb_received b - int (length (lb_entries b))"
    using b' split(1) by (simp add: dropPods_def Let_def)
qed

section \<open>Eviction\<close>

text \<open>The longest list of newest entries within the limits.\<close>

fun newest_within :: "nat \<Rightarrow> nat \<Rightarrow> log_entry list \<Rightarrow> log_entry list" where
  "newest_within maxEntries maxBytes [] = []"
| "newest_within maxEntries maxBytes (e # es) =
     (if length (e # es) \<le> maxEntries \<and> sum_list (map line_bytes (e # es)) \<le> maxBytes then e # es
      else newest_within maxEntries maxBytes es)"

lemma newest_within_limits:
  "length (newest_within maxEntries maxBytes es) \<le> maxEntries"
  "sum_list (map line_bytes (newest_within maxEntries maxBytes es)) \<le> maxBytes"
  "suffix (newest_within maxEntries maxBytes es) es"
  by (induction es) (auto intro: suffix_ConsI)

lemma newest_within_longest:
  assumes "suffix zs es" and "length zs \<le> maxEntries" and "sum_list (map line_bytes zs) \<le> maxBytes"
  shows "suffix zs (newest_within maxEntries maxBytes es)"
  using assms by (induction es) (auto simp: suffix_Cons)

lemma newest_within_all:
  "length es \<le> maxEntries \<Longrightarrow> sum_list (map line_bytes es) \<le> maxBytes \<Longrightarrow> newest_within maxEntries maxBytes es = es"
  by (cases es) simp_all

declare evict_loop.simps [simp del]

lemma evict_loop_newest:
  assumes "n \<le> length es" and "length es - n \<le> maxEntries" and "bytes = int (sum_list (map line_bytes (drop n es)))"
  shows "\<exists>n'. evict_loop es maxBytes n bytes = (n', int (sum_list (map line_bytes (drop n' es)))) \<and> n \<le> n' \<and> n' \<le> length es \<and>
    drop n' es = newest_within maxEntries maxBytes (drop n es)"
  using assms
proof (induction es maxBytes n bytes rule: evict_loop.induct)
  case (1 es maxBytes n bytes)
  show ?case
  proof (cases "int maxBytes < bytes \<and> n < length es")
    case True
    then have d: "drop n es = es ! n # drop (Suc n) es" by (simp add: Cons_nth_drop_Suc)
    have "\<exists>n'. evict_loop es maxBytes (n + 1) (bytes - int (line_bytes (es ! n))) = (n', int (sum_list (map line_bytes (drop n' es)))) \<and>
        n + 1 \<le> n' \<and> n' \<le> length es \<and> drop n' es = newest_within maxEntries maxBytes (drop (n + 1) es)"
      using True "1.prems" d by (intro "1.IH") auto
    moreover have "newest_within maxEntries maxBytes (drop n es) = newest_within maxEntries maxBytes (drop (n + 1) es)"
      using True "1.prems"(3) unfolding d by simp
    moreover have "evict_loop es maxBytes n bytes = evict_loop es maxBytes (n + 1) (bytes - int (line_bytes (es ! n)))"
      using True by (subst evict_loop.simps) simp
    ultimately show ?thesis by (metis Suc_eq_plus1 Suc_leD)
  next
    case False
    then have "newest_within maxEntries maxBytes (drop n es) = drop n es"
      using "1.prems" by (cases "n < length es") (auto intro: newest_within_all)
    moreover have "evict_loop es maxBytes n bytes = (n, bytes)" using False by (subst evict_loop.simps) auto
    ultimately show ?thesis using "1.prems" by simp
  qed
qed

lemma newest_within_drop:
  "newest_within maxEntries maxBytes (drop (length es - maxEntries) es) = newest_within maxEntries maxBytes es"
proof (induction es)
  case (Cons e es)
  then show ?case by (cases "Suc (length es) \<le> maxEntries") (auto simp: Suc_diff_le not_le)
qed simp

lemma evict_ok:
  assumes ok: "buffer_ok b"
  shows "buffer_ok (evict maxEntries maxBytes b)"
    and "lb_entries (evict maxEntries maxBytes b) = newest_within maxEntries maxBytes (lb_entries b)"
    and "lb_received (evict maxEntries maxBytes b) = lb_received b"
proof -
  let ?es = "lb_entries b" and ?over = "length (lb_entries b) - maxEntries"
  have bytes: "lb_bytes b - int (sum_list (map line_bytes (take ?over ?es))) = int (sum_list (map line_bytes (drop ?over ?es)))"
    using ok sum_list_append [of "map line_bytes (take ?over ?es)" "map line_bytes (drop ?over ?es)"]
    by (simp add: buffer_ok_def flip: map_append)
  obtain n where n: "evict_loop ?es maxBytes ?over (lb_bytes b - int (sum_list (map line_bytes (take ?over ?es)))) =
      (n, int (sum_list (map line_bytes (drop n ?es))))" "n \<le> length ?es"
      "drop n ?es = newest_within maxEntries maxBytes ?es"
  proof -
    have "?over \<le> length ?es" "length ?es - ?over \<le> maxEntries" by simp_all
    from evict_loop_newest [OF this bytes, of maxBytes] show ?thesis
      unfolding newest_within_drop using that by blast
  qed
  have "mset ?es = mset (drop n ?es) + mset (take n ?es)" by (metis append_take_drop_id mset_append union_commute)
  then have counts: "counts_ok (foldl (\<lambda>b e. countHeld e (- 1) b) b (take n ?es)) (mset (drop n ?es))"
    using ok remove_all [of b "mset (drop n ?es)" "take n ?es"] by (simp add: buffer_ok_def)
  show "buffer_ok (evict maxEntries maxBytes b)"
    using ok n(1,2) counts by (auto simp: evict_def buffer_ok_def Let_def drop_map)
  show "lb_entries (evict maxEntries maxBytes b) = newest_within maxEntries maxBytes ?es"
    using n by (auto simp: evict_def Let_def)
  show "lb_received (evict maxEntries maxBytes b) = lb_received b"
    using n by (auto simp: evict_def Let_def)
qed

end
