(* ===== verification/Log_Resume.thy ===== *)
theory Log_Resume
  imports Log_Counts
begin

text \<open>
  What the sort keys mean, and where a stream resumes: keys order timed entries as their timestamps do, and a resume
  point is the tail of one container's lines at its newest timestamp.
\<close>

section \<open>Timestamps\<close>

text \<open>The number that a list of digits denotes, and the instant of a matched timestamp: its date and time digits
  followed by nine digits of the fraction.\<close>

fun digits_value :: "string \<Rightarrow> nat" where
  "digits_value [] = 0"
| "digits_value (c # cs) = (of_char c - 48) * 10 ^ length cs + digits_value cs"

definition instant :: "string \<times> string \<Rightarrow> nat" where
  "instant m = digits_value (filter is_digit (fst m) @ snd m @ replicate (9 - length (snd m)) CHR ''0'')"

lemma digits_value_less: "\<forall>c \<in> set cs. is_digit c \<Longrightarrow> digits_value cs < 10 ^ length cs"
proof (induction cs)
  case (Cons c cs)
  then have "of_char c - (48::nat) \<le> 9" "digits_value cs < 10 ^ length cs" by (auto simp: is_digit_def)
  then have "(of_char c - 48) * 10 ^ length cs + digits_value cs < 9 * 10 ^ length cs + 10 ^ length cs"
    by (intro add_le_less_mono mult_right_mono) simp_all
  then show ?case by simp
qed simp

lemma unit_less:
  "(word_of_int (of_char c) :: 16 word) < word_of_int (of_char d) \<longleftrightarrow> (of_char c :: nat) < of_char d"
proof -
  have u: "uint (word_of_int (int n) :: 16 word) = int n" if "n < 256" for n
  proof -
    have "n < 2 ^ LENGTH(16)" using that by simp
    then show ?thesis by (simp add: unsigned_of_nat take_bit_nat_eq_self)
  qed
  have "uint (word_of_int (of_char c) :: 16 word) = int (of_char c)" for c :: char
    using u [OF nat_of_char_less_256 [of c]] unfolding of_nat_of_char [where ?'a = int, symmetric] .
  then show ?thesis unfolding word_less_def by simp
qed

lemma units_eq [simp]: "utf16_units s = utf16_units t \<longleftrightarrow> s = t"
proof
  have inj: "c = d" if "(word_of_int (of_char c) :: 16 word) = word_of_int (of_char d)" for c d :: char
    using that unit_less [of c d] unit_less [of d c] by (metis less_irrefl linorder_neqE_nat of_char_eq_iff)
  assume "utf16_units s = utf16_units t"
  then have "list_all2 (\<lambda>c d. (word_of_int (of_char c) :: 16 word) = word_of_int (of_char d)) s t"
    by (simp add: utf16_units_def list_all2_conv_all_nth list_eq_iff_nth_eq)
  then show "s = t" using inj by (induction rule: list_all2_induct) auto
qed simp

text \<open>Texts that match the pattern differ first at a digit, and there the larger digit decides the number.\<close>

lemma keys_order_digits:
  assumes "follows pat s" and "follows pat t" and "\<forall>p \<in> set pat. \<not> is_digit p"
  shows "length (filter is_digit s) = length (filter is_digit t) \<and>
    (utf16_units s < utf16_units t \<longleftrightarrow> digits_value (filter is_digit s) < digits_value (filter is_digit t))"
  using assms unfolding follows_def
proof (induction pat arbitrary: s t)
  case (Cons p pat)
  then obtain c s' d t' where st: "s = c # s'" "t = d # t'" by (auto simp: list_all2_Cons1)
  have IH: "length (filter is_digit s') = length (filter is_digit t')"
      "utf16_units s' < utf16_units t' \<longleftrightarrow> digits_value (filter is_digit s') < digits_value (filter is_digit t')"
    using Cons.IH [of s' t'] Cons.prems st by auto
  show ?case
  proof (cases "p = CHR ''d''")
    case False
    then have "c = p" "d = p" "\<not> is_digit p" using Cons.prems st by auto
    then show ?thesis using IH st by (simp add: utf16_units_def)
  next
    case True
    then have cd: "is_digit c" "is_digit d" using Cons.prems st by auto
    let ?l = "length (filter is_digit t')" and ?S = "digits_value (filter is_digit s')" and ?T = "digits_value (filter is_digit t')"
    have small: "?S < 10 ^ ?l" "?T < 10 ^ ?l"
      using digits_value_less [of "filter is_digit s'"] digits_value_less [of "filter is_digit t'"] IH(1) by auto
    obtain m n where mn: "(of_char c :: nat) = 48 + m" "(of_char d :: nat) = 48 + n"
      using cd by (metis is_digit_def le_Suc_ex)
    have order: "m * 10 ^ ?l + ?S < n * 10 ^ ?l + ?T \<longleftrightarrow> m < n \<or> m = n \<and> ?S < ?T"
    proof (cases m n rule: linorder_cases)
      case less
      then have "(m + 1) * 10 ^ ?l \<le> n * 10 ^ ?l" by (intro mult_right_mono) simp_all
      then show ?thesis using less small by (simp add: add_mult_distrib)
    next
      case greater
      then have "(n + 1) * 10 ^ ?l \<le> m * 10 ^ ?l" by (intro mult_right_mono) simp_all
      then show ?thesis using greater small by (simp add: add_mult_distrib)
    qed simp
    let ?c = "word_of_int (of_char c) :: 16 word" and ?d = "word_of_int (of_char d) :: 16 word"
    have "?c < ?d \<longleftrightarrow> m < n" "?d < ?c \<longleftrightarrow> n < m" unfolding unit_less mn by simp_all
    then have "?c < ?d \<or> ?c = ?d \<and> utf16_units s' < utf16_units t' \<longleftrightarrow> m < n \<or> m = n \<and> ?S < ?T"
      using IH(2) by (metis linorder_less_linear less_irrefl)
    then have "utf16_units s < utf16_units t \<longleftrightarrow> m * 10 ^ ?l + ?S < n * 10 ^ ?l + ?T"
      unfolding order by (simp add: st utf16_units_def)
    then show ?thesis using st cd IH(1) mn by simp
  qed
qed simp

lemma match_parts:
  assumes "match_timestamp t = Some (seconds, fraction)"
  shows "matches_seconds seconds" "\<forall>c \<in> set fraction. is_digit c" "length fraction \<le> 9"
  using assms by (auto simp: match_timestamp_def Let_def list_all_iff split: if_splits)

lemma follows_append: "follows p s \<Longrightarrow> follows q t \<Longrightarrow> follows (p @ q) (s @ t)"
  by (simp add: follows_def list_all2_appendI)

lemma timed_key:
  assumes "match_timestamp t = Some m"
  defines "full \<equiv> fst m @ ''.'' @ snd m @ replicate (9 - length (snd m)) CHR ''0''"
  shows "timestampKey t = utf16_units full" and "follows ''dddd-dd-ddTdd:dd:dd.ddddddddd'' full"
    and "digits_value (filter is_digit full) = instant m"
proof -
  obtain seconds fraction where m: "m = (seconds, fraction)" by fastforce
  note parts = match_parts [OF assms(1) [unfolded m]]
  show "timestampKey t = utf16_units full" using assms m by (simp add: timestampKey_def)
  have zero: "is_digit CHR ''0''" by (simp add: is_digit_def)
  have "follows (replicate 9 CHR ''d'') (fraction @ replicate (9 - length fraction) CHR ''0'')"
    using parts zero by (auto simp: follows_def list_all2_conv_all_nth nth_append)
  from follows_append [OF follows_append [OF parts(1) [unfolded matches_seconds_def], of "''.''" "''.''"] this]
  show "follows ''dddd-dd-ddTdd:dd:dd.ddddddddd'' full"
    unfolding full_def m by (simp add: follows_def numeral_eq_Suc)
  have dot: "\<not> is_digit CHR ''.''" by (simp add: is_digit_def)
  have "filter is_digit (fraction @ replicate k CHR ''0'') = fraction @ replicate k CHR ''0''" for k
    using parts(2) zero by simp
  then show "digits_value (filter is_digit full) = instant m"
    unfolding full_def m instant_def using dot by simp
qed

lemma timed_key_order:
  assumes "match_timestamp t = Some m" and "match_timestamp u = Some n"
  shows "timestampKey t < timestampKey u \<longleftrightarrow> instant m < instant n"
  using keys_order_digits [OF timed_key(2) [OF assms(1)] timed_key(2) [OF assms(2)]]
    timed_key(1,3) [OF assms(1)] timed_key(1,3) [OF assms(2)] by (simp add: is_digit_def)

lemma untimed_last:
  assumes "match_timestamp t = Some m"
  shows "timestampKey t < UNTIMED_KEY"
proof -
  obtain c s where c: "fst m @ ''.'' @ snd m @ replicate (9 - length (snd m)) CHR ''0'' = c # s" "is_digit c"
    using timed_key(2) [OF assms] by (auto simp: follows_def list_all2_Cons1)
  have "(word_of_int (of_char c) :: 16 word) < 0xFFFF"
  proof -
    have "(of_char c :: nat) \<le> 57" using c(2) by (simp add: is_digit_def)
    then have "(word_of_int (of_char c) :: 16 word) \<le> word_of_int (of_char CHR ''9'')"
      using unit_less [of "CHR ''9''" c] by (simp add: not_less)
    then show ?thesis by (rule le_less_trans) simp
  qed
  then show ?thesis unfolding timed_key(1) [OF assms] c(1) by (simp add: UNTIMED_KEY_def utf16_units_def)
qed

section \<open>Resume points\<close>

abbreviation identity :: "log_entry \<Rightarrow> string" where
  "identity e \<equiv> containerIdentity (le_wire e)"

text \<open>The timed entries of one container.\<close>

definition timed_of :: "string \<Rightarrow> log_entry list \<Rightarrow> log_entry list" where
  "timed_of k es = filter (\<lambda>e. identity e = k \<and> entry_key e \<noteq> UNTIMED_KEY) es"

text \<open>What a run took: lines with the newest key, within the limits.\<close>

definition run_took :: "resume_run \<Rightarrow> log_entry list \<Rightarrow> bool" where
  "run_took run xs \<longleftrightarrow> xs \<noteq> [] \<and> length xs \<le> RESUME_MAX_LINES \<and>
     rr_lines run = map (\<lambda>e. we_line (le_wire e)) xs \<and> rr_bytes run = sum_list (map line_bytes xs) \<and>
     (\<forall>e \<in> set xs. entry_key e = rr_key run) \<and> (length xs = 1 \<or> rr_bytes run \<le> RESUME_MAX_BYTES)"

text \<open>A run of a container's entries, newest first: it took the first ones, and all of them while it is open.\<close>

definition run_ok :: "resume_run \<Rightarrow> log_entry list \<Rightarrow> bool" where
  "run_ok run es \<longleftrightarrow> rr_newest run = hd es \<and> rr_key run = entry_key (hd es) \<and>
     (\<exists>xs ys. es = xs @ ys \<and> run_took run xs \<and> (\<not> rr_closed run \<longrightarrow> ys = []))"

lemma run_okE:
  assumes "run_ok run es"
  obtains xs ys where "es = xs @ ys" "run_took run xs" "\<not> rr_closed run \<longrightarrow> ys = []" "xs \<noteq> []"
    "rr_newest run = hd es" "rr_key run = entry_key (hd es)"
  using assms unfolding run_ok_def run_took_def by blast

lemma run_okI:
  "run_took run xs \<Longrightarrow> rr_newest run = hd xs \<Longrightarrow> rr_key run = entry_key (hd xs) \<Longrightarrow> (\<not> rr_closed run \<longrightarrow> ys = []) \<Longrightarrow>
     run_ok run (xs @ ys)"
  unfolding run_ok_def by (metis hd_append run_took_def)

lemma run_ok_closed:
  assumes "run_ok run es" and "rr_closed run"
  shows "run_ok run (es @ [e])"
proof -
  obtain xs ys where "es = xs @ ys" "run_took run xs" "xs \<noteq> []" "rr_newest run = hd es" "rr_key run = entry_key (hd es)"
    using run_okE [OF assms(1)] by blast
  with assms(2) run_okI [of run xs "ys @ [e]"] show ?thesis by simp
qed

lemma run_ok_extend:
  assumes "run_ok run es" and "\<not> rr_closed run"
  shows "run_ok (extendRun run e (entry_key e)) (es @ [e])"
proof -
  have es: "run_took run es" "es \<noteq> []" "rr_newest run = hd es" "rr_key run = entry_key (hd es)"
    using run_okE [OF assms(1)] assms(2) by (metis append_Nil2)+
  show ?thesis
  proof (cases "entry_key e \<noteq> rr_key run \<or> RESUME_MAX_LINES \<le> length (rr_lines run) \<or> RESUME_MAX_BYTES < rr_bytes run + line_bytes e")
    case True
    then have eq: "extendRun run e (entry_key e) = run\<lparr>rr_closed := True\<rparr>" by (simp add: extendRun_def Let_def)
    have "run_took (run\<lparr>rr_closed := True\<rparr>) es" using es(1) by (auto simp: run_took_def)
    then show ?thesis unfolding eq using es by (intro run_okI) simp_all
  next
    case False
    then have eq: "extendRun run e (entry_key e) =
        run\<lparr>rr_lines := rr_lines run @ [we_line (le_wire e)], rr_bytes := rr_bytes run + line_bytes e\<rparr>"
      by (simp add: extendRun_def Let_def)
    have "run_took (extendRun run e (entry_key e)) (es @ [e])" using es(1) False unfolding eq by (simp add: run_took_def)
    then have "run_ok (extendRun run e (entry_key e)) ((es @ [e]) @ [])"
      using es assms(2) unfolding eq by (intro run_okI) simp_all
    then show ?thesis by simp
  qed
qed

fun run_at :: "resume_run option \<Rightarrow> log_entry list \<Rightarrow> bool" where
  "run_at None es \<longleftrightarrow> es = []"
| "run_at (Some run) es \<longleftrightarrow> run_ok run es"

definition runs_ok :: "(string, resume_run) js_map \<Rightarrow> log_entry list \<Rightarrow> bool" where
  "runs_ok runs es \<longleftrightarrow> distinct (map fst runs) \<and>
     (\<forall>k. run_at (map_of runs k) (timed_of k es))"

lemma timed_of_append [simp]: "timed_of k (es @ fs) = timed_of k es @ timed_of k fs"
  by (simp add: timed_of_def)

lemma resume_step_ok:
  assumes "runs_ok runs es"
  shows "runs_ok (resume_step runs (e, entry_key e)) (es @ [e])"
proof -
  let ?k = "identity e"
  have d: "distinct (map fst runs)" and at: "run_at (map_of runs k) (timed_of k es)" for k
    using assms by (simp_all add: runs_ok_def)
  have other: "timed_of k [e] = []" if "k \<noteq> ?k \<or> entry_key e = UNTIMED_KEY" for k using that by (auto simp: timed_of_def)
  show ?thesis
  proof (cases "entry_key e = UNTIMED_KEY")
    case True
    then show ?thesis using d at other by (simp add: resume_step_def runs_ok_def)
  next
    case False
    then have own: "timed_of ?k [e] = [e]" by (simp add: timed_of_def)
    have put: "runs_ok (AList.update ?k run runs) (es @ [e])" if "run_ok run (timed_of ?k es @ [e])" for run
      using that d at own other by (auto simp: runs_ok_def map_of_update distinct_update)
    show ?thesis
    proof (cases "map_of runs ?k")
      case None
      then have "timed_of ?k es = []" using at [of ?k] by simp
      then have "run_ok \<lparr>rr_newest = e, rr_key = entry_key e, rr_lines = [we_line (le_wire e)], rr_bytes = line_bytes e,
          rr_closed = False\<rparr> (timed_of ?k es @ [e])"
        using run_okI [of _ "[e]" "[]"] by (simp add: run_took_def RESUME_MAX_LINES_def)
      from put [OF this] show ?thesis using None False by (simp add: resume_step_def Let_def)
    next
      case (Some run)
      then have ok: "run_ok run (timed_of ?k es)" using at [of ?k] by simp
      show ?thesis
      proof (cases "rr_closed run")
        case True
        have "run_ok run (timed_of ?k es @ [e])" by (rule run_ok_closed [OF ok True])
        then have "run_at (map_of runs k) (timed_of k (es @ [e]))" for k
          using at [of k] own other [of k] Some by (cases "k = ?k") simp_all
        then show ?thesis using Some False True d by (simp add: resume_step_def Let_def runs_ok_def)
      next
        case open_run: False
        from put [OF run_ok_extend [OF ok open_run]] show ?thesis using Some False open_run by (simp add: resume_step_def Let_def)
      qed
    qed
  qed
qed

lemma resume_runs_ok: "runs_ok (foldl resume_step [] (map (\<lambda>e. (e, entry_key e)) es)) es"
  by (induction es rule: rev_induct) (simp_all add: resume_step_ok, simp add: runs_ok_def timed_of_def)

text \<open>The point of a container: its newest timed entry, and a tail of its lines at that timestamp.\<close>

definition tail_point :: "log_entry list \<Rightarrow> resume_point \<Rightarrow> bool" where
  "tail_point es p \<longleftrightarrow> (let e = le_wire (last es) in
     rp_pod p = we_pod e \<and> rp_container p = we_container e \<and> rp_is_init p = we_is_init e \<and>
     rp_is_ephemeral p = ephemeral e \<and> rp_timestamp p = we_timestamp e \<and>
     (\<exists>older run. es = older @ run \<and> run \<noteq> [] \<and> rp_lines p = map (\<lambda>e. we_line (le_wire e)) run \<and>
        (\<forall>e \<in> set run. entry_key e = entry_key (last es)) \<and> length run \<le> RESUME_MAX_LINES \<and>
        (length run = 1 \<or> sum_list (map line_bytes run) \<le> RESUME_MAX_BYTES)))"

lemma tail_point_of_run:
  assumes "run_ok run (rev es)"
  shows "es \<noteq> [] \<and> tail_point es (toResumePoint run)"
proof -
  obtain xs ys where es: "rev es = xs @ ys" "run_took run xs" "xs \<noteq> []" "rr_newest run = hd (rev es)" "rr_key run = entry_key (hd (rev es))"
    using run_okE [OF assms] by metis
  then have split: "es = rev ys @ rev xs" by (metis rev_append rev_rev_ident)
  then have ne: "es \<noteq> []" using es(3) by simp
  then have newest: "rr_newest run = last es" "rr_key run = entry_key (last es)" using es(4,5) by (simp_all add: hd_rev)
  have bytes: "sum_list (map line_bytes (rev xs)) = sum_list (map line_bytes xs)" by (rule sum_list_perm) simp
  have "rev xs \<noteq> [] \<and> rp_lines (toResumePoint run) = map (\<lambda>e. we_line (le_wire e)) (rev xs) \<and>
      (\<forall>e \<in> set (rev xs). entry_key e = entry_key (last es)) \<and> length (rev xs) \<le> RESUME_MAX_LINES \<and>
      (length (rev xs) = 1 \<or> sum_list (map line_bytes (rev xs)) \<le> RESUME_MAX_BYTES)"
  proof -
    have took: "rr_lines run = map (\<lambda>e. we_line (le_wire e)) xs" "length xs \<le> RESUME_MAX_LINES"
        "\<forall>e \<in> set xs. entry_key e = entry_key (last es)" "length xs = 1 \<or> sum_list (map line_bytes xs) \<le> RESUME_MAX_BYTES"
      using es(2) newest(2) unfolding run_took_def by metis+
    then show ?thesis using es(3) bytes
      by (simp add: toResumePoint_def Let_def rev_map)
  qed
  then have "\<exists>older run'. es = older @ run' \<and> run' \<noteq> [] \<and> rp_lines (toResumePoint run) = map (\<lambda>e. we_line (le_wire e)) run' \<and>
      (\<forall>e \<in> set run'. entry_key e = entry_key (last es)) \<and> length run' \<le> RESUME_MAX_LINES \<and>
      (length run' = 1 \<or> sum_list (map line_bytes run') \<le> RESUME_MAX_BYTES)"
    using split by blast
  then show ?thesis using ne newest(1) unfolding tail_point_def by (simp add: toResumePoint_def Let_def)
qed

lemma timed_of_rev: "timed_of k (rev es) = rev (timed_of k es)"
  by (simp add: timed_of_def rev_filter)

lemma resume_points_tails:
  "\<exists>ks. distinct ks \<and> set ks = {identity e |e. e \<in> set es \<and> entry_key e \<noteq> UNTIMED_KEY} \<and>
     list_all2 (\<lambda>k p. tail_point (timed_of k es) p) ks (resumePointsFor es (map entry_key es))"
proof -
  define runs where "runs = foldl resume_step [] (map (\<lambda>e. (e, entry_key e)) (rev es))"
  have "rev (zip es (map entry_key es)) = map (\<lambda>e. (e, entry_key e)) (rev es)"
    by (simp add: zip_map2 zip_same_conv_map rev_map)
  then have points: "resumePointsFor es (map entry_key es) = map (toResumePoint \<circ> snd) runs"
    by (simp add: resumePointsFor_def runs_def)
  have ok: "runs_ok runs (rev es)" unfolding runs_def by (rule resume_runs_ok)
  then have d: "distinct (map fst runs)" by (simp add: runs_ok_def)
  have at: "run_at (map_of runs k) (rev (timed_of k es))" for k
    using ok by (simp add: runs_ok_def timed_of_rev)
  have keys: "k \<in> fst ` set runs \<longleftrightarrow> timed_of k es \<noteq> []" for k
  proof (cases "map_of runs k")
    case (Some run)
    then have "run_ok run (rev (timed_of k es))" using at [of k] by simp
    then show ?thesis using Some tail_point_of_run map_of_eq_None_iff [of runs k] by auto
  qed (use at [of k] map_of_eq_None_iff [of runs k] in simp)
  have "k \<in> set (map fst runs) \<longleftrightarrow> k \<in> {identity e |e. e \<in> set es \<and> entry_key e \<noteq> UNTIMED_KEY}" for k
    using keys [of k] unfolding timed_of_def filter_empty_conv set_map by auto
  then have "set (map fst runs) = {identity e |e. e \<in> set es \<and> entry_key e \<noteq> UNTIMED_KEY}" by blast
  moreover have "list_all2 (\<lambda>k p. tail_point (timed_of k es) p) (map fst runs) (map (toResumePoint \<circ> snd) runs)"
  proof -
    have "tail_point (timed_of k es) (toResumePoint run)" if "(k, run) \<in> set runs" for k run
      using at [of k] map_of_is_SomeI [OF d that] tail_point_of_run by simp
    then show ?thesis by (auto simp: list_all2_conv_all_nth)
  qed
  ultimately show ?thesis using d points by metis
qed

end
