(* ===== verification/Log_Views.thy ===== *)
theory Log_Views
  imports Log_Manager Log_Resume
begin

text \<open>
  What the log views show. \<open>data_inv\<close> says of every buffer that its entries are in timestamp order and within the limits,
  and of the snapshot the store holds for it that it shows that very buffer; every operation keeps it.
\<close>

section \<open>Buffers in order\<close>

definition fine_buffer :: "log_buffer \<Rightarrow> bool" where
  "fine_buffer b \<longleftrightarrow> buffer_ok b \<and> sorted (lb_keys b)"

definition within :: "nat \<Rightarrow> nat \<Rightarrow> log_buffer \<Rightarrow> bool" where
  "within maxEntries maxBytes b \<longleftrightarrow>
     length (lb_entries b) \<le> maxEntries \<and> sum_list (map line_bytes (lb_entries b)) \<le> maxBytes"

lemma fine_keys: "fine_buffer b \<Longrightarrow> lb_keys b = map entry_key (lb_entries b)"
  by (simp add: fine_buffer_def buffer_ok_def)

lemma fine_new: "fine_buffer new_log_buffer"
  using new_buffer_ok by (simp add: fine_buffer_def new_log_buffer_def)

lemma fineI: "buffer_ok b \<Longrightarrow> sorted (map entry_key (lb_entries b)) \<Longrightarrow> fine_buffer b"
  by (simp add: fine_buffer_def buffer_ok_def)

lemma insert_fine: "fine_buffer b \<Longrightarrow> fine_buffer (fst (insert_entries incoming seq b))"
  using insert_ok [of b incoming seq] by (intro fineI) (simp_all add: fine_buffer_def)

lemma continue_fine: "fine_buffer b \<Longrightarrow> 0 \<le> trimmed \<Longrightarrow> fine_buffer (fst (continueWith incoming trimmed seq b))"
  using continue_ok [of b trimmed incoming seq] by (intro fineI) (simp_all add: fine_buffer_def)

lemma drop_pods_fine: "fine_buffer b \<Longrightarrow> fine_buffer (dropPods ps b)"
proof (rule fineI)
  assume b: "fine_buffer b"
  then show "buffer_ok (dropPods ps b)" by (simp add: fine_buffer_def drop_pods_ok)
  have "sorted (map entry_key (lb_entries b))" using b by (simp add: fine_buffer_def flip: fine_keys)
  then show "sorted (map entry_key (lb_entries (dropPods ps b)))"
    using b by (simp add: fine_buffer_def drop_pods_ok(2) sorted_filter)
qed

lemma keys_numbered: "map entry_key (numbered_from seq ws) = map (timestampKey \<circ> we_timestamp) ws"
  by (induction ws arbitrary: seq) (simp_all add: entry_key_def)

lemma replace_fine:
  assumes "fine_buffer b" and "0 \<le> trimmed" and "sorted (map (timestampKey \<circ> we_timestamp) incoming)"
  shows "fine_buffer (fst (replace_entries incoming trimmed seq b))"
proof (rule fineI [OF replace_ok [OF assms(2)]])
  have "sorted (map entry_key (lb_entries b))" using assms(1) by (simp add: fine_buffer_def flip: fine_keys)
  then show "sorted (map entry_key (lb_entries (fst (replace_entries incoming trimmed seq b))))"
    using assms(3) by (simp add: replace_entries_def Let_def keys_numbered)
qed

lemma evict_fine: "fine_buffer b \<Longrightarrow> fine_buffer (evict maxEntries maxBytes b)"
proof (rule fineI)
  assume b: "fine_buffer b"
  then show "buffer_ok (evict maxEntries maxBytes b)" by (simp add: fine_buffer_def evict_ok)
  have "sorted (map entry_key (lb_entries b))" using b by (simp add: fine_buffer_def flip: fine_keys)
  moreover obtain zs where "lb_entries b = zs @ newest_within maxEntries maxBytes (lb_entries b)"
    using newest_within_limits(3) [of maxEntries maxBytes "lb_entries b"] by (auto simp: suffix_def)
  ultimately have "sorted (map entry_key (newest_within maxEntries maxBytes (lb_entries b)))"
    by (metis map_append sorted_append)
  then show "sorted (map entry_key (lb_entries (evict maxEntries maxBytes b)))"
    using b by (simp add: fine_buffer_def evict_ok(2))
qed

lemma evict_within: "fine_buffer b \<Longrightarrow> within maxEntries maxBytes (evict maxEntries maxBytes b)"
  by (simp add: within_def fine_buffer_def evict_ok(2) newest_within_limits)

lemma evict_same:
  assumes "fine_buffer b" and "within maxEntries maxBytes b"
  shows "evict maxEntries maxBytes b = b"
proof -
  have "int (sum_list (map line_bytes (lb_entries b))) = lb_bytes b" using assms(1) by (simp add: fine_buffer_def buffer_ok_def)
  then show ?thesis
    using assms(2) by (simp add: evict_def within_def Let_def evict_loop.simps)
qed

lemma fine_fields [simp]:
  "fine_buffer (setBasis request b) = fine_buffer b" "fine_buffer (limitBasis n b) = fine_buffer b"
  "fine_buffer (b\<lparr>lb_warnings := ws\<rparr>) = fine_buffer b" "fine_buffer (b\<lparr>lb_issues := ws\<rparr>) = fine_buffer b"
  by (simp_all add: fine_buffer_def buffer_ok_def setBasis_def limitBasis_def)

lemma data_effect_fine:
  assumes "fine_buffer b" and "snapshot_ok effect"
  shows "fine_buffer (fst (applyDataEffect n request (b, seq, applied) effect))"
proof (cases effect)
  case (ApplySnapshot entries resumed removedPods trimmed warnings issues)
  then have ok: "0 \<le> trimmed" "resumed \<or> sorted (map (timestampKey \<circ> we_timestamp) entries)" using assms(2) by simp_all
  show ?thesis
  proof (cases resumed)
    case True
    obtain b1 n where p: "continueWith entries trimmed seq b = (b1, n)" by fastforce
    then show ?thesis
      using ApplySnapshot True drop_pods_fine [OF continue_fine [OF assms(1) ok(1), of entries seq], of removedPods] by simp
  next
    case False
    obtain b1 n where p: "replace_entries entries trimmed seq b = (b1, n)" by fastforce
    then show ?thesis using False ApplySnapshot replace_fine [OF assms(1) ok(1), of entries seq] ok(2) by simp
  qed
next
  case (AppendEntries entries)
  then show ?thesis using insert_fine [OF assms(1), of entries seq] by (simp add: case_prod_beta)
next
  case (RemovePods ps)
  then show ?thesis using drop_pods_fine [OF assms(1)] by simp
qed (use assms(1) in simp_all)

lemma data_effects_fine:
  "fine_buffer b \<Longrightarrow> list_all snapshot_ok effects \<Longrightarrow>
     fine_buffer (fst (foldl (applyDataEffect n request) (b, seq, applied) effects))"
proof (induction effects arbitrary: b seq applied)
  case (Cons e es)
  obtain b1 s1 a1 where p: "applyDataEffect n request (b, seq, applied) e = (b1, s1, a1)" by (metis prod_cases3)
  have "fine_buffer b1" using data_effect_fine [OF Cons.prems(1), of e n request seq applied] Cons.prems(2) p by simp
  then show ?case using Cons.IH [of b1 s1 a1] Cons.prems(2) p by simp
qed simp

section \<open>What a scope shows\<close>

lemma read_set_state:
  "getScopedDomainState (setScopedDomainState st d scope (\<lambda>p. Some (f p))) d scope' =
     (if scope' = scope then f (getScopedDomainState st d scope) else getScopedDomainState st d scope')"
  by (simp add: setScopedDomainState_def getScopedDomainState_def Let_def scoped_publish map_of_update
      getScopedDomainStates_def split: option.split)

lemma read_reset_state:
  "getScopedDomainState (resetScopedDomainState st d scope) d scope' =
     (if scope' = scope then empty_scoped_state else getScopedDomainState st d scope')"
  by (auto simp: resetScopedDomainState_def getScopedDomainState_def scoped_publish map_of_delete
      split: option.split dest: delete_empty)

definition log_snapshot :: "log_manager \<Rightarrow> string \<Rightarrow> logs_payload domain_snapshot" where
  "log_snapshot s scope = getScopedDomainState (lm_store s) DOMAIN_NAME scope"

text \<open>A snapshot with data shows the buffer: its lines, its counts, its pods and its containers.\<close>

definition shows_buffer :: "log_buffer \<Rightarrow> logs_payload domain_snapshot \<Rightarrow> bool" where
  "shows_buffer b snapshot \<longleftrightarrow>
     (case ds_data snapshot of
        None \<Rightarrow> True
      | Some p \<Rightarrow> pl_entries p = lb_entries b \<and> pl_truncation p = truncation b \<and>
          ds_stats snapshot = Some (buildStats b) \<and> set (pl_pods p) = podOf ` set (lb_entries b) \<and>
          set (pl_containers p) = containerOf ` set (lb_entries b))"

definition fine_at :: "log_manager \<Rightarrow> string \<Rightarrow> bool" where
  "fine_at s scope \<longleftrightarrow> (\<forall>b. map_of (lm_buffers s) scope = Some b \<longrightarrow> fine_buffer b)"

definition scope_ok :: "log_manager \<Rightarrow> string \<Rightarrow> bool" where
  "scope_ok s scope \<longleftrightarrow>
     (\<forall>b. map_of (lm_buffers s) scope = Some b \<longrightarrow>
        fine_buffer b \<and> within (lm_max_entries s) (lm_max_bytes s) b \<and> shows_buffer b (log_snapshot s scope))"

definition data_inv :: "log_manager \<Rightarrow> bool" where
  "data_inv s \<longleftrightarrow>
     (\<forall>scope. scope_ok s scope) \<and>
     (\<forall>scope cid. map_of (lm_table s) scope = Some cid \<longrightarrow> map_of (lm_buffers s) scope \<noteq> None)"

lemma read_fine:
  assumes "fine_buffer b"
  defines "b' \<equiv> b\<lparr>lb_pods := read_values (lb_pods b), lb_containers := read_values (lb_containers b)\<rparr>"
  shows "fine_buffer b'" and "set (hv_list (lb_pods b')) = podOf ` set (lb_entries b)"
    and "set (hv_list (lb_containers b')) = containerOf ` set (lb_entries b)"
    and "truncation b' = truncation b" and "buildStats b' = buildStats b"
proof -
  have held: "pods.held_ok (lb_pods b) (mset (lb_entries b))" "containers.held_ok (lb_containers b) (mset (lb_entries b))"
    using assms(1) by (simp_all add: fine_buffer_def buffer_ok_def counts_ok_def)
  then have "pods.held_ok (read_values (lb_pods b)) (mset (lb_entries b))"
    "containers.held_ok (read_values (lb_containers b)) (mset (lb_entries b))"
    by (auto simp: pods.held_ok_def containers.held_ok_def read_values_def)
  then show "fine_buffer b'"
    using assms(1) fine_keys [OF assms(1)] by (auto simp: b'_def fine_buffer_def buffer_ok_def counts_ok_def)
  show "set (hv_list (lb_pods b')) = podOf ` set (lb_entries b)"
    "set (hv_list (lb_containers b')) = containerOf ` set (lb_entries b)"
    using pods.read_values_set [OF held(1)] containers.read_values_set [OF held(2)] by (simp_all add: b'_def)
  show "truncation b' = truncation b" "buildStats b' = buildStats b"
    by (simp_all add: b'_def truncation_def buildStats_def)
qed

lemma put_buffer_fields [simp]:
  "lm_table (put_buffer scope b s) = lm_table s" "lm_store (put_buffer scope b s) = lm_store s"
  "lm_max_entries (put_buffer scope b s) = lm_max_entries s" "lm_max_bytes (put_buffer scope b s) = lm_max_bytes s"
  "lm_objects (put_buffer scope b s) = lm_objects s" "lm_seq (put_buffer scope b s) = lm_seq s"
  by (simp_all add: put_buffer_def)

lemma put_buffer_lookup [simp]:
  "map_of (lm_buffers (put_buffer scope b s)) = (map_of (lm_buffers s))(scope \<mapsto> b)"
  by (simp add: put_buffer_def map_of_update fun_eq_iff)

lemma commit_fields [simp]:
  "lm_table (commit env scope ph ap s) = lm_table s" "lm_max_entries (commit env scope ph ap s) = lm_max_entries s"
  "lm_max_bytes (commit env scope ph ap s) = lm_max_bytes s"
  "(map_of (lm_buffers (commit env scope ph ap s)) sc = None) = (map_of (lm_buffers s) sc = None)"
  by (simp_all add: commit_def Let_def split: option.split)

lemma commit_other: "scope' \<noteq> scope \<Longrightarrow> scope_ok (commit env scope ph ap s) scope' = scope_ok s scope'"
  by (simp add: commit_def Let_def scope_ok_def log_snapshot_def read_set_state split: option.split)

lemma commit_shows:
  assumes "map_of (lm_buffers s) scope = Some b" and "fine_buffer b" and "within (lm_max_entries s) (lm_max_bytes s) b"
  shows "scope_ok (commit env scope ph ap s) scope"
  using assms read_fine [OF assms(2)]
  by (simp add: commit_def Let_def scope_ok_def log_snapshot_def read_set_state shows_buffer_def payload_of_def within_def)

lemma put_other: "scope' \<noteq> scope \<Longrightarrow> scope_ok (put_buffer scope b s) scope' = scope_ok s scope'"
  by (simp add: scope_ok_def log_snapshot_def)

section \<open>Operations that leave the data alone\<close>

definition log_data ::
    "log_manager \<Rightarrow> (string, nat) js_map \<times> (string, log_buffer) js_map \<times> logs_payload refresh_store \<times> nat \<times> nat" where
  "log_data s = (lm_table s, lm_buffers s, lm_store s, lm_max_entries s, lm_max_bytes s)"

lemma data_inv_cong: "log_data s = log_data s' \<Longrightarrow> data_inv s = data_inv s'"
  by (simp add: log_data_def data_inv_def scope_ok_def log_snapshot_def)

lemma log_data_table: "log_data s = log_data s' \<Longrightarrow> lm_table s = lm_table s'"
  by (simp add: log_data_def)

lemma log_data_conn [simp]: "log_data (put_log_conn cid c s) = log_data s"
  by (simp add: log_data_def put_log_conn_def)

lemma log_data_fields [simp]:
  "log_data (s\<lparr>lm_seq := n\<rparr>) = log_data s" "log_data (s\<lparr>lm_notified := ns\<rparr>) = log_data s"
  "log_data (s\<lparr>lm_suspended := b\<rparr>) = log_data s" "log_data (s\<lparr>lm_params := ps\<rparr>) = log_data s"
  "log_data (s\<lparr>lm_timers := ts\<rparr>) = log_data s" "log_data (s\<lparr>lm_next_timer := n\<rparr>) = log_data s"
  "log_data (s\<lparr>lm_sockets := ss\<rparr>) = log_data s" "log_data (s\<lparr>lm_attached := ss\<rparr>) = log_data s"
  "log_data (s\<lparr>lm_closed := ss\<rparr>) = log_data s" "log_data (s\<lparr>lm_sent := qs\<rparr>) = log_data s"
  "log_data (s\<lparr>lm_reports := rs\<rparr>) = log_data s"
  by (simp_all add: log_data_def)

lemma log_data_effects [simp]:
  "log_data (clearRetryTimer cid s) = log_data s" "log_data (closeStream cid s) = log_data s"
  "log_data (scheduleLogReconnect cid s) = log_data s"
  by (simp_all add: clearRetryTimer_def closeStream_def scheduleLogReconnect_def Let_def split: option.split)

lemma log_data_effect [simp]: "log_data (applyConnectionEffect cid s e) = log_data s"
  by (cases e) (simp_all add: Let_def split: option.split)

lemma log_data_all_effects [simp]: "log_data (foldl (applyConnectionEffect cid) s es) = log_data s"
  by (induction es arbitrary: s) simp_all

lemma log_data_notify [simp]:
  "log_data (notifyPhase scope phase s) = log_data s" "log_data (clear_log_error scope s) = log_data s"
  by (cases phase) (simp_all add: notify_log_error_def clear_log_error_def Let_def)

section \<open>Transitions\<close>

lemma update_same: "map_of m k = Some v \<Longrightarrow> AList.update k v m = m"
  by (induction m) auto

definition quiet :: "log_effect list \<Rightarrow> bool" where
  "quiet effects \<longleftrightarrow> effects = [] \<or> effects = [CloseLogConnection]"

lemma quiet_data: "quiet effects \<Longrightarrow> foldl (applyDataEffect n request) acc effects = acc"
  by (cases acc) (auto simp: quiet_def)

lemma stopping_is_quiet:
  "transitionContainerLogsProtocol p e = (st, effects) \<Longrightarrow> lp_phase st = LogStopping \<Longrightarrow> quiet effects"
  by (cases e) (auto simp: quiet_def receiveFrame_def receiveError_def reconnect_log_def receiveSnapshotFrame_def
      receiveLiveFrame_def Let_def split: if_splits)

lemma transition_inv:
  assumes inv: "data_inv s" and ok: "list_all snapshot_ok effects" and stop: "phase = LogStopping \<Longrightarrow> quiet effects"
  shows "data_inv (applyTransition env cid phase effects s)"
proof (cases "map_of (lm_table s) (lc_scope (log_conn s cid)) = Some cid")
  case False
  then show ?thesis using inv by (simp add: applyTransition_def Let_def)
next
  case True
  define scope where "scope = lc_scope (log_conn s cid)"
  obtain b0 where b0: "map_of (lm_buffers s) scope = Some b0" using True inv by (auto simp: data_inv_def scope_def)
  have fine: "fine_buffer b0" "within (lm_max_entries s) (lm_max_bytes s) b0" using inv b0 by (auto simp: data_inv_def scope_ok_def)
  obtain b n applied where fold:
    "foldl (applyDataEffect (lm_max_entries s) (lc_sent (log_conn s cid))) (b0, lm_seq s, False) effects = (b, n, applied)"
    by (metis prod_cases3)
  have b: "fine_buffer b" using data_effects_fine [OF fine(1) ok] fold by (metis fst_conv)
  define b' where "b' = evict (lm_max_entries s) (lm_max_bytes s) b"
  define s2 where "s2 = (put_buffer scope b' s)\<lparr>lm_seq := n\<rparr>"
  have step: "applyTransition env cid phase effects s =
      notifyPhase scope phase (if phase \<noteq> LogStopping then commit env scope (Some phase) applied s2 else s2)"
    using True b0 fold by (simp add: applyTransition_def Let_def bufferFor_def buffer_at_def s2_def b'_def flip: scope_def)
  show ?thesis
  proof (cases "phase = LogStopping")
    case stopping: True
    then have "b = b0" using stop quiet_data fold by (metis prod.inject)
    then have "b' = b0" using evict_same fine by (simp add: b'_def)
    then have "log_data s2 = log_data s" using b0 by (simp add: s2_def log_data_def put_buffer_def update_same)
    then have "log_data (applyTransition env cid phase effects s) = log_data s" using step stopping by simp
    from data_inv_cong [OF this] show ?thesis using inv by simp
  next
    case running: False
    have s2: "map_of (lm_buffers s2) = (map_of (lm_buffers s))(scope \<mapsto> b')" "lm_table s2 = lm_table s"
      "lm_max_entries s2 = lm_max_entries s" "lm_max_bytes s2 = lm_max_bytes s" by (simp_all add: s2_def put_buffer_def map_of_update fun_eq_iff)
    have "scope_ok (commit env scope (Some phase) applied s2) scope"
      using s2 commit_shows [of s2 scope b'] evict_fine [OF b] evict_within [OF b] by (simp add: b'_def)
    moreover have "scope_ok (commit env scope (Some phase) applied s2) scope'" if "scope' \<noteq> scope" for scope'
      unfolding commit_other [OF that] using inv that
      by (simp add: s2_def data_inv_def scope_ok_def log_snapshot_def put_buffer_def map_of_update)
    ultimately have "data_inv (commit env scope (Some phase) applied s2)"
      using inv unfolding data_inv_def by (metis commit_fields(1,4) fun_upd_apply option.distinct(1) s2(1,2))
    moreover have "log_data (applyTransition env cid phase effects s) = log_data (commit env scope (Some phase) applied s2)"
      using step running by simp
    ultimately show ?thesis using data_inv_cong by blast
  qed
qed

section \<open>Operations\<close>

lemma transition_fields [simp]: "lm_table (applyTransition env cid phase effects s) = lm_table s"
proof -
  have n: "lm_table (notifyPhase scope phase s) = lm_table s" for scope s by (rule log_data_table) simp
  show ?thesis by (simp add: applyTransition_def Let_def n bufferFor_def split: prod.split)
qed

lemma dispatch_table [simp]: "lm_table (dispatch env cid e s) = lm_table s"
  by (simp add: dispatch_def Let_def log_data_table [OF log_data_all_effects] log_data_table [OF log_data_conn] split: prod.split)

lemma dispatch_inv:
  assumes "data_inv s" and "list_all snapshot_ok (snd (transitionContainerLogsProtocol (lc_protocol (log_conn s cid)) e))"
  shows "data_inv (dispatch env cid e s)"
proof -
  obtain st effects where t: "transitionContainerLogsProtocol (lc_protocol (log_conn s cid)) e = (st, effects)" by fastforce
  define s2 where "s2 = foldl (applyConnectionEffect cid) (put_log_conn cid ((log_conn s cid)\<lparr>lc_protocol := st\<rparr>) s) effects"
  have "data_inv s2" using assms(1) data_inv_cong [of s2 s] by (simp add: s2_def)
  moreover have "list_all snapshot_ok effects" using assms(2) t by simp
  moreover have "quiet effects" if "lp_phase st = LogStopping" using stopping_is_quiet [OF t that] .
  ultimately show ?thesis using transition_inv t by (simp add: dispatch_def s2_def)
qed

lemma dispatch_simple_inv [intro]:
  "data_inv s \<Longrightarrow> data_inv (dispatch env cid (LogConnectionLost reason) s)"
  "data_inv s \<Longrightarrow> data_inv (dispatch env cid LogStopRequested s)"
  "data_inv s \<Longrightarrow> data_inv (dispatch env cid LogConnectionOpened s)"
  by (auto intro!: dispatch_inv simp: reconnect_log_def)

lemma open_inv: "data_inv s \<Longrightarrow> data_inv (openStream env cid s)"
proof (cases "le_open_error env")
  case None
  have "log_data (openStream env cid s) = log_data s" using None by (simp add: openStream_def Let_def)
  moreover assume "data_inv s"
  ultimately show ?thesis using data_inv_cong by blast
next
  case (Some reason)
  assume "data_inv s"
  then show ?thesis using Some by (simp add: openStream_def dispatch_simple_inv)
qed

lemma markIdle_fields [simp]:
  "lm_table (markIdle scope s) = lm_table s" "lm_buffers (markIdle scope s) = lm_buffers s"
  "lm_max_entries (markIdle scope s) = lm_max_entries s" "lm_max_bytes (markIdle scope s) = lm_max_bytes s"
  by (simp_all add: markIdle_def)

lemma markIdle_scope_ok: "scope_ok s scope' \<Longrightarrow> scope_ok (markIdle scope s) scope'"
  by (auto simp: scope_ok_def markIdle_def Let_def log_snapshot_def read_set_state shows_buffer_def split: option.splits)

lemma markIdle_inv: "data_inv s \<Longrightarrow> data_inv (markIdle scope s)"
  by (simp add: data_inv_def markIdle_scope_ok)

lemma forget_inv:
  assumes "data_inv s"
  shows "data_inv (s\<lparr>lm_table := AList.delete scope (lm_table s)\<rparr>)"
  using assms by (auto simp: data_inv_def scope_ok_def log_snapshot_def map_of_delete)

lemma stop_inv: "data_inv s \<Longrightarrow> data_inv (stop_logs env scope reset s)"
proof -
  assume inv: "data_inv s"
  define s1 where "s1 = (case map_of (lm_table s) scope of
      None \<Rightarrow> s | Some cid \<Rightarrow> dispatch env cid LogStopRequested (s\<lparr>lm_table := AList.delete scope (lm_table s)\<rparr>))"
  have s1: "data_inv s1" using inv by (simp add: s1_def dispatch_simple_inv forget_inv split: option.split)
  have gone: "map_of (lm_table s1) scope = None" by (simp add: s1_def map_of_delete split: option.split)
  show ?thesis
  proof (cases reset)
    case True
    define s2 where "s2 = s1\<lparr>lm_buffers := AList.delete scope (lm_buffers s1),
      lm_store := resetScopedDomainState (lm_store s1) DOMAIN_NAME scope\<rparr>"
    have "data_inv s2" using s1 gone
      by (auto simp: data_inv_def s2_def scope_ok_def log_snapshot_def read_reset_state map_of_delete)
    moreover have "log_data (stop_logs env scope reset s) = log_data s2"
      using True by (simp add: stop_logs_def s2_def Let_def flip: s1_def)
    ultimately show ?thesis using data_inv_cong by blast
  next
    case False
    then show ?thesis using s1 by (simp add: stop_logs_def markIdle_inv Let_def flip: s1_def)
  qed
qed

lemma new_within: "within m n new_log_buffer"
  by (simp add: within_def new_log_buffer_def)

lemma commitPhase_inv:
  assumes ok: "\<And>scope'. scope_ok s scope'"
    and table: "\<And>scope' cid. map_of (lm_table s) scope' = Some cid \<Longrightarrow> scope' \<noteq> scope \<Longrightarrow> map_of (lm_buffers s) scope' \<noteq> None"
  shows "data_inv (commitPhase env scope phase s)"
proof -
  define s1 where "s1 = bufferFor scope s"
  obtain b where b: "map_of (lm_buffers s1) scope = Some b" by (cases "map_of (lm_buffers s) scope") (simp_all add: s1_def bufferFor_def)
  have fields: "lm_table s1 = lm_table s" "lm_max_entries s1 = lm_max_entries s" "lm_max_bytes s1 = lm_max_bytes s"
    by (simp_all add: s1_def bufferFor_def)
  have "fine_buffer b \<and> within (lm_max_entries s1) (lm_max_bytes s1) b"
    using ok [of scope] b fine_new new_within fields by (auto simp: s1_def bufferFor_def scope_ok_def split: if_splits)
  then have this_scope: "scope_ok (commit env scope (Some phase) False s1) scope" using b commit_shows by blast
  have other: "scope_ok (commit env scope (Some phase) False s1) scope'" if "scope' \<noteq> scope" for scope'
    unfolding commit_other [OF that] using ok [of scope'] that by (simp add: s1_def bufferFor_def put_other)
  have held: "map_of (lm_buffers s1) scope' \<noteq> None" if "map_of (lm_table s) scope' = Some cid" for scope' cid
    using table [OF that] b by (cases "scope' = scope") (auto simp: s1_def bufferFor_def)
  show ?thesis unfolding commitPhase_def data_inv_def s1_def [symmetric]
    using this_scope other held fields by (metis commit_fields(1,4))
qed

lemma start_inv: "data_inv s \<Longrightarrow> data_inv (startStream env scope s)"
proof -
  assume "data_inv s"
  then have inv: "data_inv (stop_logs env scope False s)" by (rule stop_inv)
  define s1 where "s1 = stop_logs env scope False s"
  define c where "c = \<lparr>lc_scope = scope, lc_socket = None, lc_retry = None,
    lc_protocol = initialContainerLogsProtocolState, lc_sent = None\<rparr>"
  define s2 where "s2 = s1\<lparr>lm_objects := lm_objects s1 @ [c], lm_table := AList.update scope (length (lm_objects s1)) (lm_table s1)\<rparr>"
  have "data_inv (commitPhase env scope (lp_phase (lc_protocol c)) s2)"
    using inv by (intro commitPhase_inv) (auto simp: s2_def data_inv_def scope_ok_def log_snapshot_def map_of_update simp flip: s1_def)
  then show ?thesis unfolding startStream_def Let_def by (fold s1_def, fold c_def, fold s2_def) (rule open_inv)
qed

lemma foldl_inv: "(\<And>s x. P s \<Longrightarrow> x \<in> set xs \<Longrightarrow> P (f s x)) \<Longrightarrow> P s \<Longrightarrow> P (foldl f s xs)"
  by (induction xs arbitrary: s) simp_all

lemma limit_buffers_inv:
  assumes "\<And>scope. fine_at s scope" and "\<And>scope. scope \<notin> set scopes \<Longrightarrow> scope_ok s scope"
    and "set scopes \<subseteq> dom (map_of (lm_buffers s))"
    and "\<And>scope cid. map_of (lm_table s) scope = Some cid \<Longrightarrow> map_of (lm_buffers s) scope \<noteq> None"
  shows "data_inv (foldl (limit_buffer env) s scopes)"
  using assms
proof (induction scopes arbitrary: s)
  case Nil
  then show ?case by (simp add: data_inv_def)
next
  case (Cons scope scopes)
  obtain b where b: "map_of (lm_buffers s) scope = Some b" using Cons.prems(3) by auto
  define b' where "b' = limitBasis (lm_max_entries s) (evict (lm_max_entries s) (lm_max_bytes s) b)"
  define s1 where "s1 = put_buffer scope b' s"
  have fine: "fine_buffer b" using Cons.prems(1) [of scope] b by (simp add: fine_at_def)
  have b': "fine_buffer b'" "within (lm_max_entries s1) (lm_max_bytes s1) b'"
    using evict_fine [OF fine] evict_within [OF fine] by (simp_all add: b'_def s1_def within_def) (simp_all add: limitBasis_def)
  have step: "limit_buffer env s scope = commit env scope None False s1"
    using b by (simp add: limit_buffer_def s1_def b'_def buffer_at_def)
  have this_scope: "scope_ok (limit_buffer env s scope) scope"
    unfolding step using b' by (intro commit_shows) (simp_all add: s1_def)
  have other: "scope_ok (limit_buffer env s scope) sc = scope_ok s sc" if "sc \<noteq> scope" for sc
    unfolding step using that by (simp add: commit_other s1_def put_other)
  have fine_other: "map_of (lm_buffers (limit_buffer env s scope)) sc = map_of (lm_buffers s) sc" if "sc \<noteq> scope" for sc
    unfolding step using that by (simp add: commit_def Let_def s1_def)
  have fine1: "fine_at (limit_buffer env s scope) sc" for sc
    using this_scope Cons.prems(1) [of sc] fine_other by (cases "sc = scope") (auto simp: fine_at_def scope_ok_def)
  have keys: "map_of (lm_buffers (limit_buffer env s scope)) sc = None \<longleftrightarrow> map_of (lm_buffers s) sc = None" for sc
    using b fine_other [of sc] unfolding step by (cases "sc = scope") (simp_all add: s1_def)
  have table: "lm_table (limit_buffer env s scope) = lm_table s" unfolding step by (simp add: s1_def)
  have "data_inv (foldl (limit_buffer env) (limit_buffer env s scope) scopes)"
  proof (rule Cons.IH)
    show "scope_ok (limit_buffer env s scope) sc" if "sc \<notin> set scopes" for sc
      using that this_scope other Cons.prems(2) by (cases "sc = scope") auto
    show "set scopes \<subseteq> dom (map_of (lm_buffers (limit_buffer env s scope)))"
      using Cons.prems(3) keys by (auto simp: domIff simp flip: not_None_eq)
    show "map_of (lm_buffers (limit_buffer env s scope)) sc \<noteq> None" if "map_of (lm_table (limit_buffer env s scope)) sc = Some cid" for sc cid
      using that Cons.prems(4) keys table by simp
  qed (rule fine1)
  then show ?case by simp
qed

lemma setMaxEntries_inv: "data_inv s \<Longrightarrow> data_inv (setMaxEntries env n s)"
proof -
  assume inv: "data_inv s"
  have "data_inv (foldl (limit_buffer env) (s\<lparr>lm_max_entries := n\<rparr>) (map fst (lm_buffers s)))"
  proof (rule limit_buffers_inv)
    show "fine_at (s\<lparr>lm_max_entries := n\<rparr>) scope" for scope using inv by (simp add: data_inv_def scope_ok_def fine_at_def)
    show "scope_ok (s\<lparr>lm_max_entries := n\<rparr>) scope" if "scope \<notin> set (map fst (lm_buffers s))" for scope
    proof -
      have "map_of (lm_buffers s) scope = None" using that by (simp add: map_of_eq_None_iff)
      then show ?thesis by (simp add: scope_ok_def)
    qed
    show "set (map fst (lm_buffers s)) \<subseteq> dom (map_of (lm_buffers (s\<lparr>lm_max_entries := n\<rparr>)))"
      by (simp add: dom_map_of_conv_image_fst)
  qed (use inv in \<open>auto simp: data_inv_def\<close>)
  then show ?thesis using inv by (simp add: setMaxEntries_def)
qed

lemma parsed_frame: "parseContainerLogsFrame data = Some value \<Longrightarrow> value = data"
  by (simp add: parseContainerLogsFrame_def split: if_splits)

lemma log_step_inv:
  assumes inv: "data_inv s" and ok: "log_op_ok s op"
  shows "data_inv (log_step env op s)"
proof (cases op)
  case (StopAllLogs reset)
  then show ?thesis using inv by (simp add: stopAll_logs_def foldl_inv [where P = data_inv] stop_inv)
next
  case LogsHidden
  have "data_inv (s\<lparr>lm_suspended := True\<rparr>)" using inv data_inv_cong [of "s\<lparr>lm_suspended := True\<rparr>" s] by simp
  then have "data_inv (foldl (\<lambda>s (scope, cid). markIdle scope (dispatch env cid LogStopRequested s)) (s\<lparr>lm_suspended := True\<rparr>) (lm_table s))"
    by (rule foldl_inv [where P = data_inv, rotated]) (auto intro!: markIdle_inv dispatch_simple_inv)
  then show ?thesis using LogsHidden inv by (simp add: suspend_logs_def)
next
  case LogsVisible
  have "data_inv (s\<lparr>lm_suspended := False\<rparr>)" using inv data_inv_cong [of "s\<lparr>lm_suspended := False\<rparr>" s] by simp
  then show ?thesis using LogsVisible inv by (simp add: resume_logs_def foldl_inv [where P = data_inv] start_inv)
next
  case (LogParamsSet scope params)
  then show ?thesis using inv data_inv_cong [OF log_data_fields(4)] by simp
next
  case (LogParamsCleared scope)
  then show ?thesis using inv data_inv_cong [OF log_data_fields(4)] by simp
next
  case (LogSocketMessage sid data)
  then show ?thesis
    using inv ok by (auto simp: on_socket_def handle_log_message_def Let_def intro!: dispatch_simple_inv dispatch_inv
        split: option.split dest!: parsed_frame)
next
  case (RetryFired t)
  have fired: "data_inv (fire_retry env cid (s\<lparr>lm_timers := AList.delete t (lm_timers s)\<rparr>))" for cid
  proof -
    define s1 where "s1 = put_log_conn cid ((log_conn (s\<lparr>lm_timers := AList.delete t (lm_timers s)\<rparr>) cid)\<lparr>lc_retry := None\<rparr>)
      (s\<lparr>lm_timers := AList.delete t (lm_timers s)\<rparr>)"
    have "data_inv s1" using inv data_inv_cong [of s1 s] by (simp add: s1_def)
    then show ?thesis by (simp add: fire_retry_def Let_def open_inv flip: s1_def)
  qed
  show ?thesis using RetryFired inv fired by (simp split: option.split)
next
  case (LogScopeReset scope)
  then show ?thesis using inv
    by (simp add: data_inv_def scope_ok_def log_snapshot_def read_reset_state shows_buffer_def empty_scoped_state_def)
qed (use inv in \<open>auto simp: on_socket_def start_inv stop_inv setMaxEntries_inv intro!: dispatch_simple_inv\<close>)

lemma log_views_inv: "log_reachable s \<Longrightarrow> data_inv s"
  by (induction rule: log_reachable.induct) (simp_all add: log_step_inv, simp add: data_inv_def scope_ok_def new_log_manager_def)

end
