(* ===== verification/Log_Connections.thy ===== *)
theory Log_Connections
  imports Log_Views
begin

text \<open>
  The connections of the log manager. Sockets that are not closed, and timers that are armed, belong to exactly one
  connection, which knows them; a finished connection has neither, and any other is the one of its scope and has exactly one
  of the two.
\<close>

declare map_of_eq_Some_iff [simp del] Some_eq_map_of_iff [simp del]

section \<open>Who owns what\<close>

definition sockets_owned :: "log_manager \<Rightarrow> bool" where
  "sockets_owned s \<longleftrightarrow>
     (\<forall>sid. sid \<in> set (lm_attached s) \<longleftrightarrow> sid < length (lm_sockets s) \<and> sid \<notin> set (lm_closed s)) \<and>
     (\<forall>sid \<in> set (lm_closed s). sid < length (lm_sockets s)) \<and>
     (\<forall>sid \<in> set (lm_attached s). lm_sockets s ! sid < length (lm_objects s)) \<and>
     (\<forall>cid < length (lm_objects s). \<forall>sid.
        lc_socket (log_conn s cid) = Some sid \<longleftrightarrow> sid \<in> set (lm_attached s) \<and> lm_sockets s ! sid = cid)"

definition timers_owned :: "log_manager \<Rightarrow> bool" where
  "timers_owned s \<longleftrightarrow>
     distinct (map fst (lm_timers s)) \<and>
     (\<forall>t cid. map_of (lm_timers s) t = Some cid \<longrightarrow> t < lm_next_timer s \<and> cid < length (lm_objects s)) \<and>
     (\<forall>cid < length (lm_objects s). \<forall>t. lc_retry (log_conn s cid) = Some t \<longleftrightarrow> map_of (lm_timers s) t = Some cid)"

definition table_owned :: "log_manager \<Rightarrow> bool" where
  "table_owned s \<longleftrightarrow>
     distinct (map fst (lm_table s)) \<and>
     (\<forall>scope cid. map_of (lm_table s) scope = Some cid \<longrightarrow> cid < length (lm_objects s) \<and> lc_scope (log_conn s cid) = scope)"

definition links :: "log_manager \<Rightarrow> bool" where
  "links s \<longleftrightarrow> sockets_owned s \<and> timers_owned s \<and> table_owned s"

definition conn_finished :: "log_connection \<Rightarrow> bool" where
  "conn_finished c \<longleftrightarrow> isFinished (lp_phase (lc_protocol c))"

definition conn_ok :: "log_manager \<Rightarrow> nat \<Rightarrow> bool" where
  "conn_ok s cid \<longleftrightarrow>
     (let c = log_conn s cid
      in if conn_finished c then lc_socket c = None \<and> lc_retry c = None
         else map_of (lm_table s) (lc_scope c) = Some cid \<and> (lc_socket c = None \<longleftrightarrow> lc_retry c \<noteq> None))"

definition conn_inv :: "log_manager \<Rightarrow> bool" where
  "conn_inv s \<longleftrightarrow> links s \<and> (\<forall>cid < length (lm_objects s). conn_ok s cid)"

text \<open>The parts of the state the connections depend on.\<close>

definition conn_part where
  "conn_part s = (lm_objects s, lm_table s, lm_timers s, lm_next_timer s, lm_sockets s, lm_attached s, lm_closed s)"

lemma conn_part_cong:
  assumes "conn_part s = conn_part s'"
  shows "links s = links s'" "conn_ok s cid = conn_ok s' cid" "conn_inv s = conn_inv s'"
    "log_conn s cid = log_conn s' cid" "lm_table s = lm_table s'" "length (lm_objects s) = length (lm_objects s')"
  using assms by (simp_all add: conn_part_def conn_inv_def links_def sockets_owned_def timers_owned_def table_owned_def
      conn_ok_def log_conn_def)

lemma conn_part_fields [simp]:
  "conn_part (s\<lparr>lm_seq := n\<rparr>) = conn_part s" "conn_part (s\<lparr>lm_notified := ns\<rparr>) = conn_part s"
  "conn_part (s\<lparr>lm_suspended := b\<rparr>) = conn_part s" "conn_part (s\<lparr>lm_params := ps\<rparr>) = conn_part s"
  "conn_part (s\<lparr>lm_sent := qs\<rparr>) = conn_part s" "conn_part (s\<lparr>lm_reports := rs\<rparr>) = conn_part s"
  "conn_part (s\<lparr>lm_store := st\<rparr>) = conn_part s" "conn_part (s\<lparr>lm_buffers := bs\<rparr>) = conn_part s"
  "conn_part (s\<lparr>lm_max_entries := n\<rparr>) = conn_part s"
  by (simp_all add: conn_part_def)

lemma conn_part_buffers [simp]:
  "conn_part (put_buffer scope b s) = conn_part s" "conn_part (bufferFor scope s) = conn_part s"
  "conn_part (commit env scope ph ap s) = conn_part s" "conn_part (commitPhase env scope phase s) = conn_part s"
  "conn_part (markIdle scope s) = conn_part s" "conn_part (clear_log_error scope s) = conn_part s"
  "conn_part (notify_log_error scope m st s) = conn_part s"
  by (simp_all add: put_buffer_def bufferFor_def commit_def commitPhase_def markIdle_def clear_log_error_def
      notify_log_error_def Let_def split: option.split)

lemma conn_part_notify [simp]: "conn_part (notifyPhase scope phase s) = conn_part s"
  by (cases phase) simp_all

lemma conn_part_transition [simp]: "conn_part (applyTransition env cid phase effects s) = conn_part s"
  by (simp add: applyTransition_def Let_def split: prod.split)

section \<open>Steps on one connection\<close>

text \<open>What a step on a connection leaves: the other connections, the table and the scope.\<close>

definition steps_on :: "nat \<Rightarrow> log_manager \<Rightarrow> log_manager \<Rightarrow> bool" where
  "steps_on cid s s' \<longleftrightarrow>
     length (lm_objects s') = length (lm_objects s) \<and> lm_table s' = lm_table s \<and>
     lc_scope (log_conn s' cid) = lc_scope (log_conn s cid) \<and> (\<forall>c. c \<noteq> cid \<longrightarrow> log_conn s' c = log_conn s c)"

lemma steps_on_refl [simp]: "steps_on cid s s"
  by (simp add: steps_on_def)

lemma steps_on_trans: "steps_on cid s s' \<Longrightarrow> steps_on cid s' s'' \<Longrightarrow> steps_on cid s s''"
  by (simp add: steps_on_def)

lemma steps_on_part: "conn_part s' = conn_part s'' \<Longrightarrow> steps_on cid s s' = steps_on cid s s''"
  using conn_part_cong(4-6) [of s' s''] by (simp add: steps_on_def)

lemma put_conn [simp]:
  "length (lm_objects (put_log_conn cid c s)) = length (lm_objects s)" "lm_table (put_log_conn cid c s) = lm_table s"
  "lm_timers (put_log_conn cid c s) = lm_timers s" "lm_next_timer (put_log_conn cid c s) = lm_next_timer s"
  "lm_sockets (put_log_conn cid c s) = lm_sockets s" "lm_attached (put_log_conn cid c s) = lm_attached s"
  "lm_closed (put_log_conn cid c s) = lm_closed s"
  "cid < length (lm_objects s) \<Longrightarrow> log_conn (put_log_conn cid c s) cid' = (if cid' = cid then c else log_conn s cid')"
  by (simp_all add: put_log_conn_def log_conn_def)

lemma put_plain:
  assumes "cid < length (lm_objects s)" and "links s" and "lc_scope c = lc_scope (log_conn s cid)"
    and "lc_socket c = lc_socket (log_conn s cid)" and "lc_retry c = lc_retry (log_conn s cid)"
  shows "links (put_log_conn cid c s)" "steps_on cid s (put_log_conn cid c s)"
  using assms by (auto simp: links_def sockets_owned_def timers_owned_def table_owned_def steps_on_def)

lemma clear_retry:
  assumes "cid < length (lm_objects s)" and "links s"
  shows "links (clearRetryTimer cid s)" "steps_on cid s (clearRetryTimer cid s)"
    "log_conn (clearRetryTimer cid s) cid = (log_conn s cid)\<lparr>lc_retry := None\<rparr>"
proof -
  have "links (clearRetryTimer cid s) \<and> steps_on cid s (clearRetryTimer cid s) \<and>
      log_conn (clearRetryTimer cid s) cid = (log_conn s cid)\<lparr>lc_retry := None\<rparr>"
  proof (cases "lc_retry (log_conn s cid)")
    case None
    then show ?thesis using assms by (simp add: clearRetryTimer_def)
  next
    case (Some t)
    define s1 where "s1 = put_log_conn cid ((log_conn s cid)\<lparr>lc_retry := None\<rparr>) (s\<lparr>lm_timers := AList.delete t (lm_timers s)\<rparr>)"
    have conn: "log_conn s1 c = (if c = cid then (log_conn s cid)\<lparr>lc_retry := None\<rparr> else log_conn s c)" for c
      using assms(1) by (simp add: s1_def put_log_conn_def log_conn_def)
    have fields: "length (lm_objects s1) = length (lm_objects s)" "lm_table s1 = lm_table s" "lm_attached s1 = lm_attached s"
      "lm_sockets s1 = lm_sockets s" "lm_closed s1 = lm_closed s" "lm_timers s1 = AList.delete t (lm_timers s)"
      "lm_next_timer s1 = lm_next_timer s" by (simp_all add: s1_def)
    have own: "lc_retry (log_conn s cid) = Some u \<longleftrightarrow> map_of (lm_timers s) u = Some cid" for u
      using assms by (simp add: links_def timers_owned_def)
    then have here: "map_of (lm_timers s) t = Some cid" using Some by blast
    have only: "map_of (lm_timers s) u = Some cid \<Longrightarrow> u = t" for u using own [of u] Some by simp
    have "timers_owned s1"
      using assms by (auto dest: only simp: here timers_owned_def links_def fields conn map_of_delete distinct_delete)
    moreover have "sockets_owned s1" "table_owned s1"
      using assms by (auto simp: sockets_owned_def table_owned_def links_def fields conn)
    ultimately show ?thesis using Some by (simp add: clearRetryTimer_def links_def steps_on_def conn fields flip: s1_def)
  qed
  then show "links (clearRetryTimer cid s)" "steps_on cid s (clearRetryTimer cid s)"
    "log_conn (clearRetryTimer cid s) cid = (log_conn s cid)\<lparr>lc_retry := None\<rparr>" by auto
qed

lemma close_stream:
  assumes "cid < length (lm_objects s)" and "links s"
  shows "links (closeStream cid s)" "steps_on cid s (closeStream cid s)"
    "log_conn (closeStream cid s) cid = (log_conn s cid)\<lparr>lc_socket := None\<rparr>"
proof -
  have "links (closeStream cid s) \<and> steps_on cid s (closeStream cid s) \<and>
      log_conn (closeStream cid s) cid = (log_conn s cid)\<lparr>lc_socket := None\<rparr>"
  proof (cases "lc_socket (log_conn s cid)")
    case None
    then show ?thesis using assms by (simp add: closeStream_def)
  next
    case (Some sid)
    define s1 where "s1 = put_log_conn cid ((log_conn s cid)\<lparr>lc_socket := None\<rparr>)
      (s\<lparr>lm_attached := filter (\<lambda>x. x \<noteq> sid) (lm_attached s), lm_closed := lm_closed s @ [sid]\<rparr>)"
    have conn: "log_conn s1 c = (if c = cid then (log_conn s cid)\<lparr>lc_socket := None\<rparr> else log_conn s c)" for c
      using assms(1) by (simp add: s1_def put_log_conn_def log_conn_def)
    have fields: "length (lm_objects s1) = length (lm_objects s)" "lm_table s1 = lm_table s"
      "lm_attached s1 = filter (\<lambda>x. x \<noteq> sid) (lm_attached s)"
      "lm_sockets s1 = lm_sockets s" "lm_closed s1 = lm_closed s @ [sid]" "lm_timers s1 = lm_timers s"
      "lm_next_timer s1 = lm_next_timer s" by (simp_all add: s1_def)
    have sid: "sid \<in> set (lm_attached s)" "lm_sockets s ! sid = cid"
      using assms Some by (auto simp: links_def sockets_owned_def)
    have only: "x < length (lm_sockets s) \<Longrightarrow> x \<notin> set (lm_closed s) \<Longrightarrow> lm_sockets s ! x = cid \<Longrightarrow> x = sid" for x
    proof -
      have "lc_socket (log_conn s cid) = Some x \<longleftrightarrow> x < length (lm_sockets s) \<and> x \<notin> set (lm_closed s) \<and> lm_sockets s ! x = cid"
        using assms by (simp add: links_def sockets_owned_def)
      then show "x < length (lm_sockets s) \<Longrightarrow> x \<notin> set (lm_closed s) \<Longrightarrow> lm_sockets s ! x = cid \<Longrightarrow> x = sid"
        using Some by simp
    qed
    have "sockets_owned s1"
      using assms sid Some only by (auto simp: sockets_owned_def links_def fields conn)
    moreover have "timers_owned s1" "table_owned s1"
      using assms by (auto simp: timers_owned_def table_owned_def links_def fields conn)
    ultimately show ?thesis using Some by (simp add: closeStream_def links_def steps_on_def conn fields flip: s1_def)
  qed
  then show "links (closeStream cid s)" "steps_on cid s (closeStream cid s)"
    "log_conn (closeStream cid s) cid = (log_conn s cid)\<lparr>lc_socket := None\<rparr>" by auto
qed

lemma schedule_reconnect:
  assumes "cid < length (lm_objects s)" and "links s"
  shows "links (scheduleLogReconnect cid s)" "steps_on cid s (scheduleLogReconnect cid s)"
    "\<exists>t. log_conn (scheduleLogReconnect cid s) cid = (log_conn s cid)\<lparr>lc_retry := Some t\<rparr>"
proof -
  note clear = clear_retry [OF assms]
  define s1 where "s1 = clearRetryTimer cid s"
  define t where "t = lm_next_timer s1"
  define s2 where "s2 = put_log_conn cid ((log_conn s1 cid)\<lparr>lc_retry := Some t\<rparr>)
    (s1\<lparr>lm_timers := lm_timers s1 @ [(t, cid)], lm_next_timer := t + 1\<rparr>)"
  have len: "cid < length (lm_objects s1)" using assms(1) clear(2) by (simp add: s1_def steps_on_def)
  have conn: "log_conn s2 c = (if c = cid then (log_conn s1 cid)\<lparr>lc_retry := Some t\<rparr> else log_conn s1 c)" for c
    using len by (simp add: s2_def put_log_conn_def log_conn_def)
  have fields: "length (lm_objects s2) = length (lm_objects s1)" "lm_table s2 = lm_table s1" "lm_attached s2 = lm_attached s1"
    "lm_sockets s2 = lm_sockets s1" "lm_closed s2 = lm_closed s1" "lm_timers s2 = lm_timers s1 @ [(t, cid)]"
    "lm_next_timer s2 = t + 1" by (simp_all add: s2_def)
  have none: "lc_retry (log_conn s1 cid) = None" using clear(3) by (simp add: s1_def)
  have own: "links s1" using clear(1) by (simp add: s1_def)
  have fresh: "map_of (lm_timers s1) t = None"
    using own by (cases "map_of (lm_timers s1) t") (auto simp: links_def timers_owned_def t_def)
  have look: "map_of (lm_timers s2) u = (if u = t then Some cid else map_of (lm_timers s1) u)" for u
    using fresh by (auto simp: fields map_add_def split: option.split)
  have "distinct (map fst (lm_timers s2))"
    using own fresh by (auto simp: fields links_def timers_owned_def map_of_eq_None_iff)
  moreover have "u < lm_next_timer s2 \<and> c < length (lm_objects s2)" if "map_of (lm_timers s2) u = Some c" for u c
    using own that len by (auto simp: look fields(1,7) links_def timers_owned_def t_def split: if_splits intro: less_SucI)
  moreover have "lc_retry (log_conn s2 c) = Some u \<longleftrightarrow> map_of (lm_timers s2) u = Some c" if "c < length (lm_objects s2)" for c u
  proof -
    have c: "c < length (lm_objects s1)" using that by (simp add: fields)
    then have old: "lc_retry (log_conn s1 c) = Some u \<longleftrightarrow> map_of (lm_timers s1) u = Some c"
      using own by (simp add: links_def timers_owned_def)
    show ?thesis
    proof (cases "c = cid")
      case True
      then show ?thesis using old none by (auto simp: look conn)
    next
      case False
      then show ?thesis using old fresh by (auto simp: look conn)
    qed
  qed
  ultimately have "timers_owned s2" by (simp add: timers_owned_def)
  moreover have "sockets_owned s2" "table_owned s2"
    using own len by (auto simp: sockets_owned_def table_owned_def links_def fields conn)
  moreover have "scheduleLogReconnect cid s = s2" by (simp add: scheduleLogReconnect_def s1_def s2_def t_def Let_def)
  moreover have "steps_on cid s s2" 
  proof (rule steps_on_trans [OF clear(2)])
    show "steps_on cid (clearRetryTimer cid s) s2" unfolding s1_def [symmetric] by (simp add: steps_on_def conn fields)
  qed
  ultimately show "links (scheduleLogReconnect cid s)" "steps_on cid s (scheduleLogReconnect cid s)"
    "\<exists>t. log_conn (scheduleLogReconnect cid s) cid = (log_conn s cid)\<lparr>lc_retry := Some t\<rparr>"
    using conn clear(3) by (auto simp: links_def s1_def)
qed

section \<open>Events on one connection\<close>

fun data_effect :: "log_effect \<Rightarrow> bool" where
  "data_effect SendLogRequest = False"
| "data_effect CloseLogConnection = False"
| "data_effect (ScheduleLogReconnect n) = False"
| "data_effect _ = True"

lemma data_effects_skip: "list_all data_effect effects \<Longrightarrow> foldl (applyConnectionEffect cid) s effects = s"
proof (induction effects)
  case (Cons e es)
  then show ?case by (cases e) simp_all
qed simp

lemma transition_shape:
  assumes "transitionContainerLogsProtocol p e = (st, effects)"
  obtains (same) "isFinished (lp_phase st) = isFinished (lp_phase p)" "effects = [SendLogRequest] \<or> list_all data_effect effects"
  | (again) n where "\<not> isFinished (lp_phase p)" "\<not> isFinished (lp_phase st)" "effects = [CloseLogConnection, ScheduleLogReconnect n]"
  | (over) "isFinished (lp_phase st)" "effects = [CloseLogConnection]"
proof (cases e)
  case LogConnectionOpened
  then show ?thesis using assms same by (auto split: if_splits)
next
  case (LogFrameReceived frame)
  have live: "list_all data_effect (snd (receiveLiveFrame p frame))"
    by (auto simp: receiveLiveFrame_def split: option.split)
  show ?thesis
    using assms LogFrameReceived same again over live
    by (auto simp: receiveFrame_def receiveError_def receiveSnapshotFrame_def receiveLiveFrame_def reconnect_log_def Let_def
        split: if_splits)
next
  case (LogConnectionLost reason)
  then show ?thesis using assms same again by (auto simp: reconnect_log_def split: if_splits)
next
  case LogStopRequested
  then show ?thesis using assms over by auto
qed

definition event_outcome :: "log_connection \<Rightarrow> log_connection \<Rightarrow> bool" where
  "event_outcome c c' \<longleftrightarrow>
     (conn_finished c' = conn_finished c \<and> lc_socket c' = lc_socket c \<and> lc_retry c' = lc_retry c) \<or>
     (\<not> conn_finished c \<and> \<not> conn_finished c' \<and> lc_socket c' = None \<and> lc_retry c' \<noteq> None) \<or>
     (conn_finished c' \<and> lc_socket c' = None \<and> lc_retry c' = None)"

lemma close_connection:
  assumes "cid < length (lm_objects s)" and "links s"
  defines "s' \<equiv> closeStream cid (clearRetryTimer cid s)"
  shows "links s'" "steps_on cid s s'" "log_conn s' cid = (log_conn s cid)\<lparr>lc_retry := None, lc_socket := None\<rparr>"
proof -
  note clear = clear_retry [OF assms(1,2)]
  have "cid < length (lm_objects (clearRetryTimer cid s))" using assms(1) clear(2) by (simp add: steps_on_def)
  note close = close_stream [OF this clear(1)]
  show "links s'" unfolding s'_def by (rule close(1))
  show "steps_on cid s s'" unfolding s'_def by (rule steps_on_trans [OF clear(2) close(2)])
  show "log_conn s' cid = (log_conn s cid)\<lparr>lc_retry := None, lc_socket := None\<rparr>"
    using close(3) clear(3) by (simp add: s'_def)
qed

lemma send_effect:
  assumes "cid < length (lm_objects s)" and "links s"
  defines "s' \<equiv> applyConnectionEffect cid s SendLogRequest"
  shows "links s'" "steps_on cid s s'" "\<exists>q. log_conn s' cid = (log_conn s cid)\<lparr>lc_sent := q\<rparr>"
proof -
  define c where "c = (log_conn s cid)\<lparr>lc_sent := Some (buildRequest s (lc_scope (log_conn s cid)))\<rparr>"
  have part: "conn_part s' = conn_part (put_log_conn cid c s)"
    by (simp add: s'_def c_def Let_def split: option.split)
  note put = put_plain [OF assms(1,2), of c]
  show "links s'" unfolding conn_part_cong(1) [OF part] by (rule put(1)) (simp_all add: c_def)
  show "steps_on cid s s'" unfolding steps_on_part [OF part] by (rule put(2)) (simp_all add: c_def)
  show "\<exists>q. log_conn s' cid = (log_conn s cid)\<lparr>lc_sent := q\<rparr>"
    unfolding conn_part_cong(4) [OF part] using assms(1) by (auto simp: c_def)
qed

lemma dispatch_links:
  fixes env :: log_env and e :: log_event
  assumes "cid < length (lm_objects s)" and "links s"
  defines "s' \<equiv> dispatch env cid e s"
  shows "links s'" "steps_on cid s s'" "event_outcome (log_conn s cid) (log_conn s' cid)"
    "lc_protocol (log_conn s' cid) = fst (transitionContainerLogsProtocol (lc_protocol (log_conn s cid)) e)"
    "(\<exists>reason. e = LogConnectionLost reason) \<and> \<not> conn_finished (log_conn s cid) \<longrightarrow> lc_retry (log_conn s' cid) \<noteq> None"
proof -
  obtain st effects where t: "transitionContainerLogsProtocol (lc_protocol (log_conn s cid)) e = (st, effects)" by fastforce
  define s1 where "s1 = put_log_conn cid ((log_conn s cid)\<lparr>lc_protocol := st\<rparr>) s"
  define s2 where "s2 = foldl (applyConnectionEffect cid) s1 effects"
  have part: "conn_part s' = conn_part s2" by (simp add: s'_def dispatch_def t s2_def s1_def)
  have s1: "links s1" "steps_on cid s s1" "log_conn s1 cid = (log_conn s cid)\<lparr>lc_protocol := st\<rparr>" "cid < length (lm_objects s1)"
    using put_plain [OF assms(1,2)] assms(1) by (simp_all add: s1_def)
  have "links s2 \<and> steps_on cid s1 s2 \<and> lc_protocol (log_conn s2 cid) = st \<and> event_outcome (log_conn s cid) (log_conn s2 cid) \<and>
      ((\<exists>reason. e = LogConnectionLost reason) \<and> \<not> conn_finished (log_conn s cid) \<longrightarrow> lc_retry (log_conn s2 cid) \<noteq> None)"
    using t
  proof (cases rule: transition_shape)
    case same
    have quiet: "conn_finished (log_conn s cid)" if "e = LogConnectionLost reason" for reason
      using t same(2) that by (auto simp: conn_finished_def reconnect_log_def split: if_splits)
    show ?thesis
    proof (cases "list_all data_effect effects")
      case True
      then show ?thesis using s1 same quiet by (auto simp: s2_def data_effects_skip event_outcome_def conn_finished_def)
    next
      case False
      then have "s2 = applyConnectionEffect cid s1 SendLogRequest" using same by (simp add: s2_def)
      with send_effect [OF s1(4,1)] obtain q where
        s2: "links s2" "steps_on cid s1 s2" "log_conn s2 cid = (log_conn s1 cid)\<lparr>lc_sent := q\<rparr>" by metis
      then show ?thesis using s1(3) same(1) quiet by (simp add: event_outcome_def conn_finished_def) blast
    qed
  next
    case (again n)
    note close = close_connection [OF s1(4,1)]
    have s2: "s2 = scheduleLogReconnect cid (closeStream cid (clearRetryTimer cid s1))" using again by (simp add: s2_def)
    have "cid < length (lm_objects (closeStream cid (clearRetryTimer cid s1)))" using s1(4) close(2) by (simp add: steps_on_def)
    note sched = schedule_reconnect [OF this close(1)]
    show ?thesis using sched close s1 again steps_on_trans [OF close(2) sched(2)]
      unfolding s2 by (auto simp: event_outcome_def conn_finished_def)
  next
    case over
    note close = close_connection [OF s1(4,1)]
    have quiet: "conn_finished (log_conn s cid)" if "e = LogConnectionLost reason" for reason
      using t over that by (auto simp: conn_finished_def reconnect_log_def split: if_splits)
    have s2: "s2 = closeStream cid (clearRetryTimer cid s1)" using over by (simp add: s2_def)
    show ?thesis using close s1 over quiet unfolding s2 by (auto simp: event_outcome_def conn_finished_def)
  qed
  then show "links s'" "steps_on cid s s'" "event_outcome (log_conn s cid) (log_conn s' cid)"
    "lc_protocol (log_conn s' cid) = fst (transitionContainerLogsProtocol (lc_protocol (log_conn s cid)) e)"
    "(\<exists>reason. e = LogConnectionLost reason) \<and> \<not> conn_finished (log_conn s cid) \<longrightarrow> lc_retry (log_conn s' cid) \<noteq> None"
    using conn_part_cong(1,4) [OF part] steps_on_part [OF part] steps_on_trans [OF s1(2)] t by auto
qed

lemma outcome_ok:
  assumes "conn_ok s cid" and "steps_on cid s s'" and "event_outcome (log_conn s cid) (log_conn s' cid)"
  shows "conn_ok s' cid"
  using assms by (auto simp: conn_ok_def steps_on_def event_outcome_def Let_def split: if_splits)

lemma other_ok: "steps_on cid s s' \<Longrightarrow> c \<noteq> cid \<Longrightarrow> conn_ok s' c = conn_ok s c"
  by (simp add: conn_ok_def steps_on_def)

lemma dispatch_conn_inv:
  assumes "conn_inv s" and "cid < length (lm_objects s)"
  shows "conn_inv (dispatch env cid e s)"
proof -
  have links: "links s" using assms(1) by (simp add: conn_inv_def)
  note d = dispatch_links [OF assms(2) links, where env = env and e = e]
  have "conn_ok (dispatch env cid e s) c" if "c < length (lm_objects s)" for c
  proof (cases "c = cid")
    case True
    then show ?thesis using outcome_ok [OF _ d(2,3)] assms by (simp add: conn_inv_def)
  next
    case False
    then show ?thesis using other_ok [OF d(2)] assms that by (simp add: conn_inv_def)
  qed
  then show ?thesis using d(1,2) by (simp add: conn_inv_def steps_on_def)
qed

section \<open>Opening a stream\<close>

text \<open>A connection about to open: the one of its scope, without socket or timer.\<close>

definition conn_opening :: "log_manager \<Rightarrow> nat \<Rightarrow> bool" where
  "conn_opening s cid \<longleftrightarrow>
     cid < length (lm_objects s) \<and> links s \<and> (\<forall>c < length (lm_objects s). c \<noteq> cid \<longrightarrow> conn_ok s c) \<and>
     \<not> conn_finished (log_conn s cid) \<and> map_of (lm_table s) (lc_scope (log_conn s cid)) = Some cid \<and>
     lc_socket (log_conn s cid) = None \<and> lc_retry (log_conn s cid) = None"

lemma open_conn_inv:
  assumes "conn_opening s cid"
  shows "conn_inv (openStream env cid s)"
proof (cases "le_open_error env")
  case (Some reason)
  have c: "cid < length (lm_objects s)" "links s" "\<not> conn_finished (log_conn s cid)"
    using assms by (simp_all add: conn_opening_def)
  note d = dispatch_links [OF c(1,2), where env = env and e = "LogConnectionLost reason"]
  let ?s = "dispatch env cid (LogConnectionLost reason) s"
  have "\<not> conn_finished (log_conn ?s cid)" using d(4) c(3) by (simp add: conn_finished_def reconnect_log_def)
  moreover have "lc_retry (log_conn ?s cid) \<noteq> None" using d(5) c(3) by blast
  ultimately have "conn_ok ?s cid"
    using d(2,3) assms by (auto simp: conn_ok_def Let_def event_outcome_def steps_on_def conn_opening_def)
  moreover have "conn_ok ?s c'" if "c' \<noteq> cid" "c' < length (lm_objects s)" for c'
    using other_ok [OF d(2) that(1)] that assms by (simp add: conn_opening_def)
  ultimately have "\<forall>c' < length (lm_objects s). conn_ok ?s c'" by metis
  then have "conn_inv ?s" using d(1,2) by (simp add: conn_inv_def steps_on_def)
  then show ?thesis using Some by (simp add: openStream_def)
next
  case None
  define sid where "sid = length (lm_sockets s)"
  define s1 where "s1 = put_log_conn cid ((log_conn s cid)\<lparr>lc_socket := Some sid\<rparr>)
    (s\<lparr>lm_sockets := lm_sockets s @ [cid], lm_attached := lm_attached s @ [sid]\<rparr>)"
  have c: "cid < length (lm_objects s)" "links s" using assms by (simp_all add: conn_opening_def)
  have conn: "log_conn s1 c' = (if c' = cid then (log_conn s cid)\<lparr>lc_socket := Some sid\<rparr> else log_conn s c')" for c'
    using c(1) by (simp add: s1_def put_log_conn_def log_conn_def)
  have fields: "length (lm_objects s1) = length (lm_objects s)" "lm_table s1 = lm_table s"
    "lm_attached s1 = lm_attached s @ [sid]" "lm_sockets s1 = lm_sockets s @ [cid]" "lm_closed s1 = lm_closed s"
    "lm_timers s1 = lm_timers s" "lm_next_timer s1 = lm_next_timer s" by (simp_all add: s1_def)
  have fresh: "sid \<notin> set (lm_closed s)" using c(2) by (auto simp: sid_def links_def sockets_owned_def)
  have other_socket: "\<not> (x < length (lm_sockets s) \<and> x \<notin> set (lm_closed s) \<and> lm_sockets s ! x = cid)" for x
  proof -
    have "lc_socket (log_conn s cid) = Some x \<longleftrightarrow> x < length (lm_sockets s) \<and> x \<notin> set (lm_closed s) \<and> lm_sockets s ! x = cid"
      using c by (simp add: links_def sockets_owned_def)
    then show ?thesis using assms by (simp add: conn_opening_def)
  qed
  have "sockets_owned s1"
    using c fresh other_socket by (auto simp: sockets_owned_def links_def fields conn sid_def nth_append)
  moreover have "timers_owned s1" "table_owned s1"
    using c by (auto simp: timers_owned_def table_owned_def links_def fields conn)
  moreover have "conn_ok s1 c'" if "c' < length (lm_objects s)" for c'
    using assms that by (cases "c' = cid") (auto simp: conn_opening_def conn_ok_def conn fields Let_def conn_finished_def)
  ultimately have "conn_inv s1" by (simp add: conn_inv_def links_def fields)
  then show ?thesis
    using None assms by (simp add: openStream_def s1_def sid_def Let_def conn_opening_def conn_finished_def)
qed

section \<open>Operations\<close>

lemma stop_conn_inv:
  assumes inv: "conn_inv s"
  shows "conn_inv (stop_logs env scope reset s)" "map_of (lm_table (stop_logs env scope reset s)) scope = None"
proof -
  define s1 where "s1 = (case map_of (lm_table s) scope of
      None \<Rightarrow> s | Some cid \<Rightarrow> dispatch env cid LogStopRequested (s\<lparr>lm_table := AList.delete scope (lm_table s)\<rparr>))"
  have part: "conn_part (stop_logs env scope reset s) = conn_part s1"
    by (simp add: stop_logs_def Let_def flip: s1_def)
  have "conn_inv s1 \<and> map_of (lm_table s1) scope = None"
  proof (cases "map_of (lm_table s) scope")
    case None
    then show ?thesis using inv by (simp add: s1_def)
  next
    case (Some cid)
    define t where "t = s\<lparr>lm_table := AList.delete scope (lm_table s)\<rparr>"
    have links: "links s" using inv by (simp add: conn_inv_def)
    have cid: "cid < length (lm_objects s)" "lc_scope (log_conn s cid) = scope"
      using links Some by (simp_all add: links_def table_owned_def)
    have t: "links t" "log_conn t c = log_conn s c" "length (lm_objects t) = length (lm_objects s)"
      "map_of (lm_table t) sc = (if sc = scope then None else map_of (lm_table s) sc)" for c sc
      using links by (auto simp: t_def links_def sockets_owned_def timers_owned_def table_owned_def log_conn_def
          map_of_delete distinct_delete split: if_splits)
    note d = dispatch_links [OF _ t(1), of cid, where env = env and e = LogStopRequested]
    let ?s = "dispatch env cid LogStopRequested t"
    have here: "conn_ok ?s cid"
      using d(3,4) inv cid t by (auto simp: conn_ok_def conn_inv_def event_outcome_def Let_def conn_finished_def split: if_splits)
    have "conn_ok ?s c" if c: "c < length (lm_objects s)" "c \<noteq> cid" for c
    proof -
      have "conn_ok s c" using inv c by (simp add: conn_inv_def)
      then have "conn_ok t c" using Some c t by (auto simp: conn_ok_def Let_def split: if_splits)
      then show ?thesis using other_ok [OF d(2) c(2)] cid t by simp
    qed
    then have "\<forall>c < length (lm_objects s). conn_ok ?s c" using here by metis
    then have "conn_inv ?s" using d(1,2) cid t by (simp add: conn_inv_def steps_on_def)
    then show ?thesis using Some t by (simp add: s1_def flip: t_def)
  qed
  then show "conn_inv (stop_logs env scope reset s)" "map_of (lm_table (stop_logs env scope reset s)) scope = None"
    using conn_part_cong(3,5) [OF part] by auto
qed

lemma start_conn_inv:
  assumes "conn_inv s"
  shows "conn_inv (startStream env scope s)"
proof -
  define s1 where "s1 = stop_logs env scope False s"
  define c where "c = \<lparr>lc_scope = scope, lc_socket = None, lc_retry = None,
    lc_protocol = initialContainerLogsProtocolState, lc_sent = None\<rparr>"
  define n where "n = length (lm_objects s1)"
  define s2 where "s2 = s1\<lparr>lm_objects := lm_objects s1 @ [c], lm_table := AList.update scope n (lm_table s1)\<rparr>"
  define s3 where "s3 = commitPhase env scope (lp_phase (lc_protocol c)) s2"
  have s1: "links s1" "\<forall>c < n. conn_ok s1 c" "map_of (lm_table s1) scope = None"
    using stop_conn_inv [OF assms] by (simp_all add: s1_def n_def conn_inv_def)
  have conn: "log_conn s2 c' = (if c' < n then log_conn s1 c' else c)" if "c' \<le> n" for c'
    using that by (simp add: s2_def n_def log_conn_def nth_append)
  have fields: "length (lm_objects s2) = n + 1" "lm_sockets s2 = lm_sockets s1" "lm_attached s2 = lm_attached s1"
    "lm_closed s2 = lm_closed s1" "lm_timers s2 = lm_timers s1" "lm_next_timer s2 = lm_next_timer s1"
    "lm_table s2 = AList.update scope n (lm_table s1)" by (simp_all add: s2_def n_def)
  have bound: "lm_sockets s1 ! sid < n" if "sid \<in> set (lm_attached s1)" for sid
    using s1(1) that unfolding links_def sockets_owned_def n_def by blast
  have old: "lc_socket (log_conn s1 cid) = Some sid \<longleftrightarrow> sid \<in> set (lm_attached s1) \<and> lm_sockets s1 ! sid = cid"
    if "cid < n" for cid sid
    using s1(1) that unfolding links_def sockets_owned_def n_def by blast
  have sockets: "sockets_owned s2"
    unfolding sockets_owned_def
  proof (intro conjI allI ballI impI)
    fix cid sid
    assume "cid < length (lm_objects s2)"
    then consider "cid < n" | "cid = n" unfolding fields by linarith
    then show "lc_socket (log_conn s2 cid) = Some sid \<longleftrightarrow> sid \<in> set (lm_attached s2) \<and> lm_sockets s2 ! sid = cid"
      using bound old by cases (auto simp: conn fields c_def)
  next
    fix sid
    assume "sid \<in> set (lm_attached s2)"
    then show "lm_sockets s2 ! sid < length (lm_objects s2)" using bound [of sid] by (simp add: fields)
  qed (use s1(1) in \<open>auto simp: links_def sockets_owned_def fields\<close>)
  have timers: "timers_owned s2"
    unfolding timers_owned_def
  proof (intro conjI allI impI)
    fix cid t
    assume "cid < length (lm_objects s2)"
    then consider "cid < n" | "cid = n" unfolding fields by linarith
    then show "lc_retry (log_conn s2 cid) = Some t \<longleftrightarrow> map_of (lm_timers s2) t = Some cid"
      using s1(1) by cases (auto simp: links_def timers_owned_def conn fields c_def n_def)
  qed (use s1(1) in \<open>auto simp: links_def timers_owned_def fields n_def intro: less_SucI\<close>)
  have table: "table_owned s2"
    unfolding table_owned_def
  proof (intro conjI allI impI)
    show "distinct (map fst (lm_table s2))" using s1(1) by (simp add: links_def table_owned_def fields distinct_update)
    fix sc cid
    assume "map_of (lm_table s2) sc = Some cid"
    then have "sc = scope \<and> cid = n \<or> map_of (lm_table s1) sc = Some cid"
      by (simp add: fields map_of_update split: if_splits)
    then consider "sc = scope" "cid = n" | "map_of (lm_table s1) sc = Some cid" by blast
    then have "cid < n + 1 \<and> lc_scope (log_conn s2 cid) = sc"
    proof cases
      case 1
      then show ?thesis by (simp add: conn c_def)
    next
      case 2
      then have "cid < n" "lc_scope (log_conn s1 cid) = sc" using s1(1) by (simp_all add: links_def table_owned_def n_def)
      then show ?thesis by (simp add: conn)
    qed
    then show "cid < length (lm_objects s2)" "lc_scope (log_conn s2 cid) = sc" by (simp_all add: fields)
  qed
  have "conn_ok s2 c'" if "c' < n" for c'
  proof -
    have "conn_ok s1 c'" using s1(2) that by simp
    then show ?thesis using s1(3) that by (auto simp: conn_ok_def conn fields map_of_update Let_def split: if_splits)
  qed
  then have "conn_opening s2 n"
    using sockets timers table by (auto simp: conn_opening_def links_def fields conn map_of_update c_def conn_finished_def
        initialContainerLogsProtocolState_def less_Suc_eq)
  then have "conn_opening s3 n"
    using conn_part_cong [of s3 s2] by (simp add: conn_opening_def s3_def)
  then show ?thesis
    unfolding startStream_def Let_def by (fold s1_def, fold c_def n_def, fold s2_def, fold s3_def) (rule open_conn_inv)
qed

lemma retry_conn_inv:
  assumes inv: "conn_inv s" and t: "map_of (lm_timers s) t = Some cid"
  shows "conn_inv (fire_retry env cid (s\<lparr>lm_timers := AList.delete t (lm_timers s)\<rparr>))"
proof -
  have links: "links s" using inv by (simp add: conn_inv_def)
  then have cid: "cid < length (lm_objects s)" "lc_retry (log_conn s cid) = Some t"
    using t by (auto simp: links_def timers_owned_def)
  define s1 where "s1 = clearRetryTimer cid s"
  note clear = clear_retry [OF cid(1) links]
  have eq: "put_log_conn cid ((log_conn (s\<lparr>lm_timers := AList.delete t (lm_timers s)\<rparr>) cid)\<lparr>lc_retry := None\<rparr>)
      (s\<lparr>lm_timers := AList.delete t (lm_timers s)\<rparr>) = s1"
    using cid(2) by (simp add: s1_def clearRetryTimer_def log_conn_def)
  have ok: "conn_ok s cid" using inv cid(1) by (simp add: conn_inv_def)
  then have unfinished: "\<not> conn_finished (log_conn s cid)" using cid(2) by (auto simp: conn_ok_def Let_def)
  have "conn_opening s1 cid"
    using clear ok unfinished cid inv other_ok [OF clear(2)]
    by (auto simp: conn_opening_def s1_def steps_on_def conn_ok_def Let_def conn_inv_def conn_finished_def)
  then show ?thesis using open_conn_inv unfinished clear(3)
    by (auto simp: fire_retry_def eq Let_def conn_finished_def s1_def)
qed

lemma suspend_conn_inv:
  assumes "conn_inv s"
  shows "conn_inv (suspend_logs env s)"
proof -
  define n where "n = length (lm_objects s)"
  have start: "conn_inv (s\<lparr>lm_suspended := True\<rparr>) \<and> length (lm_objects (s\<lparr>lm_suspended := True\<rparr>)) = n"
    using assms conn_part_cong(3) [OF conn_part_fields(3)] by (simp add: n_def)
  have "conn_inv u \<and> length (lm_objects u) = n"
    if "u = foldl (\<lambda>s (scope, cid). markIdle scope (dispatch env cid LogStopRequested s)) (s\<lparr>lm_suspended := True\<rparr>) (lm_table s)" for u
    unfolding that
  proof (rule foldl_inv [where P = "\<lambda>u. conn_inv u \<and> length (lm_objects u) = n", OF _ start])
    fix u x
    assume u: "conn_inv u \<and> length (lm_objects u) = n" and x: "x \<in> set (lm_table s)"
    obtain scope cid where sc: "x = (scope, cid)" by fastforce
    have "map_of (lm_table s) scope = Some cid"
      using assms x by (simp add: sc conn_inv_def links_def table_owned_def)
    then have cid: "cid < length (lm_objects u)"
      using assms u by (auto simp: conn_inv_def links_def table_owned_def n_def)
    have d: "conn_inv (dispatch env cid LogStopRequested u)" "length (lm_objects (dispatch env cid LogStopRequested u)) = n"
      using dispatch_conn_inv [of u cid] dispatch_links(2) [OF cid, of env LogStopRequested] u cid
      by (auto simp: conn_inv_def steps_on_def)
    then show "conn_inv (case x of (scope, cid) \<Rightarrow> markIdle scope (dispatch env cid LogStopRequested u)) \<and>
        length (lm_objects (case x of (scope, cid) \<Rightarrow> markIdle scope (dispatch env cid LogStopRequested u))) = n"
      using conn_part_cong(3,6) [OF conn_part_buffers(5)] by (simp add: sc)
  qed
  then show ?thesis using assms by (auto simp: suspend_logs_def)
qed

lemma limit_part: "conn_part (foldl (limit_buffer env) s scopes) = conn_part s"
  by (induction scopes arbitrary: s) (simp_all add: limit_buffer_def)

lemma on_socket_conn_inv:
  assumes "conn_inv s" and "\<And>cid. cid < length (lm_objects s) \<Longrightarrow> conn_inv (f cid)"
  shows "conn_inv (on_socket s sid f)"
proof (cases "sid \<in> set (lm_attached s)")
  case True
  then have "lm_sockets s ! sid < length (lm_objects s)"
    using assms(1) unfolding conn_inv_def links_def sockets_owned_def by blast
  then show ?thesis using True assms(2) by (simp add: on_socket_def)
next
  case False
  then show ?thesis using assms(1) by (simp add: on_socket_def)
qed

lemma log_step_conn_inv:
  assumes inv: "conn_inv s"
  shows "conn_inv (log_step env op s)"
proof (cases op)
  case (StopAllLogs reset)
  then show ?thesis using inv by (simp add: stopAll_logs_def foldl_inv [where P = conn_inv] stop_conn_inv)
next
  case LogsVisible
  have "conn_inv (s\<lparr>lm_suspended := False\<rparr>)" using inv conn_part_cong(3) [OF conn_part_fields(3)] by simp
  then show ?thesis using LogsVisible inv by (simp add: resume_logs_def foldl_inv [where P = conn_inv] start_conn_inv)
next
  case (BufferSizeChanged n)
  have "conn_part (setMaxEntries env n s) = conn_part s" by (simp add: setMaxEntries_def limit_part)
  from conn_part_cong(3) [OF this] show ?thesis using inv BufferSizeChanged by simp
next
  case (LogParamsSet scope params)
  then show ?thesis using inv conn_part_cong(3) [OF conn_part_fields(4)] by simp
next
  case (LogParamsCleared scope)
  then show ?thesis using inv conn_part_cong(3) [OF conn_part_fields(4)] by simp
next
  case (LogSocketMessage sid data)
  have "conn_inv (handle_log_message env cid data s)" if "cid < length (lm_objects s)" for cid
    using inv that by (simp add: handle_log_message_def Let_def dispatch_conn_inv split: option.split)
  then show ?thesis using inv LogSocketMessage by (simp add: on_socket_conn_inv)
next
  case (RetryFired t)
  then show ?thesis using inv retry_conn_inv by (simp split: option.split)
next
  case (LogScopeReset scope)
  then show ?thesis using inv conn_part_cong(3) [OF conn_part_fields(7)] by simp
qed (use inv in \<open>simp_all add: on_socket_conn_inv dispatch_conn_inv start_conn_inv stop_conn_inv suspend_conn_inv\<close>)

lemma log_connections_inv: "log_reachable s \<Longrightarrow> conn_inv s"
  by (induction rule: log_reachable.induct)
    (simp_all add: log_step_conn_inv, simp add: conn_inv_def links_def sockets_owned_def timers_owned_def table_owned_def
      new_log_manager_def)

end
