(* ===== verification/Log_Contracts.thy ===== *)
theory Log_Contracts
  imports Log_Connections
begin

text \<open>
  What the container logs promise: the lines a view shows are in time order, within the limits and complete for their pods;
  a stream has one socket or one pending reconnect; a hidden window holds none; a snapshot that arrives in pieces is
  applied at once; and a resume request names the true end of each container's lines.
\<close>

declare map_of_eq_Some_iff [simp del] Some_eq_map_of_iff [simp del]

section \<open>A session\<close>

text \<open>A stream that was opened and got a snapshot of one line.\<close>

definition sample_env :: log_env where
  "sample_env = \<lparr>le_now = 5, le_open_error = None\<rparr>"

definition sample_line :: "string \<Rightarrow> string \<Rightarrow> json" where
  "sample_line time txt = JObject [(''timestamp'', JString time), (''pod'', JString ''p''), (''container'', JString ''c''),
     (''line'', JString txt), (''isInit'', JBool False)]"

definition sample_frame :: json where
  "sample_frame = JObject [(''domain'', JString ''container-logs''), (''scope'', JString ''s''), (''sequence'', JNumber 1),
     (''generatedAt'', JNumber 1), (''reset'', JBool True), (''snapshotComplete'', JBool True),
     (''entries'', JArray [sample_line ''2024-01-01T00:00:00Z'' ''a''])]"

definition sample_wire :: wire_entry where
  "sample_wire = \<lparr>we_timestamp = ''2024-01-01T00:00:00Z'', we_pod = ''p'', we_container = ''c'', we_line = [97],
     we_is_init = False, we_is_ephemeral = None\<rparr>"

definition sample_buffer :: log_buffer where
  "sample_buffer = fst (insert_entries [sample_wire] 0 new_log_buffer)"

lemma sample_buffer_ok: "buffer_ok sample_buffer" "lb_entries sample_buffer = [\<lparr>le_wire = sample_wire, le_seq = 1\<rparr>]"
  using insert_ok [of new_log_buffer "[sample_wire]" 0] new_buffer_ok by (simp_all add: sample_buffer_def new_log_buffer_def)

definition sample_ops :: "log_op list" where
  "sample_ops = [StartLogs ''s'', LogSocketOpened 0, LogSocketMessage 0 sample_frame]"

fun sample_run :: "log_manager \<Rightarrow> log_op list \<Rightarrow> log_manager" where
  "sample_run s [] = s"
| "sample_run s (op # ops) = sample_run (log_step sample_env op s) ops"

fun sample_run_ok :: "log_manager \<Rightarrow> log_op list \<Rightarrow> bool" where
  "sample_run_ok s [] = True"
| "sample_run_ok s (op # ops) = (log_op_ok s op \<and> sample_run_ok (log_step sample_env op s) ops)"

definition sample_start :: log_manager where
  "sample_start = new_log_manager (Some 10) (Some 100) 10 empty_refresh_state"

lemma sample_run_reachable: "log_reachable s \<Longrightarrow> sample_run_ok s ops \<Longrightarrow> log_reachable (sample_run s ops)"
  by (induction ops arbitrary: s) (simp_all add: log_next)

lemma sample_reachable: "log_reachable (sample_run sample_start sample_ops)"
proof (rule sample_run_reachable)
  show "log_reachable sample_start"
    unfolding sample_start_def by (rule log_init) (simp add: store_inv_def view_ok_def empty_refresh_state_def)
  show "sample_run_ok sample_start sample_ops" by code_simp
qed

section \<open>Views\<close>

text \<open>C23: what a log view shows is the buffer of its scope: its lines are in timestamp order, no more than the buffer size
  and the byte limit allow, the pods and containers listed are exactly those of the lines shown, and the truncation notice
  counts more lines than are shown.\<close>

theorem log_views_are_bounded_and_current:
  assumes "log_reachable s" and "map_of (lm_buffers s) scope = Some b"
    and "ds_data (getScopedDomainState (lm_store s) DOMAIN_NAME scope) = Some p"
  shows "pl_entries p = lb_entries b \<and> sorted (map entry_key (pl_entries p)) \<and>
    length (pl_entries p) \<le> lm_max_entries s \<and> sum_list (map line_bytes (pl_entries p)) \<le> lm_max_bytes s \<and>
    set (pl_pods p) = podOf ` set (pl_entries p) \<and> set (pl_containers p) = containerOf ` set (pl_entries p) \<and>
    (\<forall>shown received. pl_truncation p = Some (shown, received) \<longrightarrow>
       shown = length (pl_entries p) \<and> int shown < received)"
proof -
  have ok: "fine_buffer b" "within (lm_max_entries s) (lm_max_bytes s) b" "shows_buffer b (log_snapshot s scope)"
    using log_views_inv [OF assms(1)] assms(2) unfolding data_inv_def scope_ok_def by blast+
  then have "sorted (map entry_key (lb_entries b))" by (simp add: fine_buffer_def flip: fine_keys)
  with ok assms(3) show ?thesis
    by (auto simp: shows_buffer_def log_snapshot_def within_def truncation_def split: if_splits)
qed

theorem log_views_are_bounded_and_current_witness:
  "\<exists>p. ds_data (getScopedDomainState (lm_store (sample_run sample_start sample_ops)) DOMAIN_NAME ''s'') = Some p \<and>
     length (pl_entries p) = 1 \<and> set (pl_pods p) = podOf ` set (pl_entries p)"
proof -
  let ?s = "sample_run sample_start sample_ops"
  have "\<not> Option.is_none (map_of (lm_buffers ?s) ''s'')" by code_simp
  then obtain b where b: "map_of (lm_buffers ?s) ''s'' = Some b" by (auto simp: Option.is_none_def)
  have "(case ds_data (getScopedDomainState (lm_store ?s) DOMAIN_NAME ''s'') of None \<Rightarrow> 0 | Some p \<Rightarrow> length (pl_entries p)) = 1"
    by code_simp
  then obtain p where p: "ds_data (getScopedDomainState (lm_store ?s) DOMAIN_NAME ''s'') = Some p" "length (pl_entries p) = 1"
    by (auto split: option.splits)
  with log_views_are_bounded_and_current [OF sample_reachable b p(1)] show ?thesis by blast
qed

section \<open>Connections\<close>

text \<open>The sockets of a connection that nobody closed, and the reconnects it waits for.\<close>

definition open_sockets :: "log_manager \<Rightarrow> nat \<Rightarrow> nat list" where
  "open_sockets s cid =
     filter (\<lambda>sid. lm_sockets s ! sid = cid \<and> sid \<notin> set (lm_closed s)) [0..<length (lm_sockets s)]"

definition pending_retries :: "log_manager \<Rightarrow> nat \<Rightarrow> timer list" where
  "pending_retries s cid = map fst (filter (\<lambda>(t, c). c = cid) (lm_timers s))"

lemma at_most_one:
  assumes "distinct xs" and "set xs = set_option x"
  shows "length xs = (if x = None then 0 else 1)"
  using distinct_card [OF assms(1)] assms(2) by (cases x) simp_all

lemma open_sockets_of:
  assumes "links s" and "cid < length (lm_objects s)"
  shows "length (open_sockets s cid) = (if lc_socket (log_conn s cid) = None then 0 else 1)"
proof (rule at_most_one)
  show "distinct (open_sockets s cid)" by (simp add: open_sockets_def)
  have "sid \<in> set (open_sockets s cid) \<longleftrightarrow> lc_socket (log_conn s cid) = Some sid" for sid
    using assms by (auto simp: open_sockets_def links_def sockets_owned_def)
  then show "set (open_sockets s cid) = set_option (lc_socket (log_conn s cid))" by auto
qed

lemma pending_retries_of:
  assumes "links s" and "cid < length (lm_objects s)"
  shows "length (pending_retries s cid) = (if lc_retry (log_conn s cid) = None then 0 else 1)"
proof (rule at_most_one)
  have d: "distinct (map fst (lm_timers s))" using assms(1) by (simp add: links_def timers_owned_def)
  then show "distinct (pending_retries s cid)"
    unfolding pending_retries_def by (rule distinct_map_filter)
  have "t \<in> set (pending_retries s cid) \<longleftrightarrow> lc_retry (log_conn s cid) = Some t" for t
    using assms d by (force simp: pending_retries_def links_def timers_owned_def map_of_eq_Some_iff)
  then show "set (pending_retries s cid) = set_option (lc_retry (log_conn s cid))" by auto
qed

text \<open>C24: every connection the manager ever made holds one socket or waits for one reconnect while its stream lives, and
  nothing once it is stopped or failed: no socket is leaked, none is opened twice, and no live stream is stuck. A live
  connection is the one its scope is registered with, so a scope has one live stream at most.\<close>

theorem one_socket_per_stream:
  assumes "log_reachable s" and "cid < length (lm_objects s)"
  shows "length (open_sockets s cid) + length (pending_retries s cid) =
      (if isFinished (lp_phase (lc_protocol (log_conn s cid))) then 0 else 1) \<and>
    (\<not> isFinished (lp_phase (lc_protocol (log_conn s cid))) \<longrightarrow>
       map_of (lm_table s) (lc_scope (log_conn s cid)) = Some cid)"
proof -
  have "links s" "conn_ok s cid" using log_connections_inv [OF assms(1)] assms(2) by (simp_all add: conn_inv_def)
  then show ?thesis
    using open_sockets_of [OF _ assms(2)] pending_retries_of [OF _ assms(2)]
    by (simp add: conn_ok_def conn_finished_def Let_def split: if_splits)
qed

theorem one_socket_per_stream_witness:
  "length (open_sockets (sample_run sample_start sample_ops) 0) +
     length (pending_retries (sample_run sample_start sample_ops) 0) = 1"
proof -
  let ?s = "sample_run sample_start sample_ops"
  have "0 < length (lm_objects ?s)" "\<not> isFinished (lp_phase (lc_protocol (log_conn ?s 0)))" by code_simp+
  with one_socket_per_stream [OF sample_reachable, of 0] show ?thesis by simp
qed

lemma stops_finish:
  fixes env :: log_env
  assumes "conn_inv s" and "\<And>scope cid. (scope, cid) \<in> set xs \<Longrightarrow> cid < length (lm_objects s)"
  defines "stop_one \<equiv> \<lambda>s (scope, cid). markIdle scope (dispatch env cid LogStopRequested s)"
  shows "conn_inv (foldl stop_one s xs) \<and> length (lm_objects (foldl stop_one s xs)) = length (lm_objects s) \<and>
    (\<forall>cid < length (lm_objects s). conn_finished (log_conn s cid) \<or> cid \<in> snd ` set xs \<longrightarrow>
       conn_finished (log_conn (foldl stop_one s xs) cid))"
  using assms(1,2)
proof (induction xs arbitrary: s)
  case (Cons x xs)
  obtain scope cid where x: "x = (scope, cid)" by fastforce
  define s1 where "s1 = dispatch env cid LogStopRequested s"
  have cid: "cid < length (lm_objects s)" using Cons.prems(2) x by (metis list.set_intros(1))
  have links: "links s" using Cons.prems(1) by (simp add: conn_inv_def)
  note d = dispatch_links [OF cid links, where env = env and e = LogStopRequested, folded s1_def]
  have part: "conn_part (markIdle scope s1) = conn_part s1" by simp
  have step: "stop_one s x = markIdle scope s1" by (simp add: stop_one_def x s1_def)
  have len: "length (lm_objects (stop_one s x)) = length (lm_objects s)"
    using d(2) conn_part_cong(6) [OF part] by (simp add: step steps_on_def)
  have inv: "conn_inv (stop_one s x)"
    using dispatch_conn_inv [OF Cons.prems(1) cid, of env LogStopRequested] conn_part_cong(3) [OF part]
    unfolding step s1_def by simp
  have "conn_finished (log_conn s1 cid)" using d(4) by (simp add: conn_finished_def)
  then have "conn_finished (log_conn (stop_one s x) c)" if "conn_finished (log_conn s c) \<or> c = cid" for c
    using that d(2) conn_part_cong(4) [OF part] by (cases "c = cid") (auto simp: step steps_on_def)
  moreover have "conn_inv (foldl stop_one (stop_one s x) xs) \<and>
      length (lm_objects (foldl stop_one (stop_one s x) xs)) = length (lm_objects (stop_one s x)) \<and>
      (\<forall>cid < length (lm_objects (stop_one s x)). conn_finished (log_conn (stop_one s x) cid) \<or> cid \<in> snd ` set xs \<longrightarrow>
        conn_finished (log_conn (foldl stop_one (stop_one s x) xs) cid))"
    by (rule Cons.IH [OF inv]) (use Cons.prems(2) len in auto)
  ultimately show ?case using len x by auto
qed simp

text \<open>C25: hiding the window closes every log stream: afterwards no socket is open, none delivers events, and no reconnect
  is pending, while each scope keeps its entry in the table so that it is started again when the window is shown.\<close>

theorem hidden_window_holds_no_stream:
  assumes "log_reachable s" and "\<not> lm_suspended s"
  shows "let s' = log_step env LogsHidden s in
    lm_attached s' = [] \<and> lm_timers s' = [] \<and>
    (\<forall>sid < length (lm_sockets s'). sid \<in> set (lm_closed s')) \<and> map fst (lm_table s') = map fst (lm_table s)"
proof -
  define s' where "s' = log_step env LogsHidden s"
  define s0 where "s0 = s\<lparr>lm_suspended := True\<rparr>"
  have inv: "conn_inv s" by (rule log_connections_inv [OF assms(1)])
  have s0: "conn_inv s0" "lm_table s0 = lm_table s" "log_conn s0 c = log_conn s c"
    "length (lm_objects s0) = length (lm_objects s)" for c
    using inv conn_part_cong [OF conn_part_fields(3) [of True s]] by (simp_all add: s0_def)
  have s': "s' = foldl (\<lambda>s (scope, cid). markIdle scope (dispatch env cid LogStopRequested s)) s0 (lm_table s)"
    using assms(2) by (simp add: s'_def suspend_logs_def s0_def)
  have bound: "cid < length (lm_objects s0)" if "(scope, cid) \<in> set (lm_table s)" for scope cid
    using inv that s0(4) by (auto simp: conn_inv_def links_def table_owned_def map_of_eq_Some_iff)
  note all = stops_finish [OF s0(1), where xs = "lm_table s" and env = env, OF bound, folded s']
  have finished: "conn_finished (log_conn s' cid)" if "cid < length (lm_objects s)" for cid
  proof (cases "conn_finished (log_conn s cid)")
    case False
    then have "map_of (lm_table s) (lc_scope (log_conn s cid)) = Some cid"
      using inv that by (simp add: conn_inv_def conn_ok_def Let_def)
    then have "cid \<in> snd ` set (lm_table s)" by (force dest: map_of_SomeD)
    then show ?thesis using all that s0 by simp
  qed (use all that s0 in simp)
  have inv': "conn_inv s'" and len: "length (lm_objects s') = length (lm_objects s)" using all s0(4) by simp_all
  then have none: "lc_socket (log_conn s' cid) = None" "lc_retry (log_conn s' cid) = None" if "cid < length (lm_objects s)" for cid
    using finished [OF that] that by (simp_all add: conn_inv_def conn_ok_def Let_def)
  have attached: "lm_attached s' = []"
  proof (rule ccontr)
    assume "lm_attached s' \<noteq> []"
    then obtain sid where sid: "sid \<in> set (lm_attached s')" by (meson last_in_set)
    then have "lm_sockets s' ! sid < length (lm_objects s')"
      using inv' unfolding conn_inv_def links_def sockets_owned_def by blast
    moreover from this have "lc_socket (log_conn s' (lm_sockets s' ! sid)) = Some sid"
      using inv' sid unfolding conn_inv_def links_def sockets_owned_def by blast
    ultimately show False using none(1) len by simp
  qed
  have timers: "lm_timers s' = []"
  proof (rule ccontr)
    assume "lm_timers s' \<noteq> []"
    then obtain t cid where tc: "(t, cid) \<in> set (lm_timers s')" by (cases "lm_timers s'") auto
    then have "map_of (lm_timers s') t = Some cid" using inv' by (simp add: conn_inv_def links_def timers_owned_def)
    then have "cid < length (lm_objects s')" "lc_retry (log_conn s' cid) = Some t"
      using inv' unfolding conn_inv_def links_def timers_owned_def by blast+
    then show False using none(2) len by simp
  qed
  have "\<forall>sid < length (lm_sockets s'). sid \<in> set (lm_closed s')"
    using inv' attached by (simp add: conn_inv_def links_def sockets_owned_def)
  moreover have "lm_table (foldl (\<lambda>s (scope, cid). markIdle scope (dispatch env cid LogStopRequested s)) u xs) = lm_table u" for u xs
    by (induction xs arbitrary: u) (auto simp: split_def)
  ultimately have "lm_attached s' = [] \<and> lm_timers s' = [] \<and> (\<forall>sid < length (lm_sockets s'). sid \<in> set (lm_closed s')) \<and>
      map fst (lm_table s') = map fst (lm_table s)"
    using attached timers s0(2) by (simp add: s')
  then show ?thesis unfolding Let_def s'_def by blast
qed

theorem hidden_window_holds_no_stream_witness:
  "lm_attached (log_step sample_env LogsHidden (sample_run sample_start sample_ops)) = []"
proof -
  have "\<not> lm_suspended (sample_run sample_start sample_ops)" by code_simp
  from hidden_window_holds_no_stream [OF sample_reachable this, of sample_env] show ?thesis by (simp only: Let_def)
qed

section \<open>The buffer\<close>

text \<open>An insertion is a stable sort by time. The binary search and the merge loop put the new lines where sorting all
  lines by their timestamp keys would put them, held lines before new ones with the same timestamp.\<close>

theorem insert_is_a_stable_sort:
  assumes "buffer_ok b" and "sorted (lb_keys b)"
  shows "lb_entries (fst (insert_entries incoming seq b)) = sort_key entry_key (lb_entries b @ numbered_from seq incoming) \<and>
    lb_received (fst (insert_entries incoming seq b)) = lb_received b + int (length incoming)"
  using insert_entries_sorts [of b incoming seq] assms by (simp add: buffer_ok_def)

theorem insert_is_a_stable_sort_witness:
  "lb_entries (fst (insert_entries [sample_wire, sample_wire] 3 new_log_buffer)) =
     sort_key entry_key (numbered_from 3 [sample_wire, sample_wire])"
proof -
  have "sorted (lb_keys new_log_buffer)" "lb_entries new_log_buffer = []" by (simp_all add: new_log_buffer_def)
  with insert_is_a_stable_sort [OF new_buffer_ok, of "[sample_wire, sample_wire]" 3] show ?thesis by simp
qed

text \<open>C26: eviction keeps exactly the newest lines that fit: the longest tail of the lines within the line count and the byte
  limit, with all counters adjusted to it.\<close>

theorem evict_keeps_the_newest:
  assumes "buffer_ok b"
  shows "lb_entries (evict maxEntries maxBytes b) = newest_within maxEntries maxBytes (lb_entries b) \<and>
    suffix (newest_within maxEntries maxBytes (lb_entries b)) (lb_entries b) \<and>
    (\<forall>zs. suffix zs (lb_entries b) \<and> length zs \<le> maxEntries \<and> sum_list (map line_bytes zs) \<le> maxBytes \<longrightarrow>
       suffix zs (newest_within maxEntries maxBytes (lb_entries b))) \<and>
    buffer_ok (evict maxEntries maxBytes b)"
  using evict_ok [OF assms] newest_within_limits(3) newest_within_longest by blast

theorem evict_keeps_the_newest_witness:
  "lb_entries (evict 0 5 sample_buffer) = []"
proof -
  have "newest_within 0 5 (lb_entries sample_buffer) = []" by (simp add: sample_buffer_ok)
  with evict_keeps_the_newest [OF sample_buffer_ok(1), of 0 5] show ?thesis by simp
qed

section \<open>Resuming\<close>

text \<open>C27: a resume request names, for each container with timestamped lines in the buffer and for no other, its newest line
  and the newest of the lines that share its timestamp, oldest first and within the limits of a request.\<close>

theorem resume_request_names_the_tails:
  assumes "buffer_ok b" and "lb_basis b = Some basis" and "bb_selection basis = selectionKey request"
    and "lr_max_entries request \<le> bb_max_entries basis"
  shows "\<exists>ks. distinct ks \<and> set ks = {identity e |e. e \<in> set (lb_entries b) \<and> entry_key e \<noteq> UNTIMED_KEY} \<and>
    list_all2 (\<lambda>k p. tail_point (timed_of k (lb_entries b)) p) ks (resumePoints request b)"
proof -
  have "resumePoints request b = resumePointsFor (lb_entries b) (map entry_key (lb_entries b))"
    using assms by (simp add: resumePoints_def buffer_ok_def)
  then show ?thesis using resume_points_tails [of "lb_entries b"] by simp
qed

definition sample_request :: log_request where
  "sample_request = \<lparr>lr_scope = ''s'', lr_filters = [], lr_match_none = False, lr_max_entries = 10, lr_max_bytes = 100,
     lr_resume = []\<rparr>"

theorem resume_request_names_the_tails_witness:
  "length (resumePoints sample_request (setBasis (Some sample_request) sample_buffer)) \<le> 1"
proof -
  let ?b = "setBasis (Some sample_request) sample_buffer"
  have b: "buffer_ok ?b" "lb_entries ?b = lb_entries sample_buffer"
    using sample_buffer_ok(1) by (simp_all add: setBasis_def buffer_ok_def counts_ok_def)
  obtain ks where ks: "distinct ks" "set ks = {identity e |e. e \<in> set (lb_entries ?b) \<and> entry_key e \<noteq> UNTIMED_KEY}"
    "list_all2 (\<lambda>k p. tail_point (timed_of k (lb_entries ?b)) p) ks (resumePoints sample_request ?b)"
    using resume_request_names_the_tails [OF b(1), of "\<lparr>bb_selection = selectionKey sample_request, bb_max_entries = 10\<rparr>" sample_request]
    by (auto simp: setBasis_def sample_request_def)
  have "set ks \<subseteq> {identity \<lparr>le_wire = sample_wire, le_seq = 1\<rparr>}" using ks(2) b(2) by (auto simp: sample_buffer_ok(2))
  then have "length ks \<le> 1" using distinct_card [OF ks(1)] card_mono [of "{identity \<lparr>le_wire = sample_wire, le_seq = 1\<rparr>}" "set ks"] by simp
  then show ?thesis using list_all2_lengthD [OF ks(3)] by simp
qed

text \<open>The sort keys of timestamps are in the order of time. Two timestamps the pattern accepts compare as their instants
  in nanosecond digits do, however many fraction digits each has, and both come before a line without a timestamp.\<close>

theorem timestamp_keys_follow_time:
  assumes "match_timestamp t = Some m" and "match_timestamp u = Some n"
  shows "(timestampKey t < timestampKey u \<longleftrightarrow> instant m < instant n) \<and> timestampKey t < UNTIMED_KEY"
  using timed_key_order [OF assms] untimed_last [OF assms(1)] by blast

theorem timestamp_keys_follow_time_witness:
  "timestampKey ''2024-01-01T00:00:00Z'' < timestampKey ''2024-01-01T00:00:00.5Z''"
proof -
  have "match_timestamp ''2024-01-01T00:00:00Z'' = Some (''2024-01-01T00:00:00'', [])"
    "match_timestamp ''2024-01-01T00:00:00.5Z'' = Some (''2024-01-01T00:00:00'', ''5'')" by code_simp+
  note keys = timestamp_keys_follow_time [OF this]
  have pad: "replicate 9 c = [c, c, c, c, c, c, c, c, c]" "replicate 8 c = [c, c, c, c, c, c, c, c]" for c :: char
    by (simp_all add: numeral_eq_Suc)
  show ?thesis using keys by (simp add: instant_def is_digit_def pad)
qed

section \<open>Snapshots in pieces\<close>

definition log_protocol_step ::
    "log_protocol \<times> log_effect list \<Rightarrow> log_frame \<Rightarrow> log_protocol \<times> log_effect list" where
  "log_protocol_step acc frame =
     (let (st, effects) = transitionContainerLogsProtocol (fst acc) (LogFrameReceived frame) in (st, snd acc @ effects))"

definition plain_frame :: "log_frame \<Rightarrow> bool" where
  "plain_frame frame \<longleftrightarrow> truthy (lf_error frame) = None \<and> \<not> lf_reset frame"

definition last_present :: "(log_frame \<Rightarrow> 'a list option) \<Rightarrow> log_frame list \<Rightarrow> 'a list" where
  "last_present f frames = foldl (\<lambda>old frame. case f frame of Some new \<Rightarrow> new | None \<Rightarrow> old) [] frames"

lemma staged_frames:
  assumes "list_all (\<lambda>f. plain_frame f \<and> \<not> lf_complete f) frames" and "lp_staged st = Some staged"
    and "\<not> isFinished (lp_phase st)"
  shows "foldl log_protocol_step (st, effects) frames =
    (st\<lparr>lp_staged := Some (foldl stageFrame staged frames)\<rparr>, effects)"
  using assms
proof (induction frames arbitrary: st staged)
  case (Cons f fs)
  have "log_protocol_step (st, effects) f = (st\<lparr>lp_staged := Some (stageFrame staged f)\<rparr>, effects)"
    using Cons.prems by (simp add: log_protocol_step_def receiveFrame_def plain_frame_def receiveSnapshotFrame_def Let_def)
  with Cons.IH [of "st\<lparr>lp_staged := Some (stageFrame staged f)\<rparr>"] Cons.prems show ?case by simp
qed simp

lemma staged_plain:
  "list_all plain_frame frames \<Longrightarrow> foldl stageFrame staged frames =
    \<lparr>sg_resumed = sg_resumed staged, sg_removed_pods = sg_removed_pods staged,
     sg_entries = sg_entries staged @ concat (map (or_no_items \<circ> lf_entries) frames),
     sg_warnings = foldl (\<lambda>old frame. case lf_warnings frame of Some new \<Rightarrow> new | None \<Rightarrow> old) (sg_warnings staged) frames,
     sg_issues = foldl (\<lambda>old frame. case lf_issues frame of Some new \<Rightarrow> new | None \<Rightarrow> old) (sg_issues staged) frames\<rparr>"
proof (induction frames arbitrary: staged)
  case (Cons f fs)
  then show ?case by (simp add: stageFrame_def plain_frame_def)
qed simp

text \<open>A snapshot sent in pieces is applied at once. From the frame that resets to the one that completes it no effect
  reaches the buffer; then a single effect carries the lines of all frames in order, the flags of the first frame, the
  trim count of the last one and the newest warnings and issues, and the stream is live with its retries reset.\<close>

theorem snapshot_is_applied_at_once:
  assumes "\<not> isFinished (lp_phase st)" and "truthy (lf_error first) = None" and "lf_reset first" and "\<not> lf_complete first"
    and "list_all (\<lambda>f. plain_frame f \<and> \<not> lf_complete f) frames" and "plain_frame closing" and "lf_complete closing"
  shows "snd (foldl log_protocol_step (st, []) (first # frames)) = [] \<and>
    foldl log_protocol_step (st, []) (first # frames @ [closing]) =
      (\<lparr>lp_phase = LogLive, lp_attempt = 0, lp_staged = None\<rparr>,
       [ApplySnapshot (concat (map (or_no_items \<circ> lf_entries) (first # frames @ [closing])))
          (lf_resumed first) (or_no_items (lf_removed_pods first)) (lf_trimmed closing)
          (last_present lf_warnings (first # frames @ [closing])) (last_present lf_issues (first # frames @ [closing]))])"
proof -
  define staged where "staged = stageFrame EMPTY_STAGE first"
  have "log_protocol_step (st, []) first = (st\<lparr>lp_staged := Some staged\<rparr>, [])"
    using assms by (simp add: log_protocol_step_def receiveFrame_def receiveSnapshotFrame_def staged_def Let_def)
  then have collected: "foldl log_protocol_step (st, []) (first # frames) =
      (st\<lparr>lp_staged := Some (foldl stageFrame staged frames)\<rparr>, [])"
    using staged_frames [OF assms(5), of "st\<lparr>lp_staged := Some staged\<rparr>" staged] assms(1) by simp
  define all where "all = stageFrame (foldl stageFrame staged frames) closing"
  have "list_all plain_frame (frames @ [closing])" using assms(5,6) by (simp add: list_all_iff)
  have "all = foldl stageFrame staged (frames @ [closing])" by (simp add: all_def)
  note parts = this [unfolded staged_plain [OF \<open>list_all plain_frame (frames @ [closing])\<close>]]
  have first: "sg_resumed staged = lf_resumed first" "sg_removed_pods staged = or_no_items (lf_removed_pods first)"
    "sg_entries staged = or_no_items (lf_entries first)"
    "sg_warnings staged = (case lf_warnings first of Some new \<Rightarrow> new | None \<Rightarrow> [])"
    "sg_issues staged = (case lf_issues first of Some new \<Rightarrow> new | None \<Rightarrow> [])"
    using assms(3) by (simp_all add: staged_def stageFrame_def EMPTY_STAGE_def split: option.split)
  have all: "sg_resumed all = lf_resumed first" "sg_removed_pods all = or_no_items (lf_removed_pods first)"
    "sg_entries all = concat (map (or_no_items \<circ> lf_entries) (first # frames @ [closing]))"
    "sg_warnings all = last_present lf_warnings (first # frames @ [closing])"
    "sg_issues all = last_present lf_issues (first # frames @ [closing])"
    by (simp_all add: parts first last_present_def)
  have "log_protocol_step (st\<lparr>lp_staged := Some (foldl stageFrame staged frames)\<rparr>, []) closing =
      (\<lparr>lp_phase = LogLive, lp_attempt = 0, lp_staged = None\<rparr>,
       [ApplySnapshot (sg_entries all) (sg_resumed all) (sg_removed_pods all) (lf_trimmed closing) (sg_warnings all) (sg_issues all)])"
    using assms by (simp add: log_protocol_step_def receiveFrame_def plain_frame_def receiveSnapshotFrame_def all_def Let_def)
  with collected show ?thesis using foldl_append [of log_protocol_step "(st, [])" "first # frames" "[closing]"] by (simp add: all)
qed

definition sample_piece :: "bool \<Rightarrow> bool \<Rightarrow> log_frame" where
  "sample_piece reset complete =
     \<lparr>lf_domain = DOMAIN_NAME, lf_scope = ''s'', lf_reset = reset, lf_resumed = False, lf_removed_pods = None,
      lf_complete = complete, lf_trimmed = 0, lf_entries = Some [sample_wire], lf_warnings = None, lf_issues = None,
      lf_error = None, lf_error_details = None, lf_reconnect = False\<rparr>"

theorem snapshot_is_applied_at_once_witness:
  "snd (foldl log_protocol_step (initialContainerLogsProtocolState, []) [sample_piece True False, sample_piece False True]) =
     [ApplySnapshot [sample_wire, sample_wire] False [] 0 [] []]"
  using snapshot_is_applied_at_once [of initialContainerLogsProtocolState "sample_piece True False" "[]" "sample_piece False True"]
  by (simp add: sample_piece_def plain_frame_def initialContainerLogsProtocolState_def or_no_items_def truthy_def last_present_def)

end
