(* ===== verification/Workspace_Store.thy ===== *)
theory Workspace_Store
  imports Prelude
begin

text \<open>
  The cluster workspace store, \<open>core/cluster-workspace/clusterWorkspaceStore.ts\<close> and
  \<open>core/contexts/clusterLifecycleState.ts\<close>: which clusters are open, their lifecycle, auth, health and
  scope revision, merged from backend events, reads and command responses that may overlap. The
  class instance is a record. An open read or command is a record of its own with the values its
  closure captured; its completion is a separate operation. Calls to listeners and to the event bus
  are a trace, one entry per notification of a listener set; listeners do not call back into the
  store. Strings that the source reads with \<open>||\<close> are empty when absent.
\<close>

section \<open>Lifecycle states\<close>

datatype lifecycle =
    Connecting | AuthFailedState | Connected | Loading | LoadingSlow | Degraded | Ready | Disconnected
  | Reconnecting

definition cluster_lifecycle_states :: "(string \<times> lifecycle) list" where
  "cluster_lifecycle_states =
     [(''connecting'', Connecting), (''auth_failed'', AuthFailedState), (''connected'', Connected),
      (''loading'', Loading), (''loading_slow'', LoadingSlow), (''degraded'', Degraded),
      (''ready'', Ready), (''disconnected'', Disconnected), (''reconnecting'', Reconnecting)]"

definition isClusterOperationalState :: "lifecycle option \<Rightarrow> bool" where
  "isClusterOperationalState st \<longleftrightarrow> st = Some Degraded \<or> st = Some Ready"

text \<open>The second component is the set of unknown states warned about so far.\<close>

definition parseClusterLifecycleState :: "string list \<Rightarrow> string option \<Rightarrow> lifecycle option \<times> string list" where
  "parseClusterLifecycleState warned raw =
     (case raw of
        None \<Rightarrow> (None, warned)
      | Some s \<Rightarrow>
          if s = [] then (None, warned)
          else case map_of cluster_lifecycle_states s of
                 Some st \<Rightarrow> (Some st, warned)
               | None \<Rightarrow> (None, if s \<in> set warned then warned else s # warned))"

definition parse_lifecycle :: "string option \<Rightarrow> lifecycle option" where
  "parse_lifecycle raw = fst (parseClusterLifecycleState [] raw)"

section \<open>Auth state\<close>

datatype error_class = ClassAuth | ClassConnectivity | ClassNone

record auth_state =
  au_error :: bool
  au_reason :: string
  au_name :: string
  au_recovering :: bool
  au_seconds :: nat
  au_class :: error_class
  au_exec :: string
  au_kind :: string
  au_summary :: string

definition default_cluster_auth_state :: auth_state where
  "default_cluster_auth_state =
     \<lparr>au_error = False, au_reason = [], au_name = [], au_recovering = False, au_seconds = 0,
      au_class = ClassNone, au_exec = [], au_kind = [], au_summary = []\<rparr>"

record auth_payload =
  ap_cluster :: string
  ap_name :: string
  ap_reason :: string
  ap_exec :: string
  ap_kind :: string
  ap_summary :: string
  ap_seconds :: "nat option"
  ap_class :: string

definition or_else :: "string \<Rightarrow> string \<Rightarrow> string" where
  "or_else a b = (if a \<noteq> [] then a else b)"

definition normalizeAuthErrorClass :: "string \<Rightarrow> error_class" where
  "normalizeAuthErrorClass value =
     (if value = ''auth'' then ClassAuth else if value = ''connectivity'' then ClassConnectivity else ClassNone)"

definition isConfirmedAuthFailure :: "auth_state \<Rightarrow> bool" where
  "isConfirmedAuthFailure st \<longleftrightarrow> au_error st \<and> (\<not> au_recovering st \<or> au_class st = ClassAuth)"

text \<open>A field of an optional auth state, empty without one.\<close>

definition auth_field :: "(auth_state \<Rightarrow> string) \<Rightarrow> auth_state option \<Rightarrow> string" where
  "auth_field f existing = (case existing of None \<Rightarrow> [] | Some st \<Rightarrow> f st)"

definition failedAuthState :: "auth_state option \<Rightarrow> auth_payload \<Rightarrow> auth_state" where
  "failedAuthState existing payload =
     \<lparr>au_error = True,
      au_reason = or_else (ap_reason payload) ''Authentication failed'',
      au_name = or_else (ap_name payload) (ap_cluster payload),
      au_recovering = False,
      au_seconds = (case existing of None \<Rightarrow> 0 | Some st \<Rightarrow> au_seconds st),
      au_class = ClassAuth,
      au_exec = or_else (ap_exec payload) (auth_field au_exec existing),
      au_kind = or_else (ap_kind payload) (auth_field au_kind existing),
      au_summary = or_else (ap_summary payload) (auth_field au_summary existing)\<rparr>"

definition recoveringAuthState :: "auth_state option \<Rightarrow> auth_payload \<Rightarrow> auth_state" where
  "recoveringAuthState existing payload =
     \<lparr>au_error = True,
      au_reason = or_else (auth_field au_reason existing) (or_else (ap_reason payload) ''Authentication failed''),
      au_name = or_else (auth_field au_name existing) (or_else (ap_name payload) (ap_cluster payload)),
      au_recovering = True,
      au_seconds = (case existing of None \<Rightarrow> 0 | Some st \<Rightarrow> au_seconds st),
      au_class = (case existing of None \<Rightarrow> ClassNone | Some st \<Rightarrow> au_class st),
      au_exec = or_else (auth_field au_exec existing) (ap_exec payload),
      au_kind = or_else (auth_field au_kind existing) (ap_kind payload),
      au_summary = or_else (auth_field au_summary existing) (ap_summary payload)\<rparr>"

text \<open>\<open>None\<close> when the existing state is returned as it is.\<close>

definition progressedAuthState :: "auth_state \<Rightarrow> auth_payload \<Rightarrow> auth_state option" where
  "progressedAuthState existing payload =
     (if \<not> au_error existing then None
      else Some (existing\<lparr>
        au_name := or_else (ap_name payload) (au_name existing),
        au_seconds := (case ap_seconds payload of None \<Rightarrow> au_seconds existing | Some n \<Rightarrow> n),
        au_class := (case normalizeAuthErrorClass (ap_class payload) of
                       ClassNone \<Rightarrow> au_class existing | c \<Rightarrow> c),
        au_exec := or_else (ap_exec payload) (au_exec existing),
        au_kind := or_else (ap_kind payload) (au_kind existing),
        au_summary := or_else (ap_summary payload) (au_summary existing)\<rparr>))"

section \<open>Cluster state and the wire form\<close>

datatype health = Healthy | DegradedHealth | UnknownHealth

record cluster_state =
  cl_id :: string
  cl_name :: string
  cl_lifecycle :: "lifecycle option"
  cl_auth :: auth_state
  cl_health :: health
  cl_revision :: nat

record wire_auth =
  wa_state :: string
  wa_reason :: string
  wa_seconds :: "nat option"
  wa_class :: string
  wa_exec :: string
  wa_kind :: string
  wa_summary :: string

record wire_cluster =
  wc_name :: string
  wc_lifecycle :: "string option"
  wc_auth :: "wire_auth option"
  wc_health :: string
  wc_revision :: "nat option"

record wire_state =
  wi_selected :: "string list option"
  wi_visible :: "string option"
  wi_clusters :: "(string, wire_cluster option) js_map option"

definition unknown_wire_auth :: wire_auth where
  "unknown_wire_auth =
     \<lparr>wa_state = ''unknown'', wa_reason = [], wa_seconds = None, wa_class = [], wa_exec = [],
      wa_kind = [], wa_summary = []\<rparr>"

definition authStateFromWire :: "wire_auth \<Rightarrow> string \<Rightarrow> auth_state" where
  "authStateFromWire wire clusterName =
     (if wa_state wire \<noteq> ''invalid'' \<and> wa_state wire \<noteq> ''recovering''
      then default_cluster_auth_state\<lparr>au_name := clusterName\<rparr>
      else \<lparr>au_error = True,
            au_reason = or_else (wa_reason wire) ''Authentication failed'',
            au_name = clusterName,
            au_recovering = (wa_state wire = ''recovering''),
            au_seconds = (case wa_seconds wire of None \<Rightarrow> 0 | Some n \<Rightarrow> n),
            au_class = (if wa_state wire = ''invalid'' then ClassAuth else normalizeAuthErrorClass (wa_class wire)),
            au_exec = wa_exec wire, au_kind = wa_kind wire, au_summary = wa_summary wire\<rparr>)"

datatype live_field = LiveLifecycle | LiveAuth | LiveHealth | LiveScope

type_synonym live_fields = "(string, live_field list) js_map"

definition live_in :: "live_fields \<Rightarrow> string \<Rightarrow> live_field \<Rightarrow> bool" where
  "live_in live clusterId field =
     (case map_of live clusterId of None \<Rightarrow> False | Some fs \<Rightarrow> field \<in> set fs)"

definition serviceableStates :: "lifecycle list" where
  "serviceableStates = [Loading, LoadingSlow, Degraded, Ready]"

definition retainLiveClusters ::
    "(string, cluster_state) js_map \<Rightarrow> live_fields \<Rightarrow> (string, cluster_state) js_map" where
  "retainLiveClusters current live =
     fold (\<lambda>(clusterId, cluster) retained.
         if map_of live clusterId \<noteq> None then AList.update clusterId cluster retained else retained)
       current []"

definition resolveWireHealth :: "string \<Rightarrow> cluster_state option \<Rightarrow> bool \<Rightarrow> health" where
  "resolveWireHealth rawHealth previous live =
     (if live then (case previous of None \<Rightarrow> UnknownHealth | Some p \<Rightarrow> cl_health p)
      else if rawHealth = ''healthy'' then Healthy
      else if rawHealth = ''degraded'' then DegradedHealth else UnknownHealth)"

text \<open>The result also carries the parsed lifecycle.\<close>

definition mergeWireCluster ::
    "string \<Rightarrow> wire_cluster \<Rightarrow> cluster_state option \<Rightarrow> live_fields \<Rightarrow> cluster_state \<times> lifecycle option" where
  "mergeWireCluster clusterId raw previous live =
     (let clusterName = or_else (wc_name raw)
            (or_else (case previous of None \<Rightarrow> [] | Some p \<Rightarrow> cl_name p) clusterId);
          parsed = parse_lifecycle (wc_lifecycle raw)
      in (\<lparr>cl_id = clusterId,
           cl_name = clusterName,
           cl_lifecycle = (if live_in live clusterId LiveLifecycle
                           then (case previous of None \<Rightarrow> None | Some p \<Rightarrow> cl_lifecycle p) else parsed),
           cl_auth = (if live_in live clusterId LiveAuth
                      then (case previous of None \<Rightarrow> default_cluster_auth_state | Some p \<Rightarrow> cl_auth p)
                      else authStateFromWire
                             (case wc_auth raw of None \<Rightarrow> unknown_wire_auth | Some a \<Rightarrow> a)
                             (or_else (wc_name raw) clusterId)),
           cl_health = resolveWireHealth (wc_health raw) previous (live_in live clusterId LiveHealth),
           cl_revision = (if live_in live clusterId LiveScope
                          then (case previous of None \<Rightarrow> 0 | Some p \<Rightarrow> cl_revision p)
                          else (case wc_revision raw of None \<Rightarrow> 0 | Some n \<Rightarrow> n))\<rparr>,
          parsed))"

definition shouldEmitHydratedLifecycle ::
    "string \<Rightarrow> lifecycle option \<Rightarrow> cluster_state option \<Rightarrow> live_fields \<Rightarrow> bool" where
  "shouldEmitHydratedLifecycle clusterId parsed previous live \<longleftrightarrow>
     parsed \<noteq> None \<and> \<not> live_in live clusterId LiveLifecycle \<and>
     (case previous of None \<Rightarrow> None | Some p \<Rightarrow> cl_lifecycle p) \<noteq> parsed"

text \<open>The merged clusters, and the lifecycle events put on the event bus.\<close>

definition merge_wire_entry ::
    "(string, cluster_state) js_map \<Rightarrow> live_fields \<Rightarrow> string \<times> wire_cluster option \<Rightarrow>
     (string, cluster_state) js_map \<times> (string \<times> lifecycle) list \<Rightarrow>
     (string, cluster_state) js_map \<times> (string \<times> lifecycle) list" where
  "merge_wire_entry current live entry acc =
     (case (entry, acc) of ((clusterId, raw), (next, emitted)) \<Rightarrow>
        (case raw of
           None \<Rightarrow> (next, emitted)
         | Some wire \<Rightarrow>
             let previous = (case map_of next clusterId of
                               Some p \<Rightarrow> Some p | None \<Rightarrow> map_of current clusterId)
             in case mergeWireCluster clusterId wire previous live of
                  (st, parsed) \<Rightarrow>
                    (AList.update clusterId st next,
                     if shouldEmitHydratedLifecycle clusterId parsed previous live
                     then emitted @ [(clusterId, the parsed)] else emitted)))"

definition mergeWireClusters ::
    "(string, wire_cluster option) js_map option \<Rightarrow> (string, cluster_state) js_map \<Rightarrow> live_fields \<Rightarrow>
     (string, cluster_state) js_map \<times> (string \<times> lifecycle) list" where
  "mergeWireClusters wireClusters current live =
     fold (merge_wire_entry current live) (case wireClusters of None \<Rightarrow> [] | Some cs \<Rightarrow> cs)
       (retainLiveClusters current live, [])"

section \<open>The store\<close>

datatype workspace_event =
    NotifySnapshot
  | NotifyServiceable string
  | NotifyActivation string
  | EmitLifecycle string lifecycle
  | EmitAuthFailed string
  | EmitAuthRecovered string
  | EmitScopeChanged string
  | EmitPermissionsChanged string

text \<open>An open read or command: what its closure captured, its live-field map, and whether that map is
  still registered for updates. A command has no read sequence.\<close>

record open_request =
  op_id :: nat
  op_generation :: nat
  op_authoritative :: nat
  op_sequence :: nat
  op_live :: live_fields
  op_registered :: bool

record workspace =
  wk_selected :: "string list"
  wk_visible :: string
  wk_clusters :: "(string, cluster_state) js_map"
  wk_holds :: "(string, nat) js_map"
  wk_open :: "open_request list"
  wk_holders :: "nat list"
  wk_hold_tokens :: "(nat \<times> string) list"
  wk_generation :: nat
  wk_authoritative :: nat
  wk_next_read :: nat
  wk_applied_read :: nat
  wk_hydration :: "nat option"
  wk_listening :: bool
  wk_next_id :: nat
  wk_events :: "workspace_event list"

definition new_workspace :: workspace where
  "new_workspace =
     \<lparr>wk_selected = [], wk_visible = [], wk_clusters = [], wk_holds = [], wk_open = [], wk_holders = [],
      wk_hold_tokens = [], wk_generation = 0, wk_authoritative = 0, wk_next_read = 0, wk_applied_read = 0,
      wk_hydration = None, wk_listening = False, wk_next_id = 0, wk_events = []\<rparr>"

definition emit :: "workspace \<Rightarrow> workspace_event list \<Rightarrow> workspace" where
  "emit w es = w\<lparr>wk_events := wk_events w @ es\<rparr>"

definition getCluster :: "workspace \<Rightarrow> string \<Rightarrow> cluster_state option" where
  "getCluster w clusterId = map_of (wk_clusters w) clusterId"

definition getAuth :: "workspace \<Rightarrow> string \<Rightarrow> auth_state" where
  "getAuth w clusterId =
     (case getCluster w clusterId of None \<Rightarrow> default_cluster_auth_state | Some c \<Rightarrow> cl_auth c)"

definition getHealth :: "workspace \<Rightarrow> string \<Rightarrow> health" where
  "getHealth w clusterId = (case getCluster w clusterId of None \<Rightarrow> UnknownHealth | Some c \<Rightarrow> cl_health c)"

definition isServiceable :: "workspace \<Rightarrow> string \<Rightarrow> bool" where
  "isServiceable w clusterId \<longleftrightarrow>
     (if clusterId = [] then True
      else case getCluster w clusterId of
             None \<Rightarrow> False
           | Some c \<Rightarrow>
               (case cl_lifecycle c of
                  None \<Rightarrow> False
                | Some l \<Rightarrow> l \<in> set serviceableStates \<and> map_of (wk_holds w) clusterId = None))"

definition publish ::
    "workspace \<Rightarrow> string list \<Rightarrow> string \<Rightarrow> (string, cluster_state) js_map \<Rightarrow> workspace" where
  "publish w selected visible clusters =
     (let waiting = filter (\<lambda>c. \<not> isServiceable w c) (map fst clusters);
          w1 = emit (w\<lparr>wk_selected := selected, wk_visible := visible, wk_clusters := clusters\<rparr>) [NotifySnapshot]
      in emit w1 (map NotifyServiceable (filter (isServiceable w1) waiting)))"

definition mergeWireState :: "workspace \<Rightarrow> wire_state \<Rightarrow> live_fields \<Rightarrow> workspace" where
  "mergeWireState w wire live =
     (case mergeWireClusters (wi_clusters wire) (wk_clusters w) live of
        (clusters, emitted) \<Rightarrow>
          publish (emit w (map (\<lambda>(c, l). EmitLifecycle c l) emitted))
            (case wi_selected wire of None \<Rightarrow> [] | Some s \<Rightarrow> s)
            (case wi_visible wire of None \<Rightarrow> [] | Some v \<Rightarrow> v) clusters)"

text \<open>Reads: begun, resolved with a state (\<open>None\<close> for an empty answer) or failed.\<close>

definition unregister_all :: "workspace \<Rightarrow> workspace" where
  "unregister_all w = w\<lparr>wk_open := map (\<lambda>r. r\<lparr>op_registered := False\<rparr>) (wk_open w)\<rparr>"

definition close_request :: "workspace \<Rightarrow> nat \<Rightarrow> workspace" where
  "close_request w i = w\<lparr>wk_open := filter (\<lambda>r. op_id r \<noteq> i) (wk_open w)\<rparr>"

definition find_request :: "workspace \<Rightarrow> nat \<Rightarrow> open_request option" where
  "find_request w i = find (\<lambda>r. op_id r = i) (wk_open w)"

definition readAndMerge :: "workspace \<Rightarrow> workspace" where
  "readAndMerge w =
     (let sequence = wk_next_read w + 1; i = wk_next_id w
      in w\<lparr>wk_next_read := sequence, wk_next_id := i + 1, wk_hydration := Some i,
           wk_open := wk_open w @ [\<lparr>op_id = i, op_generation = wk_generation w,
             op_authoritative = wk_authoritative w, op_sequence = sequence, op_live = [],
             op_registered = True\<rparr>]\<rparr>)"

definition read_applies :: "workspace \<Rightarrow> open_request \<Rightarrow> bool" where
  "read_applies w r \<longleftrightarrow>
     wk_holders w \<noteq> [] \<and> op_generation r = wk_generation w \<and>
     op_authoritative r = wk_authoritative w \<and> op_sequence r \<ge> wk_applied_read w"

definition read_resolved :: "workspace \<Rightarrow> nat \<Rightarrow> wire_state option \<Rightarrow> workspace" where
  "read_resolved w i wire =
     (case find_request w i of
        None \<Rightarrow> w
      | Some r \<Rightarrow>
          close_request
            (case wire of
               Some state \<Rightarrow>
                 if read_applies w r
                 then mergeWireState (w\<lparr>wk_applied_read := op_sequence r\<rparr>) state (op_live r) else w
             | None \<Rightarrow> w) i)"

definition read_failed :: "workspace \<Rightarrow> nat \<Rightarrow> workspace" where
  "read_failed w i =
     (let w1 = close_request w i
      in if wk_hydration w1 = Some i then w1\<lparr>wk_hydration := None\<rparr> else w1)"

definition hydrate :: "workspace \<Rightarrow> workspace" where
  "hydrate w = (if wk_hydration w \<noteq> None then w else readAndMerge w)"

definition refresh :: "workspace \<Rightarrow> workspace" where
  "refresh w = readAndMerge w"

text \<open>\<open>reconcileCommand\<close>: begun, then resolved with the caller's verdict, or failed.\<close>

definition command_begun :: "workspace \<Rightarrow> workspace" where
  "command_begun w =
     (let i = wk_next_id w
      in w\<lparr>wk_next_id := i + 1,
           wk_open := wk_open w @ [\<lparr>op_id = i, op_generation = wk_generation w, op_authoritative = 0,
             op_sequence = 0, op_live = [], op_registered = True\<rparr>]\<rparr>)"

definition command_resolved :: "workspace \<Rightarrow> nat \<Rightarrow> wire_state \<Rightarrow> bool \<Rightarrow> workspace" where
  "command_resolved w i wire accepted =
     (case find_request w i of
        None \<Rightarrow> w
      | Some r \<Rightarrow>
          close_request
            (if op_generation r = wk_generation w \<and> accepted
             then mergeWireState (w\<lparr>wk_authoritative := wk_authoritative w + 1\<rparr>) wire (op_live r)
             else w) i)"

definition confirmClosedSelection :: "workspace \<Rightarrow> string \<Rightarrow> string \<Rightarrow> workspace" where
  "confirmClosedSelection w selection clusterId =
     publish (w\<lparr>wk_authoritative := wk_authoritative w + 1\<rparr>)
       (filter (\<lambda>v. v \<noteq> selection) (wk_selected w))
       (if wk_visible w = clusterId then [] else wk_visible w) (wk_clusters w)"

definition start_store :: "workspace \<Rightarrow> workspace" where
  "start_store w =
     hydrate (unregister_all (w\<lparr>wk_generation := wk_generation w + 1, wk_listening := True\<rparr>))"

definition stop_store :: "workspace \<Rightarrow> workspace" where
  "stop_store w =
     (unregister_all w)\<lparr>wk_generation := wk_generation w + 1, wk_listening := False, wk_holds := [],
       wk_hydration := None, wk_selected := [], wk_visible := [], wk_clusters := []\<rparr>"

definition acquire :: "workspace \<Rightarrow> workspace" where
  "acquire w =
     (let i = wk_next_id w;
          w1 = w\<lparr>wk_next_id := i + 1, wk_holders := wk_holders w @ [i]\<rparr>
      in if length (wk_holders w1) = 1 then start_store w1 else w1)"

definition release_holder :: "workspace \<Rightarrow> nat \<Rightarrow> workspace" where
  "release_holder w i =
     (if i \<notin> set (wk_holders w) then w
      else let w1 = w\<lparr>wk_holders := remove1 i (wk_holders w)\<rparr>
           in if wk_holders w1 = [] then stop_store w1 else w1)"

section \<open>Updates from backend events\<close>

definition mark_live :: "string \<Rightarrow> live_field \<Rightarrow> live_fields \<Rightarrow> live_fields" where
  "mark_live clusterId field live =
     AList.update clusterId
       (case map_of live clusterId of None \<Rightarrow> [field] | Some fs \<Rightarrow> List.insert field fs) live"

definition default_cluster :: "string \<Rightarrow> cluster_state" where
  "default_cluster clusterId =
     \<lparr>cl_id = clusterId, cl_name = clusterId, cl_lifecycle = None, cl_auth = default_cluster_auth_state,
      cl_health = UnknownHealth, cl_revision = 0\<rparr>"

text \<open>The update returns \<open>None\<close> where the source returns its argument itself.\<close>

definition updateCluster ::
    "workspace \<Rightarrow> string \<Rightarrow> live_field \<Rightarrow> (cluster_state \<Rightarrow> cluster_state option) \<Rightarrow> workspace" where
  "updateCluster w clusterId field update =
     (let w1 = w\<lparr>wk_open := map (\<lambda>r. if op_registered r
                  then r\<lparr>op_live := mark_live clusterId field (op_live r)\<rparr> else r) (wk_open w)\<rparr>;
          current = (case map_of (wk_clusters w1) clusterId of
                       Some c \<Rightarrow> c | None \<Rightarrow> default_cluster clusterId)
      in case update current of
           None \<Rightarrow> w1
         | Some next \<Rightarrow>
             publish w1 (wk_selected w1) (wk_visible w1) (AList.update clusterId next (wk_clusters w1)))"

definition applyLifecycleState :: "workspace \<Rightarrow> string \<Rightarrow> lifecycle \<Rightarrow> workspace" where
  "applyLifecycleState w clusterId lifecycle =
     (if clusterId = [] then w
      else updateCluster w clusterId LiveLifecycle
             (\<lambda>c. if cl_lifecycle c = Some lifecycle then None else Some (c\<lparr>cl_lifecycle := Some lifecycle\<rparr>)))"

definition handleLifecycle :: "workspace \<Rightarrow> string \<Rightarrow> string option \<Rightarrow> workspace" where
  "handleLifecycle w clusterId raw =
     (case parse_lifecycle raw of
        None \<Rightarrow> w
      | Some lifecycle \<Rightarrow>
          if clusterId = [] then w
          else emit (applyLifecycleState w clusterId lifecycle) [EmitLifecycle clusterId lifecycle])"

definition handleAuthFailed :: "workspace \<Rightarrow> auth_payload \<Rightarrow> workspace" where
  "handleAuthFailed w payload =
     (if ap_cluster payload = [] then w
      else emit (updateCluster w (ap_cluster payload) LiveAuth
                   (\<lambda>c. Some (c\<lparr>cl_auth := failedAuthState (Some (cl_auth c)) payload\<rparr>)))
             [EmitAuthFailed (ap_cluster payload)])"

definition handleAuthRecovering :: "workspace \<Rightarrow> auth_payload \<Rightarrow> workspace" where
  "handleAuthRecovering w payload =
     (if ap_cluster payload = [] then w
      else updateCluster w (ap_cluster payload) LiveAuth
             (\<lambda>c. Some (c\<lparr>cl_auth := recoveringAuthState (Some (cl_auth c)) payload\<rparr>)))"

definition handleAuthProgress :: "workspace \<Rightarrow> auth_payload \<Rightarrow> workspace" where
  "handleAuthProgress w payload =
     (if ap_cluster payload = [] then w
      else updateCluster w (ap_cluster payload) LiveAuth
             (\<lambda>c. map_option (\<lambda>auth. c\<lparr>cl_auth := auth\<rparr>) (progressedAuthState (cl_auth c) payload)))"

definition handleAuthRecovered :: "workspace \<Rightarrow> string \<Rightarrow> workspace" where
  "handleAuthRecovered w clusterId =
     (if clusterId = [] then w
      else emit (updateCluster w clusterId LiveAuth
                   (\<lambda>c. Some (c\<lparr>cl_auth := default_cluster_auth_state\<lparr>au_name := cl_name c\<rparr>\<rparr>)))
             [EmitAuthRecovered clusterId])"

definition handleHealth :: "workspace \<Rightarrow> string \<Rightarrow> health \<Rightarrow> workspace" where
  "handleHealth w clusterId health =
     (if clusterId = [] then w
      else updateCluster w clusterId LiveHealth
             (\<lambda>c. if cl_health c = health then None else Some (c\<lparr>cl_health := health\<rparr>)))"

definition handleScopeChanged :: "workspace \<Rightarrow> string \<Rightarrow> workspace" where
  "handleScopeChanged w clusterId =
     (if clusterId = [] then w
      else emit (updateCluster w clusterId LiveScope (\<lambda>c. Some (c\<lparr>cl_revision := cl_revision c + 1\<rparr>)))
             [EmitScopeChanged clusterId])"

definition handle_permissions_changed :: "workspace \<Rightarrow> string \<Rightarrow> workspace" where
  "handle_permissions_changed w clusterId =
     (if trim clusterId = [] then w else emit w [EmitPermissionsChanged clusterId])"

section \<open>Holding requests\<close>

definition beginRequestHold :: "workspace \<Rightarrow> string \<Rightarrow> workspace" where
  "beginRequestHold w clusterId =
     (let normalized = trim clusterId
      in if normalized = [] then w
         else let pending = (case map_of (wk_holds w) normalized of None \<Rightarrow> 0 | Some n \<Rightarrow> n);
                  w1 = w\<lparr>wk_holds := AList.update normalized (pending + 1) (wk_holds w)\<rparr>
              in if pending = 0 then emit w1 [NotifyActivation normalized] else w1)"

definition beginForegroundActivation :: "workspace \<Rightarrow> string \<Rightarrow> workspace" where
  "beginForegroundActivation w clusterId = beginRequestHold w clusterId"

definition endForegroundActivation :: "workspace \<Rightarrow> string \<Rightarrow> workspace" where
  "endForegroundActivation w clusterId =
     (let normalized = trim clusterId
      in if normalized = [] then w
         else let pending = (case map_of (wk_holds w) normalized of None \<Rightarrow> 0 | Some n \<Rightarrow> n)
              in if pending \<le> 1
                 then let w1 = w\<lparr>wk_holds := AList.delete normalized (wk_holds w)\<rparr>
                      in if pending = 1 \<and> isServiceable w1 normalized
                         then emit w1 [NotifyServiceable normalized] else w1
                 else w\<lparr>wk_holds := AList.update normalized (pending - 1) (wk_holds w)\<rparr>)"

text \<open>\<open>holdClusterRequests\<close> returns a release function that works once: a token.\<close>

definition holdClusterRequests :: "workspace \<Rightarrow> string \<Rightarrow> workspace \<times> nat" where
  "holdClusterRequests w clusterId =
     (let i = wk_next_id w; w1 = beginRequestHold w clusterId
      in (w1\<lparr>wk_next_id := i + 1, wk_hold_tokens := wk_hold_tokens w1 @ [(i, clusterId)]\<rparr>, i))"

definition release_hold :: "workspace \<Rightarrow> nat \<Rightarrow> workspace" where
  "release_hold w i =
     (case map_of (wk_hold_tokens w) i of
        None \<Rightarrow> w
      | Some clusterId \<Rightarrow>
          endForegroundActivation
            (w\<lparr>wk_hold_tokens := filter (\<lambda>(j, _). j \<noteq> i) (wk_hold_tokens w)\<rparr>) clusterId)"

end
