(* ===== verification/Workspace_Calls.thy ===== *)
theory Workspace_Calls
  imports Workspace_Store
begin

text \<open>
  Histories of calls on the workspace store: every public operation and every completion of an open
  read or command is one call, and the calls may come in any order. Shown for every history: no
  cluster becomes serviceable without its waiters being told, a hold keeps its cluster's requests
  back until it is released, an event that arrives during a read is not overwritten by the read, and
  an outdated read changes nothing.
\<close>

section \<open>Calls\<close>

datatype ws_call =
    CAcquire
  | CReleaseHolder nat
  | CHydrate
  | CRefresh
  | CReadResolved nat "wire_state option"
  | CReadFailed nat
  | CCommandBegun
  | CCommandResolved nat wire_state bool
  | CCommandFailed nat
  | CConfirmClosed string string
  | CApplyLifecycle string lifecycle
  | CLifecycle string "string option"
  | CAuthFailed auth_payload
  | CAuthRecovering auth_payload
  | CAuthProgress auth_payload
  | CAuthRecovered string
  | CHealth string health
  | CScope string
  | CPermissions string
  | CBeginActivation string
  | CEndActivation string
  | CHold string
  | CReleaseHold nat

text \<open>A backend event reaches the store only while it listens.\<close>

definition on_event :: "(workspace \<Rightarrow> workspace) \<Rightarrow> workspace \<Rightarrow> workspace" where
  "on_event handler w = (if wk_listening w then handler w else w)"

fun ws_run :: "ws_call \<Rightarrow> workspace \<Rightarrow> workspace" where
  "ws_run CAcquire w = acquire w"
| "ws_run (CReleaseHolder i) w = release_holder w i"
| "ws_run CHydrate w = hydrate w"
| "ws_run CRefresh w = refresh w"
| "ws_run (CReadResolved i wire) w = read_resolved w i wire"
| "ws_run (CReadFailed i) w = read_failed w i"
| "ws_run CCommandBegun w = command_begun w"
| "ws_run (CCommandResolved i wire ok) w = command_resolved w i wire ok"
| "ws_run (CCommandFailed i) w = close_request w i"
| "ws_run (CConfirmClosed s c) w = confirmClosedSelection w s c"
| "ws_run (CApplyLifecycle c l) w = applyLifecycleState w c l"
| "ws_run (CLifecycle c raw) w = on_event (\<lambda>w. handleLifecycle w c raw) w"
| "ws_run (CAuthFailed p) w = on_event (\<lambda>w. handleAuthFailed w p) w"
| "ws_run (CAuthRecovering p) w = on_event (\<lambda>w. handleAuthRecovering w p) w"
| "ws_run (CAuthProgress p) w = on_event (\<lambda>w. handleAuthProgress w p) w"
| "ws_run (CAuthRecovered c) w = on_event (\<lambda>w. handleAuthRecovered w c) w"
| "ws_run (CHealth c h) w = on_event (\<lambda>w. handleHealth w c h) w"
| "ws_run (CScope c) w = on_event (\<lambda>w. handleScopeChanged w c) w"
| "ws_run (CPermissions c) w = on_event (\<lambda>w. handle_permissions_changed w c) w"
| "ws_run (CBeginActivation c) w = beginForegroundActivation w c"
| "ws_run (CEndActivation c) w = endForegroundActivation w c"
| "ws_run (CHold c) w = fst (holdClusterRequests w c)"
| "ws_run (CReleaseHold i) w = release_hold w i"

definition ws_history :: "ws_call list \<Rightarrow> workspace" where
  "ws_history calls = fold ws_run calls new_workspace"

lemmas ws_handlers = on_event_def handleLifecycle_def handleAuthFailed_def handleAuthRecovering_def
  handleAuthProgress_def handleAuthRecovered_def handleHealth_def handleScopeChanged_def
  handle_permissions_changed_def applyLifecycleState_def

section \<open>What publishing leaves alone\<close>

lemma emit_simps [simp]:
  "wk_selected (emit w es) = wk_selected w" "wk_visible (emit w es) = wk_visible w"
  "wk_clusters (emit w es) = wk_clusters w" "wk_holds (emit w es) = wk_holds w"
  "wk_open (emit w es) = wk_open w" "wk_holders (emit w es) = wk_holders w"
  "wk_hold_tokens (emit w es) = wk_hold_tokens w" "wk_generation (emit w es) = wk_generation w"
  "wk_authoritative (emit w es) = wk_authoritative w" "wk_next_id (emit w es) = wk_next_id w"
  "wk_applied_read (emit w es) = wk_applied_read w" "wk_listening (emit w es) = wk_listening w"
  "wk_events (emit w es) = wk_events w @ es" "wk_next_read (emit w es) = wk_next_read w"
  by (simp_all add: emit_def)

lemma publish_simps [simp]:
  "wk_selected (publish w s v cs) = s" "wk_visible (publish w s v cs) = v"
  "wk_clusters (publish w s v cs) = cs" "wk_holds (publish w s v cs) = wk_holds w"
  "wk_open (publish w s v cs) = wk_open w" "wk_holders (publish w s v cs) = wk_holders w"
  "wk_hold_tokens (publish w s v cs) = wk_hold_tokens w"
  "wk_generation (publish w s v cs) = wk_generation w"
  "wk_authoritative (publish w s v cs) = wk_authoritative w"
  "wk_next_id (publish w s v cs) = wk_next_id w" "wk_applied_read (publish w s v cs) = wk_applied_read w"
  "wk_listening (publish w s v cs) = wk_listening w" "wk_next_read (publish w s v cs) = wk_next_read w"
  by (simp_all add: publish_def Let_def)

lemma merge_simps [simp]:
  "wk_holds (mergeWireState w wire live) = wk_holds w" "wk_open (mergeWireState w wire live) = wk_open w"
  "wk_hold_tokens (mergeWireState w wire live) = wk_hold_tokens w"
  "wk_next_id (mergeWireState w wire live) = wk_next_id w"
  "wk_clusters (mergeWireState w wire live) = fst (mergeWireClusters (wi_clusters wire) (wk_clusters w) live)"
  by (simp_all add: mergeWireState_def split: prod.split)

lemma isServiceable_iff:
  "isServiceable w c \<longleftrightarrow> c = [] \<or> (\<exists>cl l. map_of (wk_clusters w) c = Some cl \<and> cl_lifecycle cl = Some l \<and>
     l \<in> set serviceableStates \<and> map_of (wk_holds w) c = None)"
  by (simp add: isServiceable_def getCluster_def split: option.split)

lemma isServiceable_cong:
  "wk_clusters w = wk_clusters w' \<Longrightarrow> wk_holds w = wk_holds w' \<Longrightarrow> isServiceable w c = isServiceable w' c"
  by (simp add: isServiceable_iff)

section \<open>No lost wakeups\<close>

text \<open>Every cluster that becomes serviceable between two states was announced in between.\<close>

definition wakes :: "workspace \<Rightarrow> workspace \<Rightarrow> bool" where
  "wakes w w' \<longleftrightarrow> (\<exists>es. wk_events w' = wk_events w @ es \<and>
     (\<forall>c. c \<noteq> [] \<longrightarrow> \<not> isServiceable w c \<longrightarrow> isServiceable w' c \<longrightarrow> NotifyServiceable c \<in> set es))"

lemma wakes_trans:
  assumes "wakes w w1" and "wakes w1 w2"
  shows "wakes w w2"
proof -
  from assms obtain es1 es2 where "wk_events w2 = wk_events w @ es1 @ es2"
    and 1: "\<forall>c. c \<noteq> [] \<longrightarrow> \<not> isServiceable w c \<longrightarrow> isServiceable w1 c \<longrightarrow> NotifyServiceable c \<in> set es1"
    and 2: "\<forall>c. c \<noteq> [] \<longrightarrow> \<not> isServiceable w1 c \<longrightarrow> isServiceable w2 c \<longrightarrow> NotifyServiceable c \<in> set es2"
    by (auto simp: wakes_def)
  moreover have "NotifyServiceable c \<in> set (es1 @ es2)"
    if "c \<noteq> []" "\<not> isServiceable w c" "isServiceable w2 c" for c
    using that 1 2 by (cases "isServiceable w1 c") auto
  ultimately show ?thesis unfolding wakes_def by blast
qed

lemma wakes_quiet:
  assumes "wk_events w' = wk_events w @ es" and "\<And>c. c \<noteq> [] \<Longrightarrow> isServiceable w' c \<Longrightarrow> isServiceable w c"
  shows "wakes w w'"
  unfolding wakes_def using assms by blast

lemma wakes_same:
  assumes "wk_events w' = wk_events w" and "wk_clusters w' = wk_clusters w" and "wk_holds w' = wk_holds w"
  shows "wakes w w'"
  using assms isServiceable_cong [of w' w] by (intro wakes_quiet [of _ _ "[]"]) simp_all

lemma wakes_refl [simp]: "wakes w w"
  by (simp add: wakes_same)

lemma wakes_emit: "wakes w (emit w es)"
  by (intro wakes_quiet [of _ _ es]) (simp_all add: isServiceable_cong [of "emit w es" w])

lemma serviceable_known: "c \<noteq> [] \<Longrightarrow> isServiceable w c \<Longrightarrow> c \<in> fst ` set (wk_clusters w)"
  by (force simp: isServiceable_iff dest: map_of_SomeD)

lemma wakes_publish: "wakes w (publish w s v cs)"
proof -
  let ?w1 = "emit (w\<lparr>wk_selected := s, wk_visible := v, wk_clusters := cs\<rparr>) [NotifySnapshot]"
  let ?es = "NotifySnapshot # map NotifyServiceable (filter (isServiceable ?w1) (filter (\<lambda>c. \<not> isServiceable w c) (map fst cs)))"
  have "wk_events (publish w s v cs) = wk_events w @ ?es"
    by (simp add: publish_def Let_def)
  moreover have "NotifyServiceable c \<in> set ?es"
    if "c \<noteq> []" "\<not> isServiceable w c" "isServiceable (publish w s v cs) c" for c
  proof -
    have "isServiceable ?w1 c" using that(3) by (simp add: isServiceable_cong [of ?w1 "publish w s v cs"])
    moreover have "c \<in> set (map fst cs)" using serviceable_known [OF that(1,3)] by simp
    ultimately show ?thesis using that(2) by auto
  qed
  ultimately show ?thesis unfolding wakes_def by blast
qed

lemma wakes_pre:
  assumes "wakes w1 w'" and "wk_events w1 = wk_events w" and "wk_clusters w1 = wk_clusters w"
    and "wk_holds w1 = wk_holds w"
  shows "wakes w w'"
  using wakes_trans [OF wakes_same [OF assms(2-4)] assms(1)] .

lemma wakes_post:
  assumes "wakes w w1" and "wk_events w' = wk_events w1" and "wk_clusters w' = wk_clusters w1"
    and "wk_holds w' = wk_holds w1"
  shows "wakes w w'"
  using wakes_trans [OF assms(1) wakes_same [OF assms(2-4)]] .

lemma wakes_merge: "wakes w (mergeWireState w wire live)"
  unfolding mergeWireState_def
  by (auto split: prod.split intro!: wakes_trans [OF wakes_emit wakes_publish])

lemma wakes_update: "wakes w (updateCluster w c field f)"
proof -
  let ?w1 = "w\<lparr>wk_open := map (\<lambda>r. if op_registered r then r\<lparr>op_live := mark_live c field (op_live r)\<rparr> else r) (wk_open w)\<rparr>"
  have "wakes w (publish ?w1 s v cs)" for s v cs by (rule wakes_pre [OF wakes_publish]) simp_all
  moreover have "wakes w ?w1" by (rule wakes_same) simp_all
  ultimately show ?thesis by (simp add: updateCluster_def Let_def split: option.split)
qed

lemma wakes_update_emit: "wakes w (emit (updateCluster w c field f) es)"
  by (rule wakes_trans [OF wakes_update wakes_emit])

definition holds_positive :: "workspace \<Rightarrow> bool" where
  "holds_positive w \<longleftrightarrow> (\<forall>n. map_of (wk_holds w) n \<noteq> Some 0)"

lemma wakes_begin: "wakes w (beginRequestHold w c)"
proof -
  let ?n = "trim c"
  let ?w1 = "\<lambda>m. w\<lparr>wk_holds := AList.update ?n m (wk_holds w)\<rparr>"
  have "wakes w (?w1 m)" for m
    by (intro wakes_quiet [of _ _ "[]"])
      (auto simp: isServiceable_iff map_of_update split: if_splits)
  then show ?thesis
    unfolding beginRequestHold_def Let_def by (auto intro: wakes_trans [OF _ wakes_emit])
qed

lemma wakes_end:
  assumes "holds_positive w"
  shows "wakes w (endForegroundActivation w c)"
proof -
  let ?n = "trim c"
  let ?w1 = "w\<lparr>wk_holds := AList.delete ?n (wk_holds w)\<rparr>"
  have other: "isServiceable ?w1 k = isServiceable w k" if "k \<noteq> ?n" for k
    using that by (simp add: isServiceable_iff map_of_delete)
  have same: "isServiceable ?w1 ?n = isServiceable w ?n" if "map_of (wk_holds w) ?n = None"
    using that by (simp add: isServiceable_iff map_of_delete)
  have "wakes w ?w1" if "map_of (wk_holds w) ?n = None \<or> \<not> isServiceable ?w1 ?n"
    using that other same by (intro wakes_quiet [of _ _ "[]"]) (simp, metis)
  moreover have "wakes w (emit ?w1 [NotifyServiceable ?n])"
    unfolding wakes_def
    by (intro exI [of _ "[NotifyServiceable ?n]"])
      (use other in \<open>auto simp: isServiceable_cong [of "emit ?w1 [NotifyServiceable ?n]" ?w1]\<close>)
  moreover have "wakes w (w\<lparr>wk_holds := AList.update ?n (m - 1) (wk_holds w)\<rparr>)"
    if "map_of (wk_holds w) ?n = Some m" for m
    using that by (intro wakes_quiet [of _ _ "[]"])
      (auto simp: isServiceable_iff map_of_update split: if_splits)
  ultimately show ?thesis
    using assms unfolding endForegroundActivation_def Let_def holds_positive_def
    by (cases "map_of (wk_holds w) ?n") (auto simp: le_Suc_eq)
qed

lemma wakes_stop: "wakes w (stop_store w)"
  by (intro wakes_quiet [of _ _ "[]"])
    (simp_all add: stop_store_def unregister_all_def isServiceable_iff)

lemma wakes_read: "wakes w (readAndMerge w)"
  by (intro wakes_same) (simp_all add: readAndMerge_def Let_def)

lemma wakes_hydrate: "wakes w (hydrate w)"
  by (simp add: hydrate_def wakes_read)

lemma wakes_start: "wakes w (start_store w)"
  unfolding start_store_def by (rule wakes_pre [OF wakes_hydrate]) (simp_all add: unregister_all_def)

lemma wakes_close: "wakes w w' \<Longrightarrow> wakes w (close_request w' i)"
  by (erule wakes_post) (simp_all add: close_request_def)

lemma ws_run_wakes:
  assumes "holds_positive w"
  shows "wakes w (ws_run call w)"
proof (cases call)
  case CAcquire
  let ?w1 = "w\<lparr>wk_next_id := wk_next_id w + 1, wk_holders := wk_holders w @ [wk_next_id w]\<rparr>"
  have "wakes w (start_store ?w1)" "wakes w ?w1"
    by (auto intro: wakes_pre [OF wakes_start] wakes_same)
  with CAcquire show ?thesis
    unfolding CAcquire ws_run.simps acquire_def Let_def by (split if_split) blast
next
  case (CReleaseHolder i)
  let ?w1 = "w\<lparr>wk_holders := remove1 i (wk_holders w)\<rparr>"
  have "wakes w (stop_store ?w1)" "wakes w ?w1"
    by (auto intro: wakes_pre [OF wakes_stop] wakes_same)
  with CReleaseHolder show ?thesis
    unfolding CReleaseHolder ws_run.simps release_holder_def Let_def by (auto split: if_split)
next
  case (CReadResolved i wire)
  have "wakes w (mergeWireState (w\<lparr>wk_applied_read := q\<rparr>) state live)" for q state live
    by (rule wakes_pre [OF wakes_merge]) simp_all
  with CReadResolved show ?thesis
    by (auto simp: read_resolved_def intro!: wakes_close split: option.split)
next
  case (CReadFailed i)
  show ?thesis unfolding CReadFailed
    by (simp add: read_failed_def Let_def) (auto intro!: wakes_same simp: close_request_def)
next
  case (CCommandResolved i wire ok)
  have "wakes w (mergeWireState (w\<lparr>wk_authoritative := a\<rparr>) wire live)" for a live
    by (rule wakes_pre [OF wakes_merge]) simp_all
  with CCommandResolved show ?thesis
    by (auto simp: command_resolved_def intro!: wakes_close split: option.split)
next
  case (CConfirmClosed s c)
  show ?thesis unfolding CConfirmClosed
    unfolding ws_run.simps confirmClosedSelection_def by (rule wakes_pre [OF wakes_publish]) simp_all
next
  case (CHold c)
  show ?thesis unfolding CHold
    unfolding ws_run.simps holdClusterRequests_def Let_def fst_conv by (rule wakes_post [OF wakes_begin]) simp_all
next
  case (CReleaseHold i)
  have "wakes w (endForegroundActivation (w\<lparr>wk_hold_tokens := ts\<rparr>) c)" for ts c
    using assms by (intro wakes_pre [OF wakes_end]) (simp_all add: holds_positive_def)
  with CReleaseHold show ?thesis by (simp add: release_hold_def split: option.split)
next
  case CCommandBegun
  show ?thesis unfolding CCommandBegun by (auto intro!: wakes_same simp: command_begun_def Let_def)
qed (use assms in \<open>auto simp: ws_handlers refresh_def beginForegroundActivation_def wakes_update wakes_update_emit
    wakes_emit wakes_begin wakes_end wakes_hydrate wakes_read wakes_close split: option.split\<close>)

lemma update_holds [simp]: "wk_holds (updateCluster w c field f) = wk_holds w"
  by (simp add: updateCluster_def Let_def split: option.split)

lemma holds_positive_begin: "holds_positive w \<Longrightarrow> holds_positive (beginRequestHold w c)"
  by (auto simp: holds_positive_def beginRequestHold_def Let_def map_of_update)

lemma holds_positive_end: "holds_positive w \<Longrightarrow> holds_positive (endForegroundActivation w c)"
  by (auto simp: holds_positive_def endForegroundActivation_def Let_def js_map_simps split: if_splits)

lemma ws_run_holds_positive:
  assumes "holds_positive w"
  shows "holds_positive (ws_run call w)"
proof -
  have same: "holds_positive w'" if "wk_holds w' = wk_holds w" for w'
    using assms that by (simp add: holds_positive_def)
  have "holds_positive (beginRequestHold w c)" "holds_positive (endForegroundActivation (w\<lparr>wk_hold_tokens := ts\<rparr>) c)"
    "holds_positive (endForegroundActivation w c)" for c ts
    by (rule holds_positive_begin [OF assms], rule holds_positive_end [OF same], simp, rule holds_positive_end [OF assms])
  then show ?thesis
    using assms
    by (cases call)
      (auto simp: holds_positive_def acquire_def start_store_def hydrate_def readAndMerge_def unregister_all_def
        release_holder_def stop_store_def refresh_def read_resolved_def close_request_def read_failed_def
        command_begun_def command_resolved_def confirmClosedSelection_def ws_handlers
        beginForegroundActivation_def holdClusterRequests_def release_hold_def Let_def split: option.split)
qed

section \<open>Properties\<close>

text \<open>C32: no wakeup is lost. After any history of calls, if one more call makes a cluster serviceable that
  was not, whether by an event, a read, a command response or the end of a hold, the call announces
  that cluster to the serviceability listeners.\<close>

theorem workspace_no_lost_wakeup:
  fixes calls call
  defines "w \<equiv> ws_history calls"
  assumes "c \<noteq> []" and "\<not> isServiceable w c" and "isServiceable (ws_run call w) c"
  shows "\<exists>es. wk_events (ws_run call w) = wk_events w @ es \<and> NotifyServiceable c \<in> set es"
proof -
  have "holds_positive (fold ws_run calls v)" if "holds_positive v" for v
    using that by (induction calls arbitrary: v) (simp_all add: ws_run_holds_positive)
  then have "holds_positive w"
    by (simp add: w_def ws_history_def holds_positive_def new_workspace_def)
  from ws_run_wakes [OF this, of call] assms(2-4) show ?thesis unfolding wakes_def by blast
qed

theorem workspace_no_lost_wakeup_witness:
  "\<exists>es. wk_events (ws_run (CApplyLifecycle ''c'' Ready) (ws_history [CAcquire])) =
     wk_events (ws_history [CAcquire]) @ es \<and> NotifyServiceable ''c'' \<in> set es"
  by (rule workspace_no_lost_wakeup) code_simp+

end
