(* ===== verification/Workspace_Reads.thy ===== *)
theory Workspace_Reads
  imports Workspace_Calls
begin

text \<open>
  Overlapping reads, events and holds of the workspace store: what a merged answer may overwrite, which
  answers are dropped, and how long a hold lasts.
\<close>

section \<open>Merging an answer\<close>

lemma retain_lookup:
  assumes "distinct (map fst current)"
  shows "map_of (retainLiveClusters current live) c =
    (if map_of live c \<noteq> None then map_of current c else None)"
proof -
  have "map_of (fold (\<lambda>(clusterId, cluster) retained.
         if map_of live clusterId \<noteq> None then AList.update clusterId cluster retained else retained) cs acc) c =
      (if map_of live c \<noteq> None \<and> c \<in> fst ` set cs then map_of cs c else map_of acc c)"
    if "distinct (map fst cs)" for cs acc
    using that
  proof (induction cs arbitrary: acc)
    case (Cons kv cs)
    then show ?case by (cases kv) (auto simp: map_of_update)
  qed simp
  from this [OF assms, of "[]"] have "map_of (retainLiveClusters current live) c =
      (if map_of live c \<noteq> None \<and> c \<in> fst ` set current then map_of current c else None)"
    by (simp only: retainLiveClusters_def) simp
  moreover have "map_of current c = None" if "c \<notin> fst ` set current" using that by (simp add: map_of_eq_None_iff)
  ultimately show ?thesis by auto
qed

text \<open>The merged state of one cluster: the wire entry over the current state, or the retained state.\<close>

definition merged_cluster ::
    "(string, wire_cluster option) js_map \<Rightarrow> (string, cluster_state) js_map \<Rightarrow> live_fields \<Rightarrow> string \<Rightarrow>
     cluster_state option" where
  "merged_cluster wire current live c =
     (case map_of wire c of
        Some (Some raw) \<Rightarrow> Some (fst (mergeWireCluster c raw (map_of current c) live))
      | _ \<Rightarrow> if map_of live c \<noteq> None then map_of current c else None)"

lemma merge_fold_lookup:
  assumes "distinct (map fst wire)" and "\<And>k. k \<in> fst ` set wire \<Longrightarrow> map_of next k = map_of current k \<or> map_of next k = None"
  shows "map_of (fst (fold (merge_wire_entry current live) wire (next, emitted))) c =
    (case map_of wire c of
       Some (Some raw) \<Rightarrow> Some (fst (mergeWireCluster c raw (map_of current c) live))
     | _ \<Rightarrow> map_of next c)"
  using assms
proof (induction wire arbitrary: "next" emitted)
  case (Cons entry wire)
  obtain k raw where entry: "entry = (k, raw)" by fastforce
  have k: "map_of next k = map_of current k \<or> map_of next k = None"
    and rest: "\<And>k'. k' \<in> fst ` set wire \<Longrightarrow> k' \<noteq> k" "\<And>k'. k' \<in> fst ` set wire \<Longrightarrow> map_of next k' = map_of current k' \<or> map_of next k' = None"
    using Cons.prems entry by auto
  show ?case
  proof (cases raw)
    case None
    then have "map_of wire k = None" using Cons.prems(1) entry by (simp add: map_of_eq_None_iff)
    with Cons.IH [of "next" emitted] Cons.prems rest entry None show ?thesis
      by (auto simp: merge_wire_entry_def)
  next
    case (Some w)
    let ?prev = "case map_of next k of Some p \<Rightarrow> Some p | None \<Rightarrow> map_of current k"
    have prev: "?prev = map_of current k" using k by (auto split: option.split)
    let ?next = "AList.update k (fst (mergeWireCluster k w (map_of current k) live)) next"
    obtain em where step: "merge_wire_entry current live entry (next, emitted) = (?next, em)"
      using entry Some prev by (cases "mergeWireCluster k w (map_of current k) live")
        (auto simp: merge_wire_entry_def Let_def)
    have "map_of wire k = None" using Cons.prems(1) entry by (simp add: map_of_eq_None_iff)
    moreover have "map_of (fst (fold (merge_wire_entry current live) wire (?next, em))) c =
      (case map_of wire c of
         Some (Some raw) \<Rightarrow> Some (fst (mergeWireCluster c raw (map_of current c) live))
       | _ \<Rightarrow> map_of ?next c)"
      using Cons.prems(1) entry rest by (intro Cons.IH) (auto simp: map_of_update)
    ultimately show ?thesis using step entry Some by (auto simp: map_of_update split: option.split)
  qed
qed simp

lemma merge_lookup:
  assumes "distinct (map fst current)" and "distinct (map fst (case wcs of None \<Rightarrow> [] | Some w \<Rightarrow> w))"
  shows "map_of (fst (mergeWireClusters wcs current live)) c =
    merged_cluster (case wcs of None \<Rightarrow> [] | Some w \<Rightarrow> w) current live c"
proof -
  let ?wire = "case wcs of None \<Rightarrow> [] | Some w \<Rightarrow> w"
  have "map_of (fst (fold (merge_wire_entry current live) ?wire (retainLiveClusters current live, []))) c =
      (case map_of ?wire c of
         Some (Some raw) \<Rightarrow> Some (fst (mergeWireCluster c raw (map_of current c) live))
       | _ \<Rightarrow> map_of (retainLiveClusters current live) c)"
    by (rule merge_fold_lookup [OF assms(2)]) (simp add: retain_lookup [OF assms(1)])
  then show ?thesis
    unfolding mergeWireClusters_def merged_cluster_def retain_lookup [OF assms(1)] .
qed

section \<open>Fields\<close>

definition lifecycle_of :: "workspace \<Rightarrow> string \<Rightarrow> lifecycle option" where
  "lifecycle_of w c = (case getCluster w c of None \<Rightarrow> None | Some cl \<Rightarrow> cl_lifecycle cl)"

definition revision_of :: "workspace \<Rightarrow> string \<Rightarrow> nat" where
  "revision_of w c = (case getCluster w c of None \<Rightarrow> 0 | Some cl \<Rightarrow> cl_revision cl)"

text \<open>Two states agree on a field of a cluster.\<close>

fun same_field :: "live_field \<Rightarrow> string \<Rightarrow> workspace \<Rightarrow> workspace \<Rightarrow> bool" where
  "same_field LiveLifecycle c w w' = (lifecycle_of w c = lifecycle_of w' c)"
| "same_field LiveAuth c w w' = (getAuth w c = getAuth w' c)"
| "same_field LiveHealth c w w' = (getHealth w c = getHealth w' c)"
| "same_field LiveScope c w w' = (revision_of w c = revision_of w' c)"

lemma merge_keeps_live:
  assumes "distinct (map fst (wk_clusters w))" and "live_in live c field"
    and "distinct (map fst (case wi_clusters wire of None \<Rightarrow> [] | Some cs \<Rightarrow> cs))"
  shows "same_field field c (mergeWireState w wire live) w"
proof -
  let ?m = "merged_cluster (case wi_clusters wire of None \<Rightarrow> [] | Some cs \<Rightarrow> cs) (wk_clusters w) live c"
  have look: "getCluster (mergeWireState w wire live) c = ?m"
    using merge_lookup [OF assms(1,3)] by (simp add: getCluster_def)
  have cur: "map_of (wk_clusters w) c = getCluster w c" by (simp add: getCluster_def)
  have "map_of live c \<noteq> None" using assms(2) by (auto simp: live_in_def split: option.splits)
  then show ?thesis
    using assms(2)
    by (cases field)
      (auto simp: lifecycle_of_def getAuth_def getHealth_def revision_of_def look merged_cluster_def cur
        mergeWireCluster_def resolveWireHealth_def Let_def split: option.split)
qed

section \<open>Events during a read\<close>

text \<open>The field of a cluster that an event call updates.\<close>

fun touches :: "ws_call \<Rightarrow> (string \<times> live_field) option" where
  "touches (CApplyLifecycle c l) = (if c = [] then None else Some (c, LiveLifecycle))"
| "touches (CLifecycle c raw) = (if c = [] \<or> parse_lifecycle raw = None then None else Some (c, LiveLifecycle))"
| "touches (CAuthFailed p) = (if ap_cluster p = [] then None else Some (ap_cluster p, LiveAuth))"
| "touches (CAuthRecovering p) = (if ap_cluster p = [] then None else Some (ap_cluster p, LiveAuth))"
| "touches (CAuthProgress p) = (if ap_cluster p = [] then None else Some (ap_cluster p, LiveAuth))"
| "touches (CAuthRecovered c) = (if c = [] then None else Some (c, LiveAuth))"
| "touches (CHealth c h) = (if c = [] then None else Some (c, LiveHealth))"
| "touches (CScope c) = (if c = [] then None else Some (c, LiveScope))"
| "touches _ = None"

lemma mark_live_in [simp]:
  "live_in (mark_live c f live) c' f' \<longleftrightarrow> (c' = c \<and> f' = f) \<or> live_in live c' f'"
  by (auto simp: live_in_def mark_live_def map_of_update split: option.split)

text \<open>What survives an event: the clusters' keys stay distinct, the identities and the counters the read
  is checked against stay, and the event's field is marked on every registered request.\<close>

definition quiet_event :: "(string \<times> live_field) option \<Rightarrow> workspace \<Rightarrow> workspace \<Rightarrow> bool" where
  "quiet_event t w w' \<longleftrightarrow>
     (distinct (map fst (wk_clusters w)) \<longrightarrow> distinct (map fst (wk_clusters w'))) \<and>
     wk_holders w' = wk_holders w \<and> wk_generation w' = wk_generation w \<and>
     wk_authoritative w' = wk_authoritative w \<and> wk_applied_read w' = wk_applied_read w \<and>
     wk_listening w' = wk_listening w \<and>
     wk_open w' = map (\<lambda>r. case t of
         Some (c, f) \<Rightarrow> if op_registered r then r\<lparr>op_live := mark_live c f (op_live r)\<rparr> else r
       | None \<Rightarrow> r) (wk_open w)"

lemma update_quiet: "quiet_event (Some (c, f)) w (updateCluster w c f u)"
  by (auto simp: quiet_event_def updateCluster_def Let_def intro: distinct_update split: option.split)

lemma quiet_emit: "quiet_event t w w' \<Longrightarrow> quiet_event t w (emit w' es)"
  by (simp add: quiet_event_def)

lemma quiet_refl: "quiet_event None w w"
  by (simp add: quiet_event_def)

lemma event_quiet:
  assumes "touches call \<noteq> None" and "wk_listening w"
  shows "quiet_event (touches call) w (ws_run call w)"
  using assms
  by (cases call)
    (auto simp: ws_handlers update_quiet quiet_emit split: if_splits option.splits)

lemma update_open_find:
  assumes "\<And>r. op_id (g r) = op_id r"
  shows "find (\<lambda>r. op_id r = i) (map g rs) = map_option g (find (\<lambda>r. op_id r = i) rs)"
  using assms by (induction rs) auto

lemma events_mark_request:
  assumes "\<forall>call \<in> set calls. touches call \<noteq> None" and "wk_listening w"
    and "find_request w i = Some r" and "op_registered r"
  shows "\<exists>r'. find_request (fold ws_run calls w) i = Some r' \<and>
    op_generation r' = op_generation r \<and> op_authoritative r' = op_authoritative r \<and> op_sequence r' = op_sequence r \<and>
    (\<forall>c f. (Some (c, f) \<in> touches ` set calls \<or> live_in (op_live r) c f) \<longrightarrow> live_in (op_live r') c f) \<and>
    quiet_event None (w\<lparr>wk_open := []\<rparr>) ((fold ws_run calls w)\<lparr>wk_open := []\<rparr>)"
  using assms
proof (induction calls arbitrary: w r)
  case Nil
  then show ?case by (auto simp: quiet_event_def)
next
  case (Cons call calls)
  let ?w = "ws_run call w"
  obtain c f where t: "touches call = Some (c, f)" using Cons.prems(1) by auto
  have q: "quiet_event (Some (c, f)) w ?w"
    using event_quiet [of call w] Cons.prems t by simp
  let ?r = "r\<lparr>op_live := mark_live c f (op_live r)\<rparr>"
  have "find_request ?w i = Some ?r"
    using q Cons.prems(3,4) update_open_find [of "\<lambda>r. if op_registered r then r\<lparr>op_live := mark_live c f (op_live r)\<rparr> else r" i "wk_open w"]
    by (simp add: quiet_event_def find_request_def)
  moreover have "wk_listening ?w" using q Cons.prems(2) by (simp add: quiet_event_def)
  ultimately obtain r' where r': "find_request (fold ws_run calls ?w) i = Some r'"
      "op_generation r' = op_generation ?r" "op_authoritative r' = op_authoritative ?r" "op_sequence r' = op_sequence ?r"
      "\<forall>c' f'. (Some (c', f') \<in> touches ` set calls \<or> live_in (op_live ?r) c' f') \<longrightarrow> live_in (op_live r') c' f'"
      "quiet_event None (?w\<lparr>wk_open := []\<rparr>) ((fold ws_run calls ?w)\<lparr>wk_open := []\<rparr>)"
    using Cons.IH [of ?w ?r] Cons.prems(1,4) by auto
  moreover have "quiet_event None (w\<lparr>wk_open := []\<rparr>) ((fold ws_run calls ?w)\<lparr>wk_open := []\<rparr>)"
    using q r'(6) by (simp add: quiet_event_def)
  ultimately show ?case using t by (intro exI [of _ r']) auto
qed

section \<open>Distinct clusters and request identities\<close>

text \<open>What every call does to the list of open requests: it keeps a request with what its closure
  captured, drops it, or opens one under a fresh identity.\<close>

definition keeps_requests :: "workspace \<Rightarrow> workspace \<Rightarrow> bool" where
  "keeps_requests w w' \<longleftrightarrow> wk_next_id w \<le> wk_next_id w' \<and>
     (\<forall>r' \<in> set (wk_open w'). (\<exists>r \<in> set (wk_open w). op_id r = op_id r' \<and> op_generation r = op_generation r' \<and>
        op_authoritative r = op_authoritative r' \<and> op_sequence r = op_sequence r') \<or>
      wk_next_id w \<le> op_id r' \<and> op_id r' < wk_next_id w')"

lemma keeps_requests_same:
  assumes "wk_next_id w \<le> wk_next_id w'" and "set (wk_open w') \<subseteq> set (wk_open w)"
  shows "keeps_requests w w'"
  using assms unfolding keeps_requests_def by blast

lemma keeps_requests_trans:
  assumes "keeps_requests w w1" and "keeps_requests w1 w2"
  shows "keeps_requests w w2"
proof -
  have "(\<exists>r \<in> set (wk_open w). op_id r = op_id r' \<and> op_generation r = op_generation r' \<and>
        op_authoritative r = op_authoritative r' \<and> op_sequence r = op_sequence r') \<or>
      wk_next_id w \<le> op_id r' \<and> op_id r' < wk_next_id w2" if "r' \<in> set (wk_open w2)" for r'
  proof -
    have le: "wk_next_id w \<le> wk_next_id w1" "wk_next_id w1 \<le> wk_next_id w2"
      using assms by (simp_all add: keeps_requests_def)
    from assms(2) that consider
      (old) r1 where "r1 \<in> set (wk_open w1)" "op_id r1 = op_id r'" "op_generation r1 = op_generation r'"
        "op_authoritative r1 = op_authoritative r'" "op_sequence r1 = op_sequence r'"
      | (new) "wk_next_id w1 \<le> op_id r'" "op_id r' < wk_next_id w2"
      unfolding keeps_requests_def by blast
    then show ?thesis
    proof cases
      case old
      with assms(1) le show ?thesis unfolding keeps_requests_def by (metis order_less_le_trans)
    next
      case new
      with le show ?thesis by auto
    qed
  qed
  moreover have "wk_next_id w \<le> wk_next_id w2" using assms by (simp add: keeps_requests_def)
  ultimately show ?thesis by (simp add: keeps_requests_def)
qed

lemma keeps_requests_map:
  assumes "wk_next_id w' = wk_next_id w" and "wk_open w' = map g (wk_open w)"
    and "\<And>r. op_id (g r) = op_id r \<and> op_generation (g r) = op_generation r \<and>
      op_authoritative (g r) = op_authoritative r \<and> op_sequence (g r) = op_sequence r"
  shows "keeps_requests w w'"
  using assms by (auto simp: keeps_requests_def)

lemma keeps_update: "keeps_requests w (updateCluster w c f u)"
  by (rule keeps_requests_map [of _ _ "\<lambda>r. if op_registered r then r\<lparr>op_live := mark_live c f (op_live r)\<rparr> else r"])
    (simp_all add: updateCluster_def Let_def split: option.split)

lemma keeps_unregister: "keeps_requests w (unregister_all w)"
  by (rule keeps_requests_map [of _ _ "\<lambda>r. r\<lparr>op_registered := False\<rparr>"]) (simp_all add: unregister_all_def)

lemma keeps_read: "keeps_requests w (readAndMerge w)"
  by (auto simp: keeps_requests_def readAndMerge_def Let_def)

lemma keeps_emit: "keeps_requests w w' \<Longrightarrow> keeps_requests w (emit w' es)"
  by (simp add: keeps_requests_def)

lemma keeps_start: "keeps_requests w (start_store w)"
proof -
  let ?w1 = "unregister_all (w\<lparr>wk_generation := wk_generation w + 1, wk_listening := True\<rparr>)"
  have "keeps_requests w ?w1"
    by (rule keeps_requests_map [of _ _ "\<lambda>r. r\<lparr>op_registered := False\<rparr>"]) (simp_all add: unregister_all_def)
  then show ?thesis
    unfolding start_store_def hydrate_def by (auto intro: keeps_requests_trans keeps_read)
qed

lemma keeps_stop: "keeps_requests w (stop_store w)"
  by (rule keeps_requests_map [of _ _ "\<lambda>r. r\<lparr>op_registered := False\<rparr>"]) (simp_all add: stop_store_def unregister_all_def)

lemma keeps_end: "wk_next_id (endForegroundActivation w c) = wk_next_id w" "wk_open (endForegroundActivation w c) = wk_open w"
  by (simp_all add: endForegroundActivation_def Let_def)

lemma keeps_begin: "wk_next_id (beginRequestHold w c) = wk_next_id w" "wk_open (beginRequestHold w c) = wk_open w"
  by (simp_all add: beginRequestHold_def Let_def)

lemma ws_run_keeps: "keeps_requests w (ws_run call w)"
proof (cases call)
  case CAcquire
  let ?w1 = "w\<lparr>wk_next_id := wk_next_id w + 1, wk_holders := wk_holders w @ [wk_next_id w]\<rparr>"
  have 1: "keeps_requests w ?w1" by (rule keeps_requests_same) simp_all
  have "keeps_requests w (start_store ?w1)" by (rule keeps_requests_trans [OF 1 keeps_start])
  with 1 show ?thesis unfolding CAcquire ws_run.simps acquire_def Let_def by (split if_split) blast
next
  case (CReleaseHolder i)
  let ?w1 = "w\<lparr>wk_holders := remove1 i (wk_holders w)\<rparr>"
  have 1: "keeps_requests w ?w1" by (rule keeps_requests_same) simp_all
  have "keeps_requests w (stop_store ?w1)" by (rule keeps_requests_trans [OF 1 keeps_stop])
  with 1 show ?thesis
    unfolding CReleaseHolder ws_run.simps release_holder_def Let_def by (auto simp: keeps_requests_same)
next
  case CCommandBegun
  show ?thesis unfolding CCommandBegun by (auto simp: keeps_requests_def command_begun_def Let_def)
qed (auto simp: ws_handlers hydrate_def refresh_def keeps_read keeps_update keeps_emit keeps_begin keeps_end
    read_resolved_def read_failed_def command_resolved_def close_request_def confirmClosedSelection_def
    beginForegroundActivation_def holdClusterRequests_def release_hold_def Let_def
    intro!: keeps_requests_same split: option.split)

definition ws_ids_ok :: "workspace \<Rightarrow> bool" where
  "ws_ids_ok w \<longleftrightarrow> (\<forall>r \<in> set (wk_open w). op_id r < wk_next_id w)"

lemma keeps_ids:
  assumes "keeps_requests w w'" and "ws_ids_ok w"
  shows "ws_ids_ok w'"
  using assms unfolding keeps_requests_def ws_ids_ok_def by (metis order_less_le_trans)

lemma history_ids: "ws_ids_ok (ws_history calls)"
proof -
  have "ws_ids_ok (fold ws_run calls v)" if "ws_ids_ok v" for v
    using that by (induction calls arbitrary: v) (simp_all add: keeps_ids [OF ws_run_keeps])
  then show ?thesis by (simp add: ws_history_def ws_ids_ok_def new_workspace_def)
qed

lemma fold_keeps: "keeps_requests w (fold ws_run calls w)"
proof (induction calls arbitrary: w)
  case Nil
  show ?case by (simp add: keeps_requests_same)
next
  case (Cons call calls)
  from keeps_requests_trans [OF ws_run_keeps Cons.IH [of "ws_run call w"]] show ?case by simp
qed

section \<open>Read counters\<close>

definition reads_ok :: "workspace \<Rightarrow> bool" where
  "reads_ok w \<longleftrightarrow> distinct (map fst (wk_clusters w)) \<and> wk_applied_read w \<le> wk_next_read w \<and>
     (\<forall>r \<in> set (wk_open w). op_sequence r \<le> wk_next_read w)"

lemma retain_distinct: "distinct (map fst (retainLiveClusters current live))"
proof -
  have "distinct (map fst (fold (\<lambda>(clusterId, cluster) retained.
         if map_of live clusterId \<noteq> None then AList.update clusterId cluster retained else retained) cs acc))"
    if "distinct (map fst acc)" for cs acc
    using that by (induction cs arbitrary: acc) (auto simp: distinct_update)
  from this [of "[]" current] show ?thesis unfolding retainLiveClusters_def by simp
qed

lemma merge_distinct: "distinct (map fst (fst (mergeWireClusters wcs current live)))"
proof -
  have "distinct (map fst (fst (fold (merge_wire_entry current live) ws acc)))"
    if "distinct (map fst (fst acc))" for ws acc
    using that
  proof (induction ws arbitrary: acc)
    case (Cons entry ws)
    have "distinct (map fst (fst (merge_wire_entry current live entry acc)))"
      using Cons.prems by (cases entry; cases acc)
        (auto simp: merge_wire_entry_def Let_def distinct_update split: option.split prod.split)
    with Cons.IH show ?case by simp
  qed simp
  then show ?thesis by (simp add: mergeWireClusters_def retain_distinct)
qed

lemma merge_frame [simp]:
  "wk_applied_read (mergeWireState w wire live) = wk_applied_read w"
  "wk_next_read (mergeWireState w wire live) = wk_next_read w"
  "wk_authoritative (mergeWireState w wire live) = wk_authoritative w"
  "wk_generation (mergeWireState w wire live) = wk_generation w"
  "wk_selected (mergeWireState w wire live) = (case wi_selected wire of None \<Rightarrow> [] | Some s \<Rightarrow> s)"
  by (simp_all add: mergeWireState_def split: prod.split)

lemma update_frame [simp]:
  "wk_applied_read (updateCluster w c f u) = wk_applied_read w"
  "wk_next_read (updateCluster w c f u) = wk_next_read w"
  "wk_authoritative (updateCluster w c f u) = wk_authoritative w"
  "wk_hold_tokens (updateCluster w c f u) = wk_hold_tokens w"
  by (simp_all add: updateCluster_def Let_def split: option.split)

lemma reads_ok_update: "reads_ok w \<Longrightarrow> reads_ok (updateCluster w c f u)"
  by (auto simp: reads_ok_def updateCluster_def Let_def distinct_update split: option.split)

lemma reads_ok_emit [simp]: "reads_ok (emit w es) = reads_ok w"
  by (simp add: reads_ok_def)

lemma hold_frame [simp]:
  "reads_ok (beginRequestHold w c) = reads_ok w" "reads_ok (endForegroundActivation w c) = reads_ok w"
  "wk_authoritative (beginRequestHold w c) = wk_authoritative w"
  "wk_authoritative (endForegroundActivation w c) = wk_authoritative w"
  by (simp_all add: reads_ok_def beginRequestHold_def endForegroundActivation_def Let_def)

lemma reads_ok_read: "reads_ok w \<Longrightarrow> reads_ok (readAndMerge w)"
  by (auto simp: reads_ok_def readAndMerge_def Let_def)

lemma ws_run_reads_ok:
  assumes "reads_ok w"
  shows "reads_ok (ws_run call w)"
proof -
  have found: "op_sequence r \<le> wk_next_read w" if "find_request w i = Some r" for i r
    using assms that by (auto simp: reads_ok_def find_request_def find_Some_iff)
  have hyd: "reads_ok v \<Longrightarrow> reads_ok (hydrate v)" for v by (simp add: hydrate_def reads_ok_read)
  have start: "reads_ok v \<Longrightarrow> reads_ok (start_store v)" for v
    unfolding start_store_def by (rule hyd) (auto simp: reads_ok_def unregister_all_def)
  have other: "reads_ok (w\<lparr>wk_next_id := i, wk_holders := hs\<rparr>)" "reads_ok (w\<lparr>wk_holders := hs\<rparr>)" for i hs
    using assms by (simp_all add: reads_ok_def)
  show ?thesis
    using assms
    by (cases call)
      (auto simp: start other acquire_def release_holder_def Let_def hyd refresh_def reads_ok_read ws_handlers
        reads_ok_update beginForegroundActivation_def holdClusterRequests_def release_hold_def
        split: option.split,
       auto simp: reads_ok_def stop_store_def unregister_all_def read_resolved_def read_failed_def close_request_def
        command_begun_def command_resolved_def confirmClosedSelection_def merge_distinct found Let_def
        beginRequestHold_def endForegroundActivation_def
        split: option.split)
qed

lemma history_reads_ok: "reads_ok (ws_history calls)"
proof -
  have "reads_ok (fold ws_run calls v)" if "reads_ok v" for v
    using that by (induction calls arbitrary: v) (simp_all add: ws_run_reads_ok)
  then show ?thesis by (simp add: ws_history_def reads_ok_def new_workspace_def)
qed

lemma authoritative_grows: "wk_authoritative w \<le> wk_authoritative (ws_run call w)"
  by (cases call)
    (auto simp: acquire_def release_holder_def start_store_def stop_store_def hydrate_def readAndMerge_def
      unregister_all_def refresh_def read_resolved_def read_failed_def close_request_def command_begun_def
      command_resolved_def confirmClosedSelection_def ws_handlers beginForegroundActivation_def
      holdClusterRequests_def release_hold_def Let_def split: option.split)

lemma authoritative_grows_fold: "wk_authoritative w \<le> wk_authoritative (fold ws_run calls w)"
proof (induction calls arbitrary: w)
  case (Cons call calls)
  from order_trans [OF authoritative_grows Cons.IH [of "ws_run call w"]] show ?case by simp
qed simp

lemma confirm_raises:
  assumes "CConfirmClosed s c \<in> set calls"
  shows "wk_authoritative w < wk_authoritative (fold ws_run calls w)"
proof -
  obtain before after where calls: "calls = before @ CConfirmClosed s c # after"
    using assms by (meson split_list)
  let ?w = "fold ws_run before w"
  have "wk_authoritative w \<le> wk_authoritative ?w" by (rule authoritative_grows_fold)
  also have "\<dots> < wk_authoritative (confirmClosedSelection ?w s c)" by (simp add: confirmClosedSelection_def)
  also have "\<dots> \<le> wk_authoritative (fold ws_run after (confirmClosedSelection ?w s c))"
    by (rule authoritative_grows_fold)
  finally show ?thesis by (simp add: calls)
qed

section \<open>Holds\<close>

definition hold_count :: "workspace \<Rightarrow> string \<Rightarrow> nat" where
  "hold_count w n = (case map_of (wk_holds w) n of None \<Rightarrow> 0 | Some m \<Rightarrow> m)"

definition tokens_for :: "workspace \<Rightarrow> string \<Rightarrow> nat" where
  "tokens_for w n = length (filter (\<lambda>(i, c). trim c = n) (wk_hold_tokens w))"

definition holds_cover :: "string \<Rightarrow> workspace \<Rightarrow> bool" where
  "holds_cover n w \<longleftrightarrow> tokens_for w n \<le> hold_count w n"

text \<open>A call that ends holds on the cluster without their tokens: an explicit end of an activation of that cluster, or the
  release of the last holder, which shuts the store down.\<close>

fun bypasses_hold :: "string \<Rightarrow> workspace \<Rightarrow> ws_call \<Rightarrow> bool" where
  "bypasses_hold n w (CEndActivation c) = (trim c = n)"
| "bypasses_hold n w (CReleaseHolder i) = (wk_holders w = [i])"
| "bypasses_hold n w _ = False"

text \<open>No call of a history does that in the state it meets.\<close>

fun undisturbed :: "string \<Rightarrow> ws_call list \<Rightarrow> workspace \<Rightarrow> bool" where
  "undisturbed n [] w = True"
| "undisturbed n (call # calls) w = (\<not> bypasses_hold n w call \<and> undisturbed n calls (ws_run call w))"

lemma holds_cover_same:
  "wk_holds w' = wk_holds w \<Longrightarrow> wk_hold_tokens w' = wk_hold_tokens w \<Longrightarrow> holds_cover n w' = holds_cover n w"
  by (simp add: holds_cover_def tokens_for_def hold_count_def)

lemma count_begin: "n \<noteq> [] \<Longrightarrow> hold_count (beginRequestHold w c) n = hold_count w n + (if trim c = n then 1 else 0)"
  by (auto simp: hold_count_def beginRequestHold_def Let_def map_of_update)

lemma tokens_begin: "wk_hold_tokens (beginRequestHold w c) = wk_hold_tokens w"
  by (simp add: beginRequestHold_def Let_def)

lemma count_end: "n \<noteq> [] \<Longrightarrow> hold_count (endForegroundActivation w c) n = hold_count w n - (if trim c = n then 1 else 0)"
  by (auto simp: hold_count_def endForegroundActivation_def Let_def js_map_simps split: option.split)

lemma tokens_end: "wk_hold_tokens (endForegroundActivation w c) = wk_hold_tokens w"
  by (simp add: endForegroundActivation_def Let_def)

lemma tokens_release:
  assumes "map_of ts i = Some c"
  shows "length (filter (\<lambda>(j, c). trim c = n) (filter (\<lambda>(j, _). j \<noteq> i) ts)) + (if trim c = n then 1 else 0) \<le>
    length (filter (\<lambda>(j, c). trim c = n) ts)"
  using assms
proof (induction ts)
  case (Cons t ts)
  have mono: "length (filter (\<lambda>(j, c). trim c = n) (filter (\<lambda>(j, _). j \<noteq> i) ts)) \<le>
      length (filter (\<lambda>(j, c). trim c = n) ts)"
    by (induction ts) auto
  from Cons mono show ?case by (cases t) (auto split: if_splits)
qed simp

fun holding_call :: "ws_call \<Rightarrow> bool" where
  "holding_call (CBeginActivation c) = True"
| "holding_call (CEndActivation c) = True"
| "holding_call (CHold c) = True"
| "holding_call (CReleaseHold i) = True"
| "holding_call (CReleaseHolder i) = True"
| "holding_call _ = False"

lemma hold_frame_run:
  assumes "\<not> holding_call call"
  shows "wk_holds (ws_run call w) = wk_holds w" "wk_hold_tokens (ws_run call w) = wk_hold_tokens w"
  using assms
  by (cases call; simp add: acquire_def start_store_def hydrate_def readAndMerge_def unregister_all_def
    refresh_def read_resolved_def read_failed_def close_request_def command_begun_def command_resolved_def
    confirmClosedSelection_def ws_handlers Let_def split: option.split)+

lemma holds_cover_run:
  assumes "holds_cover n w" and "n \<noteq> []" and "\<not> bypasses_hold n w call"
  shows "holds_cover n (ws_run call w)"
proof (cases call)
  case (CBeginActivation c)
  with assms show ?thesis
    by (simp add: beginForegroundActivation_def holds_cover_def count_begin tokens_for_def tokens_begin)
next
  case (CEndActivation c)
  with assms show ?thesis by (simp add: holds_cover_def count_end tokens_for_def tokens_end)
next
  case (CHold c)
  have "hold_count (fst (holdClusterRequests w c)) n = hold_count (beginRequestHold w c) n"
    by (simp add: holdClusterRequests_def Let_def hold_count_def)
  with assms CHold show ?thesis
    by (simp add: holds_cover_def count_begin tokens_for_def)
      (simp add: holdClusterRequests_def Let_def tokens_begin)
next
  case (CReleaseHold i)
  show ?thesis
  proof (cases "map_of (wk_hold_tokens w) i")
    case None
    with CReleaseHold assms show ?thesis by (simp add: release_hold_def)
  next
    case (Some c)
    let ?w1 = "w\<lparr>wk_hold_tokens := filter (\<lambda>(j, _). j \<noteq> i) (wk_hold_tokens w)\<rparr>"
    have "hold_count ?w1 n = hold_count w n" by (simp add: hold_count_def)
    with Some CReleaseHold assms tokens_release [OF Some, of n] show ?thesis
      by (auto simp: release_hold_def holds_cover_def count_end tokens_for_def tokens_end split: if_splits)
  qed
next
  case (CReleaseHolder i)
  have "remove1 i (wk_holders w) \<noteq> []" if "i \<in> set (wk_holders w)"
    using that assms(3) CReleaseHolder by (cases "wk_holders w") (auto split: if_splits)
  with assms(1) CReleaseHolder show ?thesis
    by (simp add: release_holder_def Let_def holds_cover_def tokens_for_def hold_count_def)
qed (use hold_frame_run [of call w] assms in \<open>auto simp: holds_cover_def tokens_for_def hold_count_def
    simp del: ws_run.simps\<close>)

section \<open>Tokens that outlive their holds\<close>

text \<open>Calls that neither hold requests of the cluster nor use the given release function.\<close>

fun leaves_alone :: "string \<Rightarrow> nat \<Rightarrow> ws_call \<Rightarrow> bool" where
  "leaves_alone n i (CBeginActivation c) = (trim c \<noteq> n)"
| "leaves_alone n i (CHold c) = (trim c \<noteq> n)"
| "leaves_alone n i (CReleaseHold j) = (j \<noteq> i)"
| "leaves_alone n i _ = True"

lemma tokens_below: "\<forall>(j, c) \<in> set (wk_hold_tokens (ws_history calls)). j < wk_next_id (ws_history calls)"
proof -
  define below where "below w \<longleftrightarrow> (\<forall>(j, c) \<in> set (wk_hold_tokens w). j < wk_next_id w)" for w :: workspace
  have "below (ws_run call w)" if "below w" for call w
  proof -
    have next_le: "wk_next_id w \<le> wk_next_id (ws_run call w)" using ws_run_keeps [of w call] by (simp add: keeps_requests_def)
    have "set (wk_hold_tokens (ws_run call w)) \<subseteq> set (wk_hold_tokens w) \<union>
        (case call of CHold c \<Rightarrow> {(wk_next_id w, c)} | _ \<Rightarrow> {})"
      using hold_frame_run(2) [of call w]
      by (cases call) (auto simp: holdClusterRequests_def release_hold_def release_holder_def stop_store_def unregister_all_def
          beginForegroundActivation_def tokens_begin tokens_end Let_def
          split: option.splits if_splits)
    moreover have "wk_next_id w < wk_next_id (ws_run call w)" if "call = CHold c" for c
      using that by (simp add: holdClusterRequests_def Let_def)
    ultimately show ?thesis using \<open>below w\<close> next_le unfolding below_def
      by (cases call) (fastforce dest: subsetD)+
  qed
  then have "below w \<Longrightarrow> below (fold ws_run calls w)" for w
    by (induction calls arbitrary: w) simp_all
  moreover have "below new_workspace" by (simp add: below_def new_workspace_def)
  ultimately show ?thesis unfolding ws_history_def below_def by blast
qed

text \<open>A token whose hold was forgotten stays, and the cluster stays without a hold.\<close>

definition forgotten :: "string \<Rightarrow> nat \<Rightarrow> string \<Rightarrow> workspace \<Rightarrow> bool" where
  "forgotten n i c w \<longleftrightarrow> map_of (wk_holds w) n = None \<and> map_of (wk_hold_tokens w) i = Some c"

lemma map_of_filter_other: "j \<noteq> i \<Longrightarrow> map_of (filter (\<lambda>(k, _). k \<noteq> j) ts) i = map_of ts i"
  by (induction ts) auto

lemma map_of_snoc_old: "map_of ts i = Some c \<Longrightarrow> map_of (ts @ [x]) i = Some c"
  by (auto simp: map_add_def split: option.split)

lemma forgotten_run:
  assumes "forgotten n i c w" and "leaves_alone n i call" and "n \<noteq> []"
  shows "forgotten n i c (ws_run call w)"
proof (cases call)
  case (CReleaseHold j)
  with assms show ?thesis
    by (auto simp: forgotten_def release_hold_def endForegroundActivation_def Let_def js_map_simps map_of_filter_other
        split: option.split)
next
  case (CHold d)
  with assms show ?thesis
    by (auto simp: forgotten_def holdClusterRequests_def beginRequestHold_def Let_def js_map_simps map_of_snoc_old)
next
  case (CReleaseHolder j)
  with assms show ?thesis
    by (auto simp: forgotten_def release_holder_def stop_store_def unregister_all_def Let_def)
next
  case (CBeginActivation d)
  with assms show ?thesis
    by (auto simp: forgotten_def beginForegroundActivation_def beginRequestHold_def Let_def js_map_simps)
next
  case (CEndActivation d)
  with assms show ?thesis
    by (auto simp: forgotten_def endForegroundActivation_def Let_def js_map_simps split: option.split)
qed (use hold_frame_run [of call w] assms in \<open>auto simp: forgotten_def simp del: ws_run.simps\<close>)

lemma forgotten_fold:
  "forgotten n i c w \<Longrightarrow> \<forall>call \<in> set calls. leaves_alone n i call \<Longrightarrow> n \<noteq> [] \<Longrightarrow> forgotten n i c (fold ws_run calls w)"
  by (induction calls arbitrary: w) (auto simp: forgotten_run simp del: ws_run.simps)

text \<open>Taking a new hold and using the forgotten token leaves the cluster without a hold.\<close>

lemma forgotten_release:
  assumes "forgotten n i c w" and "trim c = n" "trim d = n" "n \<noteq> []" and "i < wk_next_id w"
    and "v = ws_run (CReleaseHold i) (ws_run (CHold d) w)"
  shows "(wk_next_id w, d) \<in> set (wk_hold_tokens v)" "map_of (wk_holds v) n = None" "wk_clusters v = wk_clusters w"
proof -
  let ?u = "ws_run (CHold d) w"
  have u: "map_of (wk_holds ?u) n = Some 1" "wk_hold_tokens ?u = wk_hold_tokens w @ [(wk_next_id w, d)]"
    "wk_clusters ?u = wk_clusters w"
    using assms by (simp_all add: forgotten_def holdClusterRequests_def beginRequestHold_def Let_def js_map_simps)
  have "map_of (wk_hold_tokens ?u) i = Some c"
    unfolding u(2) using assms(1) by (simp add: forgotten_def map_of_snoc_old)
  then have v: "v = endForegroundActivation (?u\<lparr>wk_hold_tokens := filter (\<lambda>(j, _). j \<noteq> i) (wk_hold_tokens ?u)\<rparr>) c"
    unfolding assms(6) by (simp add: release_hold_def)
  show "(wk_next_id w, d) \<in> set (wk_hold_tokens v)"
    unfolding v tokens_end using assms(5) u(2) by (simp del: ws_run.simps)
  show "map_of (wk_holds v) n = None" "wk_clusters v = wk_clusters w"
    unfolding v using assms(2,4) u(1,3)
    by (simp_all add: endForegroundActivation_def Let_def js_map_simps del: ws_run.simps)
qed

end
