(* ===== verification/Workspace_Contracts.thy ===== *)
theory Workspace_Contracts
  imports Workspace_Reads
begin

text \<open>
  The workspace store's contract with its callers, over arbitrary histories of calls.
\<close>

section \<open>Properties\<close>

text \<open>C31: events win over the read they overtook. After any history, let a read begin, then let any
  backend events update clusters, then let the read be answered: every field an event touched
  (lifecycle, auth, health or scope revision of its cluster) is as the events left it, while the
  answer's selection is taken over when the store is held.\<close>

theorem events_win_over_read:
  fixes calls events wire
  defines "w \<equiv> ws_history calls"
  defines "w2 \<equiv> fold ws_run events (readAndMerge w)"
  defines "w3 \<equiv> read_resolved w2 (wk_next_id w) (Some wire)"
  assumes "\<forall>call \<in> set events. touches call \<noteq> None" and "wk_listening w"
    and "distinct (map fst (case wi_clusters wire of None \<Rightarrow> [] | Some cs \<Rightarrow> cs))"
  shows "(\<forall>c f. Some (c, f) \<in> touches ` set events \<longrightarrow> same_field f c w3 w2) \<and>
    (wk_holders w \<noteq> [] \<longrightarrow> wk_selected w3 = (case wi_selected wire of None \<Rightarrow> [] | Some s \<Rightarrow> s))"
proof -
  let ?i = "wk_next_id w" and ?w1 = "readAndMerge w"
  have ok: "reads_ok w" by (simp add: w_def history_reads_ok)
  have ids: "\<forall>r \<in> set (wk_open w). op_id r \<noteq> ?i"
    using history_ids [of calls] by (auto simp: w_def ws_ids_ok_def)
  let ?r = "\<lparr>op_id = ?i, op_generation = wk_generation w, op_authoritative = wk_authoritative w,
    op_sequence = wk_next_read w + 1, op_live = [], op_registered = True\<rparr>"
  have find_last: "find (\<lambda>r. op_id r = ?i) (rs @ [?r]) = Some ?r" if "\<forall>r \<in> set rs. op_id r \<noteq> ?i" for rs
    using that by (induction rs) auto
  define r where "r = ?r"
  have r: "find_request ?w1 ?i = Some r" "op_registered r" "op_generation r = wk_generation w"
      "op_authoritative r = wk_authoritative w" "op_sequence r = wk_next_read w + 1"
    using find_last [OF ids] by (simp_all add: r_def readAndMerge_def find_request_def Let_def)
  have "wk_listening ?w1" using assms(5) by (simp add: readAndMerge_def Let_def)
  from events_mark_request [OF assms(4) this r(1,2)] obtain r' where r': "find_request w2 ?i = Some r'"
      "op_generation r' = wk_generation w" "op_authoritative r' = wk_authoritative w" "op_sequence r' = wk_next_read w + 1"
      "\<And>c f. Some (c, f) \<in> touches ` set events \<Longrightarrow> live_in (op_live r') c f"
      and q: "quiet_event None (?w1\<lparr>wk_open := []\<rparr>) (w2\<lparr>wk_open := []\<rparr>)"
    using r by (auto simp: w2_def)
  have frame: "wk_holders w2 = wk_holders w" "wk_generation w2 = wk_generation w" "wk_authoritative w2 = wk_authoritative w"
      "wk_applied_read w2 = wk_applied_read w" "distinct (map fst (wk_clusters w2))"
    using q ok by (auto simp: quiet_event_def readAndMerge_def Let_def reads_ok_def)
  have applies: "read_applies w2 r' \<longleftrightarrow> wk_holders w \<noteq> []"
    using r' frame ok by (simp add: read_applies_def reads_ok_def)
  let ?m = "mergeWireState (w2\<lparr>wk_applied_read := op_sequence r'\<rparr>) wire (op_live r')"
  have w3: "w3 = close_request (if wk_holders w \<noteq> [] then ?m else w2) ?i"
    using r'(1) applies by (simp add: w3_def read_resolved_def)
  have close: "same_field f c (close_request v i) v'= same_field f c v v'" for f c v v' i
    by (cases f) (simp_all add: close_request_def lifecycle_of_def getAuth_def getHealth_def revision_of_def getCluster_def)
  have "same_field f c ?m w2" if "Some (c, f) \<in> touches ` set events" for c f
  proof -
    have "same_field f c ?m (w2\<lparr>wk_applied_read := op_sequence r'\<rparr>)"
      using frame(5) assms(6) r'(5) [OF that] by (intro merge_keeps_live) simp_all
    then show ?thesis
      by (cases f) (simp_all add: lifecycle_of_def getAuth_def getHealth_def revision_of_def getCluster_def)
  qed
  moreover have "same_field f c w2 w2" for f c by (cases f) simp_all
  ultimately show ?thesis
    unfolding w3 by (auto simp: close) (simp add: close_request_def)
qed

definition sample_wire :: wire_state where
  "sample_wire = \<lparr>wi_selected = Some [''k''], wi_visible = Some ''c'',
     wi_clusters = Some [(''c'', Some \<lparr>wc_name = ''prod'', wc_lifecycle = Some ''connecting'', wc_auth = None,
       wc_health = ''healthy'', wc_revision = Some 3\<rparr>)]\<rparr>"

theorem events_win_over_read_witness:
  "lifecycle_of (read_resolved (fold ws_run [CLifecycle ''c'' (Some ''ready'')] (readAndMerge (ws_history [CAcquire])))
     (wk_next_id (ws_history [CAcquire])) (Some sample_wire)) ''c'' = Some Ready"
proof -
  let ?w2 = "fold ws_run [CLifecycle ''c'' (Some ''ready'')] (readAndMerge (ws_history [CAcquire]))"
  have t: "touches (CLifecycle ''c'' (Some ''ready'')) = Some (''c'', LiveLifecycle)" by code_simp
  have "wk_listening (ws_history [CAcquire])" by code_simp
  moreover have "distinct (map fst (case wi_clusters sample_wire of None \<Rightarrow> [] | Some cs \<Rightarrow> cs))"
    by (simp add: sample_wire_def)
  moreover have "\<forall>call \<in> set [CLifecycle ''c'' (Some ''ready'')]. touches call \<noteq> None"
    "Some (''c'', LiveLifecycle) \<in> touches ` set [CLifecycle ''c'' (Some ''ready'')]"
    using t by (simp_all del: touches.simps)
  ultimately have "same_field LiveLifecycle ''c'' (read_resolved ?w2 (wk_next_id (ws_history [CAcquire])) (Some sample_wire)) ?w2"
    using events_win_over_read [of "[CLifecycle ''c'' (Some ''ready'')]" "[CAcquire]" sample_wire] by blast
  moreover have "lifecycle_of ?w2 ''c'' = Some Ready" by code_simp
  ultimately show ?thesis by simp
qed

text \<open>C30: an outdated read changes nothing. Once a read has begun, if then a native close was confirmed, or
  the store was restarted, or a read begun later was already applied, the read's answer leaves the
  selection, the visible cluster, every cluster and the listeners as they were, whatever it says and
  whatever else happened in between.\<close>

theorem outdated_read_is_dropped:
  fixes calls later wire
  defines "w \<equiv> ws_history calls"
  defines "w2 \<equiv> fold ws_run later (readAndMerge w)"
  defines "w3 \<equiv> read_resolved w2 (wk_next_id w) wire"
  assumes "CConfirmClosed s c \<in> set later \<or> wk_generation w2 \<noteq> wk_generation w \<or>
    wk_applied_read w2 > wk_next_read w + 1"
  shows "wk_selected w3 = wk_selected w2 \<and> wk_visible w3 = wk_visible w2 \<and> wk_clusters w3 = wk_clusters w2 \<and>
    wk_events w3 = wk_events w2"
proof -
  let ?i = "wk_next_id w" and ?w1 = "readAndMerge w"
  have auth: "wk_authoritative ?w1 = wk_authoritative w" by (simp add: readAndMerge_def Let_def)
  have captured: "op_generation r = wk_generation w \<and> op_authoritative r = wk_authoritative w \<and>
      op_sequence r = wk_next_read w + 1" if "find_request w2 ?i = Some r" for r
  proof -
    have r: "r \<in> set (wk_open w2)" "op_id r = ?i" using that by (auto simp: find_request_def find_Some_iff)
    have next1: "wk_next_id ?w1 = ?i + 1" by (simp add: readAndMerge_def Let_def)
    from r fold_keeps [of ?w1 later] obtain r1 where r1: "r1 \<in> set (wk_open ?w1)" "op_id r1 = ?i"
        "op_generation r1 = op_generation r" "op_authoritative r1 = op_authoritative r" "op_sequence r1 = op_sequence r"
      unfolding keeps_requests_def w2_def next1 by force
    have "\<forall>r \<in> set (wk_open w). op_id r \<noteq> ?i" using history_ids [of calls] by (auto simp: w_def ws_ids_ok_def)
    with r1 show ?thesis by (auto simp: readAndMerge_def Let_def)
  qed
  have "\<not> read_applies w2 r" if "find_request w2 ?i = Some r" for r
    using captured [OF that] assms(4) confirm_raises [of s c later ?w1] auth
    by (auto simp: read_applies_def w2_def)
  then show ?thesis
    by (auto simp: w3_def read_resolved_def close_request_def split: option.split)
qed

theorem outdated_read_is_dropped_witness:
  "wk_selected (read_resolved (fold ws_run [CConfirmClosed ''k'' ''c''] (readAndMerge (ws_history [CAcquire])))
     (wk_next_id (ws_history [CAcquire])) (Some sample_wire)) = []"
proof -
  let ?w2 = "fold ws_run [CConfirmClosed ''k'' ''c''] (readAndMerge (ws_history [CAcquire]))"
  have "wk_selected ?w2 = []" by code_simp
  with outdated_read_is_dropped [of "''k''" "''c''" "[CConfirmClosed ''k'' ''c'']" "[CAcquire]" "Some sample_wire"]
  show ?thesis by simp
qed

text \<open>C33: a hold keeps a cluster's requests back. Over any history in which the store is not shut down (its last
  holder is not released) and no activation of the cluster is ended by hand, as long as one hold token of a named
  cluster has not been released, the cluster is not serviceable, whatever lifecycle it reports and whichever other
  holds and holders come and go.\<close>

theorem open_hold_blocks_requests:
  assumes "undisturbed (trim c) calls new_workspace" and "(i, c) \<in> set (wk_hold_tokens (ws_history calls))"
    and "trim c \<noteq> []"
  shows "\<not> isServiceable (ws_history calls) (trim c)"
proof -
  have "holds_cover (trim c) (fold ws_run calls v)" if "holds_cover (trim c) v" "undisturbed (trim c) calls v" for v
    using that assms(3) by (induction calls arbitrary: v) (simp_all add: holds_cover_run del: ws_run.simps)
  then have "holds_cover (trim c) (ws_history calls)"
    using assms(1) by (simp add: ws_history_def holds_cover_def tokens_for_def new_workspace_def)
  moreover have "filter (\<lambda>(i, c'). trim c' = trim c) (wk_hold_tokens (ws_history calls)) \<noteq> []"
    using assms(2) by (auto simp: filter_empty_conv)
  ultimately have "map_of (wk_holds (ws_history calls)) (trim c) \<noteq> None"
    by (auto simp: holds_cover_def tokens_for_def hold_count_def split: option.splits)
  with assms(3) show ?thesis by (simp add: isServiceable_iff)
qed

definition held_history :: "ws_call list" where
  "held_history = [CAcquire, CAcquire, CHold ''c'', CHold '' c'', CReleaseHolder 0, CApplyLifecycle ''c'' Ready, CReleaseHold 3]"

theorem open_hold_blocks_requests_witness:
  "\<not> isServiceable (ws_history held_history) ''c''"
proof -
  have "undisturbed (trim '' c'') held_history new_workspace" "(4, '' c'') \<in> set (wk_hold_tokens (ws_history held_history))"
    "trim '' c'' = ''c''"
    by code_simp+
  then show ?thesis using open_hold_blocks_requests [of "'' c''" held_history 4] by simp
qed

text \<open>C39: a hold taken before the store was shut down can end one taken after it. Take any history that leaves a
  single holder and an unreleased hold token on a named cluster, release the holder, and let anything happen
  that takes no hold on the cluster and does not release that token. If the cluster is now held and the old
  token released, the new token is still open, but no hold is counted: the cluster is serviceable exactly when it
  was before the new hold.\<close>

theorem old_hold_releases_new_one:
  fixes calls later c d h i
  defines "w \<equiv> ws_history (calls @ [CReleaseHolder h] @ later)"
  defines "v \<equiv> ws_history (calls @ [CReleaseHolder h] @ later @ [CHold d, CReleaseHold i])"
  assumes "wk_holders (ws_history calls) = [h]" and "map_of (wk_hold_tokens (ws_history calls)) i = Some c"
    and "\<forall>call \<in> set later. leaves_alone (trim c) i call" and "trim d = trim c" and "trim c \<noteq> []"
  shows "(wk_next_id w, d) \<in> set (wk_hold_tokens v) \<and> map_of (wk_holds v) (trim c) = None \<and>
    isServiceable v (trim c) = isServiceable w (trim c)"
proof -
  have "forgotten (trim c) i c (ws_run (CReleaseHolder h) (ws_history calls))"
    using assms(3,4) by (simp add: forgotten_def release_holder_def stop_store_def unregister_all_def Let_def)
  then have w: "forgotten (trim c) i c w"
    using assms(5,7) forgotten_fold by (simp add: w_def ws_history_def del: ws_run.simps)
  have old: "i < wk_next_id w"
    using w tokens_below [of "calls @ [CReleaseHolder h] @ later"] by (auto simp: forgotten_def w_def dest: map_of_SomeD)
  have v: "v = ws_run (CReleaseHold i) (ws_run (CHold d) w)"
    by (simp add: v_def w_def ws_history_def del: ws_run.simps)
  note released = forgotten_release [OF w refl assms(6,7) old v]
  from w released show ?thesis by (simp add: isServiceable_iff forgotten_def)
qed

theorem old_hold_releases_new_one_witness:
  "isServiceable (ws_history ([CAcquire, CHold ''c''] @ [CReleaseHolder 0] @ [CAcquire, CApplyLifecycle ''c'' Ready] @
     [CHold ''c'', CReleaseHold 2])) ''c''"
proof -
  have "wk_holders (ws_history [CAcquire, CHold ''c'']) = [0]"
    "map_of (wk_hold_tokens (ws_history [CAcquire, CHold ''c''])) 2 = Some ''c''"
    "isServiceable (ws_history ([CAcquire, CHold ''c''] @ [CReleaseHolder 0] @ [CAcquire, CApplyLifecycle ''c'' Ready])) ''c''"
    "trim ''c'' = ''c''"
    by code_simp+
  then show ?thesis
    using old_hold_releases_new_one [of "[CAcquire, CHold ''c'']" 0 2 "''c''" "[CAcquire, CApplyLifecycle ''c'' Ready]" "''c''"]
    by simp
qed

end
