(* ===== verification/Tab_Groups.thy ===== *)
theory Tab_Groups
  imports Prelude
begin

text \<open>
  Tab groups of the dockable panels, \<open>ui/dockable/tabGroupState.ts\<close> and \<open>tabGroupTypes.ts\<close>: two docked groups
  and any number of floating ones, each an ordered list of panel ids with one active tab. All functions
  are pure. Numbers in floating ids are natural numbers; the source's are exact below \<open>2 ^ 53\<close>.
\<close>

section \<open>State\<close>

record tab_group =
  tg_tabs :: "string list"
  tg_active :: "string option"

record floating_group = tab_group +
  fg_id :: string

record tab_groups =
  ts_right :: tab_group
  ts_bottom :: tab_group
  ts_floating :: "floating_group list"

datatype position = AtRight | AtBottom | AtFloating
datatype adjacent_preference = PreferLeft | PreferRight

section \<open>Floating group ids\<close>

definition digit_char :: "nat \<Rightarrow> char" where
  "digit_char d = char_of (48 + d)"

fun show_nat :: "nat \<Rightarrow> string" where
  "show_nat n = (if n < 10 then [digit_char n] else show_nat (n div 10) @ [digit_char (n mod 10)])"

declare show_nat.simps [simp del]

definition is_digit :: "char \<Rightarrow> bool" where
  "is_digit c \<longleftrightarrow> 48 \<le> (of_char c :: nat) \<and> (of_char c :: nat) \<le> 57"

definition parse_digits :: "string \<Rightarrow> nat" where
  "parse_digits s = foldl (\<lambda>acc c. acc * 10 + (of_char c - 48)) 0 s"

text \<open>The match of \<open>/^floating-(\d+)$/\<close>, as a number.\<close>

definition floating_suffix :: "string \<Rightarrow> nat option" where
  "floating_suffix groupId =
     (let prefix = ''floating-''; rest = drop (length prefix) groupId
      in if starts_with prefix groupId \<and> rest \<noteq> [] \<and> list_all is_digit rest
         then Some (parse_digits rest) else None)"

definition floating_id :: "nat \<Rightarrow> string" where
  "floating_id n = ''floating-'' @ show_nat n"

lemma digit_of_char: "d < 10 \<Longrightarrow> (of_char (digit_char d) :: nat) = 48 + d"
  by (simp add: digit_char_def)

lemma show_nat_nonempty [simp]: "show_nat n \<noteq> []"
  by (subst show_nat.simps) simp

lemma show_nat_digits [simp]: "list_all is_digit (show_nat n)"
proof (induction n rule: show_nat.induct)
  case (1 n)
  have "is_digit (digit_char d)" if "d < 10" for d using that by (simp add: is_digit_def digit_of_char)
  with 1 show ?case by (subst show_nat.simps) simp
qed

lemma parse_show_nat [simp]: "parse_digits (show_nat n) = n"
proof (induction n rule: show_nat.induct)
  case (1 n)
  then show ?case by (subst show_nat.simps) (auto simp: parse_digits_def digit_of_char)
qed

lemma floating_suffix_id [simp]: "floating_suffix (floating_id n) = Some n"
  by (simp add: floating_suffix_def floating_id_def Let_def starts_with_def)

lemma floating_id_inj: "floating_id m = floating_id n \<longleftrightarrow> m = n"
  by (metis floating_suffix_id option.inject)

text \<open>The search for an id that is not in use. It ends because the ids in use are finitely many.\<close>

function first_unused :: "string list \<Rightarrow> nat \<Rightarrow> nat" where
  "first_unused usedIds candidate =
     (if floating_id candidate \<in> set usedIds then first_unused usedIds (candidate + 1) else candidate)"
  by pat_completeness auto
termination
proof (relation "measure (\<lambda>(used, c). card {n. c \<le> n \<and> floating_id n \<in> set used})")
  fix used c
  assume used: "floating_id c \<in> set used"
  have "finite {n. floating_id n \<in> set used}"
    by (rule finite_imageD [of floating_id]) (auto intro: finite_subset [OF _ finite_set] simp: inj_on_def floating_id_inj)
  then have "finite {n. c \<le> n \<and> floating_id n \<in> set used}" by (rule rev_finite_subset) auto
  moreover have "{n. c + 1 \<le> n \<and> floating_id n \<in> set used} \<subset> {n. c \<le> n \<and> floating_id n \<in> set used}"
  proof (rule psubsetI)
    show "{n. c + 1 \<le> n \<and> floating_id n \<in> set used} \<noteq> {n. c \<le> n \<and> floating_id n \<in> set used}"
      using used by (metis (mono_tags, lifting) mem_Collect_eq le_refl Suc_eq_plus1 not_less_eq_eq)
  qed auto
  ultimately show "((used, c + 1), used, c) \<in> measure (\<lambda>(used, c). card {n. c \<le> n \<and> floating_id n \<in> set used})"
    by (simp add: psubset_card_mono)
qed simp

declare first_unused.simps [simp del]

definition nextFloatingGroupId :: "tab_groups \<Rightarrow> string" where
  "nextFloatingGroupId st =
     (let usedIds = map fg_id (ts_floating st);
          maxSuffix = fold max (List.map_filter floating_suffix usedIds) 0
      in floating_id (first_unused usedIds (maxSuffix + 1)))"

section \<open>Operations\<close>

definition createInitialTabGroupState :: tab_groups where
  "createInitialTabGroupState =
     \<lparr>ts_right = \<lparr>tg_tabs = [], tg_active = None\<rparr>, ts_bottom = \<lparr>tg_tabs = [], tg_active = None\<rparr>,
      ts_floating = []\<rparr>"

definition last_tab :: "string list \<Rightarrow> string option" where
  "last_tab tabs = (if tabs = [] then None else Some (last tabs))"

text \<open>On a floating group the result is spread over the group, which keeps its id.\<close>

definition stripPanelFromGroup :: "'a tab_group_scheme \<Rightarrow> string \<Rightarrow> 'a tab_group_scheme" where
  "stripPanelFromGroup grp panelId =
     (let tabs = filter (\<lambda>t. t \<noteq> panelId) (tg_tabs grp);
          active = (case tg_active grp of None \<Rightarrow> [] | Some a \<Rightarrow> a)
      in grp\<lparr>tg_tabs := tabs,
               tg_active := (if tg_active grp = Some panelId \<or> active \<notin> set tabs
                             then last_tab tabs else tg_active grp)\<rparr>)"

definition insertPanelIntoGroup :: "'a tab_group_scheme \<Rightarrow> string \<Rightarrow> int option \<Rightarrow> 'a tab_group_scheme" where
  "insertPanelIntoGroup grp panelId insertIndex =
     grp\<lparr>tg_tabs := splice_insert (tg_tabs grp)
             (case insertIndex of None \<Rightarrow> int (length (tg_tabs grp)) | Some i \<Rightarrow> i) panelId,
           tg_active := Some panelId\<rparr>"

definition tab_at :: "string list \<Rightarrow> int \<Rightarrow> string option" where
  "tab_at tabs i = (if 0 \<le> i \<and> i < int (length tabs) then Some (tabs ! nat i) else None)"

definition or_tab :: "string option \<Rightarrow> string option \<Rightarrow> string option" where
  "or_tab a b = (case a of None \<Rightarrow> b | Some t \<Rightarrow> Some t)"

definition activateAdjacentTab ::
    "string list \<Rightarrow> int \<Rightarrow> string option \<Rightarrow> string \<Rightarrow> adjacent_preference \<Rightarrow> string option" where
  "activateAdjacentTab tabs removedIndex currentActiveId removedId preference =
     (if tabs = [] then None
      else if currentActiveId \<noteq> Some removedId then currentActiveId
      else let rightNeighbor = tab_at tabs removedIndex;
               leftNeighbor = tab_at tabs (removedIndex - 1)
           in case preference of
                PreferLeft \<Rightarrow> or_tab leftNeighbor rightNeighbor
              | PreferRight \<Rightarrow> or_tab rightNeighbor leftNeighbor)"

definition removePanelWithAdjacentActivation ::
    "'a tab_group_scheme \<Rightarrow> string \<Rightarrow> adjacent_preference \<Rightarrow> 'a tab_group_scheme" where
  "removePanelWithAdjacentActivation grp panelId preference =
     (let removedIndex = (case index_of panelId (tg_tabs grp) of None \<Rightarrow> - 1 | Some i \<Rightarrow> int i);
          tabs = filter (\<lambda>t. t \<noteq> panelId) (tg_tabs grp)
      in grp\<lparr>tg_tabs := tabs,
               tg_active := activateAdjacentTab tabs removedIndex (tg_active grp) panelId preference\<rparr>)"

definition stripPanelFromAllGroups :: "tab_groups \<Rightarrow> string \<Rightarrow> tab_groups" where
  "stripPanelFromAllGroups st panelId =
     \<lparr>ts_right = stripPanelFromGroup (ts_right st) panelId,
      ts_bottom = stripPanelFromGroup (ts_bottom st) panelId,
      ts_floating = filter (\<lambda>g. tg_tabs g \<noteq> [])
        (map (\<lambda>g. stripPanelFromGroup g panelId) (ts_floating st))\<rparr>"

definition addPanelToGroup :: "tab_groups \<Rightarrow> string \<Rightarrow> position \<Rightarrow> int option \<Rightarrow> tab_groups" where
  "addPanelToGroup st panelId position insertIndex =
     (let cleaned = stripPanelFromAllGroups st panelId
      in case position of
           AtRight \<Rightarrow> cleaned\<lparr>ts_right := insertPanelIntoGroup (ts_right cleaned) panelId insertIndex\<rparr>
         | AtBottom \<Rightarrow> cleaned\<lparr>ts_bottom := insertPanelIntoGroup (ts_bottom cleaned) panelId insertIndex\<rparr>
         | AtFloating \<Rightarrow>
             cleaned\<lparr>ts_floating := ts_floating cleaned @
               [\<lparr>tg_tabs = [panelId], tg_active = Some panelId, fg_id = nextFloatingGroupId cleaned\<rparr>]\<rparr>)"

definition getGroupForPanel :: "tab_groups \<Rightarrow> string \<Rightarrow> string option" where
  "getGroupForPanel st panelId =
     (if panelId \<in> set (tg_tabs (ts_right st)) then Some ''right''
      else if panelId \<in> set (tg_tabs (ts_bottom st)) then Some ''bottom''
      else map_option fg_id (find (\<lambda>g. panelId \<in> set (tg_tabs g)) (ts_floating st)))"

definition getPanelPosition :: "tab_groups \<Rightarrow> string \<Rightarrow> position option" where
  "getPanelPosition st panelId =
     map_option (\<lambda>key. if key = ''right'' then AtRight else if key = ''bottom'' then AtBottom else AtFloating)
       (getGroupForPanel st panelId)"

definition removePanelFromGroup :: "tab_groups \<Rightarrow> string \<Rightarrow> adjacent_preference \<Rightarrow> tab_groups" where
  "removePanelFromGroup st panelId preference =
     (case getGroupForPanel st panelId of
        None \<Rightarrow> st
      | Some groupKey \<Rightarrow>
          if groupKey = ''right''
          then st\<lparr>ts_right := removePanelWithAdjacentActivation (ts_right st) panelId preference\<rparr>
          else if groupKey = ''bottom''
          then st\<lparr>ts_bottom := removePanelWithAdjacentActivation (ts_bottom st) panelId preference\<rparr>
          else st\<lparr>ts_floating := concat (map (\<lambda>g.
                 if fg_id g \<noteq> groupKey then [g]
                 else let remaining = removePanelWithAdjacentActivation g panelId preference
                      in if tg_tabs remaining \<noteq> [] then [remaining] else []) (ts_floating st))\<rparr>)"

definition setActiveTab :: "tab_groups \<Rightarrow> string \<Rightarrow> string \<Rightarrow> tab_groups" where
  "setActiveTab st panelId groupKey =
     (if groupKey = ''right'' then st\<lparr>ts_right := (ts_right st)\<lparr>tg_active := Some panelId\<rparr>\<rparr>
      else if groupKey = ''bottom'' then st\<lparr>ts_bottom := (ts_bottom st)\<lparr>tg_active := Some panelId\<rparr>\<rparr>
      else st\<lparr>ts_floating := map (\<lambda>g. if fg_id g = groupKey then g\<lparr>tg_active := Some panelId\<rparr> else g)
                (ts_floating st)\<rparr>)"

definition reorder_tabs :: "string \<Rightarrow> int \<Rightarrow> string list \<Rightarrow> string list" where
  "reorder_tabs panelId newIndex tabs =
     (case index_of panelId tabs of
        None \<Rightarrow> tabs
      | Some i \<Rightarrow> splice_insert (take i tabs @ drop (Suc i) tabs) newIndex panelId)"

definition reorderTab :: "tab_groups \<Rightarrow> string \<Rightarrow> string \<Rightarrow> int \<Rightarrow> tab_groups" where
  "reorderTab st groupKey panelId newIndex =
     (if groupKey = ''right''
      then st\<lparr>ts_right := (ts_right st)\<lparr>tg_tabs := reorder_tabs panelId newIndex (tg_tabs (ts_right st))\<rparr>\<rparr>
      else if groupKey = ''bottom''
      then st\<lparr>ts_bottom := (ts_bottom st)\<lparr>tg_tabs := reorder_tabs panelId newIndex (tg_tabs (ts_bottom st))\<rparr>\<rparr>
      else st\<lparr>ts_floating := map (\<lambda>g. if fg_id g = groupKey
                then g\<lparr>tg_tabs := reorder_tabs panelId newIndex (tg_tabs g)\<rparr> else g) (ts_floating st)\<rparr>)"

definition addPanelToFloatingGroup :: "tab_groups \<Rightarrow> string \<Rightarrow> string \<Rightarrow> int option \<Rightarrow> tab_groups" where
  "addPanelToFloatingGroup st panelId groupId insertIndex =
     (let cleaned = stripPanelFromAllGroups st panelId
      in if list_ex (\<lambda>g. fg_id g = groupId) (ts_floating cleaned)
         then cleaned\<lparr>ts_floating := map (\<lambda>g. if fg_id g \<noteq> groupId then g
                else insertPanelIntoGroup g panelId insertIndex) (ts_floating cleaned)\<rparr>
         else addPanelToGroup cleaned panelId AtFloating None)"

definition movePanelToGroup :: "tab_groups \<Rightarrow> string \<Rightarrow> string \<Rightarrow> int option \<Rightarrow> tab_groups" where
  "movePanelToGroup st panelId target insertIndex =
     (let removed = removePanelFromGroup st panelId PreferRight
      in if target = ''right'' then addPanelToGroup removed panelId AtRight insertIndex
         else if target = ''bottom'' then addPanelToGroup removed panelId AtBottom insertIndex
         else if target = ''floating'' then addPanelToGroup removed panelId AtFloating insertIndex
         else addPanelToFloatingGroup removed panelId target insertIndex)"

definition getGroupTabs :: "tab_groups \<Rightarrow> string \<Rightarrow> (string list \<times> string option) option" where
  "getGroupTabs st groupKey =
     (if groupKey = ''right'' then Some (tg_tabs (ts_right st), tg_active (ts_right st))
      else if groupKey = ''bottom'' then Some (tg_tabs (ts_bottom st), tg_active (ts_bottom st))
      else map_option (\<lambda>g. (tg_tabs g, tg_active g)) (find (\<lambda>g. fg_id g = groupKey) (ts_floating st)))"

end
