(* ===== verification/Tab_Placement.thy ===== *)
theory Tab_Placement
  imports Tab_Groups
begin

text \<open>
  What the tab group operations guarantee. A state is read as a map from group keys to their tabs and
  active tab (\<open>getGroupTabs\<close>); every operation is first described by its effect on that map, and the
  invariant and the placement of panels follow from these descriptions.
\<close>

section \<open>The state as a map\<close>

definition all_groups :: "tab_groups \<Rightarrow> (string \<times> string list \<times> string option) list" where
  "all_groups st =
     (''right'', tg_tabs (ts_right st), tg_active (ts_right st)) #
     (''bottom'', tg_tabs (ts_bottom st), tg_active (ts_bottom st)) #
     map (\<lambda>g. (fg_id g, tg_tabs g, tg_active g)) (ts_floating st)"

definition docked :: "string \<Rightarrow> bool" where
  "docked k \<longleftrightarrow> k = ''right'' \<or> k = ''bottom''"

definition active_ok :: "string list \<Rightarrow> string option \<Rightarrow> bool" where
  "active_ok tabs active = (case active of None \<Rightarrow> tabs = [] | Some a \<Rightarrow> a \<in> set tabs)"

definition ids_ok :: "tab_groups \<Rightarrow> bool" where
  "ids_ok st \<longleftrightarrow> distinct (map fg_id (ts_floating st)) \<and>
     list_all (\<lambda>g. \<not> docked (fg_id g) \<and> fg_id g \<noteq> ''floating'') (ts_floating st)"

text \<open>Group ids are distinct and not reserved, no panel occurs twice, the active tab of a group is one of its
  tabs (and there is none exactly when the group is empty), and there is no empty floating group.\<close>

definition tab_inv :: "tab_groups \<Rightarrow> bool" where
  "tab_inv st \<longleftrightarrow> ids_ok st \<and>
     distinct (concat (map (\<lambda>(k, tabs, active). tabs) (all_groups st))) \<and>
     list_all (\<lambda>(k, tabs, active). active_ok tabs active \<and> (docked k \<or> tabs \<noteq> [])) (all_groups st)"

definition tabs_of :: "tab_groups \<Rightarrow> string \<Rightarrow> string list" where
  "tabs_of st k = (case getGroupTabs st k of None \<Rightarrow> [] | Some (tabs, active) \<Rightarrow> tabs)"

definition active_of :: "tab_groups \<Rightarrow> string \<Rightarrow> string option" where
  "active_of st k = (case getGroupTabs st k of None \<Rightarrow> None | Some (tabs, active) \<Rightarrow> active)"

lemma docked_keys [simp]: "docked ''right''" "docked ''bottom''" "\<not> docked ''floating''"
  by (simp_all add: docked_def)

lemma getGroupTabs_map_of: "getGroupTabs st k = map_of (all_groups st) k"
proof -
  have "map_option (\<lambda>g. (tg_tabs g, tg_active g)) (find (\<lambda>g. fg_id g = k) gs) =
      map_of (map (\<lambda>g. (fg_id g, tg_tabs g, tg_active g)) gs) k" for gs :: "floating_group list"
    by (induction gs) auto
  then show ?thesis by (simp add: getGroupTabs_def all_groups_def)
qed

lemma all_groups_distinct: "ids_ok st \<Longrightarrow> distinct (map fst (all_groups st))"
  by (auto simp: ids_ok_def all_groups_def docked_def list_all_iff o_def)

lemma getGroupTabs_iff:
  "ids_ok st \<Longrightarrow> getGroupTabs st k = Some v \<longleftrightarrow> (k, v) \<in> set (all_groups st)"
  by (simp add: getGroupTabs_map_of all_groups_distinct)

lemma distinct_concat_keyed:
  assumes "distinct (map fst gs)"
  shows "distinct (concat (map f gs)) \<longleftrightarrow>
     (\<forall>g \<in> set gs. distinct (f g)) \<and>
     (\<forall>g \<in> set gs. \<forall>h \<in> set gs. fst g \<noteq> fst h \<longrightarrow> set (f g) \<inter> set (f h) = {})"
  using assms
proof (induction gs)
  case (Cons g gs)
  have fresh: "fst h \<noteq> fst g" "fst g \<noteq> fst h" if "h \<in> set gs" for h
    using that Cons.prems by (auto simp: image_iff)
  have "set (f g) \<inter> (\<Union>h \<in> set gs. set (f h)) = {} \<longleftrightarrow> (\<forall>h \<in> set gs. set (f g) \<inter> set (f h) = {})" by blast
  moreover have "distinct (concat (map f gs)) \<longleftrightarrow> (\<forall>g \<in> set gs. distinct (f g)) \<and>
      (\<forall>g \<in> set gs. \<forall>h \<in> set gs. fst g \<noteq> fst h \<longrightarrow> set (f g) \<inter> set (f h) = {})"
    using Cons by simp
  ultimately show ?case using fresh by (simp add: Int_commute [of _ "set (f g)"]) blast
qed simp

lemma tab_inv_iff:
  "tab_inv st \<longleftrightarrow> ids_ok st \<and>
     (\<forall>k t a. getGroupTabs st k = Some (t, a) \<longrightarrow> distinct t \<and> active_ok t a \<and> (docked k \<or> t \<noteq> [])) \<and>
     (\<forall>k t a k' t' a'. getGroupTabs st k = Some (t, a) \<longrightarrow> getGroupTabs st k' = Some (t', a') \<longrightarrow>
        k \<noteq> k' \<longrightarrow> set t \<inter> set t' = {})"
proof (cases "ids_ok st")
  case True
  note keyed = distinct_concat_keyed [OF all_groups_distinct [OF True]]
  show ?thesis
    unfolding tab_inv_def keyed list_all_iff getGroupTabs_iff [OF True] Ball_def split_paired_All prod.case fst_conv
    using True by blast
qed (simp add: tab_inv_def)

text \<open>Where a panel is: the one group that has it.\<close>

lemma getGroupForPanel_find:
  "getGroupForPanel st p = map_option fst (find (\<lambda>(k, t, a). p \<in> set t) (all_groups st))"
proof -
  have "map_option fg_id (find (\<lambda>g. p \<in> set (tg_tabs g)) gs) =
      map_option fst (find (\<lambda>(k, t, a). p \<in> set t) (map (\<lambda>g. (fg_id g, tg_tabs g, tg_active g)) gs))"
    for gs :: "floating_group list"
    by (induction gs) auto
  then show ?thesis by (simp add: getGroupForPanel_def all_groups_def)
qed

lemma tabs_of_iff: "p \<in> set (tabs_of st k) \<longleftrightarrow> (\<exists>t a. getGroupTabs st k = Some (t, a) \<and> p \<in> set t)"
  by (cases "getGroupTabs st k") (auto simp: tabs_of_def)

lemma getGroupForPanel_iff:
  assumes "tab_inv st"
  shows "getGroupForPanel st p = Some k \<longleftrightarrow> p \<in> set (tabs_of st k)"
proof
  have ids: "ids_ok st" using assms by (simp add: tab_inv_def)
  show "p \<in> set (tabs_of st k)" if "getGroupForPanel st p = Some k"
    using that getGroupTabs_iff [OF ids] nth_mem
    by (force simp: getGroupForPanel_find tabs_of_iff find_Some_iff)
  show "getGroupForPanel st p = Some k" if has: "p \<in> set (tabs_of st k)"
  proof -
    obtain t a where v: "getGroupTabs st k = Some (t, a)" "p \<in> set t" using has by (auto simp: tabs_of_iff)
    then have "find (\<lambda>(k, t, a). p \<in> set t) (all_groups st) \<noteq> None"
      by (auto simp: getGroupTabs_iff [OF ids] find_None_iff)
    then obtain k' t' a' where f: "find (\<lambda>(k, t, a). p \<in> set t) (all_groups st) = Some (k', t', a')" by auto
    then have "getGroupTabs st k' = Some (t', a')" "p \<in> set t'"
      using nth_mem by (force simp: getGroupTabs_iff [OF ids] find_Some_iff)+
    with v assms have "k' = k" unfolding tab_inv_iff by blast
    with f show ?thesis by (simp add: getGroupForPanel_find)
  qed
qed

lemma getGroupForPanel_None: "tab_inv st \<Longrightarrow> getGroupForPanel st p = None \<longleftrightarrow> (\<forall>k. p \<notin> set (tabs_of st k))"
  by (metis getGroupForPanel_iff not_None_eq)

section \<open>Operations as updates of the map\<close>

text \<open>Every operation on the floating list changes or drops groups one by one and keeps their ids.\<close>

definition keeps_id :: "(floating_group \<Rightarrow> floating_group option) \<Rightarrow> bool" where
  "keeps_id h \<longleftrightarrow> (\<forall>g g'. h g = Some g' \<longrightarrow> fg_id g' = fg_id g)"

lemma find_id_map_filter:
  assumes "distinct (map fg_id gs)" "keeps_id h"
  shows "find (\<lambda>g. fg_id g = k) (List.map_filter h gs) = Option.bind (find (\<lambda>g. fg_id g = k) gs) h"
  using assms(1)
proof (induction gs)
  case (Cons g gs)
  have absent: "find (\<lambda>g. fg_id g = k) gs = None" if "fg_id g = k"
    using that Cons.prems by (auto simp: find_None_iff image_iff)
  show ?case
    using Cons absent assms(2) by (cases "h g") (auto simp: map_filter_simps keeps_id_def)
qed (simp add: map_filter_simps)

lemma ids_ok_map_filter:
  assumes "ids_ok st" "keeps_id h" "ts_floating st' = List.map_filter h (ts_floating st)"
  shows "ids_ok st'"
proof -
  have "set (map fg_id (List.map_filter h gs)) \<subseteq> set (map fg_id gs)" for gs
    using assms(2) by (induction gs) (auto simp: map_filter_simps keeps_id_def split: option.splits)
  moreover from this have "distinct (map fg_id gs) \<Longrightarrow> distinct (map fg_id (List.map_filter h gs))" for gs
    using assms(2) by (induction gs) (auto simp: map_filter_simps keeps_id_def split: option.splits)
  ultimately show ?thesis
    using assms(1,3) unfolding ids_ok_def list_all_iff by (simp add: subset_iff image_iff) metis
qed

lemma map_as_map_filter: "map f gs = List.map_filter (\<lambda>g. Some (f g)) gs"
  by (induction gs) (auto simp: map_filter_simps)

lemma filter_map_as_map_filter:
  "filter P (map f gs) = List.map_filter (\<lambda>g. if P (f g) then Some (f g) else None) gs"
  by (induction gs) (auto simp: map_filter_simps)

lemma concat_as_map_filter:
  assumes "\<And>g. F g = (case h g of None \<Rightarrow> [] | Some x \<Rightarrow> [x])"
  shows "concat (map F gs) = List.map_filter h gs"
  by (induction gs) (auto simp: map_filter_simps assms split: option.split)

lemma find_SomeD: "find P xs = Some x \<Longrightarrow> P x \<and> x \<in> set xs"
  by (auto simp: find_Some_iff)

definition view :: "'a tab_group_scheme \<Rightarrow> string list \<times> string option" where
  "view g = (tg_tabs g, tg_active g)"

text \<open>The tabs and the active tab of a group after one of the group operations, given those before.\<close>

definition strip_view :: "string \<Rightarrow> string list \<times> string option \<Rightarrow> string list \<times> string option" where
  "strip_view p v = view (stripPanelFromGroup \<lparr>tg_tabs = fst v, tg_active = snd v\<rparr> p)"

definition insert_view :: "string \<Rightarrow> int option \<Rightarrow> string list \<times> string option \<Rightarrow> string list \<times> string option" where
  "insert_view p i v = view (insertPanelIntoGroup \<lparr>tg_tabs = fst v, tg_active = snd v\<rparr> p i)"

definition remove_view ::
    "string \<Rightarrow> adjacent_preference \<Rightarrow> string list \<times> string option \<Rightarrow> string list \<times> string option" where
  "remove_view p pref v = view (removePanelWithAdjacentActivation \<lparr>tg_tabs = fst v, tg_active = snd v\<rparr> p pref)"

text \<open>A floating group that has become empty is dropped.\<close>

definition keep_nonempty :: "string \<Rightarrow> string list \<times> string option \<Rightarrow> (string list \<times> string option) option" where
  "keep_nonempty k v = (if docked k \<or> fst v \<noteq> [] then Some v else None)"

lemmas view_defs = view_def strip_view_def insert_view_def remove_view_def keep_nonempty_def
  stripPanelFromGroup_def insertPanelIntoGroup_def removePanelWithAdjacentActivation_def Let_def

lemma getGroupTabs_view:
  "getGroupTabs st k =
     (if k = ''right'' then Some (view (ts_right st))
      else if k = ''bottom'' then Some (view (ts_bottom st))
      else map_option view (find (\<lambda>g. fg_id g = k) (ts_floating st)))"
  by (simp add: getGroupTabs_def view_def fun_eq_iff cong: option.map_cong)

lemma getGroupTabs_floating_update:
  assumes "ids_ok st" "keeps_id h" "ts_floating st' = List.map_filter h (ts_floating st)" "\<not> docked k"
  shows "getGroupTabs st' k = map_option view (Option.bind (find (\<lambda>g. fg_id g = k) (ts_floating st)) h)"
  using assms find_id_map_filter [of "ts_floating st" h k]
  by (auto simp: getGroupTabs_view docked_def ids_ok_def)

definition strip_floating :: "string \<Rightarrow> floating_group \<Rightarrow> floating_group option" where
  "strip_floating p g =
     (if tg_tabs (stripPanelFromGroup g p) \<noteq> [] then Some (stripPanelFromGroup g p) else None)"

lemma keeps_id_strip: "keeps_id (strip_floating p)"
  by (simp add: keeps_id_def strip_floating_def stripPanelFromGroup_def Let_def)

lemma strip_as_map_filter:
  "ts_floating (stripPanelFromAllGroups st p) = List.map_filter (strip_floating p) (ts_floating st)"
  by (simp add: stripPanelFromAllGroups_def filter_map_as_map_filter strip_floating_def [abs_def])

lemmas strip_ids_ok = ids_ok_map_filter [OF _ keeps_id_strip strip_as_map_filter]

lemma getGroupTabs_strip:
  assumes "ids_ok st"
  shows "getGroupTabs (stripPanelFromAllGroups st p) k =
     Option.bind (getGroupTabs st k) (\<lambda>v. keep_nonempty k (strip_view p v))"
proof (cases "docked k")
  case True
  then show ?thesis
    by (auto simp: docked_def getGroupTabs_view stripPanelFromAllGroups_def view_defs)
next
  case False
  show ?thesis
    unfolding getGroupTabs_floating_update [OF assms keeps_id_strip strip_as_map_filter False]
    using False by (cases "find (\<lambda>g. fg_id g = k) (ts_floating st)")
      (auto simp: docked_def getGroupTabs_view strip_floating_def view_defs)
qed

section \<open>Stripping, inserting and removing on the map\<close>

definition remove_floating ::
    "string \<Rightarrow> string \<Rightarrow> adjacent_preference \<Rightarrow> floating_group \<Rightarrow> floating_group option" where
  "remove_floating key p pref g =
     (if fg_id g \<noteq> key then Some g
      else if tg_tabs (removePanelWithAdjacentActivation g p pref) \<noteq> []
      then Some (removePanelWithAdjacentActivation g p pref) else None)"

lemma keeps_id_remove: "keeps_id (remove_floating key p pref)"
  by (simp add: keeps_id_def remove_floating_def removePanelWithAdjacentActivation_def Let_def)

lemma remove_as_map_filter:
  assumes "getGroupForPanel st p = Some key" "\<not> docked key"
  shows "ts_floating (removePanelFromGroup st p pref) =
     List.map_filter (remove_floating key p pref) (ts_floating st)"
  using assms by (auto simp: removePanelFromGroup_def remove_floating_def docked_def Let_def intro: concat_as_map_filter)

lemma ids_ok_same_floating: "ids_ok st \<Longrightarrow> ts_floating st' = ts_floating st \<Longrightarrow> ids_ok st'"
  by (simp add: ids_ok_def)

lemma remove_ids_ok:
  assumes "ids_ok st"
  shows "ids_ok (removePanelFromGroup st p pref)"
proof (cases "\<exists>key. getGroupForPanel st p = Some key \<and> \<not> docked key")
  case True
  then show ?thesis using ids_ok_map_filter [OF assms keeps_id_remove remove_as_map_filter] by blast
next
  case False
  show ?thesis
    by (rule ids_ok_same_floating [OF assms])
      (use False in \<open>auto simp: removePanelFromGroup_def docked_def split: option.splits\<close>)
qed

lemma getGroupTabs_remove:
  assumes "ids_ok st"
  shows "getGroupTabs (removePanelFromGroup st p pref) k =
     (if getGroupForPanel st p = Some k
      then Option.bind (getGroupTabs st k) (\<lambda>v. keep_nonempty k (remove_view p pref v))
      else getGroupTabs st k)"
proof (cases "\<exists>key. getGroupForPanel st p = Some key \<and> \<not> docked key")
  case True
  then obtain key where key: "getGroupForPanel st p = Some key" "\<not> docked key" by blast
  show ?thesis
  proof (cases "docked k")
    case True
    with key show ?thesis by (auto simp: docked_def removePanelFromGroup_def getGroupTabs_view)
  next
    case False
    show ?thesis
      unfolding getGroupTabs_floating_update [OF assms keeps_id_remove remove_as_map_filter [OF key] False]
      using False key by (cases "find (\<lambda>g. fg_id g = k) (ts_floating st)")
        (auto simp: docked_def getGroupTabs_view remove_floating_def view_defs dest: find_SomeD)
  qed
next
  case False
  then show ?thesis
    by (auto simp: docked_def removePanelFromGroup_def getGroupTabs_view view_defs split: option.splits)
qed

section \<open>A fresh floating id\<close>

lemma first_unused_fresh: "floating_id (first_unused used c) \<notin> set used"
  by (induction used c rule: first_unused.induct) (metis first_unused.simps)

lemma nextFloatingGroupId_fresh:
  "nextFloatingGroupId st \<notin> fg_id ` set (ts_floating st)"
  "\<not> docked (nextFloatingGroupId st)" "nextFloatingGroupId st \<noteq> ''floating''"
  using first_unused_fresh [of "map fg_id (ts_floating st)"]
  by (simp_all add: nextFloatingGroupId_def Let_def docked_def) (simp add: floating_id_def)+

section \<open>A panel that is nowhere\<close>

definition absent :: "tab_groups \<Rightarrow> string \<Rightarrow> bool" where
  "absent st p \<longleftrightarrow> (\<forall>k. p \<notin> set (tabs_of st k))"

lemma strip_view_tabs [simp]: "fst (strip_view p v) = filter (\<lambda>t. t \<noteq> p) (fst v)"
  and remove_view_tabs [simp]: "fst (remove_view p pref v) = filter (\<lambda>t. t \<noteq> p) (fst v)"
  by (simp_all add: view_defs)

lemma last_tab_ok: "active_ok tabs (last_tab tabs)"
  by (simp add: active_ok_def last_tab_def)

lemma strip_view_ok: "active_ok (fst (strip_view p v)) (snd (strip_view p v))" if "active_ok (fst v) (snd v)"
  using that last_tab_ok by (auto simp: view_defs active_ok_def last_tab_def split: option.splits)

lemma tabs_of_strip: "ids_ok st \<Longrightarrow> tabs_of (stripPanelFromAllGroups st p) k = filter (\<lambda>t. t \<noteq> p) (tabs_of st k)"
  by (cases "getGroupTabs st k") (auto simp: tabs_of_def getGroupTabs_strip keep_nonempty_def strip_view_def view_def
      stripPanelFromGroup_def Let_def)

lemma strip_absent: "ids_ok st \<Longrightarrow> absent (stripPanelFromAllGroups st p) p"
  by (simp add: absent_def tabs_of_strip)

lemma tab_inv_shrink:
  assumes "tab_inv st" "ids_ok st'"
    and "\<And>k v'. getGroupTabs st' k = Some v' \<Longrightarrow> \<exists>v. getGroupTabs st k = Some v \<and>
      fst v' = filter (\<lambda>t. t \<noteq> p) (fst v) \<and> active_ok (fst v') (snd v') \<and> (docked k \<or> fst v' \<noteq> [])"
  shows "tab_inv st'"
proof -
  have "distinct t' \<and> active_ok t' a' \<and> (docked k \<or> t' \<noteq> [])" if "getGroupTabs st' k = Some (t', a')" for k t' a'
    using assms(3) [OF that] assms(1) unfolding tab_inv_iff by (metis distinct_filter fst_conv snd_conv surj_pair)
  moreover have "set t \<inter> set u = {}"
    if k: "getGroupTabs st' k = Some (t, a)" and l: "getGroupTabs st' l = Some (u, b)" and "k \<noteq> l" for k l t u a b
  proof -
    obtain v w where "getGroupTabs st k = Some v" "getGroupTabs st l = Some w"
      "set t \<subseteq> set (fst v)" "set u \<subseteq> set (fst w)"
      using assms(3) [OF k] assms(3) [OF l] by auto
    with \<open>k \<noteq> l\<close> assms(1) show ?thesis unfolding tab_inv_iff
      by (metis inf_mono le_bot prod.collapse)
  qed
  ultimately show ?thesis using assms(2) unfolding tab_inv_iff by blast
qed

lemma tab_inv_ids [dest]: "tab_inv st \<Longrightarrow> ids_ok st"
  by (simp add: tab_inv_def)

lemma tab_inv_active: "tab_inv st \<Longrightarrow> getGroupTabs st k = Some v \<Longrightarrow> active_ok (fst v) (snd v)"
  by (cases v) (simp add: tab_inv_iff)

lemma strip_inv:
  assumes "tab_inv st"
  shows "tab_inv (stripPanelFromAllGroups st p)"
proof (rule tab_inv_shrink [OF assms])
  show ids: "ids_ok (stripPanelFromAllGroups st p)" using assms by (blast intro: strip_ids_ok)
  fix k v' assume "getGroupTabs (stripPanelFromAllGroups st p) k = Some v'"
  then obtain v where "getGroupTabs st k = Some v" "keep_nonempty k (strip_view p v) = Some v'"
    unfolding getGroupTabs_strip [OF tab_inv_ids [OF assms]] bind_eq_Some_conv by blast
  then show "\<exists>v. getGroupTabs st k = Some v \<and> fst v' = filter (\<lambda>t. t \<noteq> p) (fst v) \<and>
      active_ok (fst v') (snd v') \<and> (docked k \<or> fst v' \<noteq> [])"
    using strip_view_ok [OF tab_inv_active [OF assms], of k v p]
    by (auto simp: keep_nonempty_def split: if_splits)
qed

lemma stripPanelFromGroup_absent:
  "p \<notin> set (tg_tabs g) \<Longrightarrow> active_ok (tg_tabs g) (tg_active g) \<Longrightarrow> stripPanelFromGroup g p = g"
  by (cases g) (auto simp: stripPanelFromGroup_def Let_def active_ok_def last_tab_def filter_id_conv
      split: option.splits)

lemma floating_entry:
  "ids_ok st \<Longrightarrow> g \<in> set (ts_floating st) \<Longrightarrow> getGroupTabs st (fg_id g) = Some (tg_tabs g, tg_active g)"
  by (auto simp: getGroupTabs_iff all_groups_def)

lemma strip_absent_id:
  assumes "tab_inv st" "absent st p"
  shows "stripPanelFromAllGroups st p = st"
proof -
  have entry: "stripPanelFromGroup g p = g \<and> tg_tabs g \<noteq> []" if "g \<in> set (ts_floating st)" for g
  proof -
    have v: "getGroupTabs st (fg_id g) = Some (tg_tabs g, tg_active g)"
      using that assms(1) floating_entry by blast
    moreover have "\<not> docked (fg_id g)" using that assms(1) by (auto simp: tab_inv_def ids_ok_def list_all_iff)
    ultimately show ?thesis
      using assms unfolding tab_inv_iff absent_def tabs_of_iff by (blast intro: stripPanelFromGroup_absent)
  qed
  have "stripPanelFromGroup (ts_right st) p = ts_right st" "stripPanelFromGroup (ts_bottom st) p = ts_bottom st"
    using assms getGroupTabs_def [of st "''right''"] getGroupTabs_def [of st "''bottom''"]
    by (auto simp: tab_inv_iff absent_def tabs_of_iff intro!: stripPanelFromGroup_absent)
  moreover have "map (\<lambda>g. stripPanelFromGroup g p) (ts_floating st) = ts_floating st"
    using entry by (simp add: map_idI)
  moreover have "filter (\<lambda>g. tg_tabs g \<noteq> []) (ts_floating st) = ts_floating st"
    using entry by (simp add: filter_id_conv)
  ultimately show ?thesis by (simp add: stripPanelFromAllGroups_def)
qed

end
