(* ===== verification/Tab_Contracts.thy ===== *)
theory Tab_Contracts
  imports Tab_Placement
begin

text \<open>
  Properties of the tab groups: the invariant over every sequence of operations, where a panel is and how
  the tabs are ordered after a move, and which tab becomes active when a panel is removed.
\<close>

section \<open>Removing a panel\<close>

lemma tab_at_append: "tab_at (xs @ ys) (int (length xs)) = (if ys = [] then None else Some (hd ys))"
  "tab_at (xs @ ys) (int (length xs) - 1) = (if xs = [] then None else Some (last xs))"
proof -
  show "tab_at (xs @ ys) (int (length xs)) = (if ys = [] then None else Some (hd ys))"
    by (simp add: tab_at_def hd_conv_nth nth_append)
  show "tab_at (xs @ ys) (int (length xs) - 1) = (if xs = [] then None else Some (last xs))"
    by (cases xs rule: rev_cases) (simp_all add: tab_at_def nth_append)
qed

text \<open>The neighbour that becomes active when the active tab between \<open>xs\<close> and \<open>ys\<close> goes.\<close>

definition neighbour :: "adjacent_preference \<Rightarrow> string list \<Rightarrow> string list \<Rightarrow> string option" where
  "neighbour pref xs ys =
     (case pref of
        PreferRight \<Rightarrow> (if ys \<noteq> [] then Some (hd ys) else if xs \<noteq> [] then Some (last xs) else None)
      | PreferLeft \<Rightarrow> (if xs \<noteq> [] then Some (last xs) else if ys \<noteq> [] then Some (hd ys) else None))"

lemma remove_view_between:
  assumes "distinct (xs @ p # ys)" "active_ok (xs @ p # ys) a"
  shows "remove_view p pref (xs @ p # ys, a) = (xs @ ys, if a = Some p then neighbour pref xs ys else a)"
proof -
  have f: "filter (\<lambda>t. t \<noteq> p) xs = xs" "filter (\<lambda>t. t \<noteq> p) ys = ys" "p \<notin> set xs"
    using assms(1) by (auto simp: filter_id_conv)
  then show ?thesis using assms(2)
    by (auto simp: view_defs activateAdjacentTab_def tab_at_append neighbour_def or_tab_def active_ok_def
        split: adjacent_preference.split option.splits)
qed

lemma neighbour_ok: "active_ok (xs @ ys) (neighbour pref xs ys)"
  by (simp add: active_ok_def neighbour_def split: adjacent_preference.split)

lemma remove_view_ok:
  assumes "distinct (fst v)" "active_ok (fst v) (snd v)" "p \<in> set (fst v)"
  shows "active_ok (fst (remove_view p pref v)) (snd (remove_view p pref v))"
proof -
  obtain xs ys where v: "fst v = xs @ p # ys" using assms(3) by (auto dest: split_list)
  then have "remove_view p pref v = (xs @ ys, if snd v = Some p then neighbour pref xs ys else snd v)"
    using remove_view_between [of xs p ys "snd v" pref] assms by (cases v) simp
  moreover have "active_ok (xs @ ys) (snd v)" if "snd v \<noteq> Some p"
    using that assms(2) v by (auto simp: active_ok_def split: option.splits)
  ultimately show ?thesis using neighbour_ok [of xs ys pref] by simp
qed

lemma remove_inv:
  assumes "tab_inv st"
  shows "tab_inv (removePanelFromGroup st p pref)"
proof (rule tab_inv_shrink [OF assms])
  show ids: "ids_ok (removePanelFromGroup st p pref)" using assms by (blast intro: remove_ids_ok)
  fix k v' assume v': "getGroupTabs (removePanelFromGroup st p pref) k = Some v'"
  show "\<exists>v. getGroupTabs st k = Some v \<and> fst v' = filter (\<lambda>t. t \<noteq> p) (fst v) \<and>
      active_ok (fst v') (snd v') \<and> (docked k \<or> fst v' \<noteq> [])"
  proof (cases "getGroupForPanel st p = Some k")
    case True
    then obtain v where v: "getGroupTabs st k = Some v" "keep_nonempty k (remove_view p pref v) = Some v'"
      using v' unfolding getGroupTabs_remove [OF tab_inv_ids [OF assms]] by (auto simp: bind_eq_Some_conv)
    have "p \<in> set (fst v)" using True v(1) getGroupForPanel_iff [OF assms, of p k] by (cases v) (simp add: tabs_of_def)
    moreover have "distinct (fst v)" "active_ok (fst v) (snd v)" using v(1) assms by (cases v; simp add: tab_inv_iff)+
    ultimately show ?thesis
      using v remove_view_ok [of v p pref] by (auto simp: keep_nonempty_def split: if_splits)
  next
    case False
    then have v: "getGroupTabs st k = Some v'"
      using v' unfolding getGroupTabs_remove [OF tab_inv_ids [OF assms]] by simp
    have "p \<notin> set (fst v')" using False v getGroupForPanel_iff [OF assms, of p k] by (cases v') (simp add: tabs_of_def)
    then have "filter (\<lambda>t. t \<noteq> p) (fst v') = fst v'" by (auto simp: filter_id_conv)
    then show ?thesis using v assms by (cases v') (auto simp: tab_inv_iff)
  qed
qed

lemma tabs_of_remove:
  assumes "tab_inv st"
  shows "tabs_of (removePanelFromGroup st p pref) k = filter (\<lambda>t. t \<noteq> p) (tabs_of st k)"
proof (cases "getGroupForPanel st p = Some k")
  case True
  then obtain v where v: "getGroupTabs st k = Some v"
    using getGroupForPanel_iff [OF assms] by (auto simp: tabs_of_iff)
  have "remove_view p pref v = (filter (\<lambda>t. t \<noteq> p) (fst v), snd (remove_view p pref v))"
    by (simp add: prod_eq_iff)
  then show ?thesis using True v
    unfolding tabs_of_def getGroupTabs_remove [OF tab_inv_ids [OF assms]]
    by (cases v) (auto simp: keep_nonempty_def split: prod.split)
next
  case False
  then have "p \<notin> set (tabs_of st k)" using getGroupForPanel_iff [OF assms] by simp
  then have "filter (\<lambda>t. t \<noteq> p) (tabs_of st k) = tabs_of st k" by (auto simp: filter_id_conv)
  moreover have "tabs_of (removePanelFromGroup st p pref) k = tabs_of st k"
    unfolding tabs_of_def getGroupTabs_remove [OF tab_inv_ids [OF assms]] using False by simp
  ultimately show ?thesis by simp
qed

lemma remove_absent: "tab_inv st \<Longrightarrow> absent (removePanelFromGroup st p pref) p"
  by (simp add: absent_def tabs_of_remove)

section \<open>Inserting a panel that is nowhere\<close>

definition view_at :: "tab_groups \<Rightarrow> string \<Rightarrow> string list \<times> string option" where
  "view_at st k = (tabs_of st k, active_of st k)"

definition inserted_at :: "tab_groups \<Rightarrow> tab_groups \<Rightarrow> string \<Rightarrow> string \<Rightarrow> int option \<Rightarrow> bool" where
  "inserted_at st st' p dest i \<longleftrightarrow> ids_ok st' \<and>
     getGroupTabs st' = (getGroupTabs st)(dest \<mapsto> insert_view p i (view_at st dest))"

definition insert_tabs :: "string \<Rightarrow> int option \<Rightarrow> string list \<Rightarrow> string list" where
  "insert_tabs p i tabs = splice_insert tabs (case i of None \<Rightarrow> int (length tabs) | Some j \<Rightarrow> j) p"

lemma insert_view_eq: "insert_view p i v = (insert_tabs p i (fst v), Some p)"
  by (cases i) (simp_all add: view_defs insert_tabs_def)

lemma view_insert: "view (insertPanelIntoGroup g p i) = insert_view p i (view g)"
  by (cases i) (simp_all add: view_defs)

lemma view_at_eq: "getGroupTabs st k = Some v \<Longrightarrow> view_at st k = v"
  by (cases v) (simp add: view_at_def tabs_of_def active_of_def)

lemma view_at_docked [simp]:
  "view_at st ''right'' = view (ts_right st)" "view_at st ''bottom'' = view (ts_bottom st)"
  by (rule view_at_eq; simp add: getGroupTabs_view)+

lemma insert_tabs_empty [simp]: "insert_tabs p i [] = [p]"
  by (simp add: insert_tabs_def splice_insert_def Let_def)

lemma insert_tabs_set [simp]: "set (insert_tabs p i tabs) = insert p (set tabs)"
  and insert_tabs_distinct [simp]: "distinct (insert_tabs p i tabs) \<longleftrightarrow> distinct tabs \<and> p \<notin> set tabs"
  by (simp_all add: insert_tabs_def)

lemma insert_tabs_nonempty [simp]: "insert_tabs p i tabs \<noteq> []"
  using insert_tabs_set [of p i tabs] by (metis empty_set insert_not_empty)

lemma tabs_of_inserted:
  "inserted_at st st' p dest i \<Longrightarrow>
     tabs_of st' k = (if k = dest then insert_tabs p i (tabs_of st k) else tabs_of st k)"
  by (simp add: inserted_at_def tabs_of_def insert_view_eq view_at_def)

lemma tabs_of_distinct: "tab_inv st \<Longrightarrow> distinct (tabs_of st k)"
  by (cases "getGroupTabs st k") (auto simp: tabs_of_def tab_inv_iff)

lemma tabs_of_disjoint: "tab_inv st \<Longrightarrow> k \<noteq> l \<Longrightarrow> set (tabs_of st k) \<inter> set (tabs_of st l) = {}"
  unfolding tab_inv_iff by (auto simp: tabs_of_iff) blast

lemma inserted_inv:
  assumes "tab_inv st" "absent st p" "inserted_at st st' p dest i"
  shows "tab_inv st'"
proof -
  note tabs = tabs_of_inserted [OF assms(3)]
  have entry: "t = tabs_of st' k" if "getGroupTabs st' k = Some (t, a)" for k t a
    using that by (simp add: tabs_of_def)
  have "active_ok t a \<and> (docked k \<or> t \<noteq> [])" if "getGroupTabs st' k = Some (t, a)" for k t a
    using that assms by (auto simp: inserted_at_def insert_view_eq tab_inv_iff active_ok_def split: if_splits)
  moreover have "distinct (tabs_of st' k)" for k
    using tabs_of_distinct [OF assms(1)] assms(2) by (simp add: tabs absent_def)
  moreover have "set (tabs_of st' k) \<inter> set (tabs_of st' l) = {}" if "k \<noteq> l" for k l
    using tabs_of_disjoint [OF assms(1) that] that assms(2) by (auto simp: tabs absent_def)
  ultimately show ?thesis using assms(3) entry unfolding tab_inv_iff inserted_at_def by metis
qed

section \<open>The additions\<close>

definition position_key :: "tab_groups \<Rightarrow> position \<Rightarrow> string" where
  "position_key st pos = (case pos of AtRight \<Rightarrow> ''right'' | AtBottom \<Rightarrow> ''bottom'' | AtFloating \<Rightarrow> nextFloatingGroupId st)"

lemma no_such_group: "\<not> docked k \<Longrightarrow> k \<notin> fg_id ` set (ts_floating st) \<Longrightarrow> getGroupTabs st k = None"
  by (auto simp: getGroupTabs_def docked_def find_None_iff)

lemma ids_ok_append:
  "ids_ok st \<Longrightarrow> ts_floating st' = ts_floating st @ [g] \<Longrightarrow> fg_id g \<notin> fg_id ` set (ts_floating st) \<Longrightarrow>
     \<not> docked (fg_id g) \<Longrightarrow> fg_id g \<noteq> ''floating'' \<Longrightarrow> ids_ok st'"
  by (auto simp: ids_ok_def)

lemma find_append: "find P (xs @ ys) = (case find P xs of None \<Rightarrow> find P ys | Some x \<Rightarrow> Some x)"
  by (induction xs) auto

lemma add_inserted:
  assumes "tab_inv st" "absent st p"
  shows "inserted_at st (addPanelToGroup st p pos i) p (position_key st pos) i"
proof -
  note strip = strip_absent_id [OF assms]
  have ids: "ids_ok st" using assms by blast
  show ?thesis
  proof (cases pos)
    case AtFloating
    let ?id = "nextFloatingGroupId st"
    have none: "getGroupTabs st ?id = None"
      by (rule no_such_group) (fact nextFloatingGroupId_fresh)+
    have "ids_ok (addPanelToGroup st p AtFloating i)"
      by (rule ids_ok_append [OF ids, where g = "\<lparr>tg_tabs = [p], tg_active = Some p, fg_id = ?id\<rparr>"])
        (use nextFloatingGroupId_fresh [of st] in \<open>simp_all add: addPanelToGroup_def strip\<close>)
    moreover have "getGroupTabs (addPanelToGroup st p AtFloating i) k =
        ((getGroupTabs st)(?id \<mapsto> ([p], Some p))) k" for k
      using none nextFloatingGroupId_fresh(2) [of st]
      by (auto simp: addPanelToGroup_def strip getGroupTabs_def find_append docked_def split: option.splits)
    ultimately show ?thesis
      using none AtFloating by (auto simp: inserted_at_def position_key_def insert_view_eq view_at_def tabs_of_def)
  next
    case AtRight
    have "getGroupTabs (addPanelToGroup st p AtRight i) k =
        ((getGroupTabs st)(''right'' \<mapsto> insert_view p i (view_at st ''right''))) k" for k
      by (simp add: addPanelToGroup_def strip getGroupTabs_view view_insert)
    with AtRight show ?thesis
      using ids_ok_same_floating [OF ids] by (auto simp: inserted_at_def position_key_def addPanelToGroup_def strip)
  next
    case AtBottom
    have "getGroupTabs (addPanelToGroup st p AtBottom i) k =
        ((getGroupTabs st)(''bottom'' \<mapsto> insert_view p i (view_at st ''bottom''))) k" for k
      by (simp add: addPanelToGroup_def strip getGroupTabs_view view_insert)
    with AtBottom show ?thesis
      using ids_ok_same_floating [OF ids] by (auto simp: inserted_at_def position_key_def addPanelToGroup_def strip)
  qed
qed

text \<open>Where a panel goes that is added to a given floating group: there, or to a new group when it is gone.\<close>

definition floating_key :: "tab_groups \<Rightarrow> string \<Rightarrow> string" where
  "floating_key st groupId =
     (if groupId \<in> fg_id ` set (ts_floating st) then groupId else nextFloatingGroupId st)"

definition insert_floating :: "string \<Rightarrow> string \<Rightarrow> int option \<Rightarrow> floating_group \<Rightarrow> floating_group option" where
  "insert_floating groupId p i g = Some (if fg_id g \<noteq> groupId then g else insertPanelIntoGroup g p i)"

lemma keeps_id_insert: "keeps_id (insert_floating groupId p i)"
  by (simp add: keeps_id_def insert_floating_def insertPanelIntoGroup_def)

lemma add_floating_inserted:
  assumes "tab_inv st" "absent st p"
  obtains j where "inserted_at st (addPanelToFloatingGroup st p groupId i) p (floating_key st groupId) j"
    and "j = (if groupId \<in> fg_id ` set (ts_floating st) then i else None)"
proof (cases "groupId \<in> fg_id ` set (ts_floating st)")
  case False
  then have "addPanelToFloatingGroup st p groupId i = addPanelToGroup st p AtFloating None"
    by (auto simp: addPanelToFloatingGroup_def strip_absent_id [OF assms] list_ex_iff)
  with False show thesis
    using that add_inserted [OF assms, of AtFloating None] by (simp add: floating_key_def position_key_def)
next
  case True
  let ?st' = "addPanelToFloatingGroup st p groupId i"
  have ids: "ids_ok st" using assms by blast
  obtain g where g: "g \<in> set (ts_floating st)" "fg_id g = groupId" using True by blast
  then have nd: "\<not> docked groupId" using ids by (auto simp: ids_ok_def list_all_iff)
  have st': "?st' = st\<lparr>ts_floating := List.map_filter (insert_floating groupId p i) (ts_floating st)\<rparr>"
    using g unfolding addPanelToFloatingGroup_def strip_absent_id [OF assms] Let_def insert_floating_def [abs_def]
    by (auto simp: list_ex_iff map_as_map_filter)
  then have fl: "ts_floating ?st' = List.map_filter (insert_floating groupId p i) (ts_floating st)" by simp
  have "getGroupTabs ?st' = (getGroupTabs st)(groupId \<mapsto> insert_view p i (view_at st groupId))"
  proof
    fix k show "getGroupTabs ?st' k = ((getGroupTabs st)(groupId \<mapsto> insert_view p i (view_at st groupId))) k"
    proof (cases "docked k")
      case True
      with nd show ?thesis by (auto simp: st' docked_def getGroupTabs_def)
    next
      case False
      have entry: "getGroupTabs st groupId = Some (view g)" using floating_entry [OF ids g(1)] g(2) by (simp add: view_def)
      then show ?thesis
        unfolding getGroupTabs_floating_update [OF ids keeps_id_insert fl False] view_at_eq [OF entry]
        using False nd by (cases "find (\<lambda>g. fg_id g = k) (ts_floating st)")
          (auto simp: docked_def getGroupTabs_view insert_floating_def view_insert dest: find_SomeD)
    qed
  qed
  with True show thesis
    using that [of i] ids_ok_map_filter [OF ids keeps_id_insert fl] by (auto simp: inserted_at_def floating_key_def)
qed

section \<open>Activating and reordering\<close>

definition set_floating_active :: "string \<Rightarrow> string \<Rightarrow> floating_group \<Rightarrow> floating_group option" where
  "set_floating_active p key g = Some (if fg_id g = key then g\<lparr>tg_active := Some p\<rparr> else g)"

definition reorder_floating :: "string \<Rightarrow> string \<Rightarrow> int \<Rightarrow> floating_group \<Rightarrow> floating_group option" where
  "reorder_floating key p n g = Some (if fg_id g = key then g\<lparr>tg_tabs := reorder_tabs p n (tg_tabs g)\<rparr> else g)"

lemma keeps_id_set: "keeps_id (set_floating_active p key)" and keeps_id_reorder: "keeps_id (reorder_floating key p n)"
  by (simp_all add: keeps_id_def set_floating_active_def reorder_floating_def)

lemma set_as_map_filter: "\<not> docked key \<Longrightarrow>
    ts_floating (setActiveTab st p key) = List.map_filter (set_floating_active p key) (ts_floating st)"
  and reorder_as_map_filter: "\<not> docked key \<Longrightarrow>
    ts_floating (reorderTab st key p n) = List.map_filter (reorder_floating key p n) (ts_floating st)"
  by (simp_all add: setActiveTab_def reorderTab_def docked_def map_as_map_filter
      set_floating_active_def [abs_def] reorder_floating_def [abs_def])

lemma set_ids_ok: "ids_ok st \<Longrightarrow> ids_ok (setActiveTab st p key)"
  using ids_ok_map_filter [OF _ keeps_id_set set_as_map_filter, of st key]
  by (cases "docked key") (auto simp: setActiveTab_def docked_def ids_ok_def)

lemma reorder_ids_ok: "ids_ok st \<Longrightarrow> ids_ok (reorderTab st key p n)"
  using ids_ok_map_filter [OF _ keeps_id_reorder reorder_as_map_filter, of st key]
  by (cases "docked key") (auto simp: reorderTab_def docked_def ids_ok_def)

lemma getGroupTabs_setActive:
  assumes "ids_ok st"
  shows "getGroupTabs (setActiveTab st p key) k =
     map_option (\<lambda>v. if k = key then (fst v, Some p) else v) (getGroupTabs st k)"
proof (cases "docked key \<or> docked k")
  case True
  then show ?thesis by (auto simp: setActiveTab_def docked_def getGroupTabs_view view_def option.map_ident)
next
  case False
  then have key: "\<not> docked key" and k: "\<not> docked k" by auto
  show ?thesis
    unfolding getGroupTabs_floating_update [OF assms keeps_id_set set_as_map_filter [OF key] k]
    using k by (cases "find (\<lambda>g. fg_id g = k) (ts_floating st)")
      (auto simp: docked_def getGroupTabs_view set_floating_active_def view_def dest: find_SomeD)
qed

lemma getGroupTabs_reorder:
  assumes "ids_ok st"
  shows "getGroupTabs (reorderTab st key p n) k =
     map_option (\<lambda>v. if k = key then (reorder_tabs p n (fst v), snd v) else v) (getGroupTabs st k)"
proof (cases "docked key \<or> docked k")
  case True
  then show ?thesis by (auto simp: reorderTab_def docked_def getGroupTabs_view view_def option.map_ident)
next
  case False
  then have key: "\<not> docked key" and k: "\<not> docked k" by auto
  show ?thesis
    unfolding getGroupTabs_floating_update [OF assms keeps_id_reorder reorder_as_map_filter [OF key] k]
    using k by (cases "find (\<lambda>g. fg_id g = k) (ts_floating st)")
      (auto simp: docked_def getGroupTabs_view reorder_floating_def view_def dest: find_SomeD)
qed

lemma reorder_tabs_set [simp]: "set (reorder_tabs p n tabs) = set tabs"
proof (cases "index_of p tabs")
  case (Some i)
  then have "set tabs = insert p (set (take i tabs @ drop (Suc i) tabs))"
    using index_of_split [OF Some] by (metis Un_insert_right list.simps(15) set_append)
  with Some show ?thesis by (simp add: reorder_tabs_def)
qed (simp add: reorder_tabs_def)

lemma reorder_tabs_distinct: "distinct tabs \<Longrightarrow> distinct (reorder_tabs p n tabs)"
proof (cases "index_of p tabs")
  case (Some i)
  assume "distinct tabs"
  then have "distinct (take i tabs @ p # drop (Suc i) tabs)" using index_of_split [OF Some] by simp
  with Some show ?thesis by (simp add: reorder_tabs_def)
qed (simp add: reorder_tabs_def)

text \<open>A change that keeps the set of tabs of every group keeps the invariant.\<close>

lemma tab_inv_same_tabs:
  assumes "tab_inv st" "ids_ok st'"
    and "\<And>k v'. getGroupTabs st' k = Some v' \<Longrightarrow> \<exists>v. getGroupTabs st k = Some v \<and>
      set (fst v') = set (fst v) \<and> (distinct (fst v) \<longrightarrow> distinct (fst v')) \<and>
      (active_ok (fst v) (snd v) \<longrightarrow> active_ok (fst v') (snd v'))"
  shows "tab_inv st'"
proof -
  have "distinct t' \<and> active_ok t' a' \<and> (docked k \<or> t' \<noteq> [])" if "getGroupTabs st' k = Some (t', a')" for k t' a'
    using assms(3) [OF that] assms(1) unfolding tab_inv_iff by (metis fst_conv snd_conv surj_pair set_empty)
  moreover have "set t \<inter> set u = {}"
    if k: "getGroupTabs st' k = Some (t, a)" and l: "getGroupTabs st' l = Some (u, b)" and "k \<noteq> l" for k l t u a b
    using assms(3) [OF k] assms(3) [OF l] \<open>k \<noteq> l\<close> assms(1) unfolding tab_inv_iff
    by (metis fst_conv surj_pair)
  ultimately show ?thesis using assms(2) unfolding tab_inv_iff by blast
qed

lemma set_active_inv:
  assumes "tab_inv st" "getGroupForPanel st p = Some key"
  shows "tab_inv (setActiveTab st p key)"
proof (rule tab_inv_same_tabs [OF assms(1)])
  show "ids_ok (setActiveTab st p key)" using assms(1) by (blast intro: set_ids_ok)
  fix k v' assume "getGroupTabs (setActiveTab st p key) k = Some v'"
  then obtain v where v: "getGroupTabs st k = Some v" "v' = (if k = key then (fst v, Some p) else v)"
    unfolding getGroupTabs_setActive [OF tab_inv_ids [OF assms(1)]] by auto
  moreover have "p \<in> set (fst v)" if "k = key"
    using that v(1) assms getGroupForPanel_iff [OF assms(1), of p key] by (cases v) (simp add: tabs_of_def)
  ultimately show "\<exists>v. getGroupTabs st k = Some v \<and> set (fst v') = set (fst v) \<and>
      (distinct (fst v) \<longrightarrow> distinct (fst v')) \<and> (active_ok (fst v) (snd v) \<longrightarrow> active_ok (fst v') (snd v'))"
    by (auto simp: active_ok_def)
qed

lemma reorder_inv:
  assumes "tab_inv st"
  shows "tab_inv (reorderTab st key p n)"
proof (rule tab_inv_same_tabs [OF assms])
  show "ids_ok (reorderTab st key p n)" using assms by (blast intro: reorder_ids_ok)
  fix k v' assume "getGroupTabs (reorderTab st key p n) k = Some v'"
  then obtain v where v: "getGroupTabs st k = Some v" "v' = (if k = key then (reorder_tabs p n (fst v), snd v) else v)"
    unfolding getGroupTabs_reorder [OF tab_inv_ids [OF assms]] by auto
  have "reorder_tabs p n tabs = [] \<longleftrightarrow> tabs = []" for tabs using reorder_tabs_set [of p n tabs] by (metis set_empty)
  with v show "\<exists>v. getGroupTabs st k = Some v \<and> set (fst v') = set (fst v) \<and>
      (distinct (fst v) \<longrightarrow> distinct (fst v')) \<and> (active_ok (fst v) (snd v) \<longrightarrow> active_ok (fst v') (snd v'))"
    by (auto simp: active_ok_def reorder_tabs_distinct split: option.splits)
qed

section \<open>All operations keep the invariant\<close>

lemma strip_again:
  assumes "tab_inv st"
  shows "stripPanelFromAllGroups (stripPanelFromAllGroups st p) p = stripPanelFromAllGroups st p"
  by (rule strip_absent_id [OF strip_inv [OF assms] strip_absent]) (use assms in blast)

lemma add_cleaned: "tab_inv st \<Longrightarrow>
    addPanelToGroup st p pos i = addPanelToGroup (stripPanelFromAllGroups st p) p pos i"
  by (simp add: addPanelToGroup_def strip_again)

lemma add_floating_cleaned: "tab_inv st \<Longrightarrow>
    addPanelToFloatingGroup st p groupId i = addPanelToFloatingGroup (stripPanelFromAllGroups st p) p groupId i"
  by (simp add: addPanelToFloatingGroup_def strip_again)

lemma cleaned: "tab_inv st \<Longrightarrow> tab_inv (stripPanelFromAllGroups st p) \<and> absent (stripPanelFromAllGroups st p) p"
  using strip_inv strip_absent by blast

lemma add_inv: "tab_inv st \<Longrightarrow> tab_inv (addPanelToGroup st p pos i)"
  using inserted_inv add_inserted cleaned add_cleaned by metis

lemma add_floating_inv:
  assumes "tab_inv st"
  shows "tab_inv (addPanelToFloatingGroup st p groupId i)"
proof -
  obtain j where "inserted_at (stripPanelFromAllGroups st p) (addPanelToFloatingGroup (stripPanelFromAllGroups st p) p groupId i)
      p (floating_key (stripPanelFromAllGroups st p) groupId) j"
    using add_floating_inserted cleaned [OF assms] by metis
  then show ?thesis using inserted_inv cleaned [OF assms] add_floating_cleaned [OF assms] by metis
qed

lemma move_inv: "tab_inv st \<Longrightarrow> tab_inv (movePanelToGroup st p target i)"
  by (simp add: movePanelToGroup_def Let_def remove_inv add_inv add_floating_inv)

text \<open>The states that the operations reach. A tab is only ever activated in the group that has it.\<close>

inductive tab_reachable :: "tab_groups \<Rightarrow> bool" where
  initial: "tab_reachable createInitialTabGroupState"
| add: "tab_reachable st \<Longrightarrow> tab_reachable (addPanelToGroup st p pos i)"
| add_floating: "tab_reachable st \<Longrightarrow> tab_reachable (addPanelToFloatingGroup st p groupId i)"
| remove: "tab_reachable st \<Longrightarrow> tab_reachable (removePanelFromGroup st p pref)"
| move: "tab_reachable st \<Longrightarrow> tab_reachable (movePanelToGroup st p target i)"
| reorder: "tab_reachable st \<Longrightarrow> tab_reachable (reorderTab st key p n)"
| activate: "tab_reachable st \<Longrightarrow> getGroupForPanel st p = Some key \<Longrightarrow> tab_reachable (setActiveTab st p key)"

lemma initial_inv: "tab_inv createInitialTabGroupState"
  by code_simp

text \<open>C16: After any sequence of adding, removing, moving, reordering and activating panels, no panel is in two
  groups or twice in one, every group with tabs has one of its own tabs active and an empty one has none,
  no floating group is empty, and the floating group ids are distinct and never one of the reserved keys.\<close>

theorem tab_groups_consistent:
  assumes "tab_reachable st"
  shows "tab_inv st"
  using assms
  by induction (auto intro: initial_inv add_inv add_floating_inv remove_inv move_inv reorder_inv set_active_inv)

definition example_groups :: tab_groups where
  "example_groups = addPanelToGroup (addPanelToGroup (addPanelToGroup (addPanelToGroup
     createInitialTabGroupState ''a'' AtRight None) ''b'' AtRight None) ''c'' AtRight None) ''d'' AtFloating None"

lemma example_reachable: "tab_reachable example_groups"
  unfolding example_groups_def by (intro tab_reachable.intros)

theorem tab_groups_consistent_witness:
  "tab_inv (movePanelToGroup (setActiveTab example_groups ''a'' ''right'') ''d'' ''bottom'' (Some 0))"
proof -
  have "getGroupForPanel example_groups ''a'' = Some ''right''" by code_simp
  then have "tab_reachable (movePanelToGroup (setActiveTab example_groups ''a'' ''right'') ''d'' ''bottom'' (Some 0))"
    by (intro tab_reachable.move tab_reachable.activate example_reachable)
  then show ?thesis by (rule tab_groups_consistent)
qed

section \<open>Moving and removing\<close>

text \<open>The group a panel ends up in: the target, or a new floating group if that is asked for or the target has
  disappeared, also because the moved panel was its only one.\<close>

definition move_dest :: "tab_groups \<Rightarrow> string \<Rightarrow> string \<Rightarrow> string" where
  "move_dest st p target =
     (if docked target \<or> target \<noteq> ''floating'' \<and> filter (\<lambda>t. t \<noteq> p) (tabs_of st target) \<noteq> [] then target
      else nextFloatingGroupId (removePanelFromGroup st p PreferRight))"

lemma floating_key_removed:
  assumes "tab_inv st" "\<not> docked target" "target \<noteq> ''floating''"
  shows "target \<in> fg_id ` set (ts_floating st) \<longleftrightarrow> tabs_of st target \<noteq> []"
proof
  assume "target \<in> fg_id ` set (ts_floating st)"
  then obtain g where "g \<in> set (ts_floating st)" "target = fg_id g" by blast
  then have "getGroupTabs st target = Some (tg_tabs g, tg_active g)"
    using floating_entry [OF tab_inv_ids [OF assms(1)]] by simp
  then show "tabs_of st target \<noteq> []" using assms by (auto simp: tab_inv_iff tabs_of_def)
next
  assume "tabs_of st target \<noteq> []"
  then have "getGroupTabs st target \<noteq> None" unfolding tabs_of_def by (rule contrapos_nn) simp
  then show "target \<in> fg_id ` set (ts_floating st)" using no_such_group [OF assms(2)] by fastforce
qed

lemma nextFloatingGroupId_tabs: "tabs_of st (nextFloatingGroupId st) = []"
  by (simp add: tabs_of_def no_such_group nextFloatingGroupId_fresh)

lemma move_inserted:
  assumes "tab_inv st"
  obtains j where "inserted_at (removePanelFromGroup st p PreferRight) (movePanelToGroup st p target i) p
      (move_dest st p target) j"
    and "j = i \<or> tabs_of (removePanelFromGroup st p PreferRight) (move_dest st p target) = []"
proof -
  let ?r = "removePanelFromGroup st p PreferRight"
  have r: "tab_inv ?r" "absent ?r p" using assms remove_inv remove_absent by blast+
  note tabs = tabs_of_remove [OF assms, of p PreferRight]
  consider "docked target" | "target = ''floating''" | "\<not> docked target" "target \<noteq> ''floating''" by blast
  then show thesis
  proof cases
    case 1
    then show thesis using that [of i] add_inserted [OF r, of AtRight i] add_inserted [OF r, of AtBottom i]
      by (auto simp: docked_def movePanelToGroup_def move_dest_def position_key_def Let_def)
  next
    case 2
    then show thesis using that [of i] add_inserted [OF r, of AtFloating i]
      by (auto simp: movePanelToGroup_def move_dest_def position_key_def Let_def)
  next
    case 3
    then have m: "movePanelToGroup st p target i = addPanelToFloatingGroup ?r p target i"
      by (auto simp: movePanelToGroup_def docked_def Let_def)
    have k: "floating_key ?r target = move_dest st p target"
      using 3 floating_key_removed [OF r(1) 3] by (simp add: floating_key_def move_dest_def tabs)
    show thesis
      using that add_floating_inserted [OF r, of target i] 3 nextFloatingGroupId_tabs [of ?r]
        floating_key_removed [OF r(1) 3] unfolding m k by (metis floating_key_def k)
  qed
qed

text \<open>C17: Moving a panel changes where that panel is and nothing else: it goes to the target group, or to a new
  floating group with an unused id, every other panel stays in its group, the tabs of all groups keep their
  order, the panel stands at the requested index (at the end without one) and is the active tab there.\<close>

theorem move_places_panel:
  assumes "tab_inv st"
  shows "getGroupForPanel (movePanelToGroup st p target i) = (getGroupForPanel st)(p \<mapsto> move_dest st p target) \<and>
    (\<forall>k. tabs_of (movePanelToGroup st p target i) k =
      (if k = move_dest st p target
       then splice_insert (filter (\<lambda>t. t \<noteq> p) (tabs_of st k))
         (case i of None \<Rightarrow> int (length (filter (\<lambda>t. t \<noteq> p) (tabs_of st k))) | Some j \<Rightarrow> j) p
       else filter (\<lambda>t. t \<noteq> p) (tabs_of st k))) \<and>
    active_of (movePanelToGroup st p target i) (move_dest st p target) = Some p"
proof (intro conjI)
  let ?st' = "movePanelToGroup st p target i" and ?d = "move_dest st p target"
  obtain j where j: "inserted_at (removePanelFromGroup st p PreferRight) ?st' p ?d j"
    "j = i \<or> tabs_of (removePanelFromGroup st p PreferRight) ?d = []" by (rule move_inserted [OF assms])
  note rem = tabs_of_remove [OF assms, of p PreferRight]
  have tabs: "tabs_of ?st' k = (if k = ?d then insert_tabs p i (filter (\<lambda>t. t \<noteq> p) (tabs_of st k))
      else filter (\<lambda>t. t \<noteq> p) (tabs_of st k))" for k
    using tabs_of_inserted [OF j(1), of k] j(2) by (auto simp: rem)
  then show "\<forall>k. tabs_of ?st' k = (if k = ?d then splice_insert (filter (\<lambda>t. t \<noteq> p) (tabs_of st k))
         (case i of None \<Rightarrow> int (length (filter (\<lambda>t. t \<noteq> p) (tabs_of st k))) | Some j \<Rightarrow> j) p
       else filter (\<lambda>t. t \<noteq> p) (tabs_of st k))" by (simp add: insert_tabs_def)
  show "active_of ?st' ?d = Some p" using j(1) by (simp add: inserted_at_def active_of_def insert_view_eq)
  show "getGroupForPanel ?st' = (getGroupForPanel st)(p \<mapsto> ?d)"
  proof (intro ext option_eq_by_Some)
    fix q k
    show "getGroupForPanel ?st' q = Some k \<longleftrightarrow> ((getGroupForPanel st)(p \<mapsto> ?d)) q = Some k"
      using getGroupForPanel_iff [OF move_inv [OF assms], of p target i q k] getGroupForPanel_iff [OF assms, of q k]
      by (auto simp: tabs)
  qed
qed

theorem move_places_panel_witness:
  "getGroupForPanel (movePanelToGroup example_groups ''b'' ''floating-1'' (Some 0)) ''b'' = Some ''floating-1'' \<and>
   tabs_of (movePanelToGroup example_groups ''b'' ''floating-1'' (Some 0)) ''floating-1'' = [''b'', ''d''] \<and>
   tabs_of (movePanelToGroup example_groups ''b'' ''floating-1'' (Some 0)) ''right'' = [''a'', ''c'']"
proof -
  have inv: "tab_inv example_groups" by code_simp
  have "move_dest example_groups ''b'' ''floating-1'' = ''floating-1''"
    "tabs_of example_groups ''floating-1'' = [''d'']" "tabs_of example_groups ''right'' = [''a'', ''b'', ''c'']"
    by code_simp+
  with move_places_panel [OF inv, of "''b''" "''floating-1''" "Some 0"] show ?thesis
    by (simp add: splice_insert_def splice_index_def)
qed

text \<open>Removing a panel takes it out of its group and leaves every other group as it is. If it was the active
  tab, the neighbour on the preferred side becomes active, the other neighbour if there is none on that side;
  otherwise the active tab stays. A floating group that has become empty is removed.\<close>

theorem remove_activates_neighbour:
  assumes "tab_inv st" "getGroupTabs st key = Some (xs @ p # ys, active)"
  shows "getGroupTabs (removePanelFromGroup st p pref) key =
      (if xs @ ys = [] \<and> \<not> docked key then None
       else Some (xs @ ys, if active = Some p then neighbour pref xs ys else active)) \<and>
    (\<forall>k. k \<noteq> key \<longrightarrow> getGroupTabs (removePanelFromGroup st p pref) k = getGroupTabs st k) \<and>
    getGroupForPanel (removePanelFromGroup st p pref) = (getGroupForPanel st)(p := None)"
proof (intro conjI)
  let ?st' = "removePanelFromGroup st p pref"
  have at: "getGroupForPanel st p = Some key"
    using getGroupForPanel_iff [OF assms(1)] assms(2) by (simp add: tabs_of_def)
  note rem = getGroupTabs_remove [OF tab_inv_ids [OF assms(1)], of p pref]
  have "distinct (xs @ p # ys)" "active_ok (xs @ p # ys) active" using assms unfolding tab_inv_iff by blast+
  then show "getGroupTabs ?st' key = (if xs @ ys = [] \<and> \<not> docked key then None
       else Some (xs @ ys, if active = Some p then neighbour pref xs ys else active))"
    unfolding rem using at assms(2) remove_view_between [of xs p ys active pref]
    by (simp add: keep_nonempty_def del: remove_view_tabs)
  show "\<forall>k. k \<noteq> key \<longrightarrow> getGroupTabs ?st' k = getGroupTabs st k" unfolding rem using at by simp
  show "getGroupForPanel ?st' = (getGroupForPanel st)(p := None)"
  proof (intro ext option_eq_by_Some)
    fix q k
    show "getGroupForPanel ?st' q = Some k \<longleftrightarrow> ((getGroupForPanel st)(p := None)) q = Some k"
      using getGroupForPanel_iff [OF remove_inv [OF assms(1)], of p pref q k] getGroupForPanel_iff [OF assms(1), of q k]
      by (auto simp: tabs_of_remove [OF assms(1)])
  qed
qed

theorem remove_activates_neighbour_witness:
  "getGroupTabs (removePanelFromGroup (setActiveTab example_groups ''b'' ''right'') ''b'' PreferLeft) ''right'' =
     Some ([''a'', ''c''], Some ''a'')"
proof -
  have "tab_inv (setActiveTab example_groups ''b'' ''right'')"
    "getGroupTabs (setActiveTab example_groups ''b'' ''right'') ''right'' = Some ([''a''] @ ''b'' # [''c''], Some ''b'')"
    by code_simp+
  from remove_activates_neighbour [OF this, of PreferLeft] show ?thesis by (simp add: neighbour_def)
qed

end
