(* ===== verification/Line_Diff.thy ===== *)
theory Line_Diff
  imports Prelude
begin

text \<open>
  The budgeted line diff, \<open>shared/components/diff/lineDiff.ts\<close> with the budgets of \<open>diffBudgets.ts\<close>: Myers'
  greedy algorithm, which records its frontier before every round and then walks back over the record.

  A JavaScript array of numbers is a function from indices to values, \<open>None\<close> standing for \<open>undefined\<close>; the
  same value stands for \<open>NaN\<close>, which the source only ever gets from arithmetic on \<open>undefined\<close>, and every
  comparison with it is false. The source does read outside the array: for two empty texts the frontier
  has one cell and its right neighbour is read.
\<close>

section \<open>Data\<close>

datatype diff_line_type = ContextLine | AddedLine | RemovedLine

record diff_line =
  dl_type :: diff_line_type
  dl_value :: "string option"
  dl_left :: "int option"
  dl_right :: "int option"

datatype too_large_reason = InputTooLarge | ComputeTooLarge

record line_diff_result =
  ld_lines :: "diff_line list"
  ld_too_large :: bool
  ld_reason :: "too_large_reason option"
  ld_left_count :: nat
  ld_right_count :: nat
  ld_work :: nat

record line_diff_budgets =
  lb_max_lines :: nat
  lb_max_work :: nat
  lb_max_rows :: nat

definition object_diff_budgets :: line_diff_budgets where
  "object_diff_budgets = \<lparr>lb_max_lines = 15000, lb_max_work = 3000000, lb_max_rows = 20000\<rparr>"

definition rollback_diff_budgets :: line_diff_budgets where
  "rollback_diff_budgets = \<lparr>lb_max_lines = 15000, lb_max_work = 3000000, lb_max_rows = 20000\<rparr>"

definition yaml_tab_diff_budgets :: line_diff_budgets where
  "yaml_tab_diff_budgets = \<lparr>lb_max_lines = 15000, lb_max_work = 3000000, lb_max_rows = 4000\<rparr>"

type_synonym frontier = "int \<Rightarrow> int option"

section \<open>Lines\<close>

text \<open>\<open>replace(/\r\n/g, '\n')\<close>, then \<open>replace(/\r/g, '\n')\<close>.\<close>

fun replace_crlf :: "string \<Rightarrow> string" where
  "replace_crlf (c # d # s) =
     (if c = CHR 0x0D \<and> d = CHR 0x0A then CHR 0x0A # replace_crlf s else c # replace_crlf (d # s))"
| "replace_crlf s = s"

definition replace_cr :: "string \<Rightarrow> string" where
  "replace_cr s = map (\<lambda>c. if c = CHR 0x0D then CHR 0x0A else c) s"

definition splitLines :: "string \<Rightarrow> string list" where
  "splitLines v =
     (let trimmed = replace_cr (replace_crlf v)
      in if trimmed = [] then [] else js_split (CHR 0x0A) trimmed)"

definition makeTooLargeResult :: "too_large_reason \<Rightarrow> nat \<Rightarrow> nat \<Rightarrow> nat \<Rightarrow> line_diff_result" where
  "makeTooLargeResult reason leftLineCount rightLineCount computeWork =
     \<lparr>ld_lines = [], ld_too_large = True, ld_reason = Some reason, ld_left_count = leftLineCount,
      ld_right_count = rightLineCount, ld_work = computeWork\<rparr>"

section \<open>The frontier\<close>

definition js_get :: "'a list \<Rightarrow> int \<Rightarrow> 'a option" where
  "js_get xs i = (if 0 \<le> i \<and> i < int (length xs) then Some (xs ! nat i) else None)"

fun less_num :: "int option \<Rightarrow> int option \<Rightarrow> bool" where
  "less_num (Some a) (Some b) = (a < b)"
| "less_num _ _ = False"

text \<open>One unit of work: the count after it, or \<open>None\<close> when that is over the budget.\<close>

definition consumeComputeWork :: "nat \<Rightarrow> nat \<Rightarrow> nat option" where
  "consumeComputeWork maxWork used = (if used + 1 \<le> maxWork then Some (used + 1) else None)"

definition selectMyersFrontierX :: "frontier \<Rightarrow> int \<Rightarrow> int \<Rightarrow> int \<Rightarrow> int option" where
  "selectMyersFrontierX frontier offset distance diagonal =
     (if diagonal = - distance \<or>
         diagonal \<noteq> distance \<and> less_num (frontier (offset + diagonal - 1)) (frontier (offset + diagonal + 1))
      then frontier (offset + diagonal + 1)
      else map_option (\<lambda>x. x + 1) (frontier (offset + diagonal - 1)))"

function advance_matching :: "string list \<Rightarrow> string list \<Rightarrow> nat \<Rightarrow> int \<Rightarrow> int \<Rightarrow> nat \<Rightarrow> ((int \<times> int) \<times> nat) option" where
  "advance_matching left right maxWork x y used =
     (if x < int (length left) \<and> y < int (length right) \<and> js_get left x = js_get right y
      then case consumeComputeWork maxWork used of
             None \<Rightarrow> None
           | Some used' \<Rightarrow> advance_matching left right maxWork (x + 1) (y + 1) used'
      else Some ((x, y), used))"
  by pat_completeness auto
termination
  by (relation "measure (\<lambda>(left, right, maxWork, x, y, used). nat (int (length left) - x))") auto

declare advance_matching.simps [simp del]

text \<open>From an undefined start the loop does not run at all.\<close>

definition advanceMatchingLines ::
    "string list \<Rightarrow> string list \<Rightarrow> nat \<Rightarrow> int option \<Rightarrow> int option \<Rightarrow> nat \<Rightarrow>
       ((int option \<times> int option) \<times> nat) option" where
  "advanceMatchingLines left right maxWork startX startY used =
     (case (startX, startY) of
        (Some x, Some y) \<Rightarrow>
          map_option (\<lambda>((x', y'), used'). ((Some x', Some y'), used')) (advance_matching left right maxWork x y used)
      | _ \<Rightarrow> Some ((startX, startY), used))"

fun reaches_end :: "int option \<Rightarrow> nat \<Rightarrow> bool" where
  "reaches_end (Some x) n = (x \<ge> int n)"
| "reaches_end None n = False"

text \<open>\<open>None\<close> when the budget is used up; otherwise whether both texts are consumed, the frontier and the
  work done.\<close>

definition advanceMyersFrontier ::
    "string list \<Rightarrow> string list \<Rightarrow> nat \<Rightarrow> frontier \<Rightarrow> int \<Rightarrow> int \<Rightarrow> int \<Rightarrow> nat \<Rightarrow> (bool \<times> frontier \<times> nat) option" where
  "advanceMyersFrontier left right maxWork frontier offset distance diagonal used =
     (case consumeComputeWork maxWork used of
        None \<Rightarrow> None
      | Some used1 \<Rightarrow>
          let startX = selectMyersFrontierX frontier offset distance diagonal
          in case advanceMatchingLines left right maxWork startX (map_option (\<lambda>x. x - diagonal) startX) used1 of
               None \<Rightarrow> None
             | Some ((x, y), used2) \<Rightarrow>
                 Some (reaches_end x (length left) \<and> reaches_end y (length right),
                       frontier(offset + diagonal := x), used2))"

section \<open>The rounds\<close>

datatype 'a round_outcome = OutOfBudget | RoundComplete nat | RoundOpen 'a nat

definition diagonals :: "nat \<Rightarrow> int list" where
  "diagonals distance = map (\<lambda>i. 2 * int i - int distance) [0..<distance + 1]"

fun scan_diagonals ::
    "string list \<Rightarrow> string list \<Rightarrow> nat \<Rightarrow> int \<Rightarrow> int \<Rightarrow> int list \<Rightarrow> frontier \<Rightarrow> nat \<Rightarrow> frontier round_outcome" where
  "scan_diagonals left right maxWork offset distance [] frontier used = RoundOpen frontier used"
| "scan_diagonals left right maxWork offset distance (diagonal # ks) frontier used =
     (case advanceMyersFrontier left right maxWork frontier offset distance diagonal used of
        None \<Rightarrow> OutOfBudget
      | Some (complete, frontier', used') \<Rightarrow>
          if complete then RoundComplete used'
          else scan_diagonals left right maxWork offset distance ks frontier' used')"

text \<open>The loop over the distances. The frontier is recorded at the start of every round.\<close>

fun myers_rounds ::
    "string list \<Rightarrow> string list \<Rightarrow> nat \<Rightarrow> int \<Rightarrow> nat list \<Rightarrow> frontier \<Rightarrow> frontier list \<Rightarrow> nat \<Rightarrow>
       (frontier list \<times> nat) option" where
  "myers_rounds left right maxWork offset [] frontier trace used = Some (trace, used)"
| "myers_rounds left right maxWork offset (distance # ds) frontier trace used =
     (let trace' = trace @ [frontier]
      in case scan_diagonals left right maxWork offset (int distance) (diagonals distance) frontier used of
           OutOfBudget \<Rightarrow> None
         | RoundComplete used' \<Rightarrow> Some (trace', used')
         | RoundOpen frontier' used' \<Rightarrow> myers_rounds left right maxWork offset ds frontier' trace' used')"

definition initial_frontier :: "nat \<Rightarrow> frontier" where
  "initial_frontier span = (\<lambda>i. if 0 \<le> i \<and> i < 2 * int span + 1 then Some 0 else None)"

definition buildMyersTrace :: "string list \<Rightarrow> string list \<Rightarrow> nat \<Rightarrow> (frontier list \<times> nat) option" where
  "buildMyersTrace left right maxComputeWork =
     (let span = length left + length right
      in myers_rounds left right maxComputeWork (int span) [0..<span + 1] (initial_frontier span) [] 0)"

section \<open>Walking back\<close>

function context_lines ::
    "string list \<Rightarrow> int \<Rightarrow> int \<Rightarrow> int \<Rightarrow> int \<Rightarrow> diff_line list \<Rightarrow> (int \<times> int) \<times> diff_line list" where
  "context_lines left previousX previousY x y lines =
     (if x > previousX \<and> y > previousY
      then context_lines left previousX previousY (x - 1) (y - 1)
             (lines @ [\<lparr>dl_type = ContextLine, dl_value = js_get left (x - 1), dl_left = Some x, dl_right = Some y\<rparr>])
      else ((x, y), lines))"
  by pat_completeness auto
termination
  by (relation "measure (\<lambda>(left, previousX, previousY, x, y, lines). nat (x - previousX))") auto

declare context_lines.simps [simp del]

definition previous_diagonal :: "frontier \<Rightarrow> int \<Rightarrow> int \<Rightarrow> int \<Rightarrow> int" where
  "previous_diagonal frontier offset distance diagonal =
     (if diagonal = - distance \<or>
         diagonal \<noteq> distance \<and> less_num (frontier (offset + diagonal - 1)) (frontier (offset + diagonal + 1))
      then diagonal + 1 else diagonal - 1)"

definition back_context ::
    "string list \<Rightarrow> int option \<Rightarrow> int \<Rightarrow> int \<Rightarrow> int \<Rightarrow> diff_line list \<Rightarrow> (int \<times> int) \<times> diff_line list" where
  "back_context left previousX previousDiagonal x y lines =
     (case previousX of
        Some px \<Rightarrow> context_lines left px (px - previousDiagonal) x y lines
      | None \<Rightarrow> ((x, y), lines))"

primrec back_rounds ::
    "string list \<Rightarrow> string list \<Rightarrow> int \<Rightarrow> frontier list \<Rightarrow> nat \<Rightarrow> int \<Rightarrow> int \<Rightarrow> diff_line list \<Rightarrow> diff_line list" where
  "back_rounds left right offset trace 0 x y lines =
     (let frontier = trace ! 0;
          previousDiagonal = previous_diagonal frontier offset 0 (x - y)
      in snd (back_context left (frontier (offset + previousDiagonal)) previousDiagonal x y lines))"
| "back_rounds left right offset trace (Suc n) x y lines =
     (let frontier = trace ! Suc n;
          previousDiagonal = previous_diagonal frontier offset (int (Suc n)) (x - y);
          previousX = frontier (offset + previousDiagonal);
          back = back_context left previousX previousDiagonal x y lines;
          x' = fst (fst back); y' = snd (fst back); lines' = snd back
      in if Some x' = previousX
         then back_rounds left right offset trace n x' (y' - 1)
                (lines' @ [\<lparr>dl_type = AddedLine, dl_value = js_get right (y' - 1), dl_left = None, dl_right = Some y'\<rparr>])
         else back_rounds left right offset trace n (x' - 1) y'
                (lines' @ [\<lparr>dl_type = RemovedLine, dl_value = js_get left (x' - 1), dl_left = Some x', dl_right = None\<rparr>]))"

text \<open>The trace is never empty: the first round is always recorded.\<close>

definition backtrackMyersTrace :: "string list \<Rightarrow> string list \<Rightarrow> frontier list \<Rightarrow> diff_line list" where
  "backtrackMyersTrace left right trace =
     (let offset = int (length left + length right)
      in if trace = [] then []
         else rev (back_rounds left right offset trace (length trace - 1) (int (length left)) (int (length right)) []))"

definition computeBudgetedLineDiff :: "string \<Rightarrow> string \<Rightarrow> line_diff_budgets \<Rightarrow> line_diff_result" where
  "computeBudgetedLineDiff beforeText afterText budgets =
     (let left = splitLines beforeText; right = splitLines afterText;
          leftLineCount = length left; rightLineCount = length right
      in if max leftLineCount rightLineCount > lb_max_lines budgets
         then makeTooLargeResult InputTooLarge leftLineCount rightLineCount 0
         else case buildMyersTrace left right (lb_max_work budgets) of
                None \<Rightarrow> makeTooLargeResult ComputeTooLarge leftLineCount rightLineCount (lb_max_work budgets)
              | Some (trace, computeWork) \<Rightarrow>
                  \<lparr>ld_lines = backtrackMyersTrace left right trace, ld_too_large = False, ld_reason = None,
                   ld_left_count = leftLineCount, ld_right_count = rightLineCount, ld_work = computeWork\<rparr>)"

end
