(* ===== verification/Myers_Frontier.thy ===== *)
theory Myers_Frontier
  imports Line_Diff
begin

text \<open>
  What the frontier of the line diff means. \<open>reach d x y\<close>: with \<open>d\<close> removed or added lines one can get past
  the first \<open>x\<close> lines of the left and the first \<open>y\<close> of the right text (the grid goes on beyond both
  texts, as the frontier does). The frontier after round \<open>d\<close> holds, for every diagonal of that round, the
  furthest point reached with \<open>d\<close> edits.
\<close>

section \<open>Edit paths\<close>

definition lines_match :: "string list \<Rightarrow> string list \<Rightarrow> int \<Rightarrow> int \<Rightarrow> bool" where
  "lines_match L R x y \<longleftrightarrow> x < int (length L) \<and> y < int (length R) \<and> js_get L x = js_get R y"

inductive reach :: "string list \<Rightarrow> string list \<Rightarrow> nat \<Rightarrow> int \<Rightarrow> int \<Rightarrow> bool" for L R where
  origin: "reach L R 0 0 0"
| drop_left: "reach L R d x y \<Longrightarrow> reach L R (Suc d) (x + 1) y"
| take_right: "reach L R d x y \<Longrightarrow> reach L R (Suc d) x (y + 1)"
| keep: "reach L R d x y \<Longrightarrow> lines_match L R x y \<Longrightarrow> reach L R d (x + 1) (y + 1)"

definition in_round :: "nat \<Rightarrow> int \<Rightarrow> bool" where
  "in_round d k \<longleftrightarrow> - int d \<le> k \<and> k \<le> int d \<and> even (int d - k)"

lemma reach_bounds: "reach L R d x y \<Longrightarrow> 0 \<le> x \<and> 0 \<le> y \<and> in_round d (x - y)"
  by (induction rule: reach.induct) (auto simp: in_round_def algebra_simps)

text \<open>A path that runs out of the texts can be cut back to their end, and is then shorter.\<close>

lemma reach_clipped:
  assumes "reach L R d x y"
  shows "\<exists>d'. reach L R d' (min x (int (length L))) (min y (int (length R))) \<and>
    int d' + (x - min x (int (length L))) + (y - min y (int (length R))) \<le> int d"
  using assms
proof (induction rule: reach.induct)
  case origin
  show ?case by (intro exI [of _ 0]) (simp add: reach.origin)
next
  case (drop_left d x y)
  then obtain d' where d': "reach L R d' (min x (int (length L))) (min y (int (length R)))"
    "int d' + (x - min x (int (length L))) + (y - min y (int (length R))) \<le> int d" by blast
  show ?case
  proof (cases "x < int (length L)")
    case True
    with d' reach.drop_left [OF d'(1)] show ?thesis by (intro exI [of _ "Suc d'"]) (simp add: min_def)
  next
    case False
    then have "min (x + 1) (int (length L)) = min x (int (length L))" by simp
    with d' show ?thesis by (intro exI [of _ d']) auto
  qed
next
  case (take_right d x y)
  then obtain d' where d': "reach L R d' (min x (int (length L))) (min y (int (length R)))"
    "int d' + (x - min x (int (length L))) + (y - min y (int (length R))) \<le> int d" by blast
  show ?case
  proof (cases "y < int (length R)")
    case True
    with d' reach.take_right [OF d'(1)] show ?thesis by (intro exI [of _ "Suc d'"]) (simp add: min_def)
  next
    case False
    then have "min (y + 1) (int (length R)) = min y (int (length R))" by simp
    with d' show ?thesis by (intro exI [of _ d']) auto
  qed
next
  case (keep d x y)
  then obtain d' where d': "reach L R d' (min x (int (length L))) (min y (int (length R)))"
    "int d' + (x - min x (int (length L))) + (y - min y (int (length R))) \<le> int d" by blast
  with keep reach.keep [of L R d' x y] show ?case
    by (intro exI [of _ d']) (auto simp: lines_match_def min_def)
qed

definition at_end :: "string list \<Rightarrow> string list \<Rightarrow> nat \<Rightarrow> bool" where
  "at_end L R d \<longleftrightarrow> reach L R d (int (length L)) (int (length R))"

lemma reach_past_end:
  assumes "reach L R d x y" "x \<ge> int (length L)" "y \<ge> int (length R)"
  shows "\<exists>d'. at_end L R d' \<and> int d' + (x - int (length L)) + (y - int (length R)) \<le> int d"
  using reach_clipped [OF assms(1)] assms(2,3) by (auto simp: at_end_def min_def split: if_splits)

lemma at_end_span: "at_end L R (length L + length R)"
proof -
  have left: "reach L R n (int n) 0" for n
    by (induction n) (auto intro: reach.origin dest: reach.drop_left simp: add.commute)
  have "reach L R (length L + n) (int (length L)) (int n)" for n
    by (induction n) (auto simp: left add.commute dest: reach.take_right)
  then show ?thesis by (simp add: at_end_def)
qed

section \<open>Furthest points\<close>

definition furthest :: "string list \<Rightarrow> string list \<Rightarrow> nat \<Rightarrow> int \<Rightarrow> int \<Rightarrow> bool" where
  "furthest L R d k x \<longleftrightarrow> reach L R d x (x - k) \<and> (\<forall>x'. reach L R d x' (x' - k) \<longrightarrow> x' \<le> x)"

lemma furthest_unique: "furthest L R d k x \<Longrightarrow> furthest L R d k x' \<Longrightarrow> x = x'"
  unfolding furthest_def by (meson order_antisym)

text \<open>A point where round \<open>d\<close> may enter diagonal \<open>k\<close>: no edge enters the diagonal further on.\<close>

definition enters :: "string list \<Rightarrow> string list \<Rightarrow> nat \<Rightarrow> int \<Rightarrow> int \<Rightarrow> bool" where
  "enters L R d k x \<longleftrightarrow>
     (case d of 0 \<Rightarrow> k = 0 \<and> x = 0
      | Suc d' \<Rightarrow> reach L R d' (x - 1) (x - k) \<or> reach L R d' x (x - k - 1))"

definition start_ok :: "string list \<Rightarrow> string list \<Rightarrow> nat \<Rightarrow> int \<Rightarrow> int \<Rightarrow> bool" where
  "start_ok L R d k s \<longleftrightarrow> reach L R d s (s - k) \<and> (\<forall>x. enters L R d k x \<longrightarrow> x \<le> s)"

lemma furthest_from_start:
  assumes "start_ok L R d k s" "s \<le> v" "reach L R d v (v - k)" "\<not> lines_match L R v (v - k)"
  shows "furthest L R d k v"
proof -
  have "x' \<le> v" if "reach L R d x' y" "x' - y = k" for x' y
    using that assms
  proof (induction d x' y rule: reach.induct)
    case origin
    then show ?case by (auto simp: start_ok_def enters_def)
  next
    case (drop_left d x y)
    then have "x + 1 - k = y" by simp
    with drop_left.hyps have "enters L R (Suc d) k (x + 1)" by (simp add: enters_def)
    with drop_left.prems show ?case by (auto simp: start_ok_def)
  next
    case (take_right d x y)
    then have "x - k - 1 = y" by simp
    with take_right.hyps have "enters L R (Suc d) k x" by (simp add: enters_def)
    with take_right.prems show ?case by (auto simp: start_ok_def)
  next
    case (keep d x y)
    then have "x \<le> v" by auto
    moreover have "x \<noteq> v" using keep by (auto simp: algebra_simps)
    ultimately show ?case by simp
  qed
  then show ?thesis using assms(3) by (simp add: furthest_def)
qed

text \<open>From a start, the matching lines lead to the furthest point.\<close>

lemma snake_ex:
  "\<exists>v \<ge> s. (\<forall>z. s \<le> z \<and> z < v \<longrightarrow> lines_match L R z (z - k)) \<and> \<not> lines_match L R v (v - k)"
proof (induction "nat (int (length L) - s)" arbitrary: s)
  case 0
  then show ?case by (intro exI [of _ s]) (auto simp: lines_match_def)
next
  case (Suc n)
  show ?case
  proof (cases "lines_match L R s (s - k)")
    case True
    have "n = nat (int (length L) - (s + 1))" using Suc(2) by simp
    from Suc(1) [OF this] obtain v where v: "v \<ge> s + 1" "\<not> lines_match L R v (v - k)"
      "\<forall>z. s + 1 \<le> z \<and> z < v \<longrightarrow> lines_match L R z (z - k)" by blast
    have "lines_match L R z (z - k)" if "s \<le> z \<and> z < v" for z
      using v(3) that True by (cases "z = s") auto
    with v show ?thesis by (intro exI [of _ v]) auto
  qed auto
qed

lemma reach_snake:
  assumes "reach L R d s (s - k)" "\<forall>z. s \<le> z \<and> z < v \<longrightarrow> lines_match L R z (z - k)" "s \<le> v"
  shows "reach L R d v (v - k)"
  using assms(3,2)
proof (induction rule: int_ge_induct)
  case base
  show ?case by (rule assms(1))
next
  case (step v)
  then have "reach L R d v (v - k)" "lines_match L R v (v - k)" by auto
  from reach.keep [OF this] show ?case by (simp add: algebra_simps)
qed

lemma furthest_snake:
  assumes "start_ok L R d k s" "furthest L R d k v"
  shows "s \<le> v \<and> (\<forall>z. s \<le> z \<and> z < v \<longrightarrow> lines_match L R z (z - k))"
proof -
  obtain w where w: "s \<le> w" "\<not> lines_match L R w (w - k)"
    "\<forall>z. s \<le> z \<and> z < w \<longrightarrow> lines_match L R z (z - k)"
    using snake_ex [of s L R k] by blast
  have "reach L R d w (w - k)" using reach_snake w assms(1) by (auto simp: start_ok_def)
  from furthest_from_start [OF assms(1) w(1) this w(2)] have "v = w" using furthest_unique assms(2) by blast
  with w show ?thesis by simp
qed

section \<open>The frontier\<close>

definition frontier_at :: "string list \<Rightarrow> string list \<Rightarrow> int \<Rightarrow> nat \<Rightarrow> frontier \<Rightarrow> bool" where
  "frontier_at L R offset d f \<longleftrightarrow>
     (\<forall>k. in_round d k \<longrightarrow> (\<exists>x. f (offset + k) = Some x \<and> furthest L R d k x))"

definition before_round :: "string list \<Rightarrow> string list \<Rightarrow> int \<Rightarrow> nat \<Rightarrow> frontier \<Rightarrow> bool" where
  "before_round L R offset d f \<longleftrightarrow>
     (case d of 0 \<Rightarrow> f (offset + 1) = Some 0 | Suc d' \<Rightarrow> frontier_at L R offset d' f)"

text \<open>The neighbour the round starts from, and the point on the diagonal it enters.\<close>

lemma previous_diagonal_start:
  assumes "before_round L R offset d f" "in_round d k"
  shows "\<exists>p. f (offset + previous_diagonal f offset (int d) k) = Some p \<and>
    (d = 0 \<longrightarrow> p = 0) \<and>
    (\<forall>d'. d = Suc d' \<longrightarrow> furthest L R d' (previous_diagonal f offset (int d) k) p) \<and>
    (if previous_diagonal f offset (int d) k = k + 1
     then selectMyersFrontierX f offset (int d) k = Some p \<and> start_ok L R d k p
     else previous_diagonal f offset (int d) k = k - 1 \<and>
       selectMyersFrontierX f offset (int d) k = Some (p + 1) \<and> start_ok L R d k (p + 1))"
proof (cases d)
  case 0
  with assms show ?thesis
    by (auto simp: before_round_def in_round_def previous_diagonal_def selectMyersFrontierX_def start_ok_def
        enters_def reach.origin)
next
  case (Suc d')
  have fr: "\<exists>x. f (offset + j) = Some x \<and> furthest L R d' j x" if "in_round d' j" for j
    using assms(1) Suc that by (auto simp: before_round_def frontier_at_def)
  have up: "in_round d' (k + 1)" if "k \<noteq> int d" using that assms(2) Suc by (auto simp: in_round_def) presburger+
  have down: "in_round d' (k - 1)" if "k \<noteq> - int d" using that assms(2) Suc by (auto simp: in_round_def) presburger+
  have diag: "in_round d' (x - y)" if "reach L R d' x y" for x y using reach_bounds [OF that] by simp
  show ?thesis
  proof (cases "k = - int d \<or> k \<noteq> int d \<and> less_num (f (offset + k - 1)) (f (offset + k + 1))")
    case True
    then have "k \<noteq> int d" using Suc by auto
    then obtain p where p: "f (offset + k + 1) = Some p" "furthest L R d' (k + 1) p"
      using fr [OF up] by (auto simp: add.assoc)
    have "x \<le> p" if "reach L R d' (x - 1) (x - k)" for x
    proof -
      have "k \<noteq> - int d" using diag [OF that] Suc by (auto simp: in_round_def)
      with True p fr [OF down] obtain q where "q < p" "furthest L R d' (k - 1) q"
        by (auto simp: algebra_simps)
      moreover have "reach L R d' (x - 1) (x - 1 - (k - 1))" using that by simp
      ultimately have "x - 1 \<le> q" unfolding furthest_def by blast
      with \<open>q < p\<close> show ?thesis by simp
    qed
    moreover have "x \<le> p" if "reach L R d' x (x - k - 1)" for x
      using that p(2) by (simp add: furthest_def algebra_simps)
    moreover have "reach L R d p (p - k)"
      using reach.take_right [of L R d' p "p - (k + 1)"] p(2) Suc by (simp add: furthest_def algebra_simps)
    ultimately have "start_ok L R d k p" using Suc by (auto simp: start_ok_def enters_def)
    with p True Suc show ?thesis
      by (intro exI [of _ p]) (simp add: previous_diagonal_def selectMyersFrontierX_def add.assoc)
  next
    case False
    then have "k \<noteq> - int d" by auto
    then obtain p where p: "f (offset + k - 1) = Some p" "furthest L R d' (k - 1) p"
      using fr [OF down] by (auto simp: algebra_simps)
    have "x \<le> p" if "reach L R d' x (x - k - 1)" for x
    proof -
      have "k \<noteq> int d" using diag [OF that] Suc by (auto simp: in_round_def)
      with False p fr [OF up] obtain q where "q \<le> p" "furthest L R d' (k + 1) q"
        by (auto simp: algebra_simps not_less)
      moreover have "reach L R d' x (x - (k + 1))" using that by (simp add: diff_diff_eq)
      ultimately have "x \<le> q" unfolding furthest_def by blast
      with \<open>q \<le> p\<close> show ?thesis by simp
    qed
    moreover have "x - 1 \<le> p" if "reach L R d' (x - 1) (x - k)" for x
    proof -
      have "reach L R d' (x - 1) (x - 1 - (k - 1))" using that by simp
      with p(2) show ?thesis unfolding furthest_def by blast
    qed
    moreover have "reach L R d (p + 1) (p + 1 - k)"
      using reach.drop_left [of L R d' p "p - (k - 1)"] p(2) Suc by (simp add: furthest_def algebra_simps)
    ultimately have "start_ok L R d k (p + 1)" using Suc by (force simp: start_ok_def enters_def)
    with p False Suc show ?thesis
      by (intro exI [of _ p]) (auto simp: previous_diagonal_def selectMyersFrontierX_def algebra_simps)
  qed
qed

section \<open>Scanning a round\<close>

lemma advance_matching_snake:
  assumes "advance_matching L R W x y u = Some ((x', y'), u')"
  shows "x \<le> x' \<and> y' = x' - (x - y) \<and> \<not> lines_match L R x' y' \<and>
    (\<forall>z. x \<le> z \<and> z < x' \<longrightarrow> lines_match L R z (z - (x - y)))"
  using assms
proof (induction L R W x y u rule: advance_matching.induct)
  case (1 L R W x y u)
  show ?case
  proof (cases "lines_match L R x y")
    case True
    then obtain u1 where u1: "consumeComputeWork W u = Some u1"
      "advance_matching L R W (x + 1) (y + 1) u1 = Some ((x', y'), u')"
      using "1.prems" by (subst (asm) advance_matching.simps) (auto simp: lines_match_def split: option.splits)
    have cond: "x < int (length L) \<and> y < int (length R) \<and> js_get L x = js_get R y"
      using True by (simp add: lines_match_def)
    have "x + 1 - (y + 1) = x - y" by simp
    with "1.IH" [OF cond u1] have ih: "x + 1 \<le> x' \<and> y' = x' - (x - y) \<and> \<not> lines_match L R x' y' \<and>
      (\<forall>z. x + 1 \<le> z \<and> z < x' \<longrightarrow> lines_match L R z (z - (x - y)))"
      by metis
    moreover have "lines_match L R z (z - (x - y))" if "x \<le> z \<and> z < x'" for z
      using ih that True by (cases "z = x") auto
    ultimately show ?thesis by auto
  next
    case False
    then show ?thesis using "1.prems" by (subst (asm) advance_matching.simps) (auto simp: lines_match_def)
  qed
qed

lemma advance_matching_work:
  assumes "0 \<le> x"
  shows "u + nat (int (length L) - x) \<le> W \<Longrightarrow>
    \<exists>p u'. advance_matching L R W x y u = Some (p, u') \<and> u' \<le> u + nat (int (length L) - x)"
  using assms
proof (induction L R W x y u rule: advance_matching.induct)
  case (1 L R W x y u)
  show ?case
  proof (cases "lines_match L R x y")
    case True
    then have left: "nat (int (length L) - x) = Suc (nat (int (length L) - (x + 1)))" by (auto simp: lines_match_def)
    then have c: "consumeComputeWork W u = Some (u + 1)" using "1.prems" by (simp add: consumeComputeWork_def)
    from "1.IH" [OF _ c] True "1.prems" left have
      "\<exists>p u'. advance_matching L R W (x + 1) (y + 1) (u + 1) = Some (p, u') \<and> u' \<le> u + nat (int (length L) - x)"
      by (fastforce simp: lines_match_def)
    then show ?thesis using True c by (subst advance_matching.simps) (simp add: lines_match_def)
  next
    case False
    then show ?thesis by (subst advance_matching.simps) (auto simp: lines_match_def)
  qed
qed

definition ends_at :: "string list \<Rightarrow> string list \<Rightarrow> int \<Rightarrow> int \<Rightarrow> bool" where
  "ends_at L R k v \<longleftrightarrow> v \<ge> int (length L) \<and> v - k \<ge> int (length R)"

lemma advance_frontier_furthest:
  assumes "selectMyersFrontierX f offset (int d) k = Some s" "start_ok L R d k s"
    and "advanceMyersFrontier L R W f offset (int d) k u = Some (complete, f', u')"
  shows "\<exists>v. f' = f(offset + k := Some v) \<and> furthest L R d k v \<and> complete = ends_at L R k v"
proof -
  obtain v w where adv: "advance_matching L R W s (s - k) (u + 1) = Some ((v, w), u')"
    "f' = f(offset + k := Some v)" "complete = (v \<ge> int (length L) \<and> w \<ge> int (length R))"
    using assms(1,3)
    by (auto simp: advanceMyersFrontier_def consumeComputeWork_def advanceMatchingLines_def split: option.splits if_splits)
  then have v: "s \<le> v" "w = v - k" "\<not> lines_match L R v (v - k)"
    "\<forall>z. s \<le> z \<and> z < v \<longrightarrow> lines_match L R z (z - k)"
    using advance_matching_snake [OF adv(1)] by auto
  then have "reach L R d v (v - k)" using reach_snake [of L R d s k v] assms(2) by (simp add: start_ok_def)
  from furthest_from_start [OF assms(2) v(1) this v(3)] show ?thesis
    using adv v(2) by (intro exI [of _ v]) (simp add: ends_at_def)
qed

lemma advance_frontier_work:
  assumes "selectMyersFrontierX f offset (int d) k = Some s" "start_ok L R d k s" "u + length L + 1 \<le> W"
  shows "\<exists>complete f' u'. advanceMyersFrontier L R W f offset (int d) k u = Some (complete, f', u') \<and>
    u' \<le> u + length L + 1"
proof -
  have "0 \<le> s" using assms(2) reach_bounds by (auto simp: start_ok_def)
  moreover from this have "nat (int (length L) - s) \<le> length L" by simp
  ultimately obtain v w u' where "advance_matching L R W s (s - k) (u + 1) = Some ((v, w), u')"
    "u' \<le> u + 1 + nat (int (length L) - s)"
    using advance_matching_work [of s "u + 1" L W R "s - k"] assms(3) by auto
  with \<open>nat (int (length L) - s) \<le> length L\<close> assms(1,3) show ?thesis
    by (simp add: advanceMyersFrontier_def consumeComputeWork_def advanceMatchingLines_def)
qed

text \<open>Every diagonal still to scan has its start; writing one diagonal does not touch the cells the others of
  the round read.\<close>

definition ready :: "string list \<Rightarrow> string list \<Rightarrow> int \<Rightarrow> nat \<Rightarrow> int list \<Rightarrow> frontier \<Rightarrow> bool" where
  "ready L R offset d ks f \<longleftrightarrow> distinct ks \<and>
     (\<forall>k \<in> set ks. in_round d k \<and> (\<exists>s. selectMyersFrontierX f offset (int d) k = Some s \<and> start_ok L R d k s))"

lemma ready_step:
  assumes "ready L R offset d (k # ks) f"
  shows "ready L R offset d ks (f(offset + k := v))"
proof -
  have "selectMyersFrontierX (f(offset + k := v)) offset (int d) j = selectMyersFrontierX f offset (int d) j"
    if "j \<in> set ks" for j
  proof -
    have "even (int d - k)" "even (int d - j)" using assms that by (auto simp: ready_def in_round_def)
    then have "offset + j - 1 \<noteq> offset + k" "offset + j + 1 \<noteq> offset + k" by presburger+
    then show ?thesis by (simp add: selectMyersFrontierX_def)
  qed
  with assms show ?thesis by (auto simp: ready_def)
qed

lemma scan_open:
  assumes "ready L R offset d ks f" "scan_diagonals L R W offset (int d) ks f u = RoundOpen f' u'"
  shows "(\<forall>k \<in> set ks. \<exists>v. f' (offset + k) = Some v \<and> furthest L R d k v \<and> \<not> ends_at L R k v) \<and>
    (\<forall>i. i - offset \<notin> set ks \<longrightarrow> f' i = f i)"
  using assms
proof (induction ks arbitrary: f u)
  case (Cons k ks)
  obtain s where s: "selectMyersFrontierX f offset (int d) k = Some s" "start_ok L R d k s"
    using Cons.prems(1) by (auto simp: ready_def)
  obtain f1 u1 where f1: "advanceMyersFrontier L R W f offset (int d) k u = Some (False, f1, u1)"
    "scan_diagonals L R W offset (int d) ks f1 u1 = RoundOpen f' u'"
    using Cons.prems(2) by (auto split: option.splits if_splits)
  obtain v where v: "f1 = f(offset + k := Some v)" "furthest L R d k v" "\<not> ends_at L R k v"
    using advance_frontier_furthest [OF s f1(1)] by auto
  note ih = Cons.IH [OF ready_step [OF Cons.prems(1), of "Some v"], folded v(1), OF f1(2)]
  have "k \<notin> set ks" using Cons.prems(1) by (simp add: ready_def)
  then have "f' (offset + k) = Some v" using ih v(1) by simp
  with ih v show ?case by auto
qed simp

lemma scan_complete:
  assumes "ready L R offset d ks f" "scan_diagonals L R W offset (int d) ks f u = RoundComplete u'"
  shows "\<exists>k v. furthest L R d k v \<and> ends_at L R k v"
  using assms
proof (induction ks arbitrary: f u)
  case (Cons k ks)
  obtain s where s: "selectMyersFrontierX f offset (int d) k = Some s" "start_ok L R d k s"
    using Cons.prems(1) by (auto simp: ready_def)
  obtain complete f1 u1 where f1: "advanceMyersFrontier L R W f offset (int d) k u = Some (complete, f1, u1)"
    using Cons.prems(2) by (auto split: option.splits)
  obtain v where v: "f1 = f(offset + k := Some v)" "furthest L R d k v" "complete = ends_at L R k v"
    using advance_frontier_furthest [OF s f1] by auto
  show ?case
  proof (cases complete)
    case False
    then have "scan_diagonals L R W offset (int d) ks f1 u1 = RoundComplete u'" using Cons.prems(2) f1 by simp
    with Cons.IH [OF ready_step [OF Cons.prems(1), of "Some v"], folded v(1)] show ?thesis by blast
  qed (use v in blast)
qed simp

end
