(* ===== verification/Line_Diff_Contracts.thy ===== *)
theory Line_Diff_Contracts
  imports Myers_Frontier
begin

text \<open>
  The line diff is exact, minimal and bounded: the trace of frontiers ends with the first round that
  reaches the end of both texts, and walking back over it gives one line of the result per edit or match.
\<close>

section \<open>The rounds\<close>

lemma diagonals_distinct: "distinct (diagonals d)"
  by (simp add: diagonals_def distinct_map inj_on_def del: upt_Suc)

lemma diagonals_set: "set (diagonals d) = {k. in_round d k}"
proof (intro set_eqI iffI)
  fix k assume "k \<in> set (diagonals d)"
  then show "k \<in> {k. in_round d k}" by (auto simp: diagonals_def in_round_def)
next
  fix k assume "k \<in> {k. in_round d k}"
  then have k: "- int d \<le> k" "k \<le> int d" "even (int d - k)" by (auto simp: in_round_def)
  then have "even (int d + k)" by presburger
  then obtain i where i: "int d + k = 2 * i" by (elim evenE)
  then have "k = 2 * int (nat i) - int d" "nat i < d + 1" using k by auto
  then show "k \<in> set (diagonals d)"
    unfolding diagonals_def set_map set_upt by (intro image_eqI [of _ _ "nat i"]) auto
qed

lemma before_round_ready: "before_round L R offset d f \<Longrightarrow> ready L R offset d (diagonals d) f"
  using previous_diagonal_start [of L R offset d f]
  by (fastforce simp: ready_def diagonals_distinct diagonals_set split: if_splits)

lemma furthest_at_end:
  assumes "at_end L R d" "furthest L R d (int (length L) - int (length R)) v"
  shows "ends_at L R (int (length L) - int (length R)) v"
proof -
  have "int (length L) \<le> v" using assms by (auto simp: at_end_def furthest_def)
  then show ?thesis by (simp add: ends_at_def)
qed

lemma open_round:
  assumes "before_round L R offset d f"
    and "scan_diagonals L R W offset (int d) (diagonals d) f u = RoundOpen f' u'"
  shows "before_round L R offset (Suc d) f' \<and> \<not> at_end L R d"
proof -
  have f': "\<exists>v. f' (offset + k) = Some v \<and> furthest L R d k v \<and> \<not> ends_at L R k v" if "in_round d k" for k
    using scan_open [OF before_round_ready [OF assms(1)] assms(2)] that by (simp add: diagonals_set)
  have "in_round d (int (length L) - int (length R))" if "at_end L R d"
    using that reach_bounds by (auto simp: at_end_def)
  then have "\<not> at_end L R d" using f' furthest_at_end by blast
  with f' show ?thesis by (auto simp: before_round_def frontier_at_def)
qed

lemma complete_round:
  assumes "before_round L R offset d f" "\<forall>d' < d. \<not> at_end L R d'"
    and "scan_diagonals L R W offset (int d) (diagonals d) f u = RoundComplete u'"
  shows "at_end L R d"
proof -
  obtain k v where "furthest L R d k v" "ends_at L R k v"
    using scan_complete [OF before_round_ready [OF assms(1)] assms(3)] by blast
  then obtain d' where "at_end L R d'" "d' \<le> d"
    using reach_past_end [of L R d v "v - k"] by (auto simp: furthest_def ends_at_def)
  with assms(2) show ?thesis by (metis le_neq_implies_less)
qed

definition shortest_trace :: "string list \<Rightarrow> string list \<Rightarrow> int \<Rightarrow> frontier list \<Rightarrow> nat \<Rightarrow> bool" where
  "shortest_trace L R offset trace D \<longleftrightarrow>
     length trace = Suc D \<and> (\<forall>i \<le> D. before_round L R offset i (trace ! i)) \<and>
     at_end L R D \<and> (\<forall>d' < D. \<not> at_end L R d')"

lemma rounds_trace:
  assumes "before_round L R offset d f" "length trace = d" "\<forall>i < d. before_round L R offset i (trace ! i)"
    and "\<forall>d' < d. \<not> at_end L R d'"
    and "myers_rounds L R W offset [d..<length L + length R + 1] f trace u = Some (trace', u')"
  shows "\<exists>D. shortest_trace L R offset trace' D"
  using assms
proof (induction "length L + length R + 1 - d" arbitrary: d f trace u)
  case 0
  then show ?case using at_end_span [of L R] by auto
next
  case (Suc n)
  then have "d < length L + length R + 1" by simp
  note upt = upt_conv_Cons [OF this]
  have tr: "\<forall>i < Suc d. before_round L R offset i ((trace @ [f]) ! i)"
    using Suc.prems(1-3) by (auto simp: nth_append less_Suc_eq)
  show ?case
  proof (cases "scan_diagonals L R W offset (int d) (diagonals d) f u")
    case OutOfBudget
    then show ?thesis using Suc.prems(5) unfolding upt by simp
  next
    case (RoundComplete u1)
    then have "trace' = trace @ [f]" using Suc.prems(5) unfolding upt by simp
    then have "shortest_trace L R offset trace' d"
      using complete_round [OF Suc.prems(1,4) RoundComplete] tr Suc.prems(2,4)
      by (simp add: shortest_trace_def less_Suc_eq_le)
    then show ?thesis ..
  next
    case (RoundOpen f1 u1)
    then have "myers_rounds L R W offset [Suc d..<length L + length R + 1] f1 (trace @ [f]) u1 = Some (trace', u')"
      using Suc.prems(5) unfolding upt by simp
    moreover have "n = length L + length R + 1 - Suc d" using Suc.hyps(2) by simp
    ultimately show ?thesis
      using Suc.hyps(1) [of "Suc d" f1 "trace @ [f]" u1] open_round [OF Suc.prems(1) RoundOpen] tr Suc.prems(2,4)
      by (auto simp: less_Suc_eq)
  qed
qed

lemma trace_shortest:
  assumes "length L + length R > 0" "buildMyersTrace L R W = Some (trace, u)"
  shows "\<exists>D. shortest_trace L R (int (length L + length R)) trace D"
proof (rule rounds_trace)
  show "before_round L R (int (length L + length R)) 0 (initial_frontier (length L + length R))"
  proof -
    have "1 \<le> int (length L + length R)" using assms(1) by linarith
    then show ?thesis by (simp add: before_round_def initial_frontier_def)
  qed
qed (use assms(2) in \<open>simp_all add: buildMyersTrace_def Let_def\<close>)

section \<open>The result as a path\<close>

text \<open>The lines lead from \<open>i\<close> lines of the left and \<open>j\<close> of the right text to the end of both.\<close>

fun script_from :: "string list \<Rightarrow> string list \<Rightarrow> int \<Rightarrow> int \<Rightarrow> diff_line list \<Rightarrow> bool" where
  "script_from L R i j [] = (i = int (length L) \<and> j = int (length R))"
| "script_from L R i j (l # ls) =
     (case dl_type l of
        ContextLine \<Rightarrow> 0 \<le> i \<and> 0 \<le> j \<and> lines_match L R i j \<and> dl_value l = js_get L i \<and>
          dl_left l = Some (i + 1) \<and> dl_right l = Some (j + 1) \<and> script_from L R (i + 1) (j + 1) ls
      | AddedLine \<Rightarrow> 0 \<le> j \<and> j < int (length R) \<and> dl_value l = js_get R j \<and>
          dl_left l = None \<and> dl_right l = Some (j + 1) \<and> script_from L R i (j + 1) ls
      | RemovedLine \<Rightarrow> 0 \<le> i \<and> i < int (length L) \<and> dl_value l = js_get L i \<and>
          dl_left l = Some (i + 1) \<and> dl_right l = None \<and> script_from L R (i + 1) j ls)"

definition edits :: "diff_line list \<Rightarrow> nat" where
  "edits ls = length (filter (\<lambda>l. dl_type l \<noteq> ContextLine) ls)"

lemma edits_simps [simp]: "edits [] = 0"
  "edits (l # ls) = (if dl_type l = ContextLine then edits ls else Suc (edits ls))"
  "edits (rev ls) = edits ls"
  by (simp_all add: edits_def flip: rev_filter)

lemma script_bounds: "script_from L R i j ls \<Longrightarrow> i \<le> int (length L) \<and> j \<le> int (length R)"
  by (induction ls arbitrary: i j) (auto simp: lines_match_def split: diff_line_type.splits)

lemma context_lines_script:
  assumes "s \<le> x" "\<forall>z. s \<le> z \<and> z < x \<longrightarrow> lines_match L R z (z - k)" "y = x - k" "0 \<le> s" "0 \<le> s - k"
    and "px = s \<and> py < s - k \<or> px < s \<and> py = s - k"
    and "script_from L R x y (rev lines)"
  shows "\<exists>lines'. context_lines L px py x y lines = ((s, s - k), lines') \<and>
    script_from L R s (s - k) (rev lines') \<and> edits lines' = edits lines"
  using assms
proof (induction "nat (x - s)" arbitrary: x y lines)
  case 0
  then have "x = s" by simp
  with 0 show ?case by (subst context_lines.simps) auto
next
  case (Suc n)
  let ?l = "\<lparr>dl_type = ContextLine, dl_value = js_get L (x - 1), dl_left = Some x, dl_right = Some y\<rparr>"
  have x: "s \<le> x - 1" "n = nat (x - 1 - s)" using Suc.hyps(2) by auto
  have "y - 1 = x - 1 - k" using Suc.prems(3) by simp
  moreover have "lines_match L R (x - 1) (x - 1 - k)" using Suc.prems(2) x(1) by simp
  ultimately have m: "lines_match L R (x - 1) (y - 1)" by (simp only:)
  have "edits (lines @ [?l]) = edits lines" by (simp add: edits_def)
  moreover have "script_from L R (x - 1) (y - 1) (rev (lines @ [?l]))"
    using m Suc.prems x by auto
  moreover have "context_lines L px py x y lines = context_lines L px py (x - 1) (y - 1) (lines @ [?l])"
    using Suc.prems(3,6) x(1) by (subst context_lines.simps) auto
  ultimately show ?case
    using Suc.hyps(1) [OF x(2) x(1), of "y - 1" "lines @ [?l]"] Suc.prems by auto
qed

section \<open>Walking back\<close>

lemma reach_zero_round: "furthest L R 0 k x \<Longrightarrow> k = 0"
  using reach_bounds by (force simp: furthest_def in_round_def)

lemma back_rounds_script:
  assumes "\<forall>i \<le> n. before_round L R offset i (trace ! i)" "furthest L R n (x - y) x"
    and "script_from L R x y (rev lines)"
  shows "script_from L R 0 0 (rev (back_rounds L R offset trace n x y lines)) \<and>
    edits (back_rounds L R offset trace n x y lines) = edits lines + n"
  using assms
proof (induction n arbitrary: x y lines)
  case 0
  let ?f = "trace ! 0"
  have k: "x - y = 0" using reach_zero_round 0(2) by blast
  have f: "?f (offset + 1) = Some 0" using 0(1) by (simp add: before_round_def)
  have "start_ok L R 0 0 0" by (auto simp: start_ok_def enters_def reach.origin)
  with 0(2) k have "0 \<le> x" "\<forall>z. 0 \<le> z \<and> z < x \<longrightarrow> lines_match L R z (z - 0)"
    using furthest_snake [of L R 0 0 0 x] by auto
  then obtain lines' where "context_lines L 0 (- 1) x y lines = ((0, 0), lines')"
    "script_from L R 0 0 (rev lines')" "edits lines' = edits lines"
    using context_lines_script [of 0 x L R 0 y 0 "- 1" lines] 0(3) k by auto
  then show ?case using f k by (simp add: previous_diagonal_def back_context_def Let_def)
next
  case (Suc n)
  define f k where "f = trace ! Suc n" and "k = x - y"
  define pk where "pk = previous_diagonal f offset (int (Suc n)) k"
  have bf: "before_round L R offset (Suc n) f" using Suc.prems(1) by (simp add: f_def)
  have inr: "in_round (Suc n) k" using Suc.prems(2) reach_bounds by (auto simp: furthest_def k_def)
  obtain p where p: "f (offset + pk) = Some p" "furthest L R n pk p"
    "if pk = k + 1 then start_ok L R (Suc n) k p else pk = k - 1 \<and> start_ok L R (Suc n) k (p + 1)"
    using previous_diagonal_start [OF bf inr] unfolding pk_def by (auto split: if_splits)
  define s where "s = (if pk = k + 1 then p else p + 1)"
  have so: "start_ok L R (Suc n) k s" using p(3) by (auto simp: s_def split: if_splits)
  then have "0 \<le> s \<and> 0 \<le> s - k" using reach_bounds by (auto simp only: start_ok_def)
  with furthest_snake [OF so, of x] Suc.prems(2)
  have sn: "s \<le> x" "\<forall>z. s \<le> z \<and> z < x \<longrightarrow> lines_match L R z (z - k)" "0 \<le> s" "0 \<le> s - k"
    by (auto simp only: k_def)
  have "0 \<le> p \<and> 0 \<le> p - pk" using p(2) reach_bounds by (auto simp only: furthest_def)
  then have pos: "0 \<le> p" "0 \<le> p - pk" by (simp_all only:)
  have y: "y = x - k" by (simp add: k_def)
  have before: "p = s \<and> p - pk < s - k \<or> p < s \<and> p - pk = s - k" using p(3) by (auto simp: s_def split: if_splits)
  obtain lines' where l: "context_lines L p (p - pk) x y lines = ((s, s - k), lines')"
    "script_from L R s (s - k) (rev lines')" "edits lines' = edits lines"
    using context_lines_script [OF sn(1,2) y sn(3,4) before Suc.prems(3)] by blast
  have ctx: "back_context L (f (offset + pk)) pk x y lines = ((s, s - k), lines')"
    using l(1) p(1) by (simp add: back_context_def)
  note bounds = script_bounds [OF l(2)]
  let ?a = "\<lparr>dl_type = AddedLine, dl_value = js_get R (s - k - 1), dl_left = None, dl_right = Some (s - k)\<rparr>"
  let ?r = "\<lparr>dl_type = RemovedLine, dl_value = js_get L (s - 1), dl_left = Some s, dl_right = None\<rparr>"
  have step: "back_rounds L R offset trace (Suc n) x y lines =
      (if s = p then back_rounds L R offset trace n s (s - k - 1) (lines' @ [?a])
       else back_rounds L R offset trace n (s - 1) (s - k) (lines' @ [?r]))"
    unfolding back_rounds.simps Let_def f_def [symmetric] k_def [symmetric] pk_def [symmetric] ctx
    unfolding p(1) by simp
  have tr: "\<forall>i \<le> n. before_round L R offset i (trace ! i)" using Suc.prems(1) by simp
  show ?case
  proof (cases "pk = k + 1")
    case True
    then have "script_from L R s (s - k - 1) (rev (lines' @ [?a]))" "furthest L R n (s - (s - k - 1)) s"
      using l(2) bounds pos p(2) by (auto simp: s_def algebra_simps)
    from Suc.IH [OF tr this(2,1)] show ?thesis using step True l(3) by (simp add: s_def edits_def)
  next
    case False
    then have "script_from L R (s - 1) (s - k) (rev (lines' @ [?r]))" "furthest L R n (s - 1 - (s - k)) (s - 1)"
      using l(2) bounds pos p(2,3) by (auto simp: s_def algebra_simps)
    from Suc.IH [OF tr this(2,1)] show ?thesis using step False l(3) by (simp add: s_def edits_def)
  qed
qed

lemma empty_trace: "buildMyersTrace [] [] W = Some (trace, u) \<Longrightarrow> backtrackMyersTrace [] [] trace = []"
  by (auto simp: buildMyersTrace_def backtrackMyersTrace_def diagonals_def advanceMyersFrontier_def
      selectMyersFrontierX_def initial_frontier_def advanceMatchingLines_def back_context_def
      previous_diagonal_def Let_def split: option.splits)

lemma at_end_furthest:
  assumes "at_end L R D" "\<forall>d' < D. \<not> at_end L R d'"
  shows "furthest L R D (int (length L) - int (length R)) (int (length L))"
proof -
  have "x \<le> int (length L)" if r: "reach L R D x (x - (int (length L) - int (length R)))" for x
  proof (rule ccontr)
    assume x: "\<not> x \<le> int (length L)"
    then obtain d' where "at_end L R d'" "int d' < int D"
      using reach_past_end [OF r] by fastforce
    with assms(2) show False by simp
  qed
  with assms(1) show ?thesis by (simp add: furthest_def at_end_def)
qed

lemma backtrack_script:
  assumes "buildMyersTrace L R W = Some (trace, u)"
  shows "script_from L R 0 0 (backtrackMyersTrace L R trace) \<and>
    at_end L R (edits (backtrackMyersTrace L R trace)) \<and>
    (\<forall>d' < edits (backtrackMyersTrace L R trace). \<not> at_end L R d')"
proof (cases "length L + length R > 0")
  case True
  then obtain D where D: "shortest_trace L R (int (length L + length R)) trace D"
    using trace_shortest assms by blast
  have "script_from L R 0 0 (rev (back_rounds L R (int (length L + length R)) trace D (int (length L)) (int (length R)) [])) \<and>
    edits (back_rounds L R (int (length L + length R)) trace D (int (length L)) (int (length R)) []) = edits [] + D"
    by (rule back_rounds_script) (use D at_end_furthest in \<open>auto simp: shortest_trace_def\<close>)
  then show ?thesis using D by (auto simp: backtrackMyersTrace_def shortest_trace_def Let_def)
next
  case False
  then have "L = []" "R = []" by auto
  with empty_trace [of W trace u] assms show ?thesis by (simp add: at_end_def reach.origin)
qed

section \<open>Both texts in the result\<close>

text \<open>The lines of a text with their numbers.\<close>

definition numbered :: "string list \<Rightarrow> (string option \<times> int option) list" where
  "numbered xs = map (\<lambda>i. (Some (xs ! i), Some (int i + 1))) [0..<length xs]"

lemma length_numbered [simp]: "length (numbered xs) = length xs"
  by (simp add: numbered_def)

lemma numbered_drop:
  assumes "0 \<le> i" "i < int (length xs)"
  shows "drop (nat i) (numbered xs) = (js_get xs i, Some (i + 1)) # drop (nat (i + 1)) (numbered xs)"
proof -
  have "nat i < length (numbered xs)" "nat (i + 1) = Suc (nat i)" using assms by (auto simp: numbered_def)
  then have "drop (nat i) (numbered xs) = numbered xs ! nat i # drop (nat (i + 1)) (numbered xs)"
    by (simp add: Cons_nth_drop_Suc)
  then show ?thesis using assms by (simp add: numbered_def js_get_def)
qed

lemma script_left:
  "script_from L R i j ls \<Longrightarrow> 0 \<le> i \<Longrightarrow>
     map (\<lambda>l. (dl_value l, dl_left l)) (filter (\<lambda>l. dl_type l \<noteq> AddedLine) ls) = drop (nat i) (numbered L)"
  by (induction ls arbitrary: i j)
    (auto simp: numbered_drop lines_match_def split: diff_line_type.splits)

lemma script_right:
  "script_from L R i j ls \<Longrightarrow> 0 \<le> j \<Longrightarrow>
     map (\<lambda>l. (dl_value l, dl_right l)) (filter (\<lambda>l. dl_type l \<noteq> RemovedLine) ls) = drop (nat j) (numbered R)"
  by (induction ls arbitrary: i j)
    (auto simp: numbered_drop lines_match_def split: diff_line_type.splits)

lemma script_numbers:
  "script_from L R i j ls \<Longrightarrow> l \<in> set ls \<Longrightarrow>
     (dl_type l = AddedLine \<longrightarrow> dl_left l = None) \<and> (dl_type l = RemovedLine \<longrightarrow> dl_right l = None)"
  by (induction ls arbitrary: i j) (auto split: diff_line_type.splits)

section \<open>No shorter edit\<close>

text \<open>Lines that spell out both texts, whichever way they were found.\<close>

definition spells :: "diff_line list \<Rightarrow> string list \<Rightarrow> string list \<Rightarrow> bool" where
  "spells ls L R \<longleftrightarrow>
     map dl_value (filter (\<lambda>l. dl_type l \<noteq> AddedLine) ls) = map Some L \<and>
     map dl_value (filter (\<lambda>l. dl_type l \<noteq> RemovedLine) ls) = map Some R"

lemma drop_eq_ConsD: "drop i xs = v # vs \<Longrightarrow> i < length xs \<and> xs ! i = v \<and> drop (Suc i) xs = vs"
  by (metis drop_Suc length_drop length_greater_0_conv list.distinct(1) list.sel(3) nth_via_drop tl_drop
      zero_less_diff)

lemma spells_reach:
  assumes "spells ls (drop i L) (drop j R)" "reach L R d (int i) (int j)" "i \<le> length L" "j \<le> length R"
  shows "at_end L R (d + edits ls)"
  using assms
proof (induction ls arbitrary: i j d)
  case Nil
  then have "i = length L" "j = length R" by (auto simp: spells_def)
  with Nil show ?case by (simp add: at_end_def)
next
  case (Cons l ls)
  have left: "\<exists>v. drop i L = v # drop (Suc i) L \<and> dl_value l = Some v \<and> i < length L \<and> L ! i = v"
    if "dl_type l \<noteq> AddedLine"
    using that Cons.prems(1) by (auto simp: spells_def Cons_eq_map_conv Cons_nth_drop_Suc dest!: drop_eq_ConsD)
  have right: "\<exists>v. drop j R = v # drop (Suc j) R \<and> dl_value l = Some v \<and> j < length R \<and> R ! j = v"
    if "dl_type l \<noteq> RemovedLine"
    using that Cons.prems(1) by (auto simp: spells_def Cons_eq_map_conv Cons_nth_drop_Suc dest!: drop_eq_ConsD)
  show ?case
  proof (cases "dl_type l")
    case ContextLine
    with left right obtain v where "drop i L = v # drop (Suc i) L" "drop j R = v # drop (Suc j) R"
      "i < length L" "j < length R" "L ! i = v" "R ! j = v" by auto
    moreover from this have "lines_match L R (int i) (int j)" by (simp add: lines_match_def js_get_def)
    ultimately show ?thesis
      using Cons.IH [of "Suc i" "Suc j" d] Cons.prems reach.keep [of L R d "int i" "int j"] ContextLine
      by (auto simp: spells_def add.commute)
  next
    case AddedLine
    with right obtain v where "drop j R = v # drop (Suc j) R" "j < length R" by auto
    then show ?thesis
      using Cons.IH [of i "Suc j" "Suc d"] Cons.prems reach.take_right [of L R d "int i" "int j"] AddedLine
      by (auto simp: spells_def add.commute)
  next
    case RemovedLine
    with left obtain v where "drop i L = v # drop (Suc i) L" "i < length L" by auto
    then show ?thesis
      using Cons.IH [of "Suc i" j "Suc d"] Cons.prems reach.drop_left [of L R d "int i" "int j"] RemovedLine
      by (auto simp: spells_def add.commute)
  qed
qed

section \<open>Work\<close>

lemma advance_matching_within:
  "advance_matching L R W x y u = Some (p, u') \<Longrightarrow> u \<le> W \<Longrightarrow> u' \<le> W"
proof (induction L R W x y u rule: advance_matching.induct)
  case (1 L R W x y u)
  show ?case
  proof (cases "x < int (length L) \<and> y < int (length R) \<and> js_get L x = js_get R y")
    case True
    then obtain u1 where u1: "consumeComputeWork W u = Some u1"
      "advance_matching L R W (x + 1) (y + 1) u1 = Some (p, u')"
      using "1.prems"(1) by (subst (asm) advance_matching.simps) (auto split: option.splits)
    then have "u1 \<le> W" by (auto simp: consumeComputeWork_def split: if_splits)
    with "1.IH" [OF True u1] show ?thesis by simp
  next
    case False
    then show ?thesis using "1.prems" by (subst (asm) advance_matching.simps) auto
  qed
qed

lemma advance_frontier_within:
  "advanceMyersFrontier L R W f offset d k u = Some (c, f', u') \<Longrightarrow> u' \<le> W"
  by (auto simp: advanceMyersFrontier_def consumeComputeWork_def advanceMatchingLines_def Let_def
      dest: advance_matching_within split: if_splits option.splits)

lemma scan_within:
  "u \<le> W \<Longrightarrow> scan_diagonals L R W offset d ks f u = RoundComplete u' \<or>
     scan_diagonals L R W offset d ks f u = RoundOpen f' u' \<Longrightarrow> u' \<le> W"
proof (induction ks arbitrary: f u)
  case (Cons k ks)
  obtain c f1 u1 where adv: "advanceMyersFrontier L R W f offset d k u = Some (c, f1, u1)"
    using Cons.prems(2) by (auto split: option.splits)
  note within = advance_frontier_within [OF adv]
  show ?case
  proof (cases c)
    case True
    with Cons.prems(2) adv within show ?thesis by auto
  next
    case False
    with Cons.IH [OF within, of f1] Cons.prems(2) adv show ?thesis by simp
  qed
qed simp

lemma rounds_within:
  "u \<le> W \<Longrightarrow> myers_rounds L R W offset ds f trace u = Some (trace', u') \<Longrightarrow> u' \<le> W"
  by (induction ds arbitrary: f trace u)
    (auto simp: Let_def dest: scan_within split: round_outcome.splits)

lemma scan_work:
  assumes "ready L R offset d ks f" "u + length ks * (length L + 1) \<le> W"
  shows "scan_diagonals L R W offset (int d) ks f u \<noteq> OutOfBudget \<and>
    (\<forall>f' u'. scan_diagonals L R W offset (int d) ks f u = RoundOpen f' u' \<longrightarrow>
      u' \<le> u + length ks * (length L + 1))"
  using assms
proof (induction ks arbitrary: f u)
  case (Cons k ks)
  obtain s where s: "selectMyersFrontierX f offset (int d) k = Some s" "start_ok L R d k s"
    using Cons.prems(1) by (auto simp: ready_def)
  obtain c f1 u1 where adv: "advanceMyersFrontier L R W f offset (int d) k u = Some (c, f1, u1)"
    "u1 \<le> u + length L + 1"
    using advance_frontier_work [OF s, of u W] Cons.prems(2) by auto
  obtain v where v: "f1 = f(offset + k := Some v)" using advance_frontier_furthest [OF s adv(1)] by auto
  have "u1 + length ks * (length L + 1) \<le> W" using adv(2) Cons.prems(2) by simp
  note ih = Cons.IH [OF ready_step [OF Cons.prems(1), of "Some v"], folded v, OF this]
  show ?case
  proof (cases c)
    case True
    with adv show ?thesis by simp
  next
    case False
    have "u1 + length ks * (length L + 1) \<le> u + length (k # ks) * (length L + 1)" using adv(2) by simp
    with False adv(1) ih show ?thesis by (auto intro: order_trans)
  qed
qed simp

lemma rounds_work:
  assumes "before_round L R offset d f"
    and "u + (n - d) * ((length L + length R + 1) * (length L + 1)) \<le> W" and "n = length L + length R + 1"
  shows "myers_rounds L R W offset [d..<n] f trace u \<noteq> None"
  using assms
proof (induction "n - d" arbitrary: d f trace u)
  case (Suc m)
  then have "d < n" by simp
  note upt = upt_conv_Cons [OF this]
  let ?B = "(length L + length R + 1) * (length L + 1)"
  have len: "length (diagonals d) * (length L + 1) \<le> ?B"
    using \<open>d < n\<close> Suc.prems(3) by (intro mult_right_mono) (auto simp: diagonals_def)
  have "n - d = Suc (n - Suc d)" using \<open>d < n\<close> by simp
  then have split: "(n - d) * ?B = ?B + (n - Suc d) * ?B" by (simp only: mult_Suc)
  have "u + length (diagonals d) * (length L + 1) \<le> W" using len split Suc.prems(2) by linarith
  note scan = scan_work [OF before_round_ready [OF Suc.prems(1)] this]
  show ?case
  proof (cases "scan_diagonals L R W offset (int d) (diagonals d) f u")
    case (RoundOpen f1 u1)
    then have "u1 + (n - Suc d) * ?B \<le> W" using scan len split Suc.prems(2) by fastforce
    then have "myers_rounds L R W offset [Suc d..<n] f1 (trace @ [f]) u1 \<noteq> None"
      using Suc.hyps open_round [OF Suc.prems(1) RoundOpen] Suc.prems(3) by (intro Suc.hyps(1)) auto
    with RoundOpen show ?thesis unfolding upt by simp
  qed (use scan in \<open>simp_all add: upt\<close>)
qed simp

lemma build_work:
  assumes "(length L + length R + 1) * ((length L + length R + 1) * (length L + 1)) \<le> W"
  shows "buildMyersTrace L R W \<noteq> None"
proof (cases "length L + length R > 0")
  case True
  then have "1 \<le> int (length L + length R)" by linarith
  then have "before_round L R (int (length L + length R)) 0 (initial_frontier (length L + length R))"
    by (simp add: before_round_def initial_frontier_def)
  from rounds_work [OF this, of 0] assms show ?thesis by (simp add: buildMyersTrace_def Let_def del: upt_Suc)
next
  case False
  with assms show ?thesis
    by (auto simp: buildMyersTrace_def diagonals_def advanceMyersFrontier_def selectMyersFrontierX_def
        initial_frontier_def advanceMatchingLines_def consumeComputeWork_def Let_def)
qed

section \<open>The line diff\<close>

lemma not_too_large:
  assumes "\<not> ld_too_large (computeBudgetedLineDiff a b budgets)"
  obtains trace u where "buildMyersTrace (splitLines a) (splitLines b) (lb_max_work budgets) = Some (trace, u)"
    and "ld_lines (computeBudgetedLineDiff a b budgets) = backtrackMyersTrace (splitLines a) (splitLines b) trace"
proof (cases "buildMyersTrace (splitLines a) (splitLines b) (lb_max_work budgets)")
  case None
  with assms show thesis by (simp add: computeBudgetedLineDiff_def makeTooLargeResult_def Let_def split: if_splits)
next
  case (Some r)
  with assms show thesis using that
    by (cases r) (auto simp: computeBudgetedLineDiff_def makeTooLargeResult_def Let_def split: if_splits)
qed

text \<open>C15: A line diff shows both texts exactly: the context and removed lines are the lines of the old text in
  order with their line numbers, the context and added lines those of the new text, and an added line has no
  old number, a removed line no new one.\<close>

theorem line_diff_is_exact:
  assumes "\<not> ld_too_large (computeBudgetedLineDiff a b budgets)"
  shows "map (\<lambda>l. (dl_value l, dl_left l)) (filter (\<lambda>l. dl_type l \<noteq> AddedLine)
        (ld_lines (computeBudgetedLineDiff a b budgets))) = numbered (splitLines a) \<and>
    map (\<lambda>l. (dl_value l, dl_right l)) (filter (\<lambda>l. dl_type l \<noteq> RemovedLine)
        (ld_lines (computeBudgetedLineDiff a b budgets))) = numbered (splitLines b) \<and>
    (\<forall>l \<in> set (ld_lines (computeBudgetedLineDiff a b budgets)).
      (dl_type l = AddedLine \<longrightarrow> dl_left l = None) \<and> (dl_type l = RemovedLine \<longrightarrow> dl_right l = None))"
proof -
  obtain trace u where t: "buildMyersTrace (splitLines a) (splitLines b) (lb_max_work budgets) = Some (trace, u)"
    "ld_lines (computeBudgetedLineDiff a b budgets) = backtrackMyersTrace (splitLines a) (splitLines b) trace"
    by (rule not_too_large [OF assms])
  have "script_from (splitLines a) (splitLines b) 0 0 (ld_lines (computeBudgetedLineDiff a b budgets))"
    using backtrack_script [OF t(1)] t(2) by simp
  from script_left [OF this] script_right [OF this] script_numbers [OF this] show ?thesis by simp
qed

definition small_budgets :: line_diff_budgets where
  "small_budgets = \<lparr>lb_max_lines = 5, lb_max_work = 40, lb_max_rows = 5\<rparr>"

lemma small_diff: "\<not> ld_too_large (computeBudgetedLineDiff ''x'' ''y'' small_budgets)"
  by code_simp

theorem line_diff_is_exact_witness:
  "map (\<lambda>l. (dl_value l, dl_left l)) (filter (\<lambda>l. dl_type l \<noteq> AddedLine)
     (ld_lines (computeBudgetedLineDiff ''x'' ''y'' small_budgets))) = [(Some ''x'', Some 1)]"
proof -
  have "numbered (splitLines ''x'') = [(Some ''x'', Some 1)]" by code_simp
  with line_diff_is_exact [OF small_diff] show ?thesis by simp
qed

text \<open>C14: A line diff is a shortest one: any list of context, added and removed lines that spells out both texts
  has at least as many added and removed lines.\<close>

theorem line_diff_is_minimal:
  assumes "\<not> ld_too_large (computeBudgetedLineDiff a b budgets)" "spells ls (splitLines a) (splitLines b)"
  shows "edits (ld_lines (computeBudgetedLineDiff a b budgets)) \<le> edits ls"
proof -
  obtain trace u where t: "buildMyersTrace (splitLines a) (splitLines b) (lb_max_work budgets) = Some (trace, u)"
    "ld_lines (computeBudgetedLineDiff a b budgets) = backtrackMyersTrace (splitLines a) (splitLines b) trace"
    by (rule not_too_large [OF assms(1)])
  have "at_end (splitLines a) (splitLines b) (edits ls)"
    using spells_reach [of ls 0 "splitLines a" 0 "splitLines b" 0] assms(2) by (simp add: reach.origin)
  then show ?thesis using backtrack_script [OF t(1)] t(2) by (metis not_less)
qed

theorem line_diff_is_minimal_witness:
  "edits (ld_lines (computeBudgetedLineDiff ''x'' ''y'' small_budgets)) \<le> 2"
proof -
  let ?ls = "[\<lparr>dl_type = RemovedLine, dl_value = Some ''x'', dl_left = None, dl_right = None\<rparr>,
    \<lparr>dl_type = AddedLine, dl_value = Some ''y'', dl_left = None, dl_right = None\<rparr>]"
  have "splitLines ''x'' = [''x'']" "splitLines ''y'' = [''y'']" by code_simp+
  then have "spells ?ls (splitLines ''x'') (splitLines ''y'')" by (simp add: spells_def)
  from line_diff_is_minimal [OF small_diff this] show ?thesis by simp
qed

text \<open>C37: A line diff keeps to its budgets and gives up only because of them: the work it reports is never more
  than allowed, a result marked too large has no lines and says which budget was exceeded, and texts within
  the line budget are always compared when the work budget is at least \<open>(n + m + 1) * (n + m + 1) * (n + 1)\<close>
  for \<open>n\<close> old and \<open>m\<close> new lines.\<close>

theorem line_diff_within_budgets:
  fixes a b budgets
  defines "r \<equiv> computeBudgetedLineDiff a b budgets"
  defines "n \<equiv> length (splitLines a)" and "m \<equiv> length (splitLines b)"
  shows "ld_work r \<le> lb_max_work budgets \<and>
    (ld_too_large r \<longrightarrow> ld_lines r = [] \<and>
      ld_reason r = Some (if max n m > lb_max_lines budgets then InputTooLarge else ComputeTooLarge)) \<and>
    (max n m \<le> lb_max_lines budgets \<and> (n + m + 1) * ((n + m + 1) * (n + 1)) \<le> lb_max_work budgets \<longrightarrow>
      \<not> ld_too_large r)"
proof (cases "buildMyersTrace (splitLines a) (splitLines b) (lb_max_work budgets)")
  case None
  then have "\<not> (n + m + 1) * ((n + m + 1) * (n + 1)) \<le> lb_max_work budgets"
    using build_work unfolding n_def m_def by blast
  with None show ?thesis
    by (auto simp: r_def n_def m_def computeBudgetedLineDiff_def makeTooLargeResult_def Let_def)
next
  case (Some t)
  then have "snd t \<le> lb_max_work budgets"
    using rounds_within by (cases t) (fastforce simp: buildMyersTrace_def Let_def simp del: upt_Suc)
  with Some show ?thesis
    by (cases t) (auto simp: r_def n_def m_def computeBudgetedLineDiff_def makeTooLargeResult_def Let_def)
qed

theorem line_diff_within_budgets_witness:
  "ld_work (computeBudgetedLineDiff ''x'' ''y'' small_budgets) \<le> 40 \<and>
   \<not> ld_too_large (computeBudgetedLineDiff ''x'' ''y'' small_budgets)"
proof -
  have "length (splitLines ''x'') = 1" "length (splitLines ''y'') = 1"
    "lb_max_work small_budgets = 40" "lb_max_lines small_budgets = 5" by code_simp+
  with line_diff_within_budgets [of "''x''" "''y''" small_budgets] show ?thesis by simp
qed

end
