(* ===== verification/Domain_Registry.thy ===== *)
theory Domain_Registry
  imports Stream_Domains "HOL-Library.Multiset"
begin

text \<open>
  The refresh domains as the orchestrator knows them: the policies of the generated contract
  (\<open>core/refresh/types.generated.ts\<close>), the descriptors of \<open>domainRegistry.ts\<close>, and the registrations
  \<open>domainRegistrations.ts\<close> builds from them when the module loads. A streaming registration is a record of
  callbacks; the model keeps which manager they call, whether the domain has a snapshot at all, and whether a
  \<open>refreshOnce\<close> callback is there. The scope grammars of the same policies are in \<open>Scope_Codec\<close>.
\<close>

section \<open>Policies\<close>

datatype domain_category = SystemDomain | ClusterDomain | NamespaceDomain

datatype orchestrator_kind =
    SnapshotOnly
  | DoorbellSnapshot
  | ResourceStream
  | CatalogStream
  | ContainerLogsStream

record domain_policy =
  dp_domain :: string
  dp_category :: domain_category
  dp_orchestrator :: orchestrator_kind
  dp_interval :: millis
  dp_timeout :: nat
  dp_order :: nat

definition policy_row ::
    "string \<times> domain_category \<times> orchestrator_kind \<times> nat \<times> nat \<times> nat \<Rightarrow> domain_policy" where
  "policy_row row =
     (case row of (domain, category, orchestrator, interval, timeout, order) \<Rightarrow>
        \<lparr>dp_domain = domain, dp_category = category, dp_orchestrator = orchestrator,
         dp_interval = interval, dp_timeout = timeout, dp_order = order\<rparr>)"

definition domain_policies :: "domain_policy list" where
  "domain_policies = map policy_row
     [(''namespaces'', SystemDomain, DoorbellSnapshot, 2000, 10, 0),
      (''namespace-metrics'', SystemDomain, DoorbellSnapshot, 5000, 10, 1),
      (''cluster-overview'', SystemDomain, DoorbellSnapshot, 10000, 10, 3),
      (''cluster-identities'', ClusterDomain, DoorbellSnapshot, 10000, 10, 30),
      (''cluster-attention'', ClusterDomain, DoorbellSnapshot, 5000, 10, 4),
      (''catalog'', ClusterDomain, CatalogStream, 15000, 30, 13),
      (''catalog-diff'', ClusterDomain, SnapshotOnly, 15000, 30, 14),
      (''nodes'', ClusterDomain, ResourceStream, 5000, 10, 16),
      (''cluster-config'', ClusterDomain, ResourceStream, 10000, 10, 19),
      (''cluster-crds'', ClusterDomain, ResourceStream, 15000, 60, 20),
      (''cluster-events'', ClusterDomain, DoorbellSnapshot, 3000, 10, 15),
      (''cluster-rbac'', ClusterDomain, ResourceStream, 10000, 10, 17),
      (''cluster-storage'', ClusterDomain, ResourceStream, 10000, 10, 18),
      (''namespace-workloads'', NamespaceDomain, ResourceStream, 5000, 10, 22),
      (''namespace-autoscaling'', NamespaceDomain, ResourceStream, 5000, 10, 27),
      (''namespace-config'', NamespaceDomain, ResourceStream, 5000, 10, 23),
      (''namespace-events'', NamespaceDomain, DoorbellSnapshot, 3000, 10, 21),
      (''namespace-helm'', NamespaceDomain, ResourceStream, 10000, 10, 29),
      (''namespace-network'', NamespaceDomain, ResourceStream, 5000, 10, 24),
      (''namespace-quotas'', NamespaceDomain, ResourceStream, 10000, 10, 28),
      (''namespace-rbac'', NamespaceDomain, ResourceStream, 10000, 10, 25),
      (''namespace-storage'', NamespaceDomain, ResourceStream, 10000, 10, 26),
      (''pods'', SystemDomain, ResourceStream, 5000, 30, 12),
      (''object-details'', SystemDomain, DoorbellSnapshot, 10000, 10, 6),
      (''object-yaml'', SystemDomain, SnapshotOnly, 5000, 10, 8),
      (''object-helm-manifest'', SystemDomain, SnapshotOnly, 5000, 10, 9),
      (''object-helm-values'', SystemDomain, SnapshotOnly, 5000, 10, 10),
      (''object-events'', SystemDomain, DoorbellSnapshot, 3000, 10, 2),
      (''object-map'', SystemDomain, SnapshotOnly, 5000, 10, 7),
      (''object-maintenance'', SystemDomain, SnapshotOnly, 5000, 10, 5),
      (''container-logs'', SystemDomain, ContainerLogsStream, 5000, 10, 11)]"

definition frontendRefreshDomainPolicies :: "domain_policy list" where
  "frontendRefreshDomainPolicies = sort_key dp_order domain_policies"

definition refreshDomainDescriptors :: "(string \<times> domain_policy) list" where
  "refreshDomainDescriptors = map (\<lambda>policy. (dp_domain policy, policy)) domain_policies"

text \<open>A descriptor's \<open>timing\<close>: interval in milliseconds, timeout in seconds. Every domain of the contract has
  one; the default for another name is never read.\<close>

definition getRefreshDomainTiming :: "string \<Rightarrow> millis \<times> nat" where
  "getRefreshDomainTiming domain =
     (case map_of refreshDomainDescriptors domain of
        None \<Rightarrow> (0, 0) | Some policy \<Rightarrow> (dp_interval policy, dp_timeout policy))"

section \<open>Registrations\<close>

datatype stream_manager_ref = ResourceManager | ContainerLogsManager

record streaming_registration =
  sg_manager :: stream_manager_ref
  sg_snapshotless :: bool
  sg_refresh_once :: bool

record domain_registration =
  rg_domain :: string
  rg_category :: domain_category
  rg_streaming :: "streaming_registration option"

text \<open>A builder throws for a domain its manager does not serve; the thrown message is the left value.\<close>

definition resourceStreamRegistration :: "string \<Rightarrow> string + streaming_registration option" where
  "resourceStreamRegistration domain =
     (if \<not> isSupportedDomain domain
      then Inl (''Missing resource-stream callback for refresh domain \"'' @ domain @ ''\".'')
      else Inr (Some \<lparr>sg_manager = ResourceManager, sg_snapshotless = False, sg_refresh_once = True\<rparr>))"

definition containerLogsRegistration :: "string \<Rightarrow> string + streaming_registration option" where
  "containerLogsRegistration domain =
     (if domain \<noteq> ''container-logs''
      then Inl (''Missing container-logs callback for refresh domain \"'' @ domain @ ''\".'')
      else Inr (Some \<lparr>sg_manager = ContainerLogsManager, sg_snapshotless = True, sg_refresh_once = False\<rparr>))"

fun orchestratorRegistrationBuilders ::
    "orchestrator_kind \<Rightarrow> string \<Rightarrow> string + streaming_registration option" where
  "orchestratorRegistrationBuilders SnapshotOnly domain = Inr None"
| "orchestratorRegistrationBuilders DoorbellSnapshot domain = resourceStreamRegistration domain"
| "orchestratorRegistrationBuilders ResourceStream domain = resourceStreamRegistration domain"
| "orchestratorRegistrationBuilders CatalogStream domain = resourceStreamRegistration domain"
| "orchestratorRegistrationBuilders ContainerLogsStream domain = containerLogsRegistration domain"

text \<open>\<open>registerDomain\<close> of the orchestrator, and the loop over the policies. A throw ends the loop.\<close>

definition registerDomain ::
    "domain_registration \<Rightarrow> (string, domain_registration) js_map \<Rightarrow> (string, domain_registration) js_map" where
  "registerDomain config configs = AList.update (rg_domain config) config configs"

fun register_policies ::
    "domain_policy list \<Rightarrow> (string, domain_registration) js_map \<Rightarrow>
     string + (string, domain_registration) js_map" where
  "register_policies [] configs = Inr configs"
| "register_policies (policy # policies) configs =
     (case orchestratorRegistrationBuilders (dp_orchestrator policy) (dp_domain policy) of
        Inl message \<Rightarrow> Inl message
      | Inr streaming \<Rightarrow>
          register_policies policies (registerDomain
            \<lparr>rg_domain = dp_domain policy, rg_category = dp_category policy, rg_streaming = streaming\<rparr> configs))"

definition registerDefaultRefreshDomains ::
    "(string, domain_registration) js_map \<Rightarrow> string + (string, domain_registration) js_map" where
  "registerDefaultRefreshDomains configs = register_policies frontendRefreshDomainPolicies configs"

definition default_registrations :: "(string, domain_registration) js_map" where
  "default_registrations =
     (case registerDefaultRefreshDomains [] of Inl _ \<Rightarrow> [] | Inr configs \<Rightarrow> configs)"

section \<open>The registrations at load\<close>

text \<open>What one policy registers, when its builder does not throw.\<close>

definition policy_registration :: "domain_policy \<Rightarrow> domain_registration" where
  "policy_registration policy =
     \<lparr>rg_domain = dp_domain policy, rg_category = dp_category policy,
      rg_streaming = (case orchestratorRegistrationBuilders (dp_orchestrator policy) (dp_domain policy) of
                        Inl _ \<Rightarrow> None | Inr streaming \<Rightarrow> streaming)\<rparr>"

lemma builders_serve_policies:
  "policy \<in> set domain_policies \<Longrightarrow>
     \<not> isl (orchestratorRegistrationBuilders (dp_orchestrator policy) (dp_domain policy))"
  by (auto simp: domain_policies_def policy_row_def resourceStreamRegistration_def containerLogsRegistration_def
      isSupportedDomain_def doorbellDomainDescriptors_def contract_resource_stream_domains_def)

lemma policy_domains_distinct: "distinct (map dp_domain domain_policies)"
  by (simp add: domain_policies_def policy_row_def)

lemma register_policies_run:
  assumes "\<And>policy. policy \<in> set policies \<Longrightarrow>
      \<not> isl (orchestratorRegistrationBuilders (dp_orchestrator policy) (dp_domain policy))"
  shows "register_policies policies configs =
    Inr (fold (\<lambda>policy. registerDomain (policy_registration policy)) policies configs)"
  using assms
proof (induction policies arbitrary: configs)
  case (Cons policy policies)
  obtain streaming where
    "orchestratorRegistrationBuilders (dp_orchestrator policy) (dp_domain policy) = Inr streaming"
    using Cons.prems [of policy]
    by (cases "orchestratorRegistrationBuilders (dp_orchestrator policy) (dp_domain policy)") auto
  then show ?case
    using Cons by (simp add: policy_registration_def)
qed simp

lemma default_registrations_eq:
  "registerDefaultRefreshDomains [] = Inr default_registrations"
  "default_registrations =
     fold (\<lambda>policy. registerDomain (policy_registration policy)) frontendRefreshDomainPolicies []"
  using register_policies_run [of frontendRefreshDomainPolicies "[]"] builders_serve_policies
  by (simp_all add: default_registrations_def registerDefaultRefreshDomains_def frontendRefreshDomainPolicies_def)

lemma registered_lookup:
  "map_of default_registrations domain =
     map_option policy_registration (map_of refreshDomainDescriptors domain)"
proof -
  have run: "map_of (fold (\<lambda>policy. registerDomain (policy_registration policy)) policies configs) domain =
      (case map_of (map (\<lambda>policy. (dp_domain policy, policy)) policies) domain of
         None \<Rightarrow> map_of configs domain | Some policy \<Rightarrow> Some (policy_registration policy))"
    if "distinct (map dp_domain policies)" for policies configs
    using that
  proof (induction policies arbitrary: configs)
    case (Cons policy policies)
    have "map_of (map (\<lambda>policy. (dp_domain policy, policy)) policies) (dp_domain policy) = None"
      using Cons.prems by (auto simp: map_of_eq_None_iff)
    with Cons show ?case
      by (auto simp: registerDomain_def map_of_update policy_registration_def split: option.split)
  qed simp
  have keys: "map fst (map (\<lambda>policy. (dp_domain policy, policy)) policies) = map dp_domain policies" for policies
    by simp
  have sorted: "mset frontendRefreshDomainPolicies = mset domain_policies"
    by (simp add: frontendRefreshDomainPolicies_def)
  then have "mset (map dp_domain frontendRefreshDomainPolicies) = mset (map dp_domain domain_policies)"
    by simp
  with policy_domains_distinct have dist: "distinct (map dp_domain frontendRefreshDomainPolicies)"
    using mset_eq_imp_distinct_iff by blast
  have "map_of (map (\<lambda>policy. (dp_domain policy, policy)) frontendRefreshDomainPolicies) =
      map_of (map (\<lambda>policy. (dp_domain policy, policy)) domain_policies)"
    by (rule map_of_inject_set [THEN iffD2])
      (use dist policy_domains_distinct in \<open>simp_all add: frontendRefreshDomainPolicies_def comp_def\<close>)
  with run [OF dist, of "[]"] show ?thesis
    by (simp add: default_registrations_eq(2) refreshDomainDescriptors_def split: option.split)
qed

text \<open>Every table domain of the resource stream is registered with the resource stream manager.\<close>

definition streams_with_refresh :: "string \<times> orchestrator_kind \<Rightarrow> bool" where
  "streams_with_refresh entry \<longleftrightarrow>
     (isResourceStreamDomain (fst entry) \<longrightarrow>
        orchestratorRegistrationBuilders (snd entry) (fst entry) =
          Inr (Some \<lparr>sg_manager = ResourceManager, sg_snapshotless = False, sg_refresh_once = True\<rparr>))"

lemma policies_stream_with_refresh:
  "list_all streams_with_refresh (map (\<lambda>policy. (dp_domain policy, dp_orchestrator policy)) domain_policies)"
  by (simp only: domain_policies_def policy_row_def list.map prod.case domain_policy.simps) code_simp

lemma policies_of_resource_domains:
  "policy \<in> set domain_policies \<Longrightarrow> isResourceStreamDomain (dp_domain policy) \<Longrightarrow>
     rg_streaming (policy_registration policy) =
       Some \<lparr>sg_manager = ResourceManager, sg_snapshotless = False, sg_refresh_once = True\<rparr>"
  using policies_stream_with_refresh
  by (auto simp: list_all_iff streams_with_refresh_def policy_registration_def)

lemma resource_domains_registered:
  assumes "map_of default_registrations domain = Some config" and "isResourceStreamDomain domain"
  shows "rg_streaming config =
    Some \<lparr>sg_manager = ResourceManager, sg_snapshotless = False, sg_refresh_once = True\<rparr>"
proof -
  obtain policy where "map_of refreshDomainDescriptors domain = Some policy"
    and config: "config = policy_registration policy"
    using assms(1) by (auto simp: registered_lookup)
  then have "policy \<in> set domain_policies" and "dp_domain policy = domain"
    by (auto simp: refreshDomainDescriptors_def dest!: map_of_SomeD)
  with assms(2) config show ?thesis by (simp add: policies_of_resource_domains)
qed

end
