(* ===== verification/Refresh_Errors.thy ===== *)
theory Refresh_Errors
  imports Domain_Registry Refresh_Runtime
begin

text \<open>
  Which refresh errors the user is told: the class \<open>RefreshErrorNotifier\<close> of \<open>core/refresh/refreshErrorNotifier.ts\<close>.
  An error is told once per domain, scope and message until it is cleared, and not at all while the backend starts
  up after a kubeconfig change. What \<open>errorHandler.handle\<close> is given is appended to a trace. An \<open>Error\<close>'s class is the
  name it carries; \<open>Date.now()\<close> is an argument.
\<close>

record error_report =
  er_error :: thrown
  er_domain :: string
  er_scope :: string
  er_category :: "domain_category option"
  er_operation :: "string option"
  er_message :: string

record error_notifier =
  en_last :: "(string, string option \<times> string) js_map"
  en_suppress :: millis
  en_reports :: "error_report list"

definition new_error_notifier :: error_notifier where
  "new_error_notifier = \<lparr>en_last = [], en_suppress = 0, en_reports = []\<rparr>"

definition startup_reasons :: "string list" where
  "startup_reasons = [''RefreshUnavailable'', ''ClusterNotReady'']"

text \<open>The pattern matches one of its three alternatives anywhere, ignoring case.\<close>

definition browser_fetch_failures :: "string \<Rightarrow> bool" where
  "browser_fetch_failures message \<longleftrightarrow>
     list_ex (\<lambda>phrase. sublist phrase (toLowerCase message))
       [''failed to fetch'', ''load failed'', ''could not connect to the server'']"

fun isBrowserFetchFailure :: "thrown \<Rightarrow> bool" where
  "isBrowserFetchFailure (ThrownError name message status cause) \<longleftrightarrow>
     name = ''TypeError'' \<and> browser_fetch_failures message"
| "isBrowserFetchFailure (ThrownValue value) \<longleftrightarrow> False"

definition error_reason :: "thrown option \<Rightarrow> string option" where
  "error_reason error =
     (case error of
        None \<Rightarrow> None
      | Some t \<Rightarrow>
          (case errorStatusOf t of None \<Rightarrow> None | Some status \<Rightarrow> js_string (js_field status ''reason'')))"

definition shouldSuppressStartupError :: "error_notifier \<Rightarrow> millis \<Rightarrow> thrown option \<Rightarrow> bool" where
  "shouldSuppressStartupError n now error \<longleftrightarrow>
     (if now > en_suppress n then False
      else case error_reason error of
             Some reason \<Rightarrow> reason \<in> set startup_reasons
           | None \<Rightarrow> (case error of None \<Rightarrow> False | Some t \<Rightarrow> isBrowserFetchFailure t))"

definition getErrorNotificationKey :: "string \<Rightarrow> string option \<Rightarrow> string" where
  "getErrorNotificationKey domain scope =
     makeInFlightKey domain (Some (case scope of None \<Rightarrow> ''__global__'' | Some s \<Rightarrow> s))"

definition notify_error ::
    "error_notifier \<Rightarrow> millis \<Rightarrow> string \<Rightarrow> string option \<Rightarrow> string \<Rightarrow> domain_category option \<Rightarrow>
     thrown option \<Rightarrow> string option \<Rightarrow> error_notifier" where
  "notify_error n now domain scope message category error operationId =
     (let key = getErrorNotificationKey domain scope;
          noted = n\<lparr>en_last := AList.update key (scope, message) (en_last n)\<rparr>
      in if shouldSuppressStartupError n now error then n
         else if map_option snd (map_of (en_last n) key) = Some message then n
         else if domain = ''object-details'' \<and> error_reason error = Some ''NotFound'' then noted
         else noted\<lparr>en_reports := en_reports n @
                [\<lparr>er_error = (case error of None \<Rightarrow> ThrownError ''Error'' message JUndefined None | Some t \<Rightarrow> t),
                  er_domain = domain, er_scope = (case scope of None \<Rightarrow> ''global'' | Some s \<Rightarrow> s),
                  er_category = category, er_operation = operationId, er_message = message\<rparr>]\<rparr>)"

definition clear_error :: "error_notifier \<Rightarrow> string \<Rightarrow> string option \<Rightarrow> error_notifier" where
  "clear_error n domain scope =
     n\<lparr>en_last := AList.delete (getErrorNotificationKey domain scope) (en_last n)\<rparr>"

definition clearAll :: "error_notifier \<Rightarrow> error_notifier" where
  "clearAll n = n\<lparr>en_last := []\<rparr>"

definition clearRemovedClusters :: "error_notifier \<Rightarrow> string list \<Rightarrow> error_notifier" where
  "clearRemovedClusters n connected =
     n\<lparr>en_last := filter (\<lambda>(key, scope, message).
          let clusterId = fst (parseClusterScope (case scope of None \<Rightarrow> [] | Some s \<Rightarrow> s))
          in clusterId = [] \<or> clusterId \<in> set connected) (en_last n)\<rparr>"

definition suppressNetworkErrors :: "error_notifier \<Rightarrow> millis \<Rightarrow> millis \<Rightarrow> error_notifier" where
  "suppressNetworkErrors n now durationMs = n\<lparr>en_suppress := max (en_suppress n) (now + durationMs)\<rparr>"

end
