(* ===== verification/Orchestrator_State.thy ===== *)
theory Orchestrator_State
  imports Refresh_Errors Metrics_Demand Snapshot_Merge
begin

text \<open>
  The state of the refresh orchestrator (\<open>core/refresh/orchestrator.ts\<close>) and the parts of it that no read and no
  stream passes through: the runtime a scope belongs to, timers, abort signals, the errors it reports, its calls of
  the stream managers, and metrics demand.

  A \<open>ClusterRefreshRuntime\<close> object is a position in \<open>oc_runtimes\<close>. Position 0 is the coordinator's runtime, and
  \<open>oc_clusters\<close> is the \<open>Map\<close> of open clusters. A runtime of a closed cluster stays in the list, because promises that
  began under it still refer to it. Promises, timers, abort controllers and tasks are numbers from one supply.

  A step of the event loop runs one handler to its end. What it leaves behind is part of the state: armed timers,
  the microtasks that start streams, the open promises of stream starts, the reads under way with the stage they
  wait at, the polls that wait for a read, and the manual refreshes of a cluster. What the world answers is an
  argument of the step. Whether a cluster serves (\<open>clusterReadiness\<close>), whether a stream delivers
  (\<open>resourceStreamManager.isHealthy\<close>) and the time are read from an environment, which is fixed during a handler.
  Calls of the stream managers and events on the bus are appended to a trace; an event a manager emits while it is
  called is delivered after the handler.
\<close>

section \<open>Reads\<close>

text \<open>\<open>DomainFetchOptions\<close>; the replay options of a deferred read are the same record.\<close>

record fetch_options =
  fo_intent :: refresh_intent
  fo_coalesce :: bool
  fo_correlation :: "string option"
  fo_signal :: "nat option"
  fo_query_reconcile :: bool

definition fetch_with :: "refresh_intent \<Rightarrow> fetch_options" where
  "fetch_with intent =
     \<lparr>fo_intent = intent, fo_coalesce = False, fo_correlation = None, fo_signal = None,
      fo_query_reconcile = False\<rparr>"

definition isUserIntent :: "fetch_options \<Rightarrow> bool" where
  "isUserIntent options \<longleftrightarrow> fo_intent options = User"

definition isSignalIntent :: "fetch_options \<Rightarrow> bool" where
  "isSignalIntent options \<longleftrightarrow> fo_intent options = StreamSignal"

text \<open>Why a signal was aborted: an owner cancelled it, or a poll's deadline passed.\<close>

datatype abort_reason = AbortCancelled | AbortDeadline string nat

definition deadline_error :: "string \<Rightarrow> nat \<Rightarrow> thrown" where
  "deadline_error domain seconds =
     ThrownError ''TimeoutError'' (domain @ '' refresh timed out after '' @ decimal seconds @ '' s'') JUndefined None"

record fetch_execution =
  ex_runtime :: nat
  ex_scope :: string
  ex_controller :: nat
  ex_request :: nat
  ex_context :: nat
  ex_completion :: task

text \<open>Who awaits a read: nobody, a poll, or the manual refresh of a cluster.\<close>

datatype job_owner = NoOwner | PollOwner nat | BatchOwner nat

text \<open>Where a read waits: before the decision to read continues, for the stream's own refresh, for the read it
  shares, for that read's trailing one, or for its own answer.\<close>

datatype job_stage =
    StageDecided nat
  | StageRefreshing
  | StageJoined nat task
  | StageTrailing task
  | StageExecuting fetch_execution

record fetch_job =
  fj_id :: nat
  fj_owner :: job_owner
  fj_domain :: string
  fj_scope :: string
  fj_options :: fetch_options
  fj_stage :: job_stage

text \<open>The answer of \<open>fetchSnapshot\<close>.\<close>

record snapshot =
  sn_payload :: list_payload
  sn_scope :: "string option"
  sn_stats :: "snapshot_stats option"
  sn_version :: nat
  sn_source_version :: "string option"
  sn_source_versions :: "(string, string) js_map option"
  sn_checksum :: "string option"

record fetch_result =
  fr_snapshot :: "snapshot option"
  fr_etag :: "string option"
  fr_not_modified :: bool

record snapshot_request =
  nr_domain :: string
  nr_scope :: string
  nr_controller :: nat
  nr_none_match :: "string option"
  nr_manual :: bool
  nr_correlation :: "string option"
  nr_intent :: refresh_intent

section \<open>The state\<close>

datatype timer_kind =
    PollTimer nat string string
  | RetryTimer nat string string
  | DeadlineTimer nat string nat

record ready_task =
  rk_task :: task
  rk_runtime :: nat
  rk_domain :: string
  rk_scope :: string
  rk_ran :: bool

record start_promise =
  sp_task :: task
  sp_runtime :: nat
  sp_domain :: string
  sp_scope :: string
  sp_stops :: "(nat \<times> string \<times> string) list"

record poll_run =
  pl_id :: nat
  pl_runtime :: nat
  pl_domain :: string
  pl_scope :: string
  pl_deadline :: timer
  pl_settled :: bool

record refresh_batch =
  rb_id :: nat
  rb_name :: string
  rb_open :: nat
  rb_error :: "thrown option"

datatype bus_event =
    RefreshStart string
  | RefreshComplete string "thrown option"
  | ClusterPruned string

datatype stream_call =
    ManagerStart string string
  | ManagerStop string string bool
  | ManagerRefreshOnce string string
  | ManagerFallback string string

record orch =
  oc_configs :: "(string, domain_registration) js_map"
  oc_runtimes :: "cluster_runtime list"
  oc_clusters :: "(string, nat) js_map"
  oc_request_counter :: nat
  oc_metrics :: demand_world
  oc_hidden :: bool
  oc_context :: nat
  oc_notifier :: error_notifier
  oc_auto_refresh :: bool
  oc_store :: "list_payload refresh_store"
  oc_next :: nat
  oc_timers :: "(timer \<times> timer_kind \<times> millis) list"
  oc_ready :: "ready_task list"
  oc_starts :: "start_promise list"
  oc_aborted :: "(nat \<times> abort_reason) list"
  oc_listeners :: "(nat \<times> nat \<times> nat) list"
  oc_jobs :: "fetch_job list"
  oc_completed :: "task list"
  oc_polls :: "poll_run list"
  oc_batches :: "refresh_batch list"
  oc_events :: "bus_event list"
  oc_calls :: "stream_call list"
  oc_requests :: "snapshot_request list"

record orch_env =
  ev_now :: millis
  ev_serviceable :: "string \<Rightarrow> bool"
  ev_healthy :: "string \<Rightarrow> string \<Rightarrow> bool"

definition coordinator_name :: string where
  "coordinator_name = ''__coordinator__''"

definition new_orchestrator :: "bool \<Rightarrow> orch" where
  "new_orchestrator auto =
     \<lparr>oc_configs = default_registrations, oc_runtimes = [new_runtime coordinator_name], oc_clusters = [],
      oc_request_counter = 0, oc_metrics = new_demand_world, oc_hidden = False, oc_context = 0,
      oc_notifier = new_error_notifier, oc_auto_refresh = auto, oc_store = empty_refresh_state, oc_next = 0,
      oc_timers = [], oc_ready = [], oc_starts = [], oc_aborted = [], oc_listeners = [], oc_jobs = [],
      oc_completed = [], oc_polls = [], oc_batches = [], oc_events = [], oc_calls = [], oc_requests = []\<rparr>"

definition fresh :: "orch \<Rightarrow> orch \<times> nat" where
  "fresh s = (s\<lparr>oc_next := oc_next s + 1\<rparr>, oc_next s)"

section \<open>Runtimes\<close>

definition runtime :: "orch \<Rightarrow> nat \<Rightarrow> cluster_runtime" where
  "runtime s r = (if r < length (oc_runtimes s) then oc_runtimes s ! r else new_runtime [])"

definition set_runtime :: "orch \<Rightarrow> nat \<Rightarrow> cluster_runtime \<Rightarrow> orch" where
  "set_runtime s r rt = s\<lparr>oc_runtimes := (oc_runtimes s)[r := rt]\<rparr>"

definition upd_runtime :: "orch \<Rightarrow> nat \<Rightarrow> (cluster_runtime \<Rightarrow> cluster_runtime) \<Rightarrow> orch" where
  "upd_runtime s r f = set_runtime s r (f (runtime s r))"

text \<open>A method that returns a result besides.\<close>

definition run_runtime :: "orch \<Rightarrow> nat \<Rightarrow> (cluster_runtime \<Rightarrow> cluster_runtime \<times> 'a) \<Rightarrow> orch \<times> 'a" where
  "run_runtime s r f = (case f (runtime s r) of (rt, x) \<Rightarrow> (set_runtime s r rt, x))"

definition getClusterRuntime :: "orch \<Rightarrow> string \<Rightarrow> orch \<times> nat" where
  "getClusterRuntime s clusterId =
     (let normalized = trim clusterId
      in case map_of (oc_clusters s) normalized of
           Some r \<Rightarrow> (s, r)
         | None \<Rightarrow>
             (s\<lparr>oc_runtimes := oc_runtimes s @ [new_runtime normalized],
                oc_clusters := AList.update normalized (length (oc_runtimes s)) (oc_clusters s)\<rparr>,
              length (oc_runtimes s)))"

definition getRuntimeForScope :: "orch \<Rightarrow> string \<Rightarrow> orch \<times> nat" where
  "getRuntimeForScope s scope =
     (if scope = [] then (s, 0)
      else let clusterId = fst (parseClusterScope scope)
           in if clusterId \<noteq> [] then getClusterRuntime s clusterId else (s, 0))"

definition isRuntimeCurrent :: "orch \<Rightarrow> nat \<Rightarrow> bool" where
  "isRuntimeCurrent s r \<longleftrightarrow> r = 0 \<or> map_of (oc_clusters s) (cr_cluster (runtime s r)) = Some r"

definition getAllRuntimes :: "orch \<Rightarrow> nat list" where
  "getAllRuntimes s = 0 # map snd (oc_clusters s)"

definition forEachRuntime :: "(nat \<Rightarrow> orch \<Rightarrow> orch) \<Rightarrow> orch \<Rightarrow> orch" where
  "forEachRuntime callback s = fold callback (getAllRuntimes s) s"

definition getExistingRuntimeForScope :: "orch \<Rightarrow> string \<Rightarrow> nat option" where
  "getExistingRuntimeForScope s scope =
     (let clusterId = fst (parseClusterScope scope)
      in if clusterId \<noteq> [] then map_of (oc_clusters s) clusterId else Some 0)"

definition isScopedDomainEnabledInternal :: "orch \<Rightarrow> string \<Rightarrow> string \<Rightarrow> orch \<times> bool" where
  "isScopedDomainEnabledInternal s domain scope =
     (case getRuntimeForScope s scope of (s1, r) \<Rightarrow> (s1, isScopedDomainEnabled (runtime s1 r) domain scope))"

section \<open>Configuration and store\<close>

definition getConfig :: "orch \<Rightarrow> string \<Rightarrow> thrown + domain_registration" where
  "getConfig s domain =
     (case map_of (oc_configs s) domain of
        Some config \<Rightarrow> Inr config
      | None \<Rightarrow> Inl (ThrownError ''Error'' (''Refresh domain \"'' @ domain @ ''\" is not registered'') JUndefined None))"

definition config_streaming :: "orch \<Rightarrow> string \<Rightarrow> streaming_registration option" where
  "config_streaming s domain =
     (case map_of (oc_configs s) domain of None \<Rightarrow> None | Some config \<Rightarrow> rg_streaming config)"

text \<open>What the scope grammar throws is an \<open>Error\<close>; its text is not modelled.\<close>

definition normalizeDomainScope :: "string \<Rightarrow> string \<Rightarrow> thrown + string option" where
  "normalizeDomainScope domain value =
     (case normalizeRefreshDomainScope domain (Some value) of
        Inl _ \<Rightarrow> Inl (ThrownError ''Error'' ''Invalid refresh scope'' JUndefined None)
      | Inr scope \<Rightarrow> Inr scope)"

definition upd_scope ::
    "orch \<Rightarrow> string \<Rightarrow> string \<Rightarrow> (list_payload domain_snapshot \<Rightarrow> list_payload domain_snapshot) \<Rightarrow> orch" where
  "upd_scope s domain scope f =
     s\<lparr>oc_store := setScopedDomainState (oc_store s) domain scope (\<lambda>previous. Some (f previous))\<rparr>"

definition reset_scope :: "orch \<Rightarrow> string \<Rightarrow> string \<Rightarrow> orch" where
  "reset_scope s domain scope = s\<lparr>oc_store := resetScopedDomainState (oc_store s) domain scope\<rparr>"

definition scope_state :: "orch \<Rightarrow> string \<Rightarrow> string \<Rightarrow> list_payload domain_snapshot" where
  "scope_state s domain scope = getScopedDomainState (oc_store s) domain scope"

definition resetDomain :: "orch \<Rightarrow> string \<Rightarrow> orch" where
  "resetDomain s domain = s\<lparr>oc_store := resetAllScopedDomainStates (oc_store s) domain\<rparr>"

section \<open>Timers and signals\<close>

definition set_timeout :: "orch \<Rightarrow> timer_kind \<Rightarrow> millis \<Rightarrow> orch \<times> timer" where
  "set_timeout s kind delay =
     (case fresh s of (s1, t) \<Rightarrow> (s1\<lparr>oc_timers := oc_timers s1 @ [(t, kind, delay)]\<rparr>, t))"

definition clearTimer :: "orch \<Rightarrow> timer option \<Rightarrow> orch" where
  "clearTimer s t =
     (case t of None \<Rightarrow> s | Some t \<Rightarrow> s\<lparr>oc_timers := filter (\<lambda>(t', _). t' \<noteq> t) (oc_timers s)\<rparr>)"

definition is_aborted :: "orch \<Rightarrow> nat \<Rightarrow> bool" where
  "is_aborted s controller \<longleftrightarrow> map_of (oc_aborted s) controller \<noteq> None"

definition abort_one :: "orch \<Rightarrow> nat \<Rightarrow> abort_reason \<Rightarrow> orch" where
  "abort_one s controller reason =
     (if is_aborted s controller then s
      else s\<lparr>oc_aborted := oc_aborted s @ [(controller, reason)]\<rparr>)"

text \<open>\<open>controller.abort(reason)\<close> for a poll's controller: the first abort runs the listeners that forward it to the
  reads; \<open>oc_listeners\<close> holds a listener's identity, the signal it listens to and the controller it aborts. Nothing
  listens to the controller of a read.\<close>

definition abort_signal :: "orch \<Rightarrow> nat \<Rightarrow> abort_reason \<Rightarrow> orch" where
  "abort_signal s controller reason =
     (if is_aborted s controller then s
      else fold (\<lambda>(_, signal, target) s'. if signal = controller then abort_one s' target reason else s')
             (oc_listeners s) (abort_one s controller reason))"

definition remove_listener :: "orch \<Rightarrow> nat option \<Rightarrow> orch" where
  "remove_listener s listener =
     (case listener of
        None \<Rightarrow> s
      | Some l \<Rightarrow> s\<lparr>oc_listeners := filter (\<lambda>(l', _). l' \<noteq> l) (oc_listeners s)\<rparr>)"

section \<open>Traces\<close>

definition emit_event :: "orch \<Rightarrow> bus_event \<Rightarrow> orch" where
  "emit_event s e = s\<lparr>oc_events := oc_events s @ [e]\<rparr>"

definition stream_call :: "orch \<Rightarrow> stream_call \<Rightarrow> orch" where
  "stream_call s c = s\<lparr>oc_calls := oc_calls s @ [c]\<rparr>"

section \<open>Metrics demand\<close>

definition open_runtimes :: "orch \<Rightarrow> (string, cluster_runtime) js_map" where
  "open_runtimes s = map (\<lambda>(clusterId, r). (clusterId, runtime s r)) (oc_clusters s)"

definition with_metrics :: "orch \<Rightarrow> (demand_world \<Rightarrow> demand_world) \<Rightarrow> orch" where
  "with_metrics s f = s\<lparr>oc_metrics := f ((oc_metrics s)\<lparr>dw_clusters := open_runtimes s\<rparr>)\<rparr>"

definition update_metrics :: "orch \<Rightarrow> orch" where
  "update_metrics s = with_metrics s updateMetricsDemand"

section \<open>Readiness and pauses\<close>

definition isScopeClusterServiceable :: "orch_env \<Rightarrow> orch \<Rightarrow> string \<Rightarrow> bool" where
  "isScopeClusterServiceable env s scope =
     (let clusterId = fst (parseClusterScope scope)
      in if clusterId = [] then True
         else (case map_of (oc_clusters s) clusterId of
                 None \<Rightarrow> True | Some r \<Rightarrow> isAuthAvailable (runtime s r))
              \<and> ev_serviceable env clusterId)"

definition recordPendingClusterReadiness ::
    "orch \<Rightarrow> string \<Rightarrow> string \<Rightarrow> fetch_options \<Rightarrow> orch" where
  "recordPendingClusterReadiness s domain scope options =
     (let clusterId = fst (parseClusterScope scope)
      in if clusterId = [] \<or> fo_intent options = Background then s
         else case getClusterRuntime s clusterId of
                (s1, r) \<Rightarrow> upd_runtime s1 r (\<lambda>rt. deferUntilClusterReady rt
                   \<lparr>rd_coalesce = fo_coalesce options, rd_domain = domain, rd_scope = scope,
                    rd_intents = [fo_intent options], rd_query_reconcile = fo_query_reconcile options\<rparr>))"

definition isPassiveWorkPaused :: "orch \<Rightarrow> bool" where
  "isPassiveWorkPaused s \<longleftrightarrow> \<not> oc_auto_refresh s \<or> oc_hidden s"

definition intentRuns :: "orch \<Rightarrow> refresh_intent \<Rightarrow> bool" where
  "intentRuns s intent \<longleftrightarrow> oc_auto_refresh s \<or> runsWhilePaused intent"

section \<open>Reported errors\<close>

definition with_notifier :: "orch \<Rightarrow> (error_notifier \<Rightarrow> error_notifier) \<Rightarrow> orch" where
  "with_notifier s f = s\<lparr>oc_notifier := f (oc_notifier s)\<rparr>"

text \<open>\<open>error.message\<close>, or \<open>String(error)\<close> for a value that is no \<open>Error\<close>.\<close>

fun thrown_message :: "thrown \<Rightarrow> string" where
  "thrown_message (ThrownError name message status cause) = message"
| "thrown_message (ThrownValue value) = js_to_string value"

definition notifyRefreshError ::
    "orch_env \<Rightarrow> orch \<Rightarrow> string \<Rightarrow> string option \<Rightarrow> string \<Rightarrow> thrown option \<Rightarrow> string option \<Rightarrow>
     fetch_options option \<Rightarrow> orch" where
  "notifyRefreshError env s domain scope message error operationId replay =
     (if error_reason error = Some ''ClusterNotReady'' then
        (case (scope, replay) of
           (Some sc, Some options) \<Rightarrow>
             if sc \<noteq> [] then recordPendingClusterReadiness s domain sc options else s
         | _ \<Rightarrow> s)
      else with_notifier s (\<lambda>n. notify_error n (ev_now env) domain scope message
             (map_option rg_category (map_of (oc_configs s) domain)) error operationId))"

definition clearRefreshError :: "orch \<Rightarrow> string \<Rightarrow> string \<Rightarrow> orch" where
  "clearRefreshError s domain scope = with_notifier s (\<lambda>n. clear_error n domain (Some scope))"

section \<open>Cancelling reads\<close>

text \<open>The runtime's \<open>teardownInFlight\<close> with its effects: the read's controller is aborted and its listener removed.\<close>

definition teardown_in_flight :: "orch \<Rightarrow> nat \<Rightarrow> string \<Rightarrow> nat \<Rightarrow> orch" where
  "teardown_in_flight s r key requestId =
     (case run_runtime s r (\<lambda>rt. teardownInFlight rt key requestId) of
        (s1, None) \<Rightarrow> s1
      | (s1, Some (request, _)) \<Rightarrow>
          remove_listener (abort_one s1 (rq_controller request) AbortCancelled) (rq_cleanup request))"

definition teardown_all_in_flight :: "orch \<Rightarrow> nat \<Rightarrow> orch" where
  "teardown_all_in_flight s r =
     fold (\<lambda>((request, _), key) s'. teardown_in_flight s' r key (rq_id request))
       (inFlightRequests (runtime s r)) s"

definition cancelInFlightForScopedDomain :: "orch \<Rightarrow> string \<Rightarrow> string \<Rightarrow> orch" where
  "cancelInFlightForScopedDomain s domain scope =
     (case getRuntimeForScope s scope of
        (s1, r) \<Rightarrow>
          (case getInFlight (runtime s1 r) domain (Some scope) of
             None \<Rightarrow> s1
           | Some (request, _) \<Rightarrow>
               teardown_in_flight s1 r (makeInFlightKey domain (Some scope)) (rq_id request)))"

section \<open>Polls\<close>

definition isPolledDomain :: "orch \<Rightarrow> string \<Rightarrow> bool" where
  "isPolledDomain s domain \<longleftrightarrow>
     (case map_of (oc_configs s) domain of
        None \<Rightarrow> False
      | Some config \<Rightarrow> (case rg_streaming config of None \<Rightarrow> True | Some streaming \<Rightarrow> \<not> sg_snapshotless streaming))"

definition cancelPoll :: "orch \<Rightarrow> nat \<Rightarrow> string \<Rightarrow> string \<Rightarrow> orch" where
  "cancelPoll s r domain scope =
     (case run_runtime s r (\<lambda>rt. takePollTimer rt domain scope) of (s1, t) \<Rightarrow> clearTimer s1 t)"

definition schedulePoll :: "orch \<Rightarrow> string \<Rightarrow> string \<Rightarrow> orch" where
  "schedulePoll s domain scope =
     (case getRuntimeForScope s scope of
        (s1, r) \<Rightarrow>
          let s2 = cancelPoll s1 r domain scope
          in if \<not> isPolledDomain s2 domain \<or> isPassiveWorkPaused s2
                \<or> \<not> hasScopedLease (runtime s2 r) domain scope
             then s2
             else case set_timeout s2 (PollTimer r domain scope) (fst (getRefreshDomainTiming domain)) of
                    (s3, t) \<Rightarrow> upd_runtime s3 r (\<lambda>rt. setPollTimer rt domain scope t))"

definition cancelRuntimePolls :: "orch \<Rightarrow> nat \<Rightarrow> orch" where
  "cancelRuntimePolls s r =
     (case run_runtime s r takeAllPollTimers of
        (s1, ts) \<Rightarrow> fold (\<lambda>t s'. clearTimer s' (Some t)) ts s1)"

definition reschedulePolls :: "orch \<Rightarrow> orch" where
  "reschedulePolls s =
     forEachRuntime (\<lambda>r s1.
         let s2 = cancelRuntimePolls s1 r
         in fold (\<lambda>(domain, scope) s'. schedulePoll s' domain scope) (getLeasedScopes (runtime s2 r)) s2) s"

datatype polling_state = PollingScheduled | PollingPaused | PollingOff

definition getPollingStatus :: "orch \<Rightarrow> string \<Rightarrow> string option \<Rightarrow> polling_state \<times> millis option" where
  "getPollingStatus s domain scope =
     (case scope of
        None \<Rightarrow> (PollingOff, None)
      | Some sc \<Rightarrow>
          if sc = [] \<or> \<not> isPolledDomain s domain then (PollingOff, None)
          else (case getExistingRuntimeForScope s sc of
                  None \<Rightarrow> (PollingOff, None)
                | Some r \<Rightarrow>
                    if \<not> hasScopedLease (runtime s r) domain sc then (PollingOff, None)
                    else (if isPassiveWorkPaused s then PollingPaused else PollingScheduled,
                          Some (fst (getRefreshDomainTiming domain)))))"

end
