(* ===== verification/Orchestrator_Reads.thy ===== *)
theory Orchestrator_Reads
  imports Orchestrator_State
begin

text \<open>
  The reads of the refresh orchestrator: whether a scope streams, how a read claims its scope, starts, waits and
  settles, and how streams start and stop (\<open>core/refresh/orchestrator.ts\<close>). An \<open>async\<close> method runs to its first \<open>await\<close>
  and leaves a job in \<open>oc_jobs\<close>; the later parts are definitions of their own, which the steps of the machine call.
\<close>

section \<open>Streaming plan\<close>

definition isStreamingBlocked_in :: "orch \<Rightarrow> string \<Rightarrow> string \<Rightarrow> orch \<times> bool" where
  "isStreamingBlocked_in s domain scope =
     (if \<not> isResourceStreamDomain domain \<or> scope = [] then (s, False)
      else case getRuntimeForScope s scope of (s1, r) \<Rightarrow> (s1, isStreamingBlocked (runtime s1 r) domain scope))"

definition isStreamingActive_in :: "orch \<Rightarrow> string \<Rightarrow> string \<Rightarrow> orch \<times> bool" where
  "isStreamingActive_in s domain scope =
     (case getRuntimeForScope s scope of (s1, r) \<Rightarrow> (s1, isStreamingActive (runtime s1 r) domain scope))"

definition isStreamingHealthy :: "orch_env \<Rightarrow> string \<Rightarrow> string \<Rightarrow> bool" where
  "isStreamingHealthy env domain scope \<longleftrightarrow>
     (if scope = [] then False
      else if doorbellPollingContinues domain then False
      else if isSupportedDomain domain then ev_healthy env domain scope
      else False)"

datatype stream_plan = PlanNow | PlanOnceServiceable | PlanNever

definition scopeStreamPlan :: "orch_env \<Rightarrow> orch \<Rightarrow> string \<Rightarrow> string \<Rightarrow> orch \<times> stream_plan" where
  "scopeStreamPlan env s domain scope =
     (let trimmed = trim scope
      in if trimmed = [] \<or> \<not> oc_auto_refresh s then (s, PlanNever)
         else case tryParseRefreshScope domain trimmed of
                None \<Rightarrow> (s, PlanNever)
              | Some parsed \<Rightarrow>
                  if hasOneShotQuery parsed then (s, PlanNever)
                  else case isStreamingBlocked_in s domain trimmed of
                         (s1, blocked) \<Rightarrow>
                           if blocked then (s1, PlanNever)
                           else (s1, if isScopeClusterServiceable env s1 trimmed
                                     then PlanNow else PlanOnceServiceable))"

definition shouldStreamScope :: "orch_env \<Rightarrow> orch \<Rightarrow> string \<Rightarrow> string \<Rightarrow> orch \<times> bool" where
  "shouldStreamScope env s domain scope =
     (case scopeStreamPlan env s domain scope of (s1, plan) \<Rightarrow> (s1, plan = PlanNow))"

section \<open>Starting a read\<close>

definition canFetchScope ::
    "orch_env \<Rightarrow> orch \<Rightarrow> string \<Rightarrow> string \<Rightarrow> fetch_options \<Rightarrow> orch \<times> bool" where
  "canFetchScope env s domain scope options =
     (case (if isUserIntent options then (s, True)
            else case getRuntimeForScope s scope of
                   (s1, r) \<Rightarrow> (s1, canRetryReconciliation (runtime s1 r) domain scope (ev_now env))) of
        (s1, retry) \<Rightarrow>
          if \<not> retry then (s1, False)
          else if (case fo_signal options of None \<Rightarrow> False | Some signal \<Rightarrow> is_aborted s1 signal) then (s1, False)
          else if \<not> isScopeClusterServiceable env s1 scope
               then (recordPendingClusterReadiness s1 domain scope options, False)
          else case isScopedDomainEnabledInternal s1 domain scope of
                 (s2, enabled) \<Rightarrow> if \<not> enabled then (reset_scope s2 domain scope, False) else (s2, True))"

definition claimFetchSlot ::
    "orch \<Rightarrow> string \<Rightarrow> string \<Rightarrow> fetch_options \<Rightarrow> nat \<Rightarrow> orch \<times> bool" where
  "claimFetchSlot s domain scope options r =
     (case getInFlight (runtime s r) domain (Some scope) of
        None \<Rightarrow> (s, True)
      | Some (request, _) \<Rightarrow>
          if isUserIntent options \<and> \<not> fo_coalesce options
          then (teardown_in_flight s r (makeInFlightKey domain (Some scope)) (rq_id request), True)
          else if isSignalIntent options \<or> fo_coalesce options
               then (upd_runtime s r (\<lambda>rt. latchTrailingStreamSignal rt domain (Some scope)), False)
               else (s, False))"

text \<open>The listener that forwards a poll's abort; its identity is the cleanup the request carries.\<close>

definition forwardAbortSignal :: "orch \<Rightarrow> nat option \<Rightarrow> nat \<Rightarrow> orch \<times> nat option" where
  "forwardAbortSignal s signal controller =
     (case signal of
        None \<Rightarrow> (s, None)
      | Some sig \<Rightarrow>
          (case fresh s of
             (s1, l) \<Rightarrow> (s1\<lparr>oc_listeners := oc_listeners s1 @ [(l, sig, controller)]\<rparr>, Some l)))"

definition beginFetch ::
    "orch \<Rightarrow> string \<Rightarrow> string \<Rightarrow> fetch_options \<Rightarrow> nat \<Rightarrow> orch \<times> fetch_execution option" where
  "beginFetch s domain scope options r =
     (let hasData = ds_data (scope_state s domain scope) \<noteq> None;
          s1 = upd_scope s domain scope (\<lambda>previous. previous\<lparr>
                 ds_status := (if hasData then StatusUpdating else StatusLoading), ds_error := None,
                 ds_is_manual := isUserIntent options, ds_scope := Some scope\<rparr>)
      in case fresh s1 of (s2, controller) \<Rightarrow>
         if (case fo_signal options of None \<Rightarrow> False | Some signal \<Rightarrow> is_aborted s2 signal) then (s2, None)
         else case forwardAbortSignal s2 (fo_signal options) controller of (s3, cleanup) \<Rightarrow>
              let requestId = oc_request_counter s3 + 1;
                  s4 = s3\<lparr>oc_request_counter := requestId\<rparr>
              in case fresh s4 of (s5, completion) \<Rightarrow>
                 let request = \<lparr>rq_controller = controller, rq_intent = fo_intent options,
                       rq_coalesce = fo_coalesce options, rq_id = requestId, rq_cleanup = cleanup,
                       rq_completion = Some completion, rq_context = oc_context s5, rq_domain = domain,
                       rq_scope = Some scope\<rparr>;
                     s6 = upd_runtime s5 r (\<lambda>rt. fst (setInFlight rt request));
                     s7 = s6\<lparr>oc_store := markPendingRequest (oc_store s6) 1\<rparr>
                 in (s7, Some \<lparr>ex_runtime = r, ex_scope = scope, ex_controller = controller,
                       ex_request = requestId, ex_context = oc_context s7, ex_completion = completion\<rparr>))"

definition add_job ::
    "orch \<Rightarrow> job_owner \<Rightarrow> string \<Rightarrow> string \<Rightarrow> fetch_options \<Rightarrow> job_stage \<Rightarrow> orch" where
  "add_job s owner domain scope options stage =
     (case fresh s of
        (s1, j) \<Rightarrow> s1\<lparr>oc_jobs := oc_jobs s1 @
          [\<lparr>fj_id = j, fj_owner = owner, fj_domain = domain, fj_scope = scope, fj_options = options,
            fj_stage = stage\<rparr>]\<rparr>)"

text \<open>The part of \<open>executeFetch\<close> before its answer: the snapshot is requested with the version the scope has.\<close>

definition executeFetch ::
    "orch \<Rightarrow> job_owner \<Rightarrow> string \<Rightarrow> fetch_execution \<Rightarrow> fetch_options \<Rightarrow>
     list_payload domain_snapshot \<Rightarrow> orch" where
  "executeFetch s owner domain execution options previousState =
     add_job (s\<lparr>oc_requests := oc_requests s @
         [\<lparr>nr_domain = domain, nr_scope = ex_scope execution, nr_controller = ex_controller execution,
           nr_none_match = (case ds_source_version previousState of
                              Some v \<Rightarrow> Some v | None \<Rightarrow> ds_etag previousState),
           nr_manual = (isUserIntent options \<and> \<not> isResourceStreamDomain domain),
           nr_correlation = fo_correlation options, nr_intent = fo_intent options\<rparr>]\<rparr>)
       owner domain (ex_scope execution) options (StageExecuting execution)"

text \<open>A settled read tells its owner. A promise nobody awaits has no one to tell.\<close>

definition tell_owner :: "orch \<Rightarrow> job_owner \<Rightarrow> thrown option \<Rightarrow> orch" where
  "tell_owner s owner failure =
     (case owner of
        NoOwner \<Rightarrow> s
      | PollOwner p \<Rightarrow>
          s\<lparr>oc_polls := map (\<lambda>poll. if pl_id poll = p then poll\<lparr>pl_settled := True\<rparr> else poll) (oc_polls s)\<rparr>
      | BatchOwner b \<Rightarrow>
          s\<lparr>oc_batches := map (\<lambda>batch. if rb_id batch = b
              then batch\<lparr>rb_open := rb_open batch - 1,
                         rb_error := (case rb_error batch of None \<Rightarrow> failure | Some e \<Rightarrow> Some e)\<rparr>
              else batch) (oc_batches s)\<rparr>)"

definition performFetch ::
    "orch_env \<Rightarrow> orch \<Rightarrow> job_owner \<Rightarrow> string \<Rightarrow> string \<Rightarrow> fetch_options \<Rightarrow> orch" where
  "performFetch env s owner domain scope options =
     (case normalizeDomainScope domain scope of
        Inl failure \<Rightarrow> tell_owner s owner (Some failure)
      | Inr None \<Rightarrow> tell_owner s owner (Some (ThrownError ''Error''
          (''Scoped domain \"'' @ domain @ ''\" requires a valid scope'') JUndefined None))
      | Inr (Some normalizedScope) \<Rightarrow>
          (case getConfig s domain of
             Inl failure \<Rightarrow> tell_owner s owner (Some failure)
           | Inr config \<Rightarrow>
               if (case rg_streaming config of None \<Rightarrow> False | Some streaming \<Rightarrow> sg_snapshotless streaming)
               then tell_owner s owner None
               else if \<not> intentRuns s (fo_intent options)
               then tell_owner
                      (if isSignalIntent options
                       then case getRuntimeForScope s normalizedScope of
                              (s1, r) \<Rightarrow> upd_runtime s1 r
                                (\<lambda>rt. markReconciliationPending rt domain normalizedScope (ev_now env))
                       else s) owner None
               else case canFetchScope env s domain normalizedScope options of (s1, can) \<Rightarrow>
                 if \<not> can then tell_owner s1 owner None
                 else case getRuntimeForScope s1 normalizedScope of (s2, r) \<Rightarrow>
                   case claimFetchSlot s2 domain normalizedScope options r of (s3, claimed) \<Rightarrow>
                     if \<not> claimed
                     then (if \<not> fo_coalesce options then tell_owner s3 owner None
                           else case getInFlight (runtime s3 r) domain (Some normalizedScope) of
                                  None \<Rightarrow> tell_owner s3 owner None
                                | Some (request, _) \<Rightarrow>
                                    (case rq_completion request of
                                       None \<Rightarrow> tell_owner s3 owner None
                                     | Some completion \<Rightarrow>
                                         add_job s3 owner domain normalizedScope options
                                           (StageJoined r completion)))
                     else let previousState = scope_state s3 domain normalizedScope
                          in if \<not> isUserIntent options
                                \<and> isPermissionDenied (runtime s3 r) domain normalizedScope
                             then tell_owner s3 owner None
                             else case beginFetch s3 domain normalizedScope options r of
                                    (s4, None) \<Rightarrow> tell_owner s4 owner None
                                  | (s4, Some execution) \<Rightarrow>
                                      executeFetch s4 owner domain execution options previousState))"

text \<open>The two waits of a read that shares another's. \<open>await\<close> of a read that is gone continues at once.\<close>

definition joined_read_settled :: "orch \<Rightarrow> fetch_job \<Rightarrow> nat \<Rightarrow> orch" where
  "joined_read_settled s job r =
     (case getInFlight (runtime s r) (fj_domain job) (Some (fj_scope job)) of
        None \<Rightarrow> tell_owner s (fj_owner job) None
      | Some (request, _) \<Rightarrow>
          (case rq_completion request of
             None \<Rightarrow> tell_owner s (fj_owner job) None
           | Some completion \<Rightarrow>
               add_job s (fj_owner job) (fj_domain job) (fj_scope job) (fj_options job) (StageTrailing completion)))"

section \<open>Settling a read\<close>

definition fetchCanCommit :: "orch \<Rightarrow> fetch_execution \<Rightarrow> bool" where
  "fetchCanCommit s execution \<longleftrightarrow>
     \<not> is_aborted s (ex_controller execution) \<and> ex_context execution = oc_context s"

definition recordableFailure ::
    "orch \<Rightarrow> string \<Rightarrow> fetch_execution \<Rightarrow> thrown \<Rightarrow> orch \<times> thrown option" where
  "recordableFailure s domain execution failure =
     (if fetchCanCommit s execution then (s, Some failure)
      else case map_of (oc_aborted s) (ex_controller execution) of
             Some (AbortDeadline deadlineDomain seconds) \<Rightarrow>
               if ex_context execution \<noteq> oc_context s then (s, None)
               else (case isScopedDomainEnabledInternal s domain (ex_scope execution) of
                       (s1, enabled) \<Rightarrow> (s1, if enabled then Some (deadline_error deadlineDomain seconds) else None))
           | _ \<Rightarrow> (s, None))"

definition or_else :: "'a option \<Rightarrow> 'a option \<Rightarrow> 'a option" where
  "or_else a b = (case a of None \<Rightarrow> b | Some x \<Rightarrow> Some x)"

definition applySnapshot ::
    "orch_env \<Rightarrow> orch \<Rightarrow> string \<Rightarrow> snapshot \<Rightarrow> string option \<Rightarrow> bool \<Rightarrow> string \<Rightarrow> orch" where
  "applySnapshot env s domain snapshot etag isManual scope =
     (case getRuntimeForScope s scope of (s1, r) \<Rightarrow>
        if (case getInFlight (runtime s1 r) domain (Some scope) of
              None \<Rightarrow> False | Some (request, _) \<Rightarrow> rq_context request \<noteq> oc_context s1)
        then s1
        else let payload = mergePollingListPayload (oc_store s1) domain (sn_payload snapshot) (Some scope)
             in if scope = [] then s1
                else case isScopedDomainEnabledInternal s1 domain scope of (s2, enabled) \<Rightarrow>
                  if \<not> enabled then s2
                  else case getRuntimeForScope s2 scope of (s3, r') \<Rightarrow>
                    let s4 = upd_runtime s3 r' (\<lambda>rt. markPermissionAllowed rt domain scope);
                        s5 = upd_scope s4 domain scope (\<lambda>prev. prev\<lparr>
                          ds_status := StatusReady, ds_data := Some payload, ds_stats := sn_stats snapshot,
                          ds_version := Some (sn_version snapshot),
                          ds_source_version := or_else (or_else (sn_source_version snapshot) etag)
                            (ds_source_version prev),
                          ds_source_versions := or_else (sn_source_versions snapshot) (ds_source_versions prev),
                          ds_checksum := sn_checksum snapshot,
                          ds_etag := or_else (or_else (or_else etag (sn_source_version snapshot))
                            (sn_checksum snapshot)) (ds_etag prev),
                          ds_last_updated := Some (ev_now env),
                          ds_last_manual := (if isManual then Some (ev_now env) else ds_last_manual prev),
                          ds_last_auto := (if \<not> isManual then Some (ev_now env) else ds_last_auto prev),
                          ds_error := None, ds_permission_denied := False, ds_is_manual := isManual,
                          ds_scope := Some scope\<rparr>)
                    in clearRefreshError s5 domain scope)"

definition applyFetchResult ::
    "orch_env \<Rightarrow> orch \<Rightarrow> string \<Rightarrow> fetch_execution \<Rightarrow> fetch_options \<Rightarrow> fetch_result \<Rightarrow> orch" where
  "applyFetchResult env s domain execution options result =
     (let scope = ex_scope execution; r = ex_runtime execution;
          s1 = upd_runtime s r (\<lambda>rt. markReconciled rt domain scope)
      in case (if fr_not_modified result then None else fr_snapshot result) of
           None \<Rightarrow>
             (case isScopedDomainEnabledInternal s1 domain scope of (s2, enabled) \<Rightarrow>
                if \<not> enabled then s2
                else let s3 = upd_runtime s2 r (\<lambda>rt. markPermissionAllowed rt domain scope);
                         s4 = upd_scope s3 domain scope (\<lambda>previous. previous\<lparr>
                           ds_status := (if ds_data previous \<noteq> None then StatusReady else StatusIdle),
                           ds_is_manual := isUserIntent options,
                           ds_last_auto := (if isUserIntent options then ds_last_auto previous
                                            else Some (ev_now env))\<rparr>)
                     in clearRefreshError s4 domain scope)
         | Some snapshot \<Rightarrow>
             applySnapshot env s1 domain snapshot (fr_etag result) (isUserIntent options) scope)"

definition handleFetchFailure ::
    "orch_env \<Rightarrow> orch \<Rightarrow> string \<Rightarrow> fetch_execution \<Rightarrow> fetch_options \<Rightarrow> thrown \<Rightarrow> orch" where
  "handleFetchFailure env s domain execution options settledError =
     (case recordableFailure s domain execution settledError of
        (s1, None) \<Rightarrow> s1
      | (s1, Some failure) \<Rightarrow>
          let scope = ex_scope execution; r = ex_runtime execution; message = thrown_message failure
          in if isSnapshotPermissionDenied failure then
               let s2 = upd_runtime s1 r (\<lambda>rt. markReconciled (markPermissionDenied rt domain scope) domain scope);
                   s3 = upd_scope s2 domain scope (\<lambda>previous. previous\<lparr>
                     ds_status := StatusError, ds_error := Some (refreshFailureOf failure),
                     ds_permission_denied := True, ds_is_manual := isUserIntent options\<rparr>)
               in notifyRefreshError env s3 domain (Some scope) message (Some failure) (fo_correlation options) None
             else
               let s2 = upd_runtime s1 r (\<lambda>rt. markReconciliationFailed rt domain scope (ev_now env))
               in if shouldSuppressStartupError (oc_notifier s2) (ev_now env) (Some failure)
                  then upd_scope s2 domain scope (\<lambda>previous. previous\<lparr>
                         ds_status := (if ds_data previous \<noteq> None then StatusReady else ds_status previous),
                         ds_error := None, ds_is_manual := isUserIntent options\<rparr>)
                  else
                    let s3 = upd_scope s2 domain scope (\<lambda>previous. previous\<lparr>
                          ds_status := StatusError, ds_error := Some (refreshFailureOf failure),
                          ds_is_manual := isUserIntent options\<rparr>)
                    in notifyRefreshError env s3 domain (Some scope) message (Some failure) (fo_correlation options)
                         (Some ((fetch_with (fo_intent options))\<lparr>fo_coalesce := fo_coalesce options\<rparr>)))"

definition finishFetch :: "orch_env \<Rightarrow> orch \<Rightarrow> string \<Rightarrow> fetch_execution \<Rightarrow> orch" where
  "finishFetch env s domain execution =
     (case run_runtime s (ex_runtime execution)
             (\<lambda>rt. settleInFlight rt domain (Some (ex_scope execution)) (ex_request execution)) of
        (s1, tracked) \<Rightarrow>
          let s2 = (case tracked of
                      None \<Rightarrow> s1
                    | Some (request, trailing) \<Rightarrow>
                        let s1' = remove_listener s1 (rq_cleanup request)
                        in if trailing \<and> ex_context execution = oc_context s1'
                           then performFetch env s1' NoOwner domain (ex_scope execution) (fetch_with StreamSignal)
                           else s1')
          in s2\<lparr>oc_store := markPendingRequest (oc_store s2) (- 1)\<rparr>)"

text \<open>The answer of \<open>fetchSnapshot\<close> arrives: the rest of \<open>executeFetch\<close>.\<close>

definition fetch_answered ::
    "orch_env \<Rightarrow> orch \<Rightarrow> fetch_job \<Rightarrow> fetch_execution \<Rightarrow> thrown + fetch_result \<Rightarrow> orch" where
  "fetch_answered env s job execution answer =
     (let domain = fj_domain job; options = fj_options job;
          s1 = (case answer of
                  Inr result \<Rightarrow>
                    if fetchCanCommit s execution then applyFetchResult env s domain execution options result else s
                | Inl failure \<Rightarrow> handleFetchFailure env s domain execution options failure);
          s2 = finishFetch env s1 domain execution;
          s3 = s2\<lparr>oc_completed := ex_completion execution # oc_completed s2\<rparr>
      in tell_owner s3 (fj_owner job) None)"

end
