(* ===== verification/Orchestrator_Streams.thy ===== *)
theory Orchestrator_Streams
  imports Orchestrator_Reads
begin

text \<open>
  The streams of the refresh orchestrator: starting, stopping, retrying and re-evaluating the stream of a scope, and
  the first part of a scoped read, which decides whether the stream already covers it
  (\<open>core/refresh/orchestrator.ts\<close>). A stream's start is a promise: its handlers run when it settles, those of the start
  first and then those that stops attached, in the order they were attached.
\<close>

section \<open>Stopping and starting\<close>

text \<open>\<open>pending.then(\<dots>).catch(\<dots>)\<close> of a stop: it joins the handlers of the start's promise.\<close>

definition attach_stop :: "orch \<Rightarrow> task \<Rightarrow> nat \<times> string \<times> string \<Rightarrow> orch" where
  "attach_stop s pending stop =
     s\<lparr>oc_starts := map (\<lambda>p. if sp_task p = pending then p\<lparr>sp_stops := sp_stops p @ [stop]\<rparr> else p) (oc_starts s)\<rparr>"

definition stopStreamingScope :: "orch \<Rightarrow> string \<Rightarrow> string \<Rightarrow> bool \<Rightarrow> orch" where
  "stopStreamingScope s domain scope reset =
     (case getRuntimeForScope s scope of (s1, r) \<Rightarrow>
      case run_runtime s1 r (\<lambda>rt. resetStreamStartRetry rt domain scope) of (s2, t) \<Rightarrow>
      case run_runtime (clearTimer s2 t) r (\<lambda>rt. cancelStreamingStart rt domain scope) of (s3, pending) \<Rightarrow>
        let s4 = (case pending of None \<Rightarrow> s3 | Some task \<Rightarrow> attach_stop s3 task (r, domain, scope));
            s5 = upd_runtime s4 r (\<lambda>rt. clearStreamHealth (markStreamingStopped rt domain scope) domain scope);
            s6 = stream_call s5 (ManagerStop domain scope reset)
        in if reset then reset_scope s6 domain scope else s6)"

definition startStreamingScope :: "orch_env \<Rightarrow> orch \<Rightarrow> string \<Rightarrow> string \<Rightarrow> orch" where
  "startStreamingScope env s domain scope =
     (if \<not> isScopeClusterServiceable env s scope then s
      else case isScopedDomainEnabledInternal s domain scope of (s1, enabled) \<Rightarrow>
        if \<not> enabled then s1
        else case getRuntimeForScope s1 scope of (s2, r) \<Rightarrow>
          if isStreamingStartingOrActive (runtime s2 r) domain scope then s2
          else case run_runtime s2 r (\<lambda>rt. takeStreamStartRetry rt domain scope) of (s3, t) \<Rightarrow>
            case fresh (stream_call (clearTimer s3 t) (ManagerStart domain scope)) of (s4, task) \<Rightarrow>
              upd_runtime (s4\<lparr>oc_starts := oc_starts s4 @
                  [\<lparr>sp_task = task, sp_runtime = r, sp_domain = domain, sp_scope = scope, sp_stops = []\<rparr>]\<rparr>)
                r (\<lambda>rt. beginStreamingStart rt domain scope task))"

definition streamReconnectDelay :: "nat \<Rightarrow> millis" where
  "streamReconnectDelay attempt = max 0 (min 30000 (1000 * 2 ^ attempt))"

definition scheduleStreamStartRetry :: "orch \<Rightarrow> string \<Rightarrow> string \<Rightarrow> nat \<Rightarrow> orch" where
  "scheduleStreamStartRetry s domain scope r =
     (if \<not> hasScopedLease (runtime s r) domain scope then s
      else case set_timeout s (RetryTimer r domain scope)
                  (streamReconnectDelay (getStreamStartFailures (runtime s r) domain scope)) of
             (s1, t) \<Rightarrow> upd_runtime s1 r (\<lambda>rt. setStreamStartRetry rt domain scope t))"

definition reconcileInitialStreamingSnapshot ::
    "orch_env \<Rightarrow> orch \<Rightarrow> string \<Rightarrow> string \<Rightarrow> streaming_registration \<Rightarrow> orch" where
  "reconcileInitialStreamingSnapshot env s domain scope streaming =
     (case getRuntimeForScope s scope of (s1, r) \<Rightarrow>
        let leaseAllowsSnapshot =
              \<not> hasScopedLease (runtime s1 r) domain scope \<or>
              hasScopedDemand (runtime s1 r) domain scope SnapshotDemand
        in if \<not> leaseAllowsSnapshot \<or> sg_snapshotless streaming \<or> ds_data (scope_state s1 domain scope) \<noteq> None
           then s1
           else performFetch env s1 NoOwner domain scope (fetch_with StreamSignal))"

definition completeStreamingStart ::
    "orch_env \<Rightarrow> orch \<Rightarrow> string \<Rightarrow> string \<Rightarrow> streaming_registration \<Rightarrow> nat \<Rightarrow> task \<Rightarrow> orch" where
  "completeStreamingStart env s domain scope streaming r startPromise =
     (if \<not> isRuntimeCurrent s r then s
      else case isScopedDomainEnabledInternal s domain scope of (s1, enabledNow) \<Rightarrow>
        if \<not> enabledNow \<or> isStreamingCancelled (runtime s1 r) domain scope
        then let s2 = upd_runtime s1 r (\<lambda>rt.
                   clearStreamingCancelled (failStreamingStart rt domain scope startPromise) domain scope)
             in if enabledNow then startStreamingScope env s2 domain scope else s2
        else case run_runtime s1 r (\<lambda>rt. finishStreamingStart rt domain scope startPromise) of (s2, finished) \<Rightarrow>
          if \<not> finished then s2
          else case run_runtime s2 r (\<lambda>rt. resetStreamStartRetry rt domain scope) of (s3, t) \<Rightarrow>
            reconcileInitialStreamingSnapshot env (clearTimer s3 t) domain scope streaming)"

definition failStreamingStart_in ::
    "orch_env \<Rightarrow> orch \<Rightarrow> string \<Rightarrow> string \<Rightarrow> nat \<Rightarrow> task \<Rightarrow> thrown \<Rightarrow> orch" where
  "failStreamingStart_in env s domain scope r startPromise failure =
     (let s1 = upd_runtime s r (\<lambda>rt. failStreamingStart rt domain scope startPromise)
      in if \<not> isRuntimeCurrent s1 r then s1
         else let s2 = upd_scope s1 domain scope (\<lambda>previous. previous\<lparr>
                    ds_status := StatusError, ds_error := Some (refreshFailureOf failure), ds_scope := Some scope\<rparr>);
                  s3 = notifyRefreshError env s2 domain (truthy (Some (trim scope))) (thrown_message failure)
                    (Some failure) None None
              in scheduleStreamStartRetry s3 domain scope r)"

text \<open>The handler a stop attached: when the start arrives it acts only if the cancellation is still set; when the
  start fails it always does.\<close>

definition stop_handler :: "bool \<Rightarrow> task \<Rightarrow> nat \<times> string \<times> string \<Rightarrow> orch \<Rightarrow> orch" where
  "stop_handler arrived pending stop s =
     (case stop of (r, domain, scope) \<Rightarrow>
        if arrived \<and> \<not> isStreamingCancelled (runtime s r) domain scope then s
        else upd_runtime s r (\<lambda>rt.
               clearStreamingCancelled (failStreamingStart rt domain scope pending) domain scope))"

text \<open>A start's promise settles: its own handler, then those of the stops.\<close>

definition start_settled :: "orch_env \<Rightarrow> orch \<Rightarrow> start_promise \<Rightarrow> thrown option \<Rightarrow> orch" where
  "start_settled env s p failure =
     (let s1 = s\<lparr>oc_starts := filter (\<lambda>p'. sp_task p' \<noteq> sp_task p) (oc_starts s)\<rparr>;
          s2 = (case failure of
                  None \<Rightarrow>
                    (case config_streaming s1 (sp_domain p) of
                       None \<Rightarrow> s1
                     | Some streaming \<Rightarrow>
                         completeStreamingStart env s1 (sp_domain p) (sp_scope p) streaming (sp_runtime p) (sp_task p))
                | Some e \<Rightarrow> failStreamingStart_in env s1 (sp_domain p) (sp_scope p) (sp_runtime p) (sp_task p) e)
      in fold (stop_handler (failure = None) (sp_task p)) (sp_stops p) s2)"

section \<open>The microtask that starts a stream\<close>

definition scheduleStreamingStart :: "orch \<Rightarrow> string \<Rightarrow> string \<Rightarrow> orch" where
  "scheduleStreamingStart s domain scope =
     (let normalizedScope = trim scope
      in if normalizedScope = [] then s
         else case getRuntimeForScope s normalizedScope of (s1, r) \<Rightarrow>
           if hasStreamingReady (runtime s1 r) domain normalizedScope then s1
           else let s2 = upd_scope s1 domain normalizedScope (\<lambda>previous. previous\<lparr>
                      ds_status := (if ds_data previous \<noteq> None then StatusUpdating else StatusInitialising),
                      ds_error := None, ds_scope := Some normalizedScope\<rparr>)
                in case fresh s2 of (s3, readyTask) \<Rightarrow>
                   upd_runtime (s3\<lparr>oc_ready := oc_ready s3 @
                       [\<lparr>rk_task = readyTask, rk_runtime = r, rk_domain = domain, rk_scope = normalizedScope,
                         rk_ran = False\<rparr>]\<rparr>) r (\<lambda>rt. setStreamingReady rt domain normalizedScope readyTask))"

definition ready_task_runs :: "orch_env \<Rightarrow> orch \<Rightarrow> ready_task \<Rightarrow> orch" where
  "ready_task_runs env s k =
     (let s1 = s\<lparr>oc_ready := map (\<lambda>k'. if rk_task k' = rk_task k then k'\<lparr>rk_ran := True\<rparr> else k') (oc_ready s)\<rparr>
      in if \<not> isRuntimeCurrent s1 (rk_runtime k) then s1
         else case isScopedDomainEnabledInternal s1 (rk_domain k) (rk_scope k) of (s2, enabled) \<Rightarrow>
           if \<not> enabled then s2 else startStreamingScope env s2 (rk_domain k) (rk_scope k))"

definition ready_task_settles :: "orch \<Rightarrow> ready_task \<Rightarrow> orch" where
  "ready_task_settles s k =
     upd_runtime (s\<lparr>oc_ready := filter (\<lambda>k'. rk_task k' \<noteq> rk_task k) (oc_ready s)\<rparr>) (rk_runtime k)
       (\<lambda>rt. clearStreamingReady rt (rk_domain k) (rk_scope k) (Some (rk_task k)))"

section \<open>Re-evaluating streams\<close>

definition stopRuntimeStreaming :: "orch \<Rightarrow> nat \<Rightarrow> bool \<Rightarrow> orch" where
  "stopRuntimeStreaming s r reset =
     (case run_runtime s r resetAllStreamStartRetries of (s1, timers) \<Rightarrow>
        let s2 = fold (\<lambda>t s'. clearTimer s' (Some t)) timers s1;
            s3 = fold (\<lambda>(domain, scope) s'.
                   if scope = [] \<or> scope = ''*'' \<or> config_streaming s' domain = None then s'
                   else stopStreamingScope s' domain scope reset) (getStreamingScopes (runtime s2 r)) s2
        in if reset then upd_runtime s3 r (\<lambda>rt. clearAllStreaming rt reset) else s3)"

definition stopAllStreaming :: "orch \<Rightarrow> bool \<Rightarrow> orch" where
  "stopAllStreaming s reset = fold (\<lambda>r s'. stopRuntimeStreaming s' r reset) (getAllRuntimes s) s"

definition reconcileScopeStream :: "orch_env \<Rightarrow> orch \<Rightarrow> string \<Rightarrow> string \<Rightarrow> orch" where
  "reconcileScopeStream env s domain scope =
     (case getRuntimeForScope s scope of (s1, r) \<Rightarrow>
        let alreadyStreaming = isStreamingStartingOrActive (runtime s1 r) domain scope
        in case shouldStreamScope env s1 domain scope of (s2, should) \<Rightarrow>
          if should
          then (if \<not> alreadyStreaming then scheduleStreamingStart s2 domain scope else s2)
          else if alreadyStreaming
          then stopStreamingScope (upd_runtime s2 r (\<lambda>rt. clearStreamingReady rt domain scope None)) domain scope False
          else case run_runtime s2 r (\<lambda>rt. resetStreamStartRetry rt domain scope) of (s3, t) \<Rightarrow> clearTimer s3 t)"

definition handleStreamingScopeChanges :: "orch_env \<Rightarrow> orch \<Rightarrow> nat list \<Rightarrow> orch" where
  "handleStreamingScopeChanges env s runtimes =
     fold (\<lambda>(domain, config) s1.
         if rg_streaming config = None then s1
         else fold (\<lambda>r s2. fold (\<lambda>scope s3. reconcileScopeStream env s3 domain scope)
                (getEnabledScopes (runtime s2 r) domain) s2) runtimes s1)
       (oc_configs s) s"

section \<open>The stream's own refresh\<close>

text \<open>The target of a stream operation: the registration and the normalized scope, or what is thrown.\<close>

definition getStreamingTarget :: "orch \<Rightarrow> string \<Rightarrow> string \<Rightarrow> thrown + (streaming_registration \<times> string)" where
  "getStreamingTarget s domain scope =
     (case getConfig s domain of
        Inl failure \<Rightarrow> Inl failure
      | Inr config \<Rightarrow>
          (case rg_streaming config of
             None \<Rightarrow> Inl (ThrownError ''Error''
               (''Domain \"'' @ domain @ ''\" is not registered as streaming'') JUndefined None)
           | Some streaming \<Rightarrow>
               (case normalizeDomainScope domain scope of
                  Inl failure \<Rightarrow> Inl failure
                | Inr None \<Rightarrow> Inl (ThrownError ''Error''
                    (''Streaming domain \"'' @ domain @ ''\" requires a non-empty scope value'') JUndefined None)
                | Inr (Some normalizedScope) \<Rightarrow> Inr (streaming, normalizedScope))))"

definition restartStreamingDomain :: "orch_env \<Rightarrow> orch \<Rightarrow> string \<Rightarrow> string \<Rightarrow> orch \<times> thrown option" where
  "restartStreamingDomain env s domain scope =
     (case getStreamingTarget s domain scope of
        Inl failure \<Rightarrow> (s, Some failure)
      | Inr (streaming, target) \<Rightarrow>
          (startStreamingScope env (stopStreamingScope s domain target False) domain target, None))"

text \<open>Up to its first wait. The stream's \<open>refreshOnce\<close> answers later; a restart waits for the start's promise,
  which no one looks at again.\<close>

definition refreshStreamingDomainOnce :: "orch_env \<Rightarrow> orch \<Rightarrow> string \<Rightarrow> string \<Rightarrow> orch \<times> thrown option" where
  "refreshStreamingDomainOnce env s domain scope =
     (case getStreamingTarget s domain scope of
        Inl failure \<Rightarrow> (s, Some failure)
      | Inr (streaming, target) \<Rightarrow>
          if sg_refresh_once streaming then (stream_call s (ManagerRefreshOnce domain target), None)
          else restartStreamingDomain env s domain target)"

section \<open>Reading a scope\<close>

definition record_fallback :: "orch \<Rightarrow> string \<Rightarrow> string \<Rightarrow> orch" where
  "record_fallback s domain scope = stream_call s (ManagerFallback domain scope)"

definition reconcileQueryOnlyDemand ::
    "orch_env \<Rightarrow> orch \<Rightarrow> string \<Rightarrow> string \<Rightarrow> fetch_options \<Rightarrow> domain_registration \<Rightarrow> nat \<Rightarrow> orch \<times> bool" where
  "reconcileQueryOnlyDemand env s domain scope options config r =
     (let hasQueryOnlyDemand = hasScopedDemand (runtime s r) domain scope QueryDemand \<and>
            \<not> hasScopedDemand (runtime s r) domain scope SnapshotDemand
      in if \<not> fo_query_reconcile options \<or> \<not> hasQueryOnlyDemand then (s, False)
         else case (if rg_streaming config = None then (s, False) else shouldStreamScope env s domain scope) of
                (s1, streamingExpected) \<Rightarrow>
                  let streamingHealthy = streamingExpected \<and> isStreamingHealthy env domain scope
                  in if \<not> isUserIntent options \<and> streamingHealthy then (s1, True)
                     else let s2 = (if \<not> isUserIntent options \<and> streamingExpected \<and> isResourceStreamDomain domain
                                    then record_fallback s1 domain scope else s1)
                          in (upd_scope s2 domain scope (\<lambda>previous. previous\<lparr>
                                ds_query_reconcile := Some ((case ds_query_reconcile previous of
                                                              None \<Rightarrow> 0 | Some v \<Rightarrow> v) + 1),
                                ds_scope := Some scope\<rparr>), True))"

text \<open>\<open>reconcileStreamingFetch\<close> up to its end or its wait: whether the read waits for the stream's own refresh, is
  covered by the stream, or goes on.\<close>

datatype streaming_fetch = FetchRefreshes "thrown option" | FetchCovered | FetchContinues

definition reconcileStreamingFetch ::
    "orch_env \<Rightarrow> orch \<Rightarrow> string \<Rightarrow> string \<Rightarrow> fetch_options \<Rightarrow> streaming_registration option \<Rightarrow> nat \<Rightarrow>
     orch \<times> streaming_fetch" where
  "reconcileStreamingFetch env s domain scope options streaming r =
     (case streaming of
        None \<Rightarrow> (s, FetchContinues)
      | Some _ \<Rightarrow>
          (case shouldStreamScope env s domain scope of (s1, shouldStream) \<Rightarrow>
             case (if shouldStream \<and> isUserIntent options \<and> \<not> fo_coalesce options \<and> isResourceStreamDomain domain
                   then isStreamingActive_in s1 domain scope else (s1, False)) of (s2, refresh) \<Rightarrow>
               if refresh
               then (case refreshStreamingDomainOnce env s2 domain scope of
                       (s3, failure) \<Rightarrow> (s3, FetchRefreshes failure))
               else case resolveStreamingFetchMode
                      \<lparr>fi_should_stream = shouldStream, fi_manual = isUserIntent options,
                       fi_stream_signal = (isSignalIntent options \<or> needsReconciliation (runtime s2 r) domain scope),
                       fi_healthy = isStreamingHealthy env domain scope,
                       fi_has_data = (ds_data (scope_state s2 domain scope) \<noteq> None)\<rparr> of
                    (mode, fallback) \<Rightarrow>
                      (if fallback \<and> isResourceStreamDomain domain then record_fallback s2 domain scope else s2,
                       if mode = FetchSkip then FetchCovered else FetchContinues)))"

definition fetchScopedDomain ::
    "orch_env \<Rightarrow> orch \<Rightarrow> job_owner \<Rightarrow> string \<Rightarrow> string \<Rightarrow> fetch_options \<Rightarrow> orch" where
  "fetchScopedDomain env s owner domain scope options =
     (case getConfig s domain of
        Inl failure \<Rightarrow> tell_owner s owner (Some failure)
      | Inr config \<Rightarrow>
          (case normalizeDomainScope domain scope of
             Inl failure \<Rightarrow> tell_owner s owner (Some failure)
           | Inr None \<Rightarrow> tell_owner s owner (Some (ThrownError ''Error''
               (''Scoped domain \"'' @ domain @ ''\" requires a non-empty scope'') JUndefined None))
           | Inr (Some normalizedScope) \<Rightarrow>
               if \<not> isScopeClusterServiceable env s normalizedScope
               then tell_owner (recordPendingClusterReadiness s domain normalizedScope options) owner None
               else case getRuntimeForScope s normalizedScope of (s1, r) \<Rightarrow>
                 case reconcileQueryOnlyDemand env s1 domain normalizedScope options config r of (s2, reconciled) \<Rightarrow>
                   if reconciled then tell_owner s2 owner None
                   else case reconcileStreamingFetch env s2 domain normalizedScope options (rg_streaming config) r of
                          (s3, FetchRefreshes (Some failure)) \<Rightarrow> tell_owner s3 owner (Some failure)
                        | (s3, FetchRefreshes None) \<Rightarrow>
                            add_job s3 owner domain normalizedScope options StageRefreshing
                        | (s3, FetchCovered) \<Rightarrow> tell_owner s3 owner None
                        | (s3, FetchContinues) \<Rightarrow>
                            add_job s3 owner domain normalizedScope options (StageDecided r)))"

text \<open>The read goes on after the decision.\<close>

definition fetch_decided :: "orch_env \<Rightarrow> orch \<Rightarrow> fetch_job \<Rightarrow> nat \<Rightarrow> orch" where
  "fetch_decided env s job r =
     (if \<not> isRuntimeCurrent s r then tell_owner s (fj_owner job) None
      else performFetch env s (fj_owner job) (fj_domain job) (fj_scope job)
             \<lparr>fo_intent = fo_intent (fj_options job), fo_coalesce = fo_coalesce (fj_options job),
              fo_correlation = fo_correlation (fj_options job), fo_signal = fo_signal (fj_options job),
              fo_query_reconcile = False\<rparr>)"

end
