(* ===== verification/Orchestrator.thy ===== *)
theory Orchestrator
  imports Orchestrator_Streams
begin

text \<open>
  The operations and event handlers of the refresh orchestrator (\<open>core/refresh/orchestrator.ts\<close>) and the machine
  they make: \<open>orch_step\<close> has one rule per public method, per event the constructor subscribes to, and per callback
  of a timer or promise. An operation that can throw returns what it throws besides the state it leaves.
\<close>

section \<open>Enabling and disabling scopes\<close>

definition getKnownScopes_all :: "orch \<Rightarrow> string \<Rightarrow> string list" where
  "getKnownScopes_all s domain =
     unique_list (concat (map (\<lambda>r. getKnownScopes (runtime s r) domain) (getAllRuntimes s)))"

definition reconcileStreamingScopeEnabled ::
    "orch_env \<Rightarrow> orch \<Rightarrow> string \<Rightarrow> string \<Rightarrow> bool \<Rightarrow> bool \<Rightarrow> nat \<Rightarrow> orch" where
  "reconcileStreamingScopeEnabled env s domain scope enabled preserveState r =
     (case scopeStreamPlan env s domain scope of (s1, plan) \<Rightarrow>
        if enabled \<and> plan = PlanNow
        then let s2 = upd_runtime s1 r (\<lambda>rt. clearStreamingReady rt domain scope None);
                 s3 = (if \<not> preserveState then reset_scope s2 domain scope else s2)
             in scheduleStreamingStart s3 domain scope
        else if \<not> enabled
        then let s2 = upd_runtime s1 r (\<lambda>rt. clearStreamingReady rt domain scope None)
             in cancelInFlightForScopedDomain (stopStreamingScope s2 domain scope (\<not> preserveState)) domain scope
        else let s2 = (if plan = PlanOnceServiceable
                       then upd_scope s1 domain scope (\<lambda>previous. previous\<lparr>
                              ds_status := (if ds_data previous \<noteq> None then ds_status previous
                                            else StatusInitialising),
                              ds_scope := Some scope\<rparr>)
                       else s1)
             in if hasStreamingBookkeeping (runtime s2 r) domain scope
                then stopStreamingScope (upd_runtime s2 r (\<lambda>rt. clearStreamingReady rt domain scope None))
                       domain scope False
                else s2)"

definition reconcileScopedDomainStateChange ::
    "orch_env \<Rightarrow> orch \<Rightarrow> domain_registration \<Rightarrow> string \<Rightarrow> string \<Rightarrow> bool \<Rightarrow> bool \<Rightarrow> nat \<Rightarrow> bool \<Rightarrow> orch" where
  "reconcileScopedDomainStateChange env s config domain scope enabled preserveState r changed =
     (if \<not> changed then update_metrics s
      else if rg_streaming config \<noteq> None
      then update_metrics (reconcileStreamingScopeEnabled env s domain scope enabled preserveState r)
      else update_metrics
        (if \<not> enabled
         then let s1 = cancelInFlightForScopedDomain s domain scope
              in if \<not> preserveState then reset_scope s1 domain scope else s1
         else s))"

definition disableScopedDomain_in ::
    "orch_env \<Rightarrow> orch \<Rightarrow> string \<Rightarrow> string \<Rightarrow> bool \<Rightarrow> orch \<times> thrown option" where
  "disableScopedDomain_in env s domain scope preserveState =
     (case getConfig s domain of
        Inl failure \<Rightarrow> (s, Some failure)
      | Inr config \<Rightarrow>
          (case getRuntimeForScope s scope of (s1, r) \<Rightarrow>
             case run_runtime s1 r (\<lambda>rt. disableScopedDomain rt domain scope) of (s2, _, changed) \<Rightarrow>
               (reconcileScopedDomainStateChange env s2 config domain scope False preserveState r changed, None)))"

definition disableDomain :: "orch_env \<Rightarrow> orch \<Rightarrow> string \<Rightarrow> orch" where
  "disableDomain env s domain =
     update_metrics (fold (\<lambda>scope s'. fst (disableScopedDomain_in env s' domain scope False))
       (getKnownScopes_all s domain) s)"

definition acquireScopedDomainLease ::
    "orch_env \<Rightarrow> orch \<Rightarrow> string \<Rightarrow> string \<Rightarrow> bool \<Rightarrow> refresh_demand \<Rightarrow> orch \<times> thrown option" where
  "acquireScopedDomainLease env s domain scope preserveState demand =
     (case normalizeDomainScope domain scope of
        Inl failure \<Rightarrow> (s, Some failure)
      | Inr None \<Rightarrow> (s, Some (ThrownError ''Error''
          (''Scoped domain \"'' @ domain @ ''\" requires a non-empty scope value'') JUndefined None))
      | Inr (Some normalizedScope) \<Rightarrow>
          (case getRuntimeForScope s normalizedScope of (s1, r) \<Rightarrow>
             let hadSnapshotDemand = hasScopedDemand (runtime s1 r) domain normalizedScope SnapshotDemand
             in case run_runtime s1 r (\<lambda>rt. acquireScopedLease rt domain normalizedScope demand) of (s2, result) \<Rightarrow>
               if aq_first result
               then (case getConfig s2 domain of
                       Inl failure \<Rightarrow> (s2, Some failure)
                     | Inr config \<Rightarrow>
                         (schedulePoll (reconcileScopedDomainStateChange env s2 config domain normalizedScope True
                            preserveState r (aq_changed result)) domain normalizedScope, None))
               else if demand = SnapshotDemand \<and> \<not> hadSnapshotDemand
               then (case getConfig s2 domain of
                       Inl failure \<Rightarrow> (s2, Some failure)
                     | Inr config \<Rightarrow>
                         (case rg_streaming config of
                            None \<Rightarrow> (s2, None)
                          | Some streaming \<Rightarrow>
                              (reconcileInitialStreamingSnapshot env s2 domain normalizedScope streaming, None)))
               else (s2, None)))"

definition resetScopedDomain :: "orch \<Rightarrow> string \<Rightarrow> string \<Rightarrow> orch \<times> thrown option" where
  "resetScopedDomain s domain scope =
     (case normalizeDomainScope domain scope of
        Inl failure \<Rightarrow> (s, Some failure)
      | Inr None \<Rightarrow> (s, None)
      | Inr (Some normalizedScope) \<Rightarrow>
          (case getRuntimeForScope s normalizedScope of (s1, r) \<Rightarrow>
             case run_runtime s1 r (\<lambda>rt. deferResetUntilReleased rt domain normalizedScope) of (s2, deferred) \<Rightarrow>
               if deferred then (s2, None)
               else if config_streaming s2 domain = None then (reset_scope s2 domain normalizedScope, None)
               else case isScopedDomainEnabledInternal s2 domain normalizedScope of (s3, enabled) \<Rightarrow>
                 if \<not> enabled then (stopStreamingScope s3 domain normalizedScope True, None)
                 else (reset_scope s3 domain normalizedScope, None)))"

definition releaseScopedDomainLease ::
    "orch_env \<Rightarrow> orch \<Rightarrow> string \<Rightarrow> string \<Rightarrow> bool \<Rightarrow> refresh_demand \<Rightarrow> orch \<times> thrown option" where
  "releaseScopedDomainLease env s domain scope preserveState demand =
     (case normalizeDomainScope domain scope of
        Inl failure \<Rightarrow> (s, Some failure)
      | Inr None \<Rightarrow> (s, None)
      | Inr (Some normalizedScope) \<Rightarrow>
          (case getRuntimeForScope s normalizedScope of (s1, r) \<Rightarrow>
             case run_runtime s1 r (\<lambda>rt. releaseScopedLease rt domain normalizedScope demand) of (s2, result) \<Rightarrow>
               if \<not> rl_last result then (s2, None)
               else case disableScopedDomain_in env (cancelPoll s2 r domain normalizedScope) domain normalizedScope
                           (preserveState \<and> \<not> rl_reset result) of
                      (s3, Some failure) \<Rightarrow> (s3, Some failure)
                    | (s3, None) \<Rightarrow>
                        if rl_reset result then resetScopedDomain s3 domain normalizedScope else (s3, None)))"

section \<open>Open clusters\<close>

definition resetScopedStatesForRemovedClusters :: "orch \<Rightarrow> string list \<Rightarrow> orch" where
  "resetScopedStatesForRemovedClusters s connected =
     fold (\<lambda>(domain, entries) s1. fold (\<lambda>(scope, _) s2.
         let clusterId = fst (parseClusterScope scope)
         in if clusterId \<noteq> [] \<and> clusterId \<notin> set connected then reset_scope s2 domain scope else s2) entries s1)
       (st_entries (oc_store s)) s"

definition prune_runtime :: "string \<Rightarrow> nat \<Rightarrow> orch \<Rightarrow> orch" where
  "prune_runtime clusterId r s =
     (let s1 = stopRuntimeStreaming s r True;
          s2 = cancelRuntimePolls s1 r;
          s3 = upd_runtime (teardown_all_in_flight s2 r) r resetAllState
      in emit_event (s3\<lparr>oc_clusters := AList.delete clusterId (oc_clusters s3)\<rparr>) (ClusterPruned clusterId))"

definition pruneRemovedClusterRuntimes :: "orch \<Rightarrow> string list \<Rightarrow> orch" where
  "pruneRemovedClusterRuntimes s connectedClusterIds =
     (let connected = filter (\<lambda>c. c \<noteq> []) (map trim connectedClusterIds);
          s1 = resetScopedStatesForRemovedClusters s connected;
          s2 = with_notifier s1 (\<lambda>n. clearRemovedClusters n connected);
          s3 = fold (\<lambda>(clusterId, r) s'. if clusterId \<in> set connected then s' else prune_runtime clusterId r s')
                 (oc_clusters s2) s2
      in update_metrics s3)"

definition setConnectedClusters :: "orch \<Rightarrow> string list \<Rightarrow> orch" where
  "setConnectedClusters s clusterIds = pruneRemovedClusterRuntimes s clusterIds"

section \<open>Manual refresh of a cluster\<close>

definition refreshCluster :: "orch_env \<Rightarrow> orch \<Rightarrow> string \<Rightarrow> orch" where
  "refreshCluster env s clusterId =
     (let name = ''cluster:'' @ clusterId;
          leased = (case map_of (oc_clusters s) (trim clusterId) of
                      None \<Rightarrow> [] | Some r \<Rightarrow> getLeasedScopes (runtime s r));
          targets = filter (\<lambda>(domain, scope). case config_streaming s domain of
                      None \<Rightarrow> True | Some streaming \<Rightarrow> \<not> sg_snapshotless streaming) leased
      in case fresh (emit_event s (RefreshStart name)) of (s1, b) \<Rightarrow>
         fold (\<lambda>(domain, scope) s'. fetchScopedDomain env s' (BatchOwner b) domain scope
             ((fetch_with User)\<lparr>fo_query_reconcile := True\<rparr>))
           targets
           (s1\<lparr>oc_batches := oc_batches s1 @
              [\<lparr>rb_id = b, rb_name = name, rb_open = length targets, rb_error = None\<rparr>]\<rparr>))"

text \<open>\<open>Promise.all\<close> settles when every read did, or with the first failure.\<close>

definition batch_settles :: "orch \<Rightarrow> refresh_batch \<Rightarrow> orch" where
  "batch_settles s batch =
     emit_event (s\<lparr>oc_batches := filter (\<lambda>b. rb_id b \<noteq> rb_id batch) (oc_batches s)\<rparr>)
       (RefreshComplete (rb_name batch) (rb_error batch))"

section \<open>Polls\<close>

definition runPoll :: "orch_env \<Rightarrow> orch \<Rightarrow> nat \<Rightarrow> string \<Rightarrow> string \<Rightarrow> orch" where
  "runPoll env s r domain scope =
     (case run_runtime s r (\<lambda>rt. takePollTimer rt domain scope) of (s1, _) \<Rightarrow>
        if \<not> isRuntimeCurrent s1 r \<or> \<not> hasScopedLease (runtime s1 r) domain scope then s1
        else case fresh s1 of (s2, controller) \<Rightarrow>
          let seconds = snd (getRefreshDomainTiming domain)
          in case set_timeout s2 (DeadlineTimer controller domain seconds) (seconds * 1000) of (s3, deadline) \<Rightarrow>
             case fresh s3 of (s4, p) \<Rightarrow>
               fetchScopedDomain env
                 (s4\<lparr>oc_polls := oc_polls s4 @
                    [\<lparr>pl_id = p, pl_runtime = r, pl_domain = domain, pl_scope = scope, pl_deadline = deadline,
                      pl_settled = False\<rparr>]\<rparr>)
                 (PollOwner p) domain scope
                 ((fetch_with Background)\<lparr>fo_query_reconcile := True, fo_signal := Some controller\<rparr>))"

definition poll_settles :: "orch \<Rightarrow> poll_run \<Rightarrow> orch" where
  "poll_settles s poll =
     (let s1 = clearTimer (s\<lparr>oc_polls := filter (\<lambda>p. pl_id p \<noteq> pl_id poll) (oc_polls s)\<rparr>) (Some (pl_deadline poll))
      in if isRuntimeCurrent s1 (pl_runtime poll)
            \<and> \<not> isPollScheduled (runtime s1 (pl_runtime poll)) (pl_domain poll) (pl_scope poll)
         then schedulePoll s1 (pl_domain poll) (pl_scope poll) else s1)"

definition stream_retry_fires :: "orch_env \<Rightarrow> orch \<Rightarrow> nat \<Rightarrow> string \<Rightarrow> string \<Rightarrow> orch" where
  "stream_retry_fires env s r domain scope =
     (case run_runtime s r (\<lambda>rt. takeStreamStartRetry rt domain scope) of (s1, _) \<Rightarrow>
        if config_streaming s1 domain = None \<or> \<not> isRuntimeCurrent s1 r
           \<or> \<not> hasScopedLease (runtime s1 r) domain scope
        then s1
        else case shouldStreamScope env s1 domain scope of (s2, should) \<Rightarrow>
          if should then startStreamingScope env s2 domain scope else s2)"

definition timer_fires :: "orch_env \<Rightarrow> orch \<Rightarrow> timer \<Rightarrow> timer_kind \<Rightarrow> orch" where
  "timer_fires env s t kind =
     (let s1 = clearTimer s (Some t)
      in case kind of
           PollTimer r domain scope \<Rightarrow> runPoll env s1 r domain scope
         | RetryTimer r domain scope \<Rightarrow> stream_retry_fires env s1 r domain scope
         | DeadlineTimer controller domain seconds \<Rightarrow> abort_signal s1 controller (AbortDeadline domain seconds))"

section \<open>Cluster lifecycle\<close>

definition record_activation :: "orch \<Rightarrow> in_flight_request \<Rightarrow> bool \<Rightarrow> orch" where
  "record_activation s request trailing =
     (case rq_scope request of
        None \<Rightarrow> s
      | Some scope \<Rightarrow>
          if scope = [] then s
          else (case isScopedDomainEnabledInternal s (rq_domain request) scope of (s1, enabled) \<Rightarrow>
            if \<not> enabled then s1
            else let s2 = recordPendingClusterReadiness s1 (rq_domain request) scope
                       ((fetch_with (rq_intent request))\<lparr>fo_coalesce := rq_coalesce request\<rparr>)
                 in if trailing
                    then recordPendingClusterReadiness s2 (rq_domain request) scope (fetch_with StreamSignal)
                    else s2))"

definition handleForegroundActivationStarted :: "orch \<Rightarrow> string \<Rightarrow> orch" where
  "handleForegroundActivationStarted s clusterId =
     (case map_of (oc_clusters s) clusterId of
        None \<Rightarrow> s
      | Some r \<Rightarrow>
          let s1 = stopRuntimeStreaming s r False
          in fold (\<lambda>((request, trailing), key) s'.
                 teardown_in_flight (record_activation s' request trailing) r key (rq_id request))
               (inFlightRequests (runtime s1 r)) s1)"

definition replayDeferredRequest :: "orch_env \<Rightarrow> orch \<Rightarrow> readiness_request \<Rightarrow> orch" where
  "replayDeferredRequest env s request =
     (let domain = rd_domain request; scope = rd_scope request
      in if map_of (oc_configs s) domain = None then s
         else case isScopedDomainEnabledInternal s domain scope of (s1, enabled) \<Rightarrow>
           if \<not> enabled then s1
           else if \<not> isScopeClusterServiceable env s1 scope
           then fold (\<lambda>intent s'. recordPendingClusterReadiness s' domain scope
                  ((fetch_with intent)\<lparr>fo_coalesce := rd_coalesce request,
                     fo_query_reconcile := rd_query_reconcile request\<rparr>)) (rd_intents request) s1
           else (case strongestIntent (filter (intentRuns s1) (rd_intents request)) of
                   None \<Rightarrow> s1
                 | Some intent \<Rightarrow>
                     fetchScopedDomain env s1 NoOwner domain scope
                       ((fetch_with intent)\<lparr>fo_coalesce := rd_coalesce request,
                          fo_query_reconcile := rd_query_reconcile request\<rparr>)))"

definition handleClusterBecameServiceable :: "orch_env \<Rightarrow> orch \<Rightarrow> string \<Rightarrow> orch" where
  "handleClusterBecameServiceable env s clusterId =
     (let s2 = (case map_of (oc_clusters s) clusterId of
                  None \<Rightarrow> s
                | Some r \<Rightarrow>
                    (case run_runtime s r takeDeferredReadinessRequests of (s1, requests) \<Rightarrow>
                       fold (\<lambda>request s'. replayDeferredRequest env s' request) requests s1))
      in handleStreamingScopeChanges env s2 (getAllRuntimes s2))"

definition resetRuntimePermissionEpoch :: "orch \<Rightarrow> nat \<Rightarrow> orch" where
  "resetRuntimePermissionEpoch s r =
     (case run_runtime s r resetPermissionEpoch of (s1, scopes) \<Rightarrow>
        fold (\<lambda>(domain, scope) s'. upd_scope s' domain scope (\<lambda>previous. previous\<lparr>ds_permission_denied := False\<rparr>))
          scopes s1)"

definition handleClusterAuthFailed :: "orch \<Rightarrow> string \<Rightarrow> orch" where
  "handleClusterAuthFailed s cluster =
     (let clusterId = trim cluster
      in if clusterId = [] then s
         else case getClusterRuntime s clusterId of (s1, r) \<Rightarrow>
           case run_runtime s1 r markAuthFailed of (s2, changed) \<Rightarrow>
             if \<not> changed then s2
             else upd_runtime (teardown_all_in_flight (stopRuntimeStreaming s2 r False) r) r
                    clearAsyncStreamingBookkeeping)"

definition handleClusterAuthRecovered :: "orch_env \<Rightarrow> orch \<Rightarrow> string \<Rightarrow> orch" where
  "handleClusterAuthRecovered env s cluster =
     (let clusterId = trim cluster
      in if clusterId = [] then s
         else case map_of (oc_clusters s) clusterId of
                None \<Rightarrow> s
              | Some r \<Rightarrow>
                  (case run_runtime s r markAuthRecovered of (s1, changed) \<Rightarrow>
                     if \<not> changed then s1
                     else let s2 = upd_runtime s1 r (\<lambda>rt. clearAllStreamHealth (clearBlockedStreaming rt));
                              s3 = resetRuntimePermissionEpoch s2 r;
                              s4 = fold (\<lambda>(domain, scope) s'. clearRefreshError s' domain scope)
                                     (scopedDomains (runtime s3 r)) s3
                          in handleStreamingScopeChanges env s4 (getAllRuntimes s4)))"

definition handleClusterScopeChanged :: "orch_env \<Rightarrow> orch \<Rightarrow> string \<Rightarrow> orch" where
  "handleClusterScopeChanged env s cluster =
     (let clusterId = trim cluster
      in if clusterId = [] then s
         else let s1 = s\<lparr>oc_store := resetPermissionDeniedScopedDomainStates (oc_store s) clusterId\<rparr>
              in case map_of (oc_clusters s) clusterId of
                   None \<Rightarrow> s1
                 | Some r \<Rightarrow>
                     let s2 = teardown_all_in_flight (stopRuntimeStreaming s1 r False) r;
                         s3 = upd_runtime s2 r (\<lambda>rt. clearAllStreamHealth (clearBlockedStreaming
                                (clearAsyncStreamingBookkeeping rt)));
                         s4 = resetRuntimePermissionEpoch s3 r;
                         s5 = fold (\<lambda>(domain, scope) s'.
                                upd_runtime (clearRefreshError s' domain scope) r
                                  (\<lambda>rt. markReconciliationFailed rt domain scope (ev_now env)))
                                (scopedDomains (runtime s4 r)) s4
                     in handleStreamingScopeChanges env s5 [r])"

section \<open>Stream events\<close>

definition blockStreamingScope :: "orch \<Rightarrow> string \<Rightarrow> string \<Rightarrow> orch \<times> bool" where
  "blockStreamingScope s domain scope =
     (case getRuntimeForScope s scope of (s1, r) \<Rightarrow>
        case run_runtime s1 r (\<lambda>rt. blockStreaming rt domain scope) of (s2, blocked) \<Rightarrow>
          if \<not> blocked then (s2, False)
          else (if config_streaming s2 domain \<noteq> None then stopStreamingScope s2 domain scope False else s2, True))"

definition handleResourceStreamPermissionDenied :: "orch_env \<Rightarrow> orch \<Rightarrow> string \<Rightarrow> string \<Rightarrow> orch" where
  "handleResourceStreamPermissionDenied env s domain payloadScope =
     (let scope = trim payloadScope
      in if scope = [] then s
         else case blockStreamingScope s domain scope of (s1, blocked) \<Rightarrow>
           if \<not> blocked then s1 else performFetch env s1 NoOwner domain scope (fetch_with User))"

definition handleResourceStreamDrift :: "orch \<Rightarrow> string \<Rightarrow> string \<Rightarrow> orch" where
  "handleResourceStreamDrift s domain payloadScope =
     (let scope = trim payloadScope
      in if scope = [] then s else fst (blockStreamingScope s domain scope))"

definition handleStreamSignal :: "orch_env \<Rightarrow> orch \<Rightarrow> string \<Rightarrow> string \<Rightarrow> orch" where
  "handleStreamSignal env s domain scope =
     (case getExistingRuntimeForScope s scope of
        None \<Rightarrow> s
      | Some r \<Rightarrow>
          if map_of (oc_configs s) domain = None \<or> \<not> hasScopedDemand (runtime s r) domain scope SnapshotDemand
          then s
          else fetchScopedDomain env s NoOwner domain scope (fetch_with StreamSignal))"

definition handleResourceStreamHealth :: "orch \<Rightarrow> health_payload \<Rightarrow> orch" where
  "handleResourceStreamHealth s payload =
     (let scope = trim (hp_scope payload); domain = hp_domain payload
      in if scope = [] then s
         else case getRuntimeForScope s scope of (s1, r) \<Rightarrow>
           case run_runtime s1 r (\<lambda>rt. setStreamHealth rt domain scope payload) of (s2, previous) \<Rightarrow>
             if hp_status payload = HealthHealthy \<and> map_option hp_status previous \<noteq> Some HealthHealthy
             then upd_scope s2 domain scope (\<lambda>st. st\<lparr>
                    ds_stream_acknowledged := Some ((case ds_stream_acknowledged st of
                                                       None \<Rightarrow> 0 | Some v \<Rightarrow> v) + 1)\<rparr>)
             else s2)"

section \<open>Session events\<close>

definition abortAllInFlight :: "orch \<Rightarrow> orch" where
  "abortAllInFlight s = forEachRuntime (\<lambda>r s'. teardown_all_in_flight s' r) s"

definition clearAllBlockedStreaming :: "orch \<Rightarrow> orch" where
  "clearAllBlockedStreaming s = forEachRuntime (\<lambda>r s'. upd_runtime s' r clearBlockedStreaming) s"

definition clearAllStreamHealth_all :: "orch \<Rightarrow> orch" where
  "clearAllStreamHealth_all s = forEachRuntime (\<lambda>r s'. upd_runtime s' r clearAllStreamHealth) s"

definition deleteDomainFromAllRuntimes :: "orch \<Rightarrow> string \<Rightarrow> orch" where
  "deleteDomainFromAllRuntimes s domain = forEachRuntime (\<lambda>r s'. upd_runtime s' r (\<lambda>rt. deleteDomain rt domain)) s"

definition incrementContextVersion :: "orch \<Rightarrow> orch" where
  "incrementContextVersion s = s\<lparr>oc_context := oc_context s + 1\<rparr>"

definition handleResetViews :: "orch \<Rightarrow> orch" where
  "handleResetViews s =
     (let s1 = abortAllInFlight (stopAllStreaming (incrementContextVersion s) True);
          s2 = clearAllStreamHealth_all (clearAllBlockedStreaming s1)
      in fold (\<lambda>(domain, _) s'. resetDomain s' domain) (oc_configs s2) s2)"

definition handleKubeconfigChanging :: "orch_env \<Rightarrow> orch \<Rightarrow> orch" where
  "handleKubeconfigChanging env s =
     (let s1 = forEachRuntime (\<lambda>r s'. upd_runtime s' r (\<lambda>rt. fst (markAuthRecovered rt))) s;
          s2 = stopAllStreaming (incrementContextVersion (with_notifier s1 clearAll)) True;
          s3 = abortAllInFlight (forEachRuntime (\<lambda>r s'. cancelRuntimePolls s' r) s2);
          s4 = clearAllStreamHealth_all (clearAllBlockedStreaming s3)
      in fold (\<lambda>(domain, _) s'. deleteDomainFromAllRuntimes (resetDomain (disableDomain env s' domain) domain) domain)
           (oc_configs s4) s4)"

definition handleKubeconfigChanged :: "orch_env \<Rightarrow> orch \<Rightarrow> orch" where
  "handleKubeconfigChanged env s =
     (let s1 = with_notifier (incrementContextVersion s) (\<lambda>n. suppressNetworkErrors n (ev_now env) 6000);
          s2 = clearAllStreamHealth_all (clearAllBlockedStreaming s1)
      in handleStreamingScopeChanges env s2 (getAllRuntimes s2))"

definition handleKubeconfigSelectionChanged :: "orch_env \<Rightarrow> orch \<Rightarrow> orch" where
  "handleKubeconfigSelectionChanged env s =
     (let s1 = with_notifier (incrementContextVersion s) (\<lambda>n. suppressNetworkErrors n (ev_now env) 6000);
          s2 = clearAllStreamHealth_all (clearAllBlockedStreaming s1)
      in handleStreamingScopeChanges env s2 (getAllRuntimes s2))"

text \<open>The preference has its new value when the handler runs.\<close>

definition handleAutoRefreshChanged :: "orch_env \<Rightarrow> orch \<Rightarrow> bool \<Rightarrow> orch" where
  "handleAutoRefreshChanged env s enabled =
     (let s1 = s\<lparr>oc_auto_refresh := enabled\<rparr>
      in reschedulePolls (handleStreamingScopeChanges env s1 (getAllRuntimes s1)))"

definition setDocumentHidden :: "orch \<Rightarrow> bool \<Rightarrow> orch" where
  "setDocumentHidden s hidden =
     (if oc_hidden s = hidden then s else reschedulePolls (s\<lparr>oc_hidden := hidden\<rparr>))"

section \<open>The machine\<close>

definition remove_job :: "orch \<Rightarrow> fetch_job \<Rightarrow> orch" where
  "remove_job s job = s\<lparr>oc_jobs := filter (\<lambda>j. fj_id j \<noteq> fj_id job) (oc_jobs s)\<rparr>"

text \<open>A domain argument is a \<open>RefreshDomain\<close>, one of the contract's names.\<close>

definition refresh_domain :: "string \<Rightarrow> bool" where
  "refresh_domain domain \<longleftrightarrow> domain \<in> dp_domain ` set domain_policies"

inductive orch_step :: "orch \<Rightarrow> orch \<Rightarrow> bool" where
  step_connected: "orch_step s (setConnectedClusters s clusterIds)"
| step_refresh_cluster: "orch_step s (refreshCluster env s clusterId)"
| step_acquire: "refresh_domain domain \<Longrightarrow>
    orch_step s (fst (acquireScopedDomainLease env s domain scope preserve demand))"
| step_release: "refresh_domain domain \<Longrightarrow>
    orch_step s (fst (releaseScopedDomainLease env s domain scope preserve demand))"
| step_reset: "refresh_domain domain \<Longrightarrow> orch_step s (fst (resetScopedDomain s domain scope))"
| step_fetch: "refresh_domain domain \<Longrightarrow> fo_signal options = None \<Longrightarrow>
    orch_step s (fetchScopedDomain env s NoOwner domain scope options)"
| step_restart: "refresh_domain domain \<Longrightarrow> orch_step s (fst (restartStreamingDomain env s domain scope))"
| step_refresh_once: "refresh_domain domain \<Longrightarrow> orch_step s (fst (refreshStreamingDomainOnce env s domain scope))"
| step_activation: "orch_step s (handleForegroundActivationStarted s clusterId)"
| step_serviceable: "orch_step s (handleClusterBecameServiceable env s clusterId)"
| step_auth_failed: "orch_step s (handleClusterAuthFailed s clusterId)"
| step_auth_recovered: "orch_step s (handleClusterAuthRecovered env s clusterId)"
| step_scope_changed: "orch_step s (handleClusterScopeChanged env s clusterId)"
| step_denied: "refresh_domain domain \<Longrightarrow> trim scope \<noteq> ''*'' \<Longrightarrow>
    orch_step s (handleResourceStreamPermissionDenied env s domain scope)"
| step_drift: "refresh_domain domain \<Longrightarrow> trim scope \<noteq> ''*'' \<Longrightarrow>
    orch_step s (handleResourceStreamDrift s domain scope)"
| step_signal: "refresh_domain domain \<Longrightarrow> orch_step s (handleStreamSignal env s domain scope)"
| step_health: "refresh_domain (hp_domain payload) \<Longrightarrow> trim (hp_scope payload) \<noteq> ''*'' \<Longrightarrow>
    orch_step s (handleResourceStreamHealth s payload)"
| step_reset_views: "orch_step s (handleResetViews s)"
| step_changing: "orch_step s (handleKubeconfigChanging env s)"
| step_changed: "orch_step s (handleKubeconfigChanged env s)"
| step_selection: "orch_step s (handleKubeconfigSelectionChanged env s)"
| step_auto_refresh: "orch_step s (handleAutoRefreshChanged env s enabled)"
| step_hidden: "orch_step s (setDocumentHidden s hidden)"
| step_timer: "(t, kind, delay) \<in> set (oc_timers s) \<Longrightarrow> orch_step s (timer_fires env s t kind)"
| step_ready_runs: "k \<in> set (oc_ready s) \<Longrightarrow> \<not> rk_ran k \<Longrightarrow> orch_step s (ready_task_runs env s k)"
| step_ready_settles: "k \<in> set (oc_ready s) \<Longrightarrow> rk_ran k \<Longrightarrow> orch_step s (ready_task_settles s k)"
| step_start_settles: "p \<in> set (oc_starts s) \<Longrightarrow> orch_step s (start_settled env s p failure)"
| step_poll_settles: "poll \<in> set (oc_polls s) \<Longrightarrow> pl_settled poll \<Longrightarrow> orch_step s (poll_settles s poll)"
| step_batch_settles: "batch \<in> set (oc_batches s) \<Longrightarrow> rb_open batch = 0 \<or> rb_error batch \<noteq> None \<Longrightarrow>
    orch_step s (batch_settles s batch)"
| step_decided: "job \<in> set (oc_jobs s) \<Longrightarrow> fj_stage job = StageDecided r \<Longrightarrow>
    orch_step s (fetch_decided env (remove_job s job) job r)"
| step_refreshed: "job \<in> set (oc_jobs s) \<Longrightarrow> fj_stage job = StageRefreshing \<Longrightarrow>
    orch_step s (tell_owner (remove_job s job) (fj_owner job) failure)"
| step_joined: "job \<in> set (oc_jobs s) \<Longrightarrow> fj_stage job = StageJoined r completion \<Longrightarrow>
    completion \<in> set (oc_completed s) \<Longrightarrow> orch_step s (joined_read_settled (remove_job s job) job r)"
| step_trailing: "job \<in> set (oc_jobs s) \<Longrightarrow> fj_stage job = StageTrailing completion \<Longrightarrow>
    completion \<in> set (oc_completed s) \<Longrightarrow> orch_step s (tell_owner (remove_job s job) (fj_owner job) None)"
| step_answered: "job \<in> set (oc_jobs s) \<Longrightarrow> fj_stage job = StageExecuting execution \<Longrightarrow>
    orch_step s (fetch_answered env (remove_job s job) job execution answer)"
| step_metrics_sent: "key \<in> set (dw_requests (oc_metrics s)) \<Longrightarrow>
    orch_step s (with_metrics s (\<lambda>w. metrics_request_succeeded w key))"
| step_metrics_failed: "key \<in> set (dw_requests (oc_metrics s)) \<Longrightarrow>
    orch_step s (with_metrics s (\<lambda>w. metrics_request_failed w key))"
| step_metrics_retry: "(timer, key, delay) \<in> set (dw_timers (oc_metrics s)) \<Longrightarrow>
    orch_step s (with_metrics s (\<lambda>w. metrics_retry_fired w timer key))"

inductive orch_reachable :: "orch \<Rightarrow> bool" where
  orch_start: "orch_reachable (new_orchestrator auto)"
| orch_next: "orch_reachable s \<Longrightarrow> orch_step s s' \<Longrightarrow> orch_reachable s'"

end
