(* ===== verification/Orchestrator_Frames.thy ===== *)
theory Orchestrator_Frames
  imports Orchestrator Runtime_Steps Runtime_Lifecycle
begin

text \<open>
  What an operation of the refresh orchestrator leaves alone. A cluster runtime's records and the orchestrator's own
  lists fall into three parts: the reads, the polls with the leases they follow, and the streams. A frame says which
  parts a piece of code keeps, together with the well-formedness every piece keeps: runtimes are consistent, every
  record, timer, task, promise and read belongs to the runtime of its scope, and a timer has one owner. The frames of
  the runtime's methods come first, then those of the orchestrator's own state.
\<close>

declare map_of_eq_Some_iff [simp del] Some_eq_map_of_iff [simp del]

section \<open>Records\<close>

datatype part = Reads | Polls | Streams

abbreviation rec_at :: "cluster_runtime \<Rightarrow> string \<Rightarrow> string \<Rightarrow> scoped_refresh_state" where
  "rec_at rt d sc \<equiv> getScopeState rt d (Some sc)"

text \<open>A domain and a scope as the orchestrator's callers name them: the scope is trimmed.\<close>

definition vref :: "string \<Rightarrow> string \<Rightarrow> bool" where
  "vref d sc \<longleftrightarrow> valid_ref d (Some sc) \<and> trim sc = sc"

lemma vref_valid: "vref d sc \<Longrightarrow> valid_ref d (Some sc)"
  by (simp add: vref_def)

lemma vref_trim [simp]: "vref d sc \<Longrightarrow> trim sc = sc"
  by (simp add: vref_def)

definition record_timer :: "scoped_refresh_state \<Rightarrow> timer option" where
  "record_timer st = (case sr_polling st of PollIdle \<Rightarrow> None | PollScheduled t \<Rightarrow> Some t)"

definition record_retry :: "scoped_refresh_state \<Rightarrow> timer option" where
  "record_retry st = retry_timer (ss_retry (sr_stream st))"

fun rec_keeps :: "part \<Rightarrow> scoped_refresh_state \<Rightarrow> scoped_refresh_state \<Rightarrow> bool" where
  "rec_keeps Reads a b \<longleftrightarrow> sr_fetch b = sr_fetch a"
| "rec_keeps Polls a b \<longleftrightarrow> sr_polling b = sr_polling a \<and> sr_activation b = sr_activation a"
| "rec_keeps Streams a b \<longleftrightarrow>
     ss_initialization (sr_stream b) = ss_initialization (sr_stream a) \<and>
     ss_connection (sr_stream b) = ss_connection (sr_stream a)"

text \<open>No new timer: a record's poll timer and retry timer are gone or the ones it had.\<close>

definition timer_le :: "scoped_refresh_state \<Rightarrow> scoped_refresh_state \<Rightarrow> bool" where
  "timer_le a b \<longleftrightarrow>
     (record_timer b = None \<or> record_timer b = record_timer a) \<and>
     (record_retry b = None \<or> record_retry b = record_retry a)"

text \<open>A record that tracks a read keeps tracking it.\<close>

definition fetch_of :: "scoped_refresh_state \<Rightarrow> in_flight_request option" where
  "fetch_of st = map_option fst (trackedRequest (sr_fetch st))"

definition fetch_kept :: "scoped_refresh_state \<Rightarrow> scoped_refresh_state \<Rightarrow> bool" where
  "fetch_kept a b \<longleftrightarrow> fetch_of a = None \<or> fetch_of b = fetch_of a"

definition rec_le :: "scoped_refresh_state \<Rightarrow> scoped_refresh_state \<Rightarrow> bool" where
  "rec_le a b \<longleftrightarrow> timer_le a b \<and> fetch_kept a b"

lemma rec_le_refl [simp]: "rec_le a a" "timer_le a a" "fetch_kept a a"
  by (simp_all add: rec_le_def timer_le_def fetch_kept_def)

lemma rec_leD:
  assumes "rec_le a b"
  shows "record_timer b = Some t \<Longrightarrow> record_timer a = Some t" "record_retry b = Some t \<Longrightarrow> record_retry a = Some t"
  using assms by (auto simp: rec_le_def timer_le_def)

lemma rec_le_timer: "rec_le a b \<Longrightarrow> timer_le a b"
  by (simp add: rec_le_def)

lemma timer_leD:
  assumes "timer_le a b"
  shows "record_timer b = Some t \<Longrightarrow> record_timer a = Some t" "record_retry b = Some t \<Longrightarrow> record_retry a = Some t"
  using assms by (auto simp: timer_le_def)

lemma rec_le_trans: "rec_le a b \<Longrightarrow> rec_le b c \<Longrightarrow> rec_le a c"
  by (auto simp: rec_le_def timer_le_def fetch_kept_def)

lemma fetch_of_same: "sr_fetch b = sr_fetch a \<Longrightarrow> fetch_of b = fetch_of a"
  by (simp add: fetch_of_def)

lemma rec_keeps_refl [simp]: "rec_keeps x a a"
  by (cases x) simp_all

lemma rec_keeps_trans: "rec_keeps x a b \<Longrightarrow> rec_keeps x b c \<Longrightarrow> rec_keeps x a c"
  by (cases x) simp_all

lemma after_store_retry: "record_retry (after_store st) = None \<or> record_retry (after_store st) = record_retry st"
  by (auto simp: after_store_def record_retry_def retry_timer_def)

lemma fetch_of_after_store [simp]: "fetch_of (after_store st) = fetch_of st"
  by (rule fetch_of_same) (simp add: after_store_fields)

lemma timer_le_after_store [simp]: "timer_le a st \<Longrightarrow> timer_le a (after_store st)"
  using after_store_retry [of st] by (auto simp: timer_le_def record_timer_def after_store_fields)

lemma rec_le_after_store [simp]: "rec_le a st \<Longrightarrow> rec_le a (after_store st)"
  by (simp add: rec_le_def fetch_kept_def)

lemma rec_keeps_after_store [simp]: "rec_keeps x a (after_store st) = rec_keeps x a st"
  by (cases x) (simp_all add: after_store_fields)

section \<open>Runtimes\<close>

definition scopes_of :: "cluster_runtime \<Rightarrow> string set" where
  "scopes_of rt = {sc. \<exists>st\<in>set (state_values rt). sr_scope st = Some sc}"

definition rt_ok :: "cluster_runtime \<Rightarrow> bool" where
  "rt_ok rt \<longleftrightarrow> runtime_inv rt \<and> (\<forall>st\<in>set (state_values rt). \<exists>sc. sr_scope st = Some sc \<and> trim sc = sc)"

definition rt_frame :: "part set \<Rightarrow> string set \<Rightarrow> cluster_runtime \<Rightarrow> cluster_runtime \<Rightarrow> bool" where
  "rt_frame X K rt rt' \<longleftrightarrow>
     (rt_ok rt \<longrightarrow>
        rt_ok rt' \<and> cr_cluster rt' = cr_cluster rt \<and> scopes_of rt' \<subseteq> scopes_of rt \<union> K \<and>
        (\<forall>d sc. vref d sc \<longrightarrow> rec_le (rec_at rt d sc) (rec_at rt' d sc) \<and>
           (\<forall>x\<in>X. rec_keeps x (rec_at rt d sc) (rec_at rt' d sc))))"

text \<open>The same with a relation on the records: code that ends a read keeps no more than the timers.\<close>

definition rt_rel ::
    "(scoped_refresh_state \<Rightarrow> scoped_refresh_state \<Rightarrow> bool) \<Rightarrow> part set \<Rightarrow> string set \<Rightarrow>
     cluster_runtime \<Rightarrow> cluster_runtime \<Rightarrow> bool" where
  "rt_rel L X K rt rt' \<longleftrightarrow>
     (rt_ok rt \<longrightarrow>
        rt_ok rt' \<and> cr_cluster rt' = cr_cluster rt \<and> scopes_of rt' \<subseteq> scopes_of rt \<union> K \<and>
        (\<forall>d sc. vref d sc \<longrightarrow> L (rec_at rt d sc) (rec_at rt' d sc) \<and>
           (\<forall>x\<in>X. rec_keeps x (rec_at rt d sc) (rec_at rt' d sc))))"

lemma rt_frame_rel: "rt_frame = rt_rel rec_le"
  by (simp add: fun_eq_iff rt_frame_def rt_rel_def)

lemma rt_frame_shape: "rt_frame X K rt rt' \<Longrightarrow> rt_rel timer_le X K rt rt'"
  by (auto simp: rt_frame_def rt_rel_def rec_le_def)

lemma rt_ok_new [simp]: "rt_ok (new_runtime c)" "scopes_of (new_runtime c) = {}"
  "rec_at (new_runtime c) d sc = initial_scope_state d (Some sc)"
  by (simp_all add: rt_ok_def new_runtime_def runtime_inv_def state_values_def scopes_of_def getScopeState_def)

lemma rt_frame_refl [simp]: "rt_frame X K rt rt"
  by (simp add: rt_frame_def)

lemma rt_frame_trans:
  assumes ab: "rt_frame X K a b" and bc: "rt_frame X K b c"
  shows "rt_frame X K a c"
  unfolding rt_frame_def
proof (intro impI conjI allI)
  assume a: "rt_ok a"
  with ab have b: "rt_ok b" by (simp add: rt_frame_def)
  show "rt_ok c" using bc b by (simp add: rt_frame_def)
  show "cr_cluster c = cr_cluster a" using ab bc a b by (simp add: rt_frame_def)
  show "scopes_of c \<subseteq> scopes_of a \<union> K" using ab bc a b unfolding rt_frame_def by blast
  fix d sc
  assume ref: "vref d sc"
  show "rec_le (rec_at a d sc) (rec_at c d sc)"
    using ab bc a b ref rec_le_trans unfolding rt_frame_def by blast
  show "\<forall>x\<in>X. rec_keeps x (rec_at a d sc) (rec_at c d sc)"
    using ab bc a b ref rec_keeps_trans unfolding rt_frame_def by blast
qed

lemma rt_frame_mono: "rt_frame X K a b \<Longrightarrow> Y \<subseteq> X \<Longrightarrow> K \<subseteq> L \<Longrightarrow> rt_frame Y L a b"
  unfolding rt_frame_def by blast

lemma store_values:
  "st' \<in> set (state_values (storeScopeState rt st)) \<Longrightarrow> st' = st \<or> st' \<in> set (state_values rt)"
  by (auto simp: state_values_def storeScopeState_def Let_def dest!: in_update in_delete split: if_splits)

lemma rt_rel_modify:
  assumes ref: "vref d sc" and loc: "local_update f"
    and owns: "\<And>st. record_ok st \<Longrightarrow> sr_domain st = d \<Longrightarrow> sr_scope st = Some sc \<Longrightarrow> owns_requests (f st)"
    and le: "\<And>st. L st (f st)" and closed: "\<And>a st. L a st \<Longrightarrow> L a (after_store st)" "\<And>a. L a a"
    and keeps: "\<And>st x. x \<in> X \<Longrightarrow> rec_keeps x st (f st)"
  shows "rt_rel L X {sc} rt (modify rt d (Some sc) f)"
  unfolding rt_rel_def
proof (intro impI conjI allI)
  assume ok: "rt_ok rt"
  then have inv: "runtime_inv rt" by (simp add: rt_ok_def)
  have scope: "sr_scope (f (rec_at rt d sc)) = Some sc"
    using loc getScopeState_ref [OF inv vref_valid [OF ref]] by (simp add: local_update_def)
  show "rt_ok (modify rt d (Some sc) f)"
    using ok modify_inv [OF inv vref_valid [OF ref] loc] owns getScopeState_ref [OF inv vref_valid [OF ref]]
      scope vref_trim [OF ref] unfolding rt_ok_def
    by (auto simp: modify_def dest!: store_values)
  show "scopes_of (modify rt d (Some sc) f) \<subseteq> scopes_of rt \<union> {sc}"
    using scope by (auto simp: scopes_of_def modify_def dest!: store_values)
  fix d' sc'
  assume ref': "vref d' sc'"
  note read = getScopeState_modify [OF inv vref_valid [OF ref] vref_valid [OF ref'] loc]
  show "L (rec_at rt d' sc') (rec_at (modify rt d (Some sc) f) d' sc')"
    using le closed by (simp add: read)
  show "\<forall>x\<in>X. rec_keeps x (rec_at rt d' sc') (rec_at (modify rt d (Some sc) f) d' sc')"
    using keeps by (simp add: read)
qed simp

lemma rt_frame_modify:
  assumes "vref d sc" and "local_update f"
    and "\<And>st. record_ok st \<Longrightarrow> sr_domain st = d \<Longrightarrow> sr_scope st = Some sc \<Longrightarrow> owns_requests (f st)"
    and "\<And>st. rec_le st (f st)" and "\<And>st x. x \<in> X \<Longrightarrow> rec_keeps x st (f st)"
  shows "rt_frame X {sc} rt (modify rt d (Some sc) f)"
  unfolding rt_frame_rel using assms by (intro rt_rel_modify) simp_all

text \<open>The fields of the parts, for the modifications of the runtime's methods.\<close>

lemma keeps_field_updates [simp]:
  "rec_keeps x st (st\<lparr>sr_reconciliation := r\<rparr>)" "rec_keeps x st (st\<lparr>sr_readiness := w\<rparr>)"
  "rec_keeps x st (st\<lparr>sr_permission := p\<rparr>)"
  "rec_keeps x st (st\<lparr>sr_polling := q\<rparr>) \<longleftrightarrow> x \<noteq> Polls \<or> q = sr_polling st"
  "rec_keeps x st (st\<lparr>sr_activation := a\<rparr>) \<longleftrightarrow> x \<noteq> Polls \<or> a = sr_activation st"
  "rec_keeps x st (st\<lparr>sr_fetch := f\<rparr>) \<longleftrightarrow> x \<noteq> Reads \<or> f = sr_fetch st"
  by (cases x; simp)+

lemma le_field_updates [simp]:
  "rec_le st (st\<lparr>sr_reconciliation := r\<rparr>)" "rec_le st (st\<lparr>sr_readiness := w\<rparr>)"
  "rec_le st (st\<lparr>sr_permission := p\<rparr>)" "rec_le st (st\<lparr>sr_activation := a\<rparr>)"
  "rec_le st (st\<lparr>sr_polling := PollIdle\<rparr>)" "timer_le st (st\<lparr>sr_fetch := f\<rparr>)"
  by (simp_all add: rec_le_def timer_le_def fetch_kept_def fetch_of_def record_timer_def record_retry_def)

lemma stream_event_retry:
  assumes "\<And>t. e \<noteq> ScheduleStartRetry t"
  shows "rec_le st (st\<lparr>sr_stream := transitionScopedStreamState (sr_stream st) e\<rparr>)"
  using assms
  by (cases e) (auto simp: rec_le_def timer_le_def fetch_kept_def fetch_of_def record_timer_def record_retry_def
      retry_timer_def blockStream_def
      clearStreamBlock_def scheduleStreamInitialization_def clearStreamInitialization_def beginStreamStart_def
      requestStreamCancellation_def clearStreamCancellation_def finishStreamStart_def failStreamStart_def
      stopActiveStream_def receiveStreamHealth_def clear_stream_health_def clearAsyncStreamState_def
      clearAllStreamState_def resetTransientStreamState_def takeStartRetry_def resetStartRetry_def
      split: stream_initialization.splits stream_connection.splits start_retry.splits if_splits)

lemma keeps_stream_update [simp]:
  "x \<noteq> Streams \<Longrightarrow> rec_keeps x st (st\<lparr>sr_stream := v\<rparr>)"
  by (cases x) simp_all

text \<open>Every event of a stream keeps reads and polls; those of its policy, health and retry keep the rest too.\<close>

fun touches_connection :: "scoped_stream_event \<Rightarrow> bool" where
  "touches_connection ClearStreamBlock = False"
| "touches_connection (ReceiveHealth _) = False"
| "touches_connection ClearHealth = False"
| "touches_connection (ScheduleStartRetry _) = False"
| "touches_connection TakeStartRetry = False"
| "touches_connection ResetStartRetry = False"
| "touches_connection _ = True"

lemma keeps_stream_event:
  "x \<noteq> Streams \<or> \<not> touches_connection e \<Longrightarrow>
     rec_keeps x st (st\<lparr>sr_stream := transitionScopedStreamState (sr_stream st) e\<rparr>)"
  by (cases x; cases e) (auto simp: clearStreamBlock_def receiveStreamHealth_def clear_stream_health_def
      scheduleStartRetry_def takeStartRetry_def resetStartRetry_def split: start_retry.split)

lemma rt_frame_stream_event:
  assumes "vref d sc" and "\<And>t. e \<noteq> ScheduleStartRetry t" and "X \<subseteq> {Reads, Polls} \<or> \<not> touches_connection e"
  shows "rt_frame X {sc} rt (fst (applyStreamEvent rt d sc e))"
proof (cases "runtime_inv rt")
  case True
  have "rt_frame X {sc} rt (modify rt d (Some sc)
      (\<lambda>st. st\<lparr>sr_stream := transitionScopedStreamState (sr_stream st) e\<rparr>))"
    using assms(1)
  proof (rule rt_frame_modify)
    show "rec_le st (st\<lparr>sr_stream := transitionScopedStreamState (sr_stream st) e\<rparr>)" for st
      using assms(2) by (rule stream_event_retry)
    show "rec_keeps x st (st\<lparr>sr_stream := transitionScopedStreamState (sr_stream st) e\<rparr>)" if "x \<in> X" for st x
      using that assms(3) by (intro keeps_stream_event) auto
  qed simp_all
  then show ?thesis using applyStreamEvent_modify [OF True vref_valid [OF assms(1)]] by simp
qed (simp add: rt_frame_def rt_ok_def)

lemma rt_frameI: "(runtime_inv rt \<Longrightarrow> rt_frame X K rt rt') \<Longrightarrow> rt_frame X K rt rt'"
  by (auto simp: rt_frame_def rt_ok_def)

section \<open>The runtime's methods\<close>

lemma rt_frame_activation:
  assumes "vref d sc" and "X \<subseteq> {Reads, Streams}"
  shows "rt_frame X {sc} rt (fst (applyActivationEvent rt d sc e))"
  by (rule rt_frameI)
    (use assms in \<open>auto simp: applyActivationEvent_modify vref_valid intro!: rt_frame_modify\<close>)

lemma rt_frame_disable:
  assumes "vref d sc" and "X \<subseteq> {Reads, Streams}"
  shows "rt_frame X {sc} rt (fst (disableScopedDomain rt d sc))"
  using rt_frame_activation [OF assms, of rt DisableRequested]
  by (cases "applyActivationEvent rt d sc DisableRequested") (simp add: disableScopedDomain_def Let_def)

lemma rt_frame_acquire:
  assumes "vref d sc" and "X \<subseteq> {Reads, Streams}"
  shows "rt_frame X {sc} rt (fst (acquireScopedLease rt d sc q))"
  using rt_frame_activation [OF assms, of rt "LeaseAcquired q"]
  by (cases "applyActivationEvent rt d sc (LeaseAcquired q)") (simp add: acquireScopedLease_def Let_def)

lemma rt_frame_release:
  assumes "vref d sc" and "X \<subseteq> {Reads, Streams}"
  shows "rt_frame X {sc} rt (fst (releaseScopedLease rt d sc q))"
  using rt_frame_activation [OF assms, of rt "LeaseReleased q"]
  by (cases "applyActivationEvent rt d sc (LeaseReleased q)") (simp add: releaseScopedLease_def Let_def)

lemma rt_frame_defer_reset:
  assumes "vref d sc" and "X \<subseteq> {Reads, Streams}"
  shows "rt_frame X {sc} rt (fst (deferResetUntilReleased rt d sc))"
  using rt_frame_activation [OF assms, of rt ResetRequested]
  by (simp add: deferResetUntilReleased_def)

lemma rt_frame_take_poll:
  assumes "vref d sc" and "X \<subseteq> {Reads, Streams}"
  shows "rt_frame X {sc} rt (fst (takePollTimer rt d sc))"
  by (rule rt_frameI)
    (use assms in \<open>auto simp: takePollTimer_modify vref_valid intro!: rt_frame_modify\<close>)

lemma rt_frame_defer:
  assumes "vref (rd_domain w) (rd_scope w)" and "distinct (rd_intents w)"
  shows "rt_frame X {rd_scope w} rt (deferUntilClusterReady rt w)"
  unfolding deferUntilClusterReady_modify using assms(1)
proof (rule rt_frame_modify)
  fix st
  assume "record_ok st" and "sr_domain st = rd_domain w" and "sr_scope st = Some (rd_scope w)"
  then show "owns_requests (st\<lparr>sr_readiness := transitionScopedReadinessState (sr_readiness st) (RequestDeferred w)\<rparr>)"
    using record_ok_owns [of st] assms(2)
    by (cases "sr_readiness st") (simp_all add: owns_requests_def split: scoped_fetch_state.splits)
qed simp_all

lemma rt_frame_recon:
  assumes "vref d sc"
  shows "rt_frame X {sc} rt (markReconciliationFailed rt d sc now)"
    "rt_frame X {sc} rt (markReconciliationPending rt d sc now)"
    "rt_frame X {sc} rt (markReconciled rt d sc)"
proof -
  have put: "rt_frame X {sc} rt (storeScopeState rt ((rec_at rt d sc)\<lparr>sr_reconciliation := v\<rparr>))" for v
    using rt_frame_modify [OF assms, of "\<lambda>st. st\<lparr>sr_reconciliation := v\<rparr>" X rt] by (simp add: modify_def)
  show "rt_frame X {sc} rt (markReconciliationFailed rt d sc now)"
    "rt_frame X {sc} rt (markReconciliationPending rt d sc now)"
    "rt_frame X {sc} rt (markReconciled rt d sc)"
    using put by (simp_all add: markReconciliationFailed_def markReconciliationPending_def markReconciled_def
        Let_def split: reconciliation.split)
qed

lemma rt_frame_permission:
  assumes "vref d sc"
  shows "rt_frame X {sc} rt (applyPermissionEvent rt d sc e)"
  by (rule rt_frameI) (use assms in \<open>auto simp: applyPermissionEvent_modify vref_valid intro!: rt_frame_modify\<close>)

lemma rt_frame_auth: "rt_frame X K rt (fst (applyAuthEvent rt e))"
  by (auto simp: rt_frame_def applyAuthEvent_def Let_def rt_ok_def runtime_inv_def state_values_def
      scopes_of_def getScopeState_def)

text \<open>A signal latches on the read that is under way; a read that starts needs a free record. Any event keeps the
timers.\<close>

lemma owns_fetch_event:
  assumes "record_ok st" and "sr_domain st = d" and "sr_scope st = Some sc"
    and "\<And>w. e = FetchStarted w \<Longrightarrow> rq_domain w = d \<and> rq_scope w = Some sc"
  shows "owns_requests (st\<lparr>sr_fetch := transitionScopedFetchState (sr_fetch st) e\<rparr>)"
  using record_ok_owns [OF assms(1)] assms(2-4)
  by (cases e; cases "sr_fetch st") (simp_all add: owns_requests_def split: scoped_readiness_state.splits)

lemma rt_shape_fetch_event:
  assumes "vref d sc" and "X \<subseteq> {Polls, Streams}"
    and "\<And>w. e = FetchStarted w \<Longrightarrow> rq_domain w = d \<and> rq_scope w = Some sc"
  shows "rt_rel timer_le X {sc} rt (fst (applyFetchEvent rt d (Some sc) e))"
proof (cases "runtime_inv rt")
  case True
  have "rt_rel timer_le X {sc} rt (modify rt d (Some sc) (\<lambda>st. st\<lparr>sr_fetch := transitionScopedFetchState (sr_fetch st) e\<rparr>))"
  proof (rule rt_rel_modify [OF assms(1)])
    show "owns_requests (st\<lparr>sr_fetch := transitionScopedFetchState (sr_fetch st) e\<rparr>)"
      if "record_ok st" "sr_domain st = d" "sr_scope st = Some sc" for st
      using that assms(3) by (rule owns_fetch_event)
  qed (use assms(2) in auto)
  then show ?thesis
    by (auto simp: applyFetchEvent_modify [OF True vref_valid [OF assms(1)]] rt_rel_def)
qed (simp add: rt_rel_def rt_ok_def)

lemma rt_frame_latch:
  assumes "vref d sc" and "X \<subseteq> {Polls, Streams}"
  shows "rt_frame X {sc} rt (latchTrailingStreamSignal rt d (Some sc))"
proof (rule rt_frameI)
  assume inv: "runtime_inv rt"
  have le: "rec_le st (st\<lparr>sr_fetch := transitionScopedFetchState (sr_fetch st) StreamSignalReceived\<rparr>)" for st
    by (cases "sr_fetch st") (auto simp: rec_le_def fetch_kept_def fetch_of_def)
  show "rt_frame X {sc} rt (latchTrailingStreamSignal rt d (Some sc))"
    unfolding latchTrailingStreamSignal_def applyFetchEvent_modify [OF inv vref_valid [OF assms(1)]] fst_conv
  proof (rule rt_frame_modify [OF assms(1)])
    show "owns_requests (st\<lparr>sr_fetch := transitionScopedFetchState (sr_fetch st) StreamSignalReceived\<rparr>)"
      if "record_ok st" "sr_domain st = d" "sr_scope st = Some sc" for st
      using that by (rule owns_fetch_event) simp
  qed (use assms(2) le in auto)
qed

section \<open>Sweeps\<close>

lemma rt_frame_fold:
  assumes "\<And>v rt. v \<in> set vs \<Longrightarrow> rt_frame X K rt (f v rt)"
  shows "rt_frame X K rt (fold f vs rt)"
  using assms by (induction vs arbitrary: rt) (auto intro: rt_frame_trans)

lemma rt_frame_forEach:
  assumes "\<And>t. e \<noteq> ScheduleStartRetry t" and "X \<subseteq> {Reads, Polls} \<or> \<not> touches_connection e"
  shows "rt_frame X {} rt (forEachStreamState rt e)"
proof (cases "rt_ok rt")
  case True
  then have inv: "runtime_inv rt" by (simp add: rt_ok_def)
  have "rt_frame X (scopes_of rt) rt (forEachStreamState rt e)"
    unfolding forEachStreamState_def
  proof (rule rt_frame_fold)
    fix st rt'
    assume st: "st \<in> set (state_values rt)"
    then obtain sc where sc: "sr_scope st = Some sc" "trim sc = sc" using True by (auto simp: rt_ok_def)
    then have "vref (sr_domain st) sc" using state_values_ok(3) [OF inv st] by (simp add: vref_def)
    moreover have "{sc} \<subseteq> scopes_of rt" using st sc by (auto simp: scopes_of_def)
    ultimately show "rt_frame X (scopes_of rt) rt'
        (case sr_scope st of None \<Rightarrow> rt' | Some scope \<Rightarrow> fst (applyStreamEvent rt' (sr_domain st) scope e))"
      using rt_frame_mono [OF rt_frame_stream_event [of "sr_domain st" sc e X rt', OF _ assms] order_refl] sc
      by simp
  qed
  then show ?thesis by (simp add: rt_frame_def)
qed (simp add: rt_frame_def)

lemma rt_frame_collect:
  assumes loc: "local_update f" and init: "\<And>d s. h (initial_scope_state d s) = None"
    and owns: "\<And>st. record_ok st \<Longrightarrow> record_ok (f st)"
    and le: "\<And>st. rec_le st (f st)" and keeps: "\<And>st x. x \<in> X \<Longrightarrow> rec_keeps x st (f st)"
  shows "rt_frame X {} rt (fst (collect_sweep storeScopeState h f (state_values rt) rt))"
    (is "rt_frame X {} rt ?rt")
  unfolding rt_frame_def
proof (intro impI conjI allI)
  assume ok: "rt_ok rt"
  then have inv: "runtime_inv rt" by (simp add: rt_ok_def)
  have vals: "\<exists>v\<in>set (state_values rt). st = v \<or> st = f v" if "st \<in> set (state_values ?rt)" for st
  proof -
    have run: "st \<in> set (state_values (fold (\<lambda>v s. storeScopeState s (f v)) vs rt0)) \<Longrightarrow>
        st \<in> set (state_values rt0) \<or> st \<in> f ` set vs" for vs rt0
      by (induction vs arbitrary: rt0) (auto dest: store_values)
    have "st \<in> set (state_values rt) \<or> st \<in> f ` set (filter (\<lambda>v. h v \<noteq> None) (state_values rt))"
      using that unfolding collect_sweep_eq fst_conv by (rule run)
    then show ?thesis by auto
  qed
  have scope: "sr_scope (f st) = sr_scope st" for st
    using loc by (simp add: local_update_def)
  show "rt_ok ?rt"
    unfolding rt_ok_def
  proof (intro conjI ballI)
    show "runtime_inv ?rt" using inv owns by (intro collect_sweep_inv) (auto simp: state_values_ok)
    fix st
    assume "st \<in> set (state_values ?rt)"
    from vals [OF this] show "\<exists>sc. sr_scope st = Some sc \<and> trim sc = sc"
      using ok scope unfolding rt_ok_def by fastforce
  qed
  show "cr_cluster ?rt = cr_cluster rt"
  proof -
    have "cr_cluster (fold (\<lambda>v s. storeScopeState s (f v)) vs rt0) = cr_cluster rt0" for vs rt0
      by (induction vs arbitrary: rt0) (auto simp: storeScopeState_def Let_def)
    then show ?thesis by (simp add: collect_sweep_eq)
  qed
  show "scopes_of ?rt \<subseteq> scopes_of rt \<union> {}"
    using vals scope unfolding scopes_of_def by fastforce
  fix d sc
  assume ref: "vref d sc"
  note read = collect_sweep_read [OF inv vref_valid [OF ref] loc, where h = h, OF init]
  show "rec_le (rec_at rt d sc) (rec_at ?rt d sc)"
    using le by (simp add: read Let_def)
  show "\<forall>x\<in>X. rec_keeps x (rec_at rt d sc) (rec_at ?rt d sc)"
    using keeps by (simp add: read Let_def)
qed

lemma rt_frame_take_all_polls:
  "X \<subseteq> {Reads, Streams} \<Longrightarrow> rt_frame X {} rt (fst (takeAllPollTimers rt))"
  unfolding takeAllPollTimers_sweep by (rule rt_frame_collect) (auto simp: poll_timer_of_def)

lemma rt_frame_take_deferred: "rt_frame X {} rt (fst (takeDeferredReadinessRequests rt))"
  unfolding takeDeferredReadinessRequests_sweep
  by (rule rt_frame_collect)
    (auto simp: waiting_request_def record_ok_def owns_requests_def split: scoped_fetch_state.split)

lemma rt_frame_permission_epoch: "rt_frame X {} rt (fst (resetPermissionEpoch rt))"
  unfolding resetPermissionEpoch_sweep by (rule rt_frame_collect) (auto simp: permission_recorded_def)

lemma rt_frame_retries:
  "X \<subseteq> UNIV \<Longrightarrow> rt_frame X {} rt (fst (resetAllStreamStartRetries rt))"
  unfolding resetAllStreamStartRetries_fst by (rule rt_frame_forEach) simp_all

lemma rt_shape_delete_domain: "rt_rel timer_le {} {} rt (deleteDomain rt domain)"
  unfolding rt_rel_def
proof (intro impI conjI allI)
  assume ok: "rt_ok rt"
  then have inv: "runtime_inv rt" by (simp add: rt_ok_def)
  have sub: "set (state_values (deleteDomain rt domain)) \<subseteq> set (state_values rt)"
  proof -
    have "set (cr_states (fold (\<lambda>key rt. forget_key rt key) ks rt0)) \<subseteq> set (cr_states rt0)" for ks rt0
    proof (induction ks arbitrary: rt0)
      case (Cons key ks)
      have "set (cr_states (forget_key rt0 key)) \<subseteq> set (cr_states rt0)"
        by (auto simp: forget_key_def dest: in_delete)
      with Cons [of "forget_key rt0 key"] show ?case by simp
    qed simp
    then show ?thesis unfolding deleteDomain_sweep state_values_def by auto
  qed
  show "rt_ok (deleteDomain rt domain)"
    using ok deleteDomain_inv [OF inv] sub by (auto simp: rt_ok_def)
  show "cr_cluster (deleteDomain rt domain) = cr_cluster rt" by (simp add: deleteDomain_def)
  show "scopes_of (deleteDomain rt domain) \<subseteq> scopes_of rt \<union> {}"
    using sub by (auto simp: scopes_of_def)
  fix d sc
  assume ref: "vref d sc"
  then show "timer_le (rec_at rt d sc) (rec_at (deleteDomain rt domain) d sc)"
    by (simp add: deleteDomain_read [OF inv vref_valid [OF ref]] timer_le_def record_timer_def record_retry_def retry_timer_def)
qed simp

lemma rt_shape_reset_all: "rt_rel timer_le {} {} rt (resetAllState rt)"
  by (auto simp: rt_rel_def resetAllState_def rt_ok_def runtime_inv_def state_values_def scopes_of_def
      getScopeState_def timer_le_def record_timer_def record_retry_def retry_timer_def)

end
