(* ===== verification/Orchestrator_Wf.thy ===== *)
theory Orchestrator_Wf
  imports Orchestrator_Frames
begin

text \<open>
  Well-formed states of the refresh orchestrator and the frames of its small operations: looking up a runtime,
  updating one, arming and clearing timers, and the fields no part depends on.
\<close>

declare map_of_eq_Some_iff [simp del] Some_eq_map_of_iff [simp del]

section \<open>Who owns what\<close>

definition scope_cluster :: "string \<Rightarrow> string" where
  "scope_cluster sc = fst (parseClusterScope sc)"

text \<open>The runtime a scope belongs to: the coordinator's when it names no cluster.\<close>

definition owns :: "orch \<Rightarrow> nat \<Rightarrow> string \<Rightarrow> bool" where
  "owns s r sc \<longleftrightarrow> r < length (oc_runtimes s) \<and>
     (if scope_cluster sc = [] then r = 0 else r \<noteq> 0 \<and> cr_cluster (runtime s r) = scope_cluster sc)"

type_synonym scope_ref = "nat \<times> string \<times> string"

definition ref_ok :: "orch \<Rightarrow> scope_ref \<Rightarrow> bool" where
  "ref_ok s ref \<longleftrightarrow> (case ref of (r, d, sc) \<Rightarrow> vref d sc \<and> owns s r sc)"

fun kind_ref :: "timer_kind \<Rightarrow> scope_ref option" where
  "kind_ref (PollTimer r d sc) = Some (r, d, sc)"
| "kind_ref (RetryTimer r d sc) = Some (r, d, sc)"
| "kind_ref (DeadlineTimer _ _ _) = None"

fun is_retry :: "timer_kind \<Rightarrow> bool" where
  "is_retry (RetryTimer _ _ _) = True"
| "is_retry _ = False"

fun is_deadline :: "timer_kind \<Rightarrow> bool" where
  "is_deadline (DeadlineTimer _ _ _) = True"
| "is_deadline _ = False"

fun job_refs :: "fetch_job \<Rightarrow> scope_ref set" where
  "job_refs j = (case fj_stage j of
       StageDecided r \<Rightarrow> {(r, fj_domain j, fj_scope j)}
     | StageJoined r _ \<Rightarrow> {(r, fj_domain j, fj_scope j)}
     | StageExecuting ex \<Rightarrow> {(ex_runtime ex, fj_domain j, ex_scope ex)}
     | _ \<Rightarrow> {})"

definition timer_refs :: "(timer \<times> timer_kind \<times> millis) list \<Rightarrow> scope_ref set" where
  "timer_refs ts = {ref. \<exists>t k dl. (t, k, dl) \<in> set ts \<and> kind_ref k = Some ref}"

definition ready_ref :: "ready_task \<Rightarrow> scope_ref" where
  "ready_ref k = (rk_runtime k, rk_domain k, rk_scope k)"

definition start_ref :: "start_promise \<Rightarrow> scope_ref" where
  "start_ref p = (sp_runtime p, sp_domain p, sp_scope p)"

definition poll_ref :: "poll_run \<Rightarrow> scope_ref" where
  "poll_ref p = (pl_runtime p, pl_domain p, pl_scope p)"

definition refs :: "orch \<Rightarrow> scope_ref set" where
  "refs s = timer_refs (oc_timers s) \<union> ready_ref ` set (oc_ready s) \<union> start_ref ` set (oc_starts s) \<union>
     (\<Union>p\<in>set (oc_starts s). set (sp_stops p)) \<union> poll_ref ` set (oc_polls s) \<union> (\<Union>j\<in>set (oc_jobs s). job_refs j)"

definition runtimes_ok :: "orch \<Rightarrow> bool" where
  "runtimes_ok s \<longleftrightarrow> oc_runtimes s \<noteq> [] \<and>
     (\<forall>r < length (oc_runtimes s). rt_ok (runtime s r) \<and> (\<forall>sc\<in>scopes_of (runtime s r). owns s r sc))"

definition clusters_ok :: "orch \<Rightarrow> bool" where
  "clusters_ok s \<longleftrightarrow> distinct (map fst (oc_clusters s)) \<and>
     (\<forall>(c, r)\<in>set (oc_clusters s). 0 < r \<and> r < length (oc_runtimes s) \<and> cr_cluster (runtime s r) = c)"

text \<open>A timer a record names is of the record's kind and scope, and one a poll waits with is its deadline.\<close>

definition timers_ok :: "orch \<Rightarrow> bool" where
  "timers_ok s \<longleftrightarrow> distinct (map fst (oc_timers s)) \<and> (\<forall>(t, k, dl)\<in>set (oc_timers s). t < oc_next s) \<and>
     (\<forall>p\<in>set (oc_polls s). pl_deadline p < oc_next s \<and>
        (\<forall>k dl. (pl_deadline p, k, dl) \<in> set (oc_timers s) \<longrightarrow> is_deadline k))"

definition armed_as :: "orch \<Rightarrow> timer \<Rightarrow> timer_kind \<Rightarrow> bool" where
  "armed_as s t kind \<longleftrightarrow> t < oc_next s \<and> (\<forall>k dl. (t, k, dl) \<in> set (oc_timers s) \<longrightarrow> k = kind)"

definition record_timers_ok :: "orch \<Rightarrow> bool" where
  "record_timers_ok s \<longleftrightarrow>
     (\<forall>r d sc t. vref d sc \<longrightarrow>
        record_timer (rec_at (runtime s r) d sc) = Some t \<longrightarrow> armed_as s t (PollTimer r d sc)) \<and>
     (\<forall>r d sc t. vref d sc \<longrightarrow>
        record_retry (rec_at (runtime s r) d sc) = Some t \<longrightarrow> armed_as s t (RetryTimer r d sc))"

lemma record_timers_okD:
  assumes "record_timers_ok s" and "vref d sc"
  shows "record_timer (rec_at (runtime s r) d sc) = Some t \<Longrightarrow> armed_as s t (PollTimer r d sc)"
    "record_retry (rec_at (runtime s r) d sc) = Some t \<Longrightarrow> armed_as s t (RetryTimer r d sc)"
  using assms unfolding record_timers_ok_def by simp_all

text \<open>The invariant passes to a state whose records have no new timers and whose timers are among the old ones.\<close>

lemma record_timers_ok_le:
  assumes "record_timers_ok s"
    and "\<And>r d sc. vref d sc \<Longrightarrow> timer_le (rec_at (runtime s r) d sc) (rec_at (runtime s' r) d sc)"
    and "\<And>t k. armed_as s t k \<Longrightarrow> armed_as s' t k"
  shows "record_timers_ok s'"
  unfolding record_timers_ok_def
  using record_timers_okD [OF assms(1)] assms(3) timer_leD [OF assms(2)] by blast

text \<open>The reads whose answer is awaited, with their domain. One that may still commit belongs to a current runtime,
whose record tracks it; requests have different numbers.\<close>

definition executions_of :: "fetch_job list \<Rightarrow> (string \<times> fetch_execution) list" where
  "executions_of js = List.map_filter (\<lambda>j. case fj_stage j of
       StageExecuting ex \<Rightarrow> Some (fj_domain j, ex) | _ \<Rightarrow> None) js"

definition tracked :: "orch \<Rightarrow> string \<Rightarrow> fetch_execution \<Rightarrow> bool" where
  "tracked s d ex \<longleftrightarrow> isRuntimeCurrent s (ex_runtime ex) \<and>
     (\<exists>request. fetch_of (rec_at (runtime s (ex_runtime ex)) d (ex_scope ex)) = Some request \<and>
        rq_id request = ex_request ex \<and> rq_controller request = ex_controller ex)"

definition reads_ok :: "orch \<Rightarrow> bool" where
  "reads_ok s \<longleftrightarrow> distinct (map (ex_request \<circ> snd) (executions_of (oc_jobs s))) \<and>
     (\<forall>(d, ex)\<in>set (executions_of (oc_jobs s)). ex_request ex \<le> oc_request_counter s \<and>
        ex_context ex \<le> oc_context s \<and> (fetchCanCommit s ex \<longrightarrow> tracked s d ex))"

lemma executions_iff:
  "(d, ex) \<in> set (executions_of js) \<longleftrightarrow> (\<exists>j\<in>set js. fj_domain j = d \<and> fj_stage j = StageExecuting ex)"
  by (induction js) (auto simp: executions_of_def split: job_stage.splits)

lemma executions_append: "executions_of (js @ js') = executions_of js @ executions_of js'"
  by (simp add: executions_of_def List.map_filter_def)

lemma executions_cons:
  "executions_of (j # js) = (case fj_stage j of StageExecuting ex \<Rightarrow> [(fj_domain j, ex)] | _ \<Rightarrow> []) @ executions_of js"
  by (simp add: executions_of_def split: job_stage.split)

lemma reads_okD:
  assumes "reads_ok s" and "(d, ex) \<in> set (executions_of (oc_jobs s))"
  shows "ex_request ex \<le> oc_request_counter s" "ex_context ex \<le> oc_context s" "fetchCanCommit s ex \<Longrightarrow> tracked s d ex"
  using assms by (auto simp: reads_ok_def)

lemma can_commit_mono:
  assumes "fetchCanCommit s' ex" and "ex_context ex \<le> oc_context s" and "oc_context s \<le> oc_context s'"
    and "set (oc_aborted s) \<subseteq> set (oc_aborted s')"
  shows "fetchCanCommit s ex"
proof -
  have "is_aborted s c \<Longrightarrow> is_aborted s' c" for c
    using assms(4) by (force simp: is_aborted_def map_of_eq_None_iff)
  then show ?thesis using assms(1-3) by (auto simp: fetchCanCommit_def)
qed

text \<open>Reads may end, be aborted or be overtaken by a new context.\<close>

lemma reads_ok_le:
  assumes ok: "reads_ok s"
    and jobs: "\<And>p. p \<in> set (executions_of (oc_jobs s')) \<Longrightarrow> p \<in> set (executions_of (oc_jobs s))"
      "distinct (map (ex_request \<circ> snd) (executions_of (oc_jobs s')))"
    and mono: "oc_request_counter s \<le> oc_request_counter s'" "oc_context s \<le> oc_context s'"
      "set (oc_aborted s) \<subseteq> set (oc_aborted s')"
    and kept: "\<And>d ex. (d, ex) \<in> set (executions_of (oc_jobs s')) \<Longrightarrow> fetchCanCommit s ex \<Longrightarrow> fetchCanCommit s' ex \<Longrightarrow>
      tracked s d ex \<Longrightarrow> tracked s' d ex"
  shows "reads_ok s'"
  unfolding reads_ok_def
proof (intro conjI ballI, rule jobs(2))
  fix p
  assume p: "p \<in> set (executions_of (oc_jobs s'))"
  obtain d ex where eq: "p = (d, ex)" by (cases p)
  note old = reads_okD [OF ok jobs(1) [OF p [unfolded eq]]]
  have "tracked s' d ex" if "fetchCanCommit s' ex"
    using kept [OF p [unfolded eq] _ that] old(3) can_commit_mono [OF that old(2) mono(2,3)] by blast
  then show "case p of (d, ex) \<Rightarrow> ex_request ex \<le> oc_request_counter s' \<and> ex_context ex \<le> oc_context s' \<and>
      (fetchCanCommit s' ex \<longrightarrow> tracked s' d ex)"
    using old(1,2) mono(1,2) by (simp add: eq)
qed

definition orch_wf :: "orch \<Rightarrow> bool" where
  "orch_wf s \<longleftrightarrow> runtimes_ok s \<and> clusters_ok s \<and> timers_ok s \<and> record_timers_ok s \<and> reads_ok s \<and>
     (\<forall>ref\<in>refs s. ref_ok s ref) \<and> (\<forall>d\<in>fst ` set (oc_configs s). CHR '':'' \<notin> set d)"

lemma wf_record_timers:
  assumes "orch_wf s" and "vref d sc"
  shows "record_timer (rec_at (runtime s r) d sc) = Some t \<Longrightarrow> armed_as s t (PollTimer r d sc)"
    "record_retry (rec_at (runtime s r) d sc) = Some t \<Longrightarrow> armed_as s t (RetryTimer r d sc)"
  using record_timers_okD [OF _ assms(2)] assms(1) by (simp_all add: orch_wf_def)

section \<open>Frames\<close>

definition poll_core :: "poll_run \<Rightarrow> nat \<times> scope_ref \<times> timer" where
  "poll_core p = (pl_id p, poll_ref p, pl_deadline p)"

definition recs_keep :: "part \<Rightarrow> orch \<Rightarrow> orch \<Rightarrow> bool" where
  "recs_keep x s s' \<longleftrightarrow>
     (\<forall>r d sc. vref d sc \<longrightarrow> rec_keeps x (rec_at (runtime s r) d sc) (rec_at (runtime s' r) d sc))"

definition other_timers :: "orch \<Rightarrow> (timer \<times> timer_kind \<times> millis) set" where
  "other_timers s = {e \<in> set (oc_timers s). \<not> is_retry (fst (snd e))}"

definition retry_timers :: "orch \<Rightarrow> (timer \<times> timer_kind \<times> millis) set" where
  "retry_timers s = {e \<in> set (oc_timers s). is_retry (fst (snd e))}"

fun lists_keep :: "part \<Rightarrow> orch \<Rightarrow> orch \<Rightarrow> bool" where
  "lists_keep Reads s s' \<longleftrightarrow>
     oc_jobs s' = oc_jobs s \<and> st_pending (oc_store s') = st_pending (oc_store s) \<and>
     oc_completed s' = oc_completed s \<and> oc_request_counter s' = oc_request_counter s \<and>
     oc_aborted s' = oc_aborted s \<and> oc_polls s' = oc_polls s \<and> oc_batches s' = oc_batches s \<and>
     oc_requests s' = oc_requests s"
| "lists_keep Polls s s' \<longleftrightarrow>
     map poll_core (oc_polls s') = map poll_core (oc_polls s) \<and> other_timers s' = other_timers s \<and>
     oc_auto_refresh s' = oc_auto_refresh s \<and> oc_hidden s' = oc_hidden s"
| "lists_keep Streams s s' \<longleftrightarrow>
     oc_ready s' = oc_ready s \<and> oc_starts s' = oc_starts s \<and> retry_timers s' = retry_timers s"

definition keeps :: "part \<Rightarrow> orch \<Rightarrow> orch \<Rightarrow> bool" where
  "keeps x s s' \<longleftrightarrow> recs_keep x s s' \<and> lists_keep x s s'"

text \<open>What every piece of code but the pruning of a closed cluster keeps.\<close>

definition grows :: "orch \<Rightarrow> orch \<Rightarrow> bool" where
  "grows s s' \<longleftrightarrow> oc_next s \<le> oc_next s' \<and> length (oc_runtimes s) \<le> length (oc_runtimes s') \<and>
     oc_configs s' = oc_configs s \<and>
     (\<forall>r < length (oc_runtimes s). cr_cluster (runtime s' r) = cr_cluster (runtime s r) \<and>
        isRuntimeCurrent s' r = isRuntimeCurrent s r)"

definition st_frame :: "part set \<Rightarrow> orch \<Rightarrow> orch \<Rightarrow> bool" where
  "st_frame X s s' \<longleftrightarrow> (orch_wf s \<longrightarrow> orch_wf s' \<and> grows s s' \<and> (\<forall>x\<in>X. keeps x s s'))"

lemma keeps_refl [simp]: "keeps x s s"
  by (cases x) (simp_all add: keeps_def recs_keep_def)

lemma keeps_trans: "keeps x a b \<Longrightarrow> keeps x b c \<Longrightarrow> keeps x a c"
  unfolding keeps_def recs_keep_def by (cases x) (auto intro: rec_keeps_trans)

lemma grows_refl [simp]: "grows s s"
  by (simp add: grows_def)

lemma grows_trans: "grows a b \<Longrightarrow> grows b c \<Longrightarrow> grows a c"
  by (simp add: grows_def)

lemma owns_grows: "grows s s' \<Longrightarrow> owns s r sc \<Longrightarrow> owns s' r sc"
  by (auto simp: owns_def grows_def)

lemma ref_ok_grows: "grows s s' \<Longrightarrow> ref_ok s ref \<Longrightarrow> ref_ok s' ref"
  by (auto simp: ref_ok_def owns_grows)

lemma st_frame_refl [simp]: "st_frame X s s"
  by (simp add: st_frame_def)

lemma st_frame_trans: "st_frame X a b \<Longrightarrow> st_frame X b c \<Longrightarrow> st_frame X a c"
  unfolding st_frame_def by (meson grows_trans keeps_trans)

lemma st_frame_mono: "st_frame X a b \<Longrightarrow> Y \<subseteq> X \<Longrightarrow> st_frame Y a b"
  unfolding st_frame_def by blast

lemma st_frameI: "(orch_wf s \<Longrightarrow> st_frame X s s') \<Longrightarrow> st_frame X s s'"
  by (simp add: st_frame_def)

text \<open>A frame extends by a step that is one where the state it starts from is well-formed and has grown.\<close>

lemma st_frame_step:
  assumes "st_frame X a b" and "orch_wf b \<Longrightarrow> grows a b \<Longrightarrow> st_frame X b c"
  shows "st_frame X a c"
  using assms unfolding st_frame_def by (meson grows_trans keeps_trans)

lemma st_frame_fold:
  assumes "\<And>v s'. v \<in> set vs \<Longrightarrow> orch_wf s' \<Longrightarrow> grows s s' \<Longrightarrow> st_frame X s' (f v s')"
  shows "st_frame X s (fold f vs s)"
  using assms
proof (induction vs arbitrary: s)
  case (Cons v vs)
  show ?case
    unfolding fold_simps
  proof (rule st_frameI, rule st_frame_step)
    assume wf: "orch_wf s"
    show head: "st_frame X s (f v s)" using Cons.prems wf by simp
    assume "orch_wf (f v s)" and grow: "grows s (f v s)"
    show "st_frame X (f v s) (fold f vs (f v s))"
      by (rule Cons.IH) (use Cons.prems grow grows_trans in auto)
  qed
qed simp

lemma runtime_wf: "orch_wf s \<Longrightarrow> rt_ok (runtime s r)"
  by (cases "r < length (oc_runtimes s)") (simp_all add: orch_wf_def runtimes_ok_def runtime_def)

lemma runtime_inv_wf: "orch_wf s \<Longrightarrow> runtime_inv (runtime s r)"
  using runtime_wf [of s r] by (simp add: rt_ok_def)

lemma owns_runtime: "owns s r sc \<Longrightarrow> r < length (oc_runtimes s)"
  by (simp add: owns_def)

section \<open>Updating a runtime\<close>

lemma runtime_set [simp]:
  "runtime (set_runtime s r rt) r' = (if r' = r \<and> r < length (oc_runtimes s) then rt else runtime s r')"
  by (simp add: runtime_def set_runtime_def nth_list_update)

lemma set_runtime_fields [simp]:
  "oc_timers (set_runtime s r rt) = oc_timers s" "oc_ready (set_runtime s r rt) = oc_ready s"
  "oc_starts (set_runtime s r rt) = oc_starts s" "oc_polls (set_runtime s r rt) = oc_polls s"
  "oc_jobs (set_runtime s r rt) = oc_jobs s" "oc_next (set_runtime s r rt) = oc_next s"
  "oc_clusters (set_runtime s r rt) = oc_clusters s" "oc_configs (set_runtime s r rt) = oc_configs s"
  "oc_store (set_runtime s r rt) = oc_store s" "oc_completed (set_runtime s r rt) = oc_completed s"
  "oc_request_counter (set_runtime s r rt) = oc_request_counter s" "oc_aborted (set_runtime s r rt) = oc_aborted s"
  "oc_batches (set_runtime s r rt) = oc_batches s" "oc_requests (set_runtime s r rt) = oc_requests s"
  "oc_auto_refresh (set_runtime s r rt) = oc_auto_refresh s" "oc_hidden (set_runtime s r rt) = oc_hidden s"
  "oc_context (set_runtime s r rt) = oc_context s" "oc_listeners (set_runtime s r rt) = oc_listeners s"
  "oc_notifier (set_runtime s r rt) = oc_notifier s" "oc_metrics (set_runtime s r rt) = oc_metrics s"
  "oc_calls (set_runtime s r rt) = oc_calls s" "oc_events (set_runtime s r rt) = oc_events s"
  "length (oc_runtimes (set_runtime s r rt)) = length (oc_runtimes s)"
  by (simp_all add: set_runtime_def)

lemma set_runtime_current:
  "cr_cluster rt = cr_cluster (runtime s r) \<Longrightarrow> isRuntimeCurrent (set_runtime s r rt) r' = isRuntimeCurrent s r'"
  by (simp add: isRuntimeCurrent_def)

lemma refs_set_runtime [simp]: "refs (set_runtime s r rt) = refs s"
  by (simp add: refs_def)

lemma frame_set_runtime_armed:
  assumes shape: "rt_ok (runtime s r) \<Longrightarrow> rt_ok rt \<and> cr_cluster rt = cr_cluster (runtime s r) \<and>
      scopes_of rt \<subseteq> scopes_of (runtime s r) \<union> K"
    and part: "\<And>d sc x. rt_ok (runtime s r) \<Longrightarrow> vref d sc \<Longrightarrow> x \<in> X \<Longrightarrow>
      rec_keeps x (rec_at (runtime s r) d sc) (rec_at rt d sc)"
    and polls: "\<And>d sc t. orch_wf s \<Longrightarrow> vref d sc \<Longrightarrow> record_timer (rec_at rt d sc) = Some t \<Longrightarrow>
      armed_as s t (PollTimer r d sc)"
    and retries: "\<And>d sc t. orch_wf s \<Longrightarrow> vref d sc \<Longrightarrow> record_retry (rec_at rt d sc) = Some t \<Longrightarrow>
      armed_as s t (RetryTimer r d sc)"
    and own: "\<And>sc. sc \<in> K \<Longrightarrow> owns s r sc"
    and reads: "\<And>d ex. orch_wf s \<Longrightarrow> (d, ex) \<in> set (executions_of (oc_jobs s)) \<Longrightarrow> ex_runtime ex = r \<Longrightarrow>
      vref d (ex_scope ex) \<Longrightarrow> fetchCanCommit s ex \<Longrightarrow> tracked s d ex \<Longrightarrow>
      fetch_of (rec_at rt d (ex_scope ex)) = fetch_of (rec_at (runtime s r) d (ex_scope ex))"
  shows "st_frame X s (set_runtime s r rt)"
  unfolding st_frame_def
proof (intro impI conjI ballI)
  assume wf: "orch_wf s"
  then have ok: "rt_ok (runtime s r)" by (rule runtime_wf)
  with shape have rt: "rt_ok rt" "cr_cluster rt = cr_cluster (runtime s r)" "scopes_of rt \<subseteq> scopes_of (runtime s r) \<union> K"
    by blast+
  let ?s = "set_runtime s r rt"
  show grow: "grows s ?s" using rt(2) by (simp add: grows_def set_runtime_current)
  have owns: "owns ?s r' sc = owns s r' sc" for r' sc
    using rt(2) by (simp add: owns_def)
  have "runtimes_ok ?s"
    unfolding runtimes_ok_def
  proof (intro conjI allI impI ballI)
    show "oc_runtimes ?s \<noteq> []" using wf by (auto simp: orch_wf_def runtimes_ok_def set_runtime_def)
    fix r'
    assume r': "r' < length (oc_runtimes ?s)"
    have old: "rt_ok (runtime s r')" "\<And>sc. sc \<in> scopes_of (runtime s r') \<Longrightarrow> owns s r' sc"
      using wf r' by (auto simp: orch_wf_def runtimes_ok_def)
    show "rt_ok (runtime ?s r')" using old rt(1) by simp
    fix sc
    assume "sc \<in> scopes_of (runtime ?s r')"
    then have "sc \<in> scopes_of (runtime s r') \<or> r' = r \<and> sc \<in> K"
      using rt(3) by (auto split: if_splits)
    then show "owns ?s r' sc" using old(2) own by (auto simp: owns)
  qed
  moreover have "clusters_ok ?s" using wf rt(2) by (auto simp: orch_wf_def clusters_ok_def)
  moreover have "record_timers_ok ?s"
    using wf_record_timers [OF wf] polls [OF wf] retries [OF wf]
    by (simp add: record_timers_ok_def armed_as_def)
  moreover have "\<forall>ref\<in>refs ?s. ref_ok ?s ref"
    using wf by (simp add: orch_wf_def ref_ok_def owns)
  moreover have "reads_ok ?s"
  proof (rule reads_ok_le)
    show "reads_ok s" using wf by (simp add: orch_wf_def)
    then show "distinct (map (ex_request \<circ> snd) (executions_of (oc_jobs ?s)))" by (simp add: reads_ok_def)
    fix d ex
    assume mem: "(d, ex) \<in> set (executions_of (oc_jobs ?s))" and can: "fetchCanCommit s ex" and old: "tracked s d ex"
    then obtain j where "j \<in> set (oc_jobs s)" "fj_domain j = d" "fj_stage j = StageExecuting ex"
      by (auto simp: executions_iff)
    then have "(ex_runtime ex, d, ex_scope ex) \<in> refs s" by (force simp: refs_def)
    then have ref: "vref d (ex_scope ex)" using wf by (auto simp: orch_wf_def ref_ok_def)
    have mem': "(d, ex) \<in> set (executions_of (oc_jobs s))" using mem by simp
    have "fetch_of (rec_at (runtime ?s (ex_runtime ex)) d (ex_scope ex)) = fetch_of (rec_at (runtime s (ex_runtime ex)) d (ex_scope ex))"
      using reads [OF wf mem' _ ref can old] by auto
    then show "tracked ?s d ex" using old unfolding tracked_def set_runtime_current [OF rt(2)] by simp
  qed simp_all
  ultimately show "orch_wf ?s" using wf by (simp add: orch_wf_def timers_ok_def)
  fix x
  assume "x \<in> X"
  then have "recs_keep x s ?s" using part [OF ok] by (simp add: recs_keep_def)
  moreover have "lists_keep x s ?s" by (cases x) (simp_all add: other_timers_def retry_timers_def)
  ultimately show "keeps x s ?s" by (simp add: keeps_def)
qed

lemma frame_set_runtime_shape:
  assumes frame: "rt_rel timer_le X K (runtime s r) rt" and own: "\<And>sc. sc \<in> K \<Longrightarrow> owns s r sc"
    and reads: "\<And>d ex. orch_wf s \<Longrightarrow> (d, ex) \<in> set (executions_of (oc_jobs s)) \<Longrightarrow> ex_runtime ex = r \<Longrightarrow>
      vref d (ex_scope ex) \<Longrightarrow> fetchCanCommit s ex \<Longrightarrow> tracked s d ex \<Longrightarrow>
      fetch_of (rec_at rt d (ex_scope ex)) = fetch_of (rec_at (runtime s r) d (ex_scope ex))"
  shows "st_frame X s (set_runtime s r rt)"
proof (rule frame_set_runtime_armed [where K = K])
  fix d sc t
  assume wf: "orch_wf s" and ref: "vref d sc"
  have le: "timer_le (rec_at (runtime s r) d sc) (rec_at rt d sc)"
    using frame runtime_wf [OF wf, of r] ref by (simp add: rt_rel_def)
  show "record_timer (rec_at rt d sc) = Some t \<Longrightarrow> armed_as s t (PollTimer r d sc)"
    "record_retry (rec_at rt d sc) = Some t \<Longrightarrow> armed_as s t (RetryTimer r d sc)"
    using timer_leD [OF le] wf_record_timers [OF wf ref] by simp_all
qed (use frame own reads in \<open>auto simp: rt_rel_def\<close>)

lemma frame_set_runtime:
  assumes frame: "rt_frame X K (runtime s r) rt" and own: "\<And>sc. sc \<in> K \<Longrightarrow> owns s r sc"
  shows "st_frame X s (set_runtime s r rt)"
proof (rule frame_set_runtime_shape [OF rt_frame_shape [OF frame] own])
  fix d ex
  assume wf: "orch_wf s" and r: "ex_runtime ex = r" and ref: "vref d (ex_scope ex)" and old: "tracked s d ex"
  have "fetch_kept (rec_at (runtime s r) d (ex_scope ex)) (rec_at rt d (ex_scope ex))"
    using frame runtime_wf [OF wf, of r] ref by (simp add: rt_frame_def rec_le_def)
  with old r show "fetch_of (rec_at rt d (ex_scope ex)) = fetch_of (rec_at (runtime s r) d (ex_scope ex))"
    by (auto simp: tracked_def fetch_kept_def)
qed

text \<open>A record is given a timer that is armed for it.\<close>

lemma frame_set_retry:
  assumes ref: "vref d sc" and own: "owns s r sc" and armed: "armed_as s t (RetryTimer r d sc)"
    and X: "X \<subseteq> {Reads, Polls}"
  shows "st_frame X s (upd_runtime s r (\<lambda>rt. setStreamStartRetry rt d sc t))"
  unfolding upd_runtime_def
proof (rule st_frameI, rule frame_set_runtime_armed [where K = "{sc}"])
  let ?f = "\<lambda>st. st\<lparr>sr_stream := scheduleStartRetry (sr_stream st) t\<rparr>" and ?rt = "runtime s r"
  assume wf: "orch_wf s"
  then have inv: "runtime_inv ?rt" and ok: "rt_ok ?rt" using runtime_wf [OF wf, of r] by (simp_all add: rt_ok_def)
  have put: "setStreamStartRetry ?rt d sc t = modify ?rt d (Some sc) ?f"
    by (simp add: setStreamStartRetry_def applyStreamEvent_modify [OF inv vref_valid [OF ref]])
  note read = getScopeState_modify [OF inv vref_valid [OF ref], where f = ?f]
  have scope: "sr_scope (?f (rec_at ?rt d sc)) = Some sc" using getScopeState_ref [OF inv vref_valid [OF ref]] by simp
  have "runtime_inv (modify ?rt d (Some sc) ?f)" by (rule modify_inv [OF inv vref_valid [OF ref]]) simp_all
  then show "rt_ok (setStreamStartRetry ?rt d sc t) \<and> cr_cluster (setStreamStartRetry ?rt d sc t) = cr_cluster ?rt \<and>
      scopes_of (setStreamStartRetry ?rt d sc t) \<subseteq> scopes_of ?rt \<union> {sc}"
    unfolding put using ok scope vref_trim [OF ref]
    by (auto simp: rt_ok_def scopes_of_def modify_def dest!: store_values) (simp add: storeScopeState_def Let_def)
  fix d' sc'
  assume ref': "vref d' sc'"
  show "x \<in> X \<Longrightarrow> rec_keeps x (rec_at ?rt d' sc') (rec_at (setStreamStartRetry ?rt d sc t) d' sc')" for x
    using X unfolding put read [OF vref_valid [OF ref'] local_update_fields(7)] by auto
  fix t'
  show "record_timer (rec_at (setStreamStartRetry ?rt d sc t) d' sc') = Some t' \<Longrightarrow> armed_as s t' (PollTimer r d' sc')"
    using wf_record_timers(1) [OF wf ref'] unfolding put read [OF vref_valid [OF ref'] local_update_fields(7)]
    by (auto simp: record_timer_def after_store_fields split: if_splits)
  show "record_retry (rec_at (setStreamStartRetry ?rt d sc t) d' sc') = Some t' \<Longrightarrow> armed_as s t' (RetryTimer r d' sc')"
    using wf_record_timers(2) [OF wf ref'] armed after_store_retry [of "?f (rec_at ?rt d sc)"]
    unfolding put read [OF vref_valid [OF ref'] local_update_fields(7)]
    by (auto simp: record_retry_def scheduleStartRetry_def retry_timer_def split: if_splits)
next
  fix d' ex
  assume "orch_wf s" and ref': "vref d' (ex_scope ex)"
  then have inv: "runtime_inv (runtime s r)" using runtime_wf [of s r] by (simp add: rt_ok_def)
  show "fetch_of (rec_at (setStreamStartRetry (runtime s r) d sc t) d' (ex_scope ex)) = fetch_of (rec_at (runtime s r) d' (ex_scope ex))"
    using getScopeState_modify [OF inv vref_valid [OF ref] vref_valid [OF ref'] local_update_fields(7),
        of "\<lambda>st. scheduleStartRetry (sr_stream st) t"]
    by (auto simp: setStreamStartRetry_def applyStreamEvent_modify [OF inv vref_valid [OF ref]] fetch_of_def after_store_fields)
qed (use own in auto)

lemma frame_set_poll:
  assumes ref: "vref d sc" and own: "owns s r sc" and armed: "armed_as s t (PollTimer r d sc)"
    and X: "X \<subseteq> {Reads, Streams}"
  shows "st_frame X s (upd_runtime s r (\<lambda>rt. setPollTimer rt d sc t))"
  unfolding upd_runtime_def
proof (rule st_frameI, rule frame_set_runtime_armed [where K = "{sc}"])
  let ?f = "\<lambda>st. st\<lparr>sr_polling := PollScheduled t\<rparr>" and ?rt = "runtime s r"
  assume wf: "orch_wf s"
  then have inv: "runtime_inv ?rt" and ok: "rt_ok ?rt" using runtime_wf [OF wf, of r] by (simp_all add: rt_ok_def)
  note put = setPollTimer_modify
  note read = getScopeState_modify [OF inv vref_valid [OF ref], where f = ?f]
  have scope: "sr_scope (?f (rec_at ?rt d sc)) = Some sc" using getScopeState_ref [OF inv vref_valid [OF ref]] by simp
  have "runtime_inv (modify ?rt d (Some sc) ?f)" by (rule modify_inv [OF inv vref_valid [OF ref]]) simp_all
  then show "rt_ok (setPollTimer ?rt d sc t) \<and> cr_cluster (setPollTimer ?rt d sc t) = cr_cluster ?rt \<and>
      scopes_of (setPollTimer ?rt d sc t) \<subseteq> scopes_of ?rt \<union> {sc}"
    unfolding put using ok scope vref_trim [OF ref]
    by (auto simp: rt_ok_def scopes_of_def modify_def dest!: store_values) (simp add: storeScopeState_def Let_def)
  fix d' sc'
  assume ref': "vref d' sc'"
  show "x \<in> X \<Longrightarrow> rec_keeps x (rec_at ?rt d' sc') (rec_at (setPollTimer ?rt d sc t) d' sc')" for x
    using X unfolding put read [OF vref_valid [OF ref'] local_update_fields(3)] by auto
  fix t'
  show "record_timer (rec_at (setPollTimer ?rt d sc t) d' sc') = Some t' \<Longrightarrow> armed_as s t' (PollTimer r d' sc')"
    using wf_record_timers(1) [OF wf ref'] armed unfolding put read [OF vref_valid [OF ref'] local_update_fields(3)]
    by (auto simp: record_timer_def after_store_fields split: if_splits)
  show "record_retry (rec_at (setPollTimer ?rt d sc t) d' sc') = Some t' \<Longrightarrow> armed_as s t' (RetryTimer r d' sc')"
    using wf_record_timers(2) [OF wf ref'] after_store_retry [of "?f (rec_at ?rt d sc)"]
    unfolding put read [OF vref_valid [OF ref'] local_update_fields(3)]
    by (auto simp: record_retry_def split: if_splits)
next
  fix d' ex
  assume "orch_wf s" and ref': "vref d' (ex_scope ex)"
  then have inv: "runtime_inv (runtime s r)" using runtime_wf [of s r] by (simp add: rt_ok_def)
  show "fetch_of (rec_at (setPollTimer (runtime s r) d sc t) d' (ex_scope ex)) = fetch_of (rec_at (runtime s r) d' (ex_scope ex))"
    using getScopeState_modify [OF inv vref_valid [OF ref] vref_valid [OF ref'] local_update_fields(3),
        of "\<lambda>st. PollScheduled t"]
    by (auto simp: setPollTimer_modify fetch_of_def after_store_fields)
qed (use own in auto)

lemma frame_upd_runtime:
  "rt_frame X K (runtime s r) (f (runtime s r)) \<Longrightarrow> (\<And>sc. sc \<in> K \<Longrightarrow> owns s r sc) \<Longrightarrow>
     st_frame X s (upd_runtime s r f)"
  by (simp add: upd_runtime_def frame_set_runtime)

lemma frame_run_runtime:
  "rt_frame X K (runtime s r) (fst (f (runtime s r))) \<Longrightarrow> (\<And>sc. sc \<in> K \<Longrightarrow> owns s r sc) \<Longrightarrow>
     st_frame X s (fst (run_runtime s r f))"
  by (cases "f (runtime s r)") (simp add: run_runtime_def frame_set_runtime)

section \<open>Fields no part depends on\<close>

definition same_core :: "orch \<Rightarrow> orch \<Rightarrow> bool" where
  "same_core s s' \<longleftrightarrow>
     oc_runtimes s' = oc_runtimes s \<and> oc_clusters s' = oc_clusters s \<and> oc_next s \<le> oc_next s' \<and>
     oc_timers s' = oc_timers s \<and> oc_ready s' = oc_ready s \<and> oc_starts s' = oc_starts s \<and>
     oc_polls s' = oc_polls s \<and> oc_jobs s' = oc_jobs s \<and> oc_configs s' = oc_configs s \<and>
     oc_request_counter s' = oc_request_counter s \<and> oc_aborted s' = oc_aborted s \<and>
     oc_completed s' = oc_completed s \<and> oc_batches s' = oc_batches s \<and> oc_requests s' = oc_requests s \<and>
     oc_auto_refresh s' = oc_auto_refresh s \<and> oc_hidden s' = oc_hidden s \<and> oc_context s \<le> oc_context s' \<and>
     st_pending (oc_store s') = st_pending (oc_store s)"

lemma runtime_cong: "oc_runtimes s' = oc_runtimes s \<Longrightarrow> runtime s' = runtime s"
  by (simp add: fun_eq_iff runtime_def)

lemma current_cong:
  "oc_runtimes s' = oc_runtimes s \<Longrightarrow> oc_clusters s' = oc_clusters s \<Longrightarrow> isRuntimeCurrent s' = isRuntimeCurrent s"
  using runtime_cong [of s' s] by (simp add: fun_eq_iff isRuntimeCurrent_def)

lemma owns_cong: "oc_runtimes s' = oc_runtimes s \<Longrightarrow> owns s' = owns s"
  using runtime_cong [of s' s] by (simp add: fun_eq_iff owns_def)

text \<open>Code that leaves runtimes and reads alone.\<close>

lemma reads_ok_same:
  assumes "reads_ok s" and "oc_runtimes s' = oc_runtimes s" and "oc_clusters s' = oc_clusters s"
    and "executions_of (oc_jobs s') = executions_of (oc_jobs s)" and "oc_request_counter s \<le> oc_request_counter s'"
    and "oc_context s \<le> oc_context s'" and "set (oc_aborted s) \<subseteq> set (oc_aborted s')"
  shows "reads_ok s'"
proof (rule reads_ok_le [OF assms(1)])
  have "runtime s' = runtime s" "isRuntimeCurrent s' = isRuntimeCurrent s"
    using runtime_cong [OF assms(2)] current_cong [OF assms(2,3)] .
  then show "tracked s d ex \<Longrightarrow> tracked s' d ex" for d ex by (simp add: tracked_def)
qed (use assms in \<open>simp_all add: reads_ok_def\<close>)

lemma armed_as_mono:
  "oc_next s \<le> oc_next s' \<Longrightarrow> set (oc_timers s') \<subseteq> set (oc_timers s) \<Longrightarrow> armed_as s t k \<Longrightarrow> armed_as s' t k"
  by (auto simp: armed_as_def)

lemma frame_neutral:
  assumes core: "same_core s s'"
  shows "st_frame X s s'"
  unfolding st_frame_def
proof (intro impI conjI ballI)
  assume wf: "orch_wf s"
  have rt: "runtime s' = runtime s" and own: "owns s' = owns s" and cur: "isRuntimeCurrent s' = isRuntimeCurrent s"
    using core runtime_cong [of s' s] owns_cong [of s' s] current_cong [of s' s] by (simp_all add: same_core_def)
  have later: "t < oc_next s \<Longrightarrow> t < oc_next s'" for t using core by (simp add: same_core_def)
  have "runtimes_ok s'" "clusters_ok s'" "timers_ok s'"
    using wf core rt own by (auto simp: orch_wf_def runtimes_ok_def clusters_ok_def timers_ok_def same_core_def
        intro!: later)
  moreover have "record_timers_ok s'"
  proof (rule record_timers_ok_le)
    show "record_timers_ok s" using wf by (simp add: orch_wf_def)
    show "armed_as s t k \<Longrightarrow> armed_as s' t k" for t k
      using core later by (simp add: same_core_def armed_as_def)
  qed (simp add: rt)
  moreover have "reads_ok s'"
  proof (rule reads_ok_same)
    show "reads_ok s" using wf by (simp add: orch_wf_def)
  qed (use core in \<open>simp_all add: same_core_def\<close>)
  moreover have "refs s' = refs s" using core by (simp add: refs_def same_core_def)
  ultimately show "orch_wf s'"
    using wf core own by (simp add: orch_wf_def ref_ok_def same_core_def)
  show "grows s s'" using core rt cur by (simp add: grows_def same_core_def)
  show "keeps x s s'" for x
    using core by (cases x) (simp_all add: keeps_def recs_keep_def rt same_core_def other_timers_def retry_timers_def)
qed

lemma pending_store_ops [simp]:
  "st_pending (publishScopedDomainStates st d m) = st_pending st"
  "st_pending (setScopedDomainState st d sc u) = st_pending st"
  "st_pending (resetScopedDomainState st d sc) = st_pending st"
  "st_pending (resetAllScopedDomainStates st d) = st_pending st"
proof -
  show pub: "st_pending (publishScopedDomainStates st d m) = st_pending st" for st :: "'a refresh_store" and d m
    by (simp add: publishScopedDomainStates_def publishState_def)
  show "st_pending (setScopedDomainState st d sc u) = st_pending st"
    "st_pending (resetScopedDomainState st d sc) = st_pending st"
    "st_pending (resetAllScopedDomainStates st d) = st_pending st"
    by (simp_all add: setScopedDomainState_def resetScopedDomainState_def resetAllScopedDomainStates_def Let_def pub
        split: option.split)
qed

lemma pending_denied_reset [simp]:
  "st_pending (resetPermissionDeniedScopedDomainStates st c) = st_pending st"
proof -
  have "st_pending (fold (\<lambda>(d, sc) st. resetScopedDomainState st d sc) xs st0) = st_pending st0" for xs and st0 :: "'a refresh_store"
    by (induction xs arbitrary: st0) auto
  then show ?thesis by (simp add: resetPermissionDeniedScopedDomainStates_def)
qed

lemma core_refl: "same_core s s"
  by (simp add: same_core_def)

lemma core_ops:
  "same_core s (upd_scope s d sc u)" "same_core s (reset_scope s d sc)" "same_core s (resetDomain s d)"
  "same_core s (with_notifier s g)" "same_core s (emit_event s ev)" "same_core s (stream_call s c)"
  "same_core s (with_metrics s m)" "same_core s (update_metrics s)" "same_core s (incrementContextVersion s)"
  "same_core s (clearRefreshError s d sc)" "same_core s (remove_listener s l)" "same_core s (fst (fresh s))"
  by (simp_all add: same_core_def upd_scope_def reset_scope_def resetDomain_def with_notifier_def emit_event_def
      stream_call_def with_metrics_def update_metrics_def incrementContextVersion_def clearRefreshError_def
      remove_listener_def fresh_def split: option.split)

lemmas frame_ops = core_ops [THEN frame_neutral]

section \<open>Looking up runtimes\<close>

lemma scope_cluster_trim [simp]: "trim (scope_cluster sc) = scope_cluster sc"
  by (simp add: scope_cluster_def parseClusterScope_def Let_def split: option.split)

lemma update_absent: "map_of m k = None \<Longrightarrow> AList.update k v m = m @ [(k, v)]"
  by (induction m) (auto split: if_splits)

lemma cluster_runtime_new:
  assumes wf: "orch_wf s" and none: "map_of (oc_clusters s) c = None"
  defines "s' \<equiv> s\<lparr>oc_runtimes := oc_runtimes s @ [new_runtime c],
      oc_clusters := AList.update c (length (oc_runtimes s)) (oc_clusters s)\<rparr>"
  shows "orch_wf s'" and "grows s s'" and "keeps x s s'"
    and "runtime s' (length (oc_runtimes s)) = new_runtime c" and "map_of (oc_clusters s') c = Some (length (oc_runtimes s))"
proof -
  let ?n = "length (oc_runtimes s)"
  have ne: "oc_runtimes s \<noteq> []" using wf by (simp add: orch_wf_def runtimes_ok_def)
  have rt: "runtime s' r = (if r = ?n then new_runtime c else runtime s r)" for r
    by (auto simp: s'_def runtime_def nth_append)
  have cl: "oc_clusters s' = oc_clusters s @ [(c, ?n)]"
    using none unfolding s'_def by (simp add: update_absent)
  have fields: "oc_timers s' = oc_timers s" "oc_ready s' = oc_ready s" "oc_starts s' = oc_starts s"
    "oc_polls s' = oc_polls s" "oc_jobs s' = oc_jobs s" "oc_next s' = oc_next s" "oc_configs s' = oc_configs s"
    "length (oc_runtimes s') = Suc ?n" "oc_runtimes s' \<noteq> []"
    by (simp_all add: s'_def)
  have own: "owns s r sc \<Longrightarrow> owns s' r sc" for r sc
    by (auto simp: owns_def rt fields)
  have recs: "rec_at (runtime s' r) d sc = rec_at (runtime s r) d sc" for r d sc
    by (simp add: rt) (simp add: runtime_def)
  show new: "runtime s' ?n = new_runtime c" by (simp add: rt)
  show look: "map_of (oc_clusters s') c = Some ?n" by (simp add: s'_def map_of_update)
  have "runtimes_ok s'"
    using wf own by (auto simp: orch_wf_def runtimes_ok_def rt fields less_Suc_eq)
  moreover have "clusters_ok s'"
    using wf none ne by (auto simp: orch_wf_def clusters_ok_def cl rt fields map_of_eq_None_iff new_runtime_def)
  moreover have "timers_ok s'" using wf by (simp add: orch_wf_def timers_ok_def fields)
  moreover have "record_timers_ok s'"
    using wf by (simp add: orch_wf_def record_timers_ok_def recs armed_as_def fields)
  moreover have "refs s' = refs s" by (simp add: refs_def fields)
  then have "\<forall>ref\<in>refs s'. ref_ok s' ref"
    using wf own by (auto simp: orch_wf_def ref_ok_def)
  moreover have cur: "isRuntimeCurrent s' r = isRuntimeCurrent s r" if "r < ?n" for r
  proof -
    have "map_of (oc_clusters s') k = (if k = c then Some ?n else map_of (oc_clusters s) k)" for k
      by (simp add: s'_def map_of_update)
    then show ?thesis using that none by (auto simp: isRuntimeCurrent_def rt)
  qed
  moreover have "reads_ok s'"
  proof (rule reads_ok_le)
    show "reads_ok s" using wf by (simp add: orch_wf_def)
    then show "distinct (map (ex_request \<circ> snd) (executions_of (oc_jobs s')))" by (simp add: reads_ok_def fields)
    fix d ex
    assume "(d, ex) \<in> set (executions_of (oc_jobs s'))" and old: "tracked s d ex"
    then have "(ex_runtime ex, d, ex_scope ex) \<in> refs s" by (force simp: refs_def executions_iff fields)
    then have "ex_runtime ex < ?n" using wf by (auto simp: orch_wf_def ref_ok_def owns_def)
    then show "tracked s' d ex" using old cur by (simp add: tracked_def recs)
  qed (simp_all add: s'_def)
  ultimately show "orch_wf s'" using wf by (simp add: orch_wf_def fields)
  show "grows s s'" using cur by (auto simp: grows_def fields rt)
  have "recs_keep x s s'" by (simp add: recs_keep_def recs)
  moreover have "lists_keep x s s'"
    unfolding s'_def by (cases x) (simp_all add: other_timers_def retry_timers_def)
  ultimately show "keeps x s s'" by (simp add: keeps_def)
qed

lemma frame_getClusterRuntime: "st_frame X s (fst (getClusterRuntime s c))"
  using cluster_runtime_new [of s "trim c"]
  by (auto simp: getClusterRuntime_def Let_def st_frame_def split: option.split)

lemma getClusterRuntime_entry:
  assumes "orch_wf s" and "getClusterRuntime s c = (s', r)"
  shows "map_of (oc_clusters s') (trim c) = Some r" and "0 < r" and "r < length (oc_runtimes s')"
    and "cr_cluster (runtime s' r) = trim c" and "isRuntimeCurrent s' r" and "orch_wf s'" and "grows s s'"
proof -
  have frame: "orch_wf s' \<and> grows s s'"
    using frame_getClusterRuntime [of "{}" s c] assms by (simp add: st_frame_def)
  then show "orch_wf s'" "grows s s'" by simp_all
  show look: "map_of (oc_clusters s') (trim c) = Some r"
    using assms(2) cluster_runtime_new(5) [OF assms(1), of "trim c"]
    by (auto simp: getClusterRuntime_def Let_def split: option.splits)
  then have "(trim c, r) \<in> set (oc_clusters s')" by (rule map_of_SomeD)
  with frame show "0 < r" "r < length (oc_runtimes s')" "cr_cluster (runtime s' r) = trim c"
    by (auto simp: orch_wf_def clusters_ok_def)
  with look show "isRuntimeCurrent s' r" by (simp add: isRuntimeCurrent_def)
qed

lemma frame_getRuntimeForScope: "st_frame X s (fst (getRuntimeForScope s sc))"
  by (simp add: getRuntimeForScope_def Let_def frame_getClusterRuntime)

lemma getRuntimeForScope_owns:
  assumes "orch_wf s" and "getRuntimeForScope s sc = (s', r)"
  shows "owns s' r sc" and "isRuntimeCurrent s' r" and "orch_wf s'" and "grows s s'"
proof -
  have frame: "orch_wf s' \<and> grows s s'"
    using frame_getRuntimeForScope [of "{}" s sc] assms by (simp add: st_frame_def)
  then show "orch_wf s'" "grows s s'" by simp_all
  have "owns s' r sc \<and> isRuntimeCurrent s' r"
  proof (cases "scope_cluster sc = []")
    case True
    with assms(2) have "s' = s" "r = 0"
      by (simp_all add: getRuntimeForScope_def Let_def flip: scope_cluster_def split: if_splits)
    with True assms(1) show ?thesis
      by (simp add: owns_def orch_wf_def runtimes_ok_def isRuntimeCurrent_def)
  next
    case False
    then have "sc \<noteq> []" by (auto simp: scope_cluster_def parseClusterScope_def)
    with False assms(2) have "getClusterRuntime s (scope_cluster sc) = (s', r)"
      by (simp add: getRuntimeForScope_def Let_def flip: scope_cluster_def)
    from getClusterRuntime_entry [OF assms(1) this] False show ?thesis
      by (simp add: owns_def)
  qed
  then show "owns s' r sc" "isRuntimeCurrent s' r" by simp_all
qed

text \<open>A scope's runtime is the one that is current and owns it.\<close>

lemma getRuntimeForScope_current:
  assumes wf: "orch_wf s" and own: "owns s r sc" and cur: "isRuntimeCurrent s r"
  shows "getRuntimeForScope s sc = (s, r)"
proof (cases "scope_cluster sc = []")
  case True
  with own show ?thesis
    by (simp add: owns_def getRuntimeForScope_def Let_def flip: scope_cluster_def)
next
  case False
  then have "sc \<noteq> []" by (auto simp: scope_cluster_def parseClusterScope_def)
  moreover have "map_of (oc_clusters s) (scope_cluster sc) = Some r"
    using own cur False by (simp add: owns_def isRuntimeCurrent_def)
  ultimately show ?thesis
    using False by (simp add: getRuntimeForScope_def getClusterRuntime_def Let_def flip: scope_cluster_def)
qed

end
