(* ===== verification/Orchestrator_Quiet.thy ===== *)
theory Orchestrator_Quiet
  imports Orchestrator_Wf
begin

text \<open>
  The frames of the refresh orchestrator's operations on timers and streams: code that works on streams keeps reads
  and polls, and code that only looks something up, records readiness or reports an error keeps every part.
\<close>

declare map_of_eq_Some_iff [simp del] Some_eq_map_of_iff [simp del]

section \<open>Rules for sequences\<close>

lemma frame_scope_case:
  assumes "\<And>s1 r. orch_wf s1 \<Longrightarrow> grows s s1 \<Longrightarrow> owns s1 r sc \<Longrightarrow> isRuntimeCurrent s1 r \<Longrightarrow> st_frame X s1 (f s1 r)"
  shows "st_frame X s (case getRuntimeForScope s sc of (s1, r) \<Rightarrow> f s1 r)"
proof (rule st_frameI)
  assume wf: "orch_wf s"
  obtain s1 r where look: "getRuntimeForScope s sc = (s1, r)" by (cases "getRuntimeForScope s sc")
  note post = getRuntimeForScope_owns [OF wf look]
  have "st_frame X s s1" using frame_getRuntimeForScope [of X s sc] look by simp
  moreover have "st_frame X s1 (f s1 r)" using assms post by simp
  ultimately show "st_frame X s (case getRuntimeForScope s sc of (s1, r) \<Rightarrow> f s1 r)"
    using look st_frame_trans by simp
qed

lemma frame_scope_fst:
  assumes "\<And>s1 r. orch_wf s1 \<Longrightarrow> grows s s1 \<Longrightarrow> owns s1 r sc \<Longrightarrow> isRuntimeCurrent s1 r \<Longrightarrow> st_frame X s1 (fst (f s1 r))"
  shows "st_frame X s (fst (case getRuntimeForScope s sc of (s1, r) \<Rightarrow> f s1 r))"
  using frame_scope_case [of s sc X "\<lambda>s1 r. fst (f s1 r)"] assms by (simp add: case_prod_beta)

lemma frame_run_case:
  assumes "rt_frame X K (runtime s r) (fst (f (runtime s r)))" and "\<And>sc. sc \<in> K \<Longrightarrow> owns s r sc"
    and "\<And>s1 x. run_runtime s r f = (s1, x) \<Longrightarrow> orch_wf s1 \<Longrightarrow> grows s s1 \<Longrightarrow> st_frame X s1 (g s1 x)"
  shows "st_frame X s (case run_runtime s r f of (s1, x) \<Rightarrow> g s1 x)"
proof (rule st_frameI)
  assume wf: "orch_wf s"
  obtain s1 x where run: "run_runtime s r f = (s1, x)" by (cases "run_runtime s r f")
  have head: "st_frame X s s1" using frame_run_runtime [where f = f, OF assms(1,2)] run by simp
  with wf have "orch_wf s1" "grows s s1" by (simp_all add: st_frame_def)
  with assms(3) run head show "st_frame X s (case run_runtime s r f of (s1, x) \<Rightarrow> g s1 x)"
    using st_frame_trans by simp
qed

lemma frame_run_fst:
  assumes "rt_frame X K (runtime s r) (fst (f (runtime s r)))" and "\<And>sc. sc \<in> K \<Longrightarrow> owns s r sc"
    and "\<And>s1 x. run_runtime s r f = (s1, x) \<Longrightarrow> orch_wf s1 \<Longrightarrow> grows s s1 \<Longrightarrow> st_frame X s1 (fst (g s1 x))"
  shows "st_frame X s (fst (case run_runtime s r f of (s1, x) \<Rightarrow> g s1 x))"
  using frame_run_case [of X K s r f "\<lambda>s1 x. fst (g s1 x)"] assms by (simp add: case_prod_beta)

text \<open>Methods that work on one scope.\<close>

lemma frame_run1:
  assumes "\<And>rt. rt_frame X {sc} rt (fst (f rt))" and "owns s r sc"
  shows "st_frame X s (fst (run_runtime s r f))"
  by (rule frame_run_runtime [where K = "{sc}"]) (use assms in auto)

lemma frame_upd1:
  assumes "\<And>rt. rt_frame X {sc} rt (f rt)" and "owns s r sc"
  shows "st_frame X s (upd_runtime s r f)"
  by (rule frame_upd_runtime [where K = "{sc}"]) (use assms in auto)

lemma frame_run1_case:
  assumes "\<And>rt. rt_frame X {sc} rt (fst (f rt))" and "owns s r sc"
    and "\<And>s1 x. run_runtime s r f = (s1, x) \<Longrightarrow> orch_wf s1 \<Longrightarrow> grows s s1 \<Longrightarrow> st_frame X s1 (g s1 x)"
  shows "st_frame X s (case run_runtime s r f of (s1, x) \<Rightarrow> g s1 x)"
  by (rule frame_run_case [where K = "{sc}"]) (use assms in auto)

lemma grows_current: "grows s s' \<Longrightarrow> owns s r sc \<Longrightarrow> isRuntimeCurrent s' r = isRuntimeCurrent s r"
  by (simp add: grows_def owns_def)

section \<open>Timers\<close>

lemma frame_clearTimer:
  assumes "X \<subseteq> {Reads, Polls} \<and> (\<forall>k dl. (t, k, dl) \<in> set (oc_timers s) \<longrightarrow> is_retry k) \<or>
    X \<subseteq> {Reads, Streams} \<and> (\<forall>k dl. (t, k, dl) \<in> set (oc_timers s) \<longrightarrow> \<not> is_retry k)"
  shows "st_frame X s (clearTimer s (Some t))"
  unfolding st_frame_def
proof (intro impI conjI ballI)
  assume wf: "orch_wf s"
  let ?s = "clearTimer s (Some t)"
  have fields: "oc_runtimes ?s = oc_runtimes s" "oc_clusters ?s = oc_clusters s" "oc_next ?s = oc_next s"
    "oc_timers ?s = filter (\<lambda>(t', _). t' \<noteq> t) (oc_timers s)" "oc_ready ?s = oc_ready s" "oc_starts ?s = oc_starts s"
    "oc_polls ?s = oc_polls s" "oc_jobs ?s = oc_jobs s" "oc_configs ?s = oc_configs s"
    by (simp_all add: clearTimer_def)
  have rt: "runtime ?s = runtime s" and own: "owns ?s = owns s" and cur: "isRuntimeCurrent ?s = isRuntimeCurrent s"
    using runtime_cong [of ?s s] owns_cong [of ?s s] current_cong [of ?s s] fields by simp_all
  have "distinct (map fst (oc_timers ?s))"
    using wf by (simp add: orch_wf_def timers_ok_def fields distinct_map_filter)
  then have "timers_ok ?s" using wf by (auto simp: orch_wf_def timers_ok_def fields)
  moreover have "record_timers_ok ?s"
  proof (rule record_timers_ok_le)
    show "record_timers_ok s" using wf by (simp add: orch_wf_def)
    show "armed_as s t' k \<Longrightarrow> armed_as ?s t' k" for t' k by (simp add: armed_as_def fields)
  qed (simp add: rt)
  moreover have "refs ?s \<subseteq> refs s" by (auto simp: refs_def fields timer_refs_def)
  moreover have "runtimes_ok ?s" "clusters_ok ?s"
    using wf by (simp_all add: orch_wf_def runtimes_ok_def clusters_ok_def rt own fields)
  moreover have "reads_ok ?s"
  proof (rule reads_ok_same)
    show "reads_ok s" using wf by (simp add: orch_wf_def)
  qed (simp_all add: clearTimer_def)
  ultimately show "orch_wf ?s" using wf by (auto simp: orch_wf_def ref_ok_def own fields)
  show "grows s ?s" by (simp add: grows_def rt cur fields)
  show "keeps x s ?s" if "x \<in> X" for x
  proof -
    have "recs_keep x s ?s" by (simp add: recs_keep_def rt)
    moreover have "lists_keep x s ?s"
      using that assms
      by (cases x) (fastforce simp: clearTimer_def other_timers_def retry_timers_def)+
    ultimately show ?thesis by (simp add: keeps_def)
  qed
qed

lemma frame_clear_None [simp]: "st_frame X s (clearTimer s None)"
  by (simp add: clearTimer_def)

text \<open>A record's retry timer, taken from it and cleared.\<close>

lemma frame_retry_cleared:
  assumes ref: "vref d sc" and own: "owns s r sc" and X: "X \<subseteq> {Reads, Polls}"
    and run: "run_runtime s r (\<lambda>rt. op rt d sc) = (s1, t)"
    and op: "op = resetStreamStartRetry \<or> op = takeStreamStartRetry"
  shows "st_frame X s (clearTimer s1 t)"
proof (rule st_frameI)
  assume wf: "orch_wf s"
  have t: "t = record_retry (rec_at (runtime s r) d sc)"
    and rt: "s1 = set_runtime s r (fst (op (runtime s r) d sc))"
    using run op by (auto simp: run_runtime_def resetStreamStartRetry_def takeStreamStartRetry_def Let_def
        record_retry_def split: prod.splits)
  have "rt_frame X {sc} (runtime s r) (fst (op (runtime s r) d sc))"
    using op rt_frame_stream_event [OF ref] X
    by (auto simp: resetStreamStartRetry_def takeStreamStartRetry_def Let_def)
  then have "st_frame X s s1" unfolding rt by (rule frame_set_runtime) (use own in auto)
  moreover have "st_frame X s1 (clearTimer s1 t)"
  proof (cases t)
    case (Some t')
    have "armed_as s t' (RetryTimer r d sc)"
      using wf_record_timers(2) [OF wf ref] t Some by simp
    then show ?thesis
      unfolding Some by (intro frame_clearTimer) (use X in \<open>fastforce simp: armed_as_def rt\<close>)
  qed simp
  ultimately show "st_frame X s (clearTimer s1 t)" by (rule st_frame_trans)
qed

lemmas frame_reset_retry = frame_retry_cleared [where op = resetStreamStartRetry, simplified]
lemmas frame_take_retry = frame_retry_cleared [where op = takeStreamStartRetry, simplified]

text \<open>The same for a record's poll timer.\<close>

lemma frame_cancelPoll:
  assumes ref: "vref d sc" and own: "owns s r sc" and X: "X \<subseteq> {Reads, Streams}"
  shows "st_frame X s (cancelPoll s r d sc)"
proof (rule st_frameI)
  assume wf: "orch_wf s"
  obtain s1 t where run: "run_runtime s r (\<lambda>rt. takePollTimer rt d sc) = (s1, t)"
    by (cases "run_runtime s r (\<lambda>rt. takePollTimer rt d sc)")
  have t: "t = record_timer (rec_at (runtime s r) d sc)" and rt: "s1 = set_runtime s r (fst (takePollTimer (runtime s r) d sc))"
    using run by (auto simp: run_runtime_def takePollTimer_def Let_def record_timer_def split: prod.splits polling.splits)
  have "st_frame X s s1"
    unfolding rt by (rule frame_set_runtime [OF rt_frame_take_poll [OF ref X]]) (use own in auto)
  moreover have "st_frame X s1 (clearTimer s1 t)"
  proof (cases t)
    case (Some t')
    have "armed_as s t' (PollTimer r d sc)"
      using wf_record_timers(1) [OF wf ref] t Some by simp
    then show ?thesis
      unfolding Some by (intro frame_clearTimer) (use X in \<open>fastforce simp: armed_as_def rt\<close>)
  qed simp
  ultimately show "st_frame X s (cancelPoll s r d sc)"
    by (simp add: cancelPoll_def run st_frame_trans)
qed

section \<open>Lookups, readiness and reports\<close>

lemma frame_enabled: "st_frame X s (fst (isScopedDomainEnabledInternal s d sc))"
  unfolding isScopedDomainEnabledInternal_def by (rule frame_scope_fst) simp

lemma frame_blocked: "st_frame X s (fst (isStreamingBlocked_in s d sc))"
  unfolding isStreamingBlocked_in_def by (simp, intro impI) (rule frame_scope_fst, simp)

lemma frame_active: "st_frame X s (fst (isStreamingActive_in s d sc))"
  unfolding isStreamingActive_in_def by (rule frame_scope_fst) simp

lemma frame_plan: "st_frame X s (fst (scopeStreamPlan env s d sc))"
  using frame_blocked [of X s d "trim sc"]
  by (cases "isStreamingBlocked_in s d (trim sc)") (simp add: scopeStreamPlan_def Let_def split: option.split)

lemma frame_should: "st_frame X s (fst (shouldStreamScope env s d sc))"
  using frame_plan [of X s env d sc] by (cases "scopeStreamPlan env s d sc") (simp add: shouldStreamScope_def)

lemma frame_pending:
  assumes "vref d sc"
  shows "st_frame X s (recordPendingClusterReadiness s d sc options)"
proof (cases "scope_cluster sc = [] \<or> fo_intent options = Background")
  case True
  then show ?thesis by (simp add: recordPendingClusterReadiness_def Let_def flip: scope_cluster_def)
next
  case False
  then have sc: "getClusterRuntime s (scope_cluster sc) = getRuntimeForScope s sc"
    by (auto simp: getRuntimeForScope_def Let_def scope_cluster_def parseClusterScope_def)
  show ?thesis
    unfolding recordPendingClusterReadiness_def Let_def scope_cluster_def [symmetric] sc
    using False
    by (auto intro!: frame_scope_case frame_upd_runtime rt_frame_defer [where w = "\<lparr>rd_coalesce = _,
        rd_domain = d, rd_scope = sc, rd_intents = _, rd_query_reconcile = _\<rparr>", simplified] assms)
qed

lemma frame_notify:
  assumes "\<And>sc'. sc = Some sc' \<Longrightarrow> sc' \<noteq> [] \<Longrightarrow> vref d sc'"
  shows "st_frame X s (notifyRefreshError env s d sc message failure operation replay)"
  using assms by (auto simp: notifyRefreshError_def intro!: frame_ops frame_pending split: option.split)

section \<open>Streams\<close>

text \<open>A step on the stream lists only adds references that are in order.\<close>

lemma frame_stream_lists:
  assumes "oc_runtimes s' = oc_runtimes s" and "oc_clusters s' = oc_clusters s" and "oc_next s \<le> oc_next s'"
    and "oc_timers s' = oc_timers s" and "oc_polls s' = oc_polls s" and "oc_jobs s' = oc_jobs s"
    and "oc_configs s' = oc_configs s" and "lists_keep Reads s s'" and "lists_keep Polls s s'"
    and refs: "\<And>ref. orch_wf s \<Longrightarrow> ref \<in> refs s' \<Longrightarrow> ref \<in> refs s \<or> ref_ok s ref"
    and X: "X \<subseteq> {Reads, Polls}" and same_context: "oc_context s' = oc_context s"
  shows "st_frame X s s'"
  unfolding st_frame_def
proof (intro impI conjI ballI)
  assume wf: "orch_wf s"
  have rt: "runtime s' = runtime s" and own: "owns s' = owns s" and cur: "isRuntimeCurrent s' = isRuntimeCurrent s"
    using runtime_cong [of s' s] owns_cong [of s' s] current_cong [of s' s] assms(1,2) by simp_all
  have later: "t < oc_next s \<Longrightarrow> t < oc_next s'" for t using assms(3) by simp
  have "runtimes_ok s'" "clusters_ok s'" "timers_ok s'"
    using wf rt own assms(1-7)
    by (auto simp: orch_wf_def runtimes_ok_def clusters_ok_def timers_ok_def intro!: later)
  moreover have "record_timers_ok s'"
  proof (rule record_timers_ok_le)
    show "record_timers_ok s" using wf by (simp add: orch_wf_def)
    show "armed_as s t k \<Longrightarrow> armed_as s' t k" for t k using later assms(4) by (simp add: armed_as_def)
  qed (simp add: rt)
  moreover have "ref_ok s' = ref_ok s" by (simp add: fun_eq_iff ref_ok_def own)
  then have "\<forall>ref\<in>refs s'. ref_ok s' ref"
    using wf refs [OF wf] unfolding orch_wf_def by auto
  moreover have "reads_ok s'"
  proof (rule reads_ok_same)
    show "reads_ok s" using wf by (simp add: orch_wf_def)
  qed (use assms(1,2,6,8) same_context in simp_all)
  ultimately show "orch_wf s'" using wf assms(7) by (simp add: orch_wf_def)
  show "grows s s'" using assms(1-7) rt cur by (simp add: grows_def)
  show "x \<in> X \<Longrightarrow> keeps x s s'" for x
    using X assms(8,9) by (cases x) (auto simp: keeps_def recs_keep_def rt)
qed

lemma frame_attach_stop:
  assumes "ref_ok s stop" and X: "X \<subseteq> {Reads, Polls}"
  shows "st_frame X s (attach_stop s t stop)"
proof (rule frame_stream_lists [OF _ _ _ _ _ _ _ _ _ _ X])
  fix ref
  assume "ref \<in> refs (attach_stop s t stop)"
  then show "ref \<in> refs s \<or> ref_ok s ref"
    using assms(1) unfolding refs_def attach_stop_def start_ref_def by (auto split: if_splits)
qed (simp_all add: attach_stop_def other_timers_def)

lemma frame_add_start:
  assumes "ref_ok s (sp_runtime p, sp_domain p, sp_scope p)" and "sp_stops p = []" and X: "X \<subseteq> {Reads, Polls}"
  shows "st_frame X s (s\<lparr>oc_starts := oc_starts s @ [p]\<rparr>)"
proof (rule frame_stream_lists [OF _ _ _ _ _ _ _ _ _ _ X])
  fix ref
  assume "ref \<in> refs (s\<lparr>oc_starts := oc_starts s @ [p]\<rparr>)"
  then show "ref \<in> refs s \<or> ref_ok s ref"
    using assms(1,2) unfolding refs_def start_ref_def by auto
qed (simp_all add: other_timers_def)

lemma frame_add_ready:
  assumes "ref_ok s (rk_runtime k, rk_domain k, rk_scope k)" and X: "X \<subseteq> {Reads, Polls}"
  shows "st_frame X s (s\<lparr>oc_ready := oc_ready s @ [k]\<rparr>)"
proof (rule frame_stream_lists [OF _ _ _ _ _ _ _ _ _ _ X])
  fix ref
  assume "ref \<in> refs (s\<lparr>oc_ready := oc_ready s @ [k]\<rparr>)"
  then show "ref \<in> refs s \<or> ref_ok s ref"
    using assms(1) unfolding refs_def ready_ref_def by auto
qed (simp_all add: other_timers_def)

lemma frame_fewer_tasks:
  assumes "\<And>k'. k' \<in> set ks \<Longrightarrow> ready_ref k' \<in> ready_ref ` set (oc_ready s)" and "set ps \<subseteq> set (oc_starts s)"
    and X: "X \<subseteq> {Reads, Polls}"
  shows "st_frame X s (s\<lparr>oc_ready := ks, oc_starts := ps\<rparr>)"
proof (rule frame_stream_lists [OF _ _ _ _ _ _ _ _ _ _ X])
  fix ref
  assume "ref \<in> refs (s\<lparr>oc_ready := ks, oc_starts := ps\<rparr>)"
  then show "ref \<in> refs s \<or> ref_ok s ref"
    using assms(1,2) unfolding refs_def by auto
qed (simp_all add: other_timers_def)

lemma rt_frame_events:
  assumes "vref d sc" and "X \<subseteq> {Reads, Polls}"
  shows "rt_frame X {sc} rt (fst (cancelStreamingStart rt d sc))"
    "rt_frame X {sc} rt (clearStreamingReady rt d sc t)"
    "rt_frame X {sc} rt (setStreamingReady rt d sc task)"
    "rt_frame X {sc} rt (beginStreamingStart rt d sc task)"
    "rt_frame X {sc} rt (failStreamingStart rt d sc task)"
    "rt_frame X {sc} rt (clearStreamingCancelled rt d sc)"
    "rt_frame X {sc} rt (markStreamingStopped rt d sc)"
    "rt_frame X {sc} rt (fst (finishStreamingStart rt d sc task))"
    "rt_frame X {sc} rt (fst (blockStreaming rt d sc))"
proof -
  note event = rt_frame_stream_event [OF assms(1), of _ X]
  show clear: "rt_frame X {sc} rt (clearStreamingReady rt d sc t)" for rt t
    using assms(2) by (simp add: clearStreamingReady_def event)
  show "rt_frame X {sc} rt (fst (cancelStreamingStart rt d sc))"
    unfolding cancelStreamingStart_def Let_def fst_conv
    by (rule rt_frame_trans [OF event clear]) (use assms(2) in simp_all)
  show "rt_frame X {sc} rt (setStreamingReady rt d sc task)" "rt_frame X {sc} rt (beginStreamingStart rt d sc task)"
    "rt_frame X {sc} rt (failStreamingStart rt d sc task)" "rt_frame X {sc} rt (clearStreamingCancelled rt d sc)"
    "rt_frame X {sc} rt (markStreamingStopped rt d sc)"
    using assms(2) by (simp_all add: setStreamingReady_def beginStreamingStart_def failStreamingStart_def
        clearStreamingCancelled_def markStreamingStopped_def event)
  show "rt_frame X {sc} rt (fst (finishStreamingStart rt d sc task))"
    using assms(2) event [of "FinishStart task" rt]
    by (cases "applyStreamEvent rt d sc (FinishStart task)") (simp add: finishStreamingStart_def Let_def)
  show "rt_frame X {sc} rt (fst (blockStreaming rt d sc))"
  proof (rule rt_frameI)
    assume inv: "runtime_inv rt"
    show "rt_frame X {sc} rt (fst (blockStreaming rt d sc))"
    proof (cases "isStreamingBlocked rt d sc")
      case False
      then have "fst (blockStreaming rt d sc) = fst (applyStreamEvent rt d sc BlockStream)"
        by (simp add: blockStreaming_modify [OF inv vref_valid [OF assms(1)]] applyStreamEvent_modify [OF inv vref_valid [OF assms(1)]]
            stream_update_def [abs_def])
      then show ?thesis using assms(2) event [of BlockStream rt] by simp
    qed (simp add: blockStreaming_def isStreamingBlocked_def Let_def)
  qed
qed

lemma rt_frame_health:
  assumes "vref d sc"
  shows "rt_frame X {sc} rt (clearStreamHealth rt d sc)" "rt_frame X {sc} rt (fst (setStreamHealth rt d sc payload))"
  using rt_frame_stream_event [OF assms, of ClearHealth X rt] rt_frame_stream_event [OF assms, of "ReceiveHealth payload" X rt]
  by (simp_all add: clearStreamHealth_def setStreamHealth_def)

lemma frame_stopStreamingScope:
  assumes ref: "vref d sc" and X: "X \<subseteq> {Reads, Polls}"
  shows "st_frame X s (stopStreamingScope s d sc reset)"
  unfolding stopStreamingScope_def
proof (rule frame_scope_case)
  fix s1 r
  assume wf1: "orch_wf s1" and own1: "owns s1 r sc"
  obtain s2 t where run2: "run_runtime s1 r (\<lambda>rt. resetStreamStartRetry rt d sc) = (s2, t)"
    by (cases "run_runtime s1 r (\<lambda>rt. resetStreamStartRetry rt d sc)")
  let ?s2 = "clearTimer s2 t"
  obtain s3 pending where run3: "run_runtime ?s2 r (\<lambda>rt. cancelStreamingStart rt d sc) = (s3, pending)"
    by (cases "run_runtime ?s2 r (\<lambda>rt. cancelStreamingStart rt d sc)")
  define s4 where "s4 = (case pending of None \<Rightarrow> s3 | Some task \<Rightarrow> attach_stop s3 task (r, d, sc))"
  define s5 where "s5 = upd_runtime s4 r (\<lambda>rt. clearStreamHealth (markStreamingStopped rt d sc) d sc)"
  have f2: "st_frame X s1 ?s2" by (rule frame_reset_retry [OF ref own1 X run2])
  have f3: "st_frame X s1 s3"
  proof (rule st_frame_step [OF f2])
    assume "grows s1 ?s2"
    then have "owns ?s2 r sc" using own1 owns_grows by blast
    then have "st_frame X ?s2 (fst (run_runtime ?s2 r (\<lambda>rt. cancelStreamingStart rt d sc)))"
      by (rule frame_run1 [OF rt_frame_events(1) [OF ref X]])
    then show "st_frame X ?s2 s3" by (simp add: run3)
  qed
  have f4: "st_frame X s1 s4"
  proof (rule st_frame_step [OF f3])
    assume "grows s1 s3"
    then have "ref_ok s3 (r, d, sc)" using own1 ref owns_grows by (auto simp: ref_ok_def)
    then show "st_frame X s3 s4" by (auto simp: s4_def intro!: frame_attach_stop X split: option.split)
  qed
  have f5: "st_frame X s1 s5"
  proof (rule st_frame_step [OF f4])
    assume "grows s1 s4"
    then have "owns s4 r sc" using own1 owns_grows by blast
    then show "st_frame X s4 s5"
      unfolding s5_def
      by (rule frame_upd1 [OF rt_frame_trans [OF rt_frame_events(7) [OF ref X] rt_frame_health(1) [OF ref]]])
  qed
  have f6: "st_frame X s1 (stream_call s5 (ManagerStop d sc reset))" by (rule st_frame_trans [OF f5 frame_ops(6)])
  then have "st_frame X s1 (reset_scope (stream_call s5 (ManagerStop d sc reset)) d sc)"
    by (rule st_frame_trans [OF _ frame_ops(2)])
  with f6 show "st_frame X s1 (case run_runtime s1 r (\<lambda>rt. resetStreamStartRetry rt d sc) of (s2, t) \<Rightarrow>
      case run_runtime (clearTimer s2 t) r (\<lambda>rt. cancelStreamingStart rt d sc) of (s3, pending) \<Rightarrow>
        let s4 = (case pending of None \<Rightarrow> s3 | Some task \<Rightarrow> attach_stop s3 task (r, d, sc));
            s5 = upd_runtime s4 r (\<lambda>rt. clearStreamHealth (markStreamingStopped rt d sc) d sc);
            s6 = stream_call s5 (ManagerStop d sc reset)
        in if reset then reset_scope s6 d sc else s6)"
    by (cases reset) (simp_all add: run2 run3 Let_def flip: s4_def s5_def)
qed

section \<open>Arming timers\<close>

lemma set_timeout_eq:
  "set_timeout s kind dl =
     (s\<lparr>oc_next := oc_next s + 1, oc_timers := oc_timers s @ [(oc_next s, kind, dl)]\<rparr>, oc_next s)"
  by (simp add: set_timeout_def fresh_def)

lemma frame_set_timeout:
  assumes ref: "\<And>ref. kind_ref kind = Some ref \<Longrightarrow> ref_ok s ref"
    and X: "X \<subseteq> (if is_retry kind then {Reads, Polls} else {Reads, Streams})"
  shows "st_frame X s (fst (set_timeout s kind dl))"
  unfolding st_frame_def
proof (intro impI conjI ballI)
  assume wf: "orch_wf s"
  let ?s = "fst (set_timeout s kind dl)"
  have fields: "oc_runtimes ?s = oc_runtimes s" "oc_clusters ?s = oc_clusters s" "oc_next ?s = Suc (oc_next s)"
    "oc_timers ?s = oc_timers s @ [(oc_next s, kind, dl)]" "oc_ready ?s = oc_ready s" "oc_starts ?s = oc_starts s"
    "oc_polls ?s = oc_polls s" "oc_jobs ?s = oc_jobs s" "oc_configs ?s = oc_configs s"
    by (simp_all add: set_timeout_eq)
  have rt: "runtime ?s = runtime s" and own: "owns ?s = owns s" and cur: "isRuntimeCurrent ?s = isRuntimeCurrent s"
    using runtime_cong [of ?s s] owns_cong [of ?s s] current_cong [of ?s s] fields by simp_all
  have ids: "t < oc_next s" if "(t, k, dl) \<in> set (oc_timers s)" for t k dl
    using wf that by (fastforce simp: orch_wf_def timers_ok_def)
  have "oc_next s \<notin> fst ` set (oc_timers s)" using ids by force
  then have "distinct (map fst (oc_timers ?s))"
    using wf by (simp add: orch_wf_def timers_ok_def fields)
  moreover have "pl_deadline p < oc_next s \<and> (\<forall>k dl. (pl_deadline p, k, dl) \<in> set (oc_timers ?s) \<longrightarrow> is_deadline k)"
    if "p \<in> set (oc_polls s)" for p
    using wf that unfolding orch_wf_def timers_ok_def fields by auto
  ultimately have "timers_ok ?s"
    using ids unfolding timers_ok_def by (fastforce simp: fields less_Suc_eq)
  moreover have "record_timers_ok ?s"
  proof (rule record_timers_ok_le)
    show "record_timers_ok s" using wf by (simp add: orch_wf_def)
    show "armed_as s t k \<Longrightarrow> armed_as ?s t k" for t k by (auto simp: armed_as_def fields)
  qed (simp add: rt)
  moreover have "ref \<in> refs ?s \<Longrightarrow> ref \<in> refs s \<or> kind_ref kind = Some ref" for ref
    by (auto simp: refs_def fields timer_refs_def)
  moreover have "ref_ok ?s = ref_ok s" by (simp add: fun_eq_iff ref_ok_def own)
  moreover have "runtimes_ok ?s" "clusters_ok ?s"
    using wf by (simp_all add: orch_wf_def runtimes_ok_def clusters_ok_def rt own fields)
  moreover have "reads_ok ?s"
  proof (rule reads_ok_same)
    show "reads_ok s" using wf by (simp add: orch_wf_def)
  qed (simp_all add: set_timeout_eq)
  moreover have "\<forall>ref\<in>refs s. ref_ok s ref" "\<forall>d\<in>fst ` set (oc_configs s). CHR '':'' \<notin> set d"
    using wf by (simp_all add: orch_wf_def)
  ultimately show "orch_wf ?s" using ref unfolding orch_wf_def fields by metis
  show "grows s ?s" by (simp add: grows_def rt cur fields)
  show "keeps x s ?s" if "x \<in> X" for x
  proof -
    have "recs_keep x s ?s" by (simp add: recs_keep_def rt)
    moreover have "lists_keep x s ?s"
      using that X
      by (cases x) (auto simp: set_timeout_eq other_timers_def retry_timers_def split: if_splits)
    ultimately show ?thesis by (simp add: keeps_def)
  qed
qed

lemma set_timeout_armed:
  assumes "orch_wf s"
  shows "armed_as (fst (set_timeout s kind dl)) (oc_next s) kind"
  using assms by (fastforce simp: set_timeout_eq armed_as_def orch_wf_def timers_ok_def)

lemma frame_scheduleStreamStartRetry:
  assumes ref: "vref d sc" and own: "owns s r sc" and X: "X \<subseteq> {Reads, Polls}"
  shows "st_frame X s (scheduleStreamStartRetry s d sc r)"
proof (rule st_frameI)
  assume wf: "orch_wf s"
  let ?s = "fst (set_timeout s (RetryTimer r d sc) (streamReconnectDelay (getStreamStartFailures (runtime s r) d sc)))"
  have "st_frame X s ?s" by (rule frame_set_timeout) (use ref own X in \<open>auto simp: ref_ok_def\<close>)
  moreover have "st_frame X ?s (upd_runtime ?s r (\<lambda>rt. setStreamStartRetry rt d sc (oc_next s)))"
  proof (rule frame_set_retry [OF ref _ set_timeout_armed [OF wf] X])
    show "owns ?s r sc" using own owns_cong [of ?s s] by (simp add: set_timeout_eq)
  qed
  ultimately show "st_frame X s (scheduleStreamStartRetry s d sc r)"
    by (auto simp: scheduleStreamStartRetry_def set_timeout_eq intro: st_frame_trans)
qed

lemma frame_startStreamingScope:
  assumes ref: "vref d sc" and X: "X \<subseteq> {Reads, Polls}"
  shows "st_frame X s (startStreamingScope env s d sc)"
proof -
  let ?starts = "\<lambda>s2 r. case run_runtime s2 r (\<lambda>rt. takeStreamStartRetry rt d sc) of (s3, t) \<Rightarrow>
    case fresh (stream_call (clearTimer s3 t) (ManagerStart d sc)) of (s4, task) \<Rightarrow>
      upd_runtime (s4\<lparr>oc_starts := oc_starts s4 @
          [\<lparr>sp_task = task, sp_runtime = r, sp_domain = d, sp_scope = sc, sp_stops = []\<rparr>]\<rparr>)
        r (\<lambda>rt. beginStreamingStart rt d sc task)"
  have start: "st_frame X s2 (?starts s2 r)" if own: "owns s2 r sc" for s2 r
  proof -
    obtain s3 t where run: "run_runtime s2 r (\<lambda>rt. takeStreamStartRetry rt d sc) = (s3, t)"
      by (cases "run_runtime s2 r (\<lambda>rt. takeStreamStartRetry rt d sc)")
    let ?s4 = "fst (fresh (stream_call (clearTimer s3 t) (ManagerStart d sc)))"
      and ?task = "snd (fresh (stream_call (clearTimer s3 t) (ManagerStart d sc)))"
    let ?p = "\<lparr>sp_task = ?task, sp_runtime = r, sp_domain = d, sp_scope = sc, sp_stops = []\<rparr>"
    let ?s5 = "?s4\<lparr>oc_starts := oc_starts ?s4 @ [?p]\<rparr>"
    have f3: "st_frame X s2 ?s4"
      by (rule st_frame_trans [OF frame_take_retry [OF ref own X run] st_frame_trans [OF frame_ops(6) frame_ops(12)]])
    have f4: "st_frame X s2 ?s5"
    proof (rule st_frame_step [OF f3])
      assume "grows s2 ?s4"
      then have "ref_ok ?s4 (r, d, sc)" using own ref owns_grows by (auto simp: ref_ok_def)
      then show "st_frame X ?s4 ?s5" by (intro frame_add_start X) simp_all
    qed
    have "st_frame X s2 (upd_runtime ?s5 r (\<lambda>rt. beginStreamingStart rt d sc ?task))"
    proof (rule st_frame_step [OF f4])
      assume "grows s2 ?s5"
      then have "owns ?s5 r sc" using own owns_grows by blast
      then show "st_frame X ?s5 (upd_runtime ?s5 r (\<lambda>rt. beginStreamingStart rt d sc ?task))"
        by (rule frame_upd1 [OF rt_frame_events(4) [OF ref X]])
    qed
    then show ?thesis by (simp add: run case_prod_beta)
  qed
  show ?thesis
  proof (cases "isScopeClusterServiceable env s sc")
    case True
    obtain s1 enabled where en: "isScopedDomainEnabledInternal s d sc = (s1, enabled)"
      by (cases "isScopedDomainEnabledInternal s d sc")
    have f1: "st_frame X s s1" using frame_enabled [of X s d sc] en by simp
    have "st_frame X s1 (case getRuntimeForScope s1 sc of (s2, r) \<Rightarrow>
        if isStreamingStartingOrActive (runtime s2 r) d sc then s2 else ?starts s2 r)"
      by (rule frame_scope_case) (use start in \<open>simp add: case_prod_beta\<close>)
    with f1 True en show ?thesis
      by (auto simp: startStreamingScope_def intro: st_frame_trans)
  qed (simp add: startStreamingScope_def)
qed

section \<open>Starts, retries and re-evaluation\<close>

lemma state_refs:
  assumes "orch_wf s" and "st \<in> set (state_values (runtime s r))" and "sr_scope st = Some sc"
  shows "vref (sr_domain st) sc"
  using runtime_wf [OF assms(1), of r] state_values_ok(3) [of "runtime s r" st] assms(2,3)
  by (auto simp: rt_ok_def vref_def)

lemma streaming_scope_refs:
  "orch_wf s \<Longrightarrow> (d, sc) \<in> set (getStreamingScopes (runtime s r)) \<Longrightarrow> vref d sc"
  by (auto simp: getStreamingScopes_def List.map_filter_def dest: state_refs split: if_splits)

lemma enabled_scope_refs:
  "orch_wf s \<Longrightarrow> sc \<in> set (getEnabledScopes (runtime s r) d) \<Longrightarrow> vref d sc"
  by (auto simp: getEnabledScopes_def List.map_filter_def dest: state_refs split: if_splits)

lemma known_scope_refs:
  "orch_wf s \<Longrightarrow> sc \<in> set (getKnownScopes (runtime s r) d) \<Longrightarrow> vref d sc"
  by (auto simp: getKnownScopes_def List.map_filter_def dest: state_refs split: if_splits)

lemma leased_scope_refs:
  "orch_wf s \<Longrightarrow> (d, sc) \<in> set (getLeasedScopes (runtime s r)) \<Longrightarrow> vref d sc"
  by (auto simp: getLeasedScopes_def List.map_filter_def dest: state_refs split: option.splits if_splits)

lemma scoped_domain_refs:
  "orch_wf s \<Longrightarrow> (d, sc) \<in> set (scopedDomains (runtime s r)) \<Longrightarrow> vref d sc"
  by (auto simp: scopedDomains_def List.map_filter_def dest: state_refs split: option.splits if_splits)

lemma normalize_vref:
  assumes "normalizeDomainScope d sc = Inr (Some n)" and "CHR '':'' \<notin> set d"
  shows "vref d n"
proof -
  have n: "n = trim sc" "n \<noteq> []" "isl (parseRefreshScope d n) = False"
    using assms(1) by (auto simp: normalizeDomainScope_def normalizeRefreshDomainScope_def Let_def
        split: sum.splits if_splits)
  have "n \<noteq> ''*''"
  proof
    assume "n = ''*''"
    moreover have "parseClusterScope ''*'' = ([], ''*'')" by code_simp
    ultimately have "isl (parseRefreshScope d n)" by (simp add: parseRefreshScope_def split: sum.split)
    with n(3) show False by simp
  qed
  with assms(2) n(1) show ?thesis by (simp add: vref_def valid_ref_def)
qed

lemma frame_stop_handler:
  assumes "ref_ok s stop" and X: "X \<subseteq> {Reads, Polls}"
  shows "st_frame X s (stop_handler arrived t stop s)"
proof -
  obtain r d sc where stop: "stop = (r, d, sc)" by (cases stop)
  with assms(1) have ref: "vref d sc" and own: "owns s r sc" by (simp_all add: ref_ok_def)
  have "st_frame X s (upd_runtime s r (\<lambda>rt. clearStreamingCancelled (failStreamingStart rt d sc t) d sc))"
    by (rule frame_upd1 [OF rt_frame_trans [OF rt_frame_events(5) [OF ref X] rt_frame_events(6) [OF ref X]] own])
  then show ?thesis by (simp add: stop_handler_def stop)
qed

lemma frame_failStreamingStart:
  assumes ref: "vref d sc" and own: "owns s r sc" and X: "X \<subseteq> {Reads, Polls}"
  shows "st_frame X s (failStreamingStart_in env s d sc r t failure)"
proof -
  let ?s1 = "upd_runtime s r (\<lambda>rt. failStreamingStart rt d sc t)"
  have f1: "st_frame X s ?s1" by (rule frame_upd1 [OF rt_frame_events(5) [OF ref X] own])
  let ?s2 = "upd_scope ?s1 d sc (\<lambda>previous. previous\<lparr>ds_status := StatusError, ds_error := Some (refreshFailureOf failure), ds_scope := Some sc\<rparr>)"
  let ?s3 = "notifyRefreshError env ?s2 d (truthy (Some (trim sc))) (thrown_message failure) (Some failure) None None"
  have "st_frame X ?s2 ?s3"
    by (rule frame_notify) (use ref in \<open>auto simp: truthy_def split: if_splits\<close>)
  then have f3: "st_frame X s ?s3" by (rule st_frame_trans [OF st_frame_trans [OF f1 frame_ops(1)]])
  have "st_frame X s (scheduleStreamStartRetry ?s3 d sc r)"
  proof (rule st_frame_step [OF f3])
    assume grow: "grows s ?s3"
    show "st_frame X ?s3 (scheduleStreamStartRetry ?s3 d sc r)"
      by (rule frame_scheduleStreamStartRetry [OF ref owns_grows [OF grow own] X])
  qed
  with f1 show ?thesis by (simp add: failStreamingStart_in_def Let_def)
qed

lemma frame_scheduleStreamingStart:
  assumes ref: "vref d (trim sc)" and X: "X \<subseteq> {Reads, Polls}"
  shows "st_frame X s (scheduleStreamingStart s d sc)"
proof (cases "trim sc = []")
  case False
  let ?sc = "trim sc"
  have "st_frame X s (case getRuntimeForScope s ?sc of (s1, r) \<Rightarrow>
      if hasStreamingReady (runtime s1 r) d ?sc then s1
      else let s2 = upd_scope s1 d ?sc (\<lambda>previous. previous\<lparr>
             ds_status := (if ds_data previous \<noteq> None then StatusUpdating else StatusInitialising),
             ds_error := None, ds_scope := Some ?sc\<rparr>)
           in case fresh s2 of (s3, readyTask) \<Rightarrow>
              upd_runtime (s3\<lparr>oc_ready := oc_ready s3 @
                  [\<lparr>rk_task = readyTask, rk_runtime = r, rk_domain = d, rk_scope = ?sc, rk_ran = False\<rparr>]\<rparr>) r
                (\<lambda>rt. setStreamingReady rt d ?sc readyTask))"
  proof (rule frame_scope_case)
    fix s1 r
    assume own: "owns s1 r ?sc"
    let ?s2 = "upd_scope s1 d ?sc (\<lambda>previous. previous\<lparr>
             ds_status := (if ds_data previous \<noteq> None then StatusUpdating else StatusInitialising),
             ds_error := None, ds_scope := Some ?sc\<rparr>)"
    let ?s3 = "fst (fresh ?s2)" and ?t = "snd (fresh ?s2)"
    let ?k = "\<lparr>rk_task = ?t, rk_runtime = r, rk_domain = d, rk_scope = ?sc, rk_ran = False\<rparr>"
    let ?s4 = "?s3\<lparr>oc_ready := oc_ready ?s3 @ [?k]\<rparr>"
    have f3: "st_frame X s1 ?s3" by (rule st_frame_trans [OF frame_ops(1) frame_ops(12)])
    have f4: "st_frame X s1 ?s4"
    proof (rule st_frame_step [OF f3])
      assume "grows s1 ?s3"
      then have "ref_ok ?s3 (r, d, ?sc)" using own ref owns_grows by (auto simp: ref_ok_def)
      then show "st_frame X ?s3 ?s4" by (intro frame_add_ready X) simp_all
    qed
    have "st_frame X s1 (upd_runtime ?s4 r (\<lambda>rt. setStreamingReady rt d ?sc ?t))"
    proof (rule st_frame_step [OF f4])
      assume "grows s1 ?s4"
      then have "owns ?s4 r ?sc" using own owns_grows by blast
      then show "st_frame X ?s4 (upd_runtime ?s4 r (\<lambda>rt. setStreamingReady rt d ?sc ?t))"
        by (rule frame_upd1 [OF rt_frame_events(3) [OF ref X]])
    qed
    then show "st_frame X s1 (if hasStreamingReady (runtime s1 r) d ?sc then s1
      else let s2 = ?s2
           in case fresh s2 of (s3, readyTask) \<Rightarrow>
              upd_runtime (s3\<lparr>oc_ready := oc_ready s3 @
                  [\<lparr>rk_task = readyTask, rk_runtime = r, rk_domain = d, rk_scope = ?sc, rk_ran = False\<rparr>]\<rparr>) r
                (\<lambda>rt. setStreamingReady rt d ?sc readyTask))"
      by (simp add: Let_def case_prod_beta)
  qed
  with False show ?thesis by (simp add: scheduleStreamingStart_def Let_def)
qed (simp add: scheduleStreamingStart_def Let_def)

lemma refs_ready: "orch_wf s \<Longrightarrow> k \<in> set (oc_ready s) \<Longrightarrow> ref_ok s (rk_runtime k, rk_domain k, rk_scope k)"
  by (auto simp: orch_wf_def refs_def ready_ref_def)

lemma frame_ready_runs:
  assumes wf: "orch_wf s" and k: "k \<in> set (oc_ready s)" and X: "X \<subseteq> {Reads, Polls}"
  shows "st_frame X s (ready_task_runs env s k)"
proof -
  let ?ks = "map (\<lambda>k'. if rk_task k' = rk_task k then k'\<lparr>rk_ran := True\<rparr> else k') (oc_ready s)"
  let ?s1 = "s\<lparr>oc_ready := ?ks\<rparr>"
  have ref: "vref (rk_domain k) (rk_scope k)" using refs_ready [OF wf k] by (simp add: ref_ok_def)
  have "ready_ref k' \<in> ready_ref ` set (oc_ready s)" if "k' \<in> set ?ks" for k'
    using that by (force simp: ready_ref_def image_iff)
  with X have f1: "st_frame X s ?s1"
    using frame_fewer_tasks [of ?ks s "oc_starts s" X] by simp
  obtain s2 enabled where en: "isScopedDomainEnabledInternal ?s1 (rk_domain k) (rk_scope k) = (s2, enabled)"
    by (cases "isScopedDomainEnabledInternal ?s1 (rk_domain k) (rk_scope k)")
  have f2: "st_frame X s s2"
    using st_frame_trans [OF f1 frame_enabled [of X ?s1 "rk_domain k" "rk_scope k"]] en by simp
  have "st_frame X s (startStreamingScope env s2 (rk_domain k) (rk_scope k))"
    by (rule st_frame_trans [OF f2 frame_startStreamingScope [OF ref X]])
  with f1 f2 en show ?thesis by (simp add: ready_task_runs_def Let_def)
qed

lemma frame_ready_settles:
  assumes wf: "orch_wf s" and k: "k \<in> set (oc_ready s)" and X: "X \<subseteq> {Reads, Polls}"
  shows "st_frame X s (ready_task_settles s k)"
proof -
  let ?s1 = "s\<lparr>oc_ready := filter (\<lambda>k'. rk_task k' \<noteq> rk_task k) (oc_ready s)\<rparr>"
  have f1: "st_frame X s ?s1"
    using frame_fewer_tasks [of "filter (\<lambda>k'. rk_task k' \<noteq> rk_task k) (oc_ready s)" s "oc_starts s" X] X by auto
  have "vref (rk_domain k) (rk_scope k)" "owns s (rk_runtime k) (rk_scope k)"
    using refs_ready [OF wf k] by (simp_all add: ref_ok_def)
  moreover have "owns ?s1 = owns s" using owns_cong [of ?s1 s] by simp
  ultimately have "st_frame X ?s1 (upd_runtime ?s1 (rk_runtime k)
      (\<lambda>rt. clearStreamingReady rt (rk_domain k) (rk_scope k) (Some (rk_task k))))"
    by (intro frame_upd1 [OF rt_frame_events(2) [OF _ X]]) simp_all
  then show ?thesis unfolding ready_task_settles_def by (rule st_frame_trans [OF f1])
qed

text \<open>The retry timers a sweep collects belong to the runtime's records.\<close>

lemma retries_from_records:
  assumes ok: "rt_ok rt" and t: "t \<in> set (snd (resetAllStreamStartRetries rt))"
  shows "\<exists>d sc. vref d sc \<and> record_retry (rec_at rt d sc) = Some t"
proof -
  let ?body = "\<lambda>st (rt', timers :: timer list). case sr_scope st of
           None \<Rightarrow> (rt', timers)
         | Some scope \<Rightarrow>
             (case resetStreamStartRetry rt' (sr_domain st) scope of
                (rt'', timer) \<Rightarrow> (rt'', case timer of None \<Rightarrow> timers | Some t \<Rightarrow> timers @ [t]))"
  have run: "t \<in> set (snd (fold ?body vs (rt', ts))) \<Longrightarrow> rt_frame {} UNIV rt rt' \<Longrightarrow>
      set vs \<subseteq> set (state_values rt) \<Longrightarrow> t \<in> set ts \<or> (\<exists>d sc. vref d sc \<and> record_retry (rec_at rt d sc) = Some t)"
    for vs rt' ts
  proof (induction vs arbitrary: rt' ts)
    case (Cons st vs)
    show ?case
    proof (cases "sr_scope st")
      case None
      with Cons show ?thesis by simp
    next
      case (Some sc)
      let ?d = "sr_domain st"
      have ref: "vref ?d sc" using ok Cons.prems(3) Some state_values_ok(3) [of rt st] by (fastforce simp: rt_ok_def vref_def)
      have timer: "snd (resetStreamStartRetry rt' ?d sc) = record_retry (rec_at rt' ?d sc)"
        by (simp add: resetStreamStartRetry_def record_retry_def Let_def)
      have "rt_frame {} UNIV rt' (fst (resetStreamStartRetry rt' ?d sc))"
        using rt_frame_mono [OF rt_frame_stream_event [OF ref, of ResetStartRetry "{}" rt'], of "{}" UNIV]
        by (simp add: resetStreamStartRetry_def Let_def)
      with Cons.prems(2) have frame: "rt_frame {} UNIV rt (fst (resetStreamStartRetry rt' ?d sc))"
        by (rule rt_frame_trans)
      have old: "record_retry (rec_at rt' ?d sc) = Some u \<Longrightarrow> record_retry (rec_at rt ?d sc) = Some u" for u
        using Cons.prems(2) ok ref rec_leD(2) unfolding rt_frame_def by blast
      obtain rt'' timer where eq: "resetStreamStartRetry rt' ?d sc = (rt'', timer)"
        by (cases "resetStreamStartRetry rt' ?d sc")
      have "t \<in> set (case timer of None \<Rightarrow> ts | Some u \<Rightarrow> ts @ [u]) \<or>
          (\<exists>d sc. vref d sc \<and> record_retry (rec_at rt d sc) = Some t)"
        using Cons.IH [of rt''] Cons.prems frame Some eq by simp
      then show ?thesis
        using old ref timer eq by (auto split: option.splits)
    qed
  qed simp
  from t have "t \<in> set (snd (fold ?body (state_values rt) (rt, [])))"
    by (simp add: resetAllStreamStartRetries_def)
  from run [OF this] show ?thesis by simp
qed

lemma frame_clear_timers:
  assumes "\<And>t k dl. t \<in> set ts \<Longrightarrow> (t, k, dl) \<in> set (oc_timers s) \<Longrightarrow> is_retry k" and X: "X \<subseteq> {Reads, Polls}"
  shows "st_frame X s (fold (\<lambda>t s'. clearTimer s' (Some t)) ts s)"
  using assms(1)
proof (induction ts arbitrary: s)
  case (Cons t ts)
  have "st_frame X s (clearTimer s (Some t))"
    by (rule frame_clearTimer) (use X Cons.prems in fastforce)
  moreover have "st_frame X (clearTimer s (Some t)) (fold (\<lambda>t s'. clearTimer s' (Some t)) ts (clearTimer s (Some t)))"
    by (rule Cons.IH) (use Cons.prems in \<open>auto simp: clearTimer_def\<close>)
  ultimately show ?case unfolding fold_simps by (rule st_frame_trans)
qed simp

text \<open>The start retries of a runtime are taken from its records and their timers cleared.\<close>

lemma frame_reset_retries:
  assumes X: "X \<subseteq> {Reads, Polls}" and run: "run_runtime s r resetAllStreamStartRetries = (s1, timers)"
  shows "st_frame X s (fold (\<lambda>t s'. clearTimer s' (Some t)) timers s1)"
proof (rule st_frameI)
  assume wf: "orch_wf s"
  have s1: "s1 = set_runtime s r (fst (resetAllStreamStartRetries (runtime s r)))"
    and ts: "timers = snd (resetAllStreamStartRetries (runtime s r))"
    using run by (auto simp: run_runtime_def split: prod.splits)
  define s2 where "s2 = fold (\<lambda>t s'. clearTimer s' (Some t)) timers s1"
  have "st_frame X s s1"
    unfolding s1 by (rule frame_set_runtime [OF rt_frame_retries]) simp_all
  moreover have "st_frame X s1 s2"
    unfolding s2_def
  proof (rule frame_clear_timers [OF _ X])
    fix t k dl
    assume "t \<in> set timers" and mem: "(t, k, dl) \<in> set (oc_timers s1)"
    then obtain d sc where "vref d sc" "record_retry (rec_at (runtime s r) d sc) = Some t"
      using retries_from_records [OF runtime_wf [OF wf]] ts by blast
    from wf_record_timers(2) [OF wf this] mem show "is_retry k" by (auto simp: armed_as_def s1)
  qed
  ultimately show "st_frame X s (fold (\<lambda>t s'. clearTimer s' (Some t)) timers s1)"
    unfolding s2_def by (rule st_frame_trans)
qed

lemma frame_stopRuntimeStreaming:
  assumes X: "X \<subseteq> {Reads, Polls}"
  shows "st_frame X s (stopRuntimeStreaming s r reset)"
proof (rule st_frameI)
  assume wf: "orch_wf s"
  obtain s1 timers where run: "run_runtime s r resetAllStreamStartRetries = (s1, timers)"
    by (cases "run_runtime s r resetAllStreamStartRetries")
  define s2 where "s2 = fold (\<lambda>t s'. clearTimer s' (Some t)) timers s1"
  let ?stop = "\<lambda>(d, sc) s'. if sc = [] \<or> sc = ''*'' \<or> config_streaming s' d = None then s'
      else stopStreamingScope s' d sc reset"
  define s3 where "s3 = fold ?stop (getStreamingScopes (runtime s2 r)) s2"
  have f2: "st_frame X s s2" unfolding s2_def by (rule frame_reset_retries [OF X run])
  have f3: "st_frame X s s3"
  proof (rule st_frame_step [OF f2])
    assume wf2: "orch_wf s2"
    show "st_frame X s2 s3"
      unfolding s3_def
    proof (rule st_frame_fold)
      fix v s'
      assume v: "v \<in> set (getStreamingScopes (runtime s2 r))"
      obtain d sc where eq: "v = (d, sc)" by (cases v)
      from v have "vref d sc" unfolding eq by (rule streaming_scope_refs [OF wf2])
      then show "st_frame X s' (?stop v s')" by (simp add: eq frame_stopStreamingScope X)
    qed
  qed
  have "st_frame X s3 (upd_runtime s3 r (\<lambda>rt. clearAllStreaming rt reset))"
    by (rule frame_upd_runtime [where K = "{}"])
      (use X in \<open>auto simp: clearAllStreaming_def intro!: rt_frame_forEach\<close>)
  with f3 have "st_frame X s (upd_runtime s3 r (\<lambda>rt. clearAllStreaming rt reset))"
    by (rule st_frame_trans)
  moreover have "stopRuntimeStreaming s r reset =
      (if reset then upd_runtime s3 r (\<lambda>rt. clearAllStreaming rt reset) else s3)"
    unfolding stopRuntimeStreaming_def run prod.case Let_def s3_def s2_def by (rule refl)
  ultimately show "st_frame X s (stopRuntimeStreaming s r reset)" using f3 by (cases reset) simp_all
qed

lemma frame_stopAllStreaming:
  "X \<subseteq> {Reads, Polls} \<Longrightarrow> st_frame X s (stopAllStreaming s reset)"
  unfolding stopAllStreaming_def by (rule st_frame_fold) (simp add: frame_stopRuntimeStreaming)

lemma frame_reconcileScopeStream:
  assumes ref: "vref d sc" and X: "X \<subseteq> {Reads, Polls}"
  shows "st_frame X s (reconcileScopeStream env s d sc)"
  unfolding reconcileScopeStream_def
proof (rule frame_scope_case)
  fix s1 r
  assume own1: "owns s1 r sc"
  obtain s2 should where plan: "shouldStreamScope env s1 d sc = (s2, should)"
    by (cases "shouldStreamScope env s1 d sc")
  have f2: "st_frame X s1 s2" using frame_should [of X s1 env d sc] plan by simp
  have start: "st_frame X s1 (scheduleStreamingStart s2 d sc)"
    using ref by (intro st_frame_trans [OF f2 frame_scheduleStreamingStart [OF _ X]]) simp
  have stop: "st_frame X s1 (stopStreamingScope (upd_runtime s2 r (\<lambda>rt. clearStreamingReady rt d sc None)) d sc False)"
    (is "st_frame X s1 (stopStreamingScope ?s3 d sc False)")
  proof (rule st_frame_step [OF f2])
    assume "grows s1 s2"
    then have "owns s2 r sc" using own1 owns_grows by blast
    then have "st_frame X s2 ?s3" by (rule frame_upd1 [OF rt_frame_events(2) [OF ref X]])
    then show "st_frame X s2 (stopStreamingScope ?s3 d sc False)"
      by (rule st_frame_trans [OF _ frame_stopStreamingScope [OF ref X]])
  qed
  obtain s3 t where run: "run_runtime s2 r (\<lambda>rt. resetStreamStartRetry rt d sc) = (s3, t)"
    by (cases "run_runtime s2 r (\<lambda>rt. resetStreamStartRetry rt d sc)")
  have clear: "st_frame X s1 (clearTimer s3 t)"
  proof (rule st_frame_step [OF f2])
    assume "grows s1 s2"
    then have "owns s2 r sc" using own1 owns_grows by blast
    then show "st_frame X s2 (clearTimer s3 t)" by (rule frame_reset_retry [OF ref _ X run])
  qed
  from f2 start stop clear plan run
  show "st_frame X s1 (let alreadyStreaming = isStreamingStartingOrActive (runtime s1 r) d sc
        in case shouldStreamScope env s1 d sc of (s2, should) \<Rightarrow>
          if should
          then (if \<not> alreadyStreaming then scheduleStreamingStart s2 d sc else s2)
          else if alreadyStreaming
          then stopStreamingScope (upd_runtime s2 r (\<lambda>rt. clearStreamingReady rt d sc None)) d sc False
          else case run_runtime s2 r (\<lambda>rt. resetStreamStartRetry rt d sc) of (s3, t) \<Rightarrow> clearTimer s3 t)"
    by (simp add: Let_def)
qed

lemma frame_handleStreamingScopeChanges:
  assumes X: "X \<subseteq> {Reads, Polls}"
  shows "st_frame X s (handleStreamingScopeChanges env s runtimes)"
  unfolding handleStreamingScopeChanges_def
proof (rule st_frame_fold)
  fix v s1
  assume "orch_wf s1"
  obtain d :: string and config :: domain_registration where v: "v = (d, config)" by (cases v)
  have "st_frame X s1 (fold (\<lambda>r s2. fold (\<lambda>sc s3. reconcileScopeStream env s3 d sc)
      (getEnabledScopes (runtime s2 r) d) s2) runtimes s1)"
  proof (rule st_frame_fold)
    fix r s2
    assume wf2: "orch_wf s2"
    show "st_frame X s2 (fold (\<lambda>sc s3. reconcileScopeStream env s3 d sc) (getEnabledScopes (runtime s2 r) d) s2)"
    proof (rule st_frame_fold)
      fix sc s3
      assume "sc \<in> set (getEnabledScopes (runtime s2 r) d)"
      then show "st_frame X s3 (reconcileScopeStream env s3 d sc)"
        by (intro frame_reconcileScopeStream X enabled_scope_refs [OF wf2])
    qed
  qed
  then show "st_frame X s1 ((case v of (domain, config) \<Rightarrow> \<lambda>s1.
         if rg_streaming config = None then s1
         else fold (\<lambda>r s2. fold (\<lambda>scope s3. reconcileScopeStream env s3 domain scope)
                (getEnabledScopes (runtime s2 r) domain) s2) runtimes s1) s1)"
    by (simp add: v)
qed

lemma wf_configs:
  assumes "orch_wf s" and "map_of (oc_configs s) d = Some config"
  shows "CHR '':'' \<notin> set d"
proof -
  have "(d, config) \<in> set (oc_configs s)" using assms(2) by (rule map_of_SomeD)
  with assms(1) show ?thesis unfolding orch_wf_def by force
qed

lemma target_vref:
  assumes "orch_wf s" and "getStreamingTarget s d sc = Inr (streaming, target)"
  shows "vref d target"
proof -
  have "normalizeDomainScope d sc = Inr (Some target)" and "map_of (oc_configs s) d \<noteq> None"
    using assms(2) by (auto simp: getStreamingTarget_def getConfig_def split: sum.splits option.splits)
  then show ?thesis using normalize_vref wf_configs [OF assms(1)] by blast
qed

lemma frame_restart:
  assumes X: "X \<subseteq> {Reads, Polls}"
  shows "st_frame X s (fst (restartStreamingDomain env s d sc))"
proof (rule st_frameI)
  assume wf: "orch_wf s"
  show "st_frame X s (fst (restartStreamingDomain env s d sc))"
  proof (cases "getStreamingTarget s d sc")
    case (Inr v)
    obtain streaming target where v: "v = (streaming, target)" by (cases v)
    have ref: "vref d target" using target_vref [OF wf] Inr v by simp
    show ?thesis
      using st_frame_trans [OF frame_stopStreamingScope [OF ref X] frame_startStreamingScope [OF ref X]]
      by (simp add: restartStreamingDomain_def Inr v)
  qed (simp add: restartStreamingDomain_def)
qed

lemma frame_refresh_once:
  assumes X: "X \<subseteq> {Reads, Polls}"
  shows "st_frame X s (fst (refreshStreamingDomainOnce env s d sc))"
  using frame_restart [OF X] frame_ops(6)
  by (auto simp: refreshStreamingDomainOnce_def split: sum.split prod.split)

lemma frame_query_only:
  assumes X: "X \<subseteq> {Reads, Polls}"
  shows "st_frame X s (fst (reconcileQueryOnlyDemand env s d sc options config r))"
proof (cases "fo_query_reconcile options \<and> hasScopedDemand (runtime s r) d sc QueryDemand \<and>
    \<not> hasScopedDemand (runtime s r) d sc SnapshotDemand")
  case True
  obtain s1 expected where plan: "(if rg_streaming config = None then (s, False) else shouldStreamScope env s d sc) = (s1, expected)"
    by (cases "if rg_streaming config = None then (s, False) else shouldStreamScope env s d sc")
  have f1: "st_frame X s s1" using plan frame_should [of X s env d sc] by (auto split: if_splits)
  have f2: "st_frame X s (record_fallback s1 d sc)"
    unfolding record_fallback_def by (rule st_frame_trans [OF f1 frame_ops(6)])
  have "st_frame X s (upd_scope s1 d sc u)" "st_frame X s (upd_scope (record_fallback s1 d sc) d sc u)" for u
    by (rule st_frame_trans [OF f1 frame_ops(1)], rule st_frame_trans [OF f2 frame_ops(1)])
  with True f1 plan show ?thesis
    unfolding reconcileQueryOnlyDemand_def Let_def plan prod.case by (auto simp: Let_def)
qed (auto simp: reconcileQueryOnlyDemand_def Let_def)

lemma frame_streaming_fetch:
  assumes X: "X \<subseteq> {Reads, Polls}"
  shows "st_frame X s (fst (reconcileStreamingFetch env s d sc options streaming r))"
proof (cases streaming)
  case (Some g)
  obtain s1 should where plan: "shouldStreamScope env s d sc = (s1, should)" by (cases "shouldStreamScope env s d sc")
  obtain s2 refresh where act: "(if should \<and> isUserIntent options \<and> \<not> fo_coalesce options \<and> isResourceStreamDomain d
      then isStreamingActive_in s1 d sc else (s1, False)) = (s2, refresh)"
    by (cases "if should \<and> isUserIntent options \<and> \<not> fo_coalesce options \<and> isResourceStreamDomain d
      then isStreamingActive_in s1 d sc else (s1, False)")
  have f1: "st_frame X s s1" using frame_should [of X s env d sc] plan by simp
  have f2: "st_frame X s s2"
    using act frame_active [of X s1 d sc] by (auto split: if_splits intro: st_frame_trans [OF f1])
  have "st_frame X s (record_fallback s2 d sc)"
    unfolding record_fallback_def by (rule st_frame_trans [OF f2 frame_ops(6)])
  moreover have "st_frame X s (fst (refreshStreamingDomainOnce env s2 d sc))"
    by (rule st_frame_trans [OF f2 frame_refresh_once [OF X]])
  ultimately show ?thesis
    using f2 by (auto simp: reconcileStreamingFetch_def Some plan act split: prod.split)
qed (simp add: reconcileStreamingFetch_def)

end
