(* ===== verification/Orchestrator_Answers.thy ===== *)
theory Orchestrator_Answers
  imports Orchestrator_Quiet
begin

text \<open>
  The frames of the refresh orchestrator's operations on reads: code that starts, shares, cancels or settles a read
  keeps polls and streams, and applying an answer keeps every part.
\<close>

declare map_of_eq_Some_iff [simp del] Some_eq_map_of_iff [simp del] job_refs.simps [simp del]

section \<open>Steps on the read lists\<close>

lemma frame_lists_reads:
  assumes "oc_runtimes s' = oc_runtimes s" and "oc_clusters s' = oc_clusters s" and "oc_next s \<le> oc_next s'"
    and "oc_timers s' = oc_timers s" and "oc_configs s' = oc_configs s"
    and polls: "\<And>p. orch_wf s \<Longrightarrow> p \<in> set (oc_polls s') \<Longrightarrow> p \<notin> set (oc_polls s) \<Longrightarrow> pl_deadline p < oc_next s' \<and>
        (\<forall>k dl. (pl_deadline p, k, dl) \<in> set (oc_timers s) \<longrightarrow> is_deadline k)"
    and refs: "\<And>ref. orch_wf s \<Longrightarrow> ref \<in> refs s' \<Longrightarrow> ref \<in> refs s \<or> ref_ok s ref"
    and keep: "\<And>x. x \<in> X \<Longrightarrow> lists_keep x s s'" and reads: "orch_wf s \<Longrightarrow> reads_ok s'"
  shows "st_frame X s s'"
  unfolding st_frame_def
proof (intro impI conjI ballI)
  assume wf: "orch_wf s"
  have rt: "runtime s' = runtime s" and own: "owns s' = owns s" and cur: "isRuntimeCurrent s' = isRuntimeCurrent s"
    using runtime_cong [of s' s] owns_cong [of s' s] current_cong [of s' s] assms(1,2) by simp_all
  have later: "t < oc_next s \<Longrightarrow> t < oc_next s'" for t using assms(3) by simp
  have "runtimes_ok s'" "clusters_ok s'"
    using wf rt own assms(1-5) by (auto simp: orch_wf_def runtimes_ok_def clusters_ok_def)
  moreover have "pl_deadline p < oc_next s' \<and> (\<forall>k dl. (pl_deadline p, k, dl) \<in> set (oc_timers s) \<longrightarrow> is_deadline k)"
    if "p \<in> set (oc_polls s')" for p
  proof (cases "p \<in> set (oc_polls s)")
    case True
    with wf later show ?thesis unfolding orch_wf_def timers_ok_def by blast
  qed (use polls [OF wf that] in simp)
  then have "timers_ok s'"
    using wf later assms(4) by (fastforce simp: orch_wf_def timers_ok_def)
  moreover have "record_timers_ok s'"
  proof (rule record_timers_ok_le)
    show "record_timers_ok s" using wf by (simp add: orch_wf_def)
    show "armed_as s t k \<Longrightarrow> armed_as s' t k" for t k using later assms(4) by (simp add: armed_as_def)
  qed (simp add: rt)
  moreover have "ref_ok s' = ref_ok s" by (simp add: fun_eq_iff ref_ok_def own)
  then have "\<forall>ref\<in>refs s'. ref_ok s' ref"
    using wf refs [OF wf] unfolding orch_wf_def by auto
  ultimately show "orch_wf s'" using wf reads [OF wf] assms(5) by (simp add: orch_wf_def)
  show "grows s s'" using assms(1-5) rt cur by (simp add: grows_def)
  show "x \<in> X \<Longrightarrow> keeps x s s'" for x
    using keep by (simp add: keeps_def recs_keep_def rt)
qed

text \<open>The steps that leave the reads under way alone; they may be aborted.\<close>

definition same_reads :: "orch \<Rightarrow> orch \<Rightarrow> bool" where
  "same_reads s s' \<longleftrightarrow> executions_of (oc_jobs s') = executions_of (oc_jobs s) \<and>
     oc_request_counter s \<le> oc_request_counter s' \<and> oc_context s \<le> oc_context s' \<and>
     set (oc_aborted s) \<subseteq> set (oc_aborted s')"

declare same_reads_def [simp]

lemma same_reads_ok:
  "orch_wf s \<Longrightarrow> oc_runtimes s' = oc_runtimes s \<Longrightarrow> oc_clusters s' = oc_clusters s \<Longrightarrow> same_reads s s' \<Longrightarrow> reads_ok s'"
  by (rule reads_ok_same [of s]) (simp_all add: same_reads_def orch_wf_def)

lemma frame_lists:
  assumes "oc_runtimes s' = oc_runtimes s" and "oc_clusters s' = oc_clusters s" and "oc_next s \<le> oc_next s'"
    and "oc_timers s' = oc_timers s" and "oc_configs s' = oc_configs s"
    and "\<And>p. orch_wf s \<Longrightarrow> p \<in> set (oc_polls s') \<Longrightarrow> p \<notin> set (oc_polls s) \<Longrightarrow> pl_deadline p < oc_next s' \<and>
        (\<forall>k dl. (pl_deadline p, k, dl) \<in> set (oc_timers s) \<longrightarrow> is_deadline k)"
    and "\<And>ref. orch_wf s \<Longrightarrow> ref \<in> refs s' \<Longrightarrow> ref \<in> refs s \<or> ref_ok s ref"
    and "\<And>x. x \<in> X \<Longrightarrow> lists_keep x s s'" and "same_reads s s'"
  shows "st_frame X s s'"
  using assms same_reads_ok [OF _ assms(1,2,9)] by (intro frame_lists_reads)

lemma frame_read_lists_reads:
  assumes "oc_runtimes s' = oc_runtimes s" and "oc_clusters s' = oc_clusters s" and "oc_next s \<le> oc_next s'"
    and "oc_timers s' = oc_timers s" and "oc_configs s' = oc_configs s"
    and "oc_ready s' = oc_ready s" and "oc_starts s' = oc_starts s"
    and "oc_auto_refresh s' = oc_auto_refresh s" and "oc_hidden s' = oc_hidden s"
    and core: "map poll_core (oc_polls s') = map poll_core (oc_polls s)"
    and refs: "\<And>ref. ref \<in> (\<Union>j\<in>set (oc_jobs s'). job_refs j) \<Longrightarrow>
        ref \<in> (\<Union>j\<in>set (oc_jobs s). job_refs j) \<or> ref_ok s ref"
    and X: "X \<subseteq> {Polls, Streams}" and reads: "orch_wf s \<Longrightarrow> reads_ok s'"
  shows "st_frame X s s'"
proof (rule frame_lists_reads)
  have cores: "poll_core ` set (oc_polls s') = poll_core ` set (oc_polls s)"
    using core by (metis set_map)
  fix p
  assume wf: "orch_wf s" and "p \<in> set (oc_polls s')"
  then obtain p0 where "p0 \<in> set (oc_polls s)" "poll_core p0 = poll_core p" using cores by (metis imageE imageI)
  then have "p0 \<in> set (oc_polls s)" "pl_deadline p = pl_deadline p0" by (simp_all add: poll_core_def)
  then show "pl_deadline p < oc_next s' \<and> (\<forall>k dl. (pl_deadline p, k, dl) \<in> set (oc_timers s) \<longrightarrow> is_deadline k)"
    using wf assms(3) by (fastforce simp: orch_wf_def timers_ok_def)
next
  have refs_core: "poll_ref ` set (oc_polls s') = poll_ref ` set (oc_polls s)"
  proof -
    have "poll_ref = fst \<circ> snd \<circ> poll_core" by (simp add: fun_eq_iff poll_core_def)
    then have "map poll_ref (oc_polls s') = map poll_ref (oc_polls s)"
      using core by (metis map_map)
    then show ?thesis by (metis set_map)
  qed
  show "ref \<in> refs s' \<Longrightarrow> ref \<in> refs s \<or> ref_ok s ref" for ref
    using refs [of ref] refs_core assms(4,6,7) unfolding refs_def by auto
next
  show "x \<in> X \<Longrightarrow> lists_keep x s s'" for x
    using X assms by (cases x) (auto simp: other_timers_def retry_timers_def)
qed (use assms in simp_all)

lemma frame_read_lists:
  assumes "oc_runtimes s' = oc_runtimes s" and "oc_clusters s' = oc_clusters s" and "oc_next s \<le> oc_next s'"
    and "oc_timers s' = oc_timers s" and "oc_configs s' = oc_configs s"
    and "oc_ready s' = oc_ready s" and "oc_starts s' = oc_starts s"
    and "oc_auto_refresh s' = oc_auto_refresh s" and "oc_hidden s' = oc_hidden s"
    and "map poll_core (oc_polls s') = map poll_core (oc_polls s)"
    and "\<And>ref. ref \<in> (\<Union>j\<in>set (oc_jobs s'). job_refs j) \<Longrightarrow>
        ref \<in> (\<Union>j\<in>set (oc_jobs s). job_refs j) \<or> ref_ok s ref"
    and "X \<subseteq> {Polls, Streams}" and "same_reads s s'"
  shows "st_frame X s s'"
  using assms same_reads_ok [OF _ assms(1,2,13)] by (intro frame_read_lists_reads)

lemma frame_tell_owner: "X \<subseteq> {Polls, Streams} \<Longrightarrow> st_frame X s (tell_owner s owner failure)"
  by (rule frame_read_lists) (cases owner; simp add: tell_owner_def poll_core_def poll_ref_def same_reads_def)+

lemma frame_add_job:
  assumes "\<And>ref j. fj_stage j = stage \<Longrightarrow> fj_domain j = d \<Longrightarrow> fj_scope j = sc \<Longrightarrow> ref \<in> job_refs j \<Longrightarrow> ref_ok s ref"
    and X: "X \<subseteq> {Polls, Streams}" and idle: "\<And>ex. stage \<noteq> StageExecuting ex"
  shows "st_frame X s (add_job s owner d sc options stage)"
proof (rule frame_read_lists [OF _ _ _ _ _ _ _ _ _ _ _ X])
  have "executions_of [\<lparr>fj_id = n, fj_owner = owner, fj_domain = d, fj_scope = sc, fj_options = options, fj_stage = stage\<rparr>] = []"
    for n
  proof (cases stage)
    case (StageExecuting ex)
    with idle [of ex] show ?thesis by simp
  qed (simp_all add: executions_of_def)
  then show "same_reads s (add_job s owner d sc options stage)"
    by (simp add: same_reads_def add_job_def fresh_def executions_append)
qed (use assms(1) [of "\<lparr>fj_id = oc_next s, fj_owner = owner, fj_domain = d, fj_scope = sc, fj_options = options,
        fj_stage = stage\<rparr>"] in \<open>auto simp: add_job_def fresh_def\<close>)

text \<open>A read is given its request: the record tracks it and its number is new.\<close>

definition started :: "orch \<Rightarrow> string \<Rightarrow> fetch_execution \<Rightarrow> bool" where
  "started s d ex \<longleftrightarrow> tracked s d ex \<and> ex_context ex \<le> oc_context s \<and> ex_request ex \<le> oc_request_counter s \<and>
     (\<forall>(_, ex')\<in>set (executions_of (oc_jobs s)). ex_request ex' \<noteq> ex_request ex)"

lemma frame_add_execution:
  assumes ref: "ref_ok s (ex_runtime ex, d, ex_scope ex)" and X: "X \<subseteq> {Polls, Streams}" and new: "started s d ex"
  shows "st_frame X s (add_job s owner d sc options (StageExecuting ex))" (is "st_frame X s ?s")
proof (rule frame_read_lists_reads [OF _ _ _ _ _ _ _ _ _ _ _ X])
  let ?j = "\<lparr>fj_id = oc_next s, fj_owner = owner, fj_domain = d, fj_scope = sc, fj_options = options,
      fj_stage = StageExecuting ex\<rparr>"
  have s': "?s = s\<lparr>oc_next := Suc (oc_next s), oc_jobs := oc_jobs s @ [?j]\<rparr>" by (simp add: add_job_def fresh_def)
  have jobs: "executions_of (oc_jobs ?s) = executions_of (oc_jobs s) @ [(d, ex)]"
    unfolding s' by (simp add: executions_append) (simp add: executions_of_def)
  assume wf: "orch_wf s"
  then have ok: "reads_ok s" by (simp add: orch_wf_def)
  have "runtime ?s = runtime s" "isRuntimeCurrent ?s = isRuntimeCurrent s"
    unfolding s' by (rule runtime_cong, simp, rule current_cong, simp_all)
  then have same: "tracked ?s = tracked s" "fetchCanCommit ?s = fetchCanCommit s"
    by (simp_all add: fun_eq_iff tracked_def fetchCanCommit_def is_aborted_def s')
  note old = ok [unfolded reads_ok_def] and ex = new [unfolded started_def]
  have "distinct (map (ex_request \<circ> snd) (executions_of (oc_jobs ?s)))"
    unfolding jobs using old ex by force
  moreover have "ex_request e \<le> oc_request_counter s \<and> ex_context e \<le> oc_context s \<and> (fetchCanCommit s e \<longrightarrow> tracked s d' e)"
    if "(d', e) \<in> set (executions_of (oc_jobs ?s))" for d' e
    using that old ex unfolding jobs by auto
  moreover have "oc_request_counter ?s = oc_request_counter s" "oc_context ?s = oc_context s" by (simp_all add: s')
  ultimately show "reads_ok ?s" unfolding reads_ok_def same by auto
qed (use ref in \<open>auto simp: add_job_def fresh_def job_refs.simps\<close>)

lemma executions_filter:
  "set (executions_of (filter P js)) \<subseteq> set (executions_of js)"
  "distinct (map g (executions_of js)) \<Longrightarrow> distinct (map g (executions_of (filter P js)))"
proof -
  show sub: "set (executions_of (filter P js)) \<subseteq> set (executions_of js)" for js
    by (auto simp: executions_iff)
  show "distinct (map g (executions_of js)) \<Longrightarrow> distinct (map g (executions_of (filter P js)))"
  proof (induction js)
    case (Cons j js)
    have "g ` set (executions_of (filter P js)) \<subseteq> g ` set (executions_of js)" using sub by (rule image_mono)
    with Cons show ?case by (auto simp: executions_cons split: job_stage.splits)
  qed (simp add: executions_of_def)
qed

lemma frame_remove_job: "X \<subseteq> {Polls, Streams} \<Longrightarrow> st_frame X s (remove_job s job)"
proof (rule frame_read_lists_reads)
  let ?s = "remove_job s job"
  assume "orch_wf s"
  then have ok: "reads_ok s" by (simp add: orch_wf_def)
  have "runtime ?s = runtime s" "isRuntimeCurrent ?s = isRuntimeCurrent s"
    unfolding remove_job_def by (rule runtime_cong, simp, rule current_cong, simp_all)
  then have same: "tracked ?s = tracked s" by (simp add: fun_eq_iff tracked_def)
  have jobs: "oc_jobs ?s = filter (\<lambda>j. fj_id j \<noteq> fj_id job) (oc_jobs s)" by (simp add: remove_job_def)
  show "reads_ok ?s"
  proof (rule reads_ok_le [OF ok])
    show "p \<in> set (executions_of (oc_jobs ?s)) \<Longrightarrow> p \<in> set (executions_of (oc_jobs s))" for p
      unfolding jobs using executions_filter(1) by blast
    show "distinct (map (ex_request \<circ> snd) (executions_of (oc_jobs ?s)))"
      unfolding jobs by (rule executions_filter(2)) (use ok in \<open>simp add: reads_ok_def\<close>)
  qed (simp_all add: same, simp_all add: remove_job_def)
qed (auto simp: remove_job_def)

lemma frame_abort_one: "X \<subseteq> {Polls, Streams} \<Longrightarrow> st_frame X s (abort_one s c reason)"
  by (rule frame_read_lists) (cases "is_aborted s c"; auto simp add: abort_one_def same_reads_def)+

lemma frame_abort_signal: "X \<subseteq> {Polls, Streams} \<Longrightarrow> st_frame X s (abort_signal s c reason)"
  unfolding abort_signal_def
  by (auto intro!: st_frame_trans [OF frame_abort_one st_frame_fold] frame_abort_one split: prod.split)

lemma frame_forward: "st_frame X s (fst (forwardAbortSignal s signal c))"
  by (auto simp: forwardAbortSignal_def fresh_def same_core_def intro!: frame_neutral split: option.split)

section \<open>Cancelling reads\<close>

lemma teardown_record:
  assumes ok: "rt_ok rt" and st: "map_of (cr_states rt) key = Some st"
  obtains sc where "sr_scope st = Some sc" and "vref (sr_domain st) sc" and "rec_at rt (sr_domain st) sc = st"
    and "teardownInFlight rt key i = (fst (applyFetchEvent rt (sr_domain st) (Some sc) (FetchCancelled i)),
      if transitionScopedFetchState (sr_fetch st) (FetchCancelled i) = sr_fetch st then None else trackedRequest (sr_fetch st))"
    and "sc \<in> scopes_of rt"
proof -
  have mem: "st \<in> set (state_values rt)" using st by (force simp: state_values_def dest: map_of_SomeD)
  with ok obtain sc where sc: "sr_scope st = Some sc" "trim sc = sc" by (auto simp: rt_ok_def)
  have inv: "runtime_inv rt" using ok by (simp add: rt_ok_def)
  have ref: "vref (sr_domain st) sc" using state_values_ok(3) [OF inv mem] sc by (simp add: vref_def)
  have at: "rec_at rt (sr_domain st) sc = st" using state_values_ok(5) [OF inv mem] sc by simp
  have "teardownInFlight rt key i = (fst (applyFetchEvent rt (sr_domain st) (Some sc) (FetchCancelled i)),
      if transitionScopedFetchState (sr_fetch st) (FetchCancelled i) = sr_fetch st then None else trackedRequest (sr_fetch st))"
    unfolding teardownInFlight_def st option.case Let_def sc(1) applyFetchEvent_modify [OF inv vref_valid [OF ref]] prod.case at
      fst_conv by simp
  moreover have "sc \<in> scopes_of rt" using mem sc by (auto simp: scopes_of_def)
  ultimately show thesis using that sc(1) ref at by blast
qed

lemma rt_shape_teardown:
  assumes X: "X \<subseteq> {Polls, Streams}"
  shows "rt_rel timer_le X {} rt (fst (teardownInFlight rt key i))"
proof (cases "rt_ok rt \<and> map_of (cr_states rt) key \<noteq> None")
  case True
  then obtain st where st: "map_of (cr_states rt) key = Some st" and ok: "rt_ok rt" by auto
  from teardown_record [OF ok st, of i] obtain sc where ref: "vref (sr_domain st) sc"
    and run: "fst (teardownInFlight rt key i) = fst (applyFetchEvent rt (sr_domain st) (Some sc) (FetchCancelled i))"
    and "sc \<in> scopes_of rt" by (metis fst_conv)
  moreover have "rt_rel timer_le X {sc} rt (fst (teardownInFlight rt key i))"
    using rt_shape_fetch_event [OF ref X, of "FetchCancelled i" rt] by (simp add: run)
  ultimately show ?thesis by (auto simp: rt_rel_def)
qed (auto simp: rt_rel_def teardownInFlight_def split: option.split)

text \<open>A record whose read was cancelled is free, and the method returns that read.\<close>

lemma teardown_fetch:
  assumes ok: "rt_ok rt" and ref: "vref d sc"
  shows "fetch_of (rec_at (fst (teardownInFlight rt key i)) d sc) = fetch_of (rec_at rt d sc) \<or>
    fetch_of (rec_at (fst (teardownInFlight rt key i)) d sc) = None \<and>
    (\<exists>request trailing. fetch_of (rec_at rt d sc) = Some request \<and> snd (teardownInFlight rt key i) = Some (request, trailing))"
proof (cases "map_of (cr_states rt) key")
  case (Some st)
  have inv: "runtime_inv rt" using ok by (simp add: rt_ok_def)
  from teardown_record [OF ok Some, of i] obtain sc' where ref': "vref (sr_domain st) sc'" and at: "rec_at rt (sr_domain st) sc' = st"
    and run: "teardownInFlight rt key i = (fst (applyFetchEvent rt (sr_domain st) (Some sc') (FetchCancelled i)),
      if transitionScopedFetchState (sr_fetch st) (FetchCancelled i) = sr_fetch st then None else trackedRequest (sr_fetch st))"
    by metis
  have read: "rec_at (fst (teardownInFlight rt key i)) d sc = (if d = sr_domain st \<and> sc = sc'
      then after_store (st\<lparr>sr_fetch := transitionScopedFetchState (sr_fetch st) (FetchCancelled i)\<rparr>) else rec_at rt d sc)"
    unfolding run fst_conv applyFetchEvent_modify [OF inv vref_valid [OF ref']]
    using getScopeState_modify [OF inv vref_valid [OF ref'] vref_valid [OF ref] local_update_fields(4),
        of "\<lambda>st. transitionScopedFetchState (sr_fetch st) (FetchCancelled i)"] at by simp
  have out: "snd (teardownInFlight rt key i) = (if transitionScopedFetchState (sr_fetch st) (FetchCancelled i) = sr_fetch st
      then None else trackedRequest (sr_fetch st))" by (simp add: run)
  show ?thesis
    unfolding read out
    by (cases "d = sr_domain st \<and> sc = sc'"; cases "sr_fetch st") (auto simp: at fetch_of_def after_store_fields)
qed (simp add: teardownInFlight_def)

lemma teardown_in_flight_eq:
  "teardown_in_flight s r key i =
     (case teardownInFlight (runtime s r) key i of
        (rt, None) \<Rightarrow> set_runtime s r rt
      | (rt, Some (request, _)) \<Rightarrow>
          set_runtime (remove_listener (abort_one s (rq_controller request) AbortCancelled) (rq_cleanup request)) r rt)"
proof -
  obtain rt out where run: "teardownInFlight (runtime s r) key i = (rt, out)" by (cases "teardownInFlight (runtime s r) key i")
  have "remove_listener (abort_one (set_runtime s r rt) c AbortCancelled) l = set_runtime (remove_listener (abort_one s c AbortCancelled) l) r rt"
    for c l by (simp add: set_runtime_def abort_one_def is_aborted_def remove_listener_def split: option.split)
  then show ?thesis
    unfolding teardown_in_flight_def run_runtime_def run prod.case by (simp split: option.split prod.split)
qed

lemma runtime_teardown:
  "runtime (teardown_in_flight s r key i) r' =
     (if r' = r \<and> r < length (oc_runtimes s) then fst (teardownInFlight (runtime s r) key i) else runtime s r')"
proof -
  have "oc_runtimes (remove_listener (abort_one s c AbortCancelled) l) = oc_runtimes s" for c l
    by (simp add: abort_one_def remove_listener_def split: option.split)
  then have "runtime (remove_listener (abort_one s c AbortCancelled) l) = runtime s"
    "length (oc_runtimes (remove_listener (abort_one s c AbortCancelled) l)) = length (oc_runtimes s)" for c l
    by (simp_all add: runtime_cong [of "remove_listener (abort_one s c AbortCancelled) l" s])
  then show ?thesis by (auto simp: teardown_in_flight_eq split: prod.split option.split)
qed

lemma frame_teardown:
  assumes X: "X \<subseteq> {Polls, Streams}"
  shows "st_frame X s (teardown_in_flight s r key i)"
proof -
  obtain rt out where run: "teardownInFlight (runtime s r) key i = (rt, out)" by (cases "teardownInFlight (runtime s r) key i")
  have shape: "rt_rel timer_le X {} (runtime s r) rt" using rt_shape_teardown [OF X, of "runtime s r" key i] run by simp
  note fetch = teardown_fetch [of "runtime s r" _ _ key i, unfolded run fst_conv snd_conv]
  show ?thesis
  proof (cases out)
    case None
    have "st_frame X s (set_runtime s r rt)"
    proof (rule frame_set_runtime_shape [OF shape])
      fix d ex
      assume "orch_wf s" and "vref d (ex_scope ex)"
      then show "fetch_of (rec_at rt d (ex_scope ex)) = fetch_of (rec_at (runtime s r) d (ex_scope ex))"
        using fetch [OF runtime_wf] None by auto
    qed simp
    then show ?thesis by (simp add: teardown_in_flight_eq run None)
  next
    case (Some p)
    then obtain request trailing where out: "out = Some (request, trailing)" by (cases p) auto
    let ?s1 = "remove_listener (abort_one s (rq_controller request) AbortCancelled) (rq_cleanup request)"
    have same: "oc_runtimes ?s1 = oc_runtimes s" by (simp add: abort_one_def remove_listener_def split: option.split)
    then have rt1: "runtime ?s1 = runtime s" by (rule runtime_cong)
    have aborted: "is_aborted ?s1 (rq_controller request)"
      by (auto simp: abort_one_def remove_listener_def is_aborted_def map_add_def split: option.split)
    have f1: "st_frame X s ?s1" by (rule st_frame_trans [OF frame_abort_one [OF X] frame_ops(11)])
    have "st_frame X ?s1 (set_runtime ?s1 r rt)"
    proof (rule frame_set_runtime_shape)
      show "rt_rel timer_le X {} (runtime ?s1 r) rt" using shape by (simp add: rt1)
      fix d ex
      assume wf: "orch_wf ?s1" and r: "ex_runtime ex = r" and ref: "vref d (ex_scope ex)" and can: "fetchCanCommit ?s1 ex"
        and old: "tracked ?s1 d ex"
      have "fetch_of (rec_at (runtime s r) d (ex_scope ex)) \<noteq> Some request"
        using old r can aborted by (auto simp: tracked_def rt1 fetchCanCommit_def)
      then show "fetch_of (rec_at rt d (ex_scope ex)) = fetch_of (rec_at (runtime ?s1 r) d (ex_scope ex))"
        using fetch [OF _ ref] runtime_wf [OF wf, of r] by (auto simp: rt1 out)
    qed simp
    with f1 have "st_frame X s (set_runtime ?s1 r rt)" by (rule st_frame_trans)
    then show ?thesis by (simp add: teardown_in_flight_eq run out)
  qed
qed

lemma frame_teardown_all: "X \<subseteq> {Polls, Streams} \<Longrightarrow> st_frame X s (teardown_all_in_flight s r)"
  unfolding teardown_all_in_flight_def by (rule st_frame_fold) (simp add: frame_teardown split: prod.split)

lemma frame_cancel_scope:
  "X \<subseteq> {Polls, Streams} \<Longrightarrow> st_frame X s (cancelInFlightForScopedDomain s d sc)"
  unfolding cancelInFlightForScopedDomain_def
  by (rule frame_scope_case) (simp add: frame_teardown split: option.split)

lemma initial_free: "sr_fetch (initial_scope_state d sc) = FetchIdle"
  by (simp add: initial_scope_state_def)

text \<open>Cancelling every read of a runtime leaves all its records free.\<close>

lemma cancelled_fetch:
  assumes inv: "runtime_inv rt" and ref: "vref d sc" and "fetch_of (rec_at rt d sc) = Some request"
  shows "fetch_of (rec_at (fst (teardownInFlight rt (makeInFlightKey d (Some sc)) (rq_id request))) d sc) = None"
  unfolding teardownInFlight_fst [OF inv vref_valid [OF ref]] applyFetchEvent_modify [OF inv vref_valid [OF ref]] fst_conv
  using getScopeState_modify [OF inv vref_valid [OF ref] vref_valid [OF ref] local_update_fields(4),
      of "\<lambda>st. transitionScopedFetchState (sr_fetch st) (FetchCancelled (rq_id request))"] assms(3)
  by (cases "sr_fetch (rec_at rt d sc)") (auto simp: fetch_of_def after_store_fields)

lemma teardown_all_idle:
  assumes wf: "orch_wf s" and ref: "vref d sc"
  shows "fetch_of (rec_at (runtime (teardown_all_in_flight s r) r) d sc) = None"
proof -
  let ?f = "\<lambda>((request, _), key) s'. teardown_in_flight s' r key (rq_id request)"
  let ?at = "\<lambda>s'. fetch_of (rec_at (runtime s' r) d sc)"
  have step: "?at (?f v s') = ?at s' \<or> ?at (?f v s') = None" if "orch_wf s'" for v s'
  proof -
    obtain request trailing key where v: "v = ((request, trailing), key)" by (cases v) auto
    show ?thesis
      using teardown_fetch [OF runtime_wf [OF that] ref, of r key "rq_id request"] by (auto simp: v runtime_teardown)
  qed
  have run: "orch_wf s' \<Longrightarrow> r < length (oc_runtimes s') \<Longrightarrow>
      ?at s' = None \<or> (\<exists>request trailing. ?at s' = Some request \<and> ((request, trailing), makeInFlightKey d (Some sc)) \<in> set vs) \<Longrightarrow>
      ?at (fold ?f vs s') = None" for vs s'
  proof (induction vs arbitrary: s')
    case (Cons v vs)
    have f: "st_frame {} s' (?f v s')" by (auto simp: frame_teardown split: prod.split)
    then have wf': "orch_wf (?f v s')" and len: "r < length (oc_runtimes (?f v s'))"
      using Cons.prems(1,2) by (auto simp: st_frame_def grows_def)
    have "?at (?f v s') = None" if "v = ((request, trailing), makeInFlightKey d (Some sc))" "?at s' = Some request" for request trailing
    proof -
      have inv: "runtime_inv (runtime s' r)" using runtime_wf [OF Cons.prems(1), of r] by (simp add: rt_ok_def)
      show ?thesis
        using that(2) cancelled_fetch [OF inv ref] by (simp add: that(1) runtime_teardown Cons.prems(2))
    qed
    then have "?at (?f v s') = None \<or> (\<exists>request trailing. ?at (?f v s') = Some request \<and>
        ((request, trailing), makeInFlightKey d (Some sc)) \<in> set vs)"
      using Cons.prems(3) step [OF Cons.prems(1), of v] by auto
    then show ?case using Cons.IH [OF wf' len] by simp
  qed simp
  note inv = runtime_inv_wf [OF wf, of r]
  show ?thesis
  proof (cases "?at s")
    case None
    have "orch_wf s' \<Longrightarrow> ?at s' = None \<Longrightarrow> ?at (fold ?f vs s') = None" for vs s'
    proof (induction vs arbitrary: s')
      case (Cons v vs)
      have "st_frame {} s' (?f v s')" by (auto simp: frame_teardown split: prod.split)
      then have "orch_wf (?f v s')" using Cons.prems(1) by (simp add: st_frame_def)
      moreover have "?at (?f v s') = None" using step [OF Cons.prems(1), of v] Cons.prems(2) by auto
      ultimately show ?case using Cons.IH by simp
    qed simp
    from this [OF wf None] show ?thesis by (simp add: teardown_all_in_flight_def)
  next
    case (Some request)
    then obtain trailing where fetch: "sr_fetch (rec_at (runtime s r) d sc) = Fetching request trailing"
      by (cases "sr_fetch (rec_at (runtime s r) d sc)") (auto simp: fetch_of_def)
    then have "initial_scope_state d (Some sc) \<noteq> rec_at (runtime s r) d sc" by (metis initial_free scoped_fetch_state.distinct(1))
    then obtain st where look: "map_of (cr_states (runtime s r)) (makeInFlightKey d (Some sc)) = Some st" "rec_at (runtime s r) d sc = st"
      by (auto simp: getScopeState_def split: option.splits)
    then have mem: "(makeInFlightKey d (Some sc), st) \<in> set (cr_states (runtime s r))" by (auto dest: map_of_SomeD)
    have listed: "((request, trailing), makeInFlightKey d (Some sc)) \<in> set (inFlightRequests (runtime s r))"
      unfolding inFlightRequests_def List.map_filter_def using mem fetch look(2) by force
    have "r < length (oc_runtimes s)"
      using mem by (rule contrapos_pp) (simp add: runtime_def new_runtime_def)
    then have "?at (fold ?f (inFlightRequests (runtime s r)) s) = None"
      by (rule run [OF wf]) (use Some listed in blast)
    then show ?thesis unfolding teardown_all_in_flight_def .
  qed
qed

section \<open>Starting reads\<close>

lemma frame_canFetch:
  assumes ref: "vref d sc"
  shows "st_frame X s (fst (canFetchScope env s d sc options))"
proof -
  obtain s1 retry where look: "(if isUserIntent options then (s, True)
      else case getRuntimeForScope s sc of (s1, r) \<Rightarrow> (s1, canRetryReconciliation (runtime s1 r) d sc (ev_now env))) = (s1, retry)"
    by (cases "if isUserIntent options then (s, True)
      else case getRuntimeForScope s sc of (s1, r) \<Rightarrow> (s1, canRetryReconciliation (runtime s1 r) d sc (ev_now env))")
  have f1: "st_frame X s s1"
    using look frame_getRuntimeForScope [of X s sc] by (auto split: if_splits prod.splits)
  have "st_frame X s (recordPendingClusterReadiness s1 d sc options)"
    by (rule st_frame_trans [OF f1 frame_pending [OF ref]])
  moreover obtain s2 enabled where en: "isScopedDomainEnabledInternal s1 d sc = (s2, enabled)"
    by (cases "isScopedDomainEnabledInternal s1 d sc")
  then have f2: "st_frame X s s2" using st_frame_trans [OF f1 frame_enabled [of X s1 d sc]] by simp
  moreover have "st_frame X s (reset_scope s2 d sc)" by (rule st_frame_trans [OF f2 frame_ops(2)])
  ultimately show ?thesis
    unfolding canFetchScope_def look prod.case using f1 en by (auto simp: Let_def)
qed

lemma frame_claim:
  assumes ref: "vref d sc" and own: "owns s r sc" and X: "X \<subseteq> {Polls, Streams}"
  shows "st_frame X s (fst (claimFetchSlot s d sc options r))"
proof -
  have "st_frame X s (upd_runtime s r (\<lambda>rt. latchTrailingStreamSignal rt d (Some sc)))"
    by (rule frame_upd1 [OF rt_frame_latch [OF ref X] own])
  then show ?thesis
    by (auto simp: claimFetchSlot_def frame_teardown X split: option.split)
qed

text \<open>A claimed slot is free.\<close>

lemma claimed_free:
  assumes wf: "orch_wf s" and ref: "vref d sc" and own: "owns s r sc" and claim: "claimFetchSlot s d sc options r = (s', True)"
  shows "fetch_of (rec_at (runtime s' r) d sc) = None"
proof (cases "getInFlight (runtime s r) d (Some sc)")
  case None
  with claim show ?thesis by (simp add: claimFetchSlot_def getInFlight_def fetch_of_def)
next
  case (Some p)
  then obtain request trailing where "getInFlight (runtime s r) d (Some sc) = Some (request, trailing)" by (cases p) auto
  then have "fetch_of (rec_at (runtime s r) d sc) = Some request"
    and "s' = teardown_in_flight s r (makeInFlightKey d (Some sc)) (rq_id request)"
    using claim by (auto simp: claimFetchSlot_def getInFlight_def fetch_of_def split: if_splits)
  then show ?thesis
    using cancelled_fetch [OF runtime_inv_wf [OF wf] ref] owns_runtime [OF own] by (simp add: runtime_teardown)
qed

lemma set_in_flight_read:
  assumes inv: "runtime_inv rt" and ref: "vref d sc" and ref': "vref d' sc'"
    and "rq_domain request = d" and "rq_scope request = Some sc"
  shows "fetch_of (rec_at (fst (setInFlight rt request)) d' sc') =
    (if d' = d \<and> sc' = sc then Some request else fetch_of (rec_at rt d' sc'))"
  using getScopeState_modify [OF inv vref_valid [OF ref] vref_valid [OF ref'] local_update_fields(4),
      of "\<lambda>st. transitionScopedFetchState (sr_fetch st) (FetchStarted request)"] assms(4,5)
  by (simp add: setInFlight_def applyFetchEvent_modify [OF inv vref_valid [OF ref]] fetch_of_def after_store_fields)

lemma frame_set_in_flight:
  assumes ref: "vref d sc" and own: "owns s r sc" and X: "X \<subseteq> {Polls, Streams}"
    and free: "fetch_of (rec_at (runtime s r) d sc) = None"
    and request: "rq_domain request = d" "rq_scope request = Some sc"
  shows "st_frame X s (upd_runtime s r (\<lambda>rt. fst (setInFlight rt request)))"
  unfolding upd_runtime_def
proof (rule frame_set_runtime_shape)
  show "rt_rel timer_le X {sc} (runtime s r) (fst (setInFlight (runtime s r) request))"
    unfolding setInFlight_def fst_conv request by (rule rt_shape_fetch_event [OF ref X]) (simp add: request)
  fix d' ex
  assume wf: "orch_wf s" and r: "ex_runtime ex = r" and ref': "vref d' (ex_scope ex)" and old: "tracked s d' ex"
  have "d' \<noteq> d \<or> ex_scope ex \<noteq> sc" using free old r by (auto simp: tracked_def)
  then show "fetch_of (rec_at (fst (setInFlight (runtime s r) request)) d' (ex_scope ex)) = fetch_of (rec_at (runtime s r) d' (ex_scope ex))"
    using set_in_flight_read [OF runtime_inv_wf [OF wf] ref ref' request] by auto
qed (use own in auto)

lemma frame_begin:
  assumes ref: "vref d sc" and own: "owns s r sc" and X: "X \<subseteq> {Polls, Streams}"
    and free: "fetch_of (rec_at (runtime s r) d sc) = None" and cur: "isRuntimeCurrent s r"
    and begin_eq: "beginFetch s d sc options r = (s', ex)"
  shows "st_frame X s s'" and "\<And>e. ex = Some e \<Longrightarrow> ex_runtime e = r \<and> ex_scope e = sc"
    and "\<And>e. ex = Some e \<Longrightarrow> orch_wf s \<Longrightarrow> started s' d e"
proof -
  define s1 where "s1 = upd_scope s d sc (\<lambda>previous. previous\<lparr>
      ds_status := (if ds_data (scope_state s d sc) \<noteq> None then StatusUpdating else StatusLoading), ds_error := None,
      ds_is_manual := isUserIntent options, ds_scope := Some sc\<rparr>)"
  obtain s2 controller where s2: "fresh s1 = (s2, controller)" by (cases "fresh s1")
  have f2: "st_frame X s s2"
    using st_frame_trans [OF frame_ops(1) frame_ops(12)] s2 unfolding s1_def by (metis fst_conv)
  obtain s3 cleanup where s3: "forwardAbortSignal s2 (fo_signal options) controller = (s3, cleanup)"
    by (cases "forwardAbortSignal s2 (fo_signal options) controller")
  have f3: "st_frame X s s3"
    using st_frame_trans [OF f2 frame_forward [of X s2 "fo_signal options" controller]] s3 by simp
  obtain s5 completion where s5: "fresh (s3\<lparr>oc_request_counter := oc_request_counter s3 + 1\<rparr>) = (s5, completion)"
    by (cases "fresh (s3\<lparr>oc_request_counter := oc_request_counter s3 + 1\<rparr>)")
  have "st_frame X s3 (s3\<lparr>oc_request_counter := oc_request_counter s3 + 1\<rparr>)"
    by (rule frame_read_lists [OF _ _ _ _ _ _ _ _ _ _ _ X]) simp_all
  then have f5: "st_frame X s s5"
    using st_frame_trans [OF f3 st_frame_trans [OF _ frame_ops(12)]] s5 by (metis fst_conv)
  define request where "request = \<lparr>rq_controller = controller, rq_intent = fo_intent options,
      rq_coalesce = fo_coalesce options, rq_id = oc_request_counter s3 + 1, rq_cleanup = cleanup,
      rq_completion = Some completion, rq_context = oc_context s5, rq_domain = d, rq_scope = Some sc\<rparr>"
  define s6 where "s6 = upd_runtime s5 r (\<lambda>rt. fst (setInFlight rt request))"
  have same3: "oc_runtimes s3 = oc_runtimes s" "oc_clusters s3 = oc_clusters s" "oc_jobs s3 = oc_jobs s"
    "oc_request_counter s3 = oc_request_counter s"
    using s2 s3 by (auto simp: s1_def upd_scope_def fresh_def forwardAbortSignal_def split: option.splits)
  have same5: "oc_runtimes s5 = oc_runtimes s" "oc_clusters s5 = oc_clusters s" "oc_jobs s5 = oc_jobs s"
    "oc_request_counter s5 = oc_request_counter s + 1"
    using s5 same3 by (auto simp: fresh_def)
  have rt5: "runtime s5 = runtime s" and cur5: "isRuntimeCurrent s5 r"
    using runtime_cong [OF same5(1)] current_cong [OF same5(1,2)] cur by simp_all
  have f6: "st_frame X s s6"
  proof (rule st_frame_step [OF f5])
    assume wf5: "orch_wf s5" and "grows s s5"
    then have own5: "owns s5 r sc" using own owns_grows by blast
    show "st_frame X s5 s6"
      unfolding s6_def by (rule frame_set_in_flight [OF ref own5 X]) (use free in \<open>simp_all add: request_def rt5\<close>)
  qed
  have f7: "st_frame X s (s6\<lparr>oc_store := markPendingRequest (oc_store s6) 1\<rparr>)"
    by (rule st_frame_trans [OF f6 frame_read_lists [OF _ _ _ _ _ _ _ _ _ _ _ X]]) simp_all
  have eq: "beginFetch s d sc options r =
      (if (case fo_signal options of None \<Rightarrow> False | Some signal \<Rightarrow> is_aborted s2 signal) then (s2, None)
       else (s6\<lparr>oc_store := markPendingRequest (oc_store s6) 1\<rparr>,
         Some \<lparr>ex_runtime = r, ex_scope = sc, ex_controller = controller, ex_request = oc_request_counter s3 + 1,
           ex_context = oc_context (s6\<lparr>oc_store := markPendingRequest (oc_store s6) 1\<rparr>), ex_completion = completion\<rparr>))"
    unfolding beginFetch_def Let_def s1_def [symmetric] s2 s3 s5 prod.case request_def [symmetric] s6_def [symmetric]
    by (rule refl)
  show "st_frame X s s'" using begin_eq f2 f7 unfolding eq by (auto split: if_splits)
  show "\<And>e. ex = Some e \<Longrightarrow> ex_runtime e = r \<and> ex_scope e = sc"
    using begin_eq unfolding eq by (auto split: if_splits)
  fix e
  assume "ex = Some e" and wf: "orch_wf s"
  let ?s = "s6\<lparr>oc_store := markPendingRequest (oc_store s6) 1\<rparr>"
  have s': "s' = ?s" and e: "ex_runtime e = r" "ex_scope e = sc" "ex_controller e = controller" "ex_request e = oc_request_counter s + 1"
    "ex_context e = oc_context ?s"
    using begin_eq \<open>ex = Some e\<close> same3(4) unfolding eq by (auto split: if_splits)
  have wf5: "orch_wf s5" using f5 wf by (simp add: st_frame_def)
  have name: "cr_cluster (fst (setInFlight (runtime s r) request)) = cr_cluster (runtime s r)"
    using applyFetchEvent_modify [OF runtime_inv_wf [OF wf, of r] vref_valid [OF ref], of "FetchStarted request"]
    by (simp add: setInFlight_def request_def modify_def storeScopeState_def Let_def)
  have at: "runtime ?s r = fst (setInFlight (runtime s r) request)"
  proof -
    have "runtime ?s = runtime s6" by (rule runtime_cong) simp
    then show ?thesis using owns_runtime [OF own] same5(1) by (simp add: s6_def upd_runtime_def rt5)
  qed
  have "isRuntimeCurrent ?s r"
  proof -
    have "isRuntimeCurrent ?s = isRuntimeCurrent s6" by (rule current_cong) simp_all
    then show ?thesis using cur5 by (simp add: s6_def upd_runtime_def set_runtime_current name rt5)
  qed
  moreover have "fetch_of (rec_at (runtime ?s r) d sc) = Some request"
    unfolding at by (subst set_in_flight_read [OF runtime_inv_wf [OF wf] ref ref]) (simp_all add: request_def)
  ultimately have "tracked ?s d e"
    using same3(4) by (simp add: tracked_def e request_def)
  moreover have "oc_jobs ?s = oc_jobs s" "oc_request_counter ?s = oc_request_counter s + 1"
    using same5 by (simp_all add: s6_def upd_runtime_def)
  moreover have "ex_request ex' \<noteq> oc_request_counter s + 1" if "(d', ex') \<in> set (executions_of (oc_jobs s))" for d' ex'
    using reads_okD(1) [of s d' ex'] that wf by (simp add: orch_wf_def)
  ultimately show "started s' d e" unfolding s' started_def by (auto simp: e)
qed

lemma frame_execute:
  assumes "ref_ok s (ex_runtime e, d, ex_scope e)" and X: "X \<subseteq> {Polls, Streams}" and new: "started s d e"
  shows "st_frame X s (executeFetch s owner d e options previous)"
  unfolding executeFetch_def
proof (rule st_frame_trans)
  let ?s = "s\<lparr>oc_requests := oc_requests s @ [\<lparr>nr_domain = d, nr_scope = ex_scope e, nr_controller = ex_controller e,
      nr_none_match = (case ds_source_version previous of Some v \<Rightarrow> Some v | None \<Rightarrow> ds_etag previous),
      nr_manual = (isUserIntent options \<and> \<not> isResourceStreamDomain d),
      nr_correlation = fo_correlation options, nr_intent = fo_intent options\<rparr>]\<rparr>"
  show f: "st_frame X s ?s" by (rule frame_read_lists [OF _ _ _ _ _ _ _ _ _ _ _ X]) simp_all
  have ref: "ref_ok ?s = ref_ok s" using owns_cong [of ?s s] by (simp add: fun_eq_iff ref_ok_def)
  have same: "started ?s = started s"
  proof -
    have "runtime ?s = runtime s" "isRuntimeCurrent ?s = isRuntimeCurrent s"
      by (rule runtime_cong, simp, rule current_cong, simp_all)
    then show ?thesis by (simp add: fun_eq_iff started_def tracked_def)
  qed
  show "st_frame X ?s (add_job ?s owner d (ex_scope e) options (StageExecuting e))"
    by (rule frame_add_execution [OF _ X]) (use assms(1) new in \<open>simp_all add: ref same\<close>)
qed

lemma frame_perform:
  assumes X: "X \<subseteq> {Polls, Streams}"
  shows "st_frame X s (performFetch env s owner d scope options)"
proof (rule st_frameI)
  assume wf: "orch_wf s"
  note tell = frame_tell_owner [OF X, of _ owner]
  show "st_frame X s (performFetch env s owner d scope options)"
  proof (cases "\<exists>sc config. normalizeDomainScope d scope = Inr (Some sc) \<and> getConfig s d = Inr config")
    case False
    then show ?thesis by (auto simp: performFetch_def tell split: sum.splits option.splits)
  next
    case True
    then obtain sc config where norm: "normalizeDomainScope d scope = Inr (Some sc)" and config: "getConfig s d = Inr config"
      by blast
    have "CHR '':'' \<notin> set d" using config wf_configs [OF wf, of d] by (simp add: getConfig_def split: option.splits)
    with norm have ref: "vref d sc" by (rule normalize_vref)
    define held where "held = (case getRuntimeForScope s sc of
        (s1, r) \<Rightarrow> upd_runtime s1 r (\<lambda>rt. markReconciliationPending rt d sc (ev_now env)))"
    have f_held: "st_frame X s held"
      unfolding held_def by (rule frame_scope_case) (rule frame_upd1 [OF rt_frame_recon(2) [OF ref]])
    obtain s1 can where can: "canFetchScope env s d sc options = (s1, can)" by (cases "canFetchScope env s d sc options")
    have f1: "st_frame X s s1" using frame_canFetch [OF ref, of X s env options] can by simp
    obtain s2 r where look: "getRuntimeForScope s1 sc = (s2, r)" by (cases "getRuntimeForScope s1 sc")
    obtain s3 claimed where claim: "claimFetchSlot s2 d sc options r = (s3, claimed)"
      by (cases "claimFetchSlot s2 d sc options r")
    obtain s4 ex where begin_eq: "beginFetch s3 d sc options r = (s4, ex)" by (cases "beginFetch s3 d sc options r")
    have wf1: "orch_wf s1" using f1 wf by (simp add: st_frame_def)
    note own2 = getRuntimeForScope_owns [OF wf1 look]
    have f2: "st_frame X s s2" using st_frame_trans [OF f1 frame_getRuntimeForScope [of X s1 sc]] look by simp
    have f3: "st_frame X s2 s3" using frame_claim [OF ref own2(1) X, of options] claim by simp
    then have own3: "owns s3 r sc" and wf3: "orch_wf s3"
      using own2 owns_grows by (auto simp: st_frame_def)
    have cur3: "isRuntimeCurrent s3 r" using f3 own2 owns_runtime [OF own2(1)] by (simp add: st_frame_def grows_def)
    have free: "fetch_of (rec_at (runtime s3 r) d sc) = None" if claimed
      by (rule claimed_free [OF own2(3) ref own2(1)]) (use claim that in simp)
    note f4 = frame_begin [OF ref own3 X free cur3 begin_eq]
    have own4: "owns s4 r sc" if claimed using f4(1) [OF that] wf3 own3 owns_grows by (auto simp: st_frame_def)
    have f3': "st_frame X s s3" by (rule st_frame_trans [OF f2 f3])
    have f4': "st_frame X s s4" if claimed by (rule st_frame_trans [OF f3' f4(1) [OF that]])
    have joined: "st_frame X s (add_job s3 owner d sc options (StageJoined r completion))" for completion
      by (rule st_frame_trans [OF f3' frame_add_job [OF _ X]]) (use own3 ref in \<open>auto simp: job_refs.simps ref_ok_def\<close>)
    have run: "st_frame X s (executeFetch s4 owner d e options previous)" if "ex = Some e" claimed for e previous
      by (rule st_frame_trans [OF f4' [OF that(2)] frame_execute [OF _ X f4(3) [OF that(2,1) wf3]]])
        (use f4(2) [OF that(2,1)] own4 [OF that(2)] ref in \<open>simp add: ref_ok_def\<close>)
    note told = st_frame_trans [OF _ tell]
    show ?thesis
      unfolding performFetch_def norm config can look claim begin_eq sum.case option.case prod.case held_def [symmetric] Let_def
      using told [OF st_frame_refl] told [OF f_held] told [OF f1] told [OF f3'] told [OF f4'] joined run
      by (cases ex; cases claimed) (auto split: option.split)
  qed
qed

lemma frame_joined:
  assumes "vref (fj_domain j) (fj_scope j)" and X: "X \<subseteq> {Polls, Streams}"
  shows "st_frame X s (joined_read_settled s j r)"
  by (auto simp: joined_read_settled_def job_refs.simps intro!: frame_tell_owner [OF X] frame_add_job [OF _ X]
      split: option.split)

section \<open>Applying answers\<close>

lemma frame_allowed:
  assumes ref: "vref d sc" and own: "owns s r sc"
  shows "st_frame X s (clearRefreshError (upd_scope (upd_runtime s r (\<lambda>rt. markPermissionAllowed rt d sc)) d sc u) d sc)"
  unfolding markPermissionAllowed_def
  by (rule st_frame_trans [OF frame_upd1 [OF rt_frame_permission [OF ref] own] st_frame_trans [OF frame_ops(1) frame_ops(10)]])

lemma frame_applySnapshot:
  assumes ref: "vref d sc"
  shows "st_frame X s (applySnapshot env s d snapshot etag manual sc)"
  unfolding applySnapshot_def
proof (rule frame_scope_case)
  fix s1 r
  obtain s2 enabled where en: "isScopedDomainEnabledInternal s1 d sc = (s2, enabled)"
    by (cases "isScopedDomainEnabledInternal s1 d sc")
  have f2: "st_frame X s1 s2" using frame_enabled [of X s1 d sc] en by simp
  have "st_frame X s2 (case getRuntimeForScope s2 sc of (s3, r') \<Rightarrow>
      clearRefreshError (upd_scope (upd_runtime s3 r' (\<lambda>rt. markPermissionAllowed rt d sc)) d sc u) d sc)" for u
    by (rule frame_scope_case) (rule frame_allowed [OF ref])
  then have last: "st_frame X s1 (case getRuntimeForScope s2 sc of (s3, r') \<Rightarrow>
      clearRefreshError (upd_scope (upd_runtime s3 r' (\<lambda>rt. markPermissionAllowed rt d sc)) d sc u) d sc)" for u
    by (rule st_frame_trans [OF f2])
  show "st_frame X s1 (if (case getInFlight (runtime s1 r) d (Some sc) of
          None \<Rightarrow> False | Some (request, _) \<Rightarrow> rq_context request \<noteq> oc_context s1)
        then s1
        else let payload = mergePollingListPayload (oc_store s1) d (sn_payload snapshot) (Some sc)
             in if sc = [] then s1
                else case isScopedDomainEnabledInternal s1 d sc of (s2, enabled) \<Rightarrow>
                  if \<not> enabled then s2
                  else case getRuntimeForScope s2 sc of (s3, r') \<Rightarrow>
                    let s4 = upd_runtime s3 r' (\<lambda>rt. markPermissionAllowed rt d sc);
                        s5 = upd_scope s4 d sc (\<lambda>prev. prev\<lparr>
                          ds_status := StatusReady, ds_data := Some payload, ds_stats := sn_stats snapshot,
                          ds_version := Some (sn_version snapshot),
                          ds_source_version := or_else (or_else (sn_source_version snapshot) etag)
                            (ds_source_version prev),
                          ds_source_versions := or_else (sn_source_versions snapshot) (ds_source_versions prev),
                          ds_checksum := sn_checksum snapshot,
                          ds_etag := or_else (or_else (or_else etag (sn_source_version snapshot))
                            (sn_checksum snapshot)) (ds_etag prev),
                          ds_last_updated := Some (ev_now env),
                          ds_last_manual := (if manual then Some (ev_now env) else ds_last_manual prev),
                          ds_last_auto := (if \<not> manual then Some (ev_now env) else ds_last_auto prev),
                          ds_error := None, ds_permission_denied := False, ds_is_manual := manual,
                          ds_scope := Some sc\<rparr>)
                    in clearRefreshError s5 d sc)"
    using f2 last unfolding en Let_def prod.case by (simp split: option.split)
qed

lemma frame_applyFetchResult:
  assumes ref: "vref d (ex_scope e)" and own: "owns s (ex_runtime e) (ex_scope e)"
  shows "st_frame X s (applyFetchResult env s d e options result)"
proof -
  let ?s1 = "upd_runtime s (ex_runtime e) (\<lambda>rt. markReconciled rt d (ex_scope e))"
  have f1: "st_frame X s ?s1" by (rule frame_upd1 [OF rt_frame_recon(3) [OF ref] own])
  have snap: "st_frame X s (applySnapshot env ?s1 d snapshot etag manual (ex_scope e))" for snapshot etag manual
    by (rule st_frame_trans [OF f1 frame_applySnapshot [OF ref]])
  obtain s2 enabled where en: "isScopedDomainEnabledInternal ?s1 d (ex_scope e) = (s2, enabled)"
    by (cases "isScopedDomainEnabledInternal ?s1 d (ex_scope e)")
  have f2: "st_frame X s s2" using st_frame_trans [OF f1 frame_enabled [of X ?s1 d "ex_scope e"]] en by simp
  have "st_frame X s (clearRefreshError (upd_scope (upd_runtime s2 (ex_runtime e)
      (\<lambda>rt. markPermissionAllowed rt d (ex_scope e))) d (ex_scope e) u) d (ex_scope e))" for u
  proof (rule st_frame_step [OF f2])
    assume "grows s s2"
    then have "owns s2 (ex_runtime e) (ex_scope e)" using own owns_grows by blast
    then show "st_frame X s2 (clearRefreshError (upd_scope (upd_runtime s2 (ex_runtime e)
        (\<lambda>rt. markPermissionAllowed rt d (ex_scope e))) d (ex_scope e) u) d (ex_scope e))"
      by (rule frame_allowed [OF ref])
  qed
  then show ?thesis
    unfolding applyFetchResult_def Let_def en prod.case using f2 snap by (auto split: option.split)
qed

lemma frame_recordable: "st_frame X s (fst (recordableFailure s d e failure))"
  using frame_enabled [of X s d "ex_scope e"]
  by (auto simp: recordableFailure_def split: option.split abort_reason.split prod.split)

lemma frame_handleFailure:
  assumes ref: "vref d (ex_scope e)" and own: "owns s (ex_runtime e) (ex_scope e)"
  shows "st_frame X s (handleFetchFailure env s d e options failure)"
proof -
  obtain s1 result where rec: "recordableFailure s d e failure = (s1, result)" by (cases "recordableFailure s d e failure")
  have f1: "st_frame X s s1" using frame_recordable [of X s d e failure] rec by simp
  have notify: "st_frame X s2 (notifyRefreshError env s2 d (Some (ex_scope e)) message error op replay)"
    for s2 message error op replay
    by (rule frame_notify) (use ref in simp)
  have own1: "orch_wf s \<Longrightarrow> owns s1 (ex_runtime e) (ex_scope e)"
    using f1 own owns_grows by (auto simp: st_frame_def)
  have denied: "orch_wf s \<Longrightarrow> st_frame X s1 (upd_runtime s1 (ex_runtime e)
      (\<lambda>rt. markReconciled (markPermissionDenied rt d (ex_scope e)) d (ex_scope e)))"
    using own1 unfolding markPermissionDenied_def
    by (intro frame_upd1 [OF rt_frame_trans [OF rt_frame_permission [OF ref] rt_frame_recon(3) [OF ref]]])
  have failed: "orch_wf s \<Longrightarrow> st_frame X s1 (upd_runtime s1 (ex_runtime e)
      (\<lambda>rt. markReconciliationFailed rt d (ex_scope e) now))" for now
    using own1 by (intro frame_upd1 [OF rt_frame_recon(1) [OF ref]])
  note after = st_frame_trans [OF _ st_frame_trans [OF frame_ops(1) notify]]
  show ?thesis
  proof (rule st_frameI)
    assume wf: "orch_wf s"
    have "st_frame X s1 (case (s1, result) of (s1, None) \<Rightarrow> s1 | (s1, Some failure) \<Rightarrow>
        (let scope = ex_scope e; r = ex_runtime e; message = thrown_message failure
          in if isSnapshotPermissionDenied failure then
               let s2 = upd_runtime s1 r (\<lambda>rt. markReconciled (markPermissionDenied rt d scope) d scope);
                   s3 = upd_scope s2 d scope (\<lambda>previous. previous\<lparr>
                     ds_status := StatusError, ds_error := Some (refreshFailureOf failure),
                     ds_permission_denied := True, ds_is_manual := isUserIntent options\<rparr>)
               in notifyRefreshError env s3 d (Some scope) message (Some failure) (fo_correlation options) None
             else
               let s2 = upd_runtime s1 r (\<lambda>rt. markReconciliationFailed rt d scope (ev_now env))
               in if shouldSuppressStartupError (oc_notifier s2) (ev_now env) (Some failure)
                  then upd_scope s2 d scope (\<lambda>previous. previous\<lparr>
                         ds_status := (if ds_data previous \<noteq> None then StatusReady else ds_status previous),
                         ds_error := None, ds_is_manual := isUserIntent options\<rparr>)
                  else
                    let s3 = upd_scope s2 d scope (\<lambda>previous. previous\<lparr>
                          ds_status := StatusError, ds_error := Some (refreshFailureOf failure),
                          ds_is_manual := isUserIntent options\<rparr>)
                    in notifyRefreshError env s3 d (Some scope) message (Some failure) (fo_correlation options)
                         (Some ((fetch_with (fo_intent options))\<lparr>fo_coalesce := fo_coalesce options\<rparr>))))"
      using after [OF denied [OF wf]] after [OF failed [OF wf]] st_frame_trans [OF failed [OF wf] frame_ops(1)]
      by (simp add: Let_def split: option.split)
    then show "st_frame X s (handleFetchFailure env s d e options failure)"
      unfolding handleFetchFailure_def rec by (rule st_frame_trans [OF f1])
  qed
qed

text \<open>The read's own request is settled; no other read under way has its number.\<close>

definition others_differ :: "orch \<Rightarrow> fetch_execution \<Rightarrow> bool" where
  "others_differ s ex \<longleftrightarrow> (\<forall>(_, ex')\<in>set (executions_of (oc_jobs s)). ex_request ex' \<noteq> ex_request ex)"

lemma frame_settle:
  assumes ref: "vref d sc" and own: "owns s r sc" and X: "X \<subseteq> {Polls, Streams}"
    and others: "\<And>d' ex'. (d', ex') \<in> set (executions_of (oc_jobs s)) \<Longrightarrow> ex_request ex' \<noteq> i"
  shows "st_frame X s (set_runtime s r (fst (settleInFlight (runtime s r) d (Some sc) i)))"
proof (rule frame_set_runtime_shape)
  show "rt_rel timer_le X {sc} (runtime s r) (fst (settleInFlight (runtime s r) d (Some sc) i))"
    unfolding settleInFlight_fst by (rule rt_shape_fetch_event [OF ref X]) simp
  fix d' ex
  assume wf: "orch_wf s" and mem: "(d', ex) \<in> set (executions_of (oc_jobs s))" and r: "ex_runtime ex = r"
    and ref': "vref d' (ex_scope ex)" and old: "tracked s d' ex"
  note inv = runtime_inv_wf [OF wf, of r]
  have kept: "transitionScopedFetchState f (FetchSettled i) = f" if "map_option fst (trackedRequest f) = Some request"
    "rq_id request = ex_request ex" for f request
    using that others [OF mem] by (cases f) auto
  show "fetch_of (rec_at (fst (settleInFlight (runtime s r) d (Some sc) i)) d' (ex_scope ex)) =
      fetch_of (rec_at (runtime s r) d' (ex_scope ex))"
    unfolding settleInFlight_fst applyFetchEvent_modify [OF inv vref_valid [OF ref]] fst_conv
    using getScopeState_modify [OF inv vref_valid [OF ref] vref_valid [OF ref'] local_update_fields(4),
        of "\<lambda>st. transitionScopedFetchState (sr_fetch st) (FetchSettled i)"] old r kept
    by (auto simp: tracked_def fetch_of_def after_store_fields)
qed (use own in auto)

lemma frame_finish:
  assumes ref: "vref d (ex_scope e)" and own: "owns s (ex_runtime e) (ex_scope e)" and X: "X \<subseteq> {Polls, Streams}"
    and others: "others_differ s e"
  shows "st_frame X s (finishFetch env s d e)"
proof -
  obtain s1 tracked where run: "run_runtime s (ex_runtime e)
      (\<lambda>rt. settleInFlight rt d (Some (ex_scope e)) (ex_request e)) = (s1, tracked)"
    by (cases "run_runtime s (ex_runtime e) (\<lambda>rt. settleInFlight rt d (Some (ex_scope e)) (ex_request e))")
  have "s1 = set_runtime s (ex_runtime e) (fst (settleInFlight (runtime s (ex_runtime e)) d (Some (ex_scope e)) (ex_request e)))"
    using run by (auto simp: run_runtime_def split: prod.splits)
  then have f1: "st_frame X s s1"
    using frame_settle [OF ref own X, of "ex_request e"] others by (auto simp: others_differ_def)
  define s2 where "s2 = (case tracked of None \<Rightarrow> s1 | Some (request, trailing) \<Rightarrow>
      let s1' = remove_listener s1 (rq_cleanup request)
      in if trailing \<and> ex_context e = oc_context s1'
         then performFetch env s1' NoOwner d (ex_scope e) (fetch_with StreamSignal) else s1')"
  have "st_frame X s1 s2"
    using frame_ops(11) st_frame_trans [OF frame_ops(11) frame_perform [OF X]]
    by (auto simp: s2_def Let_def split: option.split)
  with f1 have "st_frame X s s2" by (rule st_frame_trans)
  then have "st_frame X s (s2\<lparr>oc_store := markPendingRequest (oc_store s2) (- 1)\<rparr>)"
    by (rule st_frame_trans [OF _ frame_read_lists [OF _ _ _ _ _ _ _ _ _ _ _ X]]) simp_all
  then show ?thesis unfolding finishFetch_def run prod.case Let_def s2_def by simp
qed

lemma frame_answered:
  assumes ref: "vref (fj_domain j) (ex_scope e)" and own: "owns s (ex_runtime e) (ex_scope e)" and X: "X \<subseteq> {Polls, Streams}"
    and others: "others_differ s e"
  shows "st_frame X s (fetch_answered env s j e answer)"
proof -
  define s1 where "s1 = (case answer of
      Inr result \<Rightarrow> if fetchCanCommit s e then applyFetchResult env s (fj_domain j) e (fj_options j) result else s
    | Inl failure \<Rightarrow> handleFetchFailure env s (fj_domain j) e (fj_options j) failure)"
  have f: "st_frame Y s s1" for Y
    using frame_applyFetchResult [OF ref own] frame_handleFailure [OF ref own] by (simp add: s1_def split: sum.split)
  note f1 = f [of X]
  have f2: "st_frame X s (finishFetch env s1 (fj_domain j) e)" (is "st_frame X s ?s2")
  proof (rule st_frameI, rule st_frame_step [OF f1])
    assume wf: "orch_wf s" and "grows s s1"
    then have "owns s1 (ex_runtime e) (ex_scope e)" using own owns_grows by blast
    moreover have "oc_jobs s1 = oc_jobs s" using f [of "{Reads}"] wf by (simp add: st_frame_def keeps_def)
    then have "others_differ s1 e" using others by (simp add: others_differ_def)
    ultimately show "st_frame X s1 ?s2" by (rule frame_finish [OF ref _ X])
  qed
  have "st_frame X s (?s2\<lparr>oc_completed := ex_completion e # oc_completed ?s2\<rparr>)"
    by (rule st_frame_trans [OF f2 frame_read_lists [OF _ _ _ _ _ _ _ _ _ _ _ X]]) simp_all
  then show ?thesis
    unfolding fetch_answered_def Let_def s1_def [symmetric] by (rule st_frame_trans [OF _ frame_tell_owner [OF X]])
qed

section \<open>Scoped reads\<close>

lemma frame_fetch_decided: "X \<subseteq> {Polls, Streams} \<Longrightarrow> st_frame X s (fetch_decided env s job r)"
  by (simp add: fetch_decided_def frame_tell_owner frame_perform)

lemma frame_initial_snapshot:
  assumes X: "X \<subseteq> {Polls, Streams}"
  shows "st_frame X s (reconcileInitialStreamingSnapshot env s d sc streaming)"
  unfolding reconcileInitialStreamingSnapshot_def
  by (rule frame_scope_case) (simp add: frame_perform [OF X] Let_def)

lemma frame_fetchScoped:
  assumes X: "X \<subseteq> {Polls}"
  shows "st_frame X s (fetchScopedDomain env s owner d scope options)"
proof (rule st_frameI)
  assume wf: "orch_wf s"
  have XS: "X \<subseteq> {Reads, Polls}" and XR: "X \<subseteq> {Polls, Streams}" using X by auto
  note tell = frame_tell_owner [OF XR, of _ owner]
  show "st_frame X s (fetchScopedDomain env s owner d scope options)"
  proof (cases "\<exists>sc config. normalizeDomainScope d scope = Inr (Some sc) \<and> getConfig s d = Inr config")
    case False
    then show ?thesis by (auto simp: fetchScopedDomain_def tell split: sum.splits option.splits)
  next
    case True
    then obtain sc config where norm: "normalizeDomainScope d scope = Inr (Some sc)" and config: "getConfig s d = Inr config"
      by blast
    have "CHR '':'' \<notin> set d" using config wf_configs [OF wf, of d] by (simp add: getConfig_def split: option.splits)
    with norm have ref: "vref d sc" by (rule normalize_vref)
    obtain s1 r where look: "getRuntimeForScope s sc = (s1, r)" by (cases "getRuntimeForScope s sc")
    note own1 = getRuntimeForScope_owns [OF wf look]
    obtain s2 reconciled where query: "reconcileQueryOnlyDemand env s1 d sc options config r = (s2, reconciled)"
      by (cases "reconcileQueryOnlyDemand env s1 d sc options config r")
    obtain s3 mode where stream: "reconcileStreamingFetch env s2 d sc options (rg_streaming config) r = (s3, mode)"
      by (cases "reconcileStreamingFetch env s2 d sc options (rg_streaming config) r")
    have f1: "st_frame X s s1" using frame_getRuntimeForScope [of X s sc] look by simp
    have g2: "st_frame X s1 s2" using frame_query_only [OF XS, of s1 env d sc options config r] query by simp
    have g3: "st_frame X s2 s3" using frame_streaming_fetch [OF XS, of s2 env d sc options "rg_streaming config" r] stream by simp
    have f2: "st_frame X s s2" by (rule st_frame_trans [OF f1 g2])
    have f3: "st_frame X s s3" by (rule st_frame_trans [OF f2 g3])
    have own3: "owns s3 r sc"
      using st_frame_trans [OF g2 g3] own1 owns_grows by (auto simp: st_frame_def)
    have job: "st_frame X s (add_job s3 owner d sc options stage)" if "stage = StageRefreshing \<or> stage = StageDecided r" for stage
      by (rule st_frame_trans [OF f3 frame_add_job [OF _ XR]]) (use that own3 ref in \<open>auto simp: job_refs.simps ref_ok_def\<close>)
    have pending: "st_frame X s (recordPendingClusterReadiness s d sc options)" by (rule frame_pending [OF ref])
    show ?thesis
      unfolding fetchScopedDomain_def norm config look query stream sum.case option.case prod.case
      using st_frame_trans [OF pending tell] st_frame_trans [OF f2 tell] st_frame_trans [OF f3 tell] job
      by (auto split: streaming_fetch.split option.split)
  qed
qed

end
