(* ===== verification/Orchestrator_Handlers.thy ===== *)
theory Orchestrator_Handlers
  imports Orchestrator_Answers
begin

text \<open>
  The frames of the refresh orchestrator's handlers, and with them its first invariant: every reachable state is
  well-formed, so a cluster's runtime holds only its own scopes, a timer belongs to the record that names it, and
  whatever is under way goes on at the runtime that owns its scope.
\<close>

declare map_of_eq_Some_iff [simp del] Some_eq_map_of_iff [simp del] job_refs.simps [simp del]

section \<open>Polls\<close>

lemma frame_sweep: "(\<And>rt. rt_frame X {} rt (f rt)) \<Longrightarrow> st_frame X s (upd_runtime s r f)"
  by (rule frame_upd_runtime [where K = "{}"]) simp_all

lemma frame_schedulePoll:
  assumes ref: "vref d sc" and X: "X \<subseteq> {Reads, Streams}"
  shows "st_frame X s (schedulePoll s d sc)"
  unfolding schedulePoll_def
proof (rule frame_scope_case)
  fix s1 r
  assume own1: "owns s1 r sc"
  let ?s2 = "cancelPoll s1 r d sc" and ?kind = "PollTimer r d sc" and ?dl = "fst (getRefreshDomainTiming d)"
  have f2: "st_frame X s1 ?s2" by (rule frame_cancelPoll [OF ref own1 X])
  have "st_frame X s1 (upd_runtime (fst (set_timeout ?s2 ?kind ?dl)) r (\<lambda>rt. setPollTimer rt d sc (oc_next ?s2)))"
  proof (rule st_frame_step [OF f2])
    assume wf2: "orch_wf ?s2" and "grows s1 ?s2"
    then have own2: "owns ?s2 r sc" using own1 owns_grows by blast
    let ?s3 = "fst (set_timeout ?s2 ?kind ?dl)"
    have f3: "st_frame X ?s2 ?s3" by (rule frame_set_timeout) (use ref own2 X in \<open>auto simp: ref_ok_def\<close>)
    have "owns ?s3 r sc" using own2 owns_cong [of ?s3 ?s2] by (simp add: set_timeout_eq)
    then have "st_frame X ?s3 (upd_runtime ?s3 r (\<lambda>rt. setPollTimer rt d sc (oc_next ?s2)))"
      by (rule frame_set_poll [OF ref _ set_timeout_armed [OF wf2] X])
    with f3 show "st_frame X ?s2 (upd_runtime ?s3 r (\<lambda>rt. setPollTimer rt d sc (oc_next ?s2)))"
      by (rule st_frame_trans)
  qed
  with f2 show "st_frame X s1 (let s2 = ?s2
      in if \<not> isPolledDomain s2 d \<or> isPassiveWorkPaused s2 \<or> \<not> hasScopedLease (runtime s2 r) d sc then s2
         else case set_timeout s2 ?kind ?dl of (s3, t) \<Rightarrow> upd_runtime s3 r (\<lambda>rt. setPollTimer rt d sc t))"
    by (simp add: Let_def set_timeout_eq)
qed

text \<open>The poll timers a sweep collects belong to the runtime's records.\<close>

lemma polls_from_records:
  assumes ok: "rt_ok rt" and t: "t \<in> set (snd (takeAllPollTimers rt))"
  shows "\<exists>d sc. vref d sc \<and> record_timer (rec_at rt d sc) = Some t"
proof -
  from t obtain st where st: "st \<in> set (state_values rt)" "poll_timer_of st = Some t"
    unfolding takeAllPollTimers_sweep collect_sweep_eq snd_conv by (auto simp: List.map_filter_def)
  from ok st(1) obtain sc where sc: "sr_scope st = Some sc" "trim sc = sc" by (auto simp: rt_ok_def)
  from ok st(1) sc have "vref (sr_domain st) sc"
    using state_values_ok(3) [of rt st] by (simp add: vref_def rt_ok_def)
  moreover have "rec_at rt (sr_domain st) sc = st" using ok st(1) sc state_values_ok(5) [of rt st] by (simp add: rt_ok_def)
  moreover have "record_timer st = Some t" using st(2) by (simp add: record_timer_def poll_timer_of_def split: polling.splits option.splits)
  ultimately show ?thesis by metis
qed

lemma frame_clear_polls:
  assumes "\<And>t k dl. t \<in> set ts \<Longrightarrow> (t, k, dl) \<in> set (oc_timers s) \<Longrightarrow> \<not> is_retry k" and X: "X \<subseteq> {Reads, Streams}"
  shows "st_frame X s (fold (\<lambda>t s'. clearTimer s' (Some t)) ts s)"
  using assms(1)
proof (induction ts arbitrary: s)
  case (Cons t ts)
  have "st_frame X s (clearTimer s (Some t))"
    by (rule frame_clearTimer) (use X Cons.prems in fastforce)
  moreover have "st_frame X (clearTimer s (Some t)) (fold (\<lambda>t s'. clearTimer s' (Some t)) ts (clearTimer s (Some t)))"
    by (rule Cons.IH) (use Cons.prems in \<open>auto simp: clearTimer_def\<close>)
  ultimately show ?case unfolding fold_simps by (rule st_frame_trans)
qed simp

lemma frame_cancelRuntimePolls:
  assumes X: "X \<subseteq> {Reads, Streams}"
  shows "st_frame X s (cancelRuntimePolls s r)"
proof (rule st_frameI)
  assume wf: "orch_wf s"
  obtain s1 ts where run: "run_runtime s r takeAllPollTimers = (s1, ts)" by (cases "run_runtime s r takeAllPollTimers")
  have s1: "s1 = set_runtime s r (fst (takeAllPollTimers (runtime s r)))" and ts: "ts = snd (takeAllPollTimers (runtime s r))"
    using run by (auto simp: run_runtime_def split: prod.splits)
  have "st_frame X s s1" unfolding s1 by (rule frame_set_runtime [OF rt_frame_take_all_polls [OF X]]) simp
  moreover have "st_frame X s1 (fold (\<lambda>t s'. clearTimer s' (Some t)) ts s1)"
  proof (rule frame_clear_polls [OF _ X])
    fix t k dl
    assume "t \<in> set ts" and mem: "(t, k, dl) \<in> set (oc_timers s1)"
    then obtain d sc where "vref d sc" "record_timer (rec_at (runtime s r) d sc) = Some t"
      using polls_from_records [OF runtime_wf [OF wf]] ts by blast
    from wf_record_timers(1) [OF wf this] mem show "\<not> is_retry k" by (auto simp: armed_as_def s1)
  qed
  ultimately show "st_frame X s (cancelRuntimePolls s r)"
    by (simp add: cancelRuntimePolls_def run st_frame_trans)
qed

lemma frame_reschedulePolls:
  assumes X: "X \<subseteq> {Reads, Streams}"
  shows "st_frame X s (reschedulePolls s)"
  unfolding reschedulePolls_def forEachRuntime_def
proof (rule st_frame_fold)
  fix r s'
  let ?s2 = "cancelRuntimePolls s' r"
  have "st_frame X s' (fold (\<lambda>(d, sc) s'. schedulePoll s' d sc) (getLeasedScopes (runtime ?s2 r)) ?s2)"
  proof (rule st_frame_step [OF frame_cancelRuntimePolls [OF X]])
    assume wf2: "orch_wf ?s2"
    show "st_frame X ?s2 (fold (\<lambda>(d, sc) s'. schedulePoll s' d sc) (getLeasedScopes (runtime ?s2 r)) ?s2)"
    proof (rule st_frame_fold)
      fix v s1
      assume v: "v \<in> set (getLeasedScopes (runtime ?s2 r))"
      obtain d sc where eq: "v = (d, sc)" by (cases v)
      from v have "vref d sc" unfolding eq by (rule leased_scope_refs [OF wf2])
      then show "st_frame X s1 ((case v of (d, sc) \<Rightarrow> \<lambda>s'. schedulePoll s' d sc) s1)"
        by (simp add: eq frame_schedulePoll X)
    qed
  qed
  then show "st_frame X s' (let s2 = ?s2 in fold (\<lambda>(d, sc) s'. schedulePoll s' d sc) (getLeasedScopes (runtime s2 r)) s2)"
    by (simp add: Let_def)
qed

lemma frame_clear_deadline:
  assumes "p \<in> set (oc_polls s)" and X: "X \<subseteq> {Reads, Streams}"
  shows "st_frame X s (clearTimer s (Some (pl_deadline p)))"
proof (rule st_frameI)
  assume wf: "orch_wf s"
  have "\<not> is_retry k" if "(pl_deadline p, k, dl) \<in> set (oc_timers s)" for k dl
  proof -
    have "is_deadline k" using that wf assms(1) unfolding orch_wf_def timers_ok_def by blast
    then show ?thesis by (cases k) simp_all
  qed
  then show "st_frame X s (clearTimer s (Some (pl_deadline p)))" using X by (intro frame_clearTimer) blast
qed

lemma poll_refs: "orch_wf s \<Longrightarrow> p \<in> set (oc_polls s) \<Longrightarrow> ref_ok s (pl_runtime p, pl_domain p, pl_scope p)"
  by (auto simp: orch_wf_def refs_def poll_ref_def)

lemma timer_kind_refs: "orch_wf s \<Longrightarrow> (t, k, dl) \<in> set (oc_timers s) \<Longrightarrow> kind_ref k = Some ref \<Longrightarrow> ref_ok s ref"
  by (auto simp: orch_wf_def refs_def timer_refs_def)

text \<open>Ending a poll clears its deadline; the poll itself leaves the list before.\<close>

lemma frame_end_poll:
  assumes p: "p \<in> set (oc_polls s)" and X: "X \<subseteq> {Streams}"
  shows "st_frame X s (clearTimer (s\<lparr>oc_polls := filter (\<lambda>q. pl_id q \<noteq> pl_id p) (oc_polls s)\<rparr>) (Some (pl_deadline p)))"
    (is "st_frame X s (clearTimer ?s1 _)")
proof -
  have f1: "st_frame X (clearTimer s (Some (pl_deadline p)))
      ((clearTimer s (Some (pl_deadline p)))\<lparr>oc_polls := filter (\<lambda>q. pl_id q \<noteq> pl_id p) (oc_polls s)\<rparr>)"
  proof (rule frame_lists)
    show "x \<in> X \<Longrightarrow> lists_keep x (clearTimer s (Some (pl_deadline p)))
        ((clearTimer s (Some (pl_deadline p)))\<lparr>oc_polls := filter (\<lambda>q. pl_id q \<noteq> pl_id p) (oc_polls s)\<rparr>)" for x
      using X by (auto simp: retry_timers_def)
  qed (auto simp: clearTimer_def refs_def)
  moreover have "st_frame X s (clearTimer s (Some (pl_deadline p)))" using frame_clear_deadline [OF p] X by blast
  moreover have "clearTimer ?s1 (Some (pl_deadline p)) =
      (clearTimer s (Some (pl_deadline p)))\<lparr>oc_polls := filter (\<lambda>q. pl_id q \<noteq> pl_id p) (oc_polls s)\<rparr>"
    by (simp add: clearTimer_def)
  ultimately show ?thesis using st_frame_trans by metis
qed

lemma frame_poll_settles:
  assumes wf: "orch_wf s" and p: "p \<in> set (oc_polls s)" and X: "X \<subseteq> {Streams}"
  shows "st_frame X s (poll_settles s p)"
proof -
  have ref: "vref (pl_domain p) (pl_scope p)" using poll_refs [OF wf p] by (simp add: ref_ok_def)
  have "X \<subseteq> {Reads, Streams}" using X by auto
  with frame_end_poll [OF p X] st_frame_trans [OF frame_end_poll [OF p X] frame_schedulePoll [OF ref]]
  show ?thesis by (auto simp: poll_settles_def Let_def)
qed

lemma frame_runPoll:
  assumes ref: "vref d sc" and own: "owns s r sc"
  shows "st_frame {} s (runPoll env s r d sc)"
proof -
  obtain s1 t where run: "run_runtime s r (\<lambda>rt. takePollTimer rt d sc) = (s1, t)"
    by (cases "run_runtime s r (\<lambda>rt. takePollTimer rt d sc)")
  have f1: "st_frame {} s s1"
    using frame_run1 [where f = "\<lambda>rt. takePollTimer rt d sc" and X = "{}" and s = s, OF rt_frame_take_poll [OF ref] own] run by simp
  let ?s2 = "fst (fresh s1)" and ?c = "snd (fresh s1)" and ?sec = "snd (getRefreshDomainTiming d)"
  let ?s3 = "fst (set_timeout ?s2 (DeadlineTimer ?c d ?sec) (?sec * 1000))" and ?dl = "oc_next ?s2"
  let ?s4 = "fst (fresh ?s3)" and ?p = "snd (fresh ?s3)"
  let ?poll = "\<lparr>pl_id = ?p, pl_runtime = r, pl_domain = d, pl_scope = sc, pl_deadline = ?dl, pl_settled = False\<rparr>"
  let ?s5 = "?s4\<lparr>oc_polls := oc_polls ?s4 @ [?poll]\<rparr>"
  have f3: "st_frame {} s1 ?s3"
    by (rule st_frame_trans [OF frame_ops(12) frame_set_timeout]) simp_all
  have f4: "st_frame {} s ?s4" by (rule st_frame_trans [OF f1 st_frame_trans [OF f3 frame_ops(12)]])
  have f5: "st_frame {} s ?s5"
  proof (rule st_frame_step [OF f4])
    assume wf4: "orch_wf ?s4" and "grows s ?s4"
    then have own4: "owns ?s4 r sc" using own owns_grows by blast
    have armed: "(?dl, DeadlineTimer ?c d ?sec, ?sec * 1000) \<in> set (oc_timers ?s4)"
      by (simp add: set_timeout_eq fresh_def)
    have later: "?dl < oc_next ?s4" by (simp add: set_timeout_eq fresh_def)
    have only: "k = DeadlineTimer ?c d ?sec" if "(?dl, k, w) \<in> set (oc_timers ?s4)" for k w
    proof -
      have "distinct (map fst (oc_timers ?s4))" using wf4 by (simp add: orch_wf_def timers_ok_def)
      with armed that have "(DeadlineTimer ?c d ?sec, ?sec * 1000) = (k, w)"
        by (metis eq_key_imp_eq_value)
      then show ?thesis by simp
    qed
    show "st_frame {} ?s4 ?s5"
    proof (rule frame_lists)
      fix q
      assume "q \<in> set (oc_polls ?s5)" and "q \<notin> set (oc_polls ?s4)"
      then have "q = ?poll" by auto
      then show "pl_deadline q < oc_next ?s5 \<and> (\<forall>k w. (pl_deadline q, k, w) \<in> set (oc_timers ?s4) \<longrightarrow> is_deadline k)"
        using later only by fastforce
    next
      show "v \<in> refs ?s5 \<Longrightarrow> v \<in> refs ?s4 \<or> ref_ok ?s4 v" for v
        using own4 ref by (auto simp: refs_def poll_ref_def ref_ok_def)
    qed simp_all
  qed
  have "st_frame {} s (fetchScopedDomain env ?s5 (PollOwner ?p) d sc options)" for options
    by (rule st_frame_trans [OF f5 frame_fetchScoped]) simp
  with f1 show ?thesis
    unfolding runPoll_def run prod.case
    by (simp add: case_prod_beta Let_def set_timeout_eq)
qed

section \<open>Streams\<close>

lemma frame_completeStreamingStart:
  assumes ref: "vref d sc" and own: "owns s r sc" and X: "X \<subseteq> {Polls}"
  shows "st_frame X s (completeStreamingStart env s d sc streaming r t)"
proof -
  have XS: "X \<subseteq> {Reads, Polls}" and XR: "X \<subseteq> {Polls, Streams}" using X by auto
  obtain s1 enabled where en: "isScopedDomainEnabledInternal s d sc = (s1, enabled)"
    by (cases "isScopedDomainEnabledInternal s d sc")
  obtain s2 finished where fin: "run_runtime s1 r (\<lambda>rt. finishStreamingStart rt d sc t) = (s2, finished)"
    by (cases "run_runtime s1 r (\<lambda>rt. finishStreamingStart rt d sc t)")
  obtain s3 timer where res: "run_runtime s2 r (\<lambda>rt. resetStreamStartRetry rt d sc) = (s3, timer)"
    by (cases "run_runtime s2 r (\<lambda>rt. resetStreamStartRetry rt d sc)")
  let ?c = "upd_runtime s1 r (\<lambda>rt. clearStreamingCancelled (failStreamingStart rt d sc t) d sc)"
  have f1: "st_frame X s s1" using frame_enabled [of X s d sc] en by simp
  have fc: "st_frame X s ?c"
  proof (rule st_frame_step [OF f1])
    assume "grows s s1"
    then have "owns s1 r sc" using own owns_grows by blast
    then show "st_frame X s1 ?c"
      by (rule frame_upd1 [OF rt_frame_trans [OF rt_frame_events(5) [OF ref XS] rt_frame_events(6) [OF ref XS]]])
  qed
  have fs: "st_frame X s (startStreamingScope env ?c d sc)"
    by (rule st_frame_trans [OF fc frame_startStreamingScope [OF ref XS]])
  have f2: "st_frame X s s2"
  proof (rule st_frame_step [OF f1])
    assume "grows s s1"
    then have "owns s1 r sc" using own owns_grows by blast
    then have "st_frame X s1 (fst (run_runtime s1 r (\<lambda>rt. finishStreamingStart rt d sc t)))"
      by (rule frame_run1 [OF rt_frame_events(8) [OF ref XS]])
    then show "st_frame X s1 s2" by (simp add: fin)
  qed
  have f3: "st_frame X s (clearTimer s3 timer)"
  proof (rule st_frame_step [OF f2])
    assume "grows s s2"
    then have "owns s2 r sc" using own owns_grows by blast
    then show "st_frame X s2 (clearTimer s3 timer)" by (rule frame_reset_retry [OF ref _ XS res])
  qed
  have "st_frame X s (reconcileInitialStreamingSnapshot env (clearTimer s3 timer) d sc streaming)"
    by (rule st_frame_trans [OF f3 frame_initial_snapshot [OF XR]])
  then show ?thesis
    unfolding completeStreamingStart_def en fin res prod.case using f1 fc fs f2 by (auto simp: Let_def)
qed

lemma start_refs:
  assumes "orch_wf s" and "p \<in> set (oc_starts s)"
  shows "ref_ok s (sp_runtime p, sp_domain p, sp_scope p)" and "stop \<in> set (sp_stops p) \<Longrightarrow> ref_ok s stop"
  using assms by (auto simp: orch_wf_def refs_def start_ref_def)

lemma frame_start_settled:
  assumes wf: "orch_wf s" and p: "p \<in> set (oc_starts s)" and X: "X \<subseteq> {Polls}"
  shows "st_frame X s (start_settled env s p failure)"
proof -
  have XS: "X \<subseteq> {Reads, Polls}" using X by auto
  let ?s1 = "s\<lparr>oc_starts := filter (\<lambda>p'. sp_task p' \<noteq> sp_task p) (oc_starts s)\<rparr>"
  have f1: "st_frame X s ?s1"
    using frame_fewer_tasks [of "oc_ready s" s "filter (\<lambda>p'. sp_task p' \<noteq> sp_task p) (oc_starts s)" X] XS by auto
  have ref: "vref (sp_domain p) (sp_scope p)" and own: "owns ?s1 (sp_runtime p) (sp_scope p)"
    using start_refs(1) [OF wf p] owns_cong [of ?s1 s] by (simp_all add: ref_ok_def)
  define s2 where "s2 = (case failure of
      None \<Rightarrow> (case config_streaming ?s1 (sp_domain p) of
          None \<Rightarrow> ?s1
        | Some streaming \<Rightarrow>
            completeStreamingStart env ?s1 (sp_domain p) (sp_scope p) streaming (sp_runtime p) (sp_task p))
    | Some e \<Rightarrow> failStreamingStart_in env ?s1 (sp_domain p) (sp_scope p) (sp_runtime p) (sp_task p) e)"
  have f2: "st_frame X s s2"
    using st_frame_trans [OF f1 frame_completeStreamingStart [OF ref own X]] st_frame_trans [OF f1 frame_failStreamingStart [OF ref own XS]] f1
    by (simp add: s2_def split: option.split)
  have "st_frame X s (fold (stop_handler (failure = None) (sp_task p)) (sp_stops p) s2)"
  proof (rule st_frame_step [OF f2])
    assume grow: "grows s s2"
    show "st_frame X s2 (fold (stop_handler (failure = None) (sp_task p)) (sp_stops p) s2)"
    proof (rule st_frame_fold)
      fix stop s'
      assume "stop \<in> set (sp_stops p)" and "grows s2 s'"
      then have "ref_ok s' stop" using start_refs(2) [OF wf p] grow ref_ok_grows by blast
      then show "st_frame X s' (stop_handler (failure = None) (sp_task p) stop s')" by (rule frame_stop_handler [OF _ XS])
    qed
  qed
  then show ?thesis unfolding start_settled_def Let_def s2_def by simp
qed

lemma frame_retry_fires:
  assumes ref: "vref d sc" and own: "owns s r sc" and X: "X \<subseteq> {Reads, Polls}"
  shows "st_frame X s (stream_retry_fires env s r d sc)"
proof -
  obtain s1 t where run: "run_runtime s r (\<lambda>rt. takeStreamStartRetry rt d sc) = (s1, t)"
    by (cases "run_runtime s r (\<lambda>rt. takeStreamStartRetry rt d sc)")
  have "rt_frame X {sc} rt (fst (takeStreamStartRetry rt d sc))" for rt
    using rt_frame_stream_event [OF ref, of TakeStartRetry X rt] by (simp add: takeStreamStartRetry_def Let_def)
  then have "st_frame X s (fst (run_runtime s r (\<lambda>rt. takeStreamStartRetry rt d sc)))"
    by (rule frame_run1 [OF _ own])
  then have f1: "st_frame X s s1" by (simp add: run)
  obtain s2 should where plan: "shouldStreamScope env s1 d sc = (s2, should)" by (cases "shouldStreamScope env s1 d sc")
  have f2: "st_frame X s s2" using st_frame_trans [OF f1 frame_should [of X s1 env d sc]] plan by simp
  have "st_frame X s (startStreamingScope env s2 d sc)"
    by (rule st_frame_trans [OF f2 frame_startStreamingScope [OF ref X]])
  then show ?thesis unfolding stream_retry_fires_def run plan prod.case using f1 f2 by simp
qed

lemma frame_timer_fires:
  assumes wf: "orch_wf s" and t: "(t, kind, dl) \<in> set (oc_timers s)"
  shows "st_frame {} s (timer_fires env s t kind)"
proof -
  let ?s1 = "clearTimer s (Some t)"
  have only: "k = kind" if "(t, k, w) \<in> set (oc_timers s)" for k w
    using wf t that eq_key_imp_eq_value [of "oc_timers s" t "(k, w)" "(kind, dl)"]
    by (simp add: orch_wf_def timers_ok_def)
  then have f1: "st_frame {} s ?s1" by (intro frame_clearTimer) (cases "is_retry kind", auto)
  have own: "owns ?s1 = owns s" using owns_cong [of ?s1 s] by (simp add: clearTimer_def)
  show ?thesis
  proof (cases kind)
    case (PollTimer r d sc)
    with timer_kind_refs [OF wf t] have "vref d sc" "owns s r sc" by (simp_all add: ref_ok_def)
    then show ?thesis
      using st_frame_trans [OF f1 frame_runPoll] own by (simp add: timer_fires_def Let_def PollTimer)
  next
    case (RetryTimer r d sc)
    with timer_kind_refs [OF wf t] have "vref d sc" "owns s r sc" by (simp_all add: ref_ok_def)
    then show ?thesis
      using st_frame_trans [OF f1 frame_retry_fires] own by (simp add: timer_fires_def Let_def RetryTimer)
  next
    case (DeadlineTimer c d sec)
    then show ?thesis
      using st_frame_trans [OF f1 frame_abort_signal] by (simp add: timer_fires_def Let_def)
  qed
qed

section \<open>Enabling and disabling scopes\<close>

lemma frame_scope_enabled:
  assumes ref: "vref d sc" and own: "owns s r sc" and X: "X \<subseteq> {Polls}"
  shows "st_frame X s (reconcileStreamingScopeEnabled env s d sc enabled preserve r)"
proof -
  have XS: "X \<subseteq> {Reads, Polls}" and XR: "X \<subseteq> {Polls, Streams}" using X by auto
  obtain s1 plan where plan: "scopeStreamPlan env s d sc = (s1, plan)" by (cases "scopeStreamPlan env s d sc")
  have f1: "st_frame X s s1" using frame_plan [of X s env d sc] plan by simp
  have clear: "st_frame X s2 (upd_runtime s2 r (\<lambda>rt. clearStreamingReady rt d sc None))" if "grows s s2" for s2
    using that own owns_grows by (intro frame_upd1 [OF rt_frame_events(2) [OF ref XS]]) blast
  let ?c = "upd_runtime s1 r (\<lambda>rt. clearStreamingReady rt d sc None)"
  have fc: "st_frame X s ?c" by (rule st_frame_step [OF f1 clear])
  have trimmed: "vref d (trim sc)" using ref by simp
  have start: "st_frame X s (scheduleStreamingStart (if \<not> preserve then reset_scope ?c d sc else ?c) d sc)"
    by (rule st_frame_trans [OF _ frame_scheduleStreamingStart [OF trimmed XS]])
      (use fc st_frame_trans [OF fc frame_ops(2)] in simp)
  have stop: "st_frame X s (cancelInFlightForScopedDomain (stopStreamingScope ?c d sc (\<not> preserve)) d sc)"
    by (rule st_frame_trans [OF st_frame_trans [OF fc frame_stopStreamingScope [OF ref XS]] frame_cancel_scope [OF XR]])
  let ?w = "if plan = PlanOnceServiceable
      then upd_scope s1 d sc (\<lambda>previous. previous\<lparr>
             ds_status := (if ds_data previous \<noteq> None then ds_status previous else StatusInitialising),
             ds_scope := Some sc\<rparr>)
      else s1"
  have fw: "st_frame X s ?w" using f1 st_frame_trans [OF f1 frame_ops(1)] by simp
  have "st_frame X s (stopStreamingScope (upd_runtime ?w r (\<lambda>rt. clearStreamingReady rt d sc None)) d sc False)"
    by (rule st_frame_trans [OF st_frame_step [OF fw clear] frame_stopStreamingScope [OF ref XS]])
  then show ?thesis
    unfolding reconcileStreamingScopeEnabled_def plan prod.case Let_def using start stop fw by simp
qed

lemma frame_state_change:
  assumes ref: "vref d sc" and own: "owns s r sc" and X: "X \<subseteq> {Polls}"
  shows "st_frame X s (reconcileScopedDomainStateChange env s config d sc enabled preserve r changed)"
proof -
  have XR: "X \<subseteq> {Polls, Streams}" using X by auto
  have metrics: "st_frame X s (update_metrics s')" if "st_frame X s s'" for s'
    by (rule st_frame_trans [OF that frame_ops(8)])
  have c: "st_frame X s (cancelInFlightForScopedDomain s d sc)" by (rule frame_cancel_scope [OF XR])
  have "st_frame X s (reset_scope (cancelInFlightForScopedDomain s d sc) d sc)"
    by (rule st_frame_trans [OF c frame_ops(2)])
  with c show ?thesis
    by (simp add: reconcileScopedDomainStateChange_def metrics frame_scope_enabled [OF ref own X] Let_def)
qed

lemma frame_disableScope:
  assumes ref: "vref d sc"
  shows "st_frame {} s (fst (disableScopedDomain_in env s d sc preserve))"
proof (cases "getConfig s d")
  case (Inr config)
  have "st_frame {} s (case getRuntimeForScope s sc of (s1, r) \<Rightarrow>
      case run_runtime s1 r (\<lambda>rt. disableScopedDomain rt d sc) of (s2, x, changed) \<Rightarrow>
        reconcileScopedDomainStateChange env s2 config d sc False preserve r changed)"
  proof (rule frame_scope_case)
    fix s1 r
    assume own: "owns s1 r sc"
    show "st_frame {} s1 (case run_runtime s1 r (\<lambda>rt. disableScopedDomain rt d sc) of (s2, x, changed) \<Rightarrow>
        reconcileScopedDomainStateChange env s2 config d sc False preserve r changed)"
    proof (rule frame_run1_case [OF rt_frame_disable [OF ref] own])
      fix s2 x
      assume "grows s1 s2"
      then have "owns s2 r sc" using own owns_grows by blast
      then show "st_frame {} s2 (case x of (x, changed) \<Rightarrow>
          reconcileScopedDomainStateChange env s2 config d sc False preserve r changed)"
        using frame_state_change [OF ref, of s2 r "{}"] by (cases x) simp
    qed simp
  qed
  then show ?thesis
    by (cases "getRuntimeForScope s sc") (simp add: disableScopedDomain_in_def Inr case_prod_beta)
qed (simp add: disableScopedDomain_in_def)

section \<open>Leases\<close>

lemma refresh_domain_name: "refresh_domain d \<Longrightarrow> CHR '':'' \<notin> set d"
proof -
  have "list_all (\<lambda>d. CHR '':'' \<notin> set d) (map dp_domain domain_policies)"
    by (simp only: domain_policies_def policy_row_def list.map prod.case domain_policy.simps) code_simp
  then show "refresh_domain d \<Longrightarrow> CHR '':'' \<notin> set d" by (auto simp: refresh_domain_def list_all_iff)
qed

lemma refresh_domain_vref:
  "refresh_domain d \<Longrightarrow> normalizeDomainScope d sc = Inr (Some n) \<Longrightarrow> vref d n"
  using normalize_vref refresh_domain_name by blast

lemma event_vref: "refresh_domain d \<Longrightarrow> trim sc \<noteq> ''*'' \<Longrightarrow> vref d (trim sc)"
  by (simp add: vref_def valid_ref_def refresh_domain_name)

lemma scope_owned:
  assumes "orch_wf s" and "st \<in> set (state_values (runtime s r))" and "sr_scope st = Some sc"
  shows "owns s r sc"
proof (cases "r < length (oc_runtimes s)")
  case True
  have "sc \<in> scopes_of (runtime s r)" using assms(2,3) by (auto simp: scopes_of_def)
  with True assms(1) show ?thesis by (simp add: orch_wf_def runtimes_ok_def)
next
  case False
  then have "runtime s r = new_runtime []" by (simp add: runtime_def)
  with assms(2) show ?thesis by (simp add: new_runtime_def state_values_def)
qed

lemma scoped_domain_owned:
  "orch_wf s \<Longrightarrow> (d, sc) \<in> set (scopedDomains (runtime s r)) \<Longrightarrow> owns s r sc"
  by (auto simp: scopedDomains_def List.map_filter_def dest: scope_owned split: option.splits if_splits)

lemma frame_disableDomain: "st_frame {} s (disableDomain env s d)"
proof (rule st_frameI)
  assume wf: "orch_wf s"
  have "st_frame {} s (fold (\<lambda>sc s'. fst (disableScopedDomain_in env s' d sc False)) (getKnownScopes_all s d) s)"
  proof (rule st_frame_fold)
    fix sc s'
    assume "sc \<in> set (getKnownScopes_all s d)"
    then have "vref d sc" using known_scope_refs [OF wf] by (auto simp: getKnownScopes_all_def)
    then show "st_frame {} s' (fst (disableScopedDomain_in env s' d sc False))" by (rule frame_disableScope)
  qed
  then show "st_frame {} s (disableDomain env s d)"
    unfolding disableDomain_def by (rule st_frame_trans [OF _ frame_ops(8)])
qed

lemma frame_acquire:
  assumes d: "refresh_domain d"
  shows "st_frame {} s (fst (acquireScopedDomainLease env s d scope preserve demand))"
proof (cases "normalizeDomainScope d scope")
  case (Inr norm)
  show ?thesis
  proof (cases norm)
    case (Some sc)
    have ref: "vref d sc" using d Inr Some by (simp add: refresh_domain_vref)
    obtain s1 r where look: "getRuntimeForScope s sc = (s1, r)" by (cases "getRuntimeForScope s sc")
    obtain s2 result where run: "run_runtime s1 r (\<lambda>rt. acquireScopedLease rt d sc demand) = (s2, result)"
      by (cases "run_runtime s1 r (\<lambda>rt. acquireScopedLease rt d sc demand)")
    show ?thesis
    proof (rule st_frameI)
      assume wf: "orch_wf s"
      note own1 = getRuntimeForScope_owns [OF wf look]
      have "st_frame {} s1 (fst (run_runtime s1 r (\<lambda>rt. acquireScopedLease rt d sc demand)))"
        by (rule frame_run1 [OF rt_frame_acquire [OF ref] own1(1)]) simp
      then have g2: "st_frame {} s1 s2" by (simp add: run)
      then have own2: "owns s2 r sc" using own1 owns_grows by (auto simp: st_frame_def)
      have f2: "st_frame {} s s2"
        using st_frame_trans [OF frame_getRuntimeForScope [of "{}" s sc], of s2] g2 look by simp
      have "st_frame {} s (schedulePoll (reconcileScopedDomainStateChange env s2 config d sc True preserve r changed) d sc)"
        for config changed
        by (rule st_frame_trans [OF f2 st_frame_trans [OF frame_state_change [OF ref own2] frame_schedulePoll [OF ref]]]) simp_all
      moreover have "st_frame {} s (reconcileInitialStreamingSnapshot env s2 d sc streaming)" for streaming
        by (rule st_frame_trans [OF f2 frame_initial_snapshot]) simp
      ultimately show "st_frame {} s (fst (acquireScopedDomainLease env s d scope preserve demand))"
        unfolding acquireScopedDomainLease_def Inr Some look run sum.case option.case prod.case Let_def
        using f2 by (auto split: sum.split option.split)
    qed
  qed (simp add: acquireScopedDomainLease_def Inr)
qed (simp add: acquireScopedDomainLease_def)

lemma frame_reset:
  assumes d: "refresh_domain d" and X: "X \<subseteq> {Reads}"
  shows "st_frame X s (fst (resetScopedDomain s d scope))"
proof (cases "normalizeDomainScope d scope")
  case (Inr norm)
  show ?thesis
  proof (cases norm)
    case (Some sc)
    have XR: "X \<subseteq> {Reads, Streams}" and XS: "X \<subseteq> {Reads, Polls}" using X by auto
    have ref: "vref d sc" using d Inr Some by (simp add: refresh_domain_vref)
    obtain s1 r where look: "getRuntimeForScope s sc = (s1, r)" by (cases "getRuntimeForScope s sc")
    obtain s2 deferred where run: "run_runtime s1 r (\<lambda>rt. deferResetUntilReleased rt d sc) = (s2, deferred)"
      by (cases "run_runtime s1 r (\<lambda>rt. deferResetUntilReleased rt d sc)")
    obtain s3 enabled where en: "isScopedDomainEnabledInternal s2 d sc = (s3, enabled)"
      by (cases "isScopedDomainEnabledInternal s2 d sc")
    show ?thesis
    proof (rule st_frameI)
      assume wf: "orch_wf s"
      note own1 = getRuntimeForScope_owns [OF wf look]
      have "st_frame X s1 (fst (run_runtime s1 r (\<lambda>rt. deferResetUntilReleased rt d sc)))"
        by (rule frame_run1 [OF rt_frame_defer_reset [OF ref XR] own1(1)])
      then have f2: "st_frame X s s2"
        using st_frame_trans [OF frame_getRuntimeForScope [of X s sc], of s2] look by (simp add: run)
      have f3: "st_frame X s s3" using st_frame_trans [OF f2 frame_enabled [of X s2 d sc]] en by simp
      have "st_frame X s (stopStreamingScope s3 d sc True)"
        by (rule st_frame_trans [OF f3 frame_stopStreamingScope [OF ref XS]])
      with f2 f3 show "st_frame X s (fst (resetScopedDomain s d scope))"
        unfolding resetScopedDomain_def Inr Some look run en sum.case option.case prod.case
        using st_frame_trans [OF f2 frame_ops(2)] st_frame_trans [OF f3 frame_ops(2)] by simp
    qed
  qed (simp add: resetScopedDomain_def Inr)
qed (simp add: resetScopedDomain_def)

lemma frame_release:
  assumes d: "refresh_domain d"
  shows "st_frame {} s (fst (releaseScopedDomainLease env s d scope preserve demand))"
proof (cases "normalizeDomainScope d scope")
  case (Inr norm)
  show ?thesis
  proof (cases norm)
    case (Some sc)
    have ref: "vref d sc" using d Inr Some by (simp add: refresh_domain_vref)
    obtain s1 r where look: "getRuntimeForScope s sc = (s1, r)" by (cases "getRuntimeForScope s sc")
    obtain s2 result where run: "run_runtime s1 r (\<lambda>rt. releaseScopedLease rt d sc demand) = (s2, result)"
      by (cases "run_runtime s1 r (\<lambda>rt. releaseScopedLease rt d sc demand)")
    obtain s3 failure where dis: "disableScopedDomain_in env (cancelPoll s2 r d sc) d sc (preserve \<and> \<not> rl_reset result) = (s3, failure)"
      by (cases "disableScopedDomain_in env (cancelPoll s2 r d sc) d sc (preserve \<and> \<not> rl_reset result)")
    show ?thesis
    proof (rule st_frameI)
      assume wf: "orch_wf s"
      note own1 = getRuntimeForScope_owns [OF wf look]
      have "st_frame {} s1 (fst (run_runtime s1 r (\<lambda>rt. releaseScopedLease rt d sc demand)))"
        by (rule frame_run1 [OF rt_frame_release [OF ref] own1(1)]) simp
      then have g2: "st_frame {} s1 s2" by (simp add: run)
      then have own2: "owns s2 r sc" using own1 owns_grows by (auto simp: st_frame_def)
      have f2: "st_frame {} s s2"
        using st_frame_trans [OF frame_getRuntimeForScope [of "{}" s sc], of s2] g2 look by simp
      have "st_frame {} s (fst (disableScopedDomain_in env (cancelPoll s2 r d sc) d sc (preserve \<and> \<not> rl_reset result)))"
        by (rule st_frame_trans [OF f2 st_frame_trans [OF frame_cancelPoll [OF ref own2] frame_disableScope [OF ref]]]) simp
      then have f3: "st_frame {} s s3" by (simp add: dis)
      have "st_frame {} s (fst (resetScopedDomain s3 d sc))"
        by (rule st_frame_trans [OF f3 frame_reset [OF d]]) simp
      with f2 f3 show "st_frame {} s (fst (releaseScopedDomainLease env s d scope preserve demand))"
        unfolding releaseScopedDomainLease_def Inr Some look run dis sum.case option.case prod.case
        by (simp split: option.split)
    qed
  qed (simp add: releaseScopedDomainLease_def Inr)
qed (simp add: releaseScopedDomainLease_def)

section \<open>Cluster lifecycle\<close>

lemma frame_record_activation:
  assumes "\<And>sc. rq_scope request = Some sc \<Longrightarrow> vref (rq_domain request) sc"
  shows "st_frame X s (record_activation s request trailing)"
proof (cases "rq_scope request")
  case (Some sc)
  with assms have ref: "vref (rq_domain request) sc" by simp
  obtain s1 enabled where en: "isScopedDomainEnabledInternal s (rq_domain request) sc = (s1, enabled)"
    by (cases "isScopedDomainEnabledInternal s (rq_domain request) sc")
  have f1: "st_frame X s s1" using frame_enabled [of X s "rq_domain request" sc] en by simp
  note p = st_frame_trans [OF f1 frame_pending [OF ref]]
  from f1 p st_frame_trans [OF p frame_pending [OF ref]] en Some show ?thesis
    by (simp add: record_activation_def Let_def)
qed (simp add: record_activation_def)

lemma in_flight_refs:
  assumes wf: "orch_wf s" and q: "((request, trailing), key) \<in> set (inFlightRequests (runtime s r))"
  shows "\<exists>sc. rq_scope request = Some sc \<and> vref (rq_domain request) sc \<and>
     getInFlight (runtime s r) (rq_domain request) (Some sc) = Some (request, trailing) \<and>
     key = makeInFlightKey (rq_domain request) (Some sc)"
proof -
  from q obtain st where mem: "(key, st) \<in> set (cr_states (runtime s r))" and f: "sr_fetch st = Fetching request trailing"
    unfolding inFlightRequests_def List.map_filter_def by (auto elim: trackedRequest.elims)
  have st: "st \<in> set (state_values (runtime s r))" using mem by (force simp: state_values_def)
  have ok: "rt_ok (runtime s r)" by (rule runtime_wf [OF wf])
  then have inv: "runtime_inv (runtime s r)" by (simp add: rt_ok_def)
  from ok st obtain sc where sc: "sr_scope st = Some sc" "trim sc = sc" by (auto simp: rt_ok_def)
  have owned: "rq_domain request = sr_domain st" "rq_scope request = Some sc"
    using state_values_ok(1) [OF inv st] f sc by (simp_all add: record_ok_def owns_requests_def)
  have key: "key = state_key st" using inv mem by (auto simp: runtime_inv_def)
  have "getInFlight (runtime s r) (sr_domain st) (Some sc) = Some (request, trailing)"
    using state_values_ok(5) [OF inv st] sc f by (simp add: getInFlight_def)
  with owned sc state_values_ok(3) [OF inv st] key show ?thesis
    by (auto simp: vref_def state_key_def)
qed

lemma frame_activation:
  assumes X: "X \<subseteq> {Polls}"
  shows "st_frame X s (handleForegroundActivationStarted s c)"
proof (cases "map_of (oc_clusters s) c")
  case (Some r)
  let ?s1 = "stopRuntimeStreaming s r False"
  have f1: "st_frame X s ?s1" by (rule frame_stopRuntimeStreaming) (use X in auto)
  have "st_frame X s (fold (\<lambda>((request, trailing), key) s'.
      teardown_in_flight (record_activation s' request trailing) r key (rq_id request)) (inFlightRequests (runtime ?s1 r)) ?s1)"
  proof (rule st_frame_step [OF f1])
    assume wf1: "orch_wf ?s1"
    show "st_frame X ?s1 (fold (\<lambda>((request, trailing), key) s'.
      teardown_in_flight (record_activation s' request trailing) r key (rq_id request)) (inFlightRequests (runtime ?s1 r)) ?s1)"
    proof (rule st_frame_fold)
      fix v s'
      assume v: "v \<in> set (inFlightRequests (runtime ?s1 r))"
      obtain request trailing key where eq: "v = ((request, trailing), key)" by (metis surj_pair)
      have f: "st_frame X s' (record_activation s' request trailing)"
        by (rule frame_record_activation) (use in_flight_refs [OF wf1] v eq in fastforce)
      have "st_frame X s' (teardown_in_flight (record_activation s' request trailing) r key (rq_id request))"
        by (rule st_frame_trans [OF f frame_teardown]) (use X in auto)
      then show "st_frame X s' ((\<lambda>((request, trailing), key) s'.
          teardown_in_flight (record_activation s' request trailing) r key (rq_id request)) v s')"
        by (simp add: eq)
    qed
  qed
  then show ?thesis by (simp add: handleForegroundActivationStarted_def Some Let_def)
qed (simp add: handleForegroundActivationStarted_def)

lemma frame_replay:
  assumes ref: "vref (rd_domain q) (rd_scope q)" and X: "X \<subseteq> {Polls}"
  shows "st_frame X s (replayDeferredRequest env s q)"
proof -
  obtain s1 enabled where en: "isScopedDomainEnabledInternal s (rd_domain q) (rd_scope q) = (s1, enabled)"
    by (cases "isScopedDomainEnabledInternal s (rd_domain q) (rd_scope q)")
  have f1: "st_frame X s s1" using frame_enabled [of X s "rd_domain q" "rd_scope q"] en by simp
  have "st_frame X s (fold (\<lambda>intent s'. recordPendingClusterReadiness s' (rd_domain q) (rd_scope q)
      ((fetch_with intent)\<lparr>fo_coalesce := rd_coalesce q, fo_query_reconcile := rd_query_reconcile q\<rparr>)) (rd_intents q) s1)"
    by (rule st_frame_trans [OF f1 st_frame_fold]) (rule frame_pending [OF ref])
  then show ?thesis
    unfolding replayDeferredRequest_def Let_def en prod.case
    using f1 st_frame_trans [OF f1 frame_fetchScoped [OF X]] by (simp split: option.split)
qed

lemma frame_became_serviceable:
  assumes X: "X \<subseteq> {Polls}"
  shows "st_frame X s (handleClusterBecameServiceable env s c)"
proof (rule st_frameI)
  assume wf: "orch_wf s"
  define s2 where "s2 = (case map_of (oc_clusters s) c of None \<Rightarrow> s
    | Some r \<Rightarrow> (case run_runtime s r takeDeferredReadinessRequests of (s1, requests) \<Rightarrow>
        fold (\<lambda>request s'. replayDeferredRequest env s' request) requests s1))"
  have f2: "st_frame X s s2"
  proof (cases "map_of (oc_clusters s) c")
    case (Some r)
    obtain s1 qs where run: "run_runtime s r takeDeferredReadinessRequests = (s1, qs)"
      by (cases "run_runtime s r takeDeferredReadinessRequests")
    have qs: "qs = snd (takeDeferredReadinessRequests (runtime s r))"
      using run by (auto simp: run_runtime_def split: prod.splits)
    have "st_frame X s (fst (run_runtime s r takeDeferredReadinessRequests))"
      by (rule frame_run_runtime [where K = "{}"]) (simp_all add: rt_frame_take_deferred)
    then have f1: "st_frame X s s1" by (simp add: run)
    have "vref (rd_domain q) (rd_scope q)" if "q \<in> set qs" for q
    proof -
      from that obtain st where st: "st \<in> set (state_values (runtime s r))" "waiting_request st = Some q"
        unfolding qs takeDeferredReadinessRequests_sweep collect_sweep_eq snd_conv by (auto simp: List.map_filter_def)
      have ok: "rt_ok (runtime s r)" by (rule runtime_wf [OF wf])
      then have inv: "runtime_inv (runtime s r)" by (simp add: rt_ok_def)
      from ok st(1) obtain sc where sc: "sr_scope st = Some sc" "trim sc = sc" by (auto simp: rt_ok_def)
      have "rd_domain q = sr_domain st" "Some (rd_scope q) = sr_scope st"
        using state_values_ok(1) [OF inv st(1)] st(2)
        by (auto simp: record_ok_def owns_requests_def waiting_request_def split: scoped_readiness_state.splits)
      with sc state_values_ok(3) [OF inv st(1)] show ?thesis by (auto simp: vref_def)
    qed
    then have "st_frame X s1 (fold (\<lambda>request s'. replayDeferredRequest env s' request) qs s1)"
      by (intro st_frame_fold frame_replay X)
    then show ?thesis unfolding s2_def Some option.case run prod.case by (rule st_frame_trans [OF f1])
  qed (simp add: s2_def)
  have "st_frame X s2 (handleStreamingScopeChanges env s2 (getAllRuntimes s2))"
    by (rule frame_handleStreamingScopeChanges) (use X in auto)
  then show "st_frame X s (handleClusterBecameServiceable env s c)"
    unfolding handleClusterBecameServiceable_def Let_def s2_def by (rule st_frame_trans [OF f2 [unfolded s2_def]])
qed

end
