(* ===== verification/Orchestrator_Machine.thy ===== *)
theory Orchestrator_Machine
  imports Orchestrator_Handlers
begin

text \<open>
  The frames of the refresh orchestrator's session handlers, the pruning of closed clusters, and the invariant:
  every reachable state is well-formed.
\<close>

declare map_of_eq_Some_iff [simp del] Some_eq_map_of_iff [simp del] job_refs.simps [simp del]

section \<open>Authentication, permissions and stream events\<close>

lemma rt_frame_stream_sweeps:
  "rt_frame X {} rt (clearBlockedStreaming rt)" "rt_frame X {} rt (clearAllStreamHealth rt)"
  "X \<subseteq> {Reads, Polls} \<Longrightarrow> rt_frame X {} rt (clearAsyncStreamingBookkeeping rt)"
  by (simp_all add: clearBlockedStreaming_def clearAllStreamHealth_def clearAsyncStreamingBookkeeping_def rt_frame_forEach)

lemma frame_permission_epoch: "st_frame X s (resetRuntimePermissionEpoch s r)"
proof -
  obtain s1 scopes where run: "run_runtime s r resetPermissionEpoch = (s1, scopes)"
    by (cases "run_runtime s r resetPermissionEpoch")
  have "st_frame X s (fst (run_runtime s r resetPermissionEpoch))"
    by (rule frame_run_runtime [where K = "{}"]) (simp_all add: rt_frame_permission_epoch)
  then have "st_frame X s s1" by (simp add: run)
  then show ?thesis
    unfolding resetRuntimePermissionEpoch_def run prod.case
    by (rule st_frame_trans [OF _ st_frame_fold]) (auto intro: frame_ops(1))
qed

lemma frame_auth_failed:
  assumes X: "X \<subseteq> {Polls}"
  shows "st_frame X s (handleClusterAuthFailed s c)"
proof (cases "trim c = []")
  case False
  obtain s1 r where look: "getClusterRuntime s (trim c) = (s1, r)" by (cases "getClusterRuntime s (trim c)")
  obtain s2 changed where run: "run_runtime s1 r markAuthFailed = (s2, changed)" by (cases "run_runtime s1 r markAuthFailed")
  have XS: "X \<subseteq> {Reads, Polls}" and XR: "X \<subseteq> {Polls, Streams}" using X by auto
  have "st_frame X s1 (fst (run_runtime s1 r markAuthFailed))"
    by (rule frame_run_runtime [where K = "{}"]) (simp_all add: markAuthFailed_def rt_frame_auth)
  then have f2: "st_frame X s s2"
    using st_frame_trans [OF frame_getClusterRuntime [of X s "trim c"], of s2] look by (simp add: run)
  have "st_frame X s (upd_runtime (teardown_all_in_flight (stopRuntimeStreaming s2 r False) r) r clearAsyncStreamingBookkeeping)"
    by (rule st_frame_trans [OF f2 st_frame_trans [OF frame_stopRuntimeStreaming [OF XS]
            st_frame_trans [OF frame_teardown_all [OF XR] frame_sweep [OF rt_frame_stream_sweeps(3) [OF XS]]]]])
  with f2 False show ?thesis by (simp add: handleClusterAuthFailed_def Let_def look run)
qed (simp add: handleClusterAuthFailed_def)

lemma frame_auth_recovered:
  assumes X: "X \<subseteq> {Reads, Polls}"
  shows "st_frame X s (handleClusterAuthRecovered env s c)"
proof (cases "map_of (oc_clusters s) (trim c)")
  case (Some r)
  obtain s1 changed where run: "run_runtime s r markAuthRecovered = (s1, changed)" by (cases "run_runtime s r markAuthRecovered")
  have "st_frame X s (fst (run_runtime s r markAuthRecovered))"
    by (rule frame_run_runtime [where K = "{}"]) (simp_all add: markAuthRecovered_def rt_frame_auth)
  then have f1: "st_frame X s s1" by (simp add: run)
  let ?s3 = "resetRuntimePermissionEpoch (upd_runtime s1 r (\<lambda>rt. clearAllStreamHealth (clearBlockedStreaming rt))) r"
  let ?s4 = "fold (\<lambda>(d, sc) s'. clearRefreshError s' d sc) (scopedDomains (runtime ?s3 r)) ?s3"
  have "st_frame X s1 ?s4"
    by (rule st_frame_trans [OF frame_sweep [OF rt_frame_trans [OF rt_frame_stream_sweeps(1,2)]]
          st_frame_trans [OF frame_permission_epoch st_frame_fold]]) (auto intro: frame_ops(10))
  then have f4: "st_frame X s ?s4" by (rule st_frame_trans [OF f1])
  have "st_frame X s (handleStreamingScopeChanges env ?s4 (getAllRuntimes ?s4))"
    by (rule st_frame_trans [OF f4 frame_handleStreamingScopeChanges [OF X]])
  with f1 show ?thesis by (simp add: handleClusterAuthRecovered_def Let_def Some run)
qed (simp add: handleClusterAuthRecovered_def Let_def)

lemma frame_scope_changed:
  assumes X: "X \<subseteq> {Polls}"
  shows "st_frame X s (handleClusterScopeChanged env s c)"
proof -
  have XS: "X \<subseteq> {Reads, Polls}" and XR: "X \<subseteq> {Polls, Streams}" using X by auto
  let ?s1 = "s\<lparr>oc_store := resetPermissionDeniedScopedDomainStates (oc_store s) (trim c)\<rparr>"
  have f1: "st_frame X s ?s1" by (rule frame_neutral) (simp add: same_core_def)
  show ?thesis
  proof (cases "trim c = [] \<or> map_of (oc_clusters s) (trim c) = None")
    case True
    with f1 show ?thesis by (auto simp: handleClusterScopeChanged_def Let_def)
  next
    case False
    then obtain r where r: "map_of (oc_clusters s) (trim c) = Some r" by auto
    let ?s2 = "teardown_all_in_flight (stopRuntimeStreaming ?s1 r False) r"
    let ?s3 = "upd_runtime ?s2 r (\<lambda>rt. clearAllStreamHealth (clearBlockedStreaming (clearAsyncStreamingBookkeeping rt)))"
    let ?s4 = "resetRuntimePermissionEpoch ?s3 r"
    let ?f = "\<lambda>(d, sc) s'. upd_runtime (clearRefreshError s' d sc) r (\<lambda>rt. markReconciliationFailed rt d sc (ev_now env))"
    let ?s5 = "fold ?f (scopedDomains (runtime ?s4 r)) ?s4"
    have "st_frame X ?s1 ?s3"
      by (rule st_frame_trans [OF frame_stopRuntimeStreaming [OF XS] st_frame_trans [OF frame_teardown_all [OF XR]
              frame_sweep [OF rt_frame_trans [OF rt_frame_stream_sweeps(3) [OF XS] rt_frame_trans [OF rt_frame_stream_sweeps(1,2)]]]]])
    then have f4: "st_frame X s ?s4"
      by (rule st_frame_trans [OF f1 st_frame_trans [OF _ frame_permission_epoch]])
    have f5: "st_frame X s ?s5"
    proof (rule st_frame_step [OF f4])
      assume wf4: "orch_wf ?s4"
      show "st_frame X ?s4 ?s5"
      proof (rule st_frame_fold)
        fix v s'
        assume v: "v \<in> set (scopedDomains (runtime ?s4 r))" and grow: "grows ?s4 s'"
        obtain d sc where eq: "v = (d, sc)" by (cases v)
        have ref: "vref d sc" and own4: "owns ?s4 r sc"
          using v scoped_domain_refs [OF wf4] scoped_domain_owned [OF wf4] by (simp_all add: eq)
        have f: "st_frame X s' (clearRefreshError s' d sc)" by (rule frame_ops(10))
        have "st_frame X s' (upd_runtime (clearRefreshError s' d sc) r (\<lambda>rt. markReconciliationFailed rt d sc (ev_now env)))"
        proof (rule st_frame_step [OF f])
          assume "grows s' (clearRefreshError s' d sc)"
          then have "owns (clearRefreshError s' d sc) r sc" using own4 grow owns_grows by blast
          then show "st_frame X (clearRefreshError s' d sc) (upd_runtime (clearRefreshError s' d sc) r
              (\<lambda>rt. markReconciliationFailed rt d sc (ev_now env)))"
            by (rule frame_upd1 [OF rt_frame_recon(1) [OF ref]])
        qed
        then show "st_frame X s' (?f v s')" by (simp add: eq)
      qed
    qed
    have "st_frame X s (handleStreamingScopeChanges env ?s5 [r])"
      by (rule st_frame_trans [OF f5 frame_handleStreamingScopeChanges [OF XS]])
    with False r show ?thesis unfolding handleClusterScopeChanged_def Let_def by simp
  qed
qed

lemma frame_block:
  assumes ref: "vref d sc" and X: "X \<subseteq> {Reads, Polls}"
  shows "st_frame X s (fst (blockStreamingScope s d sc))"
  unfolding blockStreamingScope_def
proof (rule frame_scope_fst)
  fix s1 r
  assume own: "owns s1 r sc"
  show "st_frame X s1 (fst (case run_runtime s1 r (\<lambda>rt. blockStreaming rt d sc) of (s2, blocked) \<Rightarrow>
      if \<not> blocked then (s2, False)
      else (if config_streaming s2 d \<noteq> None then stopStreamingScope s2 d sc False else s2, True)))"
    by (rule frame_run_fst [where K = "{sc}"])
      (use own rt_frame_events(9) [OF ref X] frame_stopStreamingScope [OF ref X] in auto)
qed

lemma frame_denied:
  assumes ref: "vref d (trim sc)" and X: "X \<subseteq> {Polls}"
  shows "st_frame X s (handleResourceStreamPermissionDenied env s d sc)"
proof -
  have XS: "X \<subseteq> {Reads, Polls}" and XR: "X \<subseteq> {Polls, Streams}" using X by auto
  obtain s1 blocked where b: "blockStreamingScope s d (trim sc) = (s1, blocked)" by (cases "blockStreamingScope s d (trim sc)")
  have f1: "st_frame X s s1" using frame_block [OF ref XS, of s] b by simp
  then show ?thesis
    using st_frame_trans [OF f1 frame_perform [OF XR]] by (simp add: handleResourceStreamPermissionDenied_def Let_def b)
qed

lemma frame_drift:
  "vref d (trim sc) \<Longrightarrow> X \<subseteq> {Reads, Polls} \<Longrightarrow> st_frame X s (handleResourceStreamDrift s d sc)"
  by (simp add: handleResourceStreamDrift_def Let_def frame_block)

lemma frame_signal: "X \<subseteq> {Polls} \<Longrightarrow> st_frame X s (handleStreamSignal env s d sc)"
  by (simp add: handleStreamSignal_def frame_fetchScoped split: option.split)

lemma frame_health:
  assumes ref: "vref (hp_domain payload) (trim (hp_scope payload))"
  shows "st_frame X s (handleResourceStreamHealth s payload)"
proof -
  let ?d = "hp_domain payload" and ?sc = "trim (hp_scope payload)"
  have "st_frame X s (case getRuntimeForScope s ?sc of (s1, r) \<Rightarrow>
      case run_runtime s1 r (\<lambda>rt. setStreamHealth rt ?d ?sc payload) of (s2, previous) \<Rightarrow>
        if hp_status payload = HealthHealthy \<and> map_option hp_status previous \<noteq> Some HealthHealthy
        then upd_scope s2 ?d ?sc (\<lambda>st. st\<lparr>
               ds_stream_acknowledged := Some ((case ds_stream_acknowledged st of None \<Rightarrow> 0 | Some v \<Rightarrow> v) + 1)\<rparr>)
        else s2)"
  proof (rule frame_scope_case)
    fix s1 r
    assume own: "owns s1 r ?sc"
    show "st_frame X s1 (case run_runtime s1 r (\<lambda>rt. setStreamHealth rt ?d ?sc payload) of (s2, previous) \<Rightarrow>
        if hp_status payload = HealthHealthy \<and> map_option hp_status previous \<noteq> Some HealthHealthy
        then upd_scope s2 ?d ?sc (\<lambda>st. st\<lparr>
               ds_stream_acknowledged := Some ((case ds_stream_acknowledged st of None \<Rightarrow> 0 | Some v \<Rightarrow> v) + 1)\<rparr>)
        else s2)"
      by (rule frame_run1_case [OF rt_frame_health(2) [OF ref] own]) (simp add: frame_ops(1))
  qed
  then show ?thesis by (simp add: handleResourceStreamHealth_def Let_def)
qed

section \<open>Session events\<close>

lemma frame_forEach_sweep: "(\<And>rt. rt_frame X {} rt (f rt)) \<Longrightarrow> st_frame X s (forEachRuntime (\<lambda>r s'. upd_runtime s' r f) s)"
  unfolding forEachRuntime_def by (rule st_frame_fold) (rule frame_sweep)

lemma frame_abort_all: "X \<subseteq> {Polls, Streams} \<Longrightarrow> st_frame X s (abortAllInFlight s)"
  unfolding abortAllInFlight_def forEachRuntime_def by (rule st_frame_fold) (rule frame_teardown_all)

lemma frame_clear_streams: "st_frame X s (clearAllStreamHealth_all (clearAllBlockedStreaming s))"
  unfolding clearAllStreamHealth_all_def clearAllBlockedStreaming_def
  by (rule st_frame_trans [OF frame_forEach_sweep frame_forEach_sweep]) (simp_all add: rt_frame_stream_sweeps)

lemma frame_reset_views:
  assumes X: "X \<subseteq> {Polls}"
  shows "st_frame X s (handleResetViews s)"
proof -
  have XS: "X \<subseteq> {Reads, Polls}" and XR: "X \<subseteq> {Polls, Streams}" using X by auto
  show ?thesis
    unfolding handleResetViews_def Let_def
    by (rule st_frame_trans [OF st_frame_trans [OF frame_ops(9) st_frame_trans [OF frame_stopAllStreaming [OF XS]
            st_frame_trans [OF frame_abort_all [OF XR] frame_clear_streams]]] st_frame_fold])
      (auto intro: frame_ops(3))
qed

text \<open>No current runtime tracks a read. Domains are deleted in such states only, so no read is forgotten.\<close>

definition reads_free :: "orch \<Rightarrow> bool" where
  "reads_free s \<longleftrightarrow>
     (\<forall>r d sc. vref d sc \<longrightarrow> isRuntimeCurrent s r \<longrightarrow> fetch_of (rec_at (runtime s r) d sc) = None)"

definition free_frame :: "orch \<Rightarrow> orch \<Rightarrow> bool" where
  "free_frame s s' \<longleftrightarrow> (orch_wf s \<longrightarrow> reads_free s \<longrightarrow> orch_wf s' \<and> grows s s' \<and> reads_free s')"

lemma free_frame_trans: "free_frame a b \<Longrightarrow> free_frame b c \<Longrightarrow> free_frame a c"
  unfolding free_frame_def using grows_trans by blast

lemma free_frame_fold:
  "(\<And>v s'. v \<in> set vs \<Longrightarrow> free_frame s' (f v s')) \<Longrightarrow> free_frame s (fold f vs s)"
proof (induction vs arbitrary: s)
  case (Cons v vs)
  have "free_frame (f v s) (fold f vs (f v s))" by (rule Cons.IH) (rule Cons.prems, simp)
  moreover have "free_frame s (f v s)" by (rule Cons.prems) simp
  ultimately show ?case using free_frame_trans by simp
qed (simp add: free_frame_def)

lemma new_scope_free: "\<not> r < length (oc_runtimes s) \<Longrightarrow> rec_at (runtime s r) d sc = initial_scope_state d (Some sc)"
  by (simp add: runtime_def)

lemma free_frameI:
  assumes frame: "st_frame {} s s'"
    and recs: "\<And>r d sc. orch_wf s \<Longrightarrow> vref d sc \<Longrightarrow> fetch_of (rec_at (runtime s r) d sc) = None \<Longrightarrow>
      fetch_of (rec_at (runtime s' r) d sc) = None"
  shows "free_frame s s'"
  unfolding free_frame_def reads_free_def
proof (intro impI conjI allI)
  assume wf: "orch_wf s"
  then show "orch_wf s'" and grow: "grows s s'" using frame by (simp_all add: st_frame_def)
  fix r d sc
  assume free: "\<forall>r d sc. vref d sc \<longrightarrow> isRuntimeCurrent s r \<longrightarrow> fetch_of (rec_at (runtime s r) d sc) = None"
    and ref: "vref d sc" and cur: "isRuntimeCurrent s' r"
  have "fetch_of (rec_at (runtime s r) d sc) = None"
  proof (cases "r < length (oc_runtimes s)")
    case True
    then show ?thesis using free ref cur grow by (simp add: grows_def)
  qed (simp add: new_scope_free fetch_of_def initial_free)
  then show "fetch_of (rec_at (runtime s' r) d sc) = None" by (rule recs [OF wf ref])
qed

lemma free_reads_kept: "st_frame {Reads} s s' \<Longrightarrow> free_frame s s'"
  by (rule free_frameI)
    (auto simp: st_frame_mono, simp add: st_frame_def keeps_def recs_keep_def fetch_of_def)

lemma free_teardown: "free_frame s (teardown_in_flight s r key i)"
proof (rule free_frameI [OF frame_teardown])
  fix r' d sc
  assume "orch_wf s" and "vref d sc" and "fetch_of (rec_at (runtime s r') d sc) = None"
  then show "fetch_of (rec_at (runtime (teardown_in_flight s r key i) r') d sc) = None"
    using teardown_fetch [OF runtime_wf, of s d sc r key i] by (auto simp: runtime_teardown)
qed simp

lemma free_cancel: "free_frame s (cancelInFlightForScopedDomain s d sc)"
proof -
  have "free_frame s (fst (getRuntimeForScope s sc))" by (rule free_reads_kept [OF frame_getRuntimeForScope])
  moreover have "free_frame s1 (case getInFlight (runtime s1 r) d (Some sc) of None \<Rightarrow> s1
      | Some (request, _) \<Rightarrow> teardown_in_flight s1 r (makeInFlightKey d (Some sc)) (rq_id request))" for s1 r
    using free_teardown by (auto simp: free_frame_def split: option.split)
  ultimately show ?thesis
    unfolding cancelInFlightForScopedDomain_def by (cases "getRuntimeForScope s sc") (simp add: free_frame_trans)
qed

lemma free_disable_change:
  assumes ref: "vref d sc" and own: "owns s r sc"
  shows "free_frame s (reconcileScopedDomainStateChange env s config d sc False preserve r changed)"
proof -
  obtain s1 plan where plan: "scopeStreamPlan env s d sc = (s1, plan)" by (cases "scopeStreamPlan env s d sc")
  let ?c = "upd_runtime s1 r (\<lambda>rt. clearStreamingReady rt d sc None)"
  have f1: "st_frame {Reads} s s1" using frame_plan [of "{Reads}" s env d sc] plan by simp
  have fc: "st_frame {Reads} s ?c"
  proof (rule st_frame_step [OF f1])
    assume "grows s s1"
    then have "owns s1 r sc" using own owns_grows by blast
    then show "st_frame {Reads} s1 ?c" by (rule frame_upd1 [OF rt_frame_events(2) [OF ref], rotated]) simp
  qed
  have "st_frame {Reads} s (stopStreamingScope ?c d sc (\<not> preserve))"
    by (rule st_frame_trans [OF fc frame_stopStreamingScope [OF ref]]) simp
  from free_frame_trans [OF free_reads_kept [OF this] free_cancel]
  have streaming: "free_frame s (reconcileStreamingScopeEnabled env s d sc False preserve r)"
    by (simp add: reconcileStreamingScopeEnabled_def plan Let_def)
  have metrics: "free_frame s (update_metrics s')" if "free_frame s s'" for s'
    by (rule free_frame_trans [OF that free_reads_kept [OF frame_ops(8)]])
  have reset: "free_frame s (reset_scope s' d sc)" if "free_frame s s'" for s'
    by (rule free_frame_trans [OF that free_reads_kept [OF frame_ops(2)]])
  have "free_frame s s" by (simp add: free_frame_def)
  then show ?thesis
    using streaming free_cancel [of s d sc] by (simp add: reconcileScopedDomainStateChange_def Let_def metrics reset)
qed

lemma free_disableScope:
  assumes ref: "vref d sc"
  shows "free_frame s (fst (disableScopedDomain_in env s d sc preserve))"
  unfolding free_frame_def
proof (rule impI)
  assume wf: "orch_wf s"
  obtain s1 r where look: "getRuntimeForScope s sc = (s1, r)" by (cases "getRuntimeForScope s sc")
  note own1 = getRuntimeForScope_owns [OF wf look]
  have f1: "st_frame {Reads} s s1" using frame_getRuntimeForScope [of "{Reads}" s sc] look by simp
  obtain s2 lease changed where run: "run_runtime s1 r (\<lambda>rt. disableScopedDomain rt d sc) = (s2, lease, changed)"
    by (cases "run_runtime s1 r (\<lambda>rt. disableScopedDomain rt d sc)") auto
  have "st_frame {Reads} s1 (fst (run_runtime s1 r (\<lambda>rt. disableScopedDomain rt d sc)))"
    by (rule frame_run_runtime [where K = "{sc}"]) (use rt_frame_disable [OF ref] own1 in auto)
  then have f2: "st_frame {Reads} s1 s2" by (simp add: run)
  then have own2: "owns s2 r sc" using own1 owns_grows by (auto simp: st_frame_def)
  have "free_frame s (reconcileScopedDomainStateChange env s2 config d sc False preserve r changed)" for config
    by (rule free_frame_trans [OF free_reads_kept [OF st_frame_trans [OF f1 f2]] free_disable_change [OF ref own2]])
  then show "reads_free s \<longrightarrow> orch_wf (fst (disableScopedDomain_in env s d sc preserve)) \<and>
      grows s (fst (disableScopedDomain_in env s d sc preserve)) \<and> reads_free (fst (disableScopedDomain_in env s d sc preserve))"
    using wf by (auto simp: disableScopedDomain_in_def look run free_frame_def split: sum.split)
qed

lemma free_disableDomain: "free_frame s (disableDomain env s d)"
proof -
  have fold: "free_frame s (fold (\<lambda>sc s'. fst (disableScopedDomain_in env s' d sc False)) (getKnownScopes_all s d) s)"
    if wf: "orch_wf s"
  proof (rule free_frame_fold)
    fix sc s'
    assume "sc \<in> set (getKnownScopes_all s d)"
    then have "vref d sc" using known_scope_refs [OF wf] by (auto simp: getKnownScopes_all_def)
    then show "free_frame s' (fst (disableScopedDomain_in env s' d sc False))" by (rule free_disableScope)
  qed
  have "free_frame s (disableDomain env s d)" if "orch_wf s"
    unfolding disableDomain_def by (rule free_frame_trans [OF fold [OF that] free_reads_kept [OF frame_ops(8)]])
  then show ?thesis by (auto simp: free_frame_def)
qed

lemma free_delete_domain:
  "free_frame s (upd_runtime s r (\<lambda>rt. deleteDomain rt d))"
  "orch_wf s \<Longrightarrow> reads_free s \<Longrightarrow> st_frame {} s (upd_runtime s r (\<lambda>rt. deleteDomain rt d))"
proof -
  let ?s = "upd_runtime s r (\<lambda>rt. deleteDomain rt d)"
  show frame: "st_frame {} s ?s" if "orch_wf s" "reads_free s"
    unfolding upd_runtime_def
  proof (rule frame_set_runtime_shape [OF rt_shape_delete_domain])
    show "fetch_of (rec_at (deleteDomain (runtime s r) d) d' (ex_scope ex)) = fetch_of (rec_at (runtime s r) d' (ex_scope ex))"
      if "vref d' (ex_scope ex)" "tracked s d' ex" for d' ex
      using that \<open>reads_free s\<close> by (auto simp: tracked_def reads_free_def)
  qed simp
  have "free_frame s ?s" if wf: "orch_wf s" and free: "reads_free s"
  proof (rule free_frameI [OF frame [OF wf free]])
    fix r' d' sc
    assume "vref d' sc" and "fetch_of (rec_at (runtime s r') d' sc) = None"
    then show "fetch_of (rec_at (runtime ?s r') d' sc) = None"
      using deleteDomain_read [OF runtime_inv_wf [OF wf, of r] vref_valid, of d' sc d]
      by (auto simp: upd_runtime_def fetch_of_def initial_free)
  qed
  then show "free_frame s ?s" by (auto simp: free_frame_def)
qed

lemma free_abort_all:
  assumes wf: "orch_wf s"
  shows "reads_free (abortAllInFlight s)"
proof -
  let ?f = "\<lambda>r s'. teardown_all_in_flight s' r"
  have run: "orch_wf s' \<Longrightarrow> vref d sc \<Longrightarrow> fetch_of (rec_at (runtime s' r) d sc) = None \<or> r \<in> set rs \<Longrightarrow>
      fetch_of (rec_at (runtime (fold ?f rs s') r) d sc) = None" for rs s' r d sc
  proof (induction rs arbitrary: s')
    case (Cons q rs)
    have wf': "orch_wf (?f q s')" using frame_teardown_all [of "{}" s' q] Cons.prems(1) by (simp add: st_frame_def)
    have kept: "fetch_of (rec_at (runtime (?f q s') r) d sc) = None" if "fetch_of (rec_at (runtime s' r) d sc) = None"
    proof (cases "r = q")
      case True
      then show ?thesis using teardown_all_idle [OF Cons.prems(1,2)] by simp
    next
      case False
      have other: "runtime (fold (\<lambda>((request, _), key) s'. teardown_in_flight s' q key (rq_id request)) vs s1) r = runtime s1 r"
        for vs s1 by (induction vs arbitrary: s1) (use False in \<open>auto simp: runtime_teardown\<close>)
      show ?thesis using that by (simp add: teardown_all_in_flight_def other)
    qed
    show ?case
      using Cons.IH [OF wf' Cons.prems(2)] Cons.prems(3) kept teardown_all_idle [OF Cons.prems(1,2), of q] by auto
  qed simp
  have frame: "st_frame {} s (abortAllInFlight s)" by (rule frame_abort_all) simp
  then have wf': "orch_wf (abortAllInFlight s)" and grow: "grows s (abortAllInFlight s)" using wf by (simp_all add: st_frame_def)
  show ?thesis
    unfolding reads_free_def
  proof (intro allI impI)
    fix r d sc
    assume ref: "vref d sc" and cur: "isRuntimeCurrent (abortAllInFlight s) r"
    have "fetch_of (rec_at (runtime s r) d sc) = None \<or> r \<in> set (getAllRuntimes s)"
    proof (cases "r < length (oc_runtimes s)")
      case True
      then have "isRuntimeCurrent s r" using cur grow by (simp add: grows_def)
      then show ?thesis by (auto simp: getAllRuntimes_def isRuntimeCurrent_def dest: map_of_SomeD intro: image_eqI [rotated])
    qed (simp add: new_scope_free fetch_of_def initial_free)
    then show "fetch_of (rec_at (runtime (abortAllInFlight s) r) d sc) = None"
      unfolding abortAllInFlight_def forEachRuntime_def by (rule run [OF wf ref])
  qed
qed

lemma free_reset_and_delete:
  "free_frame s (deleteDomainFromAllRuntimes (resetDomain (disableDomain env s d) d) d)"
  unfolding deleteDomainFromAllRuntimes_def forEachRuntime_def
  by (rule free_frame_trans [OF free_disableDomain free_frame_trans [OF free_reads_kept [OF frame_ops(3)] free_frame_fold]])
    (rule free_delete_domain(1))

lemma frame_changing: "st_frame {} s (handleKubeconfigChanging env s)"
proof (rule st_frameI)
  assume wf: "orch_wf s"
  let ?s1 = "forEachRuntime (\<lambda>r s'. upd_runtime s' r (\<lambda>rt. fst (markAuthRecovered rt))) s"
  let ?s2 = "stopAllStreaming (incrementContextVersion (with_notifier ?s1 clearAll)) True"
  let ?s3 = "forEachRuntime (\<lambda>r s'. cancelRuntimePolls s' r) ?s2"
  let ?s4 = "clearAllStreamHealth_all (clearAllBlockedStreaming (abortAllInFlight ?s3))"
  let ?s5 = "fold (\<lambda>(d, _) s'. deleteDomainFromAllRuntimes (resetDomain (disableDomain env s' d) d) d) (oc_configs ?s4) ?s4"
  have "st_frame {} s ?s1"
    by (rule frame_forEach_sweep) (simp add: markAuthRecovered_def rt_frame_auth)
  moreover have "st_frame {} ?s1 ?s2"
    by (rule st_frame_trans [OF frame_ops(4) st_frame_trans [OF frame_ops(9) frame_stopAllStreaming]]) simp
  moreover have "st_frame {} ?s2 ?s3"
    by (simp add: forEachRuntime_def st_frame_fold frame_cancelRuntimePolls)
  ultimately have f3: "st_frame {} s ?s3" by (meson st_frame_trans)
  then have wf3: "orch_wf ?s3" using wf by (simp add: st_frame_def)
  have f4: "st_frame {} s ?s4"
    by (rule st_frame_trans [OF f3 st_frame_trans [OF frame_abort_all frame_clear_streams]]) simp
  then have wf4: "orch_wf ?s4" using wf by (simp add: st_frame_def)
  have wfa: "orch_wf (abortAllInFlight ?s3)" using frame_abort_all [of "{}" ?s3] wf3 by (simp add: st_frame_def)
  have free4: "reads_free ?s4"
    using free_reads_kept [OF frame_clear_streams] wfa free_abort_all [OF wf3] by (simp add: free_frame_def)
  have "free_frame ?s4 ?s5" by (rule free_frame_fold) (simp add: free_reset_and_delete split: prod.split)
  then have "orch_wf ?s5 \<and> grows ?s4 ?s5" using wf4 free4 by (simp add: free_frame_def)
  then show "st_frame {} s (handleKubeconfigChanging env s)"
    using f4 grows_trans unfolding handleKubeconfigChanging_def Let_def st_frame_def by blast
qed

lemma frame_changed:
  assumes X: "X \<subseteq> {Reads, Polls}"
  shows "st_frame X s (handleKubeconfigChanged env s)" "st_frame X s (handleKubeconfigSelectionChanged env s)"
  unfolding handleKubeconfigChanged_def handleKubeconfigSelectionChanged_def Let_def
  by (rule st_frame_trans [OF frame_ops(9) st_frame_trans [OF frame_ops(4) st_frame_trans [OF frame_clear_streams
        frame_handleStreamingScopeChanges [OF X]]]])+

lemma frame_pause:
  "X \<subseteq> {Reads, Streams} \<Longrightarrow> st_frame X s (s\<lparr>oc_auto_refresh := enabled\<rparr>)"
  "X \<subseteq> {Reads, Streams} \<Longrightarrow> st_frame X s (s\<lparr>oc_hidden := hidden\<rparr>)"
  by (rule frame_lists; auto simp: refs_def retry_timers_def; case_tac x; auto)+

lemma frame_auto_refresh:
  assumes X: "X \<subseteq> {Reads}"
  shows "st_frame X s (handleAutoRefreshChanged env s enabled)"
proof -
  have XS: "X \<subseteq> {Reads, Polls}" and XR: "X \<subseteq> {Reads, Streams}" using X by auto
  show ?thesis
    unfolding handleAutoRefreshChanged_def Let_def
    by (rule st_frame_trans [OF frame_pause(1) [OF XR] st_frame_trans [OF frame_handleStreamingScopeChanges [OF XS] frame_reschedulePolls [OF XR]]])
qed

lemma frame_hidden:
  assumes X: "X \<subseteq> {Reads, Streams}"
  shows "st_frame X s (setDocumentHidden s hidden)"
  using st_frame_trans [OF frame_pause(2) [OF X] frame_reschedulePolls [OF X]] by (simp add: setDocumentHidden_def)

section \<open>Manual refresh\<close>

lemma frame_refreshCluster:
  assumes X: "X \<subseteq> {Polls}"
  shows "st_frame X s (refreshCluster env s c)"
proof -
  have XR: "X \<subseteq> {Polls, Streams}" using X by auto
  let ?s1 = "fst (fresh (emit_event s (RefreshStart (''cluster:'' @ c))))"
  have f1: "st_frame X s ?s1" by (rule st_frame_trans [OF frame_ops(5) frame_ops(12)])
  have "st_frame X ?s1 (?s1\<lparr>oc_batches := bs\<rparr>)" for bs
    by (rule frame_read_lists [OF _ _ _ _ _ _ _ _ _ _ _ XR]) simp_all
  then have f2: "st_frame X s (?s1\<lparr>oc_batches := bs\<rparr>)" for bs by (rule st_frame_trans [OF f1])
  have "st_frame X s (fold (\<lambda>(d, sc) s'. fetchScopedDomain env s' owner d sc options) targets (?s1\<lparr>oc_batches := bs\<rparr>))"
    for owner options targets bs
    by (rule st_frame_trans [OF f2 st_frame_fold]) (auto intro: frame_fetchScoped [OF X])
  then show ?thesis by (simp add: refreshCluster_def Let_def case_prod_beta)
qed

lemma frame_batch_settles: "X \<subseteq> {Polls, Streams} \<Longrightarrow> st_frame X s (batch_settles s b)"
  unfolding batch_settles_def
  by (rule st_frame_trans [OF frame_read_lists frame_ops(5)]) auto

section \<open>Closing clusters\<close>

lemma wf_delete_cluster:
  assumes wf: "orch_wf s" and entry: "map_of (oc_clusters s) c = Some r"
    and free: "\<And>d sc. vref d sc \<Longrightarrow> fetch_of (rec_at (runtime s r) d sc) = None"
  shows "orch_wf (s\<lparr>oc_clusters := AList.delete c (oc_clusters s)\<rparr>)" (is "orch_wf ?s")
proof -
  have rt: "runtime ?s = runtime s" and own: "owns ?s = owns s"
    using runtime_cong [of ?s s] owns_cong [of ?s s] by simp_all
  have "runtimes_ok ?s" "timers_ok ?s" "record_timers_ok ?s" "\<forall>ref\<in>refs ?s. ref_ok ?s ref"
    using wf by (simp_all add: orch_wf_def runtimes_ok_def timers_ok_def record_timers_ok_def armed_as_def rt own refs_def ref_ok_def)
  moreover have "clusters_ok ?s"
    using wf by (auto simp: orch_wf_def clusters_ok_def rt distinct_delete dest!: in_delete)
  moreover have "reads_ok ?s"
  proof (rule reads_ok_le)
    show "reads_ok s" using wf by (simp add: orch_wf_def)
    then show "distinct (map (ex_request \<circ> snd) (executions_of (oc_jobs ?s)))" by (simp add: reads_ok_def)
    fix d ex
    assume mem: "(d, ex) \<in> set (executions_of (oc_jobs ?s))" and old: "tracked s d ex"
    then have "(ex_runtime ex, d, ex_scope ex) \<in> refs s" by (force simp: refs_def executions_iff job_refs.simps)
    then have "vref d (ex_scope ex)" using wf by (auto simp: orch_wf_def ref_ok_def)
    then have "ex_runtime ex \<noteq> r" using old free by (auto simp: tracked_def)
    then have "isRuntimeCurrent ?s (ex_runtime ex)"
      using old entry unfolding tracked_def isRuntimeCurrent_def rt by (auto simp: delete_conv')
    then show "tracked ?s d ex" using old by (simp add: tracked_def rt)
  qed simp_all
  ultimately show ?thesis using wf by (simp add: orch_wf_def)
qed

lemma frame_wf: "st_frame X s s' \<Longrightarrow> orch_wf s \<Longrightarrow> orch_wf s'"
  by (simp add: st_frame_def)

lemma entry_grows:
  assumes wf: "orch_wf s" and entry: "map_of (oc_clusters s) c = Some r" and grow: "grows s s'"
  shows "map_of (oc_clusters s') c = Some r"
proof -
  have "(c, r) \<in> set (oc_clusters s)" using entry by (rule map_of_SomeD)
  then have r: "0 < r" "r < length (oc_runtimes s)" "cr_cluster (runtime s r) = c"
    using wf by (auto simp: orch_wf_def clusters_ok_def)
  then have "isRuntimeCurrent s r" using entry by (simp add: isRuntimeCurrent_def)
  then have "isRuntimeCurrent s' r" "cr_cluster (runtime s' r) = c" using r grow by (simp_all add: grows_def)
  with r show ?thesis by (simp add: isRuntimeCurrent_def)
qed

text \<open>Everything of the pruning before the runtime leaves the map; its records are free then.\<close>

definition pruned_runtime :: "orch \<Rightarrow> nat \<Rightarrow> orch" where
  "pruned_runtime s r =
     upd_runtime (teardown_all_in_flight (cancelRuntimePolls (stopRuntimeStreaming s r True) r) r) r resetAllState"

lemma frame_reset_all:
  assumes "\<And>d sc. vref d sc \<Longrightarrow> fetch_of (rec_at (runtime s r) d sc) = None"
  shows "st_frame {} s (upd_runtime s r resetAllState)"
  unfolding upd_runtime_def
  by (rule frame_set_runtime_shape [OF rt_shape_reset_all]) (use assms in \<open>auto simp: tracked_def\<close>)

lemma reset_all_read:
  "rec_at (runtime (upd_runtime s r resetAllState) r') d sc =
     (if r' = r then initial_scope_state d (Some sc) else rec_at (runtime s r') d sc)"
proof (cases "r < length (oc_runtimes s)")
  case False
  then have "runtime (upd_runtime s r resetAllState) = runtime s" by (auto simp: fun_eq_iff upd_runtime_def)
  with False show ?thesis by (simp add: new_scope_free)
qed (simp add: upd_runtime_def resetAllState_def getScopeState_def)

lemma frame_pruned: "st_frame {} s (pruned_runtime s r)"
proof (rule st_frameI)
  assume wf: "orch_wf s"
  let ?s2 = "cancelRuntimePolls (stopRuntimeStreaming s r True) r"
  have f2: "st_frame {} s ?s2" by (rule st_frame_trans [OF frame_stopRuntimeStreaming frame_cancelRuntimePolls]) simp_all
  have wf2: "orch_wf ?s2" by (rule frame_wf [OF f2 wf])
  show "st_frame {} s (pruned_runtime s r)"
    unfolding pruned_runtime_def
    by (rule st_frame_trans [OF f2 st_frame_trans [OF frame_teardown_all frame_reset_all]])
      (simp_all add: teardown_all_idle [OF wf2])
qed

lemma prune_wf:
  assumes wf: "orch_wf s" and entry: "map_of (oc_clusters s) c = Some r"
  shows "orch_wf (prune_runtime c r s)"
    and "map_of (oc_clusters s) c' = Some r' \<Longrightarrow> c' \<noteq> c \<Longrightarrow> map_of (oc_clusters (prune_runtime c r s)) c' = Some r'"
proof -
  let ?s = "pruned_runtime s r"
  have eq: "prune_runtime c r s = emit_event (?s\<lparr>oc_clusters := AList.delete c (oc_clusters ?s)\<rparr>) (ClusterPruned c)"
    by (simp add: prune_runtime_def pruned_runtime_def Let_def)
  have wf': "orch_wf ?s" and grow: "grows s ?s" using frame_pruned wf by (simp_all add: st_frame_def)
  have "orch_wf (?s\<lparr>oc_clusters := AList.delete c (oc_clusters ?s)\<rparr>)"
    by (rule wf_delete_cluster [OF wf' entry_grows [OF wf entry grow]])
      (simp add: pruned_runtime_def reset_all_read fetch_of_def initial_free)
  then show "orch_wf (prune_runtime c r s)" unfolding eq by (rule frame_wf [OF frame_ops(5)])
  assume "map_of (oc_clusters s) c' = Some r'" and "c' \<noteq> c"
  then show "map_of (oc_clusters (prune_runtime c r s)) c' = Some r'"
    using entry_grows [OF wf _ grow] by (simp add: eq emit_event_def delete_conv')
qed

text \<open>What the pruning of one cluster keeps, the pruning of all that closed keeps.\<close>

lemma prune_all:
  assumes step: "\<And>s c r. orch_wf s \<Longrightarrow> P s \<Longrightarrow> map_of (oc_clusters s) c = Some r \<Longrightarrow> P (prune_runtime c r s)"
    and wf: "orch_wf s" and P: "P s"
  shows "orch_wf (fold (\<lambda>(c, r) s'. if c \<in> C then s' else prune_runtime c r s') (oc_clusters s) s) \<and>
    P (fold (\<lambda>(c, r) s'. if c \<in> C then s' else prune_runtime c r s') (oc_clusters s) s)"
proof -
  let ?f = "\<lambda>(c, r) s'. if c \<in> C then s' else prune_runtime c r s'"
  have run: "orch_wf s' \<Longrightarrow> P s' \<Longrightarrow> distinct (map fst xs) \<Longrightarrow>
      (\<And>c r. (c, r) \<in> set xs \<Longrightarrow> map_of (oc_clusters s') c = Some r) \<Longrightarrow> orch_wf (fold ?f xs s') \<and> P (fold ?f xs s')"
    for xs s'
  proof (induction xs arbitrary: s')
    case (Cons v xs)
    obtain c r where v: "v = (c, r)" by (cases v)
    show ?case
    proof (cases "c \<in> C")
      case True
      then show ?thesis using Cons.IH [OF Cons.prems(1,2)] Cons.prems(3,4) by (simp add: v)
    next
      case False
      have entry: "map_of (oc_clusters s') c = Some r" using Cons.prems(4) [of c r] by (simp add: v)
      have "map_of (oc_clusters (prune_runtime c r s')) c' = Some r'" if "(c', r') \<in> set xs" for c' r'
      proof (rule prune_wf(2) [OF Cons.prems(1) entry])
        show "map_of (oc_clusters s') c' = Some r'" using Cons.prems(4) [of c' r'] that by simp
        show "c' \<noteq> c" using Cons.prems(3) that by (force simp: v)
      qed
      moreover have "fold ?f (v # xs) s' = fold ?f xs (prune_runtime c r s')" using False by (simp add: v)
      ultimately show ?thesis
        using Cons.IH [OF prune_wf(1) [OF Cons.prems(1) entry] step [OF Cons.prems(1,2) entry]] Cons.prems(3) by simp
    qed
  qed simp
  have dist: "distinct (map fst (oc_clusters s))" using wf by (simp add: orch_wf_def clusters_ok_def)
  show ?thesis by (rule run [OF wf P dist]) (use dist in \<open>simp add: map_of_eq_Some_iff\<close>)
qed

lemma frame_reset_removed: "st_frame X s (resetScopedStatesForRemovedClusters s connected)"
  unfolding resetScopedStatesForRemovedClusters_def
proof (rule st_frame_fold)
  fix v :: "string \<times> (string \<times> list_payload domain_snapshot) list" and s1
  obtain d entries where v: "v = (d, entries)" by (cases v)
  have "st_frame X s1 (fold (\<lambda>(sc, _) s2. let c = fst (parseClusterScope sc)
      in if c \<noteq> [] \<and> c \<notin> set connected then reset_scope s2 d sc else s2) entries s1)"
    by (rule st_frame_fold) (auto simp: Let_def intro: frame_ops(2))
  then show "st_frame X s1 ((case v of (d, entries) \<Rightarrow> \<lambda>s1. fold (\<lambda>(sc, _) s2. let c = fst (parseClusterScope sc)
      in if c \<noteq> [] \<and> c \<notin> set connected then reset_scope s2 d sc else s2) entries s1) s1)"
    by (simp add: v)
qed

lemma connected_wf:
  assumes wf: "orch_wf s"
  shows "orch_wf (setConnectedClusters s ids)"
proof -
  let ?connected = "filter (\<lambda>c. c \<noteq> []) (map trim ids)"
  let ?s1 = "resetScopedStatesForRemovedClusters s ?connected"
  let ?s2 = "with_notifier ?s1 (\<lambda>n. clearRemovedClusters n ?connected)"
  have wf2: "orch_wf ?s2" by (rule frame_wf [OF st_frame_trans [OF frame_reset_removed frame_ops(4)] wf])
  show ?thesis
    unfolding setConnectedClusters_def pruneRemovedClusterRuntimes_def Let_def
    using prune_all [of "\<lambda>_. True", OF _ wf2, of "set ?connected"] by (intro frame_wf [OF frame_ops(8)]) simp
qed

section \<open>The invariant\<close>

lemma job_refs_ok: "orch_wf s \<Longrightarrow> j \<in> set (oc_jobs s) \<Longrightarrow> ref \<in> job_refs j \<Longrightarrow> ref_ok s ref"
  by (auto simp: orch_wf_def refs_def)

lemma remove_job_owns [simp]: "owns (remove_job s j) = owns s"
  by (rule owns_cong) (simp add: remove_job_def)

lemma frame_joined_step:
  assumes wf: "orch_wf s" and j: "j \<in> set (oc_jobs s)" and stage: "fj_stage j = StageJoined r t" and X: "X \<subseteq> {Polls, Streams}"
  shows "st_frame X s (joined_read_settled (remove_job s j) j r)"
proof -
  have "vref (fj_domain j) (fj_scope j)"
    using job_refs_ok [OF wf j, of "(r, fj_domain j, fj_scope j)"] by (simp add: job_refs.simps stage ref_ok_def)
  then show ?thesis by (rule st_frame_trans [OF frame_remove_job [OF X] frame_joined [OF _ X]])
qed

text \<open>Without the answered job no read has its request's number.\<close>

lemma other_requests:
  "distinct (map (ex_request \<circ> snd) (executions_of js)) \<Longrightarrow> j \<in> set js \<Longrightarrow> fj_stage j = StageExecuting e \<Longrightarrow> \<not> P j \<Longrightarrow>
     (d, ex) \<in> set (executions_of (filter P js)) \<Longrightarrow> ex_request ex \<noteq> ex_request e"
proof (induction js)
  case (Cons i js)
  have sub: "(d, ex) \<in> set (executions_of js)" if "(d, ex) \<in> set (executions_of (filter P js))"
    using that executions_filter(1) by blast
  have mem: "(fj_domain j, e) \<in> set (executions_of js)" if "j \<in> set js"
    using that Cons.prems(3) by (auto simp: executions_iff)
  show ?case
    using Cons.prems Cons.IH sub mem
    by (cases "fj_stage i") (force simp: executions_cons split: if_splits)+
qed (simp add: executions_of_def)

lemma removed_differ:
  assumes wf: "orch_wf s" and j: "j \<in> set (oc_jobs s)" and stage: "fj_stage j = StageExecuting e"
  shows "others_differ (remove_job s j) e"
proof -
  have "distinct (map (ex_request \<circ> snd) (executions_of (oc_jobs s)))" using wf by (simp add: orch_wf_def reads_ok_def)
  note differ = other_requests [OF this j stage, of "\<lambda>i. fj_id i \<noteq> fj_id j"]
  show ?thesis unfolding others_differ_def remove_job_def using differ by auto
qed

lemma frame_answered_step:
  assumes wf: "orch_wf s" and j: "j \<in> set (oc_jobs s)" and stage: "fj_stage j = StageExecuting e" and X: "X \<subseteq> {Polls, Streams}"
  shows "st_frame X s (fetch_answered env (remove_job s j) j e answer)"
proof -
  have "vref (fj_domain j) (ex_scope e)" "owns s (ex_runtime e) (ex_scope e)"
    using job_refs_ok [OF wf j, of "(ex_runtime e, fj_domain j, ex_scope e)"] by (simp_all add: job_refs.simps stage ref_ok_def)
  with removed_differ [OF wf j stage] show ?thesis
    by (intro st_frame_trans [OF frame_remove_job [OF X] frame_answered [OF _ _ X]]) simp_all
qed

lemma step_frame:
  assumes wf: "orch_wf s" and "orch_step s s'"
  shows "orch_wf s' \<and> ((\<exists>ids. s' = setConnectedClusters s ids) \<or> grows s s')"
  using assms(2)
proof cases
  case (step_connected ids)
  then show ?thesis using connected_wf [OF wf] by blast
next
  case (step_joined job r completion)
  then show ?thesis using frame_joined_step [OF wf, of job r completion "{}"] wf by (simp add: st_frame_def)
next
  case (step_answered job e env answer)
  then show ?thesis using frame_answered_step [OF wf, of job e "{}"] wf by (simp add: st_frame_def)
qed (use wf frame_refreshCluster [of "{}"] frame_acquire [of _ s] frame_release [of _ s] frame_reset [of _ "{}" s]
    frame_fetchScoped [of "{}"] frame_restart [of "{}"] frame_refresh_once [of "{}"] frame_activation [of "{}"]
    frame_became_serviceable [of "{}"] frame_auth_failed [of "{}"] frame_auth_recovered [of "{}"]
    frame_scope_changed [of "{}"] frame_denied [of _ _ "{}"] frame_drift [of _ _ "{}"] frame_signal [of "{}"]
    frame_health [of _ "{}"] frame_reset_views [of "{}"] frame_changing [of s] frame_changed [of "{}"]
    frame_auto_refresh [of "{}"] frame_hidden [of "{}"] frame_timer_fires [OF wf] frame_ready_runs [OF wf, of _ "{}"]
    frame_ready_settles [OF wf, of _ "{}"] frame_start_settled [OF wf, of _ "{}"] frame_poll_settles [OF wf, of _ "{}"]
    frame_batch_settles [of "{}"] st_frame_trans [OF frame_remove_job [of "{}"] frame_fetch_decided [of "{}"]]
    st_frame_trans [OF frame_remove_job [of "{}"] frame_tell_owner [of "{}"]] frame_ops(7) [of "{}"] event_vref
  in \<open>simp add: st_frame_def; blast?\<close>)+

end
