(* ===== verification/Orchestrator_Polls.thy ===== *)
theory Orchestrator_Polls
  imports Orchestrator_Machine
begin

text \<open>
  Polling: in every reachable state the armed poll timers are those the records name, each for a scope that a
  consumer leases on an open cluster, and a leased scope of a polled domain has its timer armed or a poll running
  unless passive work is paused.
\<close>

declare map_of_eq_Some_iff [simp del] Some_eq_map_of_iff [simp del] job_refs.simps [simp del]

section \<open>Tables\<close>

definition is_leased :: "scoped_refresh_state \<Rightarrow> bool" where
  "is_leased st \<longleftrightarrow> 0 < totalDemand (demandsFor (sr_activation st))"

lemma hasScopedLease_rec: "hasScopedLease rt d sc \<longleftrightarrow> is_leased (rec_at rt d sc)"
  by (simp add: hasScopedLease_def getScopedLeaseCount_def is_leased_def totalDemand_def Let_def)

text \<open>The armed poll timers, the timers the records name, the leased scopes and the scopes with a poll running.\<close>

definition poll_timers :: "orch \<Rightarrow> (timer \<times> scope_ref) set" where
  "poll_timers s = {(t, (r, d, sc)) | t r d sc. \<exists>dl. (t, PollTimer r d sc, dl) \<in> set (oc_timers s)}"

definition timer_table :: "orch \<Rightarrow> (timer \<times> scope_ref) set" where
  "timer_table s = {(t, (r, d, sc)) | t r d sc. vref d sc \<and> record_timer (rec_at (runtime s r) d sc) = Some t}"

definition timed :: "orch \<Rightarrow> scope_ref set" where
  "timed s = snd ` timer_table s"

definition leases :: "orch \<Rightarrow> scope_ref set" where
  "leases s = {(r, d, sc) | r d sc. vref d sc \<and> is_leased (rec_at (runtime s r) d sc)}"

definition polling_refs :: "orch \<Rightarrow> scope_ref set" where
  "polling_refs s = poll_ref ` set (oc_polls s)"

definition scope_polled :: "orch \<Rightarrow> scope_ref \<Rightarrow> bool" where
  "scope_polled s ref \<longleftrightarrow> (ref \<in> timed s \<longrightarrow> ref \<in> leases s) \<and>
     (ref \<in> leases s \<longrightarrow> isPolledDomain s (fst (snd ref)) \<longrightarrow> \<not> isPassiveWorkPaused s \<longrightarrow>
        ref \<in> timed s \<or> ref \<in> polling_refs s)"

text \<open>The invariant, but for the scopes of \<open>E\<close> that code is working on.\<close>

definition polls_ok :: "scope_ref set \<Rightarrow> orch \<Rightarrow> bool" where
  "polls_ok E s \<longleftrightarrow> poll_timers s = timer_table s \<and> (\<forall>(r, _)\<in>leases s. isRuntimeCurrent s r) \<and>
     distinct (map pl_id (oc_polls s)) \<and> (\<forall>p\<in>set (oc_polls s). pl_id p < oc_next s) \<and>
     (\<forall>ref. ref \<notin> E \<longrightarrow> scope_polled s ref)"

definition same_polls :: "orch \<Rightarrow> orch \<Rightarrow> bool" where
  "same_polls s s' \<longleftrightarrow> map poll_core (oc_polls s') = map poll_core (oc_polls s) \<and> oc_configs s' = oc_configs s \<and>
     oc_auto_refresh s' = oc_auto_refresh s \<and> oc_hidden s' = oc_hidden s \<and> oc_next s \<le> oc_next s'"

lemma timer_table_iff:
  "(t, r, d, sc) \<in> timer_table s \<longleftrightarrow> vref d sc \<and> record_timer (rec_at (runtime s r) d sc) = Some t"
  by (simp add: timer_table_def)

lemma table_eqI: "(\<And>t r d sc. (t, r, d, sc) \<in> A \<longleftrightarrow> (t, r, d, sc) \<in> B) \<Longrightarrow> A = B"
  by auto

lemma timed_iff: "(r, d, sc) \<in> timed s \<longleftrightarrow> vref d sc \<and> record_timer (rec_at (runtime s r) d sc) \<noteq> None"
  by (force simp: timed_def timer_table_def)

lemma leases_iff: "(r, d, sc) \<in> leases s \<longleftrightarrow> vref d sc \<and> hasScopedLease (runtime s r) d sc"
  by (simp add: leases_def hasScopedLease_rec)

lemma lease_runtime: "(r, d, sc) \<in> leases s \<Longrightarrow> r < length (oc_runtimes s)"
  by (rule ccontr) (simp add: leases_def runtime_def is_leased_def totalDemand_def no_scoped_demand_def)

lemma same_polls_eqs:
  assumes "same_polls s s'"
  shows "polling_refs s' = polling_refs s" "isPolledDomain s' = isPolledDomain s"
    "isPassiveWorkPaused s' = isPassiveWorkPaused s" "map pl_id (oc_polls s') = map pl_id (oc_polls s)"
proof -
  have core: "map poll_core (oc_polls s') = map poll_core (oc_polls s)" using assms by (simp add: same_polls_def)
  have "poll_ref = fst \<circ> snd \<circ> poll_core" by (simp add: fun_eq_iff poll_core_def)
  then have "map poll_ref (oc_polls s') = map poll_ref (oc_polls s)" using core by (metis map_map)
  then show "polling_refs s' = polling_refs s" unfolding polling_refs_def by (metis set_map)
  have "pl_id = fst \<circ> poll_core" by (simp add: fun_eq_iff poll_core_def)
  then show "map pl_id (oc_polls s') = map pl_id (oc_polls s)" using core by (metis map_map)
  show "isPolledDomain s' = isPolledDomain s" "isPassiveWorkPaused s' = isPassiveWorkPaused s"
    using assms by (simp_all add: same_polls_def fun_eq_iff isPolledDomain_def isPassiveWorkPaused_def)
qed

text \<open>A change that concerns only the scopes of \<open>D\<close>.\<close>

lemma polls_ok_change:
  assumes ok: "polls_ok E s" and grow: "grows s s'" and same: "same_polls s s'"
    and table: "poll_timers s' = timer_table s'"
    and others: "\<And>ref. ref \<notin> D \<Longrightarrow> (ref \<in> timed s' \<longleftrightarrow> ref \<in> timed s) \<and> (ref \<in> leases s' \<longleftrightarrow> ref \<in> leases s)"
    and cur: "\<And>r d sc. (r, d, sc) \<in> D \<Longrightarrow> (r, d, sc) \<in> leases s' \<Longrightarrow> isRuntimeCurrent s' r"
    and fixed: "\<And>ref. ref \<in> D \<Longrightarrow> ref \<notin> E' \<Longrightarrow> scope_polled s' ref"
    and sub: "E \<subseteq> E' \<union> D"
  shows "polls_ok E' s'"
  unfolding polls_ok_def
proof (intro conjI)
  note eqs = same_polls_eqs [OF same]
  show "poll_timers s' = timer_table s'" by (rule table)
  show "\<forall>(r, _)\<in>leases s'. isRuntimeCurrent s' r"
  proof (clarify)
    fix r d sc
    assume l: "(r, d, sc) \<in> leases s'"
    show "isRuntimeCurrent s' r"
    proof (cases "(r, d, sc) \<in> D")
      case False
      with others l have "(r, d, sc) \<in> leases s" by blast
      then show ?thesis using ok grow lease_runtime unfolding polls_ok_def grows_def by fastforce
    qed (rule cur [OF _ l])
  qed
  show "distinct (map pl_id (oc_polls s'))" using ok by (simp add: eqs(4) polls_ok_def)
  have "pl_id ` set (oc_polls s') = pl_id ` set (oc_polls s)" using eqs(4) by (metis set_map)
  then show "\<forall>p\<in>set (oc_polls s'). pl_id p < oc_next s'"
    using ok grow unfolding polls_ok_def grows_def by (metis (no_types, lifting) imageE imageI order_less_le_trans)
  show "\<forall>ref. ref \<notin> E' \<longrightarrow> scope_polled s' ref"
  proof (intro allI impI)
    fix ref
    assume "ref \<notin> E'"
    show "scope_polled s' ref"
    proof (cases "ref \<in> D")
      case False
      then have "scope_polled s ref" using ok sub \<open>ref \<notin> E'\<close> unfolding polls_ok_def by blast
      then show ?thesis using others [OF False] by (simp add: scope_polled_def eqs)
    qed (rule fixed [OF _ \<open>ref \<notin> E'\<close>])
  qed
qed

lemma polls_ok_mono: "polls_ok E s \<Longrightarrow> E \<subseteq> E' \<Longrightarrow> polls_ok E' s"
  unfolding polls_ok_def by blast

lemma polls_ok_fixed: "polls_ok E s \<Longrightarrow> (\<And>ref. ref \<in> E \<Longrightarrow> ref \<notin> E' \<Longrightarrow> scope_polled s ref) \<Longrightarrow> polls_ok E' s"
  unfolding polls_ok_def by blast

section \<open>Code that keeps polls\<close>

lemma poll_timers_other: "poll_timers s = {(t, (r, d, sc)) | t r d sc. \<exists>dl. (t, PollTimer r d sc, dl) \<in> other_timers s}"
  by (auto simp: poll_timers_def other_timers_def)

lemma polls_keep:
  assumes frame: "st_frame {Polls} s s'" and wf: "orch_wf s" and ok: "polls_ok E s"
  shows "polls_ok E s'" and "leases s' = leases s" and "timed s' = timed s"
proof -
  have grow: "grows s s'" and keep: "keeps Polls s s'" using frame wf by (simp_all add: st_frame_def)
  have recs: "sr_polling (rec_at (runtime s' r) d sc) = sr_polling (rec_at (runtime s r) d sc)"
    "sr_activation (rec_at (runtime s' r) d sc) = sr_activation (rec_at (runtime s r) d sc)" if "vref d sc" for r d sc
    using keep that by (simp_all add: keeps_def recs_keep_def)
  have table: "timer_table s' = timer_table s" using recs by (auto simp: timer_table_def record_timer_def)
  have leases: "leases s' = leases s" using recs by (auto simp: leases_def is_leased_def)
  have timers: "poll_timers s' = poll_timers s" using keep by (simp add: poll_timers_other keeps_def)
  have same: "same_polls s s'" using keep grow by (simp add: same_polls_def keeps_def grows_def)
  show "leases s' = leases s" "timed s' = timed s" using leases table by (simp_all add: timed_def)
  show "polls_ok E s'"
    by (rule polls_ok_change [OF ok grow same, where D = "{}"])
      (use ok in \<open>simp_all add: table leases timers timed_def polls_ok_def\<close>)
qed

section \<open>Taking and arming a poll timer\<close>

lemma timers_clear: "poll_timers (clearTimer s (Some t)) = {x \<in> poll_timers s. fst x \<noteq> t}"
  by (auto simp: poll_timers_def clearTimer_def)

lemma timers_runtime [simp]: "poll_timers (set_runtime s r rt) = poll_timers s"
  by (simp add: poll_timers_def)

lemma table_update:
  assumes r: "r < length (oc_runtimes s)" and ref: "vref d sc"
    and others: "\<And>d' sc'. vref d' sc' \<Longrightarrow> (d', sc') \<noteq> (d, sc) \<Longrightarrow>
      record_timer (rec_at rt d' sc') = record_timer (rec_at (runtime s r) d' sc')"
  shows "timer_table (set_runtime s r rt) = {x \<in> timer_table s. snd x \<noteq> (r, d, sc)} \<union>
     {(t, (r, d, sc)) | t. record_timer (rec_at rt d sc) = Some t}" (is "?l = ?r")
proof (rule set_eqI)
  fix x :: "timer \<times> scope_ref"
  obtain t r' d' sc' where x: "x = (t, r', d', sc')" by (metis surj_pair)
  show "x \<in> ?l \<longleftrightarrow> x \<in> ?r"
    unfolding x using r ref others [of d' sc'] by (cases "d' = d \<and> sc' = sc") (auto simp: timer_table_iff)
qed

lemma leases_update:
  assumes "r < length (oc_runtimes s)"
    and others: "\<And>d' sc'. vref d' sc' \<Longrightarrow> (d', sc') \<noteq> (d, sc) \<Longrightarrow>
      is_leased (rec_at rt d' sc') = is_leased (rec_at (runtime s r) d' sc')"
    and "ref \<noteq> (r, d, sc)"
  shows "ref \<in> leases (set_runtime s r rt) \<longleftrightarrow> ref \<in> leases s"
  using assms by (cases ref) (auto simp: leases_def split: if_splits)

lemma after_store_polls [simp]:
  "record_timer (after_store st) = record_timer st" "is_leased (after_store st) = is_leased st"
  by (simp_all add: record_timer_def is_leased_def after_store_fields)

lemma take_poll_recs:
  assumes inv: "runtime_inv rt" and ref: "vref d sc" and ref': "vref d' sc'"
  shows "record_timer (rec_at (fst (takePollTimer rt d sc)) d' sc') =
      (if d' = d \<and> sc' = sc then None else record_timer (rec_at rt d' sc'))"
    "is_leased (rec_at (fst (takePollTimer rt d sc)) d' sc') = is_leased (rec_at rt d' sc')"
proof -
  note read = getScopeState_modify [OF inv vref_valid [OF ref] vref_valid [OF ref'], of "\<lambda>st. st\<lparr>sr_polling := PollIdle\<rparr>"]
  show "record_timer (rec_at (fst (takePollTimer rt d sc)) d' sc') =
      (if d' = d \<and> sc' = sc then None else record_timer (rec_at rt d' sc'))"
    "is_leased (rec_at (fst (takePollTimer rt d sc)) d' sc') = is_leased (rec_at rt d' sc')"
    unfolding takePollTimer_modify [OF inv vref_valid [OF ref]] read [OF local_update_fields(3)]
    by (simp_all add: record_timer_def is_leased_def after_store_fields)
qed

lemma set_poll_recs:
  assumes inv: "runtime_inv rt" and ref: "vref d sc" and ref': "vref d' sc'"
  shows "record_timer (rec_at (setPollTimer rt d sc t) d' sc') =
      (if d' = d \<and> sc' = sc then Some t else record_timer (rec_at rt d' sc'))"
    "is_leased (rec_at (setPollTimer rt d sc t) d' sc') = is_leased (rec_at rt d' sc')"
proof -
  note read = getScopeState_modify [OF inv vref_valid [OF ref] vref_valid [OF ref'], of "\<lambda>st. st\<lparr>sr_polling := PollScheduled t\<rparr>"]
  show "record_timer (rec_at (setPollTimer rt d sc t) d' sc') =
      (if d' = d \<and> sc' = sc then Some t else record_timer (rec_at rt d' sc'))"
    "is_leased (rec_at (setPollTimer rt d sc t) d' sc') = is_leased (rec_at rt d' sc')"
    unfolding setPollTimer_modify read [OF local_update_fields(3)]
    by (simp_all add: record_timer_def is_leased_def after_store_fields)
qed

lemma polls_cancel:
  assumes wf: "orch_wf s" and ref: "vref d sc" and own: "owns s r sc" and ok: "polls_ok E s"
  shows "polls_ok (insert (r, d, sc) E) (cancelPoll s r d sc)" and "(r, d, sc) \<notin> timed (cancelPoll s r d sc)"
    and "leases (cancelPoll s r d sc) = leases s"
proof -
  note inv = runtime_inv_wf [OF wf, of r] and r = owns_runtime [OF own]
  let ?rt = "fst (takePollTimer (runtime s r) d sc)" and ?t = "record_timer (rec_at (runtime s r) d sc)"
  have eq: "cancelPoll s r d sc = clearTimer (set_runtime s r ?rt) ?t"
    by (auto simp: cancelPoll_def run_runtime_def takePollTimer_def Let_def record_timer_def split: prod.splits polling.splits)
  let ?s = "clearTimer (set_runtime s r ?rt) ?t"
  note recs = take_poll_recs [OF inv ref]
  have same_rt: "timer_table (clearTimer s' t) = timer_table s'" "leases (clearTimer s' t) = leases s'" for s' t
    using runtime_cong [of "clearTimer s' t" s'] by (auto simp: timer_table_def leases_def clearTimer_def split: option.split)
  have table: "timer_table ?s = {x \<in> timer_table s. snd x \<noteq> (r, d, sc)}"
    unfolding same_rt by (subst table_update [OF r ref]) (use recs ref in auto)
  have leases: "leases ?s = leases s"
    unfolding same_rt using r by (auto simp: leases_def recs(2) split: if_splits)
  have ids: "t = t'" if "(t, x) \<in> poll_timers s" "(t', x) \<in> poll_timers s" for t t' x
    using that ok unfolding polls_ok_def timer_table_def by auto
  have refs_eq: "x = y" if "(t, x) \<in> poll_timers s" "(t, y) \<in> poll_timers s" for t x y
  proof -
    have dist: "distinct (map fst (oc_timers s))" using wf by (simp add: orch_wf_def timers_ok_def)
    from that show ?thesis unfolding poll_timers_def using eq_key_imp_eq_value [OF dist] by fastforce
  qed
  have eq_tt: "poll_timers s = timer_table s" using ok by (simp add: polls_ok_def)
  have "poll_timers ?s = {x \<in> poll_timers s. snd x \<noteq> (r, d, sc)}"
  proof (cases ?t)
    case None
    then show ?thesis by (auto simp: eq_tt clearTimer_def timer_table_def)
  next
    case (Some t)
    then have "(t, (r, d, sc)) \<in> poll_timers s" using ref by (simp add: eq_tt timer_table_def)
    then have "fst x = t \<longleftrightarrow> snd x = (r, d, sc)" if "x \<in> poll_timers s" for x
      using that ids refs_eq by (cases x) auto
    then show ?thesis unfolding Some timers_clear by auto
  qed
  then have timers: "poll_timers ?s = timer_table ?s" by (simp only: table eq_tt)
  show fresh: "(r, d, sc) \<notin> timed (cancelPoll s r d sc)" "leases (cancelPoll s r d sc) = leases s"
    unfolding eq by (auto simp: timed_def table leases)
  have timed: "ref \<in> timed ?s \<longleftrightarrow> ref \<in> timed s" if "ref \<noteq> (r, d, sc)" for ref
    using that by (force simp: timed_def table)
  have grow: "grows s ?s" using frame_cancelPoll [OF ref own, of "{}"] wf by (simp add: st_frame_def eq)
  have same: "same_polls s ?s" by (simp add: same_polls_def clearTimer_def split: option.split)
  have cur: "isRuntimeCurrent ?s r'" if "(r', x) \<in> leases s" for r' x
    using that ok grow lease_runtime unfolding polls_ok_def grows_def by (cases x) fastforce
  show "polls_ok (insert (r, d, sc) E) (cancelPoll s r d sc)"
    unfolding eq
    by (rule polls_ok_change [OF ok grow same timers, where D = "{(r, d, sc)}"]) (use timed leases cur in auto)
qed

lemma timers_add: "poll_timers (fst (set_timeout s (PollTimer r d sc) dl)) = insert (oc_next s, (r, d, sc)) (poll_timers s)"
  by (auto simp: poll_timers_def set_timeout_eq)

text \<open>The code after a poll is cancelled arms the scope's timer.\<close>

definition arm_poll :: "orch \<Rightarrow> nat \<Rightarrow> string \<Rightarrow> string \<Rightarrow> millis \<Rightarrow> orch" where
  "arm_poll s r d sc dl =
     (case set_timeout s (PollTimer r d sc) dl of (s', t) \<Rightarrow> upd_runtime s' r (\<lambda>rt. setPollTimer rt d sc t))"

lemma frame_arm:
  assumes wf: "orch_wf s" and ref: "vref d sc" and own: "owns s r sc" and X: "X \<subseteq> {Reads, Streams}"
  shows "st_frame X s (arm_poll s r d sc dl)"
proof -
  let ?s = "fst (set_timeout s (PollTimer r d sc) dl)"
  have "st_frame X s ?s" by (rule frame_set_timeout) (use ref own X in \<open>auto simp: ref_ok_def\<close>)
  moreover have "owns ?s r sc" using own owns_cong [of ?s s] by (simp add: set_timeout_eq)
  then have "st_frame X ?s (upd_runtime ?s r (\<lambda>rt. setPollTimer rt d sc (oc_next s)))"
    by (rule frame_set_poll [OF ref _ set_timeout_armed [OF wf] X])
  ultimately show ?thesis by (simp add: arm_poll_def set_timeout_eq st_frame_trans)
qed

lemma polls_arm:
  assumes wf: "orch_wf s" and ref: "vref d sc" and own: "owns s r sc" and ok: "polls_ok E s"
    and idle: "(r, d, sc) \<notin> timed s" and leased: "(r, d, sc) \<in> leases s" and sub: "E \<subseteq> insert (r, d, sc) E'"
  shows "polls_ok E' (arm_poll s r d sc dl)" and "leases (arm_poll s r d sc dl) = leases s"
proof -
  let ?s1 = "fst (set_timeout s (PollTimer r d sc) dl)" and ?rt = "setPollTimer (runtime s r) d sc (oc_next s)"
  let ?s = "set_runtime ?s1 r ?rt"
  note inv = runtime_inv_wf [OF wf, of r] and r = owns_runtime [OF own]
  have rt1: "runtime ?s1 = runtime s" using runtime_cong [of ?s1 s] by (simp add: set_timeout_eq)
  have len: "oc_runtimes ?s1 = oc_runtimes s" by (simp add: set_timeout_eq)
  have eq: "arm_poll s r d sc dl = ?s"
    unfolding arm_poll_def case_prod_beta upd_runtime_def rt1 by (simp add: set_timeout_eq)
  have same1: "timer_table ?s1 = timer_table s" "leases ?s1 = leases s" by (auto simp: timer_table_def leases_def rt1)
  note recs = set_poll_recs [OF inv ref]
  have table: "timer_table ?s = insert (oc_next s, (r, d, sc)) (timer_table s)"
  proof (subst table_update [OF _ ref])
    have "snd x \<noteq> (r, d, sc)" if "x \<in> timer_table s" for x using idle that unfolding timed_def by (metis imageI)
    then show "{x \<in> timer_table ?s1. snd x \<noteq> (r, d, sc)} \<union> {(t, (r, d, sc)) | t. record_timer (rec_at ?rt d sc) = Some t} =
        insert (oc_next s, (r, d, sc)) (timer_table s)"
      using recs(1) [OF ref] by (auto simp: same1)
  qed (use r recs(1) rt1 in \<open>auto simp: len\<close>)
  have leases: "leases ?s = leases s"
    using r by (auto simp: leases_def recs(2) rt1 len split: if_splits)
  have grow: "grows s ?s" using frame_arm [OF wf ref own, of "{}" dl] wf by (simp add: st_frame_def eq)
  have same: "same_polls s ?s" by (simp add: same_polls_def set_timeout_eq)
  have timers: "poll_timers ?s = timer_table ?s"
    using ok by (simp add: timers_add table polls_ok_def)
  have cur: "isRuntimeCurrent ?s r'" if "(r', x) \<in> leases s" for r' x
    using that ok grow lease_runtime unfolding polls_ok_def grows_def by (cases x) fastforce
  have timed: "timed ?s = insert (r, d, sc) (timed s)" by (simp add: timed_def table)
  show "polls_ok E' (arm_poll s r d sc dl)"
    unfolding eq
    by (rule polls_ok_change [OF ok grow same timers, where D = "{(r, d, sc)}"])
      (use timed leases cur leased sub in \<open>auto simp: scope_polled_def\<close>)
  show "leases (arm_poll s r d sc dl) = leases s" by (simp add: eq leases)
qed

lemma polls_schedule:
  assumes wf: "orch_wf s" and ref: "vref d sc" and own: "owns s r sc" and cur: "isRuntimeCurrent s r"
    and ok: "polls_ok E s" and sub: "E \<subseteq> insert (r, d, sc) E'"
  shows "polls_ok E' (schedulePoll s d sc)" and "leases (schedulePoll s d sc) = leases s"
proof -
  let ?s2 = "cancelPoll s r d sc"
  let ?idle = "\<not> isPolledDomain ?s2 d \<or> isPassiveWorkPaused ?s2 \<or> (r, d, sc) \<notin> leases ?s2"
  have eq: "schedulePoll s d sc =
      (if ?idle then ?s2 else arm_poll ?s2 r d sc (fst (getRefreshDomainTiming d)))"
    using ref by (simp add: schedulePoll_def getRuntimeForScope_current [OF wf own cur] Let_def leases_iff arm_poll_def)
  note cancelled = polls_cancel [OF wf ref own ok]
  have "st_frame {} s ?s2" by (rule frame_cancelPoll [OF ref own]) simp
  then have wf2: "orch_wf ?s2" and own2: "owns ?s2 r sc" using wf own owns_grows by (auto simp: st_frame_def)
  have ok2: "polls_ok E' ?s2" if "?idle"
    by (rule polls_ok_fixed [OF cancelled(1)]) (use that cancelled(2) sub in \<open>auto simp: scope_polled_def\<close>)
  have arm: "(r, d, sc) \<in> leases ?s2 \<Longrightarrow> polls_ok E' (arm_poll ?s2 r d sc dl) \<and> leases (arm_poll ?s2 r d sc dl) = leases ?s2" for dl
    using polls_arm [OF wf2 ref own2 cancelled(1,2)] sub by blast
  show "polls_ok E' (schedulePoll s d sc)" using ok2 arm by (auto simp: eq)
  show "leases (schedulePoll s d sc) = leases s" using arm cancelled(3) by (auto simp: eq)
qed

section \<open>Leases\<close>

lemma activation_recs:
  assumes inv: "runtime_inv rt" and ref: "vref d sc" and ref': "vref d' sc'"
  shows "record_timer (rec_at (fst (applyActivationEvent rt d sc e)) d' sc') = record_timer (rec_at rt d' sc')"
    "is_leased (rec_at (fst (applyActivationEvent rt d sc e)) d' sc') =
       (if d' = d \<and> sc' = sc then 0 < totalDemand (demandsFor (transitionScopedActivationState (sr_activation (rec_at rt d sc)) e))
        else is_leased (rec_at rt d' sc'))"
  using getScopeState_modify [OF inv vref_valid [OF ref] vref_valid [OF ref'], of
      "\<lambda>st. st\<lparr>sr_activation := transitionScopedActivationState (sr_activation st) e\<rparr>"]
  by (simp_all add: applyActivationEvent_modify [OF inv vref_valid [OF ref]])
    (simp_all add: record_timer_def is_leased_def after_store_fields)

lemma polls_activation:
  assumes wf: "orch_wf s" and ref: "vref d sc" and own: "owns s r sc" and cur: "isRuntimeCurrent s r" and ok: "polls_ok E s"
    and rt: "rt = fst (applyActivationEvent (runtime s r) d sc e)"
  shows "polls_ok (insert (r, d, sc) E) (set_runtime s r rt)" and "timed (set_runtime s r rt) = timed s"
    and "(r, d, sc) \<in> leases (set_runtime s r rt) \<longleftrightarrow>
      0 < totalDemand (demandsFor (transitionScopedActivationState (sr_activation (rec_at (runtime s r) d sc)) e))"
proof -
  let ?s = "set_runtime s r rt"
  note inv = runtime_inv_wf [OF wf, of r] and r = owns_runtime [OF own]
  note recs = activation_recs [OF inv ref, of _ _ e, folded rt]
  have table: "timer_table ?s = timer_table s"
    by (rule table_eqI) (auto simp: timer_table_iff recs(1))
  then show timed: "timed ?s = timed s" by (simp add: timed_def)
  show "(r, d, sc) \<in> leases ?s \<longleftrightarrow>
      0 < totalDemand (demandsFor (transitionScopedActivationState (sr_activation (rec_at (runtime s r) d sc)) e))"
    using r ref by (simp add: leases_def recs(2))
  have leases: "x \<in> leases ?s \<longleftrightarrow> x \<in> leases s" if "x \<noteq> (r, d, sc)" for x
    by (rule leases_update [OF r _ that]) (use recs(2) in auto)
  have "st_frame {} s ?s"
    unfolding rt by (rule frame_set_runtime [OF rt_frame_activation [OF ref]]) (use own in auto)
  then have grow: "grows s ?s" using wf by (simp add: st_frame_def)
  then have "isRuntimeCurrent ?s r" using cur r by (simp add: grows_def)
  moreover have "same_polls s ?s" by (simp add: same_polls_def)
  ultimately show "polls_ok (insert (r, d, sc) E) ?s"
    using ok table timed leases
    by (intro polls_ok_change [OF ok grow, where D = "{(r, d, sc)}"]) (auto simp: polls_ok_def)
qed

text \<open>An event that leaves the scope leased as it was keeps the invariant.\<close>

lemma polls_activation_same:
  assumes wf: "orch_wf s" and ref: "vref d sc" and own: "owns s r sc" and cur: "isRuntimeCurrent s r" and ok: "polls_ok E s"
    and rt: "rt = fst (applyActivationEvent (runtime s r) d sc e)"
    and same: "(r, d, sc) \<in> leases (set_runtime s r rt) \<longleftrightarrow> (r, d, sc) \<in> leases s"
  shows "polls_ok E (set_runtime s r rt)"
proof (cases "(r, d, sc) \<in> E")
  case True
  with polls_activation(1) [OF wf ref own cur ok rt] show ?thesis by (simp add: insert_absorb)
next
  case False
  note p = polls_activation [OF wf ref own cur ok rt]
  have "scope_polled s (r, d, sc)" using ok False by (simp add: polls_ok_def)
  then have "scope_polled (set_runtime s r rt) (r, d, sc)"
    using same p(2) same_polls_eqs [of s "set_runtime s r rt"] by (simp add: scope_polled_def same_polls_def)
  then show ?thesis using polls_ok_fixed [OF p(1)] by blast
qed

lemma disable_total: "totalDemand (demandsFor (disableScope a)) = totalDemand (demandsFor a)"
  by (cases a) (simp_all add: disableScope_def no_scoped_demand_def totalDemand_def)

lemma reset_total: "totalDemand (demandsFor (requestResetOnRelease a)) = totalDemand (demandsFor a)"
  by (cases a) (simp_all add: requestResetOnRelease_def)

lemma acquire_total: "totalDemand (demandsFor (acquireScopeLease a q)) = totalDemand (demandsFor a) + 1"
  by (cases q) (simp_all add: acquireScopeLease_def Let_def totalDemand_def)

lemma release_total: "0 < demand_count (demandsFor a) q \<Longrightarrow>
    totalDemand (demandsFor (releaseScopeLease a q)) + 1 = totalDemand (demandsFor a)"
  by (cases q; cases a) (simp_all add: releaseScopeLease_def totalDemand_def no_scoped_demand_def)

lemma lease_total_iff:
  "vref d sc \<Longrightarrow> (r, d, sc) \<in> leases s \<longleftrightarrow> 0 < totalDemand (demandsFor (sr_activation (rec_at (runtime s r) d sc)))"
  by (simp add: leases_def is_leased_def)

section \<open>The handlers that change leases\<close>

lemma scope_lookup:
  assumes wf: "orch_wf s" and ok: "polls_ok E s" and look: "getRuntimeForScope s sc = (s1, r)"
  shows "orch_wf s1" and "owns s1 r sc" and "isRuntimeCurrent s1 r" and "polls_ok E s1" and "leases s1 = leases s" and "timed s1 = timed s"
  using getRuntimeForScope_owns [OF wf look] polls_keep [OF frame_getRuntimeForScope [of _ s sc] wf ok] look by simp_all

lemma activation_wf:
  assumes wf: "orch_wf s" and ref: "vref d sc" and own: "owns s r sc"
    and s': "s' = set_runtime s r (fst (applyActivationEvent (runtime s r) d sc e))"
  shows "orch_wf s'" and "owns s' r sc" and "isRuntimeCurrent s' r = isRuntimeCurrent s r"
proof -
  have "st_frame {} s s'" unfolding s' by (rule frame_set_runtime [OF rt_frame_activation [OF ref]]) (use own in auto)
  then show "orch_wf s'" "owns s' r sc" "isRuntimeCurrent s' r = isRuntimeCurrent s r"
    using wf own owns_grows owns_runtime by (auto simp: st_frame_def grows_def)
qed

lemma polls_disable:
  assumes wf: "orch_wf s" and ref: "vref d sc" and ok: "polls_ok E s"
  shows "polls_ok E (fst (disableScopedDomain_in env s d sc preserve))"
    and "leases (fst (disableScopedDomain_in env s d sc preserve)) = leases s"
    and "timed (fst (disableScopedDomain_in env s d sc preserve)) = timed s"
proof -
  let ?s = "fst (disableScopedDomain_in env s d sc preserve)"
  have "polls_ok E ?s \<and> leases ?s = leases s \<and> timed ?s = timed s"
  proof (cases "getConfig s d")
    case (Inr config)
    obtain s1 r where look: "getRuntimeForScope s sc = (s1, r)" by (cases "getRuntimeForScope s sc")
    note at1 = scope_lookup [OF wf ok look]
    obtain s2 p changed where run: "run_runtime s1 r (\<lambda>rt. disableScopedDomain rt d sc) = (s2, p, changed)"
      by (cases "run_runtime s1 r (\<lambda>rt. disableScopedDomain rt d sc)")
    have s2: "s2 = set_runtime s1 r (fst (applyActivationEvent (runtime s1 r) d sc DisableRequested))"
      using run by (auto simp: run_runtime_def disableScopedDomain_def Let_def split: prod.splits)
    note act = polls_activation [OF at1(1) ref at1(2,3,4) refl, of DisableRequested, folded s2]
    have leased: "(r, d, sc) \<in> leases s2 \<longleftrightarrow> (r, d, sc) \<in> leases s1"
      using act(3) by (simp add: disable_total lease_total_iff [OF ref])
    have ok2: "polls_ok E s2"
      using polls_activation_same [OF at1(1) ref at1(2,3,4) refl, of DisableRequested, folded s2] leased by simp
    have leases2: "leases s2 = leases s1"
    proof (rule set_eqI)
      fix x
      have "x \<noteq> (r, d, sc) \<Longrightarrow> x \<in> leases s2 \<longleftrightarrow> x \<in> leases s1"
        unfolding s2 using activation_recs(2) [OF runtime_inv_wf [OF at1(1)] ref]
        by (intro leases_update [OF owns_runtime [OF at1(2)]]) auto
      with leased show "x \<in> leases s2 \<longleftrightarrow> x \<in> leases s1" by blast
    qed
    note wf2 = activation_wf [OF at1(1) ref at1(2) s2]
    have "?s = reconcileScopedDomainStateChange env s2 config d sc False preserve r changed"
      by (simp add: disableScopedDomain_in_def Inr look run)
    then show ?thesis
      using polls_keep [OF frame_state_change [OF ref wf2(2)] wf2(1) ok2] leases2 act(2) at1(5,6) by simp
  qed (simp add: disableScopedDomain_in_def ok)
  then show "polls_ok E ?s" "leases ?s = leases s" "timed ?s = timed s" by simp_all
qed

lemma polls_acquire:
  assumes wf: "orch_wf s" and d: "refresh_domain d" and ok: "polls_ok {} s"
  shows "polls_ok {} (fst (acquireScopedDomainLease env s d scope preserve demand))"
proof (cases "normalizeDomainScope d scope")
  case (Inr norm)
  show ?thesis
  proof (cases norm)
    case (Some sc)
    have ref: "vref d sc" using d Inr Some by (simp add: refresh_domain_vref)
    obtain s1 r where look: "getRuntimeForScope s sc = (s1, r)" by (cases "getRuntimeForScope s sc")
    note at1 = scope_lookup [OF wf ok look]
    obtain s2 result where run: "run_runtime s1 r (\<lambda>rt. acquireScopedLease rt d sc demand) = (s2, result)"
      by (cases "run_runtime s1 r (\<lambda>rt. acquireScopedLease rt d sc demand)")
    have s2: "s2 = set_runtime s1 r (fst (applyActivationEvent (runtime s1 r) d sc (LeaseAcquired demand)))"
      and first: "aq_first result \<longleftrightarrow> (r, d, sc) \<notin> leases s1"
      using run lease_total_iff [OF ref, of r s1] by (auto simp: run_runtime_def acquireScopedLease_def Let_def split: prod.splits)
    note act = polls_activation [OF at1(1) ref at1(2,3,4) refl, of "LeaseAcquired demand", folded s2]
    have leased: "(r, d, sc) \<in> leases s2" using act(3) by (simp add: acquire_total)
    note wf2 = activation_wf [OF at1(1) ref at1(2) s2]
    have cur2: "isRuntimeCurrent s2 r" using wf2(3) at1(3) by simp
    have unconfigured: "polls_ok {} s2" if "getConfig s2 d = Inl failure" for failure
    proof (rule polls_ok_fixed [OF act(1)])
      have "\<not> isPolledDomain s2 d" using that by (simp add: getConfig_def isPolledDomain_def split: option.splits)
      then show "ref \<in> {(r, d, sc)} \<Longrightarrow> scope_polled s2 ref" for ref
        using leased by (auto simp: scope_polled_def)
    qed
    have change: "polls_ok {} (schedulePoll (reconcileScopedDomainStateChange env s2 config d sc True preserve r changed) d sc)"
      for config changed
    proof (rule polls_schedule(1) [OF _ ref])
      let ?s3 = "reconcileScopedDomainStateChange env s2 config d sc True preserve r changed"
      have f: "st_frame {Polls} s2 ?s3" by (rule frame_state_change [OF ref wf2(2)]) simp
      then have wf3: "orch_wf ?s3" and grow: "grows s2 ?s3" using wf2(1) by (simp_all add: st_frame_def)
      show "orch_wf ?s3" by (rule wf3)
      show "owns ?s3 r sc" using grow wf2(2) owns_grows by blast
      show "isRuntimeCurrent ?s3 r" using grow cur2 owns_runtime [OF wf2(2)] by (simp add: grows_def)
      show "polls_ok (insert (r, d, sc) {}) ?s3" by (rule polls_keep(1) [OF f wf2(1) act(1)])
    qed simp
    have rest: "polls_ok {} s2" if "\<not> aq_first result"
      using that polls_activation_same [OF at1(1) ref at1(2,3,4) refl, of "LeaseAcquired demand", folded s2] first leased by simp
    have initial: "polls_ok {} (reconcileInitialStreamingSnapshot env s2 d sc streaming)" if "\<not> aq_first result" for streaming
      by (rule polls_keep(1) [OF frame_initial_snapshot wf2(1) rest [OF that]]) simp
    show ?thesis
      unfolding acquireScopedDomainLease_def Inr Some look run sum.case option.case prod.case Let_def
      using change rest initial unconfigured by (auto split: sum.split option.split)
  qed (simp add: acquireScopedDomainLease_def Inr ok)
qed (simp add: acquireScopedDomainLease_def ok)

lemma polls_reset:
  assumes wf: "orch_wf s" and d: "refresh_domain d" and ok: "polls_ok {} s"
  shows "polls_ok {} (fst (resetScopedDomain s d scope))"
proof (cases "normalizeDomainScope d scope")
  case (Inr norm)
  show ?thesis
  proof (cases norm)
    case (Some sc)
    have ref: "vref d sc" using d Inr Some by (simp add: refresh_domain_vref)
    obtain s1 r where look: "getRuntimeForScope s sc = (s1, r)" by (cases "getRuntimeForScope s sc")
    note at1 = scope_lookup [OF wf ok look]
    obtain s2 deferred where run: "run_runtime s1 r (\<lambda>rt. deferResetUntilReleased rt d sc) = (s2, deferred)"
      by (cases "run_runtime s1 r (\<lambda>rt. deferResetUntilReleased rt d sc)")
    obtain s3 enabled where en: "isScopedDomainEnabledInternal s2 d sc = (s3, enabled)"
      by (cases "isScopedDomainEnabledInternal s2 d sc")
    let ?rt = "fst (applyActivationEvent (runtime s1 r) d sc ResetRequested)"
    have s2: "s2 = s1 \<or> s2 = set_runtime s1 r ?rt"
    proof -
      have "set_runtime s1 r (runtime s1 r) = s1"
        using owns_runtime [OF at1(2)] by (simp add: set_runtime_def runtime_def)
      then show ?thesis using run by (auto simp: run_runtime_def deferResetUntilReleased_def split: if_splits)
    qed
    have "(r, d, sc) \<in> leases (set_runtime s1 r ?rt) \<longleftrightarrow> (r, d, sc) \<in> leases s1"
      using polls_activation(3) [OF at1(1) ref at1(2,3,4) refl, of ResetRequested]
      by (simp add: reset_total lease_total_iff [OF ref])
    then have "polls_ok {} (set_runtime s1 r ?rt)"
      using polls_activation_same [OF at1(1) ref at1(2,3,4) refl, of ResetRequested] by simp
    then have ok2: "polls_ok {} s2" using s2 at1(4) by blast
    have wf2: "orch_wf s2" using s2 at1(1) activation_wf(1) [OF at1(1) ref at1(2) refl, of ResetRequested] by blast
    have f3: "st_frame {Polls} s2 s3" using frame_enabled [of "{Polls}" s2 d sc] en by simp
    note keep = polls_keep(1) [OF _ wf2 ok2]
    have "polls_ok {} (stopStreamingScope s3 d sc True)" "polls_ok {} (reset_scope s3 d sc)" "polls_ok {} (reset_scope s2 d sc)"
      by (rule keep [OF st_frame_trans [OF f3 frame_stopStreamingScope [OF ref]]], simp)
        (rule keep [OF st_frame_trans [OF f3 frame_ops(2)]], rule keep [OF frame_ops(2)])
    with ok2 show ?thesis
      unfolding resetScopedDomain_def Inr Some look run en sum.case option.case prod.case by simp
  qed (simp add: resetScopedDomain_def Inr ok)
qed (simp add: resetScopedDomain_def ok)

lemma polls_release:
  assumes wf: "orch_wf s" and d: "refresh_domain d" and ok: "polls_ok {} s"
  shows "polls_ok {} (fst (releaseScopedDomainLease env s d scope preserve demand))"
proof (cases "normalizeDomainScope d scope")
  case (Inr norm)
  show ?thesis
  proof (cases norm)
    case (Some sc)
    have ref: "vref d sc" using d Inr Some by (simp add: refresh_domain_vref)
    obtain s1 r where look: "getRuntimeForScope s sc = (s1, r)" by (cases "getRuntimeForScope s sc")
    note at1 = scope_lookup [OF wf ok look]
    obtain s2 result where run: "run_runtime s1 r (\<lambda>rt. releaseScopedLease rt d sc demand) = (s2, result)"
      by (cases "run_runtime s1 r (\<lambda>rt. releaseScopedLease rt d sc demand)")
    let ?rt = "fst (applyActivationEvent (runtime s1 r) d sc (LeaseReleased demand))"
      and ?before = "demandsFor (sr_activation (rec_at (runtime s1 r) d sc))"
    note act = polls_activation [OF at1(1) ref at1(2,3,4) refl, of "LeaseReleased demand"]
    show ?thesis
    proof (cases "demand_count ?before demand = 0")
      case True
      have "set_runtime s1 r (runtime s1 r) = s1"
        using owns_runtime [OF at1(2)] by (simp add: set_runtime_def runtime_def)
      then have "s2 = s1" "\<not> rl_last result"
        using run True by (auto simp: run_runtime_def releaseScopedLease_def Let_def)
      then show ?thesis using at1(4) by (simp add: releaseScopedDomainLease_def Inr Some look run)
    next
      case False
      have next_event: "snd (snd (applyActivationEvent (runtime s1 r) d sc (LeaseReleased demand))) =
          releaseScopeLease (sr_activation (rec_at (runtime s1 r) d sc)) demand"
        by (simp add: applyActivationEvent_def Let_def)
      have total: "totalDemand (demandsFor (releaseScopeLease (sr_activation (rec_at (runtime s1 r) d sc)) demand)) + 1 =
          totalDemand ?before"
        using release_total False by blast
      have s2: "s2 = set_runtime s1 r ?rt"
        and last: "rl_last result \<longleftrightarrow> totalDemand ?before = 1"
        using run False total next_event
        by (auto simp: run_runtime_def releaseScopedLease_def Let_def split: prod.splits if_splits)
      have leased2: "(r, d, sc) \<in> leases s2 \<longleftrightarrow> totalDemand ?before \<noteq> 1"
        using act(3) total by (auto simp: s2)
      have leased1: "(r, d, sc) \<in> leases s1" using total by (simp add: lease_total_iff [OF ref] flip: total)
      note wf2 = activation_wf [OF at1(1) ref at1(2) s2]
      show ?thesis
      proof (cases "rl_last result")
        case more: False
        then have "polls_ok {} s2"
          using polls_activation_same [OF at1(1) ref at1(2,3,4) refl, of "LeaseReleased demand", folded s2] last leased1 leased2 by simp
        with more show ?thesis by (simp add: releaseScopedDomainLease_def Inr Some look run)
      next
        case True
        let ?s3 = "cancelPoll s2 r d sc"
        have ok2: "polls_ok {(r, d, sc)} s2" using act(1) by (simp add: s2)
        note cancelled = polls_cancel [OF wf2(1) ref wf2(2) ok2]
        have "(r, d, sc) \<notin> leases ?s3" using True last leased2 cancelled(3) by simp
        then have ok3: "polls_ok {} ?s3"
          using cancelled(2) by (intro polls_ok_fixed [OF cancelled(1)]) (auto simp: scope_polled_def)
        have "st_frame {} s2 ?s3" by (rule frame_cancelPoll [OF ref wf2(2)]) simp
        then have wf3: "orch_wf ?s3" using wf2(1) by (simp add: st_frame_def)
        obtain s4 failure where dis: "disableScopedDomain_in env ?s3 d sc (preserve \<and> \<not> rl_reset result) = (s4, failure)"
          by (cases "disableScopedDomain_in env ?s3 d sc (preserve \<and> \<not> rl_reset result)")
        have ok4: "polls_ok {} s4" using polls_disable(1) [OF wf3 ref ok3] dis by (metis fst_conv)
        have wf4: "orch_wf s4" using frame_wf [OF frame_disableScope [OF ref] wf3] dis by (metis fst_conv)
        have "polls_ok {} (fst (resetScopedDomain s4 d sc))" by (rule polls_reset [OF wf4 d ok4])
        with ok4 True show ?thesis
          unfolding releaseScopedDomainLease_def Inr Some look run dis sum.case option.case prod.case
          by (simp split: option.split)
      qed
    qed
  qed (simp add: releaseScopedDomainLease_def Inr ok)
qed (simp add: releaseScopedDomainLease_def ok)

end
