(* ===== verification/Orchestrator_Polling.thy ===== *)
theory Orchestrator_Polling
  imports Orchestrator_Polls
begin

text \<open>
  Sweeps over polls, polls that start and end, the pruning of closed clusters, and what follows for every reachable
  state of the refresh orchestrator: polls follow the leases.
\<close>

declare map_of_eq_Some_iff [simp del] Some_eq_map_of_iff [simp del] job_refs.simps [simp del]

section \<open>Sweeps\<close>

lemma record_present:
  assumes inv: "runtime_inv rt" and ref: "vref d sc"
    and some: "record_timer (rec_at rt d sc) \<noteq> None \<or> is_leased (rec_at rt d sc)"
  shows "rec_at rt d sc \<in> set (state_values rt)"
proof -
  have "rec_at rt d sc \<noteq> initial_scope_state d (Some sc)"
    using some by (auto simp: record_timer_def is_leased_def totalDemand_def no_scoped_demand_def)
  then obtain st where "map_of (cr_states rt) (makeInFlightKey d (Some sc)) = Some st" "rec_at rt d sc = st"
    by (auto simp: getScopeState_def split: option.splits)
  then show ?thesis by (force simp: state_values_def dest: map_of_SomeD)
qed

lemma all_poll_timers:
  assumes inv: "runtime_inv rt" and ref: "vref d sc" and t: "record_timer (rec_at rt d sc) = Some t"
  shows "t \<in> set (snd (takeAllPollTimers rt))"
proof -
  have mem: "rec_at rt d sc \<in> set (state_values rt)" using record_present [OF inv ref] t by simp
  have "sr_scope (rec_at rt d sc) = Some sc" using getScopeState_ref [OF inv vref_valid [OF ref]] by simp
  then have "poll_timer_of (rec_at rt d sc) = Some t"
    using t by (simp add: poll_timer_of_def record_timer_def split: polling.splits)
  with mem show ?thesis
    unfolding takeAllPollTimers_sweep collect_sweep_eq snd_conv by (force simp: List.map_filter_def)
qed

lemma leased_in_list:
  assumes wf: "orch_wf s" and l: "(r, d, sc) \<in> leases s"
  shows "(d, sc) \<in> set (getLeasedScopes (runtime s r))"
proof -
  note inv = runtime_inv_wf [OF wf, of r]
  have ref: "vref d sc" and lease: "is_leased (rec_at (runtime s r) d sc)" using l by (simp_all add: leases_def)
  have "rec_at (runtime s r) d sc \<in> set (state_values (runtime s r))" using record_present [OF inv ref] lease by simp
  moreover have "sr_domain (rec_at (runtime s r) d sc) = d" "sr_scope (rec_at (runtime s r) d sc) = Some sc"
    using getScopeState_ref [OF inv vref_valid [OF ref]] by simp_all
  ultimately show ?thesis
    using lease by (force simp: getLeasedScopes_def List.map_filter_def is_leased_def)
qed

lemma take_all_recs:
  assumes inv: "runtime_inv rt" and ref: "vref d sc"
  shows "record_timer (rec_at (fst (takeAllPollTimers rt)) d sc) = None"
    "is_leased (rec_at (fst (takeAllPollTimers rt)) d sc) = is_leased (rec_at rt d sc)"
proof -
  have scope: "sr_scope (rec_at rt d sc) = Some sc" using getScopeState_ref [OF inv vref_valid [OF ref]] by simp
  note read = collect_sweep_read [OF inv vref_valid [OF ref], of "\<lambda>st. st\<lparr>sr_polling := PollIdle\<rparr>" poll_timer_of, OF local_update_fields(3),
      folded takeAllPollTimers_sweep]
  have init: "poll_timer_of (initial_scope_state d (Some sc)) = None" by (simp add: poll_timer_of_def)
  show "record_timer (rec_at (fst (takeAllPollTimers rt)) d sc) = None"
    "is_leased (rec_at (fst (takeAllPollTimers rt)) d sc) = is_leased (rec_at rt d sc)"
    using scope unfolding read [OF init] Let_def
    by (auto simp: record_timer_def poll_timer_of_def is_leased_def after_store_fields split: polling.splits)
qed

lemma timers_clear_all:
  "poll_timers (fold (\<lambda>t s'. clearTimer s' (Some t)) ts s) = {x \<in> poll_timers s. fst x \<notin> set ts}"
  by (induction ts arbitrary: s) (auto simp: timers_clear)

lemma clear_all_fields:
  "oc_runtimes (fold (\<lambda>t s'. clearTimer s' (Some t)) ts s) = oc_runtimes s"
  "oc_polls (fold (\<lambda>t s'. clearTimer s' (Some t)) ts s) = oc_polls s"
  "oc_configs (fold (\<lambda>t s'. clearTimer s' (Some t)) ts s) = oc_configs s"
  "oc_auto_refresh (fold (\<lambda>t s'. clearTimer s' (Some t)) ts s) = oc_auto_refresh s"
  "oc_hidden (fold (\<lambda>t s'. clearTimer s' (Some t)) ts s) = oc_hidden s"
  "oc_next (fold (\<lambda>t s'. clearTimer s' (Some t)) ts s) = oc_next s"
  by (induction ts arbitrary: s) (simp_all add: clearTimer_def)

text \<open>A poll timer belongs to one scope.\<close>

lemma timer_scope_unique:
  assumes wf: "orch_wf s" and "(t, x) \<in> poll_timers s" and "(t, y) \<in> poll_timers s"
  shows "x = y"
proof -
  have dist: "distinct (map fst (oc_timers s))" using wf by (simp add: orch_wf_def timers_ok_def)
  show ?thesis using assms(2,3) eq_key_imp_eq_value [OF dist] unfolding poll_timers_def by fastforce
qed

lemma polls_cancel_runtime:
  assumes wf: "orch_wf s" and r: "r < length (oc_runtimes s)" and ok: "polls_ok E s"
  shows "polls_ok (E \<union> {ref. fst ref = r}) (cancelRuntimePolls s r)"
    and "timed (cancelRuntimePolls s r) = {ref \<in> timed s. fst ref \<noteq> r}"
    and "leases (cancelRuntimePolls s r) = leases s"
proof -
  note inv = runtime_inv_wf [OF wf, of r]
  let ?rt = "fst (takeAllPollTimers (runtime s r))" and ?ts = "snd (takeAllPollTimers (runtime s r))"
  let ?s = "fold (\<lambda>t s'. clearTimer s' (Some t)) ?ts (set_runtime s r ?rt)"
  have eq: "cancelRuntimePolls s r = ?s"
    by (simp add: cancelRuntimePolls_def run_runtime_def case_prod_beta)
  have rt: "runtime ?s = runtime (set_runtime s r ?rt)" by (rule runtime_cong) (simp add: clear_all_fields)
  have table: "timer_table ?s = {x \<in> timer_table s. fst (snd x) \<noteq> r}"
    by (rule table_eqI) (auto simp: timer_table_iff rt r take_all_recs(1) [OF inv])
  have leases: "leases ?s = leases s"
    by (auto simp: leases_def rt r take_all_recs(2) [OF inv] split: if_splits)
  have eq_tt: "poll_timers s = timer_table s" using ok by (simp add: polls_ok_def)
  have mine: "t \<in> set ?ts \<longleftrightarrow> fst x = r" if x: "(t, x) \<in> poll_timers s" for t x
  proof
    obtain r' d sc where xe: "x = (r', d, sc)" by (cases x)
    show "t \<in> set ?ts \<Longrightarrow> fst x = r"
    proof -
      assume "t \<in> set ?ts"
      then obtain d' sc' where "vref d' sc'" "record_timer (rec_at (runtime s r) d' sc') = Some t"
        using polls_from_records [OF runtime_wf [OF wf]] by blast
      then have "(t, (r, d', sc')) \<in> poll_timers s" by (simp add: eq_tt timer_table_iff)
      from timer_scope_unique [OF wf this x] show "fst x = r" by (metis fst_conv)
    qed
    show "fst x = r \<Longrightarrow> t \<in> set ?ts"
      using x all_poll_timers [OF inv] by (auto simp: eq_tt timer_table_iff xe)
  qed
  have "poll_timers ?s = {x \<in> poll_timers s. fst (snd x) \<noteq> r}"
    unfolding timers_clear_all using mine by auto
  then have timers: "poll_timers ?s = timer_table ?s" by (simp only: table eq_tt)
  show timed: "timed (cancelRuntimePolls s r) = {ref \<in> timed s. fst ref \<noteq> r}"
    unfolding eq timed_def table by force
  show "leases (cancelRuntimePolls s r) = leases s" by (simp add: eq leases)
  have grow: "grows s ?s" using frame_cancelRuntimePolls [of "{}" s r] wf by (simp add: st_frame_def eq)
  have same: "same_polls s ?s" by (simp add: same_polls_def clear_all_fields)
  have cur: "isRuntimeCurrent ?s r'" if "(r', x) \<in> leases s" for r' x
    using that ok grow lease_runtime unfolding polls_ok_def grows_def by (cases x) fastforce
  show "polls_ok (E \<union> {ref. fst ref = r}) (cancelRuntimePolls s r)"
    unfolding eq
    by (rule polls_ok_change [OF ok grow same timers, where D = "{ref. fst ref = r}"])
      (use timed [unfolded eq] leases cur in auto)
qed

lemma polls_schedule_all:
  assumes wf: "orch_wf s" and r: "r < length (oc_runtimes s)" and cur: "isRuntimeCurrent s r"
    and ok: "polls_ok (E \<union> (\<lambda>(d, sc). (r, d, sc)) ` set ls) s"
    and ls: "\<And>d sc. (d, sc) \<in> set ls \<Longrightarrow> vref d sc \<and> owns s r sc"
  shows "polls_ok E (fold (\<lambda>(d, sc) s'. schedulePoll s' d sc) ls s)"
    and "orch_wf (fold (\<lambda>(d, sc) s'. schedulePoll s' d sc) ls s)"
    and "grows s (fold (\<lambda>(d, sc) s'. schedulePoll s' d sc) ls s)"
proof -
  have "polls_ok E (fold (\<lambda>(d, sc) s'. schedulePoll s' d sc) ls s) \<and>
      orch_wf (fold (\<lambda>(d, sc) s'. schedulePoll s' d sc) ls s) \<and>
      grows s (fold (\<lambda>(d, sc) s'. schedulePoll s' d sc) ls s)"
    using assms
  proof (induction ls arbitrary: s)
    case (Cons v ls)
    obtain d sc where v: "v = (d, sc)" by (cases v)
    have ref: "vref d sc" and own: "owns s r sc" using Cons.prems(5) [of d sc] v by simp_all
    let ?s = "schedulePoll s d sc"
    have "st_frame {} s ?s" by (rule frame_schedulePoll [OF ref]) simp
    then have wf': "orch_wf ?s" and grow: "grows s ?s" using Cons.prems(1) by (simp_all add: st_frame_def)
    have ok': "polls_ok (E \<union> (\<lambda>(d, sc). (r, d, sc)) ` set ls) ?s"
      by (rule polls_schedule(1) [OF Cons.prems(1) ref own Cons.prems(3,4)]) (auto simp: v)
    have "r < length (oc_runtimes ?s)" "isRuntimeCurrent ?s r" using grow Cons.prems(2,3) by (simp_all add: grows_def)
    moreover have "vref d' sc' \<and> owns ?s r sc'" if "(d', sc') \<in> set ls" for d' sc'
      using Cons.prems(5) [of d' sc'] that owns_grows [OF grow] by simp
    ultimately show ?case
      using Cons.IH [OF wf' _ _ ok'] grows_trans [OF grow] by (simp add: v)
  qed simp
  then show "polls_ok E (fold (\<lambda>(d, sc) s'. schedulePoll s' d sc) ls s)"
    "orch_wf (fold (\<lambda>(d, sc) s'. schedulePoll s' d sc) ls s)"
    "grows s (fold (\<lambda>(d, sc) s'. schedulePoll s' d sc) ls s)" by simp_all
qed

lemma all_runtimes_current:
  assumes "orch_wf s"
  shows "r \<in> set (getAllRuntimes s) \<longleftrightarrow> r < length (oc_runtimes s) \<and> isRuntimeCurrent s r"
proof -
  have zero: "0 < length (oc_runtimes s)" using assms by (simp add: orch_wf_def runtimes_ok_def)
  have entry: "0 < r \<and> r < length (oc_runtimes s) \<and> cr_cluster (runtime s r) = c" if "(c, r) \<in> set (oc_clusters s)" for c r
    using assms that by (auto simp: orch_wf_def clusters_ok_def)
  have "map_of (oc_clusters s) c = Some r \<longleftrightarrow> (c, r) \<in> set (oc_clusters s)" for c r
    using assms by (simp add: orch_wf_def clusters_ok_def map_of_eq_Some_iff)
  then show ?thesis
    using zero entry by (force simp: getAllRuntimes_def isRuntimeCurrent_def)
qed

lemma polls_reschedule:
  assumes wf: "orch_wf s" and ok: "polls_ok {ref. fst ref \<in> set (getAllRuntimes s)} s"
  shows "polls_ok {} (reschedulePolls s)"
proof -
  let ?f = "\<lambda>r s1. let s2 = cancelRuntimePolls s1 r
      in fold (\<lambda>(d, sc) s'. schedulePoll s' d sc) (getLeasedScopes (runtime s2 r)) s2"
  have "orch_wf s1 \<Longrightarrow> polls_ok {ref. fst ref \<in> set rs} s1 \<Longrightarrow> (\<And>r. r \<in> set rs \<Longrightarrow> r < length (oc_runtimes s1) \<and> isRuntimeCurrent s1 r) \<Longrightarrow>
      polls_ok {} (fold ?f rs s1)" for rs s1
  proof (induction rs arbitrary: s1)
    case (Cons r rs)
    have r: "r < length (oc_runtimes s1)" and cur: "isRuntimeCurrent s1 r" using Cons.prems(3) by simp_all
    let ?s2 = "cancelRuntimePolls s1 r"
    let ?ls = "getLeasedScopes (runtime ?s2 r)"
    note cancelled = polls_cancel_runtime [OF Cons.prems(1) r Cons.prems(2)]
    have "st_frame {} s1 ?s2" by (rule frame_cancelRuntimePolls) simp
    then have wf2: "orch_wf ?s2" and grow2: "grows s1 ?s2" using Cons.prems(1) by (simp_all add: st_frame_def)
    have r2: "r < length (oc_runtimes ?s2)" "isRuntimeCurrent ?s2 r" using grow2 r cur by (simp_all add: grows_def)
    have ok2: "polls_ok ({ref. fst ref \<in> set rs} \<union> (\<lambda>(d, sc). (r, d, sc)) ` set ?ls) ?s2"
    proof (rule polls_ok_fixed [OF cancelled(1)])
      fix ref
      assume in_r: "ref \<in> {ref. fst ref \<in> set (r # rs)} \<union> {ref. fst ref = r}"
        and out: "ref \<notin> {ref. fst ref \<in> set rs} \<union> (\<lambda>(d, sc). (r, d, sc)) ` set ?ls"
      then obtain d sc where ref: "ref = (r, d, sc)" by (cases ref) auto
      have "ref \<notin> leases ?s2" using leased_in_list [OF wf2, of r d sc] out by (force simp: ref)
      moreover have "ref \<notin> timed ?s2" unfolding cancelled(2) by (simp add: ref)
      ultimately show "scope_polled ?s2 ref" by (simp add: scope_polled_def)
    qed
    have refs: "vref d sc \<and> owns ?s2 r sc" if "(d, sc) \<in> set ?ls" for d sc
      using leased_scope_refs [OF wf2 that] that scope_owned [OF wf2]
      by (auto simp: getLeasedScopes_def List.map_filter_def split: option.splits if_splits)
    note sched = polls_schedule_all [OF wf2 r2 ok2 refs]
    have "r' < length (oc_runtimes (?f r s1)) \<and> isRuntimeCurrent (?f r s1) r'" if "r' \<in> set rs" for r'
      using Cons.prems(3) [of r'] that grows_trans [OF grow2 sched(3)] by (simp add: grows_def Let_def)
    then show ?case using Cons.IH [of "?f r s1"] sched(1,2) by (simp add: Let_def)
  qed (simp add: polls_ok_mono)
  from this [OF wf ok] show ?thesis
    unfolding reschedulePolls_def forEachRuntime_def using all_runtimes_current [OF wf] by blast
qed

text \<open>A change of the pause concerns the leased scopes only.\<close>

lemma polls_pause:
  assumes wf: "orch_wf s" and ok: "polls_ok {} s" and wf': "orch_wf s'"
    and eqs: "oc_runtimes s' = oc_runtimes s" "oc_clusters s' = oc_clusters s" "oc_timers s' = oc_timers s"
      "oc_polls s' = oc_polls s" "oc_next s' = oc_next s"
  shows "polls_ok {ref. fst ref \<in> set (getAllRuntimes s')} s'"
proof -
  have rt: "runtime s' = runtime s" and cur: "isRuntimeCurrent s' = isRuntimeCurrent s"
    by (rule runtime_cong [OF eqs(1)], rule current_cong [OF eqs(1,2)])
  have same: "poll_timers s' = poll_timers s" "timer_table s' = timer_table s" "leases s' = leases s" "timed s' = timed s"
    by (simp_all add: poll_timers_def timer_table_def leases_def timed_def eqs rt)
  have "scope_polled s' ref" if "fst ref \<notin> set (getAllRuntimes s')" for ref
  proof -
    have "ref \<notin> leases s"
    proof
      assume l: "ref \<in> leases s"
      then obtain r d sc where ref: "ref = (r, d, sc)" by (cases ref)
      have "isRuntimeCurrent s r" using l ok by (auto simp: polls_ok_def ref)
      moreover have "r < length (oc_runtimes s)" using l lease_runtime by (simp add: ref)
      ultimately show False using that all_runtimes_current [OF wf'] by (simp add: ref cur eqs)
    qed
    moreover have "scope_polled s ref" using ok unfolding polls_ok_def by blast
    ultimately show ?thesis by (simp add: scope_polled_def same)
  qed
  then show ?thesis using ok by (simp add: polls_ok_def same cur eqs)
qed

section \<open>Polls that start and end\<close>

lemma clear_commutes: "clearTimer (set_runtime s r rt) t = set_runtime (clearTimer s t) r rt"
  by (simp add: clearTimer_def set_runtime_def split: option.split)

lemma runtime_clear [simp]: "runtime (clearTimer s t) = runtime s"
  by (rule runtime_cong) (simp add: clearTimer_def split: option.split)

lemma runtime_polls [simp]: "runtime (s\<lparr>oc_polls := ps\<rparr>) = runtime s"
  by (rule runtime_cong) simp

text \<open>A poll timer that fires leaves its record as a cancelled one does.\<close>

lemma fired_poll:
  assumes t: "(t, (r, d, sc)) \<in> poll_timers s" and ok: "polls_ok E s"
  shows "run_runtime (clearTimer s (Some t)) r (\<lambda>rt. takePollTimer rt d sc) = (cancelPoll s r d sc, Some t)"
proof -
  have "record_timer (rec_at (runtime s r) d sc) = Some t"
    using t ok by (simp add: polls_ok_def timer_table_iff)
  then have "takePollTimer (runtime s r) d sc = (fst (takePollTimer (runtime s r) d sc), Some t)"
    by (simp add: takePollTimer_def record_timer_def Let_def split: polling.splits)
  then obtain rt where rt: "takePollTimer (runtime s r) d sc = (rt, Some t)" by metis
  show ?thesis by (simp add: run_runtime_def cancelPoll_def rt clear_commutes)
qed

lemma polls_run:
  assumes wf: "orch_wf s" and t: "(t, PollTimer r d sc, dl) \<in> set (oc_timers s)" and ok: "polls_ok {} s"
  shows "polls_ok {} (runPoll env (clearTimer s (Some t)) r d sc)"
proof -
  have ref: "vref d sc" and own: "owns s r sc" using timer_kind_refs [OF wf t] by (simp_all add: ref_ok_def)
  have "(t, (r, d, sc)) \<in> poll_timers s" using t by (auto simp: poll_timers_def)
  note run = fired_poll [OF this ok]
  let ?s1 = "cancelPoll s r d sc"
  note cancelled = polls_cancel [OF wf ref own ok]
  have f1: "st_frame {} s ?s1" by (rule frame_cancelPoll [OF ref own]) simp
  then have wf1: "orch_wf ?s1" and own1: "owns ?s1 r sc" using wf own owns_grows by (auto simp: st_frame_def)
  show ?thesis
  proof (cases "isRuntimeCurrent ?s1 r \<and> (r, d, sc) \<in> leases ?s1")
    case False
    then have "(r, d, sc) \<notin> leases ?s1" using cancelled(1) by (auto simp: polls_ok_def)
    then have "polls_ok {} ?s1"
      using cancelled(2) by (intro polls_ok_fixed [OF cancelled(1)]) (auto simp: scope_polled_def)
    with False show ?thesis
      using ref by (simp add: runPoll_def run leases_iff)
  next
    case True
    let ?sec = "snd (getRefreshDomainTiming d)"
    define s4 where "s4 = ?s1\<lparr>oc_timers := oc_timers ?s1 @
        [(oc_next ?s1 + 1, DeadlineTimer (oc_next ?s1) d ?sec, ?sec * 1000)], oc_next := Suc (Suc (Suc (oc_next ?s1)))\<rparr>"
    let ?poll = "\<lparr>pl_id = oc_next ?s1 + 2, pl_runtime = r, pl_domain = d, pl_scope = sc,
        pl_deadline = oc_next ?s1 + 1, pl_settled = False\<rparr>"
    define s5 where "s5 = s4\<lparr>oc_polls := oc_polls ?s1 @ [?poll]\<rparr>"
    have eq: "runPoll env (clearTimer s (Some t)) r d sc = fetchScopedDomain env s5 (PollOwner (oc_next ?s1 + 2)) d sc
        ((fetch_with Background)\<lparr>fo_query_reconcile := True, fo_signal := Some (oc_next ?s1)\<rparr>)"
      using True ref by (simp add: runPoll_def run leases_iff s5_def s4_def fresh_def set_timeout_eq Let_def)
    have fresh_id: "x < oc_next ?s1" if "(x, k, w) \<in> set (oc_timers ?s1)" for x k w
      using wf1 that by (fastforce simp: orch_wf_def timers_ok_def)
    have f4: "st_frame {} ?s1 s4"
    proof -
      have "s4 = fst (fresh (fst (set_timeout (fst (fresh ?s1)) (DeadlineTimer (oc_next ?s1) d ?sec) (?sec * 1000))))"
        by (simp add: s4_def fresh_def set_timeout_eq)
      then show ?thesis
        by (metis st_frame_trans [OF frame_ops(12) st_frame_trans [OF frame_set_timeout frame_ops(12)]]
            kind_ref.simps(3) empty_subsetI option.distinct(1))
    qed
    then have wf4: "orch_wf s4" using wf1 by (simp add: st_frame_def)
    have "st_frame {} s4 s5"
    proof (rule frame_lists)
      fix q
      assume "q \<in> set (oc_polls s5)" and "q \<notin> set (oc_polls s4)"
      then have "q = ?poll" by (auto simp: s5_def s4_def)
      then show "pl_deadline q < oc_next s5 \<and> (\<forall>k w. (pl_deadline q, k, w) \<in> set (oc_timers s4) \<longrightarrow> is_deadline k)"
        using fresh_id by (fastforce simp: s5_def s4_def)
    next
      have "owns s4 = owns ?s1" by (rule owns_cong) (simp add: s4_def)
      then show "v \<in> refs s5 \<Longrightarrow> v \<in> refs s4 \<or> ref_ok s4 v" for v
        using own1 ref by (auto simp: refs_def poll_ref_def ref_ok_def s5_def s4_def)
    qed (simp_all add: s5_def s4_def)
    then have wf5: "orch_wf s5" using wf4 by (simp add: st_frame_def)
    have rt: "runtime s5 = runtime ?s1" by (rule runtime_cong) (simp add: s5_def s4_def)
    have cur: "isRuntimeCurrent s5 = isRuntimeCurrent ?s1" by (rule current_cong) (simp_all add: s5_def s4_def)
    have same: "timer_table s5 = timer_table ?s1" "leases s5 = leases ?s1" "timed s5 = timed ?s1"
      by (simp_all add: timer_table_def leases_def timed_def rt)
    have timers: "poll_timers s5 = poll_timers ?s1" by (auto simp: poll_timers_def s5_def s4_def)
    have polling: "polling_refs s5 = insert (r, d, sc) (polling_refs ?s1)"
      by (simp add: polling_refs_def s5_def s4_def poll_ref_def)
    have still: "scope_polled s5 x" if "x = (r, d, sc) \<or> scope_polled ?s1 x" for x
      using that cancelled(2) unfolding scope_polled_def same polling
      by (auto simp: s5_def s4_def isPolledDomain_def isPassiveWorkPaused_def)
    have ids: "pl_id p < oc_next ?s1" if "p \<in> set (oc_polls ?s1)" for p
      using cancelled(1) that by (simp add: polls_ok_def)
    have "polls_ok {} s5"
      unfolding polls_ok_def same timers cur
    proof (intro conjI)
      show "distinct (map pl_id (oc_polls s5))" "\<forall>p\<in>set (oc_polls s5). pl_id p < oc_next s5"
        using cancelled(1) ids by (fastforce simp: polls_ok_def s5_def s4_def)+
      show "\<forall>ref. ref \<notin> {} \<longrightarrow> scope_polled s5 ref"
        using cancelled(1) still unfolding polls_ok_def by blast
    qed (use cancelled(1) in \<open>simp_all add: polls_ok_def\<close>)
    from polls_keep(1) [OF frame_fetchScoped wf5 this] show ?thesis unfolding eq by simp
  qed
qed

lemma polls_settle:
  assumes wf: "orch_wf s" and p: "p \<in> set (oc_polls s)" and ok: "polls_ok {} s"
  shows "polls_ok {} (poll_settles s p)"
proof -
  let ?ref = "(pl_runtime p, pl_domain p, pl_scope p)"
  let ?s1 = "clearTimer (s\<lparr>oc_polls := filter (\<lambda>q. pl_id q \<noteq> pl_id p) (oc_polls s)\<rparr>) (Some (pl_deadline p))"
  have ref: "vref (pl_domain p) (pl_scope p)" and own: "owns s (pl_runtime p) (pl_scope p)"
    using poll_refs [OF wf p] by (simp_all add: ref_ok_def)
  have f1: "st_frame {} s ?s1" by (rule frame_end_poll [OF p]) simp
  then have wf1: "orch_wf ?s1" and own1: "owns ?s1 (pl_runtime p) (pl_scope p)"
    using wf own owns_grows by (auto simp: st_frame_def)
  have rt: "runtime ?s1 = runtime s" by (rule runtime_cong) (simp add: clearTimer_def)
  have cur: "isRuntimeCurrent ?s1 = isRuntimeCurrent s" by (rule current_cong) (simp_all add: clearTimer_def)
  have same: "timer_table ?s1 = timer_table s" "leases ?s1 = leases s" "timed ?s1 = timed s"
    by (simp_all add: timer_table_def leases_def timed_def rt)
  have deadline: "is_deadline k" if "(pl_deadline p, k, w) \<in> set (oc_timers s)" for k w
    using wf p that unfolding orch_wf_def timers_ok_def by blast
  have timers: "poll_timers ?s1 = poll_timers s"
    using deadline by (fastforce simp: poll_timers_def clearTimer_def)
  have dist: "distinct (map pl_id (oc_polls s))" using ok by (simp add: polls_ok_def)
  have gone: "q = p" if "q \<in> set (oc_polls s)" "pl_id q = pl_id p" for q
    using that p dist by (metis inj_on_def distinct_map)
  have polling: "x \<in> polling_refs ?s1" if "x \<in> polling_refs s" "x \<noteq> ?ref" for x
    using that gone by (force simp: polling_refs_def clearTimer_def poll_ref_def)
  have others: "scope_polled ?s1 x" if "x \<noteq> ?ref" for x
  proof -
    have "scope_polled s x" using ok unfolding polls_ok_def by blast
    then show ?thesis
      unfolding scope_polled_def same using polling [OF _ that]
      by (auto simp: clearTimer_def isPolledDomain_def isPassiveWorkPaused_def)
  qed
  have ok1: "polls_ok {?ref} ?s1"
    unfolding polls_ok_def same timers cur
  proof (intro conjI)
    show "distinct (map pl_id (oc_polls ?s1))" using dist by (simp add: clearTimer_def distinct_map_filter)
  qed (use ok others in \<open>auto simp: polls_ok_def clearTimer_def\<close>)
  show ?thesis
  proof (cases "isRuntimeCurrent ?s1 (pl_runtime p) \<and> ?ref \<notin> timed ?s1")
    case True
    then have "poll_settles s p = schedulePoll ?s1 (pl_domain p) (pl_scope p)"
      using ref by (auto simp: poll_settles_def Let_def timed_iff isPollScheduled_def record_timer_def split: polling.splits)
    then show ?thesis using polls_schedule(1) [OF wf1 ref own1 _ ok1, of "{}"] True by simp
  next
    case False
    then have "poll_settles s p = ?s1"
      using ref by (auto simp: poll_settles_def Let_def timed_iff isPollScheduled_def record_timer_def split: polling.splits)
    moreover have "scope_polled ?s1 ?ref"
    proof -
      have "?ref \<in> timed s \<longrightarrow> ?ref \<in> leases s" "?ref \<in> leases s \<longrightarrow> isRuntimeCurrent s (pl_runtime p)"
        using ok by (auto simp: polls_ok_def scope_polled_def)
      with False show ?thesis unfolding scope_polled_def same cur by auto
    qed
    ultimately show ?thesis using polls_ok_fixed [OF ok1, of "{}"] by simp
  qed
qed

lemma polls_timer:
  assumes wf: "orch_wf s" and t: "(t, kind, dl) \<in> set (oc_timers s)" and ok: "polls_ok {} s"
  shows "polls_ok {} (timer_fires env s t kind)"
proof (cases kind)
  case (PollTimer r d sc)
  then show ?thesis using polls_run [OF wf _ ok, of t r d sc dl] t by (simp add: timer_fires_def Let_def)
next
  case (RetryTimer r d sc)
  have ref: "vref d sc" and own: "owns s r sc" using timer_kind_refs [OF wf t] RetryTimer by (simp_all add: ref_ok_def)
  have only: "k = kind" if "(t, k, w) \<in> set (oc_timers s)" for k w
    using wf t that eq_key_imp_eq_value [of "oc_timers s" t "(k, w)" "(kind, dl)"]
    by (simp add: orch_wf_def timers_ok_def)
  have f1: "st_frame {Polls} s (clearTimer s (Some t))"
    by (rule frame_clearTimer) (use only RetryTimer in fastforce)
  have "owns (clearTimer s (Some t)) = owns s" by (rule owns_cong) (simp add: clearTimer_def)
  then have "st_frame {Polls} s (stream_retry_fires env (clearTimer s (Some t)) r d sc)"
    using own by (intro st_frame_trans [OF f1 frame_retry_fires [OF ref]]) simp_all
  then show ?thesis using polls_keep(1) [OF _ wf ok] RetryTimer by (simp add: timer_fires_def Let_def)
next
  case (DeadlineTimer c d sec)
  let ?s1 = "clearTimer s (Some t)"
  have only: "k = kind" if "(t, k, w) \<in> set (oc_timers s)" for k w
    using wf t that eq_key_imp_eq_value [of "oc_timers s" t "(k, w)" "(kind, dl)"]
    by (simp add: orch_wf_def timers_ok_def)
  have "st_frame {} s ?s1" by (rule frame_clearTimer) (use only DeadlineTimer in fastforce)
  then have wf1: "orch_wf ?s1" and grow: "grows s ?s1" using wf by (simp_all add: st_frame_def)
  have timers: "poll_timers ?s1 = poll_timers s"
    unfolding timers_clear using only by (fastforce simp: poll_timers_def DeadlineTimer)
  have same: "timer_table ?s1 = timer_table s" "leases ?s1 = leases s" "timed ?s1 = timed s"
    by (simp_all add: timer_table_def leases_def timed_def)
  have "same_polls s ?s1" by (simp add: same_polls_def clearTimer_def)
  then have "polls_ok {} ?s1"
    using ok by (intro polls_ok_change [OF ok grow, where D = "{}"]) (simp_all add: timers same polls_ok_def)
  from polls_keep(1) [OF frame_abort_signal wf1 this] show ?thesis
    by (simp add: timer_fires_def Let_def DeadlineTimer)
qed

section \<open>A change of the kubeconfig\<close>

text \<open>No poll timer is armed; what is left of the invariant while leases go.\<close>

definition quiet :: "orch \<Rightarrow> bool" where
  "quiet s \<longleftrightarrow> polls_ok UNIV s \<and> timed s = {}"

lemma quiet_keep: "st_frame {Polls} s s' \<Longrightarrow> orch_wf s \<Longrightarrow> quiet s \<Longrightarrow> quiet s' \<and> leases s' = leases s"
  using polls_keep [of s s' UNIV] by (simp add: quiet_def)

lemma quiet_disable:
  "orch_wf s \<Longrightarrow> vref d sc \<Longrightarrow> quiet s \<Longrightarrow> quiet (fst (disableScopedDomain_in env s d sc preserve)) \<and>
     leases (fst (disableScopedDomain_in env s d sc preserve)) = leases s"
  using polls_disable [of s d sc UNIV env preserve] by (simp add: quiet_def)

lemma quiet_disableDomain:
  assumes wf: "orch_wf s" and q: "quiet s"
  shows "quiet (disableDomain env s d) \<and> leases (disableDomain env s d) = leases s"
proof -
  have known: "vref d sc" if "sc \<in> set (getKnownScopes_all s d)" for sc
    using known_scope_refs [OF wf] that by (auto simp: getKnownScopes_all_def)
  let ?f = "\<lambda>sc s'. fst (disableScopedDomain_in env s' d sc False)"
  have run: "orch_wf s' \<Longrightarrow> quiet s' \<Longrightarrow> (\<And>sc. sc \<in> set scs \<Longrightarrow> vref d sc) \<Longrightarrow>
      orch_wf (fold ?f scs s') \<and> quiet (fold ?f scs s') \<and> leases (fold ?f scs s') = leases s'" for scs s'
  proof (induction scs arbitrary: s')
    case (Cons sc scs)
    then have ref: "vref d sc" by simp
    show ?case
      using Cons.IH [of "?f sc s'"] quiet_disable [OF Cons.prems(1) ref Cons.prems(2), of env False]
        frame_wf [OF frame_disableScope [OF ref] Cons.prems(1), of env False] Cons.prems(3) by simp
  qed simp
  from run [OF wf q known] quiet_keep [OF frame_ops(8)] show ?thesis
    by (simp add: disableDomain_def)
qed

lemma delete_domain_step:
  fixes d :: string
  assumes wf: "orch_wf s" and free: "reads_free s" and q: "quiet s" and r: "r < length (oc_runtimes s)"
  defines "s' \<equiv> upd_runtime s r (\<lambda>rt. deleteDomain rt d)"
  shows "orch_wf s'" and "reads_free s'" and "grows s s'" and "quiet s'"
    and "leases s' = {(r', d', sc) \<in> leases s. r' \<noteq> r \<or> d' \<noteq> d}"
proof -
  show "orch_wf s'" and "reads_free s'" and grow: "grows s s'"
    using free_delete_domain(1) [of s r d] wf free by (simp_all add: s'_def free_frame_def)
  note inv = runtime_inv_wf [OF wf, of r]
  have read: "rec_at (runtime s' r') d' sc = (if r' = r \<and> d' = d then initial_scope_state d (Some sc) else rec_at (runtime s r') d' sc)"
    if "vref d' sc" for r' d' sc
    using r that deleteDomain_read [OF inv vref_valid [OF that], of d] by (auto simp: s'_def upd_runtime_def)
  show leases: "leases s' = {(r', d', sc) \<in> leases s. r' \<noteq> r \<or> d' \<noteq> d}"
    by (auto simp: leases_def read is_leased_def totalDemand_def no_scoped_demand_def split: if_splits)
  have none: "timer_table s = {}" using q by (auto simp: quiet_def timed_def)
  have rec_none: "record_timer (rec_at (runtime s r') d' sc) = None" if "vref d' sc" for r' d' sc
    using none that timer_table_iff [of _ r' d' sc s] by (metis empty_iff option.exhaust)
  have "record_timer (initial_scope_state d (Some sc)) = None" for sc by (simp add: record_timer_def)
  then have table: "timer_table s' = {}"
    using rec_none by (auto simp: timer_table_def read split: if_splits)
  have timers: "poll_timers s' = poll_timers s" by (simp add: s'_def upd_runtime_def)
  have cur: "isRuntimeCurrent s' r'" if "(r', x) \<in> leases s'" for r' x
    using that q grow lease_runtime [of r'] unfolding quiet_def polls_ok_def grows_def leases by (cases x) fastforce
  have "oc_polls s' = oc_polls s" "oc_next s' = oc_next s" by (simp_all add: s'_def upd_runtime_def)
  then show "quiet s'"
    using q cur table timers none by (auto simp: quiet_def polls_ok_def timed_def)
qed

lemma delete_domain_all:
  fixes d :: string
  assumes wf: "orch_wf s" and free: "reads_free s" and q: "quiet s"
  defines "s' \<equiv> deleteDomainFromAllRuntimes s d"
  shows "orch_wf s'" and "quiet s'" and "reads_free s'" and "leases s' \<subseteq> {(r, d', sc) \<in> leases s. d' \<noteq> d}"
proof -
  let ?f = "\<lambda>r s'. upd_runtime s' r (\<lambda>rt. deleteDomain rt d)"
  have run: "orch_wf s1 \<Longrightarrow> reads_free s1 \<Longrightarrow> quiet s1 \<Longrightarrow> (\<And>r. r \<in> set rs \<Longrightarrow> r < length (oc_runtimes s1)) \<Longrightarrow>
      orch_wf (fold ?f rs s1) \<and> quiet (fold ?f rs s1) \<and> reads_free (fold ?f rs s1) \<and>
      leases (fold ?f rs s1) = {(r, d', sc) \<in> leases s1. r \<notin> set rs \<or> d' \<noteq> d}" for rs s1
  proof (induction rs arbitrary: s1)
    case (Cons r rs)
    note step = delete_domain_step [OF Cons.prems(1,2,3) Cons.prems(4), of r d]
    have "r' < length (oc_runtimes (?f r s1))" if "r' \<in> set rs" for r'
      using Cons.prems(4) [of r'] that step(3) by (simp add: grows_def)
    then show ?case using Cons.IH [of "?f r s1"] step by auto
  qed auto
  have all: "r < length (oc_runtimes s)" if "r \<in> set (getAllRuntimes s)" for r
    using that all_runtimes_current [OF wf] by blast
  note runs = run [OF wf free q all]
  show "orch_wf s'" "quiet s'" "reads_free s'" unfolding s'_def deleteDomainFromAllRuntimes_def forEachRuntime_def using runs by simp_all
  have "r \<in> set (getAllRuntimes s)" if "(r, x) \<in> leases s" for r x
    using that q all_runtimes_current [OF wf] lease_runtime [of r "fst x" "snd x" s] by (auto simp: quiet_def polls_ok_def)
  then show "leases s' \<subseteq> {(r, d', sc) \<in> leases s. d' \<noteq> d}"
    unfolding s'_def deleteDomainFromAllRuntimes_def forEachRuntime_def using runs by auto
qed

lemma polls_changing:
  assumes wf: "orch_wf s" and ok: "polls_ok {} s"
  shows "polls_ok {} (handleKubeconfigChanging env s)"
proof -
  let ?s1 = "forEachRuntime (\<lambda>r s'. upd_runtime s' r (\<lambda>rt. fst (markAuthRecovered rt))) s"
  let ?s2 = "stopAllStreaming (incrementContextVersion (with_notifier ?s1 clearAll)) True"
  let ?s3 = "forEachRuntime (\<lambda>r s'. cancelRuntimePolls s' r) ?s2"
  let ?s4 = "clearAllStreamHealth_all (clearAllBlockedStreaming (abortAllInFlight ?s3))"
  let ?f = "\<lambda>(d, _) s'. deleteDomainFromAllRuntimes (resetDomain (disableDomain env s' d) d) d"
  have f2: "st_frame {Polls} s ?s2"
    by (rule st_frame_trans [OF frame_forEach_sweep st_frame_trans [OF frame_ops(4)
            st_frame_trans [OF frame_ops(9) frame_stopAllStreaming]]]) (simp_all add: markAuthRecovered_def rt_frame_auth)
  have wf2: "orch_wf ?s2" by (rule frame_wf [OF f2 wf])
  have ok2: "polls_ok {} ?s2" by (rule polls_keep(1) [OF f2 wf ok])
  have run: "orch_wf s' \<Longrightarrow> polls_ok UNIV s' \<Longrightarrow> (\<And>r. r \<in> set rs \<Longrightarrow> r < length (oc_runtimes s')) \<Longrightarrow>
      orch_wf (fold (\<lambda>r s'. cancelRuntimePolls s' r) rs s') \<and> polls_ok UNIV (fold (\<lambda>r s'. cancelRuntimePolls s' r) rs s') \<and>
      timed (fold (\<lambda>r s'. cancelRuntimePolls s' r) rs s') = {ref \<in> timed s'. fst ref \<notin> set rs}" for rs s'
  proof (induction rs arbitrary: s')
    case (Cons r rs)
    have f: "st_frame {} s' (cancelRuntimePolls s' r)" by (rule frame_cancelRuntimePolls) simp
    have "r' < length (oc_runtimes (cancelRuntimePolls s' r))" if "r' \<in> set rs" for r'
      using Cons.prems(3) [of r'] that f Cons.prems(1) by (simp add: st_frame_def grows_def)
    moreover note polls_cancel_runtime [OF Cons.prems(1) Cons.prems(3) Cons.prems(2), of r]
    ultimately show ?case using Cons.IH [of "cancelRuntimePolls s' r"] frame_wf [OF f Cons.prems(1)] by auto
  qed simp
  have all: "r < length (oc_runtimes ?s2)" if "r \<in> set (getAllRuntimes ?s2)" for r
    using that all_runtimes_current [OF wf2] by blast
  note cancelled = run [OF wf2 polls_ok_mono [OF ok2] all, simplified, folded forEachRuntime_def]
  have "timed ?s3 = {}"
  proof -
    have "fst ref \<in> set (getAllRuntimes ?s2)" if t: "ref \<in> timed ?s2" for ref
    proof -
      obtain r d sc where ref: "ref = (r, d, sc)" by (cases ref)
      have "scope_polled ?s2 ref" using ok2 unfolding polls_ok_def by blast
      then have l: "(r, d, sc) \<in> leases ?s2" using t by (simp add: scope_polled_def ref)
      then have "isRuntimeCurrent ?s2 r" using ok2 by (auto simp: polls_ok_def)
      then show ?thesis using lease_runtime [OF l] all_runtimes_current [OF wf2] by (simp add: ref)
    qed
    then show ?thesis using cancelled unfolding forEachRuntime_def by blast
  qed
  then have q3: "quiet ?s3" and wf3: "orch_wf ?s3" using cancelled unfolding quiet_def forEachRuntime_def by blast+
  have f4: "st_frame {Polls} ?s3 ?s4"
    by (rule st_frame_trans [OF frame_abort_all frame_clear_streams]) simp
  have q4: "quiet ?s4" and wf4: "orch_wf ?s4" using quiet_keep [OF f4 wf3 q3] frame_wf [OF f4 wf3] by simp_all
  have free4: "reads_free ?s4"
    using free_reads_kept [OF frame_clear_streams] frame_wf [OF frame_abort_all [of "{}"] wf3] free_abort_all [OF wf3]
    by (simp add: free_frame_def)
  have sweep: "orch_wf s' \<Longrightarrow> reads_free s' \<Longrightarrow> quiet s' \<Longrightarrow> orch_wf (fold ?f cs s') \<and> quiet (fold ?f cs s') \<and>
      leases (fold ?f cs s') \<subseteq> {(r, d, sc) \<in> leases s'. d \<notin> fst ` set cs}" for cs and s' :: orch
  proof (induction cs arbitrary: s')
    case (Cons v cs)
    obtain d config where v: "v = (d, config)" by (cases v)
    let ?a = "resetDomain (disableDomain env s' d) d"
    have qd: "quiet (disableDomain env s' d)" "leases (disableDomain env s' d) = leases s'"
      using quiet_disableDomain [OF Cons.prems(1,3)] by simp_all
    have wfd: "orch_wf (disableDomain env s' d)" by (rule frame_wf [OF frame_disableDomain Cons.prems(1)])
    have qa: "quiet ?a" "leases ?a = leases s'" "orch_wf ?a"
      using quiet_keep [OF frame_ops(3) wfd qd(1)] qd(2) frame_wf [OF frame_ops(3) wfd] by simp_all
    have "reads_free ?a"
      using free_frame_trans [OF free_disableDomain free_reads_kept [OF frame_ops(3)]] Cons.prems(1,2)
      by (simp add: free_frame_def)
    note del = delete_domain_all [OF qa(3) this qa(1), of d]
    show ?case using Cons.IH [OF del(1,3,2)] del(4) unfolding qa(2) by (auto simp: v)
  qed auto
  let ?e = "fold ?f (oc_configs ?s4) ?s4"
  have end_state: "quiet ?e" "leases ?e \<subseteq> {(r, d, sc) \<in> leases ?s4. d \<notin> fst ` set (oc_configs ?s4)}"
    using sweep [OF wf4 free4 q4, of "oc_configs ?s4"] by simp_all
  have configs: "oc_configs ?e = oc_configs ?s4"
  proof -
    have "free_frame ?s4 ?e" by (rule free_frame_fold) (simp add: free_reset_and_delete split: prod.split)
    then show ?thesis using wf4 free4 by (simp add: free_frame_def grows_def)
  qed
  have "scope_polled ?e ref" for ref
  proof -
    obtain r d sc where ref: "ref = (r, d, sc)" by (cases ref)
    have "\<not> isPolledDomain ?e d" if "ref \<in> leases ?e"
    proof -
      have "d \<notin> fst ` set (oc_configs ?e)" using that end_state(2) unfolding ref configs by blast
      then have "map_of (oc_configs ?e) d = None" by (simp add: map_of_eq_None_iff)
      then show ?thesis by (simp add: isPolledDomain_def)
    qed
    moreover have "ref \<notin> timed ?e" using end_state(1) by (simp add: quiet_def)
    ultimately show ?thesis unfolding scope_polled_def ref by auto
  qed
  then have "polls_ok {} ?e" using polls_ok_fixed [of UNIV ?e "{}"] end_state(1) by (simp add: quiet_def)
  then show ?thesis unfolding handleKubeconfigChanging_def Let_def .
qed

section \<open>Closing clusters\<close>

lemma polls_pruned:
  assumes wf: "orch_wf s" and ok: "polls_ok {} s" and entry: "map_of (oc_clusters s) c = Some r"
  defines "s' \<equiv> prune_runtime c r s"
  shows "polls_ok {} s'"
proof -
  have mem: "(c, r) \<in> set (oc_clusters s)" using entry by (rule map_of_SomeD)
  then have r: "r < length (oc_runtimes s)" and name: "cr_cluster (runtime s r) = c"
    using wf by (auto simp: orch_wf_def clusters_ok_def)
  let ?s1 = "stopRuntimeStreaming s r True"
  let ?s2 = "cancelRuntimePolls ?s1 r"
  let ?s3 = "teardown_all_in_flight ?s2 r"
  let ?s4 = "upd_runtime ?s3 r resetAllState"
  have f1: "st_frame {Polls} s ?s1" by (rule frame_stopRuntimeStreaming) simp
  have wf1: "orch_wf ?s1" and g1: "grows s ?s1" using f1 wf by (simp_all add: st_frame_def)
  have ok1: "polls_ok {} ?s1" by (rule polls_keep(1) [OF f1 wf ok])
  have r1: "r < length (oc_runtimes ?s1)" using g1 r by (simp add: grows_def)
  note cancelled = polls_cancel_runtime [OF wf1 r1 ok1]
  have f2: "st_frame {} ?s1 ?s2" by (rule frame_cancelRuntimePolls) simp
  have wf2: "orch_wf ?s2" and g2: "grows ?s1 ?s2" using f2 wf1 by (simp_all add: st_frame_def)
  have f3: "st_frame {Polls} ?s2 ?s3" by (rule frame_teardown_all) simp
  have wf3: "orch_wf ?s3" and g3: "grows ?s2 ?s3" using f3 wf2 by (simp_all add: st_frame_def)
  note keep3 = polls_keep [OF f3 wf2 cancelled(1)]
  have r3: "r < length (oc_runtimes ?s3)" using g2 g3 r1 by (simp add: grows_def)
  have f4: "st_frame {} ?s3 ?s4" by (rule frame_reset_all) (simp add: teardown_all_idle [OF wf2])
  have wf4: "orch_wf ?s4" and g4: "grows ?s3 ?s4" using f4 wf3 by (simp_all add: st_frame_def)
  have grow: "grows s ?s4" using g1 g2 g3 g4 grows_trans by blast
  note read = reset_all_read [of ?s3 r]
  have init: "record_timer (initial_scope_state d (Some sc)) = None" "\<not> is_leased (initial_scope_state d (Some sc))" for d sc
    by (simp_all add: record_timer_def is_leased_def totalDemand_def no_scoped_demand_def)
  have timed3: "timed ?s3 = {ref \<in> timed ?s1. fst ref \<noteq> r}" using keep3(3) cancelled(2) by simp
  have table: "timer_table ?s4 = timer_table ?s3"
  proof (rule table_eqI)
    fix t r' d sc
    have "(r, d, sc) \<notin> timed ?s3" by (simp add: timed3)
    then have "vref d sc \<Longrightarrow> record_timer (rec_at (runtime ?s3 r) d sc) = None" by (simp add: timed_iff)
    then show "(t, r', d, sc) \<in> timer_table ?s4 \<longleftrightarrow> (t, r', d, sc) \<in> timer_table ?s3"
      by (auto simp: timer_table_iff read init)
  qed
  then have timed4: "timed ?s4 = timed ?s3" by (simp add: timed_def)
  have leases4: "leases ?s4 = {ref \<in> leases ?s3. fst ref \<noteq> r}" by (auto simp: leases_def read init split: if_splits)
  have fields4: "oc_polls ?s4 = oc_polls ?s3" "oc_next ?s4 = oc_next ?s3" "oc_configs ?s4 = oc_configs ?s3"
    "oc_auto_refresh ?s4 = oc_auto_refresh ?s3" "oc_hidden ?s4 = oc_hidden ?s3" "poll_timers ?s4 = poll_timers ?s3"
    by (simp_all add: upd_runtime_def)
  let ?s5 = "?s4\<lparr>oc_clusters := AList.delete c (oc_clusters ?s4)\<rparr>"
  have rt5: "runtime ?s5 = runtime ?s4" by (rule runtime_cong) simp
  have lookup: "map_of (AList.delete c (oc_clusters ?s4)) k = (if k = c then None else map_of (oc_clusters ?s4) k)" for k
    using delete_conv' [of c "oc_clusters ?s4"] by simp
  have s': "s' = emit_event ?s5 (ClusterPruned c)" unfolding s'_def prune_runtime_def Let_def by simp
  note at_c = entry_grows [OF wf entry grow]
  have cur5: "isRuntimeCurrent ?s5 x" if "isRuntimeCurrent ?s4 x" "x \<noteq> r" for x
    using that at_c unfolding isRuntimeCurrent_def rt5 by (auto simp: lookup)
  have same5: "timer_table ?s5 = timer_table ?s4" "leases ?s5 = leases ?s4" "timed ?s5 = timed ?s4" "poll_timers ?s5 = poll_timers ?s4"
    by (simp_all add: timer_table_def leases_def timed_def poll_timers_def rt5)
  have wf5: "orch_wf ?s5" by (rule wf_delete_cluster [OF wf4 at_c]) (simp add: read fetch_of_def initial_free)
  have cur4: "isRuntimeCurrent ?s4 x" if "(x, y) \<in> leases ?s3" for x y
  proof -
    have "isRuntimeCurrent ?s3 x" using that keep3(1) by (auto simp: polls_ok_def)
    moreover have "x < length (oc_runtimes ?s3)" using that lease_runtime by (cases y) auto
    ultimately show ?thesis using g4 by (simp add: grows_def)
  qed
  have polled: "scope_polled ?s5 ref" for ref
  proof (cases "fst ref = r")
    case True
    then have "ref \<notin> timed ?s5" "ref \<notin> leases ?s5" by (simp_all add: same5 timed4 timed3 leases4)
    then show ?thesis by (simp add: scope_polled_def)
  next
    case False
    then have "scope_polled ?s3 ref" using keep3(1) unfolding polls_ok_def by blast
    with False show ?thesis
      by (simp add: scope_polled_def same5 timed4 leases4 polling_refs_def isPolledDomain_def isPassiveWorkPaused_def fields4)
  qed
  have ok5: "polls_ok {} ?s5"
    unfolding polls_ok_def
  proof (intro conjI)
    show "\<forall>(x, _)\<in>leases ?s5. isRuntimeCurrent ?s5 x" using cur4 cur5 by (auto simp: same5 leases4)
  qed (use keep3(1) polled in \<open>simp_all add: same5 table fields4 polls_ok_def\<close>)
  then show "polls_ok {} s'" unfolding s' by (rule polls_keep(1) [OF frame_ops(5) wf5])
qed

lemma polls_connected:
  assumes wf: "orch_wf s" and ok: "polls_ok {} s"
  shows "polls_ok {} (setConnectedClusters s ids)"
proof -
  let ?connected = "filter (\<lambda>c. c \<noteq> []) (map trim ids)"
  let ?s1 = "resetScopedStatesForRemovedClusters s ?connected"
  let ?s2 = "with_notifier ?s1 (\<lambda>n. clearRemovedClusters n ?connected)"
  have f2: "st_frame {Polls} s ?s2" by (rule st_frame_trans [OF frame_reset_removed frame_ops(4)])
  have wf2: "orch_wf ?s2" by (rule frame_wf [OF f2 wf])
  have ok2: "polls_ok {} ?s2" by (rule polls_keep(1) [OF f2 wf ok])
  note pruned = conjunct2 [OF prune_all [of "polls_ok {}", OF polls_pruned wf2 ok2, of "set ?connected"]]
    and wf' = conjunct1 [OF prune_all [of "polls_ok {}", OF polls_pruned wf2 ok2, of "set ?connected"]]
  show ?thesis
    unfolding setConnectedClusters_def pruneRemovedClusterRuntimes_def Let_def
    by (rule polls_keep(1) [OF frame_ops(8) wf' pruned])
qed

section \<open>The invariant\<close>

lemma polls_auto_refresh:
  assumes wf: "orch_wf s" and ok: "polls_ok {} s"
  shows "polls_ok {} (handleAutoRefreshChanged env s enabled)"
proof -
  let ?s1 = "s\<lparr>oc_auto_refresh := enabled\<rparr>"
  let ?s2 = "handleStreamingScopeChanges env ?s1 (getAllRuntimes ?s1)"
  have wf1: "orch_wf ?s1" by (rule frame_wf [OF frame_pause(1) [of "{}"] wf]) simp
  have f2: "st_frame {Polls} ?s1 ?s2" by (rule frame_handleStreamingScopeChanges) simp
  have wf2: "orch_wf ?s2" and grow: "grows ?s1 ?s2" using f2 wf1 by (simp_all add: st_frame_def)
  have ok1: "polls_ok {ref. fst ref \<in> set (getAllRuntimes ?s1)} ?s1" by (rule polls_pause [OF wf ok wf1]) simp_all
  have "{ref :: scope_ref. fst ref \<in> set (getAllRuntimes ?s1)} \<subseteq> {ref. fst ref \<in> set (getAllRuntimes ?s2)}"
    using all_runtimes_current [OF wf1] all_runtimes_current [OF wf2] grow by (auto simp: grows_def)
  then have "polls_ok {ref. fst ref \<in> set (getAllRuntimes ?s2)} ?s2"
    by (rule polls_ok_mono [OF polls_keep(1) [OF f2 wf1 ok1]])
  from polls_reschedule [OF wf2 this] show ?thesis by (simp add: handleAutoRefreshChanged_def Let_def)
qed

lemma polls_hidden:
  assumes wf: "orch_wf s" and ok: "polls_ok {} s"
  shows "polls_ok {} (setDocumentHidden s hidden)"
proof -
  let ?s1 = "s\<lparr>oc_hidden := hidden\<rparr>"
  have wf1: "orch_wf ?s1" by (rule frame_wf [OF frame_pause(2) [of "{}"] wf]) simp
  have "polls_ok {ref. fst ref \<in> set (getAllRuntimes ?s1)} ?s1" by (rule polls_pause [OF wf ok wf1]) simp_all
  from polls_reschedule [OF wf1 this] ok show ?thesis by (simp add: setDocumentHidden_def)
qed

lemma polls_step:
  assumes wf: "orch_wf s" and ok: "polls_ok {} s" and step: "orch_step s s'"
  shows "polls_ok {} s'"
proof -
  note keep = polls_keep(1) [OF _ wf ok]
  show ?thesis
    using step
  proof cases
    case (step_joined job r completion)
    then show ?thesis using keep [OF frame_joined_step [OF wf]] by simp
  next
    case (step_answered job e env answer)
    then show ?thesis using keep [OF frame_answered_step [OF wf]] by simp
  next
    case (step_denied d sc env)
    then show ?thesis using keep [OF frame_denied [OF event_vref]] by simp
  next
    case (step_drift d sc)
    then show ?thesis using keep [OF frame_drift [OF event_vref]] by simp
  next
    case (step_health payload)
    then show ?thesis using keep [OF frame_health [OF event_vref]] by simp
  next
    case (step_decided job r env)
    then show ?thesis using keep [OF st_frame_trans [OF frame_remove_job frame_fetch_decided]] by simp
  next
    case (step_refreshed job failure)
    then show ?thesis using keep [OF st_frame_trans [OF frame_remove_job frame_tell_owner]] by simp
  next
    case (step_trailing job completion)
    then show ?thesis using keep [OF st_frame_trans [OF frame_remove_job frame_tell_owner]] by simp
  qed (simp_all add: polls_connected polls_acquire polls_release polls_reset polls_changing polls_auto_refresh polls_hidden
      polls_timer polls_settle wf ok keep frame_refreshCluster frame_fetchScoped frame_restart frame_refresh_once
      frame_activation frame_became_serviceable frame_auth_failed frame_auth_recovered frame_scope_changed
      frame_signal frame_reset_views frame_changed frame_ready_runs frame_ready_settles frame_start_settled
      frame_batch_settles frame_ops(7))
qed

lemma new_orchestrator_wf: "orch_wf (new_orchestrator auto)" and new_orchestrator_polls: "polls_ok {} (new_orchestrator auto)"
proof -
  let ?s = "new_orchestrator auto"
  have rt: "runtime ?s r = new_runtime (if r = 0 then coordinator_name else [])" for r
    by (simp add: runtime_def new_orchestrator_def)
  have fields: "oc_timers ?s = []" "oc_ready ?s = []" "oc_starts ?s = []" "oc_polls ?s = []" "oc_jobs ?s = []"
    "oc_clusters ?s = []" "oc_runtimes ?s = [new_runtime coordinator_name]" "oc_configs ?s = default_registrations"
    by (simp_all add: new_orchestrator_def)
  have "CHR '':'' \<notin> set d" if "d \<in> fst ` set default_registrations" for d
  proof -
    have "map_of default_registrations d \<noteq> None" using that by (simp add: map_of_eq_None_iff)
    then obtain policy where "map_of refreshDomainDescriptors d = Some policy" by (auto simp: registered_lookup)
    then have "(d, policy) \<in> set refreshDomainDescriptors" by (rule map_of_SomeD)
    then have "refresh_domain d"
      by (auto simp: refreshDomainDescriptors_def frontendRefreshDomainPolicies_def refresh_domain_def)
    then show ?thesis by (rule refresh_domain_name)
  qed
  then show "orch_wf ?s"
    by (simp add: orch_wf_def runtimes_ok_def clusters_ok_def timers_ok_def record_timers_ok_def refs_def timer_refs_def
        reads_ok_def executions_of_def fields rt record_timer_def record_retry_def retry_timer_def)
  have "timer_table ?s = {}" "leases ?s = {}" "poll_timers ?s = {}"
    by (simp_all add: timer_table_def leases_def poll_timers_def rt fields record_timer_def is_leased_def totalDemand_def no_scoped_demand_def)
  then show "polls_ok {} ?s" by (simp add: polls_ok_def fields timed_def scope_polled_def)
qed

lemma reachable_invariants: "orch_reachable s \<Longrightarrow> orch_wf s \<and> polls_ok {} s"
proof (induction rule: orch_reachable.induct)
  case (orch_next s s')
  then show ?case using step_frame [of s s'] polls_step [of s s'] by simp
qed (simp add: new_orchestrator_wf new_orchestrator_polls)

end
