(* ===== verification/Orchestrator_Contracts.thy ===== *)
theory Orchestrator_Contracts
  imports Orchestrator_Polling
begin

text \<open>
  What the refresh orchestrator promises in every reachable state: polls follow the leases, of the reads of a scope at
  most one can commit, a cluster's work stays with its runtime, and a closed cluster keeps no poll.
\<close>

declare map_of_eq_Some_iff [simp del] Some_eq_map_of_iff [simp del] job_refs.simps [simp del]

section \<open>Polls\<close>

lemma poll_timer_leased:
  assumes "orch_reachable s" and t: "(t, PollTimer r d sc, dl) \<in> set (oc_timers s)"
  shows "(r, d, sc) \<in> leases s" and "record_timer (rec_at (runtime s r) d sc) = Some t" and "isRuntimeCurrent s r"
    and "owns s r sc"
proof -
  have inv: "orch_wf s" "polls_ok {} s" using reachable_invariants [OF assms(1)] by simp_all
  have "(t, (r, d, sc)) \<in> poll_timers s" using t by (auto simp: poll_timers_def)
  then have "(t, (r, d, sc)) \<in> timer_table s" using inv(2) by (simp add: polls_ok_def)
  then have "vref d sc" and rec: "record_timer (rec_at (runtime s r) d sc) = Some t" by (simp_all add: timer_table_iff)
  then have "(r, d, sc) \<in> timed s" by (simp add: timed_iff)
  moreover have "scope_polled s (r, d, sc)" using inv(2) unfolding polls_ok_def by blast
  ultimately show l: "(r, d, sc) \<in> leases s" by (simp add: scope_polled_def)
  show "record_timer (rec_at (runtime s r) d sc) = Some t" by (rule rec)
  show "isRuntimeCurrent s r" using inv(2) l by (auto simp: polls_ok_def)
  show "owns s r sc" using timer_kind_refs [OF inv(1) t] by (simp add: ref_ok_def)
qed

lemma lease_polled:
  assumes "orch_reachable s" and "(r, d, sc) \<in> leases s" and "isPolledDomain s d" and "\<not> isPassiveWorkPaused s"
  shows "(\<exists>t dl. (t, PollTimer r d sc, dl) \<in> set (oc_timers s)) \<or>
    (\<exists>p\<in>set (oc_polls s). poll_ref p = (r, d, sc))"
proof -
  have ok: "polls_ok {} s" using reachable_invariants [OF assms(1)] by simp
  then have "scope_polled s (r, d, sc)" unfolding polls_ok_def by blast
  then have "(r, d, sc) \<in> timed s \<or> (r, d, sc) \<in> polling_refs s" using assms(2-4) by (simp add: scope_polled_def)
  then show ?thesis
  proof
    assume "(r, d, sc) \<in> timed s"
    then obtain t where "(t, (r, d, sc)) \<in> timer_table s" by (auto simp: timed_def)
    then have "(t, (r, d, sc)) \<in> poll_timers s" using ok by (simp add: polls_ok_def)
    then show ?thesis by (auto simp: poll_timers_def)
  next
    assume "(r, d, sc) \<in> polling_refs s"
    then show ?thesis by (force simp: polling_refs_def)
  qed
qed

text \<open>Acquiring a lease leases the scope; whether passive work is paused stays as it is.\<close>

lemma cancel_pause: "oc_auto_refresh (cancelPoll s r d sc) = oc_auto_refresh s" "oc_polls (cancelPoll s r d sc) = oc_polls s"
  "oc_hidden (cancelPoll s r d sc) = oc_hidden s" "oc_configs (cancelPoll s r d sc) = oc_configs s"
  by (simp_all add: cancelPoll_def clearTimer_def run_runtime_def set_runtime_def split: prod.split option.split)

lemma scope_pause: "oc_auto_refresh (fst (getRuntimeForScope s sc)) = oc_auto_refresh s"
  "oc_polls (fst (getRuntimeForScope s sc)) = oc_polls s"
  "oc_hidden (fst (getRuntimeForScope s sc)) = oc_hidden s"
  "oc_configs (fst (getRuntimeForScope s sc)) = oc_configs s"
  by (simp_all add: getRuntimeForScope_def getClusterRuntime_def Let_def split: option.split)

lemma schedule_pause: "isPassiveWorkPaused (schedulePoll s d sc) = isPassiveWorkPaused s"
  "isPolledDomain (schedulePoll s d sc) = isPolledDomain s" "oc_polls (schedulePoll s d sc) = oc_polls s"
proof -
  obtain s1 r where look: "getRuntimeForScope s sc = (s1, r)" by (cases "getRuntimeForScope s sc")
  note f1 = scope_pause [of s sc, unfolded look fst_conv]
  note f2 = cancel_pause [of s1 r d sc, unfolded f1]
  have "oc_auto_refresh (schedulePoll s d sc) = oc_auto_refresh s \<and> oc_hidden (schedulePoll s d sc) = oc_hidden s \<and>
      oc_configs (schedulePoll s d sc) = oc_configs s \<and> oc_polls (schedulePoll s d sc) = oc_polls s"
    unfolding schedulePoll_def look prod.case Let_def
    by (simp add: f2 upd_runtime_def set_runtime_def set_timeout_eq)
  then show "isPassiveWorkPaused (schedulePoll s d sc) = isPassiveWorkPaused s"
    "isPolledDomain (schedulePoll s d sc) = isPolledDomain s" "oc_polls (schedulePoll s d sc) = oc_polls s"
    by (simp_all add: isPassiveWorkPaused_def fun_eq_iff isPolledDomain_def)
qed


lemma keep_pause:
  assumes "st_frame {Polls} s s'" and "orch_wf s"
  shows "isPassiveWorkPaused s' = isPassiveWorkPaused s" and "isPolledDomain s' = isPolledDomain s"
    and "oc_polls s' = [] \<longleftrightarrow> oc_polls s = []"
proof -
  have same: "oc_configs s' = oc_configs s" "oc_auto_refresh s' = oc_auto_refresh s" "oc_hidden s' = oc_hidden s"
    and core: "map poll_core (oc_polls s') = map poll_core (oc_polls s)"
    using assms by (simp_all add: st_frame_def keeps_def grows_def)
  then show "isPassiveWorkPaused s' = isPassiveWorkPaused s" "isPolledDomain s' = isPolledDomain s"
    by (simp_all add: isPassiveWorkPaused_def fun_eq_iff isPolledDomain_def)
  show "oc_polls s' = [] \<longleftrightarrow> oc_polls s = []" using arg_cong [OF core, of "\<lambda>xs. xs = []"] by simp
qed

lemma acquired_lease:
  fixes env d sc scope preserve demand
  assumes reach: "orch_reachable s" and d: "refresh_domain d" and norm: "normalizeDomainScope d scope = Inr (Some sc)"
  defines "s' \<equiv> fst (acquireScopedDomainLease env s d scope preserve demand)"
  shows "\<exists>r. (r, d, sc) \<in> leases s'" and "isPassiveWorkPaused s' = isPassiveWorkPaused s"
    and "isPolledDomain s' = isPolledDomain s" and "oc_polls s' = [] \<longleftrightarrow> oc_polls s = []"
proof -
  have wf: "orch_wf s" and ok: "polls_ok {} s" using reachable_invariants [OF reach] by simp_all
  have ref: "vref d sc" by (rule refresh_domain_vref [OF d norm])
  obtain s1 r where look: "getRuntimeForScope s sc = (s1, r)" by (cases "getRuntimeForScope s sc")
  note at1 = scope_lookup [OF wf ok look]
  have f1: "st_frame {Polls} s s1" using frame_getRuntimeForScope [of "{Polls}" s sc] look by simp
  obtain s2 result where run: "run_runtime s1 r (\<lambda>rt. acquireScopedLease rt d sc demand) = (s2, result)"
    by (cases "run_runtime s1 r (\<lambda>rt. acquireScopedLease rt d sc demand)")
  have s2: "s2 = set_runtime s1 r (fst (applyActivationEvent (runtime s1 r) d sc (LeaseAcquired demand)))"
    using run by (auto simp: run_runtime_def acquireScopedLease_def Let_def split: prod.splits)
  note act = polls_activation [OF at1(1) ref at1(2,3,4) refl, of "LeaseAcquired demand", folded s2]
  have leased: "(r, d, sc) \<in> leases s2" using act(3) by (simp add: acquire_total)
  note wf2 = activation_wf [OF at1(1) ref at1(2) s2]
  have cur2: "isRuntimeCurrent s2 r" using wf2(3) at1(3) by simp
  have paused2: "isPassiveWorkPaused s2 = isPassiveWorkPaused s" "isPolledDomain s2 = isPolledDomain s"
    "oc_polls s2 = [] \<longleftrightarrow> oc_polls s = []"
    using keep_pause [OF f1 wf] by (simp_all add: s2 isPassiveWorkPaused_def fun_eq_iff isPolledDomain_def)
  let ?good = "\<lambda>x. (r, d, sc) \<in> leases x \<and> isPassiveWorkPaused x = isPassiveWorkPaused s \<and> isPolledDomain x = isPolledDomain s \<and>
      (oc_polls x = [] \<longleftrightarrow> oc_polls s = [])"
  have g2: "?good s2" using leased paused2 by simp
  have change: "?good (schedulePoll (reconcileScopedDomainStateChange env s2 config d sc True preserve r changed) d sc)"
    for config changed
  proof -
    let ?s3 = "reconcileScopedDomainStateChange env s2 config d sc True preserve r changed"
    have f: "st_frame {Polls} s2 ?s3" by (rule frame_state_change [OF ref wf2(2)]) simp
    then have wf3: "orch_wf ?s3" and grow: "grows s2 ?s3" using wf2(1) by (simp_all add: st_frame_def)
    have "owns ?s3 r sc" using grow wf2(2) owns_grows by blast
    moreover have "isRuntimeCurrent ?s3 r" using grow cur2 owns_runtime [OF wf2(2)] by (simp add: grows_def)
    ultimately have "leases (schedulePoll ?s3 d sc) = leases ?s3"
      using polls_schedule(2) [OF wf3 ref _ _ polls_keep(1) [OF f wf2(1) act(1)], of _ "{}"] by simp
    then show ?thesis
      using polls_keep(2) [OF f wf2(1) act(1)] g2 keep_pause [OF f wf2(1)] by (simp add: schedule_pause)
  qed
  have initial: "?good (reconcileInitialStreamingSnapshot env s2 d sc streaming)" for streaming
  proof -
    have f: "st_frame {Polls} s2 (reconcileInitialStreamingSnapshot env s2 d sc streaming)"
      by (rule frame_initial_snapshot) simp
    show ?thesis using polls_keep(2) [OF f wf2(1) act(1)] g2 keep_pause [OF f wf2(1)] by simp
  qed
  have "?good s'"
    unfolding s'_def acquireScopedDomainLease_def norm look run sum.case option.case prod.case Let_def
    using g2 change initial by (auto split: sum.split option.split)
  then show "\<exists>r. (r, d, sc) \<in> leases s'" "isPassiveWorkPaused s' = isPassiveWorkPaused s"
    "isPolledDomain s' = isPolledDomain s" "oc_polls s' = [] \<longleftrightarrow> oc_polls s = []" by blast+
qed

text \<open>A first state with a lease, for the witnesses.\<close>

definition idle_env :: orch_env where
  "idle_env = \<lparr>ev_now = 0, ev_serviceable = (\<lambda>c. True), ev_healthy = (\<lambda>d s. True)\<rparr>"

definition one_lease :: orch where
  "one_lease = fst (acquireScopedDomainLease idle_env (new_orchestrator True) ''namespaces'' ''c|'' False SnapshotDemand)"

lemma namespaces_domain:
  "refresh_domain ''namespaces''" "normalizeDomainScope ''namespaces'' ''c|'' = Inr (Some ''c|'')"
  "isPolledDomain (new_orchestrator auto) ''namespaces''" "\<not> isPassiveWorkPaused (new_orchestrator True)"
proof -
  show d: "refresh_domain ''namespaces''"
    unfolding refresh_domain_def domain_policies_def policy_row_def by simp
  show "normalizeDomainScope ''namespaces'' ''c|'' = Inr (Some ''c|'')" by code_simp
  have "map_of refreshDomainDescriptors ''namespaces'' =
      Some \<lparr>dp_domain = ''namespaces'', dp_category = SystemDomain, dp_orchestrator = DoorbellSnapshot,
        dp_interval = 2000, dp_timeout = 10, dp_order = 0\<rparr>"
    unfolding refreshDomainDescriptors_def frontendRefreshDomainPolicies_def domain_policies_def policy_row_def by simp
  then show "isPolledDomain (new_orchestrator auto) ''namespaces''"
    by (simp add: isPolledDomain_def new_orchestrator_def registered_lookup policy_registration_def
        resourceStreamRegistration_def split: if_split)
  show "\<not> isPassiveWorkPaused (new_orchestrator True)"
    by (simp add: isPassiveWorkPaused_def new_orchestrator_def)
qed

text \<open>The scopes a runtime lists as leased are the leases of the invariant.\<close>

lemma listed_lease:
  assumes wf: "orch_wf s" and mem: "(d, sc) \<in> set (getLeasedScopes (runtime s r))"
  shows "(r, d, sc) \<in> leases s" and "owns s r sc"
proof -
  note inv = runtime_inv_wf [OF wf, of r]
  have ref: "vref d sc" by (rule leased_scope_refs [OF wf mem])
  obtain st where st: "st \<in> set (state_values (runtime s r))" "sr_scope st = Some sc" "sr_domain st = d" "is_leased st"
    using mem by (auto simp: getLeasedScopes_def List.map_filter_def is_leased_def split: option.splits if_splits)
  have "getScopeState (runtime s r) (sr_domain st) (sr_scope st) = st"
    using state_values_ok(5) [OF inv st(1)] by simp
  with ref st show "(r, d, sc) \<in> leases s" by (simp add: leases_def)
  show "owns s r sc" by (rule scope_owned [OF wf st(1,2)])
qed

lemma one_lease_facts:
  "orch_reachable one_lease" "\<exists>r. (r, ''namespaces'', ''c|'') \<in> leases one_lease" "isPolledDomain one_lease ''namespaces''"
  "\<not> isPassiveWorkPaused one_lease" "oc_polls one_lease = []"
proof -
  note start = orch_start [of True]
  show "orch_reachable one_lease"
    unfolding one_lease_def by (rule orch_next [OF start orch_step.step_acquire [OF namespaces_domain(1)]])
  note at = acquired_lease [OF start namespaces_domain(1,2), of idle_env False SnapshotDemand, folded one_lease_def]
  show "\<exists>r. (r, ''namespaces'', ''c|'') \<in> leases one_lease" by (rule at(1))
  show "isPolledDomain one_lease ''namespaces''" "\<not> isPassiveWorkPaused one_lease"
    using at(2,3) namespaces_domain(3,4) by simp_all
  show "oc_polls one_lease = []" using at(4) by (simp add: new_orchestrator_def)
qed

lemma one_lease_timer: "\<exists>t r delay. (t, PollTimer r ''namespaces'' ''c|'', delay) \<in> set (oc_timers one_lease)"
  using one_lease_facts lease_polled [OF one_lease_facts(1) _ one_lease_facts(3,4)] by fastforce

text \<open>C2: a scope a consumer leases is kept fresh. In every reachable state, a leased scope of a domain that is read by
polling has its poll timer armed or a poll under way, unless auto-refresh is off or the document hidden.\<close>

theorem leased_scopes_are_polled:
  assumes "orch_reachable s" and "(domain, scope) \<in> set (getLeasedScopes (runtime s r))"
    and "isPolledDomain s domain" and "\<not> isPassiveWorkPaused s"
  shows "(\<exists>t delay. (t, PollTimer r domain scope, delay) \<in> set (oc_timers s)) \<or>
    (\<exists>poll\<in>set (oc_polls s). pl_runtime poll = r \<and> pl_domain poll = domain \<and> pl_scope poll = scope)"
proof -
  have "orch_wf s" using reachable_invariants [OF assms(1)] by simp
  then have "(r, domain, scope) \<in> leases s" using assms(2) by (rule listed_lease)
  from lease_polled [OF assms(1) this assms(3,4)] show ?thesis by (auto simp: poll_ref_def)
qed

theorem leased_scopes_are_polled_witness:
  "\<exists>r. (\<exists>t delay. (t, PollTimer r ''namespaces'' ''c|'', delay) \<in> set (oc_timers one_lease)) \<or>
    (\<exists>poll\<in>set (oc_polls one_lease). pl_runtime poll = r \<and> pl_domain poll = ''namespaces'' \<and> pl_scope poll = ''c|'')"
proof -
  obtain r where "(r, ''namespaces'', ''c|'') \<in> leases one_lease" using one_lease_facts(2) by blast
  then have "(''namespaces'', ''c|'') \<in> set (getLeasedScopes (runtime one_lease r))"
    using leased_in_list reachable_invariants [OF one_lease_facts(1)] by blast
  from leased_scopes_are_polled [OF one_lease_facts(1) this one_lease_facts(3,4)] show ?thesis by blast
qed

text \<open>C3: nothing is polled that no consumer asked for. An armed poll timer belongs to a leased scope of the runtime of
an open cluster, the timer is the one the scope's record names, and the scope has no second one.\<close>

theorem poll_timers_have_leases:
  assumes "orch_reachable s" and "(t, PollTimer r domain scope, delay) \<in> set (oc_timers s)"
  shows "hasScopedLease (runtime s r) domain scope \<and> getRuntimeForScope s scope = (s, r) \<and>
    sr_polling (getScopeState (runtime s r) domain (Some scope)) = PollScheduled t \<and>
    (\<forall>t' delay'. (t', PollTimer r domain scope, delay') \<in> set (oc_timers s) \<longrightarrow> t' = t)"
proof -
  note inv = reachable_invariants [OF assms(1)]
  note timer = poll_timer_leased [OF assms]
  have "getRuntimeForScope s scope = (s, r)"
    using getRuntimeForScope_current inv timer(3,4) by blast
  moreover have "sr_polling (getScopeState (runtime s r) domain (Some scope)) = PollScheduled t"
    using timer(2) by (auto simp: record_timer_def split: polling.splits)
  moreover have "t' = t" if "(t', PollTimer r domain scope, delay') \<in> set (oc_timers s)" for t' delay'
    using poll_timer_leased(2) [OF assms(1) that] timer(2) by simp
  ultimately show ?thesis using timer(1) by (auto simp: leases_iff)
qed

theorem poll_timers_have_leases_witness:
  "\<exists>r. hasScopedLease (runtime one_lease r) ''namespaces'' ''c|'' \<and> getRuntimeForScope one_lease ''c|'' = (one_lease, r)"
  using one_lease_timer poll_timers_have_leases [OF one_lease_facts(1)] by blast

text \<open>Acquiring a lease starts the polling of its scope. Afterwards the scope's runtime leases the scope, and its
poll timer is armed or a poll is under way, unless passive work is paused.\<close>

theorem acquired_lease_is_polled:
  assumes "orch_reachable s" and "refresh_domain domain" and "normalizeDomainScope domain scope = Inr (Some sc)"
    and "isPolledDomain s domain" and "\<not> isPassiveWorkPaused s"
    and "s' = fst (acquireScopedDomainLease env s domain scope preserve demand)"
  shows "\<exists>r. getRuntimeForScope s' sc = (s', r) \<and> hasScopedLease (runtime s' r) domain sc \<and>
    ((\<exists>t delay. (t, PollTimer r domain sc, delay) \<in> set (oc_timers s')) \<or>
     (\<exists>poll\<in>set (oc_polls s'). pl_runtime poll = r \<and> pl_domain poll = domain \<and> pl_scope poll = sc))"
proof -
  have reach: "orch_reachable s'" unfolding assms(6) by (rule orch_next [OF assms(1) orch_step.step_acquire [OF assms(2)]])
  note at = acquired_lease [OF assms(1-3), of env preserve demand, folded assms(6)]
  obtain r where lease: "(r, domain, sc) \<in> leases s'" using at(1) by blast
  have wf: "orch_wf s'" and ok: "polls_ok {} s'" using reachable_invariants [OF reach] by simp_all
  have "owns s' r sc" by (rule listed_lease(2) [OF wf leased_in_list [OF wf lease]])
  moreover have "isRuntimeCurrent s' r" using ok lease by (auto simp: polls_ok_def)
  ultimately have "getRuntimeForScope s' sc = (s', r)" by (rule getRuntimeForScope_current [OF wf])
  with lease lease_polled [OF reach lease] at(2,3) assms(4,5) show ?thesis by (auto simp: leases_iff poll_ref_def)
qed

theorem acquired_lease_is_polled_witness:
  "\<exists>r. getRuntimeForScope one_lease ''c|'' = (one_lease, r) \<and> hasScopedLease (runtime one_lease r) ''namespaces'' ''c|''"
  using acquired_lease_is_polled [OF orch_start namespaces_domain one_lease_def] by blast

section \<open>Reads\<close>

text \<open>A first state with a read under way, for the witness.\<close>

lemma user_read_starts:
  assumes norm: "normalizeDomainScope d scope = Inr (Some sc)" and config: "getConfig s d = Inr config" "rg_streaming config = None"
    and serves: "isScopeClusterServiceable env s sc" and look: "getRuntimeForScope s sc = (s, r)"
    and enabled: "isScopedDomainEnabled (runtime s r) d sc" and free: "getInFlight (runtime s r) d (Some sc) = None"
    and empty: "oc_jobs s = []" "oc_aborted s = []"
  shows "\<exists>j ex. oc_jobs (performFetch env s NoOwner d scope (fetch_with User)) = [j] \<and> fj_domain j = d \<and>
    fj_stage j = StageExecuting ex \<and> ex_scope ex = sc \<and> fetchCanCommit (performFetch env s NoOwner d scope (fetch_with User)) ex"
proof -
  have can: "canFetchScope env s d sc (fetch_with User) = (s, True)"
    using serves look enabled by (simp add: canFetchScope_def fetch_with_def isUserIntent_def isScopedDomainEnabledInternal_def)
  have claim: "claimFetchSlot s d sc (fetch_with User) r = (s, True)"
    using free by (simp add: claimFetchSlot_def)
  have "oc_jobs (fst (beginFetch s d sc (fetch_with User) r)) = []" "oc_aborted (fst (beginFetch s d sc (fetch_with User) r)) = []"
    "\<exists>ex. snd (beginFetch s d sc (fetch_with User) r) = Some ex \<and> ex_scope ex = sc \<and>
       ex_context ex = oc_context (fst (beginFetch s d sc (fetch_with User) r))"
    using empty
    by (simp_all add: beginFetch_def Let_def fetch_with_def fresh_def forwardAbortSignal_def upd_scope_def upd_runtime_def)
  then obtain s1 ex where begins: "beginFetch s d sc (fetch_with User) r = (s1, Some ex)"
      "oc_jobs s1 = []" "oc_aborted s1 = []" "ex_scope ex = sc" "ex_context ex = oc_context s1"
    by (cases "beginFetch s d sc (fetch_with User) r") auto
  have runs: "intentRuns s User" by (simp add: intentRuns_def runsWhilePaused_def)
  have eq: "performFetch env s NoOwner d scope (fetch_with User) =
      executeFetch s1 NoOwner d ex (fetch_with User) (scope_state s d sc)"
    using runs config unfolding performFetch_def norm sum.case option.case look can prod.case claim begins(1)
    by (simp add: fetch_with_def isUserIntent_def Let_def)
  show ?thesis
    unfolding eq using begins(2-5) by (simp add: executeFetch_def add_job_def fresh_def fetchCanCommit_def is_aborted_def)
qed

definition yaml_scope :: string where
  "yaml_scope = ''c|ns:apps/v1:Deployment:x''"

lemma yaml_domain:
  "refresh_domain ''object-yaml''" "normalizeDomainScope ''object-yaml'' yaml_scope = Inr (Some yaml_scope)"
  "fst (parseClusterScope yaml_scope) = ''c''" "trim ''c'' = ''c''"
  "\<exists>config. map_of default_registrations ''object-yaml'' = Some config \<and> rg_streaming config = None"
proof -
  show "refresh_domain ''object-yaml''"
    unfolding refresh_domain_def domain_policies_def policy_row_def by simp
  show "normalizeDomainScope ''object-yaml'' yaml_scope = Inr (Some yaml_scope)" unfolding yaml_scope_def by code_simp
  show "fst (parseClusterScope yaml_scope) = ''c''" unfolding yaml_scope_def by code_simp
  show "trim ''c'' = ''c''" by code_simp
  have "map_of refreshDomainDescriptors ''object-yaml'' =
      Some \<lparr>dp_domain = ''object-yaml'', dp_category = SystemDomain, dp_orchestrator = SnapshotOnly,
        dp_interval = 5000, dp_timeout = 10, dp_order = 8\<rparr>"
    unfolding refreshDomainDescriptors_def frontendRefreshDomainPolicies_def domain_policies_def policy_row_def by simp
  then show "\<exists>config. map_of default_registrations ''object-yaml'' = Some config \<and> rg_streaming config = None"
    by (simp add: registered_lookup policy_registration_def)
qed
text \<open>A user asks for a YAML; the read is decided, then starts.\<close>

definition asked :: orch where
  "asked = fetchScopedDomain idle_env (new_orchestrator True) NoOwner ''object-yaml'' yaml_scope (fetch_with User)"

definition one_read :: orch where
  "one_read = (case oc_jobs asked of
     [job] \<Rightarrow> fetch_decided idle_env (remove_job asked job) job 1 | _ \<Rightarrow> asked)"

lemma one_read_facts:
  "orch_reachable one_read"
  "\<exists>job execution. oc_jobs one_read = [job] \<and> fj_domain job = ''object-yaml'' \<and> fj_stage job = StageExecuting execution \<and>
     ex_scope execution = yaml_scope \<and> fetchCanCommit one_read execution"
proof -
  let ?n = "new_orchestrator True"
  let ?s1 = "?n\<lparr>oc_runtimes := oc_runtimes ?n @ [new_runtime ''c''], oc_clusters := [(''c'', 1)]\<rparr>"
  obtain config where config: "getConfig ?n ''object-yaml'' = Inr config" "rg_streaming config = None"
    using yaml_domain(5) by (auto simp: getConfig_def new_orchestrator_def)
  have ne: "yaml_scope \<noteq> []" by (simp add: yaml_scope_def)
  have look: "getRuntimeForScope ?n yaml_scope = (?s1, 1)"
    by (simp add: getRuntimeForScope_def getClusterRuntime_def Let_def yaml_domain(3,4) ne new_orchestrator_def)
  have serves: "isScopeClusterServiceable idle_env ?n yaml_scope"
    by (simp add: isScopeClusterServiceable_def Let_def idle_env_def new_orchestrator_def)
  define job where "job = \<lparr>fj_id = oc_next ?s1, fj_owner = NoOwner, fj_domain = ''object-yaml'', fj_scope = yaml_scope,
      fj_options = fetch_with User, fj_stage = StageDecided 1\<rparr>"
  let ?s2 = "remove_job asked job"
  have asked: "asked = ?s1\<lparr>oc_next := Suc (oc_next ?s1), oc_jobs := [job]\<rparr>"
    using config serves unfolding asked_def fetchScopedDomain_def
    by (simp add: yaml_domain(2) look reconcileQueryOnlyDemand_def reconcileStreamingFetch_def Let_def fetch_with_def
        add_job_def fresh_def job_def) (simp add: new_orchestrator_def)
  have "oc_jobs asked = [job]" unfolding asked by simp
  then have one: "one_read = fetch_decided idle_env ?s2 job 1" by (simp add: one_read_def)
  have r: "orch_reachable asked"
    unfolding asked_def by (rule orch_next [OF orch_start step_fetch [OF yaml_domain(1)]]) (simp add: fetch_with_def)
  show "orch_reachable one_read"
    unfolding one by (rule orch_next [OF r step_decided]) (simp_all add: asked job_def)
  have s2: "?s2 = ?s1\<lparr>oc_next := Suc (oc_next ?s1)\<rparr>" by (simp add: asked remove_job_def) (simp add: new_orchestrator_def)
  have rt: "runtime ?s2 (Suc 0) = new_runtime ''c''" by (simp add: s2 runtime_def) (simp add: new_orchestrator_def)
  have current: "isRuntimeCurrent ?s2 1" by (simp add: isRuntimeCurrent_def rt) (simp add: s2 new_runtime_def)
  have look2: "getRuntimeForScope ?s2 yaml_scope = (?s2, 1)"
    by (simp add: getRuntimeForScope_def getClusterRuntime_def Let_def yaml_domain(3,4) ne s2)
  have serves2: "isScopeClusterServiceable idle_env ?s2 yaml_scope"
    using rt by (simp add: isScopeClusterServiceable_def Let_def idle_env_def yaml_domain(3) s2 new_runtime_def isAuthAvailable_def)
  have opts: "\<lparr>fo_intent = fo_intent (fj_options job), fo_coalesce = fo_coalesce (fj_options job),
      fo_correlation = fo_correlation (fj_options job), fo_signal = fo_signal (fj_options job),
      fo_query_reconcile = False\<rparr> = fetch_with User" by (simp add: job_def fetch_with_def)
  have "one_read = performFetch idle_env ?s2 NoOwner ''object-yaml'' yaml_scope (fetch_with User)"
    unfolding one fetch_decided_def using current opts by (simp add: job_def)
  moreover have "getConfig ?s2 ''object-yaml'' = Inr config" using config(1) by (simp add: getConfig_def s2)
  ultimately show "\<exists>job execution. oc_jobs one_read = [job] \<and> fj_domain job = ''object-yaml'' \<and>
      fj_stage job = StageExecuting execution \<and> ex_scope execution = yaml_scope \<and> fetchCanCommit one_read execution"
    using user_read_starts [OF yaml_domain(2) _ config(2) serves2 look2]
    by (simp add: rt isScopedDomainEnabled_def getInFlight_def initial_free)
       (simp add: s2 new_orchestrator_def)
qed

text \<open>C1: of the reads under way for a scope at most one can commit. In every reachable state, the request of a read
whose answer would be applied is the one its scope's record tracks, the runtime is the one the scope has now, and no
other read of the scope can commit.\<close>

theorem one_read_per_scope_commits:
  assumes "orch_reachable s" and "job \<in> set (oc_jobs s)" and "fj_stage job = StageExecuting execution"
    and "fetchCanCommit s execution"
  shows "getRuntimeForScope s (ex_scope execution) = (s, ex_runtime execution) \<and>
    (\<exists>request trailing.
       getInFlight (runtime s (ex_runtime execution)) (fj_domain job) (Some (ex_scope execution)) = Some (request, trailing) \<and>
       rq_id request = ex_request execution \<and> rq_controller request = ex_controller execution) \<and>
    (\<forall>other execution'. other \<in> set (oc_jobs s) \<longrightarrow> other \<noteq> job \<longrightarrow> fj_stage other = StageExecuting execution' \<longrightarrow>
       fj_domain other = fj_domain job \<longrightarrow> ex_scope execution' = ex_scope execution \<longrightarrow> \<not> fetchCanCommit s execution')"
proof -
  have wf: "orch_wf s" using reachable_invariants [OF assms(1)] by simp
  then have reads: "reads_ok s" by (simp add: orch_wf_def)
  have tracks: "tracked s (fj_domain j) ex \<and> getRuntimeForScope s (ex_scope ex) = (s, ex_runtime ex)"
    if "j \<in> set (oc_jobs s)" "fj_stage j = StageExecuting ex" "fetchCanCommit s ex" for j ex
  proof -
    have "tracked s (fj_domain j) ex"
      using reads_okD(3) [OF reads _ that(3)] that(1,2) by (auto simp: executions_iff)
    moreover have "owns s (ex_runtime ex) (ex_scope ex)"
      using job_refs_ok [OF wf that(1), of "(ex_runtime ex, fj_domain j, ex_scope ex)"] that(2)
      by (simp add: job_refs.simps ref_ok_def)
    ultimately show ?thesis using getRuntimeForScope_current [OF wf] by (simp add: tracked_def)
  qed
  note mine = tracks [OF assms(2-4)]
  have "\<not> fetchCanCommit s ex" if other: "j \<in> set (oc_jobs s)" "j \<noteq> job" "fj_stage j = StageExecuting ex"
    and same: "fj_domain j = fj_domain job" "ex_scope ex = ex_scope execution" for j ex
  proof
    assume "fetchCanCommit s ex"
    note theirs = tracks [OF other(1,3) this]
    have "ex_request ex = ex_request execution" using mine theirs same by (auto simp: tracked_def)
    moreover have "ex_request ex \<noteq> ex_request execution"
      by (rule other_requests [of "oc_jobs s" job execution "\<lambda>i. i \<noteq> job" "fj_domain j"])
        (use reads assms(2,3) other in \<open>auto simp: reads_ok_def executions_iff\<close>)
    ultimately show False by simp
  qed
  with mine show ?thesis
    by (auto simp: tracked_def getInFlight_def fetch_of_def)
qed

theorem one_read_per_scope_commits_witness:
  "\<exists>job execution request trailing. oc_jobs one_read = [job] \<and> fj_stage job = StageExecuting execution \<and>
     getInFlight (runtime one_read (ex_runtime execution)) ''object-yaml'' (Some yaml_scope) = Some (request, trailing) \<and>
     rq_id request = ex_request execution"
proof -
  obtain job execution where job: "oc_jobs one_read = [job]" "fj_domain job = ''object-yaml''"
      "fj_stage job = StageExecuting execution" "ex_scope execution = yaml_scope" "fetchCanCommit one_read execution"
    using one_read_facts(2) by blast
  then have "job \<in> set (oc_jobs one_read)" by simp
  from one_read_per_scope_commits [OF one_read_facts(1) this job(3,5)] job show ?thesis by auto
qed

section \<open>Clusters\<close>

text \<open>The cluster a runtime works for; the coordinator's works for none.\<close>

definition runtime_cluster :: "orch \<Rightarrow> nat \<Rightarrow> string" where
  "runtime_cluster s r = (if r = 0 then [] else cr_cluster (runtime s r))"

lemma owns_cluster: "owns s r sc \<Longrightarrow> fst (parseClusterScope sc) = runtime_cluster s r"
  by (auto simp: owns_def scope_cluster_def runtime_cluster_def split: if_splits)

text \<open>C4: work stays with its cluster. In every reachable state a cluster has one runtime, which bears its name, and
whatever a runtime holds or has under way (records, executing reads, polls, stream starts) is for scopes of its cluster.\<close>

theorem work_stays_with_its_cluster:
  assumes "orch_reachable s"
  shows "distinct (map fst (oc_clusters s)) \<and>
    (\<forall>(clusterId, r)\<in>set (oc_clusters s). runtime_cluster s r = clusterId) \<and>
    (\<forall>r st scope. st \<in> set (state_values (runtime s r)) \<longrightarrow> sr_scope st = Some scope \<longrightarrow>
       fst (parseClusterScope scope) = runtime_cluster s r) \<and>
    (\<forall>job\<in>set (oc_jobs s). \<forall>execution. fj_stage job = StageExecuting execution \<longrightarrow>
       fst (parseClusterScope (ex_scope execution)) = runtime_cluster s (ex_runtime execution)) \<and>
    (\<forall>poll\<in>set (oc_polls s). fst (parseClusterScope (pl_scope poll)) = runtime_cluster s (pl_runtime poll)) \<and>
    (\<forall>p\<in>set (oc_starts s). fst (parseClusterScope (sp_scope p)) = runtime_cluster s (sp_runtime p))"
proof -
  have wf: "orch_wf s" using reachable_invariants [OF assms] by simp
  have owned: "owns s r sc" if "(r, d, sc) \<in> refs s" for r d sc
    using wf that by (auto simp: orch_wf_def ref_ok_def)
  have "runtime_cluster s r = c" if "(c, r) \<in> set (oc_clusters s)" for c r
    using wf that by (auto simp: orch_wf_def clusters_ok_def runtime_cluster_def)
  moreover have "fst (parseClusterScope sc) = runtime_cluster s r"
    if "st \<in> set (state_values (runtime s r))" "sr_scope st = Some sc" for r st sc
    by (rule owns_cluster [OF scope_owned [OF wf that]])
  moreover have "fst (parseClusterScope (ex_scope ex)) = runtime_cluster s (ex_runtime ex)"
    if "job \<in> set (oc_jobs s)" "fj_stage job = StageExecuting ex" for job ex
  proof (rule owns_cluster [OF owned])
    show "(ex_runtime ex, fj_domain job, ex_scope ex) \<in> refs s" using that by (force simp: refs_def job_refs.simps)
  qed
  moreover have "fst (parseClusterScope (pl_scope p)) = runtime_cluster s (pl_runtime p)" if "p \<in> set (oc_polls s)" for p
    by (rule owns_cluster [OF owned]) (use that in \<open>auto simp: refs_def poll_ref_def\<close>)
  moreover have "fst (parseClusterScope (sp_scope p)) = runtime_cluster s (sp_runtime p)" if "p \<in> set (oc_starts s)" for p
    by (rule owns_cluster [OF owned]) (use that in \<open>auto simp: refs_def start_ref_def\<close>)
  moreover have "distinct (map fst (oc_clusters s))" using wf by (simp add: orch_wf_def clusters_ok_def)
  ultimately show ?thesis by blast
qed

theorem work_stays_with_its_cluster_witness:
  "\<exists>r st. st \<in> set (state_values (runtime one_lease r)) \<and> sr_scope st = Some ''c|'' \<and> runtime_cluster one_lease r = ''c''"
proof -
  have wf: "orch_wf one_lease" using reachable_invariants [OF one_lease_facts(1)] by simp
  obtain r where "(r, ''namespaces'', ''c|'') \<in> leases one_lease" using one_lease_facts(2) by blast
  from leased_in_list [OF wf this] obtain st where st: "st \<in> set (state_values (runtime one_lease r))" "sr_scope st = Some ''c|''"
    by (auto simp: getLeasedScopes_def List.map_filter_def split: option.splits if_splits)
  have "fst (parseClusterScope ''c|'') = ''c''" by code_simp
  with st work_stays_with_its_cluster [OF one_lease_facts(1)] show ?thesis by metis
qed

text \<open>Closing a cluster removes its entry and opens no other.\<close>

lemma clusters_kept:
  "oc_clusters (set_runtime s r rt) = oc_clusters s" "oc_clusters (upd_runtime s r f) = oc_clusters s"
  "oc_clusters (fst (run_runtime s r g)) = oc_clusters s" "oc_clusters (clearTimer s t) = oc_clusters s"
  "oc_clusters (attach_stop s task stop) = oc_clusters s" "oc_clusters (stream_call s c) = oc_clusters s"
  "oc_clusters (reset_scope s d sc) = oc_clusters s" "oc_clusters (abort_one s n reason) = oc_clusters s"
  "oc_clusters (remove_listener s l) = oc_clusters s" "oc_clusters (with_notifier s h) = oc_clusters s"
  "oc_clusters (update_metrics s) = oc_clusters s"
  by (simp_all add: set_runtime_def upd_runtime_def run_runtime_def clearTimer_def attach_stop_def stream_call_def
      reset_scope_def abort_one_def remove_listener_def with_notifier_def update_metrics_def with_metrics_def
      split: prod.split option.split)

lemma clusters_fold: "(\<And>x s. oc_clusters (f x s) = oc_clusters s) \<Longrightarrow> oc_clusters (fold f xs s) = oc_clusters s"
  by (induction xs arbitrary: s) simp_all

lemma clusters_run: "run_runtime s r g = (s', x) \<Longrightarrow> oc_clusters s' = oc_clusters s"
  using clusters_kept(3) [of s r g] by simp

lemma clusters_stopStreamingScope:
  assumes "orch_wf s" and "owns s r sc" and "isRuntimeCurrent s r"
  shows "oc_clusters (stopStreamingScope s d sc reset) = oc_clusters s"
  using assms clusters_kept
  by (auto simp: stopStreamingScope_def getRuntimeForScope_current Let_def dest!: clusters_run split: prod.split option.split)

lemma clusters_stopRuntimeStreaming:
  assumes wf: "orch_wf s" and r: "r < length (oc_runtimes s)" and cur: "isRuntimeCurrent s r"
  shows "oc_clusters (stopRuntimeStreaming s r reset) = oc_clusters s"
proof -
  obtain s1 timers where run: "run_runtime s r resetAllStreamStartRetries = (s1, timers)"
    by (cases "run_runtime s r resetAllStreamStartRetries")
  define s2 where "s2 = fold (\<lambda>t s'. clearTimer s' (Some t)) timers s1"
  let ?stop = "\<lambda>(d, sc) s'. if sc = [] \<or> sc = ''*'' \<or> config_streaming s' d = None then s'
      else stopStreamingScope s' d sc reset"
  have "st_frame {} s s2" unfolding s2_def by (rule frame_reset_retries [OF _ run]) simp
  then have wf2: "orch_wf s2" and grow: "grows s s2" using wf by (simp_all add: st_frame_def)
  have kept: "oc_clusters s2 = oc_clusters s"
    using clusters_run [OF run] by (simp add: s2_def clusters_fold clusters_kept)
  have scopes: "vref d sc \<and> owns s2 r sc" if "(d, sc) \<in> set (getStreamingScopes (runtime s2 r))" for d sc
    using streaming_scope_refs [OF wf2 that] that scope_owned [OF wf2]
    by (auto simp: getStreamingScopes_def List.map_filter_def split: if_splits)
  have "orch_wf s' \<Longrightarrow> isRuntimeCurrent s' r \<Longrightarrow> (\<And>d sc. (d, sc) \<in> set xs \<Longrightarrow> vref d sc \<and> owns s' r sc) \<Longrightarrow>
      oc_clusters (fold ?stop xs s') = oc_clusters s'" for xs s'
  proof (induction xs arbitrary: s')
    case (Cons v xs)
    obtain d sc where v: "v = (d, sc)" by (cases v)
    have own: "vref d sc" "owns s' r sc" using Cons.prems(3) [of d sc] by (simp_all add: v)
    have "st_frame {} s' (?stop v s')" by (simp add: v frame_stopStreamingScope own(1))
    then have wf': "orch_wf (?stop v s')" and grow': "grows s' (?stop v s')" using Cons.prems(1) by (simp_all add: st_frame_def)
    have "isRuntimeCurrent (?stop v s') r" using grow' Cons.prems(2) owns_runtime [OF own(2)] by (simp add: grows_def)
    moreover have "vref d sc \<and> owns (?stop v s') r sc" if "(d, sc) \<in> set xs" for d sc
      using Cons.prems(3) [of d sc] that owns_grows [OF grow'] by simp
    ultimately have "oc_clusters (fold ?stop xs (?stop v s')) = oc_clusters (?stop v s')"
      using Cons.IH [OF wf'] by blast
    moreover have "oc_clusters (?stop v s') = oc_clusters s'"
      using clusters_stopStreamingScope [OF Cons.prems(1) own(2) Cons.prems(2)] by (simp add: v)
    ultimately show ?case by simp
  qed simp
  from this [OF wf2 _ scopes] have "oc_clusters (fold ?stop (getStreamingScopes (runtime s2 r)) s2) = oc_clusters s"
    using grow r cur kept by (simp add: grows_def)
  then show ?thesis
    unfolding stopRuntimeStreaming_def run prod.case Let_def s2_def by (simp add: clusters_kept)
qed

lemma clusters_cancelRuntimePolls: "oc_clusters (cancelRuntimePolls s r) = oc_clusters s"
  by (auto simp: cancelRuntimePolls_def clusters_fold clusters_kept dest!: clusters_run split: prod.split)

lemma clusters_teardown: "oc_clusters (teardown_all_in_flight s r) = oc_clusters s"
proof -
  have "oc_clusters (teardown_in_flight s' r key n) = oc_clusters s'" for s' key n
    by (auto simp: teardown_in_flight_def clusters_kept dest!: clusters_run split: prod.split option.split)
  then show ?thesis by (auto simp: teardown_all_in_flight_def intro!: clusters_fold)
qed

lemma clusters_prune:
  assumes "orch_wf s" and "map_of (oc_clusters s) c = Some r"
  shows "oc_clusters (prune_runtime c r s) = AList.delete c (oc_clusters s)"
proof -
  have r: "r < length (oc_runtimes s)" "cr_cluster (runtime s r) = c"
    using assms map_of_SomeD [OF assms(2)] by (auto simp: orch_wf_def clusters_ok_def)
  then have "isRuntimeCurrent s r" using assms(2) by (simp add: isRuntimeCurrent_def)
  from clusters_stopRuntimeStreaming [OF assms(1) r(1) this] show ?thesis
    by (simp add: prune_runtime_def Let_def emit_event_def clusters_kept clusters_teardown clusters_cancelRuntimePolls)
qed

lemma clusters_reset_removed: "oc_clusters (resetScopedStatesForRemovedClusters s connected) = oc_clusters s"
  by (auto simp: resetScopedStatesForRemovedClusters_def Let_def clusters_kept intro!: clusters_fold)

lemma clusters_connected:
  assumes wf: "orch_wf s"
  shows "fst ` set (oc_clusters (setConnectedClusters s ids)) \<subseteq> fst ` set (oc_clusters s) \<inter> trim ` set ids"
proof -
  let ?connected = "filter (\<lambda>c. c \<noteq> []) (map trim ids)"
  let ?s1 = "resetScopedStatesForRemovedClusters s ?connected"
  let ?s2 = "with_notifier ?s1 (\<lambda>n. clearRemovedClusters n ?connected)"
  let ?f = "\<lambda>(c, r) s'. if c \<in> set ?connected then s' else prune_runtime c r s'"
  have wf2: "orch_wf ?s2" by (rule frame_wf [OF st_frame_trans [OF frame_reset_removed frame_ops(4)] wf])
  have same: "oc_clusters ?s2 = oc_clusters s" by (simp add: clusters_kept clusters_reset_removed)
  have run: "orch_wf s' \<Longrightarrow> distinct (map fst xs) \<Longrightarrow> (\<And>c r. (c, r) \<in> set xs \<Longrightarrow> map_of (oc_clusters s') c = Some r) \<Longrightarrow>
      fst ` set (oc_clusters (fold ?f xs s')) \<subseteq> fst ` set (oc_clusters s') - (fst ` set xs - set ?connected)"
    for xs s'
  proof (induction xs arbitrary: s')
    case (Cons v xs)
    obtain c r where v: "v = (c, r)" by (cases v)
    show ?case
    proof (cases "c \<in> set ?connected")
      case True
      then show ?thesis using Cons.IH [OF Cons.prems(1)] Cons.prems(2,3) by (auto simp: v)
    next
      case False
      have entry: "map_of (oc_clusters s') c = Some r" using Cons.prems(3) [of c r] by (simp add: v)
      have "map_of (oc_clusters (prune_runtime c r s')) c' = Some r'" if "(c', r') \<in> set xs" for c' r'
      proof (rule prune_wf(2) [OF Cons.prems(1) entry])
        show "map_of (oc_clusters s') c' = Some r'" using Cons.prems(3) [of c' r'] that by simp
        show "c' \<noteq> c" using Cons.prems(2) that by (force simp: v)
      qed
      then have "fst ` set (oc_clusters (fold ?f xs (prune_runtime c r s'))) \<subseteq>
          fst ` set (oc_clusters (prune_runtime c r s')) - (fst ` set xs - set ?connected)"
        using Cons.IH [OF prune_wf(1) [OF Cons.prems(1) entry]] Cons.prems(2) by simp
      moreover have "fst ` set (oc_clusters (prune_runtime c r s')) = fst ` set (oc_clusters s') - {c}"
        by (force simp: clusters_prune [OF Cons.prems(1) entry] AList.delete_eq)
      moreover have "fold ?f (v # xs) s' = fold ?f xs (prune_runtime c r s')" using False unfolding v by (simp del: set_filter set_map)
      ultimately show ?thesis unfolding v by auto
    qed
  qed simp
  have dist: "distinct (map fst (oc_clusters ?s2))" using wf2 by (simp add: orch_wf_def clusters_ok_def)
  have "fst ` set (oc_clusters (fold ?f (oc_clusters ?s2) ?s2)) \<subseteq>
      fst ` set (oc_clusters ?s2) - (fst ` set (oc_clusters ?s2) - set ?connected)"
    by (rule run [OF wf2 dist]) (use dist in \<open>simp add: map_of_eq_Some_iff\<close>)
  then have "fst ` set (oc_clusters (fold ?f (oc_clusters ?s2) ?s2)) \<subseteq> fst ` set (oc_clusters s) \<inter> set ?connected"
    unfolding same by blast
  then show ?thesis
    unfolding setConnectedClusters_def pruneRemovedClusterRuntimes_def Let_def clusters_kept by auto
qed

text \<open>C5: a closed cluster keeps no poll. After the open clusters are set, every runtime in the map is one of a cluster
that is still open, and every armed poll timer is for a scope of such a cluster or of none.\<close>

theorem closed_clusters_are_not_polled:
  assumes "orch_reachable s" and "s' = setConnectedClusters s clusterIds"
  shows "(\<forall>clusterId\<in>fst ` set (oc_clusters s'). clusterId \<in> trim ` set clusterIds) \<and>
    (\<forall>t r domain scope delay. (t, PollTimer r domain scope, delay) \<in> set (oc_timers s') \<longrightarrow>
       fst (parseClusterScope scope) \<in> insert [] (trim ` set clusterIds))"
proof -
  have reach: "orch_reachable s'" unfolding assms(2) by (rule orch_next [OF assms(1) step_connected])
  have inv: "orch_wf s" "polls_ok {} s" using reachable_invariants [OF assms(1)] by simp_all
  have open_ids: "fst ` set (oc_clusters s') \<subseteq> trim ` set clusterIds"
    using clusters_connected [OF inv(1)] unfolding assms(2) by blast
  have "fst (parseClusterScope sc) \<in> insert [] (trim ` set clusterIds)"
    if "(t, PollTimer r d sc, delay) \<in> set (oc_timers s')" for t r d sc delay
  proof -
    note timer = poll_timer_leased [OF reach that]
    have "r = 0 \<or> cr_cluster (runtime s' r) \<in> fst ` set (oc_clusters s')"
      using timer(3) by (force simp: isRuntimeCurrent_def dest: map_of_SomeD)
    then show ?thesis using owns_cluster [OF timer(4)] open_ids by (auto simp: runtime_cluster_def)
  qed
  with open_ids show ?thesis by blast
qed

theorem closed_clusters_are_not_polled_witness: "oc_clusters (setConnectedClusters one_lease []) = []"
  using conjunct1 [OF closed_clusters_are_not_polled [OF one_lease_facts(1) refl, of "[]"]] by simp

end
