(* ===== verification/Permission_Specs.thy ===== *)
theory Permission_Specs
  imports Error_Status Refresh_Intent
begin

text \<open>
  What the frontend asks the backend about permissions and how it reads the answers: the spec lists
  (\<open>core/capabilities/permissionSpecs.ts\<close>, \<open>permissionFeatures.ts\<close>), the group and version of built-in kinds
  (\<open>shared/constants/builtinGroupVersions.ts\<close> over \<open>builtin-resource-identities.json\<close>), the keys of
  \<open>permissionStore.ts\<close>, the read (\<open>permissionRead.ts\<close>, \<open>data-access/dataAccess.ts\<close>), transient errors
  (\<open>transientPermissionErrors.ts\<close>) and the state a control shows (\<open>capabilityState.ts\<close>, \<open>utils.ts\<close>).
\<close>

section \<open>Permission specs\<close>

record permission_spec =
  pp_kind :: string
  pp_verb :: string
  pp_subresource :: "string option"
  pp_group :: "string option"
  pp_version :: "string option"

record permission_spec_list =
  sl_feature :: string
  sl_specs :: "permission_spec list"

definition spec :: "string \<Rightarrow> string \<Rightarrow> permission_spec" where
  "spec kind verb = \<lparr>pp_kind = kind, pp_verb = verb, pp_subresource = None, pp_group = None, pp_version = None\<rparr>"

definition subspec :: "string \<Rightarrow> string \<Rightarrow> string \<Rightarrow> permission_spec" where
  "subspec kind verb sub = (spec kind verb)\<lparr>pp_subresource := Some sub\<rparr>"

definition WORKLOAD_PERMISSIONS :: permission_spec_list where
  "WORKLOAD_PERMISSIONS = \<lparr>sl_feature = ''namespace.workloads'', sl_specs =
     [spec ''Deployment'' ''list'', spec ''Deployment'' ''patch'', spec ''Deployment'' ''update'',
      spec ''Deployment'' ''delete'', subspec ''Deployment'' ''update'' ''scale'',
      spec ''StatefulSet'' ''list'', spec ''StatefulSet'' ''patch'', spec ''StatefulSet'' ''update'',
      spec ''StatefulSet'' ''delete'', subspec ''StatefulSet'' ''update'' ''scale'',
      subspec ''ReplicaSet'' ''update'' ''scale'', spec ''DaemonSet'' ''list'', spec ''DaemonSet'' ''patch'',
      spec ''DaemonSet'' ''update'', spec ''DaemonSet'' ''delete'', spec ''Job'' ''list'',
      spec ''Job'' ''create'', spec ''Job'' ''delete'', spec ''CronJob'' ''list'', spec ''CronJob'' ''patch'',
      spec ''CronJob'' ''delete'']\<rparr>"

definition POD_PERMISSIONS :: permission_spec_list where
  "POD_PERMISSIONS = \<lparr>sl_feature = ''namespace.pods'', sl_specs =
     [spec ''Pod'' ''list'', spec ''Pod'' ''delete'', subspec ''Pod'' ''get'' ''log'',
      subspec ''Pod'' ''create'' ''portforward'']\<rparr>"

definition NODE_SHELL_PERMISSIONS :: permission_spec_list where
  "NODE_SHELL_PERMISSIONS = \<lparr>sl_feature = ''cluster.nodeShell'', sl_specs =
     [spec ''Pod'' ''create'', spec ''Pod'' ''get'', spec ''Pod'' ''delete'',
      subspec ''Pod'' ''get'' ''attach'', subspec ''Pod'' ''create'' ''attach'']\<rparr>"

definition CONFIG_PERMISSIONS :: permission_spec_list where
  "CONFIG_PERMISSIONS = \<lparr>sl_feature = ''namespace.config'', sl_specs =
     [spec ''ConfigMap'' ''list'', spec ''ConfigMap'' ''delete'', spec ''Secret'' ''list'',
      spec ''Secret'' ''delete'']\<rparr>"

definition NETWORK_PERMISSIONS :: permission_spec_list where
  "NETWORK_PERMISSIONS = \<lparr>sl_feature = ''namespace.network'', sl_specs =
     [spec ''Service'' ''list'', spec ''Service'' ''delete'', spec ''Ingress'' ''list'',
      spec ''Ingress'' ''delete'', spec ''NetworkPolicy'' ''list'', spec ''NetworkPolicy'' ''delete'',
      spec ''EndpointSlice'' ''list'', spec ''EndpointSlice'' ''delete'', spec ''Gateway'' ''list'',
      spec ''Gateway'' ''delete'', spec ''HTTPRoute'' ''list'', spec ''HTTPRoute'' ''delete'',
      spec ''GRPCRoute'' ''list'', spec ''GRPCRoute'' ''delete'', spec ''TLSRoute'' ''list'',
      spec ''TLSRoute'' ''delete'', spec ''ListenerSet'' ''list'', spec ''ListenerSet'' ''delete'',
      spec ''BackendTLSPolicy'' ''list'', spec ''BackendTLSPolicy'' ''delete'',
      spec ''ReferenceGrant'' ''list'', spec ''ReferenceGrant'' ''delete'']\<rparr>"

definition RBAC_PERMISSIONS :: permission_spec_list where
  "RBAC_PERMISSIONS = \<lparr>sl_feature = ''namespace.rbac'', sl_specs =
     [spec ''Role'' ''list'', spec ''Role'' ''delete'', spec ''RoleBinding'' ''list'',
      spec ''RoleBinding'' ''delete'', spec ''ServiceAccount'' ''list'', spec ''ServiceAccount'' ''delete'']\<rparr>"

definition STORAGE_PERMISSIONS :: permission_spec_list where
  "STORAGE_PERMISSIONS = \<lparr>sl_feature = ''namespace.storage'', sl_specs =
     [spec ''PersistentVolumeClaim'' ''list'', spec ''PersistentVolumeClaim'' ''delete'']\<rparr>"

definition AUTOSCALING_PERMISSIONS :: permission_spec_list where
  "AUTOSCALING_PERMISSIONS = \<lparr>sl_feature = ''namespace.autoscaling'', sl_specs =
     [spec ''HorizontalPodAutoscaler'' ''list'', spec ''HorizontalPodAutoscaler'' ''delete'']\<rparr>"

definition QUOTA_PERMISSIONS :: permission_spec_list where
  "QUOTA_PERMISSIONS = \<lparr>sl_feature = ''namespace.quotas'', sl_specs =
     [spec ''ResourceQuota'' ''list'', spec ''ResourceQuota'' ''delete'', spec ''LimitRange'' ''list'',
      spec ''LimitRange'' ''delete'', spec ''PodDisruptionBudget'' ''list'',
      spec ''PodDisruptionBudget'' ''delete'']\<rparr>"

definition EVENT_PERMISSIONS :: permission_spec_list where
  "EVENT_PERMISSIONS = \<lparr>sl_feature = ''namespace.events'', sl_specs =
     [spec ''Event'' ''list'']\<rparr>"

definition ALL_NAMESPACE_PERMISSIONS :: "permission_spec_list list" where
  "ALL_NAMESPACE_PERMISSIONS =
     [WORKLOAD_PERMISSIONS, POD_PERMISSIONS, CONFIG_PERMISSIONS, NETWORK_PERMISSIONS, RBAC_PERMISSIONS,
      STORAGE_PERMISSIONS, AUTOSCALING_PERMISSIONS, QUOTA_PERMISSIONS, EVENT_PERMISSIONS]"

definition CLUSTER_PERMISSIONS :: "permission_spec_list list" where
  "CLUSTER_PERMISSIONS =
     [\<lparr>sl_feature = ''cluster.overview'', sl_specs =
        [spec ''Namespace'' ''list'', spec ''Namespace'' ''update'', spec ''Namespace'' ''create'',
         spec ''Namespace'' ''delete'']\<rparr>,
      \<lparr>sl_feature = ''cluster.nodes'', sl_specs =
        [spec ''Node'' ''list'', spec ''Node'' ''get'']\<rparr>,
      \<lparr>sl_feature = ''cluster.nodeActions'', sl_specs =
        [spec ''Node'' ''update'', spec ''Node'' ''delete'', spec ''Node'' ''get'', spec ''Node'' ''patch'',
         subspec ''Pod'' ''create'' ''eviction'', spec ''Pod'' ''delete'']\<rparr>,
      \<lparr>sl_feature = ''cluster.storageView'', sl_specs =
        [spec ''PersistentVolume'' ''list'', spec ''PersistentVolume'' ''update'']\<rparr>,
      \<lparr>sl_feature = ''cluster.storageActions'', sl_specs =
        [spec ''PersistentVolume'' ''delete'']\<rparr>,
      \<lparr>sl_feature = ''cluster.config'', sl_specs =
        [spec ''StorageClass'' ''list'', spec ''StorageClass'' ''update'', spec ''StorageClass'' ''delete'',
         spec ''IngressClass'' ''list'', spec ''IngressClass'' ''update'', spec ''IngressClass'' ''delete'',
         spec ''GatewayClass'' ''list'', spec ''GatewayClass'' ''update'', spec ''GatewayClass'' ''delete'',
         spec ''MutatingWebhookConfiguration'' ''list'', spec ''MutatingWebhookConfiguration'' ''update'',
         spec ''MutatingWebhookConfiguration'' ''delete'', spec ''ValidatingWebhookConfiguration'' ''list'',
         spec ''ValidatingWebhookConfiguration'' ''update'',
         spec ''ValidatingWebhookConfiguration'' ''delete'']\<rparr>,
      \<lparr>sl_feature = ''cluster.identities'', sl_specs =
        [spec ''RoleBinding'' ''list'', spec ''ClusterRoleBinding'' ''list'']\<rparr>,
      \<lparr>sl_feature = ''cluster.rbac'', sl_specs =
        [spec ''ClusterRole'' ''list'', spec ''ClusterRole'' ''update'', spec ''ClusterRole'' ''delete'',
         spec ''ClusterRoleBinding'' ''list'', spec ''ClusterRoleBinding'' ''update'',
         spec ''ClusterRoleBinding'' ''delete'']\<rparr>,
      \<lparr>sl_feature = ''cluster.crds'', sl_specs =
        [spec ''CustomResourceDefinition'' ''list'', spec ''CustomResourceDefinition'' ''update'',
         spec ''CustomResourceDefinition'' ''delete'']\<rparr>,
      \<lparr>sl_feature = ''cluster.events'', sl_specs =
        [spec ''Event'' ''list'']\<rparr>]"

definition object_actions_feature :: string where
  "object_actions_feature = ''object.actions''"

section \<open>Groups and versions\<close>

text \<open>The contract's rows: group, version, kind. The last row of a kind decides.\<close>

definition builtin_resources :: "(string \<times> string \<times> string) list" where
  "builtin_resources =
     [('''', ''v1'', ''Pod''), ('''', ''v1'', ''Service''), ('''', ''v1'', ''ConfigMap''),
      ('''', ''v1'', ''Secret''), ('''', ''v1'', ''ServiceAccount''), ('''', ''v1'', ''Event''),
      ('''', ''v1'', ''LimitRange''), ('''', ''v1'', ''ResourceQuota''), ('''', ''v1'', ''Endpoints''),
      ('''', ''v1'', ''PersistentVolumeClaim''), ('''', ''v1'', ''Namespace''), ('''', ''v1'', ''Node''),
      ('''', ''v1'', ''PersistentVolume''), (''apps'', ''v1'', ''Deployment''),
      (''apps'', ''v1'', ''StatefulSet''), (''apps'', ''v1'', ''DaemonSet''),
      (''apps'', ''v1'', ''ReplicaSet''), (''batch'', ''v1'', ''Job''), (''batch'', ''v1'', ''CronJob''),
      (''autoscaling'', ''v1'', ''HorizontalPodAutoscaler''),
      (''autoscaling'', ''v2'', ''HorizontalPodAutoscaler''), (''networking.k8s.io'', ''v1'', ''Ingress''),
      (''networking.k8s.io'', ''v1'', ''NetworkPolicy''), (''networking.k8s.io'', ''v1'', ''IngressClass''),
      (''discovery.k8s.io'', ''v1'', ''EndpointSlice''), (''gateway.networking.k8s.io'', ''v1'', ''Gateway''),
      (''gateway.networking.k8s.io'', ''v1'', ''HTTPRoute''),
      (''gateway.networking.k8s.io'', ''v1'', ''GRPCRoute''),
      (''gateway.networking.k8s.io'', ''v1'', ''TLSRoute''),
      (''gateway.networking.k8s.io'', ''v1'', ''ListenerSet''),
      (''gateway.networking.k8s.io'', ''v1'', ''BackendTLSPolicy''),
      (''gateway.networking.k8s.io'', ''v1'', ''ReferenceGrant''),
      (''gateway.networking.k8s.io'', ''v1'', ''GatewayClass''),
      (''rbac.authorization.k8s.io'', ''v1'', ''Role''),
      (''rbac.authorization.k8s.io'', ''v1'', ''RoleBinding''),
      (''rbac.authorization.k8s.io'', ''v1'', ''ClusterRole''),
      (''rbac.authorization.k8s.io'', ''v1'', ''ClusterRoleBinding''),
      (''policy'', ''v1'', ''PodDisruptionBudget''), (''storage.k8s.io'', ''v1'', ''StorageClass''),
      (''storage.k8s.io'', ''v1'', ''CSIDriver''), (''storage.k8s.io'', ''v1'', ''CSINode''),
      (''storage.k8s.io'', ''v1'', ''VolumeAttachment''),
      (''admissionregistration.k8s.io'', ''v1'', ''MutatingWebhookConfiguration''),
      (''admissionregistration.k8s.io'', ''v1'', ''ValidatingWebhookConfiguration''),
      (''coordination.k8s.io'', ''v1'', ''Lease''),
      (''apiextensions.k8s.io'', ''v1'', ''CustomResourceDefinition'')]"

definition BUILTIN_KIND_GROUP_VERSIONS :: "(string, string \<times> string) js_map" where
  "BUILTIN_KIND_GROUP_VERSIONS =
     foldl (\<lambda>acc (grp, version, kind). AList.update kind (grp, version) acc) [] builtin_resources"

definition resolveBuiltinGroupVersion :: "string \<Rightarrow> (string \<times> string) option" where
  "resolveBuiltinGroupVersion kind =
     (if kind = [] then None
      else let trimmed = trim kind
           in if trimmed = [] then None
              else case map_of BUILTIN_KIND_GROUP_VERSIONS trimmed of
                     Some gv \<Rightarrow> Some gv
                   | None \<Rightarrow>
                       map_option snd (find (\<lambda>(canonical, _). toLowerCase canonical = toLowerCase trimmed)
                         BUILTIN_KIND_GROUP_VERSIONS))"

definition isBuiltinResource :: "string \<Rightarrow> string \<Rightarrow> bool" where
  "isBuiltinResource grp kind \<longleftrightarrow>
     grp @ ''/'' @ toLowerCase kind \<in> set (map (\<lambda>(g, _, k). g @ ''/'' @ toLowerCase k) builtin_resources)"

definition parseApiVersion :: "string option \<Rightarrow> (string \<times> string) option" where
  "parseApiVersion apiVersion =
     (case truthy apiVersion of
        None \<Rightarrow> None
      | Some value \<Rightarrow>
          let trimmed = trim value
          in if trimmed = [] then None
             else case index_of CHR ''/'' trimmed of
                    None \<Rightarrow> Some ([], trimmed)
                  | Some slash \<Rightarrow> Some (take slash trimmed, drop (Suc slash) trimmed))"

text \<open>A version the caller gives decides; a kind-only lookup falls back to the built-in kinds.\<close>

definition text_or_empty :: "string option \<Rightarrow> string" where
  "text_or_empty s = (case s of None \<Rightarrow> [] | Some v \<Rightarrow> v)"

definition resolvePermissionGVK :: "string \<Rightarrow> string option \<Rightarrow> string option \<Rightarrow> string \<times> string" where
  "resolvePermissionGVK resourceKind grp version =
     (let g = trim (text_or_empty grp); ver = trim (text_or_empty version)
      in if ver \<noteq> [] then (g, ver)
         else case resolveBuiltinGroupVersion resourceKind of
                Some (builtin_group, builtin_version) \<Rightarrow>
                  if builtin_version \<noteq> [] then (builtin_group, builtin_version) else (g, ver)
              | None \<Rightarrow> (g, ver))"

text \<open>\<open>current\<close> is the store's current cluster.\<close>

definition getPermissionKey ::
    "string \<Rightarrow> string \<Rightarrow> string \<Rightarrow> string option \<Rightarrow> string option \<Rightarrow> string option \<Rightarrow> string option \<Rightarrow>
     string option \<Rightarrow> string" where
  "getPermissionKey current resourceKind verb namespace subresource clusterId grp version =
     (let cid = (case truthy clusterId of None \<Rightarrow> current | Some c \<Rightarrow> c);
          (g, ver) = resolvePermissionGVK resourceKind grp version;
          ns = (case truthy namespace of None \<Rightarrow> ''cluster'' | Some n \<Rightarrow> toLowerCase n);
          sub = (case truthy subresource of None \<Rightarrow> [] | Some r \<Rightarrow> toLowerCase r)
      in cid @ ''|'' @ g @ ''/'' @ ver @ ''|'' @ toLowerCase resourceKind @ ''|'' @ toLowerCase verb @ ''|'' @ ns @
         ''|'' @ sub)"

section \<open>The read\<close>

record query_payload_item =
  qi_id :: string
  qi_cluster :: string
  qi_group :: "string option"
  qi_version :: "string option"
  qi_kind :: string
  qi_verb :: string
  qi_namespace :: string
  qi_subresource :: string
  qi_name :: string

record query_result =
  qr_id :: string
  qr_cluster :: string
  qr_group :: "string option"
  qr_version :: "string option"
  qr_kind :: string
  qr_verb :: string
  qr_namespace :: string
  qr_subresource :: string
  qr_name :: string
  qr_allowed :: bool
  qr_source :: string
  qr_reason :: string
  qr_error :: string

datatype query_method = Ssrr | Ssar

record query_response_diagnostics =
  qd_key :: string
  qd_method :: query_method
  qd_ssrr_incomplete :: bool
  qd_ssrr_rule_count :: nat
  qd_ssar_fallback_count :: nat

record query_response =
  qs_results :: "query_result list"
  qs_diagnostics :: "query_response_diagnostics list option"

definition permissionReadScope :: "query_payload_item list \<Rightarrow> string" where
  "permissionReadScope queries =
     js_join '' || '' (unique_list (map (\<lambda>query.
       if qi_namespace query \<noteq> [] then ''cluster:'' @ qi_cluster query @ ''|namespace:'' @ qi_namespace query
       else ''cluster:'' @ qi_cluster query) queries))"

definition isDataAccessBlocked :: "bool \<Rightarrow> refresh_intent \<Rightarrow> bool" where
  "isDataAccessBlocked autoRefreshEnabled reason \<longleftrightarrow> \<not> autoRefreshEnabled \<and> \<not> runsWhilePaused reason"

text \<open>What the backend's \<open>QueryPermissions\<close> comes back with: a response, nothing, or a rejection, given as the text
\<open>String(error)\<close> of the reason.\<close>

datatype backend_answer = Responds query_response | RespondsNothing | Rejects string

text \<open>\<open>queryPermissions\<close> reads with the reason \<open>startup\<close>. The result is what its promise settles with.\<close>

definition queryPermissions :: "bool \<Rightarrow> backend_answer \<Rightarrow> string + query_response" where
  "queryPermissions autoRefreshEnabled answer =
     (if isDataAccessBlocked autoRefreshEnabled Startup then Inl ''Error: auto-refresh-disabled''
      else case answer of
             Responds response \<Rightarrow> Inr response
           | RespondsNothing \<Rightarrow> Inl ''Error: query-permissions-blocked''
           | Rejects reason \<Rightarrow> Inl reason)"

section \<open>Transient errors\<close>

definition word_char :: "char \<Rightarrow> bool" where
  "word_char c \<longleftrightarrow>
     (let n = (of_char c :: nat)
      in 48 \<le> n \<and> n \<le> 57 \<or> 65 \<le> n \<and> n \<le> 90 \<or> 97 \<le> n \<and> n \<le> 122 \<or> n = 95)"

definition word_boundary :: "string \<Rightarrow> nat \<Rightarrow> bool" where
  "word_boundary s i \<longleftrightarrow>
     (0 < i \<and> i \<le> length s \<and> word_char (s ! (i - 1))) \<noteq> (i < length s \<and> word_char (s ! i))"

text \<open>\<open>\bword\b\<close> at a position, in any case.\<close>

definition word_at :: "string \<Rightarrow> string \<Rightarrow> nat \<Rightarrow> bool" where
  "word_at word s i \<longleftrightarrow>
     word_boundary s i \<and> take (length word) (drop i (toLowerCase s)) = word \<and> word_boundary s (i + length word)"

definition line_terminator :: "char \<Rightarrow> bool" where
  "line_terminator c \<longleftrightarrow> (of_char c :: nat) \<in> {10, 13}"

definition isTransientClusterInactivePermissionError :: "string option \<Rightarrow> bool" where
  "isTransientClusterInactivePermissionError message \<longleftrightarrow>
     (let s = text_or_empty message
      in list_ex (\<lambda>i. word_at ''cluster'' s i \<and>
           list_ex (\<lambda>j. word_at ''not active'' s j \<and> list_all (\<lambda>c. \<not> line_terminator c) (take (j - (i + 7)) (drop (i + 7) s)))
             [i + 7..<length s]) [0..<length s])"

definition getPermissionResultErrorMessage :: "query_result \<Rightarrow> string" where
  "getPermissionResultErrorMessage result = (if qr_error result \<noteq> [] then qr_error result else qr_reason result)"

definition isTransientPermissionResultError :: "query_result \<Rightarrow> bool" where
  "isTransientPermissionResultError result \<longleftrightarrow>
     (qr_source result = ''error'' \<or> qr_error result \<noteq> []) \<and>
     isTransientClusterInactivePermissionError (Some (getPermissionResultErrorMessage result))"

section \<open>Stored and shown permissions\<close>

record permission_descriptor =
  pd_cluster :: string
  pd_group :: "string option"
  pd_version :: "string option"
  pd_kind :: string
  pd_verb :: string
  pd_namespace :: "string option"
  pd_subresource :: "string option"

record permission_entry =
  pe_allowed :: bool
  pe_source :: string
  pe_reason :: "string option"
  pe_descriptor :: permission_descriptor
  pe_feature :: "string option"

datatype entry_status = EntryLoading | EntryReady | EntryError

record permission_status =
  pt_id :: string
  pt_allowed :: bool
  pt_pending :: bool
  pt_reason :: "string option"
  pt_error :: "string option"
  pt_source :: "string option"
  pt_descriptor :: permission_descriptor
  pt_feature :: "string option"
  pt_entry :: entry_status

definition makePermissionStatus :: "string \<Rightarrow> permission_entry \<Rightarrow> permission_status" where
  "makePermissionStatus key entry =
     (let isError = (pe_source entry = ''error'')
      in \<lparr>pt_id = key, pt_allowed = pe_allowed entry, pt_pending = False, pt_reason = pe_reason entry,
          pt_error = (if isError then pe_reason entry else None), pt_source = Some (pe_source entry),
          pt_descriptor = pe_descriptor entry, pt_feature = pe_feature entry,
          pt_entry = (if isError then EntryError else EntryReady)\<rparr>)"

definition makePendingStatus :: "string \<Rightarrow> permission_descriptor \<Rightarrow> string option \<Rightarrow> permission_status" where
  "makePendingStatus key descriptor feature =
     \<lparr>pt_id = key, pt_allowed = False, pt_pending = True, pt_reason = None, pt_error = None, pt_source = None,
      pt_descriptor = descriptor, pt_feature = feature, pt_entry = EntryLoading\<rparr>"

section \<open>The state of a control\<close>

datatype capability_status = CapabilityIdle | CapabilityLoading | CapabilityReady | CapabilityError

record capability_state =
  cs_allowed :: bool
  cs_pending :: bool
  cs_status :: capability_status
  cs_reason :: "string option"

definition capabilityStateFromResult :: "query_result \<Rightarrow> capability_state" where
  "capabilityStateFromResult result =
     (if isTransientPermissionResultError result
      then \<lparr>cs_allowed = False, cs_pending = True, cs_status = CapabilityLoading,
            cs_reason = Some (getPermissionResultErrorMessage result)\<rparr>
      else if qr_source result = ''error'' \<or> qr_error result \<noteq> []
      then \<lparr>cs_allowed = False, cs_pending = False, cs_status = CapabilityError,
            cs_reason = Some (if qr_error result \<noteq> [] then qr_error result else qr_reason result)\<rparr>
      else \<lparr>cs_allowed = qr_allowed result, cs_pending = False, cs_status = CapabilityReady,
            cs_reason = truthy (Some (qr_reason result))\<rparr>)"

definition capabilityStateFromError :: "string \<Rightarrow> capability_state" where
  "capabilityStateFromError reason =
     (let pending = isTransientClusterInactivePermissionError (Some reason)
      in \<lparr>cs_allowed = False, cs_pending = pending,
          cs_status = (if pending then CapabilityLoading else CapabilityError), cs_reason = Some reason\<rparr>)"

definition capabilityStateFromPermission :: "permission_status option \<Rightarrow> capability_state" where
  "capabilityStateFromPermission permission =
     (case permission of
        None \<Rightarrow> \<lparr>cs_allowed = False, cs_pending = True, cs_status = CapabilityIdle, cs_reason = None\<rparr>
      | Some p \<Rightarrow>
          if pt_pending p
          then \<lparr>cs_allowed = False, cs_pending = True, cs_status = CapabilityLoading, cs_reason = None\<rparr>
          else if truthy (pt_error p) \<noteq> None \<and> \<not> pt_allowed p
          then \<lparr>cs_allowed = False, cs_pending = False, cs_status = CapabilityError, cs_reason = pt_error p\<rparr>
          else \<lparr>cs_allowed = pt_allowed p, cs_pending = False, cs_status = CapabilityReady, cs_reason = pt_reason p\<rparr>)"

record capability_descriptor =
  cd_id :: string
  cd_cluster :: "string option"
  cd_verb :: string
  cd_group :: "string option"
  cd_version :: "string option"
  cd_kind :: string
  cd_namespace :: "string option"
  cd_name :: "string option"
  cd_subresource :: "string option"

definition trimmedOrUndefined :: "string option \<Rightarrow> string option" where
  "trimmedOrUndefined value = (case truthy value of None \<Rightarrow> None | Some v \<Rightarrow> truthy (Some (trim v)))"

definition normalizeDescriptor :: "capability_descriptor \<Rightarrow> capability_descriptor" where
  "normalizeDescriptor descriptor =
     \<lparr>cd_id = trim (cd_id descriptor), cd_cluster = trimmedOrUndefined (cd_cluster descriptor),
      cd_verb = toLowerCase (trim (cd_verb descriptor)), cd_group = map_option trim (cd_group descriptor),
      cd_version = trimmedOrUndefined (cd_version descriptor), cd_kind = trim (cd_kind descriptor),
      cd_namespace = trimmedOrUndefined (cd_namespace descriptor), cd_name = trimmedOrUndefined (cd_name descriptor),
      cd_subresource = trimmedOrUndefined (cd_subresource descriptor)\<rparr>"

text \<open>The second component is the descriptors dropped with a warning.\<close>

definition buildNamedPermissionPayload ::
    "capability_descriptor list \<Rightarrow> query_payload_item list \<times> capability_descriptor list" where
  "buildNamedPermissionPayload descriptors =
     (List.map_filter (\<lambda>d. case truthy (cd_cluster d) of
          None \<Rightarrow> None
        | Some cluster \<Rightarrow> Some \<lparr>qi_id = cd_id d, qi_cluster = cluster, qi_group = cd_group d, qi_version = cd_version d,
            qi_kind = cd_kind d, qi_verb = cd_verb d, qi_namespace = text_or_empty (cd_namespace d),
            qi_subresource = text_or_empty (cd_subresource d), qi_name = text_or_empty (cd_name d)\<rparr>) descriptors,
      filter (\<lambda>d. truthy (cd_cluster d) = None) descriptors)"

end
