(* ===== verification/Permission_Store.thy ===== *)
theory Permission_Store
  imports Permission_Specs Workspace_Store
begin

text \<open>
  The permission store, \<open>core/capabilities/permissionStore.ts\<close>: which checks were asked, what came back, and the map of
  permissions the views read. The module's variables are a record. A query under way is an element of \<open>pq_open\<close> with
  what its closure captured; one round of the event loop is \<open>permission_step\<close>. Whether a read is blocked by paused
  auto-refresh is decided when it is sent. A \<open>setTimeout\<close> is an entry of \<open>pq_timers\<close> until it fires or is cleared.
  Calls to listeners are a trace; listeners do not call back. Diagnostics rows are values, so a row of an earlier
  diagnostics snapshot does not change with the live one. Times are integers, since clocks can be set back.
\<close>

section \<open>State\<close>

record pending_item =
  pi_spec :: permission_spec
  pi_feature :: string
  pi_cluster :: string
  pi_namespace :: "string option"

record batch_item =
  bi_id :: string
  bi_cluster :: string
  bi_group :: string
  bi_version :: string
  bi_kind :: string
  bi_verb :: string
  bi_namespace :: string
  bi_subresource :: string
  bi_name :: string
  bi_feature :: string

record namespace_metadata =
  nq_cluster :: string
  nq_namespace :: string
  nq_specs :: "permission_spec_list list"

record namespace_target =
  nt_key :: string
  nt_diagnostics :: string
  nt_cluster :: string
  nt_namespace :: string
  nt_specs :: "permission_spec_list list"
  nt_batch :: "batch_item list"
  nt_batch_specs :: "permission_spec list"
  nt_started :: int

record last_descriptor =
  ld_kind :: string
  ld_verb :: string
  ld_namespace :: "string option"
  ld_subresource :: "string option"

record query_diagnostics =
  dg_key :: string
  dg_cluster :: string
  dg_namespace :: "string option"
  dg_method :: query_method
  dg_pending :: nat
  dg_in_flight :: nat
  dg_started :: "int option"
  dg_duration :: "int option"
  dg_completed :: "int option"
  dg_error :: "string option"
  dg_success :: "bool option"
  dg_total :: nat
  dg_failures :: nat
  dg_ssrr_incomplete :: "bool option"
  dg_ssrr_rule_count :: "nat option"
  dg_ssar_fallback_count :: "nat option"
  dg_descriptors :: "last_descriptor list"

text \<open>A query waits for its answer; a cluster query and a batch of checks then wait for their \<open>finally\<close>.\<close>

datatype query_stage =
    NamespaceChunk nat "namespace_target list"
  | ClusterQuery string "batch_item list" int
  | ClusterAnswered string bool
  | ChecksQuery "string list"
  | ChecksAnswered "string list"

record open_query =
  oq_id :: nat
  oq_generation :: nat
  oq_auto :: bool
  oq_stage :: query_stage

text \<open>A call of \<open>queryNamespacesPermissions\<close> that waits for its chunks.\<close>

record query_group =
  qg_id :: nat
  qg_generation :: nat
  qg_waiting :: nat

datatype permission_timer = NotifyTimer | DiagnosticsTimer | NamespaceTimer namespace_metadata

datatype permission_call = CallPermissionListener nat | CallDiagnosticsListener nat

record permission_store =
  pq_current :: string
  pq_generation :: nat
  pq_refresh_timers :: "timer list"
  pq_results :: "(string, permission_entry) js_map"
  pq_map :: "(string, permission_status) js_map"
  pq_notify_scheduled :: bool
  pq_notify_handle :: "timer option"
  pq_diagnostics :: "(string, query_diagnostics) js_map"
  pq_snapshot :: "query_diagnostics list"
  pq_dirty :: bool
  pq_diagnostics_scheduled :: bool
  pq_diagnostics_handle :: "timer option"
  pq_in_flight :: "string list"
  pq_pending :: "(string, pending_item list) js_map"
  pq_timestamps :: "(string, int) js_map"
  pq_metadata :: "(string, namespace_metadata) js_map"
  pq_interval :: bool
  pq_subscribed :: bool
  pq_listeners :: "nat list"
  pq_diagnostics_listeners :: "nat list"
  pq_timers :: "(timer \<times> permission_timer) list"
  pq_open :: "open_query list"
  pq_groups :: "query_group list"
  pq_next :: nat
  pq_requests :: "query_payload_item list list"
  pq_calls :: "permission_call list"

definition new_permission_store :: permission_store where
  "new_permission_store =
     \<lparr>pq_current = [], pq_generation = 0, pq_refresh_timers = [], pq_results = [], pq_map = [],
      pq_notify_scheduled = False, pq_notify_handle = None, pq_diagnostics = [], pq_snapshot = [], pq_dirty = True,
      pq_diagnostics_scheduled = False, pq_diagnostics_handle = None, pq_in_flight = [], pq_pending = [],
      pq_timestamps = [], pq_metadata = [], pq_interval = False, pq_subscribed = False, pq_listeners = [],
      pq_diagnostics_listeners = [], pq_timers = [], pq_open = [], pq_groups = [], pq_next = 0, pq_requests = [],
      pq_calls = []\<rparr>"

text \<open>The time and the auto-refresh preference while a handler runs.\<close>

record permission_env =
  pv_now :: int
  pv_auto :: bool

definition PERMISSION_REFRESH_INTERVAL_MS :: int where
  "PERMISSION_REFRESH_INTERVAL_MS = 2 * 60 * 1000"

definition MAX_PERMISSION_QUERY_ITEMS :: nat where
  "MAX_PERMISSION_QUERY_ITEMS = 5000"

definition arm_timer :: "permission_store \<Rightarrow> permission_timer \<Rightarrow> permission_store \<times> timer" where
  "arm_timer s kind =
     (s\<lparr>pq_timers := pq_timers s @ [(pq_next s, kind)], pq_next := pq_next s + 1\<rparr>, pq_next s)"

definition clear_timer :: "permission_store \<Rightarrow> timer \<Rightarrow> permission_store" where
  "clear_timer s t = s\<lparr>pq_timers := filter (\<lambda>(t', _). t' \<noteq> t) (pq_timers s)\<rparr>"

definition set_add :: "'a \<Rightarrow> 'a list \<Rightarrow> 'a list" where
  "set_add x xs = (if x \<in> set xs then xs else xs @ [x])"

definition set_remove :: "'a \<Rightarrow> 'a list \<Rightarrow> 'a list" where
  "set_remove x xs = filter (\<lambda>y. y \<noteq> x) xs"

section \<open>The permission map\<close>

definition pending_key :: "permission_store \<Rightarrow> pending_item \<Rightarrow> string" where
  "pending_key s item =
     getPermissionKey (pq_current s) (pp_kind (pi_spec item)) (pp_verb (pi_spec item)) (pi_namespace item)
       (pp_subresource (pi_spec item)) (Some (pi_cluster item)) (pp_group (pi_spec item)) (pp_version (pi_spec item))"

definition pending_status :: "string \<Rightarrow> pending_item \<Rightarrow> permission_status" where
  "pending_status key item =
     makePendingStatus key
       \<lparr>pd_cluster = pi_cluster item, pd_group = pp_group (pi_spec item), pd_version = pp_version (pi_spec item),
        pd_kind = pp_kind (pi_spec item), pd_verb = pp_verb (pi_spec item), pd_namespace = pi_namespace item,
        pd_subresource = pp_subresource (pi_spec item)\<rparr> (Some (pi_feature item))"

definition rebuilt_map :: "permission_store \<Rightarrow> (string, permission_status) js_map" where
  "rebuilt_map s =
     fold (\<lambda>item m. let key = pending_key s item
           in if map_of m key = None then AList.update key (pending_status key item) m else m)
       (concat (map snd (pq_pending s)))
       (map (\<lambda>(key, entry). (key, makePermissionStatus key entry)) (pq_results s))"

definition rebuildPermissionMap :: "permission_store \<Rightarrow> permission_store" where
  "rebuildPermissionMap s = s\<lparr>pq_map := rebuilt_map s\<rparr>"

definition flushPermissionListeners :: "permission_store \<Rightarrow> permission_store" where
  "flushPermissionListeners s =
     s\<lparr>pq_notify_scheduled := False, pq_notify_handle := None,
       pq_calls := pq_calls s @ map CallPermissionListener (pq_listeners s)\<rparr>"

definition schedulePermissionNotify :: "permission_store \<Rightarrow> permission_store" where
  "schedulePermissionNotify s =
     (if pq_notify_scheduled s then s
      else case arm_timer (s\<lparr>pq_notify_scheduled := True\<rparr>) NotifyTimer of
             (s1, t) \<Rightarrow> s1\<lparr>pq_notify_handle := Some t\<rparr>)"

definition notify :: "permission_store \<Rightarrow> permission_store" where
  "notify s = schedulePermissionNotify (rebuildPermissionMap s)"

section \<open>Diagnostics\<close>

definition flushDiagnosticsListeners :: "permission_store \<Rightarrow> permission_store" where
  "flushDiagnosticsListeners s =
     s\<lparr>pq_diagnostics_scheduled := False, pq_diagnostics_handle := None,
       pq_calls := pq_calls s @ map CallDiagnosticsListener (pq_diagnostics_listeners s)\<rparr>"

definition notifyDiagnostics :: "permission_store \<Rightarrow> permission_store" where
  "notifyDiagnostics s =
     (let s1 = s\<lparr>pq_dirty := True\<rparr>
      in if pq_diagnostics_scheduled s1 then s1
         else case arm_timer (s1\<lparr>pq_diagnostics_scheduled := True\<rparr>) DiagnosticsTimer of
                (s2, t) \<Rightarrow> s2\<lparr>pq_diagnostics_handle := Some t\<rparr>)"

definition beginQueryDiagnostics ::
    "permission_env \<Rightarrow> permission_store \<Rightarrow> string \<Rightarrow> string \<Rightarrow> string option \<Rightarrow> query_method \<Rightarrow>
     permission_spec list \<Rightarrow> nat \<Rightarrow> permission_store" where
  "beginQueryDiagnostics env s queryKey clusterId namespace method specs checkCount =
     (let diag = (case map_of (pq_diagnostics s) queryKey of
            Some diag \<Rightarrow> diag
          | None \<Rightarrow> \<lparr>dg_key = queryKey, dg_cluster = clusterId, dg_namespace = namespace, dg_method = method,
              dg_pending = 0, dg_in_flight = 0, dg_started = None, dg_duration = None, dg_completed = None,
              dg_error = None, dg_success = None, dg_total = 0, dg_failures = 0, dg_ssrr_incomplete = None,
              dg_ssrr_rule_count = None, dg_ssar_fallback_count = None, dg_descriptors = []\<rparr>);
          diag' = diag\<lparr>dg_pending := dg_pending diag + checkCount, dg_in_flight := dg_in_flight diag + checkCount,
            dg_started := Some (case dg_started diag of None \<Rightarrow> pv_now env | Some t \<Rightarrow> t), dg_total := checkCount,
            dg_descriptors := map (\<lambda>sp. \<lparr>ld_kind = pp_kind sp, ld_verb = pp_verb sp, ld_namespace = namespace,
              ld_subresource = pp_subresource sp\<rparr>) specs,
            dg_method := method\<rparr>
      in notifyDiagnostics (s\<lparr>pq_diagnostics := AList.update queryKey diag' (pq_diagnostics s)\<rparr>))"

record completed_query =
  cq_key :: string
  cq_success :: bool
  cq_error :: "string option"
  cq_start :: int
  cq_backend :: "query_response_diagnostics option"
  cq_count :: "nat option"

definition completeQueryDiagnostics ::
    "permission_env \<Rightarrow> permission_store \<Rightarrow> completed_query \<Rightarrow> permission_store" where
  "completeQueryDiagnostics env s c =
     (case map_of (pq_diagnostics s) (cq_key c) of
        None \<Rightarrow> s
      | Some diag \<Rightarrow>
          let completed = (case cq_count c of None \<Rightarrow> dg_in_flight diag | Some n \<Rightarrow> n);
              inFlight = dg_in_flight diag - completed;
              diag1 = diag\<lparr>dg_pending := dg_pending diag - completed, dg_in_flight := inFlight,
                dg_started := (if inFlight = 0 then None else dg_started diag),
                dg_duration := Some (pv_now env - cq_start c), dg_completed := Some (pv_now env),
                dg_success := Some (cq_success c), dg_error := cq_error c,
                dg_failures := (if cq_success c then 0 else dg_failures diag + 1)\<rparr>;
              diag2 = (case cq_backend c of
                         None \<Rightarrow> diag1
                       | Some b \<Rightarrow> diag1\<lparr>dg_ssar_fallback_count := Some (qd_ssar_fallback_count b),
                           dg_ssrr_rule_count := Some (qd_ssrr_rule_count b),
                           dg_ssrr_incomplete := Some (qd_ssrr_incomplete b), dg_method := qd_method b\<rparr>)
          in notifyDiagnostics (s\<lparr>pq_diagnostics := AList.update (cq_key c) diag2 (pq_diagnostics s)\<rparr>))"

definition getPermissionQueryDiagnosticsSnapshot :: "permission_store \<Rightarrow> permission_store \<times> query_diagnostics list" where
  "getPermissionQueryDiagnosticsSnapshot s =
     (let s1 = (if pq_dirty s then s\<lparr>pq_snapshot := map snd (pq_diagnostics s), pq_dirty := False\<rparr> else s)
      in (s1, pq_snapshot s1))"

section \<open>Building queries\<close>

definition getSpecListsRequestKeySegment :: "permission_spec_list list \<Rightarrow> string" where
  "getSpecListsRequestKeySegment specLists =
     (let text = js_join ''|'' (map (\<lambda>sl. sl_feature sl @ '':'' @ js_join '','' (map (\<lambda>sp.
            text_or_empty (pp_group sp) @ ''/'' @ text_or_empty (pp_version sp) @ ''/'' @ pp_kind sp @ '':'' @ pp_verb sp @ '':'' @
            text_or_empty (pp_subresource sp)) (sl_specs sl))) specLists)
      in if text = [] then ''empty'' else text)"

definition buildNamespaceRequestKey :: "string \<Rightarrow> string \<Rightarrow> permission_spec_list list \<Rightarrow> string" where
  "buildNamespaceRequestKey clusterId namespace specLists =
     clusterId @ ''|'' @ toLowerCase namespace @ ''|specs:'' @ getSpecListsRequestKeySegment specLists"

text \<open>The loop over the targets: the chunks that are full, the current one and its size.\<close>

definition target_size :: "namespace_target \<Rightarrow> nat" where
  "target_size target = length (nt_batch target)"

fun split_targets ::
    "namespace_target list \<Rightarrow> nat \<Rightarrow> namespace_target list \<Rightarrow> namespace_target list list" where
  "split_targets current currentSize [] = (if current \<noteq> [] then [current] else [])"
| "split_targets current currentSize (target # targets) =
     (if current \<noteq> [] \<and> currentSize + target_size target > MAX_PERMISSION_QUERY_ITEMS
      then current # split_targets [target] (target_size target) targets
      else split_targets (current @ [target]) (currentSize + target_size target) targets)"

definition splitNamespaceTargets :: "namespace_target list \<Rightarrow> namespace_target list list" where
  "splitNamespaceTargets targets = split_targets [] 0 targets"

definition build_item :: "string \<Rightarrow> permission_spec_list \<Rightarrow> string option \<Rightarrow> string \<Rightarrow> permission_spec \<Rightarrow> batch_item" where
  "build_item current sl namespace clusterId sp =
     (case resolvePermissionGVK (pp_kind sp) (pp_group sp) (pp_version sp) of
        (grp, version) \<Rightarrow>
          \<lparr>bi_id = getPermissionKey current (pp_kind sp) (pp_verb sp) namespace (pp_subresource sp) (Some clusterId)
             (Some grp) (Some version),
           bi_cluster = clusterId, bi_group = grp, bi_version = version, bi_kind = pp_kind sp, bi_verb = pp_verb sp,
           bi_namespace = text_or_empty namespace, bi_subresource = text_or_empty (pp_subresource sp), bi_name = [],
           bi_feature = sl_feature sl\<rparr>)"

definition buildBatch :: "string \<Rightarrow> permission_spec_list list \<Rightarrow> string option \<Rightarrow> string \<Rightarrow> batch_item list" where
  "buildBatch current specLists namespace clusterId =
     concat (map (\<lambda>sl. map (build_item current sl namespace clusterId) (sl_specs sl)) specLists)"

definition result_descriptor :: "query_result \<Rightarrow> permission_descriptor" where
  "result_descriptor r =
     \<lparr>pd_cluster = qr_cluster r, pd_group = qr_group r, pd_version = truthy (qr_version r), pd_kind = qr_kind r,
      pd_verb = qr_verb r, pd_namespace = truthy (Some (qr_namespace r)),
      pd_subresource = truthy (Some (qr_subresource r))\<rparr>"

definition item_descriptor :: "batch_item \<Rightarrow> permission_descriptor" where
  "item_descriptor item =
     \<lparr>pd_cluster = bi_cluster item, pd_group = Some (bi_group item), pd_version = truthy (Some (bi_version item)),
      pd_kind = bi_kind item, pd_verb = bi_verb item, pd_namespace = truthy (Some (bi_namespace item)),
      pd_subresource = truthy (Some (bi_subresource item))\<rparr>"

definition recordPermissionResult :: "permission_store \<Rightarrow> query_result \<Rightarrow> string option \<Rightarrow> permission_store" where
  "recordPermissionResult s r feature =
     s\<lparr>pq_results := AList.update (qr_id r)
         \<lparr>pe_allowed = qr_allowed r, pe_source = (if qr_source r \<noteq> [] then qr_source r else ''error''),
          pe_reason = (if qr_reason r \<noteq> [] then Some (qr_reason r) else truthy (Some (qr_error r))),
          pe_descriptor = result_descriptor r, pe_feature = feature\<rparr> (pq_results s)\<rparr>"

definition feature_by_key :: "batch_item list \<Rightarrow> (string, string) js_map" where
  "feature_by_key items = foldl (\<lambda>m item. AList.update (bi_id item) (bi_feature item) m) [] items"

definition applyResults :: "permission_store \<Rightarrow> query_result list \<Rightarrow> batch_item list \<Rightarrow> permission_store" where
  "applyResults s results batchItems =
     fold (\<lambda>r s'. recordPermissionResult s' r (map_of (feature_by_key batchItems) (qr_id r))) results s"

definition toPermissionSpec :: "batch_item \<Rightarrow> permission_spec" where
  "toPermissionSpec item =
     \<lparr>pp_kind = bi_kind item, pp_verb = bi_verb item, pp_subresource = truthy (Some (bi_subresource item)),
      pp_group = Some (bi_group item), pp_version = truthy (Some (bi_version item))\<rparr>"

definition toQueryPayloadItem :: "batch_item \<Rightarrow> query_payload_item" where
  "toQueryPayloadItem item =
     \<lparr>qi_id = bi_id item, qi_cluster = bi_cluster item, qi_group = Some (bi_group item),
      qi_version = truthy (Some (bi_version item)), qi_kind = bi_kind item, qi_verb = bi_verb item,
      qi_namespace = bi_namespace item, qi_subresource = bi_subresource item, qi_name = bi_name item\<rparr>"

definition recordQueryTimestamp :: "permission_env \<Rightarrow> permission_store \<Rightarrow> string \<Rightarrow> permission_store" where
  "recordQueryTimestamp env s queryKey = s\<lparr>pq_timestamps := AList.update queryKey (pv_now env) (pq_timestamps s)\<rparr>"

definition recordNamespaceQueryMetadata :: "permission_store \<Rightarrow> namespace_target \<Rightarrow> permission_store" where
  "recordNamespaceQueryMetadata s target =
     s\<lparr>pq_metadata := AList.update (nt_key target)
         \<lparr>nq_cluster = nt_cluster target, nq_namespace = nt_namespace target, nq_specs = nt_specs target\<rparr>
         (pq_metadata s)\<rparr>"

definition isRecentNamespaceQuery :: "permission_env \<Rightarrow> permission_store \<Rightarrow> string \<Rightarrow> bool" where
  "isRecentNamespaceQuery env s requestKey \<longleftrightarrow>
     (case map_of (pq_timestamps s) requestKey of
        None \<Rightarrow> False
      | Some lastQuery \<Rightarrow> lastQuery \<noteq> 0 \<and> pv_now env - lastQuery < PERMISSION_REFRESH_INTERVAL_MS)"

section \<open>Namespace queries\<close>

text \<open>A \<open>NamespacePermissionTarget\<close> is a namespace and perhaps a cluster. The first component is the set \<open>seen\<close>.\<close>

type_synonym permission_target = "string \<times> string option"

definition buildNamespaceQueryTarget ::
    "permission_env \<Rightarrow> permission_store \<Rightarrow> permission_spec_list list \<Rightarrow> bool \<Rightarrow> permission_target \<Rightarrow>
     string list \<Rightarrow> string list \<times> namespace_target option" where
  "buildNamespaceQueryTarget env s specLists force target seen =
     (let namespace = trim (fst target);
          clusterId = trim (case truthy (snd target) of None \<Rightarrow> pq_current s | Some c \<Rightarrow> c)
      in if clusterId = [] \<or> namespace = [] then (seen, None)
         else let requestKey = buildNamespaceRequestKey clusterId namespace specLists
              in if requestKey \<in> set seen \<or> requestKey \<in> set (pq_in_flight s) then (seen, None)
                 else let seen' = set_add requestKey seen
                      in if \<not> force \<and> isRecentNamespaceQuery env s requestKey then (seen', None)
                         else let batch = buildBatch (pq_current s) specLists (Some namespace) clusterId
                              in if batch = [] then (seen', None)
                                 else (seen', Some
                                   \<lparr>nt_key = requestKey, nt_diagnostics = clusterId @ ''|'' @ toLowerCase namespace,
                                    nt_cluster = clusterId, nt_namespace = namespace, nt_specs = specLists,
                                    nt_batch = batch, nt_batch_specs = map toPermissionSpec batch,
                                    nt_started = pv_now env\<rparr>))"

fun prepare_targets ::
    "permission_env \<Rightarrow> permission_store \<Rightarrow> permission_spec_list list \<Rightarrow> bool \<Rightarrow> string list \<Rightarrow>
     permission_target list \<Rightarrow> namespace_target list" where
  "prepare_targets env s specLists force seen [] = []"
| "prepare_targets env s specLists force seen (target # targets) =
     (case buildNamespaceQueryTarget env s specLists force target seen of
        (seen', None) \<Rightarrow> prepare_targets env s specLists force seen' targets
      | (seen', Some queryTarget) \<Rightarrow> queryTarget # prepare_targets env s specLists force seen' targets)"

definition prepareNamespaceQueryTargets ::
    "permission_env \<Rightarrow> permission_store \<Rightarrow> permission_target list \<Rightarrow> permission_spec_list list \<Rightarrow> bool \<Rightarrow>
     namespace_target list" where
  "prepareNamespaceQueryTargets env s targets specLists force = prepare_targets env s specLists force [] targets"

definition pending_of :: "string \<Rightarrow> string option \<Rightarrow> batch_item \<Rightarrow> pending_item" where
  "pending_of clusterId namespace item =
     \<lparr>pi_spec = toPermissionSpec item, pi_feature = bi_feature item, pi_cluster = clusterId, pi_namespace = namespace\<rparr>"

definition beginNamespaceQuery :: "permission_env \<Rightarrow> namespace_target \<Rightarrow> permission_store \<Rightarrow> permission_store" where
  "beginNamespaceQuery env target s =
     beginQueryDiagnostics env
       (s\<lparr>pq_pending := AList.update (nt_key target)
            (map (pending_of (nt_cluster target) (Some (nt_namespace target))) (nt_batch target)) (pq_pending s),
          pq_in_flight := set_add (nt_key target) (pq_in_flight s)\<rparr>)
       (nt_diagnostics target) (nt_cluster target) (Some (nt_namespace target)) Ssrr (nt_batch_specs target)
       (target_size target)"

text \<open>A call of \<open>queryPermissions\<close>: a read that is not blocked goes to the backend.\<close>

definition send_query ::
    "permission_env \<Rightarrow> permission_store \<Rightarrow> query_payload_item list \<Rightarrow> query_stage \<Rightarrow> permission_store" where
  "send_query env s payload stage =
     s\<lparr>pq_open := pq_open s @ [\<lparr>oq_id = pq_next s, oq_generation = pq_generation s, oq_auto = pv_auto env,
         oq_stage = stage\<rparr>],
       pq_next := pq_next s + 1,
       pq_requests := (if isDataAccessBlocked (pv_auto env) Startup then pq_requests s
                       else pq_requests s @ [payload])\<rparr>"

definition query_chunk :: "permission_env \<Rightarrow> nat \<Rightarrow> namespace_target list \<Rightarrow> permission_store \<Rightarrow> permission_store" where
  "query_chunk env grp chunk s =
     send_query env s (map toQueryPayloadItem (concat (map nt_batch chunk))) (NamespaceChunk grp chunk)"

definition queryNamespacesPermissions ::
    "permission_env \<Rightarrow> permission_store \<Rightarrow> permission_target list \<Rightarrow> bool \<Rightarrow> permission_spec_list list \<Rightarrow>
     permission_store" where
  "queryNamespacesPermissions env s targets force specLists =
     (if targets = [] \<or> specLists = [] then s
      else let queryTargets = prepareNamespaceQueryTargets env s targets specLists force
           in if queryTargets = [] then s
              else let s1 = notify (fold (beginNamespaceQuery env) queryTargets s);
                       grp = pq_next s1;
                       chunks = splitNamespaceTargets queryTargets
                   in fold (query_chunk env grp) chunks
                        (s1\<lparr>pq_next := grp + 1, pq_groups := pq_groups s1 @
                           [\<lparr>qg_id = grp, qg_generation = pq_generation s1, qg_waiting = length chunks\<rparr>]\<rparr>))"

definition queryNamespacePermissions ::
    "permission_env \<Rightarrow> permission_store \<Rightarrow> string \<Rightarrow> string option \<Rightarrow> bool \<Rightarrow> permission_store" where
  "queryNamespacePermissions env s namespace clusterId force =
     queryNamespacesPermissions env s [(namespace, clusterId)] force ALL_NAMESPACE_PERMISSIONS"

definition completeTransientNamespaceQuery ::
    "permission_env \<Rightarrow> permission_store \<Rightarrow> namespace_target \<Rightarrow> query_result \<Rightarrow> permission_store" where
  "completeTransientNamespaceQuery env s target error =
     completeQueryDiagnostics env s
       \<lparr>cq_key = nt_diagnostics target, cq_success = False, cq_error = Some (getPermissionResultErrorMessage error),
        cq_start = nt_started target, cq_backend = None, cq_count = Some (target_size target)\<rparr>"

definition completeSuccessfulQuery ::
    "permission_env \<Rightarrow> permission_store \<Rightarrow> string \<Rightarrow> int \<Rightarrow> query_response \<Rightarrow> nat option \<Rightarrow> permission_store" where
  "completeSuccessfulQuery env s queryKey startTime response completedCheckCount =
     completeQueryDiagnostics env s
       \<lparr>cq_key = queryKey, cq_success = True, cq_error = None, cq_start = startTime,
        cq_backend = (case qs_diagnostics response of
                        None \<Rightarrow> None | Some ds \<Rightarrow> find (\<lambda>d. qd_key d = queryKey) ds),
        cq_count = completedCheckCount\<rparr>"

text \<open>The results of a target, one per item of its batch that was answered; of two results with one id the last
counts.\<close>

definition results_by_id :: "query_response \<Rightarrow> (string, query_result) js_map" where
  "results_by_id response = foldl (\<lambda>m r. AList.update (qr_id r) r m) [] (qs_results response)"

definition target_results :: "query_response \<Rightarrow> batch_item list \<Rightarrow> query_result list" where
  "target_results response batch = List.map_filter (\<lambda>item. map_of (results_by_id response) (bi_id item)) batch"

definition transient_result :: "query_response \<Rightarrow> batch_item list \<Rightarrow> query_result option" where
  "transient_result response batch = find isTransientPermissionResultError (target_results response batch)"

definition apply_target_response ::
    "permission_env \<Rightarrow> query_response \<Rightarrow> namespace_target \<Rightarrow> permission_store \<Rightarrow> permission_store" where
  "apply_target_response env response target s =
     (case transient_result response (nt_batch target) of
        Some error \<Rightarrow> completeTransientNamespaceQuery env s target error
      | None \<Rightarrow>
          completeSuccessfulQuery env (applyResults s (target_results response (nt_batch target)) (nt_batch target))
            (nt_diagnostics target) (nt_started target) response (Some (target_size target)))"

definition applyNamespaceQueryResponse ::
    "permission_env \<Rightarrow> permission_store \<Rightarrow> namespace_target list \<Rightarrow> query_response \<Rightarrow> permission_store" where
  "applyNamespaceQueryResponse env s chunk response = fold (apply_target_response env response) chunk s"

definition recordQueryError :: "string \<Rightarrow> batch_item \<Rightarrow> permission_store \<Rightarrow> permission_store" where
  "recordQueryError reason item s =
     s\<lparr>pq_results := AList.update (bi_id item)
         \<lparr>pe_allowed = False, pe_source = ''error'', pe_reason = Some reason, pe_descriptor = item_descriptor item,
          pe_feature = Some (bi_feature item)\<rparr> (pq_results s)\<rparr>"

definition fail_target :: "permission_env \<Rightarrow> string \<Rightarrow> namespace_target \<Rightarrow> permission_store \<Rightarrow> permission_store" where
  "fail_target env reason target s =
     completeQueryDiagnostics env (fold (recordQueryError reason) (nt_batch target) s)
       \<lparr>cq_key = nt_diagnostics target, cq_success = False, cq_error = Some reason, cq_start = nt_started target,
        cq_backend = None, cq_count = Some (target_size target)\<rparr>"

definition applyNamespaceQueryFailure ::
    "permission_env \<Rightarrow> permission_store \<Rightarrow> namespace_target list \<Rightarrow> string \<Rightarrow> permission_store" where
  "applyNamespaceQueryFailure env s chunk reason = fold (fail_target env reason) chunk s"

text \<open>\<open>transient\<close> says whether the target is among the transient ones.\<close>

definition finalizeNamespaceQuery ::
    "permission_env \<Rightarrow> (namespace_target \<Rightarrow> bool) \<Rightarrow> namespace_target \<Rightarrow> permission_store \<Rightarrow> permission_store" where
  "finalizeNamespaceQuery env transient target s =
     (let s1 = recordNamespaceQueryMetadata
            (s\<lparr>pq_in_flight := set_remove (nt_key target) (pq_in_flight s),
               pq_pending := AList.delete (nt_key target) (pq_pending s)\<rparr>) target
      in if \<not> transient target then recordQueryTimestamp env s1 (nt_key target) else s1)"

definition chunk_transient :: "(string + query_response) \<Rightarrow> namespace_target \<Rightarrow> bool" where
  "chunk_transient outcome target \<longleftrightarrow>
     (case outcome of Inl _ \<Rightarrow> False | Inr response \<Rightarrow> transient_result response (nt_batch target) \<noteq> None)"

definition chunk_waits :: "nat \<Rightarrow> permission_store \<Rightarrow> permission_store" where
  "chunk_waits grp s =
     s\<lparr>pq_groups := map (\<lambda>g. if qg_id g = grp then g\<lparr>qg_waiting := qg_waiting g - 1\<rparr> else g) (pq_groups s)\<rparr>"

text \<open>What \<open>queryNamespaceChunk\<close> does when its read settles.\<close>

definition chunk_settles ::
    "permission_env \<Rightarrow> permission_store \<Rightarrow> nat \<Rightarrow> namespace_target list \<Rightarrow> (string + query_response) \<Rightarrow> permission_store" where
  "chunk_settles env s generation chunk outcome =
     (if generation \<noteq> pq_generation s then s
      else fold (finalizeNamespaceQuery env (chunk_transient outcome)) chunk
             (case outcome of
                Inr response \<Rightarrow> applyNamespaceQueryResponse env s chunk response
              | Inl reason \<Rightarrow> applyNamespaceQueryFailure env s chunk reason))"

text \<open>All chunks of a call settled.\<close>

definition group_settles :: "permission_store \<Rightarrow> query_group \<Rightarrow> permission_store" where
  "group_settles s g =
     (let s1 = s\<lparr>pq_groups := filter (\<lambda>g'. qg_id g' \<noteq> qg_id g) (pq_groups s)\<rparr>
      in if qg_generation g = pq_generation s1 then notify s1 else s1)"

section \<open>Cluster queries\<close>

definition cluster_query_key :: "string \<Rightarrow> string" where
  "cluster_query_key clusterId = clusterId @ ''|__cluster__''"

definition queryClusterPermissions :: "permission_env \<Rightarrow> string \<Rightarrow> permission_store \<Rightarrow> permission_store" where
  "queryClusterPermissions env clusterId s =
     (if clusterId = [] then s
      else let queryKey = cluster_query_key clusterId
           in if queryKey \<in> set (pq_in_flight s) then s
              else let batch = buildBatch (pq_current s) CLUSTER_PERMISSIONS None clusterId
                   in if batch = [] then s
                      else let s1 = notify (s\<lparr>pq_pending := AList.update queryKey
                                 (map (pending_of clusterId None) batch) (pq_pending s)\<rparr>);
                               s2 = beginQueryDiagnostics env
                                 (s1\<lparr>pq_in_flight := set_add queryKey (pq_in_flight s1)\<rparr>) queryKey clusterId None Ssar
                                 (map toPermissionSpec batch) (length batch)
                           in send_query env s2 (map toQueryPayloadItem batch)
                                (ClusterQuery queryKey batch (pv_now env)))"

text \<open>The handlers of the read, up to \<open>finally\<close>; the result says whether the answer was transient.\<close>

definition cluster_answered ::
    "permission_env \<Rightarrow> permission_store \<Rightarrow> string \<Rightarrow> batch_item list \<Rightarrow> int \<Rightarrow> (string + query_response) \<Rightarrow>
     permission_store \<times> bool" where
  "cluster_answered env s queryKey batch startTime outcome =
     (case outcome of
        Inr response \<Rightarrow>
          (case find isTransientPermissionResultError (qs_results response) of
             Some transientError \<Rightarrow>
               (completeQueryDiagnostics env s \<lparr>cq_key = queryKey, cq_success = False,
                  cq_error = Some (getPermissionResultErrorMessage transientError), cq_start = startTime,
                  cq_backend = None, cq_count = None\<rparr>, True)
           | None \<Rightarrow>
               (completeSuccessfulQuery env (applyResults s (qs_results response) batch) queryKey startTime response None,
                False))
      | Inl queryError \<Rightarrow>
          (completeQueryDiagnostics env (fold (recordQueryError queryError) batch s) \<lparr>cq_key = queryKey,
             cq_success = False, cq_error = Some queryError, cq_start = startTime, cq_backend = None, cq_count = None\<rparr>,
           False))"

definition cluster_finally :: "permission_env \<Rightarrow> permission_store \<Rightarrow> string \<Rightarrow> bool \<Rightarrow> permission_store" where
  "cluster_finally env s queryKey transient =
     (let s1 = s\<lparr>pq_in_flight := set_remove queryKey (pq_in_flight s), pq_pending := AList.delete queryKey (pq_pending s)\<rparr>;
          s2 = (if \<not> transient then recordQueryTimestamp env s1 queryKey else s1)
      in notify s2)"

section \<open>Checks of single actions\<close>

record permission_check =
  ck_cluster :: string
  ck_kind :: string
  ck_verb :: string
  ck_namespace :: "string option"
  ck_subresource :: "string option"
  ck_group :: "string option"
  ck_version :: "string option"

record normalized_check =
  nc_id :: string
  nc_cluster :: string
  nc_kind :: string
  nc_verb :: string
  nc_group :: string
  nc_version :: string
  nc_namespace :: "string option"
  nc_subresource :: "string option"

record pending_check =
  kc_key :: string
  kc_payload :: query_payload_item
  kc_pending :: pending_item

definition normalizeCheck :: "permission_store \<Rightarrow> permission_check \<Rightarrow> normalized_check option" where
  "normalizeCheck s check =
     (let clusterId = (if ck_cluster check \<noteq> [] then ck_cluster check else pq_current s)
      in if clusterId = [] \<or> ck_kind check = [] then None
         else case resolvePermissionGVK (ck_kind check) (ck_group check) (ck_version check) of
                (grp, version) \<Rightarrow>
                  let namespace = truthy (ck_namespace check); subresource = truthy (ck_subresource check)
                  in Some \<lparr>nc_id = getPermissionKey (pq_current s) (ck_kind check) (ck_verb check) namespace subresource
                        (Some clusterId) (Some grp) (Some version),
                      nc_cluster = clusterId, nc_kind = ck_kind check, nc_verb = ck_verb check, nc_group = grp,
                      nc_version = version, nc_namespace = namespace, nc_subresource = subresource\<rparr>)"

definition askedRecently :: "permission_env \<Rightarrow> permission_store \<Rightarrow> string \<Rightarrow> bool" where
  "askedRecently env s queryKey \<longleftrightarrow>
     queryKey \<in> set (pq_in_flight s) \<or>
     (case map_of (pq_timestamps s) queryKey of
        None \<Rightarrow> False | Some lastQuery \<Rightarrow> pv_now env - lastQuery < PERMISSION_REFRESH_INTERVAL_MS)"

definition pendingCheckFor :: "permission_env \<Rightarrow> permission_store \<Rightarrow> permission_check \<Rightarrow> pending_check option" where
  "pendingCheckFor env s check =
     (case normalizeCheck s check of
        None \<Rightarrow> None
      | Some n \<Rightarrow>
          let queryKey = ''check:'' @ nc_id n; version = truthy (Some (nc_version n))
          in if askedRecently env s queryKey then None
             else Some \<lparr>kc_key = queryKey,
               kc_payload = \<lparr>qi_id = nc_id n, qi_cluster = nc_cluster n, qi_group = Some (nc_group n),
                 qi_version = version, qi_kind = nc_kind n, qi_verb = nc_verb n,
                 qi_namespace = text_or_empty (nc_namespace n), qi_subresource = text_or_empty (nc_subresource n), qi_name = []\<rparr>,
               kc_pending = \<lparr>pi_spec = \<lparr>pp_kind = nc_kind n, pp_verb = nc_verb n, pp_subresource = nc_subresource n,
                   pp_group = Some (nc_group n), pp_version = version\<rparr>,
                 pi_feature = object_actions_feature, pi_cluster = nc_cluster n, pi_namespace = nc_namespace n\<rparr>\<rparr>)"

definition checks_by_key :: "permission_env \<Rightarrow> permission_store \<Rightarrow> permission_check list \<Rightarrow> (string, pending_check) js_map" where
  "checks_by_key env s checks =
     foldl (\<lambda>m check. case pendingCheckFor env s check of None \<Rightarrow> m | Some c \<Rightarrow> AList.update (kc_key c) c m) [] checks"

definition begin_check :: "pending_check \<Rightarrow> permission_store \<Rightarrow> permission_store" where
  "begin_check c s =
     s\<lparr>pq_pending := AList.update (kc_key c) [kc_pending c] (pq_pending s),
       pq_in_flight := set_add (kc_key c) (pq_in_flight s)\<rparr>"

definition queryPermissionChecks :: "permission_env \<Rightarrow> permission_store \<Rightarrow> permission_check list \<Rightarrow> permission_store" where
  "queryPermissionChecks env s checks =
     (let batch = map snd (checks_by_key env s checks)
      in if batch = [] then s
         else send_query env (notify (fold begin_check batch s)) (map kc_payload batch)
                (ChecksQuery (map kc_key batch)))"

definition checks_answered :: "permission_store \<Rightarrow> (string + query_response) \<Rightarrow> permission_store" where
  "checks_answered s outcome =
     (case outcome of
        Inl _ \<Rightarrow> s
      | Inr response \<Rightarrow>
          fold (\<lambda>r s'. recordPermissionResult s' r (Some object_actions_feature)) (qs_results response) s)"

definition end_check :: "permission_env \<Rightarrow> string \<Rightarrow> permission_store \<Rightarrow> permission_store" where
  "end_check env queryKey s =
     recordQueryTimestamp env
       (s\<lparr>pq_in_flight := set_remove queryKey (pq_in_flight s), pq_pending := AList.delete queryKey (pq_pending s)\<rparr>)
       queryKey"

definition checks_finally :: "permission_env \<Rightarrow> permission_store \<Rightarrow> string list \<Rightarrow> permission_store" where
  "checks_finally env s keys = notify (fold (end_check env) keys s)"

section \<open>Periodic refresh\<close>

definition refresh_namespace :: "permission_env \<Rightarrow> namespace_metadata \<Rightarrow> permission_store \<Rightarrow> permission_store" where
  "refresh_namespace env target s =
     queryNamespacesPermissions env s [(nq_namespace target, Some (nq_cluster target))] True (nq_specs target)"

definition stagger_refresh :: "namespace_metadata \<Rightarrow> permission_store \<Rightarrow> permission_store" where
  "stagger_refresh target s =
     (case arm_timer s (NamespaceTimer target) of
        (s1, t) \<Rightarrow> s1\<lparr>pq_refresh_timers := set_add t (pq_refresh_timers s1)\<rparr>)"

text \<open>The first refresh runs at once, each other one later, \<open>STAGGER_INTERVAL_MS\<close> after the one before.\<close>

definition scheduleNamespaceRefreshes ::
    "permission_env \<Rightarrow> namespace_metadata list \<Rightarrow> permission_store \<Rightarrow> permission_store" where
  "scheduleNamespaceRefreshes env targets s =
     (case targets of
        [] \<Rightarrow> s
      | target # rest \<Rightarrow> fold stagger_refresh rest (refresh_namespace env target s))"

definition expired_keys :: "permission_env \<Rightarrow> permission_store \<Rightarrow> string list" where
  "expired_keys env s =
     map fst (filter (\<lambda>(_, stamp). \<not> pv_now env - stamp < PERMISSION_REFRESH_INTERVAL_MS) (pq_timestamps s))"

definition expired_cluster :: "permission_store \<Rightarrow> string \<Rightarrow> string option" where
  "expired_cluster s queryKey =
     (case map_of (pq_metadata s) queryKey of
        Some _ \<Rightarrow> None
      | None \<Rightarrow>
          (case index_of CHR ''|'' queryKey of
             None \<Rightarrow> None
           | Some pipe \<Rightarrow> if drop (Suc pipe) queryKey = ''__cluster__'' then Some (take pipe queryKey) else None))"

definition refreshExpiredQueries :: "permission_env \<Rightarrow> permission_store \<Rightarrow> permission_store" where
  "refreshExpiredQueries env s =
     (let keys = expired_keys env s;
          expiredNamespaces = List.map_filter (map_of (pq_metadata s)) keys;
          expiredClusters = List.map_filter (expired_cluster s) keys
      in scheduleNamespaceRefreshes env expiredNamespaces (fold (queryClusterPermissions env) expiredClusters s))"

section \<open>Lifecycle\<close>

definition resetPermissionStore :: "permission_store \<Rightarrow> permission_store" where
  "resetPermissionStore s =
     (let s1 = fold (\<lambda>t s'. clear_timer s' t) (pq_refresh_timers s) (s\<lparr>pq_generation := pq_generation s + 1\<rparr>);
          s2 = (case pq_notify_handle s1 of
                  None \<Rightarrow> s1
                | Some t \<Rightarrow> (clear_timer s1 t)\<lparr>pq_notify_handle := None, pq_notify_scheduled := False\<rparr>);
          s3 = (case pq_diagnostics_handle s2 of
                  None \<Rightarrow> s2
                | Some t \<Rightarrow> (clear_timer s2 t)\<lparr>pq_diagnostics_handle := None, pq_diagnostics_scheduled := False\<rparr>)
      in notify (s3\<lparr>pq_refresh_timers := [], pq_results := [], pq_pending := [], pq_in_flight := [],
           pq_timestamps := [], pq_metadata := [], pq_diagnostics := [], pq_dirty := True, pq_map := [],
           pq_interval := False\<rparr>))"

definition initializePermissionStore :: "permission_env \<Rightarrow> string \<Rightarrow> permission_store \<Rightarrow> permission_store" where
  "initializePermissionStore env clusterId s =
     (queryClusterPermissions env clusterId (s\<lparr>pq_current := clusterId\<rparr>))\<lparr>pq_interval := True, pq_subscribed := True\<rparr>"

definition setActivePermissionCluster ::
    "permission_env \<Rightarrow> permission_store \<Rightarrow> string option \<Rightarrow> bool \<Rightarrow> permission_store" where
  "setActivePermissionCluster env s clusterId operational =
     (let cid = trim (text_or_empty clusterId); s1 = s\<lparr>pq_current := cid\<rparr>
      in if cid = [] then resetPermissionStore s1
         else if \<not> operational then s1
         else initializePermissionStore env cid s1)"

definition query_current_cluster :: "permission_env \<Rightarrow> permission_store \<Rightarrow> permission_store" where
  "query_current_cluster env s = (if pq_current s \<noteq> [] then queryClusterPermissions env (pq_current s) s else s)"

definition handle_lifecycle :: "permission_env \<Rightarrow> permission_store \<Rightarrow> string \<Rightarrow> lifecycle option \<Rightarrow> permission_store" where
  "handle_lifecycle env s clusterId state =
     (if \<not> isClusterOperationalState state then s
      else let s1 = (if clusterId = pq_current s then queryClusterPermissions env (pq_current s) s else s)
           in fold (refresh_namespace env) (filter (\<lambda>m. nq_cluster m = clusterId) (map snd (pq_metadata s1))) s1)"

section \<open>The machine\<close>

datatype permission_event =
    ActiveCluster "string option" bool
  | NamespacesQueried "permission_target list" bool "permission_spec_list list"
  | ClusterQueried string
  | ChecksQueried "permission_check list"
  | KubeconfigChanging
  | KubeconfigChanged
  | SelectionChanged
  | LifecycleChanged string "lifecycle option"
  | IntervalFires
  | TimerFires timer
  | QueryAnswered nat backend_answer
  | QueryFinally nat
  | GroupSettled nat
  | ListenerAdded nat
  | ListenerRemoved nat
  | DiagnosticsListenerAdded nat
  | DiagnosticsListenerRemoved nat
  | DiagnosticsRead

definition query_answered :: "permission_env \<Rightarrow> permission_store \<Rightarrow> open_query \<Rightarrow> backend_answer \<Rightarrow> permission_store" where
  "query_answered env s q answer =
     (let outcome = queryPermissions (oq_auto q) answer;
          s1 = s\<lparr>pq_open := filter (\<lambda>q'. oq_id q' \<noteq> oq_id q) (pq_open s)\<rparr>;
          current = (oq_generation q = pq_generation s);
          waits = (\<lambda>s' stage. s'\<lparr>pq_open := pq_open s' @ [q\<lparr>oq_stage := stage\<rparr>]\<rparr>)
      in case oq_stage q of
           NamespaceChunk grp chunk \<Rightarrow> chunk_waits grp (chunk_settles env s1 (oq_generation q) chunk outcome)
         | ClusterQuery queryKey batch startTime \<Rightarrow>
             if \<not> current then waits s1 (ClusterAnswered queryKey False)
             else (case cluster_answered env s1 queryKey batch startTime outcome of
                     (s2, transient) \<Rightarrow> waits s2 (ClusterAnswered queryKey transient))
         | ChecksQuery keys \<Rightarrow>
             waits (if current then checks_answered s1 outcome else s1) (ChecksAnswered keys)
         | _ \<Rightarrow> s)"

definition query_finally :: "permission_env \<Rightarrow> permission_store \<Rightarrow> open_query \<Rightarrow> permission_store" where
  "query_finally env s q =
     (let s1 = s\<lparr>pq_open := filter (\<lambda>q'. oq_id q' \<noteq> oq_id q) (pq_open s)\<rparr>;
          current = (oq_generation q = pq_generation s)
      in case oq_stage q of
           ClusterAnswered queryKey transient \<Rightarrow> if current then cluster_finally env s1 queryKey transient else s1
         | ChecksAnswered keys \<Rightarrow> if current then checks_finally env s1 keys else s1
         | _ \<Rightarrow> s)"

definition timer_fires_in :: "permission_env \<Rightarrow> permission_store \<Rightarrow> timer \<Rightarrow> permission_timer \<Rightarrow> permission_store" where
  "timer_fires_in env s t kind =
     (let s1 = clear_timer s t
      in case kind of
           NotifyTimer \<Rightarrow> flushPermissionListeners s1
         | DiagnosticsTimer \<Rightarrow> flushDiagnosticsListeners s1
         | NamespaceTimer target \<Rightarrow>
             refresh_namespace env target (s1\<lparr>pq_refresh_timers := set_remove t (pq_refresh_timers s1)\<rparr>))"

text \<open>Events that cannot happen in a state leave it alone: a timer that is not armed, an answer nobody awaits, a bus
event before the store subscribed.\<close>

fun permission_step :: "permission_store \<Rightarrow> permission_env \<times> permission_event \<Rightarrow> permission_store" where
  "permission_step s (env, ActiveCluster clusterId operational) = setActivePermissionCluster env s clusterId operational"
| "permission_step s (env, NamespacesQueried targets force specLists) =
     queryNamespacesPermissions env s targets force specLists"
| "permission_step s (env, ClusterQueried clusterId) = queryClusterPermissions env clusterId s"
| "permission_step s (env, ChecksQueried checks) = queryPermissionChecks env s checks"
| "permission_step s (env, KubeconfigChanging) = (if pq_subscribed s then resetPermissionStore s else s)"
| "permission_step s (env, KubeconfigChanged) = (if pq_subscribed s then query_current_cluster env s else s)"
| "permission_step s (env, SelectionChanged) = (if pq_subscribed s then query_current_cluster env s else s)"
| "permission_step s (env, LifecycleChanged clusterId state) =
     (if pq_subscribed s then handle_lifecycle env s clusterId state else s)"
| "permission_step s (env, IntervalFires) = (if pq_interval s then refreshExpiredQueries env s else s)"
| "permission_step s (env, TimerFires t) =
     (case map_of (pq_timers s) t of None \<Rightarrow> s | Some kind \<Rightarrow> timer_fires_in env s t kind)"
| "permission_step s (env, QueryAnswered n answer) =
     (case find (\<lambda>q. oq_id q = n) (pq_open s) of None \<Rightarrow> s | Some q \<Rightarrow> query_answered env s q answer)"
| "permission_step s (env, QueryFinally n) =
     (case find (\<lambda>q. oq_id q = n) (pq_open s) of None \<Rightarrow> s | Some q \<Rightarrow> query_finally env s q)"
| "permission_step s (env, GroupSettled n) =
     (case find (\<lambda>g. qg_id g = n \<and> qg_waiting g = 0) (pq_groups s) of None \<Rightarrow> s | Some g \<Rightarrow> group_settles s g)"
| "permission_step s (env, ListenerAdded l) = s\<lparr>pq_listeners := set_add l (pq_listeners s)\<rparr>"
| "permission_step s (env, ListenerRemoved l) = s\<lparr>pq_listeners := set_remove l (pq_listeners s)\<rparr>"
| "permission_step s (env, DiagnosticsListenerAdded l) =
     s\<lparr>pq_diagnostics_listeners := set_add l (pq_diagnostics_listeners s)\<rparr>"
| "permission_step s (env, DiagnosticsListenerRemoved l) =
     s\<lparr>pq_diagnostics_listeners := set_remove l (pq_diagnostics_listeners s)\<rparr>"
| "permission_step s (env, DiagnosticsRead) = fst (getPermissionQueryDiagnosticsSnapshot s)"

text \<open>What the store is after a list of events.\<close>

definition permission_run :: "(permission_env \<times> permission_event) list \<Rightarrow> permission_store" where
  "permission_run events = foldl permission_step new_permission_store events"

end
