(* ===== verification/Permission_Grants.thy ===== *)
theory Permission_Grants
  imports Permission_Store
begin

text \<open>
  Where a shown grant comes from. \<open>grants_within G s\<close> says that every check recorded or shown as allowed is in \<open>G\<close>;
  each operation keeps it, recording the results of an answer enlarges \<open>G\<close> by what the answer grants, and a reset of
  the store empties it.
\<close>

definition recorded_within :: "string set \<Rightarrow> (string, permission_entry) js_map \<Rightarrow> bool" where
  "recorded_within G m \<longleftrightarrow> (\<forall>k e. map_of m k = Some e \<longrightarrow> pe_allowed e \<longrightarrow> k \<in> G)"

definition shown_within :: "string set \<Rightarrow> (string, permission_status) js_map \<Rightarrow> bool" where
  "shown_within G m \<longleftrightarrow> (\<forall>k p. map_of m k = Some p \<longrightarrow> pt_allowed p \<longrightarrow> k \<in> G)"

definition grants_within :: "string set \<Rightarrow> permission_store \<Rightarrow> bool" where
  "grants_within G s \<longleftrightarrow> recorded_within G (pq_results s) \<and> shown_within G (pq_map s)"

lemma fold_preserves:
  assumes "P s" and "\<And>x t. x \<in> set xs \<Longrightarrow> P t \<Longrightarrow> P (f x t)"
  shows "P (fold f xs s)"
  using assms by (induction xs arbitrary: s) auto

lemma fold_frame:
  assumes "\<And>x t. x \<in> set xs \<Longrightarrow> g (f x t) = g t"
  shows "g (fold f xs s) = g s"
  using assms by (induction xs arbitrary: s) auto

lemma recorded_update:
  "recorded_within G m \<Longrightarrow> (pe_allowed e \<Longrightarrow> k \<in> G) \<Longrightarrow> recorded_within G (AList.update k e m)"
  by (auto simp: recorded_within_def map_of_update)

lemma shown_pending:
  "shown_within G m \<Longrightarrow> shown_within G (AList.update k (pending_status k item) m)"
  by (auto simp: shown_within_def map_of_update pending_status_def makePendingStatus_def)

lemma map_of_map_key: "map_of (map (\<lambda>(k, e). (k, f k e)) m) k = map_option (f k) (map_of m k)"
  by (induction m) auto

lemma shown_of_recorded:
  "recorded_within G m \<Longrightarrow> shown_within G (map (\<lambda>(k, e). (k, makePermissionStatus k e)) m)"
  by (auto simp: shown_within_def recorded_within_def map_of_map_key makePermissionStatus_def Let_def)

lemma rebuilt_within: "recorded_within G (pq_results s) \<Longrightarrow> shown_within G (rebuilt_map s)"
  unfolding rebuilt_map_def
  by (rule fold_preserves [where P = "shown_within G"]) (auto simp: Let_def intro: shown_of_recorded shown_pending)

lemma mono_within: "grants_within G s \<Longrightarrow> G \<subseteq> H \<Longrightarrow> grants_within H s"
  by (auto simp: grants_within_def recorded_within_def shown_within_def)

section \<open>What the small operations leave alone\<close>

lemma clear_timer_fields [simp]:
  "pq_results (clear_timer s t) = pq_results s" "pq_map (clear_timer s t) = pq_map s"
  "pq_generation (clear_timer s t) = pq_generation s" "pq_open (clear_timer s t) = pq_open s"
  "pq_groups (clear_timer s t) = pq_groups s" "pq_in_flight (clear_timer s t) = pq_in_flight s"
  "pq_pending (clear_timer s t) = pq_pending s" "pq_next (clear_timer s t) = pq_next s"
  "pq_current (clear_timer s t) = pq_current s" "pq_metadata (clear_timer s t) = pq_metadata s"
  "pq_notify_handle (clear_timer s t) = pq_notify_handle s" "pq_listeners (clear_timer s t) = pq_listeners s"
  "pq_diagnostics_handle (clear_timer s t) = pq_diagnostics_handle s"
  by (simp_all add: clear_timer_def)

text \<open>What asking for a notification changes.\<close>

lemma schedule_fields [simp]:
  "pq_results (schedulePermissionNotify s) = pq_results s" "pq_map (schedulePermissionNotify s) = pq_map s"
  "pq_generation (schedulePermissionNotify s) = pq_generation s" "pq_open (schedulePermissionNotify s) = pq_open s"
  "pq_groups (schedulePermissionNotify s) = pq_groups s" "pq_in_flight (schedulePermissionNotify s) = pq_in_flight s"
  "pq_pending (schedulePermissionNotify s) = pq_pending s" "pq_next s \<le> pq_next (schedulePermissionNotify s)"
  "pq_current (schedulePermissionNotify s) = pq_current s" "pq_metadata (schedulePermissionNotify s) = pq_metadata s"
  by (simp_all add: schedulePermissionNotify_def arm_timer_def)

lemma notify_fields [simp]:
  "pq_results (notify s) = pq_results s" "pq_map (notify s) = rebuilt_map s"
  "pq_generation (notify s) = pq_generation s" "pq_open (notify s) = pq_open s"
  "pq_groups (notify s) = pq_groups s" "pq_in_flight (notify s) = pq_in_flight s"
  "pq_pending (notify s) = pq_pending s" "pq_next s \<le> pq_next (notify s)"
  "pq_current (notify s) = pq_current s" "pq_metadata (notify s) = pq_metadata s"
  using schedule_fields(8) [of "rebuildPermissionMap s"] by (simp_all add: notify_def rebuildPermissionMap_def)

lemma diagnostics_fields [simp]:
  "pq_results (notifyDiagnostics s) = pq_results s" "pq_map (notifyDiagnostics s) = pq_map s"
  "pq_generation (notifyDiagnostics s) = pq_generation s" "pq_open (notifyDiagnostics s) = pq_open s"
  "pq_groups (notifyDiagnostics s) = pq_groups s" "pq_in_flight (notifyDiagnostics s) = pq_in_flight s"
  "pq_pending (notifyDiagnostics s) = pq_pending s" "pq_next s \<le> pq_next (notifyDiagnostics s)"
  "pq_current (notifyDiagnostics s) = pq_current s" "pq_metadata (notifyDiagnostics s) = pq_metadata s"
  by (simp_all add: notifyDiagnostics_def arm_timer_def Let_def)

lemma begin_diagnostics_fields [simp]:
  "pq_results (beginQueryDiagnostics env s k c ns m sps n) = pq_results s"
  "pq_map (beginQueryDiagnostics env s k c ns m sps n) = pq_map s"
  "pq_generation (beginQueryDiagnostics env s k c ns m sps n) = pq_generation s"
  "pq_open (beginQueryDiagnostics env s k c ns m sps n) = pq_open s"
  "pq_groups (beginQueryDiagnostics env s k c ns m sps n) = pq_groups s"
  "pq_in_flight (beginQueryDiagnostics env s k c ns m sps n) = pq_in_flight s"
  "pq_pending (beginQueryDiagnostics env s k c ns m sps n) = pq_pending s"
  "pq_next s \<le> pq_next (beginQueryDiagnostics env s k c ns m sps n)"
  "pq_current (beginQueryDiagnostics env s k c ns m sps n) = pq_current s"
  "pq_metadata (beginQueryDiagnostics env s k c ns m sps n) = pq_metadata s"
  using diagnostics_fields(8) [of "s\<lparr>pq_diagnostics := d\<rparr>" for d]
  by (auto simp: beginQueryDiagnostics_def Let_def intro: order_trans)

lemma complete_diagnostics_fields [simp]:
  "pq_results (completeQueryDiagnostics env s c) = pq_results s"
  "pq_map (completeQueryDiagnostics env s c) = pq_map s"
  "pq_generation (completeQueryDiagnostics env s c) = pq_generation s"
  "pq_open (completeQueryDiagnostics env s c) = pq_open s"
  "pq_groups (completeQueryDiagnostics env s c) = pq_groups s"
  "pq_in_flight (completeQueryDiagnostics env s c) = pq_in_flight s"
  "pq_pending (completeQueryDiagnostics env s c) = pq_pending s"
  "pq_next s \<le> pq_next (completeQueryDiagnostics env s c)"
  "pq_current (completeQueryDiagnostics env s c) = pq_current s"
  "pq_metadata (completeQueryDiagnostics env s c) = pq_metadata s"
  using diagnostics_fields(8) [of "s\<lparr>pq_diagnostics := d\<rparr>" for d]
  by (auto simp: completeQueryDiagnostics_def Let_def split: option.split intro: order_trans)

lemma send_fields [simp]:
  "pq_results (send_query env s p stage) = pq_results s" "pq_map (send_query env s p stage) = pq_map s"
  "pq_generation (send_query env s p stage) = pq_generation s" "pq_groups (send_query env s p stage) = pq_groups s"
  "pq_in_flight (send_query env s p stage) = pq_in_flight s" "pq_pending (send_query env s p stage) = pq_pending s"
  "pq_current (send_query env s p stage) = pq_current s" "pq_metadata (send_query env s p stage) = pq_metadata s"
  "pq_next (send_query env s p stage) = Suc (pq_next s)"
  by (simp_all add: send_query_def)

lemma stamp_fields [simp]:
  "pq_results (recordQueryTimestamp env s k) = pq_results s" "pq_map (recordQueryTimestamp env s k) = pq_map s"
  "pq_generation (recordQueryTimestamp env s k) = pq_generation s" "pq_open (recordQueryTimestamp env s k) = pq_open s"
  "pq_groups (recordQueryTimestamp env s k) = pq_groups s" "pq_in_flight (recordQueryTimestamp env s k) = pq_in_flight s"
  "pq_pending (recordQueryTimestamp env s k) = pq_pending s" "pq_next (recordQueryTimestamp env s k) = pq_next s"
  "pq_current (recordQueryTimestamp env s k) = pq_current s"
  "pq_metadata (recordQueryTimestamp env s k) = pq_metadata s"
  by (simp_all add: recordQueryTimestamp_def)


section \<open>Operations that grant nothing\<close>

text \<open>\<open>grantless G op\<close>: the operation keeps every recorded and shown grant within \<open>G\<close> and the generation as it is.\<close>

definition grantless :: "string set \<Rightarrow> (permission_store \<Rightarrow> permission_store) \<Rightarrow> bool" where
  "grantless G op \<longleftrightarrow> (\<forall>s. (grants_within G s \<longrightarrow> grants_within G (op s)) \<and> pq_generation (op s) = pq_generation s)"

named_theorems grantless_rules

lemma grantlessI:
  "(\<And>s. grants_within G s \<Longrightarrow> grants_within G (op s)) \<Longrightarrow> (\<And>s. pq_generation (op s) = pq_generation s) \<Longrightarrow> grantless G op"
  by (simp add: grantless_def)

lemma grantlessD:
  "grantless G op \<Longrightarrow> grants_within G s \<Longrightarrow> grants_within G (op s)"
  "grantless G op \<Longrightarrow> pq_generation (op s) = pq_generation s"
  by (simp_all add: grantless_def)

lemma grantless_same:
  "(\<And>s. pq_results (op s) = pq_results s) \<Longrightarrow> (\<And>s. pq_map (op s) = pq_map s) \<Longrightarrow>
   (\<And>s. pq_generation (op s) = pq_generation s) \<Longrightarrow> grantless G op"
  by (simp add: grantless_def grants_within_def)

lemma grantless_comp: "grantless G f \<Longrightarrow> grantless G g \<Longrightarrow> grantless G (\<lambda>s. f (g s))"
  by (simp add: grantless_def)

lemma grantless_if: "grantless G f \<Longrightarrow> grantless G g \<Longrightarrow> grantless G (\<lambda>s. if b s then f s else g s)"
  by (simp add: grantless_def)

lemma grantless_id: "grantless G (\<lambda>s. s)"
  by (simp add: grantless_def)

lemma grantless_fold: "(\<And>x. x \<in> set xs \<Longrightarrow> grantless G (f x)) \<Longrightarrow> grantless G (fold f xs)"
  by (auto simp: grantless_def intro: fold_preserves [where P = "grants_within G"] fold_frame [where g = pq_generation])

lemma grantless_notify: "grantless G notify"
  by (rule grantlessI) (auto simp: grants_within_def rebuilt_within)

lemma grantless_record:
  assumes "qr_allowed r \<Longrightarrow> qr_id r \<in> G"
  shows "grantless G (\<lambda>s. recordPermissionResult s r feature)"
  using assms by (intro grantlessI) (auto simp: recordPermissionResult_def grants_within_def intro: recorded_update)

lemma grantless_error: "grantless G (recordQueryError reason item)"
  by (rule grantlessI) (auto simp: recordQueryError_def grants_within_def intro: recorded_update)

lemma grantless_errors: "grantless G (fold (recordQueryError reason) batch)"
  by (intro grantless_fold grantless_error)

lemma grantless_complete: "grantless G (\<lambda>s. completeQueryDiagnostics env s c)"
  by (rule grantless_same) simp_all

lemma grantless_apply:
  assumes "\<And>r. r \<in> set results \<Longrightarrow> qr_allowed r \<Longrightarrow> qr_id r \<in> G"
  shows "grantless G (\<lambda>s. applyResults s results items)"
  unfolding applyResults_def using assms by (intro grantless_fold grantless_record)

lemma grantless_begin: "grantless G (beginNamespaceQuery env target)"
  by (rule grantless_same) (simp_all add: beginNamespaceQuery_def)

lemma grantless_query_chunk: "grantless G (query_chunk env grp chunk)"
  by (rule grantless_same) (simp_all add: query_chunk_def)

lemma grantless_namespaces: "grantless G (\<lambda>s. queryNamespacesPermissions env s targets force specLists)"
proof (rule grantlessI)
  fix s
  have begun: "grantless G (\<lambda>t. notify (fold (beginNamespaceQuery env) qs t))" for qs
    by (intro grantless_comp [OF grantless_notify] grantless_fold grantless_begin)
  have opened: "grantless G (fold (query_chunk env grp) chunks)" for grp chunks
    by (intro grantless_fold grantless_query_chunk)
  show "grants_within G s \<Longrightarrow> grants_within G (queryNamespacesPermissions env s targets force specLists)"
    using grantlessD(1) [OF begun] grantlessD(1) [OF opened]
    by (simp add: queryNamespacesPermissions_def Let_def) (simp add: grants_within_def)
  show "pq_generation (queryNamespacesPermissions env s targets force specLists) = pq_generation s"
    using grantlessD(2) [OF begun, of _ s] grantlessD(2) [OF opened]
    by (simp add: queryNamespacesPermissions_def Let_def)
qed

lemma grantless_cluster: "grantless G (queryClusterPermissions env clusterId)"
  by (rule grantlessI) (auto simp: queryClusterPermissions_def Let_def grants_within_def intro: rebuilt_within)

lemma grantless_checks: "grantless G (\<lambda>s. queryPermissionChecks env s checks)"
proof -
  have begun: "grantless G (\<lambda>t. notify (fold begin_check batch t))" for batch
    by (intro grantless_comp [OF grantless_notify] grantless_fold grantless_same) (simp_all add: begin_check_def)
  have sent: "grantless G (\<lambda>t. send_query env t p stage)" for p stage
    by (rule grantless_same) simp_all
  show ?thesis
    using grantlessD [OF begun] grantlessD [OF sent]
    by (auto simp: queryPermissionChecks_def Let_def intro!: grantlessI)
qed

lemma grantless_refresh: "grantless G (refresh_namespace env target)"
  unfolding refresh_namespace_def by (rule grantless_namespaces)

lemma grantless_expired: "grantless G (refreshExpiredQueries env)"
proof -
  have stagger: "grantless G (stagger_refresh target)" for target
    by (rule grantless_same) (simp_all add: stagger_refresh_def arm_timer_def)
  have staggers: "grantless G (fold stagger_refresh ts)" for ts
    by (intro grantless_fold stagger)
  have spread: "grantless G (scheduleNamespaceRefreshes env targets)" for targets
    using grantlessD [OF staggers] grantlessD [OF grantless_refresh]
    by (cases targets) (auto simp: scheduleNamespaceRefreshes_def intro!: grantlessI)
  have clusters: "grantless G (fold (queryClusterPermissions env) ids)" for ids
    by (intro grantless_fold grantless_cluster)
  show ?thesis
    using grantlessD [OF spread] grantlessD [OF clusters]
    by (auto simp: refreshExpiredQueries_def Let_def intro!: grantlessI)
qed

lemma grantless_lifecycle: "grantless G (\<lambda>s. handle_lifecycle env s clusterId state)"
proof -
  have "grantless G (fold (refresh_namespace env) ms)" for ms
    by (intro grantless_fold grantless_refresh)
  then show ?thesis
    using grantlessD [OF grantless_cluster]
    by (auto simp: handle_lifecycle_def Let_def grantless_def)
qed

section \<open>Answers\<close>

lemma results_by_id_in: "map_of (results_by_id response) k = Some r \<Longrightarrow> r \<in> set (qs_results response)"
proof -
  have "map_of (foldl (\<lambda>m r. AList.update (qr_id r) r m) m rs) k = Some r \<Longrightarrow> r \<in> set rs \<or> map_of m k = Some r" for rs m
    by (induction rs arbitrary: m) (fastforce simp: map_of_update split: if_splits)+
  then show "map_of (results_by_id response) k = Some r \<Longrightarrow> r \<in> set (qs_results response)"
    by (fastforce simp: results_by_id_def)
qed

lemma target_results_in: "set (target_results response batch) \<subseteq> set (qs_results response)"
  by (auto simp: target_results_def map_filter_def results_by_id_in)

definition response_grants :: "query_response \<Rightarrow> string list" where
  "response_grants response = map qr_id (filter qr_allowed (qs_results response))"

definition outcome_grants :: "string + query_response \<Rightarrow> string list" where
  "outcome_grants outcome = (case outcome of Inl _ \<Rightarrow> [] | Inr response \<Rightarrow> response_grants response)"

lemma grantless_target:
  assumes "set (response_grants response) \<subseteq> G"
  shows "grantless G (apply_target_response env response target)"
proof -
  have applied: "grantless G (\<lambda>s. applyResults s (target_results response (nt_batch target)) (nt_batch target))"
    using assms target_results_in [of response "nt_batch target"]
    by (intro grantless_apply) (auto simp: response_grants_def)
  show ?thesis
    using grantlessD [OF applied] grantlessD [OF grantless_complete]
    by (auto simp: apply_target_response_def completeTransientNamespaceQuery_def completeSuccessfulQuery_def
        intro!: grantlessI split: option.split)
qed

lemma grantless_fail: "grantless G (fail_target env reason target)"
  using grantlessD [OF grantless_errors] grantlessD [OF grantless_complete]
  by (auto simp: fail_target_def intro!: grantlessI)

lemma grantless_chunk:
  assumes "set (outcome_grants outcome) \<subseteq> G"
  shows "grantless G (\<lambda>s. chunk_settles env s generation chunk outcome)"
proof -
  have final: "grantless G (fold (finalizeNamespaceQuery env tr) chunk)" for tr
    by (intro grantless_fold grantless_same)
      (simp_all add: finalizeNamespaceQuery_def recordNamespaceQueryMetadata_def Let_def)
  have answered: "grantless G (\<lambda>s. case outcome of Inr response \<Rightarrow> applyNamespaceQueryResponse env s chunk response
              | Inl reason \<Rightarrow> applyNamespaceQueryFailure env s chunk reason)"
    using assms
    by (cases outcome) (auto simp: applyNamespaceQueryResponse_def applyNamespaceQueryFailure_def outcome_grants_def
        intro!: grantless_fold grantless_target grantless_fail)
  show ?thesis
    using grantlessD [OF answered] grantlessD [OF final]
    by (auto simp: chunk_settles_def intro!: grantlessI)
qed

lemma grantless_cluster_answered:
  assumes "set (outcome_grants outcome) \<subseteq> G"
  shows "grantless G (\<lambda>s. fst (cluster_answered env s queryKey batch startTime outcome))"
proof (cases outcome)
  case (Inl reason)
  then show ?thesis
    using grantlessD [OF grantless_errors] grantlessD [OF grantless_complete]
    by (auto simp: cluster_answered_def intro!: grantlessI)
next
  case (Inr response)
  then have applied: "grantless G (\<lambda>s. applyResults s (qs_results response) batch)"
    using assms by (intro grantless_apply) (auto simp: outcome_grants_def response_grants_def)
  show ?thesis
    using Inr grantlessD [OF applied] grantlessD [OF grantless_complete]
    by (auto simp: cluster_answered_def completeSuccessfulQuery_def intro!: grantlessI split: option.split)
qed

lemma grantless_checks_answered:
  assumes "set (outcome_grants outcome) \<subseteq> G"
  shows "grantless G (\<lambda>s. checks_answered s outcome)"
proof (cases outcome)
  case (Inr response)
  then have "grantless G (fold (\<lambda>r s. recordPermissionResult s r (Some object_actions_feature)) (qs_results response))"
    using assms by (intro grantless_fold grantless_record) (auto simp: outcome_grants_def response_grants_def)
  with Inr show ?thesis by (simp add: checks_answered_def)
qed (simp add: checks_answered_def grantless_id)

text \<open>What an event grants: the checks a current answer allows.\<close>

definition query_grants :: "permission_store \<Rightarrow> open_query \<Rightarrow> backend_answer \<Rightarrow> string list" where
  "query_grants s q answer =
     (if oq_generation q = pq_generation s then outcome_grants (queryPermissions (oq_auto q) answer) else [])"

definition event_grants :: "permission_store \<Rightarrow> permission_event \<Rightarrow> string list" where
  "event_grants s event =
     (case event of
        QueryAnswered n answer \<Rightarrow>
          (case find (\<lambda>q. oq_id q = n) (pq_open s) of None \<Rightarrow> [] | Some q \<Rightarrow> query_grants s q answer)
      | _ \<Rightarrow> [])"

lemma grants_updates [simp]:
  "grants_within G (s\<lparr>pq_open := qs\<rparr>) \<longleftrightarrow> grants_within G s"
  "grants_within G (s\<lparr>pq_current := c\<rparr>) \<longleftrightarrow> grants_within G s"
  "grants_within G (s\<lparr>pq_groups := gs\<rparr>) \<longleftrightarrow> grants_within G s"
  "grants_within G (s\<lparr>pq_interval := b\<rparr>) \<longleftrightarrow> grants_within G s"
  "grants_within G (s\<lparr>pq_subscribed := b\<rparr>) \<longleftrightarrow> grants_within G s"
  "grants_within G (s\<lparr>pq_listeners := ls\<rparr>) \<longleftrightarrow> grants_within G s"
  "grants_within G (s\<lparr>pq_diagnostics_listeners := ls\<rparr>) \<longleftrightarrow> grants_within G s"
  "grants_within G (s\<lparr>pq_snapshot := ds\<rparr>) \<longleftrightarrow> grants_within G s"
  "grants_within G (s\<lparr>pq_dirty := b\<rparr>) \<longleftrightarrow> grants_within G s"
  by (simp_all add: grants_within_def)

lemma answered_within:
  assumes "grants_within G s" and "set (query_grants s q answer) \<subseteq> G"
  shows "grants_within G (query_answered env s q answer) \<and>
    pq_generation (query_answered env s q answer) = pq_generation s"
proof (cases "oq_generation q = pq_generation s")
  case True
  let ?outcome = "queryPermissions (oq_auto q) answer"
  let ?s = "s\<lparr>pq_open := filter (\<lambda>q'. oq_id q' \<noteq> oq_id q) (pq_open s)\<rparr>"
  have sub: "set (outcome_grants ?outcome) \<subseteq> G" using assms(2) True by (simp add: query_grants_def)
  have s: "grants_within G ?s" using assms(1) by simp
  have waits: "grantless G (chunk_waits grp)" for grp
    by (rule grantless_same) (simp_all add: chunk_waits_def)
  show ?thesis
    using s True grantlessD [OF grantless_cluster_answered [OF sub]] grantlessD [OF grantless_checks_answered [OF sub]]
      grantlessD [OF grantless_chunk [OF sub]] grantlessD [OF waits] assms(1)
    by (auto simp: query_answered_def Let_def case_prod_beta split: query_stage.split)
next
  case False
  have waits: "grantless G (chunk_waits grp)" for grp
    by (rule grantless_same) (simp_all add: chunk_waits_def)
  show ?thesis
    using assms(1) False grantlessD [OF waits]
    by (auto simp: query_answered_def Let_def chunk_settles_def split: query_stage.split)
qed

section \<open>Steps\<close>

definition resets :: "permission_store \<Rightarrow> permission_event \<Rightarrow> bool" where
  "resets s event \<longleftrightarrow>
     (case event of
        ActiveCluster clusterId _ \<Rightarrow> trim (text_or_empty clusterId) = []
      | KubeconfigChanging \<Rightarrow> pq_subscribed s
      | _ \<Rightarrow> False)"

lemma fold_clear_fields [simp]:
  "pq_generation (fold (\<lambda>t s'. clear_timer s' t) ts s) = pq_generation s"
  "pq_current (fold (\<lambda>t s'. clear_timer s' t) ts s) = pq_current s"
  "pq_open (fold (\<lambda>t s'. clear_timer s' t) ts s) = pq_open s"
  "pq_groups (fold (\<lambda>t s'. clear_timer s' t) ts s) = pq_groups s"
  "pq_next (fold (\<lambda>t s'. clear_timer s' t) ts s) = pq_next s"
  by (induction ts arbitrary: s) auto

lemma rebuilt_empty [simp]: "pq_results s = [] \<Longrightarrow> pq_pending s = [] \<Longrightarrow> rebuilt_map s = []"
  by (simp add: rebuilt_map_def)

lemma reset_fields:
  "pq_results (resetPermissionStore s) = []" "pq_map (resetPermissionStore s) = []"
  "pq_generation (resetPermissionStore s) = Suc (pq_generation s)" "pq_open (resetPermissionStore s) = pq_open s"
  "pq_groups (resetPermissionStore s) = pq_groups s" "pq_in_flight (resetPermissionStore s) = []"
  "pq_pending (resetPermissionStore s) = []" "pq_next s \<le> pq_next (resetPermissionStore s)"
  "pq_current (resetPermissionStore s) = pq_current s"
  by (auto simp: resetPermissionStore_def Let_def split: option.split intro: order_trans [OF _ notify_fields(8)])

lemma finally_within:
  assumes "grants_within G s"
  shows "grants_within G (query_finally env s q) \<and> pq_generation (query_finally env s q) = pq_generation s"
proof -
  have cluster: "grantless G (\<lambda>s. cluster_finally env s key tr)" for key tr
    by (rule grantlessI) (auto simp: cluster_finally_def Let_def grants_within_def intro!: rebuilt_within)
  have "grantless G (fold (end_check env) keys)" for keys
    by (intro grantless_fold grantless_same) (simp_all add: end_check_def)
  then have checks: "grantless G (\<lambda>s. checks_finally env s keys)" for keys
    unfolding checks_finally_def by (intro grantless_comp [OF grantless_notify])
  show ?thesis
    using assms grantlessD [OF cluster] grantlessD [OF checks]
    by (auto simp: query_finally_def Let_def split: query_stage.split)
qed

lemma step_within:
  assumes "grants_within G s" and "\<not> resets s e" and "set (event_grants s e) \<subseteq> G"
  shows "grants_within G (permission_step s (env, e)) \<and> pq_generation (permission_step s (env, e)) = pq_generation s"
proof -
  note ops [simp] = grantlessD [OF grantless_namespaces] grantlessD [OF grantless_cluster] grantlessD [OF grantless_checks]
    grantlessD [OF grantless_expired] grantlessD [OF grantless_lifecycle] grantlessD [OF grantless_refresh]
    grantlessD [OF grantless_notify]
  show ?thesis
  proof (cases e)
    case (TimerFires t)
    have clear: "grants_within G (clear_timer s t)" "grants_within G ((clear_timer s t)\<lparr>pq_refresh_timers := ts\<rparr>)" for ts
      using assms(1) by (simp_all add: grants_within_def)
    have flush: "grantless G flushPermissionListeners" "grantless G flushDiagnosticsListeners"
      by (auto simp: flushPermissionListeners_def flushDiagnosticsListeners_def intro!: grantless_same)
    have "grants_within G (timer_fires_in env s t kind) \<and> pq_generation (timer_fires_in env s t kind) = pq_generation s"
      for kind
      using clear grantlessD [OF flush(1)] grantlessD [OF flush(2)] by (cases kind) (simp_all add: timer_fires_in_def Let_def)
    with TimerFires assms(1) show ?thesis by (auto split: option.split)
  next
    case (QueryAnswered n answer)
    with assms show ?thesis by (auto simp: event_grants_def answered_within split: option.splits)
  next
    case (QueryFinally n)
    with assms(1) show ?thesis by (auto simp: finally_within split: option.split)
  qed (use assms ops in \<open>auto simp: resets_def setActivePermissionCluster_def initializePermissionStore_def Let_def
      query_current_cluster_def group_settles_def getPermissionQueryDiagnosticsSnapshot_def
      split: option.split\<close>)
qed

end
