(* ===== verification/Permission_Asks.thy ===== *)
theory Permission_Asks
  imports Permission_Grants
begin

text \<open>
  What the permission store has asked: the keys of its open queries, the keys it holds in flight and the pending items it
  shows as loading are the same keys, each asked once; the chunks a call waits for are open; and the shown map is the one
  the recorded results and pending items give, unless a notification is still to come. \<open>asks_ok\<close> is kept by every
  operation that sends a query or takes an answer.
\<close>

section \<open>The invariant\<close>

fun stage_keys :: "query_stage \<Rightarrow> string list" where
  "stage_keys (NamespaceChunk grp chunk) = map nt_key chunk"
| "stage_keys (ClusterQuery key batch start) = [key]"
| "stage_keys (ClusterAnswered key transient) = [key]"
| "stage_keys (ChecksQuery keys) = keys"
| "stage_keys (ChecksAnswered keys) = keys"

fun stage_group :: "query_stage \<Rightarrow> nat option" where
  "stage_group (NamespaceChunk grp chunk) = Some grp"
| "stage_group _ = None"

fun answered_stage :: "query_stage \<Rightarrow> bool" where
  "answered_stage (ClusterAnswered key transient) = True"
| "answered_stage (ChecksAnswered keys) = True"
| "answered_stage _ = False"

definition query_keys :: "nat \<Rightarrow> open_query list \<Rightarrow> string list" where
  "query_keys generation qs =
     concat (map (\<lambda>q. stage_keys (oq_stage q)) (filter (\<lambda>q. oq_generation q = generation) qs))"

text \<open>The keys of the open queries of the current generation, those sent since the store was last reset.\<close>

definition current_open_keys :: "permission_store \<Rightarrow> string list" where
  "current_open_keys s = query_keys (pq_generation s) (pq_open s)"

definition waiting_for :: "nat \<Rightarrow> open_query list \<Rightarrow> nat" where
  "waiting_for grp qs = length (filter (\<lambda>q. stage_group (oq_stage q) = Some grp) qs)"

definition keys_ok :: "permission_store \<Rightarrow> bool" where
  "keys_ok s \<longleftrightarrow> distinct (current_open_keys s) \<and> set (current_open_keys s) = set (pq_in_flight s) \<and>
     fst ` set (pq_pending s) = set (pq_in_flight s) \<and>
     (\<forall>item \<in> set (concat (map snd (pq_pending s))). pi_cluster item \<noteq> [])"

definition query_ids_ok :: "permission_store \<Rightarrow> bool" where
  "query_ids_ok s \<longleftrightarrow> distinct (map oq_id (pq_open s)) \<and>
     (\<forall>q \<in> set (pq_open s). oq_id q < pq_next s \<and> oq_generation q \<le> pq_generation s) \<and>
     distinct (map qg_id (pq_groups s)) \<and>
     (\<forall>g \<in> set (pq_groups s). qg_id g < pq_next s \<and> qg_generation g \<le> pq_generation s)"

definition groups_ok :: "permission_store \<Rightarrow> bool" where
  "groups_ok s \<longleftrightarrow> (\<forall>g \<in> set (pq_groups s). qg_waiting g = waiting_for (qg_id g) (pq_open s)) \<and>
     (\<forall>q \<in> set (pq_open s). \<forall>grp. stage_group (oq_stage q) = Some grp \<longrightarrow>
        (\<exists>g \<in> set (pq_groups s). qg_id g = grp \<and> qg_generation g = oq_generation q))"

definition notice_due :: "permission_store \<Rightarrow> bool" where
  "notice_due s \<longleftrightarrow> (\<exists>g \<in> set (pq_groups s). qg_generation g = pq_generation s) \<or>
     (\<exists>q \<in> set (pq_open s). oq_generation q = pq_generation s \<and> answered_stage (oq_stage q))"

definition map_ok :: "permission_store \<Rightarrow> bool" where
  "map_ok s \<longleftrightarrow> pq_map s = rebuilt_map s \<or> notice_due s"

definition asks_ok :: "permission_store \<Rightarrow> bool" where
  "asks_ok s \<longleftrightarrow> keys_ok s \<and> query_ids_ok s \<and> groups_ok s \<and> map_ok s"

lemmas asks_defs = asks_ok_def keys_ok_def query_ids_ok_def groups_ok_def map_ok_def notice_due_def current_open_keys_def

lemma query_keys_append [simp]: "query_keys gen (qs @ rs) = query_keys gen qs @ query_keys gen rs"
  by (simp add: query_keys_def)

lemma query_keys_Nil [simp]: "query_keys gen [] = []"
  by (simp add: query_keys_def)

lemma query_keys_Cons [simp]:
  "query_keys gen (q # qs) = (if oq_generation q = gen then stage_keys (oq_stage q) else []) @ query_keys gen qs"
  by (simp add: query_keys_def)

lemma waiting_append [simp]: "waiting_for grp (qs @ rs) = waiting_for grp qs + waiting_for grp rs"
  by (simp add: waiting_for_def)

lemma waiting_Nil [simp]: "waiting_for grp [] = 0"
  by (simp add: waiting_for_def)

lemma waiting_Cons [simp]:
  "waiting_for grp (q # qs) = (if stage_group (oq_stage q) = Some grp then 1 else 0) + waiting_for grp qs"
  by (simp add: waiting_for_def)

lemma waiting_zero: "(\<And>q. q \<in> set qs \<Longrightarrow> stage_group (oq_stage q) \<noteq> Some grp) \<Longrightarrow> waiting_for grp qs = 0"
  by (auto simp: waiting_for_def)

text \<open>An open query splits the list of open queries, and taking it off leaves the rest.\<close>

lemma open_split:
  assumes "asks_ok s" and "q \<in> set (pq_open s)"
  obtains xs ys where "pq_open s = xs @ q # ys" and "filter (\<lambda>q'. oq_id q' \<noteq> oq_id q) (pq_open s) = xs @ ys"
proof -
  from assms(2) obtain xs ys where split: "pq_open s = xs @ q # ys" by (auto dest: split_list)
  have "oq_id q \<notin> oq_id ` set xs" "oq_id q \<notin> oq_id ` set ys"
    using assms(1) split by (auto simp: asks_defs)
  then have "filter (\<lambda>q'. oq_id q' \<noteq> oq_id q) xs = xs" "filter (\<lambda>q'. oq_id q' \<noteq> oq_id q) ys = ys"
    by (auto simp: filter_id_conv) (metis image_eqI)+
  then have "filter (\<lambda>q'. oq_id q' \<noteq> oq_id q) (pq_open s) = xs @ ys"
    using split by simp
  with split that show ?thesis by blast
qed

section \<open>The rebuilt map does not depend on the current cluster\<close>

lemma pending_key_current:
  "pi_cluster item \<noteq> [] \<Longrightarrow> pending_key s item = pending_key t item"
  by (simp add: pending_key_def getPermissionKey_def truthy_def)

lemma rebuilt_cong:
  assumes "pq_results s = pq_results t" "pq_pending s = pq_pending t"
    and "\<forall>item \<in> set (concat (map snd (pq_pending t))). pi_cluster item \<noteq> []"
  shows "rebuilt_map s = rebuilt_map t"
  unfolding rebuilt_map_def assms(1,2)
  by (rule fold_cong) (use assms(3) in \<open>auto simp: Let_def fun_eq_iff pending_key_current [of _ s t]\<close>)

text \<open>Operations that leave what was asked alone.\<close>

lemma asks_cong:
  assumes "asks_ok s" and "pq_results t = pq_results s" "pq_map t = pq_map s" "pq_generation t = pq_generation s"
    "pq_open t = pq_open s" "pq_groups t = pq_groups s" "pq_in_flight t = pq_in_flight s"
    "pq_pending t = pq_pending s" "pq_next s \<le> pq_next t"
  shows "asks_ok t"
proof -
  have "rebuilt_map t = rebuilt_map s"
    by (rule rebuilt_cong) (use assms in \<open>auto simp: asks_defs\<close>)
  then show ?thesis
    using assms by (auto simp: asks_defs intro: less_le_trans)
qed

lemma asks_notify: "asks_ok s \<Longrightarrow> asks_ok (notify s)"
proof -
  assume ok: "asks_ok s"
  have "rebuilt_map (notify s) = rebuilt_map s"
    by (rule rebuilt_cong) (use ok in \<open>auto simp: asks_defs\<close>)
  with ok show "asks_ok (notify s)" by (auto simp: asks_defs intro: less_le_trans)
qed

section \<open>Asking\<close>

text \<open>A call that asks new keys: it holds them in flight and pending, opens queries for them, perhaps as chunks of a
group, and notifies.\<close>

lemma asks_more:
  assumes "asks_ok s" and "distinct keys" "set keys \<inter> set (pq_in_flight s) = {}"
    and "pq_generation t = pq_generation s"
    and "pq_open t = pq_open s @ qs" "\<forall>q \<in> set qs. oq_generation q = pq_generation s"
    and "query_keys (pq_generation s) qs = keys"
    and "distinct (map oq_id qs)" "\<forall>q \<in> set qs. pq_next s \<le> oq_id q \<and> oq_id q < pq_next t" "pq_next s \<le> pq_next t"
    and "set (pq_in_flight t) = set keys \<union> set (pq_in_flight s)"
    and "fst ` set (pq_pending t) = set keys \<union> fst ` set (pq_pending s)"
    and "\<forall>item \<in> set (concat (map snd (pq_pending t))). pi_cluster item \<noteq> []"
    and "pq_groups t = pq_groups s @ gs" "distinct (map qg_id gs)"
    and "\<forall>g \<in> set gs. pq_next s \<le> qg_id g \<and> qg_id g < pq_next t \<and> qg_generation g = pq_generation s \<and>
      qg_waiting g = waiting_for (qg_id g) qs"
    and "\<forall>q \<in> set qs. \<forall>grp. stage_group (oq_stage q) = Some grp \<longrightarrow> grp \<in> qg_id ` set gs"
    and "pq_map t = rebuilt_map t"
  shows "asks_ok t"
proof -
  note ok = assms(1) [unfolded asks_defs]
  have keys: "keys_ok t"
    using assms ok by (auto simp: keys_ok_def current_open_keys_def)
  have below: "\<forall>q \<in> set (pq_open s). oq_id q < pq_next s" "\<forall>g \<in> set (pq_groups s). qg_id g < pq_next s"
    using ok by auto
  have "oq_id ` set (pq_open s) \<subseteq> {..<pq_next s}" "oq_id ` set qs \<subseteq> {pq_next s..}"
    "qg_id ` set (pq_groups s) \<subseteq> {..<pq_next s}" "qg_id ` set gs \<subseteq> {pq_next s..}"
    using below assms(9,16) by auto
  moreover have "{..<pq_next s} \<inter> {pq_next s..} = {}" by auto
  ultimately have apart: "oq_id ` set (pq_open s) \<inter> oq_id ` set qs = {}" "qg_id ` set (pq_groups s) \<inter> qg_id ` set gs = {}"
    by blast+
  have "distinct (map oq_id (pq_open t))"
    using assms(5,8) ok apart(1) by simp
  moreover have "distinct (map qg_id (pq_groups t))"
    using assms(14,15) ok apart(2) by simp
  ultimately have ids: "query_ids_ok t"
    using assms(4-6,9,10,14,16) ok below by (auto simp: query_ids_ok_def intro: less_le_trans)
  have old: "waiting_for (qg_id g) qs = 0" if "g \<in> set (pq_groups s)" for g
    using assms(16,17) below(2) that by (intro waiting_zero) fastforce
  have new: "waiting_for (qg_id g) (pq_open s) = 0" if "g \<in> set gs" for g
  proof (intro waiting_zero notI)
    fix q assume "q \<in> set (pq_open s)" "stage_group (oq_stage q) = Some (qg_id g)"
    then obtain g' where "g' \<in> set (pq_groups s)" "qg_id g' = qg_id g" using ok by blast
    with below(2) assms(16) that show False by fastforce
  qed
  have "groups_ok t"
    unfolding groups_ok_def
  proof (intro conjI ballI allI impI)
    fix g assume "g \<in> set (pq_groups t)"
    then show "qg_waiting g = waiting_for (qg_id g) (pq_open t)"
      using ok assms(5,14,16) old new by auto
  next
    fix q grp assume q: "q \<in> set (pq_open t)" "stage_group (oq_stage q) = Some grp"
    show "\<exists>g \<in> set (pq_groups t). qg_id g = grp \<and> qg_generation g = oq_generation q"
    proof (cases "q \<in> set (pq_open s)")
      case True
      with q(2) ok have "\<exists>g \<in> set (pq_groups s). qg_id g = grp \<and> qg_generation g = oq_generation q" by blast
      then show ?thesis using assms(14) by auto
    next
      case False
      with q assms(5) have new: "q \<in> set qs" by auto
      with q(2) assms(17) have "grp \<in> qg_id ` set gs" by blast
      with new assms(6,14,16) show ?thesis by auto
    qed
  qed
  with keys ids assms(18) show ?thesis by (simp add: asks_ok_def map_ok_def)
qed

section \<open>Chunks\<close>

lemma split_concat: "concat (split_targets current n targets) = current @ targets"
  by (induction current n targets rule: split_targets.induct) auto

lemma split_nonempty: "chunk \<in> set (split_targets current n targets) \<Longrightarrow> chunk \<noteq> []"
  by (induction current n targets rule: split_targets.induct) (auto split: if_splits)

definition chunk_checks :: "namespace_target list \<Rightarrow> nat" where
  "chunk_checks chunk = sum_list (map target_size chunk)"

lemma split_bounded:
  assumes "n = chunk_checks current" and "n \<le> MAX_PERMISSION_QUERY_ITEMS \<or> length current = 1"
    and "chunk \<in> set (split_targets current n targets)"
  shows "chunk_checks chunk \<le> MAX_PERMISSION_QUERY_ITEMS \<or> length chunk = 1"
  using assms
proof (induction current n targets rule: split_targets.induct)
  case (2 current n target targets)
  show ?case
  proof (cases "current \<noteq> [] \<and> n + target_size target > MAX_PERMISSION_QUERY_ITEMS")
    case True
    with 2(3-5) 2(1) [OF True] show ?thesis by (auto simp: chunk_checks_def)
  next
    case False
    with 2(3,5) 2(2) [OF False] show ?thesis by (cases current) (auto simp: chunk_checks_def)
  qed
qed (auto split: if_splits)

section \<open>Namespace queries\<close>

lemma target_facts:
  assumes "buildNamespaceQueryTarget env s specLists force target seen = (seen', found)"
  shows "set seen \<subseteq> set seen' \<and>
    (\<forall>t. found = Some t \<longrightarrow> nt_key t \<in> set seen' \<and> nt_key t \<notin> set seen \<and> nt_key t \<notin> set (pq_in_flight s) \<and>
       nt_cluster t \<noteq> [] \<and> nt_batch t \<noteq> [])"
  using assms
  by (auto simp: buildNamespaceQueryTarget_def Let_def set_add_def split: if_splits)

lemma prepared_facts:
  assumes "ts = prepare_targets env s specLists force seen targets"
  shows "distinct (map nt_key ts)" "\<forall>t \<in> set ts. nt_key t \<notin> set seen \<and> nt_key t \<notin> set (pq_in_flight s) \<and> nt_cluster t \<noteq> []"
proof -
  have "distinct (map nt_key ts) \<and>
    (\<forall>t \<in> set ts. nt_key t \<notin> set seen \<and> nt_key t \<notin> set (pq_in_flight s) \<and> nt_cluster t \<noteq> [])"
    using assms
  proof (induction targets arbitrary: seen ts)
    case (Cons target targets)
    obtain seen' found where built: "buildNamespaceQueryTarget env s specLists force target seen = (seen', found)"
      by fastforce
    show ?case
      using Cons.prems Cons.IH [of "prepare_targets env s specLists force seen' targets" seen'] target_facts [OF built] built
      by (cases found) auto
  qed simp
  then show "distinct (map nt_key ts)"
    "\<forall>t \<in> set ts. nt_key t \<notin> set seen \<and> nt_key t \<notin> set (pq_in_flight s) \<and> nt_cluster t \<noteq> []"
    by auto
qed

lemma set_add_set [simp]: "set (set_add x xs) = insert x (set xs)"
  by (auto simp: set_add_def)

lemma set_remove_set [simp]: "set (set_remove x xs) = set xs - {x}"
  by (auto simp: set_remove_def)

definition clusters_named :: "(string, pending_item list) js_map \<Rightarrow> bool" where
  "clusters_named m \<longleftrightarrow> (\<forall>item \<in> set (concat (map snd m)). pi_cluster item \<noteq> [])"

lemma clusters_named_update:
  assumes "clusters_named m" and "\<forall>item \<in> set items. pi_cluster item \<noteq> []"
  shows "clusters_named (AList.update k items m)"
  using assms by (induction m) (auto simp: clusters_named_def)

lemma clusters_named_delete: "clusters_named m \<Longrightarrow> clusters_named (AList.delete k m)"
  by (induction m) (auto simp: clusters_named_def AList.delete_eq)

lemma begin_namespaces:
  assumes "\<forall>t \<in> set ts. nt_cluster t \<noteq> []" and "clusters_named (pq_pending s)"
    and "s' = fold (beginNamespaceQuery env) ts s"
  shows "set (pq_in_flight s') = nt_key ` set ts \<union> set (pq_in_flight s)"
    and "fst ` set (pq_pending s') = nt_key ` set ts \<union> fst ` set (pq_pending s)"
    and "clusters_named (pq_pending s')" and "pq_next s \<le> pq_next s'"
    and "pq_open s' = pq_open s" "pq_groups s' = pq_groups s" "pq_generation s' = pq_generation s"
proof -
  have "set (pq_in_flight s') = nt_key ` set ts \<union> set (pq_in_flight s) \<and>
    fst ` set (pq_pending s') = nt_key ` set ts \<union> fst ` set (pq_pending s) \<and>
    clusters_named (pq_pending s') \<and> pq_next s \<le> pq_next s' \<and>
    pq_open s' = pq_open s \<and> pq_groups s' = pq_groups s \<and> pq_generation s' = pq_generation s"
    unfolding assms(3) using assms(1,2)
  proof (induction ts arbitrary: s)
    case (Cons t ts)
    let ?s = "beginNamespaceQuery env t s"
    have named: "clusters_named (pq_pending ?s)"
      using Cons.prems by (auto simp: beginNamespaceQuery_def pending_of_def intro!: clusters_named_update)
    have "pq_next s \<le> pq_next ?s"
      by (simp add: beginNamespaceQuery_def order_trans [OF _ begin_diagnostics_fields(8)])
    with Cons.IH [OF _ named] Cons.prems show ?case
      by (auto simp: beginNamespaceQuery_def update_fst_set)
  qed simp
  then show "set (pq_in_flight s') = nt_key ` set ts \<union> set (pq_in_flight s)"
    "fst ` set (pq_pending s') = nt_key ` set ts \<union> fst ` set (pq_pending s)"
    "clusters_named (pq_pending s')" "pq_next s \<le> pq_next s'"
    "pq_open s' = pq_open s" "pq_groups s' = pq_groups s" "pq_generation s' = pq_generation s"
    by auto
qed

definition chunk_queries :: "permission_env \<Rightarrow> nat \<Rightarrow> nat \<Rightarrow> nat \<Rightarrow> namespace_target list list \<Rightarrow> open_query list" where
  "chunk_queries env generation grp start chunks =
     map (\<lambda>(n, chunk). \<lparr>oq_id = n, oq_generation = generation, oq_auto = pv_auto env, oq_stage = NamespaceChunk grp chunk\<rparr>)
       (zip [start..<start + length chunks] chunks)"

lemma query_chunks_open:
  "pq_open (fold (query_chunk env grp) chunks s) =
     pq_open s @ chunk_queries env (pq_generation s) grp (pq_next s) chunks \<and>
   pq_next (fold (query_chunk env grp) chunks s) = pq_next s + length chunks \<and>
   pq_results (fold (query_chunk env grp) chunks s) = pq_results s \<and>
   pq_map (fold (query_chunk env grp) chunks s) = pq_map s \<and>
   pq_generation (fold (query_chunk env grp) chunks s) = pq_generation s \<and>
   pq_groups (fold (query_chunk env grp) chunks s) = pq_groups s \<and>
   pq_in_flight (fold (query_chunk env grp) chunks s) = pq_in_flight s \<and>
   pq_pending (fold (query_chunk env grp) chunks s) = pq_pending s"
proof (induction chunks arbitrary: s)
  case (Cons chunk chunks)
  have "[pq_next s..<Suc (pq_next s + length chunks)] = pq_next s # [Suc (pq_next s)..<Suc (pq_next s + length chunks)]"
    by (rule upt_conv_Cons) simp
  with Cons.IH [of "query_chunk env grp chunk s"] show ?case
    by (simp add: query_chunk_def chunk_queries_def send_query_def)
qed (simp add: chunk_queries_def)

lemma chunk_queries_facts:
  "query_keys generation (chunk_queries env generation grp start chunks) = map nt_key (concat chunks)"
  "map oq_id (chunk_queries env generation grp start chunks) = [start..<start + length chunks]"
  "\<forall>q \<in> set (chunk_queries env generation grp start chunks). oq_generation q = generation \<and> stage_group (oq_stage q) = Some grp"
  "waiting_for grp (chunk_queries env generation grp start chunks) = length chunks"
proof -
  show all: "\<forall>q \<in> set (chunk_queries env generation grp start chunks).
      oq_generation q = generation \<and> stage_group (oq_stage q) = Some grp"
    by (auto simp: chunk_queries_def)
  have length: "length (chunk_queries env generation grp start chunks) = length chunks"
    by (simp add: chunk_queries_def)
  show "waiting_for grp (chunk_queries env generation grp start chunks) = length chunks"
    using all length by (simp add: waiting_for_def cong: filter_cong)
  show "map oq_id (chunk_queries env generation grp start chunks) = [start..<start + length chunks]"
    by (rule nth_equalityI) (simp_all add: chunk_queries_def)
  have "query_keys generation (map (\<lambda>(n, chunk). \<lparr>oq_id = n, oq_generation = generation, oq_auto = pv_auto env,
      oq_stage = NamespaceChunk grp chunk\<rparr>) (zip ns chunks)) = map nt_key (concat chunks)"
    if "length ns = length chunks" for ns
    using that by (induction ns chunks rule: list_induct2) auto
  then show "query_keys generation (chunk_queries env generation grp start chunks) = map nt_key (concat chunks)"
    by (simp add: chunk_queries_def)
qed

lemma asks_namespaces:
  assumes ok: "asks_ok s"
  shows "asks_ok (queryNamespacesPermissions env s targets force specLists)"
proof (cases "targets = [] \<or> specLists = [] \<or> prepareNamespaceQueryTargets env s targets specLists force = []")
  case False
  define ts where "ts = prepareNamespaceQueryTargets env s targets specLists force"
  have prepared: "ts = prepare_targets env s specLists force [] targets"
    by (simp add: ts_def prepareNamespaceQueryTargets_def)
  note facts = prepared_facts [OF prepared]
  define s1 where "s1 = notify (fold (beginNamespaceQuery env) ts s)"
  define chunks where "chunks = splitNamespaceTargets ts"
  define g where "g = \<lparr>qg_id = pq_next s1, qg_generation = pq_generation s1, qg_waiting = length chunks\<rparr>"
  define s2 where "s2 = s1\<lparr>pq_next := pq_next s1 + 1, pq_groups := pq_groups s1 @ [g]\<rparr>"
  define t where "t = fold (query_chunk env (pq_next s1)) chunks s2"
  have result: "queryNamespacesPermissions env s targets force specLists = t"
    using False by (simp add: queryNamespacesPermissions_def Let_def t_def s2_def s1_def chunks_def g_def ts_def)
  have named: "clusters_named (pq_pending s)" using ok by (simp add: asks_defs clusters_named_def)
  have nonempty: "\<forall>t \<in> set ts. nt_cluster t \<noteq> []" using facts(2) by blast
  note begun = begin_namespaces [OF nonempty named refl, of env]
  have next1: "pq_next s \<le> pq_next s1"
    unfolding s1_def by (rule le_trans [OF begun(4) notify_fields(8)])
  note opened = query_chunks_open [of env "pq_next s1" chunks s2, folded t_def]
  let ?qs = "chunk_queries env (pq_generation s) (pq_next s1) (pq_next s1 + 1) chunks"
  note qs = chunk_queries_facts [where env = env and generation = "pq_generation s" and grp = "pq_next s1" and
      start = "pq_next s1 + 1" and chunks = chunks]
  have concat: "concat chunks = ts" by (simp add: chunks_def splitNamespaceTargets_def split_concat)
  have rebuilt: "pq_map t = rebuilt_map t"
    using opened begun(3) by (auto simp: s2_def s1_def clusters_named_def intro!: rebuilt_cong)
  have ids: "\<forall>q \<in> set ?qs. pq_next s \<le> oq_id q \<and> oq_id q < pq_next t"
  proof
    fix q assume "q \<in> set ?qs"
    then have "oq_id q \<in> set (map oq_id ?qs)" by simp
    then show "pq_next s \<le> oq_id q \<and> oq_id q < pq_next t" using next1 opened unfolding qs(2) by (auto simp: s2_def)
  qed
  have "asks_ok t"
    by (rule asks_more [OF ok, where keys = "map nt_key ts" and qs = ?qs and gs = "[g]"])
      (use facts opened begun qs ids rebuilt next1 concat in
        \<open>auto simp: s2_def s1_def g_def clusters_named_def\<close>)
  with result show ?thesis by simp
qed (use ok in \<open>auto simp: queryNamespacesPermissions_def\<close>)

section \<open>Cluster queries and checks\<close>

lemma asks_cluster:
  assumes ok: "asks_ok s"
  shows "asks_ok (queryClusterPermissions env clusterId s)"
proof (cases "clusterId = [] \<or> cluster_query_key clusterId \<in> set (pq_in_flight s) \<or>
    buildBatch (pq_current s) CLUSTER_PERMISSIONS None clusterId = []")
  case False
  define key where "key = cluster_query_key clusterId"
  define batch where "batch = buildBatch (pq_current s) CLUSTER_PERMISSIONS None clusterId"
  define s1 where "s1 = notify (s\<lparr>pq_pending := AList.update key (map (pending_of clusterId None) batch) (pq_pending s)\<rparr>)"
  define s2 where "s2 = beginQueryDiagnostics env (s1\<lparr>pq_in_flight := set_add key (pq_in_flight s1)\<rparr>) key clusterId None
    Ssar (map toPermissionSpec batch) (length batch)"
  define t where "t = send_query env s2 (map toQueryPayloadItem batch) (ClusterQuery key batch (pv_now env))"
  have result: "queryClusterPermissions env clusterId s = t"
    using False by (simp add: queryClusterPermissions_def Let_def t_def s2_def s1_def batch_def key_def)
  have named: "clusters_named (pq_pending t)"
    using ok False by (auto simp: t_def s2_def s1_def asks_defs pending_of_def clusters_named_def [of "pq_pending s"]
        intro!: clusters_named_update)
  have "pq_next s \<le> pq_next s1" by (simp add: s1_def order_trans [OF _ notify_fields(8)])
  then have next2: "pq_next s \<le> pq_next s2" by (simp add: s2_def order_trans [OF _ begin_diagnostics_fields(8)])
  have rebuilt: "pq_map t = rebuilt_map t"
    using named by (auto simp: t_def s2_def s1_def clusters_named_def intro!: rebuilt_cong)
  have "asks_ok t"
    by (rule asks_more [OF ok, where keys = "[key]" and gs = "[]" and
          qs = "[\<lparr>oq_id = pq_next s2, oq_generation = pq_generation s2, oq_auto = pv_auto env,
            oq_stage = ClusterQuery key batch (pv_now env)\<rparr>]"])
      (use False next2 named rebuilt in
        \<open>auto simp: t_def s2_def s1_def send_query_def update_fst_set clusters_named_def key_def\<close>)
  with result show ?thesis by simp
qed (use ok in \<open>auto simp: queryClusterPermissions_def Let_def\<close>)

lemma check_facts:
  assumes "pendingCheckFor env s check = Some c"
  shows "kc_key c \<notin> set (pq_in_flight s)" "pi_cluster (kc_pending c) \<noteq> []"
  using assms
  by (auto simp: pendingCheckFor_def normalizeCheck_def Let_def askedRecently_def case_prod_beta split: if_splits option.splits)

lemma checks_facts:
  assumes "(k, c) \<in> set (checks_by_key env s checks)"
  shows "kc_key c = k" "k \<notin> set (pq_in_flight s)" "pi_cluster (kc_pending c) \<noteq> []"
proof -
  define good :: "(string, pending_check) js_map \<Rightarrow> bool" where "good m \<longleftrightarrow> (\<forall>(k, c) \<in> set m. kc_key c = k \<and> k \<notin> set (pq_in_flight s) \<and> pi_cluster (kc_pending c) \<noteq> [])" for m
  have update: "good (AList.update (kc_key c) c m)" if "good m" "kc_key c \<notin> set (pq_in_flight s)" "pi_cluster (kc_pending c) \<noteq> []" for m c
    using that by (induction m) (auto simp: good_def split: if_splits)
  have "good []" by (simp add: good_def)
  then have "good (checks_by_key env s checks)"
    unfolding checks_by_key_def foldl_conv_fold
    by (rule fold_preserves [where P = good]) (auto split: option.split intro!: update dest: check_facts)
  with assms show "kc_key c = k" "k \<notin> set (pq_in_flight s)" "pi_cluster (kc_pending c) \<noteq> []"
    by (auto simp: good_def)
qed

lemma checks_distinct: "distinct (map fst (checks_by_key env s checks))"
  unfolding checks_by_key_def foldl_conv_fold
  by (rule fold_preserves [where P = "\<lambda>m. distinct (map fst m)"]) (auto split: option.split simp: distinct_update)

lemma begin_checks:
  assumes "\<forall>c \<in> set cs. pi_cluster (kc_pending c) \<noteq> []" and "clusters_named (pq_pending s)"
    and "s' = fold begin_check cs s"
  shows "set (pq_in_flight s') = kc_key ` set cs \<union> set (pq_in_flight s)"
    and "fst ` set (pq_pending s') = kc_key ` set cs \<union> fst ` set (pq_pending s)"
    and "clusters_named (pq_pending s')" and "pq_next s' = pq_next s"
    and "pq_open s' = pq_open s" "pq_groups s' = pq_groups s" "pq_generation s' = pq_generation s"
proof -
  have "set (pq_in_flight s') = kc_key ` set cs \<union> set (pq_in_flight s) \<and>
    fst ` set (pq_pending s') = kc_key ` set cs \<union> fst ` set (pq_pending s) \<and>
    clusters_named (pq_pending s') \<and> pq_next s' = pq_next s \<and>
    pq_open s' = pq_open s \<and> pq_groups s' = pq_groups s \<and> pq_generation s' = pq_generation s"
    unfolding assms(3) using assms(1,2)
  proof (induction cs arbitrary: s)
    case (Cons c cs)
    have "clusters_named (pq_pending (begin_check c s))"
      using Cons.prems by (auto simp: begin_check_def intro!: clusters_named_update)
    with Cons.IH [OF _ this] Cons.prems show ?case
      by (auto simp: begin_check_def update_fst_set)
  qed simp
  then show "set (pq_in_flight s') = kc_key ` set cs \<union> set (pq_in_flight s)"
    "fst ` set (pq_pending s') = kc_key ` set cs \<union> fst ` set (pq_pending s)"
    "clusters_named (pq_pending s')" "pq_next s' = pq_next s"
    "pq_open s' = pq_open s" "pq_groups s' = pq_groups s" "pq_generation s' = pq_generation s"
    by auto
qed

lemma asks_checks:
  assumes ok: "asks_ok s"
  shows "asks_ok (queryPermissionChecks env s checks)"
proof (cases "checks_by_key env s checks = []")
  case False
  define batch where "batch = map snd (checks_by_key env s checks)"
  define s1 where "s1 = notify (fold begin_check batch s)"
  define t where "t = send_query env s1 (map kc_payload batch) (ChecksQuery (map kc_key batch))"
  have result: "queryPermissionChecks env s checks = t"
    using False by (simp add: queryPermissionChecks_def Let_def t_def s1_def batch_def)
  have keys: "map kc_key batch = map fst (checks_by_key env s checks)"
    using checks_facts(1) [of _ _ env s checks] by (auto simp: batch_def)
  have fresh: "\<forall>k \<in> set (map kc_key batch). k \<notin> set (pq_in_flight s)"
    unfolding keys using checks_facts(2) [of _ _ env s checks] by auto
  have nonempty: "\<forall>c \<in> set batch. pi_cluster (kc_pending c) \<noteq> []"
    using checks_facts(3) [of _ _ env s checks] by (auto simp: batch_def)
  have named: "clusters_named (pq_pending s)" using ok by (simp add: asks_defs clusters_named_def)
  note begun = begin_checks [OF nonempty named refl]
  have next1: "pq_next s \<le> pq_next s1"
    using notify_fields(8) [of "fold begin_check batch s"] unfolding s1_def begun(4) .
  have rebuilt: "pq_map t = rebuilt_map t"
    using begun(3) by (auto simp: t_def s1_def clusters_named_def intro!: rebuilt_cong)
  have "distinct (map kc_key batch)" unfolding keys by (rule checks_distinct)
  then have "asks_ok t"
    by (intro asks_more [OF ok, where keys = "map kc_key batch" and gs = "[]" and
          qs = "[\<lparr>oq_id = pq_next s1, oq_generation = pq_generation s1, oq_auto = pv_auto env,
            oq_stage = ChecksQuery (map kc_key batch)\<rparr>]"])
      (use fresh next1 begun rebuilt in \<open>auto simp: t_def s1_def send_query_def clusters_named_def\<close>)
  with result show ?thesis by simp
qed (use ok in \<open>auto simp: queryPermissionChecks_def\<close>)

section \<open>Settling\<close>

text \<open>An open query is taken off, with its keys when it is current.\<close>

definition gone_keys :: "permission_store \<Rightarrow> open_query \<Rightarrow> string list" where
  "gone_keys s q = (if oq_generation q = pq_generation s then stage_keys (oq_stage q) else [])"

definition less_waiting :: "nat option \<Rightarrow> query_group list \<Rightarrow> query_group list" where
  "less_waiting found gs = map (\<lambda>g. if Some (qg_id g) = found then g\<lparr>qg_waiting := qg_waiting g - 1\<rparr> else g) gs"

lemma less_waiting_None [simp]: "less_waiting None gs = gs"
  by (simp add: less_waiting_def)

lemma less_waiting_kept:
  "map qg_id (less_waiting found gs) = map qg_id gs"
  "g \<in> set (less_waiting found gs) \<Longrightarrow> \<exists>g' \<in> set gs. qg_id g' = qg_id g \<and> qg_generation g' = qg_generation g \<and>
     qg_waiting g = (if Some (qg_id g') = found then qg_waiting g' - 1 else qg_waiting g')"
  "g' \<in> set gs \<Longrightarrow> \<exists>g \<in> set (less_waiting found gs). qg_id g = qg_id g' \<and> qg_generation g = qg_generation g'"
proof -
  show "map qg_id (less_waiting found gs) = map qg_id gs" by (simp add: less_waiting_def)
  show "g \<in> set (less_waiting found gs) \<Longrightarrow> \<exists>g' \<in> set gs. qg_id g' = qg_id g \<and> qg_generation g' = qg_generation g \<and>
     qg_waiting g = (if Some (qg_id g') = found then qg_waiting g' - 1 else qg_waiting g')"
    by (auto simp: less_waiting_def)
  show "g' \<in> set gs \<Longrightarrow> \<exists>g \<in> set (less_waiting found gs). qg_id g = qg_id g' \<and> qg_generation g = qg_generation g'"
    unfolding less_waiting_def by (induction gs) auto
qed

lemma asks_done:
  assumes ok: "asks_ok s" and q: "q \<in> set (pq_open s)"
    and "pq_generation t = pq_generation s" "pq_next s \<le> pq_next t"
    and opened: "pq_open t = filter (\<lambda>q'. oq_id q' \<noteq> oq_id q) (pq_open s)"
    and "set (pq_in_flight t) = set (pq_in_flight s) - set (gone_keys s q)"
    and "fst ` set (pq_pending t) = fst ` set (pq_pending s) - set (gone_keys s q)"
    and named: "clusters_named (pq_pending t)"
    and groups: "pq_groups t = less_waiting (stage_group (oq_stage q)) (pq_groups s)"
  shows "keys_ok t" "query_ids_ok t" "groups_ok t"
proof -
  from ok q obtain xs ys where split: "pq_open s = xs @ q # ys" and rest: "pq_open t = xs @ ys"
    unfolding opened by (rule open_split)
  note wf = ok [unfolded asks_defs]
  have keys: "current_open_keys s = query_keys (pq_generation s) xs @ gone_keys s q @ query_keys (pq_generation s) ys"
    "current_open_keys t = query_keys (pq_generation s) xs @ query_keys (pq_generation s) ys"
    using assms(3) by (simp_all add: current_open_keys_def split rest gone_keys_def)
  have "distinct (current_open_keys s)" "set (current_open_keys s) = set (pq_in_flight s)" "fst ` set (pq_pending s) = set (pq_in_flight s)"
    using wf by (simp_all add: current_open_keys_def)
  with named keys assms(6,7) show "keys_ok t"
    by (auto simp: keys_ok_def clusters_named_def)
  have old: "\<exists>g' \<in> set (pq_groups s). qg_id g' = qg_id g \<and> qg_generation g' = qg_generation g \<and>
      qg_waiting g = (if Some (qg_id g') = stage_group (oq_stage q) then qg_waiting g' - 1 else qg_waiting g')"
    if "g \<in> set (pq_groups t)" for g
    using that unfolding groups by (rule less_waiting_kept(2))
  have "\<forall>q \<in> set (pq_open t). oq_id q < pq_next t \<and> oq_generation q \<le> pq_generation t"
    using wf split rest assms(3,4) by (auto intro: less_le_trans)
  moreover have "\<forall>g \<in> set (pq_groups t). qg_id g < pq_next t \<and> qg_generation g \<le> pq_generation t"
  proof
    fix g assume "g \<in> set (pq_groups t)"
    from old [OF this] obtain g' where "g' \<in> set (pq_groups s)" "qg_id g' = qg_id g" "qg_generation g' = qg_generation g"
      by blast
    then show "qg_id g < pq_next t \<and> qg_generation g \<le> pq_generation t"
      using wf assms(3,4) by (metis less_le_trans)
  qed
  ultimately show "query_ids_ok t"
    using wf split rest groups by (simp add: query_ids_ok_def less_waiting_kept(1))
  show "groups_ok t"
    unfolding groups_ok_def
  proof (intro conjI ballI allI impI)
    fix g assume "g \<in> set (pq_groups t)"
    from old [OF this] obtain g' where g': "g' \<in> set (pq_groups s)" "qg_id g' = qg_id g"
      "qg_waiting g = (if Some (qg_id g') = stage_group (oq_stage q) then qg_waiting g' - 1 else qg_waiting g')" by blast
    then have "qg_waiting g' = waiting_for (qg_id g) (pq_open s)" using wf by metis
    with g'(2,3) show "qg_waiting g = waiting_for (qg_id g) (pq_open t)"
      by (auto simp: split rest)
  next
    fix q' grp assume "q' \<in> set (pq_open t)" "stage_group (oq_stage q') = Some grp"
    then have "\<exists>g \<in> set (pq_groups s). qg_id g = grp \<and> qg_generation g = oq_generation q'"
      using wf split rest by auto
    then obtain g where g: "g \<in> set (pq_groups s)" "qg_id g = grp" "qg_generation g = oq_generation q'" by blast
    then show "\<exists>g \<in> set (pq_groups t). qg_id g = grp \<and> qg_generation g = oq_generation q'"
      using less_waiting_kept(3) [OF g(1), of "stage_group (oq_stage q)"] unfolding groups by simp
  qed
qed

text \<open>An open query is answered and waits for its \<open>finally\<close>.\<close>

lemma asks_waits:
  assumes ok: "asks_ok s" and q: "q \<in> set (pq_open s)"
    and "pq_generation t = pq_generation s" "pq_next s \<le> pq_next t"
    and opened: "pq_open t = filter (\<lambda>q'. oq_id q' \<noteq> oq_id q) (pq_open s) @ [q\<lparr>oq_stage := stage\<rparr>]"
    and stage: "stage_keys stage = stage_keys (oq_stage q)" "stage_group (oq_stage q) = None" "stage_group stage = None"
    and "pq_in_flight t = pq_in_flight s" "pq_pending t = pq_pending s" "pq_groups t = pq_groups s"
  shows "keys_ok t" "query_ids_ok t" "groups_ok t"
proof -
  from ok q obtain xs ys where split: "pq_open s = xs @ q # ys" and rest: "pq_open t = xs @ ys @ [q\<lparr>oq_stage := stage\<rparr>]"
    unfolding opened by (rule open_split) simp
  note wf = ok [unfolded asks_defs]
  show "keys_ok t"
    using wf split rest assms(3,9,10) stage(1) by (auto simp: keys_ok_def current_open_keys_def)
  show "query_ids_ok t"
    using wf split rest assms(3,4,11) by (auto simp: query_ids_ok_def intro: less_le_trans)
  show "groups_ok t"
    using wf split rest assms(11) stage(2,3) by (auto simp: groups_ok_def)
qed

lemma map_stays:
  assumes "asks_ok s" and "pq_map t = pq_map s" "pq_results t = pq_results s" "pq_pending t = pq_pending s"
    and "notice_due s \<Longrightarrow> notice_due t"
  shows "map_ok t"
proof -
  have "rebuilt_map t = rebuilt_map s"
    by (rule rebuilt_cong) (use assms in \<open>auto simp: asks_defs\<close>)
  with assms show ?thesis by (auto simp: asks_ok_def map_ok_def)
qed

end
