(* ===== verification/Permission_Settles.thy ===== *)
theory Permission_Settles
  imports Permission_Asks
begin

text \<open>
  Answers and every other event keep \<open>asks_ok\<close>, so it holds in every state the permission store reaches; and what an
  answer leaves in the store.
\<close>

section \<open>Recording results\<close>

text \<open>\<open>records op\<close>: the operation changes results and diagnostics only.\<close>

definition records :: "(permission_store \<Rightarrow> permission_store) \<Rightarrow> bool" where
  "records op \<longleftrightarrow> (\<forall>s. pq_map (op s) = pq_map s \<and> pq_generation (op s) = pq_generation s \<and> pq_open (op s) = pq_open s \<and>
     pq_groups (op s) = pq_groups s \<and> pq_in_flight (op s) = pq_in_flight s \<and> pq_pending (op s) = pq_pending s \<and>
     pq_current (op s) = pq_current s \<and> pq_next s \<le> pq_next (op s))"

lemma records_id: "records (\<lambda>s. s)"
  by (simp add: records_def)

lemma records_comp: "records f \<Longrightarrow> records g \<Longrightarrow> records (\<lambda>s. f (g s))"
  unfolding records_def by (metis le_trans)

lemma records_fold: "(\<And>x. x \<in> set xs \<Longrightarrow> records (f x)) \<Longrightarrow> records (fold f xs)"
proof (induction xs)
  case (Cons x xs)
  then show ?case using records_comp [of "fold f xs" "f x"] by (simp add: comp_def)
qed (simp add: records_id id_def)

lemma records_result: "records (\<lambda>s. recordPermissionResult s r feature)"
  by (simp add: records_def recordPermissionResult_def)

lemma records_error: "records (recordQueryError reason item)"
  by (simp add: records_def recordQueryError_def)

lemma records_complete: "records (\<lambda>s. completeQueryDiagnostics env s c)"
  by (simp add: records_def)

lemma records_apply: "records (\<lambda>s. applyResults s results items)"
  unfolding applyResults_def by (intro records_fold records_result)

lemma records_target: "records (apply_target_response env response target)"
  unfolding apply_target_response_def completeTransientNamespaceQuery_def completeSuccessfulQuery_def
  by (cases "transient_result response (nt_batch target)")
    (simp_all add: records_complete records_comp [OF records_complete records_apply])

lemma records_fail: "records (fail_target env reason target)"
  unfolding fail_target_def by (intro records_comp [OF records_complete] records_fold records_error)

definition chunk_records :: "permission_env \<Rightarrow> namespace_target list \<Rightarrow> (string + query_response) \<Rightarrow> permission_store \<Rightarrow> permission_store" where
  "chunk_records env chunk outcome s =
     (case outcome of
        Inr response \<Rightarrow> applyNamespaceQueryResponse env s chunk response
      | Inl reason \<Rightarrow> applyNamespaceQueryFailure env s chunk reason)"

lemma records_chunk: "records (chunk_records env chunk outcome)"
  unfolding chunk_records_def applyNamespaceQueryResponse_def applyNamespaceQueryFailure_def
  by (cases outcome) (simp_all add: records_fold records_target records_fail)

lemma records_cluster: "records (\<lambda>s. fst (cluster_answered env s key batch start outcome))"
proof (cases outcome)
  case (Inl reason)
  have "records (fold (recordQueryError reason) batch)" by (intro records_fold records_error)
  with Inl show ?thesis by (simp add: cluster_answered_def records_comp [OF records_complete])
next
  case (Inr response)
  then show ?thesis
    by (cases "find isTransientPermissionResultError (qs_results response)")
      (simp_all add: cluster_answered_def completeSuccessfulQuery_def records_complete
        records_comp [OF records_complete records_apply])
qed

lemma records_checks: "records (\<lambda>s. checks_answered s outcome)"
  unfolding checks_answered_def by (cases outcome) (simp_all add: records_id records_fold records_result)

section \<open>Taking keys off\<close>

lemma finalize_fold:
  "set (pq_in_flight (fold (finalizeNamespaceQuery env tr) chunk s)) = set (pq_in_flight s) - nt_key ` set chunk \<and>
   fst ` set (pq_pending (fold (finalizeNamespaceQuery env tr) chunk s)) = fst ` set (pq_pending s) - nt_key ` set chunk \<and>
   (clusters_named (pq_pending s) \<longrightarrow> clusters_named (pq_pending (fold (finalizeNamespaceQuery env tr) chunk s))) \<and>
   pq_open (fold (finalizeNamespaceQuery env tr) chunk s) = pq_open s \<and>
   pq_groups (fold (finalizeNamespaceQuery env tr) chunk s) = pq_groups s \<and>
   pq_generation (fold (finalizeNamespaceQuery env tr) chunk s) = pq_generation s \<and>
   pq_next (fold (finalizeNamespaceQuery env tr) chunk s) = pq_next s"
proof (induction chunk arbitrary: s)
  case (Cons target chunk)
  then show ?case
    by (auto simp: finalizeNamespaceQuery_def recordNamespaceQueryMetadata_def Let_def delete_fst_set clusters_named_delete)
qed simp

lemma end_checks_fold:
  "set (pq_in_flight (fold (end_check env) keys s)) = set (pq_in_flight s) - set keys \<and>
   fst ` set (pq_pending (fold (end_check env) keys s)) = fst ` set (pq_pending s) - set keys \<and>
   (clusters_named (pq_pending s) \<longrightarrow> clusters_named (pq_pending (fold (end_check env) keys s))) \<and>
   pq_open (fold (end_check env) keys s) = pq_open s \<and> pq_groups (fold (end_check env) keys s) = pq_groups s \<and>
   pq_generation (fold (end_check env) keys s) = pq_generation s \<and> pq_next (fold (end_check env) keys s) = pq_next s"
proof (induction keys arbitrary: s)
  case (Cons key keys)
  then show ?case
    by (auto simp: end_check_def delete_fst_set clusters_named_delete)
qed simp

lemma asks_named: "asks_ok s \<Longrightarrow> clusters_named (pq_pending s)"
  by (simp add: asks_defs clusters_named_def)

lemma find_in: "find P xs = Some x \<Longrightarrow> x \<in> set xs"
  by (auto simp: find_Some_iff)

section \<open>Answers\<close>

text \<open>Taking off a query that owes no notification leaves the notification that is due.\<close>

lemma due_rest:
  assumes ok: "asks_ok s" and "q \<in> set (pq_open s)" "oq_generation q \<noteq> pq_generation s \<or> \<not> answered_stage (oq_stage q)"
    and "notice_due s"
  shows "(\<exists>g \<in> set (pq_groups s). qg_generation g = pq_generation s) \<or>
    (\<exists>q' \<in> set (filter (\<lambda>q'. oq_id q' \<noteq> oq_id q) (pq_open s)).
       oq_generation q' = pq_generation s \<and> answered_stage (oq_stage q'))"
proof -
  have inj: "inj_on oq_id (set (pq_open s))" using ok by (simp add: asks_defs distinct_map)
  have "oq_id q' \<noteq> oq_id q"
    if "q' \<in> set (pq_open s)" "oq_generation q' = pq_generation s" "answered_stage (oq_stage q')" for q'
    using inj_onD [OF inj _ that(1) assms(2)] that(2,3) assms(3) by blast
  with assms(4) show ?thesis by (auto simp: notice_due_def)
qed

lemma asks_chunk:
  assumes ok: "asks_ok s" and q: "q \<in> set (pq_open s)" and stage: "oq_stage q = NamespaceChunk grp chunk"
  shows "asks_ok (chunk_waits grp (chunk_settles env (s\<lparr>pq_open := filter (\<lambda>q'. oq_id q' \<noteq> oq_id q) (pq_open s)\<rparr>)
    (oq_generation q) chunk outcome))"
proof -
  let ?rest = "filter (\<lambda>q'. oq_id q' \<noteq> oq_id q) (pq_open s)"
  let ?s = "s\<lparr>pq_open := ?rest\<rparr>"
  have waits: "pq_groups (chunk_waits grp t) = less_waiting (Some grp) (pq_groups t)" for t
    by (auto simp: chunk_waits_def less_waiting_def)
  have waits_same: "pq_open (chunk_waits grp t) = pq_open t" "pq_generation (chunk_waits grp t) = pq_generation t"
    "pq_in_flight (chunk_waits grp t) = pq_in_flight t" "pq_pending (chunk_waits grp t) = pq_pending t"
    "pq_next (chunk_waits grp t) = pq_next t" "pq_map (chunk_waits grp t) = pq_map t"
    "pq_results (chunk_waits grp t) = pq_results t" for t
    by (simp_all add: chunk_waits_def)
  show ?thesis
  proof (cases "oq_generation q = pq_generation s")
    case True
    define t where "t = fold (finalizeNamespaceQuery env (chunk_transient outcome)) chunk (chunk_records env chunk outcome ?s)"
    have settled: "chunk_settles env ?s (oq_generation q) chunk outcome = t"
      using True by (simp add: chunk_settles_def t_def chunk_records_def)
    note rec = records_chunk [of env chunk outcome, unfolded records_def, rule_format, of ?s]
    note fin = finalize_fold [of env "chunk_transient outcome" chunk "chunk_records env chunk outcome ?s", folded t_def]
    have named: "clusters_named (pq_pending s)" by (rule asks_named [OF ok])
    have parts: "keys_ok (chunk_waits grp t)" "query_ids_ok (chunk_waits grp t)" "groups_ok (chunk_waits grp t)"
      by (rule asks_done [OF ok q]; use fin rec named True stage in \<open>simp add: waits waits_same gone_keys_def\<close>)+
    have "\<exists>g \<in> set (pq_groups s). qg_id g = grp \<and> qg_generation g = oq_generation q"
      using ok q stage by (auto simp: asks_ok_def groups_ok_def)
    then obtain g where "g \<in> set (pq_groups s)" "qg_generation g = pq_generation s" using True by auto
    then have "notice_due (chunk_waits grp t)"
      using less_waiting_kept(3) [of g "pq_groups s" "Some grp"] fin rec by (auto simp: notice_due_def waits waits_same)
    with parts show ?thesis by (simp add: settled asks_ok_def map_ok_def)
  next
    case False
    have settled: "chunk_settles env ?s (oq_generation q) chunk outcome = ?s"
      using False by (simp add: chunk_settles_def)
    have parts: "keys_ok (chunk_waits grp ?s)" "query_ids_ok (chunk_waits grp ?s)" "groups_ok (chunk_waits grp ?s)"
      by (rule asks_done [OF ok q]; use asks_named [OF ok] False stage in \<open>simp add: waits waits_same gone_keys_def\<close>)+
    have due: "notice_due (chunk_waits grp ?s)" if "notice_due s"
      using due_rest [OF ok q _ that] False less_waiting_kept(3) [of _ "pq_groups s" "Some grp"]
      by (auto simp: notice_due_def waits waits_same stage) metis
    have "map_ok (chunk_waits grp ?s)"
      by (rule map_stays [OF ok]) (simp_all add: waits_same due)
    with parts show ?thesis by (simp add: settled asks_ok_def)
  qed
qed

text \<open>A cluster query or a batch of checks is answered.\<close>

lemma asks_answered_waits:
  assumes ok: "asks_ok s" and q: "q \<in> set (pq_open s)" and rec: "records op"
    and stage: "stage_keys stage = stage_keys (oq_stage q)" "stage_group (oq_stage q) = None"
      "stage_group stage = None" "answered_stage stage" "\<not> answered_stage (oq_stage q)"
    and stale: "oq_generation q \<noteq> pq_generation s \<Longrightarrow> op = (\<lambda>s. s)"
    and "t = op (s\<lparr>pq_open := filter (\<lambda>q'. oq_id q' \<noteq> oq_id q) (pq_open s)\<rparr>)"
    and "u = t\<lparr>pq_open := pq_open t @ [q\<lparr>oq_stage := stage\<rparr>]\<rparr>"
  shows "asks_ok u"
proof -
  note same = rec [unfolded records_def, rule_format, of "s\<lparr>pq_open := filter (\<lambda>q'. oq_id q' \<noteq> oq_id q) (pq_open s)\<rparr>"]
  have parts: "keys_ok u" "query_ids_ok u" "groups_ok u"
    by (rule asks_waits [OF ok q]; use assms same in simp)+
  have "map_ok u"
  proof (cases "oq_generation q = pq_generation s")
    case True
    then have "notice_due u" using assms same by (auto simp: notice_due_def)
    then show ?thesis by (simp add: map_ok_def)
  next
    case False
    have "notice_due u" if "notice_due s"
      using due_rest [OF ok q _ that] False stale [OF False] assms(10,11) by (auto simp: notice_due_def)
    then show ?thesis
      by (rule map_stays [OF ok, rotated 3]) (use stale [OF False] assms(10,11) in simp_all)
  qed
  with parts show ?thesis by (simp add: asks_ok_def)
qed

lemma asks_answered:
  assumes ok: "asks_ok s" and q: "q \<in> set (pq_open s)"
  shows "asks_ok (query_answered env s q answer)"
proof (cases "oq_stage q")
  case (NamespaceChunk grp chunk)
  with asks_chunk [OF ok q] show ?thesis by (simp add: query_answered_def Let_def)
next
  case (ClusterQuery key batch start)
  let ?outcome = "queryPermissions (oq_auto q) answer"
  let ?s = "s\<lparr>pq_open := filter (\<lambda>q'. oq_id q' \<noteq> oq_id q) (pq_open s)\<rparr>"
  show ?thesis
  proof (cases "oq_generation q = pq_generation s")
    case True
    with ClusterQuery show ?thesis
      by (intro asks_answered_waits [OF ok q records_cluster, where
            stage = "ClusterAnswered key (snd (cluster_answered env ?s key batch start ?outcome))"])
        (simp_all add: query_answered_def Let_def case_prod_beta)
  next
    case False
    with ClusterQuery show ?thesis
      by (intro asks_answered_waits [OF ok q records_id, where stage = "ClusterAnswered key False" and t = ?s])
        (simp_all add: query_answered_def Let_def)
  qed
next
  case (ChecksQuery keys)
  let ?s = "s\<lparr>pq_open := filter (\<lambda>q'. oq_id q' \<noteq> oq_id q) (pq_open s)\<rparr>"
  show ?thesis
  proof (cases "oq_generation q = pq_generation s")
    case True
    with ChecksQuery show ?thesis
      by (intro asks_answered_waits [OF ok q records_checks, where stage = "ChecksAnswered keys"])
        (simp_all add: query_answered_def Let_def)
  next
    case False
    with ChecksQuery show ?thesis
      by (intro asks_answered_waits [OF ok q records_id, where stage = "ChecksAnswered keys" and t = ?s])
        (simp_all add: query_answered_def Let_def)
  qed
qed (use ok in \<open>simp_all add: query_answered_def Let_def\<close>)

lemma asks_ended:
  assumes ok: "asks_ok s" and q: "q \<in> set (pq_open s)" and stage: "stage_group (oq_stage q) = None"
    and "oq_generation q \<noteq> pq_generation s"
  shows "asks_ok (s\<lparr>pq_open := filter (\<lambda>q'. oq_id q' \<noteq> oq_id q) (pq_open s)\<rparr>)" (is "asks_ok ?t")
proof -
  have parts: "keys_ok ?t" "query_ids_ok ?t" "groups_ok ?t"
    by (rule asks_done [OF ok q]; use asks_named [OF ok] assms in \<open>simp add: gone_keys_def\<close>)+
  have "notice_due ?t" if "notice_due s"
    using due_rest [OF ok q _ that] assms(4) by (auto simp: notice_due_def)
  then have "map_ok ?t" by (rule map_stays [OF ok, rotated 3]) simp_all
  with parts show ?thesis by (simp add: asks_ok_def)
qed

text \<open>The notification that ends an answered query.\<close>

lemma asks_ended_notify:
  assumes ok: "asks_ok s" and q: "q \<in> set (pq_open s)" and "stage_group (oq_stage q) = None"
    and "oq_generation q = pq_generation s"
    and "pq_generation t = pq_generation s" "pq_next s \<le> pq_next t" "pq_groups t = pq_groups s"
    and "pq_open t = filter (\<lambda>q'. oq_id q' \<noteq> oq_id q) (pq_open s)"
    and "set (pq_in_flight t) = set (pq_in_flight s) - set (stage_keys (oq_stage q))"
    and "fst ` set (pq_pending t) = fst ` set (pq_pending s) - set (stage_keys (oq_stage q))"
    and named: "clusters_named (pq_pending t)"
  shows "asks_ok (notify t)"
proof -
  have parts: "keys_ok (notify t)" "query_ids_ok (notify t)" "groups_ok (notify t)"
    by (rule asks_done [OF ok q]; use assms in \<open>simp add: gone_keys_def order_trans [OF _ notify_fields(8)]\<close>)+
  have "rebuilt_map (notify t) = rebuilt_map t"
    by (rule rebuilt_cong) (use named in \<open>simp_all add: clusters_named_def\<close>)
  with parts show ?thesis by (simp add: asks_ok_def map_ok_def)
qed

lemma asks_finally:
  assumes ok: "asks_ok s" and q: "q \<in> set (pq_open s)"
  shows "asks_ok (query_finally env s q)"
proof (cases "oq_stage q")
  case (ClusterAnswered key transient)
  show ?thesis
  proof (cases "oq_generation q = pq_generation s")
    case True
    with ClusterAnswered asks_named [OF ok] show ?thesis
      by (simp add: query_finally_def Let_def cluster_finally_def)
        (intro conjI impI asks_ended_notify [OF ok q]; simp add: delete_fst_set clusters_named_delete)
  next
    case False
    with ClusterAnswered asks_ended [OF ok q] show ?thesis by (simp add: query_finally_def Let_def)
  qed
next
  case (ChecksAnswered keys)
  show ?thesis
  proof (cases "oq_generation q = pq_generation s")
    case True
    with ChecksAnswered asks_named [OF ok] show ?thesis
      by (simp add: query_finally_def Let_def checks_finally_def)
        (intro asks_ended_notify [OF ok q]; simp add: end_checks_fold)
  next
    case False
    with ChecksAnswered asks_ended [OF ok q] show ?thesis by (simp add: query_finally_def Let_def)
  qed
qed (use ok in \<open>simp_all add: query_finally_def Let_def\<close>)

lemma asks_group:
  assumes ok: "asks_ok s" and g: "g \<in> set (pq_groups s)" and zero: "qg_waiting g = 0"
  shows "asks_ok (group_settles s g)"
proof -
  note wf = ok [unfolded asks_defs]
  let ?t = "s\<lparr>pq_groups := filter (\<lambda>g'. qg_id g' \<noteq> qg_id g) (pq_groups s)\<rparr>"
  have "waiting_for (qg_id g) (pq_open s) = 0" using wf g zero by metis
  then have none: "stage_group (oq_stage q) \<noteq> Some (qg_id g)" if "q \<in> set (pq_open s)" for q
    using that by (auto simp: waiting_for_def filter_empty_conv)
  have keys: "keys_ok ?t" using wf by (simp add: keys_ok_def current_open_keys_def)
  have ids: "query_ids_ok ?t" using wf by (auto simp: query_ids_ok_def distinct_map_filter)
  have groups: "groups_ok ?t"
    unfolding groups_ok_def
  proof (intro conjI ballI allI impI)
    fix q grp assume q: "q \<in> set (pq_open ?t)" "stage_group (oq_stage q) = Some grp"
    then have "\<exists>g' \<in> set (pq_groups s). qg_id g' = grp \<and> qg_generation g' = oq_generation q"
      using ok by (simp add: asks_ok_def groups_ok_def)
    then obtain g' where "g' \<in> set (pq_groups s)" "qg_id g' = grp" "qg_generation g' = oq_generation q" by blast
    with q none [of q] show "\<exists>g' \<in> set (pq_groups ?t). qg_id g' = grp \<and> qg_generation g' = oq_generation q" by auto
  qed (use wf in auto)
  show ?thesis
  proof (cases "qg_generation g = pq_generation s")
    case True
    have "asks_ok (?t\<lparr>pq_map := rebuilt_map ?t\<rparr>)"
      using keys ids groups rebuilt_cong [of "?t\<lparr>pq_map := rebuilt_map ?t\<rparr>" ?t] wf
      by (simp add: asks_ok_def keys_ok_def query_ids_ok_def groups_ok_def map_ok_def current_open_keys_def)
    from asks_notify [OF this] show ?thesis
      using True by (simp add: group_settles_def notify_def rebuildPermissionMap_def rebuilt_map_def pending_key_def)
  next
    case False
    have inj: "inj_on qg_id (set (pq_groups s))" using wf by (simp add: distinct_map)
    have "notice_due ?t" if "notice_due s"
    proof -
      have "qg_id g' \<noteq> qg_id g" if "g' \<in> set (pq_groups s)" "qg_generation g' = pq_generation s" for g'
        using that False inj_onD [OF inj _ that(1) g] by blast
      with that show ?thesis by (auto simp: notice_due_def)
    qed
    then have "map_ok ?t" by (rule map_stays [OF ok, rotated 3]) simp_all
    with keys ids groups False show ?thesis by (simp add: group_settles_def asks_ok_def)
  qed
qed

section \<open>Every step\<close>

lemma asks_reset:
  assumes ok: "asks_ok s"
  shows "asks_ok (resetPermissionStore s)"
proof -
  note wf = ok [unfolded asks_defs]
  have "filter (\<lambda>q. oq_generation q = Suc (pq_generation s)) (pq_open s) = []"
    using wf by (auto simp: filter_empty_conv)
  then have "current_open_keys (resetPermissionStore s) = []"
    by (simp add: current_open_keys_def query_keys_def reset_fields)
  then have "keys_ok (resetPermissionStore s)" by (simp add: keys_ok_def reset_fields)
  moreover have "query_ids_ok (resetPermissionStore s)"
    using wf reset_fields(8) [of s] by (auto simp: query_ids_ok_def reset_fields intro: less_le_trans le_SucI)
  moreover have "groups_ok (resetPermissionStore s)" using wf by (simp add: groups_ok_def reset_fields)
  moreover have "map_ok (resetPermissionStore s)" by (simp add: map_ok_def reset_fields)
  ultimately show ?thesis by (simp add: asks_ok_def)
qed

lemma asks_current: "asks_ok s \<Longrightarrow> asks_ok (s\<lparr>pq_current := c\<rparr>)"
  by (erule asks_cong) simp_all

lemma asks_refresh: "asks_ok s \<Longrightarrow> asks_ok (refresh_namespace env target s)"
  unfolding refresh_namespace_def by (rule asks_namespaces)

lemma asks_refresh_fold: "asks_ok s \<Longrightarrow> asks_ok (fold (refresh_namespace env) ms s)"
  by (erule fold_preserves) (rule asks_refresh)

lemma asks_cluster_fold: "asks_ok s \<Longrightarrow> asks_ok (fold (queryClusterPermissions env) ids s)"
  by (erule fold_preserves) (rule asks_cluster)

lemma asks_stagger: "asks_ok s \<Longrightarrow> asks_ok (fold stagger_refresh targets s)"
  by (erule fold_preserves) (erule asks_cong, simp_all add: stagger_refresh_def arm_timer_def)

lemma asks_active: "asks_ok s \<Longrightarrow> asks_ok (setActivePermissionCluster env s clusterId operational)"
proof -
  assume ok: "asks_ok s"
  have "asks_ok (initializePermissionStore env c (s\<lparr>pq_current := d\<rparr>))" for c d
  proof (rule asks_cong)
    show "asks_ok (queryClusterPermissions env c (s\<lparr>pq_current := c\<rparr>))" by (intro asks_cluster asks_current ok)
  qed (simp_all add: initializePermissionStore_def)
  with ok show ?thesis
    by (simp add: setActivePermissionCluster_def Let_def asks_reset asks_current)
qed

lemma asks_timer:
  assumes ok: "asks_ok s"
  shows "asks_ok (timer_fires_in env s t kind)"
proof (cases kind)
  case NotifyTimer
  then show ?thesis
    by (auto simp: timer_fires_in_def Let_def flushPermissionListeners_def intro!: asks_cong [OF ok])
next
  case DiagnosticsTimer
  then show ?thesis
    by (auto simp: timer_fires_in_def Let_def flushDiagnosticsListeners_def intro!: asks_cong [OF ok])
next
  case (NamespaceTimer target)
  then show ?thesis
    by (auto simp: timer_fires_in_def Let_def intro!: asks_refresh asks_cong [OF ok])
qed

lemma asks_step:
  assumes ok: "asks_ok s"
  shows "asks_ok (permission_step s e)"
proof -
  obtain env event where e: "e = (env, event)" by fastforce
  show ?thesis
  proof (cases event)
    case (LifecycleChanged clusterId state)
    then show ?thesis using ok e by (auto simp: handle_lifecycle_def Let_def intro!: asks_refresh_fold asks_cluster)
  next
    case IntervalFires
    then show ?thesis
      using ok e by (auto simp: refreshExpiredQueries_def Let_def scheduleNamespaceRefreshes_def split: list.split
          intro!: asks_stagger asks_refresh asks_cluster_fold)
  next
    case (QueryAnswered n answer)
    then show ?thesis using ok e by (auto split: option.split intro!: asks_answered dest: find_in)
  next
    case (QueryFinally n)
    then show ?thesis using ok e by (auto split: option.split intro!: asks_finally dest: find_in)
  next
    case (GroupSettled n)
    then show ?thesis using ok e by (auto simp: find_Some_iff split: option.split intro!: asks_group)
  next
    case (TimerFires t)
    then show ?thesis using ok e by (auto split: option.split intro!: asks_timer)
  next
    case DiagnosticsRead
    then show ?thesis
      using ok e by (auto simp: getPermissionQueryDiagnosticsSnapshot_def Let_def intro!: asks_cong [OF ok])
  qed (use ok e in \<open>auto simp: query_current_cluster_def
      intro!: asks_active asks_namespaces asks_cluster asks_checks asks_reset asks_cong [OF ok]\<close>)
qed

lemma asks_new: "asks_ok new_permission_store"
  by (simp add: asks_defs new_permission_store_def rebuilt_map_def)

lemma asks_run: "asks_ok (permission_run events)"
proof -
  have "asks_ok s \<Longrightarrow> asks_ok (foldl permission_step s events)" for s
    by (induction events arbitrary: s) (auto intro: asks_step)
  then show ?thesis by (simp add: permission_run_def asks_new)
qed

end
