(* ===== verification/Permission_Contracts.thy ===== *)
theory Permission_Contracts
  imports Permission_Settles
begin

text \<open>The properties of the permission store.\<close>

section \<open>Grants\<close>

text \<open>The checks allowed by answers to queries sent since the store was last reset.\<close>

definition note_grants ::
    "permission_store \<Rightarrow> permission_env \<times> permission_event \<Rightarrow> string list \<Rightarrow> string list" where
  "note_grants s e granted = (if resets s (snd e) then [] else granted @ event_grants s (snd e))"

definition granted_since_reset :: "(permission_env \<times> permission_event) list \<Rightarrow> string list" where
  "granted_since_reset events = snd (run_ledger permission_step note_grants new_permission_store [] events)"

definition shown_grants :: "permission_store \<Rightarrow> string set" where
  "shown_grants s = {key. \<exists>p. map_of (pq_map s) key = Some p \<and> pt_allowed p}"

lemma reset_grants: "grants_within G (resetPermissionStore s)"
  by (simp add: grants_within_def reset_fields recorded_within_def shown_within_def)

lemma step_noted:
  assumes "grants_within (set granted) s"
  shows "grants_within (set (note_grants s e granted)) (permission_step s e)"
proof -
  obtain env event where e: "e = (env, event)" by fastforce
  show ?thesis
  proof (cases "resets s event")
    case True
    then show ?thesis
      by (cases event) (auto simp: e resets_def note_grants_def setActivePermissionCluster_def Let_def reset_grants)
  next
    case False
    have "grants_within (set (note_grants s e granted)) s"
      using assms False by (auto simp: e note_grants_def intro: mono_within)
    then show ?thesis
      using step_within False by (simp add: e note_grants_def)
  qed
qed

interpretation grants: covered_ledger permission_step note_grants "\<lambda>_. True" "\<lambda>s granted. grants_within (set granted) s"
  by unfold_locales (simp_all add: step_noted)

lemma new_grants: "grants_within (set []) new_permission_store"
  by (simp add: grants_within_def new_permission_store_def recorded_within_def shown_within_def)

text \<open>C6: A permission is never invented. Whatever is asked, answered late, cut off or reset, every check that the store
  shows as allowed was allowed by an answer to a query it sent since its last reset; in particular an answer
  that arrives after the kubeconfig changed grants nothing.\<close>

theorem shown_grants_were_answered:
  "shown_grants (permission_run events) \<subseteq> set (granted_since_reset events)"
  using grants.covers_run [OF TrueI new_grants, of events]
  by (auto simp: shown_grants_def granted_since_reset_def permission_run_def grants_within_def shown_within_def)

section \<open>Queries\<close>

text \<open>C7: No check is asked twice at a time, and no loading state is left behind, counted from the last reset. The
  keys of the open queries of the current generation, those sent since the store was last reset, are distinct, and they are
  the keys the store holds in flight and the keys it shows as pending. A reset does not end the queries sent before
  it: they stay open until they are answered, their answers are ignored, and their keys can be asked again.\<close>

theorem asked_keys_are_open:
  "distinct (current_open_keys (permission_run events)) \<and>
   set (pq_in_flight (permission_run events)) = set (current_open_keys (permission_run events)) \<and>
   fst ` set (pq_pending (permission_run events)) = set (current_open_keys (permission_run events))"
  using asks_run [of events] by (simp add: asks_defs)

section \<open>Once every query is answered\<close>

text \<open>The backend answers the open queries, in order; then their \<open>finally\<close> handlers run and the calls that waited for
chunks go on.\<close>

definition answer_events ::
    "permission_env \<Rightarrow> (nat \<Rightarrow> backend_answer) \<Rightarrow> permission_store \<Rightarrow> (permission_env \<times> permission_event) list" where
  "answer_events env answers s =
     map (\<lambda>q. (env, QueryAnswered (oq_id q) (answers (oq_id q)))) (pq_open s) @
     map (\<lambda>q. (env, QueryFinally (oq_id q))) (pq_open s) @
     map (\<lambda>g. (env, GroupSettled (qg_id g))) (pq_groups s)"

definition unanswered :: "permission_store \<Rightarrow> nat set" where
  "unanswered s = oq_id ` {q \<in> set (pq_open s). \<not> answered_stage (oq_stage q)}"

lemma chunk_settles_open:
  "pq_open (chunk_settles env s generation chunk outcome) = pq_open s \<and>
   pq_groups (chunk_settles env s generation chunk outcome) = pq_groups s"
  using records_chunk [of env chunk outcome, unfolded records_def, rule_format, of s]
    finalize_fold [of env "chunk_transient outcome" chunk "chunk_records env chunk outcome s"]
  by (simp add: chunk_settles_def flip: chunk_records_def)

lemma answered_open:
  "set (pq_open (query_answered env s q answer)) \<subseteq>
     {q' \<in> set (pq_open s). oq_id q' \<noteq> oq_id q} \<union> {q'. oq_id q' = oq_id q \<and> answered_stage (oq_stage q')} \<or>
   query_answered env s q answer = s \<and> answered_stage (oq_stage q)"
proof -
  have opened: "pq_open (fst (cluster_answered env t key batch start outcome)) = pq_open t"
    "pq_open (checks_answered t outcome) = pq_open t" for t key batch start outcome
    using records_cluster [of env key batch start outcome] records_checks [of outcome] by (simp_all add: records_def)
  show ?thesis
    by (cases "oq_stage q") (auto simp: query_answered_def Let_def case_prod_beta opened chunk_settles_open chunk_waits_def)
qed

lemma answered_groups: "map qg_id (pq_groups (query_answered env s q answer)) = map qg_id (pq_groups s)"
proof -
  have same: "pq_groups (fst (cluster_answered env t key batch start outcome)) = pq_groups t"
    "pq_groups (checks_answered t outcome) = pq_groups t" for t key batch start outcome
    using records_cluster [of env key batch start outcome] records_checks [of outcome] by (simp_all add: records_def)
  show ?thesis
    by (cases "oq_stage q")
      (auto simp: query_answered_def Let_def case_prod_beta same chunk_settles_open chunk_waits_def)
qed

lemma step_answered:
  assumes "asks_ok s" and "t = permission_step s (env, QueryAnswered n answer)"
  shows "unanswered t \<subseteq> unanswered s - {n}" "oq_id ` set (pq_open t) \<subseteq> oq_id ` set (pq_open s)"
    "qg_id ` set (pq_groups t) \<subseteq> qg_id ` set (pq_groups s)"
proof -
  have "unanswered t \<subseteq> unanswered s - {n} \<and> oq_id ` set (pq_open t) \<subseteq> oq_id ` set (pq_open s) \<and>
    qg_id ` set (pq_groups t) \<subseteq> qg_id ` set (pq_groups s)"
  proof (cases "find (\<lambda>q. oq_id q = n) (pq_open s)")
    case None
    then have "t = s" using assms(2) by simp
    with None show ?thesis by (auto simp: find_None_iff unanswered_def)
  next
    case (Some q)
    then have q: "q \<in> set (pq_open s)" "oq_id q = n" by (auto simp: find_Some_iff)
    have inj: "inj_on oq_id (set (pq_open s))" using assms(1) by (simp add: asks_defs distinct_map)
    have groups: "qg_id ` set (pq_groups t) = qg_id ` set (pq_groups s)"
      using answered_groups [of env s q answer] assms(2) Some by (simp flip: set_map)
    show ?thesis
    proof (cases "t = s \<and> answered_stage (oq_stage q)")
      case True
      then show ?thesis using q inj by (auto simp: unanswered_def dest: inj_onD)
    next
      case False
      then have "set (pq_open t) \<subseteq> {q' \<in> set (pq_open s). oq_id q' \<noteq> n} \<union> {q'. oq_id q' = n \<and> answered_stage (oq_stage q')}"
        using answered_open [of env s q answer] assms(2) Some q by auto
      then show ?thesis using q groups by (fastforce simp: unanswered_def)
    qed
  qed
  then show "unanswered t \<subseteq> unanswered s - {n}" "oq_id ` set (pq_open t) \<subseteq> oq_id ` set (pq_open s)"
    "qg_id ` set (pq_groups t) \<subseteq> qg_id ` set (pq_groups s)" by auto
qed

lemma step_finally:
  assumes "unanswered s = {}" and "t = permission_step s (env, QueryFinally n)"
  shows "pq_open t = filter (\<lambda>q. oq_id q \<noteq> n) (pq_open s)" "pq_groups t = pq_groups s"
proof -
  have "pq_open t = filter (\<lambda>q. oq_id q \<noteq> n) (pq_open s) \<and> pq_groups t = pq_groups s"
  proof (cases "find (\<lambda>q. oq_id q = n) (pq_open s)")
    case None
    then have "t = s" using assms(2) by simp
    with None show ?thesis by (auto simp: find_None_iff filter_id_conv)
  next
    case (Some q)
    then have q: "q \<in> set (pq_open s)" "oq_id q = n" by (auto simp: find_Some_iff)
    with assms(1) have "answered_stage (oq_stage q)" by (auto simp: unanswered_def)
    with Some q assms(2) show ?thesis
      by (cases "oq_stage q")
        (auto simp: query_finally_def Let_def cluster_finally_def checks_finally_def end_checks_fold)
  qed
  then show "pq_open t = filter (\<lambda>q. oq_id q \<noteq> n) (pq_open s)" "pq_groups t = pq_groups s" by auto
qed

lemma step_group:
  assumes "asks_ok s" and "pq_open s = []" and "t = permission_step s (env, GroupSettled n)"
  shows "pq_open t = []" "pq_groups t = filter (\<lambda>g. qg_id g \<noteq> n) (pq_groups s)"
proof -
  have zero: "\<forall>g \<in> set (pq_groups s). qg_waiting g = 0" using assms(1,2) by (simp add: asks_defs)
  have "pq_open t = [] \<and> pq_groups t = filter (\<lambda>g. qg_id g \<noteq> n) (pq_groups s)"
  proof (cases "find (\<lambda>g. qg_id g = n \<and> qg_waiting g = 0) (pq_groups s)")
    case None
    then have "filter (\<lambda>g. qg_id g \<noteq> n) (pq_groups s) = pq_groups s"
      using zero by (auto simp: find_None_iff filter_id_conv)
    with None assms(2,3) show ?thesis by simp
  next
    case (Some g)
    then have "qg_id g = n" by (auto simp: find_Some_iff)
    with Some assms(2,3) show ?thesis by (simp add: group_settles_def Let_def)
  qed
  then show "pq_open t = []" "pq_groups t = filter (\<lambda>g. qg_id g \<noteq> n) (pq_groups s)" by auto
qed

lemma answers_phase:
  assumes "asks_ok s" and "t = foldl permission_step s (map (\<lambda>n. (env, QueryAnswered n (answers n))) ns)"
  shows "asks_ok t" "unanswered t \<subseteq> unanswered s - set ns" "oq_id ` set (pq_open t) \<subseteq> oq_id ` set (pq_open s)"
    "qg_id ` set (pq_groups t) \<subseteq> qg_id ` set (pq_groups s)"
proof -
  have "asks_ok t \<and> unanswered t \<subseteq> unanswered s - set ns \<and> oq_id ` set (pq_open t) \<subseteq> oq_id ` set (pq_open s) \<and>
    qg_id ` set (pq_groups t) \<subseteq> qg_id ` set (pq_groups s)"
    unfolding assms(2) using assms(1)
  proof (induction ns arbitrary: s)
    case (Cons n ns)
    let ?s = "permission_step s (env, QueryAnswered n (answers n))"
    have "asks_ok ?s" by (rule asks_step [OF Cons.prems])
    note rest = Cons.IH [OF this]
    note step = step_answered [OF Cons.prems refl, of env n "answers n"]
    have "unanswered ?s - set ns \<subseteq> unanswered s - set (n # ns)" using step(1) by auto
    with rest step(2,3) show ?case
      unfolding list.map foldl.simps by (meson order_trans)
  qed simp
  then show "asks_ok t" "unanswered t \<subseteq> unanswered s - set ns" "oq_id ` set (pq_open t) \<subseteq> oq_id ` set (pq_open s)"
    "qg_id ` set (pq_groups t) \<subseteq> qg_id ` set (pq_groups s)" by auto
qed

lemma finally_phase:
  assumes "asks_ok s" and "unanswered s = {}"
    and "t = foldl permission_step s (map (\<lambda>n. (env, QueryFinally n)) ns)"
  shows "asks_ok t" "pq_open t = filter (\<lambda>q. oq_id q \<notin> set ns) (pq_open s)" "pq_groups t = pq_groups s"
proof -
  have "asks_ok t \<and> pq_open t = filter (\<lambda>q. oq_id q \<notin> set ns) (pq_open s) \<and> pq_groups t = pq_groups s"
    unfolding assms(3) using assms(1,2)
  proof (induction ns arbitrary: s)
    case (Cons n ns)
    let ?s = "permission_step s (env, QueryFinally n)"
    note step = step_finally [OF Cons.prems(2) refl, of env n]
    have ok: "asks_ok ?s" by (rule asks_step [OF Cons.prems(1)])
    have "unanswered ?s = {}" using Cons.prems(2) step by (auto simp: unanswered_def simp del: permission_step.simps)
    from Cons.IH [OF ok this] step show ?case
      by (auto simp del: permission_step.simps intro: filter_cong)
  qed simp
  then show "asks_ok t" "pq_open t = filter (\<lambda>q. oq_id q \<notin> set ns) (pq_open s)" "pq_groups t = pq_groups s" by auto
qed

lemma group_phase:
  assumes "asks_ok s" and "pq_open s = []" and "t = foldl permission_step s (map (\<lambda>n. (env, GroupSettled n)) ns)"
  shows "asks_ok t" "pq_open t = []" "pq_groups t = filter (\<lambda>g. qg_id g \<notin> set ns) (pq_groups s)"
proof -
  have "asks_ok t \<and> pq_open t = [] \<and> pq_groups t = filter (\<lambda>g. qg_id g \<notin> set ns) (pq_groups s)"
    unfolding assms(3) using assms(1,2)
  proof (induction ns arbitrary: s)
    case (Cons n ns)
    let ?s = "permission_step s (env, GroupSettled n)"
    note step = step_group [OF Cons.prems refl, of env n]
    have ok: "asks_ok ?s" by (rule asks_step [OF Cons.prems(1)])
    from Cons.IH [OF ok step(1)] step(2) show ?case
      by (auto simp del: permission_step.simps intro: filter_cong)
  qed simp
  then show "asks_ok t" "pq_open t = []" "pq_groups t = filter (\<lambda>g. qg_id g \<notin> set ns) (pq_groups s)" by auto
qed

definition result_map :: "permission_store \<Rightarrow> (string, permission_status) js_map" where
  "result_map s = map (\<lambda>(key, entry). (key, makePermissionStatus key entry)) (pq_results s)"

lemma quiet_store:
  assumes "asks_ok s" and "pq_open s = []" and "pq_groups s = []"
  shows "pq_in_flight s = []" "pq_pending s = []" "pq_map s = result_map s"
proof -
  show "pq_in_flight s = []" using assms by (simp add: asks_defs)
  show pending: "pq_pending s = []" using assms by (auto simp: asks_defs)
  have "pq_map s = rebuilt_map s" using assms by (simp add: asks_ok_def map_ok_def notice_due_def)
  with pending show "pq_map s = result_map s" by (simp add: rebuilt_map_def result_map_def)
qed

text \<open>C8: Nothing stays loading. From every state the store can reach, and whatever the backend then answers to the open
  queries (responses, transient errors, nothing, rejections), once their handlers ran no query, waiting call or
  key in flight is left, and the shown map is exactly the recorded results, without a pending entry.\<close>

theorem answered_store_settles:
  fixes events env answers
  defines "t \<equiv> permission_run (events @ answer_events env answers (permission_run events))"
  shows "pq_open t = [] \<and> pq_groups t = [] \<and> pq_in_flight t = [] \<and> pq_pending t = [] \<and> pq_map t = result_map t"
proof -
  let ?s = "permission_run events"
  define a where "a = foldl permission_step ?s (map (\<lambda>n. (env, QueryAnswered n (answers n))) (map oq_id (pq_open ?s)))"
  define f where "f = foldl permission_step a (map (\<lambda>n. (env, QueryFinally n)) (map oq_id (pq_open ?s)))"
  have t: "t = foldl permission_step f (map (\<lambda>n. (env, GroupSettled n)) (map qg_id (pq_groups ?s)))"
    by (simp add: t_def f_def a_def permission_run_def answer_events_def comp_def)
  note a = answers_phase [OF asks_run a_def]
  have none: "unanswered a = {}" using a(2) by (auto simp: unanswered_def)
  note f = finally_phase [OF a(1) none f_def]
  have open_f: "pq_open f = []" using f(2) a(3) by (auto simp: filter_empty_conv)
  note g = group_phase [OF f(1) open_f t]
  have "pq_groups t = []" using g(3) f(3) a(4) by (auto simp: filter_empty_conv)
  with quiet_store [OF g(1,2)] g(2) show ?thesis by simp
qed

section \<open>Chunks\<close>

text \<open>C9: A large request is cut into reads the backend accepts: the chunks hold the targets in their order, none is empty,
  and each has at most \<open>MAX_PERMISSION_QUERY_ITEMS\<close> checks unless it is a single target that is larger alone.\<close>

theorem chunks_fit_the_limit:
  "concat (splitNamespaceTargets targets) = targets \<and>
   list_all (\<lambda>chunk. chunk \<noteq> [] \<and> (chunk_checks chunk \<le> MAX_PERMISSION_QUERY_ITEMS \<or> length chunk = 1))
     (splitNamespaceTargets targets)"
  using split_bounded [of 0 "[]" _ targets] split_nonempty [of _ "[]" 0 targets]
  by (auto simp: splitNamespaceTargets_def split_concat list_all_iff chunk_checks_def)

section \<open>Keys\<close>

lemma first_part: "c \<notin> set a \<Longrightarrow> c \<notin> set b \<Longrightarrow> a @ c # x = b @ c # y \<longleftrightarrow> a = b \<and> x = y"
proof (induction a arbitrary: b)
  case Nil
  then show ?case by (cases b) auto
next
  case (Cons d a)
  then show ?case by (cases b) auto
qed

lemma lower_bar: "CHR ''|'' \<in> set (toLowerCase s) \<longleftrightarrow> CHR ''|'' \<in> set s"
proof -
  have "js_lower c = CHR ''|'' \<longleftrightarrow> c = CHR ''|''" for c
  proof
    assume bar: "js_lower c = CHR ''|''"
    have "(of_char (js_lower c) :: nat) = 124" unfolding bar by simp
    moreover have "(of_char c :: nat) < 256" by simp
    ultimately have "js_lower c = c" by (auto simp: js_lower_def Let_def split: if_splits)
    with bar show "c = CHR ''|''" by simp
  qed (simp add: js_lower_def)
  then show ?thesis by (simp add: toLowerCase_def image_iff eq_commute [of "CHR ''|''"])
qed

lemma builtin_rows_trimmed:
  "list_all (\<lambda>(kind, grp, version). trim grp = grp \<and> trim version = version) BUILTIN_KIND_GROUP_VERSIONS"
  by code_simp

lemma builtin_trimmed:
  assumes "resolveBuiltinGroupVersion kind = Some (grp, version)"
  shows "trim grp = grp" "trim version = version"
proof -
  have "\<exists>k. (k, grp, version) \<in> set BUILTIN_KIND_GROUP_VERSIONS"
    using assms by (auto simp: resolveBuiltinGroupVersion_def Let_def find_Some_iff dest: map_of_SomeD
        split: if_splits option.splits) (metis nth_mem)
  then show "trim grp = grp" "trim version = version"
    using builtin_rows_trimmed by (auto simp: list_all_iff)
qed

text \<open>Resolving a group and version that were resolved changes nothing.\<close>

lemma resolve_again:
  assumes "resolvePermissionGVK kind g v = (grp, version)"
  shows "resolvePermissionGVK kind (Some grp) (Some version) = (grp, version)"
  using assms builtin_trimmed [of kind]
  by (auto simp: resolvePermissionGVK_def Let_def text_or_empty_def split: if_splits option.splits)

text \<open>Scopes that have one key: no namespace twice, namespaces that are the same up to letter case, and no namespace
  with a namespace called \<open>cluster\<close>, the word the key has for a missing one.\<close>

fun same_scope :: "string option \<Rightarrow> string option \<Rightarrow> bool" where
  "same_scope None None = True"
| "same_scope (Some a) (Some b) = (toLowerCase a = toLowerCase b)"
| "same_scope (Some a) None = (toLowerCase a = ''cluster'')"
| "same_scope None (Some b) = (toLowerCase b = ''cluster'')"

definition scope_word :: "string option \<Rightarrow> string" where
  "scope_word namespace = toLowerCase (case namespace of None \<Rightarrow> ''cluster'' | Some a \<Rightarrow> a)"

lemma scope_words: "scope_word a = scope_word b \<longleftrightarrow> same_scope a b"
proof -
  have "toLowerCase ''cluster'' = ''cluster''" by code_simp
  then show ?thesis by (cases a; cases b) (auto simp: scope_word_def)
qed

text \<open>Names that keep the separators of the key out.\<close>

definition plain_check :: "normalized_check \<Rightarrow> bool" where
  "plain_check n \<longleftrightarrow>
     list_all (\<lambda>s. CHR ''|'' \<notin> set s)
       [nc_cluster n, nc_group n, nc_version n, nc_kind n, nc_verb n, text_or_empty (nc_namespace n)] \<and>
     CHR ''/'' \<notin> set (nc_group n)"

lemma normalized_key:
  assumes "normalizeCheck s check = Some n"
  shows "nc_id n = nc_cluster n @ ''|'' @ nc_group n @ ''/'' @ nc_version n @ ''|'' @ toLowerCase (nc_kind n) @ ''|'' @
    toLowerCase (nc_verb n) @ ''|'' @ scope_word (nc_namespace n) @ ''|'' @ toLowerCase (text_or_empty (nc_subresource n))"
proof -
  obtain grp version where gv: "resolvePermissionGVK (ck_kind check) (ck_group check) (ck_version check) = (grp, version)"
    by fastforce
  have lower: "toLowerCase ''cluster'' = ''cluster''" "toLowerCase [] = []" by code_simp+
  show ?thesis
    using assms resolve_again [OF gv]
    by (auto simp: normalizeCheck_def Let_def gv getPermissionKey_def truthy_def scope_word_def text_or_empty_def lower
        split: if_splits option.splits)
qed

text \<open>C10: Two checks share a stored result exactly when they ask the same. Take two checks whose cluster, group,
  version, kind, verb and namespace have no \<open>|\<close> in them, and whose group has no \<open>/\<close>. They have one key exactly when the
  cluster, the group and the version are equal letter by letter, once the built-in kinds are filled in, and the kind, the
  verb and the subresource are equal up to letter case, and so are the namespaces or neither has one; only a check
  without a namespace also shares its key with the one for a namespace called \<open>cluster\<close>.\<close>

theorem checks_share_keys_when_alike:
  assumes "normalizeCheck s check = Some n" "normalizeCheck s' check' = Some n'" "plain_check n" "plain_check n'"
  shows "nc_id n = nc_id n' \<longleftrightarrow>
    nc_cluster n = nc_cluster n' \<and> nc_group n = nc_group n' \<and> nc_version n = nc_version n' \<and>
    toLowerCase (nc_kind n) = toLowerCase (nc_kind n') \<and> toLowerCase (nc_verb n) = toLowerCase (nc_verb n') \<and>
    same_scope (nc_namespace n) (nc_namespace n') \<and>
    toLowerCase (text_or_empty (nc_subresource n)) = toLowerCase (text_or_empty (nc_subresource n'))"
proof -
  have scope: "CHR ''|'' \<notin> set (scope_word (nc_namespace m))" if "plain_check m" for m
  proof -
    have "CHR ''|'' \<notin> set ''cluster''" by simp
    with that show ?thesis
      by (cases "nc_namespace m") (auto simp: scope_word_def lower_bar plain_check_def text_or_empty_def)
  qed
  show ?thesis
    unfolding normalized_key [OF assms(1)] normalized_key [OF assms(2)] scope_words [symmetric]
    using assms(3,4) scope [OF assms(3)] scope [OF assms(4)]
    by (auto simp: plain_check_def first_part lower_bar)
qed

text \<open>A check by its kind, namespace and version.\<close>

definition sample_check :: "string \<Rightarrow> string option \<Rightarrow> string option \<Rightarrow> permission_check" where
  "sample_check kind namespace version =
     \<lparr>ck_cluster = ''c'', ck_kind = kind, ck_verb = ''delete'', ck_namespace = namespace, ck_subresource = None,
      ck_group = None, ck_version = version\<rparr>"

definition sample_normalized :: "string \<Rightarrow> string option \<Rightarrow> string option \<Rightarrow> normalized_check" where
  "sample_normalized kind namespace version = the (normalizeCheck new_permission_store (sample_check kind namespace version))"

lemma sample_fields:
  assumes "kind \<noteq> []"
  shows "normalizeCheck new_permission_store (sample_check kind namespace version) =
      Some (sample_normalized kind namespace version)"
    "nc_cluster (sample_normalized kind namespace version) = ''c''" "nc_kind (sample_normalized kind namespace version) = kind"
    "nc_verb (sample_normalized kind namespace version) = ''delete''"
    "nc_namespace (sample_normalized kind namespace version) = truthy namespace"
    "nc_subresource (sample_normalized kind namespace version) = None"
    "nc_group (sample_normalized kind namespace version) = fst (resolvePermissionGVK kind None version)"
    "nc_version (sample_normalized kind namespace version) = snd (resolvePermissionGVK kind None version)"
  using assms
  by (simp_all add: sample_normalized_def normalizeCheck_def sample_check_def Let_def truthy_def split: prod.split)

text \<open>One key for a kind in another case with its version spelled out, another key in another namespace.\<close>

theorem checks_share_keys_when_alike_witness:
  "nc_id (sample_normalized ''Pod'' (Some ''Prod'') None) = nc_id (sample_normalized ''pod'' (Some ''prod'') (Some ''v1'')) \<and>
   nc_id (sample_normalized ''Pod'' (Some ''Prod'') None) \<noteq> nc_id (sample_normalized ''Pod'' (Some ''dev'') None)"
proof -
  let ?a = "sample_normalized ''Pod'' (Some ''Prod'') None" and ?b = "sample_normalized ''pod'' (Some ''prod'') (Some ''v1'')"
    and ?c = "sample_normalized ''Pod'' (Some ''dev'') None"
  have gvk: "resolvePermissionGVK ''Pod'' None None = ([], ''v1'')" "resolvePermissionGVK ''pod'' None (Some ''v1'') = ([], ''v1'')"
    by code_simp+
  have lower: "toLowerCase ''Pod'' = ''pod''" "toLowerCase ''pod'' = ''pod''" "toLowerCase ''Prod'' = ''prod''"
    "toLowerCase ''prod'' = ''prod''" "toLowerCase ''dev'' = ''dev''"
    by code_simp+
  have some: "''Pod'' \<noteq> []" "''pod'' \<noteq> []" by simp_all
  note fields = sample_fields [OF some(1)] sample_fields [OF some(2)] gvk lower truthy_def
  have plain: "plain_check ?a" "plain_check ?b" "plain_check ?c" by (simp_all add: plain_check_def text_or_empty_def fields)
  have "nc_id ?a = nc_id ?b"
    using checks_share_keys_when_alike [OF sample_fields(1) [OF some(1)] sample_fields(1) [OF some(2)] plain(1,2)]
    by (simp add: fields)
  moreover have "nc_id ?a \<noteq> nc_id ?c"
    using checks_share_keys_when_alike [OF sample_fields(1) [OF some(1)] sample_fields(1) [OF some(1)] plain(1,3)]
    by (simp add: fields)
  ultimately show ?thesis by (rule conjI)
qed

text \<open>The check of a namespace called \<open>cluster\<close> and the cluster-wide check have one key.\<close>

lemma namespace_cluster_shares_the_cluster_key:
  "getPermissionKey current kind verb (Some ''cluster'') sub clusterId grp version =
   getPermissionKey current kind verb None sub clusterId grp version"
proof -
  have "toLowerCase ''cluster'' = ''cluster''" by code_simp
  then show ?thesis by (simp add: getPermissionKey_def truthy_def)
qed

section \<open>Queries while auto-refresh is off\<close>

lemma recorded_errors:
  assumes "item \<in> set batch"
  shows "\<exists>e. map_of (pq_results (fold (recordQueryError reason) batch s)) (bi_id item) = Some e \<and> \<not> pe_allowed e \<and>
    pe_source e = ''error'' \<and> pe_reason e = Some reason"
  using assms
proof (induction batch rule: rev_induct)
  case (snoc x batch)
  then show ?case by (cases "bi_id x = bi_id item") (auto simp: recordQueryError_def map_of_update)
qed simp

text \<open>C11: A query sent while auto-refresh is off is not read, and it replaces what was known: whatever the backend would
  answer and whatever was granted before, every check of the query is recorded as not allowed, with the blocked read
  as its error.\<close>

theorem paused_query_overwrites_results:
  assumes "find (\<lambda>q. oq_id q = n) (pq_open s) = Some q" "oq_stage q = ClusterQuery key batch start"
    "oq_generation q = pq_generation s" "\<not> oq_auto q" "item \<in> set batch"
  shows "\<exists>e. map_of (pq_results (permission_step s (env, QueryAnswered n answer))) (bi_id item) = Some e \<and>
    \<not> pe_allowed e \<and> pe_source e = ''error'' \<and> pe_reason e = Some ''Error: auto-refresh-disabled''"
proof -
  have "queryPermissions (oq_auto q) answer = Inl ''Error: auto-refresh-disabled''"
    using assms(4) by (simp add: queryPermissions_def isDataAccessBlocked_def runsWhilePaused_def)
  then show ?thesis
    using assms recorded_errors [OF assms(5)]
    by (simp add: query_answered_def Let_def cluster_answered_def)
qed

definition sample_item :: batch_item where
  "sample_item =
     \<lparr>bi_id = ''k'', bi_cluster = ''c'', bi_group = [], bi_version = ''v1'', bi_kind = ''Node'', bi_verb = ''list'',
      bi_namespace = [], bi_subresource = [], bi_name = [], bi_feature = ''cluster.nodes''\<rparr>"

definition sample_query :: open_query where
  "sample_query = \<lparr>oq_id = 0, oq_generation = 0, oq_auto = False, oq_stage = ClusterQuery ''c|__cluster__'' [sample_item] 0\<rparr>"

definition sample_store :: permission_store where
  "sample_store = recordPermissionResult
     (new_permission_store\<lparr>pq_open := [sample_query], pq_in_flight := [''c|__cluster__''], pq_next := 1\<rparr>)
     \<lparr>qr_id = ''k'', qr_cluster = ''c'', qr_group = None, qr_version = None, qr_kind = ''Node'', qr_verb = ''list'',
      qr_namespace = [], qr_subresource = [], qr_name = [], qr_allowed = True, qr_source = ''ssar'', qr_reason = [],
      qr_error = []\<rparr> None"

theorem paused_query_overwrites_results_witness:
  "map_option pe_allowed (map_of (pq_results sample_store) ''k'') = Some True \<and>
   (\<exists>e. map_of (pq_results (permission_step sample_store (\<lparr>pv_now = 5, pv_auto = False\<rparr>, QueryAnswered 0 RespondsNothing)))
       (bi_id sample_item) = Some e \<and>
     \<not> pe_allowed e \<and> pe_source e = ''error'' \<and> pe_reason e = Some ''Error: auto-refresh-disabled'')"
proof
  show "map_option pe_allowed (map_of (pq_results sample_store) ''k'') = Some True"
    by (simp add: sample_store_def recordPermissionResult_def new_permission_store_def)
  show "\<exists>e. map_of (pq_results (permission_step sample_store (\<lparr>pv_now = 5, pv_auto = False\<rparr>, QueryAnswered 0 RespondsNothing)))
       (bi_id sample_item) = Some e \<and>
     \<not> pe_allowed e \<and> pe_source e = ''error'' \<and> pe_reason e = Some ''Error: auto-refresh-disabled''"
    by (rule paused_query_overwrites_results [of 0 sample_store sample_query "''c|__cluster__''" "[sample_item]" 0])
      (simp_all add: sample_store_def sample_query_def recordPermissionResult_def new_permission_store_def)
qed

end
