(* ===== verification/Spec2Isabelle.thy ===== *)
theory Spec2Isabelle
  imports
    Scope_Codec Refresh_Intent Runtime_Contracts
    Refresh_Store Snapshot_Merge Cursor_Walk Metrics_Demand
    Stream_Contracts Stream_Manager_Contracts Log_Contracts Workspace_Contracts Tab_Contracts Line_Diff_Contracts
    Orchestrator_Contracts Permission_Contracts
begin

text \<open>
  Verification development for Luxury Yacht, a desktop client for Kubernetes: the state-carrying core of its
  TypeScript frontend under \<open>src/frontend/src\<close>.

  \<^bold>\<open>The program.\<close> A Go backend talks to the clusters; the frontend asks it for snapshots of refresh domains
  (pods, nodes, events and so on) and listens to streams that announce changes. A view asks for data under a
  \<^emph>\<open>scope\<close>, a string that names a cluster and a selector. Each cluster has a \<^emph>\<open>refresh runtime\<close> with one
  record per domain and scope: who leases it, which fetch is in flight, whether it is polled, streamed,
  blocked, denied or waiting for the cluster. The \<^emph>\<open>orchestrator\<close> drives the runtimes; fetched snapshots land
  in the \<^emph>\<open>refresh store\<close>, which the views subscribe to; stream subscriptions each run a \<^emph>\<open>protocol machine\<close>.
  The \<^emph>\<open>workspace store\<close> holds which clusters are open and how they are doing, from reads, commands and
  backend events. The \<^emph>\<open>permission store\<close> asks the backend what the user may do and keeps the answers that enable
  the actions of the views. Around this core the development covers the dockable panels' tab groups, the line diff of
  the YAML views and the cursor walk behind downloads.

  \<^bold>\<open>Theories and sources\<close> (paths under \<open>src/frontend/src\<close>).
    \<^item> \<open>Prelude\<close>: the JavaScript library fragment (string functions, insertion-ordered maps, \<open>splice\<close>), shared
      lemmas, the interface of a keyed record store (\<open>keyed_store\<close>, \<open>keyed_store_del\<close>) and of an event machine
      watched by a ledger (\<open>covered_ledger\<close>).
    \<^item> \<open>Scope_Codec\<close>: \<open>core/refresh/scopeSelector.ts\<close>, \<open>clusterScope.ts\<close>, \<open>scopeNormalization.ts\<close> and the scope
      grammars of \<open>types.generated.ts\<close>. Building and parsing scopes are inverse to each other.
    \<^item> \<open>Refresh_Intent\<close>, \<open>Scoped_Machines\<close>, \<open>Refresh_Runtime\<close>: \<open>refreshIntent.ts\<close> and all of
      \<open>refreshRuntime.ts\<close>: the state machines of one scope (\<open>transitionScoped\<dots>\<close>) and every method of
      \<open>ClusterRefreshRuntime\<close>, as functions on the record \<open>cluster_runtime\<close>.
    \<^item> \<open>Runtime_Records\<close> to \<open>Runtime_Contracts\<close>: the record store behind the runtime as an instance of
      \<open>keyed_store_del\<close>, the sweeps over it, the lease table it refines, the step relation over all calls,
      and the properties of fetches, stream starts, blocks, deferred requests, timers and permissions.
    \<^item> \<open>Refresh_Store\<close> (\<open>store.ts\<close>), \<open>Json_Rows\<close> (\<open>shared/utils/structuralShareResourceRows.ts\<close>,
      \<open>resourceRowIdentity.ts\<close>), \<open>Snapshot_Merge\<close> (\<open>snapshotMerge.ts\<close>): the snapshot store, again a
      \<open>keyed_store_del\<close>, and the reuse of row objects, which never changes what a view shows.
    \<^item> \<open>Metrics_Demand\<close>: \<open>metricsDemandState.ts\<close> and the methods of \<open>orchestrator.ts\<close> around it.
    \<^item> \<open>Stream_Protocol\<close>, \<open>Stream_Contracts\<close>: the protocol machine of \<open>streaming/resourceStreamProtocol.ts\<close>; its
      two ledgers (unreported changes, owed resyncs) are instances of \<open>covered_ledger\<close>.
    \<^item> \<open>Stream_Domains\<close>: \<open>streaming/resourceStreamDomains.ts\<close> with the tables of the domain contract, the
      normalization of wire messages in \<open>resourceStreamProtocol.ts\<close>.
    \<^item> \<open>Error_Status\<close>: \<open>utils/errorStatus.ts\<close>, \<open>core/refresh/permissionErrors.ts\<close> and \<open>refreshFailure.ts\<close>.
    \<^item> \<open>Stream_Manager\<close>: \<open>streaming/resourceStreamManager.ts\<close>, \<open>resourceStreamSubscriptions.ts\<close>,
      \<open>resourceStreamConnection.ts\<close> and \<open>resourceStreamHealth.ts\<close>, as one state (record \<open>stream_manager\<close>) with
      subscription and connection objects behind numbers, so that late callbacks of replaced objects are in the
      model. Calls that re-enter the manager go through \<open>run_call\<close>; one step of the whole component is
      \<open>manager_step\<close>.
    \<^item> \<open>Stream_Manager_Inv\<close>, \<open>Stream_Connection_Inv\<close>, \<open>Stream_Manager_Calls\<close>, \<open>Stream_Manager_Ops\<close>,
      \<open>Stream_Manager_Contracts\<close>: the invariant of the manager, the contract of \<open>subscribe\<close> as the locale
      \<open>subscribe_contract\<close> with an instance for an existing and one for a missing connection, its preservation by every
      operation, and the properties.
    \<^item> \<open>Log_Buffer\<close>, \<open>Log_Protocol\<close>, \<open>Log_Manager\<close>: the container logs, \<open>streaming/containerLogsStreamManager.ts\<close>,
      \<open>containerLogsStreamProtocol.ts\<close> and \<open>containerLogsStreamScopeParams.ts\<close>: the line buffer, the protocol with its
      frame validation, and the manager as one state (record \<open>log_manager\<close>) with a step per event (\<open>log_step\<close>).
    \<^item> \<open>Log_Order\<close>, \<open>Log_Counts\<close>, \<open>Log_Resume\<close>: the buffer sorts stably, counts what it holds (the counters are a
      locale, \<open>held_index\<close>, with the pods and the containers as instances), evicts the oldest lines and resumes at the
      tails. \<open>Log_Views\<close>, \<open>Log_Connections\<close>, \<open>Log_Contracts\<close>: the invariants of the views and of the sockets, and the
      properties.
    \<^item> \<open>Workspace_Store\<close>, \<open>Workspace_Calls\<close>, \<open>Workspace_Reads\<close>, \<open>Workspace_Contracts\<close>:
      \<open>core/cluster-workspace/clusterWorkspaceStore.ts\<close> and \<open>core/contexts/clusterLifecycleState.ts\<close>; any
      interleaving of calls, events and answers is a list of \<open>ws_call\<close>s.
    \<^item> \<open>Tab_Groups\<close>, \<open>Tab_Placement\<close>, \<open>Tab_Contracts\<close>: \<open>ui/dockable/tabGroupState.ts\<close>.
    \<^item> \<open>Line_Diff\<close>, \<open>Myers_Frontier\<close>, \<open>Line_Diff_Contracts\<close>: \<open>shared/components/diff/lineDiff.ts\<close>; exact,
      minimal and within its budgets.
    \<^item> \<open>Cursor_Walk\<close>: \<open>modules/resource-grid/cursorPageWalk.ts\<close>.
    \<^item> \<open>Domain_Registry\<close>, \<open>Refresh_Errors\<close>: the policy table of \<open>types.generated.ts\<close> with \<open>domainRegistry.ts\<close> and
      \<open>domainRegistrations.ts\<close>, and \<open>refreshErrorNotifier.ts\<close>.
    \<^item> \<open>Orchestrator_State\<close>, \<open>Orchestrator_Reads\<close>, \<open>Orchestrator_Streams\<close>, \<open>Orchestrator\<close>: all of
      \<open>core/refresh/orchestrator.ts\<close>, as one state (record \<open>orch\<close>) that holds the runtimes, the store, the error
      notifier, metrics demand, and what handlers leave behind: timers, microtasks, stream starts, reads with the stage
      they wait at, polls and manual refreshes. One step of the event loop is \<open>orch_step\<close>.
    \<^item> \<open>Orchestrator_Frames\<close> to \<open>Orchestrator_Machine\<close>: well-formed states (\<open>orch_wf\<close>; among others, a read that can
      still commit is the one its record tracks) and what each operation leaves alone (\<open>st_frame\<close>: reads, polls or streams). \<open>Orchestrator_Polls\<close>, \<open>Orchestrator_Polling\<close>: polling follows the leases.
      \<open>Orchestrator_Contracts\<close>: the properties.
    \<^item> \<open>Permission_Specs\<close>: what is asked about permissions and how an answer reads, \<open>core/capabilities/permissionSpecs.ts\<close>,
      \<open>permissionRead.ts\<close>, \<open>transientPermissionErrors.ts\<close>, \<open>capabilityState.ts\<close>, \<open>utils.ts\<close> and
      \<open>shared/constants/builtinGroupVersions.ts\<close>.
    \<^item> \<open>Permission_Store\<close>: all of \<open>core/capabilities/permissionStore.ts\<close> as one state (record \<open>permission_store\<close>); a query
      is an open entry with the stage it waits at, and one round of the event loop is \<open>permission_step\<close>.
    \<^item> \<open>Permission_Grants\<close>: where recorded and shown grants come from. \<open>Permission_Asks\<close>, \<open>Permission_Settles\<close>: the
      invariant \<open>asks_ok\<close> of open queries, pending items and the shown map, kept by every step.
      \<open>Permission_Contracts\<close>: the properties; the ledger of grants is an instance of \<open>covered_ledger\<close>.

  \<^bold>\<open>Model choices.\<close> Objects compared by identity (promises, timers, rows, start tasks) carry an explicit
  number. A method with effects returns the changed state and its effects as values: events and notifications
  are appended to a list in the state, cancelled timers and requests are results. An asynchronous method is
  split where it waits; what its closure captured is part of the state (open reads, pending requests). Calls do
  not interrupt each other, as in JavaScript, and listeners do not call back into the component during a
  notification. Thrown errors are the left side of a sum or a constructor of an outcome type. Numbers are
  unbounded where the source cannot reach \<open>2 ^ 53\<close>: counters, millisecond times and list lengths. Code that is
  not in the repository's sources, such as the backend's answers, is a parameter or an argument of an event. Log
  lines are lists of UTF-16 units (\<open>16 word\<close>), because the byte limit depends on surrogate pairs. What the logs assume of the
  backend is \<open>snapshot_ok\<close>: a fresh snapshot comes in time order and leaves out no negative number of lines.

  \<^bold>\<open>Loops and fuel.\<close> All definitions are total. The cursor walk recurses on the source's own page limit of
  100000. The searches that end for a less obvious reason have their termination proofs: the unused floating
  id (finitely many ids are in use) and the loops of the diff (bounded by the lines of the left text). The
  diff's work budget is an argument, and \<open>line_diff_within_budgets\<close> gives an amount that always suffices. The mutual
  calls of the stream manager run with a depth of 20, and \<open>manager_calls_return\<close> shows that no call from a reachable
  state uses it up: opening a socket can fail and run the error handlers, but those find the connection already there.

  \<^bold>\<open>Behaviour worth knowing\<close>, proved as theorems: a namespace called \<open>all\<close> reads as all namespaces
  (\<open>namespace_all_reads_as_all_namespaces\<close>); a stream start that completes for a deleted record counts as a
  success (\<open>finish_without_record_reports_success\<close>); a clock drift on the very last page of a walk gives an empty
  download without a warning (\<open>walk_empty_on_late_drift\<close>); a hold released after a restart can end a later hold
  (\<open>old_hold_releases_new_one\<close>); a close event of an abandoned socket makes the connection leak another one
  (\<open>late_close_leaks_a_socket\<close>); a permission query sent while auto-refresh is off turns what was known into denials
  (\<open>paused_query_overwrites_results\<close>); a namespace called \<open>cluster\<close> shares its permission results with the whole
  cluster (\<open>namespace_cluster_shares_the_cluster_key\<close>).

  \<^bold>\<open>Not modelled.\<close> The panel publication queue. React components and hooks, the generated bindings and the Go backend are outside: the first
  only render and wire up what is modelled here, the others are separate programs.
\<close>

end
